(* ===== verification/Prelude.thy ===== *)
theory Prelude
  imports Main "HOL-Library.Word" "HOL-Library.Monad_Syntax" "HOL-Library.Multiset"
begin

text \<open>
  What the components share: the widths of the machine integers, the result codes of
  \<^verbatim>\<open>tuya_error_code.h\<close> that the modelled code returns, memory copies and array
  accesses that fail instead of leaving the array, and arithmetic modulo \<open>2 ^ 32\<close> on
  natural numbers.

  A definition that touches an array or a buffer has a result in \<open>option\<close>: \<open>None\<close>
  is an access outside the object (undefined behaviour in C), so that \<open>Some\<close> in a
  theorem is also a memory-safety statement.
\<close>

unbundle bit_operations_syntax

section \<open>Machine integers and result codes\<close>

type_synonym u8 = "8 word"
type_synonym u16 = "16 word"
type_synonym u32 = "32 word"

datatype oprt =
    OPRT_OK
  | OPRT_COM_ERROR
  | OPRT_INVALID_PARM
  | OPRT_MALLOC_FAILED
  | OPRT_NOT_SUPPORTED
  | OPRT_NOT_FOUND
  | OPRT_EXCEED_UPPER_LIMIT
  | OPRT_OS_ADAPTER_INVALID_PARM
  | OPRT_OS_ADAPTER_COM_ERROR
  | OPRT_OS_ADAPTER_OTA_START_INFORM_FAILED
  | OPRT_OS_ADAPTER_OTA_PKT_SIZE_FAILED
  | OPRT_OS_ADAPTER_OTA_PROCESS_FAILED
  | OPRT_OS_ADAPTER_OTA_END_INFORM_FAILED

named_theorems chk_simps \<open>checked array and memory accesses, inside their bounds\<close>

section \<open>Checked memory accesses\<close>

text \<open>\<open>memcpy dst d src s n\<close> copies \<open>n\<close> elements of \<open>src\<close> from index \<open>s\<close> to index \<open>d\<close>
  of \<open>dst\<close>; \<open>None\<close> if either range leaves its object.\<close>

definition memcpy :: "'a list \<Rightarrow> nat \<Rightarrow> 'a list \<Rightarrow> nat \<Rightarrow> nat \<Rightarrow> 'a list option" where
  "memcpy dst d src s n =
     (if d + n \<le> length dst \<and> s + n \<le> length src
      then Some (take d dst @ take n (drop s src) @ drop (d + n) dst) else None)"

definition aget :: "'a list \<Rightarrow> nat \<Rightarrow> 'a option" where
  "aget xs i = (if i < length xs then Some (xs ! i) else None)"

definition aset :: "'a list \<Rightarrow> nat \<Rightarrow> 'a \<Rightarrow> 'a list option" where
  "aset xs i x = (if i < length xs then Some (xs[i := x]) else None)"

lemma memcpy_in_bounds [chk_simps]:
  "d + n \<le> length dst \<Longrightarrow> s + n \<le> length src \<Longrightarrow>
   memcpy dst d src s n = Some (take d dst @ take n (drop s src) @ drop (d + n) dst)"
  by (simp add: memcpy_def)

lemma memcpy_SomeD:
  "memcpy dst d src s n = Some r \<Longrightarrow>
   d + n \<le> length dst \<and> s + n \<le> length src \<and>
   r = take d dst @ take n (drop s src) @ drop (d + n) dst"
  by (simp add: memcpy_def split: if_splits)

lemma length_memcpy: "memcpy dst d src s n = Some r \<Longrightarrow> length r = length dst"
  by (auto dest!: memcpy_SomeD)

lemma aget_in_bounds [chk_simps]: "i < length xs \<Longrightarrow> aget xs i = Some (xs ! i)"
  by (simp add: aget_def)

lemma aset_in_bounds [chk_simps]: "i < length xs \<Longrightarrow> aset xs i x = Some (xs[i := x])"
  by (simp add: aset_def)

section \<open>Unsigned 32-bit arithmetic on natural numbers\<close>

text \<open>Addresses and sizes of the allocator are natural numbers below \<open>2 ^ 32\<close>
  (\<^verbatim>\<open>unsigned long\<close> of the ARM target); every operation that can wrap says so.\<close>

definition add32 :: "nat \<Rightarrow> nat \<Rightarrow> nat" where
  "add32 a b = (a + b) mod 2 ^ 32"

definition sub32 :: "nat \<Rightarrow> nat \<Rightarrow> nat" where
  "sub32 a b = (a + (2 ^ 32 - b mod 2 ^ 32)) mod 2 ^ 32"

named_theorems arith32 \<open>32-bit operations that do not wrap\<close>

lemma add32_nowrap [arith32]: "a + b < 4294967296 \<Longrightarrow> add32 a b = a + b"
  by (simp add: add32_def)

lemma add32_wrap:
  "4294967296 \<le> a + b \<Longrightarrow> a < 4294967296 \<Longrightarrow> b < 4294967296 \<Longrightarrow> add32 a b = a + b - 4294967296"
  using le_mod_geq [of 4294967296 "a + b"] by (simp add: add32_def)

lemma sub32_nowrap [arith32]: "b \<le> a \<Longrightarrow> a < 4294967296 \<Longrightarrow> sub32 a b = a - b"
  by (simp add: sub32_def mod_if)

lemma add32_less [simp]: "add32 a b < 4294967296"
  by (simp add: add32_def)

lemma sub32_less [simp]: "sub32 a b < 4294967296"
  by (simp add: sub32_def)

section \<open>Lists\<close>

lemma take_update_drop:
  "i < length xs \<Longrightarrow> xs[i := x] = take i xs @ x # drop (Suc i) xs"
  by (rule upd_conv_take_nth_drop)

lemma drop_overwritten:
  "length xs = j \<Longrightarrow> j \<le> k \<Longrightarrow> drop k (xs @ drop j ys) = drop k ys"
  by simp

lemma sum_list_update_nat:
  "i < length xs \<Longrightarrow> sum_list (xs[i := (x::nat)]) + xs ! i = sum_list xs + x"
  by (subst upd_conv_take_nth_drop, assumption)
     (subst (3) id_take_nth_drop, assumption, simp)

section \<open>Widening\<close>

lemma unat_ucast_u8: "unat (ucast (x :: u8) :: u32) = unat x"
  using unsigned_less [of x, where ?'a = nat] by (simp add: unsigned_ucast_eq take_bit_eq_mod)

section \<open>Counted loops\<close>

text \<open>\<open>for_range i n f s\<close> is the loop \<^verbatim>\<open>for (k = i; k < i + n; k++) s = f(k, s)\<close>.\<close>

primrec for_range :: "nat \<Rightarrow> nat \<Rightarrow> (nat \<Rightarrow> 's \<Rightarrow> 's option) \<Rightarrow> 's \<Rightarrow> 's option" where
  "for_range i 0 f s = Some s"
| "for_range i (Suc n) f s = do { s \<leftarrow> f i s; for_range (Suc i) n f s }"

lemma for_range_inv:
  assumes "P i s" and "\<And>k s. i \<le> k \<Longrightarrow> k < i + n \<Longrightarrow> P k s \<Longrightarrow> \<exists>t. f k s = Some t \<and> P (Suc k) t"
  shows "\<exists>t. for_range i n f s = Some t \<and> P (i + n) t"
  using assms
proof (induction n arbitrary: i s)
  case (Suc n)
  obtain t where t: "f i s = Some t" "P (Suc i) t" using Suc.prems(2) [of i s] Suc.prems(1) by auto
  have "\<exists>u. for_range (Suc i) n f t = Some u \<and> P (Suc i + n) u"
  proof (rule Suc.IH)
    show "\<exists>u. f k s = Some u \<and> P (Suc k) u" if "Suc i \<le> k" "k < Suc i + n" "P k s" for k s
      using Suc.prems(2) [of k s] that by simp
  qed (rule t(2))
  then show ?case using t(1) by simp
qed simp

lemma for_range_fold:
  assumes "\<And>k s. i \<le> k \<Longrightarrow> k < i + n \<Longrightarrow> f k s = Some (g k s)"
  shows "for_range i n f s = Some (fold g [i..<i + n] s)"
  using assms
proof (induction n arbitrary: i s)
  case (Suc n)
  have "for_range (Suc i) n f (g i s) = Some (fold g [Suc i..<Suc i + n] (g i s))"
    using Suc.prems by (intro Suc.IH) simp
  then show ?case using Suc.prems [of i s] by (simp add: upt_conv_Cons del: upt_Suc)
qed simp

text \<open>A loop on a part of the state.\<close>

lemma for_range_lift:
  assumes "\<And>i b. f i b = map_option (\<lambda>d. put d b) (g i (get b))"
    and "\<And>b. put (get b) b = b" "\<And>d b. get (put d b) = d" "\<And>d e b. put e (put d b) = put e b"
  shows "for_range i n f b = map_option (\<lambda>d. put d b) (for_range i n g (get b))"
proof (induction n arbitrary: i b)
  case (Suc n)
  have "f i b = map_option (\<lambda>d. put d b) (g i (get b))" by (rule assms(1))
  then show ?case by (cases "g i (get b)") (simp_all add: Suc.IH assms(3,4))
qed (simp add: assms(2))

lemma unat_u32: "n < 4294967296 \<Longrightarrow> unat (of_nat n :: u32) = n"
  by (simp add: unat_of_nat)

lemma of_nat_u32_eq: "a < 4294967296 \<Longrightarrow> b < 4294967296 \<Longrightarrow> (of_nat a :: u32) = of_nat b \<longleftrightarrow> a = b"
  by (metis unat_u32)

lemma of_nat_u32_less: "a < 4294967296 \<Longrightarrow> b < 4294967296 \<Longrightarrow> (of_nat a :: u32) < of_nat b \<longleftrightarrow> a < b"
  by (simp add: word_less_nat_alt unat_u32)

lemma of_nat_u32_le: "a < 4294967296 \<Longrightarrow> b < 4294967296 \<Longrightarrow> (of_nat a :: u32) \<le> of_nat b \<longleftrightarrow> a \<le> b"
  by (simp add: word_le_nat_alt unat_u32)

text \<open>Subtracting one clears the lowest set bit and sets the bits below it.\<close>

lemma and_minus_one_bits:
  fixes x :: u32
  assumes "bit x m" and "\<forall>k<m. \<not> bit x k"
  shows "bit (x AND (x - 1)) k \<longleftrightarrow> bit x k \<and> k \<noteq> m"
proof -
  have m: "m < 32" using assms(1) bit_imp_le_length by fastforce
  have "x - 2 ^ m = x AND NOT (2 ^ m)"
    by (rule disjunctive_diff_eq_and_not [symmetric, THEN sym])
       (use assms(1) in \<open>auto intro!: bit_eqI simp: bit_simps\<close>)
  moreover have "(x AND NOT (2 ^ m)) + mask m = (x AND NOT (2 ^ m)) OR mask m"
    by (rule disjunctive_add_eq_or) (use assms(2) in \<open>auto intro!: bit_eqI simp: bit_simps\<close>)
  moreover have "x - 1 = (x - 2 ^ m) + mask m" by (simp add: mask_eq_exp_minus_1)
  ultimately have "x - 1 = (x AND NOT (2 ^ m)) OR mask m" by simp
  then show ?thesis using assms m
    by (auto simp: bit_simps dest: bit_imp_le_length)
qed

text \<open>The test for a power of two.\<close>

lemma power_of_two:
  fixes x :: u32
  assumes "x AND (x - 1) = 0" "x \<noteq> 0"
  shows "\<exists>k < 32. x = 2 ^ k"
proof -
  obtain n where n: "bit x n" using assms(2) bit_eqI [of x 0] by auto
  define m where "m = (LEAST n. bit x n)"
  have m: "bit x m" "\<forall>k<m. \<not> bit x k"
    using LeastI [of "bit x", OF n] not_less_Least [of _ "bit x"] unfolding m_def by blast+
  have "m < 32" using m(1) bit_imp_le_length by fastforce
  moreover have "x = 2 ^ m"
  proof (rule bit_eqI)
    fix k
    have "bit x k \<longleftrightarrow> k = m"
      using and_minus_one_bits [OF m, of k] m(1) unfolding assms(1) by auto
    then show "bit x k \<longleftrightarrow> bit (2 ^ m :: u32) k" using \<open>m < 32\<close> by (auto simp: bit_exp_iff)
  qed
  ultimately show ?thesis by blast
qed

end
