(* ===== verification/Fifo.thy ===== *)
theory Fifo
  imports Prelude
begin

text \<open>
  The contract of a first-in first-out buffer, shared by the byte ring
  (\<^verbatim>\<open>tuya_ringbuf.c\<close>) and the item queue (\<^verbatim>\<open>tuya_queue.c\<close>). An operation is a step that
  reports the elements it accepted and the elements it delivered; the one law says that
  a step moves elements from the back to the front of the contents and nowhere else.
\<close>

fun fifo_run ::
  "('s \<Rightarrow> 'op \<Rightarrow> ('s \<times> 'a list \<times> 'a list) option) \<Rightarrow> 's \<Rightarrow> 'op list
     \<Rightarrow> ('s \<times> 'a list \<times> 'a list) option" where
  "fifo_run step s [] = Some (s, [], [])"
| "fifo_run step s (x # xs) =
     do {
       (s1, acc, del) \<leftarrow> step s x;
       (s2, acc', del') \<leftarrow> fifo_run step s1 xs;
       Some (s2, acc @ acc', del @ del')
     }"

text \<open>A run whose every operation is legal in the state it is applied to.\<close>

fun legal_run ::
  "('s \<Rightarrow> 'op \<Rightarrow> ('s \<times> 'a list \<times> 'a list) option) \<Rightarrow> ('s \<Rightarrow> 'op \<Rightarrow> bool) \<Rightarrow> 's \<Rightarrow> 'op list \<Rightarrow> bool" where
  "legal_run step legal s [] = True"
| "legal_run step legal s (x # xs) =
     (legal s x \<and> (case step s x of None \<Rightarrow> True | Some (s1, _, _) \<Rightarrow> legal_run step legal s1 xs))"

lemma legal_run_static: "list_all P xs \<Longrightarrow> legal_run step (\<lambda>_. P) s xs"
  by (induction xs arbitrary: s) (auto split: option.split)

locale fifo =
  fixes step :: "'s \<Rightarrow> 'op \<Rightarrow> ('s \<times> 'a list \<times> 'a list) option"
    and contents :: "'s \<Rightarrow> 'a list"
    and invar :: "'s \<Rightarrow> bool"
    and legal :: "'s \<Rightarrow> 'op \<Rightarrow> bool"
  assumes step_total: "invar s \<Longrightarrow> legal s x \<Longrightarrow> \<exists>r. step s x = Some r"
    and step_invar: "invar s \<Longrightarrow> legal s x \<Longrightarrow> step s x = Some (s', acc, del) \<Longrightarrow> invar s'"
    and step_moves: "invar s \<Longrightarrow> legal s x \<Longrightarrow> step s x = Some (s', acc, del) \<Longrightarrow>
      contents s @ acc = del @ contents s'"
begin

lemma run_in_order:
  "invar s \<Longrightarrow> legal_run step legal s xs \<Longrightarrow>
   \<exists>s' acc del. fifo_run step s xs = Some (s', acc, del) \<and> invar s' \<and>
     contents s @ acc = del @ contents s'"
proof (induction xs arbitrary: s)
  case Nil
  then show ?case by simp
next
  case (Cons x xs)
  then obtain s1 a d where 1: "step s x = Some (s1, a, d)"
    using step_total [of s x] by auto
  have inv1: "invar s1" and mv1: "contents s @ a = d @ contents s1"
    using Cons.prems step_invar [OF _ _ 1] step_moves [OF _ _ 1] by simp_all
  obtain s2 a' d' where 2: "fifo_run step s1 xs = Some (s2, a', d')" "invar s2"
    "contents s1 @ a' = d' @ contents s2"
    using Cons.IH [OF inv1] Cons.prems 1 by auto
  have "contents s @ (a @ a') = (d @ d') @ contents s2"
    using mv1 2(3) by (metis append.assoc)
  then show ?case using 1 2(1,2) by simp
qed

lemma run_from_empty:
  assumes "invar s" "contents s = []" "legal_run step legal s xs"
  shows "\<exists>s' acc del. fifo_run step s xs = Some (s', acc, del) \<and> acc = del @ contents s'"
  using run_in_order [OF assms(1,3)] assms(2) by auto

end

end
