(* ===== verification/Ringbuf.thy ===== *)
theory Ringbuf
  imports Fifo
begin

text \<open>
  The byte ring buffer of \<^verbatim>\<open>utilities/src/tuya_ringbuf.c\<close>. The flexible array
  \<^verbatim>\<open>buff[]\<close> is a list of bytes, positions are 16-bit words, and the arithmetic
  that C does in \<open>int\<close> before it stores into a \<^verbatim>\<open>UINT16_T\<close> is done in \<open>int\<close> here.
  The contract is that of a bounded byte queue (locale \<open>byte_fifo\<close>): what is read is
  what was accepted, in order.
\<close>

section \<open>State and operations\<close>

datatype ringbuff_type = OVERFLOW_STOP_TYPE | OVERFLOW_COVERAGE_TYPE

record ringbuff =
  rb_type :: ringbuff_type
  rb_in :: u16
  rb_out :: u16
  rb_len :: u16
  rb_buff :: "u8 list"

definition ringbuff_init :: "ringbuff \<Rightarrow> u16 \<Rightarrow> ringbuff" where
  "ringbuff_init rb len = rb\<lparr>rb_in := 0, rb_out := 0, rb_len := len\<rparr>"

text \<open>\<open>mem\<close> is what the allocator returned for the flexible array, \<open>None\<close> when it
  failed; its bytes are arbitrary.\<close>

definition tuya_ring_buff_create ::
  "u16 \<Rightarrow> ringbuff_type \<Rightarrow> bool \<Rightarrow> u8 list option \<Rightarrow> oprt \<times> ringbuff option" where
  "tuya_ring_buff_create len ty out_null mem =
     (if ty = OVERFLOW_COVERAGE_TYPE then (OPRT_NOT_SUPPORTED, None)
      else if out_null \<or> len = 0 then (OPRT_INVALID_PARM, None)
      else case mem of
             None \<Rightarrow> (OPRT_MALLOC_FAILED, None)
           | Some bytes \<Rightarrow>
               (OPRT_OK, Some (ringbuff_init
                  \<lparr>rb_type = ty, rb_in = 0, rb_out = 0, rb_len = 0, rb_buff = bytes\<rparr> len)))"

definition tuya_ring_buff_free :: "ringbuff option \<Rightarrow> oprt \<times> ringbuff option" where
  "tuya_ring_buff_free rb =
     (case rb of None \<Rightarrow> (OPRT_INVALID_PARM, None) | Some _ \<Rightarrow> (OPRT_OK, None))"

definition tuya_ring_buff_reset :: "ringbuff option \<Rightarrow> oprt \<times> ringbuff option" where
  "tuya_ring_buff_reset rb =
     (case rb of None \<Rightarrow> (OPRT_INVALID_PARM, None)
      | Some r \<Rightarrow> (OPRT_OK, Some (ringbuff_init r (rb_len r))))"

definition tuya_ring_buff_free_size_get :: "ringbuff option \<Rightarrow> u16" where
  "tuya_ring_buff_free_size_get rb =
     (case rb of None \<Rightarrow> 0
      | Some r \<Rightarrow>
          (let i = rb_in r; out = rb_out r;
               size = (if i = out then rb_len r
                       else if out > i then out - i
                       else rb_len r - (i - out))
           in size - 1))"

definition tuya_ring_buff_used_size_get :: "ringbuff option \<Rightarrow> u16" where
  "tuya_ring_buff_used_size_get rb =
     (case rb of None \<Rightarrow> 0
      | Some r \<Rightarrow>
          (let i = rb_in r; out = rb_out r
           in if i = out then 0
              else if i > out then i - out
              else rb_len r - (out - i)))"

text \<open>The write and read positions move over the linear part first; the comparison of
  \<^verbatim>\<open>rbuff->len - rbuff->in\<close> with the length is made in \<open>int\<close>, as C promotes it.\<close>

definition tuya_ring_buff_write ::
  "ringbuff option \<Rightarrow> u8 list option \<Rightarrow> u16 \<Rightarrow> (u16 \<times> ringbuff option) option" where
  "tuya_ring_buff_write rb data len =
     (case (rb, data) of
        (Some r, Some pdata) \<Rightarrow>
          if len = 0 then Some (0, rb)
          else
            let free_len = tuya_ring_buff_free_size_get rb;
                len = (if free_len < len then free_len else len)
            in if len = 0 then Some (0, rb)
               else do {
                 let tmp_len = (word_of_int (min (uint (rb_len r) - uint (rb_in r)) (uint len)) :: u16);
                 buff \<leftarrow> memcpy (rb_buff r) (unat (rb_in r)) pdata 0 (unat tmp_len);
                 let i = rb_in r + tmp_len;
                 let len = len - tmp_len;
                 (buff, i) \<leftarrow> (if len > 0
                    then do { b \<leftarrow> memcpy buff 0 pdata (unat tmp_len) (unat len); Some (b, len) }
                    else Some (buff, i));
                 let i = (if i \<ge> rb_len r then 0 else i);
                 Some (tmp_len + len, Some (r\<lparr>rb_in := i, rb_buff := buff\<rparr>))
               }
      | _ \<Rightarrow> Some (0, rb))"

text \<open>\<open>data\<close> is the caller's destination buffer; the result holds it after the copy.\<close>

definition tuya_ring_buff_read ::
  "ringbuff option \<Rightarrow> u8 list option \<Rightarrow> u16 \<Rightarrow> (u16 \<times> u8 list option \<times> ringbuff option) option" where
  "tuya_ring_buff_read rb data len =
     (case (rb, data) of
        (Some r, Some pdata) \<Rightarrow>
          if len = 0 then Some (0, data, rb)
          else
            let used_len = tuya_ring_buff_used_size_get rb;
                len = (if used_len < len then used_len else len)
            in if len = 0 then Some (0, data, rb)
               else do {
                 let tmp_len = (word_of_int (min (uint (rb_len r) - uint (rb_out r)) (uint len)) :: u16);
                 pdata \<leftarrow> memcpy pdata 0 (rb_buff r) (unat (rb_out r)) (unat tmp_len);
                 let out = rb_out r + tmp_len;
                 let len = len - tmp_len;
                 (pdata, out) \<leftarrow> (if len > 0
                    then do { p \<leftarrow> memcpy pdata (unat tmp_len) (rb_buff r) 0 (unat len); Some (p, len) }
                    else Some (pdata, out));
                 let out = (if out \<ge> rb_len r then 0 else out);
                 Some (tmp_len + len, Some pdata, Some (r\<lparr>rb_out := out\<rparr>))
               }
      | _ \<Rightarrow> Some (0, data, rb))"

definition tuya_ring_buff_peek ::
  "ringbuff option \<Rightarrow> u8 list option \<Rightarrow> u16 \<Rightarrow> (u16 \<times> u8 list option) option" where
  "tuya_ring_buff_peek rb data len =
     (case (rb, data) of
        (Some r, Some pdata) \<Rightarrow>
          if len = 0 then Some (0, data)
          else
            let out = rb_out r;
                used_len = tuya_ring_buff_used_size_get rb;
                len = (if len < used_len then len else used_len)
            in if len = 0 then Some (0, data)
               else do {
                 let tmp_len = (word_of_int (min (uint (rb_len r) - uint out) (uint len)) :: u16);
                 pdata \<leftarrow> memcpy pdata 0 (rb_buff r) (unat out) (unat tmp_len);
                 let len = len - tmp_len;
                 pdata \<leftarrow> (if len > 0 then memcpy pdata (unat tmp_len) (rb_buff r) 0 (unat len)
                           else Some pdata);
                 Some (tmp_len + len, Some pdata)
               }
      | _ \<Rightarrow> Some (0, data))"

section \<open>Well-formed rings and their contents\<close>

text \<open>\<open>ring_contents\<close> is the abstraction: the bytes from the read position to the write
  position, in reading order. One slot is always left free, so the capacity is one less
  than the length.\<close>

definition ring_ok :: "ringbuff \<Rightarrow> bool" where
  "ring_ok r \<longleftrightarrow> rb_in r < rb_len r \<and> rb_out r < rb_len r \<and> length (rb_buff r) = unat (rb_len r)"

definition ring_contents :: "ringbuff \<Rightarrow> u8 list" where
  "ring_contents r =
     (let i = unat (rb_in r); out = unat (rb_out r)
      in if out \<le> i then take (i - out) (drop out (rb_buff r))
         else drop out (rb_buff r) @ take i (rb_buff r))"

definition ring_capacity :: "ringbuff \<Rightarrow> nat" where
  "ring_capacity r = unat (rb_len r) - 1"

lemma ring_okD:
  assumes "ring_ok r"
  shows "unat (rb_in r) < unat (rb_len r)" and "unat (rb_out r) < unat (rb_len r)"
    and "length (rb_buff r) = unat (rb_len r)" and "0 < unat (rb_len r)"
    and "unat (rb_len r) < 65536"
  using assms unsigned_less [of "rb_len r", where ?'a = nat]
  by (auto simp: ring_ok_def word_less_nat_alt)

lemma length_ring_contents:
  assumes "ring_ok r"
  shows "length (ring_contents r) =
    (if unat (rb_out r) \<le> unat (rb_in r) then unat (rb_in r) - unat (rb_out r)
     else unat (rb_len r) - (unat (rb_out r) - unat (rb_in r)))"
  using ring_okD [OF assms] by (auto simp: ring_contents_def Let_def)

lemma length_ring_contents_less: "ring_ok r \<Longrightarrow> length (ring_contents r) \<le> ring_capacity r"
  using ring_okD [of r] by (auto simp: length_ring_contents ring_capacity_def)

lemma u16_less_iff: "(a :: u16) < b \<longleftrightarrow> unat a < unat b"
  by (rule word_less_nat_alt)

lemma used_size_get:
  assumes "ring_ok r"
  shows "unat (tuya_ring_buff_used_size_get (Some r)) = length (ring_contents r)"
proof -
  consider "rb_in r = rb_out r" | "unat (rb_in r) > unat (rb_out r)" | "unat (rb_in r) < unat (rb_out r)"
    by (metis linorder_neqE_nat word_unat_eq_iff)
  then show ?thesis
    using ring_okD [OF assms] length_ring_contents [OF assms]
    by cases (auto simp: tuya_ring_buff_used_size_get_def Let_def u16_less_iff unat_sub_if')
qed

lemma unat_minus_le: "unat (b :: u16) \<le> unat a \<Longrightarrow> unat (a - b) = unat a - unat b"
  by (rule unat_sub) (simp add: word_le_nat_alt)

lemma free_size_get:
  assumes "ring_ok r"
  shows "unat (tuya_ring_buff_free_size_get (Some r)) = ring_capacity r - length (ring_contents r)"
proof -
  note ok = ring_okD [OF assms] and len = length_ring_contents [OF assms]
  define sz where "sz = (if rb_in r = rb_out r then rb_len r
    else if rb_out r > rb_in r then rb_out r - rb_in r else rb_len r - (rb_in r - rb_out r))"
  consider (eq) "rb_in r = rb_out r" | (gt) "unat (rb_in r) > unat (rb_out r)"
    | (lt) "unat (rb_in r) < unat (rb_out r)"
    by (metis linorder_neqE_nat word_unat_eq_iff)
  then have sz: "unat sz = unat (rb_len r) - length (ring_contents r)"
  proof cases
    case eq
    then show ?thesis using len by (simp add: sz_def)
  next
    case gt
    have "unat (rb_in r - rb_out r) = unat (rb_in r) - unat (rb_out r)"
      using gt by (intro unat_minus_le) simp
    moreover from this have "unat (rb_len r - (rb_in r - rb_out r)) = unat (rb_len r) - (unat (rb_in r) - unat (rb_out r))"
      using ok(1) by (subst unat_minus_le) simp_all
    moreover have "sz = rb_len r - (rb_in r - rb_out r)"
    proof -
      have "rb_in r \<noteq> rb_out r" "\<not> rb_out r > rb_in r" using gt by (auto simp: u16_less_iff)
      then show ?thesis by (simp only: sz_def if_False)
    qed
    moreover have "length (ring_contents r) = unat (rb_in r) - unat (rb_out r)"
      using gt len by simp
    ultimately show ?thesis by (simp only:)
  next
    case lt
    have "unat (rb_out r - rb_in r) = unat (rb_out r) - unat (rb_in r)"
      using lt by (intro unat_minus_le) simp
    moreover have "sz = rb_out r - rb_in r"
    proof -
      have "rb_in r \<noteq> rb_out r" "rb_out r > rb_in r" using lt by (auto simp: u16_less_iff)
      then show ?thesis by (simp only: sz_def if_False if_True)
    qed
    moreover have "unat (rb_out r) - unat (rb_in r) = unat (rb_len r) - length (ring_contents r)"
      using lt len ok by simp
    ultimately show ?thesis by (simp only:)
  qed
  have "1 \<le> unat sz" using sz length_ring_contents_less [OF assms] ok(4) by (simp add: ring_capacity_def)
  then have "unat (sz - 1) = unat sz - 1" by (subst unat_minus_le) simp_all
  then show ?thesis
    by (simp add: tuya_ring_buff_free_size_get_def Let_def sz ring_capacity_def flip: sz_def)
qed

lemma unat_word_of_int_min:
  assumes "b \<le> a" and "c < 65536"
  shows "unat (word_of_int (min (int a - int b) (int c)) :: u16) = min (a - b) c"
proof -
  have "min (int a - int b) (int c) = int (min (a - b) c)"
  proof -
    have "int a - int b = int (a - b)" using assms by (simp add: of_nat_diff)
    then show ?thesis by (simp only: of_nat_min)
  qed
  moreover have "min (a - b) c < 65536" using assms by simp
  ultimately show ?thesis by (simp add: unat_of_nat del: of_nat_min)
qed

lemma unat_linear_part:
  fixes len pos n :: u16
  assumes "pos < len"
  shows "unat (word_of_int (min (uint len - uint pos) (uint n)) :: u16) = min (unat len - unat pos) (unat n)"
proof -
  have "unat pos \<le> unat len" using assms by (simp add: word_less_nat_alt)
  moreover have "unat n < 65536" using unsigned_less [of n, where ?'a = nat] by simp
  ultimately have "unat (word_of_int (min (int (unat len) - int (unat pos)) (int (unat n))) :: u16)
      = min (unat len - unat pos) (unat n)"
    by (rule unat_word_of_int_min)
  then show ?thesis by (simp only: uint_nat)
qed

lemma min_if_u16: "unat (if a < b then a else (b :: u16)) = min (unat a) (unat b)"
  by (auto simp: word_less_nat_alt)

lemma ring_write_contents:
  fixes buff :: "'a list"
  assumes "length buff = L" "i < L" "out < L" "m \<le> length d"
    and "m \<le> L - 1 - (if out \<le> i then i - out else L - (out - i))"
  defines "t \<equiv> min (L - i) m"
  defines "b1 \<equiv> take i buff @ take t d @ drop (i + t) buff"
  defines "b2 \<equiv> (if m - t > 0 then take (m - t) (drop t d) @ drop (m - t) b1 else b1)"
  defines "j \<equiv> (if m - t > 0 then m - t else if i + t \<ge> L then 0 else i + t)"
  shows "(if out \<le> j then take (j - out) (drop out b2) else drop out b2 @ take j b2)
       = (if out \<le> i then take (i - out) (drop out buff) else drop out buff @ take i buff) @ take m d"
    and "j < L" and "length b2 = L"
proof -
  have t: "t \<le> L - i" "t \<le> m" "m < L" "t = L - i \<or> t = m"
    using assms(2,5) by (auto simp: t_def split: if_splits)
  then show "j < L" using assms(2) by (auto simp: j_def)
  have "length b1 = L" using t assms(1,2,4) by (simp add: b1_def)
  then show "length b2 = L" using t assms(1,2,4) by (simp add: b2_def)
  show "(if out \<le> j then take (j - out) (drop out b2) else drop out b2 @ take j b2)
       = (if out \<le> i then take (i - out) (drop out buff) else drop out buff @ take i buff) @ take m d"
  proof (cases "m \<le> L - i")
    case True
    then have tm: "t = m" and b2: "b2 = take i buff @ take m d @ drop (i + m) buff"
      and j: "j = (if i + m \<ge> L then 0 else i + m)"
      by (simp_all add: t_def b2_def b1_def j_def)
    consider (a) "out \<le> i" "i + m < L" | (b) "out \<le> i" "i + m = L" | (c) "i < out"
      using True assms(2) by linarith
    then show ?thesis
    proof cases
      case a
      have "take (i + m - out) (drop out b2) = take (i - out) (drop out buff) @ take m d"
        using a(1) assms(1-4) by (simp add: b2 drop_take)
      then show ?thesis using a j by simp
    next
      case b
      have "0 < out"
      proof (rule ccontr)
        assume "\<not> 0 < out"
        then show False using assms(2,5) b by simp
      qed
      moreover have "drop out b2 = take (i - out) (drop out buff) @ take m d"
        using b assms(1-4) by (simp add: b2 drop_take)
      ultimately show ?thesis using b j by simp
    next
      case c
      have im: "i + m < out" using c assms(2,3,5) by (simp split: if_splits)
      then have "drop out b2 = drop out buff" "take (i + m) b2 = take i buff @ take m d"
        using assms(1-4) by (simp_all add: b2)
      then show ?thesis using c im assms(3) j by simp
    qed
  next
    case False
    then have tL: "t = L - i" by (simp add: t_def)
    have oi: "out \<le> i" using False assms(2,3,5) by (auto split: if_splits)
    have j: "j = m - (L - i)" using False tL by (simp add: j_def)
    have jo: "j < out" using False assms(2,5) oi j by simp
    have b2: "b2 = take j (drop (L - i) d) @ drop j (take i buff @ take (L - i) d)"
      using False tL assms(1,2) by (simp add: b2_def b1_def j)
    have lj: "length (take j (drop (L - i) d)) = j" using assms(4) j by simp
    have "drop out b2 = drop out (take i buff @ take (L - i) d)"
      unfolding b2 using lj jo by (intro drop_overwritten) simp_all
    also have "\<dots> = take (i - out) (drop out buff) @ take (L - i) d"
      using oi assms(1,2) by (simp add: drop_take)
    finally have "drop out b2 = take (i - out) (drop out buff) @ take (L - i) d" .
    moreover have "take j b2 = take j (drop (L - i) d)" using lj by (simp add: b2)
    moreover have "take m d = take (L - i) d @ take j (drop (L - i) d)"
      using False take_add [of "L - i" "m - (L - i)" d] j by simp
    ultimately show ?thesis using jo oi by simp
  qed
qed

lemma ring_contents_eq:
  "ring_contents r =
     (if unat (rb_out r) \<le> unat (rb_in r)
      then take (unat (rb_in r) - unat (rb_out r)) (drop (unat (rb_out r)) (rb_buff r))
      else drop (unat (rb_out r)) (rb_buff r) @ take (unat (rb_in r)) (rb_buff r))"
  by (simp add: ring_contents_def Let_def)

lemma ring_contents_upd_in:
  "ring_contents (r\<lparr>rb_in := i, rb_buff := b\<rparr>) =
     (if unat (rb_out r) \<le> unat i then take (unat i - unat (rb_out r)) (drop (unat (rb_out r)) b)
      else drop (unat (rb_out r)) b @ take (unat i) b)"
  by (simp add: ring_contents_def Let_def)

lemma ring_write:
  assumes ok: "ring_ok r" and d: "unat len \<le> length d"
  shows "\<exists>m r'. tuya_ring_buff_write (Some r) (Some d) len = Some (m, Some r')
     \<and> unat m = min (ring_capacity r - length (ring_contents r)) (unat len)
     \<and> ring_ok r' \<and> rb_len r' = rb_len r \<and> rb_type r' = rb_type r
     \<and> ring_contents r' = ring_contents r @ take (unat m) d"
proof -
  note okD = ring_okD [OF ok] 
  define n where "n = (if tuya_ring_buff_free_size_get (Some r) < len
    then tuya_ring_buff_free_size_get (Some r) else len)"
  have n: "unat n = min (ring_capacity r - length (ring_contents r)) (unat len)"
    by (simp only: n_def min_if_u16 free_size_get [OF ok])
  show ?thesis
  proof (cases "n = 0")
    case True
    then have "tuya_ring_buff_write (Some r) (Some d) len = Some (0, Some r)"
      by (simp add: tuya_ring_buff_write_def Let_def flip: n_def)
    moreover have "unat (0 :: u16) = min (ring_capacity r - length (ring_contents r)) (unat len)"
      using n True by simp
    ultimately show ?thesis using ok by (intro exI [of _ 0] exI [of _ r]) simp
  next
    case False
    then have len0: "len \<noteq> 0" using n by (metis min_0R unat_0 word_unat_eq_iff)
    define tw where "tw = (word_of_int (min (uint (rb_len r) - uint (rb_in r)) (uint n)) :: u16)"
    define L where "L = unat (rb_len r)"
    define i where "i = unat (rb_in r)"
    define out where "out = unat (rb_out r)"
    define m where "m = unat n"
    define t where "t = min (L - i) m"
    have tw: "unat tw = t"
      using ok by (simp only: tw_def t_def L_def i_def m_def unat_linear_part ring_ok_def)
    have bnd: "length (rb_buff r) = L" "i < L" "out < L" "m \<le> length d" "L < 65536"
      using okD d n by (auto simp: L_def i_def out_def m_def)
    have mle: "m \<le> L - 1 - (if out \<le> i then i - out else L - (out - i))"
      using n length_ring_contents [OF ok]
      by (simp add: m_def L_def i_def out_def ring_capacity_def)
    define b1 where "b1 = take i (rb_buff r) @ take t d @ drop (i + t) (rb_buff r)"
    define b2 where "b2 = (if m - t > 0 then take (m - t) (drop t d) @ drop (m - t) b1 else b1)"
    define j where "j = (if m - t > 0 then m - t else if i + t \<ge> L then 0 else i + t)"
    define jw where "jw = (if n - tw > 0 then n - tw else if rb_in r + tw \<ge> rb_len r then 0 else rb_in r + tw)"
    note main = ring_write_contents [OF bnd(1-4) mle, folded t_def, folded b1_def, folded b2_def j_def]
    have tm: "t \<le> m" "i + t \<le> L" using bnd by (auto simp: t_def)
    have rest: "unat (n - tw) = m - t" using tm tw by (simp add: unat_minus_le m_def)
    have pos: "n - tw > 0 \<longleftrightarrow> m - t > 0" using rest by (metis word_gt_0_no unat_gt_0 word_neq_0_conv)
    have plus: "unat (rb_in r + tw) = i + t"
      using tm bnd tw by (simp add: unat_word_ariths i_def)
    have jw: "unat jw = j"
      by (simp add: jw_def j_def pos rest plus word_le_nat_alt L_def)
    have wr: "tuya_ring_buff_write (Some r) (Some d) len
        = Some (tw + (n - tw), Some (r\<lparr>rb_in := jw, rb_buff := b2\<rparr>))"
    proof -
      have c1: "memcpy (rb_buff r) (unat (rb_in r)) d 0 (unat tw) = Some b1"
        using bnd tm tw by (simp add: chk_simps b1_def i_def)
      have c2: "(if n - tw > 0 then do { b \<leftarrow> memcpy b1 0 d (unat tw) (unat (n - tw)); Some (b, n - tw) }
          else Some (b1, rb_in r + tw)) = Some (b2, if n - tw > 0 then n - tw else rb_in r + tw)"
      proof (cases "n - tw > 0")
        case True
        have "length b1 = L" "m \<le> L" using bnd tm mle by (simp_all add: b1_def)
        then have "memcpy b1 0 d t (m - t) = Some b2"
          using bnd tm True pos by (simp add: chk_simps b2_def)
        then show ?thesis using True by (simp only: tw rest if_True bind.bind_lunit)
      next
        case False
        then show ?thesis using pos by (simp add: b2_def)
      qed
      have "(if (if n - tw > 0 then n - tw else rb_in r + tw) \<ge> rb_len r then 0
          else if n - tw > 0 then n - tw else rb_in r + tw) = jw"
      proof (cases "n - tw > 0")
        case True
        then have "unat (n - tw) < unat (rb_len r)"
          using main(2) pos rest by (simp add: j_def L_def)
        then show ?thesis using True by (simp add: jw_def word_le_nat_alt)
      qed (simp add: jw_def)
      then show ?thesis
        using len0 False
        by (simp only: tuya_ring_buff_write_def Let_def option.case prod.case if_False c1 c2
            bind.bind_lunit flip: n_def tw_def)
    qed
    have "tw + (n - tw) = n" by simp
    moreover have "ring_ok (r\<lparr>rb_in := jw, rb_buff := b2\<rparr>)"
      using main(2,3) okD bnd(3) by (simp add: ring_ok_def jw L_def out_def word_less_nat_alt)
    moreover have "ring_contents (r\<lparr>rb_in := jw, rb_buff := b2\<rparr>) = ring_contents r @ take (unat n) d"
      using main(1)
      by (simp only: ring_contents_upd_in ring_contents_eq [of r] jw flip: out_def i_def m_def)
    ultimately show ?thesis
      by (intro exI [of _ n] exI [of _ "r\<lparr>rb_in := jw, rb_buff := b2\<rparr>"] conjI)
         (simp_all add: wr n)
  qed
qed

lemma ring_read_contents:
  fixes buff :: "'a list"
  assumes "length buff = L" "i < L" "out < L" "n \<le> length p"
    and "n \<le> (if out \<le> i then i - out else L - (out - i))"
  defines "t \<equiv> min (L - out) n"
  defines "p1 \<equiv> take t (drop out buff) @ drop t p"
  defines "p2 \<equiv> (if n - t > 0 then take t p1 @ take (n - t) buff @ drop n p1 else p1)"
  defines "j \<equiv> (if n - t > 0 then n - t else if out + t \<ge> L then 0 else out + t)"
  defines "c \<equiv> (if out \<le> i then take (i - out) (drop out buff) else drop out buff @ take i buff)"
  shows "p2 = take n c @ drop n p" and "j < L"
    and "(if j \<le> i then take (i - j) (drop j buff) else drop j buff @ take i buff) = drop n c"
proof -
  have "p2 = take n c @ drop n p \<and> j < L \<and>
    (if j \<le> i then take (i - j) (drop j buff) else drop j buff @ take i buff) = drop n c"
  proof (cases "n \<le> L - out")
    case True
    then have tn: "t = n" and p2: "p2 = take n (drop out buff) @ drop n p"
      and j: "j = (if out + n \<ge> L then 0 else out + n)"
      by (simp_all add: t_def p2_def p1_def j_def)
    consider (a) "out \<le> i" | (b) "i < out" "out + n < L" | (c) "i < out" "out + n = L"
      using True assms(2,3) by linarith
    then show ?thesis
    proof cases
      case a
      then have "out + n \<le> i" using assms(5) by simp
      then show ?thesis using a assms(2) j p2 by (simp add: c_def drop_take add.commute)
    next
      case b
      then show ?thesis using j p2 assms(1) by (simp add: c_def add.commute)
    next
      case c
      then have "n = L - out" by simp
      then show ?thesis using c j p2 assms(1-3) by (simp add: c_def)
    qed
  next
    case False
    then have tL: "t = L - out" by (simp add: t_def)
    have io: "i < out" using False assms(2,3,5) by (auto split: if_splits)
    have j: "j = n - (L - out)" using False tL by (simp add: j_def)
    have ji: "j \<le> i" using False assms(3,5) io j by simp
    have lt: "length (drop out buff) = t" using assms(1) tL by simp
    have p1: "p1 = drop out buff @ drop t p" using lt by (simp add: p1_def)
    have n: "n = t + j" using False tL j by simp
    have pos: "n - t > 0" "n - t = j" using False tL j by simp_all
    have c: "c = drop out buff @ take i buff" using io by (simp add: c_def)
    have dn: "drop n p1 = drop n p" using lt n unfolding p1 by (intro drop_overwritten) simp_all
    have "take t p1 = drop out buff" using lt by (simp add: p1)
    then have "p2 = drop out buff @ take j buff @ drop n p"
      using pos dn by (simp add: p2_def)
    moreover have "take n c = drop out buff @ take j buff"
      using lt n ji by (simp add: c)
    moreover have "drop n c = take (i - j) (drop j buff)"
      using lt n by (simp add: c drop_take)
    ultimately show ?thesis using ji assms(2) by simp
  qed
  then show "p2 = take n c @ drop n p" and "j < L"
    and "(if j \<le> i then take (i - j) (drop j buff) else drop j buff @ take i buff) = drop n c"
    by blast+
qed

lemma ring_contents_upd_out:
  "ring_contents (r\<lparr>rb_out := out\<rparr>) =
     (if unat out \<le> unat (rb_in r) then take (unat (rb_in r) - unat out) (drop (unat out) (rb_buff r))
      else drop (unat out) (rb_buff r) @ take (unat (rb_in r)) (rb_buff r))"
  by (simp add: ring_contents_def Let_def)

lemma ring_read_peek:
  assumes ok: "ring_ok r" and d: "unat len \<le> length p"
  shows "\<exists>n r'. tuya_ring_buff_read (Some r) (Some p) len
        = Some (n, Some (take (unat n) (ring_contents r) @ drop (unat n) p), Some r')
     \<and> tuya_ring_buff_peek (Some r) (Some p) len
        = Some (n, Some (take (unat n) (ring_contents r) @ drop (unat n) p))
     \<and> unat n = min (length (ring_contents r)) (unat len)
     \<and> ring_ok r' \<and> rb_len r' = rb_len r \<and> rb_type r' = rb_type r
     \<and> ring_contents r' = drop (unat n) (ring_contents r)"
proof -
  note okD = ring_okD [OF ok]
  define n where "n = (if tuya_ring_buff_used_size_get (Some r) < len
    then tuya_ring_buff_used_size_get (Some r) else len)"
  have n: "unat n = min (length (ring_contents r)) (unat len)"
    by (simp only: n_def min_if_u16 used_size_get [OF ok])
  have n': "n = (if len < tuya_ring_buff_used_size_get (Some r) then len
    else tuya_ring_buff_used_size_get (Some r))"
    by (auto simp: n_def)
  show ?thesis
  proof (cases "n = 0")
    case True
    then have "tuya_ring_buff_read (Some r) (Some p) len = Some (0, Some p, Some r)"
      by (simp add: tuya_ring_buff_read_def Let_def flip: n_def)
    moreover have "tuya_ring_buff_peek (Some r) (Some p) len = Some (0, Some p)"
      using True by (simp add: tuya_ring_buff_peek_def Let_def flip: n')
    moreover have "unat (0 :: u16) = min (length (ring_contents r)) (unat len)"
      using n True by simp
    ultimately show ?thesis using ok by (intro exI [of _ 0] exI [of _ r]) simp
  next
    case False
    then have len0: "len \<noteq> 0" using n by (metis min_0R unat_0 word_unat_eq_iff)
    define tw where "tw = (word_of_int (min (uint (rb_len r) - uint (rb_out r)) (uint n)) :: u16)"
    define L where "L = unat (rb_len r)"
    define i where "i = unat (rb_in r)"
    define out where "out = unat (rb_out r)"
    define m where "m = unat n"
    define t where "t = min (L - out) m"
    have tw: "unat tw = t"
      using ok by (simp only: tw_def t_def L_def out_def m_def unat_linear_part ring_ok_def)
    have bnd: "length (rb_buff r) = L" "i < L" "out < L" "m \<le> length p" "L < 65536"
      using okD d n by (auto simp: L_def i_def out_def m_def)
    have mle: "m \<le> (if out \<le> i then i - out else L - (out - i))"
      using n length_ring_contents [OF ok] by (simp add: m_def L_def i_def out_def)
    define p1 where "p1 = take t (drop out (rb_buff r)) @ drop t p"
    define p2 where "p2 = (if m - t > 0 then take t p1 @ take (m - t) (rb_buff r) @ drop m p1 else p1)"
    define j where "j = (if m - t > 0 then m - t else if out + t \<ge> L then 0 else out + t)"
    define jw where "jw = (if n - tw > 0 then n - tw else if rb_out r + tw \<ge> rb_len r then 0 else rb_out r + tw)"
    note main = ring_read_contents [OF bnd(1-4) mle, folded t_def, folded p1_def, folded p2_def j_def]
    have tm: "t \<le> m" "out + t \<le> L" "m \<le> L" using bnd mle by (auto simp: t_def split: if_splits)
    have rest: "unat (n - tw) = m - t" using tm tw by (simp add: unat_minus_le m_def)
    have pos: "n - tw > 0 \<longleftrightarrow> m - t > 0" using rest by (metis word_gt_0_no unat_gt_0 word_neq_0_conv)
    have plus: "unat (rb_out r + tw) = out + t"
      using tm bnd tw by (simp add: unat_word_ariths out_def)
    have jw: "unat jw = j"
      by (simp add: jw_def j_def pos rest plus word_le_nat_alt L_def)
    have c1: "memcpy p 0 (rb_buff r) (unat (rb_out r)) (unat tw) = Some p1"
      using bnd tm tw by (simp add: chk_simps p1_def out_def)
    have c2: "n - tw > 0 \<Longrightarrow> memcpy p1 (unat tw) (rb_buff r) 0 (unat (n - tw)) = Some p2"
      using bnd tm pos tw rest by (simp add: chk_simps p2_def p1_def)
    have c3: "\<not> n - tw > 0 \<Longrightarrow> p1 = p2" using pos by (simp add: p2_def)
    have j2: "(if (if n - tw > 0 then n - tw else rb_out r + tw) \<ge> rb_len r then 0
        else if n - tw > 0 then n - tw else rb_out r + tw) = jw"
    proof (cases "n - tw > 0")
      case True
      then have "unat (n - tw) < unat (rb_len r)"
        using main(2) pos rest by (simp add: j_def L_def)
      then show ?thesis using True by (simp add: jw_def word_le_nat_alt)
    qed (simp add: jw_def)
    have "(if n - tw > 0 then do { q \<leftarrow> memcpy p1 (unat tw) (rb_buff r) 0 (unat (n - tw)); Some (q, n - tw) }
        else Some (p1, rb_out r + tw)) = Some (p2, if n - tw > 0 then n - tw else rb_out r + tw)"
      using c2 c3 by simp
    then have rd: "tuya_ring_buff_read (Some r) (Some p) len = Some (n, Some p2, Some (r\<lparr>rb_out := jw\<rparr>))"
      using len0 False j2
      by (simp only: tuya_ring_buff_read_def Let_def option.case prod.case if_False c1
          bind.bind_lunit add_diff_cancel_left' diff_add_cancel add.commute [of tw] flip: n_def tw_def)
    have "(if n - tw > 0 then memcpy p1 (unat tw) (rb_buff r) 0 (unat (n - tw)) else Some p1) = Some p2"
      using c2 c3 by simp
    then have pk: "tuya_ring_buff_peek (Some r) (Some p) len = Some (n, Some p2)"
      using len0 False
      by (simp only: tuya_ring_buff_peek_def Let_def option.case prod.case if_False c1
          bind.bind_lunit diff_add_cancel add.commute [of tw] flip: n' tw_def)
    have cont: "ring_contents r = (if out \<le> i then take (i - out) (drop out (rb_buff r))
       else drop out (rb_buff r) @ take i (rb_buff r))"
      by (simp only: ring_contents_eq [of r] flip: out_def i_def)
    have p2: "p2 = take m (ring_contents r) @ drop m p"
      using main(1) by (simp only: cont)
    have "ring_ok (r\<lparr>rb_out := jw\<rparr>)"
      using main(2) okD bnd(2) by (simp add: ring_ok_def jw L_def i_def word_less_nat_alt)
    moreover have "ring_contents (r\<lparr>rb_out := jw\<rparr>) = drop m (ring_contents r)"
      using main(3) by (simp only: ring_contents_upd_out cont jw flip: out_def i_def m_def)
    ultimately show ?thesis using rd pk n
      by (intro exI [of _ n] exI [of _ "r\<lparr>rb_out := jw\<rparr>"] conjI)
         (simp_all add: p2 m_def)
  qed
qed

section \<open>Runs\<close>

datatype ring_op = RWrite "u8 list" | RRead u16 | RPeek u16

text \<open>The clients of the ring give \<^verbatim>\<open>write\<close> a buffer and its length, and \<^verbatim>\<open>read\<close> a
  destination of the requested length. \<open>ring_step\<close> returns the next state, the
  bytes that were accepted and the bytes that were delivered.\<close>

fun ring_step :: "ringbuff \<Rightarrow> ring_op \<Rightarrow> (ringbuff \<times> u8 list \<times> u8 list) option" where
  "ring_step r (RWrite d) =
     (case tuya_ring_buff_write (Some r) (Some d) (word_of_nat (length d)) of
        Some (n, Some r') \<Rightarrow> Some (r', take (unat n) d, [])
      | _ \<Rightarrow> None)"
| "ring_step r (RRead n) =
     (case tuya_ring_buff_read (Some r) (Some (replicate (unat n) 0)) n of
        Some (m, Some p, Some r') \<Rightarrow> Some (r', [], take (unat m) p)
      | _ \<Rightarrow> None)"
| "ring_step r (RPeek n) =
     (case tuya_ring_buff_peek (Some r) (Some (replicate (unat n) 0)) n of
        Some (m, Some p) \<Rightarrow> Some (r, [], [])
      | _ \<Rightarrow> None)"

fun ring_op_legal :: "ring_op \<Rightarrow> bool" where
  "ring_op_legal (RWrite d) \<longleftrightarrow> length d < 65536"
| "ring_op_legal _ \<longleftrightarrow> True"

lemma ring_step_spec:
  assumes "ring_ok r" and "ring_op_legal x"
  shows "\<exists>r' acc del. ring_step r x = Some (r', acc, del) \<and> ring_ok r' \<and>
    ring_contents r @ acc = del @ ring_contents r'"
proof (cases x)
  case (RWrite d)
  then have "unat (word_of_nat (length d) :: u16) = length d"
    using assms(2) by (simp add: unat_of_nat)
  then obtain m r' where "tuya_ring_buff_write (Some r) (Some d) (word_of_nat (length d)) = Some (m, Some r')"
    "ring_ok r'" "ring_contents r' = ring_contents r @ take (unat m) d"
    using ring_write [OF assms(1), of "word_of_nat (length d)" d] by auto
  then show ?thesis using RWrite by simp
next
  case (RRead n)
  obtain m r' where m: "tuya_ring_buff_read (Some r) (Some (replicate (unat n) 0)) n
      = Some (m, Some (take (unat m) (ring_contents r) @ drop (unat m) (replicate (unat n) 0)), Some r')"
    "unat m = min (length (ring_contents r)) (unat n)"
    "ring_ok r'" "ring_contents r' = drop (unat m) (ring_contents r)"
    using ring_read_peek [OF assms(1), of n "replicate (unat n) 0"] by auto
  then show ?thesis using RRead by simp
next
  case (RPeek n)
  then show ?thesis
    using ring_read_peek [OF assms(1), of n "replicate (unat n) 0"] assms(1) by auto
qed

interpretation ring: fifo ring_step ring_contents ring_ok "\<lambda>_. ring_op_legal"
proof unfold_locales
  fix r x assume "ring_ok r" "ring_op_legal x"
  from ring_step_spec [OF this] show "\<exists>q. ring_step r x = Some q" by auto
next
  fix r x r' acc del assume "ring_ok r" "ring_op_legal x" and s: "ring_step r x = Some (r', acc, del)"
  from ring_step_spec [OF this(1,2)] s
  show "ring_ok r'" and "ring_contents r @ acc = del @ ring_contents r'" by auto
qed

section \<open>Properties\<close>

definition ring_init_ok :: "u16 \<Rightarrow> u8 list \<Rightarrow> bool" where
  "ring_init_ok len mem \<longleftrightarrow> len \<noteq> 0 \<and> length mem = unat len"

lemma ring_create_ok:
  assumes "len \<noteq> 0" and "length mem = unat len"
  shows "\<exists>r. tuya_ring_buff_create len OVERFLOW_STOP_TYPE False (Some mem) = (OPRT_OK, Some r)
    \<and> ring_ok r \<and> ring_contents r = [] \<and> ring_capacity r = unat len - 1"
  using assms by (simp add: tuya_ring_buff_create_def ringbuff_init_def ring_ok_def
      ring_contents_def ring_capacity_def word_neq_0_conv)

text \<open>C1. A ring that \<^verbatim>\<open>tuya_ring_buff_create\<close> has returned is a byte queue: whatever writes,
  reads and peeks follow, none leaves the buffer (the run is defined), and the bytes that
  were accepted are, in order, the bytes that were delivered and then the bytes that are
  still in the ring.\<close>

theorem ring_buff_fifo:
  assumes "tuya_ring_buff_create len OVERFLOW_STOP_TYPE False (Some mem) = (OPRT_OK, Some r)"
    and "length mem = unat len" and "list_all ring_op_legal ops"
  shows "\<exists>r' acc del. fifo_run ring_step r ops = Some (r', acc, del) \<and> acc = del @ ring_contents r'"
proof -
  have "len \<noteq> 0" using assms(1) by (auto simp: tuya_ring_buff_create_def split: if_splits)
  then have "ring_ok r" "ring_contents r = []"
    using ring_create_ok [OF _ assms(2)] assms(1) by auto
  then show ?thesis using legal_run_static [OF assms(3)] by (rule ring.run_from_empty)
qed

theorem ring_buff_fifo_witness:
  "\<exists>r' acc del. fifo_run ring_step \<lparr>rb_type = OVERFLOW_STOP_TYPE, rb_in = 0, rb_out = 0, rb_len = 4,
      rb_buff = [9, 9, 9, 9]\<rparr> [RWrite [1, 2], RRead 1, RWrite [3, 4, 5], RRead 4] = Some (r', acc, del)
    \<and> acc = del @ ring_contents r'"
  by (rule ring_buff_fifo [of 4 "[9, 9, 9, 9]"])
     (simp_all add: tuya_ring_buff_create_def ringbuff_init_def)

text \<open>C14. Sizes: used and free space always add up to the capacity (one less than the
  length), a write accepts exactly what fits, and never overwrites unread bytes, whatever policy the
  ring has. That the policy \<^verbatim>\<open>OVERFLOW_COVERAGE_TYPE\<close> overwrites them, as the comment in
  \<^verbatim>\<open>tuya_ringbuf.h\<close> says, is not so: no ring is created with it (the creation is answered
  with \<^verbatim>\<open>OPRT_NOT_SUPPORTED\<close>), and a write does not look at the policy.\<close>

theorem ring_buff_write_accepts:
  assumes "ring_ok r" and "unat len \<le> length d"
  shows "\<exists>n r'. tuya_ring_buff_write (Some r) (Some d) len = Some (n, Some r') \<and>
     n = min len (tuya_ring_buff_free_size_get (Some r)) \<and>
     ring_contents r' = ring_contents r @ take (unat n) d \<and>
     tuya_ring_buff_used_size_get (Some r') = tuya_ring_buff_used_size_get (Some r) + n \<and>
     tuya_ring_buff_used_size_get (Some r') + tuya_ring_buff_free_size_get (Some r') = rb_len r - 1 \<and>
     tuya_ring_buff_create l OVERFLOW_COVERAGE_TYPE out_null mem = (OPRT_NOT_SUPPORTED, None)"
proof -
  obtain n r' where w: "tuya_ring_buff_write (Some r) (Some d) len = Some (n, Some r')"
    and n: "unat n = min (ring_capacity r - length (ring_contents r)) (unat len)"
    and r': "ring_ok r'" "rb_len r' = rb_len r" "ring_contents r' = ring_contents r @ take (unat n) d"
    using ring_write [OF assms] by blast
  have cap: "ring_capacity r' = ring_capacity r" using r'(2) by (simp add: ring_capacity_def)
  have lens: "length (ring_contents r') = length (ring_contents r) + unat n"
    using r'(3) n assms(2) by simp
  have bound: "length (ring_contents r') \<le> ring_capacity r" "ring_capacity r < 65535" "0 < unat (rb_len r)"
    using length_ring_contents_less [OF r'(1)] cap ring_okD [OF assms(1)] by (simp_all add: ring_capacity_def)
  have 1: "n = min len (tuya_ring_buff_free_size_get (Some r))"
    using n by (simp add: word_unat_eq_iff min_def word_le_nat_alt free_size_get [OF assms(1)] split: if_splits)
  have 2: "tuya_ring_buff_used_size_get (Some r') = tuya_ring_buff_used_size_get (Some r) + n"
    using lens bound by (simp only: word_unat_eq_iff used_size_get assms(1) r'(1) unat_word_ariths) simp
  have "unat (rb_len r - 1) = ring_capacity r"
    using bound(3) by (simp add: unat_minus_le ring_capacity_def)
  then have 3: "tuya_ring_buff_used_size_get (Some r') + tuya_ring_buff_free_size_get (Some r') = rb_len r - 1"
    using bound by (simp only: word_unat_eq_iff used_size_get free_size_get r'(1) unat_word_ariths cap) simp
  have 4: "tuya_ring_buff_create l OVERFLOW_COVERAGE_TYPE out_null mem = (OPRT_NOT_SUPPORTED, None)"
    by (simp add: tuya_ring_buff_create_def)
  show ?thesis using w r'(3) 1 2 3 4 by blast
qed

definition ring4 :: ringbuff where
  "ring4 = \<lparr>rb_type = OVERFLOW_COVERAGE_TYPE, rb_in = 3, rb_out = 2, rb_len = 4, rb_buff = [9, 9, 7, 9]\<rparr>"

lemma ring4_ok: "ring_ok ring4"
  by (simp add: ring4_def ring_ok_def)

theorem ring_buff_write_accepts_witness:
  "\<exists>n r'. tuya_ring_buff_write (Some ring4) (Some [1, 2, 3]) 3 = Some (n, Some r') \<and>
     n = min 3 (tuya_ring_buff_free_size_get (Some ring4)) \<and>
     ring_contents r' = ring_contents ring4 @ take (unat n) [1, 2, 3] \<and>
     tuya_ring_buff_used_size_get (Some r') = tuya_ring_buff_used_size_get (Some ring4) + n \<and>
     tuya_ring_buff_used_size_get (Some r') + tuya_ring_buff_free_size_get (Some r') = rb_len ring4 - 1 \<and>
     tuya_ring_buff_create 8 OVERFLOW_COVERAGE_TYPE False (Some [0, 0, 0, 0, 0, 0, 0, 0]) = (OPRT_NOT_SUPPORTED, None)"
  by (rule ring_buff_write_accepts) (simp_all add: ring4_ok)

text \<open>Round trip: bytes written into a ring with room for them come back unchanged behind
  what was already there; \<^verbatim>\<open>peek\<close> shows the same bytes as \<^verbatim>\<open>read\<close> and leaves the ring
  alone; once everything is read the ring is empty again.\<close>

theorem ring_buff_write_read_roundtrip:
  assumes "ring_ok r" and "ring_contents r = []" and "length d = unat len"
    and "unat len \<le> ring_capacity r" and "length p = unat len"
  shows "\<exists>r1 r2. tuya_ring_buff_write (Some r) (Some d) len = Some (len, Some r1) \<and>
     tuya_ring_buff_peek (Some r1) (Some p) len = Some (len, Some d) \<and>
     tuya_ring_buff_read (Some r1) (Some p) len = Some (len, Some d, Some r2) \<and>
     tuya_ring_buff_used_size_get (Some r2) = 0"
proof -
  obtain n r1 where w: "tuya_ring_buff_write (Some r) (Some d) len = Some (n, Some r1)"
    and n: "unat n = min (ring_capacity r - length (ring_contents r)) (unat len)"
    and r1: "ring_ok r1" "ring_contents r1 = ring_contents r @ take (unat n) d"
    using ring_write [OF assms(1), of len d] assms(3) by auto
  have nl: "n = len" using n assms(2,4) by (simp add: word_unat_eq_iff)
  have c1: "ring_contents r1 = d" using r1(2) nl assms(2,3) by simp
  obtain m r2 where m: "tuya_ring_buff_read (Some r1) (Some p) len
        = Some (m, Some (take (unat m) d @ drop (unat m) p), Some r2)"
    "tuya_ring_buff_peek (Some r1) (Some p) len = Some (m, Some (take (unat m) d @ drop (unat m) p))"
    "unat m = min (length d) (unat len)" "ring_ok r2" "ring_contents r2 = drop (unat m) d"
    using ring_read_peek [OF r1(1), of len p] assms(5) c1 by auto
  have ml: "m = len" using m(3) assms(3) by (simp add: word_unat_eq_iff)
  have "unat (tuya_ring_buff_used_size_get (Some r2)) = 0"
    using used_size_get [OF m(4)] m(5) ml assms(3) by simp
  then show ?thesis using w nl m ml assms(3,5) by (simp add: unat_eq_0)
qed

theorem ring_buff_write_read_roundtrip_witness:
  "\<exists>r1 r2. tuya_ring_buff_write (Some (ring4\<lparr>rb_in := 2\<rparr>)) (Some [1, 2, 3]) 3 = Some (3, Some r1) \<and>
     tuya_ring_buff_peek (Some r1) (Some [0, 0, 0]) 3 = Some (3, Some [1, 2, 3]) \<and>
     tuya_ring_buff_read (Some r1) (Some [0, 0, 0]) 3 = Some (3, Some [1, 2, 3], Some r2) \<and>
     tuya_ring_buff_used_size_get (Some r2) = 0"
  by (rule ring_buff_write_read_roundtrip)
     (simp_all add: ring4_def ring_ok_def ring_contents_def ring_capacity_def)

end
