(* ===== verification/DList.thy ===== *)
theory DList
  imports Prelude
begin

text \<open>
  The intrusive circular doubly linked list of \<^verbatim>\<open>utilities/src/tuya_list.c\<close> and the
  loop macros of \<^verbatim>\<open>tuya_list.h\<close>, over an explicit store: a node is an address (0 is
  \<^verbatim>\<open>NULL\<close>), and the two pointers of every node are two functions on addresses. The
  abstraction \<open>dlist s h xs\<close> says that the ring of head \<open>h\<close> visits exactly the nodes
  \<open>xs\<close>, with both pointer fields agreeing. The contract other components use is the
  locale \<open>linked_seq\<close>.
\<close>

section \<open>The store and the operations\<close>

record dstore =
  nxt :: "nat \<Rightarrow> nat"
  prv :: "nat \<Rightarrow> nat"

definition set_nxt :: "nat \<Rightarrow> nat \<Rightarrow> dstore \<Rightarrow> dstore" where
  "set_nxt p v s = s\<lparr>nxt := (nxt s)(p := v)\<rparr>"

definition set_prv :: "nat \<Rightarrow> nat \<Rightarrow> dstore \<Rightarrow> dstore" where
  "set_prv p v s = s\<lparr>prv := (prv s)(p := v)\<rparr>"

definition INIT_LIST_HEAD :: "nat \<Rightarrow> dstore \<Rightarrow> dstore" where
  "INIT_LIST_HEAD p s = set_prv p p (set_nxt p p s)"

definition list_add_between :: "nat \<Rightarrow> nat \<Rightarrow> nat \<Rightarrow> dstore \<Rightarrow> dstore" where
  "list_add_between pNew pPrev pNext s =
     (let s = set_prv pNext pNew s;
          s = set_nxt pNew pNext s;
          s = set_prv pNew pPrev s
      in set_nxt pPrev pNew s)"

definition list_del_between :: "nat \<Rightarrow> nat \<Rightarrow> dstore \<Rightarrow> dstore" where
  "list_del_between pPrev pNext s =
     (let s = set_prv pNext pPrev s
      in set_nxt pPrev pNext s)"

definition tuya_list_empty :: "nat \<Rightarrow> dstore \<Rightarrow> bool" where
  "tuya_list_empty pHead s \<longleftrightarrow> nxt s pHead = pHead"

definition tuya_list_add :: "nat \<Rightarrow> nat \<Rightarrow> dstore \<Rightarrow> dstore" where
  "tuya_list_add pNew pHead s = list_add_between pNew pHead (nxt s pHead) s"

definition tuya_list_add_tail :: "nat \<Rightarrow> nat \<Rightarrow> dstore \<Rightarrow> dstore" where
  "tuya_list_add_tail pNew pHead s = list_add_between pNew (prv s pHead) pHead s"

definition tuya_list_splice :: "nat \<Rightarrow> nat \<Rightarrow> dstore \<Rightarrow> dstore" where
  "tuya_list_splice pList pHead s =
     (let pFirst = nxt s pList
      in if pFirst \<noteq> pList
         then let pLast = prv s pList;
                  pAt = nxt s pHead;
                  s = set_prv pFirst pHead s;
                  s = set_nxt pHead pFirst s;
                  s = set_nxt pLast pAt s
              in set_prv pAt pLast s
         else s)"

definition tuya_list_del :: "nat \<Rightarrow> dstore \<Rightarrow> dstore" where
  "tuya_list_del pEntry s = list_del_between (prv s pEntry) (nxt s pEntry) s"

definition tuya_list_del_init :: "nat \<Rightarrow> dstore \<Rightarrow> dstore" where
  "tuya_list_del_init pEntry s =
     INIT_LIST_HEAD pEntry (list_del_between (prv s pEntry) (nxt s pEntry) s)"

text \<open>The nodes that \<^verbatim>\<open>tuya_list_for_each\<close> visits from \<open>pos\<close>; \<open>None\<close> if the walk never
  comes back to the head.\<close>

partial_function (option) list_nodes :: "dstore \<Rightarrow> nat \<Rightarrow> nat \<Rightarrow> nat list option" where
  "list_nodes s head pos =
     (if pos \<noteq> 0 \<and> pos \<noteq> head
      then do { ps \<leftarrow> list_nodes s head (nxt s pos); Some (pos # ps) }
      else Some [])"

declare list_nodes.simps [code]

lemmas store_defs = set_nxt_def set_prv_def INIT_LIST_HEAD_def list_add_between_def
  list_del_between_def Let_def

section \<open>Well-formed rings\<close>

fun dpath :: "dstore \<Rightarrow> nat \<Rightarrow> nat list \<Rightarrow> nat \<Rightarrow> bool" where
  "dpath s a [] b \<longleftrightarrow> nxt s a = b \<and> prv s b = a"
| "dpath s a (x # xs) b \<longleftrightarrow> nxt s a = x \<and> prv s x = a \<and> dpath s x xs b"

definition dlist :: "dstore \<Rightarrow> nat \<Rightarrow> nat list \<Rightarrow> bool" where
  "dlist s h xs \<longleftrightarrow> dpath s h xs h \<and> distinct (h # xs) \<and> 0 \<notin> set (h # xs)"

lemma dpath_append:
  "dpath s a (xs @ y # ys) b \<longleftrightarrow> dpath s a xs y \<and> dpath s y ys b"
  by (induction xs arbitrary: a) auto

lemma dpath_cong:
  assumes "\<And>x. x = a \<or> x \<in> set xs \<Longrightarrow> nxt t x = nxt s x"
    and "\<And>x. x = b \<or> x \<in> set xs \<Longrightarrow> prv t x = prv s x"
  shows "dpath t a xs b = dpath s a xs b"
  using assms
proof (induction xs arbitrary: a)
  case Nil
  then show ?case by simp
next
  case (Cons x xs)
  then have "dpath t x xs b = dpath s x xs b" by (intro Cons.IH) auto
  then show ?case using Cons.prems by simp
qed

lemma dpath_ends:
  assumes "dpath s a xs b"
  shows "nxt s a = hd (xs @ [b])" and "prv s b = last (a # xs)"
  using assms by (induction xs arbitrary: a) auto

lemma dlist_append:
  "dlist s h (xs @ y # ys) \<longleftrightarrow>
     dpath s h xs y \<and> dpath s y ys h \<and> distinct (h # xs @ y # ys) \<and> 0 \<notin> set (h # xs @ y # ys)"
  by (simp add: dlist_def dpath_append)

text \<open>A ring depends on its own nodes only.\<close>

lemma dlist_cong:
  assumes "\<And>x. x \<in> set (h # xs) \<Longrightarrow> nxt t x = nxt s x \<and> prv t x = prv s x"
  shows "dlist t h xs = dlist s h xs"
proof -
  have "dpath t h xs h = dpath s h xs h" using assms by (intro dpath_cong) auto
  then show ?thesis by (simp add: dlist_def)
qed

lemma dlist_unique: "dlist s h xs \<Longrightarrow> dlist s h ys \<Longrightarrow> xs = ys"
proof -
  have "dpath s a xs h \<Longrightarrow> dpath s a ys h \<Longrightarrow> h \<notin> set xs \<Longrightarrow> h \<notin> set ys \<Longrightarrow> xs = ys" for a
  proof (induction xs arbitrary: a ys)
    case Nil
    then show ?case by (cases ys) auto
  next
    case (Cons x xs)
    then show ?case by (cases ys) auto
  qed
  then show "dlist s h xs \<Longrightarrow> dlist s h ys \<Longrightarrow> xs = ys" by (auto simp: dlist_def)
qed

lemma list_nodes_dpath:
  "dpath s a xs h \<Longrightarrow> h \<notin> set xs \<Longrightarrow> 0 \<notin> set xs \<Longrightarrow> h \<noteq> 0 \<Longrightarrow>
   list_nodes s h (nxt s a) = Some xs"
  by (induction xs arbitrary: a) (auto simp: list_nodes.simps)

lemma list_nodes_dlist: "dlist s h xs \<Longrightarrow> list_nodes s h (nxt s h) = Some xs"
  by (auto simp: dlist_def intro!: list_nodes_dpath)

section \<open>Functional correctness\<close>

lemma dlist_init: "h \<noteq> 0 \<Longrightarrow> dlist (INIT_LIST_HEAD h s) h []"
  by (simp add: dlist_def store_defs)

lemma dlist_empty_iff: "dlist s h xs \<Longrightarrow> tuya_list_empty h s \<longleftrightarrow> xs = []"
  by (cases xs) (auto simp: dlist_def tuya_list_empty_def)

lemma dlist_add:
  assumes "dlist s h xs" and "n \<notin> set (h # xs)" and "n \<noteq> 0"
  shows "dlist (tuya_list_add n h s) h (n # xs)"
proof (cases xs)
  case Nil
  then show ?thesis using assms by (simp add: dlist_def tuya_list_add_def store_defs)
next
  case (Cons x ys)
  let ?t = "tuya_list_add n h s"
  have p: "nxt s h = x" "prv s x = h" "dpath s x ys h" and d: "distinct (h # n # x # ys)"
    using assms Cons by (auto simp: dlist_def)
  have "dpath ?t x ys h = dpath s x ys h"
    using d p(1) by (intro dpath_cong) (auto simp: tuya_list_add_def store_defs)
  moreover have "nxt ?t h = n" "nxt ?t n = x" "prv ?t x = n" "prv ?t n = h"
    using d p by (auto simp: tuya_list_add_def store_defs)
  ultimately show ?thesis using p d assms Cons by (auto simp: dlist_def)
qed

lemma dlist_add_tail:
  assumes "dlist s h xs" and "n \<notin> set (h # xs)" and "n \<noteq> 0"
  shows "dlist (tuya_list_add_tail n h s) h (xs @ [n])"
proof (cases xs rule: rev_cases)
  case Nil
  then show ?thesis using assms by (simp add: dlist_def tuya_list_add_tail_def store_defs)
next
  case (snoc ys x)
  let ?t = "tuya_list_add_tail n h s"
  have p: "dpath s h ys x" "nxt s x = h" "prv s h = x" and d: "distinct (h # n # x # ys)"
    using assms snoc by (auto simp: dlist_append)
  have "dpath ?t h ys x = dpath s h ys x"
    using d p(3) by (intro dpath_cong) (auto simp: tuya_list_add_tail_def store_defs)
  moreover have "nxt ?t x = n" "nxt ?t n = h" "prv ?t h = n" "prv ?t n = x"
    using d p by (auto simp: tuya_list_add_tail_def store_defs)
  ultimately have "dlist ?t h (ys @ x # [n])"
    using p d assms snoc by (auto simp: dlist_append)
  then show ?thesis using snoc by simp
qed

lemma dlist_del:
  assumes "dlist s h (xs @ e # ys)"
  shows "dlist (tuya_list_del e s) h (xs @ ys)"
proof -
  let ?t = "tuya_list_del e s"
  have p: "dpath s h xs e" "dpath s e ys h" and d: "distinct (h # e # xs @ ys)"
    and z: "0 \<notin> set (h # e # xs @ ys)"
    using assms by (auto simp: dlist_append)
  have ends: "prv s e = last (h # xs)" "nxt s e = hd (ys @ [h])"
    using dpath_ends [OF p(1)] dpath_ends [OF p(2)] by simp_all
  show ?thesis
  proof (cases ys)
    case Nil
    show ?thesis
    proof (cases xs rule: rev_cases)
      case Nil2: Nil
      then show ?thesis using ends d z Nil by (simp add: dlist_def tuya_list_del_def store_defs)
    next
      case (snoc us u)
      then have "dpath s h us u" using p(1) by (simp add: dpath_append)
      moreover have "dpath ?t h us u = dpath s h us u"
        using d ends snoc Nil by (intro dpath_cong) (auto simp: tuya_list_del_def store_defs)
      moreover have "nxt ?t u = h" "prv ?t h = u"
        using d ends snoc Nil by (auto simp: tuya_list_del_def store_defs)
      ultimately show ?thesis using d z snoc Nil by (simp add: dlist_append)
    qed
  next
    case (Cons y vs)
    have py: "dpath s y vs h" using p(2) Cons by simp
    have "prv s e \<notin> set ys"
      using ends(1) last_in_set [of "h # xs"] d by auto
    then have "dpath ?t y vs h = dpath s y vs h"
      using d ends(2) Cons by (intro dpath_cong) (auto simp: tuya_list_del_def store_defs)
    moreover have "dpath ?t h xs y"
    proof (cases xs rule: rev_cases)
      case Nil
      then show ?thesis using d ends Cons by (simp add: tuya_list_del_def store_defs)
    next
      case (snoc us u)
      then have "dpath s h us u" using p(1) by (simp add: dpath_append)
      moreover have "dpath ?t h us u = dpath s h us u"
        using d ends snoc Cons by (intro dpath_cong) (auto simp: tuya_list_del_def store_defs)
      moreover have "nxt ?t u = y" "prv ?t y = u"
        using d ends snoc Cons by (auto simp: tuya_list_del_def store_defs)
      ultimately show ?thesis using snoc by (simp add: dpath_append)
    qed
    ultimately show ?thesis using py d z Cons by (auto simp: dlist_append)
  qed
qed

lemma nxt_prv_del_frame:
  assumes "dlist s h (xs @ e # ys)" and "p \<notin> set (h # xs @ ys)"
  shows "nxt (tuya_list_del e s) p = nxt s p" and "prv (tuya_list_del e s) p = prv s p"
proof -
  have q: "dpath s h xs e" "dpath s e ys h" using assms by (auto simp: dlist_append)
  have "prv s e \<in> set (h # xs)" "nxt s e \<in> set (ys @ [h])"
    using dpath_ends [OF q(1)] dpath_ends [OF q(2)] by (auto simp: hd_append)
  then have "p \<noteq> prv s e" "p \<noteq> nxt s e" using assms(2) by auto
  then show "nxt (tuya_list_del e s) p = nxt s p" "prv (tuya_list_del e s) p = prv s p"
    by (simp_all add: tuya_list_del_def store_defs)
qed

lemma dlist_del_init:
  assumes "dlist s h (xs @ e # ys)"
  shows "dlist (tuya_list_del_init e s) h (xs @ ys)" and "dlist (tuya_list_del_init e s) e []"
proof -
  have "tuya_list_del_init e s = INIT_LIST_HEAD e (tuya_list_del e s)"
    by (simp add: tuya_list_del_init_def tuya_list_del_def)
  moreover have e: "e \<notin> set (h # xs @ ys)" "e \<noteq> 0"
    using assms by (auto simp: dlist_append)
  then have "dlist (INIT_LIST_HEAD e (tuya_list_del e s)) h (xs @ ys)
      = dlist (tuya_list_del e s) h (xs @ ys)"
    by (intro dlist_cong) (auto simp: store_defs)
  ultimately show "dlist (tuya_list_del_init e s) h (xs @ ys)"
    using dlist_del [OF assms] by simp
  show "dlist (tuya_list_del_init e s) e []"
    using dlist_init [OF e(2)] by (simp add: tuya_list_del_init_def)
qed

lemma dlist_splice:
  assumes "dlist s h xs" and "dlist s l ys" and "set (h # xs) \<inter> set (l # ys) = {}"
  shows "dlist (tuya_list_splice l h s) h (ys @ xs)"
proof (cases "ys = []")
  case True
  then show ?thesis using assms by (auto simp: tuya_list_splice_def dlist_def)
next
  case False
  let ?t = "tuya_list_splice l h s"
  from False obtain y vs where ys: "ys = y # vs" by (cases ys) auto
  from False obtain us u where ys': "ys = us @ [u]" by (cases ys rule: rev_cases) auto
  have p: "dpath s h xs h" "dpath s l ys l" and d: "distinct (h # l # xs @ ys)" "0 \<notin> set (h # l # xs @ ys)"
    using assms by (auto simp: dlist_def)
  have "nxt s l = y" using dpath_ends(1) [OF p(2)] ys by simp
  moreover have "prv s l = u" using dpath_ends(2) [OF p(2)] unfolding ys' by simp
  ultimately have ends: "nxt s l = y" "prv s l = u" "nxt s h = hd (xs @ [h])"
    using dpath_ends(1) [OF p(1)] by simp_all
  have yu: "y \<in> set ys" "u \<in> set ys" by (simp add: ys, simp add: ys')
  then have yl: "y \<noteq> l" using d by auto
  define at where "at = hd (xs @ [h])"
  have at: "at \<in> set (h # xs)" by (cases xs) (auto simp: at_def)
  have nx: "nxt ?t = (nxt s)(h := y, u := at)" and pv: "prv ?t = (prv s)(y := h, at := u)"
    using yu yl ends by (simp_all add: tuya_list_splice_def store_defs at_def fun_upd_twist)
  have mid: "dpath s y vs l" using p(2) ys by simp
  have us: "dpath s l us u" using p(2) ys' by (simp add: dpath_append)
  have "dpath ?t h us u"
  proof (cases us)
    case Nil
    then have "u = y" using ys ys' by simp
    then show ?thesis using Nil nx pv d yu at by auto
  next
    case (Cons w ws)
    have w: "w = y" using ys ys' Cons by simp
    have "dpath ?t w ws u = dpath s w ws u"
      using d at yu w ys ys' Cons by (intro dpath_cong) (auto simp: nx pv)
    moreover have "dpath s w ws u" using us Cons by simp
    moreover have "u \<noteq> h" "y \<noteq> at" using d yu at by auto
    ultimately show ?thesis by (simp add: Cons nx pv w)
  qed
  moreover have "dpath ?t u xs h"
  proof (cases xs)
    case Nil
    then show ?thesis using nx pv at d yu by (auto simp: at_def)
  next
    case (Cons x zs)
    have "dpath ?t x zs h = dpath s x zs h"
      using d yu Cons by (intro dpath_cong) (auto simp: nx pv at_def)
    moreover have "dpath s x zs h" using p(1) Cons by simp
    ultimately show ?thesis using Cons nx pv by (auto simp: at_def)
  qed
  ultimately show ?thesis using d ys' by (auto simp: dlist_append)
qed

section \<open>The contract of a linked sequence\<close>

text \<open>What \<^verbatim>\<open>tuya_queue.c\<close> relies on. \<open>seq s h xs\<close>: in the store \<open>s\<close> the list of head
  \<open>h\<close> holds the nodes \<open>xs\<close>.\<close>

locale linked_seq =
  fixes seq :: "'s \<Rightarrow> nat \<Rightarrow> nat list \<Rightarrow> bool"
    and init :: "nat \<Rightarrow> 's \<Rightarrow> 's"
    and push_front :: "nat \<Rightarrow> nat \<Rightarrow> 's \<Rightarrow> 's"
    and push_back :: "nat \<Rightarrow> nat \<Rightarrow> 's \<Rightarrow> 's"
    and remove :: "nat \<Rightarrow> 's \<Rightarrow> 's"
    and first :: "'s \<Rightarrow> nat \<Rightarrow> nat"
    and nodes :: "'s \<Rightarrow> nat \<Rightarrow> nat list option"
  assumes seq_init: "h \<noteq> 0 \<Longrightarrow> seq (init h s) h []"
    and seq_distinct: "seq s h xs \<Longrightarrow> distinct (h # xs) \<and> 0 \<notin> set (h # xs)"
    and seq_push_front: "seq s h xs \<Longrightarrow> n \<notin> set (h # xs) \<Longrightarrow> n \<noteq> 0 \<Longrightarrow> seq (push_front n h s) h (n # xs)"
    and seq_push_back: "seq s h xs \<Longrightarrow> n \<notin> set (h # xs) \<Longrightarrow> n \<noteq> 0 \<Longrightarrow> seq (push_back n h s) h (xs @ [n])"
    and seq_remove: "seq s h (xs @ e # ys) \<Longrightarrow> seq (remove e s) h (xs @ ys)"
    and seq_first: "seq s h (x # xs) \<Longrightarrow> first s h = x"
    and seq_nodes: "seq s h xs \<Longrightarrow> nodes s h = Some xs"
begin

lemma seq_unique: "seq s h xs \<Longrightarrow> seq s h ys \<Longrightarrow> xs = ys"
  using seq_nodes [of s h xs] seq_nodes [of s h ys] by simp

lemma seq_remove_first: "seq s h (x # xs) \<Longrightarrow> seq (remove x s) h xs"
  using seq_remove [of s h "[]" x xs] by simp

text \<open>Taking the first node out until nothing is left, as \<^verbatim>\<open>FREE_LIST\<close> and the clearing
  loop of the queue do.\<close>

lemma seq_drain: "seq s h xs \<Longrightarrow> seq (fold remove xs s) h []"
  by (induction xs arbitrary: s) (auto dest: seq_remove_first)

lemma seq_drain_prefix: "seq s h (xs @ ys) \<Longrightarrow> seq (fold remove xs s) h ys"
  by (induction xs arbitrary: s) (auto dest: seq_remove_first)

end

interpretation dl: linked_seq dlist INIT_LIST_HEAD tuya_list_add tuya_list_add_tail tuya_list_del
  nxt "\<lambda>s h. list_nodes s h (nxt s h)"
proof unfold_locales
  fix s h x xs assume "dlist s h (x # xs)"
  then show "nxt s h = x" by (simp add: dlist_def)
qed (simp_all add: dlist_init dlist_add dlist_add_tail dlist_del list_nodes_dlist,
  auto simp: dlist_def)

end
