(* ===== verification/Queue.thy ===== *)
theory Queue
  imports DList Fifo
begin

text \<open>
  The bounded item queue of \<^verbatim>\<open>utilities/src/tuya_queue.c\<close>, built over the linked list of
  theory \<open>DList\<close>: every item is a heap object (\<^verbatim>\<open>QUEUE_ITEM_T\<close>) whose list node is
  linked into the ring of \<^verbatim>\<open>queue->head\<close> and whose bytes are in \<open>q_items\<close>. The objects that
  are allocated are the domain of \<open>q_items\<close>; using or freeing one that is not is \<open>None\<close>.
  What \<^verbatim>\<open>tkl_system_malloc\<close> returns is an argument of the operations that allocate, and so
  is the result of creating or releasing the mutex; taking and giving it is counted in
  \<open>q_locked\<close>.
\<close>

section \<open>State and operations\<close>

datatype enqueue_policy = POLICY_SEND_TO_BACK | POLICY_SEND_TO_FRONT | POLICY_MAX

record tuya_queue =
  q_locked :: nat
  item_size :: u32
  queue_len :: u32
  queue_free :: u32
  q_head :: nat
  q_store :: dstore
  q_items :: "nat \<rightharpoonup> u8 list"

definition QUEUE_LOCK :: "tuya_queue \<Rightarrow> tuya_queue" where
  "QUEUE_LOCK q = q\<lparr>q_locked := q_locked q + 1\<rparr>"

definition QUEUE_UNLOCK :: "tuya_queue \<Rightarrow> tuya_queue" where
  "QUEUE_UNLOCK q = q\<lparr>q_locked := q_locked q - 1\<rparr>"

text \<open>Freeing an item is only defined for an item that is allocated.\<close>

definition free_item :: "nat \<Rightarrow> tuya_queue \<Rightarrow> tuya_queue option" where
  "free_item p q =
     (if p \<in> dom (q_items q) then Some (q\<lparr>q_items := (q_items q)(p := None)\<rparr>) else None)"

text \<open>\<^verbatim>\<open>SIZEOF(QUEUE_ITEM_T)\<close> is 8 on the 32-bit target; the size given to the allocator is
  computed modulo \<open>2 ^ 32\<close>, and what is left of the block after the node is the room for
  the data.\<close>

definition item_room :: "u32 \<Rightarrow> nat" where
  "item_room isz = unat (8 + isz) - 8"

definition enqueue ::
  "tuya_queue option \<Rightarrow> u8 list option \<Rightarrow> enqueue_policy \<Rightarrow> nat option
     \<Rightarrow> (oprt \<times> tuya_queue option) option" where
  "enqueue handle item policy mem =
     (case (handle, item) of
        (Some q, Some bytes) \<Rightarrow>
          if policy = POLICY_MAX then Some (OPRT_INVALID_PARM, handle)
          else case mem of
            None \<Rightarrow> Some (OPRT_MALLOC_FAILED, handle)
          | Some p \<Rightarrow> do {
              let s = INIT_LIST_HEAD p (q_store q);
              data \<leftarrow> memcpy (replicate (item_room (item_size q)) 0) 0 bytes 0 (unat (item_size q));
              let q = q\<lparr>q_store := s, q_items := (q_items q)(p \<mapsto> data)\<rparr>;
              let q = QUEUE_LOCK q;
              (r, q) \<leftarrow>
                (if queue_free q > 0 then
                   let s = (case policy of
                              POLICY_SEND_TO_BACK \<Rightarrow> tuya_list_add_tail p (q_head q) (q_store q)
                            | POLICY_SEND_TO_FRONT \<Rightarrow> tuya_list_add p (q_head q) (q_store q)
                            | POLICY_MAX \<Rightarrow> q_store q)
                   in Some (OPRT_OK, q\<lparr>q_store := s, queue_free := queue_free q - 1\<rparr>)
                 else do {
                   q \<leftarrow> free_item p q;
                   Some (OPRT_EXCEED_UPPER_LIMIT, q)
                 });
              Some (r, Some (QUEUE_UNLOCK q))
            }
      | _ \<Rightarrow> Some (OPRT_INVALID_PARM, handle))"

text \<open>\<open>mem\<close> is the address of the new queue, \<open>lock\<close> the result of creating its mutex. The
  fields that the code does not set are those of the block \<open>raw\<close> the allocator returned.\<close>

definition tuya_queue_create ::
  "u32 \<Rightarrow> u32 \<Rightarrow> bool \<Rightarrow> nat option \<Rightarrow> oprt \<Rightarrow> dstore \<Rightarrow> oprt \<times> tuya_queue option" where
  "tuya_queue_create qlen isize handle_null mem lock raw =
     (if handle_null \<or> qlen = 0 \<or> isize = 0 then (OPRT_INVALID_PARM, None)
      else case mem of
        None \<Rightarrow> (OPRT_MALLOC_FAILED, None)
      | Some h \<Rightarrow>
          if lock \<noteq> OPRT_OK then (OPRT_COM_ERROR, None)
          else (OPRT_OK, Some
            \<lparr>q_locked = 0, item_size = isize, queue_len = qlen, queue_free = qlen, q_head = h,
             q_store = INIT_LIST_HEAD h raw, q_items = Map.empty\<rparr>))"

definition tuya_queue_input ::
  "tuya_queue option \<Rightarrow> u8 list option \<Rightarrow> nat option \<Rightarrow> (oprt \<times> tuya_queue option) option" where
  "tuya_queue_input handle item mem = enqueue handle item POLICY_SEND_TO_BACK mem"

definition tuya_queue_input_instant ::
  "tuya_queue option \<Rightarrow> u8 list option \<Rightarrow> nat option \<Rightarrow> (oprt \<times> tuya_queue option) option" where
  "tuya_queue_input_instant handle item mem = enqueue handle item POLICY_SEND_TO_FRONT mem"

text \<open>\<open>item\<close> is the caller's buffer (\<open>None\<close> discards the item); it is returned as it is after
  the call.\<close>

definition tuya_queue_output ::
  "tuya_queue option \<Rightarrow> u8 list option \<Rightarrow> (oprt \<times> u8 list option \<times> tuya_queue option) option" where
  "tuya_queue_output handle item =
     (case handle of
        None \<Rightarrow> Some (OPRT_INVALID_PARM, item, None)
      | Some q \<Rightarrow> do {
          let q = QUEUE_LOCK q;
          (r, item, q) \<leftarrow>
            (if queue_free q < queue_len q then do {
               let p = nxt (q_store q) (q_head q);
               data \<leftarrow> q_items q p;
               item \<leftarrow> (case item of
                          None \<Rightarrow> Some None
                        | Some buf \<Rightarrow> do { b \<leftarrow> memcpy buf 0 data 0 (unat (item_size q)); Some (Some b) });
               let q = q\<lparr>q_store := tuya_list_del p (q_store q)\<rparr>;
               q \<leftarrow> free_item p q;
               Some (OPRT_OK, item, q\<lparr>queue_free := queue_free q + 1\<rparr>)
             } else Some (OPRT_NOT_FOUND, item, q));
          Some (r, item, Some (QUEUE_UNLOCK q))
        })"

definition tuya_queue_peek ::
  "tuya_queue option \<Rightarrow> u8 list option \<Rightarrow> (oprt \<times> u8 list option \<times> tuya_queue option) option" where
  "tuya_queue_peek handle item =
     (case (handle, item) of
        (Some q, Some buf) \<Rightarrow> do {
          let q = QUEUE_LOCK q;
          (r, buf) \<leftarrow>
            (if queue_free q < queue_len q then do {
               data \<leftarrow> q_items q (nxt (q_store q) (q_head q));
               b \<leftarrow> memcpy buf 0 data 0 (unat (item_size q));
               Some (OPRT_OK, b)
             } else Some (OPRT_NOT_FOUND, buf));
          Some (r, Some buf, Some (QUEUE_UNLOCK q))
        }
      | _ \<Rightarrow> Some (OPRT_INVALID_PARM, item, handle))"

text \<open>The callback of \<^verbatim>\<open>tuya_queue_traverse\<close> may change the item's bytes and its own context
  and says whether to go on.\<close>

fun traverse_loop ::
  "(u8 list \<Rightarrow> 'c \<Rightarrow> bool \<times> u8 list \<times> 'c) \<Rightarrow> nat list \<Rightarrow> (nat \<rightharpoonup> u8 list) \<Rightarrow> 'c
     \<Rightarrow> ((nat \<rightharpoonup> u8 list) \<times> 'c) option" where
  "traverse_loop cb [] items ctx = Some (items, ctx)"
| "traverse_loop cb (p # ps) items ctx =
     do {
       data \<leftarrow> items p;
       let (go, data', ctx') = cb data ctx;
       let items = items(p \<mapsto> data');
       if \<not> go then Some (items, ctx') else traverse_loop cb ps items ctx'
     }"

definition tuya_queue_traverse ::
  "tuya_queue option \<Rightarrow> (u8 list \<Rightarrow> 'c \<Rightarrow> bool \<times> u8 list \<times> 'c) option \<Rightarrow> 'c
     \<Rightarrow> (oprt \<times> 'c \<times> tuya_queue option) option" where
  "tuya_queue_traverse handle cb ctx =
     (case (handle, cb) of
        (Some q, Some f) \<Rightarrow> do {
          let q = QUEUE_LOCK q;
          ps \<leftarrow> list_nodes (q_store q) (q_head q) (nxt (q_store q) (q_head q));
          (items, ctx) \<leftarrow> traverse_loop f ps (q_items q) ctx;
          Some (OPRT_OK, ctx, Some (QUEUE_UNLOCK (q\<lparr>q_items := items\<rparr>)))
        }
      | _ \<Rightarrow> Some (OPRT_INVALID_PARM, ctx, handle))"

text \<open>The clearing loop fetches the next node before it frees the current one.\<close>

fun clear_loop :: "nat list \<Rightarrow> tuya_queue \<Rightarrow> tuya_queue option" where
  "clear_loop [] q = Some q"
| "clear_loop (p # ps) q =
     do {
       q \<leftarrow> free_item p (q\<lparr>q_store := tuya_list_del p (q_store q)\<rparr>);
       clear_loop ps q
     }"

definition tuya_queue_clear :: "tuya_queue option \<Rightarrow> (oprt \<times> tuya_queue option) option" where
  "tuya_queue_clear handle =
     (case handle of
        None \<Rightarrow> Some (OPRT_INVALID_PARM, None)
      | Some q \<Rightarrow> do {
          let q = QUEUE_LOCK q;
          ps \<leftarrow> list_nodes (q_store q) (q_head q) (nxt (q_store q) (q_head q));
          q \<leftarrow> clear_loop ps q;
          let q = q\<lparr>queue_free := queue_len q\<rparr>;
          Some (OPRT_OK, Some (QUEUE_UNLOCK q))
        })"

text \<open>\<open>index\<close> and \<open>cnt\<close> are the two counters of the loop; the destination offset
  \<^verbatim>\<open>count * item_size\<close> is a 32-bit product.\<close>

fun batch_loop ::
  "tuya_queue \<Rightarrow> u32 \<Rightarrow> u32 \<Rightarrow> nat list \<Rightarrow> u32 \<Rightarrow> u32 \<Rightarrow> u8 list \<Rightarrow> (u32 \<times> u32 \<times> u8 list) option" where
  "batch_loop q start num [] index cnt items = Some (index, cnt, items)"
| "batch_loop q start num (p # ps) index cnt items =
     (if index < start then batch_loop q start num ps (index + 1) cnt items
      else if cnt \<ge> num then Some (index, cnt, items)
      else do {
        data \<leftarrow> q_items q p;
        items \<leftarrow> memcpy items (unat (cnt * item_size q)) data 0 (unat (item_size q));
        batch_loop q start num ps index (cnt + 1) items
      })"

definition tuya_queue_get_batch ::
  "tuya_queue option \<Rightarrow> u32 \<Rightarrow> u8 list option \<Rightarrow> u32 \<Rightarrow> (oprt \<times> u8 list option \<times> tuya_queue option) option" where
  "tuya_queue_get_batch handle start items num =
     (case (handle, items) of
        (Some q, Some buf) \<Rightarrow>
          if num = 0 then Some (OPRT_INVALID_PARM, items, handle)
          else do {
            let q = QUEUE_LOCK q;
            ps \<leftarrow> list_nodes (q_store q) (q_head q) (nxt (q_store q) (q_head q));
            (index, cnt, buf) \<leftarrow> batch_loop q start num ps 0 0 buf;
            let q = QUEUE_UNLOCK q;
            Some (if index \<noteq> start \<or> cnt \<noteq> num then OPRT_NOT_FOUND else OPRT_OK, Some buf, Some q)
          }
      | _ \<Rightarrow> Some (OPRT_INVALID_PARM, items, handle))"

text \<open>The loop tests \<^verbatim>\<open>count--\<close> and then the result of the last call.\<close>

fun delete_loop :: "nat \<Rightarrow> oprt \<Rightarrow> tuya_queue option \<Rightarrow> (oprt \<times> tuya_queue option) option" where
  "delete_loop 0 r q = Some (r, q)"
| "delete_loop (Suc n) r q =
     (if r = OPRT_OK then do {
        (r', _, q') \<leftarrow> tuya_queue_output q None;
        delete_loop n r' q'
      } else Some (r, q))"

definition tuya_queue_delete_batch ::
  "tuya_queue option \<Rightarrow> u32 \<Rightarrow> (oprt \<times> tuya_queue option) option" where
  "tuya_queue_delete_batch handle num =
     (if handle = None \<or> num = 0 then Some (OPRT_INVALID_PARM, handle)
      else delete_loop (unat num) OPRT_OK handle)"

definition tuya_queue_get_free_num :: "tuya_queue option \<Rightarrow> u32" where
  "tuya_queue_get_free_num handle = (case handle of None \<Rightarrow> 0 | Some q \<Rightarrow> queue_free q)"

definition tuya_queue_get_used_num :: "tuya_queue option \<Rightarrow> u32 \<times> tuya_queue option" where
  "tuya_queue_get_used_num handle =
     (case handle of
        None \<Rightarrow> (0, None)
      | Some q \<Rightarrow>
          (let q = QUEUE_LOCK q;
               used_num = queue_len q - queue_free q
           in (used_num, Some (QUEUE_UNLOCK q))))"

definition tuya_queue_get_max_num :: "tuya_queue option \<Rightarrow> u32" where
  "tuya_queue_get_max_num handle = (case handle of None \<Rightarrow> 0 | Some q \<Rightarrow> queue_len q)"

text \<open>\<open>unlock\<close> is the result of releasing the mutex. The queue object is gone afterwards; the
  third component are the items that are still allocated (a leak unless it is empty).\<close>

definition tuya_queue_release ::
  "tuya_queue option \<Rightarrow> oprt \<Rightarrow> (oprt \<times> (nat \<rightharpoonup> u8 list)) option" where
  "tuya_queue_release handle unlock =
     (case handle of
        None \<Rightarrow> Some (OPRT_INVALID_PARM, Map.empty)
      | Some _ \<Rightarrow> do {
          (_, q) \<leftarrow> tuya_queue_clear handle;
          case q of
            Some q' \<Rightarrow> Some (unlock, q_items q')
          | None \<Rightarrow> None
        })"

section \<open>Well-formed queues\<close>

definition queue_nodes_ok :: "tuya_queue \<Rightarrow> nat list \<Rightarrow> bool" where
  "queue_nodes_ok q xs \<longleftrightarrow>
     dlist (q_store q) (q_head q) xs \<and> dom (q_items q) = set xs \<and>
     (\<forall>p d. q_items q p = Some d \<longrightarrow> length d = unat (item_size q)) \<and>
     queue_free q \<le> queue_len q \<and> length xs = unat (queue_len q) - unat (queue_free q) \<and>
     unat (item_size q) + 8 < 2 ^ 32"

definition queue_ok :: "tuya_queue \<Rightarrow> bool" where
  "queue_ok q \<longleftrightarrow> q_locked q = 0 \<and> (\<exists>xs. queue_nodes_ok q xs)"

definition queue_contents :: "tuya_queue \<Rightarrow> u8 list list" where
  "queue_contents q =
     map (\<lambda>p. the (q_items q p)) (the (list_nodes (q_store q) (q_head q) (nxt (q_store q) (q_head q))))"

lemma queue_okE:
  assumes "queue_ok q"
  obtains xs where "queue_nodes_ok q xs" "q_locked q = 0"
    "queue_contents q = map (\<lambda>p. the (q_items q p)) xs"
    "list_nodes (q_store q) (q_head q) (nxt (q_store q) (q_head q)) = Some xs"
  using assms dl.seq_nodes by (auto simp: queue_ok_def queue_nodes_ok_def queue_contents_def)

lemma queue_nodes_ok_contents:
  "queue_nodes_ok q xs \<Longrightarrow> queue_contents q = map (\<lambda>p. the (q_items q p)) xs"
  using dl.seq_nodes by (auto simp: queue_nodes_ok_def queue_contents_def)

section \<open>Every operation on a well-formed queue\<close>

lemma room_iff: "queue_nodes_ok q xs \<Longrightarrow> queue_free q < queue_len q \<longleftrightarrow> xs \<noteq> []"
  by (cases xs) (auto simp: queue_nodes_ok_def word_less_nat_alt word_le_nat_alt)

lemma item_room_eq: "unat isz + 8 < 2 ^ 32 \<Longrightarrow> item_room isz = unat isz"
  by (simp add: item_room_def unat_word_ariths)

lemma map_items_upd: "p \<notin> set xs \<Longrightarrow> map (\<lambda>x. the ((m(p := v)) x)) xs = map (\<lambda>x. the (m x)) xs"
  by (intro map_cong) auto

lemma dlist_INIT_other: "dlist s h xs \<Longrightarrow> p \<notin> set (h # xs) \<Longrightarrow> dlist (INIT_LIST_HEAD p s) h xs"
  by (subst dlist_cong [where s = s]) (auto simp: store_defs)

lemma queue_nodes_ok_insert:
  assumes q: "queue_nodes_ok q xs" and room: "queue_free q > 0"
    and p: "p \<notin> dom (q_items q)" "p \<noteq> 0" "p \<noteq> q_head q" and d: "length d = unat (item_size q)"
    and s: "dlist s (q_head q) ys" and ys: "set ys = insert p (set xs)" "length ys = Suc (length xs)"
  shows "queue_nodes_ok (q\<lparr>q_store := s, q_items := (q_items q)(p \<mapsto> d), queue_free := queue_free q - 1, q_locked := l\<rparr>) ys"
proof -
  have "unat (queue_free q - 1) = unat (queue_free q) - 1"
    using room by (metis unat_minus_one word_gt_0_no word_neq_0_conv)
  moreover have "0 < unat (queue_free q)" using room by (simp add: word_less_nat_alt)
  ultimately show ?thesis
    using q s ys d p by (auto simp: queue_nodes_ok_def word_le_nat_alt)
qed

lemma enqueue_spec:
  assumes ok: "queue_ok q" and bytes: "unat (item_size q) \<le> length bytes"
    and p: "p \<notin> dom (q_items q)" "p \<noteq> 0" "p \<noteq> q_head q" and pol: "policy \<noteq> POLICY_MAX"
  shows "\<exists>q'. enqueue (Some q) (Some bytes) policy (Some p) =
      Some (if queue_free q > 0 then OPRT_OK else OPRT_EXCEED_UPPER_LIMIT, Some q') \<and>
    queue_ok q' \<and> queue_len q' = queue_len q \<and> item_size q' = item_size q \<and> q_head q' = q_head q \<and>
    queue_free q' = (if queue_free q > 0 then queue_free q - 1 else queue_free q) \<and>
    dom (q_items q') = (if queue_free q > 0 then insert p (dom (q_items q)) else dom (q_items q)) \<and>
    queue_contents q' =
      (if queue_free q > 0 then
         (case policy of POLICY_SEND_TO_FRONT \<Rightarrow> take (unat (item_size q)) bytes # queue_contents q
          | _ \<Rightarrow> queue_contents q @ [take (unat (item_size q)) bytes])
       else queue_contents q)"
proof -
  obtain xs where xs: "queue_nodes_ok q xs" "q_locked q = 0"
    "queue_contents q = map (\<lambda>p. the (q_items q p)) xs"
    using queue_okE [OF ok] by metis
  let ?d = "take (unat (item_size q)) bytes"
  let ?s = "INIT_LIST_HEAD p (q_store q)"
  have dl: "dlist (q_store q) (q_head q) xs" and dom: "dom (q_items q) = set xs"
    and small: "unat (item_size q) + 8 < 2 ^ 32"
    using xs(1) by (auto simp: queue_nodes_ok_def)
  have pxs: "p \<notin> set (q_head q # xs)" using p dom by auto
  have dl': "dlist ?s (q_head q) xs" using dlist_INIT_other [OF dl pxs] .
  have cpy: "memcpy (replicate (item_room (item_size q)) 0) 0 bytes 0 (unat (item_size q)) = Some ?d"
    using bytes small by (simp add: chk_simps item_room_eq)
  have dlen: "length ?d = unat (item_size q)" using bytes by simp
  show ?thesis
  proof (cases "queue_free q > 0")
    case True
    define s where "s = (case policy of POLICY_SEND_TO_BACK \<Rightarrow> tuya_list_add_tail p (q_head q) ?s
      | POLICY_SEND_TO_FRONT \<Rightarrow> tuya_list_add p (q_head q) ?s | POLICY_MAX \<Rightarrow> ?s)"
    define ys where "ys = (case policy of POLICY_SEND_TO_FRONT \<Rightarrow> p # xs | _ \<Rightarrow> xs @ [p])"
    define q' where "q' = q\<lparr>q_store := s, q_items := (q_items q)(p \<mapsto> ?d), queue_free := queue_free q - 1, q_locked := 0\<rparr>"
    have "dlist s (q_head q) ys"
      using pol dl.seq_push_front [OF dl' pxs p(2)] dl.seq_push_back [OF dl' pxs p(2)]
      by (cases policy) (simp_all add: s_def ys_def)
    moreover have "set ys = insert p (set xs)" "length ys = Suc (length xs)"
      by (auto simp: ys_def split: enqueue_policy.split)
    ultimately have q'ok: "queue_nodes_ok q' ys"
      unfolding q'_def by (intro queue_nodes_ok_insert [OF xs(1) True p dlen])
    have "enqueue (Some q) (Some bytes) policy (Some p) = Some (OPRT_OK, Some q')"
      using True pol cpy xs(2)
      by (cases policy) (simp_all add: Let_def enqueue_def QUEUE_LOCK_def QUEUE_UNLOCK_def q'_def s_def)
    moreover have "queue_contents q' = (case policy of POLICY_SEND_TO_FRONT \<Rightarrow> ?d # queue_contents q
          | _ \<Rightarrow> queue_contents q @ [?d])"
      using map_items_upd [of p xs "q_items q" "Some ?d"] pxs pol
      by (cases policy) (simp_all add: queue_nodes_ok_contents [OF q'ok] xs(3) ys_def, simp_all add: q'_def)
    moreover have "queue_ok q'" using q'ok by (auto simp: queue_ok_def q'_def)
    ultimately show ?thesis using True by (auto simp: q'_def)
  next
    case False
    define q' where "q' = q\<lparr>q_store := ?s, q_items := (q_items q)(p := None), q_locked := 0\<rparr>"
    have "enqueue (Some q) (Some bytes) policy (Some p) = Some (OPRT_EXCEED_UPPER_LIMIT, Some q')"
      using False pol cpy xs(2)
      by (simp add: enqueue_def QUEUE_LOCK_def QUEUE_UNLOCK_def q'_def free_item_def)
    moreover have it: "(q_items q)(p := None) = q_items q" using p(1) by (auto simp: domIff)
    moreover have q'ok: "queue_nodes_ok q' xs"
      using xs(1) dl' unfolding q'_def it by (simp add: queue_nodes_ok_def)
    moreover have "queue_contents q' = queue_contents q"
      unfolding queue_nodes_ok_contents [OF q'ok] xs(3) by (simp add: q'_def it)
    ultimately show ?thesis using False by (auto simp: q'_def queue_ok_def)
  qed
qed

lemma output_nonempty:
  assumes q: "queue_nodes_ok q (p # ps)" and l: "q_locked q = 0"
    and buf: "\<And>b. item = Some b \<Longrightarrow> unat (item_size q) \<le> length b"
  shows "\<exists>q'. tuya_queue_output (Some q) item =
      Some (OPRT_OK, map_option (\<lambda>b. the (q_items q p) @ drop (unat (item_size q)) b) item, Some q') \<and>
    queue_nodes_ok q' ps \<and> q_locked q' = 0 \<and> queue_len q' = queue_len q \<and> item_size q' = item_size q \<and>
    q_head q' = q_head q \<and>
    queue_free q' = queue_free q + 1 \<and> q_items q' = (q_items q)(p := None)"
proof -
  have dl: "dlist (q_store q) (q_head q) (p # ps)" and dom: "dom (q_items q) = set (p # ps)"
    and lens: "length (p # ps) = unat (queue_len q) - unat (queue_free q)"
    using q by (auto simp: queue_nodes_ok_def)
  obtain d where d: "q_items q p = Some d" using dom by (auto simp: dom_def)
  then have dlen: "length d = unat (item_size q)" using q by (auto simp: queue_nodes_ok_def)
  have first: "nxt (q_store q) (q_head q) = p" using dl.seq_first [OF dl] .
  have room: "queue_free q < queue_len q" using room_iff [OF q] by simp
  define q' where "q' = q\<lparr>q_store := tuya_list_del p (q_store q), q_items := (q_items q)(p := None),
    queue_free := queue_free q + 1, q_locked := 0\<rparr>"
  have cpy: "item = Some b \<Longrightarrow>
      memcpy b 0 d 0 (unat (item_size q)) = Some (d @ drop (unat (item_size q)) b)" for b
    using buf dlen by (simp add: chk_simps)
  have "tuya_queue_output (Some q) item =
      Some (OPRT_OK, map_option (\<lambda>b. the (q_items q p) @ drop (unat (item_size q)) b) item, Some q')"
    using room d l cpy
    by (cases item)
       (simp_all add: tuya_queue_output_def QUEUE_LOCK_def QUEUE_UNLOCK_def first free_item_def domI q'_def)
  moreover have "unat (queue_free q + 1) = unat (queue_free q) + 1"
  proof -
    have "unat (queue_free q) + 1 < 2 ^ 32"
      using room unsigned_less [of "queue_len q", where ?'a = nat] by (simp add: word_less_nat_alt)
    then show ?thesis by (simp add: unat_word_ariths)
  qed
  moreover have "p \<notin> set ps" using dl by (simp add: dlist_def)
  ultimately show ?thesis
    using q dl.seq_remove_first [OF dl] lens room dom
    by (intro exI [of _ q'])
       (auto simp: q'_def queue_nodes_ok_def word_le_nat_alt word_less_nat_alt split: if_splits)
qed

lemma output_empty:
  assumes q: "queue_nodes_ok q []" and l: "q_locked q = 0"
  shows "tuya_queue_output (Some q) item = Some (OPRT_NOT_FOUND, item, Some q)"
  using room_iff [OF q] l
  by (simp add: tuya_queue_output_def QUEUE_LOCK_def QUEUE_UNLOCK_def)

text \<open>Deleting a batch.\<close>

lemma contents_after_output:
  "p \<notin> set ps \<Longrightarrow> m' = m(p := None) \<Longrightarrow> map (\<lambda>x. the (m' x)) ps = map (\<lambda>x. the (m x)) ps"
  by (simp add: map_items_upd)

lemma delete_loop_spec:
  "queue_nodes_ok q ps \<Longrightarrow> q_locked q = 0 \<Longrightarrow>
   \<exists>q'. delete_loop n OPRT_OK (Some q) =
       Some (if n \<le> length ps then OPRT_OK else OPRT_NOT_FOUND, Some q') \<and>
     queue_nodes_ok q' (drop n ps) \<and> q_locked q' = 0 \<and>
     queue_contents q' = drop n (queue_contents q)"
proof (induction n arbitrary: q ps)
  case 0
  then show ?case by simp
next
  case (Suc n)
  show ?case
  proof (cases ps)
    case Nil
    have "delete_loop n OPRT_NOT_FOUND (Some q) = Some (OPRT_NOT_FOUND, Some q)" by (cases n) auto
    then show ?thesis
      using Nil Suc.prems output_empty [of q None] queue_nodes_ok_contents [OF Suc.prems(1)] by auto
  next
    case (Cons p ps')
    obtain q1 where q1: "tuya_queue_output (Some q) None = Some (OPRT_OK, None, Some q1)"
      "queue_nodes_ok q1 ps'" "q_locked q1 = 0" "q_items q1 = (q_items q)(p := None)"
      using output_nonempty [of q p ps' None] Suc.prems Cons by auto
    have "p \<notin> set ps'" using Suc.prems(1) Cons by (auto simp: queue_nodes_ok_def dlist_def)
    then have "queue_contents q1 = drop 1 (queue_contents q)"
      using q1(4) queue_nodes_ok_contents [OF q1(2)] queue_nodes_ok_contents [OF Suc.prems(1)] Cons
      by (simp add: map_items_upd)
    moreover obtain q2 where "delete_loop n OPRT_OK (Some q1) =
        Some (if n \<le> length ps' then OPRT_OK else OPRT_NOT_FOUND, Some q2)"
      "queue_nodes_ok q2 (drop n ps')" "q_locked q2 = 0" "queue_contents q2 = drop n (queue_contents q1)"
      using Suc.IH [OF q1(2,3)] by auto
    ultimately show ?thesis using q1(1) Cons by (auto simp: add.commute)
  qed
qed

text \<open>Clearing.\<close>

lemma clear_loop_spec:
  "set ps \<subseteq> dom (q_items q) \<Longrightarrow> distinct ps \<Longrightarrow>
   clear_loop ps q = Some (q\<lparr>q_store := fold tuya_list_del ps (q_store q),
     q_items := (q_items q) |` (- set ps)\<rparr>)"
proof (induction ps arbitrary: q)
  case Nil
  then show ?case by simp
next
  case (Cons p ps)
  let ?q = "q\<lparr>q_store := tuya_list_del p (q_store q), q_items := (q_items q)(p := None)\<rparr>"
  have "clear_loop ps ?q = Some (?q\<lparr>q_store := fold tuya_list_del ps (q_store ?q),
     q_items := (q_items ?q) |` (- set ps)\<rparr>)"
    using Cons.prems by (intro Cons.IH) auto
  moreover have "(q_items q)(p := None) |` (- set ps) = (q_items q) |` (- set (p # ps))"
    by (auto simp: restrict_map_def fun_eq_iff)
  ultimately show ?case using Cons.prems by (auto simp: free_item_def)
qed

lemma queue_clear_spec:
  assumes "queue_nodes_ok q ps" and "q_locked q = 0"
  shows "\<exists>q'. tuya_queue_clear (Some q) = Some (OPRT_OK, Some q') \<and> queue_nodes_ok q' [] \<and>
    q_locked q' = 0 \<and> q_items q' = Map.empty \<and> queue_free q' = queue_len q' \<and>
    queue_len q' = queue_len q \<and> item_size q' = item_size q"
proof -
  have dl: "dlist (q_store q) (q_head q) ps" and dom: "dom (q_items q) = set ps" "distinct ps"
    using assms by (auto simp: queue_nodes_ok_def dlist_def)
  let ?q = "q\<lparr>q_locked := 1\<rparr>"
  define q' where "q' = q\<lparr>q_locked := 0, q_store := fold tuya_list_del ps (q_store q),
     q_items := Map.empty, queue_free := queue_len q\<rparr>"
  have e: "(q_items q) |` (- set ps) = Map.empty"
    unfolding dom(1) [symmetric] by (rule ext) (auto simp: restrict_map_def domIff)
  have "tuya_queue_clear (Some q) = Some (OPRT_OK, Some q')"
    using assms(2) dom e dl.seq_nodes [OF dl]
    by (simp add: tuya_queue_clear_def QUEUE_LOCK_def QUEUE_UNLOCK_def clear_loop_spec q'_def)
  moreover have "queue_nodes_ok q' []"
    using dl.seq_drain [OF dl] assms(1) by (auto simp: q'_def queue_nodes_ok_def)
  ultimately show ?thesis by (auto simp: q'_def)
qed

text \<open>Batches.\<close>

lemma batch_skip:
  "unat index \<le> unat start \<Longrightarrow>
   batch_loop q start num ps index cnt items =
     (if unat start - unat index \<le> length ps
      then batch_loop q start num (drop (unat start - unat index) ps) start cnt items
      else Some (index + word_of_nat (length ps), cnt, items))"
proof (induction ps arbitrary: index)
  case Nil
  show ?case
  proof (cases "unat start = unat index")
    case True
    then show ?thesis by (simp add: word_unat_eq_iff)
  next
    case False
    then show ?thesis using Nil by simp
  qed
next
  case (Cons p ps)
  show ?case
  proof (cases "index < start")
    case True
    then have lt: "unat index < unat start" by (simp add: word_less_nat_alt)
    then have "unat (index + 1) = unat index + 1"
      using unsigned_less [of start, where ?'a = nat] by (simp add: unat_word_ariths)
    moreover have "Suc (unat index) \<le> unat start" using lt by simp
    moreover have "unat start - unat index = Suc (unat start - Suc (unat index))" using lt by simp
    ultimately show ?thesis using True Cons.IH [of "index + 1"]
      by (simp add: add.assoc)
  next
    case False
    then have "index = start" using Cons.prems
      by (simp add: word_less_nat_alt word_unat_eq_iff)
    then show ?thesis by simp
  qed
qed

lemma batch_copy:
  assumes "\<forall>p\<in>set ps. \<exists>d. q_items q p = Some d \<and> length d = unat (item_size q)"
    and "unat num * unat (item_size q) \<le> length items" and "length items < 2 ^ 32"
    and "unat cnt \<le> unat num"
  shows "batch_loop q start num ps start cnt items =
     (let m = min (length ps) (unat num - unat cnt); z = unat (item_size q)
      in Some (start, cnt + word_of_nat m,
           take (unat cnt * z) items @ concat (map (\<lambda>p. the (q_items q p)) (take m ps))
             @ drop ((unat cnt + m) * z) items))"
  using assms
proof (induction ps arbitrary: cnt items)
  case Nil
  then show ?case by (simp add: Let_def)
next
  case (Cons p ps)
  show ?case
  proof (cases "cnt \<ge> num")
    case True
    then have "unat cnt = unat num" using Cons.prems(4) by (simp add: word_le_nat_alt)
    then show ?thesis using True by (simp add: Let_def)
  next
    case False
    then have lt: "unat cnt < unat num" by (simp add: word_le_nat_alt)
    define z where "z = unat (item_size q)"
    obtain d where d: "q_items q p = Some d" "length d = z" using Cons.prems(1) z_def by auto
    have fit: "Suc (unat cnt) * z \<le> length items"
      using Cons.prems(2) lt z_def by (meson Suc_leI le_trans mult_le_mono1)
    have off: "unat (cnt * item_size q) = unat cnt * z"
      using fit Cons.prems(3) by (simp add: unat_word_ariths z_def)
    have cnt1: "unat (cnt + 1) = Suc (unat cnt)"
      using lt unsigned_less [of num, where ?'a = nat] by (simp add: unat_word_ariths)
    define it where "it = take (unat cnt * z) items @ d @ drop (unat cnt * z + z) items"
    have cpy: "memcpy items (unat (cnt * item_size q)) d 0 (unat (item_size q)) = Some it"
      using fit d(2) off by (simp add: chk_simps it_def z_def)
    have len_it: "length it = length items" using fit d(2) by (simp add: it_def)
    define m where "m = min (length ps) (unat num - Suc (unat cnt))"
    have m': "min (length (p # ps)) (unat num - unat cnt) = Suc m" using lt by (simp add: m_def)
    have "batch_loop q start num ps start (cnt + 1) it = Some (start, cnt + 1 + word_of_nat m,
       take (Suc (unat cnt) * z) it @ concat (map (\<lambda>p. the (q_items q p)) (take m ps))
         @ drop ((Suc (unat cnt) + m) * z) it)"
      using Cons.IH [of it "cnt + 1"] Cons.prems lt len_it cnt1 by (simp add: Let_def m_def z_def)
    moreover have "take (Suc (unat cnt) * z) it = take (unat cnt * z) items @ d"
      using fit d(2) by (simp add: it_def)
    moreover have "drop ((Suc (unat cnt) + m) * z) it = drop ((Suc (unat cnt) + m) * z) items"
      using fit d(2) by (simp add: it_def algebra_simps)
    ultimately show ?thesis using False d cpy m'
      by (simp add: Let_def z_def add.assoc flip: z_def)
  qed
qed

lemma get_batch_spec:
  assumes ok: "queue_ok q" and num: "num \<noteq> 0"
    and buf: "length buf = unat num * unat (item_size q)" "length buf < 2 ^ 32"
  shows "\<exists>out. tuya_queue_get_batch (Some q) start (Some buf) num =
     Some (if unat start + unat num \<le> length (queue_contents q) then OPRT_OK else OPRT_NOT_FOUND,
       Some out, Some q) \<and>
     (unat start + unat num \<le> length (queue_contents q) \<longrightarrow>
       out = concat (take (unat num) (drop (unat start) (queue_contents q))))"
proof -
  obtain xs where xs: "queue_nodes_ok q xs" "q_locked q = 0"
    "queue_contents q = map (\<lambda>p. the (q_items q p)) xs"
    "list_nodes (q_store q) (q_head q) (nxt (q_store q) (q_head q)) = Some xs"
    using queue_okE [OF ok] by metis
  have dom: "dom (q_items q) = set xs"
    and sz: "\<forall>p d. q_items q p = Some d \<longrightarrow> length d = unat (item_size q)"
    using xs(1) by (simp_all add: queue_nodes_ok_def)
  have items: "\<exists>d. q_items q p = Some d \<and> length d = unat (item_size q)" if "p \<in> set xs" for p
    using that dom sz by (metis domD)
  have n0: "0 < unat num" using num by (simp add: unat_gt_0)
  have xl: "length xs < 2 ^ 32"
    using xs(1) unsigned_less [of "queue_len q", where ?'a = nat] by (simp add: queue_nodes_ok_def)
  let ?q = "q\<lparr>q_locked := Suc 0\<rparr>"
  have unlock: "QUEUE_UNLOCK ?q = q" using xs(2) by (simp add: QUEUE_UNLOCK_def)
  have run: "tuya_queue_get_batch (Some q) start (Some buf) num =
     (case batch_loop ?q start num xs 0 0 buf of None \<Rightarrow> None
      | Some (index, cnt, out) \<Rightarrow>
          Some (if index \<noteq> start \<or> cnt \<noteq> num then OPRT_NOT_FOUND else OPRT_OK, Some out, Some q))"
    using num xs(2,4) by (simp add: tuya_queue_get_batch_def QUEUE_LOCK_def unlock bind_eq_None_conv
        split: option.split Option.bind_split)
  show ?thesis
  proof (cases "unat start \<le> length xs")
    case False
    then have l: "batch_loop ?q start num xs 0 0 buf = Some (word_of_nat (length xs), 0, buf)"
      by (subst batch_skip) simp_all
    have "unat (word_of_nat (length xs) :: u32) = length xs" using xl by (simp add: unat_of_nat)
    then have "word_of_nat (length xs) \<noteq> start" using False by auto
    then show ?thesis using False l by (simp add: run xs(3))
  next
    case True
    define ys where "ys = drop (unat start) xs"
    define m where "m = min (length ys) (unat num)"
    have "batch_loop ?q start num xs 0 0 buf = batch_loop ?q start num ys start 0 buf"
      using True by (subst batch_skip) (simp_all add: ys_def)
    also have "\<dots> = Some (start, word_of_nat m,
       concat (map (\<lambda>p. the (q_items q p)) (take m ys)) @ drop (m * unat (item_size q)) buf)"
      using items buf by (subst batch_copy) (auto simp: Let_def m_def ys_def dest: in_set_dropD)
    finally have l: "batch_loop ?q start num xs 0 0 buf = Some (start, word_of_nat m,
       concat (map (\<lambda>p. the (q_items q p)) (take m ys)) @ drop (m * unat (item_size q)) buf)" .
    have "unat (word_of_nat m :: u32) = m" using xl by (simp add: unat_of_nat m_def ys_def)
    then have eq: "word_of_nat m = num \<longleftrightarrow> unat start + unat num \<le> length xs"
      using True by (auto simp: word_unat_eq_iff m_def ys_def)
    moreover have "m = unat num" if "unat start + unat num \<le> length xs"
      using that by (simp add: m_def ys_def)
    ultimately show ?thesis
      using l buf(1) by (auto simp: run xs(3) ys_def take_map drop_map)
  qed
qed

section \<open>Runs\<close>

datatype queue_op = QIn "u8 list" "nat option" | QOut | QPeek

text \<open>\<open>QIn bytes mem\<close> is an input whose allocation returned \<open>mem\<close>; the step reports the item
  that was accepted and the item that came out.\<close>

fun queue_step :: "tuya_queue \<Rightarrow> queue_op \<Rightarrow> (tuya_queue \<times> u8 list list \<times> u8 list list) option" where
  "queue_step q (QIn bytes mem) =
     (case tuya_queue_input (Some q) (Some bytes) mem of
        Some (r, Some q') \<Rightarrow> Some (q', if r = OPRT_OK then [take (unat (item_size q)) bytes] else [], [])
      | _ \<Rightarrow> None)"
| "queue_step q QOut =
     (case tuya_queue_output (Some q) (Some (replicate (unat (item_size q)) 0)) of
        Some (r, Some b, Some q') \<Rightarrow> Some (q', [], if r = OPRT_OK then [b] else [])
      | _ \<Rightarrow> None)"
| "queue_step q QPeek =
     (case tuya_queue_peek (Some q) (Some (replicate (unat (item_size q)) 0)) of
        Some (_, _, Some q') \<Rightarrow> Some (q', [], [])
      | _ \<Rightarrow> None)"

text \<open>What the allocator promises: a new object, at an address that is not in use.\<close>

definition fresh_for :: "tuya_queue \<Rightarrow> nat \<Rightarrow> bool" where
  "fresh_for q p \<longleftrightarrow> p \<noteq> 0 \<and> p \<noteq> q_head q \<and> q_items q p = None"

fun queue_op_legal :: "tuya_queue \<Rightarrow> queue_op \<Rightarrow> bool" where
  "queue_op_legal q (QIn bytes mem) \<longleftrightarrow> unat (item_size q) \<le> length bytes \<and>
     (case mem of None \<Rightarrow> True | Some p \<Rightarrow> fresh_for q p)"
| "queue_op_legal q _ \<longleftrightarrow> True"

lemma peek_spec:
  assumes "queue_ok q" and "unat (item_size q) \<le> length b"
  shows "tuya_queue_peek (Some q) (Some b) =
    Some (case queue_contents q of
            [] \<Rightarrow> (OPRT_NOT_FOUND, Some b, Some q)
          | d # _ \<Rightarrow> (OPRT_OK, Some (d @ drop (unat (item_size q)) b), Some q))"
proof -
  obtain xs where xs: "queue_nodes_ok q xs" "q_locked q = 0"
    "queue_contents q = map (\<lambda>p. the (q_items q p)) xs"
    using queue_okE [OF assms(1)] by metis
  show ?thesis
  proof (cases xs)
    case Nil
    then show ?thesis using xs room_iff [OF xs(1)]
      by (simp add: tuya_queue_peek_def QUEUE_LOCK_def QUEUE_UNLOCK_def)
  next
    case (Cons p ps)
    have dl: "dlist (q_store q) (q_head q) (p # ps)" using xs(1) Cons by (simp add: queue_nodes_ok_def)
    obtain d where d: "q_items q p = Some d" "length d = unat (item_size q)"
      using xs(1) Cons unfolding queue_nodes_ok_def by (metis domD list.set_intros(1))
    then show ?thesis using xs Cons room_iff [OF xs(1)] dl.seq_first [OF dl] assms(2)
      by (simp add: tuya_queue_peek_def QUEUE_LOCK_def QUEUE_UNLOCK_def chk_simps)
  qed
qed

lemma output_spec:
  assumes "queue_ok q" and "\<And>b. item = Some b \<Longrightarrow> unat (item_size q) \<le> length b"
  shows "\<exists>q'. tuya_queue_output (Some q) item =
    Some (case queue_contents q of
            [] \<Rightarrow> (OPRT_NOT_FOUND, item, Some q')
          | d # _ \<Rightarrow> (OPRT_OK, map_option (\<lambda>b. d @ drop (unat (item_size q)) b) item, Some q')) \<and>
    queue_ok q' \<and> queue_contents q' = tl (queue_contents q) \<and>
    item_size q' = item_size q \<and> queue_len q' = queue_len q"
proof -
  obtain xs where xs: "queue_nodes_ok q xs" "q_locked q = 0"
    "queue_contents q = map (\<lambda>p. the (q_items q p)) xs"
    using queue_okE [OF assms(1)] by metis
  show ?thesis
  proof (cases xs)
    case Nil
    then show ?thesis using xs output_empty [of q item] assms(1) by auto
  next
    case (Cons p ps)
    then obtain q' where q': "tuya_queue_output (Some q) item =
      Some (OPRT_OK, map_option (\<lambda>b. the (q_items q p) @ drop (unat (item_size q)) b) item, Some q')"
      "queue_nodes_ok q' ps" "q_locked q' = 0" "queue_len q' = queue_len q" "item_size q' = item_size q"
      "q_items q' = (q_items q)(p := None)"
      using output_nonempty [of q p ps item] xs assms(2) by auto
    have "p \<notin> set ps" using xs(1) Cons by (auto simp: queue_nodes_ok_def dlist_def)
    then have "queue_contents q' = tl (queue_contents q)"
      using q'(6) queue_nodes_ok_contents [OF q'(2)] xs(3) Cons by (simp add: map_items_upd)
    then show ?thesis using q' xs(3) Cons by (auto simp: queue_ok_def)
  qed
qed

lemma queue_step_spec:
  assumes ok: "queue_ok q" and legal: "queue_op_legal q x"
  shows "\<exists>q' acc del. queue_step q x = Some (q', acc, del) \<and> queue_ok q' \<and>
    queue_contents q @ acc = del @ queue_contents q'"
proof (cases x)
  case (QIn bytes mem)
  show ?thesis
  proof (cases mem)
    case None
    then show ?thesis using QIn ok by (simp add: tuya_queue_input_def enqueue_def)
  next
    case (Some p)
    then have "p \<notin> dom (q_items q)" "p \<noteq> 0" "p \<noteq> q_head q" "unat (item_size q) \<le> length bytes"
      using legal QIn by (auto simp: fresh_for_def)
    from enqueue_spec [OF ok this(4,1-3), of POLICY_SEND_TO_BACK]
    show ?thesis using QIn Some by (auto simp: tuya_queue_input_def)
  qed
next
  case QOut
  show ?thesis
    using output_spec [OF ok, of "Some (replicate (unat (item_size q)) 0)"] QOut
    by (cases "queue_contents q") auto
next
  case QPeek
  then show ?thesis
    using peek_spec [OF ok, of "replicate (unat (item_size q)) 0"] ok
    by (cases "queue_contents q") auto
qed

interpretation queue: fifo queue_step queue_contents queue_ok queue_op_legal
proof unfold_locales
  fix q x assume "queue_ok q" "queue_op_legal q x"
  from queue_step_spec [OF this] show "\<exists>r. queue_step q x = Some r" by auto
next
  fix q x q' acc del assume "queue_ok q" "queue_op_legal q x" and s: "queue_step q x = Some (q', acc, del)"
  from queue_step_spec [OF this(1,2)] s
  show "queue_ok q'" and "queue_contents q @ acc = del @ queue_contents q'" by auto
qed

lemma queue_bounds:
  assumes "queue_ok q"
  shows "unat (tuya_queue_get_free_num (Some q)) + length (queue_contents q) = unat (tuya_queue_get_max_num (Some q))"
    and "tuya_queue_get_used_num (Some q) = (word_of_nat (length (queue_contents q)), Some q)"
proof -
  obtain xs where xs: "queue_nodes_ok q xs" "q_locked q = 0"
    "queue_contents q = map (\<lambda>p. the (q_items q p)) xs"
    using queue_okE [OF assms] by metis
  have l: "unat (queue_free q) \<le> unat (queue_len q)" "length xs = unat (queue_len q) - unat (queue_free q)"
    using xs(1) by (simp_all add: queue_nodes_ok_def word_le_nat_alt)
  then show "unat (tuya_queue_get_free_num (Some q)) + length (queue_contents q) = unat (tuya_queue_get_max_num (Some q))"
    by (simp add: tuya_queue_get_free_num_def tuya_queue_get_max_num_def xs(3))
  have "queue_len q - queue_free q = word_of_nat (length xs)"
    using l by simp
  then show "tuya_queue_get_used_num (Some q) = (word_of_nat (length (queue_contents q)), Some q)"
    using xs(2,3) by (simp add: tuya_queue_get_used_num_def QUEUE_LOCK_def QUEUE_UNLOCK_def Let_def)
qed

lemma create_spec:
  assumes "tuya_queue_create qlen isize False (Some h) OPRT_OK raw = (OPRT_OK, Some q)"
    and "h \<noteq> 0" and "unat isize + 8 < 2 ^ 32"
  shows "queue_ok q \<and> queue_contents q = [] \<and> item_size q = isize \<and> queue_len q = qlen"
proof -
  have q: "q = \<lparr>q_locked = 0, item_size = isize, queue_len = qlen, queue_free = qlen, q_head = h,
             q_store = INIT_LIST_HEAD h raw, q_items = Map.empty\<rparr>"
    using assms(1) by (auto simp: tuya_queue_create_def split: if_splits)
  have "queue_nodes_ok q []"
    using dl.seq_init [OF assms(2), of raw] assms(3) by (simp add: q queue_nodes_ok_def)
  moreover from this have "queue_contents q = []" by (simp add: queue_nodes_ok_contents)
  ultimately show ?thesis by (auto simp: queue_ok_def q)
qed

section \<open>Properties\<close>

text \<open>C2. From \<^verbatim>\<open>tuya_queue_create\<close> on, whatever inputs, outputs and peeks follow, the queue
  is first-in first-out: the items accepted are, in order, the items taken out and then the
  items still queued. Every step is defined (no item is used after it was freed or freed
  twice), the mutex is released after every call, and the queue never holds more than
  \<^verbatim>\<open>queue_len\<close> items: free items and used items add up to it.\<close>

theorem tuya_queue_fifo:
  assumes "tuya_queue_create qlen isize False (Some h) OPRT_OK raw = (OPRT_OK, Some q)"
    and "h \<noteq> 0" and "unat isize + 8 < 2 ^ 32"
    and "legal_run queue_step queue_op_legal q ops"
  shows "\<exists>q' acc del. fifo_run queue_step q ops = Some (q', acc, del) \<and>
     acc = del @ queue_contents q' \<and> q_locked q' = 0 \<and>
     unat (tuya_queue_get_free_num (Some q')) + length (queue_contents q')
       = unat (tuya_queue_get_max_num (Some q'))"
proof -
  have q: "queue_ok q" "queue_contents q = []" using create_spec [OF assms(1-3)] by auto
  obtain q' acc del where r: "fifo_run queue_step q ops = Some (q', acc, del)" "queue_ok q'"
    "queue_contents q @ acc = del @ queue_contents q'"
    using queue.run_in_order [OF q(1) assms(4)] by blast
  moreover have "q_locked q' = 0" using r(2) by (simp add: queue_ok_def)
  ultimately show ?thesis using queue_bounds(1) [OF r(2)] q(2) by auto
qed

definition queue2 :: tuya_queue where
  "queue2 = \<lparr>q_locked = 0, item_size = 2, queue_len = 2, queue_free = 2, q_head = 100,
     q_store = INIT_LIST_HEAD 100 \<lparr>nxt = (\<lambda>_. 0), prv = (\<lambda>_. 0)\<rparr>, q_items = Map.empty\<rparr>"

lemma queue2_create:
  "tuya_queue_create 2 2 False (Some 100) OPRT_OK \<lparr>nxt = (\<lambda>_. 0), prv = (\<lambda>_. 0)\<rparr> = (OPRT_OK, Some queue2)"
  by (simp add: tuya_queue_create_def queue2_def)

lemmas queue_ops_defs = tuya_queue_input_def tuya_queue_input_instant_def enqueue_def
  tuya_queue_output_def tuya_queue_peek_def QUEUE_LOCK_def QUEUE_UNLOCK_def free_item_def
  item_room_def memcpy_def store_defs tuya_list_add_def tuya_list_add_tail_def tuya_list_del_def

lemma queue2_run: "legal_run queue_step queue_op_legal queue2
    [QIn [1, 2] (Some 8), QIn [3, 4] (Some 16), QIn [5, 6] (Some 24), QOut, QPeek]"
  by (simp add: queue2_def fresh_for_def queue_ops_defs)

theorem tuya_queue_fifo_witness:
  "\<exists>q' acc del. fifo_run queue_step queue2
      [QIn [1, 2] (Some 8), QIn [3, 4] (Some 16), QIn [5, 6] (Some 24), QOut, QPeek] = Some (q', acc, del) \<and>
     acc = del @ queue_contents q' \<and> q_locked q' = 0 \<and>
     unat (tuya_queue_get_free_num (Some q')) + length (queue_contents q')
       = unat (tuya_queue_get_max_num (Some q'))"
  by (rule tuya_queue_fifo [OF queue2_create _ _ queue2_run]) simp_all

text \<open>An input either appends a copy of the item's bytes and takes one free place, or,
  when the queue is full, reports \<^verbatim>\<open>OPRT_EXCEED_UPPER_LIMIT\<close> and changes nothing; an
  instant input puts the item in front of all others. The object that the call allocated is
  queued or freed: it is never leaked.\<close>

theorem tuya_queue_input_outcome:
  assumes "queue_ok q" and "length bytes = unat (item_size q)" and "fresh_for q p"
  shows "\<exists>qb qf r. tuya_queue_input (Some q) (Some bytes) (Some p) = Some (r, Some qb) \<and>
     tuya_queue_input_instant (Some q) (Some bytes) (Some p) = Some (r, Some qf) \<and>
     queue_ok qb \<and> queue_ok qf \<and>
     (if length (queue_contents q) < unat (queue_len q)
      then r = OPRT_OK \<and> queue_contents qb = queue_contents q @ [bytes] \<and>
           queue_contents qf = bytes # queue_contents q \<and>
           dom (q_items qb) = insert p (dom (q_items q)) \<and> dom (q_items qf) = insert p (dom (q_items q))
      else r = OPRT_EXCEED_UPPER_LIMIT \<and> queue_contents qb = queue_contents q \<and>
           queue_contents qf = queue_contents q \<and>
           dom (q_items qb) = dom (q_items q) \<and> dom (q_items qf) = dom (q_items q))"
proof -
  have p: "p \<notin> dom (q_items q)" "p \<noteq> 0" "p \<noteq> q_head q" using assms(3) by (auto simp: fresh_for_def)
  have room: "length (queue_contents q) < unat (queue_len q) \<longleftrightarrow> queue_free q > 0"
    using queue_bounds(1) [OF assms(1)]
    by (auto simp: tuya_queue_get_free_num_def tuya_queue_get_max_num_def word_less_nat_alt)
  note spec = enqueue_spec [OF assms(1) _ p, of bytes]
  show ?thesis
    using spec [of POLICY_SEND_TO_BACK] spec [of POLICY_SEND_TO_FRONT] assms(2)
    unfolding room tuya_queue_input_def tuya_queue_input_instant_def
    by (cases "queue_free q > 0") auto
qed

definition queue1 :: tuya_queue where
  "queue1 = queue2\<lparr>q_store := tuya_list_add_tail 8 100 (q_store queue2), q_items := [8 \<mapsto> [1, 2]], queue_free := 1\<rparr>"

lemma queue1_ok: "queue_ok queue1"
proof -
  have "queue_nodes_ok queue1 [8]"
    by (simp add: queue_nodes_ok_def queue1_def queue2_def dlist_def queue_ops_defs)
  then show ?thesis by (auto simp: queue_ok_def queue1_def queue2_def)
qed

lemma queue1_contents: "queue_contents queue1 = [[1, 2]]"
  by (simp add: queue_contents_def queue1_def queue2_def queue_ops_defs list_nodes.simps)

theorem tuya_queue_input_outcome_witness:
  "\<exists>qb qf r. tuya_queue_input (Some queue1) (Some [7, 7]) (Some 16) = Some (r, Some qb) \<and>
     tuya_queue_input_instant (Some queue1) (Some [7, 7]) (Some 16) = Some (r, Some qf) \<and>
     queue_ok qb \<and> queue_ok qf \<and>
     (if length (queue_contents queue1) < unat (queue_len queue1)
      then r = OPRT_OK \<and> queue_contents qb = queue_contents queue1 @ [[7, 7]] \<and>
           queue_contents qf = [7, 7] # queue_contents queue1 \<and>
           dom (q_items qb) = insert 16 (dom (q_items queue1)) \<and> dom (q_items qf) = insert 16 (dom (q_items queue1))
      else r = OPRT_EXCEED_UPPER_LIMIT \<and> queue_contents qb = queue_contents queue1 \<and>
           queue_contents qf = queue_contents queue1 \<and>
           dom (q_items qb) = dom (q_items queue1) \<and> dom (q_items qf) = dom (q_items queue1))"
  by (rule tuya_queue_input_outcome [OF queue1_ok]) (simp_all add: queue1_def queue2_def fresh_for_def)

text \<open>\<^verbatim>\<open>tuya_queue_get_batch\<close> copies the \<open>num\<close> items from position \<open>start\<close> into the
  caller's buffer, back to back, exactly when the queue holds that many; otherwise it reports
  \<^verbatim>\<open>OPRT_NOT_FOUND\<close>. The queue is not changed. \<^verbatim>\<open>tuya_queue_delete_batch\<close> removes the
  first \<open>num\<close> items; with fewer it removes all of them and reports \<^verbatim>\<open>OPRT_NOT_FOUND\<close>.\<close>

theorem tuya_queue_batch:
  assumes "queue_ok q" and "num \<noteq> 0" and "length buf = unat num * unat (item_size q)"
    and "length buf < 2 ^ 32"
  shows "\<exists>out q'. tuya_queue_get_batch (Some q) start (Some buf) num =
       Some (if unat start + unat num \<le> length (queue_contents q) then OPRT_OK else OPRT_NOT_FOUND,
         Some out, Some q) \<and>
     (unat start + unat num \<le> length (queue_contents q) \<longrightarrow>
       out = concat (take (unat num) (drop (unat start) (queue_contents q)))) \<and>
     tuya_queue_delete_batch (Some q) num =
       Some (if unat num \<le> length (queue_contents q) then OPRT_OK else OPRT_NOT_FOUND, Some q') \<and>
     queue_ok q' \<and> queue_contents q' = drop (unat num) (queue_contents q)"
proof -
  obtain xs where xs: "queue_nodes_ok q xs" "q_locked q = 0"
    "queue_contents q = map (\<lambda>p. the (q_items q p)) xs"
    using queue_okE [OF assms(1)] by metis
  obtain q' where q': "delete_loop (unat num) OPRT_OK (Some q) =
       Some (if unat num \<le> length xs then OPRT_OK else OPRT_NOT_FOUND, Some q')"
     "queue_nodes_ok q' (drop (unat num) xs)" "q_locked q' = 0"
     "queue_contents q' = drop (unat num) (queue_contents q)"
    using delete_loop_spec [OF xs(1,2)] by blast
  then have "queue_ok q'" by (auto simp: queue_ok_def)
  moreover have "tuya_queue_delete_batch (Some q) num =
       Some (if unat num \<le> length (queue_contents q) then OPRT_OK else OPRT_NOT_FOUND, Some q')"
    using q'(1) assms(2) by (simp add: tuya_queue_delete_batch_def xs(3))
  ultimately show ?thesis using get_batch_spec [OF assms, of start] q'(4) by metis
qed

theorem tuya_queue_batch_witness:
  "\<exists>out q'. tuya_queue_get_batch (Some queue1) 0 (Some [0, 0]) 1 =
       Some (if unat (0 :: u32) + unat (1 :: u32) \<le> length (queue_contents queue1) then OPRT_OK else OPRT_NOT_FOUND,
         Some out, Some queue1) \<and>
     (unat (0 :: u32) + unat (1 :: u32) \<le> length (queue_contents queue1) \<longrightarrow>
       out = concat (take (unat (1 :: u32)) (drop (unat (0 :: u32)) (queue_contents queue1)))) \<and>
     tuya_queue_delete_batch (Some queue1) 1 =
       Some (if unat (1 :: u32) \<le> length (queue_contents queue1) then OPRT_OK else OPRT_NOT_FOUND, Some q') \<and>
     queue_ok q' \<and> queue_contents q' = drop (unat (1 :: u32)) (queue_contents queue1)"
  by (rule tuya_queue_batch [OF queue1_ok]) (simp_all add: queue1_def queue2_def)

text \<open>C15. Releasing a queue frees every item object exactly once and leaks none; clearing it
  makes every place free again and leaves a queue that can be used.\<close>

theorem tuya_queue_release_frees_all:
  assumes "queue_ok q"
  shows "\<exists>q'. tuya_queue_clear (Some q) = Some (OPRT_OK, Some q') \<and> queue_ok q' \<and>
     queue_contents q' = [] \<and> tuya_queue_get_free_num (Some q') = tuya_queue_get_max_num (Some q) \<and>
     tuya_queue_release (Some q) unlock = Some (unlock, Map.empty)"
proof -
  obtain xs where xs: "queue_nodes_ok q xs" "q_locked q = 0"
    using queue_okE [OF assms] by metis
  obtain q' where q': "tuya_queue_clear (Some q) = Some (OPRT_OK, Some q')" "queue_nodes_ok q' []"
    "q_locked q' = 0" "q_items q' = Map.empty" "queue_free q' = queue_len q'" "queue_len q' = queue_len q"
    using queue_clear_spec [OF xs] by blast
  then show ?thesis
    using queue_nodes_ok_contents [OF q'(2)]
    by (auto simp: queue_ok_def tuya_queue_release_def tuya_queue_get_free_num_def tuya_queue_get_max_num_def)
qed

theorem tuya_queue_release_frees_all_witness:
  "\<exists>q'. tuya_queue_clear (Some queue1) = Some (OPRT_OK, Some q') \<and> queue_ok q' \<and>
     queue_contents q' = [] \<and> tuya_queue_get_free_num (Some q') = tuya_queue_get_max_num (Some queue1) \<and>
     tuya_queue_release (Some queue1) OPRT_OK = Some (OPRT_OK, Map.empty)"
  by (rule tuya_queue_release_frees_all [OF queue1_ok])

end
