(* ===== verification/HList.thy ===== *)
theory HList
  imports Prelude
begin

text \<open>
  The singly headed doubly linked list of \<^verbatim>\<open>utilities/include/tuya_hlist.h\<close> (the bucket
  list of the hash map). \<^verbatim>\<open>pprev\<close> is the address of the pointer that points to a node:
  the \<^verbatim>\<open>first\<close> field of a head or the \<^verbatim>\<open>next\<close> field of a node; writing through it
  when it is \<^verbatim>\<open>NULL\<close> is undefined (\<open>None\<close>). Heads and nodes are addresses, 0 is
  \<^verbatim>\<open>NULL\<close>.
\<close>

section \<open>The store and the operations\<close>

datatype pptr = PNull | PFirst nat | PNext nat

record hstore =
  hfirst :: "nat \<Rightarrow> nat"
  hnext :: "nat \<Rightarrow> nat"
  hpprev :: "nat \<Rightarrow> pptr"

fun write_pptr :: "pptr \<Rightarrow> nat \<Rightarrow> hstore \<Rightarrow> hstore option" where
  "write_pptr PNull v s = None"
| "write_pptr (PFirst h) v s = Some (s\<lparr>hfirst := (hfirst s)(h := v)\<rparr>)"
| "write_pptr (PNext n) v s = Some (s\<lparr>hnext := (hnext s)(n := v)\<rparr>)"

definition set_hnext :: "nat \<Rightarrow> nat \<Rightarrow> hstore \<Rightarrow> hstore" where
  "set_hnext n v s = s\<lparr>hnext := (hnext s)(n := v)\<rparr>"

definition set_hpprev :: "nat \<Rightarrow> pptr \<Rightarrow> hstore \<Rightarrow> hstore" where
  "set_hpprev n v s = s\<lparr>hpprev := (hpprev s)(n := v)\<rparr>"

definition set_hfirst :: "nat \<Rightarrow> nat \<Rightarrow> hstore \<Rightarrow> hstore" where
  "set_hfirst h v s = s\<lparr>hfirst := (hfirst s)(h := v)\<rparr>"

definition tuya_init_hlist_node :: "nat \<Rightarrow> hstore \<Rightarrow> hstore" where
  "tuya_init_hlist_node n s = set_hpprev n PNull (set_hnext n 0 s)"

definition tuya_hlist_empty :: "nat \<Rightarrow> hstore \<Rightarrow> bool" where
  "tuya_hlist_empty h s \<longleftrightarrow> hfirst s h = 0"

definition tuya_hlist_unhashed :: "nat \<Rightarrow> hstore \<Rightarrow> bool" where
  "tuya_hlist_unhashed n s \<longleftrightarrow> hpprev s n = PNull"

definition hlist_del_raw :: "nat \<Rightarrow> hstore \<Rightarrow> hstore option" where
  "hlist_del_raw n s =
     do {
       let next = hnext s n;
       let pprev = hpprev s n;
       s \<leftarrow> write_pptr pprev next s;
       Some (if next \<noteq> 0 then set_hpprev next pprev s else s)
     }"

definition tuya_hlist_del :: "nat \<Rightarrow> hstore \<Rightarrow> hstore option" where
  "tuya_hlist_del n s = hlist_del_raw n s"

definition tuya_hlist_del_init :: "nat \<Rightarrow> hstore \<Rightarrow> hstore option" where
  "tuya_hlist_del_init n s =
     (if \<not> tuya_hlist_unhashed n s
      then do { s \<leftarrow> hlist_del_raw n s; Some (tuya_init_hlist_node n s) }
      else Some s)"

definition tuya_hlist_add_head :: "nat \<Rightarrow> nat \<Rightarrow> hstore \<Rightarrow> hstore" where
  "tuya_hlist_add_head n h s =
     (let first = hfirst s h;
          s = set_hnext n first s;
          s = (if first \<noteq> 0 then set_hpprev first (PNext n) s else s);
          s = set_hfirst h n s
      in set_hpprev n (PFirst h) s)"

definition tuya_hlist_add_before :: "nat \<Rightarrow> nat \<Rightarrow> hstore \<Rightarrow> hstore option" where
  "tuya_hlist_add_before n next s =
     (let s = set_hpprev n (hpprev s next) s;
          s = set_hnext n next s;
          s = set_hpprev next (PNext n) s
      in write_pptr (hpprev s n) n s)"

definition tuya_hlist_add_after :: "nat \<Rightarrow> nat \<Rightarrow> hstore \<Rightarrow> hstore" where
  "tuya_hlist_add_after n next s =
     (let s = set_hnext next (hnext s n) s;
          s = set_hnext n next s;
          s = set_hpprev next (PNext n) s
      in if hnext s next \<noteq> 0 then set_hpprev (hnext s next) (PNext next) s else s)"

text \<open>The nodes that \<^verbatim>\<open>HLIST_FOR_EACH_ENTRY\<close> visits from \<open>pos\<close>.\<close>

partial_function (option) hlist_nodes :: "hstore \<Rightarrow> nat \<Rightarrow> nat list option" where
  "hlist_nodes s pos =
     (if pos \<noteq> 0 then do { ps \<leftarrow> hlist_nodes s (hnext s pos); Some (pos # ps) } else Some [])"

declare hlist_nodes.simps [code]

lemmas hstore_defs = set_hnext_def set_hpprev_def set_hfirst_def Let_def

section \<open>Well-formed lists\<close>

fun hpath :: "hstore \<Rightarrow> pptr \<Rightarrow> nat \<Rightarrow> nat list \<Rightarrow> bool" where
  "hpath s pp p [] \<longleftrightarrow> p = 0"
| "hpath s pp p (x # xs) \<longleftrightarrow> p = x \<and> x \<noteq> 0 \<and> hpprev s x = pp \<and> hpath s (PNext x) (hnext s x) xs"

definition hlist :: "hstore \<Rightarrow> nat \<Rightarrow> nat list \<Rightarrow> bool" where
  "hlist s h xs \<longleftrightarrow> hpath s (PFirst h) (hfirst s h) xs \<and> distinct xs"

lemma hpath_cong:
  "\<forall>x\<in>set xs. hnext t x = hnext s x \<and> hpprev t x = hpprev s x \<Longrightarrow>
   hpath t pp p xs = hpath s pp p xs"
  by (induction xs arbitrary: pp p) simp_all

lemma hlist_cong:
  assumes "\<forall>x\<in>set xs. hnext t x = hnext s x \<and> hpprev t x = hpprev s x"
    and "hfirst t h = hfirst s h"
  shows "hlist t h xs = hlist s h xs"
  unfolding hlist_def assms(2) hpath_cong [OF assms(1)] ..

lemma hpath_nonzero: "hpath s pp p xs \<Longrightarrow> 0 \<notin> set xs"
  by (induction xs arbitrary: pp p) auto

lemma hlist_nodes_path: "hpath s pp p xs \<Longrightarrow> hlist_nodes s p = Some xs"
proof (induction xs arbitrary: pp p)
  case Nil
  then show ?case by (simp add: hlist_nodes.simps)
next
  case (Cons x xs)
  then have "p = x" "x \<noteq> 0" "hlist_nodes s (hnext s x) = Some xs" by auto
  then show ?case by (subst hlist_nodes.simps) simp
qed

lemma hlist_nodes_hlist: "hlist s h xs \<Longrightarrow> hlist_nodes s (hfirst s h) = Some xs"
  by (auto simp: hlist_def intro: hlist_nodes_path)

lemma hlist_empty_iff: "hlist s h xs \<Longrightarrow> tuya_hlist_empty h s \<longleftrightarrow> xs = []"
  by (cases xs) (auto simp: hlist_def tuya_hlist_empty_def)

lemma hlist_add_head:
  assumes "hlist s h xs" and "n \<notin> set xs" and "n \<noteq> 0"
  shows "hlist (tuya_hlist_add_head n h s) h (n # xs)"
proof (cases xs)
  case Nil
  then show ?thesis using assms by (simp add: hlist_def tuya_hlist_add_head_def hstore_defs)
next
  case (Cons x ys)
  let ?t = "tuya_hlist_add_head n h s"
  have p: "hfirst s h = x" "x \<noteq> 0" "hpath s (PNext x) (hnext s x) ys" and d: "distinct (n # x # ys)"
    using assms Cons by (auto simp: hlist_def)
  have "\<forall>y\<in>set ys. hnext ?t y = hnext s y \<and> hpprev ?t y = hpprev s y"
    using p(1) d by (auto simp: tuya_hlist_add_head_def hstore_defs)
  then have "hpath ?t (PNext x) (hnext s x) ys" using p(3) hpath_cong by blast
  then show ?thesis using p d assms Cons
    by (auto simp: hlist_def tuya_hlist_add_head_def hstore_defs)
qed

lemma hlist_add_head_other:
  assumes "hlist s h' ys" and "h' \<noteq> h" and "hlist s h xs" and "set xs \<inter> set ys = {}" and "n \<notin> set ys"
  shows "hlist (tuya_hlist_add_head n h s) h' ys"
proof -
  have "hfirst s h = 0 \<or> hfirst s h \<in> set xs"
    using assms(3) by (cases xs) (auto simp: hlist_def)
  then have "hfirst s h = 0 \<or> hfirst s h \<notin> set ys" using assms(4) by auto
  moreover have "0 \<notin> set ys" using assms(1) hpath_nonzero by (auto simp: hlist_def)
  ultimately have "\<forall>y\<in>set ys. hnext (tuya_hlist_add_head n h s) y = hnext s y \<and>
      hpprev (tuya_hlist_add_head n h s) y = hpprev s y"
    "hfirst (tuya_hlist_add_head n h s) h' = hfirst s h'"
    using assms(2,5) by (auto simp: tuya_hlist_add_head_def hstore_defs)
  then show ?thesis using assms(1) hlist_cong by blast
qed

text \<open>Where the pointer to a node in the middle of a list is.\<close>

fun relink :: "pptr \<Rightarrow> nat list \<Rightarrow> pptr" where
  "relink pp [] = pp"
| "relink pp (x # xs) = relink (PNext x) xs"

lemma hpath_mid: "hpath s pp p (xs @ y # ys) \<Longrightarrow>
   hpprev s y = relink pp xs \<and> hpath s (PNext y) (hnext s y) ys \<and> y \<noteq> 0"
  by (induction xs arbitrary: pp p) auto

text \<open>
  Writing \<open>v\<close> through the pointer that leads to the rest of a path, and giving \<open>v\<close>
  that pointer as its \<^verbatim>\<open>pprev\<close>, replaces the rest.
\<close>

lemma hpath_relink:
  assumes "hpath s pp p (xs @ zs)" and "distinct xs" and "xs \<noteq> []"
    and "\<And>x. x \<in> set xs \<Longrightarrow> hpprev t x = hpprev s x"
    and "\<And>x. x \<in> set xs \<Longrightarrow> x \<noteq> last xs \<Longrightarrow> hnext t x = hnext s x"
    and "hpath t (PNext (last xs)) (hnext t (last xs)) ws"
  shows "hpath t pp p (xs @ ws)"
  using assms
proof (induction xs arbitrary: pp p)
  case (Cons x xs)
  have head: "p = x" "x \<noteq> 0" "hpprev t x = pp" using Cons.prems(1) Cons.prems(4) [of x] by simp_all
  show ?case
  proof (cases "xs = []")
    case True
    then show ?thesis using head Cons.prems(6) by simp
  next
    case False
    then have "x \<noteq> last (x # xs)" using Cons.prems(2) last_in_set [of xs] by (metis distinct.simps(2) last_ConsR)
    then have x: "hnext t x = hnext s x" by (intro Cons.prems(5)) simp_all
    have "hpath t (PNext x) (hnext s x) (xs @ ws)"
    proof (rule Cons.IH)
      show "hpath s (PNext x) (hnext s x) (xs @ zs)" using Cons.prems(1) by simp
      show "distinct xs" using Cons.prems(2) by simp
      show "hpprev t y = hpprev s y" if "y \<in> set xs" for y using Cons.prems(4) that by simp
      show "hnext t y = hnext s y" if "y \<in> set xs" "y \<noteq> last xs" for y
        using Cons.prems(5) that False by simp
      show "hpath t (PNext (last xs)) (hnext t (last xs)) ws" using Cons.prems(6) False by simp
    qed (rule False)
    then show ?thesis using head x by simp
  qed
qed simp

lemma relink_last: "relink pp xs = (if xs = [] then pp else PNext (last xs))"
  by (induction xs arbitrary: pp) auto

lemma hlist_del:
  assumes l: "hlist s h (xs @ n # ys)"
  shows "\<exists>t. tuya_hlist_del n s = Some t \<and> hlist t h (xs @ ys)"
proof -
  have p: "hpath s (PFirst h) (hfirst s h) (xs @ n # ys)" and d: "distinct (xs @ n # ys)"
    using l by (simp_all add: hlist_def)
  have mid: "hpprev s n = relink (PFirst h) xs" "hpath s (PNext n) (hnext s n) ys"
    using hpath_mid [OF p] by simp_all
  have nx: "(case ys of [] \<Rightarrow> hnext s n = 0
             | y # ys' \<Rightarrow> hnext s n = y \<and> y \<noteq> 0 \<and> hpath s (PNext y) (hnext s y) ys')"
    using mid(2) by (cases ys) auto
  show ?thesis
  proof (cases "xs = []")
    case True
    let ?t1 = "s\<lparr>hfirst := (hfirst s)(h := hnext s n)\<rparr>"
    let ?t = "if hnext s n \<noteq> 0 then set_hpprev (hnext s n) (PFirst h) ?t1 else ?t1"
    have del: "tuya_hlist_del n s = Some ?t"
      using True mid(1) by (simp add: tuya_hlist_del_def hlist_del_raw_def Let_def)
    have "hpath ?t (PFirst h) (hnext s n) ys"
    proof (cases ys)
      case (Cons y ys')
      have "hpath ?t (PNext y) (hnext s y) ys' = hpath s (PNext y) (hnext s y) ys'"
        using nx Cons d by (intro hpath_cong) (auto simp: set_hpprev_def)
      then show ?thesis using nx Cons by (simp add: set_hpprev_def)
    qed (use nx in simp)
    then have "hlist ?t h ys" using d by (auto simp: hlist_def set_hpprev_def)
    then show ?thesis using del True by auto
  next
    case False
    let ?l = "last xs"
    let ?t1 = "s\<lparr>hnext := (hnext s)(?l := hnext s n)\<rparr>"
    let ?t = "if hnext s n \<noteq> 0 then set_hpprev (hnext s n) (PNext ?l) ?t1 else ?t1"
    have pv: "hpprev s n = PNext ?l" using False mid(1) by (simp add: relink_last)
    have del: "tuya_hlist_del n s = Some ?t"
      using pv by (simp add: tuya_hlist_del_def hlist_del_raw_def Let_def)
    have lin: "?l \<in> set xs" using False by simp
    have notin: "hnext s n \<notin> set xs \<or> hnext s n = 0"
      using nx d by (cases ys) auto
    have z: "0 \<notin> set xs" using hpath_nonzero [OF p] by simp
    have tail: "hpath ?t (PNext ?l) (hnext s n) ys"
    proof (cases ys)
      case (Cons y ys')
      have "hpath ?t (PNext y) (hnext s y) ys' = hpath s (PNext y) (hnext s y) ys'"
        using nx Cons d lin by (intro hpath_cong) (auto simp: set_hpprev_def)
      then show ?thesis using nx Cons lin d by (auto simp: set_hpprev_def)
    qed (use nx in simp)
    have "hpath ?t (PFirst h) (hfirst s h) (xs @ ys)"
    proof (rule hpath_relink [OF p _ False])
      show "distinct xs" using d by simp
      show "hpprev ?t x = hpprev s x" if "x \<in> set xs" for x
        using notin z that by (auto simp: set_hpprev_def)
      show "hnext ?t x = hnext s x" if "x \<in> set xs" "x \<noteq> ?l" for x
        using that by (simp add: set_hpprev_def)
      have "hnext ?t ?l = hnext s n" by (simp add: set_hpprev_def)
      then show "hpath ?t (PNext ?l) (hnext ?t ?l) ys" using tail by (simp only:)
    qed
    then have "hlist ?t h (xs @ ys)" using d by (auto simp: hlist_def set_hpprev_def)
    then show ?thesis using del by blast
  qed
qed

text \<open>Removing a node changes only its own list.\<close>

lemma hlist_del_other:
  assumes "hlist s h (xs @ n # ys)" and "tuya_hlist_del n s = Some t"
    and "hlist s h' zs" and "h' \<noteq> h" and "set (xs @ n # ys) \<inter> set zs = {}"
  shows "hlist t h' zs"
proof -
  have mid: "hpprev s n = relink (PFirst h) xs" "hpath s (PNext n) (hnext s n) ys"
    using hpath_mid [of s "PFirst h" "hfirst s h" xs n ys] assms(1) by (simp_all add: hlist_def)
  have nx: "hnext s n = 0 \<or> hnext s n \<in> set ys" using mid(2) by (cases ys) auto
  have z: "0 \<notin> set zs" using assms(3) hpath_nonzero by (auto simp: hlist_def)
  have lin: "xs \<noteq> [] \<Longrightarrow> last xs \<in> set xs" by simp
  have notin: "\<And>x. x \<in> set xs \<Longrightarrow> x \<notin> set zs" "hnext s n \<notin> set zs"
    using assms(5) nx z by auto
  have "\<forall>x\<in>set zs. hnext t x = hnext s x \<and> hpprev t x = hpprev s x"
  proof (cases "xs = []")
    case True
    then show ?thesis using assms(2) mid(1) notin
      by (auto simp: tuya_hlist_del_def hlist_del_raw_def Let_def set_hpprev_def split: if_splits)
  next
    case False
    then have "last xs \<notin> set zs" using notin lin by blast
    then show ?thesis using assms(2) mid(1) notin False
      by (auto simp: tuya_hlist_del_def hlist_del_raw_def Let_def relink_last set_hpprev_def
          split: if_splits)
  qed
  moreover have "hfirst t h' = hfirst s h'"
    using assms(2,4) mid(1)
    by (cases "xs = []")
       (auto simp: tuya_hlist_del_def hlist_del_raw_def Let_def relink_last set_hpprev_def
          split: if_splits)
  ultimately show ?thesis using assms(3) hlist_cong by blast
qed

end
