(* ===== verification/HashMap.thy ===== *)
theory HashMap
  imports HList
begin

text \<open>
  The hash map of \<^verbatim>\<open>utilities/src/tuya_hashmap.c\<close> over the bucket lists of HList: the
  checksum and the mixing that choose a bucket, and the operations of the map. The map keeps
  the caller's key pointers, it does not copy the strings: \<open>str p\<close> is the C string at \<open>p\<close>
  (its bytes before the terminating zero) when an operation reads it.
\<close>

section \<open>The hash of a key\<close>

definition crc32_tab :: "u32 list" where
  "crc32_tab = [
   0x00000000, 0x77073096, 0xee0e612c, 0x990951ba, 0x076dc419, 0x706af48f,
   0xe963a535, 0x9e6495a3, 0x0edb8832, 0x79dcb8a4, 0xe0d5e91e, 0x97d2d988,
   0x09b64c2b, 0x7eb17cbd, 0xe7b82d07, 0x90bf1d91, 0x1db71064, 0x6ab020f2,
   0xf3b97148, 0x84be41de, 0x1adad47d, 0x6ddde4eb, 0xf4d4b551, 0x83d385c7,
   0x136c9856, 0x646ba8c0, 0xfd62f97a, 0x8a65c9ec, 0x14015c4f, 0x63066cd9,
   0xfa0f3d63, 0x8d080df5, 0x3b6e20c8, 0x4c69105e, 0xd56041e4, 0xa2677172,
   0x3c03e4d1, 0x4b04d447, 0xd20d85fd, 0xa50ab56b, 0x35b5a8fa, 0x42b2986c,
   0xdbbbc9d6, 0xacbcf940, 0x32d86ce3, 0x45df5c75, 0xdcd60dcf, 0xabd13d59,
   0x26d930ac, 0x51de003a, 0xc8d75180, 0xbfd06116, 0x21b4f4b5, 0x56b3c423,
   0xcfba9599, 0xb8bda50f, 0x2802b89e, 0x5f058808, 0xc60cd9b2, 0xb10be924,
   0x2f6f7c87, 0x58684c11, 0xc1611dab, 0xb6662d3d, 0x76dc4190, 0x01db7106,
   0x98d220bc, 0xefd5102a, 0x71b18589, 0x06b6b51f, 0x9fbfe4a5, 0xe8b8d433,
   0x7807c9a2, 0x0f00f934, 0x9609a88e, 0xe10e9818, 0x7f6a0dbb, 0x086d3d2d,
   0x91646c97, 0xe6635c01, 0x6b6b51f4, 0x1c6c6162, 0x856530d8, 0xf262004e,
   0x6c0695ed, 0x1b01a57b, 0x8208f4c1, 0xf50fc457, 0x65b0d9c6, 0x12b7e950,
   0x8bbeb8ea, 0xfcb9887c, 0x62dd1ddf, 0x15da2d49, 0x8cd37cf3, 0xfbd44c65,
   0x4db26158, 0x3ab551ce, 0xa3bc0074, 0xd4bb30e2, 0x4adfa541, 0x3dd895d7,
   0xa4d1c46d, 0xd3d6f4fb, 0x4369e96a, 0x346ed9fc, 0xad678846, 0xda60b8d0,
   0x44042d73, 0x33031de5, 0xaa0a4c5f, 0xdd0d7cc9, 0x5005713c, 0x270241aa,
   0xbe0b1010, 0xc90c2086, 0x5768b525, 0x206f85b3, 0xb966d409, 0xce61e49f,
   0x5edef90e, 0x29d9c998, 0xb0d09822, 0xc7d7a8b4, 0x59b33d17, 0x2eb40d81,
   0xb7bd5c3b, 0xc0ba6cad, 0xedb88320, 0x9abfb3b6, 0x03b6e20c, 0x74b1d29a,
   0xead54739, 0x9dd277af, 0x04db2615, 0x73dc1683, 0xe3630b12, 0x94643b84,
   0x0d6d6a3e, 0x7a6a5aa8, 0xe40ecf0b, 0x9309ff9d, 0x0a00ae27, 0x7d079eb1,
   0xf00f9344, 0x8708a3d2, 0x1e01f268, 0x6906c2fe, 0xf762575d, 0x806567cb,
   0x196c3671, 0x6e6b06e7, 0xfed41b76, 0x89d32be0, 0x10da7a5a, 0x67dd4acc,
   0xf9b9df6f, 0x8ebeeff9, 0x17b7be43, 0x60b08ed5, 0xd6d6a3e8, 0xa1d1937e,
   0x38d8c2c4, 0x4fdff252, 0xd1bb67f1, 0xa6bc5767, 0x3fb506dd, 0x48b2364b,
   0xd80d2bda, 0xaf0a1b4c, 0x36034af6, 0x41047a60, 0xdf60efc3, 0xa867df55,
   0x316e8eef, 0x4669be79, 0xcb61b38c, 0xbc66831a, 0x256fd2a0, 0x5268e236,
   0xcc0c7795, 0xbb0b4703, 0x220216b9, 0x5505262f, 0xc5ba3bbe, 0xb2bd0b28,
   0x2bb45a92, 0x5cb36a04, 0xc2d7ffa7, 0xb5d0cf31, 0x2cd99e8b, 0x5bdeae1d,
   0x9b64c2b0, 0xec63f226, 0x756aa39c, 0x026d930a, 0x9c0906a9, 0xeb0e363f,
   0x72076785, 0x05005713, 0x95bf4a82, 0xe2b87a14, 0x7bb12bae, 0x0cb61b38,
   0x92d28e9b, 0xe5d5be0d, 0x7cdcefb7, 0x0bdbdf21, 0x86d3d2d4, 0xf1d4e242,
   0x68ddb3f8, 0x1fda836e, 0x81be16cd, 0xf6b9265b, 0x6fb077e1, 0x18b74777,
   0x88085ae6, 0xff0f6a70, 0x66063bca, 0x11010b5c, 0x8f659eff, 0xf862ae69,
   0x616bffd3, 0x166ccf45, 0xa00ae278, 0xd70dd2ee, 0x4e048354, 0x3903b3c2,
   0xa7672661, 0xd06016f7, 0x4969474d, 0x3e6e77db, 0xaed16a4a, 0xd9d65adc,
   0x40df0b66, 0x37d83bf0, 0xa9bcae53, 0xdebb9ec5, 0x47b2cf7f, 0x30b5ffe9,
   0xbdbdf21c, 0xcabac28a, 0x53b39330, 0x24b4a3a6, 0xbad03605, 0xcdd70693,
   0x54de5729, 0x23d967bf, 0xb3667a2e, 0xc4614ab8, 0x5d681b02, 0x2a6f2b94,
   0xb40bbe37, 0xc30c8ea1, 0x5a05df1b, 0x2d02ef8d]"

fun crc32_loop :: "u8 list \<Rightarrow> u32 \<Rightarrow> u32" where
  "crc32_loop [] crc32val = crc32val"
| "crc32_loop (b # bs) crc32val =
     crc32_loop bs (crc32_tab ! unat ((crc32val XOR ucast b) AND 0xff) XOR drop_bit 8 crc32val)"

definition crc32_hashmap :: "u8 list \<Rightarrow> u32" where
  "crc32_hashmap bs = crc32_loop bs 0"

definition hashmap_hash_int :: "u32 \<Rightarrow> u8 list \<Rightarrow> u32" where
  "hashmap_hash_int table_size keystring =
     (let key = crc32_hashmap keystring;
          key = key + push_bit 12 key;
          key = key XOR drop_bit 22 key;
          key = key + push_bit 4 key;
          key = key XOR drop_bit 9 key;
          key = key + push_bit 10 key;
          key = key XOR drop_bit 2 key;
          key = key + push_bit 7 key;
          key = key XOR drop_bit 12 key;
          key = drop_bit 3 key * 2654435761
      in key mod table_size)"

text \<open>
  The checksum the table stands for: one step of the shift register per message bit, with the
  reflected polynomial \<^verbatim>\<open>$edb88320\<close>.
\<close>

definition crc_bit :: "u32 \<Rightarrow> u32" where
  "crc_bit x = (if bit x 0 then drop_bit 1 x XOR 0xedb88320 else drop_bit 1 x)"

fun crc_bits :: "nat \<Rightarrow> u32 \<Rightarrow> u32" where
  "crc_bits 0 x = x"
| "crc_bits (Suc n) x = crc_bits n (crc_bit x)"

fun crc_serial :: "u8 list \<Rightarrow> u32 \<Rightarrow> u32" where
  "crc_serial [] x = x"
| "crc_serial (b # bs) x = crc_serial bs (crc_bits 8 (x XOR ucast b))"

lemma length_crc32_tab: "length crc32_tab = 256"
  by (simp add: crc32_tab_def)


lemma crc_bit_xor: "crc_bit (x XOR y) = crc_bit x XOR crc_bit y"
  by (simp add: crc_bit_def bit_xor_iff xor.assoc xor.left_commute xor.commute)

lemma crc_bits_xor: "crc_bits n (x XOR y) = crc_bits n x XOR crc_bits n y"
  by (induction n arbitrary: x y) (simp_all add: crc_bit_xor)

lemma crc_bits_numeral: "crc_bits (numeral k) x = crc_bits (pred_numeral k) (crc_bit x)"
  by (simp add: numeral_eq_Suc)

text \<open>The upper half of each power of two of the table is the lower half plus one entry.\<close>

definition crc_half :: "nat \<Rightarrow> bool" where
  "crc_half p \<longleftrightarrow> take p (drop p crc32_tab) = map (\<lambda>x. crc_bits 8 (of_nat p) XOR x) (take p crc32_tab)"

lemma crc_halves:
  "crc_half 1" "crc_half 2" "crc_half 4" "crc_half 8"
  "crc_half 16" "crc_half 32" "crc_half 64" "crc_half 128"
  by (simp_all add: crc_half_def crc32_tab_def crc_bits_numeral crc_bit_def)

lemma of_nat_disjoint_bits: "i < 2 ^ k \<Longrightarrow> (of_nat (2 ^ k + i) :: u32) = of_nat (2 ^ k) XOR of_nat i"
proof -
  assume i: "i < 2 ^ k"
  have "2 ^ k + i = 2 ^ k XOR i"
  proof -
    have "\<not> bit i k" using i by (simp add: bit_iff_odd)
    then show ?thesis using i
      by (subst disjunctive_add_eq_xor) (auto intro!: bit_eqI simp: bit_and_iff bit_exp_iff)
  qed
  then show ?thesis by (simp add: of_nat_xor_eq del: of_nat_add)
qed

lemma crc32_tab_double:
  assumes "\<forall>i<2 ^ k. crc32_tab ! i = crc_bits 8 (of_nat i)" and "crc_half (2 ^ k)" and "k < 8"
  shows "\<forall>i<2 ^ Suc k. crc32_tab ! i = crc_bits 8 (of_nat i)"
proof (intro allI impI)
  fix i :: nat assume i: "i < 2 ^ Suc k"
  have len: "2 ^ Suc k \<le> length crc32_tab"
    using power_increasing [of "Suc k" 8 "2::nat"] assms(3) by (simp add: length_crc32_tab)
  show "crc32_tab ! i = crc_bits 8 (of_nat i)"
  proof (cases "i < 2 ^ k")
    case True
    then show ?thesis using assms(1) by simp
  next
    case False
    define j where "j = i - 2 ^ k"
    have j: "i = 2 ^ k + j" "j < 2 ^ k" using False i by (auto simp: j_def)
    have "crc32_tab ! i = take (2 ^ k) (drop (2 ^ k) crc32_tab) ! j"
      using j len by simp
    also have "\<dots> = crc_bits 8 (of_nat (2 ^ k)) XOR crc32_tab ! j"
      using assms(2) j len by (simp add: crc_half_def del: crc_bits.simps of_nat_power)
    also have "\<dots> = crc_bits 8 (of_nat i)"
      using assms(1) j(2) by (simp only: j(1) of_nat_disjoint_bits crc_bits_xor)
    finally show ?thesis .
  qed
qed

lemma crc32_tab_bits: "i < 256 \<Longrightarrow> crc32_tab ! i = crc_bits 8 (of_nat i)"
proof -
  have "\<forall>i<2 ^ k. crc32_tab ! i = crc_bits 8 (of_nat i)" if "k \<le> 8" for k
    using that
  proof (induction k)
    case 0
    show ?case by (simp add: crc32_tab_def crc_bits_numeral crc_bit_def)
  next
    case (Suc k)
    then have "k \<in> {0,1,2,3,4,5,6,7}" by auto
    then have "crc_half (2 ^ k)" using crc_halves by auto
    then show ?case using crc32_tab_double Suc by simp
  qed
  from this [of 8] show "i < 256 \<Longrightarrow> crc32_tab ! i = crc_bits 8 (of_nat i)" by simp
qed
lemma crc_bits_shift: "(\<And>i. i < n \<Longrightarrow> \<not> bit x i) \<Longrightarrow> crc_bits n x = drop_bit n x"
proof (induction n arbitrary: x)
  case (Suc n)
  have "crc_bit x = drop_bit 1 x" using Suc.prems [of 0] by (simp add: crc_bit_def)
  moreover have "\<And>i. i < n \<Longrightarrow> \<not> bit (drop_bit 1 x) i"
    using Suc.prems by (simp add: bit_drop_bit_eq)
  ultimately show ?case using Suc.IH [of "drop_bit 1 x"] by simp
qed simp

lemma crc_byte_step: "crc_bits 8 x = crc32_tab ! unat (x AND 0xff) XOR drop_bit 8 x"
proof -
  have ff: "bit (0xff :: u32) i" if "i < 8" for i
  proof -
    have "bit (mask 8 :: u32) i" using that by (simp add: bit_mask_iff)
    then show ?thesis by (simp add: mask_numeral)
  qed
  have "x AND 0xff = take_bit 8 x" by (simp add: take_bit_eq_mask mask_numeral)
  then have lt: "unat (x AND 0xff) < 256"
    using take_bit_nat_less_exp [of 8 "unat x"] by (simp add: unsigned_take_bit_eq)
  have split: "x = (x AND 0xff) XOR (x AND NOT 0xff)"
    by (rule bit_eqI) (auto simp: bit_simps)
  have "crc_bits 8 x = crc_bits 8 (x AND 0xff) XOR crc_bits 8 (x AND NOT 0xff)"
    by (subst split) (rule crc_bits_xor)
  also have "crc_bits 8 (x AND 0xff) = crc32_tab ! unat (x AND 0xff)"
    using crc32_tab_bits [OF lt] by (simp del: crc_bits.simps)
  also have "crc_bits 8 (x AND NOT 0xff) = drop_bit 8 (x AND NOT 0xff)"
    by (rule crc_bits_shift) (simp only: bit_and_iff bit_not_iff ff simp_thms)
  also have "drop_bit 8 (x AND NOT 0xff) = drop_bit 8 x"
  proof -
    have "drop_bit 8 (x AND NOT (mask 8)) = drop_bit 8 x"
      by (rule bit_eqI) (auto simp: bit_simps dest: bit_imp_le_length)
    then show ?thesis by (simp add: mask_numeral)
  qed
  finally show ?thesis .
qed

lemma crc32_loop_serial: "crc32_loop bs x = crc_serial bs x"
proof (induction bs arbitrary: x)
  case (Cons b bs)
  have "drop_bit 8 (x XOR ucast b) = drop_bit 8 x"
    by (rule bit_eqI) (auto simp: bit_simps dest: bit_imp_le_length)
  then show ?case by (simp add: Cons.IH crc_byte_step [of "x XOR ucast b"])
qed simp


section \<open>The map\<close>

text \<open>
  An element is addressed by its list node. The heap holds the elements (\<open>ekey\<close> is the key
  pointer, \<open>edata\<close> the data pointer), the allocated ones in \<open>elive\<close>; \<open>hm_heads\<close> is the number
  of bucket heads that fit into the block the allocator was asked for.
\<close>

datatype map_code = MAP_OK | MAP_OMEM | MAP_MISSING

record hm_heap =
  hs :: hstore
  ekey :: "nat \<Rightarrow> nat"
  edata :: "nat \<Rightarrow> nat"
  elive :: "nat set"

record hashmap =
  hm_size :: int
  hm_table_size :: u32
  hm_list :: nat
  hm_heads :: nat

type_synonym cstr = "nat \<Rightarrow> u8 list"

text \<open>\<^verbatim>\<open>&m->list[cur]\<close>, inside the allocated heads only.\<close>

definition hm_bucket :: "hashmap \<Rightarrow> u32 \<Rightarrow> nat option" where
  "hm_bucket m cur = (if unat cur < hm_heads m then Some (hm_list m + unat cur) else None)"

definition key_matches :: "cstr \<Rightarrow> nat \<Rightarrow> nat \<Rightarrow> bool" where
  "key_matches str key tkey \<longleftrightarrow> length (str key) = length (str tkey) \<and> str key = str tkey"

text \<open>
  The traversal of \<^verbatim>\<open>HLIST_FOR_EACH_ENTRY\<close> from node \<open>pos\<close>: the first element that matches.
  The first component is the value of the cursor \<^verbatim>\<open>tmp_element\<close> after the loop, the second tells
  whether the loop was left early.
\<close>

partial_function (option) hm_scan ::
  "(nat \<Rightarrow> bool) \<Rightarrow> hm_heap \<Rightarrow> nat \<Rightarrow> nat \<Rightarrow> (nat \<times> bool) option" where
  "hm_scan match s pos tmp =
     (if pos = 0 then Some (tmp, False)
      else if pos \<notin> elive s then None
      else if match pos then Some (pos, True)
      else hm_scan match s (hnext (hs s) pos) pos)"

declare hm_scan.simps [code]

definition hash_find_next_element :: "cstr \<Rightarrow> nat \<Rightarrow> hm_heap \<Rightarrow> nat option" where
  "hash_find_next_element str cur s =
     (if cur \<notin> elive s then None else
      do {
        (e, found) \<leftarrow> hm_scan (\<lambda>e. key_matches str (ekey s cur) (ekey s e)) s (hnext (hs s) cur) 0;
        Some (if found then e else 0)
      })"

definition hash_find :: "cstr \<Rightarrow> hashmap \<Rightarrow> nat \<Rightarrow> hm_heap \<Rightarrow> nat option" where
  "hash_find str m key s =
     do {
       list \<leftarrow> hm_bucket m (hashmap_hash_int (hm_table_size m) (str key));
       if tuya_hlist_empty list (hs s) then Some 0
       else do {
         (e, found) \<leftarrow> hm_scan (\<lambda>e. key_matches str key (ekey s e)) s (hfirst (hs s) list) 0;
         Some (if found then e else 0)
       }
     }"

text \<open>
  \<^verbatim>\<open>tuya_hashmap_new\<close>: \<open>m_ok\<close> is the outcome of the first allocation, \<open>l\<close> the address the
  second returns (0 for \<^verbatim>\<open>NULL\<close>). The size of the heads' block is computed in 32 bits; heads are
  4 bytes. The first component counts the blocks left allocated.
\<close>

definition tuya_hashmap_new ::
  "u32 \<Rightarrow> bool \<Rightarrow> nat \<Rightarrow> hm_heap \<Rightarrow> hashmap option \<times> nat \<times> hm_heap" where
  "tuya_hashmap_new table_size m_ok l s =
     (if table_size = 0 then (None, 0, s)
      else if \<not> m_ok then (None, 0, s)
      else if l = 0 then (None, 0, s)
      else
        let heads = unat (table_size * 4) div 4;
            s = s\<lparr>hs := (hs s)\<lparr>hfirst := (\<lambda>a. if l \<le> a \<and> a < l + heads then 0 else hfirst (hs s) a)\<rparr>\<rparr>
        in (Some \<lparr>hm_size = 0, hm_table_size = table_size, hm_list = l, hm_heads = heads\<rparr>, 2, s))"

text \<open>\<open>e\<close> is the address the allocator returns for the new element, 0 for \<^verbatim>\<open>NULL\<close>.\<close>

definition tuya_hashmap_put ::
  "cstr \<Rightarrow> hashmap \<Rightarrow> nat \<Rightarrow> nat \<Rightarrow> nat \<Rightarrow> hm_heap \<Rightarrow> (map_code \<times> hashmap \<times> hm_heap) option" where
  "tuya_hashmap_put str m key data e s =
     (if e = 0 then Some (MAP_OMEM, m, s)
      else do {
        let s = s\<lparr>ekey := (ekey s)(e := key), edata := (edata s)(e := data), elive := insert e (elive s)\<rparr>;
        list \<leftarrow> hm_bucket m (hashmap_hash_int (hm_table_size m) (str (ekey s e)));
        let s = s\<lparr>hs := tuya_hlist_add_head e list (hs s)\<rparr>;
        Some (MAP_OK, m\<lparr>hm_size := hm_size m + 1\<rparr>, s)
      })"

definition tuya_hashmap_get ::
  "cstr \<Rightarrow> hashmap \<Rightarrow> nat \<Rightarrow> hm_heap \<Rightarrow> (map_code \<times> nat) option" where
  "tuya_hashmap_get str m key s =
     do {
       element \<leftarrow> hash_find str m key s;
       Some (if element = 0 then (MAP_MISSING, 0) else (MAP_OK, edata s element))
     }"

text \<open>The iterator is the address of the \<^verbatim>\<open>data\<close> field, that is of the element; 0 is \<^verbatim>\<open>NULL\<close>.\<close>

definition tuya_hashmap_data_traversal ::
  "cstr \<Rightarrow> hashmap \<Rightarrow> nat \<Rightarrow> nat \<Rightarrow> hm_heap \<Rightarrow> (map_code \<times> nat) option" where
  "tuya_hashmap_data_traversal str m key arg_iterator s =
     do {
       element \<leftarrow> (if arg_iterator = 0 then hash_find str m key s
                  else hash_find_next_element str arg_iterator s);
       Some (if element = 0 then (MAP_MISSING, 0) else (MAP_OK, element))
     }"

definition tuya_hashmap_remove ::
  "cstr \<Rightarrow> hashmap \<Rightarrow> nat \<Rightarrow> nat \<Rightarrow> hm_heap \<Rightarrow> (map_code \<times> hashmap \<times> hm_heap) option" where
  "tuya_hashmap_remove str m key data s =
     do {
       list \<leftarrow> hm_bucket m (hashmap_hash_int (hm_table_size m) (str key));
       if tuya_hlist_empty list (hs s) then Some (MAP_MISSING, m, s)
       else do {
         (tmp_element, found) \<leftarrow>
           hm_scan (\<lambda>e. key_matches str key (ekey s e) \<and> (data = 0 \<or> edata s e = data))
             s (hfirst (hs s) list) 0;
         if tmp_element = 0 then Some (MAP_MISSING, m, s)
         else do {
           h \<leftarrow> hlist_del_raw tmp_element (hs s);
           Some (MAP_OK, m\<lparr>hm_size := hm_size m - 1\<rparr>, s\<lparr>hs := h, elive := elive s - {tmp_element}\<rparr>)
         }
       }
     }"

text \<open>\<^verbatim>\<open>tuya_hashmap_free\<close> frees the heads (if any) and the map: the number of blocks.\<close>

definition tuya_hashmap_free :: "hashmap \<Rightarrow> nat" where
  "tuya_hashmap_free m = (if hm_list m \<noteq> 0 then 1 else 0) + 1"

definition tuya_hashmap_length :: "hashmap option \<Rightarrow> int" where
  "tuya_hashmap_length m = (case m of None \<Rightarrow> 0 | Some m \<Rightarrow> hm_size m)"

section \<open>Well-formed maps and what they hold\<close>

text \<open>The elements of a bucket, first to last.\<close>

definition hm_nodes :: "hashmap \<Rightarrow> hm_heap \<Rightarrow> nat \<Rightarrow> nat list" where
  "hm_nodes m s i = (case hlist_nodes (hs s) (hfirst (hs s) (hm_list m + i)) of None \<Rightarrow> [] | Some xs \<Rightarrow> xs)"

abbreviation hm_hash :: "hashmap \<Rightarrow> u8 list \<Rightarrow> nat" where
  "hm_hash m k \<equiv> unat (hashmap_hash_int (hm_table_size m) k)"

definition hm_ok :: "cstr \<Rightarrow> hashmap \<Rightarrow> hm_heap \<Rightarrow> bool" where
  "hm_ok str m s \<longleftrightarrow>
     hm_table_size m \<noteq> 0 \<and> hm_heads m = unat (hm_table_size m) \<and> hm_list m \<noteq> 0 \<and>
     (\<forall>i<hm_heads m. hlist (hs s) (hm_list m + i) (hm_nodes m s i) \<and>
        (\<forall>e\<in>set (hm_nodes m s i). e \<in> elive s \<and> hm_hash m (str (ekey s e)) = i)) \<and>
     hm_size m = int (\<Sum>i<hm_heads m. length (hm_nodes m s i))"

text \<open>The data stored under a key, the most recent first.\<close>

definition hm_entries :: "cstr \<Rightarrow> hashmap \<Rightarrow> hm_heap \<Rightarrow> u8 list \<Rightarrow> nat list" where
  "hm_entries str m s k =
     map (edata s) (filter (\<lambda>e. str (ekey s e) = k) (hm_nodes m s (hm_hash m k)))"

text \<open>A bucket as the contents of its keys and their data.\<close>

definition hm_pairs :: "cstr \<Rightarrow> hashmap \<Rightarrow> hm_heap \<Rightarrow> nat \<Rightarrow> (u8 list \<times> nat) list" where
  "hm_pairs str m s i = map (\<lambda>e. (str (ekey s e), edata s e)) (hm_nodes m s i)"

lemma entries_pairs: "hm_entries str m s k = map snd (filter (\<lambda>p. fst p = k) (hm_pairs str m s (hm_hash m k)))"
  by (simp add: hm_entries_def hm_pairs_def filter_map comp_def)

lemma hm_nodes_eq: "hlist (hs s) (hm_list m + i) xs \<Longrightarrow> hm_nodes m s i = xs"
  by (simp add: hm_nodes_def hlist_nodes_hlist)

lemma hm_hash_less: "hm_table_size m \<noteq> 0 \<Longrightarrow> hm_hash m k < unat (hm_table_size m)"
  by (simp add: hashmap_hash_int_def Let_def unat_mod unat_gt_0)

lemma hm_okD:
  assumes "hm_ok str m s"
  shows "hm_hash m k < hm_heads m"
    and "hm_bucket m (hashmap_hash_int (hm_table_size m) k) = Some (hm_list m + hm_hash m k)"
    and "hlist (hs s) (hm_list m + hm_hash m k) (hm_nodes m s (hm_hash m k))"
    and "i < hm_heads m \<Longrightarrow> hlist (hs s) (hm_list m + i) (hm_nodes m s i)"
    and "i < hm_heads m \<Longrightarrow> e \<in> set (hm_nodes m s i) \<Longrightarrow> e \<in> elive s \<and> hm_hash m (str (ekey s e)) = i"
proof -
  show 1: "hm_hash m k < hm_heads m" using assms hm_hash_less by (simp add: hm_ok_def)
  then show "hm_bucket m (hashmap_hash_int (hm_table_size m) k) = Some (hm_list m + hm_hash m k)"
    by (simp add: hm_bucket_def)
  show "hlist (hs s) (hm_list m + hm_hash m k) (hm_nodes m s (hm_hash m k))"
    using 1 assms by (simp add: hm_ok_def)
qed (use assms in \<open>simp_all add: hm_ok_def\<close>)

lemma key_matches_eq [simp]: "key_matches str k t \<longleftrightarrow> str t = str k"
  by (auto simp: key_matches_def)

text \<open>The traversal finds the first element that matches; otherwise its cursor is the last one.\<close>

lemma hm_scan_path:
  "hpath (hs s) pp p xs \<Longrightarrow> \<forall>e\<in>set xs. e \<in> elive s \<Longrightarrow>
   hm_scan P s p tmp = Some (case List.find P xs of Some e \<Rightarrow> (e, True)
                             | None \<Rightarrow> (if xs = [] then tmp else last xs, False))"
proof (induction xs arbitrary: pp p tmp)
  case Nil
  then show ?case by (simp add: hm_scan.simps)
next
  case (Cons x xs)
  have p: "p = x" "x \<noteq> 0" "hpath (hs s) (PNext x) (hnext (hs s) x) xs" "x \<in> elive s"
    "\<forall>e\<in>set xs. e \<in> elive s"
    using Cons.prems by simp_all
  show ?case using p(1,2,4) Cons.IH [OF p(3,5)]
    by (subst hm_scan.simps) (simp split: option.split)
qed

lemma hm_scan_bucket:
  assumes "hm_ok str m s" and "i < hm_heads m"
  shows "hm_scan P s (hfirst (hs s) (hm_list m + i)) tmp =
     Some (case List.find P (hm_nodes m s i) of Some e \<Rightarrow> (e, True)
           | None \<Rightarrow> (if hm_nodes m s i = [] then tmp else last (hm_nodes m s i), False))"
  using hm_okD(4,5) [OF assms] hm_okD(5) [OF assms]
  by (intro hm_scan_path [where pp = "PFirst (hm_list m + i)"]) (auto simp: hlist_def)

lemma find_filter: "List.find P xs = (case filter P xs of [] \<Rightarrow> None | x # _ \<Rightarrow> Some x)"
  by (induction xs) auto

lemma hm_nodes_nonzero: "hm_ok str m s \<Longrightarrow> i < hm_heads m \<Longrightarrow> 0 \<notin> set (hm_nodes m s i)"
  using hm_okD(4) [of str m s i] hpath_nonzero [of "hs s" "PFirst (hm_list m + i)"]
  unfolding hlist_def by blast

lemma hash_find_eq:
  assumes "hm_ok str m s"
  shows "hash_find str m key s =
     Some (case filter (\<lambda>e. str (ekey s e) = str key) (hm_nodes m s (hm_hash m (str key))) of
             [] \<Rightarrow> 0 | e # _ \<Rightarrow> e)"
proof -
  note ok = hm_okD [OF assms]
  let ?b = "hm_nodes m s (hm_hash m (str key))"
  have "tuya_hlist_empty (hm_list m + hm_hash m (str key)) (hs s) \<longleftrightarrow> ?b = []"
    using hlist_empty_iff [OF ok(3)] .
  moreover have "hm_scan (\<lambda>e. key_matches str key (ekey s e)) s
       (hfirst (hs s) (hm_list m + hm_hash m (str key))) 0 =
     Some (case List.find (\<lambda>e. str (ekey s e) = str key) ?b of Some e \<Rightarrow> (e, True)
           | None \<Rightarrow> (if ?b = [] then 0 else last ?b, False))"
    using hm_scan_bucket [OF assms ok(1)] by simp
  ultimately show ?thesis
    unfolding hash_find_def ok(2) bind.bind_lunit
    by (cases "?b = []") (simp_all add: find_filter split: list.split)
qed

lemma hashmap_get_entries:
  assumes "hm_ok str m s"
  shows "tuya_hashmap_get str m key s =
     Some (case hm_entries str m s (str key) of [] \<Rightarrow> (MAP_MISSING, 0) | d # _ \<Rightarrow> (MAP_OK, d))"
proof -
  have "0 \<notin> set (hm_nodes m s (hm_hash m (str key)))"
    using hm_nodes_nonzero [OF assms hm_okD(1) [OF assms]] .
  then have z: "0 \<notin> set (filter (\<lambda>e. str (ekey s e) = str key) (hm_nodes m s (hm_hash m (str key))))"
    by simp
  show ?thesis
  proof (cases "filter (\<lambda>e. str (ekey s e) = str key) (hm_nodes m s (hm_hash m (str key)))")
    case (Cons e es)
    then have "e \<noteq> 0" using z by (metis list.set_intros(1))
    then show ?thesis using Cons
      by (simp add: tuya_hashmap_get_def hash_find_eq [OF assms] hm_entries_def)
  qed (simp add: tuya_hashmap_get_def hash_find_eq [OF assms] hm_entries_def)
qed

section \<open>The operations keep the map well formed\<close>

lemma hm_ok_new:
  assumes "tuya_hashmap_new ts True l s = (Some m, n, t)" and "unat ts < 2 ^ 30" and "ts \<noteq> 0" and "l \<noteq> 0"
  shows "hm_ok str m t" and "hm_entries str m t k = []" and "hm_size m = 0"
proof -
  have heads: "unat (ts * 4) div 4 = unat ts" using assms(2) by (simp add: unat_word_ariths)
  have m: "m = \<lparr>hm_size = 0, hm_table_size = ts, hm_list = l, hm_heads = unat ts\<rparr>"
    and t: "t = s\<lparr>hs := (hs s)\<lparr>hfirst := (\<lambda>a. if l \<le> a \<and> a < l + unat ts then 0 else hfirst (hs s) a)\<rparr>\<rparr>"
    using assms by (simp_all add: tuya_hashmap_new_def Let_def heads)
  have empty: "hlist (hs t) (l + i) []" if "i < unat ts" for i
    using that by (simp add: hlist_def t)
  have nodes: "hm_nodes m t i = []" if "i < unat ts" for i
    using hm_nodes_eq [of t m i "[]"] empty [OF that] by (simp add: m)
  show "hm_ok str m t"
    using assms(3,4) empty nodes by (simp add: hm_ok_def m [symmetric]) (simp add: m)
  have "hm_hash m k < unat ts" using hm_hash_less [of m k] assms(3) by (simp add: m)
  then show "hm_entries str m t k = []" by (simp add: hm_entries_def nodes)
  show "hm_size m = 0" by (simp add: m)
qed

text \<open>A change of one bucket, and nothing else.\<close>

lemma hm_ok_change:
  assumes ok: "hm_ok str m s" and i: "i < hm_heads m"
    and l: "hlist (hs t) (hm_list m + i) ys"
    and live: "\<forall>e\<in>set ys. e \<in> elive t \<and> hm_hash m (str (ekey t e)) = i"
    and others: "\<forall>j<hm_heads m. j \<noteq> i \<longrightarrow> hlist (hs t) (hm_list m + j) (hm_nodes m s j) \<and>
       (\<forall>e\<in>set (hm_nodes m s j). e \<in> elive t \<and> ekey t e = ekey s e)"
    and z: "z = hm_size m + int (length ys) - int (length (hm_nodes m s i))"
  shows "hm_ok str (m\<lparr>hm_size := z\<rparr>) t \<and>
     (\<forall>j<hm_heads m. hm_nodes (m\<lparr>hm_size := z\<rparr>) t j = (if j = i then ys else hm_nodes m s j))"
proof -
  let ?m = "m\<lparr>hm_size := z\<rparr>"
  have nodes: "hm_nodes ?m t j = (if j = i then ys else hm_nodes m s j)" if "j < hm_heads m" for j
    using hm_nodes_eq [of t ?m] l others that by simp
  let ?n = "hm_heads m"
  have "(\<Sum>j<?n. length (if j = i then ys else hm_nodes m s j)) =
        length ys + (\<Sum>j\<in>{..<?n} - {i}. length (hm_nodes m s j))"
    using i by (subst sum.remove [of _ i]) auto
  moreover have "(\<Sum>j<?n. length (hm_nodes m s j)) =
        length (hm_nodes m s i) + (\<Sum>j\<in>{..<?n} - {i}. length (hm_nodes m s j))"
    using i by (subst sum.remove [of _ i]) auto
  ultimately have size: "int (\<Sum>j<?n. length (if j = i then ys else hm_nodes m s j)) = z"
    using ok z by (simp add: hm_ok_def)
  have b: "hlist (hs t) (hm_list m + j) (hm_nodes ?m t j) \<and>
      (\<forall>e\<in>set (hm_nodes ?m t j). e \<in> elive t \<and> hm_hash m (str (ekey t e)) = j)" if "j < ?n" for j
    using that l others live hm_okD(5) [OF ok] by (simp add: nodes)
  have sz: "(\<Sum>j<?n. length (hm_nodes ?m t j)) = (\<Sum>j<?n. length (if j = i then ys else hm_nodes m s j))"
    by (rule sum.cong) (simp_all add: nodes)
  have "hm_ok str ?m t" using ok b sz size by (simp add: hm_ok_def)
  then show ?thesis using nodes by blast
qed

lemma hashmap_put_ok:
  assumes ok: "hm_ok str m s" and e: "e \<noteq> 0" "e \<notin> elive s"
  shows "\<exists>t. tuya_hashmap_put str m key data e s = Some (MAP_OK, m\<lparr>hm_size := hm_size m + 1\<rparr>, t) \<and>
     hm_ok str (m\<lparr>hm_size := hm_size m + 1\<rparr>) t \<and> elive t = insert e (elive s) \<and>
     (\<forall>j<hm_heads m. hm_pairs str (m\<lparr>hm_size := hm_size m + 1\<rparr>) t j =
        (if j = hm_hash m (str key) then (str key, data) # hm_pairs str m s j else hm_pairs str m s j))"
proof -
  let ?i = "hm_hash m (str key)"
  let ?m = "m\<lparr>hm_size := hm_size m + 1\<rparr>"
  define t where "t = s\<lparr>ekey := (ekey s)(e := key), edata := (edata s)(e := data),
     elive := insert e (elive s), hs := tuya_hlist_add_head e (hm_list m + ?i) (hs s)\<rparr>"
  note ok' = hm_okD [OF ok]
  have fresh: "e \<notin> set (hm_nodes m s j)" if "j < hm_heads m" for j
    using ok'(5) [OF that] e(2) by blast
  have put: "tuya_hashmap_put str m key data e s = Some (MAP_OK, ?m, t)"
    using e(1) ok'(2) by (simp add: tuya_hashmap_put_def t_def)
  have disj: "set (hm_nodes m s ?i) \<inter> set (hm_nodes m s j) = {}" if "j < hm_heads m" "j \<noteq> ?i" for j
    using ok'(5) [OF that(1)] ok'(5) [OF ok'(1) [of "str key"]] that(2) by blast
  have main: "hm_ok str ?m t \<and>
      (\<forall>j<hm_heads m. hm_nodes ?m t j = (if j = ?i then e # hm_nodes m s ?i else hm_nodes m s j))"
  proof (rule hm_ok_change [OF ok ok'(1)])
    show "hlist (hs t) (hm_list m + ?i) (e # hm_nodes m s ?i)"
      using hlist_add_head [OF ok'(3) fresh [OF ok'(1)] e(1)] by (simp add: t_def)
    show "\<forall>x\<in>set (e # hm_nodes m s ?i). x \<in> elive t \<and> hm_hash m (str (ekey t x)) = ?i"
      using ok'(5) [OF ok'(1)] by (auto simp: t_def)
    have "hlist (hs t) (hm_list m + j) (hm_nodes m s j)" if "j < hm_heads m" "j \<noteq> ?i" for j
      using hlist_add_head_other [OF ok'(4) [OF that(1)] _ ok'(3) disj [OF that] fresh [OF that(1)]] that(2)
      by (simp add: t_def)
    moreover have "x \<in> elive t \<and> ekey t x = ekey s x" if "j < hm_heads m" "x \<in> set (hm_nodes m s j)" for j x
      using that ok'(5) fresh by (auto simp: t_def)
    ultimately show "\<forall>j<hm_heads m. j \<noteq> ?i \<longrightarrow> hlist (hs t) (hm_list m + j) (hm_nodes m s j) \<and>
        (\<forall>x\<in>set (hm_nodes m s j). x \<in> elive t \<and> ekey t x = ekey s x)" by blast
  qed simp
  have "hm_pairs str ?m t j = (if j = ?i then (str key, data) # hm_pairs str m s j else hm_pairs str m s j)"
    if "j < hm_heads m" for j
  proof -
    have "map (\<lambda>x. (str (ekey t x), edata t x)) (hm_nodes m s j) = hm_pairs str m s j"
      using fresh [OF that] by (auto simp: hm_pairs_def t_def)
    moreover have "ekey t e = key" "edata t e = data" by (simp_all add: t_def)
    moreover have "hm_nodes ?m t j = (if j = ?i then e # hm_nodes m s j else hm_nodes m s j)" using main that by auto
    ultimately show ?thesis by (simp add: hm_pairs_def)
  qed
  then show ?thesis using put main by (simp add: t_def)
qed

lemma hashmap_put_entries:
  assumes ok: "hm_ok str m s" and e: "e \<noteq> 0" "e \<notin> elive s"
  shows "\<exists>t. tuya_hashmap_put str m key data e s = Some (MAP_OK, m\<lparr>hm_size := hm_size m + 1\<rparr>, t) \<and>
     hm_ok str (m\<lparr>hm_size := hm_size m + 1\<rparr>) t \<and> elive t = insert e (elive s) \<and>
     (\<forall>k. hm_entries str (m\<lparr>hm_size := hm_size m + 1\<rparr>) t k =
        (if k = str key then data # hm_entries str m s k else hm_entries str m s k))"
  using hashmap_put_ok [OF ok e, of key data] hm_okD(1) [OF ok] by (fastforce simp: entries_pairs)

lemma hashmap_remove_node:
  assumes ok: "hm_ok str m s" and i: "i < hm_heads m"
    and b: "hm_nodes m s i = xs @ e # ys"
  shows "\<exists>h. hlist_del_raw e (hs s) = Some h \<and>
     hm_ok str (m\<lparr>hm_size := hm_size m - 1\<rparr>) (s\<lparr>hs := h, elive := elive s - {e}\<rparr>) \<and>
     (\<forall>j<hm_heads m. hm_nodes (m\<lparr>hm_size := hm_size m - 1\<rparr>) (s\<lparr>hs := h, elive := elive s - {e}\<rparr>) j =
        (if j = i then xs @ ys else hm_nodes m s j))"
proof -
  note ok' = hm_okD [OF ok]
  obtain h where h: "tuya_hlist_del e (hs s) = Some h" "hlist h (hm_list m + i) (xs @ ys)"
    using hlist_del ok'(4) [OF i] b by metis
  let ?t = "s\<lparr>hs := h, elive := elive s - {e}\<rparr>"
  have d: "distinct (xs @ e # ys)" using ok'(4) [OF i] b by (simp add: hlist_def)
  have disj: "set (hm_nodes m s i) \<inter> set (hm_nodes m s j) = {}" if "j < hm_heads m" "j \<noteq> i" for j
    using ok'(5) [OF that(1)] ok'(5) [OF i] that(2) by blast
  have "hm_ok str (m\<lparr>hm_size := hm_size m - 1\<rparr>) ?t \<and>
     (\<forall>j<hm_heads m. hm_nodes (m\<lparr>hm_size := hm_size m - 1\<rparr>) ?t j =
        (if j = i then xs @ ys else hm_nodes m s j))"
  proof (rule hm_ok_change [OF ok i])
    show "hlist (hs ?t) (hm_list m + i) (xs @ ys)" using h(2) by simp
    show "\<forall>x\<in>set (xs @ ys). x \<in> elive ?t \<and> hm_hash m (str (ekey ?t x)) = i"
      using d ok'(5) [OF i] b by auto
    have "hlist (hs ?t) (hm_list m + j) (hm_nodes m s j)" if "j < hm_heads m" "j \<noteq> i" for j
      using hlist_del_other [OF _ h(1) ok'(4) [OF that(1)], of "hm_list m + i" xs ys]
        ok'(4) [OF i] disj [OF that] that(2) b by simp
    moreover have "x \<in> elive ?t \<and> ekey ?t x = ekey s x"
      if "j < hm_heads m" "j \<noteq> i" "x \<in> set (hm_nodes m s j)" for j x
      using disj [OF that(1,2)] that(3) ok'(5) [OF that(1,3)] b by auto
    ultimately show "\<forall>j<hm_heads m. j \<noteq> i \<longrightarrow> hlist (hs ?t) (hm_list m + j) (hm_nodes m s j) \<and>
        (\<forall>x\<in>set (hm_nodes m s j). x \<in> elive ?t \<and> ekey ?t x = ekey s x)" by blast
  qed (use b in simp)
  then show ?thesis using h(1) by (auto simp: tuya_hlist_del_def)
qed

section \<open>Removal and traversal\<close>

text \<open>The element that \<^verbatim>\<open>tuya_hashmap_remove\<close> takes out: where the loop's cursor stands.\<close>

abbreviation hm_matches :: "cstr \<Rightarrow> hm_heap \<Rightarrow> nat \<Rightarrow> nat \<Rightarrow> nat \<Rightarrow> bool" where
  "hm_matches str s key data e \<equiv> str (ekey s e) = str key \<and> (data = 0 \<or> edata s e = data)"

definition hm_victim :: "cstr \<Rightarrow> hashmap \<Rightarrow> nat \<Rightarrow> nat \<Rightarrow> hm_heap \<Rightarrow> nat option" where
  "hm_victim str m key data s =
     (let b = hm_nodes m s (hm_hash m (str key))
      in if b = [] then None
         else Some (case List.find (hm_matches str s key data) b of Some e \<Rightarrow> e | None \<Rightarrow> last b))"

lemma hashmap_remove_victim:
  assumes ok: "hm_ok str m s"
  shows "tuya_hashmap_remove str m key data s =
     (case hm_victim str m key data s of
        None \<Rightarrow> Some (MAP_MISSING, m, s)
      | Some e \<Rightarrow> do { h \<leftarrow> hlist_del_raw e (hs s);
                     Some (MAP_OK, m\<lparr>hm_size := hm_size m - 1\<rparr>, s\<lparr>hs := h, elive := elive s - {e}\<rparr>) })"
    and "hm_victim str m key data s = Some e \<Longrightarrow> e \<in> set (hm_nodes m s (hm_hash m (str key)))"
proof -
  note ok' = hm_okD [OF ok]
  let ?b = "hm_nodes m s (hm_hash m (str key))"
  have 0: "e \<in> set ?b" if "hm_victim str m key data s = Some e" for e
    using that by (auto simp: hm_victim_def Let_def find_filter filter_eq_Cons_iff
        split: if_splits list.splits)
  then show "hm_victim str m key data s = Some e \<Longrightarrow> e \<in> set ?b" .
  have e: "tuya_hlist_empty (hm_list m + hm_hash m (str key)) (hs s) \<longleftrightarrow> ?b = []"
    using hlist_empty_iff [OF ok'(3)] .
  have scan: "hm_scan (hm_matches str s key data) s
       (hfirst (hs s) (hm_list m + hm_hash m (str key))) 0 =
     Some (case List.find (hm_matches str s key data) ?b of Some e \<Rightarrow> (e, True)
           | None \<Rightarrow> (if ?b = [] then 0 else last ?b, False))"
    by (rule hm_scan_bucket [OF ok ok'(1)])
  show "tuya_hashmap_remove str m key data s =
     (case hm_victim str m key data s of
        None \<Rightarrow> Some (MAP_MISSING, m, s)
      | Some e \<Rightarrow> do { h \<leftarrow> hlist_del_raw e (hs s);
                     Some (MAP_OK, m\<lparr>hm_size := hm_size m - 1\<rparr>, s\<lparr>hs := h, elive := elive s - {e}\<rparr>) })"
  proof (cases "?b = []")
    case True
    then show ?thesis unfolding tuya_hashmap_remove_def ok'(2) bind.bind_lunit
      by (simp add: e hm_victim_def)
  next
    case False
    then obtain v where v: "hm_victim str m key data s = Some v"
      by (simp add: hm_victim_def Let_def)
    have nz: "v \<noteq> 0" using 0 [OF v] hm_nodes_nonzero [OF ok ok'(1) [of "str key"]] by metis
    show ?thesis unfolding tuya_hashmap_remove_def ok'(2) bind.bind_lunit
      using False nz v
      by (cases "List.find (hm_matches str s key data) ?b") (simp_all add: e scan hm_victim_def Let_def)
  qed
qed

text \<open>What is stored after an element is taken out of its bucket.\<close>

lemma hashmap_remove_entries:
  assumes ok: "hm_ok str m s" and v: "hm_victim str m key data s = Some e"
    and b: "hm_nodes m s (hm_hash m (str key)) = xs @ e # ys"
  shows "\<exists>m' t. tuya_hashmap_remove str m key data s = Some (MAP_OK, m', t) \<and> hm_ok str m' t \<and>
     hm_size m' = hm_size m - 1 \<and> hm_table_size m' = hm_table_size m \<and> elive t = elive s - {e} \<and>
     (\<forall>k. hm_entries str m' t k =
        (if k = str (ekey s e)
         then map (edata s) (filter (\<lambda>x. str (ekey s x) = k) xs) @
              map (edata s) (filter (\<lambda>x. str (ekey s x) = k) ys)
         else hm_entries str m s k))"
proof -
  note ok' = hm_okD [OF ok]
  obtain h where h: "hlist_del_raw e (hs s) = Some h"
    and t: "hm_ok str (m\<lparr>hm_size := hm_size m - 1\<rparr>) (s\<lparr>hs := h, elive := elive s - {e}\<rparr>)"
    and nodes: "\<forall>j<hm_heads m. hm_nodes (m\<lparr>hm_size := hm_size m - 1\<rparr>) (s\<lparr>hs := h, elive := elive s - {e}\<rparr>) j =
        (if j = hm_hash m (str key) then xs @ ys else hm_nodes m s j)"
    using hashmap_remove_node [OF ok ok'(1) b] by blast
  let ?m = "m\<lparr>hm_size := hm_size m - 1\<rparr>" and ?t = "s\<lparr>hs := h, elive := elive s - {e}\<rparr>"
  have "hm_hash m (str (ekey s e)) = hm_hash m (str key)"
    using ok'(5) [OF ok'(1) [of "str key"], of e] b by simp
  then have "hm_entries str ?m ?t k =
        (if k = str (ekey s e)
         then map (edata s) (filter (\<lambda>x. str (ekey s x) = k) xs) @
              map (edata s) (filter (\<lambda>x. str (ekey s x) = k) ys)
         else hm_entries str m s k)" for k
    using nodes ok'(1) [of k] b by (auto simp: hm_entries_def)
  moreover have "tuya_hashmap_remove str m key data s = Some (MAP_OK, ?m, ?t)"
    using hashmap_remove_victim(1) [OF ok] v h by simp
  ultimately show ?thesis using t by (intro exI [of _ ?m] exI [of _ ?t]) simp
qed

lemma hashmap_remove_present:
  assumes ok: "hm_ok str m s"
    and p: "if data = 0 then hm_entries str m s (str key) \<noteq> [] else data \<in> set (hm_entries str m s (str key))"
  shows "\<exists>m' t. tuya_hashmap_remove str m key data s = Some (MAP_OK, m', t) \<and> hm_ok str m' t \<and>
     hm_size m' = hm_size m - 1 \<and>
     (\<exists>e\<in>elive s. elive t = elive s - {e} \<and> str (ekey s e) = str key \<and> (data = 0 \<or> edata s e = data)) \<and>
     hm_entries str m' t = (hm_entries str m s)(str key :=
        (if data = 0 then tl (hm_entries str m s (str key)) else remove1 data (hm_entries str m s (str key))))"
proof -
  let ?b = "hm_nodes m s (hm_hash m (str key))" and ?M = "hm_matches str s key data"
  let ?K = "\<lambda>x. str (ekey s x) = str key"
  have "\<exists>e\<in>set ?b. ?M e"
  proof (cases "data = 0")
    case True
    then have "filter ?K ?b \<noteq> []" using p by (simp add: hm_entries_def)
    then show ?thesis using True by (auto simp: filter_empty_conv)
  next
    case False
    then show ?thesis using p by (auto simp: hm_entries_def)
  qed
  then have "filter ?M ?b \<noteq> []" by (auto simp: filter_empty_conv)
  then obtain e fs where f: "filter ?M ?b = e # fs" by (cases "filter ?M ?b") auto
  then obtain xs ys where b: "?b = xs @ e # ys" and xs: "\<forall>x\<in>set xs. \<not> ?M x" and e: "?M e"
    by (auto simp: filter_eq_Cons_iff)
  have v: "hm_victim str m key data s = Some e"
    using f b by (simp add: hm_victim_def find_filter)
  have old: "hm_entries str m s (str key) =
      map (edata s) (filter ?K xs) @ edata s e # map (edata s) (filter ?K ys)"
    using e by (simp add: hm_entries_def b)
  have new: "map (edata s) (filter ?K xs) @ map (edata s) (filter ?K ys) =
     (if data = 0 then tl (hm_entries str m s (str key)) else remove1 data (hm_entries str m s (str key)))"
  proof (cases "data = 0")
    case True
    then have "filter ?K xs = []" using xs by (auto simp: filter_empty_conv)
    then show ?thesis using True by (simp add: old)
  next
    case False
    then have "data \<notin> set (map (edata s) (filter ?K xs))" "edata s e = data" using xs e by auto
    then show ?thesis using False by (simp add: old remove1_append)
  qed
  have live: "e \<in> elive s" using hm_okD(5) [OF ok hm_okD(1) [OF ok], of e "str key"] b by simp
  obtain m' t where t: "tuya_hashmap_remove str m key data s = Some (MAP_OK, m', t)" "hm_ok str m' t"
      "hm_size m' = hm_size m - 1" "elive t = elive s - {e}" and k: "\<forall>k. hm_entries str m' t k =
        (if k = str (ekey s e)
         then map (edata s) (filter (\<lambda>x. str (ekey s x) = k) xs) @ map (edata s) (filter (\<lambda>x. str (ekey s x) = k) ys)
         else hm_entries str m s k)"
    using hashmap_remove_entries [OF ok v b] by blast
  have "hm_entries str m' t = (hm_entries str m s)(str key :=
        (if data = 0 then tl (hm_entries str m s (str key)) else remove1 data (hm_entries str m s (str key))))"
    using k e new by (auto simp: fun_eq_iff)
  then show ?thesis using t live e by blast
qed

text \<open>
  When nothing matches and the bucket is not empty, the cursor stands on the last element of the
  bucket after the loop, and that element is removed.
\<close>

lemma hashmap_remove_absent:
  assumes ok: "hm_ok str m s"
    and p: "if data = 0 then hm_entries str m s (str key) = [] else data \<notin> set (hm_entries str m s (str key))"
    and b: "hm_nodes m s (hm_hash m (str key)) \<noteq> []"
  shows "\<exists>m' t k. tuya_hashmap_remove str m key data s = Some (MAP_OK, m', t) \<and> hm_ok str m' t \<and>
     hm_size m' = hm_size m - 1 \<and> hm_entries str m s k \<noteq> [] \<and> hm_hash m k = hm_hash m (str key) \<and>
     hm_entries str m' t = (hm_entries str m s)(k := butlast (hm_entries str m s k))"
proof -
  let ?b = "hm_nodes m s (hm_hash m (str key))" and ?M = "hm_matches str s key data"
  have "filter ?M ?b = []"
  proof (cases "data = 0")
    case True
    then show ?thesis using p by (simp add: hm_entries_def)
  next
    case False
    then show ?thesis using p by (auto simp: hm_entries_def filter_empty_conv)
  qed
  then have v: "hm_victim str m key data s = Some (last ?b)"
    using b by (simp add: hm_victim_def find_filter Let_def)
  have split: "?b = butlast ?b @ last ?b # []" using b by simp
  let ?e = "last ?b"
  have k: "hm_hash m (str (ekey s ?e)) = hm_hash m (str key)"
    using hm_okD(5) [OF ok hm_okD(1) [OF ok], of ?e "str key"] b by simp
  have old: "hm_entries str m s (str (ekey s ?e)) =
     map (edata s) (filter (\<lambda>x. str (ekey s x) = str (ekey s ?e)) (butlast ?b)) @ [edata s ?e]"
    unfolding hm_entries_def k by (subst (2) split) simp
  show ?thesis
    using hashmap_remove_entries [OF ok v split] k old
    by (fastforce simp: fun_eq_iff)
qed

text \<open>
  The loop of \<^verbatim>\<open>TUYA_HASHMAP_FOR_EACH_DATA\<close> (\<^verbatim>\<open>include/utilities/include/tuya_hashmap.h\<close>): the
  data it visits for \<open>key\<close>, from iterator \<open>it\<close>.
\<close>

partial_function (option) hashmap_for_each ::
  "cstr \<Rightarrow> hashmap \<Rightarrow> nat \<Rightarrow> nat \<Rightarrow> hm_heap \<Rightarrow> nat list option" where
  "hashmap_for_each str m key it s =
     do {
       (code, it) \<leftarrow> tuya_hashmap_data_traversal str m key it s;
       if code = MAP_OK
       then do { ds \<leftarrow> hashmap_for_each str m key it s; Some (edata s it # ds) }
       else Some []
     }"

declare hashmap_for_each.simps [code]

lemma hash_find_next_eq:
  assumes ok: "hm_ok str m s" and i: "i < hm_heads m" and b: "hm_nodes m s i = xs @ e # ys"
  shows "hash_find_next_element str e s =
     Some (case filter (\<lambda>x. str (ekey s x) = str (ekey s e)) ys of [] \<Rightarrow> 0 | x # _ \<Rightarrow> x)"
proof -
  have p: "hpath (hs s) (PFirst (hm_list m + i)) (hfirst (hs s) (hm_list m + i)) (xs @ e # ys)"
    using hm_okD(4) [OF ok i] b by (simp add: hlist_def)
  have live: "\<forall>x\<in>set (xs @ e # ys). x \<in> elive s" using hm_okD(5) [OF ok i] b by auto
  have "hpath (hs s) (PNext e) (hnext (hs s) e) ys" using hpath_mid [OF p] by simp
  from hm_scan_path [OF this, where P = "\<lambda>x. str (ekey s x) = str (ekey s e)" and tmp = 0]
  have scan: "hm_scan (\<lambda>x. str (ekey s x) = str (ekey s e)) s (hnext (hs s) e) 0 =
    Some (case filter (\<lambda>x. str (ekey s x) = str (ekey s e)) ys of
            [] \<Rightarrow> (if ys = [] then 0 else last ys, False) | x # _ \<Rightarrow> (x, True))"
    using live by (simp add: find_filter split: list.split)
  have "e \<in> elive s" using live by simp
  then show ?thesis by (simp add: hash_find_next_element_def scan split: list.split)
qed

lemma hashmap_for_each_from:
  assumes ok: "hm_ok str m s" and i: "i < hm_heads m"
  shows "hm_nodes m s i = xs @ e # ys \<Longrightarrow> str (ekey s e) = str key \<Longrightarrow>
     hashmap_for_each str m key e s = Some (map (edata s) (filter (\<lambda>x. str (ekey s x) = str key) ys))"
proof (induction ys arbitrary: xs e rule: length_induct)
  case (1 ys)
  let ?K = "\<lambda>x. str (ekey s x) = str key"
  have nz: "0 \<notin> set (xs @ e # ys)" using hm_nodes_nonzero [OF ok i] 1(2) by simp
  note nx = hash_find_next_eq [OF ok i 1(2), unfolded 1(3)]
  show ?case
  proof (cases "filter ?K ys")
    case Nil
    then show ?thesis using nz nx
      by (subst hashmap_for_each.simps) (simp add: tuya_hashmap_data_traversal_def)
  next
    case (Cons e' fs)
    then obtain us vs where v: "ys = us @ e' # vs" "?K e'" "filter ?K vs = fs"
      by (auto simp: filter_eq_Cons_iff)
    have "hm_nodes m s i = (xs @ e # us) @ e' # vs" using 1(2) v(1) by simp
    then have "hashmap_for_each str m key e' s = Some (map (edata s) fs)"
      using 1(1) [rule_format, of vs] v by simp
    moreover have "e' \<noteq> 0" "e \<noteq> 0" using nz v(1) by auto
    ultimately show ?thesis using nx Cons
      by (subst hashmap_for_each.simps) (simp add: tuya_hashmap_data_traversal_def)
  qed
qed

lemma hashmap_for_each_entries:
  assumes ok: "hm_ok str m s"
  shows "hashmap_for_each str m key 0 s = Some (hm_entries str m s (str key))"
proof -
  let ?b = "hm_nodes m s (hm_hash m (str key))" and ?K = "\<lambda>x. str (ekey s x) = str key"
  note i = hm_okD(1) [OF ok, of "str key"]
  show ?thesis
  proof (cases "filter ?K ?b")
    case Nil
    then show ?thesis
      by (subst hashmap_for_each.simps)
         (simp add: tuya_hashmap_data_traversal_def hash_find_eq [OF ok] hm_entries_def)
  next
    case (Cons e fs)
    then obtain us vs where v: "?b = us @ e # vs" "?K e" "filter ?K vs = fs"
      by (auto simp: filter_eq_Cons_iff)
    have "e \<noteq> 0" using hm_nodes_nonzero [OF ok i] v(1) by auto
    then show ?thesis using hashmap_for_each_from [OF ok i v(1,2)] Cons v(3)
      by (subst hashmap_for_each.simps)
         (simp add: tuya_hashmap_data_traversal_def hash_find_eq [OF ok] hm_entries_def)
  qed
qed

section \<open>The contract of a map with several values per key\<close>

datatype ('a, 'k, 'v) mm_op = Add 'a 'k 'v | Del 'k 'v

fun mm_run :: "('a \<Rightarrow> 'k \<Rightarrow> 'v \<Rightarrow> 's \<Rightarrow> 's option) \<Rightarrow> ('k \<Rightarrow> 'v \<Rightarrow> 's \<Rightarrow> 's option) \<Rightarrow>
    ('a, 'k, 'v) mm_op list \<Rightarrow> 's \<Rightarrow> 's option" where
  "mm_run add del [] s = Some s"
| "mm_run add del (Add a k v # ops) s = do { t \<leftarrow> add a k v s; mm_run add del ops t }"
| "mm_run add del (Del k v # ops) s = do { t \<leftarrow> del k v s; mm_run add del ops t }"

text \<open>The specification: a list of values per key content, the most recent first. Deleting \<open>null\<close> deletes
  the most recent value.\<close>

definition mm_drop :: "'v \<Rightarrow> 'v \<Rightarrow> 'v list \<Rightarrow> 'v list" where
  "mm_drop null v xs = (if v = null then tl xs else remove1 v xs)"

definition mm_has :: "'v \<Rightarrow> 'v \<Rightarrow> 'v list \<Rightarrow> bool" where
  "mm_has null v xs \<longleftrightarrow> (if v = null then xs \<noteq> [] else v \<in> set xs)"

fun mm_spec :: "'v \<Rightarrow> ('k \<Rightarrow> 'c) \<Rightarrow> ('a, 'k, 'v) mm_op list \<Rightarrow> ('c \<Rightarrow> 'v list) \<Rightarrow> 'c \<Rightarrow> 'v list" where
  "mm_spec null content [] f = f"
| "mm_spec null content (Add a k v # ops) f = mm_spec null content ops (f(content k := v # f (content k)))"
| "mm_spec null content (Del k v # ops) f = mm_spec null content ops (f(content k := mm_drop null v (f (content k))))"

text \<open>
  A history is legal when each address the allocator returns is not in use (\<open>used\<close> grows with
  every addition) and only what is present is deleted.
\<close>

fun mm_legal :: "('k \<Rightarrow> 'c) \<Rightarrow> 'v \<Rightarrow> ('a, 'k, 'v) mm_op list \<Rightarrow> 'a set \<Rightarrow> ('c \<Rightarrow> 'v list) \<Rightarrow> bool" where
  "mm_legal content null [] used f = True"
| "mm_legal content null (Add a k v # ops) used f \<longleftrightarrow>
     a \<notin> used \<and> mm_legal content null ops (insert a used) (f(content k := v # f (content k)))"
| "mm_legal content null (Del k v # ops) used f \<longleftrightarrow>
     mm_has null v (f (content k)) \<and> mm_legal content null ops used (f(content k := mm_drop null v (f (content k))))"

locale multimap =
  fixes find :: "'k \<Rightarrow> 's \<Rightarrow> 'v option"
    and add :: "'a \<Rightarrow> 'k \<Rightarrow> 'v \<Rightarrow> 's \<Rightarrow> 's option"
    and del :: "'k \<Rightarrow> 'v \<Rightarrow> 's \<Rightarrow> 's option"
    and entries :: "'s \<Rightarrow> 'c \<Rightarrow> 'v list"
    and used :: "'s \<Rightarrow> 'a set"
    and invar :: "'s \<Rightarrow> bool"
    and content :: "'k \<Rightarrow> 'c"
    and null :: 'v
  assumes find: "invar s \<Longrightarrow> find k s = (case entries s (content k) of [] \<Rightarrow> None | v # _ \<Rightarrow> Some v)"
    and add: "invar s \<Longrightarrow> a \<notin> used s \<Longrightarrow> \<exists>t. add a k v s = Some t \<and> invar t \<and>
       used t \<subseteq> insert a (used s) \<and> entries t = (entries s)(content k := v # entries s (content k))"
    and del: "invar s \<Longrightarrow> mm_has null v (entries s (content k)) \<Longrightarrow>
       \<exists>t. del k v s = Some t \<and> invar t \<and> used t \<subseteq> used s \<and>
         entries t = (entries s)(content k := mm_drop null v (entries s (content k)))"
begin

lemma run_entries:
  "invar s \<Longrightarrow> used s \<subseteq> u \<Longrightarrow> mm_legal content null ops u (entries s) \<Longrightarrow>
   \<exists>t. mm_run add del ops s = Some t \<and> invar t \<and> entries t = mm_spec null content ops (entries s)"
proof (induction ops arbitrary: s u)
  case (Cons op ops)
  show ?case
  proof (cases op)
    case (Add a k v)
    then have "a \<notin> used s" using Cons.prems by auto
    with add [OF Cons.prems(1), of a k v] obtain t where t: "add a k v s = Some t" "invar t"
      "used t \<subseteq> insert a (used s)" "entries t = (entries s)(content k := v # entries s (content k))" by blast
    then have "used t \<subseteq> insert a u" using Cons.prems(2) by blast
    then show ?thesis using Cons.IH [OF t(2), of "insert a u", unfolded t(4)] Cons.prems(3) t(1) Add
      by (simp del: fun_upd_apply)
  next
    case (Del k v)
    then have "mm_has null v (entries s (content k))" using Cons.prems(3) by auto
    with del [OF Cons.prems(1), of v k] obtain t where t: "del k v s = Some t" "invar t"
      "used t \<subseteq> used s" "entries t = (entries s)(content k := mm_drop null v (entries s (content k)))" by blast
    then have "used t \<subseteq> u" using Cons.prems(2) by blast
    then show ?thesis using Cons.IH [OF t(2), of u, unfolded t(4)] Cons.prems(3) t(1) Del
      by (simp del: fun_upd_apply)
  qed
qed simp

lemma find_after_run:
  assumes "invar s" and "mm_legal content null ops (used s) (entries s)"
  shows "\<exists>t. mm_run add del ops s = Some t \<and> invar t \<and>
     (\<forall>k. find k t = (case mm_spec null content ops (entries s) (content k) of [] \<Rightarrow> None | v # _ \<Rightarrow> Some v))"
  using run_entries [OF assms(1) _ assms(2)] find by force

text \<open>Adding a value and deleting it again changes nothing that can be looked up.\<close>

lemma add_del:
  assumes "invar s" and "a \<notin> used s"
  shows "\<exists>t u. add a k v s = Some t \<and> del k v t = Some u \<and> invar u \<and> entries u = entries s"
proof -
  obtain t where t: "add a k v s = Some t" "invar t"
    "entries t = (entries s)(content k := v # entries s (content k))"
    using add [OF assms(1,2)] by blast
  then have "mm_has null v (entries t (content k))" by (simp add: mm_has_def)
  then obtain u where "del k v t = Some u" "invar u"
    "entries u = (entries t)(content k := mm_drop null v (entries t (content k)))"
    using del [OF t(2)] by blast
  then show ?thesis using t by (auto simp: mm_drop_def)
qed

end

definition hm_find :: "cstr \<Rightarrow> nat \<Rightarrow> hashmap \<times> hm_heap \<Rightarrow> nat option" where
  "hm_find str k ms = (case tuya_hashmap_get str (fst ms) k (snd ms) of
     Some (MAP_OK, d) \<Rightarrow> Some d | _ \<Rightarrow> None)"

definition hm_add :: "cstr \<Rightarrow> nat \<Rightarrow> nat \<Rightarrow> nat \<Rightarrow> hashmap \<times> hm_heap \<Rightarrow> (hashmap \<times> hm_heap) option" where
  "hm_add str e k d ms = (case tuya_hashmap_put str (fst ms) k d e (snd ms) of
     Some (MAP_OK, m, t) \<Rightarrow> Some (m, t) | _ \<Rightarrow> None)"

definition hm_del :: "cstr \<Rightarrow> nat \<Rightarrow> nat \<Rightarrow> hashmap \<times> hm_heap \<Rightarrow> (hashmap \<times> hm_heap) option" where
  "hm_del str k d ms = (case tuya_hashmap_remove str (fst ms) k d (snd ms) of
     Some (MAP_OK, m, t) \<Rightarrow> Some (m, t) | _ \<Rightarrow> None)"

interpretation hm: multimap "hm_find str" "hm_add str" "hm_del str"
  "\<lambda>ms. hm_entries str (fst ms) (snd ms)" "\<lambda>ms. insert 0 (elive (snd ms))"
  "\<lambda>ms. hm_ok str (fst ms) (snd ms)" str 0
  for str
proof (unfold_locales, goal_cases)
  case (1 s k)
  then show ?case by (simp add: hm_find_def hashmap_get_entries split: list.split)
next
  case (2 s a k v)
  then show ?case using hashmap_put_entries [of str "fst s" "snd s" a k v]
    by (fastforce simp: hm_add_def)
next
  case (3 s v k)
  then show ?case using hashmap_remove_present [of str "fst s" "snd s" v k]
    by (fastforce simp: hm_del_def mm_has_def mm_drop_def split: if_splits)
qed

section \<open>Properties\<close>

subsection \<open>Buckets\<close>

text \<open>What removing does to a bucket: the first match goes, and without one the last element.\<close>

definition bucket_remove :: "u8 list \<Rightarrow> nat \<Rightarrow> (u8 list \<times> nat) list \<Rightarrow> (u8 list \<times> nat) list" where
  "bucket_remove k d b =
     (case List.extract (\<lambda>p. fst p = k \<and> (d = 0 \<or> snd p = d)) b of Some (xs, _, ys) \<Rightarrow> xs @ ys | None \<Rightarrow> butlast b)"

lemma hashmap_remove_pairs:
  assumes ok: "hm_ok str m s" and v: "hm_nodes m s (hm_hash m (str key)) \<noteq> []"
  shows "\<exists>m' t. tuya_hashmap_remove str m key data s = Some (MAP_OK, m', t) \<and> hm_ok str m' t \<and>
     hm_table_size m' = hm_table_size m \<and> hm_heads m' = hm_heads m \<and> elive t \<subseteq> elive s \<and>
     (\<forall>j<hm_heads m. hm_pairs str m' t j = (if j = hm_hash m (str key)
        then bucket_remove (str key) data (hm_pairs str m s j) else hm_pairs str m s j))"
proof -
  let ?i = "hm_hash m (str key)" and ?P = "\<lambda>p. fst p = str key \<and> (data = 0 \<or> snd p = data)"
  let ?f = "\<lambda>e. (str (ekey s e), edata s e)"
  obtain xs e ys where b: "hm_nodes m s ?i = xs @ e # ys" and e: "hm_victim str m key data s = Some e"
    and r: "bucket_remove (str key) data (hm_pairs str m s ?i) = map ?f (xs @ ys)"
  proof (cases "List.extract ?P (hm_pairs str m s ?i)")
    case None
    let ?b = "hm_nodes m s ?i"
    have "\<forall>x\<in>set ?b. \<not> hm_matches str s key data x"
      using None by (auto simp: extract_None_iff hm_pairs_def)
    then have "List.find (hm_matches str s key data) ?b = None" by (auto simp: find_None_iff)
    then have "hm_victim str m key data s = Some (last ?b)" using v by (simp add: hm_victim_def Let_def)
    moreover have "bucket_remove (str key) data (hm_pairs str m s ?i) = map ?f (butlast ?b @ [])"
      using None by (simp add: bucket_remove_def hm_pairs_def map_butlast)
    moreover have "?b = butlast ?b @ last ?b # []" using v by simp
    ultimately show ?thesis using that by blast
  next
    case (Some t)
    then obtain ps q qs where x: "List.extract ?P (hm_pairs str m s ?i) = Some (ps, q, qs)" by (cases t) auto
    then have s: "hm_pairs str m s ?i = ps @ q # qs" "?P q" "\<not> (\<exists>y\<in>set ps. ?P y)"
      using extract_SomeE [OF x] by auto
    then obtain xs e ys where b: "hm_nodes m s ?i = xs @ e # ys" "ps = map ?f xs" "q = ?f e" "qs = map ?f ys"
      unfolding hm_pairs_def by (auto simp: map_eq_append_conv map_eq_Cons_conv)
    then have "\<forall>x\<in>set xs. \<not> hm_matches str s key data x" "hm_matches str s key data e" using s(2,3) by auto
    then have "List.find (hm_matches str s key data) (xs @ e # ys) = Some e" by (induction xs) auto
    then have "hm_victim str m key data s = Some e" by (simp add: hm_victim_def Let_def b(1))
    moreover have "bucket_remove (str key) data (hm_pairs str m s ?i) = map ?f (xs @ ys)"
      using x b(2,4) by (simp add: bucket_remove_def)
    ultimately show ?thesis using that b(1) by blast
  qed
  obtain h where h: "hlist_del_raw e (hs s) = Some h"
    "hm_ok str (m\<lparr>hm_size := hm_size m - 1\<rparr>) (s\<lparr>hs := h, elive := elive s - {e}\<rparr>)"
    "\<forall>j<hm_heads m. hm_nodes (m\<lparr>hm_size := hm_size m - 1\<rparr>) (s\<lparr>hs := h, elive := elive s - {e}\<rparr>) j =
        (if j = ?i then xs @ ys else hm_nodes m s j)"
    using hashmap_remove_node [OF ok hm_okD(1) [OF ok] b] by blast
  have "tuya_hashmap_remove str m key data s =
      Some (MAP_OK, m\<lparr>hm_size := hm_size m - 1\<rparr>, s\<lparr>hs := h, elive := elive s - {e}\<rparr>)"
    using hashmap_remove_victim(1) [OF ok, of key data] e h(1) by simp
  then show ?thesis using h(2,3) r by (fastforce simp: hm_pairs_def)
qed

subsection \<open>Any history\<close>

fun map_run :: "cstr \<Rightarrow> (nat, nat, nat) mm_op list \<Rightarrow> hashmap \<Rightarrow> hm_heap \<Rightarrow> (map_code list \<times> hashmap \<times> hm_heap) option" where
  "map_run str [] m s = Some ([], m, s)"
| "map_run str (Add e k d # ops) m s =
     do { (c, m, s) \<leftarrow> tuya_hashmap_put str m k d e s; (cs, r) \<leftarrow> map_run str ops m s; Some (c # cs, r) }"
| "map_run str (Del k d # ops) m s =
     do { (c, m, s) \<leftarrow> tuya_hashmap_remove str m k d s; (cs, r) \<leftarrow> map_run str ops m s; Some (c # cs, r) }"

fun map_spec :: "(u8 list \<Rightarrow> nat) \<Rightarrow> cstr \<Rightarrow> (nat, nat, nat) mm_op list \<Rightarrow> (nat \<Rightarrow> (u8 list \<times> nat) list) \<Rightarrow>
    map_code list \<times> (nat \<Rightarrow> (u8 list \<times> nat) list)" where
  "map_spec hash str [] B = ([], B)"
| "map_spec hash str (Add e k d # ops) B =
     (if e = 0 then (let (cs, B) = map_spec hash str ops B in (MAP_OMEM # cs, B))
      else let i = hash (str k); (cs, B) = map_spec hash str ops (B(i := (str k, d) # B i)) in (MAP_OK # cs, B))"
| "map_spec hash str (Del k d # ops) B =
     (let i = hash (str k)
      in if B i = [] then (let (cs, B) = map_spec hash str ops B in (MAP_MISSING # cs, B))
         else let (cs, B) = map_spec hash str ops (B(i := bucket_remove (str k) d (B i))) in (MAP_OK # cs, B))"

text \<open>The allocator fails or returns an address that it did not return before.\<close>

fun fresh_adds :: "(nat, nat, nat) mm_op list \<Rightarrow> nat set \<Rightarrow> bool" where
  "fresh_adds [] used \<longleftrightarrow> True"
| "fresh_adds (Add e k d # ops) used \<longleftrightarrow> (e = 0 \<or> e \<notin> used) \<and> fresh_adds ops (insert e used)"
| "fresh_adds (Del k d # ops) used \<longleftrightarrow> fresh_adds ops used"

definition map_shows :: "cstr \<Rightarrow> hashmap \<Rightarrow> hm_heap \<Rightarrow> (nat \<Rightarrow> (u8 list \<times> nat) list) \<Rightarrow> bool" where
  "map_shows str m s B \<longleftrightarrow> hm_ok str m s \<and> (\<forall>j<hm_heads m. hm_pairs str m s j = B j)"

lemma run_shows:
  "map_shows str m s B \<Longrightarrow> elive s \<subseteq> u \<Longrightarrow> fresh_adds ops u \<Longrightarrow> hm_table_size m = ts \<Longrightarrow>
   \<exists>m' t. map_run str ops m s = Some (fst (map_spec (\<lambda>k. unat (hashmap_hash_int ts k)) str ops B), m', t) \<and>
     map_shows str m' t (snd (map_spec (\<lambda>k. unat (hashmap_hash_int ts k)) str ops B)) \<and> hm_table_size m' = ts"
proof (induction ops arbitrary: m s B u)
  case (Cons op ops)
  let ?h = "\<lambda>k. unat (hashmap_hash_int ts k)"
  have ok: "hm_ok str m s" and B: "\<And>j. j < hm_heads m \<Longrightarrow> hm_pairs str m s j = B j"
    using Cons.prems(1) by (simp_all add: map_shows_def)
  show ?case
  proof (cases op)
    case (Add e k d)
    show ?thesis
    proof (cases "e = 0")
      case True
      then have "tuya_hashmap_put str m k d e s = Some (MAP_OMEM, m, s)" by (simp add: tuya_hashmap_put_def)
      moreover have "elive s \<subseteq> insert 0 u" using Cons.prems(2) by auto
      ultimately show ?thesis using Cons.IH [OF Cons.prems(1), of "insert 0 u"] Cons.prems(3,4) Add True
        by (auto simp: case_prod_beta)
    next
      case False
      let ?B = "B(?h (str k) := (str k, d) # B (?h (str k)))"
      have "e \<notin> elive s" using Cons.prems(2,3) Add False by auto
      from hashmap_put_ok [OF ok False this, of k d]
      obtain t where t: "tuya_hashmap_put str m k d e s = Some (MAP_OK, m\<lparr>hm_size := hm_size m + 1\<rparr>, t)"
        "hm_ok str (m\<lparr>hm_size := hm_size m + 1\<rparr>) t" "elive t = insert e (elive s)"
        "\<forall>j<hm_heads m. hm_pairs str (m\<lparr>hm_size := hm_size m + 1\<rparr>) t j =
          (if j = hm_hash m (str k) then (str k, d) # hm_pairs str m s j else hm_pairs str m s j)"
        by blast
      then have "map_shows str (m\<lparr>hm_size := hm_size m + 1\<rparr>) t ?B"
        using B Cons.prems(4) by (simp add: map_shows_def)
      moreover have "elive t \<subseteq> insert e u" using t(3) Cons.prems(2) by auto
      ultimately obtain m' t' where
        "map_run str ops (m\<lparr>hm_size := hm_size m + 1\<rparr>) t = Some (fst (map_spec ?h str ops ?B), m', t')"
        "map_shows str m' t' (snd (map_spec ?h str ops ?B))" "hm_table_size m' = ts"
        using Cons.IH [of "m\<lparr>hm_size := hm_size m + 1\<rparr>" t ?B "insert e u"] Cons.prems(3,4) Add by (auto simp del: fun_upd_apply)
      then show ?thesis using Add False t(1) by (simp add: Let_def case_prod_beta del: fun_upd_apply)
    qed
  next
    case (Del k d)
    have i: "hm_hash m (str k) < hm_heads m" using hm_okD(1) [OF ok] .
    have e: "hm_nodes m s (hm_hash m (str k)) = [] \<longleftrightarrow> B (?h (str k)) = []"
      using B [OF i] Cons.prems(4) by (auto simp: hm_pairs_def)
    show ?thesis
    proof (cases "B (?h (str k)) = []")
      case True
      then have "tuya_hashmap_remove str m k d s = Some (MAP_MISSING, m, s)"
        using hashmap_remove_victim(1) [OF ok, of k d] e by (simp add: hm_victim_def)
      then show ?thesis using Cons.IH [OF Cons.prems(1,2)] Cons.prems(3,4) Del True
        by (auto simp: Let_def case_prod_beta)
    next
      case False
      let ?B = "B(?h (str k) := bucket_remove (str k) d (B (?h (str k))))"
      have "hm_nodes m s (hm_hash m (str k)) \<noteq> []" using False e by simp
      from hashmap_remove_pairs [OF ok this, of d]
      obtain m' t where t: "tuya_hashmap_remove str m k d s = Some (MAP_OK, m', t)" "hm_ok str m' t"
        "hm_table_size m' = hm_table_size m" "hm_heads m' = hm_heads m" "elive t \<subseteq> elive s"
        "\<forall>j<hm_heads m. hm_pairs str m' t j = (if j = hm_hash m (str k)
          then bucket_remove (str k) d (hm_pairs str m s j) else hm_pairs str m s j)"
        by blast
      then have "map_shows str m' t ?B" using B Cons.prems(4) by (simp add: map_shows_def)
      then obtain m'' t' where
        "map_run str ops m' t = Some (fst (map_spec ?h str ops ?B), m'', t')"
        "map_shows str m'' t' (snd (map_spec ?h str ops ?B))" "hm_table_size m'' = ts"
        using Cons.IH [of m' t ?B u] Cons.prems(2-4) Del t(3,5) by (auto simp del: fun_upd_apply)
      then show ?thesis using Del False t(1) by (simp add: Let_def case_prod_beta del: fun_upd_apply)
    qed
  qed
qed simp

text \<open>A history in which only what is present is removed is one of the multimap.\<close>

lemma hm_addD: "hm_add str e k d (m, s) = Some r \<Longrightarrow> tuya_hashmap_put str m k d e s = Some (MAP_OK, r)"
  by (auto simp: hm_add_def split: option.splits map_code.splits)

lemma hm_delD: "hm_del str k d (m, s) = Some r \<Longrightarrow> tuya_hashmap_remove str m k d s = Some (MAP_OK, r)"
  by (auto simp: hm_del_def split: option.splits map_code.splits)

lemma legal_run:
  "mm_run (hm_add str) (hm_del str) ops (m, s) = Some r \<Longrightarrow> \<exists>cs. map_run str ops m s = Some (cs, r)"
proof (induction ops arbitrary: m s)
  case (Cons op ops)
  show ?case
  proof (cases op)
    case (Add e k d)
    then obtain m1 s1 where 1: "hm_add str e k d (m, s) = Some (m1, s1)" "mm_run (hm_add str) (hm_del str) ops (m1, s1) = Some r"
      using Cons.prems by (auto simp: bind_eq_Some_conv)
    show ?thesis using Cons.IH [OF 1(2)] hm_addD [OF 1(1)] Add by auto
  next
    case (Del k d)
    then obtain m1 s1 where 1: "hm_del str k d (m, s) = Some (m1, s1)" "mm_run (hm_add str) (hm_del str) ops (m1, s1) = Some r"
      using Cons.prems by (auto simp: bind_eq_Some_conv)
    show ?thesis using Cons.IH [OF 1(2)] hm_delD [OF 1(1)] Del by auto
  qed
qed simp

text \<open>
  C3. The hash map after any history. A map is created, and values are put under keys and removed again
  in any order: with every outcome of the allocator (which does not return an address twice), with and
  without \<^verbatim>\<open>NULL\<close> as the data to remove, and whether or not there is anything to remove. Every operation
  returns, and the codes, the answers of \<^verbatim>\<open>tuya_hashmap_get\<close>, the values that the
  \<^verbatim>\<open>TUYA_HASHMAP_FOR_EACH_DATA\<close> loop visits and the length are those of a table of lists: putting adds
  in front, removing takes out the first match, but without a match the last element of the list, whatever
  its key. As long as every removal finds something to remove, a key shows just its own values that were put
  and not removed, the most recent first, whatever is done to other keys, collisions or not.
\<close>

theorem hashmap_history:
  assumes "tuya_hashmap_new ts True l s = (Some m, n, s')"
    and "0 < unat ts" and "unat ts < 2 ^ 30" and "l \<noteq> 0" and "fresh_adds ops (elive s')"
  shows "\<exists>m' t B. map_run str ops m s' = Some (fst (map_spec (\<lambda>k. unat (hashmap_hash_int ts k)) str ops (\<lambda>_. [])), m', t) \<and>
     B = snd (map_spec (\<lambda>k. unat (hashmap_hash_int ts k)) str ops (\<lambda>_. [])) \<and>
     tuya_hashmap_length (Some m') = int (\<Sum>i<unat ts. length (B i)) \<and>
     (\<forall>key. let xs = map snd (filter (\<lambda>p. fst p = str key) (B (unat (hashmap_hash_int ts (str key)))))
        in tuya_hashmap_get str m' key t = Some (case xs of [] \<Rightarrow> (MAP_MISSING, 0) | d # _ \<Rightarrow> (MAP_OK, d)) \<and>
           hashmap_for_each str m' key 0 t = Some xs \<and>
           (mm_legal str 0 ops (insert 0 (elive s')) (\<lambda>_. []) \<longrightarrow> xs = mm_spec 0 str ops (\<lambda>_. []) (str key)))"
proof -
  let ?h = "\<lambda>k. unat (hashmap_hash_int ts k)"
  have "ts \<noteq> 0" using assms(2) by auto
  note new = hm_ok_new [OF assms(1,3) this assms(4)]
  have m: "hm_table_size m = ts" using assms(1) by (auto simp: tuya_hashmap_new_def Let_def split: if_splits)
  have "hm_nodes m s' i = []" if "i < hm_heads m" for i
  proof -
    have "int (\<Sum>i<hm_heads m. length (hm_nodes m s' i)) = 0" using new(1) [of str] new(3) unfolding hm_ok_def by metis
    then have "(\<Sum>i<hm_heads m. length (hm_nodes m s' i)) = 0" by (simp only: of_nat_eq_0_iff)
    then show ?thesis using that by simp
  qed
  then have "map_shows str m s' (\<lambda>_. [])" using new(1) [of str] by (simp add: map_shows_def hm_pairs_def)
  from run_shows [OF this _ assms(5) m] obtain m' t where
    t: "map_run str ops m s' = Some (fst (map_spec ?h str ops (\<lambda>_. [])), m', t)"
      "map_shows str m' t (snd (map_spec ?h str ops (\<lambda>_. [])))" "hm_table_size m' = ts" by blast
  let ?B = "snd (map_spec ?h str ops (\<lambda>_. []))"
  have ok: "hm_ok str m' t" and B: "\<And>j. j < hm_heads m' \<Longrightarrow> hm_pairs str m' t j = ?B j"
    using t(2) by (simp_all add: map_shows_def)
  have h: "hm_heads m' = unat ts" using ok t(3) by (simp add: hm_ok_def)
  have x: "hm_entries str m' t k = map snd (filter (\<lambda>p. fst p = k) (?B (?h k)))" for k
    using entries_pairs [of str m' t k] B [OF hm_okD(1) [OF ok, of k]] t(3) by simp
  have len: "tuya_hashmap_length (Some m') = int (\<Sum>i<unat ts. length (?B i))"
  proof -
    have "length (hm_nodes m' t i) = length (?B i)" if "i < unat ts" for i
      using arg_cong [OF B [of i], of length] that h by (simp add: hm_pairs_def)
    then have "(\<Sum>i<unat ts. length (hm_nodes m' t i)) = (\<Sum>i<unat ts. length (?B i))" by (intro sum.cong) simp_all
    moreover have "hm_size m' = int (\<Sum>i<hm_heads m'. length (hm_nodes m' t i))" using ok unfolding hm_ok_def by blast
    ultimately show ?thesis by (simp only: tuya_hashmap_length_def h option.case)
  qed
  have legal: "hm_entries str m' t k = mm_spec 0 str ops (\<lambda>_. []) k"
    if l: "mm_legal str 0 ops (insert 0 (elive s')) (\<lambda>_. [])" for k
  proof -
    have e: "hm_entries str m s' = (\<lambda>_. [])" using new(2) by (simp add: fun_eq_iff)
    obtain u where u: "mm_run (hm_add str) (hm_del str) ops (m, s') = Some u"
      "hm_entries str (fst u) (snd u) = mm_spec 0 str ops (\<lambda>_. [])"
      using hm.run_entries [of str "(m, s')" "insert 0 (elive s')" ops] new(1) l e by fastforce
    then show ?thesis using legal_run [OF u(1)] t(1) by auto
  qed
  show ?thesis
    using t(1) len hashmap_get_entries [OF ok] hashmap_for_each_entries [OF ok] legal
    by (intro exI [of _ m'] exI [of _ t] exI [of _ ?B]) (simp add: x Let_def)
qed

definition eg_str :: cstr where
  "eg_str p = (if p = 1 then [97] else if p = 2 then [98] else [])"

definition eg_heap :: hm_heap where
  "eg_heap = \<lparr>hs = \<lparr>hfirst = (\<lambda>a. if a = 100 then 10 else 0), hnext = (\<lambda>_. 0), hpprev = (\<lambda>_. PFirst 100)\<rparr>,
     ekey = (\<lambda>_. 1), edata = (\<lambda>_. 5), elive = {10}\<rparr>"

definition eg_map :: hashmap where
  "eg_map = \<lparr>hm_size = 1, hm_table_size = 1, hm_list = 100, hm_heads = 1\<rparr>"

theorem hashmap_history_witness:
  "\<exists>m n s' m' t. tuya_hashmap_new 1 True 100 eg_heap = (Some m, n, s') \<and>
     map_run eg_str [Add 11 1 5, Add 12 2 6, Add 0 2 9, Add 13 1 7, Del 1 0, Del 2 8] m s' =
       Some ([MAP_OK, MAP_OK, MAP_OMEM, MAP_OK, MAP_OK, MAP_OK], m', t) \<and>
     tuya_hashmap_get eg_str m' 1 t = Some (MAP_MISSING, 0) \<and> tuya_hashmap_get eg_str m' 2 t = Some (MAP_OK, 6) \<and>
     tuya_hashmap_length (Some m') = 1"
proof -
  obtain m n s' where new: "tuya_hashmap_new 1 True 100 eg_heap = (Some m, n, s')" "elive s' = {10}"
    by (auto simp: tuya_hashmap_new_def eg_heap_def Let_def)
  let ?ops = "[Add 11 1 5, Add 12 2 6, Add 0 2 9, Add 13 1 7, Del 1 0, Del 2 8] :: (nat, nat, nat) mm_op list"
  let ?r = "map_spec (\<lambda>k. unat (hashmap_hash_int 1 k)) eg_str ?ops (\<lambda>_. [])"
  have h: "unat (hashmap_hash_int 1 k) = 0" for k by (simp add: hashmap_hash_int_def Let_def)
  have s: "eg_str 1 = [97]" "eg_str 2 = [98]" by (simp_all add: eg_str_def)
  have r: "fst ?r = [MAP_OK, MAP_OK, MAP_OMEM, MAP_OK, MAP_OK, MAP_OK]" "snd ?r 0 = [([98], 6)]"
    by (simp_all add: h s bucket_remove_def extract_def)
  have one: "0 < unat (1 :: u32)" "unat (1 :: u32) < 2 ^ 30" "(100 :: nat) \<noteq> 0" by simp_all
  have "fresh_adds ?ops (elive s')" by (simp add: new(2))
  from hashmap_history [where str = eg_str, OF new(1) one this] obtain m' t B where
    1: "map_run eg_str ?ops m s' = Some (fst ?r, m', t)" and 2: "B = snd ?r" and
    3: "tuya_hashmap_length (Some m') = int (\<Sum>i<unat (1::u32). length (B i))" and
    4: "\<forall>key. let xs = map snd (filter (\<lambda>p. fst p = eg_str key) (B (unat (hashmap_hash_int 1 (eg_str key)))))
        in tuya_hashmap_get eg_str m' key t = Some (case xs of [] \<Rightarrow> (MAP_MISSING, 0) | d # _ \<Rightarrow> (MAP_OK, d)) \<and>
           hashmap_for_each eg_str m' key 0 t = Some xs \<and>
           (mm_legal eg_str 0 ?ops (insert 0 (elive s')) (\<lambda>_. []) \<longrightarrow> xs = mm_spec 0 eg_str ?ops (\<lambda>_. []) (eg_str key))"
    by (elim exE conjE) (rule that)
  have b0: "B 0 = [([98], 6)]" unfolding 2 by (rule r(2))
  have "tuya_hashmap_get eg_str m' 1 t = Some (MAP_MISSING, 0)" "tuya_hashmap_get eg_str m' 2 t = Some (MAP_OK, 6)"
    using spec [OF 4, of 1] spec [OF 4, of 2] unfolding h Let_def s b0 by (simp_all del: One_nat_def)
  moreover have "tuya_hashmap_length (Some m') = 1" using 3 b0 by simp
  ultimately show ?thesis using new(1) 1 r(1) by metis
qed

lemma eg_map_ok: "hm_ok eg_str eg_map eg_heap" and eg_map_nodes: "hm_nodes eg_map eg_heap 0 = [10]"
proof -
  have l: "hlist (hs eg_heap) 100 [10]" by (simp add: hlist_def eg_heap_def)
  then show n: "hm_nodes eg_map eg_heap 0 = [10]"
    using hm_nodes_eq [of eg_heap eg_map 0 "[10]"] by (simp add: eg_map_def)
  have h: "hashmap_hash_int 1 k = 0" for k
    by (simp add: hashmap_hash_int_def Let_def)
  show "hm_ok eg_str eg_map eg_heap"
    using l n by (simp add: hm_ok_def) (simp add: eg_map_def eg_heap_def h)
qed

lemma hash_table_1: "hashmap_hash_int 1 k = 0"
  by (simp add: hashmap_hash_int_def Let_def)

text \<open>
  C16. The outcome of \<^verbatim>\<open>tuya_hashmap_remove\<close> when the key is there (with the given data, or with
  any data when \<^verbatim>\<open>data\<close> is \<^verbatim>\<open>NULL\<close>): it returns \<open>MAP_OK\<close>, the first matching element (the
  most recent one) is taken out and just it is freed, the length drops by one, every other key keeps its
  values, and the map stays well formed.
\<close>

theorem hashmap_remove_existing:
  assumes "hm_ok str m s"
    and "if data = 0 then hm_entries str m s (str key) \<noteq> [] else data \<in> set (hm_entries str m s (str key))"
  shows "\<exists>m' t. tuya_hashmap_remove str m key data s = Some (MAP_OK, m', t) \<and> hm_ok str m' t \<and>
     tuya_hashmap_length (Some m') = tuya_hashmap_length (Some m) - 1 \<and>
     (\<exists>e\<in>elive s. elive t = elive s - {e} \<and> str (ekey s e) = str key \<and> (data = 0 \<or> edata s e = data)) \<and>
     hm_entries str m' t = (hm_entries str m s)(str key :=
        (if data = 0 then tl (hm_entries str m s (str key))
         else remove1 data (hm_entries str m s (str key))))"
  using hashmap_remove_present [OF assms] by (simp add: tuya_hashmap_length_def)

theorem hashmap_remove_existing_witness:
  "\<exists>m' t. tuya_hashmap_remove eg_str eg_map 1 5 eg_heap = Some (MAP_OK, m', t) \<and>
     tuya_hashmap_length (Some m') = 0 \<and> hm_entries eg_str m' t [97] = []"
proof -
  have e: "hm_entries eg_str eg_map eg_heap (eg_str 1) = [5]"
    using eg_map_nodes by (simp add: hm_entries_def eg_map_def hash_table_1) (simp add: eg_heap_def)
  have s: "eg_str (Suc 0) = [97]" by (simp add: eg_str_def)
  have l: "tuya_hashmap_length (Some eg_map) = 1" by (simp add: tuya_hashmap_length_def eg_map_def)
  show ?thesis using hashmap_remove_existing [OF eg_map_ok, of 5 1] e l by (auto simp: s)
qed

text \<open>
  C17. Removing a key that is not in the map (or a value it does not have). When the key's bucket
  is empty the answer is \<open>MAP_MISSING\<close> and nothing changes. When the bucket holds other keys the
  call does not report the key as missing: it returns \<open>MAP_OK\<close>, frees the last element of the
  bucket and so loses the oldest value of some other entry of the map.
\<close>

theorem hashmap_remove_missing:
  assumes "hm_ok str m s"
    and "if data = 0 then hm_entries str m s (str key) = [] else data \<notin> set (hm_entries str m s (str key))"
  shows "if hm_nodes m s (hm_hash m (str key)) = []
     then tuya_hashmap_remove str m key data s = Some (MAP_MISSING, m, s)
     else \<exists>m' t k. tuya_hashmap_remove str m key data s = Some (MAP_OK, m', t) \<and> hm_ok str m' t \<and>
       tuya_hashmap_length (Some m') = tuya_hashmap_length (Some m) - 1 \<and>
       hm_entries str m s k \<noteq> [] \<and> hm_hash m k = hm_hash m (str key) \<and>
       hm_entries str m' t = (hm_entries str m s)(k := butlast (hm_entries str m s k))"
proof (cases "hm_nodes m s (hm_hash m (str key)) = []")
  case True
  then show ?thesis using hashmap_remove_victim(1) [OF assms(1), of key data]
    by (simp add: hm_victim_def)
next
  case False
  then show ?thesis using hashmap_remove_absent [OF assms False]
    by (simp add: tuya_hashmap_length_def)
qed

theorem hashmap_remove_missing_witness:
  "hm_entries eg_str eg_map eg_heap (eg_str 2) = [] \<and> hm_entries eg_str eg_map eg_heap (eg_str 1) = [5] \<and>
   (\<exists>m' t. tuya_hashmap_remove eg_str eg_map 2 0 eg_heap = Some (MAP_OK, m', t) \<and>
      tuya_hashmap_length (Some m') = 0)"
proof -
  have e: "hm_entries eg_str eg_map eg_heap (eg_str 2) = []" "hm_entries eg_str eg_map eg_heap (eg_str 1) = [5]"
    using eg_map_nodes by (simp_all add: hm_entries_def eg_map_def hash_table_1) (simp_all add: eg_heap_def eg_str_def)
  have n: "hm_nodes eg_map eg_heap (hm_hash eg_map (eg_str 2)) \<noteq> []"
    using eg_map_nodes by (simp add: eg_map_def hash_table_1)
  have l: "tuya_hashmap_length (Some eg_map) = 1" by (simp add: tuya_hashmap_length_def eg_map_def)
  show ?thesis using hashmap_remove_missing [OF eg_map_ok, of 0 2] e n l by auto
qed

text \<open>
  C18. The table-driven checksum of the hash (\<^verbatim>\<open>__crc32_hashmap\<close>, one lookup per byte in the
  256-entry table) is the serial CRC-32 with the reflected polynomial \<^verbatim>\<open>$edb88320\<close> that the comment
  of the table describes, for every byte string.
\<close>

theorem crc32_hashmap_serial: "crc32_hashmap bs = crc_serial bs 0"
  by (simp add: crc32_hashmap_def crc32_loop_serial)

text \<open>
  Creating a map with at least \<open>2 ^ 30\<close> buckets: the byte size of the head array wraps in 32
  bits, so the map that is returned has fewer heads than its table size says, and with exactly
  \<open>2 ^ 30\<close> buckets it has none, so that every insertion writes outside the array.
\<close>

theorem hashmap_new_size_wraps:
  assumes "2 ^ 30 \<le> unat ts" and "l \<noteq> 0"
  shows "\<exists>m t. tuya_hashmap_new ts True l s = (Some m, 2, t) \<and> hm_table_size m = ts \<and>
     hm_heads m < unat ts \<and> (e \<noteq> 0 \<and> unat ts = 2 ^ 30 \<longrightarrow> tuya_hashmap_put str m key data e t = None)"
proof -
  have "ts \<noteq> 0" using assms(1) by auto
  have heads: "unat (ts * 4) div 4 < 2 ^ 30" using unsigned_less [of "ts * 4", where ?'a = nat] by simp
  have zero: "unat ts = 2 ^ 30 \<Longrightarrow> unat (ts * 4) div 4 = 0" by (simp add: unat_word_ariths)
  show ?thesis
    using assms heads zero \<open>ts \<noteq> 0\<close>
    by (auto simp: tuya_hashmap_new_def Let_def tuya_hashmap_put_def hm_bucket_def)
qed

theorem hashmap_new_size_wraps_witness:
  "\<exists>m t. tuya_hashmap_new 0x40000000 True 100 eg_heap = (Some m, 2, t) \<and> tuya_hashmap_put eg_str m 1 5 11 t = None"
  using hashmap_new_size_wraps [where ts = 1073741824 and l = 100 and s = eg_heap and e = 11
      and str = eg_str and key = 1 and data = 5] by auto

end
