(* ===== verification/Tools.thy ===== *)
theory Tools
  imports Prelude "HOL-Library.List_Lexorder" "HOL-Library.Signed_Division"
begin

text \<open>
  The byte, string and integer helpers of \<^verbatim>\<open>utilities/src/tuya_tools.c\<close>. A buffer is the
  list of the bytes of its object; a C string is a buffer with a zero byte in it. An index
  outside the object is \<open>None\<close>.
\<close>

section \<open>Strings\<close>

definition c_tolower :: "u8 \<Rightarrow> int" where
  "c_tolower c = (if 65 \<le> uint c \<and> uint c \<le> 90 then uint c - 65 + 97 else uint c)"

fun c_strlen :: "u8 list \<Rightarrow> nat option" where
  "c_strlen [] = None"
| "c_strlen (c # cs) = (if c = 0 then Some 0 else map_option Suc (c_strlen cs))"

definition tuya_strlen :: "u8 list \<Rightarrow> nat option" where
  "tuya_strlen str = c_strlen str"

definition tuya_strcpy :: "u8 list \<Rightarrow> u8 list \<Rightarrow> u8 list option" where
  "tuya_strcpy dst src = do { n \<leftarrow> c_strlen src; memcpy dst 0 src 0 (n + 1) }"

definition tuya_strcat :: "u8 list \<Rightarrow> u8 list \<Rightarrow> u8 list option" where
  "tuya_strcat dst src = do { d \<leftarrow> c_strlen dst; n \<leftarrow> c_strlen src; memcpy dst d src 0 (n + 1) }"

fun strncasecmp_loop :: "u8 list \<Rightarrow> u8 list \<Rightarrow> nat \<Rightarrow> nat \<Rightarrow> int option" where
  "strncasecmp_loop (x # p1) (y # p2) cnt n =
     (let result = c_tolower x - c_tolower y
      in if result \<noteq> 0 then Some result
         else let cnt = cnt + 1
              in if n \<le> cnt then Some result
                 else if x = 0 then Some (- 1)
                 else if y = 0 then Some 1
                 else strncasecmp_loop p1 p2 cnt n)"
| "strncasecmp_loop _ _ cnt n = None"

text \<open>\<open>same\<close>: the two pointers are equal.\<close>

definition tuya_strncasecmp :: "bool \<Rightarrow> u8 list \<Rightarrow> u8 list \<Rightarrow> nat \<Rightarrow> int option" where
  "tuya_strncasecmp same s1 s2 n = (if same then Some 0 else strncasecmp_loop s1 s2 0 n)"

fun strcmp_loop :: "u8 list \<Rightarrow> u8 list \<Rightarrow> int option" where
  "strcmp_loop (s # src) (d # dst) =
     (let ret = uint s - uint d
      in if ret = 0 \<and> d \<noteq> 0 then strcmp_loop src dst else Some ret)"
| "strcmp_loop _ _ = None"

definition tuya_strcmp :: "u8 list \<Rightarrow> u8 list \<Rightarrow> int option" where
  "tuya_strcmp src dst =
     do { ret \<leftarrow> strcmp_loop src dst;
          Some (if ret < 0 then - 1 else if ret > 0 then 1 else ret) }"

text \<open>\<open>str = None\<close> is \<^verbatim>\<open>NULL\<close>; the loop runs down from \<open>i\<close> while \<open>i \<ge> 0\<close>.\<close>

fun find_char_down :: "u8 list \<Rightarrow> u8 \<Rightarrow> nat \<Rightarrow> int option" where
  "find_char_down str ch 0 = Some (- 2)"
| "find_char_down str ch (Suc i) =
     do { c \<leftarrow> aget str i; if c = ch then Some (int i) else find_char_down str ch i }"

definition tuya_find_char_with_reverse_idx :: "u8 list option \<Rightarrow> int \<Rightarrow> u8 \<Rightarrow> int option" where
  "tuya_find_char_with_reverse_idx str index ch =
     (case str of
        None \<Rightarrow> Some (- 1)
      | Some str \<Rightarrow> do {
          len \<leftarrow> c_strlen str;
          if index \<ge> int len then Some (- 1)
          else find_char_down str ch (nat (int len - 1 - index + 1))
        })"

section \<open>Hexadecimal and decimal text\<close>

definition tuya_asc2hex :: "u8 \<Rightarrow> u8" where
  "tuya_asc2hex asccode =
     (if 48 \<le> asccode \<and> asccode \<le> 57 then asccode - 48
      else if 97 \<le> asccode \<and> asccode \<le> 102 then asccode - 97 + 10
      else if 65 \<le> asccode \<and> asccode \<le> 70 then asccode - 65 + 10
      else 0)"

text \<open>The loop counter \<^verbatim>\<open>i\<close> of the code is \<open>2 * k\<close> in round \<open>k\<close>.\<close>

definition tuya_ascs2hex :: "u8 list \<Rightarrow> u8 list \<Rightarrow> int \<Rightarrow> u8 list option" where
  "tuya_ascs2hex hex ascs srclen =
     (let lenstr = (if srclen smod 2 \<noteq> 0 then srclen - srclen smod 2 else srclen)
      in if lenstr = 0 then Some hex
         else for_range 0 (nat lenstr div 2) (\<lambda>k hex. do {
                a \<leftarrow> aget ascs (2 * k);
                b \<leftarrow> aget ascs (2 * k + 1);
                let h4 = tuya_asc2hex a;
                let l4 = tuya_asc2hex b;
                aset hex k (push_bit 4 h4 + l4)
              }) hex)"

definition tuya_hex2str :: "u8 list \<Rightarrow> u8 list \<Rightarrow> nat \<Rightarrow> u8 list option" where
  "tuya_hex2str str hex hexlen =
     do {
       str \<leftarrow> for_range 0 hexlen (\<lambda>i str. do {
                h \<leftarrow> aget hex i;
                let ddh = 48 + h div 16;
                let ddl = 48 + h mod 16;
                let ddh = (if ddh > 57 then ddh + 7 else ddh);
                let ddl = (if ddl > 57 then ddl + 7 else ddl);
                str \<leftarrow> aset str (i * 2) ddh;
                aset str (i * 2 + 1) ddl
              }) str;
       aset str (hexlen * 2) 0
     }"

text \<open>\<open>str2num_loop str i n value\<close>: \<open>n\<close> characters are left to read from index \<open>i\<close>.\<close>

fun str2num_loop :: "u8 list \<Rightarrow> nat \<Rightarrow> nat \<Rightarrow> u32 \<Rightarrow> u32 option option" where
  "str2num_loop str i 0 value = Some (Some value)"
| "str2num_loop str i (Suc n) value =
     do { c \<leftarrow> aget str i;
          if 48 \<le> c \<and> c \<le> 57 then str2num_loop str (i + 1) n (value * 10 + (ucast c - 48))
          else Some None }"

text \<open>The return value and the number stored through the pointer.\<close>

definition tuya_str2num :: "u32 \<Rightarrow> u8 list \<Rightarrow> u8 \<Rightarrow> (bool \<times> u32) option" where
  "tuya_str2num number str len =
     do { v \<leftarrow> str2num_loop str 0 (unat len) 0;
          Some (case v of Some value \<Rightarrow> (True, value) | None \<Rightarrow> (False, number)) }"

text \<open>
  The counter \<open>i\<close> is 8 bits wide and the bound \<^verbatim>\<open>index+len\<close> 32, so the loop need not end;
  \<open>None\<close> is an access outside the array or no result.
\<close>

partial_function (option) intArray2int_loop :: "u8 list \<Rightarrow> u32 \<Rightarrow> u8 \<Rightarrow> u32 \<Rightarrow> u32 option" where
  "intArray2int_loop intArray limit i num =
     (if ucast i < limit
      then do { d \<leftarrow> aget intArray (unat i); intArray2int_loop intArray limit (i + 1) (num * 10 + ucast d) }
      else Some num)"

declare intArray2int_loop.simps [code]

definition tuya_intArray2int :: "u8 list \<Rightarrow> u32 \<Rightarrow> u8 \<Rightarrow> u32 option" where
  "tuya_intArray2int intArray index len =
     (if ucast len \<le> index then Some (- 1)
      else intArray2int_loop intArray (index + ucast len) (ucast index) 0)"

definition tuya_buff_reverse :: "u8 list \<Rightarrow> u16 \<Rightarrow> u8 list option" where
  "tuya_buff_reverse buf len =
     for_range 0 (unat len div 2) (\<lambda>i buf. do {
       tmp \<leftarrow> aget buf i;
       b \<leftarrow> aget buf (unat len - 1 - i);
       buf \<leftarrow> aset buf i b;
       aset buf (unat len - 1 - i) tmp
     }) buf"

text \<open>\<open>digit_count tmp i\<close>: the \<^verbatim>\<open>do\<close> loop, the counter is 8 bits wide.\<close>

function digit_count :: "u32 \<Rightarrow> u8 \<Rightarrow> u8" where
  "digit_count tmp i = (let tmp = tmp div 10; i = i + 1 in if tmp \<noteq> 0 then digit_count tmp i else i)"
  by pat_completeness auto

termination
proof (relation "measure (\<lambda>(tmp, i). unat tmp)")
  fix tmp t :: u32 and i j :: u8
  assume "t = tmp div 10" "t \<noteq> 0"
  then show "((t, j), (tmp, i)) \<in> measure (\<lambda>(tmp, i). unat tmp)"
    by (cases "unat tmp = 0") (auto simp: unat_div word_unat_eq_iff)
qed simp

function digit_fill :: "u8 list \<Rightarrow> nat \<Rightarrow> u32 \<Rightarrow> (u8 list \<times> nat) option" where
  "digit_fill intArray i tmp =
     (if tmp \<noteq> 0
      then do { intArray \<leftarrow> aset intArray i (ucast (tmp mod 10)); digit_fill intArray (i + 1) (tmp div 10) }
      else Some (intArray, i))"
  by pat_completeness auto

termination
  by (relation "measure (\<lambda>(a, i, tmp). unat tmp)") (auto simp: unat_div word_unat_eq_iff)

definition tuya_int2intArray :: "u32 \<Rightarrow> u8 list \<Rightarrow> u8 \<Rightarrow> (u32 \<times> u8 list) option" where
  "tuya_int2intArray num intArray len =
     (if len < digit_count num 0 then Some (0, intArray)
      else do {
        (intArray, i) \<leftarrow> digit_fill intArray 0 num;
        intArray \<leftarrow> tuya_buff_reverse intArray (of_nat i);
        Some (of_nat i, intArray)
      })"

section \<open>Byte buffers and bits\<close>

definition tuya_data_reverse :: "u8 list \<Rightarrow> u8 list \<Rightarrow> u16 \<Rightarrow> u8 list option" where
  "tuya_data_reverse dst src srclen =
     for_range 0 (unat srclen) (\<lambda>i dst. do {
       b \<leftarrow> aget src (unat srclen - 1 - i);
       aset dst i b
     }) dst"

definition sort_step :: "bool \<Rightarrow> nat \<Rightarrow> u8 list \<Rightarrow> u8 list option" where
  "sort_step is_ascend i buf =
     do {
       x \<leftarrow> aget buf i;
       y \<leftarrow> aget buf (i + 1);
       if (if is_ascend then x > y else x < y)
       then do { buf \<leftarrow> aset buf i y; aset buf (i + 1) x }
       else Some buf
     }"

definition tuya_byte_sort :: "bool \<Rightarrow> u8 list \<Rightarrow> nat \<Rightarrow> u8 list option" where
  "tuya_byte_sort is_ascend buf len =
     for_range 1 (len - 1) (\<lambda>j buf. for_range 0 (len - j) (sort_step is_ascend) buf) buf"

function bit1_count_loop :: "u32 \<Rightarrow> u32 \<Rightarrow> u32" where
  "bit1_count_loop num cnt = (if num \<noteq> 0 then bit1_count_loop (num AND (num - 1)) (cnt + 1) else cnt)"
  by pat_completeness auto

termination
proof (relation "measure (\<lambda>(num, c). unat num)")
  fix num c :: u32
  assume "num \<noteq> 0"
  then have "unat (num - 1) < unat num" by (simp add: unat_minus_one unat_gt_0)
  moreover have "unat (num AND (num - 1)) \<le> unat (num - 1)"
    using word_and_le1 [of num "num - 1"] by (simp add: word_le_nat_alt)
  ultimately have "num AND (num - 1) < num" by (simp add: word_less_nat_alt)
  then show "((num AND (num - 1), c + 1), (num, c)) \<in> measure (\<lambda>(num, c). unat num)"
    by (simp add: word_less_nat_alt)
qed simp

definition tuya_bit1_count :: "u32 \<Rightarrow> u32" where
  "tuya_bit1_count num = bit1_count_loop num 0"

lemma top_bit_set: "temp AND 0x80000000 \<noteq> 0 \<longleftrightarrow> 2 ^ 31 \<le> unat temp" for temp :: u32
proof -
  have "(0x80000000 :: u32) = 2 ^ 31" by simp
  then have "temp AND 0x80000000 \<noteq> 0 \<longleftrightarrow> bit temp 31" by (simp only: and_exp_eq_0_iff_not_bit not_not)
  also have "\<dots> \<longleftrightarrow> odd (unat temp div 2 ^ 31)"
  proof -
    have "bit (unat temp) 31 = bit temp 31" by (simp add: bit_unsigned_iff)
    then show ?thesis by (simp add: bit_iff_odd)
  qed
  also have "\<dots> \<longleftrightarrow> 2 ^ 31 \<le> unat temp"
  proof -
    have "unat temp div 2 ^ 31 < 2" using unsigned_less [of temp, where ?'a = nat] by (simp add: div_less_iff_less_mult)
    then have "odd (unat temp div 2 ^ 31) \<longleftrightarrow> 1 \<le> unat temp div 2 ^ 31" by (auto simp: less_2_cases_iff)
    then show ?thesis by (simp add: less_eq_div_iff_mult_less_eq)
  qed
  finally show ?thesis .
qed

lemma unat_push_top: "2 ^ 31 \<le> unat temp \<Longrightarrow> unat (push_bit 1 temp) = 2 * unat temp - 2 ^ 32" for temp :: u32
  using unsigned_less [of temp, where ?'a = nat]
  by (simp add: push_bit_eq_mult unat_word_ariths mod_if) linarith

function leading_loop :: "u32 \<Rightarrow> u32 \<Rightarrow> u32" where
  "leading_loop temp cnt =
     (if temp AND 0x80000000 \<noteq> 0 then leading_loop (push_bit 1 temp) (cnt + 1) else cnt)"
  by pat_completeness auto

termination
proof (relation "measure (\<lambda>(temp, c). unat temp)")
  fix temp c :: u32
  assume "temp AND 0x80000000 \<noteq> 0"
  then have "2 ^ 31 \<le> unat temp" by (simp only: top_bit_set)
  then show "((push_bit 1 temp, c + 1), (temp, c)) \<in> measure (\<lambda>(temp, c). unat temp)"
    using unat_push_top [of temp] unsigned_less [of temp, where ?'a = nat] by simp
qed simp

definition tuya_leading_zeros_count :: "u32 \<Rightarrow> u32" where
  "tuya_leading_zeros_count num = leading_loop (NOT num) 0"

definition tuya_check_sum8 :: "u8 list \<Rightarrow> nat \<Rightarrow> u8 option" where
  "tuya_check_sum8 buf len = for_range 0 len (\<lambda>idx sum. do { b \<leftarrow> aget buf idx; Some (sum + b) }) 0"

definition tuya_check_sum16 :: "u8 list \<Rightarrow> nat \<Rightarrow> u16 option" where
  "tuya_check_sum16 buf len = for_range 0 len (\<lambda>idx sum. do { b \<leftarrow> aget buf idx; Some (sum + ucast b) }) 0"

section \<open>Buffers\<close>

lemma buff_reverse_rev:
  assumes "unat len \<le> length buf"
  shows "tuya_buff_reverse buf len = Some (rev (take (unat len) buf) @ drop (unat len) buf)"
proof -
  let ?n = "unat len"
  let ?f = "\<lambda>i buf. do { tmp \<leftarrow> aget buf i; b \<leftarrow> aget buf (?n - 1 - i); buf \<leftarrow> aset buf i b;
     aset buf (?n - 1 - i) tmp }"
  define P where "P i b \<longleftrightarrow> length b = length buf \<and> (\<forall>k<length buf. b ! k =
     (if k < i \<or> ?n - i \<le> k \<and> k < ?n then buf ! (?n - 1 - k) else buf ! k))" for i b
  have "\<exists>t. for_range 0 (?n div 2) ?f buf = Some t \<and> P (0 + ?n div 2) t"
  proof (rule for_range_inv)
    fix k s assume k: "k < 0 + ?n div 2" and P: "P k s"
    then have len: "length s = length buf" "k < length buf" "?n - 1 - k < length buf" "k < ?n - 1 - k"
      using assms by (auto simp: P_def)
    have "\<not> ?n - k \<le> k" "?n - 1 - k < ?n - k" "\<not> ?n - 1 - k < k" using k by linarith+
    then have sk: "s ! k = buf ! k" "s ! (?n - 1 - k) = buf ! (?n - 1 - k)"
      using P k len by (simp_all add: P_def)
    have "P (Suc k) (s[k := buf ! (?n - 1 - k), ?n - 1 - k := buf ! k])"
      unfolding P_def
    proof (intro conjI allI impI)
      fix j assume j: "j < length buf"
      have "s ! j = (if j < k \<or> ?n - k \<le> j \<and> j < ?n then buf ! (?n - 1 - j) else buf ! j)"
        using P j by (simp add: P_def)
      then show "s[k := buf ! (?n - 1 - k), ?n - 1 - k := buf ! k] ! j =
          (if j < Suc k \<or> ?n - Suc k \<le> j \<and> j < ?n then buf ! (?n - 1 - j) else buf ! j)"
        using len j k by (auto simp: nth_list_update less_Suc_eq)
    qed (simp add: len)
    then show "\<exists>t. ?f k s = Some t \<and> P (Suc k) t"
      using len sk by (simp add: chk_simps)
  qed (auto simp: P_def)
  then obtain t where t: "for_range 0 (?n div 2) ?f buf = Some t" "P (?n div 2) t" by auto
  have "t = rev (take ?n buf) @ drop ?n buf"
  proof (rule nth_equalityI)
    fix j assume "j < length t"
    then have j: "j < length buf" using t(2) by (simp add: P_def)
    have mid: "buf ! j = buf ! (?n - 1 - j)" if "\<not> j < ?n div 2" "j < ?n - ?n div 2"
    proof -
      have "?n - 1 - j = j" using that by linarith
      then show ?thesis by simp
    qed
    have "t ! j = (if j < ?n then buf ! (?n - 1 - j) else buf ! j)"
      using t(2) j mid by (auto simp: P_def)
    then show "t ! j = (rev (take ?n buf) @ drop ?n buf) ! j"
      using j assms by (auto simp: nth_append rev_nth)
  qed (use t(2) assms in \<open>simp add: P_def\<close>)
  then show ?thesis using t(1) by (simp add: tuya_buff_reverse_def)
qed

lemma data_reverse_rev:
  assumes "unat n \<le> length src" and "unat n \<le> length dst"
  shows "tuya_data_reverse dst src n = Some (rev (take (unat n) src) @ drop (unat n) dst)"
proof -
  let ?n = "unat n"
  let ?f = "\<lambda>i dst. do { b \<leftarrow> aget src (?n - 1 - i); aset dst i b }"
  have "\<exists>t. for_range 0 ?n ?f dst = Some t \<and>
      t = take (0 + ?n) (rev (take ?n src)) @ drop (0 + ?n) dst"
  proof (rule for_range_inv)
    fix k s assume k: "k < 0 + ?n" and s: "s = take k (rev (take ?n src)) @ drop k dst"
    have "?f k s = Some (s[k := src ! (?n - 1 - k)])"
      using k assms s by (simp add: chk_simps)
    moreover have "s[k := src ! (?n - 1 - k)] = take (Suc k) (rev (take ?n src)) @ drop (Suc k) dst"
      using k assms by (simp add: s list_update_append take_Suc_conv_app_nth rev_nth
          flip: Cons_nth_drop_Suc [of k dst])
    ultimately show "\<exists>t. ?f k s = Some t \<and> t = take (Suc k) (rev (take ?n src)) @ drop (Suc k) dst" by simp
  qed simp
  then show ?thesis using assms by (auto simp: tuya_data_reverse_def)
qed

lemma check_sum8_sum: "len \<le> length buf \<Longrightarrow> tuya_check_sum8 buf len = Some (sum_list (take len buf))"
proof -
  assume l: "len \<le> length buf"
  have "\<exists>t. for_range 0 len (\<lambda>idx sum. do { b \<leftarrow> aget buf idx; Some (sum + b) }) 0 = Some t \<and>
      t = sum_list (take (0 + len) buf)"
    using l by (intro for_range_inv) (auto simp: chk_simps take_Suc_conv_app_nth)
  then show ?thesis by (simp add: tuya_check_sum8_def)
qed

lemma check_sum16_sum:
  "len \<le> length buf \<Longrightarrow> tuya_check_sum16 buf len = Some (sum_list (map ucast (take len buf)))"
proof -
  assume l: "len \<le> length buf"
  have "\<exists>t. for_range 0 len (\<lambda>idx sum. do { b \<leftarrow> aget buf idx; Some (sum + ucast b) }) 0 = Some t \<and>
      t = sum_list (map ucast (take (0 + len) buf))"
    using l by (intro for_range_inv) (auto simp: chk_simps take_Suc_conv_app_nth)
  then show ?thesis by (simp add: tuya_check_sum16_def)
qed

section \<open>Hexadecimal text\<close>

definition hex_digit :: "u8 \<Rightarrow> u8" where
  "hex_digit d = (if d + 48 > 57 then d + 48 + 7 else d + 48)"

definition hex_text :: "u8 list \<Rightarrow> u8 list" where
  "hex_text bs = concat (map (\<lambda>b. [hex_digit (b div 16), hex_digit (b mod 16)]) bs)"

lemma length_hex_text: "length (hex_text bs) = 2 * length bs"
  by (induction bs) (simp_all add: hex_text_def)

lemma hex_text_snoc: "hex_text (bs @ [b]) = hex_text bs @ [hex_digit (b div 16), hex_digit (b mod 16)]"
  by (simp add: hex_text_def)

lemma asc2hex_hex_digit: "d < 16 \<Longrightarrow> tuya_asc2hex (hex_digit d) = d"
proof -
  assume "d < 16"
  then have "unat d < 16" by (simp add: word_less_nat_alt)
  then have "d \<in> set (map word_of_nat [0..<16])" by (force simp del: upt_rec_numeral)
  moreover have "list_all (\<lambda>d. tuya_asc2hex (hex_digit d) = d) (map word_of_nat [0..<16])"
    by code_simp
  ultimately show ?thesis by (auto simp add: list_all_iff simp del: upt_rec_numeral)
qed

lemma hex2str_text:
  assumes "n \<le> length hex" and "2 * n < length str"
  shows "tuya_hex2str str hex n = Some (hex_text (take n hex) @ 0 # drop (2 * n + 1) str)"
proof -
  let ?f = "\<lambda>i str. do { h \<leftarrow> aget hex i; let ddh = 48 + h div 16; let ddl = 48 + h mod 16;
     let ddh = (if ddh > 57 then ddh + 7 else ddh); let ddl = (if ddl > 57 then ddl + 7 else ddl);
     str \<leftarrow> aset str (i * 2) ddh; aset str (i * 2 + 1) ddl }"
  have "\<exists>t. for_range 0 n ?f str = Some t \<and>
      t = hex_text (take (0 + n) hex) @ drop (2 * (0 + n)) str"
  proof (rule for_range_inv)
    fix k s assume k: "k < 0 + n" and s: "s = hex_text (take k hex) @ drop (2 * k) str"
    obtain x y rest where d: "drop (2 * k) str = x # y # rest" "rest = drop (2 * Suc k) str"
    proof -
      have "2 * k < length str" "Suc (2 * k) < length str" using k assms by auto
      then have "drop (2 * k) str = str ! (2 * k) # str ! Suc (2 * k) # drop (2 * Suc k) str"
        by (simp add: Cons_nth_drop_Suc)
      then show thesis using that by blast
    qed
    have l: "length (hex_text (take k hex)) = k * 2" using k assms by (simp add: length_hex_text)
    have t: "take (Suc k) hex = take k hex @ [hex ! k]" using k assms by (simp add: take_Suc_conv_app_nth)
    have "?f k s = Some (s[k * 2 := hex_digit (hex ! k div 16), k * 2 + 1 := hex_digit (hex ! k mod 16)])"
      using k assms s l d by (simp add: chk_simps hex_digit_def Let_def add.commute)
    then show "\<exists>t. ?f k s = Some t \<and> t = hex_text (take (Suc k) hex) @ drop (2 * Suc k) str"
      using s d l by (simp add: t hex_text_snoc list_update_append)
  qed (simp add: hex_text_def)
  then obtain t where t: "for_range 0 n ?f str = Some t" "t = hex_text (take n hex) @ drop (2 * n) str"
    by auto
  have l: "length (hex_text (take n hex)) = n * 2" using assms by (simp add: length_hex_text)
  obtain x rest where d: "drop (2 * n) str = x # rest" "rest = drop (2 * n + 1) str"
    using assms(2) by (metis Cons_nth_drop_Suc Suc_eq_plus1)
  show ?thesis unfolding tuya_hex2str_def t(1) bind.bind_lunit
    using t(2) d l by (simp add: chk_simps list_update_append)
qed

lemma ascs2hex_hex_text:
  assumes "length bs \<le> length out"
  shows "tuya_ascs2hex out (hex_text bs @ rest) (2 * int (length bs)) = Some (bs @ drop (length bs) out)"
proof -
  let ?n = "length bs" and ?a = "hex_text bs @ rest"
  let ?f = "\<lambda>k hex. do { a \<leftarrow> aget ?a (2 * k); b \<leftarrow> aget ?a (2 * k + 1);
     let h4 = tuya_asc2hex a; let l4 = tuya_asc2hex b; aset hex k (push_bit 4 h4 + l4) }"
  have nth: "?a ! (2 * k) = hex_digit (bs ! k div 16) \<and> ?a ! (2 * k + 1) = hex_digit (bs ! k mod 16)"
    if "k < ?n" for k
    using that
  proof (induction bs arbitrary: k)
    case (Cons b bs)
    then show ?case by (cases k) (auto simp: hex_text_def)
  qed simp
  have byte: "push_bit 4 (b div 16) + b mod 16 = b" "b div 16 < 16" "b mod 16 < 16" for b :: u8
    using div_mult_mod_eq [of b 16] unsigned_less [of b, where ?'a = nat]
    by (simp_all add: push_bit_eq_mult word_less_nat_alt unat_div unat_mod)
  have "\<exists>t. for_range 0 ?n ?f out = Some t \<and> t = take (0 + ?n) bs @ drop (0 + ?n) out"
  proof (rule for_range_inv)
    fix k s assume k: "k < 0 + ?n" and s: "s = take k bs @ drop k out"
    have "2 * k + 1 < length ?a" using k by (simp add: length_hex_text)
    then have "?f k s = Some (s[k := bs ! k])"
      using k assms s nth [of k] by (simp add: chk_simps asc2hex_hex_digit byte)
    moreover have "s[k := bs ! k] = take (Suc k) bs @ drop (Suc k) out"
      using k assms by (simp add: s list_update_append take_Suc_conv_app_nth flip: Cons_nth_drop_Suc [of k out])
    ultimately show "\<exists>t. ?f k s = Some t \<and> t = take (Suc k) bs @ drop (Suc k) out" by simp
  qed simp
  moreover have "(2 * int ?n) smod 2 = 0" by (simp add: signed_modulo_int_def)
  moreover have "nat (2 * int ?n) div 2 = ?n" by simp
  ultimately show ?thesis unfolding tuya_ascs2hex_def by (cases bs) auto
qed

section \<open>Decimal digits\<close>

definition dec_value :: "u8 list \<Rightarrow> u32" where
  "dec_value ds = foldl (\<lambda>v d. v * 10 + ucast d) 0 ds"

lemma str2num_loop_digits:
  "i + n \<le> length str \<Longrightarrow> \<forall>c\<in>set (take n (drop i str)). 48 \<le> c \<and> c \<le> 57 \<Longrightarrow>
   str2num_loop str i n v = Some (Some (foldl (\<lambda>v c. v * 10 + (ucast c - 48)) v (take n (drop i str))))"
proof (induction n arbitrary: i v)
  case (Suc n)
  have d: "drop i str = str ! i # drop (Suc i) str" using Suc.prems(1) by (simp add: Cons_nth_drop_Suc)
  then show ?case using Suc by (simp add: chk_simps)
qed simp

lemma str2num_loop_reject:
  "k < n \<Longrightarrow> i + k < length str \<Longrightarrow> \<forall>j<k. 48 \<le> str ! (i + j) \<and> str ! (i + j) \<le> 57 \<Longrightarrow>
   \<not> (48 \<le> str ! (i + k) \<and> str ! (i + k) \<le> 57) \<Longrightarrow> str2num_loop str i n v = Some None"
proof (induction n arbitrary: i k v)
  case (Suc n)
  show ?case
  proof (cases k)
    case 0
    then show ?thesis using Suc.prems by (auto simp: chk_simps)
  next
    case (Suc k')
    have h: "48 \<le> str ! i \<and> str ! i \<le> 57" using Suc.prems(3) Suc by (metis add.right_neutral zero_less_Suc)
    have "str2num_loop str (Suc i) n w = Some None" for w
      using Suc.prems Suc by (intro Suc.IH [of k']) auto
    then show ?thesis using h Suc.prems(2) by (simp add: chk_simps)
  qed
qed simp

lemma intArray2int_loop_range:
  "unat i \<le> m \<Longrightarrow> m \<le> length a \<Longrightarrow> m \<le> 255 \<Longrightarrow>
   intArray2int_loop a (of_nat m) i v = Some (foldl (\<lambda>v d. v * 10 + ucast d) v (take (m - unat i) (drop (unat i) a)))"
proof (induction "m - unat i" arbitrary: i v)
  case 0
  then have "\<not> (ucast i :: u32) < of_nat m"
    by (simp add: word_less_nat_alt unat_of_nat)
  then show ?case using 0 by (subst intArray2int_loop.simps) simp
next
  case (Suc k)
  have i: "unat i < m" "unat i < length a" using Suc.hyps(2) Suc.prems by linarith+
  then have lt: "(ucast i :: u32) < of_nat m"
    using Suc.prems(3) by (simp add: word_less_nat_alt unat_of_nat unat_ucast_u8)
  have i1: "unat (i + 1) = Suc (unat i)"
    using i Suc.prems(3) by (simp add: unat_word_ariths)
  have d: "drop (unat i) a = a ! unat i # drop (Suc (unat i)) a" using i by (simp add: Cons_nth_drop_Suc)
  have "take (m - unat i) (drop (unat i) a) = a ! unat i # take (m - unat (i + 1)) (drop (unat (i + 1)) a)"
    using i by (simp add: d i1 take_Cons' Suc_diff_Suc)
  moreover have "intArray2int_loop a (of_nat m) (i + 1) w =
      Some (foldl (\<lambda>v d. v * 10 + ucast d) w (take (m - unat (i + 1)) (drop (unat (i + 1)) a)))" for w
    using Suc.hyps(2) Suc.prems i i1 by (intro Suc.hyps(1)) simp_all
  ultimately show ?case using lt i by (subst intArray2int_loop.simps) (simp add: chk_simps)
qed

text \<open>The decimal digits of a number, most significant first; none for 0.\<close>

function dec_digits :: "u32 \<Rightarrow> u8 list" where
  "dec_digits n = (if n = 0 then [] else dec_digits (n div 10) @ [ucast (n mod 10)])"
  by pat_completeness auto

termination
  by (relation "measure unat") (auto simp: unat_div word_unat_eq_iff)

declare dec_digits.simps [simp del] digit_count.simps [simp del] digit_fill.simps [simp del]

lemma dec_value_digits: "dec_value (dec_digits n) = n"
proof (induction n rule: dec_digits.induct)
  case (1 n)
  show ?case
  proof (cases "n = 0")
    case True
    then show ?thesis by (simp add: dec_digits.simps dec_value_def)
  next
    case False
    have "ucast (ucast (n mod 10) :: u8) = n mod 10"
    proof -
      have "unat n mod 10 < 256" by (rule less_le_trans [of _ 10]) simp_all
      then show ?thesis by (simp add: word_unat_eq_iff take_bit_eq_mod unsigned_ucast_eq unat_mod)
    qed
    then show ?thesis using 1 False
      by (subst dec_digits.simps) (simp add: dec_value_def div_mult_mod_eq)
  qed
qed

lemma length_dec_digits: "unat n < 10 ^ k \<Longrightarrow> length (dec_digits n) \<le> k"
proof (induction k arbitrary: n)
  case 0
  then show ?case by (simp add: dec_digits.simps word_unat_eq_iff)
next
  case (Suc k)
  have "length (dec_digits (n div 10)) \<le> k"
    using Suc.prems by (intro Suc.IH) (simp add: unat_div less_mult_imp_div_less mult.commute)
  then show ?case by (subst dec_digits.simps) simp
qed

lemma length_dec_digits_10: "length (dec_digits n) \<le> 10"
  using length_dec_digits [of n 10] unsigned_less [of n, where ?'a = nat] by simp

lemma digit_count_length:
  "n \<noteq> 0 \<Longrightarrow> digit_count n i = i + of_nat (length (dec_digits n))"
proof (induction n i rule: digit_count.induct)
  case (1 n i)
  have d: "dec_digits n = dec_digits (n div 10) @ [ucast (n mod 10)]"
    using 1(2) by (simp add: dec_digits.simps)
  show ?case
  proof (cases "n div 10 = 0")
    case True
    then show ?thesis using d by (subst digit_count.simps) (simp add: dec_digits.simps [of 0])
  next
    case False
    then show ?thesis using 1(1) [OF refl refl False] d
      by (subst digit_count.simps) (simp add: Let_def algebra_simps)
  qed
qed

lemma digit_fill_digits:
  "i + length (dec_digits n) \<le> length a \<Longrightarrow>
   digit_fill a i n = Some (take i a @ rev (dec_digits n) @ drop (i + length (dec_digits n)) a, i + length (dec_digits n))"
proof (induction a i n rule: digit_fill.induct)
  case (1 a i n)
  show ?case
  proof (cases "n = 0")
    case True
    then show ?thesis by (simp add: digit_fill.simps dec_digits.simps)
  next
    case False
    have d: "dec_digits n = dec_digits (n div 10) @ [ucast (n mod 10)]"
      using False by (simp add: dec_digits.simps)
    have i: "i < length a" using 1(2) d by simp
    then have set: "aset a i (ucast (n mod 10)) = Some (a[i := ucast (n mod 10)])" by (simp add: chk_simps)
    have "digit_fill (a[i := ucast (n mod 10)]) (i + 1) (n div 10) =
      Some (take (i + 1) (a[i := ucast (n mod 10)]) @ rev (dec_digits (n div 10)) @
        drop (i + 1 + length (dec_digits (n div 10))) (a[i := ucast (n mod 10)]),
        i + 1 + length (dec_digits (n div 10)))"
      using 1(2) d by (intro 1(1) [OF False set]) simp
    moreover have "take (i + 1) (a[i := ucast (n mod 10)]) = take i a @ [ucast (n mod 10)]"
      using i by (simp add: take_Suc_conv_app_nth)
    ultimately show ?thesis using False set d
      by (subst digit_fill.simps) simp
  qed
qed

lemma int2intArray_digits:
  assumes "n \<noteq> 0" and "length (dec_digits n) \<le> unat len" and "unat len \<le> length a"
  shows "tuya_int2intArray n a len =
     Some (of_nat (length (dec_digits n)), dec_digits n @ drop (length (dec_digits n)) a)"
proof -
  let ?k = "length (dec_digits n)"
  have k: "?k \<le> 10" by (rule length_dec_digits_10)
  have cnt: "digit_count n 0 = of_nat ?k" using digit_count_length [OF assms(1), of 0] by simp
  have "\<not> len < digit_count n 0"
    using assms(2) k by (simp add: cnt word_less_nat_alt unat_of_nat)
  moreover have u: "unat (of_nat ?k :: u16) = ?k" using k by (simp add: unat_of_nat)
  moreover have "digit_fill a 0 n = Some (rev (dec_digits n) @ drop ?k a, ?k)"
    using digit_fill_digits [of 0 n a] assms by simp
  moreover have "tuya_buff_reverse (rev (dec_digits n) @ drop ?k a) (of_nat ?k) =
      Some (dec_digits n @ drop ?k a)"
    using buff_reverse_rev [of "of_nat ?k" "rev (dec_digits n) @ drop ?k a"] u by simp
  ultimately show ?thesis by (simp add: tuya_int2intArray_def)
qed

section \<open>Strings: lemmas\<close>

lemma c_strlen_app: "0 \<notin> set a \<Longrightarrow> c_strlen (a @ 0 # r) = Some (length a)"
  by (induction a) auto

lemma uint_eq_diff: "uint x - uint y = 0 \<longleftrightarrow> x = (y :: u8)"
  by (auto simp: word_uint_eq_iff)

lemma strcmp_loop_cmp:
  "0 \<notin> set a \<Longrightarrow> 0 \<notin> set b \<Longrightarrow>
   \<exists>r. strcmp_loop (a @ 0 # ra) (b @ 0 # rb) = Some r \<and>
     (r = 0 \<longleftrightarrow> a = b) \<and> (r < 0 \<longleftrightarrow> a < b)"
proof (induction a arbitrary: b)
  case Nil
  then show ?case
  proof (cases b)
    case (Cons y ys)
    then have "uint y > 0" using Nil by (simp add: word_neq_0_conv [symmetric] less_le uint_0_iff)
    then show ?thesis using Cons by simp
  qed simp
next
  case (Cons x xs)
  have x: "uint x > 0" using Cons.prems by (simp add: less_le uint_0_iff)
  show ?case
  proof (cases b)
    case Nil
    then show ?thesis using x by simp
  next
    case (Cons y ys)
    then show ?thesis
    proof (cases "x = y")
      case True
      then show ?thesis using Cons.IH [of ys] Cons.prems Cons by auto
    next
      case False
      then have "uint x \<noteq> uint y" by (simp add: word_uint_eq_iff)
      then show ?thesis using Cons False by (simp add: word_less_alt)
    qed
  qed
qed

lemma strncasecmp_loop_cmp:
  "0 \<notin> set a \<Longrightarrow> 0 \<notin> set b \<Longrightarrow> cnt < n \<Longrightarrow>
   \<exists>r. strncasecmp_loop (a @ 0 # ra) (b @ 0 # rb) cnt n = Some r \<and>
     (r = 0 \<longleftrightarrow> n \<le> cnt + length a + 1 \<and>
        map c_tolower (take (n - cnt) (a @ [0])) = map c_tolower (take (n - cnt) (b @ [0])))"
proof (induction a arbitrary: b cnt)
  case Nil
  obtain k where k: "n - cnt = Suc k" using Nil.prems(3) by (metis Suc_diff_Suc)
  have lo: "c_tolower y = c_tolower 0 \<longleftrightarrow> y = 0" for y
    by (auto simp: c_tolower_def uint_0_iff split: if_splits)
  show ?case
  proof (cases b)
    case Nil
    then show ?thesis using Nil.prems k by (auto simp: k)
  next
    case (Cons y ys)
    then have "y \<noteq> 0" using Nil.prems by auto
    then have "c_tolower y \<noteq> c_tolower 0" using lo by simp
    then show ?thesis using Cons k by auto
  qed
next
  case (Cons x xs)
  obtain k where k: "n - cnt = Suc k" "k = n - Suc cnt" using Cons.prems(3) by (metis Suc_diff_Suc)
  have lo: "c_tolower y = c_tolower 0 \<longleftrightarrow> y = 0" for y
    by (auto simp: c_tolower_def uint_0_iff split: if_splits)
  have x: "x \<noteq> 0" using Cons.prems by auto
  obtain y ys where b: "b @ [0] = y # ys" "b @ 0 # rb = y # (ys @ rb)" by (cases b) auto
  show ?case
  proof (cases "c_tolower x = c_tolower y")
    case False
    then show ?thesis by (simp add: b k)
  next
    case True
    then have "y \<noteq> 0" using lo [of x] x by auto
    then obtain b' where b': "b = y # b'" using b(1) by (cases b) auto
    show ?thesis
    proof (cases "Suc cnt < n")
      case False
      then have "n = Suc cnt" using Cons.prems(3) by simp
      then show ?thesis using True b' by (simp add: Let_def)
    next
      case 2: True
      have "0 \<notin> set xs" "0 \<notin> set b'" using Cons.prems b' by auto
      from Cons.IH [OF this 2] obtain r where
        "strncasecmp_loop (xs @ 0 # ra) (b' @ 0 # rb) (Suc cnt) n = Some r"
        "r = 0 \<longleftrightarrow> n \<le> Suc cnt + length xs + 1 \<and>
          map c_tolower (take (n - Suc cnt) (xs @ [0])) = map c_tolower (take (n - Suc cnt) (b' @ [0]))"
        by blast
      then show ?thesis using True 2 x \<open>y \<noteq> 0\<close> b' k by (simp add: Let_def)
    qed
  qed
qed

lemma find_char_down_spec:
  "i \<le> length str \<Longrightarrow>
   find_char_down str ch i = Some (if \<exists>j<i. str ! j = ch then int (GREATEST j. j < i \<and> str ! j = ch) else - 2)"
proof (induction i)
  case (Suc i)
  show ?case
  proof (cases "str ! i = ch")
    case True
    have "(GREATEST j. j < Suc i \<and> str ! j = ch) = i"
      using True by (intro Greatest_equality) auto
    then show ?thesis using True Suc.prems by (auto simp: chk_simps)
  next
    case False
    then have "j < Suc i \<and> str ! j = ch \<longleftrightarrow> j < i \<and> str ! j = ch" for j
      using less_Suc_eq by auto
    then show ?thesis using False Suc by (auto simp: chk_simps)
  qed
qed simp

section \<open>Sorting: lemmas\<close>

lemma mset_swap: "i < length xs \<Longrightarrow> j < length xs \<Longrightarrow> mset (xs[i := xs ! j, j := xs ! i]) = mset xs"
  by (simp add: mset_swap)

definition sort_le :: "bool \<Rightarrow> u8 \<Rightarrow> u8 \<Rightarrow> bool" where
  "sort_le asc x y \<longleftrightarrow> (if asc then x \<le> y else y \<le> x)"

lemma sort_le_order: "sort_le asc x x" "sort_le asc x y \<Longrightarrow> sort_le asc y z \<Longrightarrow> sort_le asc x z"
  "sort_le asc x y \<or> sort_le asc y x"
  by (auto simp: sort_le_def split: if_splits)

lemma sort_step_swap:
  assumes "i + 1 < length b"
  shows "sort_step asc i b = Some (if sort_le asc (b ! i) (b ! (i + 1)) then b else b[i := b ! (i + 1), i + 1 := b ! i])"
  using assms by (auto simp: sort_step_def chk_simps sort_le_def)

text \<open>One pass moves the largest of the first \<open>n + 1\<close> elements to index \<open>n\<close>.\<close>

lemma sort_pass:
  assumes "n < length b"
  shows "\<exists>t. for_range 0 n (sort_step asc) b = Some t \<and> length t = length b \<and> mset t = mset b \<and>
     drop (Suc n) t = drop (Suc n) b \<and> (\<forall>k\<le>n. sort_le asc (t ! k) (t ! n))"
proof -
  define P where "P i t \<longleftrightarrow> length t = length b \<and> mset t = mset b \<and> drop (Suc n) t = drop (Suc n) b \<and>
     (\<forall>k\<le>i. sort_le asc (t ! k) (t ! i))" for i t
  have "\<exists>t. for_range 0 n (sort_step asc) b = Some t \<and> P (0 + n) t"
  proof (rule for_range_inv)
    show "P 0 b" by (simp add: P_def sort_le_order)
  next
    fix i s assume i: "i < 0 + n" and P: "P i s"
    have len: "i + 1 < length s" using i P assms by (simp add: P_def)
    let ?t = "if sort_le asc (s ! i) (s ! (i + 1)) then s else s[i := s ! (i + 1), i + 1 := s ! i]"
    have "P (Suc i) ?t"
    proof (cases "sort_le asc (s ! i) (s ! (i + 1))")
      case True
      then show ?thesis using P sort_le_order by (auto simp: P_def le_Suc_eq)
    next
      case False
      then have le: "sort_le asc (s ! (i + 1)) (s ! i)" using sort_le_order(3) by blast
      have "mset ?t = mset b" using False len P mset_swap [of i s "i + 1"] by (simp add: P_def)
      moreover have "drop (Suc n) ?t = drop (Suc n) b" using False i P by (simp add: P_def)
      moreover have "\<forall>k\<le>Suc i. sort_le asc (?t ! k) (?t ! Suc i)"
        using False len P le by (auto simp: P_def nth_list_update sort_le_order le_Suc_eq)
      ultimately show ?thesis using P False by (simp add: P_def)
    qed
    then show "\<exists>t. sort_step asc i s = Some t \<and> P (Suc i) t"
      using sort_step_swap [OF len] by blast
  qed
  then show ?thesis by (auto simp: P_def)
qed

lemma byte_sort_sorts:
  assumes "n \<le> length b"
  shows "\<exists>t. tuya_byte_sort asc b n = Some t \<and> length t = length b \<and> mset t = mset b \<and>
     drop n t = drop n b \<and> sorted_wrt (sort_le asc) (take n t)"
proof -
  define P where "P j t \<longleftrightarrow> length t = length b \<and> mset t = mset b \<and> drop n t = drop n b \<and>
     (\<forall>k m. n - j < m \<and> m < n \<and> k < m \<longrightarrow> sort_le asc (t ! k) (t ! m))" for j t
  have "\<exists>t. for_range 1 (n - 1) (\<lambda>j buf. for_range 0 (n - j) (sort_step asc) buf) b = Some t \<and> P (1 + (n - 1)) t"
  proof (rule for_range_inv)
    show "P 1 b" by (auto simp: P_def)
  next
    fix j s assume j: "1 \<le> j" "j < 1 + (n - 1)" and P: "P j s"
    have "n - j < length s" using j P assms by (simp add: P_def)
    from sort_pass [OF this] obtain t where
      t: "for_range 0 (n - j) (sort_step asc) s = Some t" "length t = length s" "mset t = mset s"
      "drop (Suc (n - j)) t = drop (Suc (n - j)) s" "\<forall>k\<le>n - j. sort_le asc (t ! k) (t ! (n - j))" by blast
    have mt: "mset (take (Suc (n - j)) t) = mset (take (Suc (n - j)) s)"
    proof -
      have "mset (take (Suc (n - j)) t) + mset (drop (Suc (n - j)) t) =
          mset (take (Suc (n - j)) s) + mset (drop (Suc (n - j)) s)"
        using t(3) by (metis append_take_drop_id mset_append)
      then show ?thesis by (simp add: t(4))
    qed
    have tail: "t ! m = s ! m" if "n - j < m" "m < length s" for m
      using t(2,4) that nth_drop [of "Suc (n - j)" t "m - Suc (n - j)"]
        nth_drop [of "Suc (n - j)" s "m - Suc (n - j)"] by simp
    have "sort_le asc (t ! k) (t ! m)" if m: "n - Suc j < m" "m < n" "k < m" for k m
    proof (cases "m = n - j")
      case True
      then show ?thesis using t(5) m by simp
    next
      case False
      then have nm: "n - j < m" using m(1) by linarith
      have len: "m < length s" using m(2) P assms by (simp add: P_def)
      have "\<exists>k'<m. t ! k = s ! k'"
      proof (cases "k \<le> n - j")
        case True
        then have "t ! k \<in> set (take (Suc (n - j)) t)"
          using t(2) nm len by (auto simp: in_set_conv_nth intro!: exI [of _ k])
        then have "t ! k \<in> set (take (Suc (n - j)) s)" using mt by (metis set_mset_mset)
        then obtain i where "s ! i = t ! k" "i < Suc (n - j)" by (auto simp: in_set_conv_nth)
        then show ?thesis using nm by (intro exI [of _ i]) simp
      next
        case False
        then show ?thesis using tail [of k] m(3) len by auto
      qed
      then show ?thesis using P nm m tail [OF nm len] by (auto simp: P_def)
    qed
    moreover have "drop n t = drop n b"
    proof -
      have "drop n t = drop (n - Suc (n - j)) (drop (Suc (n - j)) t)" using j by simp
      also have "\<dots> = drop n s" using j by (simp add: t(4))
      finally show ?thesis using P by (simp add: P_def)
    qed
    ultimately have "P (Suc j) t" using P t(2,3) by (simp add: P_def)
    then show "\<exists>t. for_range 0 (n - j) (sort_step asc) s = Some t \<and> P (Suc j) t" using t(1) by blast
  qed
  then obtain t where t: "tuya_byte_sort asc b n = Some t" "P (1 + (n - 1)) t"
    by (auto simp: tuya_byte_sort_def)
  have "sorted_wrt (sort_le asc) (take n t)"
    unfolding sorted_wrt_iff_nth_less
  proof (intro allI impI)
    fix k m assume km: "k < m" "m < length (take n t)"
    then show "sort_le asc (take n t ! k) (take n t ! m)" using t(2) by (auto simp: P_def)
  qed
  then show ?thesis using t by (auto simp: P_def)
qed

section \<open>Bits: lemmas\<close>

declare bit1_count_loop.simps [simp del] leading_loop.simps [simp del]

lemma finite_bits: "finite {k. bit (x :: u32) k}"
  by (rule finite_subset [of _ "{..<32}"]) (auto dest: bit_imp_le_length)

lemma bit1_count_loop_card: "bit1_count_loop x c = c + of_nat (card {k. bit x k})"
proof (induction x c rule: bit1_count_loop.induct)
  case (1 x c)
  show ?case
  proof (cases "x = 0")
    case True
    then show ?thesis by (simp add: bit1_count_loop.simps)
  next
    case False
    then obtain j where "bit x j" by (auto simp: bit_eq_iff)
    define m where "m = (LEAST k. bit x k)"
    have m: "bit x m" "\<forall>k<m. \<not> bit x k"
      using \<open>bit x j\<close> unfolding m_def by (auto intro: LeastI dest: not_less_Least)
    have "{k. bit (x AND (x - 1)) k} = {k. bit x k} - {m}"
      using and_minus_one_bits [OF m] by auto
    then have "card {k. bit x k} = Suc (card {k. bit (x AND (x - 1)) k})"
      using card_Suc_Diff1 [OF finite_bits, of m x] m(1) by simp
    then show ?thesis using 1 [OF False] False
      by (subst bit1_count_loop.simps) simp
  qed
qed

lemma top_bit_set_31: "temp AND 0x80000000 \<noteq> 0 \<longleftrightarrow> bit (temp :: u32) 31"
proof -
  have "(0x80000000 :: u32) = 2 ^ 31" by simp
  then show ?thesis by (simp only: and_exp_eq_0_iff_not_bit not_not)
qed

lemma leading_loop_ones:
  "\<exists>n\<le>32. leading_loop x c = c + of_nat n \<and> (\<forall>k<n. bit x (31 - k)) \<and> (n < 32 \<longrightarrow> \<not> bit x (31 - n))"
proof (induction x c rule: leading_loop.induct)
  case (1 x c)
  show ?case
  proof (cases "bit x 31")
    case False
    then show ?thesis using top_bit_set_31 [of x]
      by (intro exI [of _ 0]) (simp add: leading_loop.simps)
  next
    case True
    then obtain n where n: "n \<le> 32" "leading_loop (push_bit 1 x) (c + 1) = c + 1 + of_nat n"
      "\<forall>k<n. bit (push_bit 1 x) (31 - k)" "n < 32 \<longrightarrow> \<not> bit (push_bit 1 x) (31 - n)"
      using 1 top_bit_set_31 [of x] by auto
    have "n < 32"
    proof (rule ccontr)
      assume "\<not> n < 32"
      then have "n = 32" using n(1) by simp
      then have "bit (push_bit 1 x) (31 - 31)" using n(3) [rule_format, of 31] by simp
      then show False by (simp add: bit_0)
    qed
    moreover have sh: "bit (push_bit 1 x) (31 - k) = bit x (31 - Suc k)" if "k < 31" for k
    proof -
      have "31 - k - 1 = 31 - Suc k" by simp
      then show ?thesis using that by (simp only: bit_push_bit_iff) auto
    qed
    moreover have "bit x (31 - k)" if "k < Suc n" for k
    proof (cases k)
      case (Suc j)
      then show ?thesis using n(3) sh [of j] that \<open>n < 32\<close> by auto
    qed (use True in simp)
    moreover have "\<not> bit x (31 - Suc n)" if "Suc n < 32"
      using n(4) sh [of n] that by simp
    ultimately show ?thesis using n(2) True top_bit_set_31 [of x]
      by (intro exI [of _ "Suc n"]) (simp add: leading_loop.simps [of x])
  qed
qed

lemma intArray2int_loop_past:
  "unat i \<le> length a \<Longrightarrow> length a < m \<Longrightarrow> m \<le> 255 \<Longrightarrow> intArray2int_loop a (of_nat m) i v = None"
proof (induction "m - unat i" arbitrary: i v)
  case 0
  then show ?case by simp
next
  case (Suc k)
  have lt: "(ucast i :: u32) < of_nat m"
    using Suc.prems by (simp add: word_less_nat_alt unat_of_nat unat_ucast_u8)
  have i1: "unat (i + 1) = Suc (unat i)" using Suc.prems by (simp add: unat_word_ariths)
  show ?case
  proof (cases "unat i < length a")
    case True
    have "intArray2int_loop a (of_nat m) (i + 1) w = None" for w
      using Suc.hyps(2) Suc.prems True i1 by (intro Suc.hyps(1)) simp_all
    then show ?thesis using lt True by (subst intArray2int_loop.simps) (simp add: chk_simps)
  next
    case False
    then show ?thesis using lt by (subst intArray2int_loop.simps) (simp add: aget_def)
  qed
qed

section \<open>Properties\<close>

text \<open>
  C19. Hexadecimal text round trip: \<^verbatim>\<open>tuya_hex2str\<close> writes two upper-case digits per byte and a
  terminating zero, nothing else of the buffer, and \<^verbatim>\<open>tuya_ascs2hex\<close> reads the bytes back from
  that text.
\<close>

theorem hex_roundtrip:
  assumes "2 * length bs < length str" and "length bs \<le> length out"
  shows "\<exists>text. tuya_hex2str str bs (length bs) = Some text \<and>
     length text = length str \<and> c_strlen text = Some (2 * length bs) \<and>
     drop (2 * length bs + 1) text = drop (2 * length bs + 1) str \<and>
     tuya_ascs2hex out text (2 * int (length bs)) = Some (bs @ drop (length bs) out)"
proof -
  have nz: "hex_digit d \<noteq> 0" if "d < 16" for d
    using asc2hex_hex_digit [OF that] that by (auto simp: tuya_asc2hex_def hex_digit_def word_unat_eq_iff word_less_nat_alt unat_word_ariths split: if_splits)
  have "0 \<notin> set (hex_text bs)"
  proof -
    have "b div 16 < 16" "b mod 16 < 16" for b :: u8
      using unsigned_less [of b, where ?'a = nat] by (simp_all add: word_less_nat_alt unat_div unat_mod)
    then have "hex_digit (b div 16) \<noteq> 0" "hex_digit (b mod 16) \<noteq> 0" for b using nz by blast+
    then show ?thesis by (auto simp: hex_text_def)
  qed
  then show ?thesis
    using hex2str_text [of "length bs" bs str] ascs2hex_hex_text [OF assms(2)] assms
      c_strlen_app [of "hex_text bs"] by (simp add: length_hex_text)
qed

theorem hex_roundtrip_witness:
  "\<exists>text. tuya_hex2str [1,1,1,1,1,1] [0x5a,0xf0] (length [0x5a,0xf0::u8]) = Some text \<and> c_strlen text = Some 4 \<and>
     tuya_ascs2hex [7,7,7] text 4 = Some [0x5a,0xf0,7]"
  using hex_roundtrip [of "[0x5a,0xf0]" "[1,1,1,1,1,1]" "[7,7,7]"] by auto

text \<open>
  Decimal digits round trip: for a positive number whose digits fit, \<^verbatim>\<open>tuya_int2intArray\<close>
  stores the digits, most significant first, and returns how many; \<^verbatim>\<open>tuya_intArray2int\<close> reads
  the number back from them. For 0 it stores no digit and returns 0, the value it also returns
  when the array is too short.
\<close>

theorem int_array_roundtrip:
  assumes "length (dec_digits n) \<le> unat len" and "unat len \<le> length a"
  shows "if n = 0 then tuya_int2intArray n a len = Some (0, a)
     else \<exists>k b. tuya_int2intArray n a len = Some (of_nat k, b) \<and> 0 < k \<and> k \<le> 10 \<and> k \<le> unat len \<and>
       length b = length a \<and> drop k b = drop k a \<and> tuya_intArray2int b 0 (of_nat k) = Some n"
proof (cases "n = 0")
  case True
  have "digit_count 0 0 = 1" by (simp add: digit_count.simps)
  then show ?thesis using True
    by (simp add: tuya_int2intArray_def digit_fill.simps tuya_buff_reverse_def)
next
  case False
  let ?d = "dec_digits n"
  have k: "length ?d \<le> 10" by (rule length_dec_digits_10)
  have pos: "0 < length ?d" using False by (simp add: dec_digits.simps)
  have u: "unat (of_nat (length ?d) :: u8) = length ?d" "unat (of_nat (length ?d) :: u32) = length ?d"
    using k by (simp_all add: unat_of_nat)
  have "intArray2int_loop (?d @ drop (length ?d) a) (of_nat (length ?d)) 0 0 =
      Some (foldl (\<lambda>v d. v * 10 + ucast d) 0 ?d)"
    using intArray2int_loop_range [of 0 "length ?d" "?d @ drop (length ?d) a" 0] k by simp
  then have "intArray2int_loop (?d @ drop (length ?d) a) (of_nat (length ?d)) 0 0 = Some n"
    using dec_value_digits [of n] by (simp add: dec_value_def)
  moreover have "(ucast (of_nat (length ?d) :: u8) :: u32) = of_nat (length ?d)"
    using u by (simp add: word_unat_eq_iff unat_ucast_u8)
  moreover have "\<not> (of_nat (length ?d) :: u32) \<le> 0" using u(2) pos by (simp add: word_le_nat_alt)
  ultimately have "tuya_intArray2int (?d @ drop (length ?d) a) 0 (of_nat (length ?d)) = Some n"
    by (simp add: tuya_intArray2int_def)
  then show ?thesis using int2intArray_digits [OF False assms] False k pos assms
    by (intro if_not_P [THEN iffD2] exI [of _ "length ?d"] exI [of _ "?d @ drop (length ?d) a"]) auto
qed

theorem int_array_roundtrip_witness:
  "\<exists>k b. tuya_int2intArray 405 [9,9,9,9] 4 = Some (of_nat k, b) \<and> tuya_intArray2int b 0 (of_nat k) = Some 405"
proof -
  have "dec_digits 405 = [4,0,5]" by (simp add: dec_digits.simps)
  then show ?thesis using int_array_roundtrip [of 405 4 "[9,9,9,9]"] by auto
qed

text \<open>
  Where \<^verbatim>\<open>tuya_intArray2int\<close> reads: from \<open>index\<close> it takes \<open>len\<close> digits, not the digits up to
  \<open>len\<close>. With a positive index inside an array of exactly \<open>len\<close> digits (and the end below 256) it
  reads past the end of the array; with \<open>index + len\<close> digits it returns the value of the digits
  from \<open>index\<close> on. An index that is not below \<open>len\<close> gives \<open>0xffffffff\<close>.
\<close>

theorem intArray2int_range:
  assumes "unat index + unat len \<le> 255"
  shows "if unat len \<le> unat index then tuya_intArray2int a index len = Some 0xffffffff
     else (unat index + unat len \<le> length a \<longrightarrow>
         tuya_intArray2int a index len = Some (dec_value (take (unat len) (drop (unat index) a)))) \<and>
       (0 < unat index \<and> length a = unat len \<longrightarrow> tuya_intArray2int a index len = None)"
proof (cases "unat len \<le> unat index")
  case True
  then have "ucast len \<le> index" by (simp add: word_le_nat_alt unat_ucast_u8)
  then show ?thesis using True by (simp add: tuya_intArray2int_def)
next
  case False
  let ?m = "unat index + unat len"
  have ge: "\<not> ucast len \<le> index" using False by (simp add: word_le_nat_alt unat_ucast_u8)
  have lim: "index + ucast len = of_nat ?m" by (simp add: word_unat_eq_iff unat_word_ariths unat_ucast_u8 unat_of_nat)
  have i: "unat (ucast index :: u8) = unat index"
    using assms by (simp add: unsigned_ucast_eq take_bit_eq_mod)
  have ok: "tuya_intArray2int a index len = Some (dec_value (take (unat len) (drop (unat index) a)))"
    if "?m \<le> length a"
    using intArray2int_loop_range [of "ucast index" ?m a 0, unfolded i] that assms
    unfolding tuya_intArray2int_def lim dec_value_def if_not_P [OF ge] by simp
  have bad: "tuya_intArray2int a index len = None" if "length a < ?m" "unat index \<le> length a"
    using intArray2int_loop_past [of "ucast index" a ?m 0, unfolded i] that assms
    unfolding tuya_intArray2int_def lim if_not_P [OF ge] by simp
  show ?thesis using False ok bad by auto
qed

theorem intArray2int_range_witness:
  "tuya_intArray2int [1,2,3,4] 1 3 = Some 234 \<and> tuya_intArray2int [1,2,3] 1 3 = None"
  using intArray2int_range [of 1 3 "[1,2,3,4]"] intArray2int_range [of 1 3 "[1,2,3]"]
  by (simp add: dec_value_def)

text \<open>
  C20. \<^verbatim>\<open>tuya_byte_sort\<close> sorts: the first \<open>n\<close> bytes become ascending or descending, they are the
  same bytes with the same multiplicities, and the rest of the buffer is not touched.
\<close>

theorem byte_sort_correct:
  assumes "n \<le> length buf"
  shows "\<exists>t. tuya_byte_sort asc buf n = Some t \<and> mset (take n t) = mset (take n buf) \<and>
     drop n t = drop n buf \<and> (if asc then sorted (take n t) else sorted (rev (take n t)))"
proof -
  obtain t where t: "tuya_byte_sort asc buf n = Some t" "mset t = mset buf" "drop n t = drop n buf"
    "sorted_wrt (sort_le asc) (take n t)" using byte_sort_sorts [OF assms] by blast
  have "mset (take n t) + mset (drop n t) = mset (take n buf) + mset (drop n buf)"
    using t(2) by (metis append_take_drop_id mset_append)
  then have "mset (take n t) = mset (take n buf)" by (simp add: t(3))
  moreover have "if asc then sorted (take n t) else sorted (rev (take n t))"
    using t(4) by (cases asc) (simp_all add: sort_le_def [abs_def] sorted_wrt_rev)
  ultimately show ?thesis using t by blast
qed

theorem byte_sort_correct_witness:
  "\<exists>t. tuya_byte_sort True [9,3,200,1] 3 = Some t \<and> sorted (take 3 t) \<and> drop 3 t = [1]"
  using byte_sort_correct [of 3 "[9,3,200,1]" True] by auto

text \<open>
  \<^verbatim>\<open>tuya_bit1_count\<close>, which clears one set bit per round, returns the number of set bits, and
  \<^verbatim>\<open>tuya_leading_zeros_count\<close> returns the number of zero bits above the highest set bit (32 for 0).
\<close>

theorem bit_counts:
  "unat (tuya_bit1_count x) = card {k. bit x k} \<and>
   (\<forall>k. 32 - unat (tuya_leading_zeros_count x) \<le> k \<and> k < 32 \<longrightarrow> \<not> bit x k) \<and>
   unat (tuya_leading_zeros_count x) \<le> 32 \<and>
   (x \<noteq> 0 \<longrightarrow> unat (tuya_leading_zeros_count x) < 32 \<and> bit x (31 - unat (tuya_leading_zeros_count x)))"
proof -
  have "card {k. bit x k} \<le> card {..<32::nat}"
    by (rule card_mono) (auto dest: bit_imp_le_length)
  then have a: "unat (tuya_bit1_count x) = card {k. bit x k}"
    by (simp add: tuya_bit1_count_def bit1_count_loop_card unat_of_nat)
  obtain n where n: "n \<le> 32" "tuya_leading_zeros_count x = of_nat n"
    "\<forall>k<n. bit (NOT x) (31 - k)" "n < 32 \<longrightarrow> \<not> bit (NOT x) (31 - n)"
    using leading_loop_ones [of "NOT x" 0] by (auto simp: tuya_leading_zeros_count_def)
  have u: "unat (tuya_leading_zeros_count x) = n" using n(1,2) by (simp add: unat_of_nat)
  have z: "\<not> bit x k" if "32 - n \<le> k" "k < 32" for k
  proof -
    have "31 - (31 - k) = k" "31 - k < n" using that by linarith+
    then have "bit (NOT x) k" using n(3) by metis
    then show ?thesis by (simp add: bit_not_iff)
  qed
  have "n < 32" if "x \<noteq> 0"
  proof (rule ccontr)
    assume "\<not> n < 32"
    then have "\<not> bit x k" for k using z [of k] bit_imp_le_length [of x k] n(1) by fastforce
    then show False using that by (simp add: bit_eq_iff)
  qed
  moreover have "n < 32 \<Longrightarrow> bit x (31 - n)" using n(4) by (simp add: bit_not_iff)
  ultimately show ?thesis using a u z n(1) by auto
qed

theorem bit_counts_witness: "unat (tuya_leading_zeros_count 16) < 32"
  using bit_counts [of 16] by simp

text \<open>
  \<^verbatim>\<open>tuya_strcmp\<close> compares two C strings: 0 exactly when they are equal, -1 when the first is
  smaller in the byte-wise lexicographic order, 1 when it is larger; it reads nothing behind the
  terminating zeros.
\<close>

theorem strcmp_lexicographic:
  assumes "0 \<notin> set a" and "0 \<notin> set b"
  shows "tuya_strcmp (a @ 0 # ra) (b @ 0 # rb) = Some (if a < b then - 1 else if a = b then 0 else 1)"
  using strcmp_loop_cmp [OF assms, where ra = ra and rb = rb] by (auto simp: tuya_strcmp_def)

theorem strcmp_lexicographic_witness: "tuya_strcmp [97,98,0] [97,99,0] = Some (- 1)"
  using strcmp_lexicographic [of "[97,98]" "[97,99]" "[]" "[]"] by simp

text \<open>
  \<^verbatim>\<open>tuya_strncasecmp\<close> on two different C strings returns 0 exactly when they agree, up to the
  case of ASCII letters, in their first \<open>n\<close> characters and \<open>n\<close> does not exceed the first string
  with its terminating zero. Unlike \<^verbatim>\<open>strncasecmp\<close> it therefore does not return 0 for equal
  strings that are shorter than \<open>n - 1\<close> characters.
\<close>

theorem strncasecmp_zero:
  assumes "0 \<notin> set a" and "0 \<notin> set b" and "0 < n"
  shows "\<exists>r. tuya_strncasecmp False (a @ 0 # ra) (b @ 0 # rb) n = Some r \<and>
     (r = 0 \<longleftrightarrow> n \<le> length a + 1 \<and>
        map c_tolower (take n (a @ [0])) = map c_tolower (take n (b @ [0])))"
  using strncasecmp_loop_cmp [OF assms(1,2), where cnt = 0 and n = n and ra = ra and rb = rb] assms(3) by (simp add: tuya_strncasecmp_def)

theorem strncasecmp_zero_witness:
  "tuya_strncasecmp False [72,105,0] [104,73,0] 3 = Some 0 \<and> tuya_strncasecmp False [72,105,0] [104,73,0] 4 \<noteq> Some 0"
  using strncasecmp_zero [of "[72,105]" "[104,73]" 3 "[]" "[]"] strncasecmp_zero [of "[72,105]" "[104,73]" 4 "[]" "[]"]
  by (auto simp: c_tolower_def)

text \<open>
  \<^verbatim>\<open>tuya_str2num\<close> accepts exactly the strings of decimal digits: then the number stored is
  their value modulo \<open>2 ^ 32\<close>; at the first other character it returns false and leaves the number as
  it was, without reading further.
\<close>

theorem str2num_decimal:
  assumes "unat len \<le> length str"
  shows "tuya_str2num number str len =
     Some (if \<forall>c\<in>set (take (unat len) str). 48 \<le> c \<and> c \<le> 57
           then (True, dec_value (map (\<lambda>c. c - 48) (take (unat len) str))) else (False, number))"
proof (cases "\<forall>c\<in>set (take (unat len) str). 48 \<le> c \<and> c \<le> 57")
  case True
  have "ucast c - 48 = (ucast (c - 48) :: u32)" if "48 \<le> c" for c :: u8
    using that unat_ucast_u8 [of c] unat_ucast_u8 [of "c - 48"]
    by (simp add: word_unat_eq_iff word_le_nat_alt unat_sub)
  then have "foldl (\<lambda>v c. v * 10 + (ucast c - 48)) v cs = foldl (\<lambda>v d. v * 10 + ucast d) v (map (\<lambda>c. c - 48) cs)"
    if "\<forall>c\<in>set cs. 48 \<le> c" for v :: u32 and cs :: "u8 list"
    using that by (induction cs arbitrary: v) simp_all
  moreover have "\<forall>c\<in>set (take (unat len) str). 48 \<le> c" using True by blast
  ultimately have "foldl (\<lambda>v c. v * 10 + (ucast c - 48)) 0 (take (unat len) str) =
      dec_value (map (\<lambda>c. c - 48) (take (unat len) str))" by (simp only: dec_value_def)
  moreover have "str2num_loop str 0 (unat len) 0 =
      Some (Some (foldl (\<lambda>v c. v * 10 + (ucast c - 48)) 0 (take (unat len) str)))"
    using str2num_loop_digits [of 0 "unat len" str 0] True assms by (simp only: add_0 drop_0)
  ultimately have "str2num_loop str 0 (unat len) 0 =
      Some (Some (dec_value (map (\<lambda>c. c - 48) (take (unat len) str))))" by (simp only:)
  then show ?thesis using True by (simp add: tuya_str2num_def)
next
  case False
  then obtain j where j: "j < unat len" "\<not> (48 \<le> str ! j \<and> str ! j \<le> 57)"
    using assms by (auto simp: in_set_conv_nth)
  define k where "k = (LEAST j. j < unat len \<and> \<not> (48 \<le> str ! j \<and> str ! j \<le> 57))"
  have k: "k < unat len \<and> \<not> (48 \<le> str ! k \<and> str ! k \<le> 57)" unfolding k_def by (rule LeastI) (use j in simp)
  have "\<forall>i<k. 48 \<le> str ! i \<and> str ! i \<le> 57"
  proof (intro allI impI)
    fix i assume "i < k"
    then have "\<not> (i < unat len \<and> \<not> (48 \<le> str ! i \<and> str ! i \<le> 57))"
      unfolding k_def by (rule not_less_Least)
    then show "48 \<le> str ! i \<and> str ! i \<le> 57" using \<open>i < k\<close> k by simp
  qed
  then have "str2num_loop str 0 (unat len) 0 = Some None"
    using k assms by (intro str2num_loop_reject [of k]) auto
  then show ?thesis using False by (simp add: tuya_str2num_def)
qed

theorem str2num_decimal_witness: "tuya_str2num 7 [52,50,120] 2 = Some (True, 42) \<and> tuya_str2num 7 [52,50,120] 3 = Some (False, 7)"
  using str2num_decimal [of 2 "[52,50,120]" 7] str2num_decimal [of 3 "[52,50,120]" 7] by (simp add: dec_value_def)

end
