(* ===== verification/SmartPtr.thy ===== *)
theory SmartPtr
  imports Prelude
begin

text \<open>
  The reference-counted buffer of \<^verbatim>\<open>utilities/src/tuya_smartpointer.c\<close> over an explicit heap:
  the blocks the allocator has handed out with their sizes, the bytes in memory, the
  \<^verbatim>\<open>SMARTPOINTER_T\<close> structures by address, and the addresses of structures whose mutex exists.
  Freeing an address that is not the start of an allocated block, touching a freed structure and
  using a released mutex are undefined (\<open>None\<close>).
\<close>

section \<open>The model\<close>

record smartpointer =
  sp_malk :: bool
  sp_rfc :: u32
  sp_data_len :: u32
  sp_data :: nat

record sp_heap =
  blocks :: "nat \<Rightarrow> nat option"
  bytes :: "nat \<Rightarrow> u8"
  structs :: "nat \<Rightarrow> smartpointer"
  mutexes :: "nat set"

text \<open>\<^verbatim>\<open>SIZEOF(SMARTPOINTER_T)\<close>: five words of the 32-bit target.\<close>

definition sp_size :: nat where
  "sp_size = 20"

definition tkl_system_free :: "nat \<Rightarrow> sp_heap \<Rightarrow> sp_heap option" where
  "tkl_system_free p h =
     (if p = 0 then Some h
      else if blocks h p = None then None
      else Some (h\<lparr>blocks := (blocks h)(p := None)\<rparr>))"

definition sp_live :: "nat \<Rightarrow> sp_heap \<Rightarrow> bool" where
  "sp_live p h \<longleftrightarrow> (case blocks h p of Some n \<Rightarrow> sp_size \<le> n | None \<Rightarrow> False)"

definition SP_LOCK :: "nat \<Rightarrow> sp_heap \<Rightarrow> sp_heap option" where
  "SP_LOCK p h = (if sp_live p h \<and> p \<in> mutexes h then Some h else None)"

definition SP_RELEASE_LOCK :: "nat \<Rightarrow> sp_heap \<Rightarrow> sp_heap option" where
  "SP_RELEASE_LOCK p h =
     (if sp_live p h \<and> p \<in> mutexes h then Some (h\<lparr>mutexes := mutexes h - {p}\<rparr>) else None)"

text \<open>\<open>a\<close> is the address the allocator returns, 0 for \<^verbatim>\<open>NULL\<close>; its size is computed in 32 bits.\<close>

definition tuya_smartpointer_create ::
  "nat \<Rightarrow> u32 \<Rightarrow> bool \<Rightarrow> u32 \<Rightarrow> nat \<Rightarrow> sp_heap \<Rightarrow> (nat \<times> sp_heap) option" where
  "tuya_smartpointer_create data data_len malk cnt a h =
     (if data_len = 0 \<or> data = 0 then Some (0, h)
      else let size = (if malk then add32 sp_size (unat data_len) else sp_size)
      in if a = 0 then Some (0, h)
      else if size < sp_size then None
      else do {
        let h = h\<lparr>blocks := (blocks h)(a \<mapsto> size), mutexes := insert a (mutexes h)\<rparr>;
        let n = unat data_len;
        let h = (if malk then h\<lparr>bytes := (\<lambda>i. if a + sp_size \<le> i \<and> i < a + sp_size + n
                                          then bytes h (data + (i - (a + sp_size))) else bytes h i)\<rparr> else h);
        if malk \<and> size < sp_size + n then None
        else Some (a, h\<lparr>structs := (structs h)(a := \<lparr>sp_malk = False, sp_rfc = cnt, sp_data_len = data_len,
                                sp_data = (if malk then a + sp_size else data)\<rparr>)\<rparr>)
      })"

definition tuya_smartpointer_get :: "nat \<Rightarrow> sp_heap \<Rightarrow> sp_heap option" where
  "tuya_smartpointer_get p h =
     (if p = 0 then Some h
      else do {
        h \<leftarrow> SP_LOCK p h;
        Some (h\<lparr>structs := (structs h)(p := (structs h p)\<lparr>sp_rfc := sp_rfc (structs h p) + 1\<rparr>)\<rparr>)
      })"

definition tuya_smartpointer_put :: "nat \<Rightarrow> sp_heap \<Rightarrow> sp_heap option" where
  "tuya_smartpointer_put p h =
     (if p = 0 then Some h
      else do {
        h \<leftarrow> SP_LOCK p h;
        let rfc = sp_rfc (structs h p) - 1;
        let h = h\<lparr>structs := (structs h)(p := (structs h p)\<lparr>sp_rfc := rfc\<rparr>)\<rparr>;
        if rfc = 0
        then do {
          h \<leftarrow> SP_RELEASE_LOCK p h;
          h \<leftarrow> (if \<not> sp_malk (structs h p) then tkl_system_free (sp_data (structs h p)) h else Some h);
          tkl_system_free p h
        }
        else Some h
      })"

definition tuya_smartpointer_del :: "nat \<Rightarrow> sp_heap \<Rightarrow> sp_heap option" where
  "tuya_smartpointer_del p h =
     do {
       h \<leftarrow> SP_RELEASE_LOCK p h;
       h \<leftarrow> (if \<not> sp_malk (structs h p) then tkl_system_free (sp_data (structs h p)) h else Some h);
       tkl_system_free p h
     }"

section \<open>Counting references\<close>

datatype sp_op = SpGet | SpPut

fun sp_run :: "nat \<Rightarrow> sp_op list \<Rightarrow> sp_heap \<Rightarrow> sp_heap option" where
  "sp_run p [] h = Some h"
| "sp_run p (SpGet # ops) h = do { h \<leftarrow> tuya_smartpointer_get p h; sp_run p ops h }"
| "sp_run p (SpPut # ops) h = do { h \<leftarrow> tuya_smartpointer_put p h; sp_run p ops h }"

text \<open>The number of references after a history that never drops the last one (\<open>None\<close> if it does).\<close>

fun sp_refs :: "sp_op list \<Rightarrow> nat \<Rightarrow> nat option" where
  "sp_refs [] n = Some n"
| "sp_refs (SpGet # ops) n = (if n + 1 < 2 ^ 32 then sp_refs ops (n + 1) else None)"
| "sp_refs (SpPut # ops) n = (if 1 < n then sp_refs ops (n - 1) else None)"

definition sp_ok :: "nat \<Rightarrow> nat \<Rightarrow> nat \<Rightarrow> sp_heap \<Rightarrow> bool" where
  "sp_ok p data n h \<longleftrightarrow> p \<noteq> 0 \<and> sp_live p h \<and> p \<in> mutexes h \<and> sp_data (structs h p) = data \<and>
     \<not> sp_malk (structs h p) \<and> unat (sp_rfc (structs h p)) = n \<and> 0 < n"

lemma sp_get_ok:
  assumes "sp_ok p d n h" and "n + 1 < 2 ^ 32"
  shows "\<exists>g. tuya_smartpointer_get p h = Some g \<and> sp_ok p d (n + 1) g \<and> blocks g = blocks h \<and> bytes g = bytes h"
  using assms by (simp add: tuya_smartpointer_get_def SP_LOCK_def sp_ok_def sp_live_def unat_word_ariths)

lemma sp_put_ok:
  assumes "sp_ok p d n h" and "1 < n"
  shows "\<exists>g. tuya_smartpointer_put p h = Some g \<and> sp_ok p d (n - 1) g \<and> blocks g = blocks h \<and> bytes g = bytes h"
proof -
  have nz: "sp_rfc (structs h p) \<noteq> 0" using assms by (auto simp: sp_ok_def)
  have u: "unat (sp_rfc (structs h p) - 1) = n - 1"
    using assms nz by (simp add: sp_ok_def unat_minus_one)
  then have "sp_rfc (structs h p) - 1 \<noteq> 0" using assms(2) by auto
  then show ?thesis using assms u
    by (simp add: tuya_smartpointer_put_def SP_LOCK_def sp_ok_def sp_live_def Let_def)
qed

lemma sp_put_last:
  assumes "sp_ok p d 1 h"
  shows "tuya_smartpointer_put p h =
     (if d \<noteq> 0 \<and> blocks h d = None then None
      else let b = (if d \<noteq> 0 then (blocks h)(d := None) else blocks h)
      in if b p = None then None
      else Some (h\<lparr>blocks := b(p := None), mutexes := mutexes h - {p},
            structs := (structs h)(p := (structs h p)\<lparr>sp_rfc := 0\<rparr>)\<rparr>))"
proof -
  have "sp_rfc (structs h p) = 1" using assms by (simp add: sp_ok_def word_unat_eq_iff)
  then show ?thesis using assms
    by (simp add: tuya_smartpointer_put_def SP_LOCK_def SP_RELEASE_LOCK_def sp_ok_def sp_live_def
        tkl_system_free_def Let_def)
qed

lemma sp_run_ok:
  "sp_ok p d n h \<Longrightarrow> sp_refs ops n = Some m \<Longrightarrow>
   \<exists>g. sp_run p ops h = Some g \<and> sp_ok p d m g \<and> blocks g = blocks h \<and> bytes g = bytes h"
proof (induction ops arbitrary: n h)
  case (Cons op ops)
  show ?case
  proof (cases op)
    case SpGet
    then obtain g where "tuya_smartpointer_get p h = Some g" "sp_ok p d (n + 1) g" "blocks g = blocks h" "bytes g = bytes h"
      using sp_get_ok [OF Cons.prems(1)] Cons.prems(2) by (auto split: if_splits)
    then show ?thesis using Cons.IH [of "n + 1" g] Cons.prems(2) SpGet by (auto split: if_splits)
  next
    case SpPut
    then obtain g where "tuya_smartpointer_put p h = Some g" "sp_ok p d (n - 1) g" "blocks g = blocks h" "bytes g = bytes h"
      using sp_put_ok [OF Cons.prems(1)] Cons.prems(2) by (auto split: if_splits)
    then show ?thesis using Cons.IH [of "n - 1" g] Cons.prems(2) SpPut by (auto split: if_splits)
  qed
qed simp

lemma sp_create_ok:
  assumes "tuya_smartpointer_create data len malk cnt a h = Some (p, g)" and "p \<noteq> 0" and "0 < unat cnt"
  shows "p = a" and "sp_ok a (if malk then a + sp_size else data) (unat cnt) g"
    and "blocks g = (blocks h)(a \<mapsto> (if malk then add32 sp_size (unat len) else sp_size))"
  using assms
  by (auto simp: tuya_smartpointer_create_def sp_ok_def sp_live_def Let_def sp_size_def split: if_splits)

section \<open>Properties\<close>

text \<open>
  C21. The life of a reference-counted buffer. Any history of gets and puts that keeps at least one
  reference succeeds, leaves the structure (and, for \<open>malk\<close>, the copy of the data in the same block)
  allocated, leaves all bytes alone and counts the references; the data reached through the structure
  are the caller's bytes. What happens at the end depends on \<open>malk\<close>. A buffer around the caller's own
  block (\<open>malk\<close> false): the put of the last reference, or a delete at any time, frees just the data and
  the structure, each once, and releases the mutex. A buffer with a copy (\<open>malk\<close> true): the flag is not
  stored, so the last put and the delete hand the middle of the structure's block to the allocator,
  which is undefined.
\<close>

theorem smartpointer_lifetime:
  assumes "tuya_smartpointer_create data len malk cnt a h = Some (p, h1)" and "p \<noteq> 0" and "0 < unat cnt"
    and "blocks h data \<noteq> None" and "blocks h a = None" and "malk \<longrightarrow> blocks h (a + sp_size) = None"
    and "sp_refs ops (unat cnt) = Some m"
  shows "\<exists>g. sp_run p ops h1 = Some g \<and> bytes g = bytes h1 \<and> unat (sp_rfc (structs g p)) = m \<and>
     blocks g = (blocks h)(p \<mapsto> (if malk then sp_size + unat len else sp_size)) \<and>
     (\<forall>i<unat len. bytes g (sp_data (structs g p) + i) = bytes h (data + i)) \<and>
     (if malk then tuya_smartpointer_del p g = None \<and> (m = 1 \<longrightarrow> tuya_smartpointer_put p g = None)
      else (\<exists>e. tuya_smartpointer_del p g = Some e \<and> blocks e = (blocks h)(data := None) \<and> p \<notin> mutexes e) \<and>
        (m = 1 \<longrightarrow> (\<exists>e. tuya_smartpointer_put p g = Some e \<and> blocks e = (blocks h)(data := None) \<and> p \<notin> mutexes e)))"
proof -
  note c = sp_create_ok [OF assms(1-3)]
  let ?d = "if malk then a + sp_size else data"
  obtain g where g: "sp_run p ops h1 = Some g" "sp_ok p ?d m g" "blocks g = blocks h1" "bytes g = bytes h1"
    using sp_run_ok [OF _ assms(7), of p ?d h1] c by auto
  have da: "data \<noteq> a" "data \<noteq> 0" using assms(1,2,4,5)
    by (auto simp: tuya_smartpointer_create_def split: if_splits)
  have size: "malk \<Longrightarrow> add32 sp_size (unat len) = sp_size + unat len"
    using assms(1,2) mod_less_eq_dividend [of "sp_size + unat len" "2 ^ 32"]
    by (auto simp: tuya_smartpointer_create_def Let_def add32_def split: if_splits)
  have b: "blocks g = (blocks h)(p \<mapsto> (if malk then sp_size + unat len else sp_size))"
    using g(3) c(1,3) size by auto
  have inner: "malk \<Longrightarrow> blocks g (a + sp_size) = None" using assms(6) b c(1) by (simp add: sp_size_def)
  have d: "sp_data (structs g p) = ?d" using g(2) by (simp add: sp_ok_def)
  have data: "\<forall>i<unat len. bytes g (sp_data (structs g p) + i) = bytes h (data + i)"
    unfolding d g(4) using assms(1,2) by (auto simp: tuya_smartpointer_create_def Let_def split: if_splits)
  have put: "if malk then tuya_smartpointer_put p g = None
      else \<exists>e. tuya_smartpointer_put p g = Some e \<and> blocks e = (blocks h)(data := None) \<and> p \<notin> mutexes e" if "m = 1"
    using sp_put_last [of p ?d g] g(2) b inner that da c(1) assms(4,5) by (auto simp: Let_def fun_eq_iff sp_size_def)
  have del: "if malk then tuya_smartpointer_del p g = None
      else \<exists>e. tuya_smartpointer_del p g = Some e \<and> blocks e = (blocks h)(data := None) \<and> p \<notin> mutexes e"
    using g(2) b inner da c(1) assms(4,5)
    by (auto simp: tuya_smartpointer_del_def SP_RELEASE_LOCK_def sp_ok_def tkl_system_free_def sp_size_def fun_eq_iff)
  show ?thesis using g(1,2,4) b data put del by (intro exI [of _ g]) (simp add: sp_ok_def)
qed

definition eg_sp_heap :: sp_heap where
  "eg_sp_heap = \<lparr>blocks = [100 \<mapsto> 8], bytes = (\<lambda>_. 0),
     structs = (\<lambda>_. \<lparr>sp_malk = False, sp_rfc = 0, sp_data_len = 0, sp_data = 0\<rparr>), mutexes = {}\<rparr>"

theorem smartpointer_lifetime_witness:
  "(\<exists>h1 g e. tuya_smartpointer_create 100 8 False 1 200 eg_sp_heap = Some (200, h1) \<and>
     sp_run 200 [SpGet, SpPut] h1 = Some g \<and> tuya_smartpointer_put 200 g = Some e \<and> blocks e 100 = None) \<and>
   (\<exists>h1 g. tuya_smartpointer_create 100 8 True 1 200 eg_sp_heap = Some (200, h1) \<and>
     sp_run 200 [SpGet, SpPut] h1 = Some g \<and> tuya_smartpointer_put 200 g = None)"
proof -
  obtain h1 where "tuya_smartpointer_create 100 8 False 1 200 eg_sp_heap = Some (200, h1)"
    by (auto simp: tuya_smartpointer_create_def eg_sp_heap_def Let_def)
  moreover obtain h2 where "tuya_smartpointer_create 100 8 True 1 200 eg_sp_heap = Some (200, h2)"
    by (auto simp: tuya_smartpointer_create_def eg_sp_heap_def Let_def sp_size_def add32_def)
  ultimately show ?thesis
    using smartpointer_lifetime [of 100 8 False 1 200 eg_sp_heap 200 h1 "[SpGet, SpPut]" 1]
      smartpointer_lifetime [of 100 8 True 1 200 eg_sp_heap 200 h2 "[SpGet, SpPut]" 1]
    by (fastforce simp: eg_sp_heap_def sp_size_def)
qed

text \<open>
  A buffer created with \<open>malk\<close> true holds its data behind the structure in one block, and the
  bytes are a copy of the caller's. But the flag is never stored in the structure, so when the last
  reference is put (or the buffer is deleted) the code passes the address in the middle of its own
  block to the allocator.
\<close>

theorem smartpointer_copy_release:
  assumes "tuya_smartpointer_create data len True cnt a h = Some (p, h1)" and "p \<noteq> 0" and "unat cnt = 1"
    and "blocks h (a + sp_size) = None"
  shows "(\<forall>i<unat len. bytes h1 (p + sp_size + i) = bytes h (data + i)) \<and>
     tuya_smartpointer_put p h1 = None \<and> tuya_smartpointer_del p h1 = None"
proof -
  have cnt: "0 < unat cnt" using assms(3) by simp
  note c = sp_create_ok [OF assms(1,2) cnt]
  have b: "blocks h1 (a + sp_size) = None" using c(3) assms(4) by (simp add: sp_size_def)
  have "tuya_smartpointer_put p h1 = None"
    using sp_put_last [of p "a + sp_size" h1] c b assms(3) by (simp add: sp_size_def)
  moreover have "tuya_smartpointer_del p h1 = None"
    using c b by (simp add: tuya_smartpointer_del_def SP_RELEASE_LOCK_def sp_ok_def tkl_system_free_def sp_size_def)
  moreover have "bytes h1 (p + sp_size + i) = bytes h (data + i)" if "i < unat len" for i
    using assms(1,2) that c(1) by (auto simp: tuya_smartpointer_create_def Let_def split: if_splits)
  ultimately show ?thesis by blast
qed

theorem smartpointer_copy_release_witness:
  "\<exists>h1. tuya_smartpointer_create 100 8 True 1 200 eg_sp_heap = Some (200, h1) \<and> tuya_smartpointer_put 200 h1 = None"
proof -
  obtain h1 where "tuya_smartpointer_create 100 8 True 1 200 eg_sp_heap = Some (200, h1)"
    by (auto simp: tuya_smartpointer_create_def eg_sp_heap_def Let_def sp_size_def add32_def)
  then show ?thesis
    using smartpointer_copy_release [of 100 8 1 200 eg_sp_heap 200 h1]
    by (fastforce simp: eg_sp_heap_def sp_size_def)
qed

end
