(* ===== verification/MemHeap.thy ===== *)
theory MemHeap
  imports Prelude
begin

text \<open>
  The heap manager of \<^verbatim>\<open>utilities/src/tuya_mem_heap.c\<close>, over byte-addressed memory of the 32-bit
  target (little endian). A block starts with its size (one word, \<^verbatim>\<open>MEM_BLOCK_HEAD_SIZE\<close>); its
  last byte is the "dog" that says whether the block is in use; a free block keeps the address of the
  next free block in its second word. Addresses and sizes are natural numbers below \<open>2 ^ 32\<close>,
  and every sum or difference is taken modulo \<open>2 ^ 32\<close> (\<open>add32\<close>, \<open>sub32\<close>).

  The four heaps are \<open>heaps\<close>; a heap pointer or handle is an index into it, \<open>None\<close> is
  \<^verbatim>\<open>NULL\<close>. Calling a hook of the heap context before it is set is undefined; \<open>crit\<close> is the depth
  of critical sections and \<open>dbg\<close> the debug messages, latest first. The build options are those of
  the file: no asserts, no fill, anti-fragmentation on, \<^verbatim>\<open>MEM_ALIGN_NUM\<close> 4.
\<close>

section \<open>Memory words and state\<close>

type_synonym memory = "nat \<Rightarrow> u8"

definition ld32 :: "memory \<Rightarrow> nat \<Rightarrow> nat" where
  "ld32 m a = unat (m a) + 256 * unat (m (a + 1)) + 65536 * unat (m (a + 2)) + 16777216 * unat (m (a + 3))"

definition st32 :: "nat \<Rightarrow> nat \<Rightarrow> memory \<Rightarrow> memory" where
  "st32 a v m = m(a := of_nat v, a + 1 := of_nat (v div 256), a + 2 := of_nat (v div 65536),
     a + 3 := of_nat (v div 16777216))"

datatype dbg_msg =
    DbgHeapInit nat nat
  | DbgCreateParams
  | DbgDeleteParams
  | DbgDogTag nat nat
  | DbgMightBeFreed nat
  | DbgReallocDogTag nat nat
  | DbgMemUse nat nat nat nat
  | DbgStatus1 nat nat
  | DbgStatus2 nat nat
  | DbgStatus3 nat nat
  | DbgDamaged
  | DbgHeapSummary nat nat nat nat nat

record mheap =
  mh_free_list :: nat
  mh_base :: nat
  mh_size :: nat
  mh_free :: nat
  mh_watermark :: nat

record mstate =
  mem :: memory
  heaps :: "mheap list"
  s_free :: nat
  s_watermark :: nat
  ctx :: bool
  crit :: nat
  dbg :: "dbg_msg list"

record mheap_status =
  st_size :: nat
  st_free :: nat
  st_free_largest :: nat
  st_valid :: nat
  st_used_block :: nat
  st_free_block :: nat

definition zero_heap :: mheap where
  "zero_heap = \<lparr>mh_free_list = 0, mh_base = 0, mh_size = 0, mh_free = 0, mh_watermark = 0\<rparr>"

definition MEM_BLOCK_HEAD_SIZE :: nat where "MEM_BLOCK_HEAD_SIZE = 4"
definition MEM_BLOCK_MIN_SIZE :: nat where "MEM_BLOCK_MIN_SIZE = 24"
definition MEM_HEAP_MIN_SIZE :: nat where "MEM_HEAP_MIN_SIZE = MEM_BLOCK_MIN_SIZE + MEM_BLOCK_HEAD_SIZE"
definition FIT_FIND_DEPTH :: nat where "FIT_FIND_DEPTH = 3"
definition MEM_HEAP_LIST_NUM :: nat where "MEM_HEAP_LIST_NUM = 4"
definition MEM_BLOCK_STAT_USE :: u8 where "MEM_BLOCK_STAT_USE = 0x55"
definition MEM_BLOCK_STAT_FREE :: u8 where "MEM_BLOCK_STAT_FREE = 0xaa"
definition MEM_DBG_LEAK_MAGIC :: nat where "MEM_DBG_LEAK_MAGIC = 0x13572468"

text \<open>\<^verbatim>\<open>sizeof(MEM_DbgLeak_t)\<close>: four words.\<close>

definition leak_size :: nat where "leak_size = 16"

lemmas mem_consts = MEM_BLOCK_HEAD_SIZE_def MEM_BLOCK_MIN_SIZE_def MEM_HEAP_MIN_SIZE_def
  FIT_FIND_DEPTH_def MEM_HEAP_LIST_NUM_def leak_size_def

definition ALIGN_UP :: "nat \<Rightarrow> nat" where
  "ALIGN_UP x = add32 x 3 div 4 * 4"

definition ALIGN_DOWN :: "nat \<Rightarrow> nat" where
  "ALIGN_DOWN x = x div 4 * 4"

definition blk_next :: "memory \<Rightarrow> nat \<Rightarrow> nat" where
  "blk_next m b = ld32 m (add32 b 4)"

definition set_next :: "nat \<Rightarrow> nat \<Rightarrow> memory \<Rightarrow> memory" where
  "set_next b v m = st32 (add32 b 4) v m"

definition MEM_DOG_ADDR :: "memory \<Rightarrow> nat \<Rightarrow> nat" where
  "MEM_DOG_ADDR m b = sub32 (add32 b (ld32 m b)) 1"

definition MEM_LEAK_DBG_ADDR :: "memory \<Rightarrow> nat \<Rightarrow> nat" where
  "MEM_LEAK_DBG_ADDR m b = sub32 (sub32 (add32 b (ld32 m b)) leak_size) 4"

definition set_dog :: "nat \<Rightarrow> u8 \<Rightarrow> memory \<Rightarrow> memory" where
  "set_dog b v m = m(MEM_DOG_ADDR m b := v)"

definition enter_critical :: "mstate \<Rightarrow> mstate option" where
  "enter_critical s = (if ctx s then Some (s\<lparr>crit := crit s + 1\<rparr>) else None)"

definition exit_critical :: "mstate \<Rightarrow> mstate option" where
  "exit_critical s = (if ctx s \<and> 0 < crit s then Some (s\<lparr>crit := crit s - 1\<rparr>) else None)"

definition dbg_output :: "dbg_msg \<Rightarrow> mstate \<Rightarrow> mstate option" where
  "dbg_output msg s = (if ctx s then Some (s\<lparr>dbg := msg # dbg s\<rparr>) else None)"

definition put_heap :: "nat \<Rightarrow> mheap \<Rightarrow> mstate \<Rightarrow> mstate" where
  "put_heap i h s = s\<lparr>heaps := (heaps s)[i := h]\<rparr>"

section \<open>Creating and deleting heaps\<close>

text \<open>Returns 0 or -1.\<close>

definition mem_heap_init :: "nat \<Rightarrow> nat \<Rightarrow> nat \<Rightarrow> mstate \<Rightarrow> (int \<times> mstate) option" where
  "mem_heap_init i ptr sz s =
     do {
       heap \<leftarrow> aget (heaps s) i;
       let heap = heap\<lparr>mh_base := ptr, mh_size := sz\<rparr>;
       let p = ALIGN_UP ptr;
       let sz = sub32 sz (sub32 p ptr);
       let sz = ALIGN_DOWN sz;
       if sz < MEM_HEAP_MIN_SIZE then Some (- 1, put_heap i heap s)
       else do {
         let heap = heap\<lparr>mh_free_list := p\<rparr>;
         let m = set_next p 0 (mem s);
         let m = st32 p sz m;
         let heap = heap\<lparr>mh_free := sz, mh_watermark := sz\<rparr>;
         let sf = add32 (s_free s) sz;
         let m = set_dog p MEM_BLOCK_STAT_FREE m;
         Some (0, put_heap i heap (s\<lparr>mem := m, s_free := sf, s_watermark := sf\<rparr>))
       }
     }"

fun find_slot :: "mheap list \<Rightarrow> nat" where
  "find_slot [] = 0"
| "find_slot (h # hs) = (if mh_size h = 0 then 0 else Suc (find_slot hs))"

definition MEM_HeapCreate :: "nat \<Rightarrow> nat \<Rightarrow> mstate \<Rightarrow> (nat option \<times> mstate) option" where
  "MEM_HeapCreate ptr sz s =
     (if ptr = 0 \<or> sz = 0
      then do { s \<leftarrow> dbg_output DbgCreateParams s; Some (None, s) }
      else do {
        s \<leftarrow> enter_critical s;
        let i = find_slot (heaps s);
        (heap, s) \<leftarrow>
          (if i < MEM_HEAP_LIST_NUM
           then do {
             (r, s) \<leftarrow> mem_heap_init i ptr sz s;
             if r \<noteq> 0 then do { h \<leftarrow> aget (heaps s) i; Some (None, put_heap i (h\<lparr>mh_size := 0\<rparr>) s) }
             else Some (Some i, s)
           }
           else Some (None, s));
        s \<leftarrow> exit_critical s;
        Some (heap, s)
      })"

definition MEM_HeapDelete :: "nat option \<Rightarrow> mstate \<Rightarrow> mstate option" where
  "MEM_HeapDelete heap s =
     (case heap of
        None \<Rightarrow> dbg_output DbgDeleteParams s
      | Some i \<Rightarrow> do {
          s \<leftarrow> enter_critical s;
          let s = (if i < MEM_HEAP_LIST_NUM then put_heap i zero_heap s else s);
          exit_critical s
        })"

section \<open>Allocation\<close>

text \<open>The inner loop: up to three better blocks behind the first that fits.\<close>

partial_function (option) fit_loop ::
  "memory \<Rightarrow> nat \<Rightarrow> nat \<Rightarrow> nat \<Rightarrow> nat \<Rightarrow> nat \<Rightarrow> nat \<Rightarrow> (nat \<times> nat) option" where
  "fit_loop m sz pre this pre_bak this_bak find_num =
     (if this_bak = 0 then Some (pre, this)
      else let hit = (sz \<le> ld32 m this_bak \<and> ld32 m this_bak \<le> ld32 m this);
               this = (if hit then this_bak else this);
               pre = (if hit then pre_bak else pre);
               find_num = (if hit then find_num + 1 else find_num)
           in if FIT_FIND_DEPTH \<le> find_num then Some (pre, this)
              else fit_loop m sz pre this this_bak (blk_next m this_bak) find_num)"

declare fit_loop.simps [code]

text \<open>The outer loop: the chosen block and its predecessor in the free list.\<close>

partial_function (option) find_loop ::
  "memory \<Rightarrow> nat \<Rightarrow> nat \<Rightarrow> nat \<Rightarrow> (nat \<times> nat) option option" where
  "find_loop m sz pre this =
     (if this = 0 then Some None
      else if sz \<le> ld32 m this
      then do { r \<leftarrow> fit_loop m sz pre this this (blk_next m this) 0; Some (Some r) }
      else find_loop m sz this (blk_next m this))"

declare find_loop.simps [code]

definition mem_chunk_get :: "memory \<Rightarrow> nat \<Rightarrow> nat \<Rightarrow> (nat \<times> memory \<times> nat) option" where
  "mem_chunk_get m free_list sz =
     do {
       r \<leftarrow> find_loop m sz 0 free_list;
       case r of
         None \<Rightarrow> Some (0, m, free_list)
       | Some (pre_block, this_block) \<Rightarrow>
           if MEM_HEAP_MIN_SIZE \<le> sub32 (ld32 m this_block) sz
           then let m = st32 this_block (sub32 (ld32 m this_block) sz) m;
                    m = set_dog this_block MEM_BLOCK_STAT_FREE m;
                    new_block = add32 this_block (ld32 m this_block);
                    m = st32 new_block sz m;
                    m = set_dog new_block MEM_BLOCK_STAT_USE m
                in Some (new_block, m, free_list)
           else let next = blk_next m this_block;
                    free_list = (if pre_block \<noteq> 0 then free_list else next);
                    m = (if pre_block \<noteq> 0 then set_next pre_block next m else m);
                    m = set_dog this_block MEM_BLOCK_STAT_USE m
                in Some (this_block, m, free_list)
     }"

definition alloc_size :: "nat \<Rightarrow> nat" where
  "alloc_size sz = add32 (ALIGN_UP (add32 (if sz < 4 then 4 else sz) 1)) MEM_BLOCK_HEAD_SIZE"

definition MEM_Allocate :: "nat option \<Rightarrow> nat \<Rightarrow> mstate \<Rightarrow> (nat \<times> mstate) option" where
  "MEM_Allocate heap sz s =
     (case heap of
        None \<Rightarrow> Some (0, s)
      | Some i \<Rightarrow>
          if sz = 0 then Some (0, s)
          else if alloc_size sz < (if sz < 4 then 4 else sz) then Some (0, s)
          else do {
            s \<leftarrow> enter_critical s;
            h \<leftarrow> aget (heaps s) i;
            (block, m, fl) \<leftarrow> mem_chunk_get (mem s) (mh_free_list h) (alloc_size sz);
            let h = h\<lparr>mh_free_list := fl\<rparr>;
            let s = s\<lparr>mem := m\<rparr>;
            let s = (if block \<noteq> 0
                     then let f = sub32 (mh_free h) (ld32 m block);
                              h = h\<lparr>mh_free := f, mh_watermark := (if mh_watermark h > f then f else mh_watermark h)\<rparr>;
                              g = sub32 (s_free s) (ld32 m block)
                          in put_heap i h (s\<lparr>s_free := g, s_watermark := (if s_watermark s > g then g else s_watermark s)\<rparr>)
                     else put_heap i h s);
            s \<leftarrow> exit_critical s;
            Some (if block \<noteq> 0 then add32 block MEM_BLOCK_HEAD_SIZE else 0, s)
          })"

definition MEM_AllocateDebug ::
  "nat option \<Rightarrow> nat \<Rightarrow> nat \<Rightarrow> nat \<Rightarrow> mstate \<Rightarrow> (nat \<times> mstate) option" where
  "MEM_AllocateDebug heap sz filename line s =
     do {
       let new_size = ALIGN_UP sz;
       (p, s) \<leftarrow> MEM_Allocate heap (add32 new_size leak_size) s;
       if p \<noteq> 0
       then do {
         let block = sub32 p MEM_BLOCK_HEAD_SIZE;
         let leak = MEM_LEAK_DBG_ADDR (mem s) block;
         let m = st32 leak filename (mem s);
         let m = st32 (add32 leak 4) line m;
         let m = st32 (add32 leak 8) sz m;
         let m = st32 (add32 leak 12) MEM_DBG_LEAK_MAGIC m;
         Some (p, s\<lparr>mem := m\<rparr>)
       }
       else Some (p, s)
     }"

section \<open>Freeing\<close>

partial_function (option) dealloc_find :: "memory \<Rightarrow> nat \<Rightarrow> nat \<Rightarrow> nat \<Rightarrow> (nat \<times> nat) option" where
  "dealloc_find m free_block pre next =
     (if next \<noteq> 0 \<and> next < free_block then dealloc_find m free_block next (blk_next m next)
      else Some (pre, next))"

declare dealloc_find.simps [code]

text \<open>Inserting a free block into the list and merging it with its neighbours.\<close>

definition dealloc_link :: "nat \<Rightarrow> nat \<Rightarrow> nat \<Rightarrow> nat \<Rightarrow> memory \<Rightarrow> memory \<times> nat" where
  "dealloc_link free_block pre next fl m =
     (let m = set_next free_block next m;
          (m, fl, pre) =
            (if pre = 0 then (m, free_block, free_block)
             else if add32 pre (ld32 m pre) = free_block
             then (st32 pre (add32 (ld32 m pre) (ld32 m free_block)) m, fl, pre)
             else (set_next pre free_block m, fl, free_block));
          m = (if next \<noteq> 0 \<and> add32 pre (ld32 m pre) = next
               then (let m = st32 pre (add32 (ld32 m pre) (ld32 m next)) m
                     in set_next pre (blk_next m next) m)
               else m)
      in (m, fl))"

definition MEM_Deallocate :: "nat option \<Rightarrow> nat \<Rightarrow> mstate \<Rightarrow> mstate option" where
  "MEM_Deallocate heap ptr s =
     (case heap of
        None \<Rightarrow> Some s
      | Some i \<Rightarrow>
          if ptr = 0 then Some s
          else do {
            let free_block = sub32 ptr MEM_BLOCK_HEAD_SIZE;
            let pdog = MEM_DOG_ADDR (mem s) free_block;
            if mem s pdog \<noteq> MEM_BLOCK_STAT_USE
            then do {
              s \<leftarrow> dbg_output (DbgDogTag ptr (ld32 (mem s) free_block)) s;
              if mem s pdog = MEM_BLOCK_STAT_FREE then dbg_output (DbgMightBeFreed ptr) s else Some s
            }
            else do {
              s \<leftarrow> enter_critical s;
              let m = (mem s)(pdog := MEM_BLOCK_STAT_FREE);
              h \<leftarrow> aget (heaps s) i;
              let h = h\<lparr>mh_free := add32 (mh_free h) (ld32 m free_block)\<rparr>;
              let sf = add32 (s_free s) (ld32 m free_block);
              (pre, next) \<leftarrow> dealloc_find m free_block 0 (mh_free_list h);
              let (m, fl) = dealloc_link free_block pre next (mh_free_list h) m;
              let s = put_heap i (h\<lparr>mh_free_list := fl\<rparr>) (s\<lparr>mem := m, s_free := sf\<rparr>);
              exit_critical s
            }
          })"

section \<open>Walking a heap\<close>

text \<open>The first component is the code's \<^verbatim>\<open>result\<close>, then \<^verbatim>\<open>thisBlockp\<close>, \<^verbatim>\<open>addr\<close> and \<^verbatim>\<open>freeBlockp\<close>.\<close>

partial_function (option) status_loop ::
  "nat \<Rightarrow> mstate \<Rightarrow> nat \<Rightarrow> nat \<Rightarrow> nat \<Rightarrow> mheap_status \<Rightarrow>
     (nat \<times> nat \<times> nat \<times> nat \<times> mheap_status \<times> mstate) option" where
  "status_loop top_addr s this addr fb st =
     (if addr < top_addr
      then let this = addr; dog = mem s (MEM_DOG_ADDR (mem s) this) in
        if dog = MEM_BLOCK_STAT_USE
        then if this = fb then Some (1, this, addr, fb, st, s)
          else do {
            let leak = MEM_LEAK_DBG_ADDR (mem s) this;
            s \<leftarrow> (if ld32 (mem s) (add32 leak 12) = MEM_DBG_LEAK_MAGIC
                 then do {
                   s \<leftarrow> exit_critical s;
                   s \<leftarrow> dbg_output (DbgMemUse (ld32 (mem s) leak) (ld32 (mem s) (add32 leak 4)) this
                          (ld32 (mem s) (add32 leak 8))) s;
                   enter_critical s
                 }
                 else Some s);
            status_loop top_addr s this (add32 addr (ld32 (mem s) this)) fb
              (st\<lparr>st_used_block := add32 (st_used_block st) 1\<rparr>)
          }
        else if dog = MEM_BLOCK_STAT_FREE
        then if this \<noteq> fb then Some (2, this, addr, fb, st, s)
          else let this_size = sub32 (sub32 (ld32 (mem s) this) MEM_BLOCK_HEAD_SIZE) 1;
                   st = st\<lparr>st_free := add32 (st_free st) this_size\<rparr>;
                   st = (if st_free_largest st < this_size then st\<lparr>st_free_largest := this_size\<rparr> else st);
                   fb = blk_next (mem s) fb;
                   st = st\<lparr>st_free_block := add32 (st_free_block st) 1\<rparr>
               in status_loop top_addr s this (add32 addr (ld32 (mem s) this)) fb st
        else Some (3, this, addr, fb, st, s)
      else Some (0, this, addr, fb, st, s))"

declare status_loop.simps [code]

definition MEM_HeapStatus :: "nat \<Rightarrow> mstate \<Rightarrow> (mheap_status \<times> mstate) option" where
  "MEM_HeapStatus i s =
     do {
       h \<leftarrow> aget (heaps s) i;
       let st = \<lparr>st_size = mh_size h, st_free = 0, st_free_largest = 0, st_valid = 0,
                 st_used_block = 0, st_free_block = 0\<rparr>;
       let addr = ALIGN_UP (mh_base h);
       let top_addr = ALIGN_DOWN (add32 (mh_base h) (mh_size h));
       s \<leftarrow> enter_critical s;
       (result, this, addr, fb, st, s) \<leftarrow> status_loop top_addr s 0 addr (mh_free_list h) st;
       let st = (if result = 0 \<and> addr = top_addr \<and> fb = 0 then st\<lparr>st_valid := 1\<rparr> else st);
       s \<leftarrow> exit_critical s;
       s \<leftarrow> (if result = 1 then dbg_output (DbgStatus1 this (ld32 (mem s) this)) s
            else if result = 2 then dbg_output (DbgStatus2 this (ld32 (mem s) this)) s
            else if result = 3 then dbg_output (DbgStatus3 this (ld32 (mem s) this)) s
            else Some s);
       Some (st, s)
     }"

section \<open>The interface of the module\<close>

text \<open>\<open>hooks\<close>: the context pointer and its three functions are not \<^verbatim>\<open>NULL\<close>.\<close>

definition tuya_mem_heap_init :: "bool \<Rightarrow> mstate \<Rightarrow> int \<times> mstate" where
  "tuya_mem_heap_init hooks s = (if \<not> hooks then (- 1, s) else (0, s\<lparr>ctx := True\<rparr>))"

definition tuya_mem_heap_create :: "nat \<Rightarrow> nat \<Rightarrow> mstate \<Rightarrow> (int \<times> nat option \<times> mstate) option" where
  "tuya_mem_heap_create start_addr sz s =
     do {
       s \<leftarrow> dbg_output (DbgHeapInit sz start_addr) s;
       (h, s) \<leftarrow> MEM_HeapCreate start_addr sz s;
       Some (if h = None then - 1 else 0, h, s)
     }"

definition tuya_mem_heap_delete :: "nat option \<Rightarrow> mstate \<Rightarrow> (int \<times> mstate) option" where
  "tuya_mem_heap_delete handle s = do { s \<leftarrow> MEM_HeapDelete handle s; Some (0, s) }"

text \<open>The loop over the heaps from index \<open>idx\<close> (\<open>n\<close> are left), up to the first that is not created.\<close>

fun malloc_scan :: "nat \<Rightarrow> nat \<Rightarrow> nat \<Rightarrow> mstate \<Rightarrow> (nat \<times> mstate) option" where
  "malloc_scan 0 idx sz s = Some (0, s)"
| "malloc_scan (Suc n) idx sz s =
     do {
       h \<leftarrow> aget (heaps s) idx;
       if 0 < mh_size h
       then if add32 sz MEM_BLOCK_MIN_SIZE < mh_free h
         then do {
           (ptr, s) \<leftarrow> MEM_Allocate (Some idx) sz s;
           if ptr \<noteq> 0 then Some (ptr, s) else malloc_scan n (idx + 1) sz s
         }
         else malloc_scan n (idx + 1) sz s
       else Some (0, s)
     }"

definition tuya_mem_heap_malloc :: "nat option \<Rightarrow> nat \<Rightarrow> mstate \<Rightarrow> (nat \<times> mstate) option" where
  "tuya_mem_heap_malloc handle sz s =
     (if handle \<noteq> None then MEM_Allocate handle sz s else malloc_scan MEM_HEAP_LIST_NUM 0 sz s)"

definition fill_mem :: "nat \<Rightarrow> nat \<Rightarrow> u8 \<Rightarrow> memory \<Rightarrow> memory" where
  "fill_mem p n v m = (\<lambda>i. if p \<le> i \<and> i < p + n then v else m i)"

definition copy_mem :: "nat \<Rightarrow> nat \<Rightarrow> nat \<Rightarrow> memory \<Rightarrow> memory" where
  "copy_mem dst src n m = (\<lambda>i. if dst \<le> i \<and> i < dst + n then m (src + (i - dst)) else m i)"

definition tuya_mem_heap_calloc :: "nat option \<Rightarrow> nat \<Rightarrow> mstate \<Rightarrow> (nat \<times> mstate) option" where
  "tuya_mem_heap_calloc handle sz s =
     do {
       (ptr, s) \<leftarrow> tuya_mem_heap_malloc handle sz s;
       Some (ptr, if ptr \<noteq> 0 then s\<lparr>mem := fill_mem ptr sz 0 (mem s)\<rparr> else s)
     }"

fun free_scan :: "nat \<Rightarrow> nat \<Rightarrow> nat \<Rightarrow> mstate \<Rightarrow> mstate option" where
  "free_scan 0 idx ptr s = Some s"
| "free_scan (Suc n) idx ptr s =
     do {
       h \<leftarrow> aget (heaps s) idx;
       if 0 < mh_size h
       then if mh_base h < ptr \<and> ptr < add32 (mh_base h) (mh_size h)
         then MEM_Deallocate (Some idx) ptr s
         else free_scan n (idx + 1) ptr s
       else Some s
     }"

definition tuya_mem_heap_free :: "nat option \<Rightarrow> nat \<Rightarrow> mstate \<Rightarrow> mstate option" where
  "tuya_mem_heap_free handle ptr s =
     (if handle \<noteq> None then MEM_Deallocate handle ptr s else free_scan MEM_HEAP_LIST_NUM 0 ptr s)"

definition tuya_mem_heap_realloc :: "nat option \<Rightarrow> nat \<Rightarrow> nat \<Rightarrow> mstate \<Rightarrow> (nat \<times> mstate) option" where
  "tuya_mem_heap_realloc handle ptr sz s =
     (if ptr = 0 then tuya_mem_heap_malloc handle sz s
      else
        let old_block = sub32 ptr MEM_BLOCK_HEAD_SIZE;
            pdog = MEM_DOG_ADDR (mem s) old_block
        in if mem s pdog \<noteq> MEM_BLOCK_STAT_USE
           then do { s \<leftarrow> dbg_output (DbgReallocDogTag ptr (ld32 (mem s) old_block)) s; Some (0, s) }
           else
             let sz = (if sz < 4 then 4 else sz);
                 new_size = add32 (ALIGN_UP (add32 sz 1)) MEM_BLOCK_HEAD_SIZE
             in if new_size \<le> ld32 (mem s) old_block then Some (ptr, s)
                else do {
                  (tmp, s) \<leftarrow> tuya_mem_heap_malloc handle sz s;
                  if tmp = 0 then Some (0, s)
                  else do {
                    let s = s\<lparr>mem := copy_mem tmp ptr (sub32 (ld32 (mem s) old_block) MEM_BLOCK_HEAD_SIZE) (mem s)\<rparr>;
                    s \<leftarrow> tuya_mem_heap_free handle ptr s;
                    Some (tmp, s)
                  }
                })"

definition tuya_mem_heap_available :: "nat option \<Rightarrow> mstate \<Rightarrow> nat option" where
  "tuya_mem_heap_available handle s =
     (case handle of None \<Rightarrow> Some (s_free s) | Some i \<Rightarrow> do { h \<leftarrow> aget (heaps s) i; Some (mh_free h) })"

record heap_state =
  hst_total_size :: nat
  hst_free_size :: nat
  hst_free_watermark :: nat
  hst_max_free_block_size :: nat

text \<open>\<open>state\<close> is the caller's structure before the call; the sum is added to what it holds.\<close>

fun total_scan :: "mheap list \<Rightarrow> nat \<Rightarrow> nat" where
  "total_scan [] t = t"
| "total_scan (h # hs) t = (if 0 < mh_size h then total_scan hs (add32 t (mh_size h)) else t)"

definition tuya_mem_heap_state :: "nat option \<Rightarrow> heap_state option \<Rightarrow> mstate \<Rightarrow> heap_state option option" where
  "tuya_mem_heap_state handle state s =
     (case state of
        None \<Rightarrow> Some None
      | Some st \<Rightarrow>
          (case handle of
             None \<Rightarrow> Some (Some (st\<lparr>hst_free_size := s_free s, hst_free_watermark := s_watermark s,
                       hst_total_size := total_scan (heaps s) (hst_total_size st)\<rparr>))
           | Some i \<Rightarrow> do {
               h \<leftarrow> aget (heaps s) i;
               Some (Some (st\<lparr>hst_total_size := mh_size h, hst_free_size := mh_free h,
                               hst_free_watermark := mh_watermark h\<rparr>))
             }))"

section \<open>The interface with debug records\<close>

fun debug_malloc_scan :: "nat \<Rightarrow> nat \<Rightarrow> nat \<Rightarrow> nat \<Rightarrow> nat \<Rightarrow> mstate \<Rightarrow> (nat \<times> mstate) option" where
  "debug_malloc_scan 0 idx sz filename line s = Some (0, s)"
| "debug_malloc_scan (Suc n) idx sz filename line s =
     do {
       h \<leftarrow> aget (heaps s) idx;
       if 0 < mh_size h
       then if add32 sz MEM_BLOCK_MIN_SIZE < mh_free h
         then do {
           (ptr, s) \<leftarrow> MEM_AllocateDebug (Some idx) sz filename line s;
           if ptr \<noteq> 0 then Some (ptr, s) else debug_malloc_scan n (idx + 1) sz filename line s
         }
         else debug_malloc_scan n (idx + 1) sz filename line s
       else Some (0, s)
     }"

definition tuya_mem_heap_debug_malloc ::
  "nat option \<Rightarrow> nat \<Rightarrow> nat \<Rightarrow> nat \<Rightarrow> mstate \<Rightarrow> (nat \<times> mstate) option" where
  "tuya_mem_heap_debug_malloc handle sz filename line s =
     (if handle \<noteq> None then MEM_AllocateDebug handle sz filename line s
      else debug_malloc_scan MEM_HEAP_LIST_NUM 0 sz filename line s)"

definition tuya_mem_heap_debug_calloc ::
  "nat option \<Rightarrow> nat \<Rightarrow> nat \<Rightarrow> nat \<Rightarrow> mstate \<Rightarrow> (nat \<times> mstate) option" where
  "tuya_mem_heap_debug_calloc handle sz filename line s =
     do {
       (ptr, s) \<leftarrow> tuya_mem_heap_debug_malloc handle sz filename line s;
       Some (ptr, if ptr \<noteq> 0 then s\<lparr>mem := fill_mem ptr sz 0 (mem s)\<rparr> else s)
     }"

definition tuya_mem_heap_debug_realloc ::
  "nat option \<Rightarrow> nat \<Rightarrow> nat \<Rightarrow> nat \<Rightarrow> nat \<Rightarrow> mstate \<Rightarrow> (nat \<times> mstate) option" where
  "tuya_mem_heap_debug_realloc handle ptr sz filename line s =
     do {
       (tmp, s) \<leftarrow> tuya_mem_heap_debug_malloc handle sz filename line s;
       if tmp = 0 then Some (0, s)
       else do {
         let s = s\<lparr>mem := copy_mem tmp ptr sz (mem s)\<rparr>;
         s \<leftarrow> tuya_mem_heap_free handle ptr s;
         Some (tmp, s)
       }
     }"

definition diagnose_heap :: "nat \<Rightarrow> mstate \<Rightarrow> mstate option" where
  "diagnose_heap i s =
     do {
       (st, s) \<leftarrow> MEM_HeapStatus i s;
       s \<leftarrow> (if st_valid st = 0 then dbg_output DbgDamaged s else Some s);
       dbg_output (DbgHeapSummary (st_size st) (st_free st) (st_free_largest st) (st_used_block st) (st_free_block st)) s
     }"

fun diagnose_scan :: "nat \<Rightarrow> nat \<Rightarrow> mstate \<Rightarrow> mstate option" where
  "diagnose_scan 0 idx s = Some s"
| "diagnose_scan (Suc n) idx s =
     do {
       h \<leftarrow> aget (heaps s) idx;
       if 0 < mh_size h then do { s \<leftarrow> diagnose_heap idx s; diagnose_scan n (idx + 1) s }
       else Some s
     }"

definition tuya_mem_heap_diagnose :: "nat option \<Rightarrow> mstate \<Rightarrow> (int \<times> mstate) option" where
  "tuya_mem_heap_diagnose handle s =
     do {
       s \<leftarrow> (case handle of Some i \<Rightarrow> diagnose_heap i s | None \<Rightarrow> diagnose_scan MEM_HEAP_LIST_NUM 0 s);
       Some (0, s)
     }"

end
