(* ===== verification/MemHeapInv.thy ===== *)
theory MemHeapInv
  imports MemHeap
begin

text \<open>
  The layout of a heap and what it means that a memory holds it: the blocks tile the heap from
  its first address to its last, each has its size and dog byte in place, and the free list chains
  the free blocks in address order. The lemmas say how the steps of the code change a layout.
\<close>

section \<open>Memory words\<close>

lemma ld32_less: "ld32 m a < 4294967296"
  using unsigned_less [of "m a", where ?'a = nat] unsigned_less [of "m (a + 1)", where ?'a = nat]
    unsigned_less [of "m (a + 2)", where ?'a = nat] unsigned_less [of "m (a + 3)", where ?'a = nat]
  by (simp add: ld32_def)

lemma ld32_cong:
  "\<forall>i. a \<le> i \<and> i < a + 4 \<longrightarrow> m' i = m i \<Longrightarrow> ld32 m' a = ld32 m a"
  by (simp add: ld32_def)

lemma word_bytes:
  assumes "v < 4294967296"
  shows "v mod 256 + 256 * (v div 256 mod 256) + 65536 * (v div 65536 mod 256) + 16777216 * (v div 16777216 mod 256) = (v :: nat)"
proof -
  have "v div 16777216 mod 256 = v div 16777216" using assms by (simp add: div_less_iff_less_mult)
  moreover have "v div 65536 = v div 65536 mod 256 + 256 * (v div 16777216)"
    using mod_mult_div_eq [of "v div 65536" 256] by (simp add: div_mult2_eq [symmetric])
  moreover have "v div 256 = v div 256 mod 256 + 256 * (v div 65536)"
    using mod_mult_div_eq [of "v div 256" 256] by (simp add: div_mult2_eq [symmetric])
  moreover have "v = v mod 256 + 256 * (v div 256)" by simp
  ultimately show ?thesis by linarith
qed

lemma ld32_st32 [simp]: "v < 4294967296 \<Longrightarrow> ld32 (st32 a v m) a = v"
  using word_bytes [of v] by (simp add: ld32_def st32_def unat_of_nat)

lemma st32_apply: "st32 a v m i = (if a \<le> i \<and> i < a + 4 then st32 a v m i else m i)"
  by (auto simp: st32_def)

lemma st32_outside [simp]: "i < a \<or> a + 4 \<le> i \<Longrightarrow> st32 a v m i = m i"
  by (auto simp: st32_def)

lemma ld32_st32_disjoint [simp]: "b + 4 \<le> a \<or> a + 4 \<le> b \<Longrightarrow> ld32 (st32 a v m) b = ld32 m b"
  by (rule ld32_cong) auto

lemma ld32_upd_disjoint [simp]: "i < b \<or> b + 4 \<le> i \<Longrightarrow> ld32 (m(i := v)) b = ld32 m b"
  by (rule ld32_cong) auto

lemma bytes_eq_word:
  fixes a b c d :: nat
  assumes "a < 256" "b < 256" "c < 256"
  shows "(a + 256 * b + 65536 * c + 16777216 * d) mod 256 = a"
    and "(a + 256 * b + 65536 * c + 16777216 * d) div 256 mod 256 = b"
    and "(a + 256 * b + 65536 * c + 16777216 * d) div 65536 mod 256 = c"
    and "(a + 256 * b + 65536 * c + 16777216 * d) div 16777216 = d"
proof -
  let ?v = "a + 256 * b + 65536 * c + 16777216 * d"
  have 1: "?v = a + 256 * (b + 256 * (c + 256 * d))" by simp
  show "?v mod 256 = a" unfolding 1 using assms(1) by (simp only: mod_mult_self2 mod_less)
  have 2: "?v div 256 = b + 256 * (c + 256 * d)" unfolding 1 using assms(1) by simp
  show "?v div 256 mod 256 = b" unfolding 2 using assms(2) by (simp only: mod_mult_self2 mod_less)
  have 3: "?v div 65536 = c + 256 * d"
  proof -
    have "?v div 65536 = ?v div 256 div 256" by (simp add: div_mult2_eq [symmetric])
    then show ?thesis using 2 assms(2) by simp
  qed
  show "?v div 65536 mod 256 = c" unfolding 3 using assms(3) by (simp only: mod_mult_self2 mod_less)
  have "?v div 16777216 = ?v div 65536 div 256" by (simp add: div_mult2_eq [symmetric])
  then show "?v div 16777216 = d" using 3 assms(3) by simp
qed

lemma st32_same: "ld32 m a = v \<Longrightarrow> st32 a v m = m"
proof -
  assume v: "ld32 m a = v"
  have b: "unat (x :: u8) < 256" for x using unsigned_less [of x, where ?'a = nat] by simp
  have "v = unat (m a) + 256 * unat (m (a + 1)) + 65536 * unat (m (a + 2)) + 16777216 * unat (m (a + 3))"
    using v by (simp add: ld32_def)
  note e = bytes_eq_word [OF b b b, of "m a" "m (a + 1)" "m (a + 2)" "unat (m (a + 3))", folded this]
  have w: "of_nat k = x" if "k mod 256 = unat x" for k and x :: u8
    using that by (simp add: word_unat_eq_iff unat_of_nat)
  have "v div 16777216 mod 256 = unat (m (a + 3))" using e(4) b by simp
  then have "of_nat v = m a" "of_nat (v div 256) = m (a + 1)" "of_nat (v div 65536) = m (a + 2)"
    "of_nat (v div 16777216) = m (a + 3)" using e(1-3) w by blast+
  then show ?thesis by (auto simp: st32_def)
qed

section \<open>Layouts\<close>

text \<open>A block is its address, its size and whether it is in use.\<close>

type_synonym block = "nat \<times> nat \<times> bool"

fun tiles :: "nat \<Rightarrow> block list \<Rightarrow> nat \<Rightarrow> bool" where
  "tiles a [] t \<longleftrightarrow> a = t"
| "tiles a ((p, n, u) # bs) t \<longleftrightarrow> p = a \<and> 12 \<le> n \<and> 4 dvd n \<and> tiles (a + n) bs t"

definition frees :: "block list \<Rightarrow> nat list" where
  "frees bs = map fst (filter (\<lambda>(p, n, u). \<not> u) bs)"

definition useds :: "block list \<Rightarrow> (nat \<times> nat) list" where
  "useds bs = map (\<lambda>(p, n, u). (p, n)) (filter (\<lambda>(p, n, u). u) bs)"

definition free_sum :: "block list \<Rightarrow> nat" where
  "free_sum bs = sum_list (map (\<lambda>(p, n, u). if u then 0 else n) bs)"

definition header_ok :: "memory \<Rightarrow> block \<Rightarrow> bool" where
  "header_ok m b = (case b of (p, n, u) \<Rightarrow>
     ld32 m p = n \<and> m (p + n - 1) = (if u then MEM_BLOCK_STAT_USE else MEM_BLOCK_STAT_FREE))"

fun chain :: "memory \<Rightarrow> nat \<Rightarrow> nat list \<Rightarrow> nat \<Rightarrow> bool" where
  "chain m f [] e \<longleftrightarrow> f = e"
| "chain m f (p # ps) e \<longleftrightarrow> f = p \<and> chain m (ld32 m (p + 4)) ps e"

fun coalesced :: "block list \<Rightarrow> bool" where
  "coalesced ((p, n, u) # (q, k, v) # bs) \<longleftrightarrow> (u \<or> v) \<and> coalesced ((q, k, v) # bs)"
| "coalesced _ = True"

definition heap_wf :: "memory \<Rightarrow> nat \<Rightarrow> nat \<Rightarrow> nat \<Rightarrow> block list \<Rightarrow> bool" where
  "heap_wf m fl a t bs \<longleftrightarrow>
     0 < a \<and> 4 dvd a \<and> t < 4294967296 \<and> tiles a bs t \<and> list_all (header_ok m) bs \<and> chain m fl (frees bs) 0"

lemma layout_simps [simp]:
  "frees [] = []" "frees ((p, n, u) # bs) = (if u then frees bs else p # frees bs)"
  "frees (bs @ cs) = frees bs @ frees cs"
  "useds [] = []" "useds ((p, n, u) # bs) = (if u then (p, n) # useds bs else useds bs)"
  "useds (bs @ cs) = useds bs @ useds cs"
  "free_sum [] = 0" "free_sum ((p, n, u) # bs) = (if u then 0 else n) + free_sum bs"
  "free_sum (bs @ cs) = free_sum bs + free_sum cs"
  by (simp_all add: frees_def useds_def free_sum_def)

lemma tiles_append: "tiles a (bs @ cs) t \<longleftrightarrow> (\<exists>b. tiles a bs b \<and> tiles b cs t)"
  by (induction bs arbitrary: a) auto

lemma tiles_bounds: "tiles a bs t \<Longrightarrow> a \<le> t"
  by (induction bs arbitrary: a) force+

lemma tiles_member: "tiles a bs t \<Longrightarrow> (p, n, u) \<in> set bs \<Longrightarrow> a \<le> p \<and> p + n \<le> t \<and> 12 \<le> n \<and> 4 dvd n"
proof (induction bs arbitrary: a)
  case (Cons b bs)
  obtain q k v where b: "b = (q, k, v)" by (cases b)
  then have t: "q = a" "12 \<le> k" "4 dvd k" "tiles (a + k) bs t" using Cons.prems by auto
  show ?case
  proof (cases "(p, n, u) = b")
    case True
    then show ?thesis using t b tiles_bounds by auto
  next
    case False
    then show ?thesis using Cons.IH [OF t(4)] Cons.prems(2) by auto
  qed
qed simp

lemma tiles_aligned: "tiles a bs t \<Longrightarrow> 4 dvd a \<Longrightarrow> (p, n, u) \<in> set bs \<Longrightarrow> 4 dvd p"
  by (induction bs arbitrary: a) force+

lemma tiles_end_aligned: "tiles a bs t \<Longrightarrow> 4 dvd a \<Longrightarrow> 4 dvd t"
  by (induction bs arbitrary: a) force+

lemma tiles_free_sum: "tiles a bs t \<Longrightarrow> free_sum bs \<le> t - a"
proof (induction bs arbitrary: a)
  case (Cons b bs)
  obtain q k v where b: "b = (q, k, v)" by (cases b)
  then show ?case using Cons tiles_bounds [of "a + k" bs t] by force
qed simp

lemma frees_member: "p \<in> set (frees bs) \<longleftrightarrow> (\<exists>n. (p, n, False) \<in> set bs)"
  by (force simp: frees_def)

lemma useds_member: "(p, n) \<in> set (useds bs) \<longleftrightarrow> (p, n, True) \<in> set bs"
  by (force simp: useds_def)

text \<open>The header and the link of a block lie inside it.\<close>

lemma header_ok_cong:
  "\<forall>i. p \<le> i \<and> i < p + n \<longrightarrow> m' i = m i \<Longrightarrow> 12 \<le> n \<Longrightarrow> header_ok m' (p, n, u) = header_ok m (p, n, u)"
  using ld32_cong [of p m' m] by (simp add: header_ok_def)

lemma headers_cong:
  assumes "tiles a bs t" and "\<forall>i. a \<le> i \<and> i < t \<longrightarrow> m' i = m i"
  shows "list_all (header_ok m') bs = list_all (header_ok m) bs"
proof -
  have "header_ok m' b = header_ok m b" if b: "b \<in> set bs" for b
  proof -
    obtain p n u where e: "b = (p, n, u)" by (cases b)
    then show ?thesis using tiles_member [OF assms(1), of p n u] b assms(2)
      by (auto intro!: header_ok_cong)
  qed
  then show ?thesis by (auto simp: list_all_iff)
qed

lemma chain_cong:
  "\<forall>p\<in>set ps. ld32 m' (p + 4) = ld32 m (p + 4) \<Longrightarrow> chain m' f ps e = chain m f ps e"
  by (induction ps arbitrary: f) simp_all

lemma chain_frees_cong:
  assumes "tiles a bs t" and "\<forall>i. a \<le> i \<and> i < t \<longrightarrow> m' i = m i"
  shows "chain m' f (frees bs) e = chain m f (frees bs) e"
proof (rule chain_cong, rule ballI)
  fix p assume "p \<in> set (frees bs)"
  then obtain n where "(p, n, False) \<in> set bs" by (auto simp: frees_member)
  then show "ld32 m' (p + 4) = ld32 m (p + 4)"
    using tiles_member [OF assms(1)] assms(2) by (intro ld32_cong) fastforce
qed

lemma chain_append: "chain m f (ps @ qs) e \<longleftrightarrow> (\<exists>g. chain m f ps g \<and> chain m g qs e)"
  by (induction ps arbitrary: f) auto

text \<open>Redirecting the last link of a chain.\<close>

lemma chain_relink:
  assumes "chain m f (ps @ [p]) e" and "\<forall>q\<in>set ps. ld32 m' (q + 4) = ld32 m (q + 4)"
    and "ld32 m' (p + 4) = e'"
  shows "chain m' f (ps @ [p]) e'"
  using assms(1,3) chain_cong [OF assms(2)] by (auto simp: chain_append)

section \<open>Local changes of a layout\<close>

definition blocks_ok :: "memory \<Rightarrow> nat \<Rightarrow> nat \<Rightarrow> block list \<Rightarrow> bool" where
  "blocks_ok m a t bs \<longleftrightarrow>
     0 < a \<and> 4 dvd a \<and> t < 4294967296 \<and> tiles a bs t \<and> list_all (header_ok m) bs"

lemma heap_wf_alt: "heap_wf m fl a t bs \<longleftrightarrow> blocks_ok m a t bs \<and> chain m fl (frees bs) 0"
  by (auto simp: heap_wf_def blocks_ok_def)

lemma blocks_okD:
  assumes "blocks_ok m a t bs" and "(p, n, u) \<in> set bs"
  shows "0 < p" "4 dvd p" "4 dvd n" "12 \<le> n" "a \<le> p" "p + n \<le> t" "t < 4294967296"
    "ld32 m p = n" "m (p + n - 1) = (if u then MEM_BLOCK_STAT_USE else MEM_BLOCK_STAT_FREE)"
proof -
  have t: "0 < a" "4 dvd a" "t < 4294967296" "tiles a bs t" "header_ok m (p, n, u)"
    using assms by (auto simp: blocks_ok_def list_all_iff)
  show "a \<le> p" "p + n \<le> t" "12 \<le> n" "4 dvd n" using tiles_member [OF t(4) assms(2)] by simp_all
  then show "0 < p" using t(1) by simp
  show "4 dvd p" using tiles_aligned [OF t(4,2) assms(2)] .
  show "t < 4294967296" by (rule t(3))
  show "ld32 m p = n" "m (p + n - 1) = (if u then MEM_BLOCK_STAT_USE else MEM_BLOCK_STAT_FREE)"
    using t(5) by (simp_all add: header_ok_def)
qed

lemma tiles_disjoint:
  "tiles a bs t \<Longrightarrow> (p, n, u) \<in> set bs \<Longrightarrow> (q, k, v) \<in> set bs \<Longrightarrow>
   (p, n, u) = (q, k, v) \<or> p + n \<le> q \<or> q + k \<le> p"
proof (induction bs arbitrary: a)
  case (Cons b bs)
  obtain p' n' u' where b: "b = (p', n', u')" by (cases b)
  then have t: "p' = a" "tiles (a + n') bs t" using Cons.prems(1) by auto
  have hd: "x = (p', n', u') \<or> p' + n' \<le> fst x" if "x \<in> set (b # bs)" for x
  proof (cases "x = b")
    case False
    obtain p2 n2 u2 where x: "x = (p2, n2, u2)" by (cases x)
    then have "(p2, n2, u2) \<in> set bs" using that False by auto
    from tiles_member [OF t(2) this] show ?thesis using x t(1) by simp
  qed (use b in simp)
  show ?case
  proof (cases "(p, n, u) = b \<or> (q, k, v) = b")
    case True
    moreover have "(p, n, u) = b \<or> p' + n' \<le> p" "(q, k, v) = b \<or> p' + n' \<le> q"
      using hd [OF Cons.prems(2)] hd [OF Cons.prems(3)] b by simp_all
    ultimately show ?thesis unfolding b prod.inject by (elim disjE conjE) simp_all
  next
    case False
    then show ?thesis using Cons.IH [OF t(2)] Cons.prems(2,3) by auto
  qed
qed simp

lemma blocks_disjoint:
  assumes "blocks_ok m a t bs" and "(p, n, u) \<in> set bs" and "(q, k, v) \<in> set bs" and "p \<noteq> q"
  shows "p + n \<le> q \<or> q + k \<le> p"
  using tiles_disjoint [OF _ assms(2,3), of a t] assms(1,4) by (simp add: blocks_ok_def)

text \<open>Where the headers are not touched the blocks stay in place.\<close>

lemma blocks_ok_cong:
  assumes "blocks_ok m a t bs"
    and "\<And>p n u. (p, n, u) \<in> set bs \<Longrightarrow> ld32 m' p = ld32 m p \<and> m' (p + n - 1) = m (p + n - 1)"
  shows "blocks_ok m' a t bs"
proof -
  have "header_ok m' b" if "b \<in> set bs" for b
  proof -
    obtain p n u where "b = (p, n, u)" by (cases b)
    then show ?thesis using that assms by (fastforce simp: blocks_ok_def list_all_iff header_ok_def)
  qed
  then show ?thesis using assms(1) by (simp add: blocks_ok_def list_all_iff)
qed

text \<open>The link word of a block.\<close>

lemma blocks_ok_link:
  assumes "blocks_ok m a t bs" and "(p, n, u) \<in> set bs"
  shows "blocks_ok (st32 (p + 4) v m) a t bs"
proof (rule blocks_ok_cong [OF assms(1)])
  fix q k w assume q: "(q, k, w) \<in> set bs"
  have n: "12 \<le> n" "12 \<le> k" using blocks_okD [OF assms] blocks_okD [OF assms(1) q] by simp_all
  show "ld32 (st32 (p + 4) v m) q = ld32 m q \<and> st32 (p + 4) v m (q + k - 1) = m (q + k - 1)"
  proof (cases "p = q")
    case True
    then show ?thesis using n
      by (intro conjI ld32_st32_disjoint st32_outside) arith+
  next
    case False
    then have "p + n \<le> q \<or> q + k \<le> p" using blocks_disjoint [OF assms q] by simp
    then show ?thesis using n by (intro conjI ld32_st32_disjoint st32_outside) arith+
  qed
qed

lemma link_other:
  assumes "blocks_ok m a t bs" and "(p, n, u) \<in> set bs" and "(q, k, w) \<in> set bs" and "p \<noteq> q"
  shows "ld32 (st32 (p + 4) v m') (q + 4) = ld32 m' (q + 4)"
  using blocks_disjoint [OF assms] blocks_okD(4) [OF assms(1,2)] blocks_okD(4) [OF assms(1,3)]
  by (intro ld32_st32_disjoint) arith

text \<open>The dog byte of a block, and its header word: links are not touched.\<close>

lemma dog_links:
  assumes "blocks_ok m a t bs" and "(p, n, u) \<in> set bs" and "(q, k, w) \<in> set bs"
  shows "ld32 (m'(p + n - 1 := d)) (q + 4) = ld32 m' (q + 4)"
proof (cases "p = q")
  case True
  then have "n = k" using assms tiles_disjoint [of a bs t p n u q k w] blocks_okD [OF assms(1,2)] blocks_okD [OF assms(1,3)]
    by (auto simp: blocks_ok_def)
  then show ?thesis using True blocks_okD(4) [OF assms(1,2)] by (intro ld32_upd_disjoint) arith
next
  case False
  then show ?thesis
    using blocks_disjoint [OF assms] blocks_okD(4) [OF assms(1,2)] blocks_okD(4) [OF assms(1,3)]
    by (intro ld32_upd_disjoint) arith
qed

lemma size_links:
  assumes "blocks_ok m a t bs" and "(p, n, u) \<in> set bs" and "(q, k, w) \<in> set bs"
  shows "ld32 (st32 p v m') (q + 4) = ld32 m' (q + 4)"
proof (cases "p = q")
  case False
  then show ?thesis
    using blocks_disjoint [OF assms] blocks_okD(4) [OF assms(1,2)] blocks_okD(4) [OF assms(1,3)]
    by (intro ld32_st32_disjoint) arith
next
  case True
  then show ?thesis by (intro ld32_st32_disjoint) simp
qed

lemma blocks_ok_flip:
  assumes "blocks_ok m a t (l1 @ (p, n, u) # l2)"
  shows "blocks_ok (m(p + n - 1 := (if v then MEM_BLOCK_STAT_USE else MEM_BLOCK_STAT_FREE))) a t (l1 @ (p, n, v) # l2)"
    (is "blocks_ok ?m a t _")
proof -
  let ?bs = "l1 @ (p, n, u) # l2"
  have mem: "(p, n, u) \<in> set ?bs" by simp
  obtain b where t: "tiles a l1 p" "12 \<le> n" "4 dvd n" "tiles (p + n) l2 t"
    using assms by (auto simp: blocks_ok_def tiles_append)
  have "header_ok ?m x" if x: "x \<in> set l1 \<or> x \<in> set l2" for x
  proof -
    obtain q k w where e: "x = (q, k, w)" by (cases x)
    then have q: "(q, k, w) \<in> set ?bs" using x by auto
    have "q + k \<le> p \<or> p + n \<le> q" using x e tiles_member [OF t(1)] tiles_member [OF t(4)] by auto
    moreover have "12 \<le> k" using blocks_okD(4) [OF assms q] .
    ultimately have "p + n - 1 < q \<or> q + 4 \<le> p + n - 1" "q + k - 1 \<noteq> p + n - 1"
      using t(2) by arith+
    then have "ld32 ?m q = ld32 m q" "?m (q + k - 1) = m (q + k - 1)"
      by - (rule ld32_upd_disjoint, assumption, rule fun_upd_other)
    then show ?thesis using e blocks_okD [OF assms q] by (simp add: header_ok_def)
  qed
  moreover have "header_ok ?m (p, n, v)"
  proof -
    have "p + 4 \<le> p + n - 1" using t(2) by arith
    then have "ld32 ?m p = ld32 m p" by - (rule ld32_upd_disjoint, simp)
    then show ?thesis using blocks_okD(8) [OF assms mem] by (simp add: header_ok_def)
  qed
  ultimately show ?thesis using assms by (auto simp: blocks_ok_def list_all_iff tiles_append)
qed

text \<open>Splitting a free block; its upper part becomes used.\<close>

lemma blocks_ok_split:
  assumes ok: "blocks_ok m a t (l1 @ (p, n, False) # l2)" and s: "12 \<le> s" "4 dvd s" "s + 12 \<le> n"
    and m': "m' = (st32 (p + (n - s)) s ((st32 p (n - s) m)(p + (n - s) - 1 := MEM_BLOCK_STAT_FREE)))
       (p + n - 1 := MEM_BLOCK_STAT_USE)"
  shows "blocks_ok m' a t (l1 @ (p, n - s, False) # (p + (n - s), s, True) # l2)"
    and "(q, k, w) \<in> set (l1 @ (p, n, False) # l2) \<Longrightarrow> ld32 m' (q + 4) = ld32 m (q + 4)"
    and "i < p \<or> p + n \<le> i \<Longrightarrow> m' i = m i"
    and "ld32 m' (p + (n - s)) = s"
proof -
  let ?bs = "l1 @ (p, n, False) # l2"
  have mem: "(p, n, False) \<in> set ?bs" by simp
  note p = blocks_okD [OF ok mem]
  have t: "tiles a l1 p" "tiles (p + n) l2 t" "0 < a" "4 dvd a"
    using ok by (auto simp: blocks_ok_def tiles_append)
  have out: "m' i = m i" if "i < p \<or> p + n \<le> i" for i
  proof -
    have "i \<noteq> p + n - 1" "i \<noteq> p + (n - s) - 1" "i < p + (n - s) \<or> p + (n - s) + 4 \<le> i" "i < p \<or> p + 4 \<le> i"
      using that s by arith+
    then show ?thesis by (simp only: m' fun_upd_other st32_outside not_False_eq_True)
  qed
  show "i < p \<or> p + n \<le> i \<Longrightarrow> m' i = m i" by (rule out)
  have ldout: "ld32 m' x = ld32 m x" if "x + 4 \<le> p \<or> p + n \<le> x" for x
    using that out by (intro ld32_cong) auto
  have lt: "n < 4294967296" using p by simp
  have ge: "12 \<le> n - s" using s by simp
  let ?m1 = "(st32 p (n - s) m)(p + (n - s) - 1 := MEM_BLOCK_STAT_FREE)"
  let ?m2 = "st32 (p + (n - s)) s ?m1"
  show top: "ld32 m' (p + (n - s)) = s"
  proof -
    have "ld32 m' (p + (n - s)) = ld32 ?m2 (p + (n - s))"
      unfolding m' by (rule ld32_upd_disjoint) (use s in arith)
    then show ?thesis using s lt by (simp only: ld32_st32)
  qed
  have ld_low: "ld32 m' x = ld32 (st32 p (n - s) m) x" if "x + 4 \<le> p + 8" for x
  proof -
    have "ld32 m' x = ld32 ?m2 x" unfolding m' by (rule ld32_upd_disjoint) (use s ge that in arith)
    also have "\<dots> = ld32 ?m1 x" by (rule ld32_st32_disjoint) (use s ge that in arith)
    also have "\<dots> = ld32 (st32 p (n - s) m) x" by (rule ld32_upd_disjoint) (use s ge that in arith)
    finally show ?thesis .
  qed
  have low1: "ld32 m' p = n - s" using ld_low [of p] lt by simp
  have low2: "m' (p + (n - s) - 1) = MEM_BLOCK_STAT_FREE"
  proof -
    have "m' (p + (n - s) - 1) = ?m2 (p + (n - s) - 1)" unfolding m' by (rule fun_upd_other) (use s ge in arith)
    also have "\<dots> = ?m1 (p + (n - s) - 1)" by (rule st32_outside) (use s ge in arith)
    finally show ?thesis by simp
  qed
  have low3: "m' (p + n - 1) = MEM_BLOCK_STAT_USE" by (simp add: m')
  note low = low1 low2 low3
  have pn: "p + (n - s) + s - 1 = p + n - 1" using s by simp
  have "header_ok m' x" if x: "x \<in> set l1 \<or> x \<in> set l2" for x
  proof -
    obtain q k w where e: "x = (q, k, w)" by (cases x)
    then have q: "(q, k, w) \<in> set ?bs" using x by auto
    have "q + k \<le> p \<or> p + n \<le> q" using x e tiles_member [OF t(1)] tiles_member [OF t(2)] by auto
    moreover have "12 \<le> k" using blocks_okD(4) [OF ok q] .
    ultimately have "q + 4 \<le> p \<or> p + n \<le> q" "q + k - 1 < p \<or> p + n \<le> q + k - 1" by arith+
    then have "ld32 m' q = ld32 m q" "m' (q + k - 1) = m (q + k - 1)" using ldout out by blast+
    then show ?thesis using e blocks_okD [OF ok q] by (simp add: header_ok_def)
  qed
  moreover have "header_ok m' (p, n - s, False)" "header_ok m' (p + (n - s), s, True)"
    using low top pn by (simp_all add: header_ok_def)
  moreover have "4 dvd (n - s)" using s(2) p(3) by simp
  moreover have "tiles (p + (n - s) + s) l2 t" using t(2) s by simp
  ultimately show "blocks_ok m' a t (l1 @ (p, n - s, False) # (p + (n - s), s, True) # l2)"
    using t s p(7) by (auto simp: blocks_ok_def list_all_iff tiles_append)
  show "(q, k, w) \<in> set ?bs \<Longrightarrow> ld32 m' (q + 4) = ld32 m (q + 4)"
  proof -
    assume q: "(q, k, w) \<in> set ?bs"
    show ?thesis
    proof (cases "q = p")
      case True
      have "ld32 m' (p + 4) = ld32 (st32 p (n - s) m) (p + 4)" by (rule ld_low) simp
      then show ?thesis using True by simp
    next
      case False
      then have "p + n \<le> q \<or> q + k \<le> p" using blocks_disjoint [OF ok mem q] by simp
      then show ?thesis using blocks_okD(4) [OF ok q] by (intro ldout) arith
    qed
  qed
qed

text \<open>Merging two adjacent free blocks.\<close>

lemma blocks_ok_merge:
  assumes ok: "blocks_ok m a t (l1 @ (p, n, False) # (q, k, False) # l2)"
    and m': "m' = st32 p (n + k) m"
  shows "blocks_ok m' a t (l1 @ (p, n + k, False) # l2)" and "q = p + n" and "add32 n k = n + k"
    and "i < p \<or> p + 4 \<le> i \<Longrightarrow> m' i = m i"
proof -
  let ?bs = "l1 @ (p, n, False) # (q, k, False) # l2"
  have mem: "(p, n, False) \<in> set ?bs" "(q, k, False) \<in> set ?bs" by simp_all
  note p = blocks_okD [OF ok mem(1)] and r = blocks_okD [OF ok mem(2)]
  have t: "tiles a l1 p" "q = p + n" "tiles (p + n + k) l2 t" "0 < a" "4 dvd a"
    using ok by (auto simp: blocks_ok_def tiles_append)
  then show "q = p + n" by simp
  show "i < p \<or> p + 4 \<le> i \<Longrightarrow> m' i = m i" by (simp add: m')
  have lt: "n + k < 4294967296" using r t(2) by simp
  then show "add32 n k = n + k" by (simp add: arith32)
  have "header_ok m' x" if x: "x \<in> set l1 \<or> x \<in> set l2" for x
  proof -
    obtain r h w where e: "x = (r, h, w)" by (cases x)
    then have q: "(r, h, w) \<in> set ?bs" using x by auto
    have "r + h \<le> p \<or> p + n + k \<le> r" using x e tiles_member [OF t(1)] tiles_member [OF t(3)] by auto
    moreover have k: "12 \<le> h" using blocks_okD(4) [OF ok q] .
    ultimately have "p + 4 \<le> r \<or> r + 4 \<le> p" "r + h - 1 < p \<or> p + 4 \<le> r + h - 1" using p(4) by arith+
    then have "ld32 m' r = ld32 m r" "m' (r + h - 1) = m (r + h - 1)"
      unfolding m' by - (rule ld32_st32_disjoint, blast, rule st32_outside)
    then show ?thesis using e blocks_okD [OF ok q] by (simp add: header_ok_def)
  qed
  moreover have "header_ok m' (p, n + k, False)"
  proof -
    have "p + 4 \<le> p + (n + k) - 1" "p + (n + k) - 1 = q + k - 1" using p(4) t(2) by arith+
    then have "m' (p + (n + k) - 1) = m (q + k - 1)" unfolding m' by (simp only: st32_outside simp_thms)
    then show ?thesis using r(9) lt by (simp add: header_ok_def m')
  qed
  ultimately show "blocks_ok m' a t (l1 @ (p, n + k, False) # l2)"
    using t p r by (auto simp: blocks_ok_def list_all_iff tiles_append add.assoc)
qed

section \<open>The search loops\<close>

lemma frees_split: "frees bs = xs @ p # ys \<Longrightarrow> \<exists>l1 n l2. bs = l1 @ (p, n, False) # l2 \<and> frees l1 = xs \<and> frees l2 = ys"
proof (induction bs arbitrary: xs)
  case (Cons b bs)
  obtain q k u where b: "b = (q, k, u)" by (cases b)
  show ?case
  proof (cases "u \<or> xs \<noteq> []")
    case True
    then obtain xs' where "frees bs = xs' @ p # ys" "u \<and> xs' = xs \<or> \<not> u \<and> xs = q # xs'"
      using Cons.prems b by (cases xs) (auto split: if_splits)
    then obtain l1 n l2 where l: "bs = l1 @ (p, n, False) # l2" "frees l1 = xs'" "frees l2 = ys"
      using Cons.IH by blast
    have "frees (b # l1) = xs" using \<open>u \<and> xs' = xs \<or> _\<close> l(2) b by auto
    moreover have "b # bs = (b # l1) @ (p, n, False) # l2" using l(1) by simp
    ultimately show ?thesis using l(3) by blast
  next
    case False
    then have "b # bs = [] @ (p, k, False) # bs" "frees bs = ys" "frees [] = xs"
      using Cons.prems b by auto
    then show ?thesis by blast
  qed
qed simp

lemma blk_next_eq:
  assumes "blocks_ok m a t bs" and "p \<in> set (frees bs)"
  shows "blk_next m' p = ld32 m' (p + 4)" "set_next p v m' = st32 (p + 4) v m'" "p \<noteq> 0" "p < t" "t < 4294967296"
proof -
  obtain n where "(p, n, False) \<in> set bs" using assms(2) by (auto simp: frees_member)
  note b = blocks_okD [OF assms(1) this]
  have "add32 p 4 = p + 4" using b by (intro add32_nowrap) arith
  then show "blk_next m' p = ld32 m' (p + 4)" "set_next p v m' = st32 (p + 4) v m'"
    by (simp_all add: blk_next_def set_next_def)
  show "p \<noteq> 0" "p < t" "t < 4294967296" using b by arith+
qed

lemma fit_loop_result:
  assumes ok: "blocks_ok m a t bs"
  shows "chain m tb ps 0 \<Longrightarrow> set ps \<subseteq> set (frees bs) \<Longrightarrow> sz \<le> ld32 m this \<Longrightarrow>
   \<exists>pre' this'. fit_loop m sz pre this pb tb n = Some (pre', this') \<and> sz \<le> ld32 m this' \<and> ld32 m this' \<le> ld32 m this \<and>
     ((pre', this') = (pre, this) \<or> (\<exists>xs ys. pb # ps = xs @ pre' # this' # ys))"
proof (induction ps arbitrary: pre this pb tb n)
  case Nil
  then show ?case by (simp add: fit_loop.simps)
next
  case (Cons p ps)
  have c: "tb = p" "chain m (ld32 m (p + 4)) ps 0" using Cons.prems(1) by auto
  have pin: "p \<in> set (frees bs)" using Cons.prems(2) by simp
  note nx = blk_next_eq(1) [OF ok pin] and nz = blk_next_eq(3) [OF ok pin]
  define hit where "hit \<longleftrightarrow> sz \<le> ld32 m p \<and> ld32 m p \<le> ld32 m this"
  define this1 pre1 n1 where "this1 = (if hit then p else this)" and "pre1 = (if hit then pb else pre)"
    and "n1 = (if hit then n + 1 else n)"
  have step: "fit_loop m sz pre this pb tb n =
      (if FIT_FIND_DEPTH \<le> n1 then Some (pre1, this1) else fit_loop m sz pre1 this1 p (ld32 m (p + 4)) n1)"
    using nz by (subst fit_loop.simps) (simp add: c(1) nx hit_def this1_def pre1_def n1_def Let_def)
  have s1: "sz \<le> ld32 m this1" "ld32 m this1 \<le> ld32 m this"
    using Cons.prems(3) by (auto simp: this1_def hit_def)
  have here: "(pre1, this1) = (pre, this) \<or> pb # p # ps = [] @ pre1 # this1 # ps"
    by (auto simp: this1_def pre1_def)
  show ?case
  proof (cases "FIT_FIND_DEPTH \<le> n1")
    case True
    then have "fit_loop m sz pre this pb tb n = Some (pre1, this1)" using step by simp
    then show ?thesis using s1 here by blast
  next
    case False
    obtain pre' this' where r: "fit_loop m sz pre1 this1 p (ld32 m (p + 4)) n1 = Some (pre', this')"
      "sz \<le> ld32 m this'" "ld32 m this' \<le> ld32 m this1"
      "(pre', this') = (pre1, this1) \<or> (\<exists>xs ys. p # ps = xs @ pre' # this' # ys)"
      using Cons.IH [OF c(2) _ s1(1), of pre1 p n1] Cons.prems(2) by auto
    have "(pre', this') = (pre, this) \<or> (\<exists>xs ys. pb # p # ps = xs @ pre' # this' # ys)"
      using r(4)
    proof
      assume "\<exists>xs ys. p # ps = xs @ pre' # this' # ys"
      then obtain xs ys where "pb # p # ps = (pb # xs) @ pre' # this' # ys" by auto
      then show ?thesis by blast
    next
      assume "(pre', this') = (pre1, this1)"
      then show ?thesis using here by blast
    qed
    moreover have "fit_loop m sz pre this pb tb n = Some (pre', this')" using step False r(1) by simp
    moreover have "ld32 m this' \<le> ld32 m this" using r(3) s1(2) by simp
    ultimately show ?thesis using r(2) by blast
  qed
qed

lemma find_loop_result:
  assumes ok: "blocks_ok m a t bs"
  shows "chain m f ps 0 \<Longrightarrow> set ps \<subseteq> set (frees bs) \<Longrightarrow>
    find_loop m sz pre0 f = Some None \<and> (\<forall>p\<in>set ps. ld32 m p < sz) \<or>
    (\<exists>pre this xs ys. find_loop m sz pre0 f = Some (Some (pre, this)) \<and> sz \<le> ld32 m this \<and>
       ps = xs @ this # ys \<and> pre = last (pre0 # xs))"
proof (induction ps arbitrary: f pre0)
  case Nil
  then show ?case by (simp add: find_loop.simps)
next
  case (Cons p ps)
  have c: "f = p" "chain m (ld32 m (p + 4)) ps 0" using Cons.prems(1) by auto
  have pin: "p \<in> set (frees bs)" using Cons.prems(2) by simp
  note nx = blk_next_eq(1) [OF ok pin] and nz = blk_next_eq(3) [OF ok pin]
  show ?case
  proof (cases "sz \<le> ld32 m p")
    case True
    obtain pre this where r: "fit_loop m sz pre0 p p (ld32 m (p + 4)) 0 = Some (pre, this)" "sz \<le> ld32 m this"
      "(pre, this) = (pre0, p) \<or> (\<exists>xs ys. p # ps = xs @ pre # this # ys)"
      using fit_loop_result [OF ok c(2) _ True, of pre0 p 0] Cons.prems(2) by auto
    have "find_loop m sz pre0 f = Some (Some (pre, this))"
      using True nz r(1) by (subst find_loop.simps) (simp add: c(1) nx)
    moreover have "\<exists>xs ys. p # ps = xs @ this # ys \<and> pre = last (pre0 # xs)"
    proof (cases "(pre, this) = (pre0, p)")
      case True
      then have "p # ps = [] @ this # ps \<and> pre = last (pre0 # [])" by simp
      then show ?thesis by blast
    next
      case False
      then obtain xs ys where "p # ps = xs @ pre # this # ys" using r(3) by blast
      then have "p # ps = (xs @ [pre]) @ this # ys \<and> pre = last (pre0 # xs @ [pre])" by simp
      then show ?thesis by blast
    qed
    ultimately show ?thesis using r(2) by blast
  next
    case False
    then have step: "find_loop m sz pre0 f = find_loop m sz p (ld32 m (p + 4))"
      using nz by (subst find_loop.simps) (simp add: c(1) nx)
    have "set ps \<subseteq> set (frees bs)" using Cons.prems(2) by simp
    from Cons.IH [OF c(2) this, of p] show ?thesis
    proof (elim disjE exE conjE)
      fix pre this xs ys
      assume r: "find_loop m sz p (ld32 m (p + 4)) = Some (Some (pre, this))" "sz \<le> ld32 m this"
        "ps = xs @ this # ys" "pre = last (p # xs)"
      then have "p # ps = (p # xs) @ this # ys" "pre = last (pre0 # p # xs)" by simp_all
      then show ?thesis using step r(1,2) by metis
    qed (use False step in auto)
  qed
qed

lemma dealloc_find_result:
  assumes ok: "blocks_ok m a t bs"
  shows "chain m f (xs @ ys) 0 \<Longrightarrow> set (xs @ ys) \<subseteq> set (frees bs) \<Longrightarrow>
    \<forall>x\<in>set xs. x < b \<Longrightarrow> \<forall>y\<in>set ys. b \<le> y \<Longrightarrow>
    dealloc_find m b pre0 f = Some (last (pre0 # xs), case ys of [] \<Rightarrow> 0 | y # _ \<Rightarrow> y)"
proof (induction xs arbitrary: f pre0)
  case Nil
  show ?case
  proof (cases ys)
    case Nil
    then show ?thesis using Nil.prems by (subst dealloc_find.simps) simp
  next
    case (Cons y ys')
    then have "f = y" "\<not> y < b" using Nil.prems by auto
    then show ?thesis using Cons by (subst dealloc_find.simps) simp
  qed
next
  case (Cons x xs)
  have c: "f = x" "chain m (ld32 m (x + 4)) (xs @ ys) 0" "x < b" using Cons.prems by auto
  have pin: "x \<in> set (frees bs)" using Cons.prems(2) by simp
  note nx = blk_next_eq(1) [OF ok pin] and nz = blk_next_eq(3) [OF ok pin]
  have "dealloc_find m b pre0 f = dealloc_find m b x (ld32 m (x + 4))"
    using nz c by (subst dealloc_find.simps) (simp add: nx)
  then show ?case using Cons.IH [OF c(2), of x] Cons.prems by simp
qed

section \<open>The free list after a local change\<close>

lemma chain_other_link:
  assumes "blocks_ok m a t bs" and "l \<in> set (frees bs)" and "set ps \<subseteq> set (frees bs)" and "l \<notin> set ps"
  shows "chain (st32 (l + 4) v m') f ps e = chain m' f ps e"
proof (rule chain_cong, rule ballI)
  fix q assume "q \<in> set ps"
  then have "q \<in> set (frees bs)" "l \<noteq> q" using assms(3,4) by auto
  then show "ld32 (st32 (l + 4) v m') (q + 4) = ld32 m' (q + 4)"
    using assms(1,2) link_other by (fastforce simp: frees_member)
qed

text \<open>Unlinking the free block \<open>p\<close>; \<open>g\<close> is what it linked to.\<close>

lemma chain_unlink:
  assumes "blocks_ok m0 a t bs" and "chain m fl (xs @ p # ys) 0" and "distinct (xs @ p # ys)"
    and "set (xs @ p # ys) \<subseteq> set (frees bs)" and "g = ld32 m (p + 4)"
  shows "chain (if xs = [] then m else st32 (last xs + 4) g m) (if xs = [] then g else fl) (xs @ ys) 0"
proof (cases "xs = []")
  case True
  then show ?thesis using assms(2,5) by simp
next
  case False
  let ?l = "last xs" and ?m = "st32 (last xs + 4) g m"
  have xs: "xs = butlast xs @ [?l]" using False by simp
  have lin: "?l \<in> set (frees bs)" using assms(4) False by (auto dest: last_in_set)
  have other: "ld32 ?m (q + 4) = ld32 m (q + 4)" if "q \<in> set (frees bs)" "q \<noteq> ?l" for q
    using that lin link_other [OF assms(1)] by (fastforce simp: frees_member)
  have d: "?l \<notin> set ys" "?l \<notin> set (butlast xs)"
    using assms(3) False xs distinct_append [of "butlast xs" "[?l]"] by (auto dest: last_in_set)
  have "chain m fl xs p" "chain m g ys 0" using assms(2,5) by (auto simp: chain_append)
  have "g < 4294967296" using ld32_less assms(5) by simp
  have "chain ?m fl (butlast xs @ [?l]) g"
  proof (rule chain_relink)
    show "chain m fl (butlast xs @ [?l]) p" using \<open>chain m fl xs p\<close> xs by simp
    show "\<forall>q\<in>set (butlast xs). ld32 ?m (q + 4) = ld32 m (q + 4)"
      using other d(2) assms(4) by (auto dest: in_set_butlastD)
    show "ld32 ?m (?l + 4) = g" using \<open>g < 4294967296\<close> by simp
  qed
  moreover have "chain ?m g ys 0"
    using \<open>chain m g ys 0\<close> chain_other_link [OF assms(1) lin _ d(1)] assms(4) by simp
  ultimately show ?thesis using xs False by (auto simp: chain_append)
qed

text \<open>Linking in the free block \<open>p\<close> between \<open>xs\<close> and \<open>ys\<close>.\<close>

lemma chain_insert:
  assumes "blocks_ok m a t bs" and "chain m fl (xs @ ys) 0" and "distinct (xs @ p # ys)"
    and "set (xs @ p # ys) \<subseteq> set (frees bs)" and "g = (case ys of [] \<Rightarrow> 0 | y # _ \<Rightarrow> y)"
  shows "chain (if xs = [] then st32 (p + 4) g m else st32 (last xs + 4) p (st32 (p + 4) g m))
     (if xs = [] then p else fl) (xs @ p # ys) 0"
proof -
  let ?m1 = "st32 (p + 4) g m"
  have pin: "p \<in> set (frees bs)" using assms(4) by simp
  have lt: "p < 4294967296" using blk_next_eq(4,5) [OF assms(1) pin] by simp
  have glt: "g < 4294967296"
  proof (cases ys)
    case (Cons y ys')
    then have "y \<in> set (frees bs)" using assms(4) by simp
    then show ?thesis using Cons assms(5) blk_next_eq(4,5) [OF assms(1), of y] by simp
  qed (use assms(5) in simp)
  have other: "ld32 (st32 (l + 4) v m') (q + 4) = ld32 m' (q + 4)"
    if "q \<in> set (frees bs)" "l \<in> set (frees bs)" "q \<noteq> l" for q l v m'
    using that link_other [OF assms(1)] by (fastforce simp: frees_member)
  have cx: "chain m fl xs g" "chain m g ys 0"
  proof -
    obtain g' where g': "chain m fl xs g'" "chain m g' ys 0" using assms(2) by (auto simp: chain_append)
    then have "g' = g" using assms(5) by (cases ys) auto
    then show "chain m fl xs g" "chain m g ys 0" using g' by simp_all
  qed
  have ys1: "chain ?m1 g ys 0"
    using cx(2) chain_other_link [OF assms(1) pin, of ys] assms(3,4) by simp
  show ?thesis
  proof (cases "xs = []")
    case True
    then show ?thesis using ys1 glt by simp
  next
    case False
    let ?l = "last xs" and ?m2 = "st32 (last xs + 4) p ?m1"
    have xs: "xs = butlast xs @ [?l]" using False by simp
    have lin: "?l \<in> set (frees bs)" using assms(4) False by (auto dest: last_in_set)
    have d: "?l \<notin> set ys" "?l \<notin> set (butlast xs)" "?l \<noteq> p" "p \<notin> set xs"
      using assms(3) False xs distinct_append [of "butlast xs" "[?l]"] by (auto dest: last_in_set)
    have "chain ?m2 fl (butlast xs @ [?l]) p"
    proof (rule chain_relink)
      have "chain ?m1 fl xs g"
        using cx(1) chain_other_link [OF assms(1) pin _ d(4)] assms(4) by simp
      then show "chain ?m1 fl (butlast xs @ [?l]) g" using xs by simp
      show "\<forall>q\<in>set (butlast xs). ld32 ?m2 (q + 4) = ld32 ?m1 (q + 4)"
      proof
        fix q assume "q \<in> set (butlast xs)"
        then have "q \<in> set (frees bs)" "q \<noteq> ?l" using assms(4) d(2) by (auto dest: in_set_butlastD)
        then show "ld32 ?m2 (q + 4) = ld32 ?m1 (q + 4)" using other [OF _ lin] by blast
      qed
      show "ld32 ?m2 (?l + 4) = p" using lt by simp
    qed
    moreover have "ld32 ?m2 (p + 4) = g"
      using other [OF pin lin] d(3) glt by simp
    moreover have "chain ?m2 g ys 0"
      using ys1 chain_other_link [OF assms(1) lin _ d(1)] assms(4) by simp
    ultimately show ?thesis using xs False by (auto simp: chain_append)
  qed
qed

section \<open>Taking a block out of the free list\<close>

definition only_free_changed :: "block list \<Rightarrow> memory \<Rightarrow> memory \<Rightarrow> bool" where
  "only_free_changed bs m m' \<longleftrightarrow>
     (\<forall>i. (\<forall>p n. (p, n, False) \<in> set bs \<longrightarrow> i < p \<or> p + n \<le> i) \<longrightarrow> m' i = m i)"

lemma only_free_changedI:
  "(\<And>i. m' i \<noteq> m i \<Longrightarrow> \<exists>p n. (p, n, False) \<in> set bs \<and> p \<le> i \<and> i < p + n) \<Longrightarrow> only_free_changed bs m m'"
  unfolding only_free_changed_def by (meson leD not_less)

lemma st32_changed: "st32 a v m i \<noteq> m i \<Longrightarrow> a \<le> i \<and> i < a + 4"
  using st32_outside [of i a v m] by linarith

lemma coalesced_append:
  "coalesced (xs @ ys) \<longleftrightarrow> coalesced xs \<and> coalesced ys \<and>
     (xs = [] \<or> ys = [] \<or> snd (snd (last xs)) \<or> snd (snd (hd ys)))"
proof (induction xs rule: coalesced.induct [case_names two nil one])
  case (one v)
  then show ?case by (cases ys; cases v) auto
qed auto

lemma frees_distinct: "tiles a bs t \<Longrightarrow> distinct (frees bs)"
proof (induction bs arbitrary: a)
  case (Cons b bs)
  obtain p n u where b: "b = (p, n, u)" by (cases b)
  then have t: "p = a" "12 \<le> n" "tiles (a + n) bs t" using Cons.prems by auto
  have "p \<notin> set (frees bs)"
  proof
    assume "p \<in> set (frees bs)"
    then obtain k where "(p, k, False) \<in> set bs" by (auto simp: frees_member)
    from tiles_member [OF t(3) this] show False using t(1,2) by simp
  qed
  then show ?case using Cons.IH [OF t(3)] b by simp
qed simp

lemma chunk_get_ok:
  assumes wf: "heap_wf m fl a t bs" and co: "coalesced bs" and s: "12 \<le> s" "4 dvd s"
  shows "mem_chunk_get m fl s = Some (0, m, fl) \<and> (\<forall>p n. (p, n, False) \<in> set bs \<longrightarrow> n < s) \<or>
    (\<exists>b m' fl' bs' n u1 u2. mem_chunk_get m fl s = Some (b, m', fl') \<and> heap_wf m' fl' a t bs' \<and> coalesced bs' \<and>
       b \<noteq> 0 \<and> ld32 m' b = n \<and> s \<le> n \<and> n < s + MEM_HEAP_MIN_SIZE \<and>
       useds bs = u1 @ u2 \<and> useds bs' = u1 @ (b, n) # u2 \<and> free_sum bs' + n = free_sum bs \<and>
       only_free_changed bs m m')"
proof -
  have ok: "blocks_ok m a t bs" and ch: "chain m fl (frees bs) 0"
    using wf by (simp_all add: heap_wf_alt)
  note r = find_loop_result [OF ok ch subset_refl, of s 0]
  show ?thesis
  proof (cases "\<forall>p\<in>set (frees bs). ld32 m p < s")
    case True
    then have "find_loop m s 0 fl = Some None" using r by force
    moreover have "n < s" if "(p, n, False) \<in> set bs" for p n
      using True that blocks_okD(8) [OF ok that] frees_member by force
    ultimately show ?thesis by (simp add: mem_chunk_get_def)
  next
    case False
    then obtain pre p xs ys where f: "find_loop m s 0 fl = Some (Some (pre, p))" "s \<le> ld32 m p"
      "frees bs = xs @ p # ys" "pre = last (0 # xs)" using r by force
    obtain l1 n l2 where bs: "bs = l1 @ (p, n, False) # l2" "frees l1 = xs" "frees l2 = ys"
      using frees_split [OF f(3)] by blast
    have pin: "(p, n, False) \<in> set bs" using bs(1) by simp
    note pb = blocks_okD [OF ok pin]
    have pn: "ld32 m p = n" by (rule pb(8))
    have sub: "sub32 n s = n - s" using f(2) pn ld32_less [of m p] by (intro sub32_nowrap) simp_all
    have pfree: "p \<in> set (frees bs)" using f(3) by simp
    show ?thesis
    proof (cases "MEM_HEAP_MIN_SIZE \<le> n - s")
      case True
      have s12: "s + 12 \<le> n" "n - s < 4294967296" "0 < n - s" using True pb by (simp_all add: mem_consts)
      define m' where "m' = (st32 (p + (n - s)) s ((st32 p (n - s) m)(p + (n - s) - 1 := MEM_BLOCK_STAT_FREE)))
       (p + n - 1 := MEM_BLOCK_STAT_USE)"
      note sp = blocks_ok_split [OF ok [unfolded bs(1)] s(1,2) s12(1) m'_def]
      have dog1: "MEM_DOG_ADDR (st32 p (n - s) m) p = p + (n - s) - 1"
      proof -
        have "add32 p (n - s) = p + (n - s)" using pb s12 by (intro add32_nowrap) arith
        moreover have "sub32 (p + (n - s)) 1 = p + (n - s) - 1" using pb s12 by (intro sub32_nowrap) arith+
        ultimately show ?thesis using s12 by (simp add: MEM_DOG_ADDR_def)
      qed
      let ?m1 = "(st32 p (n - s) m)(p + (n - s) - 1 := MEM_BLOCK_STAT_FREE)"
      have ld1: "ld32 ?m1 p = n - s"
      proof -
        have "ld32 ?m1 p = ld32 (st32 p (n - s) m) p" using s12(1) s(1) by (intro ld32_upd_disjoint) arith
        then show ?thesis using s12 by simp
      qed
      have new: "add32 p (n - s) = p + (n - s)" using pb s12 by (intro add32_nowrap) arith
      have dog2: "MEM_DOG_ADDR (st32 (p + (n - s)) s ?m1) (p + (n - s)) = p + n - 1"
      proof -
        have "s < 4294967296" using s12 pb by simp
        then have "ld32 (st32 (p + (n - s)) s ?m1) (p + (n - s)) = s" by simp
        moreover have "add32 (p + (n - s)) s = p + n" using pb s12 by (subst add32_nowrap) arith+
        moreover have "sub32 (p + n) 1 = p + n - 1" using pb s12 by (intro sub32_nowrap) arith+
        ultimately show ?thesis by (simp add: MEM_DOG_ADDR_def)
      qed
      have res: "mem_chunk_get m fl s = Some (p + (n - s), m', fl)"
        unfolding mem_chunk_get_def f(1) bind.bind_lunit option.case prod.case Let_def pn sub set_dog_def dog1
          ld1 new dog2 using True by (simp only: m'_def if_True)
      let ?bs = "l1 @ (p, n - s, False) # (p + (n - s), s, True) # l2"
      have "chain m' fl (frees ?bs) 0"
      proof -
        have "ld32 m' (q + 4) = ld32 m (q + 4)" if "q \<in> set (frees bs)" for q
          using that sp(2) bs(1) by (auto simp: frees_member)
        then have "chain m' fl (frees bs) 0" using ch chain_cong [of "frees bs" m' m] by simp
        then show ?thesis using bs by simp
      qed
      then have "heap_wf m' fl a t ?bs" using sp(1) by (simp add: heap_wf_alt)
      moreover have "coalesced ?bs" using co bs(1) by (cases l2) (auto simp: coalesced_append)
      moreover have "only_free_changed bs m m'"
        using sp(3) pin by (intro only_free_changedI) (metis not_le)
      moreover have "useds bs = useds l1 @ useds l2" "useds ?bs = useds l1 @ (p + (n - s), s) # useds l2"
        "free_sum ?bs + s = free_sum bs" using bs(1) s12 by simp_all
      moreover have "p + (n - s) \<noteq> 0" "s < s + MEM_HEAP_MIN_SIZE" using pb by (simp_all add: mem_consts)
      ultimately show ?thesis using res sp(4) by blast
    next
      case False
      define g where "g = ld32 m (p + 4)"
      define m1 where "m1 = (if xs = [] then m else st32 (last xs + 4) g m)"
      define m' where "m' = m1(p + n - 1 := MEM_BLOCK_STAT_USE)"
      have d: "distinct (xs @ p # ys)" using frees_distinct ok f(3) by (metis blocks_ok_def)
      have ch1: "chain m1 (if xs = [] then g else fl) (xs @ ys) 0"
        unfolding m1_def using chain_unlink [OF ok, of m fl xs p ys g] ch f(3) d by (simp add: g_def)
      have lastin: "xs \<noteq> [] \<Longrightarrow> last xs \<in> set (frees bs)" using f(3) by simp
      have ok1: "blocks_ok m1 a t bs"
      proof (cases "xs = []")
        case False
        then obtain k where "(last xs, k, False) \<in> set bs" using lastin by (auto simp: frees_member)
        then show ?thesis using blocks_ok_link [OF ok] False by (simp add: m1_def)
      qed (use ok in \<open>simp add: m1_def\<close>)
      have ok': "blocks_ok m' a t (l1 @ (p, n, True) # l2)"
        using blocks_ok_flip [OF ok1 [unfolded bs(1)], of True] by (simp add: m'_def)
      have ch': "chain m' (if xs = [] then g else fl) (xs @ ys) 0"
      proof -
        have "ld32 m' (q + 4) = ld32 m1 (q + 4)" if "q \<in> set (xs @ ys)" for q
        proof -
          have "q \<in> set (frees bs)" using that f(3) by auto
          then show ?thesis using dog_links [OF ok1 pin] by (auto simp: m'_def frees_member)
        qed
        then show ?thesis using ch1 chain_cong [of "xs @ ys" m' m1] by simp
      qed
      have lastnz: "xs \<noteq> [] \<Longrightarrow> last xs \<noteq> 0" using blk_next_eq(3) [OF ok lastin] .
      have pre: "pre \<noteq> 0 \<longleftrightarrow> xs \<noteq> []" "xs \<noteq> [] \<Longrightarrow> pre = last xs" using f(4) lastnz by auto
      have dogm: "MEM_DOG_ADDR m1 p = p + n - 1"
      proof -
        have "ld32 m1 p = n" using blocks_okD(8) [OF ok1 pin] .
        moreover have "add32 p n = p + n" using pb by (intro add32_nowrap) arith
        moreover have "sub32 (p + n) 1 = p + n - 1" using pb by (intro sub32_nowrap) arith+
        ultimately show ?thesis by (simp add: MEM_DOG_ADDR_def)
      qed
      have nextp: "blk_next m p = g" using blk_next_eq(1) [OF ok pfree] by (simp add: g_def)
      have m1: "(if pre \<noteq> 0 then set_next pre g m else m) = m1"
        using pre blk_next_eq(2) [OF ok lastin] by (auto simp: m1_def)
      have res: "mem_chunk_get m fl s = Some (p, m', if xs = [] then g else fl)"
        unfolding mem_chunk_get_def f(1) bind.bind_lunit option.case prod.case Let_def pn sub nextp m1 set_dog_def dogm
        using False pre(1) by (simp add: m'_def)
      have "heap_wf m' (if xs = [] then g else fl) a t (l1 @ (p, n, True) # l2)"
        using ok' ch' bs by (simp add: heap_wf_alt)
      moreover have "coalesced (l1 @ (p, n, True) # l2)"
        using co bs(1) by (cases l2) (auto simp: coalesced_append)
      moreover have "only_free_changed bs m m'"
      proof (rule only_free_changedI)
        fix i assume i: "m' i \<noteq> m i"
        show "\<exists>q k. (q, k, False) \<in> set bs \<and> q \<le> i \<and> i < q + k"
        proof (cases "i = p + n - 1")
          case True
          then show ?thesis using pin pb(4) by (intro exI [of _ p] exI [of _ n]) arith
        next
          case False
          then have i1: "m1 i \<noteq> m i" using i by (simp add: m'_def)
          then have xs: "xs \<noteq> []" by (auto simp: m1_def)
          then obtain k where k: "(last xs, k, False) \<in> set bs" using lastin by (auto simp: frees_member)
          have "last xs + 4 \<le> i" "i < last xs + 4 + 4"
            using st32_changed [of "last xs + 4" g m i] i1 xs by (simp_all add: m1_def)
          then show ?thesis using k blocks_okD(4) [OF ok k] by (intro exI [of _ "last xs"] exI [of _ k]) simp
        qed
      qed
      moreover have "useds bs = useds l1 @ useds l2" "useds (l1 @ (p, n, True) # l2) = useds l1 @ (p, n) # useds l2"
        "free_sum (l1 @ (p, n, True) # l2) + n = free_sum bs" using bs(1) by simp_all
      moreover have "ld32 m' p = n" using blocks_okD(8) [OF ok', of p n True] by simp
      moreover have "n < s + MEM_HEAP_MIN_SIZE" "s \<le> n" "p \<noteq> 0" using False f(2) pn pb(1) by simp_all
      ultimately show ?thesis using res by blast
    qed
  qed
qed

section \<open>Putting a block back\<close>

lemma tiles_frees_less: "tiles a bs t \<Longrightarrow> p \<in> set (frees bs) \<Longrightarrow> a \<le> p \<and> p < t"
  using tiles_member by (fastforce simp: frees_member)

lemma size_links_free:
  assumes "blocks_ok m a t bs" and "(p, n, u) \<in> set bs" and "q \<in> set (frees bs)"
  shows "ld32 (st32 p v m') (q + 4) = ld32 m' (q + 4)"
  using assms(3) size_links [OF assms(1,2)] unfolding frees_member by blast

lemma dog_links_free:
  assumes "blocks_ok m a t bs" and "(p, n, u) \<in> set bs" and "q \<in> set (frees bs)"
  shows "ld32 (m'(p + n - 1 := d)) (q + 4) = ld32 m' (q + 4)"
  using assms(3) dog_links [OF assms(1,2)] unfolding frees_member by blast

text \<open>
  The second merge: the free block \<open>p\<close> and the free list behind it. \<open>next\<close> is the first free
  block behind \<open>p\<close> (0 if there is none).
\<close>

lemma merge_next_ok:
  assumes wf: "heap_wf m fl a t (l1 @ (p, k, False) # l2)"
    and co: "coalesced (l1 @ [(p, k, False)])" "coalesced l2"
    and nx: "nx = (case frees l2 of [] \<Rightarrow> 0 | y # _ \<Rightarrow> y)"
  shows "\<exists>m' bs'. (if nx \<noteq> 0 \<and> add32 p (ld32 m p) = nx
       then (let m = st32 p (add32 (ld32 m p) (ld32 m nx)) m in set_next p (blk_next m nx) m) else m) = m' \<and>
     heap_wf m' fl a t bs' \<and> coalesced bs' \<and> useds bs' = useds l1 @ useds l2 \<and>
     free_sum bs' = free_sum (l1 @ (p, k, False) # l2) \<and> only_free_changed (l1 @ (p, k, False) # l2) m m' \<and>
     (\<exists>k'. (p, k', False) \<in> set bs') \<and> (\<forall>i. i < p \<or> p + 8 \<le> i \<longrightarrow> m' i = m i)"
proof -
  let ?bs = "l1 @ (p, k, False) # l2"
  have ok: "blocks_ok m a t ?bs" and ch: "chain m fl (frees l1 @ p # frees l2) 0"
    using wf by (simp_all add: heap_wf_alt)
  have pin: "(p, k, False) \<in> set ?bs" by simp
  note pb = blocks_okD [OF ok pin]
  have t2: "tiles (p + k) l2 t" using ok by (auto simp: blocks_ok_def tiles_append)
  have pk: "add32 p (ld32 m p) = p + k" using pb by (subst add32_nowrap) simp_all
  show ?thesis
  proof (cases "nx \<noteq> 0 \<and> p + k = nx")
    case True
    then obtain ys where ys: "frees l2 = nx # ys" using nx by (auto split: list.splits)
    then obtain j l2' where l2: "l2 = (nx, j, False) # l2'"
    proof (cases l2)
      case (Cons b l2')
      obtain q j u where b: "b = (q, j, u)" by (cases b)
      then have q: "q = p + k" "12 \<le> j" "tiles (q + j) l2' t" using t2 Cons by auto
      have "\<not> u"
      proof
        assume u
        then have "nx \<in> set (frees l2')" using ys Cons b by simp
        then have "q + j \<le> nx" using tiles_frees_less [OF q(3)] by simp
        then show False using True q by simp
      qed
      then show thesis using that b Cons q(1) True by simp
    qed (use ys in simp)
    have nxin: "(nx, j, False) \<in> set ?bs" by (simp add: l2)
    note nb = blocks_okD [OF ok nxin]
    let ?m1 = "st32 p (k + j) m"
    define g where "g = ld32 m (nx + 4)"
    note mg = blocks_ok_merge [OF ok [unfolded l2] refl]
    have lks: "ld32 ?m1 (q + 4) = ld32 m (q + 4)" if "q \<in> set (frees ?bs)" for q
      by (rule size_links_free [OF ok pin that])
    have ch1: "chain ?m1 fl ((frees l1 @ [p]) @ nx # ys) 0"
      using ch chain_cong [of "frees l1 @ p # frees l2" ?m1 m fl 0] lks ys by simp
    have d: "distinct ((frees l1 @ [p]) @ nx # ys)"
      using frees_distinct [of a ?bs t] ok ys by (simp add: blocks_ok_def)
    have ch2: "chain (st32 (p + 4) g ?m1) fl ((frees l1 @ [p]) @ ys) 0"
      using chain_unlink [OF ok ch1 d _ refl] lks [of nx] ys by (simp add: g_def)
    let ?bs' = "l1 @ (p, k + j, False) # l2'"
    have ok2: "blocks_ok (st32 (p + 4) g ?m1) a t ?bs'"
      using blocks_ok_link [OF mg(1), of p "k + j" False] by simp
    have step: "(let m = st32 p (add32 (ld32 m p) (ld32 m nx)) m in set_next p (blk_next m nx) m) = st32 (p + 4) g ?m1"
    proof -
      have "ld32 m p = k" "ld32 m nx = j" using pb(8) nb(8) by simp_all
      moreover have "blk_next ?m1 nx = g"
        using blk_next_eq(1) [OF ok, of nx ?m1] lks [of nx] ys by (simp add: g_def)
      moreover have "set_next p g ?m1 = st32 (p + 4) g ?m1" using blk_next_eq(2) [OF ok, of p] by simp
      ultimately show ?thesis by (simp add: Let_def mg(3))
    qed
    have "heap_wf (st32 (p + 4) g ?m1) fl a t ?bs'"
      using ok2 ch2 ys l2 by (simp add: heap_wf_alt)
    moreover have "coalesced ?bs'"
      using co l2 by (cases l2') (auto simp: coalesced_append)
    moreover have "useds ?bs' = useds l1 @ useds l2" "free_sum ?bs' = free_sum ?bs" by (simp_all add: l2)
    moreover have "only_free_changed ?bs m (st32 (p + 4) g ?m1)"
    proof (rule only_free_changedI)
      fix i assume "st32 (p + 4) g ?m1 i \<noteq> m i"
      then have "p \<le> i \<and> i < p + 8"
        using st32_changed [of "p + 4" g ?m1 i] st32_changed [of p "k + j" m i] by fastforce
      then show "\<exists>q n. (q, n, False) \<in> set ?bs \<and> q \<le> i \<and> i < q + n"
        using pb(4) pin by (intro exI [of _ p] exI [of _ k]) simp
    qed
    moreover have "\<forall>i. i < p \<or> p + 8 \<le> i \<longrightarrow> st32 (p + 4) g ?m1 i = m i" by auto
    ultimately show ?thesis using True step pk
      by (intro exI [of _ "st32 (p + 4) g ?m1"] exI [of _ ?bs']) auto
  next
    case False
    have "l2 = [] \<or> snd (snd (hd l2))"
    proof (rule ccontr)
      assume "\<not> (l2 = [] \<or> snd (snd (hd l2)))"
      then obtain q j l2' where l2: "l2 = (q, j, False) # l2'" by (cases l2) auto
      then have "nx = q" "q = p + k" using nx t2 by auto
      moreover have "q \<noteq> 0" using calculation pb by simp
      ultimately show False using False by simp
    qed
    then have "coalesced ?bs" using co by (cases l2) (auto simp: coalesced_append)
    then show ?thesis using False wf pk
      by (intro exI [of _ m] exI [of _ ?bs]) (auto simp: only_free_changed_def)
  qed
qed

lemma only_free_changed_trans:
  assumes "only_free_changed bs m m1" and "only_free_changed bs1 m1 m2"
    and "\<And>p n. (p, n, False) \<in> set bs1 \<Longrightarrow> \<forall>i. p \<le> i \<and> i < p + n \<longrightarrow> (\<exists>q k. (q, k, False) \<in> set bs \<and> q \<le> i \<and> i < q + k)"
  shows "only_free_changed bs m m2"
proof (rule only_free_changedI)
  fix i assume "m2 i \<noteq> m i"
  then consider "m1 i \<noteq> m i" | "m2 i \<noteq> m1 i" by metis
  then show "\<exists>p n. (p, n, False) \<in> set bs \<and> p \<le> i \<and> i < p + n"
  proof cases
    case 1
    then show ?thesis using assms(1) unfolding only_free_changed_def by (meson not_le)
  next
    case 2
    then obtain p n where "(p, n, False) \<in> set bs1" "p \<le> i" "i < p + n"
      using assms(2) unfolding only_free_changed_def by (meson not_le)
    then show ?thesis using assms(3) by blast
  qed
qed

text \<open>The first half of \<open>dealloc_link\<close>: linking the block in, or merging it with its predecessor.\<close>

lemma link_prev_ok:
  assumes ok: "blocks_ok m a t (l1 @ (p, n, False) # l2)" and ch: "chain m fl (frees l1 @ frees l2) 0"
    and co: "coalesced l1"
    and pre: "pre = last (0 # frees l1)" and nx: "nx = (case frees l2 of [] \<Rightarrow> 0 | y # _ \<Rightarrow> y)"
  shows "\<exists>m3 fl3 pre3 L k.
     (let m = set_next p nx m in
        if pre = 0 then (m, p, p)
        else if add32 pre (ld32 m pre) = p
        then (st32 pre (add32 (ld32 m pre) (ld32 m p)) m, fl, pre)
        else (set_next pre p m, fl, p)) = (m3, fl3, pre3) \<and>
     heap_wf m3 fl3 a t (L @ (pre3, k, False) # l2) \<and> coalesced (L @ [(pre3, k, False)]) \<and>
     useds L = useds l1 \<and> free_sum L + k = free_sum l1 + n \<and> only_free_changed (l1 @ (p, n, False) # l2) m m3 \<and>
     (\<forall>i. pre3 \<le> i \<and> i < pre3 + k \<longrightarrow> (\<exists>q j. (q, j, False) \<in> set (l1 @ (p, n, False) # l2) \<and> q \<le> i \<and> i < q + j)) \<and>
     set L \<subseteq> set l1 \<and> (pre3 = p \<or> pre3 + 8 \<le> p \<and> ld32 m3 p = n \<and> m3 (p + n - 1) = MEM_BLOCK_STAT_FREE)"
proof -
  let ?bs = "l1 @ (p, n, False) # l2"
  have pin: "(p, n, False) \<in> set ?bs" by simp
  note pb = blocks_okD [OF ok pin]
  have pfree: "p \<in> set (frees ?bs)" by simp
  have t1: "tiles a l1 p" using ok by (auto simp: blocks_ok_def tiles_append)
  let ?m2 = "st32 (p + 4) nx m"
  have sn: "set_next p nx m = ?m2" using blk_next_eq(2) [OF ok pfree] .
  have d: "distinct (frees l1 @ p # frees l2)"
    using frees_distinct [of a ?bs t] ok by (simp add: blocks_ok_def)
  have ok2: "blocks_ok ?m2 a t ?bs" by (rule blocks_ok_link [OF ok pin])
  have sub: "set (frees l1 @ p # frees l2) \<subseteq> set (frees ?bs)" by simp
  note ins = chain_insert [OF ok ch d sub nx]
  have ofc2: "only_free_changed ?bs m ?m2"
  proof (rule only_free_changedI)
    fix i assume "?m2 i \<noteq> m i"
    then have "p + 4 \<le> i \<and> i < p + 4 + 4" by (rule st32_changed)
    then show "\<exists>q k. (q, k, False) \<in> set ?bs \<and> q \<le> i \<and> i < q + k"
      using pin pb(4) by (intro exI [of _ p] exI [of _ n]) simp
  qed
  show ?thesis
  proof (cases "frees l1 = []")
    case True
    have used: "snd (snd (last l1))" if "l1 \<noteq> []"
    proof (rule ccontr)
      assume "\<not> snd (snd (last l1))"
      moreover obtain q k u where l: "last l1 = (q, k, u)" by (cases "last l1")
      ultimately have "(q, k, False) \<in> set l1" using that last_in_set by fastforce
      then have "q \<in> set (frees l1)" unfolding frees_member by blast
      then show False using True by simp
    qed
    have "heap_wf ?m2 p a t ?bs" using ok2 ins True by (simp add: heap_wf_alt)
    moreover have "coalesced (l1 @ [(p, n, False)])" using co used by (auto simp: coalesced_append)
    moreover have "pre = 0" using pre True by simp
    ultimately show ?thesis using ofc2 sn pin
      by - (rule exI [of _ ?m2], rule exI [of _ p], rule exI [of _ p], rule exI [of _ l1], rule exI [of _ n], auto simp: Let_def)
  next
    case False
    then have pre': "pre = last (frees l1)" using pre by simp
    then have prein: "pre \<in> set (frees l1)" using False by simp
    then obtain k0 where k0: "(pre, k0, False) \<in> set l1" unfolding frees_member by blast
    then have k0in: "(pre, k0, False) \<in> set ?bs" by simp
    note qb = blocks_okD [OF ok k0in]
    have ld: "ld32 ?m2 pre = k0" "ld32 ?m2 p = n"
      using blocks_okD(8) [OF ok2 k0in] blocks_okD(8) [OF ok2 pin] by simp_all
    have add: "add32 pre k0 = pre + k0" using qb by (intro add32_nowrap) simp
    obtain x ys where l1: "l1 = x @ (pre, k0, False) # ys" using k0 by (auto simp: in_set_conv_decomp)
    have t3: "tiles a x pre" "tiles (pre + k0) ys p" using t1 l1 by (auto simp: tiles_append)
    have ys: "frees ys = []"
    proof (rule ccontr)
      assume "frees ys \<noteq> []"
      then have "last (frees ys) = pre" using pre' l1 by simp
      then have "pre \<in> set (frees ys)" using \<open>frees ys \<noteq> []\<close> by (metis last_in_set)
      then show False using tiles_frees_less [OF t3(2)] qb(4) by fastforce
    qed
    show ?thesis
    proof (cases "pre + k0 = p")
      case True
      have "ys = []"
      proof (cases ys)
        case (Cons b ys')
        obtain q j u where "b = (q, j, u)" by (cases b)
        then have "(q, j, u) \<in> set ys" using Cons by simp
        then show ?thesis using tiles_member [OF t3(2)] True by fastforce
      qed
      then have l1': "l1 = x @ [(pre, k0, False)]" using l1 by simp
      note mg = blocks_ok_merge [of ?m2 a t x pre k0 p n l2, OF _ refl]
      have ok2': "blocks_ok ?m2 a t (x @ (pre, k0, False) # (p, n, False) # l2)" using ok2 l1' by simp
      let ?m3 = "st32 pre (k0 + n) ?m2"
      have ch3: "chain ?m3 fl (frees l1 @ frees l2) 0"
      proof -
        have "p \<notin> set (frees l1 @ frees l2)" "set (frees l1 @ frees l2) \<subseteq> set (frees ?bs)" using d by auto
        then have "chain ?m2 fl (frees l1 @ frees l2) 0"
          using ch chain_other_link [OF ok pfree, of "frees l1 @ frees l2"] by simp
        moreover have "ld32 ?m3 (q + 4) = ld32 ?m2 (q + 4)" if "q \<in> set (frees l1 @ frees l2)" for q
          using that by (intro size_links_free [OF ok k0in]) auto
        ultimately show ?thesis using chain_cong [of "frees l1 @ frees l2" ?m3 ?m2] by simp
      qed
      have wf: "heap_wf ?m3 fl a t (x @ (pre, k0 + n, False) # l2)"
        using mg(1) [OF ok2'] ch3 l1' by (simp add: heap_wf_alt)
      have co3: "coalesced (x @ [(pre, k0 + n, False)])"
        using co l1' by (cases x rule: rev_cases) (auto simp: coalesced_append)
      have ofc: "only_free_changed ?bs m ?m3"
      proof (rule only_free_changed_trans [OF ofc2])
        show "only_free_changed ?bs ?m2 ?m3"
        proof (rule only_free_changedI)
          fix i assume "?m3 i \<noteq> ?m2 i"
          then have "pre \<le> i \<and> i < pre + 4" by (rule st32_changed)
          then show "\<exists>q k. (q, k, False) \<in> set ?bs \<and> q \<le> i \<and> i < q + k"
            using k0in qb(4) by (intro exI [of _ pre] exI [of _ k0]) simp
        qed
      qed blast
      have cov: "\<exists>q j. (q, j, False) \<in> set ?bs \<and> q \<le> i \<and> i < q + j" if i: "pre \<le> i \<and> i < pre + (k0 + n)" for i
      proof (cases "i < p")
        case True
        then show ?thesis using k0in i \<open>pre + k0 = p\<close> by (intro exI [of _ pre] exI [of _ k0]) simp
      next
        case False
        then show ?thesis using pin i \<open>pre + k0 = p\<close> by (intro exI [of _ p] exI [of _ n]) simp
      qed
      have dog: "pre + 8 \<le> p \<and> ld32 ?m3 p = n \<and> ?m3 (p + n - 1) = MEM_BLOCK_STAT_FREE"
      proof -
        have "pre + 8 \<le> p" using True qb(4) by simp
        moreover have "ld32 ?m3 p = ld32 ?m2 p" by (rule ld32_st32_disjoint) (use calculation in simp)
        moreover have "?m3 (p + n - 1) = ?m2 (p + n - 1)"
          by (rule st32_outside) (use calculation(1) pb(4) in arith)
        ultimately show ?thesis using ld blocks_okD(9) [OF ok2 pin] by simp
      qed
      have "pre \<noteq> 0" using qb by simp
      then show ?thesis using wf co3 ofc cov l1' True ld add mg(3) [OF ok2'] sn dog
        by - (rule exI [of _ ?m3], rule exI [of _ fl], rule exI [of _ pre], rule exI [of _ x], rule exI [of _ "k0 + n"], simp add: Let_def, blast)
    next
      case False
      have ysne: "ys \<noteq> []" using False t3(2) by auto
      have used: "snd (snd (last l1))"
      proof (rule ccontr)
        assume n: "\<not> snd (snd (last l1))"
        obtain q k u where l: "last ys = (q, k, u)" by (cases "last ys")
        then have "(q, k, False) \<in> set ys" using n ysne l1 last_in_set [OF ysne] by auto
        then have "q \<in> set (frees ys)" unfolding frees_member by blast
        then show False using ys by simp
      qed
      let ?m3 = "st32 (pre + 4) p ?m2"
      have ok3: "blocks_ok ?m3 a t ?bs" by (rule blocks_ok_link [OF ok2 k0in])
      have "heap_wf ?m3 fl a t ?bs" using ok3 ins \<open>frees l1 \<noteq> []\<close> pre' by (simp add: heap_wf_alt)
      moreover have "coalesced (l1 @ [(p, n, False)])" using co used by (auto simp: coalesced_append)
      moreover have "only_free_changed ?bs m ?m3"
      proof (rule only_free_changed_trans [OF ofc2])
        show "only_free_changed ?bs ?m2 ?m3"
        proof (rule only_free_changedI)
          fix i assume "?m3 i \<noteq> ?m2 i"
          then have "pre + 4 \<le> i \<and> i < pre + 4 + 4" by (rule st32_changed)
          then show "\<exists>q k. (q, k, False) \<in> set ?bs \<and> q \<le> i \<and> i < q + k"
            using k0in qb(4) by (intro exI [of _ pre] exI [of _ k0]) simp
        qed
      qed blast
      moreover have "set_next pre p ?m2 = ?m3" using blk_next_eq(2) [OF ok, of pre] prein by simp
      moreover have "pre \<noteq> 0" using qb by simp
      ultimately show ?thesis using False ld add sn pin
        by - (rule exI [of _ ?m3], rule exI [of _ fl], rule exI [of _ p], rule exI [of _ l1], rule exI [of _ n], auto simp: Let_def)
    qed
  qed
qed

lemma dealloc_ok:
  assumes wf: "heap_wf m fl a t (l1 @ (p, n, True) # l2)" and co: "coalesced (l1 @ (p, n, True) # l2)"
    and m1: "m1 = m(p + n - 1 := MEM_BLOCK_STAT_FREE)"
  shows "\<exists>pre nx m' fl' bs'. dealloc_find m1 p 0 fl = Some (pre, nx) \<and> dealloc_link p pre nx fl m1 = (m', fl') \<and>
     heap_wf m' fl' a t bs' \<and> coalesced bs' \<and> useds bs' = useds l1 @ useds l2 \<and>
     free_sum bs' = free_sum (l1 @ (p, n, True) # l2) + n \<and> only_free_changed (l1 @ (p, n, False) # l2) m m' \<and>
     (\<exists>k\<ge>12. ld32 m' p = k \<and> m' (p + k - 1) = MEM_BLOCK_STAT_FREE \<and> p + k \<le> t)"
proof -
  let ?bs = "l1 @ (p, n, False) # l2"
  have ok0: "blocks_ok m a t (l1 @ (p, n, True) # l2)" and ch0: "chain m fl (frees l1 @ frees l2) 0"
    using wf by (simp_all add: heap_wf_alt)
  have pin0: "(p, n, True) \<in> set (l1 @ (p, n, True) # l2)" by simp
  note pb = blocks_okD [OF ok0 pin0]
  have ok: "blocks_ok m1 a t ?bs" using blocks_ok_flip [OF ok0, of False] by (simp add: m1)
  have ch: "chain m1 fl (frees l1 @ frees l2) 0"
  proof -
    have "ld32 m1 (q + 4) = ld32 m (q + 4)" if "q \<in> set (frees l1 @ frees l2)" for q
      unfolding m1 using that by (intro dog_links_free [OF ok0 pin0]) auto
    then show ?thesis using ch0 chain_cong [of "frees l1 @ frees l2" m1 m] by simp
  qed
  have t: "tiles a l1 p" "tiles (p + n) l2 t" using ok by (auto simp: blocks_ok_def tiles_append)
  define pre nx where "pre = last (0 # frees l1)" and "nx = (case frees l2 of [] \<Rightarrow> 0 | y # _ \<Rightarrow> y)"
  have find: "dealloc_find m1 p 0 fl = Some (pre, nx)"
  proof -
    have "\<forall>x\<in>set (frees l1). x < p" "\<forall>y\<in>set (frees l2). p \<le> y"
      using tiles_frees_less [OF t(1)] tiles_frees_less [OF t(2)] by fastforce+
    moreover have "set (frees l1 @ frees l2) \<subseteq> set (frees ?bs)" by auto
    ultimately show ?thesis using dealloc_find_result [OF ok ch, of p 0] unfolding pre_def nx_def by simp
  qed
  have co': "coalesced l1" "coalesced l2" using co by (auto simp: coalesced_append split: if_splits) (cases l2; auto)+
  obtain m3 fl3 pre3 L k where s1:
     "(let m = set_next p nx m1 in
        if pre = 0 then (m, p, p)
        else if add32 pre (ld32 m pre) = p
        then (st32 pre (add32 (ld32 m pre) (ld32 m p)) m, fl, pre)
        else (set_next pre p m, fl, p)) = (m3, fl3, pre3)"
     and w3: "heap_wf m3 fl3 a t (L @ (pre3, k, False) # l2)" and c3: "coalesced (L @ [(pre3, k, False)])"
     and u3: "useds L = useds l1" "free_sum L + k = free_sum l1 + n" and f3: "only_free_changed ?bs m1 m3"
     and cov: "\<forall>i. pre3 \<le> i \<and> i < pre3 + k \<longrightarrow> (\<exists>q j. (q, j, False) \<in> set ?bs \<and> q \<le> i \<and> i < q + j)"
     and L: "set L \<subseteq> set l1"
     and dog: "pre3 = p \<or> pre3 + 8 \<le> p \<and> ld32 m3 p = n \<and> m3 (p + n - 1) = MEM_BLOCK_STAT_FREE"
    using link_prev_ok [OF ok ch co'(1) pre_def nx_def] by metis
  obtain m4 bs' where s2:
     "(if nx \<noteq> 0 \<and> add32 pre3 (ld32 m3 pre3) = nx
       then (let m = st32 pre3 (add32 (ld32 m3 pre3) (ld32 m3 nx)) m3 in set_next pre3 (blk_next m nx) m) else m3) = m4"
     and w4: "heap_wf m4 fl3 a t bs'" "coalesced bs'" "useds bs' = useds L @ useds l2"
       "free_sum bs' = free_sum (L @ (pre3, k, False) # l2)" and f4: "only_free_changed (L @ (pre3, k, False) # l2) m3 m4"
     and head: "\<exists>k'. (pre3, k', False) \<in> set bs'" and near: "\<forall>i. i < pre3 \<or> pre3 + 8 \<le> i \<longrightarrow> m4 i = m3 i"
    using merge_next_ok [OF w3 c3 co'(2) nx_def] by metis
  have link: "dealloc_link p pre nx fl m1 = (m4, fl3)"
    unfolding dealloc_link_def using s1 s2 by (simp add: Let_def split: prod.splits if_splits)
  have "only_free_changed ?bs m m1"
  proof (rule only_free_changedI)
    fix i assume "m1 i \<noteq> m i"
    then have "i = p + n - 1" by (auto simp: m1 split: if_splits)
    then show "\<exists>q k. (q, k, False) \<in> set ?bs \<and> q \<le> i \<and> i < q + k"
      using pb(4) by (intro exI [of _ p] exI [of _ n]) auto
  qed
  then have "only_free_changed ?bs m m3" using f3 by (rule only_free_changed_trans) blast
  then have "only_free_changed ?bs m m4"
    using f4
  proof (rule only_free_changed_trans)
    fix q j assume q: "(q, j, False) \<in> set (L @ (pre3, k, False) # l2)"
    show "\<forall>i. q \<le> i \<and> i < q + j \<longrightarrow> (\<exists>q k. (q, k, False) \<in> set ?bs \<and> q \<le> i \<and> i < q + k)"
    proof (cases "(q, j, False) \<in> set l1 \<or> (q, j, False) \<in> set l2")
      case True
      then show ?thesis by auto
    next
      case False
      then have "q = pre3" "j = k" using q L by auto
      then show ?thesis using cov by simp
    qed
  qed
  moreover have "\<exists>k\<ge>12. ld32 m4 p = k \<and> m4 (p + k - 1) = MEM_BLOCK_STAT_FREE \<and> p + k \<le> t"
    using dog
  proof
    assume "pre3 = p"
    then obtain k' where k': "(p, k', False) \<in> set bs'" using head by blast
    have "blocks_ok m4 a t bs'" using w4(1) by (simp add: heap_wf_alt)
    from blocks_okD [OF this k'] show ?thesis by auto
  next
    assume d: "pre3 + 8 \<le> p \<and> ld32 m3 p = n \<and> m3 (p + n - 1) = MEM_BLOCK_STAT_FREE"
    have "ld32 m4 p = ld32 m3 p" by (rule ld32_cong) (use d near in auto)
    moreover have "m4 (p + n - 1) = m3 (p + n - 1)"
    proof -
      have "pre3 + 8 \<le> p + n - 1" using d pb(4) by arith
      then show ?thesis using near by blast
    qed
    ultimately show ?thesis using d pb(4,6) by auto
  qed
  ultimately show ?thesis using find link w4 u3 by auto
qed

end
