(* ===== verification/MemHeapOps.thy ===== *)
theory MemHeapOps
  imports MemHeapInv
begin

text \<open>
  The operations of the heap manager on a state in which every created heap is well formed:
  allocation, freeing, reallocation, creation, the walk over a heap, and their properties.
\<close>

section \<open>Sizes\<close>

lemma align_up_mod: "x + 3 < 4294967296 \<Longrightarrow> ALIGN_UP x = (x + 3) div 4 * 4"
  by (simp add: ALIGN_UP_def arith32)

lemma alloc_size_eq:
  assumes "sz < 4294967296" and "\<not> alloc_size sz < max 4 sz"
  shows "alloc_size sz = (max 4 sz + 4) div 4 * 4 + 4" and "max 4 sz + 8 < 4294967296"
proof -
  let ?n = "max 4 sz"
  have n: "?n < 4294967296" "(if sz < 4 then 4 else sz) = ?n" using assms(1) by (auto simp: max_def)
  have def: "alloc_size sz = add32 (ALIGN_UP (add32 ?n 1)) 4"
    unfolding alloc_size_def n(2) by (simp add: mem_consts)
  show lt: "?n + 8 < 4294967296"
  proof (rule ccontr)
    assume big: "\<not> ?n + 8 < 4294967296"
    have "alloc_size sz \<le> 4"
    proof (cases "?n + 4 < 4294967296")
      case True
      then have "ALIGN_UP (add32 ?n 1) = (?n + 4) div 4 * 4" by (simp add: arith32 align_up_mod)
      moreover have "(?n + 4) div 4 = 1073741823" using True big by (intro div_nat_eqI) simp_all
      ultimately have "ALIGN_UP (add32 ?n 1) = 4294967292" by simp
      then show ?thesis unfolding def by (simp add: add32_def)
    next
      case False
      have "ALIGN_UP (add32 ?n 1) = 0"
      proof (cases "?n + 1 < 4294967296")
        case True
        moreover have "\<not> ?n + 1 + 3 < 4294967296" using False by linarith
        ultimately have "add32 (?n + 1) 3 < 4" using add32_wrap [of "?n + 1" 3] by linarith
        then show ?thesis using True by (simp add: ALIGN_UP_def arith32)
      next
        case False
        then have "?n = 4294967295" using n by simp
        then show ?thesis by (simp add: ALIGN_UP_def add32_def)
      qed
      then show ?thesis unfolding def by (simp add: add32_def)
    qed
    moreover have "4 < ?n" using big by simp
    ultimately show False using assms(2) by simp
  qed
  then have "ALIGN_UP (add32 ?n 1) = (?n + 4) div 4 * 4" by (simp add: arith32 align_up_mod)
  moreover have "(?n + 4) div 4 * 4 + 4 < 4294967296"
    using lt div_times_less_eq_dividend [of "?n + 4" 4] by linarith
  ultimately show "alloc_size sz = (?n + 4) div 4 * 4 + 4" unfolding def by (simp add: arith32)
qed

lemma alloc_size_bounds:
  assumes "sz < 4294967296" and "\<not> alloc_size sz < max 4 sz"
  shows "12 \<le> alloc_size sz" "4 dvd alloc_size sz" "max 4 sz + 5 \<le> alloc_size sz" "alloc_size sz \<le> max 4 sz + 8"
    "alloc_size sz < 4294967296"
proof -
  note e = alloc_size_eq [OF assms]
  have "(max 4 sz + 4) div 4 * 4 + (max 4 sz + 4) mod 4 = max 4 sz + 4" "(max 4 sz + 4) mod 4 < 4"
    using div_mult_mod_eq [of "max 4 sz + 4" 4] by simp_all
  then show l: "max 4 sz + 5 \<le> alloc_size sz" "alloc_size sz \<le> max 4 sz + 8" unfolding e(1) by linarith+
  show "4 dvd alloc_size sz" unfolding e(1) by simp
  have "2 \<le> (max 4 sz + 4) div 4" by (simp add: less_eq_div_iff_mult_less_eq)
  then show "12 \<le> alloc_size sz" unfolding e(1) by linarith
  show "alloc_size sz < 4294967296" using l e(2) by linarith
qed

section \<open>Well-formed states\<close>

definition heap_start :: "mheap \<Rightarrow> nat" where
  "heap_start h = ALIGN_UP (mh_base h)"

definition heap_end :: "mheap \<Rightarrow> nat" where
  "heap_end h = ALIGN_DOWN (add32 (mh_base h) (mh_size h))"

definition heap_ok :: "memory \<Rightarrow> mheap \<Rightarrow> block list \<Rightarrow> bool" where
  "heap_ok m h bs \<longleftrightarrow>
     heap_wf m (mh_free_list h) (heap_start h) (heap_end h) bs \<and> coalesced bs \<and> mh_free h = free_sum bs \<and>
     mh_base h + mh_size h < 4294967296"

text \<open>
  \<open>lay i\<close> is the layout of heap \<open>i\<close>. The heaps that exist (size not 0) lie in disjoint regions.
\<close>

definition state_ok :: "mstate \<Rightarrow> (nat \<Rightarrow> block list) \<Rightarrow> bool" where
  "state_ok s lay \<longleftrightarrow> ctx s \<and> length (heaps s) = MEM_HEAP_LIST_NUM \<and>
     (\<forall>i<MEM_HEAP_LIST_NUM. mh_size (heaps s ! i) \<noteq> 0 \<longrightarrow> heap_ok (mem s) (heaps s ! i) (lay i)) \<and>
     (\<forall>i<MEM_HEAP_LIST_NUM. \<forall>j<MEM_HEAP_LIST_NUM. i \<noteq> j \<and> mh_size (heaps s ! i) \<noteq> 0 \<and> mh_size (heaps s ! j) \<noteq> 0 \<longrightarrow>
        heap_end (heaps s ! i) \<le> heap_start (heaps s ! j) \<or> heap_end (heaps s ! j) \<le> heap_start (heaps s ! i))"

definition total_free :: "mheap list \<Rightarrow> nat" where
  "total_free hs = sum_list (map (\<lambda>h. if mh_size h = 0 then 0 else mh_free h) hs)"

definition accounted :: "mstate \<Rightarrow> bool" where
  "accounted s \<longleftrightarrow> s_free s = total_free (heaps s) \<and> s_free s < 4294967296"

lemma heap_ok_blocks: "heap_ok m h bs \<Longrightarrow> blocks_ok m (heap_start h) (heap_end h) bs"
  by (simp add: heap_ok_def heap_wf_alt)

lemma heap_ok_cong:
  assumes "heap_ok m h bs" and "\<forall>i. heap_start h \<le> i \<and> i < heap_end h \<longrightarrow> m' i = m i"
  shows "heap_ok m' h bs"
  using assms headers_cong [OF _ assms(2)] chain_frees_cong [OF _ assms(2)]
  by (simp add: heap_ok_def heap_wf_def)

lemma only_free_changed_outside:
  assumes "blocks_ok m0 a t bs" and "only_free_changed bs m m'" and "i < a \<or> t \<le> i"
  shows "m' i = m i"
proof -
  have "i < p \<or> p + n \<le> i" if "(p, n, False) \<in> set bs" for p n
    using blocks_okD(5,6) [OF assms(1) that] assms(3) by linarith
  then show ?thesis using assms(2) by (simp add: only_free_changed_def)
qed

text \<open>A change of heap \<open>i\<close> that leaves the memory outside its region alone.\<close>

lemma state_ok_change:
  assumes ok: "state_ok s lay" and i: "i < MEM_HEAP_LIST_NUM" "mh_size (heaps s ! i) \<noteq> 0"
    and h: "heap_ok m h bs" "mh_size h = mh_size (heaps s ! i)" "mh_base h = mh_base (heaps s ! i)"
    and out: "\<forall>x. x < heap_start h \<or> heap_end h \<le> x \<longrightarrow> m x = mem s x"
    and t: "ctx t" "heaps t = (heaps s)[i := h]" "mem t = m"
  shows "state_ok t (lay(i := bs))"
proof -
  have len: "length (heaps s) = MEM_HEAP_LIST_NUM" using ok by (simp add: state_ok_def)
  have region: "heap_start (heaps t ! j) = heap_start (heaps s ! j)" "heap_end (heaps t ! j) = heap_end (heaps s ! j)"
    "mh_size (heaps t ! j) = mh_size (heaps s ! j)" if "j < MEM_HEAP_LIST_NUM" for j
    using that h i len t by (auto simp: nth_list_update heap_start_def heap_end_def)
  have "heap_ok (mem t) (heaps t ! j) ((lay(i := bs)) j)"
    if j: "j < MEM_HEAP_LIST_NUM" "mh_size (heaps t ! j) \<noteq> 0" for j
  proof (cases "j = i")
    case True
    then show ?thesis using h(1) t i len by simp
  next
    case False
    have hj: "heap_ok (mem s) (heaps s ! j) (lay j)" using ok j region(3) [OF j(1)] by (simp add: state_ok_def)
    have "heap_end (heaps s ! i) \<le> heap_start (heaps s ! j) \<or> heap_end (heaps s ! j) \<le> heap_start (heaps s ! i)"
      using ok i j False region(3) [OF j(1)] by (simp add: state_ok_def)
    then have "\<forall>x. heap_start (heaps s ! j) \<le> x \<and> x < heap_end (heaps s ! j) \<longrightarrow> m x = mem s x"
      using out region(1,2) [OF i(1)] t i(1) len by auto
    then show ?thesis using heap_ok_cong [OF hj] False t j by simp
  qed
  then show ?thesis using ok t region len by (simp add: state_ok_def)
qed

lemma total_free_update:
  assumes "i < length hs" and "mh_size h = mh_size (hs ! i)" and "mh_size h \<noteq> 0"
  shows "total_free (hs[i := h]) + mh_free (hs ! i) = total_free hs + mh_free h"
  using assms sum_list_update_nat [of i "map (\<lambda>h. if mh_size h = 0 then 0 else mh_free h) hs" "mh_free h"]
  by (simp add: total_free_def map_update)

lemma total_free_member: "i < length hs \<Longrightarrow> mh_size (hs ! i) \<noteq> 0 \<Longrightarrow> mh_free (hs ! i) \<le> total_free hs"
  using member_le_sum_list [of "mh_free (hs ! i)" "map (\<lambda>h. if mh_size h = 0 then 0 else mh_free h) hs"]
  by (force simp: total_free_def)

text \<open>Disjoint heaps below \<open>2 ^ 32\<close> cannot have more free bytes than there are addresses.\<close>

lemma heap_free_bound: "heap_ok m h bs \<Longrightarrow> mh_free h \<le> heap_end h - heap_start h \<and> heap_start h \<le> heap_end h \<and> heap_end h < 4294967296"
  using tiles_free_sum [of "heap_start h" bs "heap_end h"] tiles_bounds [of "heap_start h" bs "heap_end h"]
  by (simp add: heap_ok_def heap_wf_def)

lemma disjoint_lengths:
  fixes st en :: "nat \<Rightarrow> nat"
  assumes "finite I" and "\<forall>i\<in>I. st i \<le> en i \<and> en i < N"
    and "\<forall>i\<in>I. \<forall>j\<in>I. i \<noteq> j \<longrightarrow> en i \<le> st j \<or> en j \<le> st i" and "0 < N"
  shows "(\<Sum>i\<in>I. en i - st i) < N"
proof -
  have "(\<Sum>i\<in>I. en i - st i) = (\<Sum>i\<in>I. card {st i..<en i})" by simp
  also have "\<dots> = card (\<Union>i\<in>I. {st i..<en i})"
    using assms(1,3) by (subst card_UN_disjoint) (auto, fastforce)
  also have "\<dots> \<le> card {..<N - 1}"
    using assms(2) by (intro card_mono) fastforce+
  finally show ?thesis using assms(4) by simp
qed

lemma total_free_less:
  assumes "state_ok s lay"
  shows "total_free (heaps s) < 4294967296"
proof -
  let ?I = "{i. i < MEM_HEAP_LIST_NUM \<and> mh_size (heaps s ! i) \<noteq> 0}"
  have len: "length (heaps s) = MEM_HEAP_LIST_NUM" using assms by (simp add: state_ok_def)
  have b: "mh_free (heaps s ! i) \<le> heap_end (heaps s ! i) - heap_start (heaps s ! i) \<and>
     heap_start (heaps s ! i) \<le> heap_end (heaps s ! i) \<and> heap_end (heaps s ! i) < 4294967296" if "i \<in> ?I" for i
    using that assms heap_free_bound [of "mem s" "heaps s ! i" "lay i"] by (auto simp: state_ok_def)
  have "total_free (heaps s) = (\<Sum>i<length (heaps s). if mh_size (heaps s ! i) = 0 then 0 else mh_free (heaps s ! i))"
    unfolding total_free_def by (simp add: sum_list_sum_nth atLeast0LessThan)
  also have "\<dots> = (\<Sum>i\<in>?I. mh_free (heaps s ! i))"
    unfolding len by (rule sum.mono_neutral_cong_right) auto
  also have "\<dots> \<le> (\<Sum>i\<in>?I. heap_end (heaps s ! i) - heap_start (heaps s ! i))"
    using b by (intro sum_mono) simp
  also have "\<dots> < 4294967296"
  proof (rule disjoint_lengths)
    show "\<forall>i\<in>?I. \<forall>j\<in>?I. i \<noteq> j \<longrightarrow> heap_end (heaps s ! i) \<le> heap_start (heaps s ! j) \<or> heap_end (heaps s ! j) \<le> heap_start (heaps s ! i)"
      using assms by (simp add: state_ok_def)
  qed (use b in auto)
  finally show ?thesis .
qed

section \<open>Allocation\<close>

text \<open>What an allocation of \<open>sz\<close> bytes from heap \<open>i\<close> does to a well-formed state.\<close>

definition alloc_effect :: "nat \<Rightarrow> nat \<Rightarrow> mstate \<Rightarrow> (nat \<Rightarrow> block list) \<Rightarrow> nat \<Rightarrow> mstate \<Rightarrow> (nat \<Rightarrow> block list) \<Rightarrow> bool" where
  "alloc_effect i sz s lay ptr t lay' \<longleftrightarrow>
     (\<exists>b n u1 u2. ptr = b + 4 \<and> 4 dvd ptr \<and> max 4 sz + 5 \<le> n \<and> b \<noteq> 0 \<and> b + n \<le> heap_end (heaps s ! i) \<and>
        (b, n, True) \<in> set (lay' i) \<and> useds (lay i) = u1 @ u2 \<and> useds (lay' i) = u1 @ (b, n) # u2 \<and>
        free_sum (lay' i) + n = free_sum (lay i) \<and> (\<forall>j. j \<noteq> i \<longrightarrow> lay' j = lay j)) \<and>
     only_free_changed (lay i) (mem s) (mem t) \<and> crit t = crit s \<and> dbg t = dbg s"

lemma MEM_Allocate_ok:
  assumes ok: "state_ok s lay" and i: "i < MEM_HEAP_LIST_NUM" "mh_size (heaps s ! i) \<noteq> 0"
    and sz: "0 < sz" "sz < 4294967296"
  shows "(\<exists>t. MEM_Allocate (Some i) sz s = Some (0, t) \<and> state_ok t lay \<and> mem t = mem s \<and> heaps t = heaps s \<and>
        s_free t = s_free s \<and> crit t = crit s \<and> dbg t = dbg s \<and>
        (\<not> alloc_size sz < max 4 sz \<longrightarrow> (\<forall>p n. (p, n, False) \<in> set (lay i) \<longrightarrow> n < alloc_size sz))) \<or>
     (\<exists>ptr t lay'. MEM_Allocate (Some i) sz s = Some (ptr, t) \<and> ptr \<noteq> 0 \<and> state_ok t lay' \<and>
        alloc_effect i sz s lay ptr t lay' \<and> (accounted s \<longrightarrow> accounted t))"
proof -
  let ?h = "heaps s ! i"
  have len: "length (heaps s) = MEM_HEAP_LIST_NUM" and cx: "ctx s" using ok by (simp_all add: state_ok_def)
  have hok: "heap_ok (mem s) ?h (lay i)" using ok i by (simp add: state_ok_def)
  have wf: "heap_wf (mem s) (mh_free_list ?h) (heap_start ?h) (heap_end ?h) (lay i)" and co: "coalesced (lay i)"
    and fr: "mh_free ?h = free_sum (lay i)"
    using hok by (simp_all add: heap_ok_def)
  have mx: "(if sz < 4 then 4 else sz) = max 4 sz" by (simp add: max_def)
  show ?thesis
  proof (cases "alloc_size sz < max 4 sz")
    case True
    then have "MEM_Allocate (Some i) sz s = Some (0, s)" using sz by (simp add: MEM_Allocate_def mx)
    then show ?thesis using True ok by blast
  next
    case False
    note ab = alloc_size_bounds [OF sz(2) False]
    from chunk_get_ok [OF wf co ab(1,2)] show ?thesis
    proof (elim disjE)
      assume r: "mem_chunk_get (mem s) (mh_free_list ?h) (alloc_size sz) = Some (0, mem s, mh_free_list ?h) \<and>
        (\<forall>p n. (p, n, False) \<in> set (lay i) \<longrightarrow> n < alloc_size sz)"
      then have "MEM_Allocate (Some i) sz s = Some (0, s)"
        using sz False i len cx
        by (simp add: MEM_Allocate_def mx enter_critical_def exit_critical_def aget_def put_heap_def)
      then show ?thesis using r ok by blast
    next
      assume "\<exists>b m' fl' bs' n u1 u2. mem_chunk_get (mem s) (mh_free_list ?h) (alloc_size sz) = Some (b, m', fl') \<and>
        heap_wf m' fl' (heap_start ?h) (heap_end ?h) bs' \<and> coalesced bs' \<and> b \<noteq> 0 \<and> ld32 m' b = n \<and>
        alloc_size sz \<le> n \<and> n < alloc_size sz + MEM_HEAP_MIN_SIZE \<and> useds (lay i) = u1 @ u2 \<and> useds bs' = u1 @ (b, n) # u2 \<and>
        free_sum bs' + n = free_sum (lay i) \<and> only_free_changed (lay i) (mem s) m'"
      then obtain b m' fl' bs' n u1 u2 where
        r: "mem_chunk_get (mem s) (mh_free_list ?h) (alloc_size sz) = Some (b, m', fl')"
        and w: "heap_wf m' fl' (heap_start ?h) (heap_end ?h) bs'" "coalesced bs'" "b \<noteq> 0" "ld32 m' b = n"
        and n: "alloc_size sz \<le> n"
        and u: "useds (lay i) = u1 @ u2" "useds bs' = u1 @ (b, n) # u2" "free_sum bs' + n = free_sum (lay i)"
        and f: "only_free_changed (lay i) (mem s) m'" by blast
      have bin: "(b, n, True) \<in> set bs'" using u(2) useds_member [of b n bs'] by simp
      have ok': "blocks_ok m' (heap_start ?h) (heap_end ?h) bs'" using w(1) by (simp add: heap_wf_alt)
      note bb = blocks_okD [OF ok' bin]
      have fsum: "free_sum (lay i) < 4294967296"
        using tiles_free_sum [of "heap_start ?h" "lay i" "heap_end ?h"] wf unfolding heap_wf_def by linarith
      have f1: "sub32 (mh_free ?h) n = free_sum bs'"
        using u(3) fr fsum by (subst sub32_nowrap) simp_all
      define h' where "h' = ?h\<lparr>mh_free_list := fl', mh_free := free_sum bs',
        mh_watermark := (if mh_watermark ?h > free_sum bs' then free_sum bs' else mh_watermark ?h)\<rparr>"
      define g where "g = sub32 (s_free s) n"
      define t where "t = s\<lparr>mem := m', s_free := g,
        s_watermark := (if s_watermark s > g then g else s_watermark s), heaps := (heaps s)[i := h']\<rparr>"
      have b4: "add32 b 4 = b + 4" using bb by (intro add32_nowrap) simp
      have run: "MEM_Allocate (Some i) sz s = Some (b + 4, t)"
        using sz False i len cx r w(3)
        by (simp add: MEM_Allocate_def mx enter_critical_def exit_critical_def aget_def put_heap_def w(4) f1 b4
            mem_consts(1) Let_def h'_def t_def g_def)
      have hok': "heap_ok m' h' bs'"
        using w hok by (simp add: heap_ok_def h'_def heap_start_def heap_end_def)
      have st: "state_ok t (lay(i := bs'))"
      proof (rule state_ok_change [OF ok i hok'])
        show "\<forall>x. x < heap_start h' \<or> heap_end h' \<le> x \<longrightarrow> m' x = mem s x"
          using only_free_changed_outside [OF heap_ok_blocks [OF hok] f]
          by (simp add: h'_def heap_start_def heap_end_def)
      qed (simp_all add: h'_def t_def cx)
      have acc: "accounted t" if a: "accounted s"
      proof -
        have "total_free (heaps t) + mh_free ?h = total_free (heaps s) + mh_free h'"
          unfolding t_def using total_free_update [of i "heaps s" h'] i len by (simp add: h'_def)
        moreover have "mh_free ?h \<le> total_free (heaps s)" using total_free_member [of i "heaps s"] i len by simp
        moreover have "s_free s = total_free (heaps s)" "s_free s < 4294967296" using a by (simp_all add: accounted_def)
        moreover have "mh_free h' + n = mh_free ?h" using u(3) fr by (simp add: h'_def)
        moreover have "g = s_free s - n"
          unfolding g_def using calculation by (intro sub32_nowrap) linarith+
        ultimately have "g = total_free (heaps t)" "g < 4294967296" by linarith+
        then show ?thesis by (simp add: accounted_def t_def)
      qed
      have "b + 4 = b + 4 \<and> 4 dvd b + 4 \<and> max 4 sz + 5 \<le> n \<and> b \<noteq> 0 \<and> b + n \<le> heap_end ?h \<and>
        (b, n, True) \<in> set ((lay(i := bs')) i) \<and> useds (lay i) = u1 @ u2 \<and> useds ((lay(i := bs')) i) = u1 @ (b, n) # u2 \<and>
        free_sum ((lay(i := bs')) i) + n = free_sum (lay i) \<and> (\<forall>j. j \<noteq> i \<longrightarrow> (lay(i := bs')) j = lay j)"
        using bin u bb ab(3) n w(3) by auto
      moreover have "only_free_changed (lay i) (mem s) (mem t) \<and> crit t = crit s \<and> dbg t = dbg s"
        using f by (simp add: t_def)
      ultimately have "alloc_effect i sz s lay (b + 4) t (lay(i := bs'))"
        unfolding alloc_effect_def by blast
      then show ?thesis using run st acc by (metis add_is_0 zero_neq_numeral)
    qed
  qed
qed

section \<open>Freeing\<close>

definition free_effect :: "nat \<Rightarrow> nat \<Rightarrow> nat \<Rightarrow> mstate \<Rightarrow> (nat \<Rightarrow> block list) \<Rightarrow> mstate \<Rightarrow> (nat \<Rightarrow> block list) \<Rightarrow> bool" where
  "free_effect i p n s lay t lay' \<longleftrightarrow>
     (\<exists>u1 u2. useds (lay i) = u1 @ (p, n) # u2 \<and> useds (lay' i) = u1 @ u2) \<and>
     free_sum (lay' i) = free_sum (lay i) + n \<and> (\<forall>j. j \<noteq> i \<longrightarrow> lay' j = lay j) \<and>
     (\<forall>x. (x < p \<or> p + n \<le> x) \<and> (\<forall>q k. (q, k, False) \<in> set (lay i) \<longrightarrow> x < q \<or> q + k \<le> x) \<longrightarrow> mem t x = mem s x) \<and>
     crit t = crit s \<and> dbg t = dbg s"

lemma MEM_Deallocate_ok:
  assumes ok: "state_ok s lay" and i: "i < MEM_HEAP_LIST_NUM" "mh_size (heaps s ! i) \<noteq> 0"
    and p: "(p, n, True) \<in> set (lay i)"
  shows "\<exists>t lay'. MEM_Deallocate (Some i) (p + 4) s = Some t \<and> state_ok t lay' \<and> free_effect i p n s lay t lay' \<and>
     (accounted s \<longrightarrow> accounted t) \<and> mem t (MEM_DOG_ADDR (mem t) p) = MEM_BLOCK_STAT_FREE \<and>
     (\<forall>j<MEM_HEAP_LIST_NUM. mh_size (heaps t ! j) = mh_size (heaps s ! j) \<and> mh_base (heaps t ! j) = mh_base (heaps s ! j))"
proof -
  let ?h = "heaps s ! i"
  have len: "length (heaps s) = MEM_HEAP_LIST_NUM" and cx: "ctx s" using ok by (simp_all add: state_ok_def)
  have hok: "heap_ok (mem s) ?h (lay i)" using ok i by (simp add: state_ok_def)
  obtain l1 l2 where lay: "lay i = l1 @ (p, n, True) # l2" using p by (auto simp: in_set_conv_decomp)
  have wf: "heap_wf (mem s) (mh_free_list ?h) (heap_start ?h) (heap_end ?h) (l1 @ (p, n, True) # l2)"
    and co: "coalesced (l1 @ (p, n, True) # l2)" and fr: "mh_free ?h = free_sum (lay i)"
    using hok lay by (simp_all add: heap_ok_def)
  note bok = heap_ok_blocks [OF hok]
  note pb = blocks_okD [OF bok p]
  let ?m1 = "(mem s)(p + n - 1 := MEM_BLOCK_STAT_FREE)"
  obtain pre nx m' fl' bs' k where r: "dealloc_find ?m1 p 0 (mh_free_list ?h) = Some (pre, nx)"
    "dealloc_link p pre nx (mh_free_list ?h) ?m1 = (m', fl')"
    and w: "heap_wf m' fl' (heap_start ?h) (heap_end ?h) bs'" "coalesced bs'" "useds bs' = useds l1 @ useds l2"
    "free_sum bs' = free_sum (l1 @ (p, n, True) # l2) + n"
    and f: "only_free_changed (l1 @ (p, n, False) # l2) (mem s) m'"
    and dk: "12 \<le> k" "ld32 m' p = k" "m' (p + k - 1) = MEM_BLOCK_STAT_FREE" "p + k \<le> heap_end ?h"
    using dealloc_ok [OF wf co refl] by blast
  have sub: "sub32 (p + 4) 4 = p" using pb by (subst sub32_nowrap) simp_all
  have dog: "MEM_DOG_ADDR (mem s) p = p + n - 1"
  proof -
    have "add32 p n = p + n" using pb by (intro add32_nowrap) simp
    moreover have "sub32 (p + n) 1 = p + n - 1" using pb by (intro sub32_nowrap) simp_all
    ultimately show ?thesis by (simp add: MEM_DOG_ADDR_def pb(8))
  qed
  have dog': "MEM_DOG_ADDR m' p = p + k - 1"
  proof -
    have "add32 p k = p + k" using dk pb(7) by (intro add32_nowrap) simp
    moreover have "sub32 (p + k) 1 = p + k - 1" using dk pb(7) by (intro sub32_nowrap) simp_all
    ultimately show ?thesis by (simp add: MEM_DOG_ADDR_def dk(2))
  qed
  have ldn: "ld32 ?m1 p = n"
  proof -
    have "ld32 ?m1 p = ld32 (mem s) p" by (rule ld32_upd_disjoint) (use pb(4) in arith)
    then show ?thesis using pb(8) by simp
  qed
  have fs: "free_sum bs' < 4294967296"
    using tiles_free_sum [of "heap_start ?h" bs' "heap_end ?h"] w(1) unfolding heap_wf_def by linarith
  have f1: "add32 (mh_free ?h) n = free_sum bs'"
    using w(4) fr lay fs by (subst add32_nowrap) simp_all
  define h' where "h' = ?h\<lparr>mh_free := free_sum bs', mh_free_list := fl'\<rparr>"
  define t where "t = s\<lparr>mem := m', s_free := add32 (s_free s) n, heaps := (heaps s)[i := h']\<rparr>"
  have used: "mem s (p + n - 1) = MEM_BLOCK_STAT_USE" using pb(9) by simp
  have run: "MEM_Deallocate (Some i) (p + 4) s = Some t"
    unfolding MEM_Deallocate_def option.case mem_consts(1) sub Let_def dog
    using used r i len cx ldn f1
    by (simp add: enter_critical_def exit_critical_def aget_def put_heap_def t_def h'_def)
  have hok': "heap_ok m' h' bs'"
    using w hok by (simp add: heap_ok_def h'_def heap_start_def heap_end_def)
  have st: "state_ok t (lay(i := bs'))"
  proof (rule state_ok_change [OF ok i hok'])
    have "blocks_ok ?m1 (heap_start ?h) (heap_end ?h) (l1 @ (p, n, False) # l2)"
      using blocks_ok_flip [OF bok [unfolded lay], of False] by simp
    from only_free_changed_outside [OF this f]
    show "\<forall>x. x < heap_start h' \<or> heap_end h' \<le> x \<longrightarrow> m' x = mem s x"
      by (simp add: h'_def heap_start_def heap_end_def)
  qed (simp_all add: h'_def t_def cx)
  have acc: "accounted t" if a: "accounted s"
  proof -
    have "total_free (heaps t) + mh_free ?h = total_free (heaps s) + mh_free h'"
      unfolding t_def using total_free_update [of i "heaps s" h'] i len by (simp add: h'_def)
    moreover have "total_free (heaps t) < 4294967296" using total_free_less [OF st] .
    moreover have "s_free s = total_free (heaps s)" "s_free s < 4294967296" using a by (simp_all add: accounted_def)
    moreover have "mh_free h' = mh_free ?h + n" using w(4) fr lay by (simp add: h'_def)
    moreover have "add32 (s_free s) n = s_free s + n" using calculation by (intro add32_nowrap) linarith
    ultimately show ?thesis by (simp add: accounted_def t_def)
  qed
  have eff: "free_effect i p n s lay t (lay(i := bs'))"
    unfolding free_effect_def
  proof (intro conjI)
    show "\<exists>u1 u2. useds (lay i) = u1 @ (p, n) # u2 \<and> useds ((lay(i := bs')) i) = u1 @ u2"
      using w(3) lay by auto
    show "\<forall>x. (x < p \<or> p + n \<le> x) \<and> (\<forall>q k. (q, k, False) \<in> set (lay i) \<longrightarrow> x < q \<or> q + k \<le> x) \<longrightarrow> mem t x = mem s x"
      using f lay by (auto simp: only_free_changed_def t_def)
  qed (use w(4) lay in \<open>simp_all add: t_def\<close>)
  have "\<forall>j<MEM_HEAP_LIST_NUM. mh_size (heaps t ! j) = mh_size (heaps s ! j) \<and> mh_base (heaps t ! j) = mh_base (heaps s ! j)"
    using i len by (auto simp: t_def h'_def nth_list_update)
  moreover have "mem t (MEM_DOG_ADDR (mem t) p) = MEM_BLOCK_STAT_FREE"
    using dog' dk(3) by (simp add: t_def)
  ultimately show ?thesis using run st eff acc by blast
qed

section \<open>Creating a heap\<close>

lemma align_up_bounds: "x + 3 < 4294967296 \<Longrightarrow> x \<le> ALIGN_UP x \<and> ALIGN_UP x \<le> x + 3 \<and> 4 dvd ALIGN_UP x"
  using div_mult_mod_eq [of "x + 3" 4] mod_less_divisor [of 4 "x + 3"] by (simp add: align_up_mod)

lemma align_down_bounds: "ALIGN_DOWN x \<le> x \<and> x < ALIGN_DOWN x + 4 \<and> 4 dvd ALIGN_DOWN x"
  using div_mult_mod_eq [of x 4] mod_less_divisor [of 4 x] unfolding ALIGN_DOWN_def by auto

lemma align_down_unique: "4 dvd a \<Longrightarrow> a \<le> x \<Longrightarrow> x < a + 4 \<Longrightarrow> ALIGN_DOWN x = a"
  by (auto simp: ALIGN_DOWN_def elim!: dvdE intro: div_nat_eqI)

lemma find_slot_spec: "find_slot hs = length hs \<or> find_slot hs < length hs \<and> mh_size (hs ! find_slot hs) = 0"
  by (induction hs) auto

lemma heap_create_ok:
  assumes ok: "state_ok s lay" and i: "i = find_slot (heaps s)" "i < MEM_HEAP_LIST_NUM"
    and r: "0 < start" "31 \<le> sz" "start + sz < 4294967296"
    and d: "\<forall>j<MEM_HEAP_LIST_NUM. mh_size (heaps s ! j) \<noteq> 0 \<longrightarrow> heap_end (heaps s ! j) \<le> start \<or> start + sz \<le> heap_start (heaps s ! j)"
  shows "\<exists>t a n. tuya_mem_heap_create start sz s = Some (0, Some i, t) \<and> state_ok t (lay(i := [(a, n, False)])) \<and>
     start \<le> a \<and> a + n \<le> start + sz \<and> sz \<le> n + 6 \<and> mh_size (heaps t ! i) = sz \<and> mh_base (heaps t ! i) = start \<and>
     (accounted s \<longrightarrow> accounted t) \<and> crit t = crit s \<and> (\<forall>x. x < start \<or> start + sz \<le> x \<longrightarrow> mem t x = mem s x)"
proof -
  have len: "length (heaps s) = MEM_HEAP_LIST_NUM" and cx: "ctx s" using ok by (simp_all add: state_ok_def)
  have zero: "mh_size (heaps s ! i) = 0" using find_slot_spec [of "heaps s"] i len by auto
  define a where "a = ALIGN_UP start"
  define n where "n = ALIGN_DOWN (sz - (a - start))"
  have a: "start \<le> a" "a \<le> start + 3" "4 dvd a" using align_up_bounds [of start] r by (simp_all add: a_def)
  have n: "n \<le> sz - (a - start)" "sz - (a - start) < n + 4" "4 dvd n" using align_down_bounds [of "sz - (a - start)"]
    by (simp_all add: n_def)
  have n28: "28 \<le> n" using n a r by (auto elim!: dvdE)
  have fit: "a + n \<le> start + sz" "sz \<le> n + 6" using n a r by arith+
  have e1: "sub32 a start = a - start" using a r by (intro sub32_nowrap) simp_all
  have e2: "sub32 sz (a - start) = sz - (a - start)" using a r by (intro sub32_nowrap) simp_all
  have a4: "add32 a 4 = a + 4" "add32 a n = a + n" "sub32 (a + n) 1 = a + n - 1"
    using fit n28 r a by (auto intro!: add32_nowrap sub32_nowrap)
  have nlt: "n < 4294967296" using fit r by simp
  define m where "m = (st32 a n (st32 (a + 4) 0 (mem s)))(a + n - 1 := MEM_BLOCK_STAT_FREE)"
  have dog: "MEM_DOG_ADDR (st32 a n (st32 (a + 4) 0 (mem s))) a = a + n - 1"
    using nlt a4 by (simp add: MEM_DOG_ADDR_def)
  let ?h = "\<lparr>mh_free_list = a, mh_base = start, mh_size = sz, mh_free = n, mh_watermark = n\<rparr>"
  define t where "t = s\<lparr>dbg := DbgHeapInit sz start # dbg s, mem := m, s_free := add32 (s_free s) n,
     s_watermark := add32 (s_free s) n, heaps := (heaps s)[i := ?h]\<rparr>"
  have hrec: "h\<lparr>mh_base := start, mh_size := sz, mh_free_list := a, mh_free := n, mh_watermark := n\<rparr> = ?h" for h
    by (cases h) simp
  have m': "m = (st32 a n (st32 (a + 4) 0 (mem s)))(a + n - Suc 0 := MEM_BLOCK_STAT_FREE)"
    by (simp add: m_def)
  have run: "tuya_mem_heap_create start sz s = Some (0, Some i, t)"
    using r i len cx n28
    by (simp add: tuya_mem_heap_create_def MEM_HeapCreate_def mem_heap_init_def dbg_output_def enter_critical_def
        exit_critical_def aget_def put_heap_def Let_def a_def [symmetric] e1 e2 n_def [symmetric] mem_consts
        set_next_def set_dog_def a4 dog m' t_def hrec)
  have hdr: "ld32 m a = n" "ld32 m (a + 4) = 0" "m (a + n - 1) = MEM_BLOCK_STAT_FREE"
  proof -
    have "ld32 m a = ld32 (st32 a n (st32 (a + 4) 0 (mem s))) a"
      unfolding m_def by (rule ld32_upd_disjoint) (use n28 in arith)
    then show "ld32 m a = n" using nlt by simp
    have "ld32 m (a + 4) = ld32 (st32 a n (st32 (a + 4) 0 (mem s))) (a + 4)"
      unfolding m_def by (rule ld32_upd_disjoint) (use n28 in arith)
    then show "ld32 m (a + 4) = 0" by simp
    show "m (a + n - 1) = MEM_BLOCK_STAT_FREE" by (simp add: m_def)
  qed
  have out: "m x = mem s x" if "x < a \<or> a + n \<le> x" for x
  proof -
    have "x \<noteq> a + n - 1" "x < a \<or> a + 4 \<le> x" "x < a + 4 \<or> a + 4 + 4 \<le> x" using that n28 by arith+
    then show ?thesis by (simp only: m_def fun_upd_other st32_outside not_False_eq_True)
  qed
  have se: "heap_start ?h = a" "heap_end ?h = a + n"
  proof -
    have "add32 start sz = start + sz" using r by (intro add32_nowrap) simp
    moreover have "ALIGN_DOWN (start + sz) = a + n"
      using a n fit r by (intro align_down_unique) (auto intro: dvd_add)
    ultimately show "heap_start ?h = a" "heap_end ?h = a + n" by (simp_all add: heap_start_def heap_end_def a_def)
  qed
  have hok: "heap_ok m ?h [(a, n, False)]"
    using se a n n28 fit r hdr by (simp add: heap_ok_def heap_wf_def header_ok_def)
  have hs: "heaps t ! j = (if j = i then ?h else heaps s ! j)" if "j < MEM_HEAP_LIST_NUM" for j
    using that len i(2) by (simp add: t_def)
  have "state_ok t (lay(i := [(a, n, False)]))"
    unfolding state_ok_def
  proof (intro conjI allI impI)
    show "ctx t" "length (heaps t) = MEM_HEAP_LIST_NUM" using cx len by (simp_all add: t_def)
    fix j assume j: "j < MEM_HEAP_LIST_NUM" "mh_size (heaps t ! j) \<noteq> 0"
    show "heap_ok (mem t) (heaps t ! j) ((lay(i := [(a, n, False)])) j)"
    proof (cases "j = i")
      case True
      then show ?thesis using hok hs [OF j(1)] by (simp add: t_def)
    next
      case False
      then have hj: "heap_ok (mem s) (heaps s ! j) (lay j)" "mh_size (heaps s ! j) \<noteq> 0"
        using ok j hs by (simp_all add: state_ok_def)
      then have "\<forall>x. heap_start (heaps s ! j) \<le> x \<and> x < heap_end (heaps s ! j) \<longrightarrow> m x = mem s x"
        using d j(1) out a fit by fastforce
      then show ?thesis using heap_ok_cong [OF hj(1)] False hs [OF j(1)] by (simp add: t_def)
    qed
  next
    fix j k assume jk: "j < MEM_HEAP_LIST_NUM" "k < MEM_HEAP_LIST_NUM"
      "j \<noteq> k \<and> mh_size (heaps t ! j) \<noteq> 0 \<and> mh_size (heaps t ! k) \<noteq> 0"
    show "heap_end (heaps t ! j) \<le> heap_start (heaps t ! k) \<or> heap_end (heaps t ! k) \<le> heap_start (heaps t ! j)"
    proof (cases "j = i \<or> k = i")
      case True
      have far: "heap_end (heaps s ! l) \<le> a \<or> a + n \<le> heap_start (heaps s ! l)"
        if "l < MEM_HEAP_LIST_NUM" "l \<noteq> i" "mh_size (heaps t ! l) \<noteq> 0" for l
        using d that hs [OF that(1)] a fit by fastforce
      show ?thesis
      proof (cases "j = i")
        case True
        then show ?thesis using jk far [of k] hs [OF jk(1)] hs [OF jk(2)] se by auto
      next
        case False
        then show ?thesis using True jk far [of j] hs [OF jk(1)] hs [OF jk(2)] se by auto
      qed
    next
      case False
      then show ?thesis using jk hs ok by (simp add: state_ok_def)
    qed
  qed
  moreover have "accounted t" if acc: "accounted s"
  proof -
    have "total_free (heaps t) < 4294967296" using total_free_less calculation by blast
    moreover have "total_free (heaps t) = total_free (heaps s) + n"
    proof -
      have "sum_list ((map (\<lambda>h. if mh_size h = 0 then 0 else mh_free h) (heaps s))[i := n]) +
          map (\<lambda>h. if mh_size h = 0 then 0 else mh_free h) (heaps s) ! i =
          total_free (heaps s) + n"
        unfolding total_free_def using i len by (intro sum_list_update_nat) simp
      then show ?thesis using zero i len r by (simp add: total_free_def t_def map_update)
    qed
    ultimately show ?thesis using acc by (simp add: accounted_def t_def arith32)
  qed
  moreover have "mem t x = mem s x" if "x < start \<or> start + sz \<le> x" for x
    using that out [of x] a fit by (auto simp: t_def)
  ultimately show ?thesis using run a fit hs [OF i(2)] by (auto simp: t_def)
qed

end
