(* ===== verification/MemHeapClient.thy ===== *)
theory MemHeapClient
  imports MemHeapOps
begin

text \<open>
  The heap manager as its callers see it: the \<open>heap_allocator\<close> interface (blocks handed out do not
  overlap, a block keeps its bytes while others come and go), the theorem on histories of client
  operations proved inside it, its interpretation on \<^verbatim>\<open>tuya_mem_heap_malloc\<close> and \<^verbatim>\<open>tuya_mem_heap_free\<close>
  of one heap and of all heaps, and the properties of the module.
\<close>

section \<open>The interface a client sees\<close>

datatype heap_op = HMalloc nat | HFree nat | HWrite nat nat u8

text \<open>
  A client keeps a table of the blocks it holds, each with the bytes it takes them to have.
  \<open>HMalloc sz\<close> appends a block, \<open>HFree k\<close> frees the \<open>k\<close>-th, \<open>HWrite k i v\<close> stores a byte in it.
\<close>

fun hp_run :: "(nat \<Rightarrow> 's \<Rightarrow> (nat \<times> 's) option) \<Rightarrow> (nat \<Rightarrow> 's \<Rightarrow> 's option) \<Rightarrow> (nat \<Rightarrow> u8 \<Rightarrow> 's \<Rightarrow> 's) \<Rightarrow>
    ('s \<Rightarrow> nat \<Rightarrow> u8) \<Rightarrow> heap_op list \<Rightarrow> 's \<Rightarrow> (nat \<times> u8 list) list \<Rightarrow> ('s \<times> (nat \<times> u8 list) list) option" where
  "hp_run alloc free poke peek [] s T = Some (s, T)"
| "hp_run alloc free poke peek (HMalloc sz # ops) s T =
     do {
       (p, t) \<leftarrow> alloc sz s;
       hp_run alloc free poke peek ops t (if p = 0 then T else T @ [(p, map (\<lambda>i. peek t (p + i)) [0..<sz])])
     }"
| "hp_run alloc free poke peek (HFree k # ops) s T =
     (if k < length T
      then do { t \<leftarrow> free (fst (T ! k)) s; hp_run alloc free poke peek ops t (take k T @ drop (Suc k) T) }
      else hp_run alloc free poke peek ops s T)"
| "hp_run alloc free poke peek (HWrite k i v # ops) s T =
     (if k < length T \<and> i < length (snd (T ! k))
      then hp_run alloc free poke peek ops (poke (fst (T ! k) + i) v s) (T[k := (fst (T ! k), (snd (T ! k))[i := v])])
      else hp_run alloc free poke peek ops s T)"

text \<open>Each block of the table is live, large enough, and has the bytes of the table.\<close>

definition table_ok :: "('s \<Rightarrow> nat \<Rightarrow> u8) \<Rightarrow> (nat \<times> nat) set \<Rightarrow> 's \<Rightarrow> (nat \<times> u8 list) list \<Rightarrow> bool" where
  "table_ok peek L s T \<longleftrightarrow> distinct (map fst T) \<and>
     (\<forall>(p, bs)\<in>set T. \<exists>n. (p, n) \<in> L \<and> length bs \<le> n \<and> (\<forall>i<length bs. peek s (p + i) = bs ! i))"

definition blocks_apart :: "(nat \<times> nat) set \<Rightarrow> bool" where
  "blocks_apart L \<longleftrightarrow> (\<forall>(p, n)\<in>L. \<forall>(q, k)\<in>L. 0 < n \<and> ((p, n) = (q, k) \<or> p + n \<le> q \<or> q + k \<le> p))"

locale heap_allocator =
  fixes alloc :: "nat \<Rightarrow> 's \<Rightarrow> (nat \<times> 's) option"
    and free :: "nat \<Rightarrow> 's \<Rightarrow> 's option"
    and poke :: "nat \<Rightarrow> u8 \<Rightarrow> 's \<Rightarrow> 's"
    and peek :: "'s \<Rightarrow> nat \<Rightarrow> u8"
    and live :: "'s \<Rightarrow> (nat \<times> nat) set \<Rightarrow> bool"
  assumes apart: "live s L \<Longrightarrow> blocks_apart L"
    and alloc: "live s L \<Longrightarrow> 0 < sz \<Longrightarrow> sz < 4294967296 \<Longrightarrow>
       \<exists>p t. alloc sz s = Some (p, t) \<and>
         (p = 0 \<and> live t L \<or> (\<exists>n. p \<noteq> 0 \<and> sz \<le> n \<and> (p, n) \<notin> L \<and> live t (insert (p, n) L))) \<and>
         (\<forall>q k x. (q, k) \<in> L \<longrightarrow> q \<le> x \<longrightarrow> x < q + k \<longrightarrow> peek t x = peek s x)"
    and free: "live s L \<Longrightarrow> (p, n) \<in> L \<Longrightarrow>
       \<exists>t. free p s = Some t \<and> live t (L - {(p, n)}) \<and>
         (\<forall>q k x. (q, k) \<in> L - {(p, n)} \<longrightarrow> q \<le> x \<longrightarrow> x < q + k \<longrightarrow> peek t x = peek s x)"
    and poke: "live s L \<Longrightarrow> (p, n) \<in> L \<Longrightarrow> p \<le> x \<Longrightarrow> x < p + n \<Longrightarrow> live (poke x v s) L"
    and peek_poke: "live s L \<Longrightarrow> peek (poke x v s) = (peek s)(x := v)"
begin

lemma table_step:
  assumes T: "table_ok peek L s T" and sub: "set T' \<subseteq> set T" "distinct (map fst T')"
    and keep: "\<And>p bs n. (p, bs) \<in> set T' \<Longrightarrow> (p, n) \<in> L \<Longrightarrow> (p, n) \<in> L'"
    and bytes: "\<And>p bs n x. (p, bs) \<in> set T' \<Longrightarrow> (p, n) \<in> L \<Longrightarrow> p \<le> x \<Longrightarrow> x < p + n \<Longrightarrow> peek t x = peek s x"
  shows "table_ok peek L' t T'"
  unfolding table_ok_def
proof (intro conjI ballI, rule sub(2), clarify)
  fix p bs assume e: "(p, bs) \<in> set T'"
  then have "(p, bs) \<in> set T" using sub(1) by blast
  then obtain n where n: "(p, n) \<in> L" "length bs \<le> n" "\<forall>i<length bs. peek s (p + i) = bs ! i"
    using T unfolding table_ok_def by blast
  then have "\<forall>i<length bs. peek t (p + i) = bs ! i" using bytes [OF e n(1)] by auto
  then show "\<exists>n. (p, n) \<in> L' \<and> length bs \<le> n \<and> (\<forall>i<length bs. peek t (p + i) = bs ! i)"
    using keep [OF e n(1)] n(2) by blast
qed

lemma table_insert:
  assumes l: "live t (insert (p, n) L)" and T: "table_ok peek L t T" and n: "sz \<le> n" "(p, n) \<notin> L"
  shows "table_ok peek (insert (p, n) L) t (T @ [(p, map (\<lambda>i. peek t (p + i)) [0..<sz])])"
proof -
  have "p \<notin> fst ` set T"
  proof
    assume "p \<in> fst ` set T"
    then obtain k where "(p, k) \<in> L" using T by (fastforce simp: table_ok_def)
    then show False using apart [OF l] n(2) unfolding blocks_apart_def by fastforce
  qed
  then show ?thesis using T n(1) by (fastforce simp: table_ok_def)
qed

lemma table_poke:
  assumes l: "live s L" and T: "table_ok peek L s T" and k: "k < length T" "i < length (snd (T ! k))"
  shows "live (poke (fst (T ! k) + i) v s) L \<and>
    table_ok peek L (poke (fst (T ! k) + i) v s) (T[k := (fst (T ! k), (snd (T ! k))[i := v])])"
proof -
  obtain p bs where e: "T ! k = (p, bs)" by (cases "T ! k")
  then have m: "(p, bs) \<in> set T" using k(1) nth_mem by metis
  then obtain n where n: "(p, n) \<in> L" "length bs \<le> n" "\<forall>j<length bs. peek s (p + j) = bs ! j"
    using T by (fastforce simp: table_ok_def)
  have pk: "peek (poke (p + i) v s) = (peek s)(p + i := v)" by (rule peek_poke [OF l])
  have fsts: "map fst (T[k := (p, bs[i := v])]) = map fst T"
    using e k(1) by (simp add: map_update list_update_same_conv)
  have "\<exists>n. (q, n) \<in> L \<and> length cs \<le> n \<and> (\<forall>j<length cs. peek (poke (p + i) v s) (q + j) = cs ! j)"
    if q: "(q, cs) \<in> set (T[k := (p, bs[i := v])])" for q cs
  proof -
    obtain j where j: "j < length T" "T[k := (p, bs[i := v])] ! j = (q, cs)" using q by (auto simp: in_set_conv_nth)
    show ?thesis
    proof (cases "j = k")
      case True
      then have "q = p" "cs = bs[i := v]" using j k(1) by simp_all
      then show ?thesis using n pk by (intro exI [of _ n]) (auto simp: nth_list_update)
    next
      case False
      then have c: "(q, cs) \<in> set T" using j nth_mem by fastforce
      then obtain n' where n': "(q, n') \<in> L" "length cs \<le> n'" "\<forall>i<length cs. peek s (q + i) = cs ! i"
        using T by (fastforce simp: table_ok_def)
      have "q \<noteq> p"
        using T False j k(1) e nth_eq_iff_index_eq [of "map fst T" j k] by (auto simp: table_ok_def)
      then have "p + n \<le> q \<or> q + n' \<le> p" using apart [OF l] n(1) n'(1) by (fastforce simp: blocks_apart_def)
      then have "\<forall>j<length cs. q + j \<noteq> p + i" using n' n k(2) e by auto
      then show ?thesis using n' pk by auto
    qed
  qed
  moreover have "live (poke (p + i) v s) L" using poke [OF l n(1), of "p + i"] n(2) k(2) e by simp
  ultimately show ?thesis using T fsts e unfolding table_ok_def by (auto simp del: map_update)
qed

theorem run_ok:
  "live s L \<Longrightarrow> table_ok peek L s T \<Longrightarrow> \<forall>sz. HMalloc sz \<in> set ops \<longrightarrow> 0 < sz \<and> sz < 4294967296 \<Longrightarrow>
   \<exists>t T' L'. hp_run alloc free poke peek ops s T = Some (t, T') \<and> live t L' \<and> table_ok peek L' t T'"
proof (induction ops arbitrary: s T L)
  case (Cons op ops)
  have rest: "\<forall>sz. HMalloc sz \<in> set ops \<longrightarrow> 0 < sz \<and> sz < 4294967296" using Cons.prems(3) by simp
  note T = Cons.prems(2)
  show ?case
  proof (cases op)
    case (HMalloc sz)
    then obtain p t where t: "alloc sz s = Some (p, t)"
      "p = 0 \<and> live t L \<or> (\<exists>n. p \<noteq> 0 \<and> sz \<le> n \<and> (p, n) \<notin> L \<and> live t (insert (p, n) L))"
      "\<forall>q k x. (q, k) \<in> L \<longrightarrow> q \<le> x \<longrightarrow> x < q + k \<longrightarrow> peek t x = peek s x"
      using alloc [OF Cons.prems(1), of sz] Cons.prems(3) by auto
    have T': "table_ok peek L t T" by (rule table_step [OF T]) (use T t(3) in \<open>auto simp: table_ok_def\<close>)
    then show ?thesis
      using t(1,2) HMalloc table_insert Cons.IH [OF _ T' rest]
        Cons.IH [where s = t and T = "T @ [(p, map (\<lambda>i. peek t (p + i)) [0..<sz])]", OF _ _ rest]
      by (cases "p = 0") force+
  next
    case (HFree k)
    show ?thesis
    proof (cases "k < length T")
      case True
      obtain p bs where e: "T ! k = (p, bs)" by (cases "T ! k")
      then have m: "(p, bs) \<in> set T" using True nth_mem by metis
      then obtain n where n: "(p, n) \<in> L" using T by (fastforce simp: table_ok_def)
      obtain t where t: "free p s = Some t" "live t (L - {(p, n)})"
        "\<forall>q k x. (q, k) \<in> L - {(p, n)} \<longrightarrow> q \<le> x \<longrightarrow> x < q + k \<longrightarrow> peek t x = peek s x"
        using free [OF Cons.prems(1) n] by blast
      have d: "T = take k T @ (p, bs) # drop (Suc k) T" using e True by (metis id_take_nth_drop)
      have dist: "distinct (map fst (take k T @ (p, bs) # drop (Suc k) T))" using T d unfolding table_ok_def by metis
      have np: "(q, cs) \<in> set (take k T @ drop (Suc k) T) \<Longrightarrow> q \<noteq> p" for q cs using dist by force
      have "table_ok peek (L - {(p, n)}) t (take k T @ drop (Suc k) T)"
      proof (rule table_step [OF T])
        show "set (take k T @ drop (Suc k) T) \<subseteq> set T" using set_take_subset set_drop_subset by fastforce
        show "distinct (map fst (take k T @ drop (Suc k) T))" using dist by auto
      qed (use np t(3) in blast)+
      then show ?thesis using Cons.IH [OF t(2) _ rest] t(1) HFree True e by simp
    next
      case False
      then show ?thesis using Cons.IH [OF Cons.prems(1,2) rest] HFree by simp
    qed
  next
    case (HWrite k i v)
    show ?thesis
    proof (cases "k < length T \<and> i < length (snd (T ! k))")
      case True
      note tp = table_poke [OF Cons.prems(1,2) conjunct1 [OF True] conjunct2 [OF True], of v]
      show ?thesis using Cons.IH [OF conjunct1 [OF tp] conjunct2 [OF tp] rest] True HWrite by simp
    next
      case False
      then show ?thesis using Cons.IH [OF Cons.prems(1,2) rest] HWrite by (simp only: hp_run.simps if_False)
    qed
  qed
qed auto

end

section \<open>The module as a heap allocator\<close>

text \<open>The heaps a handle stands for: one heap, or with \<open>None\<close> all heaps created.\<close>

definition heap_scope :: "nat option \<Rightarrow> mstate \<Rightarrow> nat set" where
  "heap_scope handle s =
     (case handle of Some i \<Rightarrow> {i} | None \<Rightarrow> {i. i < MEM_HEAP_LIST_NUM \<and> mh_size (heaps s ! i) \<noteq> 0})"

text \<open>The blocks in use, as a caller knows them: the address handed out and the bytes it may use.\<close>

definition live_blocks :: "nat set \<Rightarrow> (nat \<Rightarrow> block list) \<Rightarrow> (nat \<times> nat) set" where
  "live_blocks I lay = {(b + 4, n - 5) |b n i. i \<in> I \<and> (b, n, True) \<in> set (lay i)}"

definition scope_ok :: "nat option \<Rightarrow> mstate \<Rightarrow> bool" where
  "scope_ok handle s \<longleftrightarrow>
     (case handle of Some i \<Rightarrow> i < MEM_HEAP_LIST_NUM \<and> mh_size (heaps s ! i) \<noteq> 0
      | None \<Rightarrow> \<forall>i j. i < j \<and> j < MEM_HEAP_LIST_NUM \<and> mh_size (heaps s ! j) \<noteq> 0 \<longrightarrow> mh_size (heaps s ! i) \<noteq> 0)"

definition heap_live :: "nat option \<Rightarrow> mstate \<Rightarrow> (nat \<times> nat) set \<Rightarrow> bool" where
  "heap_live handle s L \<longleftrightarrow> scope_ok handle s \<and>
     (\<exists>lay. state_ok s lay \<and> accounted s \<and> L = live_blocks (heap_scope handle s) lay)"

lemma scope_okD: "scope_ok handle s \<Longrightarrow> i \<in> heap_scope handle s \<Longrightarrow> i < MEM_HEAP_LIST_NUM \<and> mh_size (heaps s ! i) \<noteq> 0"
  by (cases handle) (simp_all add: scope_ok_def heap_scope_def)

definition poke_mem :: "nat \<Rightarrow> u8 \<Rightarrow> mstate \<Rightarrow> mstate" where
  "poke_mem x v s = s\<lparr>mem := (mem s)(x := v)\<rparr>"

lemma state_okD:
  assumes "state_ok s lay" and "i < MEM_HEAP_LIST_NUM" "mh_size (heaps s ! i) \<noteq> 0"
  shows "blocks_ok (mem s) (heap_start (heaps s ! i)) (heap_end (heaps s ! i)) (lay i)"
    "chain (mem s) (mh_free_list (heaps s ! i)) (frees (lay i)) 0"
  using assms by (simp_all add: state_ok_def heap_ok_def heap_wf_alt)

text \<open>Two blocks of the heaps, of whatever kind, do not overlap.\<close>

lemma state_blocks_apart:
  assumes ok: "state_ok s lay" and i: "i < MEM_HEAP_LIST_NUM" "mh_size (heaps s ! i) \<noteq> 0"
    and j: "j < MEM_HEAP_LIST_NUM" "mh_size (heaps s ! j) \<noteq> 0"
    and b: "(p, n, u) \<in> set (lay i)" "(q, k, v) \<in> set (lay j)"
  shows "(i, p, n, u) = (j, q, k, v) \<or> p + n \<le> q \<or> q + k \<le> p"
proof (cases "i = j")
  case True
  have "(p, n, u) = (q, k, v) \<or> p + n \<le> q \<or> q + k \<le> p"
    by (rule tiles_disjoint [OF _ b(1)]) (use True b(2) state_okD(1) [OF ok i] in \<open>auto simp: blocks_ok_def\<close>)
  then show ?thesis using True by simp
next
  case False
  then have "heap_end (heaps s ! i) \<le> heap_start (heaps s ! j) \<or> heap_end (heaps s ! j) \<le> heap_start (heaps s ! i)"
    using ok i j by (simp add: state_ok_def)
  then show ?thesis using blocks_okD(5,6) [OF state_okD(1) [OF ok i] b(1)]
      blocks_okD(5,6) [OF state_okD(1) [OF ok j] b(2)] by linarith
qed

lemma heap_live_apart: "heap_live handle s L \<Longrightarrow> blocks_apart L"
proof -
  assume l: "heap_live handle s L"
  then obtain lay where ok: "state_ok s lay" and L: "L = live_blocks (heap_scope handle s) lay"
    by (auto simp: heap_live_def)
  have v: "\<And>i. i \<in> heap_scope handle s \<Longrightarrow> i < MEM_HEAP_LIST_NUM \<and> mh_size (heaps s ! i) \<noteq> 0"
    using scope_okD [of handle s] l unfolding heap_live_def by blast
  show ?thesis unfolding blocks_apart_def
  proof (clarify, unfold L live_blocks_def, clarify)
    fix b n i c k j assume a: "i \<in> heap_scope handle s" "(b, n, True) \<in> set (lay i)"
      "j \<in> heap_scope handle s" "(c, k, True) \<in> set (lay j)"
    have "12 \<le> n" using blocks_okD(4) [OF state_okD(1) [OF ok] a(2)] v [OF a(1)] by blast
    moreover have "(i, b, n, True) = (j, c, k, True) \<or> b + n \<le> c \<or> c + k \<le> b"
      using state_blocks_apart [OF ok _ _ _ _ a(2,4)] v a by blast
    moreover have "12 \<le> k" using blocks_okD(4) [OF state_okD(1) [OF ok] a(4)] v [OF a(3)] by blast
    ultimately show "0 < n - 5 \<and> ((b + 4, n - 5) = (c + 4, k - 5) \<or> b + 4 + (n - 5) \<le> c + 4 \<or> c + 4 + (k - 5) \<le> b + 4)"
      by auto
  qed
qed

text \<open>A store into a block in use leaves headers, dog bytes and links alone.\<close>

lemma state_ok_write:
  assumes ok: "state_ok s lay" and i: "i < MEM_HEAP_LIST_NUM" "mh_size (heaps s ! i) \<noteq> 0"
    and b: "(p, n, True) \<in> set (lay i)" and m: "\<forall>x. x < p + 4 \<or> p + n - 1 \<le> x \<longrightarrow> m x = mem s x"
  shows "state_ok (s\<lparr>mem := m\<rparr>) lay"
proof -
  have n: "12 \<le> n" using blocks_okD(4) [OF state_okD(1) [OF ok i] b] .
  have "heap_ok m (heaps s ! j) (lay j)"
    if j: "j < MEM_HEAP_LIST_NUM" "mh_size (heaps s ! j) \<noteq> 0" for j
  proof -
    have away: "(\<forall>x. q \<le> x \<and> x < q + 4 \<longrightarrow> m x = mem s x) \<and> m (q + k - 1) = mem s (q + k - 1) \<and>
        (\<not> w \<longrightarrow> (\<forall>x. q + 4 \<le> x \<and> x < q + 8 \<longrightarrow> m x = mem s x))"
      if q: "(q, k, w) \<in> set (lay j)" for q k w
    proof -
      have "(i, p, n, True) = (j, q, k, w) \<or> p + n \<le> q \<or> q + k \<le> p" "12 \<le> k"
        using state_blocks_apart [OF ok i j b q] blocks_okD(4) [OF state_okD(1) [OF ok j] q] by blast+
      then show ?thesis using n m by (elim disjE) auto
    qed
    have "blocks_ok m (heap_start (heaps s ! j)) (heap_end (heaps s ! j)) (lay j)"
    proof (rule blocks_ok_cong [OF state_okD(1) [OF ok j]])
      fix q k w assume q: "(q, k, w) \<in> set (lay j)"
      show "ld32 m q = ld32 (mem s) q \<and> m (q + k - 1) = mem s (q + k - 1)"
        using away [OF q] ld32_cong [of q m "mem s"] by blast
    qed
    moreover have "chain m (mh_free_list (heaps s ! j)) (frees (lay j)) 0"
    proof (rule iffD2 [OF chain_cong state_okD(2) [OF ok j]], intro ballI)
      fix q assume "q \<in> set (frees (lay j))"
      then obtain k where "(q, k, False) \<in> set (lay j)" by (auto simp: frees_member)
      from away [OF this] show "ld32 m (q + 4) = ld32 (mem s) (q + 4)" by (intro ld32_cong) simp
    qed
    ultimately show ?thesis using ok j by (simp add: state_ok_def heap_ok_def heap_wf_alt)
  qed
  then show ?thesis using ok by (simp add: state_ok_def)
qed

lemma heap_live_write:
  assumes l: "heap_live handle s L" and p: "(p, n) \<in> L" "\<forall>x. x < p \<or> p + n \<le> x \<longrightarrow> m x = mem s x"
  shows "heap_live handle (s\<lparr>mem := m\<rparr>) L"
proof -
  obtain lay where ok: "state_ok s lay" and L: "L = live_blocks (heap_scope handle s) lay"
    and sc: "scope_ok handle s" "accounted s" using l by (auto simp: heap_live_def)
  from p(1) L obtain b k i where b: "p = b + 4" "n = k - 5" "i \<in> heap_scope handle s" "(b, k, True) \<in> set (lay i)"
    by (auto simp: live_blocks_def)
  note iv = scope_okD [OF sc(1) b(3)]
  have "12 \<le> k" using blocks_okD(4) [OF state_okD(1) [OF ok conjunct1 [OF iv] conjunct2 [OF iv]] b(4)] .
  then have "state_ok (s\<lparr>mem := m\<rparr>) lay"
    using p(2) b(1,2) by (intro state_ok_write [OF ok conjunct1 [OF iv] conjunct2 [OF iv] b(4)]) auto
  moreover have "heap_scope handle (s\<lparr>mem := m\<rparr>) = heap_scope handle s"
    by (cases handle) (simp_all add: heap_scope_def)
  moreover have "scope_ok handle (s\<lparr>mem := m\<rparr>)" using sc(1)
    by (cases handle) (simp_all add: scope_ok_def)
  ultimately show ?thesis using L sc(2) unfolding heap_live_def by (auto simp: accounted_def)
qed

lemma heap_live_poke:
  assumes "heap_live handle s L" and "(p, n) \<in> L" "p \<le> x" "x < p + n"
  shows "heap_live handle (poke_mem x v s) L"
  unfolding poke_mem_def by (rule heap_live_write [OF assms(1,2)]) (use assms(3,4) in auto)

lemma scope_same:
  assumes "\<forall>j<MEM_HEAP_LIST_NUM. mh_size (heaps t ! j) = mh_size (heaps s ! j)"
  shows "heap_scope handle t = heap_scope handle s" "scope_ok handle s \<Longrightarrow> scope_ok handle t"
proof -
  show "heap_scope handle t = heap_scope handle s"
    using assms by (cases handle) (auto simp: heap_scope_def)
  show "scope_ok handle t" if "scope_ok handle s"
  proof (cases handle)
    case None
    have "mh_size (heaps t ! i) \<noteq> 0" if "i < j" "j < MEM_HEAP_LIST_NUM" "mh_size (heaps t ! j) \<noteq> 0" for i j
      using that assms less_trans [OF that(1,2)] \<open>scope_ok handle s\<close> None by (auto simp: scope_ok_def)
    then show ?thesis using None by (auto simp: scope_ok_def)
  next
    case (Some i)
    then show ?thesis using that assms by (simp add: scope_ok_def)
  qed
qed

lemma MEM_Allocate_regions:
  assumes "MEM_Allocate h sz s = Some (p, t)" and "j < length (heaps s)"
  shows "mh_size (heaps t ! j) = mh_size (heaps s ! j)"
  using assms unfolding MEM_Allocate_def
  by (auto simp: Let_def enter_critical_def exit_critical_def put_heap_def aget_def nth_list_update
      bind_eq_Some_conv split: option.splits if_splits prod.splits)

lemma live_blocks_change:
  assumes "i \<in> I" and "\<forall>j. j \<noteq> i \<longrightarrow> lay' j = lay j"
  shows "live_blocks I lay' = live_blocks (I - {i}) lay \<union> live_blocks {i} lay'"
    and "live_blocks I lay = live_blocks (I - {i}) lay \<union> live_blocks {i} lay"
  using assms unfolding live_blocks_def by (auto; metis)+

lemma live_blocks_one: "live_blocks {i} lay = (\<lambda>(b, n). (b + 4, n - 5)) ` set (useds (lay i))"
  by (force simp: live_blocks_def useds_member)

text \<open>The bytes of live blocks, as seen by a caller.\<close>

definition bytes_kept :: "(nat \<times> nat) set \<Rightarrow> mstate \<Rightarrow> mstate \<Rightarrow> bool" where
  "bytes_kept L s t \<longleftrightarrow> (\<forall>q k x. (q, k) \<in> L \<longrightarrow> q \<le> x \<longrightarrow> x < q + k \<longrightarrow> mem t x = mem s x)"

lemma bytes_kept_refl [simp]: "bytes_kept L s s"
  by (simp add: bytes_kept_def)

lemma bytes_kept_trans: "bytes_kept L s t \<Longrightarrow> bytes_kept L t u \<Longrightarrow> bytes_kept L s u"
  by (simp add: bytes_kept_def)

definition alloc_law :: "nat option \<Rightarrow> (nat \<times> nat) set \<Rightarrow> nat \<Rightarrow> mstate \<Rightarrow> nat \<Rightarrow> mstate \<Rightarrow> bool" where
  "alloc_law handle L sz s p t \<longleftrightarrow>
     (p = 0 \<and> heap_live handle t L \<or>
      (\<exists>n. p \<noteq> 0 \<and> sz \<le> n \<and> (p, n) \<notin> L \<and> heap_live handle t (insert (p, n) L))) \<and> bytes_kept L s t"

text \<open>Memory that changes only in free blocks keeps the bytes of the blocks in use.\<close>

lemma used_bytes_kept:
  assumes ok: "state_ok s lay" and i: "i < MEM_HEAP_LIST_NUM" "mh_size (heaps s ! i) \<noteq> 0"
    and I: "\<And>j. j \<in> I \<Longrightarrow> j < MEM_HEAP_LIST_NUM \<and> mh_size (heaps s ! j) \<noteq> 0"
    and ch: "\<forall>x. P x \<and> (\<forall>q k. (q, k, False) \<in> set (lay i) \<longrightarrow> x < q \<or> q + k \<le> x) \<longrightarrow> mem t x = mem s x"
    and P: "\<And>q k x. (q, k) \<in> L \<Longrightarrow> q \<le> x \<Longrightarrow> x < q + k \<Longrightarrow> P x" and L: "L \<subseteq> live_blocks I lay"
  shows "bytes_kept L s t"
  unfolding bytes_kept_def
proof (intro allI impI)
  fix q k x assume q: "(q, k) \<in> L" "q \<le> x" "x < q + k"
  then obtain b n j where b: "q = b + 4" "k = n - 5" "j \<in> I" "(b, n, True) \<in> set (lay j)"
    using L by (auto simp: live_blocks_def)
  have "x < p \<or> p + m \<le> x" if f: "(p, m, False) \<in> set (lay i)" for p m
    using state_blocks_apart [OF ok i _ _ f b(4)] I [OF b(3)] q b(1,2) by force
  then show "mem t x = mem s x" using ch P [OF q] by blast
qed

lemma useds_distinct:
  assumes "blocks_ok m a t bs"
  shows "distinct (map fst (useds bs))"
proof -
  have "tiles a bs t \<Longrightarrow> distinct (map fst (useds bs)) \<and> (\<forall>p\<in>fst ` set (useds bs). a \<le> p)" for a
  proof (induction bs arbitrary: a)
    case (Cons b bs)
    obtain p n u where b: "b = (p, n, u)" by (cases b)
    then show ?case using Cons.IH [of "a + n"] Cons.prems by force
  qed simp
  then show ?thesis using assms unfolding blocks_ok_def by blast
qed

lemma heap_live_allocate:
  assumes l: "heap_live handle s L" and i: "i \<in> heap_scope handle s" and sz: "0 < sz" "sz < 4294967296"
  shows "\<exists>p t. MEM_Allocate (Some i) sz s = Some (p, t) \<and> alloc_law handle L sz s p t"
proof -
  obtain lay where ok: "state_ok s lay" "accounted s" and L: "L = live_blocks (heap_scope handle s) lay"
    and sc: "scope_ok handle s" using l by (auto simp: heap_live_def)
  note iv = scope_okD [OF sc i]
  have len: "length (heaps s) = MEM_HEAP_LIST_NUM" using ok by (simp add: state_ok_def)
  have same: "\<forall>j<MEM_HEAP_LIST_NUM. mh_size (heaps t ! j) = mh_size (heaps s ! j)"
    if "MEM_Allocate (Some i) sz s = Some (p, t)" for p t
    using MEM_Allocate_regions [OF that] len by simp
  from MEM_Allocate_ok [OF ok(1) conjunct1 [OF iv] conjunct2 [OF iv] sz] show ?thesis
  proof (elim disjE exE conjE)
    fix t assume r: "MEM_Allocate (Some i) sz s = Some (0, t)" "state_ok t lay" "mem t = mem s" "heaps t = heaps s"
      "s_free t = s_free s"
    have "heap_live handle t L"
      using r ok L sc scope_same [OF same [OF r(1)]] by (auto simp: heap_live_def accounted_def)
    then show ?thesis using r by (auto simp: alloc_law_def bytes_kept_def)
  next
    fix p t lay' assume r: "MEM_Allocate (Some i) sz s = Some (p, t)" "p \<noteq> 0" "state_ok t lay'"
      "alloc_effect i sz s lay p t lay'" "accounted s \<longrightarrow> accounted t"
    from r(4) obtain b n u1 u2 where e: "p = b + 4" "max 4 sz + 5 \<le> n" "(b, n, True) \<in> set (lay' i)"
      "useds (lay i) = u1 @ u2" "useds (lay' i) = u1 @ (b, n) # u2" "\<forall>j. j \<noteq> i \<longrightarrow> lay' j = lay j"
      "only_free_changed (lay i) (mem s) (mem t)"
      by (auto simp: alloc_effect_def)
    have "live_blocks {i} lay' = insert (p, n - 5) (live_blocks {i} lay)"
      using e by (simp add: live_blocks_one)
    then have L': "live_blocks (heap_scope handle s) lay' = insert (p, n - 5) L"
      using live_blocks_change [OF i e(6)] L by auto
    have live: "heap_live handle t (insert (p, n - 5) L)"
      using r ok L' sc scope_same [OF same [OF r(1)]] by (auto simp: heap_live_def)
    have "bytes_kept L s t"
      by (rule used_bytes_kept [OF ok(1) conjunct1 [OF iv] conjunct2 [OF iv], where P = "\<lambda>_. True" and I = "heap_scope handle s"])
        (use scope_okD [OF sc] L e(7) in \<open>auto simp: only_free_changed_def\<close>)
    moreover have "(p, n - 5) \<notin> L"
    proof
      assume "(p, n - 5) \<in> L"
      then obtain c k j where c: "b = c" "n - 5 = k - 5" "j \<in> heap_scope handle s" "(c, k, True) \<in> set (lay j)"
        using L e(1) by (auto simp: live_blocks_def)
      have iv': "i < MEM_HEAP_LIST_NUM \<and> mh_size (heaps t ! i) \<noteq> 0" using iv same [OF r(1)] by auto
      have jv: "j < MEM_HEAP_LIST_NUM \<and> mh_size (heaps t ! j) \<noteq> 0" using scope_okD [OF sc c(3)] same [OF r(1)] by auto
      note bok = state_okD(1) [OF r(3)]
      show False
      proof (cases "j = i")
        case True
        then have "(c, k) \<in> set (u1 @ u2)" using c(4) e(4) by (metis useds_member)
        then show False using useds_distinct [OF bok [OF conjunct1 [OF iv'] conjunct2 [OF iv']]] e(5) c(1) by force
      next
        case False
        then have "(c, k, True) \<in> set (lay' j)" using c(4) e(6) by simp
        then show False
          using state_blocks_apart [OF r(3) _ _ _ _ e(3), of j c k True] iv' jv False c(1)
            blocks_okD(4) [OF bok e(3)] blocks_okD(4) [OF bok, of j c k True] by auto
      qed
    qed
    moreover have "sz \<le> n - 5" using e(2) by arith
    ultimately show ?thesis using r(1,2) live unfolding alloc_law_def by blast
  qed
qed

lemma heap_live_malloc_scan:
  "heap_live None s L \<Longrightarrow> 0 < sz \<Longrightarrow> sz < 4294967296 \<Longrightarrow> idx + n = MEM_HEAP_LIST_NUM \<Longrightarrow>
   \<exists>p t. malloc_scan n idx sz s = Some (p, t) \<and> alloc_law None L sz s p t"
proof (induction n arbitrary: idx s)
  case 0
  then show ?case by (simp add: alloc_law_def)
next
  case (Suc n)
  have len: "idx < length (heaps s)" using Suc.prems by (auto simp: heap_live_def state_ok_def)
  then have get: "aget (heaps s) idx = Some (heaps s ! idx)" by (simp add: aget_def)
  show ?case
  proof (cases "0 < mh_size (heaps s ! idx)")
    case False
    then show ?thesis using get Suc.prems(1) by (simp add: alloc_law_def)
  next
    case True
    show ?thesis
    proof (cases "add32 sz MEM_BLOCK_MIN_SIZE < mh_free (heaps s ! idx)")
      case False
      then show ?thesis using get True Suc.IH [OF Suc.prems(1-3), of "idx + 1"] Suc.prems(4) by simp
    next
      case fit: True
      have "idx \<in> heap_scope None s" using True Suc.prems(4) by (simp add: heap_scope_def)
      from heap_live_allocate [OF Suc.prems(1) this Suc.prems(2,3)] obtain p t
        where a: "MEM_Allocate (Some idx) sz s = Some (p, t)" "alloc_law None L sz s p t" by blast
      show ?thesis
      proof (cases "p = 0")
        case False
        then show ?thesis using a get True fit by simp
      next
        case p0: True
        then have t: "heap_live None t L" "bytes_kept L s t" using a(2) by (simp_all add: alloc_law_def)
        from Suc.IH [OF t(1) Suc.prems(2,3), of "idx + 1"] Suc.prems(4) obtain q u
          where u: "malloc_scan n (idx + 1) sz t = Some (q, u)" "alloc_law None L sz t q u" by auto
        have "alloc_law None L sz s q u"
          using u(2) bytes_kept_trans [OF t(2)] unfolding alloc_law_def by blast
        then show ?thesis using a(1) u(1) p0 get True fit by simp
      qed
    qed
  qed
qed

lemma heap_live_malloc:
  assumes "heap_live handle s L" and "0 < sz" "sz < 4294967296"
  shows "\<exists>p t. tuya_mem_heap_malloc handle sz s = Some (p, t) \<and> alloc_law handle L sz s p t"
proof (cases handle)
  case None
  then show ?thesis using heap_live_malloc_scan [of s L sz 0 MEM_HEAP_LIST_NUM] assms
    by (simp add: tuya_mem_heap_malloc_def)
next
  case (Some i)
  then have "i \<in> heap_scope handle s" by (simp add: heap_scope_def)
  then show ?thesis using heap_live_allocate [OF assms(1) _ assms(2,3)] Some by (simp add: tuya_mem_heap_malloc_def)
qed

lemma heap_live_deallocate:
  assumes l: "heap_live handle s L" and i: "i \<in> heap_scope handle s"
    and b: "state_ok s lay" "accounted s" "L = live_blocks (heap_scope handle s) lay" "(b, n, True) \<in> set (lay i)"
  shows "\<exists>t. MEM_Deallocate (Some i) (b + 4) s = Some t \<and> heap_live handle t (L - {(b + 4, n - 5)}) \<and>
    bytes_kept (L - {(b + 4, n - 5)}) s t"
proof -
  have sc: "scope_ok handle s" using l by (simp add: heap_live_def)
  note iv = scope_okD [OF sc i]
  note iv1 = conjunct1 [OF iv] and iv2 = conjunct2 [OF iv]
  obtain t lay' where r: "MEM_Deallocate (Some i) (b + 4) s = Some t" "state_ok t lay'" "free_effect i b n s lay t lay'"
    "accounted t" "\<forall>j<MEM_HEAP_LIST_NUM. mh_size (heaps t ! j) = mh_size (heaps s ! j)"
    using MEM_Deallocate_ok [OF b(1) iv1 iv2 b(4)] b(2) by blast
  from r(3) obtain u1 u2 where e: "useds (lay i) = u1 @ (b, n) # u2" "useds (lay' i) = u1 @ u2" "\<forall>j. j \<noteq> i \<longrightarrow> lay' j = lay j"
    "\<forall>x. (x < b \<or> b + n \<le> x) \<and> (\<forall>q k. (q, k, False) \<in> set (lay i) \<longrightarrow> x < q \<or> q + k \<le> x) \<longrightarrow> mem t x = mem s x"
    unfolding free_effect_def by blast
  have apart: "c \<noteq> b \<and> (c + k \<le> b \<or> b + n \<le> c)"
    if c: "(c, k, True) \<in> set (lay j)" "j \<in> heap_scope handle s" "(j, c) \<noteq> (i, b)" for c k j
  proof -
    have "(j, c, k, True) = (i, b, n, True) \<or> c + k \<le> b \<or> b + n \<le> c"
      by (rule state_blocks_apart [OF b(1) _ _ iv1 iv2 c(1) b(4)]) (use scope_okD [OF sc c(2)] in auto)
    moreover have "12 \<le> n" "12 \<le> k"
      using blocks_okD(4) [OF state_okD(1) [OF b(1) iv1 iv2] b(4)]
        blocks_okD(4) [OF state_okD(1) [OF b(1)] c(1)] scope_okD [OF sc c(2)] by auto
    ultimately show ?thesis using c(3) by auto
  qed
  have d: "distinct (map fst (u1 @ (b, n) # u2))"
    using useds_distinct [OF state_okD(1) [OF b(1) iv1 iv2]] e(1) by simp
  have inj: "(c, k) = (b, n) \<or> c \<noteq> b" if "(c, k) \<in> set (u1 @ (b, n) # u2)" for c k
    using d that by force
  have one: "live_blocks {i} lay' = live_blocks {i} lay - {(b + 4, n - 5)}"
  proof -
    have "b \<notin> fst ` set (u1 @ u2)" using d by auto
    then have "(b + 4, n - 5) \<notin> (\<lambda>(b, n). (b + 4, n - 5)) ` set (u1 @ u2)" by force
    then show ?thesis by (simp add: live_blocks_one e(1,2) insert_Diff_if)
  qed
  have other: "(b + 4, n - 5) \<notin> live_blocks (heap_scope handle s - {i}) lay"
    using apart by (fastforce simp: live_blocks_def)
  have L': "live_blocks (heap_scope handle s) lay' = L - {(b + 4, n - 5)}"
    unfolding live_blocks_change(1) [OF i e(3)] b(3) live_blocks_change(2) [OF i e(3)] one using other by blast
  have "heap_live handle t (L - {(b + 4, n - 5)})"
    using r L' sc scope_same [OF r(5)] unfolding heap_live_def by auto
  moreover have "bytes_kept (L - {(b + 4, n - 5)}) s t"
  proof (rule used_bytes_kept [OF b(1) iv1 iv2 _ e(4), where I = "heap_scope handle s"])
    show "L - {(b + 4, n - 5)} \<subseteq> live_blocks (heap_scope handle s) lay" using b(3) by blast
    fix q k x assume q: "(q, k) \<in> L - {(b + 4, n - 5)}" "q \<le> x" "x < q + k"
    then obtain c m j where c: "q = c + 4" "k = m - 5" "j \<in> heap_scope handle s" "(c, m, True) \<in> set (lay j)"
      using b(3) by (auto simp: live_blocks_def)
    have "(j, c) \<noteq> (i, b)"
    proof
      assume "(j, c) = (i, b)"
      then have "(b, m) \<in> set (u1 @ (b, n) # u2)" using c(4) e(1) by (metis prod.inject useds_member)
      then show False using inj q(1) c(1,2) \<open>(j, c) = (i, b)\<close> by blast
    qed
    then show "x < b \<or> b + n \<le> x" using apart [OF c(4,3)] q c(1,2) by linarith
  qed (use scope_okD [OF sc] in blast)
  ultimately show ?thesis using r(1) by blast
qed

text \<open>The address range the code checks to find the heap of a pointer.\<close>

lemma heap_start_bounds:
  assumes "heap_ok m h bs"
  shows "mh_base h \<le> heap_start h \<and> heap_start h \<le> mh_base h + 3"
proof (cases "mh_base h + 3 < 4294967296")
  case True
  then show ?thesis using align_up_bounds [of "mh_base h"] by (simp add: heap_start_def)
next
  case False
  have "mh_base h < 4294967296" "0 < heap_start h" using assms by (simp_all add: heap_ok_def heap_wf_def)
  moreover from this(1) False have "add32 (mh_base h) 3 < 3" by (simp add: add32_def mod_if) linarith
  ultimately show ?thesis by (simp add: heap_start_def ALIGN_UP_def)
qed

lemma free_range:
  assumes ok: "state_ok s lay" and i: "i < MEM_HEAP_LIST_NUM" "mh_size (heaps s ! i) \<noteq> 0"
    and j: "j < MEM_HEAP_LIST_NUM" "mh_size (heaps s ! j) \<noteq> 0" and b: "(b, n, True) \<in> set (lay i)"
  shows "mh_base (heaps s ! j) < b + 4 \<and> b + 4 < add32 (mh_base (heaps s ! j)) (mh_size (heaps s ! j)) \<longleftrightarrow> i = j"
proof -
  let ?h = "heaps s ! j"
  have hj: "heap_ok (mem s) ?h (lay j)" using ok j by (simp add: state_ok_def)
  then have lim: "mh_base ?h + mh_size ?h < 4294967296" by (simp add: heap_ok_def)
  have e: "add32 (mh_base ?h) (mh_size ?h) = mh_base ?h + mh_size ?h" using lim by (intro add32_nowrap)
  have en: "heap_end ?h \<le> mh_base ?h + mh_size ?h" "mh_base ?h + mh_size ?h < heap_end ?h + 4"
    using align_down_bounds [of "mh_base ?h + mh_size ?h"] e by (simp_all add: heap_end_def)
  note bi = blocks_okD [OF state_okD(1) [OF ok i] b]
  show ?thesis
  proof (cases "i = j")
    case True
    have "mh_base ?h \<le> b" using heap_start_bounds [OF hj] bi(5) True by simp
    then show ?thesis using True en e bi(4,6) by simp
  next
    case False
    then have d: "heap_end (heaps s ! i) \<le> heap_start ?h \<or> heap_end ?h \<le> heap_start (heaps s ! i)"
      using ok i j by (simp add: state_ok_def)
    show ?thesis
    proof (cases "heap_end ?h \<le> heap_start (heaps s ! i)")
      case True
      then show ?thesis using False en e bi(5) by linarith
    next
      case far: False
      then have "b + 12 \<le> heap_start ?h" using d bi(4,6) by linarith
      moreover have "heap_start ?h \<le> mh_base ?h + 3" using heap_start_bounds [OF hj] by simp
      ultimately show ?thesis using False by linarith
    qed
  qed
qed

lemma free_scan_finds:
  assumes ok: "state_ok s lay" and sc: "scope_ok None s" and i: "i \<in> heap_scope None s" and b: "(b, n, True) \<in> set (lay i)"
  shows "idx + k = MEM_HEAP_LIST_NUM \<Longrightarrow> idx \<le> i \<Longrightarrow> free_scan k idx (b + 4) s = MEM_Deallocate (Some i) (b + 4) s"
proof (induction k arbitrary: idx)
  case 0
  then show ?case using i by (simp add: heap_scope_def)
next
  case (Suc k)
  have iv: "i < MEM_HEAP_LIST_NUM" "mh_size (heaps s ! i) \<noteq> 0" using i by (simp_all add: heap_scope_def)
  have v: "idx < MEM_HEAP_LIST_NUM" "mh_size (heaps s ! idx) \<noteq> 0"
    using Suc.prems sc iv by (auto simp: scope_ok_def le_less)
  have "aget (heaps s) idx = Some (heaps s ! idx)" using v ok by (simp add: aget_def state_ok_def)
  then show ?case using free_range [OF ok iv v b] v Suc.IH [of "idx + 1"] Suc.prems by auto
qed

lemma heap_live_free:
  assumes l: "heap_live handle s L" and p: "(p, n) \<in> L"
  shows "\<exists>t. tuya_mem_heap_free handle p s = Some t \<and> heap_live handle t (L - {(p, n)}) \<and>
    bytes_kept (L - {(p, n)}) s t"
proof -
  obtain lay where ok: "state_ok s lay" "accounted s" and L: "L = live_blocks (heap_scope handle s) lay"
    and sc: "scope_ok handle s" using l by (auto simp: heap_live_def)
  from p L obtain b k i where b: "p = b + 4" "n = k - 5" "i \<in> heap_scope handle s" "(b, k, True) \<in> set (lay i)"
    by (auto simp: live_blocks_def)
  have "tuya_mem_heap_free handle p s = MEM_Deallocate (Some i) (b + 4) s"
    using free_scan_finds [OF ok(1) _ _ b(4), of 0 MEM_HEAP_LIST_NUM] sc b(1,3)
    by (cases handle) (auto simp: tuya_mem_heap_free_def heap_scope_def)
  then show ?thesis using heap_live_deallocate [OF l b(3) ok L b(4)] b(1,2) by simp
qed

interpretation hp: heap_allocator "tuya_mem_heap_malloc handle" "tuya_mem_heap_free handle" poke_mem mem "heap_live handle"
  for handle
proof
  show "blocks_apart L" if "heap_live handle s L" for s L by (rule heap_live_apart [OF that])
  show "\<exists>p t. tuya_mem_heap_malloc handle sz s = Some (p, t) \<and>
       (p = 0 \<and> heap_live handle t L \<or>
        (\<exists>n. p \<noteq> 0 \<and> sz \<le> n \<and> (p, n) \<notin> L \<and> heap_live handle t (insert (p, n) L))) \<and>
       (\<forall>q k x. (q, k) \<in> L \<longrightarrow> q \<le> x \<longrightarrow> x < q + k \<longrightarrow> mem t x = mem s x)"
    if "heap_live handle s L" "0 < sz" "sz < 4294967296" for s L sz
    using heap_live_malloc [OF that] unfolding alloc_law_def bytes_kept_def .
  show "\<exists>t. tuya_mem_heap_free handle p s = Some t \<and> heap_live handle t (L - {(p, n)}) \<and>
       (\<forall>q k x. (q, k) \<in> L - {(p, n)} \<longrightarrow> q \<le> x \<longrightarrow> x < q + k \<longrightarrow> mem t x = mem s x)"
    if "heap_live handle s L" "(p, n) \<in> L" for s L p n
    using heap_live_free [OF that] unfolding bytes_kept_def .
  show "heap_live handle (poke_mem x v s) L"
    if "heap_live handle s L" "(p, n) \<in> L" "p \<le> x" "x < p + n" for s L p n x v
    by (rule heap_live_poke [OF that])
  show "mem (poke_mem x v s) = (mem s)(x := v)" for s x v by (simp add: poke_mem_def)
qed

section \<open>Properties\<close>

text \<open>
  C6. Whatever a client allocates, frees and writes, through the handle of one heap or through the
  default one, the calls never fail to return, the blocks it holds stay disjoint, and each of its
  blocks has the bytes the client last stored in it.
\<close>

theorem heap_history:
  assumes "heap_live handle s L" and "\<forall>sz. HMalloc sz \<in> set ops \<longrightarrow> 0 < sz \<and> sz < 4294967296"
  shows "\<exists>t T L'. hp_run (tuya_mem_heap_malloc handle) (tuya_mem_heap_free handle) poke_mem mem ops s [] = Some (t, T) \<and>
     heap_live handle t L' \<and> blocks_apart L' \<and> table_ok mem L' t T"
proof -
  have "table_ok mem L s []" by (simp add: table_ok_def)
  from hp.run_ok [OF assms(1) this assms(2)] show ?thesis using heap_live_apart by blast
qed

text \<open>A state with one heap, for the witnesses.\<close>

definition mem_start :: mstate where
  "mem_start = \<lparr>mem = (\<lambda>_. 0), heaps = replicate 4 zero_heap, s_free = 0, s_watermark = 0, ctx = True, crit = 0, dbg = []\<rparr>"

lemma mem_start_ok: "state_ok mem_start lay" "accounted mem_start"
  by (auto simp: state_ok_def accounted_def mem_start_def mem_consts zero_heap_def total_free_def)

lemma find_slot_mem_start: "find_slot (heaps mem_start) = 0"
  by (simp add: mem_start_def zero_heap_def numeral_eq_Suc)

lemma mem_start_created:
  "\<exists>t a n. tuya_mem_heap_create 4096 1024 mem_start = Some (0, Some 0, t) \<and>
     state_ok t ((\<lambda>_. [])(0 := [(a, n, False)])) \<and> accounted t \<and> mh_size (heaps t ! 0) = 1024 \<and> 1000 \<le> n"
proof -
  have "\<forall>j<MEM_HEAP_LIST_NUM. mh_size (heaps mem_start ! j) \<noteq> 0 \<longrightarrow>
      heap_end (heaps mem_start ! j) \<le> 4096 \<or> 4096 + 1024 \<le> heap_start (heaps mem_start ! j)"
    by (simp add: mem_start_def mem_consts zero_heap_def)
  from heap_create_ok [OF mem_start_ok(1) find_slot_mem_start [symmetric] _ _ _ _ this, of "\<lambda>_. []"]
  show ?thesis using mem_start_ok(2) by (fastforce simp: mem_consts)
qed

lemma created_live:
  assumes "state_ok t ((\<lambda>_. [])(0 := [(a, n, False)]))" "accounted t" "mh_size (heaps t ! 0) \<noteq> 0"
  shows "heap_live (Some 0) t {}"
  using assms unfolding heap_live_def scope_ok_def heap_scope_def live_blocks_def
  by (intro conjI exI [of _ "(\<lambda>_. [])(0 := [(a, n, False)])"]) (auto simp: mem_consts)

theorem heap_history_witness:
  "\<exists>s t T L. tuya_mem_heap_create 4096 1024 mem_start = Some (0, Some 0, s) \<and>
     hp_run (tuya_mem_heap_malloc (Some 0)) (tuya_mem_heap_free (Some 0)) poke_mem mem
       [HMalloc 10, HMalloc 20, HWrite 1 3 7, HFree 0, HMalloc 100] s [] = Some (t, T) \<and> table_ok mem L t T"
proof -
  obtain s a n where s: "tuya_mem_heap_create 4096 1024 mem_start = Some (0, Some 0, s)"
    "state_ok s ((\<lambda>_. [])(0 := [(a, n, False)]))" "accounted s" "mh_size (heaps s ! 0) = 1024"
    using mem_start_created by blast
  have "heap_live (Some 0) s {}" using created_live [OF s(2,3)] s(4) by simp
  from heap_history [OF this, of "[HMalloc 10, HMalloc 20, HWrite 1 3 7, HFree 0, HMalloc 100]"] s(1)
  show ?thesis by auto
qed

text \<open>
  C12. An allocation from a heap: it fails, and leaves memory and heaps as they are, only when no free
  block is large enough or the size wraps; otherwise the address handed out is a multiple of 4 with
  room for the size asked for in a block that was free, the free sizes of the heap and of the module
  drop by the size of the block, and only free memory was written.
\<close>

theorem heap_malloc_outcome:
  assumes "state_ok s lay" "accounted s" "i < MEM_HEAP_LIST_NUM" "mh_size (heaps s ! i) \<noteq> 0" "0 < sz" "sz < 4294967296"
  shows "(\<exists>t. tuya_mem_heap_malloc (Some i) sz s = Some (0, t) \<and> state_ok t lay \<and> mem t = mem s \<and> heaps t = heaps s \<and>
        (alloc_size sz < max 4 sz \<or> (\<forall>p n. (p, n, False) \<in> set (lay i) \<longrightarrow> n < alloc_size sz))) \<or>
     (\<exists>p t lay'. tuya_mem_heap_malloc (Some i) sz s = Some (p, t) \<and> p \<noteq> 0 \<and> 4 dvd p \<and> state_ok t lay' \<and> accounted t \<and>
        (\<exists>n u1 u2. (p - 4, n, True) \<in> set (lay' i) \<and> sz + 5 \<le> n \<and> useds (lay i) = u1 @ u2 \<and>
           useds (lay' i) = u1 @ (p - 4, n) # u2 \<and> free_sum (lay' i) + n = free_sum (lay i)) \<and>
        only_free_changed (lay i) (mem s) (mem t))"
  using MEM_Allocate_ok [OF assms(1,3,4,5,6)]
proof (elim disjE exE conjE, goal_cases)
  case (1 t)
  then show ?thesis by (intro disjI1 exI [of _ t]) (auto simp: tuya_mem_heap_malloc_def)
next
  case (2 p t lay')
  then show ?thesis using assms(2)
    by (intro disjI2 exI [of _ p] exI [of _ t] exI [of _ lay']) (fastforce simp: tuya_mem_heap_malloc_def alloc_effect_def)
qed

theorem heap_malloc_outcome_witness:
  "\<exists>s p t. tuya_mem_heap_create 4096 1024 mem_start = Some (0, Some 0, s) \<and>
     tuya_mem_heap_malloc (Some 0) 10 s = Some (p, t) \<and> p \<noteq> 0 \<and> 4 dvd p"
proof -
  obtain s a n where s: "tuya_mem_heap_create 4096 1024 mem_start = Some (0, Some 0, s)"
    "state_ok s ((\<lambda>_. [])(0 := [(a, n, False)]))" "accounted s" "mh_size (heaps s ! 0) = 1024" "1000 \<le> n"
    using mem_start_created by blast
  have sz: "alloc_size 10 = 16" by (simp add: alloc_size_def ALIGN_UP_def add32_def mem_consts)
  show ?thesis using heap_malloc_outcome [OF s(2,3), of 0 10] s sz by (fastforce simp: mem_consts)
qed

text \<open>
  C13. Freeing a block in use gives its bytes back to the heap, touches no other block in use, and
  leaves the dog byte that a second free of the same address sees: that one changes nothing but the
  debug output.
\<close>

theorem heap_free_outcome:
  assumes "state_ok s lay" "accounted s" "i < MEM_HEAP_LIST_NUM" "mh_size (heaps s ! i) \<noteq> 0" "(b, n, True) \<in> set (lay i)"
  shows "\<exists>t lay'. tuya_mem_heap_free (Some i) (b + 4) s = Some t \<and> state_ok t lay' \<and> accounted t \<and>
     free_sum (lay' i) = free_sum (lay i) + n \<and> (\<exists>u1 u2. useds (lay i) = u1 @ (b, n) # u2 \<and> useds (lay' i) = u1 @ u2) \<and>
     (\<forall>j. j \<noteq> i \<longrightarrow> lay' j = lay j) \<and> bytes_kept (live_blocks {i} lay - {(b + 4, n - 5)}) s t \<and>
     tuya_mem_heap_free (Some i) (b + 4) t =
       Some (t\<lparr>dbg := DbgMightBeFreed (b + 4) # DbgDogTag (b + 4) (ld32 (mem t) b) # dbg t\<rparr>)"
proof -
  have iv: "i \<in> heap_scope (Some i) s" by (simp add: heap_scope_def)
  have l: "heap_live (Some i) s (live_blocks {i} lay)"
    using assms(1-4) by (auto simp: heap_live_def scope_ok_def heap_scope_def)
  obtain t lay' where r: "MEM_Deallocate (Some i) (b + 4) s = Some t" "state_ok t lay'" "free_effect i b n s lay t lay'"
    "accounted t" "mem t (MEM_DOG_ADDR (mem t) b) = MEM_BLOCK_STAT_FREE"
    using MEM_Deallocate_ok [OF assms(1,3,4,5)] assms(2) by blast
  have "bytes_kept (live_blocks {i} lay - {(b + 4, n - 5)}) s t"
    using heap_live_deallocate [OF l iv assms(1,2) _ assms(5)] r(1) by (simp add: heap_scope_def)
  moreover have "b + 4 < 4294967296"
    using blocks_okD(4,6,7) [OF state_okD(1) [OF assms(1,3,4)] assms(5)] by linarith
  then have "sub32 (b + 4) 4 = b" by (subst sub32_nowrap) simp_all
  then have "MEM_Deallocate (Some i) (b + 4) t =
      Some (t\<lparr>dbg := DbgMightBeFreed (b + 4) # DbgDogTag (b + 4) (ld32 (mem t) b) # dbg t\<rparr>)"
    using r(2,5) by (simp add: MEM_Deallocate_def mem_consts MEM_BLOCK_STAT_FREE_def MEM_BLOCK_STAT_USE_def
        dbg_output_def state_ok_def)
  ultimately show ?thesis
    using r(1-4) unfolding free_effect_def tuya_mem_heap_free_def by (intro exI [of _ t] exI [of _ lay']) simp
qed

theorem heap_free_outcome_witness:
  "\<exists>s p t u v. tuya_mem_heap_create 4096 1024 mem_start = Some (0, Some 0, s) \<and>
     tuya_mem_heap_malloc (Some 0) 10 s = Some (p, t) \<and> tuya_mem_heap_free (Some 0) p t = Some u \<and>
     tuya_mem_heap_free (Some 0) p u = Some v \<and> mem v = mem u \<and> s_free v = s_free u \<and> heaps v = heaps u"
proof -
  obtain s a n where s: "tuya_mem_heap_create 4096 1024 mem_start = Some (0, Some 0, s)"
    "state_ok s ((\<lambda>_. [])(0 := [(a, n, False)]))" "accounted s" "mh_size (heaps s ! 0) = 1024" "1000 \<le> n"
    using mem_start_created by blast
  have sz: "alloc_size 10 = 16" by (simp add: alloc_size_def ALIGN_UP_def add32_def mem_consts)
  have "mh_size (heaps s ! 0) \<noteq> 0" using s(4) by simp
  from MEM_Allocate_ok [OF s(2) _ this, of 10] obtain p t lay' where t: "MEM_Allocate (Some 0) 10 s = Some (p, t)"
    "state_ok t lay'" "alloc_effect 0 10 s ((\<lambda>_. [])(0 := [(a, n, False)])) p t lay'" "accounted t"
    using s sz by (fastforce simp: mem_consts)
  then obtain b k where b: "p = b + 4" "(b, k, True) \<in> set (lay' 0)" by (auto simp: alloc_effect_def)
  have "0 < length (heaps s)" using s(2) by (auto simp: state_ok_def mem_consts)
  then have "mh_size (heaps t ! 0) \<noteq> 0" using MEM_Allocate_regions [OF t(1), of 0] s(4) by simp
  from heap_free_outcome [OF t(2,4) _ this b(2)] show ?thesis
    using s(1) t(1) b(1) by (fastforce simp: mem_consts tuya_mem_heap_malloc_def)
qed

text \<open>
  Creating a heap in a region of at least 31 bytes that is free of other heaps takes the first
  unused slot and gives a well-formed heap that is one free block, which has all of the region but at
  most 6 bytes; no byte outside the region is written.
\<close>

theorem heap_create_outcome:
  assumes "state_ok s lay" "accounted s" "find_slot (heaps s) = i" "i < MEM_HEAP_LIST_NUM"
    and "0 < start" "31 \<le> sz" "start + sz < 4294967296"
    and "\<forall>j<MEM_HEAP_LIST_NUM. mh_size (heaps s ! j) \<noteq> 0 \<longrightarrow> heap_end (heaps s ! j) \<le> start \<or> start + sz \<le> heap_start (heaps s ! j)"
  shows "\<exists>t a n. tuya_mem_heap_create start sz s = Some (0, Some i, t) \<and> state_ok t (lay(i := [(a, n, False)])) \<and>
     start \<le> a \<and> a + n \<le> start + sz \<and> sz \<le> n + 6 \<and> mh_size (heaps t ! i) = sz \<and> accounted t \<and>
     (\<forall>x. x < start \<or> start + sz \<le> x \<longrightarrow> mem t x = mem s x)"
proof -
  obtain t a n where "tuya_mem_heap_create start sz s = Some (0, Some i, t)" "state_ok t (lay(i := [(a, n, False)]))"
    "start \<le> a" "a + n \<le> start + sz" "sz \<le> n + 6" "mh_size (heaps t ! i) = sz" "accounted t"
    "\<forall>x. x < start \<or> start + sz \<le> x \<longrightarrow> mem t x = mem s x"
    using heap_create_ok [OF assms(1) assms(3) [symmetric] assms(4-8)] assms(2) by blast
  then show ?thesis by blast
qed

theorem heap_create_outcome_witness:
  "\<exists>t a n. tuya_mem_heap_create 4097 512 mem_start = Some (0, Some 0, t) \<and>
     state_ok t ((\<lambda>_. [])(0 := [(a, n, False)])) \<and> 512 \<le> n + 6"
proof -
  have "\<forall>j<MEM_HEAP_LIST_NUM. mh_size (heaps mem_start ! j) \<noteq> 0 \<longrightarrow>
      heap_end (heaps mem_start ! j) \<le> 4097 \<or> 4097 + 512 \<le> heap_start (heaps mem_start ! j)"
    by (simp add: mem_start_def mem_consts zero_heap_def)
  from heap_create_outcome [OF mem_start_ok(1) mem_start_ok(2) find_slot_mem_start _ _ _ _ this, of "\<lambda>_. []"]
  show ?thesis by (fastforce simp: mem_consts)
qed

text \<open>
  A region shorter than the bytes lost to alignment is not refused: its size wraps, and a heap is
  created that claims almost the whole address space as one free block.
\<close>

theorem heap_create_tiny_wraps:
  assumes "ctx s" "length (heaps s) = MEM_HEAP_LIST_NUM" "find_slot (heaps s) = i" "i < MEM_HEAP_LIST_NUM"
    and "start mod 4 = 1" "start + 3 < 4294967296" "sz = 1 \<or> sz = 2"
  shows "\<exists>t. tuya_mem_heap_create start sz s = Some (0, Some i, t) \<and> mh_size (heaps t ! i) = sz \<and>
     mh_free (heaps t ! i) = 4294967292 \<and> mh_free_list (heaps t ! i) = start + 3"
proof -
  have st: "start = 4 * (start div 4) + 1" using assms(5) mult_div_mod_eq [of 4 start] by simp
  have a: "ALIGN_UP start = start + 3"
  proof -
    have "(start + 3) div 4 = start div 4 + 1" using st by presburger
    then show ?thesis using assms(6) st by (simp add: align_up_mod)
  qed
  have d: "sub32 (start + 3) start = 3" using assms(6) by (subst sub32_nowrap) simp_all
  have n: "ALIGN_DOWN (sub32 sz 3) = 4294967292"
    using assms(7) by (elim disjE) (simp_all add: ALIGN_DOWN_def sub32_def)
  show ?thesis using assms(1-4) st
    by (simp add: tuya_mem_heap_create_def MEM_HeapCreate_def mem_heap_init_def dbg_output_def enter_critical_def
        exit_critical_def aget_def put_heap_def Let_def a d n mem_consts) (use assms(7) in auto)
qed

theorem heap_create_tiny_wraps_witness:
  "\<exists>t. tuya_mem_heap_create 4097 2 mem_start = Some (0, Some 0, t) \<and> mh_free (heaps t ! 0) = 4294967292"
  using heap_create_tiny_wraps [OF _ _ find_slot_mem_start, of 4097 2] by (auto simp: mem_start_def mem_consts)

section \<open>The walk over a heap\<close>

lemma status_loop_ok:
  assumes "tiles p bs te" and "list_all (header_ok (mem s)) bs" and "chain (mem s) fb (frees bs) 0"
    and "0 < p" "4 dvd p" "te < 4294967296" and "ctx s" "0 < crit s"
    and "st_used_block st + (te - p) < 4294967296" "st_free_block st + (te - p) < 4294967296"
    and "st_free st + (te - p) < 4294967296"
  shows "\<exists>this d. status_loop te s th p fb st = Some (0, this, te, 0,
     st\<lparr>st_used_block := st_used_block st + length (useds bs), st_free_block := st_free_block st + length (frees bs),
        st_free := st_free st + sum_list (map (\<lambda>(p, n, u). if u then 0 else n - 5) bs),
        st_free_largest := fold (\<lambda>(p, n, u) k. if u then k else max k (n - 5)) bs (st_free_largest st)\<rparr>, s\<lparr>dbg := d\<rparr>)"
  using assms
proof (induction bs arbitrary: p fb st th s)
  case Nil
  have "st = st\<lparr>st_used_block := st_used_block st, st_free_block := st_free_block st, st_free := st_free st,
      st_free_largest := st_free_largest st\<rparr>" by simp
  then show ?case using Nil by (subst status_loop.simps) (auto intro: exI [of _ "dbg s"])
next
  case (Cons b bs)
  obtain n u where b: "b = (p, n, u)" using Cons.prems(1) by (cases b) auto
  have t: "12 \<le> n" "4 dvd n" "tiles (p + n) bs te" using Cons.prems(1) b by auto
  have te: "p + n \<le> te" using tiles_bounds [OF t(3)] .
  have h: "ld32 (mem s) p = n" "mem s (p + n - 1) = (if u then MEM_BLOCK_STAT_USE else MEM_BLOCK_STAT_FREE)"
    "list_all (header_ok (mem s)) bs" using Cons.prems(2) b by (simp_all add: header_ok_def [of _ "(p, n, u)"])
  have e: "add32 p n = p + n" "sub32 (p + n) 1 = p + n - 1" using te t Cons.prems(4,6)
    by (auto intro!: add32_nowrap sub32_nowrap)
  then have dog: "mem s (MEM_DOG_ADDR (mem s) p) = (if u then MEM_BLOCK_STAT_USE else MEM_BLOCK_STAT_FREE)"
    using h by (simp add: MEM_DOG_ADDR_def)
  have lt: "p < te" using te t by simp
  have sum: "te - (p + n) + n = te - p" using te by simp
  show ?case
  proof (cases u)
    case True
    have fb: "p \<noteq> fb"
    proof (cases "frees bs")
      case Nil
      then show ?thesis using Cons.prems(3,4) b True by simp
    next
      case (Cons q qs)
      then have "q \<in> set (frees bs)" "fb = q" using Cons.prems(3) b True by auto
      then show ?thesis using tiles_frees_less [OF t(3)] t(1) by fastforce
    qed
    have u1: "add32 (st_used_block st) 1 = st_used_block st + 1" using Cons.prems(9) sum t(1) by (intro add32_nowrap) linarith
    let ?st = "st\<lparr>st_used_block := st_used_block st + 1\<rparr>"
    have step: "\<exists>d. status_loop te s th p fb st = status_loop te (s\<lparr>dbg := d\<rparr>) p (p + n) fb ?st"
    proof (cases "ld32 (mem s) (add32 (MEM_LEAK_DBG_ADDR (mem s) p) 12) = MEM_DBG_LEAK_MAGIC")
      case True
      have "s\<lparr>crit := crit s, dbg := d\<rparr> = s\<lparr>dbg := d\<rparr>" for d by simp
      then show ?thesis using Cons.prems(7,8) lt dog \<open>u\<close> fb h(1) e u1 True
        by (subst status_loop.simps) (auto simp: exit_critical_def enter_critical_def dbg_output_def Let_def)
    next
      case False
      have "s = s\<lparr>dbg := dbg s\<rparr>" by simp
      then show ?thesis using lt dog \<open>u\<close> fb h(1) e u1 False
        by (subst status_loop.simps) (auto intro: exI [of _ "dbg s"])
    qed
    then obtain d where "status_loop te s th p fb st = status_loop te (s\<lparr>dbg := d\<rparr>) p (p + n) fb ?st" by blast
    moreover have "\<exists>this d'. status_loop te (s\<lparr>dbg := d\<rparr>) p (p + n) fb ?st = Some (0, this, te, 0,
     ?st\<lparr>st_used_block := st_used_block ?st + length (useds bs), st_free_block := st_free_block ?st + length (frees bs),
        st_free := st_free ?st + sum_list (map (\<lambda>(p, n, u). if u then 0 else n - 5) bs),
        st_free_largest := fold (\<lambda>(p, n, u) k. if u then k else max k (n - 5)) bs (st_free_largest ?st)\<rparr>, s\<lparr>dbg := d, dbg := d'\<rparr>)"
      by (rule Cons.IH [OF t(3)]) (use Cons.prems b True h t sum in auto)
    ultimately show ?thesis using b True by auto
  next
    case False
    then have fb: "fb = p" "chain (mem s) (ld32 (mem s) (p + 4)) (frees bs) 0" using Cons.prems(3) b by auto
    have dg: "MEM_BLOCK_STAT_FREE \<noteq> MEM_BLOCK_STAT_USE" by (simp add: MEM_BLOCK_STAT_FREE_def MEM_BLOCK_STAT_USE_def)
    have e2: "sub32 (sub32 n 4) 1 = n - 5" using t(1) te Cons.prems(6) by (simp add: sub32_nowrap)
    have f1: "add32 (st_free_block st) 1 = st_free_block st + 1" "add32 (st_free st) (n - 5) = st_free st + (n - 5)"
    proof -
      have "st_free_block st + 1 < 4294967296" "st_free st + (n - 5) < 4294967296"
        using Cons.prems(10,11) sum t(1) lt by linarith+
      then show "add32 (st_free_block st) 1 = st_free_block st + 1" "add32 (st_free st) (n - 5) = st_free st + (n - 5)"
        by (simp_all only: add32_nowrap)
    qed
    have p4: "add32 p 4 = p + 4" using t(1) te Cons.prems(6) by (intro add32_nowrap) simp
    let ?st = "st\<lparr>st_free := st_free st + (n - 5), st_free_largest := max (st_free_largest st) (n - 5),
      st_free_block := st_free_block st + 1\<rparr>"
    have st: "st\<lparr>st_free := x, st_free_largest := st_free_largest st, st_free_block := y\<rparr> =
        st\<lparr>st_free := x, st_free_block := y\<rparr>" for x y by (cases st) simp
    have step: "status_loop te s th p fb st = status_loop te s p (p + n) (ld32 (mem s) (p + 4)) ?st"
      using lt dog False fb(1) h(1) e f1 e2
      by (subst status_loop.simps) (simp add: Let_def blk_next_def p4 mem_consts dg max_def st)
    have "\<exists>this d. status_loop te s p (p + n) (ld32 (mem s) (p + 4)) ?st = Some (0, this, te, 0,
     ?st\<lparr>st_used_block := st_used_block ?st + length (useds bs), st_free_block := st_free_block ?st + length (frees bs),
        st_free := st_free ?st + sum_list (map (\<lambda>(p, n, u). if u then 0 else n - 5) bs),
        st_free_largest := fold (\<lambda>(p, n, u) k. if u then k else max k (n - 5)) bs (st_free_largest ?st)\<rparr>, s\<lparr>dbg := d\<rparr>)"
      by (rule Cons.IH [OF t(3) h(3) fb(2)]) (use Cons.prems b t sum in auto)
    then show ?thesis using b False step by (auto simp: add.assoc)
  qed
qed

text \<open>
  C23. On a well-formed heap the status walk ends, reports the heap valid, and counts its blocks: the
  blocks in use, the free blocks, the bytes they can hand out and the largest of them. The state is
  left as it was, the debug output apart.
\<close>

theorem heap_status_valid:
  assumes "state_ok s lay" "i < MEM_HEAP_LIST_NUM" "mh_size (heaps s ! i) \<noteq> 0"
  shows "\<exists>d. MEM_HeapStatus i s = Some (\<lparr>st_size = mh_size (heaps s ! i),
     st_free = sum_list (map (\<lambda>(p, n, u). if u then 0 else n - 5) (lay i)),
     st_free_largest = fold (\<lambda>(p, n, u) k. if u then k else max k (n - 5)) (lay i) 0, st_valid = 1,
     st_used_block = length (useds (lay i)), st_free_block = length (frees (lay i))\<rparr>, s\<lparr>dbg := d\<rparr>)"
proof -
  let ?h = "heaps s ! i"
  have len: "length (heaps s) = MEM_HEAP_LIST_NUM" and cx: "ctx s" using assms by (simp_all add: state_ok_def)
  have b: "0 < heap_start ?h" "4 dvd heap_start ?h" "heap_end ?h < 4294967296"
    "tiles (heap_start ?h) (lay i) (heap_end ?h)" "list_all (header_ok (mem s)) (lay i)"
    using state_okD(1) [OF assms] by (simp_all add: blocks_ok_def)
  let ?st = "\<lparr>st_size = mh_size ?h, st_free = 0, st_free_largest = 0, st_valid = 0, st_used_block = 0, st_free_block = 0\<rparr>"
  have "\<exists>this d. status_loop (heap_end ?h) (s\<lparr>crit := crit s + 1\<rparr>) 0 (heap_start ?h) (mh_free_list ?h) ?st = Some (0, this, heap_end ?h, 0,
     ?st\<lparr>st_used_block := st_used_block ?st + length (useds (lay i)), st_free_block := st_free_block ?st + length (frees (lay i)),
        st_free := st_free ?st + sum_list (map (\<lambda>(p, n, u). if u then 0 else n - 5) (lay i)),
        st_free_largest := fold (\<lambda>(p, n, u) k. if u then k else max k (n - 5)) (lay i) (st_free_largest ?st)\<rparr>, s\<lparr>crit := crit s + 1, dbg := d\<rparr>)"
    by (rule status_loop_ok [OF b(4)]) (use b state_okD(2) [OF assms] cx in auto)
  then obtain this d where r: "status_loop (heap_end ?h) (s\<lparr>crit := crit s + 1\<rparr>) 0 (heap_start ?h) (mh_free_list ?h) ?st = Some (0, this, heap_end ?h, 0,
     ?st\<lparr>st_used_block := length (useds (lay i)), st_free_block := length (frees (lay i)),
        st_free := sum_list (map (\<lambda>(p, n, u). if u then 0 else n - 5) (lay i)),
        st_free_largest := fold (\<lambda>(p, n, u) k. if u then k else max k (n - 5)) (lay i) 0\<rparr>, s\<lparr>crit := crit s + 1, dbg := d\<rparr>)"
    by auto
  have "s\<lparr>crit := crit s, dbg := d\<rparr> = s\<lparr>dbg := d\<rparr>" by simp
  then show ?thesis using r assms(2) len cx
    by (intro exI [of _ d]) (simp add: MEM_HeapStatus_def aget_def enter_critical_def exit_critical_def heap_start_def
        heap_end_def Let_def)
qed

theorem heap_status_valid_witness:
  "\<exists>s st d. tuya_mem_heap_create 4096 1024 mem_start = Some (0, Some 0, s) \<and>
     MEM_HeapStatus 0 s = Some (st, s\<lparr>dbg := d\<rparr>) \<and> st_valid st = 1 \<and> st_free_block st = 1 \<and> st_used_block st = 0"
proof -
  obtain s a n where s: "tuya_mem_heap_create 4096 1024 mem_start = Some (0, Some 0, s)"
    "state_ok s ((\<lambda>_. [])(0 := [(a, n, False)]))" "mh_size (heaps s ! 0) = 1024"
    using mem_start_created by blast
  have "mh_size (heaps s ! 0) \<noteq> 0" using s(3) by simp
  from heap_status_valid [OF s(2) _ this] show ?thesis using s(1) by (fastforce simp: mem_consts)
qed

section \<open>Reallocation\<close>

lemma bytes_keptD: "bytes_kept L s t \<Longrightarrow> (q, k) \<in> L \<Longrightarrow> q \<le> x \<Longrightarrow> x < q + k \<Longrightarrow> mem t x = mem s x"
  unfolding bytes_kept_def by blast

lemma live_block_header:
  assumes "heap_live handle s L" and "(p, m) \<in> L"
  obtains b n where "p = b + 4" "m = n - 5" "12 \<le> n" "4 dvd n" "p < 4294967296" "ld32 (mem s) b = n"
    "mem s (MEM_DOG_ADDR (mem s) b) = MEM_BLOCK_STAT_USE" "n < 4294967296"
proof -
  obtain lay where ok: "state_ok s lay" and L: "L = live_blocks (heap_scope handle s) lay"
    and sc: "scope_ok handle s" using assms(1) by (auto simp: heap_live_def)
  from assms(2) L obtain b n i where b: "p = b + 4" "m = n - 5" "i \<in> heap_scope handle s" "(b, n, True) \<in> set (lay i)"
    by (auto simp: live_blocks_def)
  note iv = scope_okD [OF sc b(3)]
  note d = blocks_okD [OF state_okD(1) [OF ok conjunct1 [OF iv] conjunct2 [OF iv]] b(4)]
  have "add32 b n = b + n" "sub32 (b + n) 1 = b + n - 1"
    using d(1,4,6,7) by (auto intro!: add32_nowrap sub32_nowrap)
  then have "mem s (MEM_DOG_ADDR (mem s) b) = MEM_BLOCK_STAT_USE" using d(8,9) by (simp add: MEM_DOG_ADDR_def)
  then show thesis using that [OF b(1,2)] d b(1) by simp
qed

lemma realloc_size:
  assumes "max 4 sz + 8 < 4294967296"
  shows "alloc_size sz = (max 4 sz + 4) div 4 * 4 + 4" "add32 (ALIGN_UP (add32 (if sz < 4 then 4 else sz) 1)) MEM_BLOCK_HEAD_SIZE = alloc_size sz"
proof -
  have "(if sz < 4 then 4 else sz) = max 4 sz" by (simp add: max_def)
  then show "alloc_size sz = (max 4 sz + 4) div 4 * 4 + 4" using assms by (simp add: alloc_size_def align_up_mod mem_consts arith32)
  show "add32 (ALIGN_UP (add32 (if sz < 4 then 4 else sz) 1)) MEM_BLOCK_HEAD_SIZE = alloc_size sz" by (simp add: alloc_size_def)
qed

text \<open>A block that is too small for \<open>sz\<close> holds no more bytes than a new one has.\<close>

lemma realloc_room:
  assumes "max 4 sz + 8 < 4294967296" "4 dvd n"
  shows "alloc_size sz \<le> n \<Longrightarrow> sz \<le> n - 5" "\<not> alloc_size sz \<le> n \<Longrightarrow> n - 4 \<le> max 4 sz"
proof -
  note as = realloc_size(1) [OF assms(1)]
  show "alloc_size sz \<le> n \<Longrightarrow> sz \<le> n - 5"
    using as div_mult_mod_eq [of "max 4 sz + 4" 4] mod_less_divisor [of 4 "max 4 sz + 4"] by linarith
  assume "\<not> alloc_size sz \<le> n"
  moreover obtain k where k: "n = 4 * k" using assms(2) by (elim dvdE)
  moreover have "(max 4 sz + 4) div 4 * 4 \<le> max 4 sz + 4" by simp
  ultimately have "k \<le> (max 4 sz + 4) div 4" "(max 4 sz + 4) div 4 * 4 \<le> max 4 sz + 4" using as by linarith+
  then show "n - 4 \<le> max 4 sz" using k by linarith
qed

lemma realloc_run:
  assumes "ld32 (mem s) b = n" "mem s (MEM_DOG_ADDR (mem s) b) = MEM_BLOCK_STAT_USE" "sub32 p 4 = b" "p \<noteq> 0" "max 4 sz + 8 < 4294967296"
  shows "tuya_mem_heap_realloc handle p sz s =
     (if alloc_size sz \<le> n then Some (p, s)
      else do {
        (q, s) \<leftarrow> tuya_mem_heap_malloc handle (if sz < 4 then 4 else sz) s;
        if q = 0 then Some (0, s)
        else do {
          s \<leftarrow> tuya_mem_heap_free handle p (s\<lparr>mem := copy_mem q p (sub32 (ld32 (mem s) b) 4) (mem s)\<rparr>);
          Some (q, s)
        }
      })"
proof -
  have hd: "MEM_BLOCK_HEAD_SIZE = 4" by (simp add: mem_consts)
  show ?thesis using assms(1-4) realloc_size(2) [OF assms(5)] unfolding tuya_mem_heap_realloc_def Let_def hd assms(3) by simp
qed

text \<open>Copying the old block to the new one and freeing it.\<close>

lemma realloc_move:
  assumes l: "heap_live handle t (insert (q, k) L)" and p: "(p, m) \<in> L" "(q, k) \<notin> L" and kept: "bytes_kept L s t"
    and n: "m = n - 5" "12 \<le> n" "n - 4 \<le> k"
  shows "\<exists>u. tuya_mem_heap_free handle p (t\<lparr>mem := copy_mem q p (n - 4) (mem t)\<rparr>) = Some u \<and> q \<noteq> p \<and>
    heap_live handle u (insert (q, k) L - {(p, m)}) \<and> bytes_kept (L - {(p, m)}) s u \<and> (\<forall>x<m. mem u (q + x) = mem s (p + x))"
proof -
  let ?m = "copy_mem q p (n - 4) (mem t)"
  have w: "heap_live handle (t\<lparr>mem := ?m\<rparr>) (insert (q, k) L)"
    by (rule heap_live_write [OF l]) (use n(3) in \<open>auto simp: copy_mem_def\<close>)
  have apart: "q + k \<le> c \<or> c + j \<le> q" if "(c, j) \<in> L" for c j
    using heap_live_apart [OF l] that p(2) by (force simp: blocks_apart_def)
  have pin: "(p, m) \<in> insert (q, k) L" and ne: "(q, k) \<noteq> (p, m)" using p by auto
  obtain u where u: "tuya_mem_heap_free handle p (t\<lparr>mem := ?m\<rparr>) = Some u"
    "heap_live handle u (insert (q, k) L - {(p, m)})" "bytes_kept (insert (q, k) L - {(p, m)}) (t\<lparr>mem := ?m\<rparr>) u"
    using heap_live_free [OF w pin] by blast
  have "bytes_kept (L - {(p, m)}) s u" unfolding bytes_kept_def
  proof (intro allI impI)
    fix c j x assume c: "(c, j) \<in> L - {(p, m)}" "c \<le> x" "x < c + j"
    then have "mem u x = ?m x" using bytes_keptD [OF u(3), of c j x] by simp
    also have "\<dots> = mem t x" using apart [of c j] c n(3) by (auto simp: copy_mem_def)
    finally show "mem u x = mem s x" using kept c by (auto simp: bytes_kept_def)
  qed
  moreover have "\<forall>x<m. mem u (q + x) = mem s (p + x)"
  proof (intro allI impI)
    fix x assume x: "x < m"
    then have "mem u (q + x) = ?m (q + x)" using bytes_keptD [OF u(3), of q k "q + x"] ne n by auto
    also have "\<dots> = mem t (p + x)" using x n(1) by (auto simp: copy_mem_def)
    finally show "mem u (q + x) = mem s (p + x)" using kept p(1) x by (auto simp: bytes_kept_def)
  qed
  moreover have "q \<noteq> p" using apart [OF p(1)] n by auto
  ultimately show ?thesis using u(1,2) by blast
qed

text \<open>
  C22. Reallocating a live block returns the same block when it is large enough, or a null pointer with
  the block still live, or a new block that is large enough and starts with the bytes of the old one,
  which is freed; all other blocks keep their bytes.
\<close>

theorem heap_realloc_outcome:
  assumes l: "heap_live handle s L" and p: "(p, m) \<in> L" and sz: "max 4 sz + 8 < 4294967296"
  shows "\<exists>q t. tuya_mem_heap_realloc handle p sz s = Some (q, t) \<and>
     (q = p \<and> t = s \<and> sz \<le> m \<or>
      q = 0 \<and> heap_live handle t L \<and> bytes_kept L s t \<or>
      (\<exists>k. q \<noteq> 0 \<and> q \<noteq> p \<and> sz \<le> k \<and> m \<le> k \<and> heap_live handle t (insert (q, k) L - {(p, m)}) \<and>
         bytes_kept (L - {(p, m)}) s t \<and> (\<forall>x<m. mem t (q + x) = mem s (p + x))))"
proof -
  obtain b n where b: "p = b + 4" "m = n - 5" "12 \<le> n" "4 dvd n" "p < 4294967296" "ld32 (mem s) b = n"
    "mem s (MEM_DOG_ADDR (mem s) b) = MEM_BLOCK_STAT_USE" using live_block_header [OF l p] by metis
  have sub: "sub32 p 4 = b" using b(1,5) by (subst sub32_nowrap) simp_all
  have pz: "p \<noteq> 0" using b(1) by simp
  note run = realloc_run [OF b(6,7) _ _ sz, OF sub pz, of handle]
  let ?sz = "if sz < 4 then 4 else sz"
  have "0 < ?sz" "?sz < 4294967296" using sz by auto
  then obtain q t where t: "tuya_mem_heap_malloc handle ?sz s = Some (q, t)" "alloc_law handle L ?sz s q t"
    using heap_live_malloc [OF l] by blast
  consider "alloc_size sz \<le> n" | "\<not> alloc_size sz \<le> n" "q = 0" | "\<not> alloc_size sz \<le> n" "q \<noteq> 0" by blast
  then show ?thesis
  proof cases
    case 1
    then show ?thesis using run realloc_room(1) [OF sz b(4)] b(2) by simp
  next
    case 2
    then show ?thesis using run t by (simp add: alloc_law_def)
  next
    case 3
    then obtain k where k: "?sz \<le> k" "(q, k) \<notin> L" "heap_live handle t (insert (q, k) L)" "bytes_kept L s t"
      using t(2) by (auto simp: alloc_law_def)
    have nk: "n - 4 \<le> k" "sz \<le> k" using realloc_room(2) [OF sz b(4) 3(1)] k(1) by (simp_all split: if_splits)
    obtain b' n' where "p = b' + 4" "m = n' - 5" "12 \<le> n'" "ld32 (mem t) b' = n'" "n' < 4294967296"
      using live_block_header [OF k(3), of p m] p by (metis insertI2)
    then have "ld32 (mem t) b = n" "sub32 n 4 = n - 4" using b(1-3) by (auto intro!: sub32_nowrap)
    moreover obtain u where u: "tuya_mem_heap_free handle p (t\<lparr>mem := copy_mem q p (n - 4) (mem t)\<rparr>) = Some u" "q \<noteq> p"
      "heap_live handle u (insert (q, k) L - {(p, m)})" "bytes_kept (L - {(p, m)}) s u" "\<forall>x<m. mem u (q + x) = mem s (p + x)"
      using realloc_move [OF k(3) p k(2,4) b(2,3) nk(1)] by blast
    ultimately have "tuya_mem_heap_realloc handle p sz s = Some (q, u)" using run 3 t(1) by simp
    moreover have "m \<le> k" using nk(1) b(2) by simp
    ultimately show ?thesis using 3(2) u nk(2) by blast
  qed
qed

lemma one_live_block:
  "\<exists>s p m t. tuya_mem_heap_create 4096 1024 mem_start = Some (0, Some 0, s) \<and>
     tuya_mem_heap_malloc (Some 0) 10 s = Some (p, t) \<and> p \<noteq> 0 \<and> heap_live (Some 0) t {(p, m)}"
proof -
  obtain s a n where s: "tuya_mem_heap_create 4096 1024 mem_start = Some (0, Some 0, s)"
    "state_ok s ((\<lambda>_. [])(0 := [(a, n, False)]))" "accounted s" "mh_size (heaps s ! 0) = 1024" "1000 \<le> n"
    using mem_start_created by blast
  have sz: "alloc_size 10 = 16" by (simp add: alloc_size_def ALIGN_UP_def add32_def mem_consts)
  have nz: "mh_size (heaps s ! 0) \<noteq> 0" using s(4) by simp
  have l: "heap_live (Some 0) s {}" using created_live [OF s(2,3) nz] .
  obtain p t where t: "tuya_mem_heap_malloc (Some 0) 10 s = Some (p, t)" "alloc_law (Some 0) {} 10 s p t"
    using heap_live_malloc [OF l, of 10] by auto
  have "p \<noteq> 0" using MEM_Allocate_ok [OF s(2) _ nz, of 10] t(1) sz s(5) by (fastforce simp: tuya_mem_heap_malloc_def mem_consts)
  then obtain k where "heap_live (Some 0) t {(p, k)}" using t(2) by (auto simp: alloc_law_def)
  then show ?thesis using s(1) t(1) \<open>p \<noteq> 0\<close> by blast
qed

theorem heap_realloc_outcome_witness:
  "\<exists>s p t q u. tuya_mem_heap_create 4096 1024 mem_start = Some (0, Some 0, s) \<and>
     tuya_mem_heap_malloc (Some 0) 10 s = Some (p, t) \<and> tuya_mem_heap_realloc (Some 0) p 100 t = Some (q, u)"
proof -
  obtain s p m t where "tuya_mem_heap_create 4096 1024 mem_start = Some (0, Some 0, s)"
     "tuya_mem_heap_malloc (Some 0) 10 s = Some (p, t)" "heap_live (Some 0) t {(p, m)}" using one_live_block by blast
  then show ?thesis using heap_realloc_outcome [of "Some 0" t "{(p, m)}" p m 100] by fastforce
qed

text \<open>
  A size within 4 of the end of the 32-bit range wraps to a block of 4 bytes: the call reports
  success and returns the old block, however small it is.
\<close>

theorem heap_realloc_wraps:
  assumes l: "heap_live handle s L" and p: "(p, m) \<in> L" and sz: "4294967292 \<le> sz" "sz < 4294967296"
  shows "tuya_mem_heap_realloc handle p sz s = Some (p, s)"
proof -
  obtain b n where b: "p = b + 4" "12 \<le> n" "p < 4294967296" "ld32 (mem s) b = n"
    "mem s (MEM_DOG_ADDR (mem s) b) = MEM_BLOCK_STAT_USE" using live_block_header [OF l p] by metis
  have sub: "sub32 p 4 = b" using b(1,3) by (subst sub32_nowrap) simp_all
  have "ALIGN_UP (add32 sz 1) = 0"
  proof (cases "sz = 4294967295")
    case False
    then have "add32 sz 1 = sz + 1" using sz by (intro add32_nowrap) simp
    moreover have "add32 (sz + 1) 3 = sz + 4 - 4294967296" using sz False by (subst add32_wrap) simp_all
    ultimately show ?thesis using sz by (simp add: ALIGN_UP_def)
  qed (simp add: ALIGN_UP_def add32_def)
  then show ?thesis using b sub sz by (simp add: tuya_mem_heap_realloc_def Let_def mem_consts add32_def)
qed

theorem heap_realloc_wraps_witness:
  "\<exists>s p t. tuya_mem_heap_create 4096 1024 mem_start = Some (0, Some 0, s) \<and>
     tuya_mem_heap_malloc (Some 0) 10 s = Some (p, t) \<and> p \<noteq> 0 \<and> tuya_mem_heap_realloc (Some 0) p 4294967295 t = Some (p, t)"
proof -
  obtain s p m t where "tuya_mem_heap_create 4096 1024 mem_start = Some (0, Some 0, s)" "p \<noteq> 0"
     "tuya_mem_heap_malloc (Some 0) 10 s = Some (p, t)" "heap_live (Some 0) t {(p, m)}" using one_live_block by blast
  then show ?thesis using heap_realloc_wraps [of "Some 0" t "{(p, m)}" p m 4294967295] by fastforce
qed

end
