(* ===== verification/DrvModel.thy ===== *)
theory DrvModel
  imports Prelude
begin

text \<open>
  The device model of \<^verbatim>\<open>driver/common/drv_model.c\<close>: a table of 8 devices that are opened and
  closed with a use count and one of 16 simple devices that are only controlled. A driver registers
  a structure of functions; here they are functions on the \<open>world\<close>, the state of all drivers.

  A name or operations pointer is an \<open>option\<close>, \<open>None\<close> being \<^verbatim>\<open>NULL\<close>; a name is the list of its
  characters before the terminating zero. The result \<open>None\<close> of an operation stands for undefined
  behaviour (a table access out of bounds, a string function on \<^verbatim>\<open>NULL\<close>) and for the endless loop
  of a failed \<^verbatim>\<open>ASSERT\<close> (\<^verbatim>\<open>CFG_RELEASE_FIRMWARE\<close> is 0). The fields \<^verbatim>\<open>method\<close> and \<^verbatim>\<open>private\<close>, which
  no code uses, are left out.
\<close>

section \<open>Data\<close>

definition DRV_FAILURE :: u32 where "DRV_FAILURE = - 5"
definition DRV_SUCCESS :: u32 where "DRV_SUCCESS = 0"
definition DD_HANDLE_MAGIC_WORD :: u32 where "DD_HANDLE_MAGIC_WORD = 0xA5A50000"
definition DD_HANDLE_MAGIC_MASK :: u32 where "DD_HANDLE_MAGIC_MASK = 0xFFFF0000"
definition DD_HANDLE_ID_MASK :: u32 where "DD_HANDLE_ID_MASK = 0x0000FFFF"
definition DD_HANDLE_UNVALID :: u32 where "DD_HANDLE_UNVALID = - 1"
definition DD_ID_UNVALID :: u32 where "DD_ID_UNVALID = - 1"
definition DD_MAX_DEV :: nat where "DD_MAX_DEV = 8"
definition DD_MAX_SDEV :: nat where "DD_MAX_SDEV = 16"
definition DD_MAX_NAME_LEN :: nat where "DD_MAX_NAME_LEN = 16"

lemmas dd_consts = DRV_FAILURE_def DRV_SUCCESS_def DD_HANDLE_MAGIC_WORD_def DD_HANDLE_MAGIC_MASK_def
  DD_HANDLE_ID_MASK_def DD_HANDLE_UNVALID_def DD_ID_UNVALID_def DD_MAX_DEV_def DD_MAX_SDEV_def DD_MAX_NAME_LEN_def

text \<open>
  Each function returns its status and the new world; reading also gives the bytes stored in the
  caller's buffer, controlling the value its parameter points to.
\<close>

record 'w dd_operations =
  op_open :: "(u32 \<Rightarrow> 'w \<Rightarrow> (u32 \<times> 'w) option) option"
  op_close :: "('w \<Rightarrow> (u32 \<times> 'w) option) option"
  op_read :: "(u32 \<Rightarrow> u32 \<Rightarrow> 'w \<Rightarrow> (u32 \<times> u8 list \<times> 'w) option) option"
  op_write :: "(u8 list \<Rightarrow> u32 \<Rightarrow> u32 \<Rightarrow> 'w \<Rightarrow> (u32 \<times> 'w) option) option"
  op_control :: "(u32 \<Rightarrow> u32 \<Rightarrow> 'w \<Rightarrow> (u32 \<times> u32 \<times> 'w) option) option"

record 'w sdd_operations =
  sop_control :: "(u32 \<Rightarrow> u32 \<Rightarrow> 'w \<Rightarrow> (u32 \<times> u32 \<times> 'w) option) option"

datatype dd_state = NODEVICE | CLOSED | OPENED | BREAK | SUCCESS

record 'w drv_dev =
  dv_name :: "string option"
  use_cnt :: u32
  dv_state :: dd_state
  dv_op :: "'w dd_operations option"

record 'w drv_sdev =
  sdv_name :: "string option"
  sdv_state :: dd_state
  sdv_op :: "'w sdd_operations option"

record 'w drv =
  dev_tbl :: "'w drv_dev list"
  sdev_tbl :: "'w drv_sdev list"
  world :: 'w

definition zero_dev :: "'w drv_dev" where
  "zero_dev = \<lparr>dv_name = None, use_cnt = 0, dv_state = NODEVICE, dv_op = None\<rparr>"

definition zero_sdev :: "'w drv_sdev" where
  "zero_sdev = \<lparr>sdv_name = None, sdv_state = NODEVICE, sdv_op = None\<rparr>"

definition put_dev :: "nat \<Rightarrow> 'w drv_dev \<Rightarrow> 'w drv \<Rightarrow> 'w drv" where
  "put_dev i d s = s\<lparr>dev_tbl := (dev_tbl s)[i := d]\<rparr>"

definition put_sdev :: "nat \<Rightarrow> 'w drv_sdev \<Rightarrow> 'w drv \<Rightarrow> 'w drv" where
  "put_sdev i d s = s\<lparr>sdev_tbl := (sdev_tbl s)[i := d]\<rparr>"

text \<open>\<^verbatim>\<open>0 == os_strncmp(a, b, n)\<close>\<close>

definition strn_eq :: "string option \<Rightarrow> string \<Rightarrow> nat \<Rightarrow> bool option" where
  "strn_eq a b n = (case a of None \<Rightarrow> None | Some a \<Rightarrow> Some (take n a = take n b))"

section \<open>Handles\<close>

definition drv_model_init :: "'w drv \<Rightarrow> u32 \<times> 'w drv" where
  "drv_model_init s = (DRV_SUCCESS, s\<lparr>dev_tbl := replicate DD_MAX_DEV zero_dev, sdev_tbl := replicate DD_MAX_SDEV zero_sdev\<rparr>)"

definition drv_model_uninit :: "'w drv \<Rightarrow> u32 \<times> 'w drv" where
  "drv_model_uninit s = (DRV_SUCCESS, s\<lparr>dev_tbl := replicate DD_MAX_DEV zero_dev, sdev_tbl := replicate DD_MAX_SDEV zero_sdev\<rparr>)"

definition ddev_check_handle :: "u32 \<Rightarrow> u32" where
  "ddev_check_handle handle =
     (let magic = handle AND DD_HANDLE_MAGIC_MASK; id = handle AND DD_HANDLE_ID_MASK
      in if DD_HANDLE_MAGIC_WORD = magic \<and> id < of_nat DD_MAX_DEV then DRV_SUCCESS else DRV_FAILURE)"

definition ddev_make_handle :: "u32 \<Rightarrow> u32" where
  "ddev_make_handle i = (if of_nat DD_MAX_DEV \<le> i then DD_HANDLE_UNVALID else i + DD_HANDLE_MAGIC_WORD)"

definition ddev_get_id_from_handle :: "u32 \<Rightarrow> u32" where
  "ddev_get_id_from_handle handle =
     (let magic = handle AND DD_HANDLE_MAGIC_MASK; id = handle AND DD_HANDLE_ID_MASK
      in if magic \<noteq> DD_HANDLE_MAGIC_WORD then DD_ID_UNVALID else id)"

section \<open>Opening and closing\<close>

text \<open>
  The search loop of the table: the index of the first name that agrees with \<open>n\<close> on the first
  \<open>len\<close> characters, from index \<open>i\<close> on (\<open>k\<close> entries are left); \<open>Some None\<close> if there is none.
\<close>

fun name_scan :: "(nat \<Rightarrow> string option option) \<Rightarrow> string \<Rightarrow> nat \<Rightarrow> nat \<Rightarrow> nat \<Rightarrow> nat option option" where
  "name_scan name_at n len i 0 = Some None"
| "name_scan name_at n len i (Suc k) =
     do {
       nm \<leftarrow> name_at i;
       eq \<leftarrow> strn_eq nm n len;
       if eq then Some (Some i) else name_scan name_at n len (Suc i) k
     }"

definition dev_name_at :: "'w drv \<Rightarrow> nat \<Rightarrow> string option option" where
  "dev_name_at s i = do { d \<leftarrow> aget (dev_tbl s) i; Some (dv_name d) }"

definition sdev_name_at :: "'w drv \<Rightarrow> nat \<Rightarrow> string option option" where
  "sdev_name_at s i = do { d \<leftarrow> aget (sdev_tbl s) i; Some (sdv_name d) }"

text \<open>
  \<open>status\<close> is the value the caller's status pointer refers to, \<open>None\<close> for \<^verbatim>\<open>NULL\<close>. The result is the
  handle, the status and the state. The length of a \<^verbatim>\<open>NULL\<close> name is taken before it is checked.
\<close>

definition ddev_open :: "string option \<Rightarrow> u32 option \<Rightarrow> u32 \<Rightarrow> 'w drv \<Rightarrow> (u32 \<times> u32 option \<times> 'w drv) option" where
  "ddev_open dev_name status op_flag s =
     do {
       name \<leftarrow> dev_name;
       if status = None \<or> DD_MAX_NAME_LEN < length name then Some (DD_HANDLE_UNVALID, status, s)
       else do {
         found \<leftarrow> name_scan (dev_name_at s) name (length name) 0 DD_MAX_DEV;
         case found of
           None \<Rightarrow> None
         | Some i \<Rightarrow> do {
             d \<leftarrow> aget (dev_tbl s) i;
             (handle, status, d, w) \<leftarrow>
               (case dv_state d of
                  OPENED \<Rightarrow> Some (ddev_make_handle (of_nat i), DRV_FAILURE, d, world s)
                | CLOSED \<Rightarrow> do {
                    (status, w) \<leftarrow> (case dv_op d of
                        Some ops \<Rightarrow> (case op_open ops of Some f \<Rightarrow> f op_flag (world s) | None \<Rightarrow> Some (DRV_FAILURE, world s))
                      | None \<Rightarrow> Some (DRV_FAILURE, world s));
                    Some (ddev_make_handle (of_nat i), status, d\<lparr>dv_state := OPENED, use_cnt := 0\<rparr>, w)
                  }
                | _ \<Rightarrow> Some (DD_HANDLE_UNVALID, DRV_FAILURE, d, world s));
             let s = (put_dev i (d\<lparr>use_cnt := use_cnt d + 1\<rparr>) s)\<lparr>world := w\<rparr>;
             if handle = DD_HANDLE_UNVALID then None else Some (handle, Some status, s)
           }
       }
     }"

definition ddev_close :: "u32 \<Rightarrow> 'w drv \<Rightarrow> (u32 \<times> 'w drv) option" where
  "ddev_close handle s =
     (let id = ddev_get_id_from_handle handle
      in if id = DD_ID_UNVALID then Some (DRV_FAILURE, s)
         else do {
           d \<leftarrow> aget (dev_tbl s) (unat id);
           let d = d\<lparr>use_cnt := use_cnt d - 1\<rparr>;
           if use_cnt d = 0
           then do {
             (r, w) \<leftarrow> (case dv_op d of
                 Some ops \<Rightarrow> (case op_close ops of Some f \<Rightarrow> f (world s) | None \<Rightarrow> Some (0, world s))
               | None \<Rightarrow> Some (0, world s));
             Some (DRV_SUCCESS, (put_dev (unat id) (d\<lparr>dv_state := CLOSED\<rparr>) s)\<lparr>world := w\<rparr>)
           }
           else Some (DRV_SUCCESS, put_dev (unat id) d s)
         })"

section \<open>Input and output\<close>

text \<open>\<open>None\<close> for the bytes read: the buffer is not written.\<close>

definition ddev_read :: "u32 \<Rightarrow> u32 \<Rightarrow> u32 \<Rightarrow> 'w drv \<Rightarrow> (u32 \<times> u8 list option \<times> 'w drv) option" where
  "ddev_read handle cnt op_flag s =
     (let id = ddev_get_id_from_handle handle
      in if id = DD_ID_UNVALID then Some (DRV_FAILURE, None, s)
         else do {
           d \<leftarrow> aget (dev_tbl s) (unat id);
           case dv_op d of
             None \<Rightarrow> Some (DRV_FAILURE, None, s)
           | Some ops \<Rightarrow> (case op_read ops of
               None \<Rightarrow> Some (DRV_FAILURE, None, s)
             | Some f \<Rightarrow> do { (st, data, w) \<leftarrow> f cnt op_flag (world s); Some (st, Some data, s\<lparr>world := w\<rparr>) })
         })"

definition ddev_write :: "u32 \<Rightarrow> u8 list \<Rightarrow> u32 \<Rightarrow> u32 \<Rightarrow> 'w drv \<Rightarrow> (u32 \<times> 'w drv) option" where
  "ddev_write handle data cnt op_flag s =
     (let id = ddev_get_id_from_handle handle
      in if id = DD_ID_UNVALID then Some (DRV_FAILURE, s)
         else do {
           d \<leftarrow> aget (dev_tbl s) (unat id);
           case dv_op d of
             None \<Rightarrow> Some (DRV_FAILURE, s)
           | Some ops \<Rightarrow> (case op_write ops of
               None \<Rightarrow> Some (DRV_FAILURE, s)
             | Some f \<Rightarrow> do { (st, w) \<leftarrow> f data cnt op_flag (world s); Some (st, s\<lparr>world := w\<rparr>) })
         })"

definition ddev_control :: "u32 \<Rightarrow> u32 \<Rightarrow> u32 \<Rightarrow> 'w drv \<Rightarrow> (u32 \<times> u32 \<times> 'w drv) option" where
  "ddev_control handle cmd param s =
     (let id = ddev_get_id_from_handle handle
      in if id = DD_ID_UNVALID then Some (DRV_FAILURE, param, s)
         else do {
           d \<leftarrow> aget (dev_tbl s) (unat id);
           case dv_op d of
             None \<Rightarrow> Some (DRV_FAILURE, param, s)
           | Some ops \<Rightarrow> (case op_control ops of
               None \<Rightarrow> Some (DRV_FAILURE, param, s)
             | Some f \<Rightarrow> do { (st, param, w) \<leftarrow> f cmd param (world s); Some (st, param, s\<lparr>world := w\<rparr>) })
         })"

text \<open>The last assertion fails for a device without operations.\<close>

definition sddev_control :: "string option \<Rightarrow> u32 \<Rightarrow> u32 \<Rightarrow> 'w drv \<Rightarrow> (u32 \<times> u32 \<times> 'w drv) option" where
  "sddev_control dev_name cmd param s =
     do {
       name \<leftarrow> dev_name;
       found \<leftarrow> name_scan (sdev_name_at s) name (length name) 0 DD_MAX_SDEV;
       case found of
         None \<Rightarrow> None
       | Some i \<Rightarrow> do {
           d \<leftarrow> aget (sdev_tbl s) i;
           ops \<leftarrow> sdv_op d;
           case sop_control ops of
             None \<Rightarrow> Some (DRV_FAILURE, param, s)
           | Some f \<Rightarrow> do { (st, param, w) \<leftarrow> f cmd param (world s); Some (st, param, s\<lparr>world := w\<rparr>) }
         }
     }"

section \<open>Registration\<close>

fun free_scan_dev :: "'w drv_dev list \<Rightarrow> nat option" where
  "free_scan_dev [] = None"
| "free_scan_dev (d # ds) =
     (if dv_name d = None \<and> dv_state d = NODEVICE then Some 0 else map_option Suc (free_scan_dev ds))"

fun free_scan_sdev :: "'w drv_sdev list \<Rightarrow> nat option" where
  "free_scan_sdev [] = None"
| "free_scan_sdev (d # ds) =
     (if sdv_name d = None \<and> sdv_state d = NODEVICE then Some 0 else map_option Suc (free_scan_sdev ds))"

definition ddev_register_dev :: "string option \<Rightarrow> 'w dd_operations option \<Rightarrow> 'w drv \<Rightarrow> (u32 \<times> 'w drv) option" where
  "ddev_register_dev dev_name optr s =
     (if dev_name = None \<or> optr = None then Some (DRV_FAILURE, s)
      else do {
        i \<leftarrow> free_scan_dev (take DD_MAX_DEV (dev_tbl s));
        d \<leftarrow> aget (dev_tbl s) i;
        Some (DRV_SUCCESS, put_dev i (d\<lparr>dv_name := dev_name, dv_op := optr, dv_state := CLOSED\<rparr>) s)
      })"

definition sddev_register_dev :: "string option \<Rightarrow> 'w sdd_operations option \<Rightarrow> 'w drv \<Rightarrow> (u32 \<times> 'w drv) option" where
  "sddev_register_dev dev_name optr s =
     (if dev_name = None \<or> optr = None then Some (DRV_FAILURE, s)
      else do {
        i \<leftarrow> free_scan_sdev (take DD_MAX_SDEV (sdev_tbl s));
        d \<leftarrow> aget (sdev_tbl s) i;
        Some (DRV_SUCCESS, put_sdev i (d\<lparr>sdv_name := dev_name, sdv_op := optr, sdv_state := CLOSED\<rparr>) s)
      })"

text \<open>The bounds of the two loops are as in the code: each is that of the other table.\<close>

definition ddev_unregister_dev :: "string option \<Rightarrow> 'w drv \<Rightarrow> (u32 \<times> 'w drv) option" where
  "ddev_unregister_dev dev_name s =
     (case dev_name of
        None \<Rightarrow> Some (DRV_FAILURE, s)
      | Some name \<Rightarrow>
          if DD_MAX_NAME_LEN < length name then Some (DRV_FAILURE, s)
          else do {
            found \<leftarrow> name_scan (dev_name_at s) name (length name) 0 DD_MAX_SDEV;
            case found of
              None \<Rightarrow> None
            | Some i \<Rightarrow> do {
                d \<leftarrow> aget (dev_tbl s) i;
                Some (DRV_SUCCESS, put_dev i (d\<lparr>dv_name := None, dv_op := None, dv_state := NODEVICE\<rparr>) s)
              }
          })"

definition sddev_unregister_dev :: "string option \<Rightarrow> 'w drv \<Rightarrow> (u32 \<times> 'w drv) option" where
  "sddev_unregister_dev dev_name s =
     (case dev_name of
        None \<Rightarrow> Some (DRV_FAILURE, s)
      | Some name \<Rightarrow>
          if DD_MAX_NAME_LEN < length name then Some (DRV_FAILURE, s)
          else do {
            found \<leftarrow> name_scan (sdev_name_at s) name (length name) 0 DD_MAX_DEV;
            case found of
              None \<Rightarrow> None
            | Some i \<Rightarrow> do {
                d \<leftarrow> aget (sdev_tbl s) i;
                Some (DRV_SUCCESS, put_sdev i (d\<lparr>sdv_name := None, sdv_op := None, sdv_state := NODEVICE\<rparr>) s)
              }
          })"

section \<open>Devices in the table\<close>

text \<open>Device \<open>k\<close> has the name \<open>n\<close> and is the first that the search finds under it.\<close>

definition dev_at :: "'w drv \<Rightarrow> string \<Rightarrow> nat \<Rightarrow> bool" where
  "dev_at s n k \<longleftrightarrow> length (dev_tbl s) = DD_MAX_DEV \<and> k < DD_MAX_DEV \<and> length n \<le> DD_MAX_NAME_LEN \<and>
     dv_name (dev_tbl s ! k) = Some n \<and>
     (\<forall>j<k. \<exists>m. dv_name (dev_tbl s ! j) = Some m \<and> take (length n) m \<noteq> n)"

definition dev_handle :: "nat \<Rightarrow> u32" where
  "dev_handle k = of_nat k + DD_HANDLE_MAGIC_WORD"

lemma less_8_cases: "k < 8 \<Longrightarrow> k = 0 \<or> k = 1 \<or> k = 2 \<or> k = 3 \<or> k = 4 \<or> k = 5 \<or> k = 6 \<or> k = (7 :: nat)"
  by linarith

lemma handle_cases:
  "k < 8 \<Longrightarrow> ddev_make_handle (of_nat k) = dev_handle k \<and> ddev_get_id_from_handle (dev_handle k) = of_nat k \<and>
    ddev_check_handle (dev_handle k) = DRV_SUCCESS \<and> dev_handle k \<noteq> DD_HANDLE_UNVALID \<and>
    (of_nat k :: u32) \<noteq> DD_ID_UNVALID \<and> unat (of_nat k :: u32) = k"
  by (drule less_8_cases, elim disjE; hypsubst)
    (simp_all add: ddev_make_handle_def dev_handle_def ddev_get_id_from_handle_def ddev_check_handle_def dd_consts word_le_nat_alt)

lemma handles:
  assumes "k < DD_MAX_DEV"
  shows "ddev_make_handle (of_nat k) = dev_handle k" "ddev_get_id_from_handle (dev_handle k) = of_nat k"
    "ddev_check_handle (dev_handle k) = DRV_SUCCESS" "dev_handle k \<noteq> DD_HANDLE_UNVALID"
    "(of_nat k :: u32) \<noteq> DD_ID_UNVALID" "unat (of_nat k :: u32) = k"
  using handle_cases [OF assms [unfolded DD_MAX_DEV_def]] by blast+

lemma name_scan_hit:
  assumes "\<And>j. i \<le> j \<Longrightarrow> j < k \<Longrightarrow> \<exists>m. name_at j = Some (Some m) \<and> take len m \<noteq> take len n"
    and "name_at k = Some (Some n)" and "i \<le> k" "k < i + l"
  shows "name_scan name_at n len i l = Some (Some k)"
  using assms
proof (induction l arbitrary: i)
  case (Suc l)
  show ?case
  proof (cases "i = k")
    case True
    then show ?thesis using Suc.prems(2) by (simp add: strn_eq_def)
  next
    case False
    then obtain m where "name_at i = Some (Some m)" "take len m \<noteq> take len n" using Suc.prems(1,3) le_less by blast
    then show ?thesis using Suc.IH [of "Suc i"] Suc.prems False by (simp add: strn_eq_def)
  qed
qed simp

lemma name_scan_dev:
  assumes "dev_at s n k"
  shows "name_scan (dev_name_at s) n (length n) 0 DD_MAX_DEV = Some (Some k)"
proof (rule name_scan_hit)
  show "\<exists>m. dev_name_at s j = Some (Some m) \<and> take (length n) m \<noteq> take (length n) n" if "j < k" for j
  proof -
    have "j < length (dev_tbl s)" using assms that by (simp add: dev_at_def)
    then show ?thesis using assms that by (auto simp: dev_at_def dev_name_at_def aget_def)
  qed
qed (use assms in \<open>auto simp: dev_at_def dev_name_at_def aget_def\<close>)

lemma dev_at_put:
  assumes "dev_at s n k" and "dv_name d = dv_name (dev_tbl s ! i)"
  shows "dev_at ((put_dev i d s)\<lparr>world := w\<rparr>) n k" "dev_at (put_dev i d s) n k"
proof -
  have "dv_name ((dev_tbl s)[i := d] ! j) = dv_name (dev_tbl s ! j)" for j
    using assms(2) by (cases "i < length (dev_tbl s)") (auto simp: nth_list_update list_update_beyond)
  then show "dev_at ((put_dev i d s)\<lparr>world := w\<rparr>) n k" "dev_at (put_dev i d s) n k"
    using assms(1) by (simp_all add: dev_at_def put_dev_def)
qed

text \<open>Opening and closing a device found in the table; \<open>F\<close> and \<open>G\<close> are what its functions do.\<close>

definition open_does :: "'w drv_dev \<Rightarrow> u32 \<Rightarrow> ('w \<Rightarrow> 'w) \<Rightarrow> bool" where
  "open_does d flag F \<longleftrightarrow>
     (\<forall>w. \<exists>st. (case dv_op d of
        Some ops \<Rightarrow> (case op_open ops of Some f \<Rightarrow> f flag w | None \<Rightarrow> Some (DRV_FAILURE, w))
      | None \<Rightarrow> Some (DRV_FAILURE, w)) = Some (st, F w))"

definition close_does :: "'w drv_dev \<Rightarrow> ('w \<Rightarrow> 'w) \<Rightarrow> bool" where
  "close_does d G \<longleftrightarrow>
     (\<forall>w. \<exists>st. (case dv_op d of
        Some ops \<Rightarrow> (case op_close ops of Some f \<Rightarrow> f w | None \<Rightarrow> Some (0, w))
      | None \<Rightarrow> Some (0, w)) = Some (st, G w))"

lemma ddev_open_first:
  assumes d: "dev_at s n k" "dv_state (dev_tbl s ! k) = CLOSED" and F: "open_does (dev_tbl s ! k) flag F"
  shows "\<exists>st'. ddev_open (Some n) (Some st) flag s = Some (dev_handle k, Some st',
    (put_dev k ((dev_tbl s ! k)\<lparr>dv_state := OPENED, use_cnt := 1\<rparr>) s)\<lparr>world := F (world s)\<rparr>)"
proof -
  have k: "k < DD_MAX_DEV" "length (dev_tbl s) = DD_MAX_DEV" "length n \<le> DD_MAX_NAME_LEN"
    using d(1) by (simp_all add: dev_at_def)
  obtain st' where "(case dv_op (dev_tbl s ! k) of
        Some ops \<Rightarrow> (case op_open ops of Some f \<Rightarrow> f flag (world s) | None \<Rightarrow> Some (DRV_FAILURE, world s))
      | None \<Rightarrow> Some (DRV_FAILURE, world s)) = Some (st', F (world s))" using F unfolding open_does_def by blast
  then show ?thesis using k d(2) name_scan_dev [OF d(1)] handles [OF k(1)]
    by (simp add: ddev_open_def aget_def Let_def)
qed

lemma ddev_open_again:
  assumes d: "dev_at s n k" "dv_state (dev_tbl s ! k) = OPENED"
  shows "ddev_open (Some n) (Some st) flag s = Some (dev_handle k, Some DRV_FAILURE,
    put_dev k ((dev_tbl s ! k)\<lparr>use_cnt := use_cnt (dev_tbl s ! k) + 1\<rparr>) s)"
proof -
  have k: "k < DD_MAX_DEV" "length (dev_tbl s) = DD_MAX_DEV" "length n \<le> DD_MAX_NAME_LEN"
    using d(1) by (simp_all add: dev_at_def)
  have "(put_dev k d s)\<lparr>world := world s\<rparr> = put_dev k d s" for d by (simp add: put_dev_def)
  then show ?thesis using k d(2) name_scan_dev [OF d(1)] handles [OF k(1)]
    by (simp add: ddev_open_def aget_def Let_def)
qed

lemma ddev_close_more:
  assumes "k < DD_MAX_DEV" "length (dev_tbl s) = DD_MAX_DEV" "use_cnt (dev_tbl s ! k) \<noteq> 1"
  shows "ddev_close (dev_handle k) s = Some (DRV_SUCCESS, put_dev k ((dev_tbl s ! k)\<lparr>use_cnt := use_cnt (dev_tbl s ! k) - 1\<rparr>) s)"
  using assms handles [OF assms(1)] by (simp add: ddev_close_def aget_def Let_def)

lemma ddev_close_last:
  fixes s :: "'w drv"
  assumes "k < DD_MAX_DEV" "length (dev_tbl s) = DD_MAX_DEV" "use_cnt (dev_tbl s ! k) = 1"
    and "close_does (dev_tbl s ! k) G"
  shows "ddev_close (dev_handle k) s = Some (DRV_SUCCESS,
    (put_dev k ((dev_tbl s ! k)\<lparr>use_cnt := 0, dv_state := CLOSED\<rparr>) s)\<lparr>world := G (world s)\<rparr>)"
proof -
  obtain st' where "(case dv_op (dev_tbl s ! k) of
        Some ops \<Rightarrow> (case op_close ops of Some f \<Rightarrow> f (world s) | None \<Rightarrow> Some (0, world s))
      | None \<Rightarrow> Some (0, world s)) = Some (st', G (world s))" using assms(4) unfolding close_does_def by blast
  then show ?thesis using assms(1-3) handles [OF assms(1)]
    by (simp add: ddev_close_def aget_def Let_def)
qed

section \<open>The use count\<close>

text \<open>
  A history of one device: each step opens it with a flag or closes it. The specification only counts
  the users: the first one opens the driver, the last one closes it.
\<close>

datatype dev_cmd = DOpen u32 | DClose

fun dev_step :: "string \<Rightarrow> u32 \<Rightarrow> dev_cmd \<Rightarrow> 'w drv \<Rightarrow> 'w drv option" where
  "dev_step n handle (DOpen flag) s =
     do { (hd, st, s) \<leftarrow> ddev_open (Some n) (Some 0) flag s; if hd = handle then Some s else None }"
| "dev_step n handle DClose s = do { (r, s) \<leftarrow> ddev_close handle s; Some s }"

fun dev_run :: "string \<Rightarrow> u32 \<Rightarrow> dev_cmd list \<Rightarrow> 'w drv \<Rightarrow> 'w drv option" where
  "dev_run n handle [] s = Some s"
| "dev_run n handle (c # cs) s = do { s \<leftarrow> dev_step n handle c s; dev_run n handle cs s }"

fun use_spec :: "(u32 \<Rightarrow> 'w \<Rightarrow> 'w) \<Rightarrow> ('w \<Rightarrow> 'w) \<Rightarrow> dev_cmd list \<Rightarrow> nat \<times> 'w \<Rightarrow> nat \<times> 'w" where
  "use_spec F G [] cw = cw"
| "use_spec F G (DOpen flag # cs) (c, w) = use_spec F G cs (Suc c, if c = 0 then F flag w else w)"
| "use_spec F G (DClose # cs) (c, w) = use_spec F G cs (c - 1, if c = 1 then G w else w)"

text \<open>No step closes what is not open, and the count fits into its word.\<close>

fun use_ok :: "dev_cmd list \<Rightarrow> nat \<Rightarrow> bool" where
  "use_ok [] c = True"
| "use_ok (DOpen flag # cs) c = (Suc c < 2 ^ 32 \<and> use_ok cs (Suc c))"
| "use_ok (DClose # cs) c = (0 < c \<and> use_ok cs (c - 1))"

definition used :: "nat \<Rightarrow> 'w drv_dev \<Rightarrow> bool" where
  "used c d \<longleftrightarrow> dv_state d = (if c = 0 then CLOSED else OPENED) \<and> c < 2 ^ 32 \<and> (0 < c \<longrightarrow> use_cnt d = of_nat c)"

definition same_driver :: "nat \<Rightarrow> 'w drv \<Rightarrow> 'w drv \<Rightarrow> bool" where
  "same_driver k s t \<longleftrightarrow> length (dev_tbl t) = length (dev_tbl s) \<and> sdev_tbl t = sdev_tbl s \<and>
     (\<forall>j. j \<noteq> k \<longrightarrow> dev_tbl t ! j = dev_tbl s ! j) \<and>
     dv_op (dev_tbl t ! k) = dv_op (dev_tbl s ! k) \<and> dv_name (dev_tbl t ! k) = dv_name (dev_tbl s ! k)"

lemma same_driver_refl [simp]: "same_driver k s s"
  by (simp add: same_driver_def)

lemma same_driver_trans: "same_driver k s t \<Longrightarrow> same_driver k t u \<Longrightarrow> same_driver k s u"
  by (auto simp: same_driver_def)

lemma same_driver_put:
  assumes "k < length (dev_tbl s)" "dv_op d = dv_op (dev_tbl s ! k)" "dv_name d = dv_name (dev_tbl s ! k)"
  shows "same_driver k s (put_dev k d s)" "same_driver k s ((put_dev k d s)\<lparr>world := w\<rparr>)"
  using assms by (auto simp: same_driver_def put_dev_def)

lemma put_dev_at:
  "k < length (dev_tbl s) \<Longrightarrow> dev_tbl (put_dev k d s) ! k = d"
  "k < length (dev_tbl s) \<Longrightarrow> dev_tbl ((put_dev k d s)\<lparr>world := w\<rparr>) ! k = d"
  by (simp_all add: put_dev_def)

lemma put_dev_world [simp]: "world (put_dev k d s) = world s"
  by (simp add: put_dev_def)

lemma dev_step_use:
  assumes d: "dev_at s n k" "used c (dev_tbl s ! k)"
    and F: "\<And>flag. open_does (dev_tbl s ! k) flag (F flag)" and G: "close_does (dev_tbl s ! k) G"
    and ok: "use_ok [e] c"
  shows "\<exists>t. dev_step n (dev_handle k) e s = Some t \<and> dev_at t n k \<and> same_driver k s t \<and>
    (let (c', w) = use_spec F G [e] (c, world s) in used c' (dev_tbl t ! k) \<and> world t = w)"
proof -
  have k: "k < DD_MAX_DEV" "length (dev_tbl s) = DD_MAX_DEV" using d(1) by (simp_all add: dev_at_def)
  then have kl: "k < length (dev_tbl s)" by simp
  show ?thesis
  proof (cases e)
    case [simp]: (DOpen flag)
    show ?thesis
    proof (cases "c = 0")
      case True
      then have c: "dv_state (dev_tbl s ! k) = CLOSED" using d(2) by (simp add: used_def)
      obtain st' where "ddev_open (Some n) (Some 0) flag s = Some (dev_handle k, Some st',
          (put_dev k ((dev_tbl s ! k)\<lparr>dv_state := OPENED, use_cnt := 1\<rparr>) s)\<lparr>world := F flag (world s)\<rparr>)"
        using ddev_open_first [OF d(1) c F] by blast
      then show ?thesis using True kl
        by (auto simp: dev_at_put(1) [OF d(1)] same_driver_put(2) [OF kl] put_dev_at used_def)
    next
      case False
      then have c: "dv_state (dev_tbl s ! k) = OPENED" using d(2) by (simp add: used_def)
      show ?thesis using False ok kl d(2) ddev_open_again [OF d(1) c, of 0 flag]
        by (auto simp: dev_at_put(2) [OF d(1)] same_driver_put(1) [OF kl] put_dev_at used_def)
    qed
  next
    case [simp]: DClose
    have c: "0 < c" "c < 2 ^ 32" "use_cnt (dev_tbl s ! k) = of_nat c" "dv_state (dev_tbl s ! k) = OPENED"
      using ok d(2) by (simp_all add: used_def)
    show ?thesis
    proof (cases "c = 1")
      case True
      then show ?thesis using kl c ddev_close_last [OF k _ G]
        by (auto simp: dev_at_put(1) [OF d(1)] same_driver_put(2) [OF kl] put_dev_at used_def)
    next
      case False
      then have "use_cnt (dev_tbl s ! k) \<noteq> 1" using c of_nat_u32_eq [of c 1] by simp
      then show ?thesis using False kl c ddev_close_more [OF k]
        by (auto simp: dev_at_put(2) [OF d(1)] same_driver_put(1) [OF kl] put_dev_at used_def of_nat_diff)
    qed
  qed
qed

lemma dev_run_use:
  assumes "dev_at s n k" "used c (dev_tbl s ! k)"
    and "\<And>flag. open_does (dev_tbl s ! k) flag (F flag)" and "close_does (dev_tbl s ! k) G"
    and "use_ok es c"
  shows "\<exists>t. dev_run n (dev_handle k) es s = Some t \<and> dev_at t n k \<and> same_driver k s t \<and>
    used (fst (use_spec F G es (c, world s))) (dev_tbl t ! k) \<and> world t = snd (use_spec F G es (c, world s))"
  using assms
proof (induction es arbitrary: s c)
  case (Cons e es)
  have ok: "use_ok [e] c" using Cons.prems(5) by (cases e) auto
  obtain s1 where s1: "dev_step n (dev_handle k) e s = Some s1" "dev_at s1 n k" "same_driver k s s1"
    "used (fst (use_spec F G [e] (c, world s))) (dev_tbl s1 ! k)" "world s1 = snd (use_spec F G [e] (c, world s))"
    using dev_step_use [OF Cons.prems(1-4) ok] by (auto simp: case_prod_beta)
  define c1 where "c1 = fst (use_spec F G [e] (c, world s))"
  have sp: "use_spec F G (e # es) (c, world s) = use_spec F G es (c1, world s1)"
    unfolding c1_def s1(5) by (cases e) auto
  have "use_ok es c1" using Cons.prems(5) unfolding c1_def by (cases e) auto
  moreover have "dv_op (dev_tbl s1 ! k) = dv_op (dev_tbl s ! k)" using s1(3) by (simp add: same_driver_def)
  then have "\<And>flag. open_does (dev_tbl s1 ! k) flag (F flag)" "close_does (dev_tbl s1 ! k) G"
    using Cons.prems(3,4) by (simp_all add: open_does_def close_does_def)
  ultimately obtain t where t: "dev_run n (dev_handle k) es s1 = Some t" "dev_at t n k" "same_driver k s1 t"
    "used (fst (use_spec F G es (c1, world s1))) (dev_tbl t ! k)" "world t = snd (use_spec F G es (c1, world s1))"
    using Cons.IH [OF s1(2) s1(4) [folded c1_def]] by blast
  then show ?case unfolding sp using s1(1) same_driver_trans [OF s1(3)] by (intro exI [of _ t]) simp
qed simp

section \<open>Registering\<close>

definition free_dev :: "'w drv_dev \<Rightarrow> bool" where
  "free_dev d \<longleftrightarrow> dv_name d = None \<and> dv_state d = NODEVICE"

lemma free_scan_dev_first:
  "k < length ds \<Longrightarrow> free_dev (ds ! k) \<Longrightarrow> (\<And>j. j < k \<Longrightarrow> \<not> free_dev (ds ! j)) \<Longrightarrow> free_scan_dev ds = Some k"
proof (induction ds arbitrary: k)
  case (Cons d ds)
  show ?case
  proof (cases k)
    case (Suc i)
    have "free_scan_dev ds = Some i" using Cons.prems Suc by (intro Cons.IH) (auto, fastforce)
    then show ?thesis using Cons.prems(3) [of 0] Suc by (auto simp: free_dev_def)
  qed (use Cons.prems in \<open>simp add: free_dev_def\<close>)
qed simp

lemma ddev_register_ok:
  assumes "length (dev_tbl s) = DD_MAX_DEV" "k < DD_MAX_DEV" "length n \<le> DD_MAX_NAME_LEN"
    and free: "free_dev (dev_tbl s ! k)"
    and before: "\<And>j. j < k \<Longrightarrow> \<exists>m. dv_name (dev_tbl s ! j) = Some m \<and> take (length n) m \<noteq> n"
  shows "\<exists>t. ddev_register_dev (Some n) (Some ops) s = Some (DRV_SUCCESS, t) \<and> dev_at t n k \<and>
    used 0 (dev_tbl t ! k) \<and> dv_op (dev_tbl t ! k) = Some ops \<and> world t = world s \<and> sdev_tbl t = sdev_tbl s \<and>
    (\<forall>j. j \<noteq> k \<longrightarrow> dev_tbl t ! j = dev_tbl s ! j)"
proof -
  have "\<not> free_dev (dev_tbl s ! j)" if "j < k" for j using before [OF that] by (auto simp: free_dev_def)
  then have "free_scan_dev (dev_tbl s) = Some k"
    using assms(1,2) free by (intro free_scan_dev_first) auto
  then have "free_scan_dev (take DD_MAX_DEV (dev_tbl s)) = Some k" using assms(1) by simp
  then show ?thesis using assms(1-3) before
    by (auto simp: ddev_register_dev_def aget_def put_dev_def dev_at_def used_def)
qed

text \<open>The search over entries that all have names, as a search in a list.\<close>

lemma name_scan_find:
  assumes "\<And>j. i \<le> j \<Longrightarrow> j < i + l \<Longrightarrow> name_at j = Some (Some (nm j))"
  shows "name_scan name_at n len i l = Some (find (\<lambda>j. take len (nm j) = take len n) [i..<i + l])"
  using assms
proof (induction l arbitrary: i)
  case (Suc l)
  have "[i..<i + Suc l] = i # [Suc i..<Suc i + l]" by (simp add: upt_conv_Cons)
  moreover have "name_at i = Some (Some (nm i))" using Suc.prems [of i] by simp
  ultimately show ?case using Suc.IH [of "Suc i"] Suc.prems by (simp add: strn_eq_def)
qed simp

section \<open>Properties\<close>

text \<open>
  C24. Opening and closing a device counts its users. Register a driver with open and close functions
  in the first free entry of the table, under a name that no name before it begins with. Then every
  history of opens and closes (never closing more than was opened, fewer than \<open>2 ^ 32\<close> users) runs
  without a failed assertion, every open returns the same handle, and the driver's own functions run
  exactly as the counting specification says: open at the first user with that user's flag, close at
  the last one, nothing in between. The entry is in state \<^verbatim>\<open>OPENED\<close> exactly while there are users, and no other
  entry changes.
\<close>

theorem drv_use_count:
  assumes "length (dev_tbl s) = DD_MAX_DEV" "k < DD_MAX_DEV" "length n \<le> DD_MAX_NAME_LEN" "free_dev (dev_tbl s ! k)"
    and "\<And>j. j < k \<Longrightarrow> \<exists>m. dv_name (dev_tbl s ! j) = Some m \<and> take (length n) m \<noteq> n"
    and op: "op_open ops = Some (\<lambda>flag w. Some (st, F flag w))" "op_close ops = Some (\<lambda>w. Some (st', G w))"
    and "use_ok es 0"
  shows "\<exists>s0 t. ddev_register_dev (Some n) (Some ops) s = Some (DRV_SUCCESS, s0) \<and>
    dev_run n (dev_handle k) es s0 = Some t \<and> same_driver k s0 t \<and> dv_op (dev_tbl t ! k) = Some ops \<and>
    (let (users, w) = use_spec F G es (0, world s)
     in world t = w \<and> dv_state (dev_tbl t ! k) = (if users = 0 then CLOSED else OPENED) \<and>
        (0 < users \<longrightarrow> unat (use_cnt (dev_tbl t ! k)) = users))"
proof -
  obtain s0 where s0: "ddev_register_dev (Some n) (Some ops) s = Some (DRV_SUCCESS, s0)" "dev_at s0 n k"
    "used 0 (dev_tbl s0 ! k)" "dv_op (dev_tbl s0 ! k) = Some ops" "world s0 = world s"
    using ddev_register_ok [OF assms(1-5)] by blast
  have "open_does (dev_tbl s0 ! k) flag (F flag)" "close_does (dev_tbl s0 ! k) G" for flag
    using s0(4) op by (simp_all add: open_does_def close_does_def)
  then obtain t where t: "dev_run n (dev_handle k) es s0 = Some t" "same_driver k s0 t"
    "used (fst (use_spec F G es (0, world s))) (dev_tbl t ! k)" "world t = snd (use_spec F G es (0, world s))"
    using dev_run_use [OF s0(2,3) _ _ assms(8)] s0(5) by metis
  show ?thesis using s0 t by (auto simp: used_def same_driver_def case_prod_beta unat_u32)
qed

definition log_ops :: "(u32 list) dd_operations" where
  "log_ops = \<lparr>op_open = Some (\<lambda>flag w. Some (0, w @ [flag])), op_close = Some (\<lambda>w. Some (0, w @ [99])),
     op_read = None, op_write = None, op_control = None\<rparr>"

theorem drv_use_count_witness:
  "\<exists>s0 t. ddev_register_dev (Some ''ab'') (Some log_ops) (snd (drv_model_init \<lparr>dev_tbl = [], sdev_tbl = [], world = []\<rparr>)) = Some (DRV_SUCCESS, s0) \<and>
    dev_run ''ab'' (dev_handle 0) [DOpen 5, DOpen 6, DClose, DClose, DOpen 7] s0 = Some t \<and> same_driver 0 s0 t \<and> dv_op (dev_tbl t ! 0) = Some log_ops \<and>
    (let (users, w) = use_spec (\<lambda>flag w. w @ [flag]) (\<lambda>w. w @ [99]) [DOpen 5, DOpen 6, DClose, DClose, DOpen 7]
        (0, world (snd (drv_model_init \<lparr>dev_tbl = [], sdev_tbl = [], world = []\<rparr>)))
     in world t = w \<and> dv_state (dev_tbl t ! 0) = (if users = 0 then CLOSED else OPENED) \<and>
        (0 < users \<longrightarrow> unat (use_cnt (dev_tbl t ! 0)) = users))"
  by (rule drv_use_count [where st = 0 and st' = 0])
    (simp_all add: drv_model_init_def dd_consts log_ops_def free_dev_def zero_dev_def)

text \<open>
  The search that unregisters a simple device stops after 8 of the 16 entries. With all 16 entries
  in use it returns exactly when one of the first 8 has a name that begins with the given one;
  otherwise it ends in the endless loop of a failed assertion, also for a device that is registered.
\<close>

theorem sddev_unregister_outcome:
  assumes "length (sdev_tbl s) = DD_MAX_SDEV" "\<forall>d \<in> set (sdev_tbl s). sdv_name d \<noteq> None" "length n \<le> DD_MAX_NAME_LEN"
  shows "(\<exists>t. sddev_unregister_dev (Some n) s = Some (DRV_SUCCESS, t)) \<longleftrightarrow>
    (\<exists>i < 8. take (length n) (the (sdv_name (sdev_tbl s ! i))) = n)"
proof -
  have at: "\<exists>m. sdev_name_at s i = Some (Some m) \<and> sdv_name (sdev_tbl s ! i) = Some m" if "i < 16" for i
  proof -
    have "sdev_tbl s ! i \<in> set (sdev_tbl s)" using assms(1) that by (simp add: DD_MAX_SDEV_def)
    then show ?thesis using assms(1,2) that by (auto simp: sdev_name_at_def aget_def DD_MAX_SDEV_def)
  qed
  have names: "sdev_name_at s j = Some (Some (the (sdv_name (sdev_tbl s ! j))))" if "j < 8" for j
    using at [of j] that by auto
  have "name_scan (sdev_name_at s) n (length n) 0 8 =
      Some (find (\<lambda>j. take (length n) (the (sdv_name (sdev_tbl s ! j))) = take (length n) n) [0..<0 + 8])"
    by (rule name_scan_find) (use names in simp)
  then show ?thesis using assms(1,3)
    by (auto simp: sddev_unregister_dev_def DD_MAX_DEV_def DD_MAX_SDEV_def aget_def find_None_iff find_Some_iff split: option.splits)
qed

definition full_sdevs :: "unit drv" where
  "full_sdevs = \<lparr>dev_tbl = [], sdev_tbl = replicate 8 (zero_sdev\<lparr>sdv_name := Some ''gpio''\<rparr>) @
     replicate 8 (zero_sdev\<lparr>sdv_name := Some ''icu''\<rparr>), world = ()\<rparr>"

theorem sddev_unregister_outcome_witness:
  "(\<exists>t. sddev_unregister_dev (Some ''gp'') full_sdevs = Some (DRV_SUCCESS, t)) \<and>
   \<not> (\<exists>t. sddev_unregister_dev (Some ''icu'') full_sdevs = Some (DRV_SUCCESS, t))"
proof -
  have h: "length (sdev_tbl full_sdevs) = DD_MAX_SDEV" "\<forall>d \<in> set (sdev_tbl full_sdevs). sdv_name d \<noteq> None"
    by (auto simp: full_sdevs_def DD_MAX_SDEV_def)
  have n: "the (sdv_name (sdev_tbl full_sdevs ! i)) = ''gpio''" if "i < 8" for i
    using that by (simp add: full_sdevs_def nth_append)
  have "\<exists>i < 8. take (length ''gp'') (the (sdv_name (sdev_tbl full_sdevs ! i))) = ''gp''"
    by (rule exI [of _ 0]) (simp add: n)
  moreover have "\<not> (\<exists>i < 8. take (length ''icu'') (the (sdv_name (sdev_tbl full_sdevs ! i))) = ''icu'')"
    by (auto simp: n)
  ultimately show ?thesis
    using sddev_unregister_outcome [OF h, of "''gp''"] sddev_unregister_outcome [OF h, of "''icu''"]
    by (simp add: DD_MAX_NAME_LEN_def)
qed

end
