(* ===== verification/FlashDrv.thy ===== *)
theory FlashDrv
  imports DrvModel
begin

text \<open>
  The driver of the NOR flash, \<^verbatim>\<open>driver/flash/flash.c\<close>, register by register. The flash controller is
  hardware: it is a parameter \<open>hw\<close> of the definitions, which says what reading and writing a register
  gives and does to the state \<open>h\<close> of the chip. What its manual promises is stated in FlashSpec.

  A loop that waits for the busy bit may never end, so it is a \<^verbatim>\<open>partial_function\<close>; \<open>None\<close> also stands
  for the use of the configuration pointer before it is set. Disabling interrupts is not modelled: no
  operation of the model is interrupted.
\<close>

section \<open>Registers\<close>

datatype flash_reg =
    REG_FLASH_OPERATE_SW
  | REG_FLASH_DATA_SW_FLASH
  | REG_FLASH_DATA_FLASH_SW
  | REG_FLASH_RDID_DATA_FLASH
  | REG_FLASH_SR_DATA_CRC_CNT
  | REG_FLASH_CONF

record 'h flash_hw =
  hw_rd :: "flash_reg \<Rightarrow> 'h \<Rightarrow> u32 \<times> 'h"
  hw_wr :: "flash_reg \<Rightarrow> u32 \<Rightarrow> 'h \<Rightarrow> 'h"

datatype flash_opcode =
    FLASH_OPCODE_WREN | FLASH_OPCODE_WRDI | FLASH_OPCODE_RDSR | FLASH_OPCODE_WRSR | FLASH_OPCODE_READ
  | FLASH_OPCODE_RDSR2 | FLASH_OPCODE_WRSR2 | FLASH_OPCODE_PP | FLASH_OPCODE_SE | FLASH_OPCODE_RDID
  | FLASH_OPCODE_HPM | FLASH_OPCODE_CRMR

fun opcode :: "flash_opcode \<Rightarrow> u32" where
  "opcode FLASH_OPCODE_WREN = 1"
| "opcode FLASH_OPCODE_WRDI = 2"
| "opcode FLASH_OPCODE_RDSR = 3"
| "opcode FLASH_OPCODE_WRSR = 4"
| "opcode FLASH_OPCODE_READ = 5"
| "opcode FLASH_OPCODE_RDSR2 = 6"
| "opcode FLASH_OPCODE_WRSR2 = 7"
| "opcode FLASH_OPCODE_PP = 12"
| "opcode FLASH_OPCODE_SE = 13"
| "opcode FLASH_OPCODE_RDID = 20"
| "opcode FLASH_OPCODE_HPM = 21"
| "opcode FLASH_OPCODE_CRMR = 22"

definition ADDR_SW_REG_MASK :: u32 where "ADDR_SW_REG_MASK = 0x00FFFFFF"
definition OP_SW :: u32 where "OP_SW = push_bit 29 1"
definition WP_VALUE :: u32 where "WP_VALUE = push_bit 30 1"
definition BUSY_SW :: u32 where "BUSY_SW = push_bit 31 1"

text \<open>\<^verbatim>\<open>(op << OP_TYPE_SW_POSI) | OP_SW\<close>, the part common to all commands.\<close>

definition op_bits :: "flash_opcode \<Rightarrow> u32" where
  "op_bits op = push_bit 24 (opcode op) OR OP_SW"

record flash_config =
  cfg_flash_id :: u32
  sr_size :: u8
  flash_size :: u32
  line_mode :: u8
  cmp_post :: u8
  protect_post :: u8
  protect_mask :: u8
  protect_all :: u16
  protect_none :: u16
  protect_half :: u16
  unprotect_last_block :: u16
  qe_bit_post :: u8
  qe_bit :: u8
  m_value :: u8
  mode_sel :: u8

definition flash_cfg :: "u32 \<Rightarrow> u8 \<Rightarrow> u32 \<Rightarrow> u8 \<Rightarrow> u8 \<Rightarrow> u8 \<Rightarrow> u8 \<Rightarrow> u16 \<Rightarrow> u16 \<Rightarrow> u16 \<Rightarrow> u16 \<Rightarrow> u8 \<Rightarrow> u8 \<Rightarrow> u8 \<Rightarrow> u8 \<Rightarrow> flash_config" where
  "flash_cfg i sr sz lm cp pp pm pa pn ph ul qp qb mv ms =
     \<lparr>cfg_flash_id = i, sr_size = sr, flash_size = sz, line_mode = lm, cmp_post = cp, protect_post = pp,
      protect_mask = pm, protect_all = pa, protect_none = pn, protect_half = ph, unprotect_last_block = ul,
      qe_bit_post = qp, qe_bit = qb, m_value = mv, mode_sel = ms\<rparr>"

definition flash_config_tbl :: "flash_config list" where
  "flash_config_tbl =
    [flash_cfg 0x1C7016 1 0x400000 2 0 2 0x1F 0x1F 0x00 0x16 0x01B 0 0 0xA5 0x01,
     flash_cfg 0x1C7015 1 0x200000 2 0 2 0x1F 0x1F 0x00 0x0d 0x0d 0 0 0xA5 0x01,
     flash_cfg 0x0B4014 2 0x100000 2 14 2 0x1F 0x1F 0x00 0x0C 0x101 9 1 0xA0 0x01,
     flash_cfg 0x0B4015 2 0x200000 2 14 2 0x1F 0x1F 0x00 0x0D 0x101 9 1 0xA0 0x01,
     flash_cfg 0x0B4016 2 0x400000 2 14 2 0x1F 0x1F 0x00 0x0E 0x101 9 1 0xA0 0x01,
     flash_cfg 0x0E4016 2 0x400000 2 14 2 0x1F 0x1F 0x00 0x0E 0x101 9 1 0xA0 0x01,
     flash_cfg 0xC84015 2 0x200000 2 14 2 0x1F 0x1F 0x00 0x0D 0x101 9 1 0xA0 0x01,
     flash_cfg 0xC84016 2 0x400000 2 14 2 0x1F 0x1F 0x00 0x0E 0x101 9 1 0xA0 0x01,
     flash_cfg 0xC86015 2 0x200000 2 14 2 0x1F 0x1F 0x00 0x0D 0x101 9 1 0xA0 0x01,
     flash_cfg 0xEF4016 2 0x400000 2 14 2 0x1F 0x1F 0x00 0x00 0x101 9 1 0xA0 0x01,
     flash_cfg 0x204016 2 0x400000 2 14 2 0x1F 0x1F 0x00 0x0E 0x101 9 1 0xA0 0x01,
     flash_cfg 0xC22315 1 0x200000 2 0 2 0x0F 0x0F 0x00 0x0A 0x00E 6 1 0xA5 0x01,
     flash_cfg 0xEB6015 2 0x200000 2 14 2 0x1F 0x1F 0x00 0x0D 0x101 9 1 0xA0 0x01,
     flash_cfg 0x000000 2 0x400000 2 0 2 0x1F 0x00 0x00 0x00 0x000 0 0 0x00 0x01]"

text \<open>
  The state of the driver: the chip, \<^verbatim>\<open>flash_id\<close>, the configuration \<^verbatim>\<open>flash_current_config\<close> points to,
  and the count of peripherals that keep the processor awake.
\<close>

record 'h flash_drv =
  fl_hw :: 'h
  flash_id :: u32
  flash_current_config :: "flash_config option"
  peri_busy_count :: u32

text \<open>The search stops before the last entry, which is the default.\<close>

fun config_scan :: "u32 \<Rightarrow> flash_config list \<Rightarrow> flash_config option" where
  "config_scan fid [] = None"
| "config_scan fid [c] = Some c"
| "config_scan fid (c # cs) = (if fid = cfg_flash_id c then Some c else config_scan fid cs)"

definition flash_get_current_flash_config :: "'h flash_drv \<Rightarrow> 'h flash_drv" where
  "flash_get_current_flash_config s = s\<lparr>flash_current_config := config_scan (flash_id s) flash_config_tbl\<rparr>"

section \<open>Register sequences\<close>

partial_function (option) wait_busy :: "'h flash_hw \<Rightarrow> 'h \<Rightarrow> 'h option" where
  "wait_busy hw h =
     (let (v, h) = hw_rd hw REG_FLASH_OPERATE_SW h
      in if v AND BUSY_SW \<noteq> 0 then wait_busy hw h else Some h)"

declare wait_busy.simps [code]

text \<open>Write a command, wait until it is done.\<close>

definition flash_operate :: "'h flash_hw \<Rightarrow> u32 \<Rightarrow> 'h \<Rightarrow> 'h option" where
  "flash_operate hw v h = wait_busy hw (hw_wr hw REG_FLASH_OPERATE_SW v h)"

definition conf_field :: "'h flash_hw \<Rightarrow> u32 \<Rightarrow> nat \<Rightarrow> u32 \<Rightarrow> 'h \<Rightarrow> 'h" where
  "conf_field hw msk posi v h =
     (let (value, h) = hw_rd hw REG_FLASH_CONF h;
          value = value AND NOT (push_bit posi msk);
          value = value OR push_bit posi v
      in hw_wr hw REG_FLASH_CONF value h)"

definition flash_set_clk :: "'h flash_hw \<Rightarrow> u8 \<Rightarrow> 'h \<Rightarrow> 'h" where
  "flash_set_clk hw clk_conf h = conf_field hw 0x0F 0 (ucast clk_conf) h"

definition flash_enable_cpu_data_wr :: "'h flash_hw \<Rightarrow> 'h \<Rightarrow> 'h" where
  "flash_enable_cpu_data_wr hw h =
     (let (value, h) = hw_rd hw REG_FLASH_CONF h; value = value OR push_bit 9 1
      in hw_wr hw REG_FLASH_CONF value h)"

definition flash_disable_cpu_data_wr :: "'h flash_hw \<Rightarrow> 'h \<Rightarrow> 'h" where
  "flash_disable_cpu_data_wr hw h =
     (let (value, h) = hw_rd hw REG_FLASH_CONF h; value = value AND NOT (push_bit 9 1)
      in hw_wr hw REG_FLASH_CONF value h)"

definition flash_write_enable :: "'h flash_hw \<Rightarrow> 'h \<Rightarrow> 'h option" where
  "flash_write_enable hw h = flash_operate hw (op_bits FLASH_OPCODE_WREN OR WP_VALUE) h"

definition flash_write_disable :: "'h flash_hw \<Rightarrow> 'h \<Rightarrow> 'h option" where
  "flash_write_disable hw h = flash_operate hw (op_bits FLASH_OPCODE_WRDI OR WP_VALUE) h"

definition flash_read_sr :: "'h flash_hw \<Rightarrow> u8 \<Rightarrow> 'h \<Rightarrow> (u16 \<times> 'h) option" where
  "flash_read_sr hw sr_width h =
     do {
       h \<leftarrow> wait_busy hw h;
       h \<leftarrow> flash_operate hw (op_bits FLASH_OPCODE_RDSR OR WP_VALUE) h;
       let (value, h) = hw_rd hw REG_FLASH_SR_DATA_CRC_CNT h;
       let sr = ucast (value AND 0x00FF);
       if sr_width = 2
       then do {
         h \<leftarrow> flash_operate hw (op_bits FLASH_OPCODE_RDSR2 OR WP_VALUE) h;
         let (value, h) = hw_rd hw REG_FLASH_SR_DATA_CRC_CNT h;
         Some (sr OR ucast (push_bit 8 (value AND 0x00FF)), h)
       }
       else Some (sr, h)
     }"

definition flash_write_sr :: "'h flash_hw \<Rightarrow> u8 \<Rightarrow> u16 \<Rightarrow> 'h \<Rightarrow> 'h option" where
  "flash_write_sr hw sr_width val h =
     do {
       h \<leftarrow> wait_busy hw h;
       let h = conf_field hw 0x00FFFF 10 (ucast val) h;
       h \<leftarrow> wait_busy hw h;
       let h = (if sr_width = 1 then hw_wr hw REG_FLASH_OPERATE_SW (op_bits FLASH_OPCODE_WRSR OR WP_VALUE) h
                else if sr_width = 2 then hw_wr hw REG_FLASH_OPERATE_SW (op_bits FLASH_OPCODE_WRSR2 OR WP_VALUE) h
                else h);
       wait_busy hw h
     }"

definition flash_read_qe :: "'h flash_hw \<Rightarrow> flash_config \<Rightarrow> 'h \<Rightarrow> (u8 \<times> 'h) option" where
  "flash_read_qe hw cfg h =
     do {
       h \<leftarrow> flash_operate hw (op_bits (if sr_size cfg = 1 then FLASH_OPCODE_RDSR else FLASH_OPCODE_RDSR2) OR WP_VALUE) h;
       let (value, h) = hw_rd hw REG_FLASH_SR_DATA_CRC_CNT h;
       Some (ucast (value AND 0xFF), h)
     }"

definition flash_set_qe :: "'h flash_hw \<Rightarrow> flash_config \<Rightarrow> 'h \<Rightarrow> 'h option" where
  "flash_set_qe hw cfg h =
     do {
       h \<leftarrow> wait_busy hw h;
       (sr, h) \<leftarrow> flash_read_sr hw (sr_size cfg) h;
       let param = (ucast sr :: u32);
       let qe = push_bit (unat (qe_bit_post cfg)) (ucast (qe_bit cfg));
       if param AND qe \<noteq> 0 then Some h
       else do {
         let h = conf_field hw 0x00FFFF 10 (qe OR param) h;
         let (value, h) = hw_rd hw REG_FLASH_OPERATE_SW h;
         flash_operate hw ((value AND ADDR_SW_REG_MASK) OR
           op_bits (if sr_size cfg = 1 then FLASH_OPCODE_WRSR else FLASH_OPCODE_WRSR2) OR WP_VALUE) h
       }
     }"

definition flash_set_qwfr :: "'h flash_hw \<Rightarrow> flash_config \<Rightarrow> 'h \<Rightarrow> 'h" where
  "flash_set_qwfr hw cfg h = conf_field hw 0x1F 4 (ucast (mode_sel cfg)) h"

definition flash_clr_qwfr :: "'h flash_hw \<Rightarrow> 'h \<Rightarrow> 'h option" where
  "flash_clr_qwfr hw h =
     (let (value, h) = hw_rd hw REG_FLASH_CONF h;
          h = hw_wr hw REG_FLASH_CONF (value AND NOT (push_bit 4 0x1F)) h;
          (value, h) = hw_rd hw REG_FLASH_OPERATE_SW h
      in flash_operate hw (op_bits FLASH_OPCODE_CRMR OR (value AND WP_VALUE)) h)"

definition flash_set_wsr :: "'h flash_hw \<Rightarrow> u16 \<Rightarrow> 'h \<Rightarrow> 'h option" where
  "flash_set_wsr hw data h =
     do {
       h \<leftarrow> wait_busy hw h;
       let h = conf_field hw 0x00FFFF 10 (ucast data) h;
       let (value, h) = hw_rd hw REG_FLASH_OPERATE_SW h;
       flash_operate hw ((value AND ADDR_SW_REG_MASK) OR op_bits FLASH_OPCODE_WRSR2 OR WP_VALUE) h
     }"

definition flash_set_line_mode :: "'h flash_hw \<Rightarrow> flash_config \<Rightarrow> u8 \<Rightarrow> 'h \<Rightarrow> 'h option" where
  "flash_set_line_mode hw cfg mode h =
     do {
       h \<leftarrow> (if mode = 1 then flash_clr_qwfr hw h else Some h);
       if mode = 2
       then do { h \<leftarrow> flash_clr_qwfr hw h; Some (conf_field hw 0x1F 4 (1 AND 0x1F) h) }
       else if mode = 4
       then do {
         h \<leftarrow> flash_clr_qwfr hw h;
         let (value, h) = hw_rd hw REG_FLASH_SR_DATA_CRC_CNT h;
         let value = value AND NOT (push_bit 22 0xFF);
         let value = value OR push_bit 22 (ucast (m_value cfg));
         let h = hw_wr hw REG_FLASH_SR_DATA_CRC_CNT value h;
         let (_, h) = hw_rd hw REG_FLASH_SR_DATA_CRC_CNT h;
         h \<leftarrow> (if qe_bit cfg = 1 then flash_set_qe hw cfg h else Some h);
         Some (flash_set_qwfr hw cfg h)
       }
       else Some h
     }"

definition flash_get_id :: "'h flash_hw \<Rightarrow> 'h flash_drv \<Rightarrow> (u32 \<times> 'h flash_drv) option" where
  "flash_get_id hw s =
     do {
       h \<leftarrow> flash_operate hw (op_bits FLASH_OPCODE_RDID OR WP_VALUE) (fl_hw s);
       let (i, h) = hw_rd hw REG_FLASH_RDID_DATA_FLASH h;
       Some (i, s\<lparr>fl_hw := h, flash_id := i\<rparr>)
     }"

definition flash_read_mid :: "'h flash_hw \<Rightarrow> 'h \<Rightarrow> (u32 \<times> 'h) option" where
  "flash_read_mid hw h =
     do {
       h \<leftarrow> wait_busy hw h;
       let (value, h) = hw_rd hw REG_FLASH_OPERATE_SW h;
       h \<leftarrow> flash_operate hw ((value AND ADDR_SW_REG_MASK) OR op_bits FLASH_OPCODE_RDID OR (value AND WP_VALUE)) h;
       Some (hw_rd hw REG_FLASH_RDID_DATA_FLASH h)
     }"

definition flash_set_hpm :: "'h flash_hw \<Rightarrow> 'h \<Rightarrow> 'h option" where
  "flash_set_hpm hw h =
     do {
       h \<leftarrow> wait_busy hw h;
       let (value, h) = hw_rd hw REG_FLASH_OPERATE_SW h;
       flash_operate hw (op_bits FLASH_OPCODE_HPM OR (value AND WP_VALUE)) h
     }"

section \<open>Protection\<close>

definition FLASH_PROTECT_NONE :: u32 where "FLASH_PROTECT_NONE = 0"
definition FLASH_PROTECT_ALL :: u32 where "FLASH_PROTECT_ALL = 1"
definition FLASH_PROTECT_HALF :: u32 where "FLASH_PROTECT_HALF = 2"
definition FLASH_UNPROTECT_LAST_BLOCK :: u32 where "FLASH_UNPROTECT_LAST_BLOCK = 3"

lemmas protect_types = FLASH_PROTECT_NONE_def FLASH_PROTECT_ALL_def FLASH_PROTECT_HALF_def FLASH_UNPROTECT_LAST_BLOCK_def

text \<open>The result for an unknown setting is -1 in a \<^verbatim>\<open>UINT16\<close>.\<close>

definition get_flash_protect :: "'h flash_hw \<Rightarrow> flash_config \<Rightarrow> 'h \<Rightarrow> (u32 \<times> 'h) option" where
  "get_flash_protect hw cfg h =
     do {
       (sr_value, h) \<leftarrow> flash_read_sr hw (sr_size cfg) h;
       let param = drop_bit (unat (protect_post cfg)) sr_value AND ucast (protect_mask cfg);
       let cmp = drop_bit (unat (cmp_post cfg)) sr_value AND 1;
       let value = push_bit 8 cmp OR param;
       Some (if value = protect_all cfg then FLASH_PROTECT_ALL
             else if value = protect_none cfg then FLASH_PROTECT_NONE
             else if value = protect_half cfg then FLASH_PROTECT_HALF
             else if value = unprotect_last_block cfg then FLASH_UNPROTECT_LAST_BLOCK
             else 0xFFFF, h)
     }"

definition protect_value :: "flash_config \<Rightarrow> u32 \<Rightarrow> u16" where
  "protect_value cfg type =
     (if type = FLASH_PROTECT_NONE then protect_none cfg
      else if type = FLASH_PROTECT_ALL then protect_all cfg
      else if type = FLASH_PROTECT_HALF then protect_half cfg
      else if type = FLASH_UNPROTECT_LAST_BLOCK then unprotect_last_block cfg
      else protect_all cfg)"

definition set_flash_protect :: "'h flash_hw \<Rightarrow> flash_config \<Rightarrow> u32 \<Rightarrow> 'h \<Rightarrow> 'h option" where
  "set_flash_protect hw cfg type h =
     do {
       let param = (ucast (protect_value cfg type AND 0xff) :: u32);
       let cmp = (ucast (drop_bit 8 (protect_value cfg type) AND 0xff) :: u32);
       (sr, h) \<leftarrow> flash_read_sr hw (sr_size cfg) h;
       let value = (ucast sr :: u32);
       let msk = push_bit (unat (protect_post cfg)) (ucast (protect_mask cfg));
       if push_bit (unat (protect_post cfg)) param \<noteq> value AND msk \<or>
          push_bit (unat (cmp_post cfg)) cmp \<noteq> value AND push_bit (unat (cmp_post cfg)) 1
       then let value = (value AND NOT msk) OR push_bit (unat (protect_post cfg)) param;
                value = value AND NOT (push_bit (unat (cmp_post cfg)) 1);
                value = value OR push_bit (unat (cmp_post cfg)) (cmp AND 1)
            in flash_write_sr hw (sr_size cfg) (ucast value) h
       else Some h
     }"

definition flash_protection_op :: "'h flash_hw \<Rightarrow> flash_config \<Rightarrow> u8 \<Rightarrow> u32 \<Rightarrow> 'h \<Rightarrow> 'h option" where
  "flash_protection_op hw cfg mode type h = set_flash_protect hw cfg type h"

section \<open>Erasing, reading and writing\<close>

definition flash_erase_sector :: "'h flash_hw \<Rightarrow> flash_config \<Rightarrow> u32 \<Rightarrow> 'h \<Rightarrow> 'h option" where
  "flash_erase_sector hw cfg address h =
     (let erase_addr = address AND 0xFFF000
      in if flash_size cfg \<le> erase_addr then Some h
         else do {
           h \<leftarrow> wait_busy hw h;
           let (value, h) = hw_rd hw REG_FLASH_OPERATE_SW h;
           flash_operate hw (erase_addr OR op_bits FLASH_OPCODE_SE OR (value AND WP_VALUE)) h
         })"

text \<open>The 32 bytes of the buffer of 8 words, little endian, and back.\<close>

definition word_bytes_le :: "u32 \<Rightarrow> u8 list" where
  "word_bytes_le w = [ucast w, ucast (drop_bit 8 w), ucast (drop_bit 16 w), ucast (drop_bit 24 w)]"

fun le_word :: "u8 list \<Rightarrow> u32" where
  "le_word bs = (case bs of [a, b, c, d] \<Rightarrow>
     ucast a OR push_bit 8 (ucast b) OR push_bit 16 (ucast c) OR push_bit 24 (ucast d) | _ \<Rightarrow> 0)"

text \<open>\<open>n\<close> reads of the data register.\<close>

fun read_fifo :: "'h flash_hw \<Rightarrow> nat \<Rightarrow> 'h \<Rightarrow> u32 list \<times> 'h" where
  "read_fifo hw 0 h = ([], h)"
| "read_fifo hw (Suc n) h =
     (let (w, h) = hw_rd hw REG_FLASH_DATA_FLASH_SW h; (ws, h) = read_fifo hw n h in (w # ws, h))"

fun write_fifo :: "'h flash_hw \<Rightarrow> u32 list \<Rightarrow> 'h \<Rightarrow> 'h" where
  "write_fifo hw [] h = h"
| "write_fifo hw (w # ws) h = write_fifo hw ws (hw_wr hw REG_FLASH_DATA_SW_FLASH w h)"

definition pb_words :: "u8 list \<Rightarrow> u32 list" where
  "pb_words pb = map (\<lambda>i. le_word (take 4 (drop (4 * i) pb))) [0..<8]"

text \<open>The copying loop of \<^verbatim>\<open>flash_read_data\<close> over the bytes of the page from \<^verbatim>\<open>address % 32\<close> on.\<close>

fun read_copy :: "u8 list \<Rightarrow> u32 \<Rightarrow> u32 \<Rightarrow> u8 list \<Rightarrow> u32 \<times> u32 \<times> u8 list" where
  "read_copy [] address len out = (address, len, out)"
| "read_copy (b # pb) address len out =
     (if len - 1 = 0 then (address + 1, len - 1, out @ [b])
      else read_copy pb (address + 1) (len - 1) (out @ [b]))"

partial_function (option) read_loop ::
  "'h flash_hw \<Rightarrow> u32 \<Rightarrow> u32 \<Rightarrow> u32 \<Rightarrow> u8 list \<Rightarrow> 'h \<Rightarrow> (u8 list \<times> 'h) option" where
  "read_loop hw addr address len out h =
     (if len = 0 then Some (out, h)
      else do {
        let (reg_value, h) = hw_rd hw REG_FLASH_OPERATE_SW h;
        h \<leftarrow> flash_operate hw (addr OR op_bits FLASH_OPCODE_READ OR (reg_value AND WP_VALUE)) h;
        let (buf, h) = read_fifo hw 8 h;
        let pb = concat (map word_bytes_le buf);
        let (address, len, out) = read_copy (drop (unat (address mod 32)) pb) address len out;
        read_loop hw (addr + 32) address len out h
      })"

declare read_loop.simps [code]

definition flash_read_data :: "'h flash_hw \<Rightarrow> u32 \<Rightarrow> u32 \<Rightarrow> 'h \<Rightarrow> (u8 list \<times> 'h) option" where
  "flash_read_data hw address len h =
     (if len = 0 then Some ([], h)
      else do {
        h \<leftarrow> wait_busy hw h;
        read_loop hw (address AND NOT 0x1F) address len [] h
      })"

text \<open>
  The copying loop of \<^verbatim>\<open>flash_write_data\<close>: \<open>pos\<close> is the position in the caller's buffer; \<open>k\<close> bytes of
  the page are left from index \<open>i\<close> on.
\<close>

fun write_copy :: "nat \<Rightarrow> nat \<Rightarrow> u8 list \<Rightarrow> u8 list \<Rightarrow> nat \<Rightarrow> u32 \<Rightarrow> u32 \<Rightarrow> (u8 list \<times> nat \<times> u32 \<times> u32) option" where
  "write_copy 0 i pb buffer pos address len = Some (pb, pos, address, len)"
| "write_copy (Suc k) i pb buffer pos address len =
     do {
       b \<leftarrow> aget buffer pos;
       pb \<leftarrow> aset pb i b;
       if len - 1 = 0 then Some (pb, pos + 1, address + 1, len - 1)
       else write_copy k (i + 1) pb buffer (pos + 1) (address + 1) (len - 1)
     }"

partial_function (option) write_loop ::
  "'h flash_hw \<Rightarrow> u8 list \<Rightarrow> u8 list \<Rightarrow> nat \<Rightarrow> u32 \<Rightarrow> u32 \<Rightarrow> u32 \<Rightarrow> 'h \<Rightarrow> 'h option" where
  "write_loop hw pb buffer pos addr address len h =
     (if len = 0 then Some h
      else do {
        (pb, h) \<leftarrow> (if len < 32
                  then do { (pb, h) \<leftarrow> flash_read_data hw addr 32 h; h \<leftarrow> wait_busy hw h; Some (pb, h) }
                  else Some (pb, h));
        let i = unat (address mod 32);
        (pb, pos, address, len) \<leftarrow> write_copy (32 - i) i pb buffer pos address len;
        let h = write_fifo hw (pb_words pb) h;
        let (reg_value, h) = hw_rd hw REG_FLASH_OPERATE_SW h;
        h \<leftarrow> flash_operate hw (addr OR op_bits FLASH_OPCODE_PP OR (reg_value AND WP_VALUE)) h;
        write_loop hw (replicate 32 0xFF) buffer pos (addr + 32) address len h
      })"

declare write_loop.simps [code]

definition flash_write_data :: "'h flash_hw \<Rightarrow> flash_config \<Rightarrow> u8 list \<Rightarrow> u32 \<Rightarrow> u32 \<Rightarrow> 'h \<Rightarrow> 'h option" where
  "flash_write_data hw cfg buffer address len h =
     (let addr = address AND NOT 0x1F
      in if flash_size cfg \<le> addr \<or> flash_size cfg < len \<or> flash_size cfg < addr + len then Some h
         else do {
           (pb, h) \<leftarrow> (if address mod 32 \<noteq> 0 then flash_read_data hw addr 32 h else Some (replicate 32 0xFF, h));
           h \<leftarrow> wait_busy hw h;
           write_loop hw pb buffer 0 addr address len h
         })"

section \<open>The device\<close>

definition FLASH_SUCCESS :: u32 where "FLASH_SUCCESS = 0"
definition FLASH_FAILURE :: u32 where "FLASH_FAILURE = 1"

definition flash_read :: "'h flash_hw \<Rightarrow> u32 \<Rightarrow> u32 \<Rightarrow> 'h flash_drv \<Rightarrow> (u32 \<times> u8 list \<times> 'h flash_drv) option" where
  "flash_read hw cnt address s =
     do {
       let s = s\<lparr>peri_busy_count := peri_busy_count s + 1\<rparr>;
       (data, h) \<leftarrow> flash_read_data hw address cnt (fl_hw s);
       Some (FLASH_SUCCESS, data, s\<lparr>fl_hw := h, peri_busy_count := peri_busy_count s - 1\<rparr>)
     }"

text \<open>Around writes and commands a chip in four-line mode is switched to two lines.\<close>

definition two_lines :: "'h flash_hw \<Rightarrow> flash_config \<Rightarrow> u8 \<Rightarrow> 'h \<Rightarrow> 'h option" where
  "two_lines hw cfg mode h = (if line_mode cfg = 4 then flash_set_line_mode hw cfg mode h else Some h)"

definition flash_write :: "'h flash_hw \<Rightarrow> u8 list \<Rightarrow> u32 \<Rightarrow> u32 \<Rightarrow> 'h flash_drv \<Rightarrow> (u32 \<times> 'h flash_drv) option" where
  "flash_write hw user_buf cnt address s =
     do {
       let s = s\<lparr>peri_busy_count := peri_busy_count s + 1\<rparr>;
       cfg \<leftarrow> flash_current_config s;
       h \<leftarrow> two_lines hw cfg 2 (fl_hw s);
       h \<leftarrow> flash_write_data hw cfg user_buf address cnt h;
       h \<leftarrow> two_lines hw cfg 4 h;
       Some (FLASH_SUCCESS, s\<lparr>fl_hw := h, peri_busy_count := peri_busy_count s - 1\<rparr>)
     }"

definition CMD_FLASH_SET_CLK :: u32 where "CMD_FLASH_SET_CLK = 0xe240001"
definition CMD_FLASH_SET_DCO :: u32 where "CMD_FLASH_SET_DCO = 0xe240002"
definition CMD_FLASH_SET_DPLL :: u32 where "CMD_FLASH_SET_DPLL = 0xe240003"
definition CMD_FLASH_WRITE_ENABLE :: u32 where "CMD_FLASH_WRITE_ENABLE = 0xe240004"
definition CMD_FLASH_WRITE_DISABLE :: u32 where "CMD_FLASH_WRITE_DISABLE = 0xe240005"
definition CMD_FLASH_READ_SR :: u32 where "CMD_FLASH_READ_SR = 0xe240006"
definition CMD_FLASH_WRITE_SR :: u32 where "CMD_FLASH_WRITE_SR = 0xe240007"
definition CMD_FLASH_READ_QE :: u32 where "CMD_FLASH_READ_QE = 0xe240008"
definition CMD_FLASH_SET_QE :: u32 where "CMD_FLASH_SET_QE = 0xe240009"
definition CMD_FLASH_SET_QWFR :: u32 where "CMD_FLASH_SET_QWFR = 0xe24000a"
definition CMD_FLASH_CLR_QWFR :: u32 where "CMD_FLASH_CLR_QWFR = 0xe24000b"
definition CMD_FLASH_SET_WSR :: u32 where "CMD_FLASH_SET_WSR = 0xe24000c"
definition CMD_FLASH_GET_ID :: u32 where "CMD_FLASH_GET_ID = 0xe24000d"
definition CMD_FLASH_READ_MID :: u32 where "CMD_FLASH_READ_MID = 0xe24000e"
definition CMD_FLASH_ERASE_SECTOR :: u32 where "CMD_FLASH_ERASE_SECTOR = 0xe24000f"
definition CMD_FLASH_SET_HPM :: u32 where "CMD_FLASH_SET_HPM = 0xe240010"
definition CMD_FLASH_SET_PROTECT :: u32 where "CMD_FLASH_SET_PROTECT = 0xe240011"
definition CMD_FLASH_GET_PROTECT :: u32 where "CMD_FLASH_GET_PROTECT = 0xe240012"

lemmas flash_cmds = CMD_FLASH_SET_CLK_def CMD_FLASH_SET_DCO_def CMD_FLASH_SET_DPLL_def
  CMD_FLASH_WRITE_ENABLE_def CMD_FLASH_WRITE_DISABLE_def CMD_FLASH_READ_SR_def CMD_FLASH_WRITE_SR_def
  CMD_FLASH_READ_QE_def CMD_FLASH_SET_QE_def CMD_FLASH_SET_QWFR_def CMD_FLASH_CLR_QWFR_def
  CMD_FLASH_SET_WSR_def CMD_FLASH_GET_ID_def CMD_FLASH_READ_MID_def CMD_FLASH_ERASE_SECTOR_def
  CMD_FLASH_SET_HPM_def CMD_FLASH_SET_PROTECT_def CMD_FLASH_GET_PROTECT_def

text \<open>
  What the driver takes from the rest of the system: the status of the two commands it gives to the
  system controller, whether the test mode is on, and the word at address \<^verbatim>\<open>0x20000\<close>.
\<close>

record flash_env =
  env_set_flash_dpll :: u32
  env_set_flash_dco :: u32
  env_ate_mode :: bool
  env_word_20000 :: u32

definition low8 :: "u32 \<Rightarrow> u8 \<Rightarrow> u32" where "low8 p v = (p AND 0xFFFFFF00) OR ucast v"
definition low16 :: "u32 \<Rightarrow> u16 \<Rightarrow> u32" where "low16 p v = (p AND 0xFFFF0000) OR ucast v"

text \<open>The switch of \<^verbatim>\<open>flash_ctrl\<close>: the status, the value behind \<^verbatim>\<open>parm\<close>, the state.\<close>

definition flash_ctrl_switch ::
  "'h flash_hw \<Rightarrow> flash_env \<Rightarrow> flash_config \<Rightarrow> u32 \<Rightarrow> u32 \<Rightarrow> 'h flash_drv \<Rightarrow> (u32 \<times> u32 \<times> 'h flash_drv) option" where
  "flash_ctrl_switch hw env cfg cmd parm s =
     (let h = fl_hw s; done = (\<lambda>h. (FLASH_SUCCESS, parm, s\<lparr>fl_hw := h\<rparr>))
      in if cmd = CMD_FLASH_SET_CLK then Some (done (flash_set_clk hw (ucast parm) h))
         else if cmd = CMD_FLASH_SET_DPLL
         then if env_set_flash_dpll env = DRV_FAILURE then None
              else let (reg, h) = hw_rd hw REG_FLASH_CONF h;
                       reg = (reg AND NOT 0x0F) OR 5
                   in Some (env_set_flash_dpll env, parm, s\<lparr>fl_hw := hw_wr hw REG_FLASH_CONF reg h\<rparr>)
         else if cmd = CMD_FLASH_SET_DCO
         then if env_set_flash_dco env = DRV_FAILURE then None
              else let (reg, h) = hw_rd hw REG_FLASH_CONF h;
                       reg = (reg AND NOT 0x0F) OR (if env_ate_mode env then 0xB else 9);
                       h = hw_wr hw REG_FLASH_CONF reg h
                   in Some (env_set_flash_dco env, parm, s\<lparr>fl_hw := hw_wr hw REG_FLASH_DATA_FLASH_SW (env_word_20000 env) h\<rparr>)
         else if cmd = CMD_FLASH_WRITE_ENABLE then map_option done (flash_write_enable hw h)
         else if cmd = CMD_FLASH_WRITE_DISABLE then map_option done (flash_write_disable hw h)
         else if cmd = CMD_FLASH_READ_SR
         then do { (sr, h) \<leftarrow> flash_read_sr hw 2 h; Some (FLASH_SUCCESS, low16 parm sr, s\<lparr>fl_hw := h\<rparr>) }
         else if cmd = CMD_FLASH_WRITE_SR
         then map_option done (flash_write_sr hw (ucast (parm AND 0x00FF)) (ucast (drop_bit 8 parm AND 0x00FFFF)) h)
         else if cmd = CMD_FLASH_READ_QE
         then do { (qe, h) \<leftarrow> flash_read_qe hw cfg h; Some (FLASH_SUCCESS, low8 parm qe, s\<lparr>fl_hw := h\<rparr>) }
         else if cmd = CMD_FLASH_SET_QE
         then if qe_bit cfg \<noteq> 0 then map_option done (flash_set_qe hw cfg h) else Some (done h)
         else if cmd = CMD_FLASH_SET_QWFR then Some (done (flash_set_qwfr hw cfg h))
         else if cmd = CMD_FLASH_CLR_QWFR then map_option done (flash_clr_qwfr hw h)
         else if cmd = CMD_FLASH_SET_WSR then map_option done (flash_set_wsr hw (ucast parm) h)
         else if cmd = CMD_FLASH_GET_ID then do { (i, s) \<leftarrow> flash_get_id hw s; Some (FLASH_SUCCESS, i, s) }
         else if cmd = CMD_FLASH_READ_MID
         then do { (i, h) \<leftarrow> flash_read_mid hw h; Some (FLASH_SUCCESS, i, s\<lparr>fl_hw := h\<rparr>) }
         else if cmd = CMD_FLASH_ERASE_SECTOR then map_option done (flash_erase_sector hw cfg parm h)
         else if cmd = CMD_FLASH_SET_HPM then map_option done (flash_set_hpm hw h)
         else if cmd = CMD_FLASH_GET_PROTECT
         then do { (t, h) \<leftarrow> get_flash_protect hw cfg h; Some (FLASH_SUCCESS, t, s\<lparr>fl_hw := h\<rparr>) }
         else if cmd = CMD_FLASH_SET_PROTECT then map_option done (flash_protection_op hw cfg 0 parm h)
         else Some (FLASH_FAILURE, parm, s))"

definition flash_ctrl ::
  "'h flash_hw \<Rightarrow> flash_env \<Rightarrow> u32 \<Rightarrow> u32 \<Rightarrow> 'h flash_drv \<Rightarrow> (u32 \<times> u32 \<times> 'h flash_drv) option" where
  "flash_ctrl hw env cmd parm s =
     do {
       let s = s\<lparr>peri_busy_count := peri_busy_count s + 1\<rparr>;
       cfg \<leftarrow> flash_current_config s;
       h \<leftarrow> two_lines hw cfg 2 (fl_hw s);
       (ret, parm, s) \<leftarrow> flash_ctrl_switch hw env cfg cmd parm (s\<lparr>fl_hw := h\<rparr>);
       h \<leftarrow> two_lines hw cfg 4 (fl_hw s);
       Some (ret, parm, s\<lparr>fl_hw := h, peri_busy_count := peri_busy_count s - 1\<rparr>)
     }"

definition flash_op :: "'h flash_hw \<Rightarrow> flash_env \<Rightarrow> 'h flash_drv dd_operations" where
  "flash_op hw env = \<lparr>op_open = None, op_close = None, op_read = Some (flash_read hw),
     op_write = Some (flash_write hw), op_control = Some (flash_ctrl hw env)\<rparr>"

definition FLASH_DEV_NAME :: string where "FLASH_DEV_NAME = ''flash''"

text \<open>The status of the registration is ignored.\<close>

definition flash_init :: "'h flash_hw \<Rightarrow> flash_env \<Rightarrow> 'h flash_drv drv \<Rightarrow> 'h flash_drv drv option" where
  "flash_init hw env d =
     do {
       let s = world d;
       h \<leftarrow> wait_busy hw (fl_hw s);
       (i, s) \<leftarrow> flash_get_id hw (s\<lparr>fl_hw := h\<rparr>);
       let s = flash_get_current_flash_config s;
       cfg \<leftarrow> flash_current_config s;
       h \<leftarrow> set_flash_protect hw cfg FLASH_PROTECT_ALL (fl_hw s);
       let h = flash_disable_cpu_data_wr hw h;
       h \<leftarrow> flash_set_line_mode hw cfg (line_mode cfg) h;
       let h = flash_set_clk hw 5 h;
       (_, d) \<leftarrow> ddev_register_dev (Some FLASH_DEV_NAME) (Some (flash_op hw env)) (d\<lparr>world := s\<lparr>fl_hw := h\<rparr>\<rparr>);
       Some d
     }"

definition flash_exit :: "'w drv \<Rightarrow> 'w drv option" where
  "flash_exit d = do { (_, d) \<leftarrow> ddev_unregister_dev (Some FLASH_DEV_NAME) d; Some d }"

end
