(* ===== verification/FlashSpec.thy ===== *)
theory FlashSpec
  imports FlashDrv
begin

text \<open>
  What the flash controller and the NOR chip behind it promise (\<open>flash_chip\<close>), and what the driver of
  FlashDrv does with them. The promises are those of the controller's register description and of
  every NOR flash: erasing a sector sets its bytes to \<^verbatim>\<open>0xFF\<close>, programming clears bits, addresses
  protected by the status register keep their bytes, and a command ends after some polls of the
  busy bit. The chip state \<open>h\<close> is abstract; \<open>ob\<close> is what can be observed of it, \<open>lk\<close> says which
  addresses a value of the status register protects.
\<close>

section \<open>The chip\<close>

record flash_ob =
  cells :: "nat \<Rightarrow> u8"
  ob_sr :: u16
  ob_conf :: u32
  ob_srdata :: u8
  fifo_in :: "u32 list"
  fifo_out :: "u32 list"

definition page_words :: "(nat \<Rightarrow> u8) \<Rightarrow> nat \<Rightarrow> u32 list" where
  "page_words c a = map (\<lambda>k. le_word (map c [a + 4 * k ..< a + 4 * k + 4])) [0..<8]"

text \<open>Programming the bytes \<open>bs\<close> from address \<open>a\<close> on, and erasing \<open>n\<close> bytes.\<close>

definition nor_program :: "(nat \<Rightarrow> bool) \<Rightarrow> nat \<Rightarrow> u8 list \<Rightarrow> (nat \<Rightarrow> u8) \<Rightarrow> nat \<Rightarrow> u8" where
  "nor_program lk a bs c = (\<lambda>i. if a \<le> i \<and> i < a + length bs \<and> \<not> lk i then c i AND bs ! (i - a) else c i)"

definition nor_erase :: "(nat \<Rightarrow> bool) \<Rightarrow> nat \<Rightarrow> nat \<Rightarrow> (nat \<Rightarrow> u8) \<Rightarrow> nat \<Rightarrow> u8" where
  "nor_erase lk a n c = (\<lambda>i. if a \<le> i \<and> i < a + n \<and> \<not> lk i then 0xFF else c i)"

definition cmd_op :: "u32 \<Rightarrow> u32" where "cmd_op v = drop_bit 24 v AND 0x1F"
definition cmd_addr :: "u32 \<Rightarrow> nat" where "cmd_addr v = unat (v AND ADDR_SW_REG_MASK)"

definition op_exec :: "(u16 \<Rightarrow> nat \<Rightarrow> bool) \<Rightarrow> u32 \<Rightarrow> flash_ob \<Rightarrow> flash_ob" where
  "op_exec lk v ob =
     (let op = cmd_op v; a = cmd_addr v; wrsr = ucast (drop_bit 10 (ob_conf ob)) :: u16
      in if op = opcode FLASH_OPCODE_RDSR then ob\<lparr>ob_srdata := ucast (ob_sr ob)\<rparr>
         else if op = opcode FLASH_OPCODE_RDSR2 then ob\<lparr>ob_srdata := ucast (drop_bit 8 (ob_sr ob))\<rparr>
         else if op = opcode FLASH_OPCODE_WRSR then ob\<lparr>ob_sr := (ob_sr ob AND 0xFF00) OR (wrsr AND 0x00FF)\<rparr>
         else if op = opcode FLASH_OPCODE_WRSR2 then ob\<lparr>ob_sr := wrsr\<rparr>
         else if op = opcode FLASH_OPCODE_READ then ob\<lparr>fifo_in := page_words (cells ob) a\<rparr>
         else if op = opcode FLASH_OPCODE_PP
         then ob\<lparr>cells := nor_program (lk (ob_sr ob)) a (concat (map word_bytes_le (fifo_out ob))) (cells ob), fifo_out := []\<rparr>
         else if op = opcode FLASH_OPCODE_SE
         then ob\<lparr>cells := nor_erase (lk (ob_sr ob)) (a div 4096 * 4096) 4096 (cells ob)\<rparr>
         else ob)"

definition flash_chip :: "'h flash_hw \<Rightarrow> (u16 \<Rightarrow> nat \<Rightarrow> bool) \<Rightarrow> ('h \<Rightarrow> flash_ob) \<Rightarrow> ('h \<Rightarrow> nat) \<Rightarrow> bool" where
  "flash_chip hw lk ob busy \<longleftrightarrow>
     (\<forall>h. ob (snd (hw_rd hw REG_FLASH_OPERATE_SW h)) = ob h \<and>
        busy (snd (hw_rd hw REG_FLASH_OPERATE_SW h)) = busy h - 1 \<and>
        (fst (hw_rd hw REG_FLASH_OPERATE_SW h) AND BUSY_SW = 0 \<longleftrightarrow> busy h = 0)) \<and>
     (\<forall>v h. busy h = 0 \<longrightarrow> v AND OP_SW \<noteq> 0 \<longrightarrow> ob (hw_wr hw REG_FLASH_OPERATE_SW v h) = op_exec lk v (ob h)) \<and>
     (\<forall>h w ws. busy h = 0 \<longrightarrow> fifo_in (ob h) = w # ws \<longrightarrow>
        fst (hw_rd hw REG_FLASH_DATA_FLASH_SW h) = w \<and> busy (snd (hw_rd hw REG_FLASH_DATA_FLASH_SW h)) = 0 \<and>
        ob (snd (hw_rd hw REG_FLASH_DATA_FLASH_SW h)) = (ob h)\<lparr>fifo_in := ws\<rparr>) \<and>
     (\<forall>v h. ob (hw_wr hw REG_FLASH_DATA_SW_FLASH v h) = (ob h)\<lparr>fifo_out := fifo_out (ob h) @ [v]\<rparr> \<and>
        busy (hw_wr hw REG_FLASH_DATA_SW_FLASH v h) = busy h) \<and>
     (\<forall>h. fst (hw_rd hw REG_FLASH_CONF h) = ob_conf (ob h) \<and> ob (snd (hw_rd hw REG_FLASH_CONF h)) = ob h \<and>
        busy (snd (hw_rd hw REG_FLASH_CONF h)) = busy h) \<and>
     (\<forall>v h. ob (hw_wr hw REG_FLASH_CONF v h) = (ob h)\<lparr>ob_conf := v\<rparr> \<and> busy (hw_wr hw REG_FLASH_CONF v h) = busy h) \<and>
     (\<forall>h. fst (hw_rd hw REG_FLASH_SR_DATA_CRC_CNT h) AND 0xFF = ucast (ob_srdata (ob h)) \<and>
        ob (snd (hw_rd hw REG_FLASH_SR_DATA_CRC_CNT h)) = ob h \<and> busy (snd (hw_rd hw REG_FLASH_SR_DATA_CRC_CNT h)) = busy h)"

lemma flash_chipD:
  assumes "flash_chip hw lk ob busy"
  shows "ob (snd (hw_rd hw REG_FLASH_OPERATE_SW h)) = ob h"
    and "busy (snd (hw_rd hw REG_FLASH_OPERATE_SW h)) = busy h - 1"
    and "fst (hw_rd hw REG_FLASH_OPERATE_SW h) AND BUSY_SW = 0 \<longleftrightarrow> busy h = 0"
    and "busy h = 0 \<Longrightarrow> v AND OP_SW \<noteq> 0 \<Longrightarrow> ob (hw_wr hw REG_FLASH_OPERATE_SW v h) = op_exec lk v (ob h)"
    and "busy h = 0 \<Longrightarrow> fifo_in (ob h) = w # ws \<Longrightarrow> fst (hw_rd hw REG_FLASH_DATA_FLASH_SW h) = w"
    and "busy h = 0 \<Longrightarrow> fifo_in (ob h) = w # ws \<Longrightarrow> busy (snd (hw_rd hw REG_FLASH_DATA_FLASH_SW h)) = 0"
    and "busy h = 0 \<Longrightarrow> fifo_in (ob h) = w # ws \<Longrightarrow> ob (snd (hw_rd hw REG_FLASH_DATA_FLASH_SW h)) = (ob h)\<lparr>fifo_in := ws\<rparr>"
    and "ob (hw_wr hw REG_FLASH_DATA_SW_FLASH v h) = (ob h)\<lparr>fifo_out := fifo_out (ob h) @ [v]\<rparr>"
    and "busy (hw_wr hw REG_FLASH_DATA_SW_FLASH v h) = busy h"
    and "fst (hw_rd hw REG_FLASH_CONF h) = ob_conf (ob h)" "ob (snd (hw_rd hw REG_FLASH_CONF h)) = ob h"
    and "busy (snd (hw_rd hw REG_FLASH_CONF h)) = busy h"
    and "ob (hw_wr hw REG_FLASH_CONF v h) = (ob h)\<lparr>ob_conf := v\<rparr>" "busy (hw_wr hw REG_FLASH_CONF v h) = busy h"
    and "fst (hw_rd hw REG_FLASH_SR_DATA_CRC_CNT h) AND 0xFF = ucast (ob_srdata (ob h))"
    and "ob (snd (hw_rd hw REG_FLASH_SR_DATA_CRC_CNT h)) = ob h"
    and "busy (snd (hw_rd hw REG_FLASH_SR_DATA_CRC_CNT h)) = busy h"
  using assms unfolding flash_chip_def by blast+

section \<open>Commands\<close>

lemma wait_busy_ok:
  assumes "flash_chip hw lk ob busy"
  shows "\<exists>h'. wait_busy hw h = Some h' \<and> ob h' = ob h \<and> busy h' = 0"
proof (induction "busy h" arbitrary: h)
  case 0
  then show ?case using flash_chipD(1-3) [OF assms, of h] by (subst wait_busy.simps) (simp add: case_prod_beta Let_def)
next
  case (Suc n)
  let ?h = "snd (hw_rd hw REG_FLASH_OPERATE_SW h)"
  have "n = busy ?h" using Suc.hyps(2) flash_chipD(2) [OF assms, of h] by simp
  from Suc.hyps(1) [OF this] show ?case using Suc.hyps(2) flash_chipD(1,3) [OF assms, of h]
    by (subst wait_busy.simps) (simp add: case_prod_beta Let_def)
qed

lemma flash_operate_ok:
  assumes "flash_chip hw lk ob busy" and "busy h = 0" and "v AND OP_SW \<noteq> 0"
  shows "\<exists>h'. flash_operate hw v h = Some h' \<and> ob h' = op_exec lk v (ob h) \<and> busy h' = 0"
  using wait_busy_ok [OF assms(1), of "hw_wr hw REG_FLASH_OPERATE_SW v h"] flash_chipD(4) [OF assms]
  by (simp add: flash_operate_def)

text \<open>Decoding a command: address, operation and the flags do not overlap.\<close>

lemma small_bits: "unat (a :: u32) < 2 ^ k \<Longrightarrow> bit a n \<Longrightarrow> n < k"
proof -
  assume a: "unat a < 2 ^ k" and b: "bit a n"
  then have "take_bit k (unat a) = unat a" by (simp add: take_bit_nat_eq_self_iff)
  moreover have "bit (unat a) n" using b by (simp add: bit_unsigned_iff bit_imp_le_length)
  ultimately show "n < k" by (metis bit_take_bit_iff)
qed
lemma mask_bits: "bit (0x00FFFFFF :: u32) n \<longleftrightarrow> n < 24" "bit (0x1F :: u32) n \<longleftrightarrow> n < 5"
proof -
  have "(0x00FFFFFF :: u32) = mask 24" "(0x1F :: u32) = mask 5" by (simp_all add: mask_eq_exp_minus_1)
  then show "bit (0x00FFFFFF :: u32) n \<longleftrightarrow> n < 24" "bit (0x1F :: u32) n \<longleftrightarrow> n < 5" by (auto simp only: bit_mask_iff) simp_all
qed
lemma opcode_high: "bit (opcode op) n \<Longrightarrow> n < 5"
proof (rule small_bits [of _ 5])
  show "unat (opcode op) < 2 ^ 5" by (cases op) simp_all
qed

lemma cmd_bits:
  assumes "unat a < 0x1000000"
  shows "bit (a OR op_bits op OR (x AND WP_VALUE)) n \<longleftrightarrow>
    n < 24 \<and> bit a n \<or> 24 \<le> n \<and> n < 29 \<and> bit (opcode op) (n - 24) \<or> n = 29 \<or> n = 30 \<and> bit x 30"
proof -
  have "bit a n \<Longrightarrow> n < 24" using small_bits [of a 24 n] assms by simp
  moreover have "bit (opcode op) (n - 24) \<Longrightarrow> n < 29" using opcode_high [of op "n - 24"] by simp
  moreover have "n < 32" if "n < 29 \<or> n = 29 \<or> n = 30" using that by auto
  ultimately show ?thesis
    unfolding op_bits_def OP_SW_def WP_VALUE_def bit_or_iff bit_and_iff bit_push_bit_iff bit_1_iff
    by auto
qed

lemma cmd_decode:
  assumes "unat a < 0x1000000"
  shows "(a OR op_bits op OR (x AND WP_VALUE)) AND OP_SW \<noteq> 0"
    and "cmd_op (a OR op_bits op OR (x AND WP_VALUE)) = opcode op"
    and "cmd_addr (a OR op_bits op OR (x AND WP_VALUE)) = unat a"
proof -
  note bits = cmd_bits [OF assms, of op x]
  let ?v = "a OR op_bits op OR (x AND WP_VALUE)"
  have b: "bit (?v AND OP_SW) 29"
    unfolding bit_and_iff bits by (simp add: OP_SW_def bit_simps)
  show "?v AND OP_SW \<noteq> 0"
  proof
    assume e: "?v AND OP_SW = 0"
    show False using b unfolding e by simp
  qed
  show "cmd_op ?v = opcode op"
  proof (rule bit_word_eqI)
    fix n assume "n < LENGTH(32)"
    have "bit (cmd_op ?v) n \<longleftrightarrow> bit ?v (24 + n) \<and> n < 5"
      unfolding cmd_op_def bit_and_iff bit_drop_bit_eq mask_bits by simp
    then show "bit (cmd_op ?v) n \<longleftrightarrow> bit (opcode op) n" using bits opcode_high [of op n] unfolding bits by auto
  qed
  have "?v AND ADDR_SW_REG_MASK = a"
  proof (rule bit_word_eqI)
    fix n assume "n < LENGTH(32)"
    show "bit (?v AND ADDR_SW_REG_MASK) n \<longleftrightarrow> bit a n"
      using small_bits [of a 24 n] assms unfolding bit_and_iff bits ADDR_SW_REG_MASK_def mask_bits by auto
  qed
  then show "cmd_addr ?v = unat a" by (simp add: cmd_addr_def)
qed

lemma cmd_decode0:
  "(op_bits op OR WP_VALUE) AND OP_SW \<noteq> 0" "cmd_op (op_bits op OR WP_VALUE) = opcode op"
  "cmd_addr (op_bits op OR WP_VALUE) = 0"
  using cmd_decode [of 0 op WP_VALUE] by simp_all

section \<open>Pages\<close>

lemma word_bytes_le_word: "word_bytes_le (le_word [a, b, c, d]) = [a, b, c, d]"
proof -
  have "(ucast (le_word [a, b, c, d]) :: u8) = a"
    by (rule bit_word_eqI) (simp add: bit_simps)
  moreover have "(ucast (drop_bit 8 (le_word [a, b, c, d])) :: u8) = b"
    by (rule bit_word_eqI) (auto simp: bit_simps dest: bit_imp_le_length)
  moreover have "(ucast (drop_bit 16 (le_word [a, b, c, d])) :: u8) = c"
    by (rule bit_word_eqI) (auto simp: bit_simps dest: bit_imp_le_length)
  moreover have "(ucast (drop_bit 24 (le_word [a, b, c, d])) :: u8) = d"
    by (rule bit_word_eqI) (auto simp: bit_simps dest: bit_imp_le_length)
  ultimately show ?thesis unfolding word_bytes_le_def by simp
qed

lemma page_words_bytes: "concat (map word_bytes_le (page_words c a)) = map c [a..<a + 32]"
proof -
  have four: "word_bytes_le (le_word (map c [b..<b + 4])) = map c [b..<b + 4]" for b
    by (simp add: upt_rec word_bytes_le_word del: le_word.simps)
  have "concat (map (\<lambda>k. map c [a + 4 * k..<a + 4 * k + 4]) [0..<n]) = map c [a..<a + 4 * n]" for n
  proof (induction n)
    case (Suc n)
    have "[a..<a + 4 * Suc n] = [a..<a + 4 * n] @ [a + 4 * n..<a + 4 * n + 4]"
      using upt_add_eq_append [of a "a + 4 * n" 4] by (simp add: algebra_simps)
    then show ?case using Suc by simp
  qed simp
  from this [of 8] show ?thesis by (simp add: page_words_def comp_def four del: le_word.simps)
qed

lemma pb_words_bytes:
  assumes "length pb = 32"
  shows "concat (map word_bytes_le (pb_words pb)) = pb" "length (pb_words pb) = 8"
proof -
  have "take 4 (drop (4 * k) pb) = map ((!) pb) [4 * k..<4 * k + 4]" if "k < 8" for k
    using that assms by (intro nth_equalityI) simp_all
  then have "pb_words pb = page_words ((!) pb) 0" by (simp add: pb_words_def page_words_def del: le_word.simps)
  then show "concat (map word_bytes_le (pb_words pb)) = pb"
    using page_words_bytes [of "(!) pb" 0] assms map_nth [of pb] by simp
  show "length (pb_words pb) = 8" by (simp add: pb_words_def)
qed

lemma read_fifo_ok:
  assumes chip: "flash_chip hw lk ob busy"
  shows "busy h = 0 \<Longrightarrow> fifo_in (ob h) = ws @ rest \<Longrightarrow>
    \<exists>h'. read_fifo hw (length ws) h = (ws, h') \<and> ob h' = (ob h)\<lparr>fifo_in := rest\<rparr> \<and> busy h' = 0"
proof (induction ws arbitrary: h)
  case Nil
  then show ?case by simp
next
  case (Cons w ws)
  let ?r = "hw_rd hw REG_FLASH_DATA_FLASH_SW h"
  have r: "fst ?r = w" "busy (snd ?r) = 0" "ob (snd ?r) = (ob h)\<lparr>fifo_in := ws @ rest\<rparr>"
    using flash_chipD(5-7) [OF chip Cons.prems(1), of w "ws @ rest"] Cons.prems(2) by simp_all
  from Cons.IH [OF r(2)] r(3) obtain h' where "read_fifo hw (length ws) (snd ?r) = (ws, h')"
    "ob h' = (ob (snd ?r))\<lparr>fifo_in := rest\<rparr>" "busy h' = 0" by auto
  then show ?case using r by (simp add: Let_def case_prod_beta)
qed

lemma write_fifo_ok:
  assumes chip: "flash_chip hw lk ob busy"
  shows "ob (write_fifo hw ws h) = (ob h)\<lparr>fifo_out := fifo_out (ob h) @ ws\<rparr> \<and> busy (write_fifo hw ws h) = busy h"
proof (induction ws arbitrary: h)
  case (Cons w ws)
  then show ?case using flash_chipD(8,9) [OF chip, of w h] by simp
qed simp

section \<open>Reading\<close>

text \<open>Between two operations of the driver the chip is idle: not busy, no data left in the buffers.\<close>

definition idle :: "('h \<Rightarrow> flash_ob) \<Rightarrow> ('h \<Rightarrow> nat) \<Rightarrow> 'h \<Rightarrow> bool" where
  "idle ob busy h \<longleftrightarrow> busy h = 0 \<and> fifo_in (ob h) = [] \<and> fifo_out (ob h) = []"

lemma read_page_ok:
  assumes chip: "flash_chip hw lk ob busy" and b: "busy h = 0" and a: "a < 16777216"
  shows "\<exists>h1 h2. flash_operate hw (of_nat a OR op_bits FLASH_OPCODE_READ OR (x AND WP_VALUE)) h = Some h1 \<and>
    read_fifo hw 8 h1 = (page_words (cells (ob h)) a, h2) \<and> ob h2 = (ob h)\<lparr>fifo_in := []\<rparr> \<and> busy h2 = 0"
proof -
  have ua: "unat (of_nat a :: u32) = a" using a by (simp add: unat_of_nat)
  have "unat (of_nat a :: u32) < 0x1000000" using ua a by simp
  note d = cmd_decode [OF this, of FLASH_OPCODE_READ x]
  obtain h1 where h1: "flash_operate hw (of_nat a OR op_bits FLASH_OPCODE_READ OR (x AND WP_VALUE)) h = Some h1"
    "ob h1 = (ob h)\<lparr>fifo_in := page_words (cells (ob h)) a\<rparr>" "busy h1 = 0"
    using flash_operate_ok [OF chip b d(1)] d(2,3) ua by (auto simp: op_exec_def)
  have l: "length (page_words (cells (ob h)) a) = 8" by (simp add: page_words_def)
  have fi: "fifo_in (ob h1) = page_words (cells (ob h)) a @ []" using h1(2) by simp
  from read_fifo_ok [OF chip h1(3) fi] h1 l show ?thesis by auto
qed

lemma read_copy_ok:
  "0 < n \<Longrightarrow> n < 4294967296 \<Longrightarrow>
   read_copy pb (of_nat a) (of_nat n) out = (of_nat (a + min (length pb) n), of_nat (n - min (length pb) n), out @ take n pb)"
proof (induction pb arbitrary: a n out)
  case (Cons b pb)
  have n1: "(of_nat n :: u32) - 1 = of_nat (n - 1)" using Cons.prems(1) by (simp add: of_nat_diff)
  have z: "(of_nat (n - 1) :: u32) = 0 \<longleftrightarrow> n = 1"
    using Cons.prems of_nat_u32_eq [of "n - 1" 0] by auto
  have a1: "(of_nat a :: u32) + 1 = of_nat (a + 1)" by simp
  show ?case
  proof (cases "n = 1")
    case False
    then have "0 < n - 1" "n - 1 < 4294967296" using Cons.prems by simp_all
    from Cons.IH [OF this, of "a + 1" "out @ [b]"] show ?thesis
      using False Cons.prems(1) unfolding read_copy.simps n1 z a1
      by (cases n) (simp_all add: min_def)
  qed (simp add: min_def)
qed simp

lemma page_base: "(of_nat a :: u32) AND NOT 0x1F = of_nat (a div 32 * 32)"
proof (rule bit_word_eqI)
  fix n assume n: "n < LENGTH(32)"
  have "a div 32 * 32 = push_bit 5 (drop_bit 5 a)" by (simp add: push_bit_eq_mult drop_bit_eq_div)
  then show "bit ((of_nat a :: u32) AND NOT 0x1F) n \<longleftrightarrow> bit (of_nat (a div 32 * 32) :: u32) n"
    using n unfolding bit_and_iff bit_not_iff mask_bits by (auto simp: bit_of_nat_iff bit_push_bit_iff bit_drop_bit_eq)
qed

lemma page_offset: "a < 4294967296 \<Longrightarrow> unat ((of_nat a :: u32) mod 32) = a mod 32"
  by (simp add: unat_mod_distrib unat_u32)

lemma drop_page: "drop (a mod 32) (map c [a div 32 * 32 ..< a div 32 * 32 + 32]) = map c [a ..< a div 32 * 32 + 32]"
proof -
  have "a div 32 * 32 + a mod 32 = a" by simp
  then show ?thesis by (simp only: drop_map drop_upt)
qed

lemma read_loop_ok:
  assumes chip: "flash_chip hw lk ob busy"
  shows "busy h = 0 \<Longrightarrow> fifo_in (ob h) = [] \<Longrightarrow> a + n \<le> 16777216 \<Longrightarrow>
    \<exists>h'. read_loop hw (of_nat (a div 32 * 32)) (of_nat a) (of_nat n) out h =
      Some (out @ map (cells (ob h)) [a..<a + n], h') \<and> ob h' = ob h \<and> busy h' = 0"
proof (induction n arbitrary: a out h rule: less_induct)
  case (less n)
  let ?c = "cells (ob h)" and ?A = "a div 32 * 32"
  show ?case
  proof (cases "n = 0")
    case True
    then show ?thesis using less.prems by (subst read_loop.simps) simp
  next
    case False
    let ?r = "hw_rd hw REG_FLASH_OPERATE_SW h" and ?m = "min (32 - a mod 32) n"
    have A: "?A < 16777216" "?A + a mod 32 = a" "a mod 32 < 32" using less.prems(3) False div_mult_mod_eq [of a 32] by (linarith, simp_all)
    have r: "ob (snd ?r) = ob h" "busy (snd ?r) = 0" using flash_chipD(1,2) [OF chip, of h] less.prems(1) by simp_all
    obtain h1 h2 where p: "flash_operate hw (of_nat ?A OR op_bits FLASH_OPCODE_READ OR (fst ?r AND WP_VALUE)) (snd ?r) = Some h1"
      "read_fifo hw 8 h1 = (page_words ?c ?A, h2)" "ob h2 = ob h" "busy h2 = 0"
      using read_page_ok [OF chip r(2) A(1), of "fst ?r"] r(1) less.prems(2) by auto
    have nz: "(of_nat n :: u32) \<noteq> 0" using False less.prems(3) of_nat_u32_eq [of n 0] by simp
    have cp: "read_copy (drop (unat ((of_nat a :: u32) mod 32)) (concat (map word_bytes_le (page_words ?c ?A)))) (of_nat a) (of_nat n) out =
        (of_nat (a + ?m), of_nat (n - ?m), out @ map ?c [a..<a + ?m])"
    proof -
      have d: "drop (unat ((of_nat a :: u32) mod 32)) (concat (map word_bytes_le (page_words ?c ?A))) = map ?c [a..<?A + 32]"
        using page_offset [of a] less.prems(3) by (simp add: page_words_bytes drop_page)
      have l: "length (map ?c [a..<?A + 32]) = 32 - a mod 32" unfolding length_map length_upt using A(2) by linarith
      have t: "take n (map ?c [a..<?A + 32]) = map ?c [a..<a + ?m]"
      proof -
        have e: "?A + 32 = a + (32 - a mod 32)" using A(2,3) by linarith
        have "take n [a..<a + k] = [a..<a + min k n]" for k by (cases "k \<le> n") (simp_all add: min_def)
        then have "take n [a..<?A + 32] = [a..<a + ?m]" unfolding e .
        then show ?thesis by (simp add: take_map)
      qed
      show ?thesis unfolding d using read_copy_ok [of n "map ?c [a..<?A + 32]" a out] False less.prems(3) unfolding l t by simp
    qed
    have step: "read_loop hw (of_nat ?A) (of_nat a) (of_nat n) out h =
        read_loop hw (of_nat ?A + 32) (of_nat (a + ?m)) (of_nat (n - ?m)) (out @ map ?c [a..<a + ?m]) h2"
      using nz p(1,2) cp by (subst read_loop.simps) (simp add: case_prod_beta Let_def)
    have m: "0 < ?m" "?m \<le> n" using A(3) False by simp_all
    show ?thesis
    proof (cases "n - ?m = 0")
      case True
      then have "n = ?m" using m by linarith
      then show ?thesis unfolding step using p(3,4) True
        by (subst read_loop.simps) simp
    next
      case more: False
      have mm: "?m = 32 - a mod 32" using more by (simp add: min_def split: if_splits)
      have a': "a + ?m = ?A + 32" unfolding mm using A(2,3) by linarith
      then have d: "(a + ?m) div 32 * 32 = ?A + 32" by simp
      have b: "(of_nat ?A :: u32) + 32 = of_nat ((a + ?m) div 32 * 32)" unfolding d by simp
      have lt: "n - ?m < n" using m by linarith
      have "fifo_in (ob h2) = []" "a + ?m + (n - ?m) \<le> 16777216" using p(3) less.prems(2,3) m by simp_all
      from less.IH [OF lt p(4) this, of "out @ map ?c [a..<a + ?m]"] obtain h' where
        "read_loop hw (of_nat ((a + ?m) div 32 * 32)) (of_nat (a + ?m)) (of_nat (n - ?m)) (out @ map ?c [a..<a + ?m]) h2 =
          Some ((out @ map ?c [a..<a + ?m]) @ map ?c [a + ?m..<a + ?m + (n - ?m)], h')" "ob h' = ob h" "busy h' = 0"
        using p(3) by auto
      moreover have "map ?c [a..<a + n] = map ?c [a..<a + ?m] @ map ?c [a + ?m..<a + ?m + (n - ?m)]"
        using upt_add_eq_append [of a "a + ?m" "n - ?m"] m by (simp add: map_append [symmetric] del: map_append)
      ultimately show ?thesis unfolding step b by simp
    qed
  qed
qed

lemma flash_read_data_ok:
  assumes "flash_chip hw lk ob busy" and "idle ob busy h" and "a + n \<le> 16777216"
  shows "\<exists>h'. flash_read_data hw (of_nat a) (of_nat n) h = Some (map (cells (ob h)) [a..<a + n], h') \<and>
    ob h' = ob h \<and> idle ob busy h'"
proof (cases "n = 0")
  case True
  then show ?thesis using assms(2) by (simp add: flash_read_data_def)
next
  case False
  obtain h0 where h0: "wait_busy hw h = Some h0" "ob h0 = ob h" "busy h0 = 0" using wait_busy_ok [OF assms(1)] by blast
  have nz: "(of_nat n :: u32) \<noteq> 0" using False assms(3) of_nat_u32_eq [of n 0] by simp
  show ?thesis
    using read_loop_ok [OF assms(1) h0(3) _ assms(3), of "[]"] h0 assms(2) nz
    unfolding flash_read_data_def page_base idle_def by auto
qed

section \<open>Writing\<close>

lemma write_copy_ok:
  "0 < n \<Longrightarrow> n < 4294967296 \<Longrightarrow> 0 < k \<Longrightarrow> i + k \<le> length pb \<Longrightarrow> pos + n \<le> length buffer \<Longrightarrow>
   write_copy k i pb buffer pos (of_nat a) (of_nat n) =
     Some (take i pb @ take (min k n) (drop pos buffer) @ drop (i + min k n) pb, pos + min k n,
       of_nat (a + min k n), of_nat (n - min k n))"
proof (induction k arbitrary: i pb pos a n)
  case (Suc k)
  have n1: "(of_nat n :: u32) - 1 = of_nat (n - 1)" using Suc.prems(1) by (simp add: of_nat_diff)
  have z: "(of_nat (n - 1) :: u32) = 0 \<longleftrightarrow> n = 1"
    using Suc.prems of_nat_u32_eq [of "n - 1" 0] by auto
  have a1: "(of_nat a :: u32) + 1 = of_nat (a + 1)" by simp
  let ?pb = "pb[i := buffer ! pos]"
  have get: "aget buffer pos = Some (buffer ! pos)" "aset pb i (buffer ! pos) = Some ?pb"
    using Suc.prems by (simp_all add: aget_def aset_def)
  have hd: "drop pos buffer = buffer ! pos # drop (Suc pos) buffer" using Suc.prems by (simp add: Cons_nth_drop_Suc)
  have upd: "?pb = take i pb @ buffer ! pos # drop (Suc i) pb" using Suc.prems by (simp add: upd_conv_take_nth_drop)
  show ?case
  proof (cases "n = 1")
    case True
    then show ?thesis unfolding write_copy.simps get n1 z a1 bind.bind_lunit by (simp add: hd upd min_def)
  next
    case False
    show ?thesis
    proof (cases "k = 0")
      case True
      then show ?thesis using False Suc.prems(1) unfolding write_copy.simps get n1 z a1 bind.bind_lunit
        by (simp add: hd upd min_def)
    next
      case k: False
      have p: "0 < n - 1" "n - 1 < 4294967296" "0 < k" "i + 1 + k \<le> length ?pb" "pos + 1 + (n - 1) \<le> length buffer"
        using False k Suc.prems by simp_all
      have t: "take (i + 1) ?pb = take i pb @ [buffer ! pos]" "drop (i + 1 + x) ?pb = drop (i + 1 + x) pb" for x
        using Suc.prems(4) by (simp_all add: take_Suc_conv_app_nth)
      have m: "min (Suc k) n = Suc (min k (n - 1))" using Suc.prems(1) by (cases n) simp_all
      show ?thesis using False unfolding write_copy.simps get n1 z a1 bind.bind_lunit if_False Suc.IH [OF p] t m
        by (simp add: hd)
    qed
  qed
qed simp

definition neutral :: "(nat \<Rightarrow> u8) \<Rightarrow> nat \<Rightarrow> u8 list \<Rightarrow> bool" where
  "neutral c A pb \<longleftrightarrow> length pb = 32 \<and> (\<forall>j<32. c (A + j) AND pb ! j = c (A + j))"

lemma neutral_page: "neutral c A (map c [A..<A + 32])"
  by (simp add: neutral_def)

lemma neutral_ff: "neutral c A (replicate 32 0xFF)"
proof -
  have "(0xFF :: u8) = - 1" by simp
  then have "x AND (0xFF :: u8) = x" for x by (simp only: and.right_neutral)
  then show ?thesis by (simp add: neutral_def)
qed

lemma nor_program_append:
  "nor_program lk (a + length bs) cs (nor_program lk a bs c) = nor_program lk a (bs @ cs) c"
proof
  fix i
  show "nor_program lk (a + length bs) cs (nor_program lk a bs c) i = nor_program lk a (bs @ cs) c i"
    unfolding nor_program_def by (cases "i < a + length bs") (auto simp: nth_append)
qed

lemma nor_program_page:
  assumes pb: "neutral c A pb" and i: "i + length bs \<le> 32"
  shows "nor_program lk A (take i pb @ bs @ drop (i + length bs) pb) c = nor_program lk (A + i) bs c"
proof
  fix x
  have l: "length pb = 32" and nt: "\<And>j. j < 32 \<Longrightarrow> c (A + j) AND pb ! j = c (A + j)" using pb by (simp_all add: neutral_def)
  let ?pb = "take i pb @ bs @ drop (i + length bs) pb"
  have len: "length ?pb = 32" using l i by simp
  show "nor_program lk A ?pb c x = nor_program lk (A + i) bs c x"
  proof (cases "A \<le> x \<and> x < A + 32 \<and> \<not> lk x")
    case False
    then show ?thesis using i len unfolding nor_program_def by auto
  next
    case True
    obtain j where j: "x = A + j" "j < 32" using True by (metis le_Suc_ex nat_add_left_cancel_less)
    consider "j < i" | "i \<le> j" "j < i + length bs" | "i + length bs \<le> j" by linarith
    then show ?thesis
    proof cases
      case 1
      then have "?pb ! j = pb ! j" using l i by (simp add: nth_append)
      then show ?thesis using True j 1 nt [OF j(2)] len unfolding nor_program_def by simp
    next
      case 2
      then have "?pb ! j = bs ! (j - i)" using l i by (simp add: nth_append less_diff_conv2)
      then show ?thesis using True j 2 len unfolding nor_program_def by simp
    next
      case 3
      then have "?pb ! j = pb ! j" using l i j by (simp add: nth_append less_diff_conv2)
      then show ?thesis using True j 3 nt [OF j(2)] len unfolding nor_program_def by simp
    qed
  qed
qed

lemma program_page_ok:
  assumes chip: "flash_chip hw lk ob busy" and h: "idle ob busy h" and a: "a < 16777216" and pb: "length pb = 32"
  defines "r \<equiv> hw_rd hw REG_FLASH_OPERATE_SW (write_fifo hw (pb_words pb) h)"
  shows "\<exists>h'. flash_operate hw (of_nat a OR op_bits FLASH_OPCODE_PP OR (fst r AND WP_VALUE)) (snd r) = Some h' \<and>
    ob h' = (ob h)\<lparr>cells := nor_program (lk (ob_sr (ob h))) a pb (cells (ob h))\<rparr> \<and> idle ob busy h'"
proof -
  have w: "ob (snd r) = (ob h)\<lparr>fifo_out := pb_words pb\<rparr>" "busy (snd r) = 0"
    using write_fifo_ok [OF chip, of "pb_words pb" h] flash_chipD(1,2) [OF chip] h by (simp_all add: r_def idle_def)
  have ua: "unat (of_nat a :: u32) = a" using a by (simp add: unat_u32)
  have "unat (of_nat a :: u32) < 0x1000000" using ua a by simp
  note d = cmd_decode [OF this, of FLASH_OPCODE_PP "fst r"]
  have "fifo_out (ob h) = []" using h by (simp add: idle_def)
  then have "(ob h)\<lparr>fifo_out := []\<rparr> = ob h" by (cases "ob h") simp
  then show ?thesis
    using flash_operate_ok [OF chip w(2) d(1)] d(2,3) ua w(1) pb_words_bytes [OF pb] h
    by (auto simp: op_exec_def idle_def)
qed

lemma cells_update:
  "(o1\<lparr>cells := x\<rparr>)\<lparr>cells := y\<rparr> = o1\<lparr>cells := y\<rparr>" "cells (o1\<lparr>cells := x\<rparr>) = x" "ob_sr (o1\<lparr>cells := x\<rparr>) = ob_sr o1"
  by simp_all

lemma write_loop_ok:
  assumes chip: "flash_chip hw lk ob busy"
  shows "idle ob busy h \<Longrightarrow> a + n \<le> 16777216 \<Longrightarrow> pos + n \<le> length buffer \<Longrightarrow>
    neutral (cells (ob h)) (a div 32 * 32) pb \<Longrightarrow>
    \<exists>h'. write_loop hw pb buffer pos (of_nat (a div 32 * 32)) (of_nat a) (of_nat n) h = Some h' \<and>
      ob h' = (ob h)\<lparr>cells := nor_program (lk (ob_sr (ob h))) a (take n (drop pos buffer)) (cells (ob h))\<rparr> \<and> idle ob busy h'"
proof (induction n arbitrary: a pos pb h rule: less_induct)
  case (less n)
  let ?A = "a div 32 * 32" and ?i = "a mod 32" and ?m = "min (32 - a mod 32) n" and ?lk = "lk (ob_sr (ob h))"
  show ?case
  proof (cases "n = 0")
    case True
    have "(ob h)\<lparr>cells := cells (ob h)\<rparr> = ob h" by (cases "ob h") simp
    moreover have "nor_program ?lk a [] (cells (ob h)) = cells (ob h)" by (rule ext) (auto simp: nor_program_def)
    ultimately show ?thesis using True less.prems by (subst write_loop.simps) simp
  next
    case False
    have A: "?A < 16777216" "?A + ?i = a" "?i < 32" "?A + 32 \<le> 16777216"
      using less.prems(2) False div_mult_mod_eq [of a 32] by (linarith, simp_all)
    have n32: "n < 4294967296" "a < 4294967296" using less.prems(2) by simp_all
    have nz: "(of_nat n :: u32) \<noteq> 0" using False n32 of_nat_u32_eq [of n 0] by simp
    have l32: "(of_nat n :: u32) < 32 \<longleftrightarrow> n < 32" using n32 of_nat_u32_less [of n 32] by simp
    have io: "unat ((of_nat a :: u32) mod 32) = ?i" using page_offset n32 by blast
    obtain pb1 h1 where p1: "(if (of_nat n :: u32) < 32
        then do { (pb, h) \<leftarrow> flash_read_data hw (of_nat ?A) 32 h; h \<leftarrow> wait_busy hw h; Some (pb, h) }
        else Some (pb, h)) = Some (pb1, h1)" "ob h1 = ob h" "idle ob busy h1" "neutral (cells (ob h)) ?A pb1"
    proof (cases "n < 32")
      case True
      obtain h2 where h2: "flash_read_data hw (of_nat ?A) (of_nat 32) h = Some (map (cells (ob h)) [?A..<?A + 32], h2)"
        "ob h2 = ob h" "idle ob busy h2" using flash_read_data_ok [OF chip less.prems(1) A(4)] by blast
      obtain h3 where "wait_busy hw h2 = Some h3" "ob h3 = ob h2" "busy h3 = 0" using wait_busy_ok [OF chip] by blast
      then show thesis using that [of "map (cells (ob h)) [?A..<?A + 32]" h3] h2 True l32 neutral_page
        by (simp add: idle_def)
    next
      case False
      then show thesis using that [of pb h] less.prems l32 by simp
    qed
    let ?pb = "take ?i pb1 @ take ?m (drop pos buffer) @ drop (?i + ?m) pb1"
    have lpb: "length pb1 = 32" using p1(4) by (simp add: neutral_def)
    have cp: "write_copy (32 - ?i) ?i pb1 buffer pos (of_nat a) (of_nat n) =
        Some (?pb, pos + ?m, of_nat (a + ?m), of_nat (n - ?m))"
    proof (rule write_copy_ok)
      show "0 < n" "0 < 32 - ?i" using False A(3) by simp_all
      show "?i + (32 - ?i) \<le> length pb1" unfolding lpb using A(3) by linarith
    qed (use n32 less.prems(3) in simp_all)
    have lm: "length (take ?m (drop pos buffer)) = ?m" using less.prems(3) by simp
    have im: "?i + ?m \<le> 32" using A(3) by simp
    have l2: "length ?pb = 32" using lpb lm im by simp
    define r where "r = hw_rd hw REG_FLASH_OPERATE_SW (write_fifo hw (pb_words ?pb) h1)"
    obtain h4 where h4: "flash_operate hw (of_nat ?A OR op_bits FLASH_OPCODE_PP OR (fst r AND WP_VALUE)) (snd r) = Some h4"
      "ob h4 = (ob h1)\<lparr>cells := nor_program (lk (ob_sr (ob h1))) ?A ?pb (cells (ob h1))\<rparr>" "idle ob busy h4"
      using program_page_ok [OF chip p1(3) A(1) l2] unfolding r_def by blast
    have prog: "nor_program ?lk ?A ?pb (cells (ob h)) = nor_program ?lk a (take ?m (drop pos buffer)) (cells (ob h))"
      using nor_program_page [OF p1(4), of ?i "take ?m (drop pos buffer)" ?lk, unfolded lm A(2)] im by blast
    have o4: "ob h4 = (ob h)\<lparr>cells := nor_program ?lk a (take ?m (drop pos buffer)) (cells (ob h))\<rparr>"
      using h4(2) p1(2) prog by simp
    have step: "write_loop hw pb buffer pos (of_nat ?A) (of_nat a) (of_nat n) h =
        write_loop hw (replicate 32 0xFF) buffer (pos + ?m) (of_nat ?A + 32) (of_nat (a + ?m)) (of_nat (n - ?m)) h4"
      using nz p1(1) cp h4(1) io unfolding r_def
      by (subst write_loop.simps) (simp add: case_prod_beta Let_def)
    have m: "0 < ?m" "?m \<le> n" using A(3) False by simp_all
    show ?thesis
    proof (cases "n - ?m = 0")
      case True
      then have "n = ?m" using m by linarith
      then show ?thesis unfolding step using o4 h4(3) True by (subst write_loop.simps) simp
    next
      case more: False
      have mm: "?m = 32 - ?i" using more by (simp add: min_def split: if_splits)
      have a': "a + ?m = ?A + 32" unfolding mm using A(2,3) by linarith
      then have d: "(a + ?m) div 32 * 32 = ?A + 32" by simp
      have b: "(of_nat ?A :: u32) + 32 = of_nat ((a + ?m) div 32 * 32)" unfolding d by simp
      have lt: "n - ?m < n" using m by linarith
      have le: "a + ?m + (n - ?m) \<le> 16777216" "pos + ?m + (n - ?m) \<le> length buffer" using less.prems(2,3) m by simp_all
      obtain h' where h': "write_loop hw (replicate 32 0xFF) buffer (pos + ?m) (of_nat ((a + ?m) div 32 * 32))
          (of_nat (a + ?m)) (of_nat (n - ?m)) h4 = Some h'"
        "ob h' = (ob h4)\<lparr>cells := nor_program (lk (ob_sr (ob h4))) (a + ?m) (take (n - ?m) (drop (pos + ?m) buffer)) (cells (ob h4))\<rparr>"
        "idle ob busy h'"
        using less.IH [OF lt h4(3) le neutral_ff] by blast
      let ?b1 = "take ?m (drop pos buffer)" and ?b2 = "take (n - ?m) (drop (pos + ?m) buffer)"
      have tk: "take n (drop pos buffer) = ?b1 @ ?b2"
        using m take_add [of ?m "n - ?m" "drop pos buffer"] by (simp only: le_add_diff_inverse drop_drop add.commute)
      have fin: "ob h' = (ob h)\<lparr>cells := nor_program ?lk a (?b1 @ ?b2) (cells (ob h))\<rparr>"
        using h'(2) nor_program_append [of ?lk a ?b1 ?b2 "cells (ob h)", unfolded lm] unfolding o4 cells_update by simp
      show ?thesis unfolding step b tk using h'(1,3) fin by blast
    qed
  qed
qed

text \<open>A write inside the flash programs exactly the bytes given; one outside is dropped.\<close>

lemma flash_write_data_ok:
  assumes chip: "flash_chip hw lk ob busy" and "idle ob busy h" and "unat (flash_size cfg) \<le> 16777216"
    and "a + n \<le> unat (flash_size cfg)" "a < unat (flash_size cfg)" "n \<le> length buffer"
  shows "\<exists>h'. flash_write_data hw cfg buffer (of_nat a) (of_nat n) h = Some h' \<and>
    ob h' = (ob h)\<lparr>cells := nor_program (lk (ob_sr (ob h))) a (take n buffer) (cells (ob h))\<rparr> \<and> idle ob busy h'"
proof -
  let ?A = "a div 32 * 32"
  have lim: "a < 4294967296" "n < 4294967296" "?A + n < 4294967296" "?A < unat (flash_size cfg)" "?A \<le> a"
  proof -
    show "?A \<le> a" by simp
    show "a < 4294967296" "n < 4294967296" using assms(3-5) by linarith+
    show "?A + n < 4294967296" "?A < unat (flash_size cfg)" using \<open>?A \<le> a\<close> assms(3-5) by linarith+
  qed
  have c1: "\<not> flash_size cfg \<le> of_nat ?A" using lim by (simp add: word_le_nat_alt unat_u32 del: of_nat_mult)
  have c2: "\<not> flash_size cfg < of_nat n" using assms(4) lim by (simp add: word_less_nat_alt unat_u32)
  have c3: "\<not> flash_size cfg < of_nat ?A + of_nat n"
    using assms(4) lim unat_u32 [of "?A + n"] by (simp add: word_less_nat_alt)
  obtain pb h1 where p: "(if (of_nat a :: u32) mod 32 \<noteq> 0 then flash_read_data hw (of_nat ?A) 32 h else Some (replicate 32 0xFF, h)) = Some (pb, h1)"
    "ob h1 = ob h" "idle ob busy h1" "neutral (cells (ob h)) ?A pb"
  proof (cases "(of_nat a :: u32) mod 32 = 0")
    case True
    then show thesis using that [of "replicate 32 0xFF" h] assms(2) neutral_ff by simp
  next
    case False
    have "a div 32 < 524288" using lim(4) assms(3) by linarith
    then have "?A + 32 \<le> 16777216" by linarith
    from flash_read_data_ok [OF chip assms(2) this] obtain h1 where
      "flash_read_data hw (of_nat ?A) (of_nat 32) h = Some (map (cells (ob h)) [?A..<?A + 32], h1)" "ob h1 = ob h" "idle ob busy h1"
      by blast
    note r = this
    show thesis
    proof (rule that)
      have "flash_read_data hw (of_nat ?A) 32 h = Some (map (cells (ob h)) [?A..<?A + 32], h1)" using r(1) by (simp only: of_nat_numeral)
      then show "(if (of_nat a :: u32) mod 32 \<noteq> 0 then flash_read_data hw (of_nat ?A) 32 h else Some (replicate 32 0xFF, h)) =
          Some (map (cells (ob h)) [?A..<?A + 32], h1)" unfolding if_P [OF False] .
    qed (rule r(2) r(3) neutral_page)+
  qed
  obtain h2 where h2: "wait_busy hw h1 = Some h2" "ob h2 = ob h" "idle ob busy h2"
    using wait_busy_ok [OF chip, of h1] p(2,3) by (auto simp: idle_def)
  have "neutral (cells (ob h2)) ?A pb" using p(4) h2(2) by simp
  moreover have "a + n \<le> 16777216" "0 + n \<le> length buffer" using assms(3,4,6) by simp_all
  ultimately obtain h' where "write_loop hw pb buffer 0 (of_nat ?A) (of_nat a) (of_nat n) h2 = Some h'"
    "ob h' = (ob h)\<lparr>cells := nor_program (lk (ob_sr (ob h))) a (take n buffer) (cells (ob h))\<rparr>" "idle ob busy h'"
    using write_loop_ok [OF chip h2(3), of a n 0 buffer pb] unfolding h2(2) drop_0 by blast
  then show ?thesis using c1 c2 c3 p(1) h2(1) unfolding flash_write_data_def page_base Let_def by simp
qed

section \<open>The status register and protection\<close>

definition vis_sr :: "u8 \<Rightarrow> u16 \<Rightarrow> u16" where
  "vis_sr width sr = (if width = 2 then sr else sr AND 0xFF)"

lemma mask8: "bit (0xFF :: u16) n \<longleftrightarrow> n < 8" "bit (0xFF :: u32) n \<longleftrightarrow> n < 8" "bit (0xFF00 :: u16) n \<longleftrightarrow> 8 \<le> n \<and> n < 16"
  "bit (0xFFFF :: u32) n \<longleftrightarrow> n < 16"
proof -
  have m: "(0xFF :: u16) = mask 8" "(0xFF :: u32) = mask 8" "(0xFFFF :: u32) = mask 16" "(0xFF00 :: u16) = push_bit 8 (mask 8)"
    by (simp_all add: mask_eq_exp_minus_1)
  show "bit (0xFF :: u16) n \<longleftrightarrow> n < 8" unfolding m bit_mask_iff by auto
  show "bit (0xFF :: u32) n \<longleftrightarrow> n < 8" unfolding m bit_mask_iff by auto
  show "bit (0xFFFF :: u32) n \<longleftrightarrow> n < 16" unfolding m bit_mask_iff by auto
  show "bit (0xFF00 :: u16) n \<longleftrightarrow> 8 \<le> n \<and> n < 16" unfolding m bit_push_bit_iff bit_mask_iff by auto
qed

lemma command_ok:
  assumes "flash_chip hw lk ob busy" and "busy h = 0"
  shows "\<exists>h'. flash_operate hw (op_bits op OR WP_VALUE) h = Some h' \<and>
    ob h' = op_exec lk (op_bits op OR WP_VALUE) (ob h) \<and> busy h' = 0"
  by (rule flash_operate_ok [OF assms cmd_decode0(1)])

text \<open>What a command leaves as it was.\<close>

definition same_data :: "flash_ob \<Rightarrow> flash_ob \<Rightarrow> bool" where
  "same_data o1 o2 \<longleftrightarrow> cells o1 = cells o2 \<and> fifo_in o1 = fifo_in o2 \<and> fifo_out o1 = fifo_out o2"

lemma read_sr_value:
  assumes "(v1 :: u32) AND 0xFF = ucast (ucast sr :: u8)" and "(v2 :: u32) AND 0xFF = ucast (ucast (drop_bit 8 sr) :: u8)"
  shows "ucast (v1 AND 0xFF) = (sr :: u16) AND 0xFF" "ucast (v1 AND 0xFF) OR ucast (push_bit 8 (v2 AND 0xFF)) = sr"
proof -
  show "ucast (v1 AND 0xFF) = sr AND 0xFF" unfolding assms(1)
  proof (rule bit_word_eqI)
    fix n assume "n < LENGTH(16)"
    then show "bit (ucast (ucast (ucast sr :: u8) :: u32) :: u16) n \<longleftrightarrow> bit (sr AND 0xFF) n"
      unfolding bit_and_iff mask8 by (auto simp: bit_simps)
  qed
  show "ucast (v1 AND 0xFF) OR ucast (push_bit 8 (v2 AND 0xFF)) = sr" unfolding assms
    by (rule bit_word_eqI) (auto simp: bit_simps)
qed

lemma flash_read_sr_ok:
  assumes chip: "flash_chip hw lk ob busy" and h: "idle ob busy h"
  shows "\<exists>h'. flash_read_sr hw width h = Some (vis_sr width (ob_sr (ob h)), h') \<and>
    same_data (ob h') (ob h) \<and> ob_sr (ob h') = ob_sr (ob h) \<and> idle ob busy h'"
proof -
  let ?sr = "ob_sr (ob h)"
  obtain h0 where h0: "wait_busy hw h = Some h0" "ob h0 = ob h" "busy h0 = 0" using wait_busy_ok [OF chip] by blast
  obtain h1 where h1: "flash_operate hw (op_bits FLASH_OPCODE_RDSR OR WP_VALUE) h0 = Some h1"
    "ob h1 = (ob h)\<lparr>ob_srdata := ucast ?sr\<rparr>" "busy h1 = 0"
    using command_ok [OF chip h0(3), of FLASH_OPCODE_RDSR] h0(2) by (auto simp: op_exec_def cmd_decode0)
  let ?r1 = "hw_rd hw REG_FLASH_SR_DATA_CRC_CNT h1"
  have r1: "fst ?r1 AND 0xFF = ucast (ucast ?sr :: u8)" "ob (snd ?r1) = (ob h)\<lparr>ob_srdata := ucast ?sr\<rparr>" "busy (snd ?r1) = 0"
    using flash_chipD(15-17) [OF chip, of h1] h1 by simp_all
  obtain h2 where h2: "flash_operate hw (op_bits FLASH_OPCODE_RDSR2 OR WP_VALUE) (snd ?r1) = Some h2"
    "ob h2 = (ob h)\<lparr>ob_srdata := ucast (drop_bit 8 ?sr)\<rparr>" "busy h2 = 0"
    using command_ok [OF chip r1(3), of FLASH_OPCODE_RDSR2] r1(2) by (auto simp: op_exec_def cmd_decode0)
  let ?r2 = "hw_rd hw REG_FLASH_SR_DATA_CRC_CNT h2"
  have r2: "fst ?r2 AND 0xFF = ucast (ucast (drop_bit 8 ?sr) :: u8)" "ob (snd ?r2) = (ob h)\<lparr>ob_srdata := ucast (drop_bit 8 ?sr)\<rparr>" "busy (snd ?r2) = 0"
    using flash_chipD(15-17) [OF chip, of h2] h2 by simp_all
  show ?thesis
    using h0(1) h1(1) h2(1) r1(2,3) r2(2,3) read_sr_value [OF r1(1) r2(1)] h
    by (cases "width = 2") (simp_all add: flash_read_sr_def case_prod_beta Let_def vis_sr_def same_data_def idle_def)
qed

lemma conf_field_ok:
  assumes chip: "flash_chip hw lk ob busy"
  shows "ob (conf_field hw msk posi v h) = (ob h)\<lparr>ob_conf := (ob_conf (ob h) AND NOT (push_bit posi msk)) OR push_bit posi v\<rparr>"
    "busy (conf_field hw msk posi v h) = busy h"
  using flash_chipD(10-14) [OF chip] by (simp_all add: conf_field_def case_prod_beta Let_def)

lemma wrsr_value: "ucast (drop_bit 10 ((c AND NOT (push_bit 10 0x00FFFF)) OR push_bit 10 (ucast val :: u32))) = (val :: u16)"
proof (rule bit_word_eqI)
  fix n assume "n < LENGTH(16)"
  then show "bit (ucast (drop_bit 10 ((c AND NOT (push_bit 10 0x00FFFF)) OR push_bit 10 (ucast val :: u32))) :: u16) n \<longleftrightarrow> bit val n"
    unfolding bit_unsigned_iff bit_drop_bit_eq bit_or_iff bit_and_iff bit_not_iff bit_push_bit_iff mask8 o_apply
    by (auto simp: bit_unsigned_iff)
qed

definition sr_write :: "u8 \<Rightarrow> u16 \<Rightarrow> u16 \<Rightarrow> u16" where
  "sr_write width val sr = (if width = 1 then (sr AND 0xFF00) OR (val AND 0x00FF) else if width = 2 then val else sr)"

lemma flash_write_sr_ok:
  assumes chip: "flash_chip hw lk ob busy" and h: "idle ob busy h"
  shows "\<exists>h'. flash_write_sr hw width val h = Some h' \<and> same_data (ob h') (ob h) \<and>
    ob_sr (ob h') = sr_write width val (ob_sr (ob h)) \<and> idle ob busy h'"
proof -
  obtain h0 where h0: "wait_busy hw h = Some h0" "ob h0 = ob h" "busy h0 = 0" using wait_busy_ok [OF chip] by blast
  define h1 where "h1 = conf_field hw 0x00FFFF 10 (ucast val) h0"
  let ?c = "(ob_conf (ob h) AND NOT (push_bit 10 0x00FFFF)) OR push_bit 10 (ucast val)"
  have h1: "ob h1 = (ob h)\<lparr>ob_conf := ?c\<rparr>" "busy h1 = 0" using conf_field_ok [OF chip] h0 by (simp_all add: h1_def)
  obtain h2 where h2: "wait_busy hw h1 = Some h2" "ob h2 = (ob h)\<lparr>ob_conf := ?c\<rparr>" "busy h2 = 0"
    using wait_busy_ok [OF chip, of h1] h1 by auto
  define h3 where "h3 = (if width = 1 then hw_wr hw REG_FLASH_OPERATE_SW (op_bits FLASH_OPCODE_WRSR OR WP_VALUE) h2
      else if width = 2 then hw_wr hw REG_FLASH_OPERATE_SW (op_bits FLASH_OPCODE_WRSR2 OR WP_VALUE) h2 else h2)"
  have h3: "ob h3 = (ob h)\<lparr>ob_conf := ?c, ob_sr := sr_write width val (ob_sr (ob h))\<rparr>"
  proof -
    have "(ob h)\<lparr>ob_conf := ?c, ob_sr := ob_sr (ob h)\<rparr> = (ob h)\<lparr>ob_conf := ?c\<rparr>" by (cases "ob h") simp
    then show ?thesis using flash_chipD(4) [OF chip h2(3) cmd_decode0(1)] h2(2) wrsr_value [of "ob_conf (ob h)" val]
      by (auto simp: h3_def sr_write_def op_exec_def cmd_decode0 Let_def)
  qed
  obtain h4 where "wait_busy hw h3 = Some h4" "ob h4 = ob h3" "busy h4 = 0" using wait_busy_ok [OF chip] by blast
  then show ?thesis using h0(1) h2(1) h3 h
    by (auto simp: flash_write_sr_def h1_def [symmetric] h3_def [symmetric] Let_def same_data_def idle_def)
qed

text \<open>The protection setting a value of the status register holds, and the register after setting one.\<close>

definition prot_bits :: "flash_config \<Rightarrow> u16 \<Rightarrow> u16" where
  "prot_bits cfg sr =
     push_bit 8 (drop_bit (unat (cmp_post cfg)) (vis_sr (sr_size cfg) sr) AND 1) OR
     (drop_bit (unat (protect_post cfg)) (vis_sr (sr_size cfg) sr) AND ucast (protect_mask cfg))"

definition sr_set :: "flash_config \<Rightarrow> u16 \<Rightarrow> u16 \<Rightarrow> u16" where
  "sr_set cfg v sr =
     (let p = unat (protect_post cfg); c = unat (cmp_post cfg); m = ucast (protect_mask cfg)
      in (((sr AND NOT (push_bit p m)) OR push_bit p (v AND 0xFF)) AND NOT (push_bit c 1)) OR push_bit c (drop_bit 8 v AND 1))"

text \<open>What the entries of the configuration table have in common.\<close>

definition cfg_ok :: "flash_config \<Rightarrow> bool" where
  "cfg_ok cfg \<longleftrightarrow>
     (sr_size cfg = 1 \<or> sr_size cfg = 2) \<and> unat (protect_post cfg) + 5 \<le> 8 * unat (sr_size cfg) \<and>
     unat (cmp_post cfg) < 8 * unat (sr_size cfg) \<and>
     (unat (cmp_post cfg) < unat (protect_post cfg) \<or> unat (protect_post cfg) + 5 \<le> unat (cmp_post cfg)) \<and>
     protect_mask cfg AND NOT 0x1F = 0 \<and> line_mode cfg \<noteq> 4 \<and> unat (flash_size cfg) \<le> 16777216 \<and>
     list_all (\<lambda>v. v AND NOT (0x100 OR ucast (protect_mask cfg)) = 0)
       [protect_all cfg, protect_none cfg, protect_half cfg, unprotect_last_block cfg]"

lemma config_tbl_ok: "list_all cfg_ok flash_config_tbl"
  by (simp add: flash_config_tbl_def cfg_ok_def flash_cfg_def)

lemma mask_bits16: "bit (0x100 :: u16) n \<longleftrightarrow> n = 8" "bit (0x1F :: u8) n \<longleftrightarrow> n < 5"
proof -
  have m: "(0x100 :: u16) = push_bit 8 1" "(0x1F :: u8) = mask 5" by (simp_all add: mask_eq_exp_minus_1)
  show "bit (0x100 :: u16) n \<longleftrightarrow> n = 8" unfolding m bit_push_bit_iff bit_1_iff by auto
  show "bit (0x1F :: u8) n \<longleftrightarrow> n < 5" unfolding m bit_mask_iff by auto
qed

lemma cfg_okD:
  assumes "cfg_ok cfg"
  shows "bit (protect_mask cfg) n \<Longrightarrow> n < 5"
    and "bit (protect_value cfg t) n \<Longrightarrow> n = 8 \<or> bit (protect_mask cfg) n"
proof -
  show "n < 5" if "bit (protect_mask cfg) n"
  proof (rule ccontr)
    assume "\<not> n < 5"
    then have "bit (protect_mask cfg AND NOT 0x1F) n" unfolding bit_and_iff bit_not_iff mask_bits16
      using that bit_imp_le_length [OF that] by auto
    then show False using assms by (simp add: cfg_ok_def)
  qed
  have "protect_value cfg t AND NOT (0x100 OR ucast (protect_mask cfg)) = 0"
    using assms by (simp add: cfg_ok_def protect_value_def)
  then have "\<not> bit (protect_value cfg t AND NOT (0x100 OR ucast (protect_mask cfg))) n" by simp
  then show "n = 8 \<or> bit (protect_mask cfg) n" if "bit (protect_value cfg t) n"
    using that bit_imp_le_length [OF that]
    unfolding bit_and_iff bit_not_iff bit_or_iff mask_bits16 bit_unsigned_iff by auto
qed

text \<open>The bits of the new status register.\<close>

lemma bit_sr_set:
  assumes "cfg_ok cfg" and "n < 16"
  shows "bit (sr_set cfg (protect_value cfg t) sr) n \<longleftrightarrow>
    (if n = unat (cmp_post cfg) then bit (protect_value cfg t) 8
     else if unat (protect_post cfg) \<le> n \<and> bit (protect_mask cfg) (n - unat (protect_post cfg))
     then bit (protect_value cfg t) (n - unat (protect_post cfg)) else bit sr n)"
proof -
  have r: "bit (protect_value cfg t) (n - unat (protect_post cfg)) \<Longrightarrow> n - unat (protect_post cfg) < 8 \<Longrightarrow>
      bit (protect_mask cfg) (n - unat (protect_post cfg))"
    using cfg_okD(2) [OF assms(1)] by fastforce
  have m: "bit (protect_mask cfg) (n - unat (protect_post cfg)) \<Longrightarrow> n - unat (protect_post cfg) < 5"
    using cfg_okD(1) [OF assms(1)] .
  show ?thesis using assms(2) r m
    unfolding sr_set_def Let_def bit_or_iff bit_and_iff bit_not_iff bit_push_bit_iff mask8 bit_1_iff bit_unsigned_iff bit_drop_bit_eq o_apply
    by (auto dest: bit_imp_le_length)
qed

lemma prot_bits_set:
  assumes "cfg_ok cfg"
  shows "prot_bits cfg (sr_set cfg (protect_value cfg t) sr) = protect_value cfg t"
proof (rule bit_word_eqI)
  fix n assume n: "n < LENGTH(16)"
  let ?p = "unat (protect_post cfg)" and ?c = "unat (cmp_post cfg)" and ?v = "protect_value cfg t"
  let ?s = "sr_set cfg ?v sr"
  have w: "?c < 8 * unat (sr_size cfg)" "?p + 5 \<le> 8 * unat (sr_size cfg)" "?c < ?p \<or> ?p + 5 \<le> ?c"
    "sr_size cfg = 1 \<or> sr_size cfg = 2"
    using assms unfolding cfg_ok_def by blast+
  have vis: "bit (vis_sr (sr_size cfg) ?s) k \<longleftrightarrow> bit ?s k" if "k < 8 * unat (sr_size cfg)" for k
    using w(4) that unfolding vis_sr_def if_distrib [of "\<lambda>w. bit w k"] bit_and_iff mask8 by auto
  have 1: "bit (vis_sr (sr_size cfg) ?s) ?c \<longleftrightarrow> bit ?v 8"
    using vis [OF w(1)] bit_sr_set [OF assms, of ?c t sr] w(1,4) by auto
  have 2: "bit (vis_sr (sr_size cfg) ?s) (?p + n) \<longleftrightarrow> bit ?v n" if "bit (protect_mask cfg) n"
  proof -
    have "n < 5" using cfg_okD(1) [OF assms that] .
    then have "?p + n < 8 * unat (sr_size cfg)" "?p + n \<noteq> ?c" "?p + n < 16" using w by auto
    then show ?thesis using vis bit_sr_set [OF assms, of "?p + n" t sr] that by auto
  qed
  have "bit (prot_bits cfg ?s) n \<longleftrightarrow> n = 8 \<and> bit ?v 8 \<or> bit (protect_mask cfg) n \<and> bit ?v n"
    unfolding prot_bits_def bit_or_iff bit_and_iff bit_push_bit_iff bit_drop_bit_eq bit_1_iff bit_unsigned_iff o_apply
    using 1 2 n by (auto dest: bit_imp_le_length)
  then show "bit (prot_bits cfg ?s) n \<longleftrightarrow> bit ?v n" using cfg_okD(2) [OF assms, of t n] by auto
qed

lemma set_protect_sr:
  fixes cfg t sr
  defines "p \<equiv> unat (protect_post cfg)" and "c \<equiv> unat (cmp_post cfg)"
  defines "param \<equiv> ucast (protect_value cfg t AND 0xff) :: u32" and "cm \<equiv> ucast (drop_bit 8 (protect_value cfg t) AND 0xff) :: u32"
  defines "value \<equiv> ucast (vis_sr (sr_size cfg) sr) :: u32" and "msk \<equiv> push_bit (unat (protect_post cfg)) (ucast (protect_mask cfg)) :: u32"
  assumes ok: "cfg_ok cfg"
  shows "sr_write (sr_size cfg) (ucast ((((value AND NOT msk) OR push_bit p param) AND NOT (push_bit c 1)) OR push_bit c (cm AND 1))) sr =
      sr_set cfg (protect_value cfg t) sr" (is ?written)
    and "push_bit p param = value AND msk \<Longrightarrow> push_bit c cm = value AND push_bit c 1 \<Longrightarrow>
      sr_set cfg (protect_value cfg t) sr = sr" (is "_ \<Longrightarrow> _ \<Longrightarrow> ?kept")
proof -
  let ?v = "protect_value cfg t" and ?w = "8 * unat (sr_size cfg)"
  have w: "c < ?w" "p + 5 \<le> ?w" "c < p \<or> p + 5 \<le> c" "sr_size cfg = 1 \<or> sr_size cfg = 2"
    using ok unfolding cfg_ok_def p_def c_def by blast+
  have w16: "?w = 8 \<or> ?w = 16" "?w \<le> 16" using w(4) by auto
  note pm = cfg_okD(1) [OF ok] and pv = cfg_okD(2) [OF ok, where t = t]
  have bparam: "bit param n \<longleftrightarrow> n < 8 \<and> bit ?v n" for n
    unfolding param_def bit_unsigned_iff bit_and_iff mask8 by auto
  have bcm: "bit cm n \<longleftrightarrow> n = 0 \<and> bit ?v 8" for n
  proof -
    have "bit ?v (8 + n) \<Longrightarrow> n = 0" using pv [where n = "8 + n"] pm [of "8 + n"] by auto
    then show ?thesis unfolding cm_def bit_unsigned_iff bit_and_iff mask8 bit_drop_bit_eq o_apply by auto
  qed
  have bval: "bit value n \<longleftrightarrow> n < ?w \<and> bit sr n" for n
  proof (cases "sr_size cfg = 2")
    case True
    then show ?thesis unfolding value_def vis_sr_def bit_unsigned_iff using bit_imp_le_length [of sr n] by auto
  next
    case False
    then show ?thesis using w(4) bit_imp_le_length [of sr n] unfolding value_def vis_sr_def if_not_P [OF False] bit_unsigned_iff bit_and_iff mask8 by auto
  qed
  have bmsk: "bit msk n \<longleftrightarrow> p \<le> n \<and> bit (protect_mask cfg) (n - p)" for n
  proof -
    have "bit (protect_mask cfg) (n - p) \<Longrightarrow> p \<le> n \<Longrightarrow> n < 32" using pm [of "n - p"] w w16 by linarith
    then show ?thesis unfolding msk_def p_def [symmetric] bit_push_bit_iff bit_unsigned_iff by (auto dest: bit_imp_le_length)
  qed
  have set: "bit (sr_set cfg ?v sr) n \<longleftrightarrow> (if n = c then bit ?v 8
     else if p \<le> n \<and> bit (protect_mask cfg) (n - p) then bit ?v (n - p) else bit sr n)" if "n < 16" for n
    using bit_sr_set [OF ok that, of t sr] unfolding p_def c_def .
  have high: "bit ?v (n - p) \<Longrightarrow> p \<le> n \<Longrightarrow> n - p < 8 \<Longrightarrow> bit (protect_mask cfg) (n - p)" for n
    using pv [where n = "n - p"] by auto
  have mlow: "bit (protect_mask cfg) (n - p) \<Longrightarrow> p \<le> n \<Longrightarrow> n < ?w \<and> n \<noteq> c \<and> n - p < 8" for n
    using pm [of "n - p"] w by auto
  let ?x = "(((value AND NOT msk) OR push_bit p param) AND NOT (push_bit c 1)) OR push_bit c (cm AND 1)"
  have bx: "bit ?x n \<longleftrightarrow> (if n = c then bit ?v 8 else if p \<le> n \<and> bit (protect_mask cfg) (n - p) then bit ?v (n - p)
      else n < ?w \<and> bit sr n)" if "n < 16" for n
    using that high [of n] mlow [of n] w(1) w16
    unfolding bit_or_iff bit_and_iff bit_not_iff bit_push_bit_iff bit_1_iff bparam bcm bval bmsk by auto
  define x where "x = ?x"
  note bx = bx [folded x_def]
  show ?written unfolding x_def [symmetric]
  proof (rule bit_word_eqI)
    fix n assume n: "n < LENGTH(16)"
    then have n16: "n < 16" by simp
    have ux: "bit (ucast x :: u16) n \<longleftrightarrow> bit x n" using n16 by (simp add: bit_unsigned_iff)
    show "bit (sr_write (sr_size cfg) (ucast x) sr) n \<longleftrightarrow> bit (sr_set cfg ?v sr) n"
    proof (cases "sr_size cfg = 1")
      case True
      have "n \<noteq> c \<and> \<not> (p \<le> n \<and> bit (protect_mask cfg) (n - p))" if "8 \<le> n"
        using that True w(1) mlow [of n] by auto
      then show ?thesis using True unfolding sr_write_def if_P [OF True] bit_or_iff bit_and_iff mask8 ux bx [OF n16] set [OF n16]
        using n16 by auto
    next
      case False
      then have s2: "sr_size cfg = 2" using w(4) by simp
      then show ?thesis unfolding sr_write_def if_not_P [OF False] if_P [OF s2] ux bx [OF n16] set [OF n16] using n16 by auto
    qed
  qed
  assume e1: "push_bit p param = value AND msk" and e2: "push_bit c cm = value AND push_bit c 1"
  show ?kept
  proof (rule bit_word_eqI)
    fix n assume "n < LENGTH(16)"
    then have n16: "n < 16" by simp
    have 1: "bit sr n \<longleftrightarrow> bit ?v (n - p)" if "p \<le> n" "bit (protect_mask cfg) (n - p)"
      using arg_cong [OF e1, of "\<lambda>w. bit w n"] that mlow [OF that(2,1)] n16
      unfolding bit_and_iff bit_push_bit_iff bparam bval bmsk by auto
    have 2: "bit sr c \<longleftrightarrow> bit ?v 8"
      using arg_cong [OF e2, of "\<lambda>w. bit w c"] w(1) w16
      unfolding bit_and_iff bit_push_bit_iff bcm bval bit_1_iff by auto
    show "bit (sr_set cfg ?v sr) n \<longleftrightarrow> bit sr n" unfolding set [OF n16] using 1 2 by auto
  qed
qed

lemma set_flash_protect_ok:
  assumes chip: "flash_chip hw lk ob busy" and h: "idle ob busy h" and ok: "cfg_ok cfg"
  shows "\<exists>h'. set_flash_protect hw cfg t h = Some h' \<and> same_data (ob h') (ob h) \<and>
    ob_sr (ob h') = sr_set cfg (protect_value cfg t) (ob_sr (ob h)) \<and> idle ob busy h'"
proof -
  let ?sr = "ob_sr (ob h)"
  obtain h1 where h1: "flash_read_sr hw (sr_size cfg) h = Some (vis_sr (sr_size cfg) ?sr, h1)"
    "same_data (ob h1) (ob h)" "ob_sr (ob h1) = ?sr" "idle ob busy h1" using flash_read_sr_ok [OF chip h] by blast
  note sr = set_protect_sr [OF ok, where t = t and sr = ?sr]
  show ?thesis
  proof (cases "push_bit (unat (protect_post cfg)) (ucast (protect_value cfg t AND 0xff) :: u32) \<noteq>
      ucast (vis_sr (sr_size cfg) ?sr) AND push_bit (unat (protect_post cfg)) (ucast (protect_mask cfg)) \<or>
      push_bit (unat (cmp_post cfg)) (ucast (drop_bit 8 (protect_value cfg t) AND 0xff) :: u32) \<noteq>
      ucast (vis_sr (sr_size cfg) ?sr) AND push_bit (unat (cmp_post cfg)) 1")
    case False
    then have "sr_set cfg (protect_value cfg t) ?sr = ?sr" using sr(2) by blast
    then show ?thesis using h1 False unfolding set_flash_protect_def Let_def by simp
  next
    case True
    define x :: u32 where "x = (((ucast (vis_sr (sr_size cfg) ?sr) AND NOT (push_bit (unat (protect_post cfg)) (ucast (protect_mask cfg)))) OR
      push_bit (unat (protect_post cfg)) (ucast (protect_value cfg t AND 0xff))) AND NOT (push_bit (unat (cmp_post cfg)) 1)) OR
      push_bit (unat (cmp_post cfg)) (ucast (drop_bit 8 (protect_value cfg t) AND 0xff) AND 1)"
    obtain h2 where "flash_write_sr hw (sr_size cfg) (ucast x) h1 = Some h2" "same_data (ob h2) (ob h1)"
      "ob_sr (ob h2) = sr_write (sr_size cfg) (ucast x) ?sr" "idle ob busy h2"
      using flash_write_sr_ok [OF chip h1(4)] h1(3) by metis
    then show ?thesis using h1(1,2) sr(1) unfolding set_flash_protect_def Let_def h1(1) bind.bind_lunit prod.case if_P [OF True] x_def [symmetric]
      by (auto simp: same_data_def)
  qed
qed

lemma get_flash_protect_ok:
  assumes chip: "flash_chip hw lk ob busy" and h: "idle ob busy h"
  shows "\<exists>h'. get_flash_protect hw cfg h =
      Some (let v = prot_bits cfg (ob_sr (ob h)) in
        if v = protect_all cfg then FLASH_PROTECT_ALL else if v = protect_none cfg then FLASH_PROTECT_NONE
        else if v = protect_half cfg then FLASH_PROTECT_HALF
        else if v = unprotect_last_block cfg then FLASH_UNPROTECT_LAST_BLOCK else 0xFFFF, h') \<and>
    same_data (ob h') (ob h) \<and> ob_sr (ob h') = ob_sr (ob h) \<and> idle ob busy h'"
  using flash_read_sr_ok [OF chip h, of "sr_size cfg"] by (auto simp: get_flash_protect_def prot_bits_def Let_def)

lemma sector_base:
  assumes "a < 16777216"
  shows "(of_nat a :: u32) AND 0xFFF000 = of_nat (a div 4096 * 4096)"
proof (rule bit_word_eqI)
  fix n assume n: "n < LENGTH(32)"
  have m: "(0xFFF000 :: u32) = push_bit 12 (mask 12)" by (simp add: mask_eq_exp_minus_1)
  have "take_bit 24 a = a" using assms by (simp add: take_bit_nat_eq_self_iff)
  then have "bit a n \<Longrightarrow> n < 24" by (metis bit_take_bit_iff)
  moreover have "a div 4096 * 4096 = push_bit 12 (drop_bit 12 a)" by (simp add: push_bit_eq_mult drop_bit_eq_div)
  ultimately show "bit ((of_nat a :: u32) AND 0xFFF000) n \<longleftrightarrow> bit (of_nat (a div 4096 * 4096) :: u32) n"
    using n unfolding m bit_and_iff bit_push_bit_iff bit_mask_iff
    by (auto simp: bit_of_nat_iff bit_push_bit_iff bit_drop_bit_eq)
qed

lemma flash_erase_sector_ok:
  assumes chip: "flash_chip hw lk ob busy" and h: "idle ob busy h" and sz: "unat (flash_size cfg) \<le> 16777216"
    and a: "a div 4096 * 4096 < unat (flash_size cfg)"
  shows "\<exists>h'. flash_erase_sector hw cfg (of_nat a) h = Some h' \<and>
    ob h' = (ob h)\<lparr>cells := nor_erase (lk (ob_sr (ob h))) (a div 4096 * 4096) 4096 (cells (ob h))\<rparr> \<and> idle ob busy h'"
proof -
  let ?A = "a div 4096 * 4096"
  have "a div 4096 < 4096" using a sz by linarith
  then have lim: "a < 16777216" "?A < 16777216" using div_mult_mod_eq [of a 4096] mod_less_divisor [of 4096 a] by linarith+
  have uA: "unat (of_nat ?A :: u32) = ?A" using lim(2) by (intro unat_u32) simp
  have ge: "\<not> flash_size cfg \<le> of_nat ?A" unfolding word_le_nat_alt uA using a by simp
  obtain h0 where h0: "wait_busy hw h = Some h0" "ob h0 = ob h" "busy h0 = 0" using wait_busy_ok [OF chip] by blast
  let ?r = "hw_rd hw REG_FLASH_OPERATE_SW h0"
  have r: "ob (snd ?r) = ob h" "busy (snd ?r) = 0" using flash_chipD(1,2) [OF chip, of h0] h0 by simp_all
  have "unat (of_nat ?A :: u32) < 0x1000000" unfolding uA using lim by simp
  note d = cmd_decode [OF this, of FLASH_OPCODE_SE "fst ?r"]
  obtain h1 where h1: "flash_operate hw (of_nat ?A OR op_bits FLASH_OPCODE_SE OR (fst ?r AND WP_VALUE)) (snd ?r) = Some h1"
    "ob h1 = op_exec lk (of_nat ?A OR op_bits FLASH_OPCODE_SE OR (fst ?r AND WP_VALUE)) (ob h)" "busy h1 = 0"
    using flash_operate_ok [OF chip r(2) d(1)] r(1) by auto
  have "?A div 4096 * 4096 = ?A" by simp
  then have "ob h1 = (ob h)\<lparr>cells := nor_erase (lk (ob_sr (ob h))) ?A 4096 (cells (ob h))\<rparr>"
    using h1(2) unfolding op_exec_def Let_def d(2,3) uA by simp
  then show ?thesis using h0(1) h1(1,3) h ge unfolding flash_erase_sector_def sector_base [OF lim(1)] Let_def
    by (simp add: case_prod_beta idle_def)
qed

end
