(* ===== verification/FlashDev.thy ===== *)
theory FlashDev
  imports FlashSpec
begin

text \<open>
  The flash as its users see it: the device \<^verbatim>\<open>"flash"\<close> in the table of the device model, with the
  driver of FlashDrv behind it and a chip that keeps the promises of FlashSpec. \<open>flash_up\<close> is the
  invariant of that stack; the lemmas say what opening, closing, reading, writing, erasing and the
  protection commands do to the bytes (\<open>fcells\<close>) and to the status register (\<open>fsr\<close>).
\<close>

section \<open>The stack\<close>

record 'h chip =
  ch_hw :: "'h flash_hw"
  ch_lk :: "u16 \<Rightarrow> nat \<Rightarrow> bool"
  ch_ob :: "'h \<Rightarrow> flash_ob"
  ch_busy :: "'h \<Rightarrow> nat"
  ch_env :: flash_env

definition chip_ok :: "'h chip \<Rightarrow> bool" where
  "chip_ok C \<longleftrightarrow> flash_chip (ch_hw C) (ch_lk C) (ch_ob C) (ch_busy C)"

definition fobs :: "'h chip \<Rightarrow> 'h flash_drv drv \<Rightarrow> flash_ob" where
  "fobs C d = ch_ob C (fl_hw (world d))"

definition fcells :: "'h chip \<Rightarrow> 'h flash_drv drv \<Rightarrow> nat \<Rightarrow> u8" where
  "fcells C d = cells (fobs C d)"

definition fsr :: "'h chip \<Rightarrow> 'h flash_drv drv \<Rightarrow> u16" where
  "fsr C d = ob_sr (fobs C d)"

definition flash_up :: "'h chip \<Rightarrow> flash_config \<Rightarrow> nat \<Rightarrow> 'h flash_drv drv \<Rightarrow> bool" where
  "flash_up C cfg k d \<longleftrightarrow> dev_at d FLASH_DEV_NAME k \<and> dv_state (dev_tbl d ! k) \<in> {CLOSED, OPENED} \<and>
     dv_op (dev_tbl d ! k) = Some (flash_op (ch_hw C) (ch_env C)) \<and>
     flash_current_config (world d) = Some cfg \<and> idle (ch_ob C) (ch_busy C) (fl_hw (world d))"

text \<open>Operations of the stack that leave the bytes and the status register alone.\<close>

definition same_flash :: "'h chip \<Rightarrow> 'h flash_drv drv \<Rightarrow> 'h flash_drv drv \<Rightarrow> bool" where
  "same_flash C d e \<longleftrightarrow> fcells C e = fcells C d \<and> fsr C e = fsr C d"

lemma same_flash_refl [simp]: "same_flash C d d"
  by (simp add: same_flash_def)

lemma same_flash_trans: "same_flash C d e \<Longrightarrow> same_flash C e f \<Longrightarrow> same_flash C d f"
  by (simp add: same_flash_def)

lemma flash_op_simps [simp]:
  "op_open (flash_op hw env) = None" "op_close (flash_op hw env) = None"
  "op_read (flash_op hw env) = Some (flash_read hw)" "op_write (flash_op hw env) = Some (flash_write hw)"
  "op_control (flash_op hw env) = Some (flash_ctrl hw env)"
  by (simp_all add: flash_op_def)

lemma flash_up_world:
  assumes "flash_up C cfg k d" "flash_current_config s = Some cfg" "idle (ch_ob C) (ch_busy C) (fl_hw s)"
  shows "flash_up C cfg k (d\<lparr>world := s\<rparr>)"
  using assms by (simp add: flash_up_def dev_at_def)

lemma flash_up_put:
  assumes "flash_up C cfg k d" "dv_name e = dv_name (dev_tbl d ! k)" "dv_op e = dv_op (dev_tbl d ! k)"
    "dv_state e \<in> {CLOSED, OPENED}"
  shows "flash_up C cfg k ((put_dev k e d)\<lparr>world := world d\<rparr>)" "flash_up C cfg k (put_dev k e d)"
proof -
  have k: "k < length (dev_tbl d)" using assms(1) by (simp add: flash_up_def dev_at_def)
  show "flash_up C cfg k ((put_dev k e d)\<lparr>world := world d\<rparr>)" "flash_up C cfg k (put_dev k e d)"
    using assms dev_at_put [of d FLASH_DEV_NAME k e k] put_dev_at [OF k] by (simp_all add: flash_up_def)
qed

section \<open>Opening and closing\<close>

lemma flash_open_ok:
  assumes "flash_up C cfg k d"
  shows "\<exists>st d'. ddev_open (Some FLASH_DEV_NAME) (Some s0) flag d = Some (dev_handle k, Some st, d') \<and>
    flash_up C cfg k d' \<and> world d' = world d \<and> dev_handle k \<noteq> DD_HANDLE_UNVALID"
proof -
  have at: "dev_at d FLASH_DEV_NAME k" and op: "dv_op (dev_tbl d ! k) = Some (flash_op (ch_hw C) (ch_env C))"
    using assms by (simp_all add: flash_up_def)
  have k: "k < DD_MAX_DEV" using at by (simp add: dev_at_def)
  show ?thesis
  proof (cases "dv_state (dev_tbl d ! k) = CLOSED")
    case True
    have "open_does (dev_tbl d ! k) flag (\<lambda>w. w)" using op by (simp add: open_does_def)
    from ddev_open_first [OF at True this, of s0] obtain st where
      "ddev_open (Some FLASH_DEV_NAME) (Some s0) flag d = Some (dev_handle k, Some st,
        (put_dev k ((dev_tbl d ! k)\<lparr>dv_state := OPENED, use_cnt := 1\<rparr>) d)\<lparr>world := world d\<rparr>)" by blast
    then show ?thesis
      using handles(4) [OF k] flash_up_put(1) [OF assms, of "(dev_tbl d ! k)\<lparr>dv_state := OPENED, use_cnt := 1\<rparr>"] by auto
  next
    case False
    then have "dv_state (dev_tbl d ! k) = OPENED" using assms by (simp add: flash_up_def)
    from ddev_open_again [OF at this, of s0 flag] show ?thesis
      using handles(4) [OF k] assms
        flash_up_put(2) [OF assms, of "(dev_tbl d ! k)\<lparr>use_cnt := use_cnt (dev_tbl d ! k) + 1\<rparr>"]
      by (auto simp: flash_up_def)
  qed
qed

lemma flash_close_ok:
  assumes "flash_up C cfg k d"
  shows "\<exists>d'. ddev_close (dev_handle k) d = Some (DRV_SUCCESS, d') \<and> flash_up C cfg k d' \<and> world d' = world d"
proof -
  have k: "k < DD_MAX_DEV" "length (dev_tbl d) = DD_MAX_DEV" using assms by (simp_all add: flash_up_def dev_at_def)
  show ?thesis
  proof (cases "use_cnt (dev_tbl d ! k) = 1")
    case True
    have "close_does (dev_tbl d ! k) (\<lambda>w. w)" using assms by (simp add: close_does_def flash_up_def)
    from ddev_close_last [OF k True this] show ?thesis
      using flash_up_put(1) [OF assms, of "(dev_tbl d ! k)\<lparr>use_cnt := 0, dv_state := CLOSED\<rparr>"] by auto
  next
    case False
    from ddev_close_more [OF k False] show ?thesis using assms
      flash_up_put(2) [OF assms, of "(dev_tbl d ! k)\<lparr>use_cnt := use_cnt (dev_tbl d ! k) - 1\<rparr>"]
      by (auto simp: flash_up_def)
  qed
qed

lemma flash_dispatch:
  assumes "flash_up C cfg k d"
  shows "ddev_get_id_from_handle (dev_handle k) = of_nat k" "(of_nat k :: u32) \<noteq> DD_ID_UNVALID" "unat (of_nat k :: u32) = k"
    "aget (dev_tbl d) k = Some (dev_tbl d ! k)" "dv_op (dev_tbl d ! k) = Some (flash_op (ch_hw C) (ch_env C))"
  using assms handles [of k] by (simp_all add: flash_up_def dev_at_def aget_def)

section \<open>Reading, writing, erasing\<close>

lemma flash_read_dev:
  assumes C: "chip_ok C" and up: "flash_up C cfg k d" and n: "a + n \<le> 16777216"
  shows "\<exists>d'. ddev_read (dev_handle k) (of_nat n) (of_nat a) d = Some (FLASH_SUCCESS, Some (map (fcells C d) [a..<a + n]), d') \<and>
    flash_up C cfg k d' \<and> same_flash C d d'"
proof -
  have h: "idle (ch_ob C) (ch_busy C) (fl_hw (world d))" "flash_current_config (world d) = Some cfg"
    using up by (simp_all add: flash_up_def)
  obtain h' where h': "flash_read_data (ch_hw C) (of_nat a) (of_nat n) (fl_hw (world d)) =
      Some (map (fcells C d) [a..<a + n], h')" "ch_ob C h' = fobs C d" "idle (ch_ob C) (ch_busy C) h'"
    using flash_read_data_ok [OF C [unfolded chip_ok_def] h(1) n] by (auto simp: fcells_def fobs_def)
  let ?s = "(world d)\<lparr>peri_busy_count := peri_busy_count (world d) + 1 - 1, fl_hw := h'\<rparr>"
  have "flash_up C cfg k (d\<lparr>world := ?s\<rparr>)" using up h h' by (intro flash_up_world) simp_all
  moreover have "same_flash C d (d\<lparr>world := ?s\<rparr>)" using h'(2) by (simp add: same_flash_def fcells_def fsr_def fobs_def)
  ultimately show ?thesis using flash_dispatch [OF up] h'(1)
    by (simp add: ddev_read_def flash_read_def Let_def)
qed

lemma flash_write_dev:
  assumes C: "chip_ok C" and up: "flash_up C cfg k d" and cfg: "cfg_ok cfg"
    and n: "a + n \<le> unat (flash_size cfg)" "a < unat (flash_size cfg)" "n \<le> length buffer"
  shows "\<exists>d'. ddev_write (dev_handle k) buffer (of_nat n) (of_nat a) d = Some (FLASH_SUCCESS, d') \<and> flash_up C cfg k d' \<and>
    fcells C d' = nor_program (ch_lk C (fsr C d)) a (take n buffer) (fcells C d) \<and> fsr C d' = fsr C d"
proof -
  have h: "idle (ch_ob C) (ch_busy C) (fl_hw (world d))" "flash_current_config (world d) = Some cfg"
    using up by (simp_all add: flash_up_def)
  have "unat (flash_size cfg) \<le> 16777216" "line_mode cfg \<noteq> 4" using cfg by (simp_all add: cfg_ok_def)
  note lm = this
  obtain h' where h': "flash_write_data (ch_hw C) cfg buffer (of_nat a) (of_nat n) (fl_hw (world d)) = Some h'"
    "ch_ob C h' = (fobs C d)\<lparr>cells := nor_program (ch_lk C (fsr C d)) a (take n buffer) (fcells C d)\<rparr>" "idle (ch_ob C) (ch_busy C) h'"
    using flash_write_data_ok [OF C [unfolded chip_ok_def] h(1) lm(1) n] by (auto simp: fcells_def fobs_def fsr_def)
  let ?s = "(world d)\<lparr>peri_busy_count := peri_busy_count (world d) + 1 - 1, fl_hw := h'\<rparr>"
  have "flash_up C cfg k (d\<lparr>world := ?s\<rparr>)" using up h h' by (intro flash_up_world) simp_all
  then show ?thesis using flash_dispatch [OF up] h'(1,2) h(2) lm(2)
    by (simp add: ddev_write_def flash_write_def two_lines_def Let_def fcells_def fsr_def fobs_def)
qed

text \<open>The commands, given what the switch does.\<close>

lemma flash_ctrl_dev:
  assumes up: "flash_up C cfg k d" and cfg: "cfg_ok cfg"
    and sw: "flash_ctrl_switch (ch_hw C) (ch_env C) cfg cmd p ((world d)\<lparr>peri_busy_count := peri_busy_count (world d) + 1\<rparr>) =
      Some (r, q, (world d)\<lparr>peri_busy_count := peri_busy_count (world d) + 1, fl_hw := h'\<rparr>)"
    and h': "idle (ch_ob C) (ch_busy C) h'"
  shows "\<exists>d'. ddev_control (dev_handle k) cmd p d = Some (r, q, d') \<and> flash_up C cfg k d' \<and> fobs C d' = ch_ob C h'"
proof -
  have h: "flash_current_config (world d) = Some cfg" "line_mode cfg \<noteq> 4"
    using up cfg by (simp_all add: flash_up_def cfg_ok_def)
  let ?s = "(world d)\<lparr>peri_busy_count := peri_busy_count (world d) + 1 - 1, fl_hw := h'\<rparr>"
  have "flash_up C cfg k (d\<lparr>world := ?s\<rparr>)" using up h h' by (intro flash_up_world) simp_all
  moreover have "s\<lparr>fl_hw := fl_hw s\<rparr> = s" for s :: "'a flash_drv" by (cases s) simp
  ultimately show ?thesis using flash_dispatch [OF up] sw h
    by (simp add: ddev_control_def flash_ctrl_def two_lines_def Let_def fobs_def)
qed

definition prot_type :: "flash_config \<Rightarrow> u16 \<Rightarrow> u32" where
  "prot_type cfg sr =
     (let v = prot_bits cfg sr in
        if v = protect_all cfg then FLASH_PROTECT_ALL else if v = protect_none cfg then FLASH_PROTECT_NONE
        else if v = protect_half cfg then FLASH_PROTECT_HALF
        else if v = unprotect_last_block cfg then FLASH_UNPROTECT_LAST_BLOCK else 0xFFFF)"

lemma flash_set_protect_dev:
  assumes C: "chip_ok C" and up: "flash_up C cfg k d" and cfg: "cfg_ok cfg"
  shows "\<exists>d'. ddev_control (dev_handle k) CMD_FLASH_SET_PROTECT t d = Some (FLASH_SUCCESS, t, d') \<and> flash_up C cfg k d' \<and>
    fcells C d' = fcells C d \<and> fsr C d' = sr_set cfg (protect_value cfg t) (fsr C d)"
proof -
  have h: "idle (ch_ob C) (ch_busy C) (fl_hw (world d))" using up by (simp add: flash_up_def)
  obtain h' where h': "set_flash_protect (ch_hw C) cfg t (fl_hw (world d)) = Some h'"
    "same_data (ch_ob C h') (fobs C d)" "ob_sr (ch_ob C h') = sr_set cfg (protect_value cfg t) (fsr C d)"
    "idle (ch_ob C) (ch_busy C) h'"
    using set_flash_protect_ok [OF C [unfolded chip_ok_def] h cfg] by (auto simp: fobs_def fsr_def)
  have "flash_ctrl_switch (ch_hw C) (ch_env C) cfg CMD_FLASH_SET_PROTECT t ((world d)\<lparr>peri_busy_count := peri_busy_count (world d) + 1\<rparr>) =
      Some (FLASH_SUCCESS, t, (world d)\<lparr>peri_busy_count := peri_busy_count (world d) + 1, fl_hw := h'\<rparr>)"
    using h'(1) by (simp add: flash_ctrl_switch_def flash_cmds flash_protection_op_def)
  from flash_ctrl_dev [OF up cfg this h'(4)] show ?thesis using h'(2,3) by (auto simp: fcells_def fsr_def same_data_def)
qed

lemma flash_get_protect_dev:
  assumes C: "chip_ok C" and up: "flash_up C cfg k d" and cfg: "cfg_ok cfg"
  shows "\<exists>d'. ddev_control (dev_handle k) CMD_FLASH_GET_PROTECT p d = Some (FLASH_SUCCESS, prot_type cfg (fsr C d), d') \<and>
    flash_up C cfg k d' \<and> same_flash C d d'"
proof -
  have h: "idle (ch_ob C) (ch_busy C) (fl_hw (world d))" using up by (simp add: flash_up_def)
  obtain h' where h': "get_flash_protect (ch_hw C) cfg (fl_hw (world d)) = Some (prot_type cfg (fsr C d), h')"
    "same_data (ch_ob C h') (fobs C d)" "ob_sr (ch_ob C h') = fsr C d" "idle (ch_ob C) (ch_busy C) h'"
    using get_flash_protect_ok [OF C [unfolded chip_ok_def] h, of cfg] unfolding prot_type_def fobs_def fsr_def by blast
  have "flash_ctrl_switch (ch_hw C) (ch_env C) cfg CMD_FLASH_GET_PROTECT p ((world d)\<lparr>peri_busy_count := peri_busy_count (world d) + 1\<rparr>) =
      Some (FLASH_SUCCESS, prot_type cfg (fsr C d), (world d)\<lparr>peri_busy_count := peri_busy_count (world d) + 1, fl_hw := h'\<rparr>)"
    using h'(1) by (simp add: flash_ctrl_switch_def flash_cmds)
  from flash_ctrl_dev [OF up cfg this h'(4)] show ?thesis using h'(2,3) by (auto simp: same_flash_def fcells_def fsr_def same_data_def)
qed

lemma flash_erase_dev:
  assumes C: "chip_ok C" and up: "flash_up C cfg k d" and cfg: "cfg_ok cfg"
    and a: "a div 4096 * 4096 < unat (flash_size cfg)"
  shows "\<exists>d'. ddev_control (dev_handle k) CMD_FLASH_ERASE_SECTOR (of_nat a) d = Some (FLASH_SUCCESS, of_nat a, d') \<and>
    flash_up C cfg k d' \<and> fsr C d' = fsr C d \<and>
    fcells C d' = nor_erase (ch_lk C (fsr C d)) (a div 4096 * 4096) 4096 (fcells C d)"
proof -
  have h: "idle (ch_ob C) (ch_busy C) (fl_hw (world d))" using up by (simp add: flash_up_def)
  have sz: "unat (flash_size cfg) \<le> 16777216" using cfg by (simp add: cfg_ok_def)
  obtain h' where h': "flash_erase_sector (ch_hw C) cfg (of_nat a) (fl_hw (world d)) = Some h'"
    "ch_ob C h' = (fobs C d)\<lparr>cells := nor_erase (ch_lk C (fsr C d)) (a div 4096 * 4096) 4096 (fcells C d)\<rparr>"
    "idle (ch_ob C) (ch_busy C) h'"
    using flash_erase_sector_ok [OF C [unfolded chip_ok_def] h sz a] by (auto simp: fobs_def fsr_def fcells_def)
  have "flash_ctrl_switch (ch_hw C) (ch_env C) cfg CMD_FLASH_ERASE_SECTOR (of_nat a) ((world d)\<lparr>peri_busy_count := peri_busy_count (world d) + 1\<rparr>) =
      Some (FLASH_SUCCESS, of_nat a, (world d)\<lparr>peri_busy_count := peri_busy_count (world d) + 1, fl_hw := h'\<rparr>)"
    using h'(1) by (simp add: flash_ctrl_switch_def flash_cmds)
  from flash_ctrl_dev [OF up cfg this h'(3)] show ?thesis using h'(2) by (auto simp: fcells_def fsr_def)
qed

section \<open>Coming up\<close>

text \<open>The command to read the identification loads it (\<open>loaded\<close>), waiting keeps it, and then the
  identification register is the chip's, \<open>i\<close>; reading the register changes nothing else.\<close>

definition rdid_ok :: "'h chip \<Rightarrow> ('h \<Rightarrow> bool) \<Rightarrow> u32 \<Rightarrow> bool" where
  "rdid_ok C loaded i \<longleftrightarrow>
     (\<forall>h. loaded (hw_wr (ch_hw C) REG_FLASH_OPERATE_SW (op_bits FLASH_OPCODE_RDID OR WP_VALUE) h)) \<and>
     (\<forall>h. loaded h \<longrightarrow> loaded (snd (hw_rd (ch_hw C) REG_FLASH_OPERATE_SW h))) \<and>
     (\<forall>h. loaded h \<longrightarrow> fst (hw_rd (ch_hw C) REG_FLASH_RDID_DATA_FLASH h) = i) \<and>
     (\<forall>h. ch_ob C (snd (hw_rd (ch_hw C) REG_FLASH_RDID_DATA_FLASH h)) = ch_ob C h \<and>
       ch_busy C (snd (hw_rd (ch_hw C) REG_FLASH_RDID_DATA_FLASH h)) = ch_busy C h)"

lemma wait_busy_keeps:
  assumes "wait_busy hw h = Some h'" and "\<forall>h. P h \<longrightarrow> P (snd (hw_rd hw REG_FLASH_OPERATE_SW h))" and "P h"
  shows "P h'"
proof -
  have "(\<forall>h. P h \<longrightarrow> P (snd (hw_rd hw REG_FLASH_OPERATE_SW h))) \<longrightarrow> P h \<longrightarrow> P h'"
  proof (rule wait_busy.raw_induct [OF _ assms(1)], goal_cases)
    case (1 w hw h h')
    show ?case using 1(1) [of hw "snd (hw_rd hw REG_FLASH_OPERATE_SW h)" h'] 1(2)
      by (auto simp: Let_def case_prod_beta split: if_splits)
  qed
  then show ?thesis using assms(2,3) by blast
qed

lemma rdid_loaded:
  assumes "rdid_ok C loaded i" and "flash_operate (ch_hw C) (op_bits FLASH_OPCODE_RDID OR WP_VALUE) h = Some h'"
  shows "fst (hw_rd (ch_hw C) REG_FLASH_RDID_DATA_FLASH h') = i"
proof -
  have "loaded h'"
    using wait_busy_keeps [where P = loaded] assms unfolding flash_operate_def rdid_ok_def by metis
  then show ?thesis using assms(1) by (simp add: rdid_ok_def)
qed

text \<open>The entry of a known identification, and otherwise the last one, the default.\<close>

definition known_flash :: "u32 \<Rightarrow> bool" where
  "known_flash i \<longleftrightarrow> i \<in> {0x1C7016, 0x1C7015, 0x0B4014, 0x0B4015, 0x0B4016, 0x0E4016, 0xC84015, 0xC84016, 0xC86015,
     0xEF4016, 0x204016, 0xC22315, 0xEB6015}"

lemma config_scan_known:
  assumes "config_scan i flash_config_tbl = Some cfg"
  shows "cfg_flash_id cfg = (if known_flash i then i else 0)"
    and "protect_all cfg = (if known_flash i then ucast (protect_mask cfg) else 0)"
  using assms by (simp_all add: flash_config_tbl_def known_flash_def flash_cfg_def split: if_splits) auto

lemma config_scan_mem: "cs \<noteq> [] \<Longrightarrow> \<exists>c. config_scan i cs = Some c \<and> c \<in> set cs"
  by (induction i cs rule: config_scan.induct) auto

lemma config_tbl_nonempty: "flash_config_tbl \<noteq> []"
  by (simp add: flash_config_tbl_def)

lemma conf_field_only:
  assumes "chip_ok C" "idle (ch_ob C) (ch_busy C) h"
  shows "idle (ch_ob C) (ch_busy C) (conf_field (ch_hw C) msk posi v h)"
    "cells (ch_ob C (conf_field (ch_hw C) msk posi v h)) = cells (ch_ob C h)"
    "ob_sr (ch_ob C (conf_field (ch_hw C) msk posi v h)) = ob_sr (ch_ob C h)"
  using assms(2) flash_chipD(10-14) [OF assms(1) [unfolded chip_ok_def]]
  by (simp_all add: conf_field_def Let_def case_prod_beta idle_def)

lemma command_neutral_ok:
  assumes C: "chip_ok C" and h: "idle (ch_ob C) (ch_busy C) h" and op: "op = FLASH_OPCODE_RDID \<or> op = FLASH_OPCODE_CRMR"
  shows "\<exists>h'. flash_operate (ch_hw C) (op_bits op OR (x AND WP_VALUE)) h = Some h' \<and> ch_ob C h' = ch_ob C h \<and> ch_busy C h' = 0"
proof -
  note d = cmd_decode [of 0 op x]
  have b: "ch_busy C h = 0" using h by (simp add: idle_def)
  have sw: "(op_bits op OR (x AND WP_VALUE)) AND OP_SW \<noteq> 0" and c: "cmd_op (op_bits op OR (x AND WP_VALUE)) = opcode op"
    using d by simp_all
  have "op_exec (ch_lk C) (op_bits op OR (x AND WP_VALUE)) (ch_ob C h) = ch_ob C h"
    using op by (auto simp: op_exec_def Let_def c)
  then show ?thesis using flash_operate_ok [OF C [unfolded chip_ok_def] b sw] by simp
qed

lemma line_mode_2_ok:
  assumes C: "chip_ok C" and h: "idle (ch_ob C) (ch_busy C) h"
  shows "\<exists>h'. flash_set_line_mode (ch_hw C) cfg 2 h = Some h' \<and> idle (ch_ob C) (ch_busy C) h' \<and>
    cells (ch_ob C h') = cells (ch_ob C h) \<and> ob_sr (ch_ob C h') = ob_sr (ch_ob C h)"
proof -
  note fc = flash_chipD [OF C [unfolded chip_ok_def]]
  let ?r = "hw_rd (ch_hw C) REG_FLASH_CONF h"
  let ?w = "hw_wr (ch_hw C) REG_FLASH_CONF (fst ?r AND NOT (push_bit 4 0x1F)) (snd ?r)"
  let ?o = "hw_rd (ch_hw C) REG_FLASH_OPERATE_SW ?w"
  have o: "idle (ch_ob C) (ch_busy C) (snd ?o)" "cells (ch_ob C (snd ?o)) = cells (ch_ob C h)" "ob_sr (ch_ob C (snd ?o)) = ob_sr (ch_ob C h)"
    using h fc(1,2,10-14) by (simp_all add: idle_def)
  obtain h2 where h2: "flash_operate (ch_hw C) (op_bits FLASH_OPCODE_CRMR OR (fst ?o AND WP_VALUE)) (snd ?o) = Some h2"
    "ch_ob C h2 = ch_ob C (snd ?o)" "ch_busy C h2 = 0" using command_neutral_ok [OF C o(1)] by blast
  then have i2: "idle (ch_ob C) (ch_busy C) h2" using o(1) by (simp add: idle_def)
  have "flash_clr_qwfr (ch_hw C) h = Some h2" using h2(1) by (simp add: flash_clr_qwfr_def Let_def case_prod_beta)
  then show ?thesis using conf_field_only [OF C i2] h2(2) o(2,3) by (simp add: flash_set_line_mode_def)
qed

lemma config_tbl_mem:
  assumes "cfg \<in> set flash_config_tbl"
  shows "cfg_ok cfg" "line_mode cfg = 2"
proof -
  show "cfg_ok cfg" using config_tbl_ok assms by (simp add: list_all_iff)
  have "list_all (\<lambda>c. line_mode c = 2) flash_config_tbl" by (simp add: flash_config_tbl_def flash_cfg_def)
  then show "line_mode cfg = 2" using assms by (simp add: list_all_iff)
qed

lemma flash_init_up:
  assumes C: "chip_ok C" "rdid_ok C loaded i" and fifo: "fifo_in (fobs C d) = []" "fifo_out (fobs C d) = []"
    and k: "length (dev_tbl d) = DD_MAX_DEV" "k < DD_MAX_DEV" "free_dev (dev_tbl d ! k)"
      "\<And>j. j < k \<Longrightarrow> \<exists>m. dv_name (dev_tbl d ! j) = Some m \<and> take (length FLASH_DEV_NAME) m \<noteq> FLASH_DEV_NAME"
  shows "\<exists>cfg d'. flash_init (ch_hw C) (ch_env C) d = Some d' \<and> cfg \<in> set flash_config_tbl \<and>
    cfg_flash_id cfg = (if known_flash i then i else 0) \<and> flash_id (world d') = i \<and> flash_up C cfg k d' \<and>
    fcells C d' = fcells C d \<and>
    prot_bits cfg (fsr C d') = (if known_flash i then ucast (protect_mask cfg) else 0)"
proof -
  note chip = C(1) [unfolded chip_ok_def]
  obtain h1 where h1: "wait_busy (ch_hw C) (fl_hw (world d)) = Some h1" "ch_ob C h1 = fobs C d" "ch_busy C h1 = 0"
    using wait_busy_ok [OF chip] unfolding fobs_def by blast
  have i1: "idle (ch_ob C) (ch_busy C) h1" using h1 fifo by (simp add: idle_def)
  obtain h2 where h2: "flash_operate (ch_hw C) (op_bits FLASH_OPCODE_RDID OR (WP_VALUE AND WP_VALUE)) h1 = Some h2"
    "ch_ob C h2 = fobs C d" "ch_busy C h2 = 0" using command_neutral_ok [OF C(1) i1, of FLASH_OPCODE_RDID WP_VALUE] h1(2) by auto
  obtain h3 where r: "hw_rd (ch_hw C) REG_FLASH_RDID_DATA_FLASH h2 = (i, h3)"
    using rdid_loaded [OF C(2), of h1 h2] h2(1) by (cases "hw_rd (ch_hw C) REG_FLASH_RDID_DATA_FLASH h2") simp
  have h3: "ch_ob C h3 = fobs C d" "ch_busy C h3 = 0" using C(2) h2 r unfolding rdid_ok_def by (metis snd_conv)+
  then have i3: "idle (ch_ob C) (ch_busy C) h3" using fifo by (simp add: idle_def)
  obtain cfg where cfg: "config_scan i flash_config_tbl = Some cfg" "cfg \<in> set flash_config_tbl"
    using config_scan_mem [OF config_tbl_nonempty] by blast
  note ok = config_tbl_mem [OF cfg(2)]
  obtain h4 where h4: "set_flash_protect (ch_hw C) cfg FLASH_PROTECT_ALL h3 = Some h4" "same_data (ch_ob C h4) (fobs C d)"
    "ob_sr (ch_ob C h4) = sr_set cfg (protect_value cfg FLASH_PROTECT_ALL) (fsr C d)" "idle (ch_ob C) (ch_busy C) h4"
    using set_flash_protect_ok [OF chip i3 ok(1), of FLASH_PROTECT_ALL] h3(1) unfolding fsr_def by auto
  let ?h5 = "flash_disable_cpu_data_wr (ch_hw C) h4"
  have 5: "idle (ch_ob C) (ch_busy C) ?h5" "cells (ch_ob C ?h5) = fcells C d" "ob_sr (ch_ob C ?h5) = ob_sr (ch_ob C h4)"
    using h4(2,4) flash_chipD(10-14) [OF chip]
    by (simp_all add: flash_disable_cpu_data_wr_def Let_def case_prod_beta idle_def same_data_def fcells_def)
  obtain h6 where h6: "flash_set_line_mode (ch_hw C) cfg 2 ?h5 = Some h6" "idle (ch_ob C) (ch_busy C) h6"
    "cells (ch_ob C h6) = fcells C d" "ob_sr (ch_ob C h6) = ob_sr (ch_ob C h4)" using line_mode_2_ok [OF C(1) 5(1)] 5(2,3) by metis
  let ?h7 = "flash_set_clk (ch_hw C) 5 h6"
  have 7: "idle (ch_ob C) (ch_busy C) ?h7" "cells (ch_ob C ?h7) = fcells C d" "ob_sr (ch_ob C ?h7) = ob_sr (ch_ob C h4)"
    using conf_field_only [OF C(1) h6(2)] h6(3,4) by (simp_all add: flash_set_clk_def)
  let ?w = "(world d)\<lparr>flash_id := i, flash_current_config := Some cfg, fl_hw := ?h7\<rparr>"
  have len: "length FLASH_DEV_NAME \<le> DD_MAX_NAME_LEN" by (simp add: FLASH_DEV_NAME_def DD_MAX_NAME_LEN_def)
  obtain t where t: "ddev_register_dev (Some FLASH_DEV_NAME) (Some (flash_op (ch_hw C) (ch_env C))) (d\<lparr>world := ?w\<rparr>) = Some (DRV_SUCCESS, t)"
    "dev_at t FLASH_DEV_NAME k" "used 0 (dev_tbl t ! k)" "dv_op (dev_tbl t ! k) = Some (flash_op (ch_hw C) (ch_env C))" "world t = ?w"
    using ddev_register_ok [of "d\<lparr>world := ?w\<rparr>" k FLASH_DEV_NAME "flash_op (ch_hw C) (ch_env C)"] k len by auto
  have "flash_init (ch_hw C) (ch_env C) d = Some t"
    using h1(1) h2(1) r cfg(1) h4(1) h6(1) t(1) ok(2)
    by (simp add: flash_init_def flash_get_id_def flash_get_current_flash_config_def Let_def)
  moreover have "flash_up C cfg k t" using t(2-5) 7(1) by (simp add: flash_up_def used_def)
  moreover have "prot_bits cfg (fsr C t) = (if known_flash i then ucast (protect_mask cfg) else 0)"
    unfolding config_scan_known(2) [OF cfg(1), symmetric] using t(5) 7(3) h4(3) prot_bits_set [OF ok(1), of FLASH_PROTECT_ALL "fsr C d"]
    by (simp add: fsr_def fobs_def protect_value_def protect_types)
  moreover have "fcells C t = fcells C d" using t(5) 7(2) by (simp add: fcells_def fobs_def)
  moreover have "flash_id (world t) = i" using t(5) by simp
  ultimately show ?thesis using cfg(2) config_scan_known(1) [OF cfg(1)] by blast
qed

section \<open>A simulated chip\<close>

text \<open>
  A chip that meets the promises: it is always ready, protects everything when all bits say so and
  the lower half at the half setting.
\<close>

definition sim_rd :: "flash_reg \<Rightarrow> flash_ob \<Rightarrow> u32 \<times> flash_ob" where
  "sim_rd r o1 = (case r of
     REG_FLASH_DATA_FLASH_SW \<Rightarrow> (case fifo_in o1 of [] \<Rightarrow> (0, o1) | w # ws \<Rightarrow> (w, o1\<lparr>fifo_in := ws\<rparr>))
   | REG_FLASH_CONF \<Rightarrow> (ob_conf o1, o1)
   | REG_FLASH_SR_DATA_CRC_CNT \<Rightarrow> (ucast (ob_srdata o1), o1)
   | REG_FLASH_RDID_DATA_FLASH \<Rightarrow> (0x0B4015, o1)
   | _ \<Rightarrow> (0, o1))"

definition sim_wr :: "(u16 \<Rightarrow> nat \<Rightarrow> bool) \<Rightarrow> flash_reg \<Rightarrow> u32 \<Rightarrow> flash_ob \<Rightarrow> flash_ob" where
  "sim_wr lk r v o1 = (case r of
     REG_FLASH_OPERATE_SW \<Rightarrow> if v AND OP_SW \<noteq> 0 then op_exec lk v o1 else o1
   | REG_FLASH_DATA_SW_FLASH \<Rightarrow> o1\<lparr>fifo_out := fifo_out o1 @ [v]\<rparr>
   | REG_FLASH_CONF \<Rightarrow> o1\<lparr>ob_conf := v\<rparr>
   | _ \<Rightarrow> o1)"

definition sim_cfg :: flash_config where "sim_cfg = flash_config_tbl ! 3"

definition sim_lk :: "u16 \<Rightarrow> nat \<Rightarrow> bool" where
  "sim_lk sr a \<longleftrightarrow> prot_bits sim_cfg sr = protect_all sim_cfg \<or> prot_bits sim_cfg sr = protect_half sim_cfg \<and> a < 0x100000"

definition sim_chip :: "flash_ob chip" where
  "sim_chip = \<lparr>ch_hw = \<lparr>hw_rd = sim_rd, hw_wr = sim_wr sim_lk\<rparr>, ch_lk = sim_lk, ch_ob = (\<lambda>o1. o1), ch_busy = (\<lambda>_. 0),
     ch_env = \<lparr>env_set_flash_dpll = 0, env_set_flash_dco = 0, env_ate_mode = False, env_word_20000 = 0\<rparr>\<rparr>"

definition sim_start :: "flash_ob flash_drv drv" where
  "sim_start = \<lparr>dev_tbl = replicate DD_MAX_DEV zero_dev, sdev_tbl = replicate DD_MAX_SDEV zero_sdev,
     world = \<lparr>fl_hw = \<lparr>cells = (\<lambda>_. 0x5A), ob_sr = 0, ob_conf = 0, ob_srdata = 0, fifo_in = [], fifo_out = []\<rparr>,
       flash_id = 0, flash_current_config = None, peri_busy_count = 0\<rparr>\<rparr>"

text \<open>With the flash registered in the first entry and everything protected.\<close>

definition sim_dev :: "flash_ob flash_drv drv" where
  "sim_dev = sim_start\<lparr>dev_tbl := zero_dev\<lparr>dv_name := Some FLASH_DEV_NAME, dv_state := CLOSED,
       dv_op := Some (flash_op (ch_hw sim_chip) (ch_env sim_chip))\<rparr> # replicate 7 zero_dev,
     world := (world sim_start)\<lparr>fl_hw := (fl_hw (world sim_start))\<lparr>ob_sr := sr_set sim_cfg (protect_all sim_cfg) 0\<rparr>,
       flash_current_config := Some sim_cfg\<rparr>\<rparr>"

lemma sim_chip_ok: "chip_ok sim_chip" "rdid_ok sim_chip (\<lambda>_. True) 0x0B4015"
proof -
  have "(0 :: u32) AND BUSY_SW = 0" by simp
  moreover have "ucast (x :: u8) AND (0xFF :: u32) = ucast x" for x
  proof (rule bit_word_eqI)
    fix n assume "n < LENGTH(32)"
    show "bit (ucast x AND (0xFF :: u32)) n \<longleftrightarrow> bit (ucast x :: u32) n"
      unfolding bit_and_iff mask8 bit_unsigned_iff using bit_imp_le_length [of x n] by auto
  qed
  ultimately show "chip_ok sim_chip" by (simp add: chip_ok_def flash_chip_def sim_chip_def sim_rd_def sim_wr_def)
  show "rdid_ok sim_chip (\<lambda>_. True) 0x0B4015" by (simp add: rdid_ok_def sim_chip_def sim_rd_def)
qed

lemma sim_cfg_simps:
  "cfg_ok sim_cfg" "sim_cfg \<in> set flash_config_tbl" "flash_size sim_cfg = 0x200000"
  "protect_all sim_cfg = 0x1F" "protect_half sim_cfg = 0x0D" "protect_none sim_cfg = 0"
proof -
  have "3 < length flash_config_tbl" by (simp add: flash_config_tbl_def)
  then show m: "sim_cfg \<in> set flash_config_tbl" unfolding sim_cfg_def by (rule nth_mem)
  show "cfg_ok sim_cfg" using config_tbl_mem [OF m] by simp
  have e: "sim_cfg = flash_cfg 0x0B4015 2 0x200000 2 14 2 0x1F 0x1F 0x00 0x0D 0x101 9 1 0xA0 0x01"
    by (simp add: sim_cfg_def flash_config_tbl_def)
  show "flash_size sim_cfg = 0x200000" "protect_all sim_cfg = 0x1F" "protect_half sim_cfg = 0x0D" "protect_none sim_cfg = 0"
    unfolding e flash_cfg_def by simp_all
qed

lemma sim_dev_up: "flash_up sim_chip sim_cfg 0 sim_dev"
  by (simp add: flash_up_def sim_dev_def sim_start_def dev_at_def dd_consts FLASH_DEV_NAME_def sim_chip_def idle_def)

lemma sim_dev_view:
  "fcells sim_chip sim_dev = (\<lambda>_. 0x5A)" "prot_bits sim_cfg (fsr sim_chip sim_dev) = protect_all sim_cfg"
proof -
  show "fcells sim_chip sim_dev = (\<lambda>_. 0x5A)" by (simp add: fcells_def fobs_def sim_dev_def sim_start_def sim_chip_def)
  have "fsr sim_chip sim_dev = sr_set sim_cfg (protect_value sim_cfg FLASH_PROTECT_ALL) 0"
    by (simp add: fsr_def fobs_def sim_dev_def sim_start_def sim_chip_def protect_value_def protect_types)
  then show "prot_bits sim_cfg (fsr sim_chip sim_dev) = protect_all sim_cfg"
    using prot_bits_set [OF sim_cfg_simps(1), of FLASH_PROTECT_ALL 0] by (simp add: protect_value_def protect_types)
qed

section \<open>Properties\<close>

text \<open>
  C25. Start of the flash driver: on any chip that keeps its promises, and with a free entry in the
  device table (no name before it begins with \<^verbatim>\<open>flash\<close>), \<^verbatim>\<open>flash_init\<close> returns, whatever identification
  \<open>i\<close> the chip reports. The identification is kept; for the thirteen known ones the configuration is the
  entry with that identification and all block protection bits of the chip are set (with CMP clear), for
  any other it is the default entry, with which setting all protection leaves no bit set, as if none was
  asked for. The device is registered and no byte of the flash has changed.
\<close>

theorem flash_init_outcome:
  assumes "chip_ok C" "rdid_ok C loaded i" "fifo_in (fobs C d) = []" "fifo_out (fobs C d) = []"
    and "length (dev_tbl d) = DD_MAX_DEV" "k < DD_MAX_DEV" "free_dev (dev_tbl d ! k)"
    and "\<And>j. j < k \<Longrightarrow> \<exists>m. dv_name (dev_tbl d ! j) = Some m \<and> take (length FLASH_DEV_NAME) m \<noteq> FLASH_DEV_NAME"
  shows "\<exists>cfg d'. flash_init (ch_hw C) (ch_env C) d = Some d' \<and> cfg \<in> set flash_config_tbl \<and>
    cfg_flash_id cfg = (if known_flash i then i else 0) \<and> flash_id (world d') = i \<and> flash_up C cfg k d' \<and>
    fcells C d' = fcells C d \<and>
    prot_bits cfg (fsr C d') = (if known_flash i then ucast (protect_mask cfg) else 0)"
  by (rule flash_init_up [OF assms])

theorem flash_init_outcome_witness:
  "\<exists>cfg d'. flash_init (ch_hw sim_chip) (ch_env sim_chip) sim_start = Some d' \<and> cfg \<in> set flash_config_tbl \<and>
    cfg_flash_id cfg = (if known_flash 0x0B4015 then 0x0B4015 else 0) \<and> flash_id (world d') = 0x0B4015 \<and>
    flash_up sim_chip cfg 0 d' \<and> fcells sim_chip d' = fcells sim_chip sim_start \<and>
    prot_bits cfg (fsr sim_chip d') = (if known_flash 0x0B4015 then ucast (protect_mask cfg) else 0)"
  by (rule flash_init_outcome [OF sim_chip_ok])
    (simp_all add: fobs_def sim_start_def sim_chip_def DD_MAX_DEV_def free_dev_def zero_dev_def)

text \<open>
  C26. Reading what was written. A write of \<open>n\<close> bytes at any address inside the flash, aligned or not,
  programs exactly the bytes given: each byte of the range that the status register does not protect
  becomes its old value with the bits cleared that the new byte has clear, all others keep their
  value. Reading the range afterwards gives just that.
\<close>

theorem flash_write_read:
  assumes "chip_ok C" "flash_up C cfg k d" "cfg \<in> set flash_config_tbl"
    and "a + n \<le> unat (flash_size cfg)" "a < unat (flash_size cfg)" "n \<le> length buffer"
  shows "\<exists>d' d''. ddev_write (dev_handle k) buffer (of_nat n) (of_nat a) d = Some (FLASH_SUCCESS, d') \<and>
    fcells C d' = (\<lambda>i. if a \<le> i \<and> i < a + n \<and> \<not> ch_lk C (fsr C d) i then fcells C d i AND buffer ! (i - a) else fcells C d i) \<and>
    ddev_read (dev_handle k) (of_nat n) (of_nat a) d' = Some (FLASH_SUCCESS, Some (map (fcells C d') [a..<a + n]), d'') \<and>
    same_flash C d' d'' \<and> fsr C d' = fsr C d"
proof -
  note ok = config_tbl_mem(1) [OF assms(3)]
  obtain d' where w: "ddev_write (dev_handle k) buffer (of_nat n) (of_nat a) d = Some (FLASH_SUCCESS, d')" "flash_up C cfg k d'"
    "fcells C d' = nor_program (ch_lk C (fsr C d)) a (take n buffer) (fcells C d)" "fsr C d' = fsr C d"
    using flash_write_dev [OF assms(1,2) ok assms(4-6)] by blast
  have "a + n \<le> 16777216" using assms(4) ok by (simp add: cfg_ok_def)
  from flash_read_dev [OF assms(1) w(2) this] obtain d'' where r:
    "ddev_read (dev_handle k) (of_nat n) (of_nat a) d' = Some (FLASH_SUCCESS, Some (map (fcells C d') [a..<a + n]), d'')"
    "same_flash C d' d''" by blast
  have cells: "nor_program (ch_lk C (fsr C d)) a (take n buffer) (fcells C d) =
      (\<lambda>i. if a \<le> i \<and> i < a + n \<and> \<not> ch_lk C (fsr C d) i then fcells C d i AND buffer ! (i - a) else fcells C d i)"
  proof -
    have l: "length (take n buffer) = n" using assms(6) by simp
    have e: "take n buffer ! (i - a) = buffer ! (i - a)" if "i < a + n" "a \<le> i" for i using that by (intro nth_take) linarith
    show ?thesis unfolding nor_program_def l by (intro ext if_cong refl) (simp add: e)
  qed
  show ?thesis using w(1,4) w(3) [unfolded cells] r by blast
qed

theorem flash_write_read_witness:
  "\<exists>d' d''. ddev_write (dev_handle 0) [1, 2, 3] (of_nat 3) (of_nat 0x12A01F) sim_dev = Some (FLASH_SUCCESS, d') \<and>
    fcells sim_chip d' = (\<lambda>i. if 0x12A01F \<le> i \<and> i < 0x12A01F + 3 \<and> \<not> ch_lk sim_chip (fsr sim_chip sim_dev) i
      then fcells sim_chip sim_dev i AND [1, 2, 3] ! (i - 0x12A01F) else fcells sim_chip sim_dev i) \<and>
    ddev_read (dev_handle 0) (of_nat 3) (of_nat 0x12A01F) d' = Some (FLASH_SUCCESS, Some (map (fcells sim_chip d') [0x12A01F..<0x12A01F + 3]), d'') \<and>
    same_flash sim_chip d' d'' \<and> fsr sim_chip d' = fsr sim_chip sim_dev"
  by (rule flash_write_read [OF sim_chip_ok(1) sim_dev_up sim_cfg_simps(2)]) (simp_all add: sim_cfg_simps)



end
