(* ===== verification/BkFlash.thy ===== *)
theory BkFlash
  imports FlashDev
begin

text \<open>
  Beken's flash interface, \<^verbatim>\<open>func/user_driver/BkDriverFlash.c\<close>: the partition table, reading, writing and
  erasing inside a partition, protection, and the lock of the flash.

  The lock is a FreeRTOS mutex: \<open>None\<close> before it is created, then whether it is taken. Nobody else runs
  in the model, so taking a taken mutex never returns (\<open>None\<close>), nor does the failed assertion of the
  kernel on a mutex that does not exist.
\<close>

section \<open>The lock\<close>

datatype os_status = kNoErr | kGeneralErr | kParamErr | kNotFoundErr | kOpenErr

text \<open>\<open>junk\<close> is what an uninitialised local variable holds.\<close>

record 'w board =
  drvs :: "'w drv"
  hal_flash_mutex :: "bool option"
  junk :: u32

text \<open>\<open>created\<close> says whether the kernel has memory for the mutex.\<close>

definition rtos_init_mutex :: "bool \<Rightarrow> os_status \<times> bool option" where
  "rtos_init_mutex created = (if created then (kNoErr, Some False) else (kGeneralErr, None))"

definition rtos_lock_mutex :: "bool option \<Rightarrow> (os_status \<times> bool option) option" where
  "rtos_lock_mutex m = (case m of Some False \<Rightarrow> Some (kNoErr, Some True) | _ \<Rightarrow> None)"

definition rtos_unlock_mutex :: "bool option \<Rightarrow> (os_status \<times> bool option) option" where
  "rtos_unlock_mutex m = (case m of Some True \<Rightarrow> Some (kNoErr, Some False) | Some False \<Rightarrow> Some (kGeneralErr, m) | None \<Rightarrow> None)"

definition hal_flash_init :: "bool \<Rightarrow> 'w board \<Rightarrow> os_status \<times> 'w board" where
  "hal_flash_init created b =
     (let (ret, m) = rtos_init_mutex created; b = b\<lparr>hal_flash_mutex := m\<rparr>
      in if ret \<noteq> kNoErr then (kGeneralErr, b) else (kNoErr, b))"

definition hal_flash_lock :: "'w board \<Rightarrow> (os_status \<times> 'w board) option" where
  "hal_flash_lock b = do { (_, m) \<leftarrow> rtos_lock_mutex (hal_flash_mutex b); Some (kNoErr, b\<lparr>hal_flash_mutex := m\<rparr>) }"

definition hal_flash_unlock :: "'w board \<Rightarrow> (os_status \<times> 'w board) option" where
  "hal_flash_unlock b = do { (_, m) \<leftarrow> rtos_unlock_mutex (hal_flash_mutex b); Some (kNoErr, b\<lparr>hal_flash_mutex := m\<rparr>) }"

section \<open>Partitions\<close>

definition BK_PARTITION_BOOTLOADER :: u32 where "BK_PARTITION_BOOTLOADER = 0"
definition BK_PARTITION_APPLICATION :: u32 where "BK_PARTITION_APPLICATION = 1"
definition BK_PARTITION_OTA :: u32 where "BK_PARTITION_OTA = 2"
definition BK_PARTITION_RF_FIRMWARE :: u32 where "BK_PARTITION_RF_FIRMWARE = 3"
definition BK_PARTITION_NET_PARAM :: u32 where "BK_PARTITION_NET_PARAM = 4"
definition BK_PARTITION_MAX :: u32 where "BK_PARTITION_MAX = 5"

lemmas partition_ids = BK_PARTITION_BOOTLOADER_def BK_PARTITION_APPLICATION_def BK_PARTITION_OTA_def
  BK_PARTITION_RF_FIRMWARE_def BK_PARTITION_NET_PARAM_def BK_PARTITION_MAX_def

datatype bk_flash = BK_FLASH_EMBEDDED | BK_FLASH_SPI | BK_FLASH_MAX | BK_FLASH_NONE

record logic_partition =
  partition_owner :: bk_flash
  partition_description :: string
  partition_start_addr :: u32
  partition_length :: u32
  partition_options :: u32

definition PAR_OPT_READ_EN :: u32 where "PAR_OPT_READ_EN = push_bit 0 1"
definition PAR_OPT_WRITE_DIS :: u32 where "PAR_OPT_WRITE_DIS = push_bit 1 0"

definition bk7231_partitions :: "logic_partition list" where
  "bk7231_partitions =
    [\<lparr>partition_owner = BK_FLASH_EMBEDDED, partition_description = ''Bootloader'',
      partition_start_addr = 0x00000000, partition_length = 0x11000,
      partition_options = PAR_OPT_READ_EN OR PAR_OPT_WRITE_DIS\<rparr>,
     \<lparr>partition_owner = BK_FLASH_EMBEDDED, partition_description = ''Application'',
      partition_start_addr = 0x11000, partition_length = 0x121000,
      partition_options = PAR_OPT_READ_EN OR PAR_OPT_WRITE_DIS\<rparr>,
     \<lparr>partition_owner = BK_FLASH_EMBEDDED, partition_description = ''ota'',
      partition_start_addr = 0x12A000, partition_length = 0xA6000,
      partition_options = PAR_OPT_READ_EN OR PAR_OPT_WRITE_DIS\<rparr>,
     \<lparr>partition_owner = BK_FLASH_EMBEDDED, partition_description = ''RF Firmware'',
      partition_start_addr = 0x1D0000, partition_length = 0x1000,
      partition_options = PAR_OPT_READ_EN OR PAR_OPT_WRITE_DIS\<rparr>,
     \<lparr>partition_owner = BK_FLASH_EMBEDDED, partition_description = ''NET info'',
      partition_start_addr = 0x1D1000, partition_length = 0x1000,
      partition_options = PAR_OPT_READ_EN OR PAR_OPT_WRITE_DIS\<rparr>]"

definition BkFlashPartitionAssert :: "u32 \<Rightarrow> unit option" where
  "BkFlashPartitionAssert inPartition = (if BK_PARTITION_BOOTLOADER < BK_PARTITION_MAX then Some () else None)"

definition BkFlashPartitionIsValid :: "u32 \<Rightarrow> bool" where
  "BkFlashPartitionIsValid inPartition \<longleftrightarrow> BK_PARTITION_BOOTLOADER \<le> inPartition \<and> inPartition < BK_PARTITION_MAX"

definition bk_flash_get_info :: "u32 \<Rightarrow> logic_partition option option" where
  "bk_flash_get_info inPartition =
     do {
       _ \<leftarrow> BkFlashPartitionAssert inPartition;
       if BkFlashPartitionIsValid inPartition
       then do { p \<leftarrow> aget bk7231_partitions (unat inPartition); Some (Some p) }
       else Some None
     }"

section \<open>Access to a partition\<close>

text \<open>
  The handle is not closed again by any of these operations, and the status of the device is ignored.
  A buffer is \<open>None\<close> for \<^verbatim>\<open>NULL\<close>; reading gives the bytes put into it.
\<close>

definition bk_flash_erase :: "u32 \<Rightarrow> u32 \<Rightarrow> u32 \<Rightarrow> 'w drv \<Rightarrow> (os_status \<times> 'w drv) option" where
  "bk_flash_erase inPartition off_set sz d =
     do {
       partition_info \<leftarrow> bk_flash_get_info inPartition;
       let start_sector = drop_bit 12 off_set;
       let end_sector = drop_bit 12 (off_set + sz - 1);
       (flash_hdl, status, d) \<leftarrow> ddev_open (Some FLASH_DEV_NAME) (Some 0) 0 d;
       if flash_hdl = DD_HANDLE_UNVALID then None
       else do {
         d \<leftarrow> for_range (unat start_sector) (unat end_sector + 1 - unat start_sector) (\<lambda>i d. do {
             p \<leftarrow> partition_info;
             (_, _, d) \<leftarrow> ddev_control flash_hdl CMD_FLASH_ERASE_SECTOR
               (partition_start_addr p + push_bit 12 (of_nat i)) d;
             Some d
           }) d;
         Some (kNoErr, d)
       }
     }"

definition bk_flash_write :: "u32 \<Rightarrow> u32 \<Rightarrow> u8 list option \<Rightarrow> u32 \<Rightarrow> 'w drv \<Rightarrow> (os_status \<times> 'w drv) option" where
  "bk_flash_write inPartition off_set inBuffer inBufferLength d =
     (case inBuffer of
        None \<Rightarrow> Some (kParamErr, d)
      | Some buf \<Rightarrow> do {
          partition_info \<leftarrow> bk_flash_get_info inPartition;
          case partition_info of
            None \<Rightarrow> Some (kNotFoundErr, d)
          | Some p \<Rightarrow> do {
              let start_addr = partition_start_addr p + off_set;
              (flash_hdl, status, d) \<leftarrow> ddev_open (Some FLASH_DEV_NAME) (Some 0) 0 d;
              if flash_hdl = DD_HANDLE_UNVALID then Some (kOpenErr, d)
              else do { (_, d) \<leftarrow> ddev_write flash_hdl buf inBufferLength start_addr d; Some (kNoErr, d) }
            }
        })"

definition bk_flash_read ::
  "u32 \<Rightarrow> u32 \<Rightarrow> bool \<Rightarrow> u32 \<Rightarrow> 'w drv \<Rightarrow> (os_status \<times> u8 list option \<times> 'w drv) option" where
  "bk_flash_read inPartition off_set out_null inBufferLength d =
     (if out_null then Some (kParamErr, None, d)
      else do {
        partition_info \<leftarrow> bk_flash_get_info inPartition;
        case partition_info of
          None \<Rightarrow> Some (kNotFoundErr, None, d)
        | Some p \<Rightarrow> do {
            let start_addr = partition_start_addr p + off_set;
            (flash_hdl, status, d) \<leftarrow> ddev_open (Some FLASH_DEV_NAME) (Some 0) 0 d;
            if flash_hdl = DD_HANDLE_UNVALID then Some (kOpenErr, None, d)
            else do { (_, data, d) \<leftarrow> ddev_read flash_hdl inBufferLength start_addr d; Some (kNoErr, data, d) }
          }
      })"

definition bk_flash_enable_security :: "u32 \<Rightarrow> 'w drv \<Rightarrow> (os_status \<times> 'w drv) option" where
  "bk_flash_enable_security type d =
     do {
       (flash_hdl, status, d) \<leftarrow> ddev_open (Some FLASH_DEV_NAME) (Some 0) 0 d;
       if flash_hdl = DD_HANDLE_UNVALID then Some (kOpenErr, d)
       else do { (_, _, d) \<leftarrow> ddev_control flash_hdl CMD_FLASH_SET_PROTECT type d; Some (kNoErr, d) }
     }"

section \<open>Test functions\<close>

text \<open>Their loops need not end: an address past \<^verbatim>\<open>0xFFFFFFFF\<close> starts again at 0.\<close>

partial_function (option) test_write_loop :: "u32 \<Rightarrow> u32 \<Rightarrow> u32 \<Rightarrow> 'w drv \<Rightarrow> 'w drv option" where
  "test_write_loop fh addr tmp d =
     (if addr < tmp
      then do { (_, d) \<leftarrow> ddev_write fh (map of_nat [0..<256]) 256 addr d; test_write_loop fh (addr + 256) tmp d }
      else Some d)"

partial_function (option) test_erase_loop :: "u32 \<Rightarrow> u32 \<Rightarrow> u32 \<Rightarrow> 'w drv \<Rightarrow> 'w drv option" where
  "test_erase_loop fh addr tmp d =
     (if addr < tmp
      then do { (_, _, d) \<leftarrow> ddev_control fh CMD_FLASH_ERASE_SECTOR addr d; test_erase_loop fh (addr + 0x1000) tmp d }
      else Some d)"

partial_function (option) test_read_loop :: "u32 \<Rightarrow> u32 \<Rightarrow> u32 \<Rightarrow> 'w drv \<Rightarrow> 'w drv option" where
  "test_read_loop fh addr tmp d =
     (if addr < tmp
      then do { (_, _, d) \<leftarrow> ddev_read fh 256 addr d; test_read_loop fh (addr + 256) tmp d }
      else Some d)"

declare test_write_loop.simps [code]
declare test_erase_loop.simps [code]
declare test_read_loop.simps [code]

definition test_flash_write :: "u32 \<Rightarrow> u32 \<Rightarrow> 'w drv \<Rightarrow> (os_status \<times> 'w drv) option" where
  "test_flash_write start_addr len d =
     do {
       (flash_hdl, status, d) \<leftarrow> ddev_open (Some FLASH_DEV_NAME) (Some 0) 0 d;
       if flash_hdl = DD_HANDLE_UNVALID then None
       else do { d \<leftarrow> test_write_loop flash_hdl start_addr (start_addr + len) d; Some (kNoErr, d) }
     }"

definition test_flash_erase :: "u32 \<Rightarrow> u32 \<Rightarrow> 'w drv \<Rightarrow> (os_status \<times> 'w drv) option" where
  "test_flash_erase start_addr len d =
     do {
       (flash_hdl, status, d) \<leftarrow> ddev_open (Some FLASH_DEV_NAME) (Some 0) 0 d;
       if flash_hdl = DD_HANDLE_UNVALID then Some (kOpenErr, d)
       else do { d \<leftarrow> test_erase_loop flash_hdl start_addr (start_addr + len) d; Some (kNoErr, d) }
     }"

definition test_flash_read :: "u32 \<Rightarrow> u32 \<Rightarrow> 'w drv \<Rightarrow> (os_status \<times> 'w drv) option" where
  "test_flash_read start_addr len d =
     do {
       (flash_hdl, status, d) \<leftarrow> ddev_open (Some FLASH_DEV_NAME) (Some 0) 0 d;
       if flash_hdl = DD_HANDLE_UNVALID then Some (kOpenErr, d)
       else do { d \<leftarrow> test_read_loop flash_hdl start_addr (start_addr + len) d; Some (kNoErr, d) }
     }"

text \<open>The same loop, timed; the times are only printed.\<close>

definition test_flash_read_time :: "u32 \<Rightarrow> u32 \<Rightarrow> 'w drv \<Rightarrow> (os_status \<times> 'w drv) option" where
  "test_flash_read_time start_addr len d =
     do {
       (flash_hdl, status, d) \<leftarrow> ddev_open (Some FLASH_DEV_NAME) (Some 0) 0 d;
       if flash_hdl = DD_HANDLE_UNVALID then Some (kOpenErr, d)
       else do { d \<leftarrow> test_read_loop flash_hdl start_addr (start_addr + len) d; Some (kNoErr, d) }
     }"

section \<open>Erasing a run of sectors\<close>

lemma nor_erase_append:
  "nor_erase lk (a + m) n (nor_erase lk a m c) = nor_erase lk a (m + n) c"
  by (rule ext) (auto simp: nor_erase_def)

lemma nor_erase_0 [simp]: "nor_erase lk a 0 c = c"
  by (rule ext) (auto simp: nor_erase_def)

lemma erase_run:
  assumes C: "chip_ok C" and up: "flash_up C cfg k d" and cfg: "cfg_ok cfg"
    and A: "4096 dvd A" "A + 4096 * (i + n) \<le> unat (flash_size cfg)"
    and f: "\<And>j d. i \<le> j \<Longrightarrow> j < i + n \<Longrightarrow> f j d =
      do { (_, _, d) \<leftarrow> ddev_control (dev_handle k) CMD_FLASH_ERASE_SECTOR (of_nat (A + 4096 * j)) d; Some d }"
  shows "\<exists>d'. for_range i n f d = Some d' \<and> flash_up C cfg k d' \<and> fsr C d' = fsr C d \<and>
    fcells C d' = nor_erase (ch_lk C (fsr C d)) (A + 4096 * i) (4096 * n) (fcells C d)"
proof -
  define P where "P j e \<longleftrightarrow> flash_up C cfg k e \<and> fsr C e = fsr C d \<and>
    fcells C e = nor_erase (ch_lk C (fsr C d)) (A + 4096 * i) (4096 * (j - i)) (fcells C d)" for j e
  have "\<exists>d'. for_range i n f d = Some d' \<and> P (i + n) d'"
  proof (rule for_range_inv)
    show "P i d" using up by (simp add: P_def)
    show "\<exists>t. f j e = Some t \<and> P (Suc j) t" if j: "i \<le> j" "j < i + n" and e: "P j e" for j e
    proof -
      let ?a = "A + 4096 * j"
      have sec: "?a div 4096 * 4096 = ?a" using A(1) by simp
      have lt: "?a div 4096 * 4096 < unat (flash_size cfg)" unfolding sec using A(2) j by simp
      obtain e' where e': "ddev_control (dev_handle k) CMD_FLASH_ERASE_SECTOR (of_nat ?a) e = Some (FLASH_SUCCESS, of_nat ?a, e')"
        "flash_up C cfg k e'" "fsr C e' = fsr C e" "fcells C e' = nor_erase (ch_lk C (fsr C e)) ?a 4096 (fcells C e)"
        using flash_erase_dev [OF C _ cfg lt] e unfolding P_def sec by blast
      have "?a = (A + 4096 * i) + 4096 * (j - i)" "4096 * (Suc j - i) = 4096 * (j - i) + 4096" using j by simp_all
      then have "P (Suc j) e'" using e e'(2-4) nor_erase_append unfolding P_def by metis
      then show ?thesis using f [OF j] e'(1) by simp
    qed
  qed
  then show ?thesis by (simp add: P_def)
qed

section \<open>What the operations on a partition do\<close>

lemma bk_get_info:
  "i < 5 \<Longrightarrow> bk_flash_get_info (of_nat i) = Some (Some (bk7231_partitions ! i))"
proof -
  assume "i < 5"
  then have "i = 0 \<or> i = 1 \<or> i = 2 \<or> i = 3 \<or> i = 4" by linarith
  then show ?thesis
    by (elim disjE; hypsubst)
      (simp_all add: bk_flash_get_info_def BkFlashPartitionAssert_def BkFlashPartitionIsValid_def partition_ids aget_def
        bk7231_partitions_def word_le_nat_alt)
qed

lemma bk_security_ok:
  assumes C: "chip_ok C" and up: "flash_up C cfg k d" and cfg: "cfg_ok cfg"
  shows "\<exists>d'. bk_flash_enable_security t d = Some (kNoErr, d') \<and> flash_up C cfg k d' \<and>
    fcells C d' = fcells C d \<and> fsr C d' = sr_set cfg (protect_value cfg t) (fsr C d)"
proof -
  obtain st e where e: "ddev_open (Some FLASH_DEV_NAME) (Some 0) 0 d = Some (dev_handle k, Some st, e)"
    "flash_up C cfg k e" "world e = world d" "dev_handle k \<noteq> DD_HANDLE_UNVALID" using flash_open_ok [OF up] by blast
  have "fcells C e = fcells C d" "fsr C e = fsr C d" using e(3) by (simp_all add: fcells_def fsr_def fobs_def)
  then show ?thesis using flash_set_protect_dev [OF C e(2) cfg, of t] e(1,4)
    by (auto simp: bk_flash_enable_security_def)
qed

lemma bk_read_ok:
  assumes C: "chip_ok C" and up: "flash_up C cfg k d" and p: "i < 5"
    and n: "unat (partition_start_addr (bk7231_partitions ! i)) + off + n \<le> 16777216"
  shows "\<exists>d'. bk_flash_read (of_nat i) (of_nat off) False (of_nat n) d =
      Some (kNoErr, Some (map (fcells C d) [unat (partition_start_addr (bk7231_partitions ! i)) + off..<
        unat (partition_start_addr (bk7231_partitions ! i)) + off + n]), d') \<and>
    flash_up C cfg k d' \<and> same_flash C d d'"
proof -
  let ?s = "partition_start_addr (bk7231_partitions ! i)"
  obtain st e where e: "ddev_open (Some FLASH_DEV_NAME) (Some 0) 0 d = Some (dev_handle k, Some st, e)"
    "flash_up C cfg k e" "world e = world d" "dev_handle k \<noteq> DD_HANDLE_UNVALID" using flash_open_ok [OF up] by blast
  have eq: "fcells C e = fcells C d" "same_flash C d e" using e(3) by (simp_all add: same_flash_def fcells_def fsr_def fobs_def)
  have "?s + of_nat off = of_nat (unat ?s + off)" by simp
  then show ?thesis using flash_read_dev [OF C e(2) n] e(1,4) eq same_flash_trans bk_get_info [OF p]
    by (auto simp: bk_flash_read_def)
qed

lemma bk_write_ok:
  assumes C: "chip_ok C" and up: "flash_up C cfg k d" and cfg: "cfg_ok cfg" and p: "i < 5" and b: "n \<le> length buf"
    and n: "unat (partition_start_addr (bk7231_partitions ! i)) + off + n \<le> unat (flash_size cfg)"
      "unat (partition_start_addr (bk7231_partitions ! i)) + off < unat (flash_size cfg)"
  shows "\<exists>d'. bk_flash_write (of_nat i) (of_nat off) (Some buf) (of_nat n) d = Some (kNoErr, d') \<and> flash_up C cfg k d' \<and>
    fcells C d' = nor_program (ch_lk C (fsr C d)) (unat (partition_start_addr (bk7231_partitions ! i)) + off) (take n buf) (fcells C d) \<and>
    fsr C d' = fsr C d"
proof -
  let ?s = "partition_start_addr (bk7231_partitions ! i)"
  obtain st e where e: "ddev_open (Some FLASH_DEV_NAME) (Some 0) 0 d = Some (dev_handle k, Some st, e)"
    "flash_up C cfg k e" "world e = world d" "dev_handle k \<noteq> DD_HANDLE_UNVALID" using flash_open_ok [OF up] by blast
  have eq: "fcells C e = fcells C d" "fsr C e = fsr C d" using e(3) by (simp_all add: fcells_def fsr_def fobs_def)
  have "?s + of_nat off = of_nat (unat ?s + off)" by simp
  then show ?thesis using flash_write_dev [OF C e(2) cfg n b] e(1,4) eq bk_get_info [OF p]
    by (auto simp: bk_flash_write_def)
qed

lemma bk_erase_ok:
  assumes C: "chip_ok C" and up: "flash_up C cfg k d" and cfg: "cfg_ok cfg" and p: "i < 5" and sz: "0 < n"
    and n: "unat (partition_start_addr (bk7231_partitions ! i)) + 4096 * ((off + n - 1) div 4096 + 1) \<le> unat (flash_size cfg)"
  shows "\<exists>d'. bk_flash_erase (of_nat i) (of_nat off) (of_nat n) d = Some (kNoErr, d') \<and> flash_up C cfg k d' \<and>
    fcells C d' = nor_erase (ch_lk C (fsr C d)) (unat (partition_start_addr (bk7231_partitions ! i)) + 4096 * (off div 4096))
      (4096 * ((off + n - 1) div 4096 + 1 - off div 4096)) (fcells C d) \<and>
    fsr C d' = fsr C d"
proof -
  let ?p = "bk7231_partitions ! i" let ?s = "unat (partition_start_addr ?p)"
  let ?a = "off div 4096" and ?e = "(off + n - 1) div 4096"
  have fs: "unat (flash_size cfg) \<le> 16777216" using cfg by (simp add: cfg_ok_def)
  have bound: "s + 4096 * (q + 1) \<le> f \<Longrightarrow> f \<le> 16777216 \<Longrightarrow> q < 4096" for s q f :: nat by simp
  have le: "?e < 4096" by (rule bound [OF n fs])
  then have off: "off + n - 1 < 16777216" "off < 16777216"
    using sz div_mult_mod_eq [of "off + n - 1" 4096] mod_less_divisor [of 4096 "off + n - 1"] by linarith+
  have "(of_nat off + of_nat n - 1 :: u32) = of_nat (off + n - 1)" using sz by (simp add: of_nat_diff)
  moreover have dw: "unat (drop_bit 12 (of_nat x :: u32)) = x div 4096" if "x < 16777216" for x
    using that by (simp only: unat_drop_bit_eq) (simp add: unat_u32 drop_bit_eq_div)
  ultimately have st: "unat (drop_bit 12 (of_nat off :: u32)) = ?a" "unat (drop_bit 12 (of_nat off + of_nat n - 1 :: u32)) = ?e"
    using dw [OF off(1)] dw [OF off(2)] by (simp_all only:)
  obtain st e where e: "ddev_open (Some FLASH_DEV_NAME) (Some 0) 0 d = Some (dev_handle k, Some st, e)"
    "flash_up C cfg k e" "world e = world d" "dev_handle k \<noteq> DD_HANDLE_UNVALID" using flash_open_ok [OF up] by blast
  have eq: "fcells C e = fcells C d" "fsr C e = fsr C d" using e(3) by (simp_all add: fcells_def fsr_def fobs_def)
  have "i = 0 \<or> i = 1 \<or> i = 2 \<or> i = 3 \<or> i = 4" using p by linarith
  then have dv: "4096 dvd ?s" by (elim disjE; hypsubst) (simp_all add: bk7231_partitions_def)
  have ae: "?a \<le> ?e" using sz by (intro div_le_mono) simp
  then have run: "?a + (?e + 1 - ?a) = ?e + 1" by simp
  let ?f = "\<lambda>i d. do { (_, _, d) \<leftarrow> ddev_control (dev_handle k) CMD_FLASH_ERASE_SECTOR
      (partition_start_addr ?p + push_bit 12 (of_nat i)) d; Some d }"
  have addr: "partition_start_addr ?p + push_bit 12 (of_nat j) = of_nat (?s + 4096 * j)" for j
    by (simp add: push_bit_eq_mult mult.commute)
  have lim: "?s + 4096 * (?a + (?e + 1 - ?a)) \<le> unat (flash_size cfg)" unfolding run using n by simp
  have "\<exists>d'. for_range ?a (?e + 1 - ?a) ?f e = Some d' \<and> flash_up C cfg k d' \<and> fsr C d' = fsr C e \<and>
    fcells C d' = nor_erase (ch_lk C (fsr C e)) (?s + 4096 * ?a) (4096 * (?e + 1 - ?a)) (fcells C e)"
    by (rule erase_run [OF C e(2) cfg dv lim]) (simp only: addr)
  then obtain d' where d': "for_range ?a (?e + 1 - ?a) ?f e = Some d'" "flash_up C cfg k d'" "fsr C d' = fsr C e"
    "fcells C d' = nor_erase (ch_lk C (fsr C e)) (?s + 4096 * ?a) (4096 * (?e + 1 - ?a)) (fcells C e)" by blast
  show ?thesis using d' e(1,4) eq bk_get_info [OF p] st unfolding bk_flash_erase_def Let_def by simp
qed

end
