(* ===== verification/NetParam.thy ===== *)
theory NetParam
  imports BkFlash
begin

text \<open>
  The parameters of the network in flash, \<^verbatim>\<open>func/net_param_intf/net_param.c\<close>: one table of items, each a type, a
  length and a value, in the sector \<^verbatim>\<open>BK_PARTITION_NET_PARAM\<close>. Reading an item goes through the device, saving
  one rewrites the whole table through the partition interface of BkFlash.

  A pointer to a value is \<open>None\<close> for \<^verbatim>\<open>NULL\<close>. The words are little endian.
\<close>

section \<open>Data\<close>

datatype net_info_item =
    AUTO_CONNECT_ITEM | WIFI_MODE_ITEM | DHCP_MODE_ITEM | WIFI_MAC_ITEM | SSID_KEY_ITEM | IP_CONFIG_ITEM
  | RF_CFG_TSSI_ITEM | RF_CFG_DIST_ITEM | RF_CFG_MODE_ITEM | CHARGE_CONFIG_ITEM | RF_CFG_TSSI_B_ITEM

fun item_code :: "net_info_item \<Rightarrow> u32" where
  "item_code AUTO_CONNECT_ITEM = 0x11111111"
| "item_code WIFI_MODE_ITEM = 0x22222222"
| "item_code DHCP_MODE_ITEM = 0x33333333"
| "item_code WIFI_MAC_ITEM = 0x44444444"
| "item_code SSID_KEY_ITEM = 0x55555555"
| "item_code IP_CONFIG_ITEM = 0x66666666"
| "item_code RF_CFG_TSSI_ITEM = 0x77777777"
| "item_code RF_CFG_DIST_ITEM = 0x88888888"
| "item_code RF_CFG_MODE_ITEM = 0x99999999"
| "item_code CHARGE_CONFIG_ITEM = 0xaaaaaaaa"
| "item_code RF_CFG_TSSI_B_ITEM = 0xbbbbbbbb"

definition INFO_TLV_HEADER :: u32 where "INFO_TLV_HEADER = 0x00564c54"

record info_item_st =
  it_type :: u32
  it_len :: u32

definition INFO_ITEM_SIZE :: u32 where "INFO_ITEM_SIZE = 8"

text \<open>The sizes of \<^verbatim>\<open>ITEM_COMM_ST\<close>, \<^verbatim>\<open>ITEM_MAC_ADDR_ST\<close>, \<^verbatim>\<open>ITEM_SSIDKEY_ST\<close> and \<^verbatim>\<open>ITEM_IP_CONFIG_ST\<close>.\<close>

fun info_item_len :: "net_info_item \<Rightarrow> u32" where
  "info_item_len WIFI_MAC_ITEM = 8 + 6 + 2"
| "info_item_len SSID_KEY_ITEM = 8 + 32 + 64"
| "info_item_len IP_CONFIG_ITEM = 8 + 16 + 16 + 16"
| "info_item_len _ = 8 + 4"

definition hdr_of :: "u8 list \<Rightarrow> info_item_st" where
  "hdr_of bs = \<lparr>it_type = le_word (take 4 bs), it_len = le_word (take 4 (drop 4 bs))\<rparr>"

definition hdr_bytes :: "info_item_st \<Rightarrow> u8 list" where
  "hdr_bytes h = word_bytes_le (it_type h) @ word_bytes_le (it_len h)"

section \<open>Searching\<close>

text \<open>Reading a header over \<open>head\<close>, and the address of the table.\<close>

definition read_hdr :: "u32 \<Rightarrow> u32 \<Rightarrow> info_item_st \<Rightarrow> 'w drv \<Rightarrow> (info_item_st \<times> 'w drv) option" where
  "read_hdr fh addr head d =
     do { (_, data, d) \<leftarrow> ddev_read fh INFO_ITEM_SIZE addr d; Some (case data of None \<Rightarrow> head | Some bs \<Rightarrow> hdr_of bs, d) }"

definition net_part :: "logic_partition option" where
  "net_part = do { p \<leftarrow> bk_flash_get_info BK_PARTITION_NET_PARAM; p }"

text \<open>\<open>uninit\<close> is the contents of an uninitialised header; the result has the length and the filled buffer.\<close>

definition search_info_tbl ::
  "info_item_st \<Rightarrow> u8 list option \<Rightarrow> 'w drv \<Rightarrow> (bool \<times> u32 \<times> u8 list option \<times> 'w drv) option" where
  "search_info_tbl uninit buf d =
     do {
       p \<leftarrow> net_part;
       (fh, _, d) \<leftarrow> ddev_open (Some FLASH_DEV_NAME) (Some 0) 0 d;
       (head, d) \<leftarrow> read_hdr fh (partition_start_addr p) uninit d;
       if it_type head = INFO_TLV_HEADER
       then do {
         let cfg_len = it_len head + INFO_ITEM_SIZE;
         (buf, d) \<leftarrow> (case buf of
             None \<Rightarrow> Some (None, d)
           | Some b \<Rightarrow> do {
               (_, data, d) \<leftarrow> ddev_read fh cfg_len (partition_start_addr p) d;
               b \<leftarrow> (case data of None \<Rightarrow> Some b | Some bs \<Rightarrow> memcpy b 0 bs 0 (length bs));
               Some (Some b, d)
             });
         (_, d) \<leftarrow> ddev_close fh d;
         Some (True, cfg_len, buf, d)
       }
       else do { (_, d) \<leftarrow> ddev_close fh d; Some (False, 0, buf, d) }
     }"

text \<open>The loop over the items, which ends at one of the type or past the end; lengths that wrap may keep it going.\<close>

partial_function (option) item_loop :: "u32 \<Rightarrow> u32 \<Rightarrow> u32 \<Rightarrow> u32 \<Rightarrow> info_item_st \<Rightarrow> 'w drv \<Rightarrow> (u32 \<times> 'w drv) option" where
  "item_loop fh type addr end_addr head d =
     (if addr < end_addr
      then do {
        (head, d) \<leftarrow> read_hdr fh addr head d;
        if type \<noteq> it_type head then item_loop fh type (addr + INFO_ITEM_SIZE + it_len head) end_addr head d
        else Some (addr, d)
      }
      else Some (addr, d))"

declare item_loop.simps [code]

definition search_info_item :: "info_item_st \<Rightarrow> u32 \<Rightarrow> u32 \<Rightarrow> 'w drv \<Rightarrow> (u32 \<times> 'w drv) option" where
  "search_info_item uninit type start d =
     do {
       (fh, _, d) \<leftarrow> ddev_open (Some FLASH_DEV_NAME) (Some 0) 0 d;
       (head, d) \<leftarrow> read_hdr fh start uninit d;
       let addr = start + INFO_ITEM_SIZE;
       let end_addr = addr + it_len head;
       (addr, d) \<leftarrow> item_loop fh type addr end_addr head d;
       let addr = (if end_addr \<le> addr then 0 else addr);
       (_, d) \<leftarrow> ddev_close fh d;
       Some (addr, d)
     }"

section \<open>Reading an item\<close>

text \<open>
  Which of the three pointers are not \<^verbatim>\<open>NULL\<close> is given; the result has what is written through each,
  \<open>None\<close> for nothing.
\<close>

definition get_switch ::
  "u32 \<Rightarrow> net_info_item \<Rightarrow> bool \<Rightarrow> bool \<Rightarrow> bool \<Rightarrow> u32 \<Rightarrow> info_item_st \<Rightarrow> 'w drv \<Rightarrow>
    (bool \<times> u8 list option \<times> u8 list option \<times> u8 list option \<times> 'w drv) option" where
  "get_switch fh item p0 p1 p2 addr head d =
     (case item of
        SSID_KEY_ITEM \<Rightarrow>
          if p0 \<and> p1
          then do {
            (_, x0, d) \<leftarrow> ddev_read fh 32 addr d;
            (_, x1, d) \<leftarrow> ddev_read fh 64 (addr + 32) d;
            Some (True, x0, x1, None, d)
          }
          else Some (False, None, None, None, d)
      | IP_CONFIG_ITEM \<Rightarrow>
          if p0 \<and> p1 \<and> p2
          then do {
            (_, x0, d) \<leftarrow> ddev_read fh 16 addr d;
            (_, x1, d) \<leftarrow> ddev_read fh 16 (addr + 16) d;
            (_, x2, d) \<leftarrow> ddev_read fh 16 (addr + 16 + 16) d;
            Some (True, x0, x1, x2, d)
          }
          else Some (False, None, None, None, d)
      | CHARGE_CONFIG_ITEM \<Rightarrow> Some (False, None, None, None, d)
      | _ \<Rightarrow>
          if p0
          then do { (_, x0, d) \<leftarrow> ddev_read fh (it_len head) addr d; Some (True, x0, None, None, d) }
          else Some (False, None, None, None, d))"

definition get_info_item ::
  "info_item_st \<Rightarrow> net_info_item \<Rightarrow> bool \<Rightarrow> bool \<Rightarrow> bool \<Rightarrow> 'w drv \<Rightarrow>
    (bool \<times> u8 list option \<times> u8 list option \<times> u8 list option \<times> 'w drv) option" where
  "get_info_item uninit item p0 p1 p2 d =
     do {
       (found, _, _, d) \<leftarrow> search_info_tbl uninit None d;
       if \<not> found then Some (False, None, None, None, d)
       else do {
         p \<leftarrow> net_part;
         (addr, d) \<leftarrow> search_info_item uninit (item_code item) (partition_start_addr p) d;
         if addr = 0 then Some (False, None, None, None, d)
         else do {
           (fh, _, d) \<leftarrow> ddev_open (Some FLASH_DEV_NAME) (Some 0) 0 d;
           (head, d) \<leftarrow> read_hdr fh addr uninit d;
           let addr = addr + INFO_ITEM_SIZE;
           (ret, x0, x1, x2, d) \<leftarrow> get_switch fh item p0 p1 p2 addr head d;
           (_, d) \<leftarrow> ddev_close fh d;
           Some (ret, x0, x1, x2, d)
         }
       }
     }"

section \<open>Saving an item\<close>

text \<open>Copying \<open>n\<close> bytes from a pointer to position \<open>at\<close> of the buffer.\<close>

definition put_bytes :: "u8 list option \<Rightarrow> nat \<Rightarrow> nat \<Rightarrow> u8 list \<Rightarrow> u8 list option" where
  "put_bytes src n at buf = do { bs \<leftarrow> src; memcpy buf at bs 0 n }"

definition put_value :: "net_info_item \<Rightarrow> u8 list option \<Rightarrow> u8 list option \<Rightarrow> u8 list option \<Rightarrow> nat \<Rightarrow> u8 list \<Rightarrow> u8 list option" where
  "put_value item ptr0 ptr1 ptr2 at buf =
     (case item of
        WIFI_MAC_ITEM \<Rightarrow> put_bytes ptr0 6 at buf
      | SSID_KEY_ITEM \<Rightarrow> do { buf \<leftarrow> put_bytes ptr0 32 at buf; put_bytes ptr1 64 (at + 32) buf }
      | IP_CONFIG_ITEM \<Rightarrow> do {
          buf \<leftarrow> put_bytes ptr0 16 at buf; buf \<leftarrow> put_bytes ptr1 16 (at + 16) buf; put_bytes ptr2 16 (at + 32) buf }
      | _ \<Rightarrow> put_bytes ptr0 4 at buf)"

text \<open>
  The zeroed buffer with the present table, the offset of the item in it, the length of the table and the length that the
  header will have; \<open>alloc\<close> says whether a block of a size can be had.
\<close>

definition save_prep ::
  "info_item_st \<Rightarrow> (u32 \<Rightarrow> bool) \<Rightarrow> net_info_item \<Rightarrow> logic_partition \<Rightarrow> 'w drv \<Rightarrow>
    ((u32 \<times> u32 \<times> u32 \<times> u8 list) option \<times> 'w drv) option" where
  "save_prep uninit alloc item p d =
     do {
       let item_len = info_item_len item;
       (found, cfg_tbl_len, _, d) \<leftarrow> search_info_tbl uninit None d;
       if \<not> found
       then let cfg_tbl_len = INFO_ITEM_SIZE + item_len
            in Some (if alloc cfg_tbl_len
                     then Some (INFO_ITEM_SIZE, cfg_tbl_len, item_len, replicate (unat cfg_tbl_len) 0) else None, d)
       else do {
         (off, d) \<leftarrow> search_info_item uninit (item_code item) (partition_start_addr p) d;
         let (off, cfg_tbl_len) = (if off = 0 then (cfg_tbl_len, cfg_tbl_len + item_len)
                                   else (off - partition_start_addr p, cfg_tbl_len));
         if alloc cfg_tbl_len
         then do {
           (_, _, buf, d) \<leftarrow> search_info_tbl uninit (Some (replicate (unat cfg_tbl_len) 0)) d;
           buf \<leftarrow> buf;
           Some (Some (off, cfg_tbl_len, cfg_tbl_len - INFO_ITEM_SIZE, buf), d)
         }
         else Some (None, d)
       }
     }"

text \<open>The item and the two headers put into the buffer.\<close>

definition save_fill ::
  "net_info_item \<Rightarrow> u8 list option \<Rightarrow> u8 list option \<Rightarrow> u8 list option \<Rightarrow> u32 \<Rightarrow> u32 \<Rightarrow> u8 list \<Rightarrow> u8 list option" where
  "save_fill item ptr0 ptr1 ptr2 off len buf =
     do {
       buf \<leftarrow> put_value item ptr0 ptr1 ptr2 (unat off + 8) buf;
       buf \<leftarrow> memcpy buf (unat off)
         (hdr_bytes \<lparr>it_type = item_code item, it_len = info_item_len item - INFO_ITEM_SIZE\<rparr>) 0 8;
       memcpy buf 0 (hdr_bytes \<lparr>it_type = INFO_TLV_HEADER, it_len = len\<rparr>) 0 8
     }"

definition save_write :: "u32 \<Rightarrow> u8 list \<Rightarrow> 'w board \<Rightarrow> 'w board option" where
  "save_write cfg_tbl_len buf b =
     do {
       (_, b) \<leftarrow> hal_flash_lock b;
       (_, d) \<leftarrow> bk_flash_enable_security FLASH_PROTECT_NONE (drvs b);
       (_, d) \<leftarrow> bk_flash_erase BK_PARTITION_NET_PARAM 0 cfg_tbl_len d;
       (_, d) \<leftarrow> bk_flash_write BK_PARTITION_NET_PARAM 0 (Some buf) cfg_tbl_len d;
       (_, d) \<leftarrow> bk_flash_enable_security FLASH_PROTECT_ALL d;
       (_, b) \<leftarrow> hal_flash_unlock (b\<lparr>drvs := d\<rparr>);
       Some b
     }"

definition save_info_item ::
  "info_item_st \<Rightarrow> (u32 \<Rightarrow> bool) \<Rightarrow> net_info_item \<Rightarrow> u8 list option \<Rightarrow> u8 list option \<Rightarrow> u8 list option \<Rightarrow>
    'w board \<Rightarrow> (bool \<times> 'w board) option" where
  "save_info_item uninit alloc item ptr0 ptr1 ptr2 b =
     do {
       p \<leftarrow> net_part;
       (prep, d) \<leftarrow> save_prep uninit alloc item p (drvs b);
       case prep of
         None \<Rightarrow> Some (False, b\<lparr>drvs := d\<rparr>)
       | Some (off, n, len, buf) \<Rightarrow> do {
           buf \<leftarrow> save_fill item ptr0 ptr1 ptr2 off len buf;
           b \<leftarrow> save_write n buf (b\<lparr>drvs := d\<rparr>);
           Some (True, b)
         }
     }"

definition test_get_whole_tbl :: "info_item_st \<Rightarrow> u8 list option \<Rightarrow> 'w drv \<Rightarrow> (bool \<times> u8 list option \<times> 'w drv) option" where
  "test_get_whole_tbl uninit ptr d =
     do { (r, _, buf, d) \<leftarrow> search_info_tbl uninit ptr d; Some (r, buf, d) }"

end
