(* ===== verification/TklFlash.thy ===== *)
theory TklFlash
  imports BkFlash
begin

text \<open>
  TuyaOS's flash interface, \<^verbatim>\<open>tuyaos_adapter/src/tkl_flash.c\<close>: reading, writing and erasing under the
  lock of the flash, the global protection switch, and the partitions of the file system and of the
  key-value store. Sources are \<open>None\<close> for \<^verbatim>\<open>NULL\<close>.
\<close>

section \<open>Operations\<close>

definition PARTITION_SIZE :: u32 where "PARTITION_SIZE = push_bit 12 1"

text \<open>A device operation on the board.\<close>

definition on_drv :: "('w drv \<Rightarrow> ('a \<times> 'w drv) option) \<Rightarrow> 'w board \<Rightarrow> ('a \<times> 'w board) option" where
  "on_drv f b = do { (x, d) \<leftarrow> f (drvs b); Some (x, b\<lparr>drvs := d\<rparr>) }"

definition open_flash :: "'w board \<Rightarrow> (u32 \<times> 'w board) option" where
  "open_flash = on_drv (\<lambda>d. do { (fh, _, d) \<leftarrow> ddev_open (Some FLASH_DEV_NAME) (Some 0) 0 d; Some (fh, d) })"

definition close_flash :: "u32 \<Rightarrow> 'w board \<Rightarrow> (u32 \<times> 'w board) option" where
  "close_flash fh = on_drv (ddev_close fh)"

text \<open>The value the parameter has after the command.\<close>

definition ctrl_flash :: "u32 \<Rightarrow> u32 \<Rightarrow> u32 \<Rightarrow> 'w board \<Rightarrow> (u32 \<times> 'w board) option" where
  "ctrl_flash fh cmd param = on_drv (\<lambda>d. do { (_, param, d) \<leftarrow> ddev_control fh cmd param d; Some (param, d) })"

definition tkl_flash_set_protect :: "bool \<Rightarrow> 'w board \<Rightarrow> (oprt \<times> 'w board) option" where
  "tkl_flash_set_protect enable b =
     do {
       (fh, b) \<leftarrow> open_flash b;
       (_, b) \<leftarrow> ctrl_flash fh CMD_FLASH_SET_PROTECT (if enable then FLASH_PROTECT_ALL else FLASH_PROTECT_HALF) b;
       (_, b) \<leftarrow> close_flash fh b;
       Some (OPRT_OK, b)
     }"

definition uni_flash_is_protect_all :: "'w board \<Rightarrow> (bool \<times> 'w board) option" where
  "uni_flash_is_protect_all b =
     do {
       (fh, b) \<leftarrow> open_flash b;
       (param, b) \<leftarrow> ctrl_flash fh CMD_FLASH_GET_PROTECT (junk b) b;
       (_, b) \<leftarrow> close_flash fh b;
       Some (FLASH_PROTECT_ALL = param, b)
     }"

definition tkl_flash_read :: "u32 \<Rightarrow> bool \<Rightarrow> u32 \<Rightarrow> 'w board \<Rightarrow> (oprt \<times> u8 list option \<times> 'w board) option" where
  "tkl_flash_read addr dst_null sz b =
     (if dst_null then Some (OPRT_INVALID_PARM, None, b)
      else do {
        (_, b) \<leftarrow> hal_flash_lock b;
        (fh, b) \<leftarrow> open_flash b;
        (data, b) \<leftarrow> on_drv (\<lambda>d. do { (_, data, d) \<leftarrow> ddev_read fh sz addr d; Some (data, d) }) b;
        (_, b) \<leftarrow> close_flash fh b;
        (_, b) \<leftarrow> hal_flash_unlock b;
        Some (OPRT_OK, data, b)
      })"

text \<open>Writing opens the device twice and closes it once.\<close>

definition tkl_flash_write :: "u32 \<Rightarrow> u8 list option \<Rightarrow> u32 \<Rightarrow> 'w board \<Rightarrow> (oprt \<times> 'w board) option" where
  "tkl_flash_write addr src sz b =
     (case src of
        None \<Rightarrow> Some (OPRT_INVALID_PARM, b)
      | Some buf \<Rightarrow> do {
          (_, b) \<leftarrow> hal_flash_lock b;
          (fh, b) \<leftarrow> open_flash b;
          (protect_flag, b) \<leftarrow> uni_flash_is_protect_all b;
          (fh, b) \<leftarrow> open_flash b;
          (_, b) \<leftarrow> (if protect_flag then ctrl_flash fh CMD_FLASH_SET_PROTECT FLASH_PROTECT_HALF b else Some (0, b));
          (_, b) \<leftarrow> on_drv (ddev_write fh buf sz addr) b;
          (_, b) \<leftarrow> close_flash fh b;
          (_, b) \<leftarrow> hal_flash_unlock b;
          Some (OPRT_OK, b)
        })"

text \<open>The sector numbers are kept in 16 bits.\<close>

definition tkl_flash_erase :: "u32 \<Rightarrow> u32 \<Rightarrow> 'w board \<Rightarrow> (oprt \<times> 'w board) option" where
  "tkl_flash_erase addr sz b =
     do {
       let start_sec = (ucast (addr div PARTITION_SIZE) :: u16);
       let end_sec = (ucast ((addr + sz - 1) div PARTITION_SIZE) :: u16);
       (_, b) \<leftarrow> hal_flash_lock b;
       (fh, b) \<leftarrow> open_flash b;
       (protect_flag, b) \<leftarrow> uni_flash_is_protect_all b;
       (_, b) \<leftarrow> (if protect_flag then ctrl_flash fh CMD_FLASH_SET_PROTECT FLASH_PROTECT_HALF b else Some (0, b));
       b \<leftarrow> for_range (unat start_sec) (unat end_sec + 1 - unat start_sec) (\<lambda>i b. do {
           (_, b) \<leftarrow> ctrl_flash fh CMD_FLASH_ERASE_SECTOR (PARTITION_SIZE * of_nat i) b;
           Some b
         }) b;
       (protect_flag, b) \<leftarrow> uni_flash_is_protect_all b;
       (_, b) \<leftarrow> (if protect_flag then ctrl_flash fh CMD_FLASH_SET_PROTECT FLASH_PROTECT_ALL b else Some (0, b));
       (_, b) \<leftarrow> close_flash fh b;
       (_, b) \<leftarrow> hal_flash_unlock b;
       Some (OPRT_OK, b)
     }"

definition tkl_flash_lock :: "u32 \<Rightarrow> u32 \<Rightarrow> oprt" where
  "tkl_flash_lock addr sz = OPRT_NOT_SUPPORTED"

definition tkl_flash_unlock :: "u32 \<Rightarrow> u32 \<Rightarrow> oprt" where
  "tkl_flash_unlock addr sz = OPRT_NOT_SUPPORTED"

section \<open>Partitions\<close>

datatype flash_type =
    TUYA_FLASH_TYPE_BTL0 | TUYA_FLASH_TYPE_BTL1 | TUYA_FLASH_TYPE_STACK | TUYA_FLASH_TYPE_APP | TUYA_FLASH_TYPE_OTA
  | TUYA_FLASH_TYPE_USER0 | TUYA_FLASH_TYPE_USER1 | TUYA_FLASH_TYPE_KV_DATA | TUYA_FLASH_TYPE_KV_SWAP
  | TUYA_FLASH_TYPE_KV_KEY | TUYA_FLASH_TYPE_UF | TUYA_FLASH_TYPE_INFO | TUYA_FLASH_TYPE_KV_UF
  | TUYA_FLASH_TYPE_KV_PROTECT | TUYA_FLASH_TYPE_RCD | TUYA_FLASH_TYPE_MAX | FLASH_TYPE_ABOVE

record flash_partition =
  block_size :: u32
  start_addr :: u32
  part_size :: u32

record flash_base_info =
  partition_num :: u32
  partition :: "flash_partition list"

definition SIMPLE_FLASH_START :: u32 where "SIMPLE_FLASH_START = 0x200000 - 0x3000 - 0xE000"
definition SIMPLE_FLASH_SIZE :: u32 where "SIMPLE_FLASH_SIZE = 0xE000"
definition SIMPLE_FLASH_SWAP_START :: u32 where "SIMPLE_FLASH_SWAP_START = 0x200000 - 0x3000"
definition SIMPLE_FLASH_SWAP_SIZE :: u32 where "SIMPLE_FLASH_SWAP_SIZE = 0x3000"
definition SIMPLE_FLASH_KEY_ADDR :: u32 where "SIMPLE_FLASH_KEY_ADDR = 0x200000 - 0x3000 - 0xE000 - 0x1000"
definition UF_PARTITION_START :: u32 where
  "UF_PARTITION_START = (0x200000 - 0x3000 - 0xE000 - 0x1000) - 0x3000 - 0x1000 - 0x18000"
definition UF_PARTITION_SIZE :: u32 where "UF_PARTITION_SIZE = 0x18000"

lemmas flash_map = PARTITION_SIZE_def SIMPLE_FLASH_START_def SIMPLE_FLASH_SIZE_def SIMPLE_FLASH_SWAP_START_def
  SIMPLE_FLASH_SWAP_SIZE_def SIMPLE_FLASH_KEY_ADDR_def UF_PARTITION_START_def UF_PARTITION_SIZE_def

definition one_partition :: "u32 \<Rightarrow> u32 \<Rightarrow> u32 \<Rightarrow> flash_base_info \<Rightarrow> flash_base_info option" where
  "one_partition bs start sz info =
     do {
       ps \<leftarrow> aset (partition info) 0 \<lparr>block_size = bs, start_addr = start, part_size = sz\<rparr>;
       Some (info\<lparr>partition_num := 1, partition := ps\<rparr>)
     }"

text \<open>The case of the protected partition is compiled out (\<^verbatim>\<open>KV_PROTECTED_ENABLE\<close> is not defined).\<close>

definition tkl_flash_get_one_type_info ::
  "flash_type \<Rightarrow> flash_base_info option \<Rightarrow> (oprt \<times> flash_base_info option) option" where
  "tkl_flash_get_one_type_info type info =
     (case info of
        None \<Rightarrow> Some (OPRT_INVALID_PARM, None)
      | Some i \<Rightarrow>
          if type = FLASH_TYPE_ABOVE then Some (OPRT_INVALID_PARM, info)
          else let ok = map_option (\<lambda>i. (OPRT_OK, Some i))
            in case type of
                TUYA_FLASH_TYPE_UF \<Rightarrow> ok (one_partition PARTITION_SIZE UF_PARTITION_START UF_PARTITION_SIZE i)
              | TUYA_FLASH_TYPE_KV_DATA \<Rightarrow> ok (one_partition PARTITION_SIZE SIMPLE_FLASH_START SIMPLE_FLASH_SIZE i)
              | TUYA_FLASH_TYPE_KV_SWAP \<Rightarrow> ok (one_partition PARTITION_SIZE SIMPLE_FLASH_SWAP_START SIMPLE_FLASH_SWAP_SIZE i)
              | TUYA_FLASH_TYPE_KV_KEY \<Rightarrow> ok (one_partition PARTITION_SIZE SIMPLE_FLASH_KEY_ADDR PARTITION_SIZE i)
              | _ \<Rightarrow> Some (OPRT_INVALID_PARM, info))"

section \<open>The board\<close>

text \<open>The flash works and its lock is free; the current protection is one that this layer sets.\<close>

definition bcells :: "'h chip \<Rightarrow> 'h flash_drv board \<Rightarrow> nat \<Rightarrow> u8" where "bcells C b = fcells C (drvs b)"
definition bsr :: "'h chip \<Rightarrow> 'h flash_drv board \<Rightarrow> u16" where "bsr C b = fsr C (drvs b)"

definition board_up :: "'h chip \<Rightarrow> flash_config \<Rightarrow> nat \<Rightarrow> bool \<Rightarrow> 'h flash_drv board \<Rightarrow> bool" where
  "board_up C cfg k taken b \<longleftrightarrow> chip_ok C \<and> cfg_ok cfg \<and> flash_up C cfg k (drvs b) \<and> hal_flash_mutex b = Some taken"

lemma board_upD:
  assumes "board_up C cfg k m b"
  shows "chip_ok C" "cfg_ok cfg" "flash_up C cfg k (drvs b)" "hal_flash_mutex b = Some m"
  using assms by (simp_all add: board_up_def)

lemma board_up_drvs:
  "board_up C cfg k m b \<Longrightarrow> flash_up C cfg k d \<Longrightarrow> board_up C cfg k m (b\<lparr>drvs := d\<rparr>)"
  by (simp add: board_up_def)

lemma lock_ok:
  "board_up C cfg k False b \<Longrightarrow> \<exists>b'. hal_flash_lock b = Some (kNoErr, b') \<and> board_up C cfg k True b' \<and>
     bcells C b' = bcells C b \<and> bsr C b' = bsr C b"
  by (simp add: hal_flash_lock_def rtos_lock_mutex_def board_up_def bcells_def bsr_def)

lemma unlock_ok:
  "board_up C cfg k True b \<Longrightarrow> \<exists>b'. hal_flash_unlock b = Some (kNoErr, b') \<and> board_up C cfg k False b' \<and>
     bcells C b' = bcells C b \<and> bsr C b' = bsr C b"
  by (simp add: hal_flash_unlock_def rtos_unlock_mutex_def board_up_def bcells_def bsr_def)

lemma open_flash_ok:
  assumes "board_up C cfg k m b"
  shows "\<exists>b'. open_flash b = Some (dev_handle k, b') \<and> board_up C cfg k m b' \<and> bcells C b' = bcells C b \<and> bsr C b' = bsr C b"
proof -
  obtain st d' where d': "ddev_open (Some FLASH_DEV_NAME) (Some 0) 0 (drvs b) = Some (dev_handle k, Some st, d')"
    "flash_up C cfg k d'" "world d' = world (drvs b)" using flash_open_ok [OF board_upD(3) [OF assms]] by blast
  then show ?thesis using board_up_drvs [OF assms d'(2)]
    by (auto simp: open_flash_def on_drv_def bcells_def bsr_def fcells_def fsr_def fobs_def)
qed

lemma close_flash_ok:
  assumes "board_up C cfg k m b"
  shows "\<exists>b'. close_flash (dev_handle k) b = Some (DRV_SUCCESS, b') \<and> board_up C cfg k m b' \<and>
    bcells C b' = bcells C b \<and> bsr C b' = bsr C b"
proof -
  obtain d' where d': "ddev_close (dev_handle k) (drvs b) = Some (DRV_SUCCESS, d')"
    "flash_up C cfg k d'" "world d' = world (drvs b)" using flash_close_ok [OF board_upD(3) [OF assms]] by blast
  then show ?thesis using board_up_drvs [OF assms d'(2)]
    by (auto simp: close_flash_def on_drv_def bcells_def bsr_def fcells_def fsr_def fobs_def)
qed

lemma ctrl_set_ok:
  assumes "board_up C cfg k m b"
  shows "\<exists>b'. ctrl_flash (dev_handle k) CMD_FLASH_SET_PROTECT t b = Some (t, b') \<and> board_up C cfg k m b' \<and>
    bcells C b' = bcells C b \<and> bsr C b' = sr_set cfg (protect_value cfg t) (bsr C b)"
proof -
  note u = board_upD [OF assms]
  obtain d' where d': "ddev_control (dev_handle k) CMD_FLASH_SET_PROTECT t (drvs b) = Some (FLASH_SUCCESS, t, d')"
    "flash_up C cfg k d'" "fcells C d' = fcells C (drvs b)" "fsr C d' = sr_set cfg (protect_value cfg t) (fsr C (drvs b))"
    using flash_set_protect_dev [OF u(1,3,2)] by blast
  then show ?thesis using board_up_drvs [OF assms d'(2)]
    by (auto simp: ctrl_flash_def on_drv_def bcells_def bsr_def)
qed

lemma is_protect_all_ok:
  assumes "board_up C cfg k m b"
  shows "\<exists>b'. uni_flash_is_protect_all b = Some (prot_type cfg (bsr C b) = FLASH_PROTECT_ALL, b') \<and> board_up C cfg k m b' \<and>
    bcells C b' = bcells C b \<and> bsr C b' = bsr C b"
proof -
  obtain b1 where b1: "open_flash b = Some (dev_handle k, b1)" "board_up C cfg k m b1" "bcells C b1 = bcells C b" "bsr C b1 = bsr C b"
    using open_flash_ok [OF assms] by blast
  note u = board_upD [OF b1(2)]
  obtain d where d: "ddev_control (dev_handle k) CMD_FLASH_GET_PROTECT (junk b1) (drvs b1) =
      Some (FLASH_SUCCESS, prot_type cfg (fsr C (drvs b1)), d)" "flash_up C cfg k d" "same_flash C (drvs b1) d"
    using flash_get_protect_dev [OF u(1,3,2)] by blast
  let ?b2 = "b1\<lparr>drvs := d\<rparr>"
  have 2: "board_up C cfg k m ?b2" "bcells C ?b2 = bcells C b" "bsr C ?b2 = bsr C b"
    using board_up_drvs [OF b1(2) d(2)] d(3) b1(3,4) by (simp_all add: same_flash_def bcells_def bsr_def)
  obtain b3 where "close_flash (dev_handle k) ?b2 = Some (DRV_SUCCESS, b3)" "board_up C cfg k m b3"
    "bcells C b3 = bcells C b" "bsr C b3 = bsr C b" using close_flash_ok [OF 2(1)] 2(2,3) by auto
  moreover have "prot_type cfg (fsr C (drvs b1)) = prot_type cfg (bsr C b)" using b1(4) by (simp add: bsr_def)
  ultimately show ?thesis using b1(1) d(1)
    by (auto simp: uni_flash_is_protect_all_def ctrl_flash_def on_drv_def)
qed

text \<open>Unprotecting before a write or an erase: the value the protection bits have after it.\<close>

definition half_sr :: "flash_config \<Rightarrow> u16 \<Rightarrow> u16" where
  "half_sr cfg sr = (if prot_type cfg sr = FLASH_PROTECT_ALL then sr_set cfg (protect_value cfg FLASH_PROTECT_HALF) sr else sr)"

lemma unprotect_ok:
  assumes "board_up C cfg k m b"
  shows "\<exists>x b'. (if prot_type cfg (bsr C b) = FLASH_PROTECT_ALL
      then ctrl_flash (dev_handle k) CMD_FLASH_SET_PROTECT FLASH_PROTECT_HALF b else Some (0, b)) = Some (x, b') \<and>
    board_up C cfg k m b' \<and> bcells C b' = bcells C b \<and> bsr C b' = half_sr cfg (bsr C b)"
  using ctrl_set_ok [OF assms, of FLASH_PROTECT_HALF] assms by (auto simp: half_sr_def)

section \<open>What the operations do\<close>

lemma tkl_set_protect_ok:
  assumes "board_up C cfg k m b"
  shows "\<exists>b'. tkl_flash_set_protect e b = Some (OPRT_OK, b') \<and> board_up C cfg k m b' \<and> bcells C b' = bcells C b \<and>
    bsr C b' = sr_set cfg (protect_value cfg (if e then FLASH_PROTECT_ALL else FLASH_PROTECT_HALF)) (bsr C b)"
proof -
  let ?t = "if e then FLASH_PROTECT_ALL else FLASH_PROTECT_HALF"
  obtain b1 where b1: "open_flash b = Some (dev_handle k, b1)" "board_up C cfg k m b1" "bcells C b1 = bcells C b" "bsr C b1 = bsr C b"
    using open_flash_ok [OF assms] by blast
  obtain b2 where b2: "ctrl_flash (dev_handle k) CMD_FLASH_SET_PROTECT ?t b1 = Some (?t, b2)" "board_up C cfg k m b2"
    "bcells C b2 = bcells C b1" "bsr C b2 = sr_set cfg (protect_value cfg ?t) (bsr C b1)"
    using ctrl_set_ok [OF b1(2), of ?t] by blast
  obtain b3 where "close_flash (dev_handle k) b2 = Some (DRV_SUCCESS, b3)" "board_up C cfg k m b3"
    "bcells C b3 = bcells C b2" "bsr C b3 = bsr C b2" using close_flash_ok [OF b2(2)] by blast
  then show ?thesis using b1 b2 by (simp add: tkl_flash_set_protect_def)
qed

lemma tkl_read_ok:
  assumes "board_up C cfg k False b" "a + n \<le> 16777216"
  shows "\<exists>b'. tkl_flash_read (of_nat a) False (of_nat n) b = Some (OPRT_OK, Some (map (bcells C b) [a..<a + n]), b') \<and>
    board_up C cfg k False b' \<and> bcells C b' = bcells C b \<and> bsr C b' = bsr C b"
proof -
  obtain b0 where b0: "hal_flash_lock b = Some (kNoErr, b0)" "board_up C cfg k True b0" "bcells C b0 = bcells C b" "bsr C b0 = bsr C b"
    using lock_ok [OF assms(1)] by blast
  obtain b1 where b1: "open_flash b0 = Some (dev_handle k, b1)" "board_up C cfg k True b1" "bcells C b1 = bcells C b0" "bsr C b1 = bsr C b0"
    using open_flash_ok [OF b0(2)] by blast
  obtain d where d: "ddev_read (dev_handle k) (of_nat n) (of_nat a) (drvs b1) =
      Some (FLASH_SUCCESS, Some (map (fcells C (drvs b1)) [a..<a + n]), d)" "flash_up C cfg k d" "same_flash C (drvs b1) d"
    using flash_read_dev [OF board_upD(1,3) [OF b1(2)] assms(2)] by blast
  let ?b2 = "b1\<lparr>drvs := d\<rparr>"
  have 2: "board_up C cfg k True ?b2" "bcells C ?b2 = bcells C b" "bsr C ?b2 = bsr C b"
    using board_up_drvs [OF b1(2) d(2)] d(3) b0(3,4) b1(3,4) by (simp_all add: same_flash_def bcells_def bsr_def)
  obtain b3 where b3: "close_flash (dev_handle k) ?b2 = Some (DRV_SUCCESS, b3)" "board_up C cfg k True b3"
    "bcells C b3 = bcells C b" "bsr C b3 = bsr C b" using close_flash_ok [OF 2(1)] 2(2,3) by auto
  obtain b4 where b4: "hal_flash_unlock b3 = Some (kNoErr, b4)" "board_up C cfg k False b4" "bcells C b4 = bcells C b" "bsr C b4 = bsr C b"
    using unlock_ok [OF b3(2)] b3(3,4) by auto
  have "fcells C (drvs b1) = bcells C b" using b0(3) b1(3) by (simp add: bcells_def)
  then show ?thesis using b0(1) b1(1) d(1) b3(1) b4 by (simp add: tkl_flash_read_def on_drv_def)
qed

lemma tkl_write_ok:
  assumes up: "board_up C cfg k False b" and n: "a + n \<le> unat (flash_size cfg)" "a < unat (flash_size cfg)" "n \<le> length buf"
  shows "\<exists>b'. tkl_flash_write (of_nat a) (Some buf) (of_nat n) b = Some (OPRT_OK, b') \<and> board_up C cfg k False b' \<and>
    bcells C b' = nor_program (ch_lk C (half_sr cfg (bsr C b))) a (take n buf) (bcells C b) \<and>
    bsr C b' = half_sr cfg (bsr C b)"
proof -
  obtain b0 where b0: "hal_flash_lock b = Some (kNoErr, b0)" "board_up C cfg k True b0" "bcells C b0 = bcells C b" "bsr C b0 = bsr C b"
    using lock_ok [OF up] by blast
  obtain b1 where b1: "open_flash b0 = Some (dev_handle k, b1)" "board_up C cfg k True b1" "bcells C b1 = bcells C b0" "bsr C b1 = bsr C b0"
    using open_flash_ok [OF b0(2)] by blast
  obtain b2 where b2: "uni_flash_is_protect_all b1 = Some (prot_type cfg (bsr C b1) = FLASH_PROTECT_ALL, b2)"
    "board_up C cfg k True b2" "bcells C b2 = bcells C b1" "bsr C b2 = bsr C b1"
    using is_protect_all_ok [OF b1(2)] by blast
  obtain b3 where b3: "open_flash b2 = Some (dev_handle k, b3)" "board_up C cfg k True b3" "bcells C b3 = bcells C b2" "bsr C b3 = bsr C b2"
    using open_flash_ok [OF b2(2)] by blast
  obtain x b4 where b4: "(if prot_type cfg (bsr C b3) = FLASH_PROTECT_ALL
      then ctrl_flash (dev_handle k) CMD_FLASH_SET_PROTECT FLASH_PROTECT_HALF b3 else Some (0, b3)) = Some (x, b4)"
    "board_up C cfg k True b4" "bcells C b4 = bcells C b3" "bsr C b4 = half_sr cfg (bsr C b3)"
    using unprotect_ok [OF b3(2)] by blast
  note u = board_upD [OF b4(2)]
  obtain d where d: "ddev_write (dev_handle k) buf (of_nat n) (of_nat a) (drvs b4) = Some (FLASH_SUCCESS, d)" "flash_up C cfg k d"
    "fcells C d = nor_program (ch_lk C (fsr C (drvs b4))) a (take n buf) (fcells C (drvs b4))" "fsr C d = fsr C (drvs b4)"
    using flash_write_dev [OF u(1,3,2) n] by blast
  let ?b5 = "b4\<lparr>drvs := d\<rparr>"
  have sr: "fsr C (drvs b4) = half_sr cfg (bsr C b)" "fcells C (drvs b4) = bcells C b"
    using b0(3,4) b1(3,4) b2(3,4) b3(3,4) b4(3,4) by (simp_all add: bcells_def bsr_def)
  have b5: "board_up C cfg k True ?b5" using board_up_drvs [OF b4(2) d(2)] .
  obtain b6 where b6: "close_flash (dev_handle k) ?b5 = Some (DRV_SUCCESS, b6)" "board_up C cfg k True b6"
    "bcells C b6 = bcells C ?b5" "bsr C b6 = bsr C ?b5" using close_flash_ok [OF b5] by blast
  obtain b7 where b7: "hal_flash_unlock b6 = Some (kNoErr, b7)" "board_up C cfg k False b7" "bcells C b7 = bcells C b6" "bsr C b7 = bsr C b6"
    using unlock_ok [OF b6(2)] by blast
  have "tkl_flash_write (of_nat a) (Some buf) (of_nat n) b = Some (OPRT_OK, b7)"
    using b0(1) b1(1) b2(1) b3(1) b4(1) d(1) b6(1) b7(1)
    unfolding tkl_flash_write_def on_drv_def b3(4) b2(4) by simp
  moreover have "bcells C b7 = nor_program (ch_lk C (half_sr cfg (bsr C b))) a (take n buf) (bcells C b)"
    "bsr C b7 = half_sr cfg (bsr C b)"
    using b7(3,4) b6(3,4) d(3,4) sr by (simp_all add: bcells_def bsr_def)
  ultimately show ?thesis using b7(2) by blast
qed

text \<open>The sectors of an erase, on the board.\<close>

lemma erase_run_board:
  assumes up: "board_up C cfg k m b" and n: "4096 * (i + n) \<le> unat (flash_size cfg)"
  shows "\<exists>b'. for_range i n (\<lambda>i b. do {
        (_, b) \<leftarrow> ctrl_flash (dev_handle k) CMD_FLASH_ERASE_SECTOR (PARTITION_SIZE * of_nat i) b; Some b }) b = Some b' \<and>
    board_up C cfg k m b' \<and> bsr C b' = bsr C b \<and>
    bcells C b' = nor_erase (ch_lk C (bsr C b)) (4096 * i) (4096 * n) (bcells C b)"
proof -
  let ?g = "\<lambda>i d. do { (_, _, d) \<leftarrow> ddev_control (dev_handle k) CMD_FLASH_ERASE_SECTOR (of_nat (0 + 4096 * i)) d; Some d }"
  let ?f = "\<lambda>i b. do { (_, b) \<leftarrow> ctrl_flash (dev_handle k) CMD_FLASH_ERASE_SECTOR (PARTITION_SIZE * of_nat i) b; Some b }"
  have lift: "?f i b = map_option (\<lambda>d. b\<lparr>drvs := d\<rparr>) (?g i (drvs b))" for i and b :: "'a flash_drv board"
    by (simp add: ctrl_flash_def on_drv_def PARTITION_SIZE_def case_prod_beta split: Option.bind_split)
  have lifts: "for_range i n ?f b = map_option (\<lambda>d. b\<lparr>drvs := d\<rparr>) (for_range i n ?g (drvs b))" for i n and b :: "'a flash_drv board"
    by (rule for_range_lift [where get = drvs and put = "\<lambda>d b. b\<lparr>drvs := d\<rparr>"]) (simp_all only: lift, simp_all)
  note u = board_upD [OF up]
  have A: "4096 dvd (0 :: nat)" "0 + 4096 * (i + n) \<le> unat (flash_size cfg)" using n by simp_all
  have "\<exists>d'. for_range i n ?g (drvs b) = Some d' \<and> flash_up C cfg k d' \<and> fsr C d' = fsr C (drvs b) \<and>
      fcells C d' = nor_erase (ch_lk C (fsr C (drvs b))) (0 + 4096 * i) (4096 * n) (fcells C (drvs b))"
    by (rule erase_run [OF u(1,3,2) A]) simp
  then show ?thesis using lifts board_up_drvs [OF up] by (auto simp: bcells_def bsr_def)
qed

definition end_sr :: "flash_config \<Rightarrow> u16 \<Rightarrow> u16" where
  "end_sr cfg sr = (if prot_type cfg sr = FLASH_PROTECT_ALL then sr_set cfg (protect_value cfg FLASH_PROTECT_ALL) sr else sr)"

lemma reprotect_ok:
  assumes "board_up C cfg k m b"
  shows "\<exists>x b'. (if prot_type cfg (bsr C b) = FLASH_PROTECT_ALL
      then ctrl_flash (dev_handle k) CMD_FLASH_SET_PROTECT FLASH_PROTECT_ALL b else Some (0, b)) = Some (x, b') \<and>
    board_up C cfg k m b' \<and> bcells C b' = bcells C b \<and> bsr C b' = end_sr cfg (bsr C b)"
  using ctrl_set_ok [OF assms, of FLASH_PROTECT_ALL] assms by (auto simp: end_sr_def)

lemma tkl_erase_ok:
  assumes up: "board_up C cfg k False b" and s: "unat (ucast ((of_nat a :: u32) div PARTITION_SIZE) :: u16) = s"
    and e: "unat (ucast ((of_nat a + of_nat n - 1 :: u32) div PARTITION_SIZE) :: u16) = e"
    and lim: "4096 * (s + (e + 1 - s)) \<le> unat (flash_size cfg)"
  shows "\<exists>b'. tkl_flash_erase (of_nat a) (of_nat n) b = Some (OPRT_OK, b') \<and> board_up C cfg k False b' \<and>
    bcells C b' = nor_erase (ch_lk C (half_sr cfg (bsr C b))) (4096 * s) (4096 * (e + 1 - s)) (bcells C b) \<and>
    bsr C b' = end_sr cfg (half_sr cfg (bsr C b))"
proof -
  obtain b0 where b0: "hal_flash_lock b = Some (kNoErr, b0)" "board_up C cfg k True b0" "bcells C b0 = bcells C b" "bsr C b0 = bsr C b"
    using lock_ok [OF up] by blast
  obtain b1 where b1: "open_flash b0 = Some (dev_handle k, b1)" "board_up C cfg k True b1" "bcells C b1 = bcells C b0" "bsr C b1 = bsr C b0"
    using open_flash_ok [OF b0(2)] by blast
  obtain b2 where b2: "uni_flash_is_protect_all b1 = Some (prot_type cfg (bsr C b1) = FLASH_PROTECT_ALL, b2)"
    "board_up C cfg k True b2" "bcells C b2 = bcells C b1" "bsr C b2 = bsr C b1"
    using is_protect_all_ok [OF b1(2)] by blast
  obtain x b4 where b4: "(if prot_type cfg (bsr C b2) = FLASH_PROTECT_ALL
      then ctrl_flash (dev_handle k) CMD_FLASH_SET_PROTECT FLASH_PROTECT_HALF b2 else Some (0, b2)) = Some (x, b4)"
    "board_up C cfg k True b4" "bcells C b4 = bcells C b2" "bsr C b4 = half_sr cfg (bsr C b2)"
    using unprotect_ok [OF b2(2)] by blast
  obtain b5 where b5: "for_range s (e + 1 - s) (\<lambda>i b. do {
        (_, b) \<leftarrow> ctrl_flash (dev_handle k) CMD_FLASH_ERASE_SECTOR (PARTITION_SIZE * of_nat i) b; Some b }) b4 = Some b5"
    "board_up C cfg k True b5" "bsr C b5 = bsr C b4"
    "bcells C b5 = nor_erase (ch_lk C (bsr C b4)) (4096 * s) (4096 * (e + 1 - s)) (bcells C b4)"
    using erase_run_board [OF b4(2) lim] by blast
  obtain b6 where b6: "uni_flash_is_protect_all b5 = Some (prot_type cfg (bsr C b5) = FLASH_PROTECT_ALL, b6)"
    "board_up C cfg k True b6" "bcells C b6 = bcells C b5" "bsr C b6 = bsr C b5"
    using is_protect_all_ok [OF b5(2)] by blast
  obtain y b7 where b7: "(if prot_type cfg (bsr C b6) = FLASH_PROTECT_ALL
      then ctrl_flash (dev_handle k) CMD_FLASH_SET_PROTECT FLASH_PROTECT_ALL b6 else Some (0, b6)) = Some (y, b7)"
    "board_up C cfg k True b7" "bcells C b7 = bcells C b6" "bsr C b7 = end_sr cfg (bsr C b6)"
    using reprotect_ok [OF b6(2)] by blast
  obtain b8 where b8: "close_flash (dev_handle k) b7 = Some (DRV_SUCCESS, b8)" "board_up C cfg k True b8"
    "bcells C b8 = bcells C b7" "bsr C b8 = bsr C b7" using close_flash_ok [OF b7(2)] by blast
  obtain b9 where b9: "hal_flash_unlock b8 = Some (kNoErr, b9)" "board_up C cfg k False b9" "bcells C b9 = bcells C b8" "bsr C b9 = bsr C b8"
    using unlock_ok [OF b8(2)] by blast
  have "tkl_flash_erase (of_nat a) (of_nat n) b = Some (OPRT_OK, b9)"
    using b0(1) b1(1) b2(1) b4(1) b5(1) b6(1) b7(1) b8(1) b9(1)
    unfolding tkl_flash_erase_def Let_def s e b2(4) b6(4) by simp
  moreover have "bcells C b9 = nor_erase (ch_lk C (half_sr cfg (bsr C b))) (4096 * s) (4096 * (e + 1 - s)) (bcells C b)"
    "bsr C b9 = end_sr cfg (half_sr cfg (bsr C b))"
    unfolding b9(3,4) b8(3,4) b7(3,4) b6(3,4) b5(3,4) b4(3,4) b2(3,4) b1(3,4) b0(3,4) by (rule refl)+
  ultimately show ?thesis using b9(2) by blast
qed

section \<open>Properties\<close>

definition sim_board :: "flash_ob flash_drv board" where
  "sim_board = \<lparr>drvs = sim_dev, hal_flash_mutex = Some False, junk = 0\<rparr>"

lemma sim_board_up: "board_up sim_chip sim_cfg 0 False sim_board"
  by (simp add: board_up_def sim_board_def sim_chip_ok sim_cfg_simps sim_dev_up)

lemma prot_type_all: "prot_type cfg sr = FLASH_PROTECT_ALL \<longleftrightarrow> prot_bits cfg sr = protect_all cfg"
  by (simp add: prot_type_def protect_types Let_def)

lemma prot_values:
  "protect_value cfg FLASH_PROTECT_ALL = protect_all cfg" "protect_value cfg FLASH_PROTECT_HALF = protect_half cfg"
  by (simp_all add: protect_value_def protect_types)

lemma half_sr_prot:
  assumes "cfg_ok cfg"
  shows "prot_bits cfg (half_sr cfg sr) = (if prot_bits cfg sr = protect_all cfg then protect_half cfg else prot_bits cfg sr)"
  using prot_bits_set [OF assms, of FLASH_PROTECT_HALF sr] by (auto simp: half_sr_def prot_type_all prot_values)

lemma end_sr_bits:
  assumes "cfg_ok cfg"
  shows "prot_bits cfg (end_sr cfg sr) = prot_bits cfg sr"
  using prot_bits_set [OF assms, of FLASH_PROTECT_ALL sr] by (auto simp: end_sr_def prot_type_all prot_values)

lemma sector_number:
  "a < 16777216 \<Longrightarrow> unat (ucast ((of_nat a :: u32) div PARTITION_SIZE) :: u16) = a div 4096"
proof -
  assume a: "a < 16777216"
  have "(of_nat a :: u32) div PARTITION_SIZE = drop_bit 12 (of_nat a)"
    by (simp add: PARTITION_SIZE_def drop_bit_eq_div)
  then have "unat ((of_nat a :: u32) div PARTITION_SIZE) = a div 4096"
    using a by (simp only: unat_drop_bit_eq) (simp add: unat_u32 drop_bit_eq_div)
  moreover have "a div 4096 < 2 ^ 16" using a by simp
  ultimately show ?thesis by (simp add: unsigned_ucast_eq take_bit_nat_eq_self)
qed

text \<open>
  C28. Writing through the adapter: with the lock free, a write inside the flash takes and
  releases the lock, returns \<^verbatim>\<open>OPRT_OK\<close> and programs the bytes where the protection in force allows it: that is
  the half protection if everything was protected, and whatever was set otherwise. The half
  protection then stays: the whole flash is not protected again. A \<^verbatim>\<open>NULL\<close> source is refused and nothing changes.
\<close>

theorem tkl_flash_write_outcome:
  assumes "board_up C cfg k False b" "a + n \<le> unat (flash_size cfg)" "a < unat (flash_size cfg)" "n \<le> length buf"
  shows "tkl_flash_write (of_nat a) None (of_nat n) b = Some (OPRT_INVALID_PARM, b) \<and>
    (\<exists>sr b'. tkl_flash_write (of_nat a) (Some buf) (of_nat n) b = Some (OPRT_OK, b') \<and> board_up C cfg k False b' \<and>
      bcells C b' = nor_program (ch_lk C sr) a (take n buf) (bcells C b) \<and> bsr C b' = sr \<and>
      prot_bits cfg sr = (if prot_bits cfg (bsr C b) = protect_all cfg then protect_half cfg else prot_bits cfg (bsr C b)))"
proof -
  have "cfg_ok cfg" using assms(1) by (rule board_upD)
  from half_sr_prot [OF this] show ?thesis
    using tkl_write_ok [OF assms] by (auto simp: tkl_flash_write_def)
qed

theorem tkl_flash_write_outcome_witness:
  "tkl_flash_write (of_nat 0x1D1000) None (of_nat 2) sim_board = Some (OPRT_INVALID_PARM, sim_board) \<and>
    (\<exists>sr b'. tkl_flash_write (of_nat 0x1D1000) (Some [7, 8]) (of_nat 2) sim_board = Some (OPRT_OK, b') \<and>
      board_up sim_chip sim_cfg 0 False b' \<and>
      bcells sim_chip b' = nor_program (ch_lk sim_chip sr) 0x1D1000 (take 2 [7, 8]) (bcells sim_chip sim_board) \<and> bsr sim_chip b' = sr \<and>
      prot_bits sim_cfg sr = (if prot_bits sim_cfg (bsr sim_chip sim_board) = protect_all sim_cfg then protect_half sim_cfg
        else prot_bits sim_cfg (bsr sim_chip sim_board)))"
  by (rule tkl_flash_write_outcome [OF sim_board_up]) (simp_all add: sim_cfg_simps)

text \<open>
  Erasing through the adapter: a range of at least one byte inside the flash is erased by whole sectors of 4096
  bytes, from the sector of its first byte to that of its last one, where the half protection (or
  whatever lesser protection was set) allows it; no other byte changes, and the lock is free again.
\<close>

theorem tkl_flash_erase_outcome:
  assumes "board_up C cfg k False b" "0 < n" "4096 * ((a + n - 1) div 4096 + 1) \<le> unat (flash_size cfg)"
  shows "\<exists>sr b'. tkl_flash_erase (of_nat a) (of_nat n) b = Some (OPRT_OK, b') \<and> board_up C cfg k False b' \<and>
    prot_bits cfg sr = (if prot_bits cfg (bsr C b) = protect_all cfg then protect_half cfg else prot_bits cfg (bsr C b)) \<and>
    prot_bits cfg (bsr C b') = prot_bits cfg sr \<and>
    bcells C b' = (\<lambda>i. if a div 4096 \<le> i div 4096 \<and> i div 4096 \<le> (a + n - 1) div 4096 \<and> \<not> ch_lk C sr i then 0xFF else bcells C b i)"
proof -
  let ?e = "(a + n - 1) div 4096" and ?s = "a div 4096"
  have cfg: "cfg_ok cfg" using assms(1) by (rule board_upD)
  then have "unat (flash_size cfg) \<le> 16777216" by (simp add: cfg_ok_def)
  then have lim: "a < 16777216" "a + n - 1 < 16777216"
  proof -
    assume fs: "unat (flash_size cfg) \<le> 16777216"
    have "a + n - 1 < 4096 * (?e + 1)" using dividend_less_div_times [of 4096 "a + n - 1"] by simp
    then show "a + n - 1 < 16777216" using fs assms(3) by (metis less_le_trans)
    then show "a < 16777216" using assms(2) by simp
  qed
  have "(of_nat a + of_nat n - 1 :: u32) = of_nat (a + n - 1)" using assms(2) by (simp add: of_nat_diff)
  then have sec: "unat (ucast ((of_nat a :: u32) div PARTITION_SIZE) :: u16) = ?s"
    "unat (ucast ((of_nat a + of_nat n - 1 :: u32) div PARTITION_SIZE) :: u16) = ?e"
    using sector_number [OF lim(1)] sector_number [OF lim(2)] by simp_all
  have se: "?s \<le> ?e" using assms(2) by (intro div_le_mono) simp
  then have "?s + (?e + 1 - ?s) = ?e + 1" by simp
  then have "4096 * (?s + (?e + 1 - ?s)) \<le> unat (flash_size cfg)" using assms(3) by simp
  from tkl_erase_ok [OF assms(1) sec this] obtain b' where b': "tkl_flash_erase (of_nat a) (of_nat n) b = Some (OPRT_OK, b')"
    "board_up C cfg k False b'" "bsr C b' = end_sr cfg (half_sr cfg (bsr C b))"
    "bcells C b' = nor_erase (ch_lk C (half_sr cfg (bsr C b))) (4096 * ?s) (4096 * (?e + 1 - ?s)) (bcells C b)" by blast
  have "4096 * ?s \<le> i \<and> i < 4096 * ?s + 4096 * (?e + 1 - ?s) \<longleftrightarrow> ?s \<le> i div 4096 \<and> i div 4096 \<le> ?e" for i
  proof -
    have "4096 * ?s + 4096 * (?e + 1 - ?s) = 4096 * (?e + 1)" using se by (simp add: diff_mult_distrib2)
    moreover have "4096 * q \<le> i \<longleftrightarrow> q \<le> i div 4096" for q by (simp add: less_eq_div_iff_mult_less_eq mult.commute)
    ultimately show ?thesis by (metis Suc_eq_plus1 not_less not_less_eq_eq)
  qed
  then have "nor_erase lk (4096 * ?s) (4096 * (?e + 1 - ?s)) c =
      (\<lambda>i. if ?s \<le> i div 4096 \<and> i div 4096 \<le> ?e \<and> \<not> lk i then 0xFF else c i)" for lk c
    unfolding nor_erase_def by (intro ext if_cong refl) blast
  note cells = this
  show ?thesis using b'(1,2,3) b'(4) [unfolded cells] half_sr_prot [OF cfg, of "bsr C b"] end_sr_bits [OF cfg]
    by (intro exI [of _ "half_sr cfg (bsr C b)"] exI [of _ b'] conjI) simp_all
qed

theorem tkl_flash_erase_outcome_witness:
  "\<exists>sr b'. tkl_flash_erase (of_nat 0x1D1FFF) (of_nat 2) sim_board = Some (OPRT_OK, b') \<and> board_up sim_chip sim_cfg 0 False b' \<and>
    prot_bits sim_cfg sr = (if prot_bits sim_cfg (bsr sim_chip sim_board) = protect_all sim_cfg then protect_half sim_cfg
      else prot_bits sim_cfg (bsr sim_chip sim_board)) \<and>
    prot_bits sim_cfg (bsr sim_chip b') = prot_bits sim_cfg sr \<and>
    bcells sim_chip b' = (\<lambda>i. if 0x1D1FFF div 4096 \<le> i div 4096 \<and> i div 4096 \<le> (0x1D1FFF + 2 - 1) div 4096 \<and> \<not> ch_lk sim_chip sr i
      then 0xFF else bcells sim_chip sim_board i)"
  by (rule tkl_flash_erase_outcome [OF sim_board_up]) (simp_all add: sim_cfg_simps)

end
