(* ===== verification/NetParamFlow.thy ===== *)
theory NetParamFlow
  imports NetParam TklFlash
begin

text \<open>
  The network parameters as a map: what the sector holds after any history of saves and reads. The table is the
  header followed by the items one after the other (\<open>enc_tbl\<close>); a search walks over it, a save rewrites it.
\<close>

section \<open>The table\<close>

type_synonym items = "(net_info_item \<times> u8 list) list"

definition payload_len :: "net_info_item \<Rightarrow> nat" where
  "payload_len it = unat (info_item_len it) - 8"

definition item_ok :: "net_info_item \<times> u8 list \<Rightarrow> bool" where
  "item_ok x \<longleftrightarrow> length (snd x) = payload_len (fst x) \<and> (fst x = WIFI_MAC_ITEM \<longrightarrow> drop 6 (snd x) = [0, 0])"

definition items_ok :: "items \<Rightarrow> bool" where
  "items_ok its \<longleftrightarrow> distinct (map fst its) \<and> (\<forall>x \<in> set its. item_ok x)"

definition enc_item :: "net_info_item \<times> u8 list \<Rightarrow> u8 list" where
  "enc_item x = hdr_bytes \<lparr>it_type = item_code (fst x), it_len = of_nat (length (snd x))\<rparr> @ snd x"

definition enc_items :: "items \<Rightarrow> u8 list" where
  "enc_items its = concat (map enc_item its)"

definition enc_tbl :: "items \<Rightarrow> u8 list" where
  "enc_tbl its = hdr_bytes \<lparr>it_type = INFO_TLV_HEADER, it_len = of_nat (length (enc_items its))\<rparr> @ enc_items its"

lemma length_hdr [simp]: "length (hdr_bytes h) = 8"
  by (simp add: hdr_bytes_def word_bytes_le_def)

lemma length_enc_item [simp]: "length (enc_item x) = 8 + length (snd x)"
  by (simp add: enc_item_def)

lemma enc_items_simps [simp]:
  "enc_items [] = []" "enc_items (x # its) = enc_item x @ enc_items its" "enc_items (xs @ ys) = enc_items xs @ enc_items ys"
  by (simp_all add: enc_items_def)

lemma length_enc_tbl [simp]: "length (enc_tbl its) = 8 + length (enc_items its)"
  by (simp add: enc_tbl_def)

lemma item_code_inj: "item_code a = item_code b \<longleftrightarrow> a = b"
  by (cases a; cases b) simp_all

lemma payload_len_simps [simp]:
  "payload_len WIFI_MAC_ITEM = 8" "payload_len SSID_KEY_ITEM = 96" "payload_len IP_CONFIG_ITEM = 48"
  "it \<notin> {WIFI_MAC_ITEM, SSID_KEY_ITEM, IP_CONFIG_ITEM} \<Longrightarrow> payload_len it = 4"
  by (simp_all add: payload_len_def) (cases it; simp)

lemma payload_len_le: "payload_len it \<le> 96"
  by (cases it) (simp_all add: payload_len_def)

lemma info_item_len_eq: "info_item_len it = of_nat (8 + payload_len it)" "unat (info_item_len it) = 8 + payload_len it"
  by (cases it; simp add: payload_len_def)+

definition all_items :: "net_info_item list" where
  "all_items = [AUTO_CONNECT_ITEM, WIFI_MODE_ITEM, DHCP_MODE_ITEM, WIFI_MAC_ITEM, SSID_KEY_ITEM, IP_CONFIG_ITEM,
     RF_CFG_TSSI_ITEM, RF_CFG_DIST_ITEM, RF_CFG_MODE_ITEM, CHARGE_CONFIG_ITEM, RF_CFG_TSSI_B_ITEM]"

lemma length_items_le:
  assumes "items_ok its"
  shows "length (enc_items its) \<le> 1144"
proof -
  have "length (enc_items xs) \<le> 104 * length xs" if "\<forall>x \<in> set xs. item_ok x" for xs
    using that
  proof (induction xs)
    case (Cons x xs)
    then have "length (snd x) \<le> 96" using payload_len_le [of "fst x"] by (simp add: item_ok_def)
    then show ?case using Cons by simp
  qed simp
  moreover have "length its \<le> 11"
  proof -
    have "x \<in> set all_items" for x by (cases x) (simp_all add: all_items_def)
    then have "card (set (map fst its)) \<le> card (set all_items)" by (intro card_mono) auto
    also have "\<dots> \<le> 11" by (rule order_trans [OF card_length]) (simp add: all_items_def)
    finally show ?thesis using assms distinct_card [of "map fst its"] by (simp add: items_ok_def)
  qed
  ultimately have "length (enc_items its) \<le> 104 * length its" using assms by (simp add: items_ok_def)
  then show ?thesis using \<open>length its \<le> 11\<close> by linarith
qed

lemma le_word_bytes: "le_word (word_bytes_le w) = w"
proof (rule bit_word_eqI)
  fix n assume "n < LENGTH(32)"
  then consider "n < 8" | "8 \<le> n" "n < 16" | "16 \<le> n" "n < 24" | "24 \<le> n" "n < 32" by fastforce
  then show "bit (le_word (word_bytes_le w)) n \<longleftrightarrow> bit w n"
    by cases (auto simp: word_bytes_le_def bit_simps)
qed

lemma hdr_of_bytes: "hdr_of (hdr_bytes h) = h"
  using le_word_bytes [of "it_type h"] le_word_bytes [of "it_len h"]
  by (cases h) (simp add: hdr_of_def hdr_bytes_def word_bytes_le_def del: le_word.simps)

text \<open>The bytes \<open>bs\<close> stand at address \<open>a\<close>.\<close>

definition holds :: "(nat \<Rightarrow> u8) \<Rightarrow> nat \<Rightarrow> u8 list \<Rightarrow> bool" where
  "holds c a bs \<longleftrightarrow> map c [a..<a + length bs] = bs"

lemma holds_append: "holds c a (xs @ ys) \<longleftrightarrow> holds c a xs \<and> holds c (a + length xs) ys"
proof -
  have "[a..<a + length (xs @ ys)] = [a..<a + length xs] @ [a + length xs..<a + length xs + length ys]"
    using upt_add_eq_append [of a "a + length xs" "length ys"] by (simp add: add.assoc)
  then show ?thesis by (simp add: holds_def)
qed

lemma holds_hdr: "holds c a (hdr_bytes h @ ys) \<Longrightarrow> hdr_of (map c [a..<a + 8]) = h"
  by (simp add: holds_append) (simp add: holds_def hdr_of_bytes)


section \<open>Searching\<close>

definition net_at :: nat where "net_at = 0x1D1000"

lemma net_part_eq: "net_part = Some (bk7231_partitions ! 4)" "partition_start_addr (bk7231_partitions ! 4) = of_nat net_at"
  using bk_get_info [of 4] by (simp_all add: net_part_def BK_PARTITION_NET_PARAM_def net_at_def bk7231_partitions_def)

lemma read_hdr_ok:
  assumes "chip_ok C" "flash_up C cfg k d" "a + 8 \<le> 16777216"
  shows "\<exists>d'. read_hdr (dev_handle k) (of_nat a) head d = Some (hdr_of (map (fcells C d) [a..<a + 8]), d') \<and>
    flash_up C cfg k d' \<and> same_flash C d d'"
  using flash_read_dev [OF assms] by (auto simp: read_hdr_def INFO_ITEM_SIZE_def)

lemma open_ok:
  assumes "flash_up C cfg k d"
  shows "\<exists>st d'. ddev_open (Some FLASH_DEV_NAME) (Some s0) flag d = Some (dev_handle k, Some st, d') \<and>
    flash_up C cfg k d' \<and> same_flash C d d'"
  using flash_open_ok [OF assms, of s0 flag] by (auto simp: same_flash_def fcells_def fsr_def fobs_def)

lemma close_ok:
  assumes "flash_up C cfg k d"
  shows "\<exists>d'. ddev_close (dev_handle k) d = Some (DRV_SUCCESS, d') \<and> flash_up C cfg k d' \<and> same_flash C d d'"
  using flash_close_ok [OF assms] by (auto simp: same_flash_def fcells_def fsr_def fobs_def)

lemma same_cells: "same_flash C d d' \<Longrightarrow> fcells C d' = fcells C d"
  by (simp add: same_flash_def)

lemma item_loop_ok:
  assumes C: "chip_ok C"
  shows "flash_up C cfg k d \<Longrightarrow> holds (fcells C d) a (enc_items its) \<Longrightarrow> \<forall>x \<in> set its. item_ok x \<Longrightarrow>
    a + length (enc_items its) + 8 \<le> 16777216 \<Longrightarrow>
    \<exists>d'. item_loop (dev_handle k) (item_code it) (of_nat a) (of_nat (a + length (enc_items its))) head d =
      Some (of_nat (a + length (enc_items (takeWhile (\<lambda>x. fst x \<noteq> it) its))), d') \<and> flash_up C cfg k d' \<and> same_flash C d d'"
proof (induction its arbitrary: a d head)
  case Nil
  then show ?case by (subst item_loop.simps) simp
next
  case (Cons x its)
  let ?h = "\<lparr>it_type = item_code (fst x), it_len = of_nat (length (snd x))\<rparr>"
  let ?a = "a + 8 + length (snd x)" and ?e = "a + length (enc_items (x # its))"
  have h: "holds (fcells C d) a (hdr_bytes ?h @ snd x @ enc_items its)" "holds (fcells C d) ?a (enc_items its)"
    using Cons.prems(2) by (simp_all add: enc_item_def holds_append add.assoc)
  have e: "?a + length (enc_items its) = ?e" by simp
  have a8: "a + 8 \<le> 16777216" using Cons.prems(4) by simp
  obtain d1 where d1: "read_hdr (dev_handle k) (of_nat a) head d = Some (?h, d1)" "flash_up C cfg k d1" "same_flash C d d1"
    using read_hdr_ok [OF C Cons.prems(1) a8, of head] holds_hdr [OF h(1)] by auto
  have less: "(of_nat a :: u32) < of_nat ?e" using Cons.prems(4) by (subst of_nat_u32_less) simp_all
  show ?case
  proof (cases "fst x = it")
    case True
    then have "item_loop (dev_handle k) (item_code it) (of_nat a) (of_nat ?e) head d = Some (of_nat a, d1)"
      using d1(1) less by (subst item_loop.simps) (simp del: enc_items_simps of_nat_add)
    then show ?thesis using d1(2,3) True by auto
  next
    case False
    have n: "(of_nat a + INFO_ITEM_SIZE + of_nat (length (snd x)) :: u32) = of_nat ?a" by (simp add: INFO_ITEM_SIZE_def)
    have "item_loop (dev_handle k) (item_code it) (of_nat a) (of_nat ?e) head d =
        item_loop (dev_handle k) (item_code it) (of_nat ?a) (of_nat ?e) ?h d1"
      using d1(1) less False by (subst item_loop.simps) (simp add: item_code_inj n del: enc_items_simps of_nat_add)
    moreover have "holds (fcells C d1) ?a (enc_items its)" using h(2) same_cells [OF d1(3)] by simp
    from Cons.IH [OF d1(2) this, of ?h] Cons.prems(3,4)
    obtain d' where "item_loop (dev_handle k) (item_code it) (of_nat ?a) (of_nat (?a + length (enc_items its))) ?h d1 =
        Some (of_nat (?a + length (enc_items (takeWhile (\<lambda>x. fst x \<noteq> it) its))), d')" "flash_up C cfg k d'" "same_flash C d1 d'"
      by auto
    ultimately show ?thesis using False same_flash_trans [OF d1(3)] unfolding e by (auto simp: add.assoc)
  qed
qed

text \<open>What the sector says: a table of the items, or nothing because there is no table.\<close>

definition has_tbl :: "(nat \<Rightarrow> u8) \<Rightarrow> items \<Rightarrow> bool" where
  "has_tbl c its \<longleftrightarrow> items_ok its \<and> holds c net_at (enc_tbl its)"

definition no_tbl :: "(nat \<Rightarrow> u8) \<Rightarrow> bool" where
  "no_tbl c \<longleftrightarrow> it_type (hdr_of (map c [net_at..<net_at + 8])) \<noteq> INFO_TLV_HEADER"

lemma has_tblD:
  assumes "has_tbl c its"
  shows "hdr_of (map c [net_at..<net_at + 8]) = \<lparr>it_type = INFO_TLV_HEADER, it_len = of_nat (length (enc_items its))\<rparr>"
    and "holds c (net_at + 8) (enc_items its)" and "\<forall>x \<in> set its. item_ok x"
    and "net_at + 8 + length (enc_items its) + 8 \<le> 16777216"
    and "length (enc_items its) < 4294967296" and "map c [net_at..<net_at + length (enc_tbl its)] = enc_tbl its"
proof -
  have h: "holds c net_at (enc_tbl its)" "items_ok its" using assms by (simp_all add: has_tbl_def)
  then show "hdr_of (map c [net_at..<net_at + 8]) = \<lparr>it_type = INFO_TLV_HEADER, it_len = of_nat (length (enc_items its))\<rparr>"
    using holds_hdr unfolding enc_tbl_def by blast
  show "holds c (net_at + 8) (enc_items its)" using h(1) by (simp add: enc_tbl_def holds_append)
  show "map c [net_at..<net_at + length (enc_tbl its)] = enc_tbl its" using h(1) by (simp only: holds_def)
  show "\<forall>x \<in> set its. item_ok x" "net_at + 8 + length (enc_items its) + 8 \<le> 16777216" "length (enc_items its) < 4294967296"
    using h(2) length_items_le [OF h(2)] by (simp_all add: items_ok_def net_at_def)
qed

lemma search_tbl_none:
  assumes C: "chip_ok C" and up: "flash_up C cfg k d" and no: "no_tbl (fcells C d)"
  shows "\<exists>d'. search_info_tbl u buf d = Some (False, 0, buf, d') \<and> flash_up C cfg k d' \<and> same_flash C d d'"
proof -
  obtain st d1 where d1: "ddev_open (Some FLASH_DEV_NAME) (Some 0) 0 d = Some (dev_handle k, Some st, d1)"
    "flash_up C cfg k d1" "same_flash C d d1" using open_ok [OF up] by blast
  obtain d2 where d2: "read_hdr (dev_handle k) (of_nat net_at) u d1 = Some (hdr_of (map (fcells C d1) [net_at..<net_at + 8]), d2)"
    "flash_up C cfg k d2" "same_flash C d1 d2" using read_hdr_ok [OF C d1(2), of net_at u] by (auto simp: net_at_def)
  obtain d3 where d3: "ddev_close (dev_handle k) d2 = Some (DRV_SUCCESS, d3)" "flash_up C cfg k d3" "same_flash C d2 d3"
    using close_ok [OF d2(2)] by blast
  have "search_info_tbl u buf d = Some (False, 0, buf, d3)"
    using d1(1) d2(1) d3(1) no by (simp add: search_info_tbl_def net_part_eq no_tbl_def same_cells [OF d1(3)])
  then show ?thesis using d3(2) same_flash_trans [OF same_flash_trans [OF d1(3) d2(3)] d3(3)] by blast
qed

lemma search_tbl_found:
  assumes C: "chip_ok C" and up: "flash_up C cfg k d" and has: "has_tbl (fcells C d) its"
    and buf: "\<forall>b. buf = Some b \<longrightarrow> length (enc_tbl its) \<le> length b"
  shows "\<exists>d'. search_info_tbl u buf d = Some (True, of_nat (length (enc_tbl its)),
      map_option (\<lambda>b. enc_tbl its @ drop (length (enc_tbl its)) b) buf, d') \<and> flash_up C cfg k d' \<and> same_flash C d d'"
proof -
  let ?n = "length (enc_tbl its)"
  note h = has_tblD [OF has]
  obtain st d1 where d1: "ddev_open (Some FLASH_DEV_NAME) (Some 0) 0 d = Some (dev_handle k, Some st, d1)"
    "flash_up C cfg k d1" "same_flash C d d1" using open_ok [OF up] by blast
  obtain d2 where d2: "read_hdr (dev_handle k) (of_nat net_at) u d1 = Some (hdr_of (map (fcells C d1) [net_at..<net_at + 8]), d2)"
    "flash_up C cfg k d2" "same_flash C d1 d2" using read_hdr_ok [OF C d1(2), of net_at u] by (auto simp: net_at_def)
  have s2: "same_flash C d d2" by (rule same_flash_trans [OF d1(3) d2(3)])
  have "net_at + ?n \<le> 16777216" using h(4) by simp
  from flash_read_dev [OF C d2(2) this] obtain d3 where
    d3: "ddev_read (dev_handle k) (of_nat ?n) (of_nat net_at) d2 = Some (FLASH_SUCCESS, Some (enc_tbl its), d3)"
    "flash_up C cfg k d3" "same_flash C d2 d3" unfolding same_cells [OF s2] h(6) by blast
  have "(of_nat (length (enc_items its)) + INFO_ITEM_SIZE :: u32) = of_nat ?n" by (simp add: INFO_ITEM_SIZE_def)
  then have "it_len (hdr_of (map (fcells C d1) [net_at..<net_at + 8])) + INFO_ITEM_SIZE = of_nat ?n"
    "it_type (hdr_of (map (fcells C d1) [net_at..<net_at + 8])) = INFO_TLV_HEADER"
    unfolding same_cells [OF d1(3)] h(1) by simp_all
  note eq = d1(1) d2(1) d3(1) net_part_eq this
  show ?thesis
  proof (cases buf)
    case None
    obtain d4 where d4: "ddev_close (dev_handle k) d2 = Some (DRV_SUCCESS, d4)" "flash_up C cfg k d4" "same_flash C d2 d4"
      using close_ok [OF d2(2)] by blast
    have "search_info_tbl u buf d = Some (True, of_nat ?n, None, d4)"
      using None d4(1) by (simp add: search_info_tbl_def eq del: length_enc_tbl)
    then show ?thesis using None d4(2) same_flash_trans [OF s2 d4(3)] by auto
  next
    case (Some b)
    obtain d4 where d4: "ddev_close (dev_handle k) d3 = Some (DRV_SUCCESS, d4)" "flash_up C cfg k d4" "same_flash C d3 d4"
      using close_ok [OF d3(2)] by blast
    have "memcpy b 0 (enc_tbl its) 0 ?n = Some (enc_tbl its @ drop ?n b)"
      using buf Some by (simp add: memcpy_def)
    then have "search_info_tbl u buf d = Some (True, of_nat ?n, Some (enc_tbl its @ drop ?n b), d4)"
      using Some d4(1) by (simp add: search_info_tbl_def eq del: length_enc_tbl)
    then show ?thesis using Some d4(2) same_flash_trans [OF same_flash_trans [OF s2 d3(3)] d4(3)] by auto
  qed
qed

lemma search_item_run:
  assumes C: "chip_ok C" and up: "flash_up C cfg k d" and has: "has_tbl (fcells C d) its"
  shows "\<exists>d'. search_info_item u (item_code it) (of_nat net_at) d =
      Some (if length (enc_items its) \<le> length (enc_items (takeWhile (\<lambda>x. fst x \<noteq> it) its)) then 0
            else of_nat (net_at + 8 + length (enc_items (takeWhile (\<lambda>x. fst x \<noteq> it) its))), d') \<and>
    flash_up C cfg k d' \<and> same_flash C d d'"
proof -
  let ?l = "length (enc_items its)" and ?t = "length (enc_items (takeWhile (\<lambda>x. fst x \<noteq> it) its))"
  note h = has_tblD [OF has]
  obtain st d1 where d1: "ddev_open (Some FLASH_DEV_NAME) (Some 0) 0 d = Some (dev_handle k, Some st, d1)"
    "flash_up C cfg k d1" "same_flash C d d1" using open_ok [OF up] by blast
  obtain d2 where d2: "read_hdr (dev_handle k) (of_nat net_at) u d1 = Some (hdr_of (map (fcells C d1) [net_at..<net_at + 8]), d2)"
    "flash_up C cfg k d2" "same_flash C d1 d2" using read_hdr_ok [OF C d1(2), of net_at u] by (auto simp: net_at_def)
  have s2: "same_flash C d d2" by (rule same_flash_trans [OF d1(3) d2(3)])
  define hd0 where "hd0 = hdr_of (map (fcells C d1) [net_at..<net_at + 8])"
  have hd0: "it_len hd0 = of_nat ?l" unfolding hd0_def same_cells [OF d1(3)] h(1) by simp
  have "holds (fcells C d2) (net_at + 8) (enc_items its)" using h(2) same_cells [OF s2] by simp
  from item_loop_ok [OF C d2(2) this h(3), of it hd0] h(4) obtain d3 where
    d3: "item_loop (dev_handle k) (item_code it) (of_nat (net_at + 8)) (of_nat (net_at + 8 + ?l)) hd0 d2 =
      Some (of_nat (net_at + 8 + ?t), d3)" "flash_up C cfg k d3" "same_flash C d2 d3" by auto
  obtain d4 where d4: "ddev_close (dev_handle k) d3 = Some (DRV_SUCCESS, d4)" "flash_up C cfg k d4" "same_flash C d3 d4"
    using close_ok [OF d3(2)] by blast
  have t: "?t \<le> ?l"
    by (metis enc_items_simps(3) le_add1 length_append takeWhile_dropWhile_id)
  have a: "(of_nat net_at + INFO_ITEM_SIZE :: u32) = of_nat (net_at + 8)" "of_nat (net_at + 8) + it_len hd0 = of_nat (net_at + 8 + ?l)"
    by (simp_all add: INFO_ITEM_SIZE_def hd0)
  have le: "(of_nat (net_at + 8 + ?l) :: u32) \<le> of_nat (net_at + 8 + ?t) \<longleftrightarrow> ?l \<le> ?t"
    using h(4) t by (subst of_nat_u32_le) simp_all
  have "search_info_item u (item_code it) (of_nat net_at) d =
      Some (if ?l \<le> ?t then 0 else of_nat (net_at + 8 + ?t), d4)"
    using d1(1) d2(1) d3(1) d4(1) unfolding hd0_def [symmetric] search_info_item_def
    by (simp add: a le Let_def del: of_nat_add)
  then show ?thesis using d4(2) same_flash_trans [OF same_flash_trans [OF s2 d3(3)] d4(3)] by blast
qed

lemma search_item_found:
  assumes "chip_ok C" "flash_up C cfg k d" "has_tbl (fcells C d) (pre @ (it, v) # post)"
  shows "\<exists>d'. search_info_item u (item_code it) (of_nat net_at) d = Some (of_nat (net_at + 8 + length (enc_items pre)), d') \<and>
    flash_up C cfg k d' \<and> same_flash C d d'"
proof -
  have "it \<notin> fst ` set pre" using assms(3) by (auto simp: has_tbl_def items_ok_def)
  then have "takeWhile (\<lambda>x. fst x \<noteq> it) (pre @ (it, v) # post) = pre" by (subst takeWhile_append2) auto
  then show ?thesis using search_item_run [OF assms, of u it] by simp
qed

lemma search_item_missing:
  assumes "chip_ok C" "flash_up C cfg k d" "has_tbl (fcells C d) its" "it \<notin> fst ` set its"
  shows "\<exists>d'. search_info_item u (item_code it) (of_nat net_at) d = Some (0, d') \<and> flash_up C cfg k d' \<and> same_flash C d d'"
proof -
  have "takeWhile (\<lambda>x. fst x \<noteq> it) its = its" using assms(4) by (auto simp: takeWhile_eq_all_conv)
  then show ?thesis using search_item_run [OF assms(1-3), of u it] by (simp only: order_refl if_True)
qed

section \<open>Reading an item\<close>

text \<open>What reading an item of the map \<open>M\<close> gives, with the pointers that are not \<^verbatim>\<open>NULL\<close>.\<close>

definition net_get ::
  "net_info_item \<Rightarrow> bool \<Rightarrow> bool \<Rightarrow> bool \<Rightarrow> (net_info_item \<rightharpoonup> u8 list) \<Rightarrow> bool \<times> u8 list option \<times> u8 list option \<times> u8 list option" where
  "net_get it p0 p1 p2 M =
     (case M it of
        None \<Rightarrow> (False, None, None, None)
      | Some v \<Rightarrow>
          if it = SSID_KEY_ITEM
          then if p0 \<and> p1 then (True, Some (take 32 v), Some (drop 32 v), None) else (False, None, None, None)
          else if it = IP_CONFIG_ITEM
          then if p0 \<and> p1 \<and> p2 then (True, Some (take 16 v), Some (take 16 (drop 16 v)), Some (drop 32 v))
               else (False, None, None, None)
          else if it = CHARGE_CONFIG_ITEM then (False, None, None, None)
          else if p0 then (True, Some v, None, None) else (False, None, None, None))"

lemma holds_slice:
  assumes "holds c a v" "i + n \<le> length v"
  shows "map c [a + i..<a + i + n] = take n (drop i v)"
proof -
  have "v = take i v @ take n (drop i v) @ drop (i + n) v"
    using append_take_drop_id [of i v] append_take_drop_id [of n "drop i v"] by (simp add: add.commute)
  then have "holds c a (take i v @ take n (drop i v) @ drop (i + n) v)" using assms(1) by simp
  then have "holds c (a + i) (take n (drop i v))" using assms(2) by (simp add: holds_append)
  then show ?thesis using assms(2) by (simp add: holds_def)
qed

lemma read_value:
  assumes C: "chip_ok C" and up: "flash_up C cfg k d" and "holds (fcells C d) a v" "i + n \<le> length v" "a + length v \<le> 16777216"
  shows "\<exists>d'. ddev_read (dev_handle k) (of_nat n) (of_nat a + of_nat i) d = Some (FLASH_SUCCESS, Some (take n (drop i v)), d') \<and>
    flash_up C cfg k d' \<and> same_flash C d d'"
  using flash_read_dev [OF C up, of "a + i" n] holds_slice [OF assms(3,4)] assms(4,5) by simp

lemma has_tbl_item:
  assumes "has_tbl c (pre @ (it, v) # post)"
  shows "hdr_of (map c [net_at + 8 + length (enc_items pre)..<net_at + 8 + length (enc_items pre) + 8]) =
      \<lparr>it_type = item_code it, it_len = of_nat (length v)\<rparr>"
    and "holds c (net_at + 8 + length (enc_items pre) + 8) v"
    and "net_at + 8 + length (enc_items pre) + 8 + length v \<le> 16777216" and "length v = payload_len it"
proof -
  note h = has_tblD [OF assms]
  have "holds c (net_at + 8 + length (enc_items pre)) (enc_item (it, v) @ enc_items post)"
    using h(2) by (simp add: holds_append add.assoc)
  then have e: "holds c (net_at + 8 + length (enc_items pre)) (hdr_bytes \<lparr>it_type = item_code it, it_len = of_nat (length v)\<rparr> @ v @ enc_items post)"
    by (simp add: enc_item_def)
  then show "hdr_of (map c [net_at + 8 + length (enc_items pre)..<net_at + 8 + length (enc_items pre) + 8]) =
      \<lparr>it_type = item_code it, it_len = of_nat (length v)\<rparr>" by (rule holds_hdr)
  show "holds c (net_at + 8 + length (enc_items pre) + 8) v" using e by (simp add: holds_append)
  show "net_at + 8 + length (enc_items pre) + 8 + length v \<le> 16777216" using h(4) by simp
  show "length v = payload_len it" using h(3) by (simp add: item_ok_def)
qed

lemma get_switch_ok:
  assumes C: "chip_ok C" and up: "flash_up C cfg k d" and at: "holds (fcells C d) a v" "a + length v \<le> 16777216"
    and v: "length v = payload_len it"
  shows "\<exists>r x0 x1 x2 d'. get_switch (dev_handle k) it p0 p1 p2 (of_nat a) \<lparr>it_type = item_code it, it_len = of_nat (length v)\<rparr> d =
      Some (r, x0, x1, x2, d') \<and> (r, x0, x1, x2) = net_get it p0 p1 p2 [it \<mapsto> v] \<and> flash_up C cfg k d' \<and> same_flash C d d'"
proof -
  define A :: u32 where "A = of_nat a"
  have rd: "\<exists>e'. ddev_read (dev_handle k) (of_nat n) (A + of_nat j) e = Some (FLASH_SUCCESS, Some (take n (drop j v)), e') \<and>
      flash_up C cfg k e' \<and> same_flash C d e'" if "flash_up C cfg k e" "same_flash C d e" "j + n \<le> length v" for e j n
    using read_value [OF C that(1), of a v j n] that(2,3) at same_flash_trans same_cells [OF that(2)] unfolding A_def by auto
  consider "it = SSID_KEY_ITEM" "p0" "p1" | "it = IP_CONFIG_ITEM" "p0" "p1" "p2"
    | "it \<noteq> SSID_KEY_ITEM" "it \<noteq> IP_CONFIG_ITEM" "it \<noteq> CHARGE_CONFIG_ITEM" "p0"
    | "it = SSID_KEY_ITEM" "\<not> (p0 \<and> p1)" | "it = IP_CONFIG_ITEM" "\<not> (p0 \<and> p1 \<and> p2)" | "it = CHARGE_CONFIG_ITEM"
    | "it \<noteq> SSID_KEY_ITEM" "it \<noteq> IP_CONFIG_ITEM" "\<not> p0" by blast
  then show ?thesis
  proof cases
    case 1
    have l: "length v = 96" using v 1 by simp
    obtain e1 where e1: "ddev_read (dev_handle k) 32 A d = Some (FLASH_SUCCESS, Some (take 32 v), e1)"
      "flash_up C cfg k e1" "same_flash C d e1" using rd [OF up same_flash_refl, of 0 32] l by auto
    from rd [OF e1(2,3), of 32 64] show ?thesis unfolding A_def [symmetric] using 1 l e1(1) by (auto simp: get_switch_def net_get_def)
  next
    case 2
    have l: "length v = 48" using v 2 by simp
    obtain e1 where e1: "ddev_read (dev_handle k) 16 A d = Some (FLASH_SUCCESS, Some (take 16 v), e1)"
      "flash_up C cfg k e1" "same_flash C d e1" using rd [OF up same_flash_refl, of 0 16] l by auto
    obtain e2 where e2: "ddev_read (dev_handle k) 16 (A + 16) e1 = Some (FLASH_SUCCESS, Some (take 16 (drop 16 v)), e2)"
      "flash_up C cfg k e2" "same_flash C d e2" using rd [OF e1(2,3), of 16 16] l by auto
    obtain e3 where "ddev_read (dev_handle k) 16 (32 + A) e2 = Some (FLASH_SUCCESS, Some (drop 32 v), e3)"
      "flash_up C cfg k e3" "same_flash C d e3" using rd [OF e2(2,3), of 32 16] l by (auto simp: add.commute)
    then show ?thesis unfolding A_def [symmetric] using 2 e1(1) e2(1) by (auto simp: get_switch_def net_get_def)
  next
    case 3
    from rd [OF up same_flash_refl, of 0 "length v"] show ?thesis unfolding A_def [symmetric] using 3
      by (cases it) (auto simp: get_switch_def net_get_def)
  next
    case 7
    then show ?thesis unfolding A_def [symmetric] using up by (cases it) (auto simp: get_switch_def net_get_def)
  qed (use up in \<open>unfold A_def [symmetric], auto simp: get_switch_def net_get_def\<close>)
qed

lemma get_found:
  assumes C: "chip_ok C" and up: "flash_up C cfg k d" and has: "has_tbl (fcells C d) (pre @ (it, v) # post)"
  shows "\<exists>r x0 x1 x2 d'. get_info_item u it p0 p1 p2 d = Some (r, x0, x1, x2, d') \<and>
    (r, x0, x1, x2) = net_get it p0 p1 p2 [it \<mapsto> v] \<and> flash_up C cfg k d' \<and> same_flash C d d'"
proof -
  let ?a = "net_at + 8 + length (enc_items pre)" and ?h = "\<lparr>it_type = item_code it, it_len = of_nat (length v)\<rparr>"
  note i = has_tbl_item [OF has]
  obtain d1 where d1: "search_info_tbl u None d = Some (True, of_nat (length (enc_tbl (pre @ (it, v) # post))), None, d1)"
    "flash_up C cfg k d1" "same_flash C d d1" using search_tbl_found [OF C up has, of None u] by auto
  obtain d2 where d2: "search_info_item u (item_code it) (of_nat net_at) d1 = Some (of_nat ?a, d2)" "flash_up C cfg k d2" "same_flash C d1 d2"
    using search_item_found [OF C d1(2), of pre it v post u] has unfolding same_cells [OF d1(3)] by blast
  obtain st d3 where d3: "ddev_open (Some FLASH_DEV_NAME) (Some 0) 0 d2 = Some (dev_handle k, Some st, d3)"
    "flash_up C cfg k d3" "same_flash C d2 d3" using open_ok [OF d2(2)] by blast
  have s3: "same_flash C d d3" by (rule same_flash_trans [OF same_flash_trans [OF d1(3) d2(3)] d3(3)])
  have "?a + 8 \<le> 16777216" using i(3) by simp
  from read_hdr_ok [OF C d3(2) this, of u] obtain d4 where
    d4: "read_hdr (dev_handle k) (of_nat ?a) u d3 = Some (?h, d4)" "flash_up C cfg k d4" "same_flash C d3 d4"
    unfolding same_cells [OF s3] i(1) by blast
  have s4: "same_flash C d d4" by (rule same_flash_trans [OF s3 d4(3)])
  define A :: u32 where "A = of_nat (?a + 8)"
  have a: "(of_nat ?a :: u32) \<noteq> 0" "(of_nat ?a + INFO_ITEM_SIZE :: u32) = A"
    using i(3) of_nat_u32_eq [of ?a 0] by (simp_all add: INFO_ITEM_SIZE_def net_at_def A_def)
  have "holds (fcells C d4) (?a + 8) v" using i(2) same_cells [OF s4] by simp
  from get_switch_ok [OF C d4(2) this i(3,4)] obtain r x0 x1 x2 d5 where
    d5: "get_switch (dev_handle k) it p0 p1 p2 A ?h d4 = Some (r, x0, x1, x2, d5)"
    "(r, x0, x1, x2) = net_get it p0 p1 p2 [it \<mapsto> v]" "flash_up C cfg k d5" "same_flash C d4 d5" unfolding A_def by blast
  obtain d6 where d6: "ddev_close (dev_handle k) d5 = Some (DRV_SUCCESS, d6)" "flash_up C cfg k d6" "same_flash C d5 d6"
    using close_ok [OF d5(3)] by blast
  have "get_info_item u it p0 p1 p2 d = Some (r, x0, x1, x2, d6)"
    by (simp add: get_info_item_def d1(1) net_part_eq d2(1) d3(1) d4(1) a d5(1) d6(1) del: of_nat_add)
  then show ?thesis using d5(2) d6(2) same_flash_trans [OF same_flash_trans [OF s4 d5(4)] d6(3)] by blast
qed

lemma get_missing:
  assumes C: "chip_ok C" and up: "flash_up C cfg k d"
    and "no_tbl (fcells C d) \<or> (\<exists>its. has_tbl (fcells C d) its \<and> it \<notin> fst ` set its)"
  shows "\<exists>d'. get_info_item u it p0 p1 p2 d = Some (False, None, None, None, d') \<and> flash_up C cfg k d' \<and> same_flash C d d'"
  using assms(3)
proof (elim disjE exE conjE)
  assume "no_tbl (fcells C d)"
  from search_tbl_none [OF C up this, of u None] show ?thesis by (auto simp: get_info_item_def)
next
  fix its assume its: "has_tbl (fcells C d) its" "it \<notin> fst ` set its"
  obtain d1 where d1: "search_info_tbl u None d = Some (True, of_nat (length (enc_tbl its)), None, d1)"
    "flash_up C cfg k d1" "same_flash C d d1" using search_tbl_found [OF C up its(1), of None u] by auto
  obtain d2 where d2: "search_info_item u (item_code it) (of_nat net_at) d1 = Some (0, d2)" "flash_up C cfg k d2" "same_flash C d1 d2"
    using search_item_missing [OF C d1(2) _ its(2), of u] its(1) same_cells [OF d1(3)] by auto
  then show ?thesis using same_flash_trans [OF d1(3) d2(3)] by (simp add: get_info_item_def d1(1) net_part_eq)
qed

section \<open>Saving an item\<close>

text \<open>The value that is stored: of the address of the station only 6 bytes are given.\<close>

definition net_value :: "net_info_item \<Rightarrow> u8 list \<Rightarrow> u8 list \<Rightarrow> u8 list \<Rightarrow> u8 list" where
  "net_value it a0 a1 a2 =
     (if it = WIFI_MAC_ITEM then take 6 a0 @ [0, 0]
      else if it = SSID_KEY_ITEM then take 32 a0 @ take 64 a1
      else if it = IP_CONFIG_ITEM then take 16 a0 @ take 16 a1 @ take 16 a2
      else take 4 a0)"

definition args_ok :: "net_info_item \<Rightarrow> u8 list \<Rightarrow> u8 list \<Rightarrow> u8 list \<Rightarrow> bool" where
  "args_ok it a0 a1 a2 \<longleftrightarrow>
     (if it = WIFI_MAC_ITEM then 6 \<le> length a0
      else if it = SSID_KEY_ITEM then 32 \<le> length a0 \<and> 64 \<le> length a1
      else if it = IP_CONFIG_ITEM then 16 \<le> length a0 \<and> 16 \<le> length a1 \<and> 16 \<le> length a2
      else 4 \<le> length a0)"

lemma net_value_ok: "args_ok it a0 a1 a2 \<Longrightarrow> item_ok (it, net_value it a0 a1 a2)"
  by (auto simp: args_ok_def net_value_def item_ok_def split: if_splits)

lemma put_bytes_mid:
  "length xs = i \<Longrightarrow> length ys = n \<Longrightarrow> n \<le> length src \<Longrightarrow> put_bytes (Some src) n i (xs @ ys @ zs) = Some (xs @ take n src @ zs)"
  by (auto simp: put_bytes_def memcpy_def)

lemma memcpy_mid:
  "length xs = i \<Longrightarrow> length ys = n \<Longrightarrow> length src = n \<Longrightarrow> memcpy (xs @ ys @ zs) i src 0 n = Some (xs @ src @ zs)"
  by (auto simp: memcpy_def)

lemma put_value_mid:
  assumes "args_ok it a0 a1 a2" "length xs = i" "item_ok (it, v)"
  shows "put_value it (Some a0) (Some a1) (Some a2) i (xs @ v @ zs) = Some (xs @ net_value it a0 a1 a2 @ zs)"
proof -
  have v: "length v = payload_len it" "it = WIFI_MAC_ITEM \<longrightarrow> drop 6 v = [0, 0]" using assms(3) by (simp_all add: item_ok_def)
  have s: "v = take m v @ drop m v" for m by simp
  consider "it = WIFI_MAC_ITEM" | "it = SSID_KEY_ITEM" | "it = IP_CONFIG_ITEM" | "it \<notin> {WIFI_MAC_ITEM, SSID_KEY_ITEM, IP_CONFIG_ITEM}" by blast
  then show ?thesis
  proof cases
    case 1
    then have "v = take 6 v @ [0, 0]" "length (take 6 v) = 6" using v s [of 6] by simp_all
    then show ?thesis using put_bytes_mid [OF assms(2), of "take 6 v" 6 a0 "[0, 0] @ zs"] assms(1) 1
      by (simp add: put_value_def args_ok_def net_value_def) (metis append.assoc append_Cons append_Nil)
  next
    case 2
    then have l: "length (take 32 v) = 32" "length (drop 32 v) = 64" using v by simp_all
    have a: "32 \<le> length a0" "64 \<le> length a1" using assms(1) 2 by (simp_all add: args_ok_def)
    have "put_bytes (Some a0) 32 i (xs @ take 32 v @ drop 32 v @ zs) = Some (xs @ take 32 a0 @ drop 32 v @ zs)"
      by (rule put_bytes_mid [OF assms(2) l(1) a(1)])
    moreover have "put_bytes (Some a1) 64 (i + 32) ((xs @ take 32 a0) @ drop 32 v @ zs) = Some ((xs @ take 32 a0) @ take 64 a1 @ zs)"
      using a assms(2) by (intro put_bytes_mid l(2)) simp_all
    moreover have e: "v @ zs = take 32 v @ drop 32 v @ zs" using s [of 32] by (metis append.assoc)
    ultimately show ?thesis unfolding e using 2 by (simp add: put_value_def net_value_def)
  next
    case 3
    then have l: "length (take 16 v) = 16" "length (take 16 (drop 16 v)) = 16" "length (drop 32 v) = 16" using v by simp_all
    have a: "16 \<le> length a0" "16 \<le> length a1" "16 \<le> length a2" using assms(1) 3 by (simp_all add: args_ok_def)
    have d: "drop 16 (drop 16 v) = drop 32 v" by simp
    have "v = take 16 v @ take 16 (drop 16 v) @ drop 32 v" by (metis d append_take_drop_id)
    then have e: "v @ zs = take 16 v @ take 16 (drop 16 v) @ drop 32 v @ zs" by (metis append.assoc)
    have "put_bytes (Some a0) 16 i (xs @ take 16 v @ take 16 (drop 16 v) @ drop 32 v @ zs) = Some (xs @ take 16 a0 @ take 16 (drop 16 v) @ drop 32 v @ zs)"
      by (rule put_bytes_mid [OF assms(2) l(1) a(1)])
    moreover have "put_bytes (Some a1) 16 (i + 16) ((xs @ take 16 a0) @ take 16 (drop 16 v) @ drop 32 v @ zs) =
        Some ((xs @ take 16 a0) @ take 16 a1 @ drop 32 v @ zs)"
      using a assms(2) by (intro put_bytes_mid l(2)) simp_all
    moreover have "put_bytes (Some a2) 16 (i + 32) ((xs @ take 16 a0 @ take 16 a1) @ drop 32 v @ zs) =
        Some ((xs @ take 16 a0 @ take 16 a1) @ take 16 a2 @ zs)"
      using a assms(2) by (intro put_bytes_mid l(3)) simp_all
    ultimately show ?thesis unfolding e using 3
      by (simp add: put_value_def net_value_def)
  next
    case 4
    then have "length v = 4" "4 \<le> length a0" using v assms(1) by (simp_all add: args_ok_def)
    from put_bytes_mid [OF assms(2) this, of zs] show ?thesis using 4
      by (cases it) (simp_all add: put_value_def net_value_def)
  qed
qed

lemma save_fill_ok:
  assumes "args_ok it a0 a1 a2" and v: "item_ok (it, v)"
    and "length H = 8" "length h = 8" "unat off = 8 + length xs"
  shows "save_fill it (Some a0) (Some a1) (Some a2) off len (H @ xs @ h @ v @ ys) =
    Some (hdr_bytes \<lparr>it_type = INFO_TLV_HEADER, it_len = len\<rparr> @ xs @ enc_item (it, net_value it a0 a1 a2) @ ys)"
proof -
  let ?v = "net_value it a0 a1 a2"
  let ?h = "hdr_bytes \<lparr>it_type = item_code it, it_len = of_nat (length ?v)\<rparr>"
  have l: "length ?v = payload_len it" using net_value_ok [OF assms(1)] by (simp add: item_ok_def)
  have "put_value it (Some a0) (Some a1) (Some a2) (unat off + 8) ((H @ xs @ h) @ v @ ys) = Some ((H @ xs @ h) @ ?v @ ys)"
    using assms by (intro put_value_mid) simp_all
  moreover have "info_item_len it - INFO_ITEM_SIZE = of_nat (length ?v)"
    unfolding l by (simp add: info_item_len_eq(1) INFO_ITEM_SIZE_def)
  moreover have "memcpy ((H @ xs) @ h @ ?v @ ys) (unat off) ?h 0 8 = Some ((H @ xs) @ ?h @ ?v @ ys)"
    using assms by (intro memcpy_mid) simp_all
  moreover have "memcpy ([] @ H @ xs @ ?h @ ?v @ ys) 0 (hdr_bytes \<lparr>it_type = INFO_TLV_HEADER, it_len = len\<rparr>) 0 8 =
      Some ([] @ hdr_bytes \<lparr>it_type = INFO_TLV_HEADER, it_len = len\<rparr> @ xs @ ?h @ ?v @ ys)"
    using assms by (intro memcpy_mid) simp_all
  ultimately show ?thesis by (simp add: save_fill_def enc_item_def)
qed

text \<open>The sector as a map.\<close>

definition net_map :: "(nat \<Rightarrow> u8) \<Rightarrow> (net_info_item \<rightharpoonup> u8 list) \<Rightarrow> bool" where
  "net_map c M \<longleftrightarrow> (\<exists>its. has_tbl c its \<and> map_of its = M) \<or> (no_tbl c \<and> M = Map.empty)"

text \<open>
  The buffer of a save, cut at the item: \<open>H\<close> and \<open>h\<close> are the headers, \<open>v\<close> the present value, between them the other items.
\<close>

definition prep_ok :: "net_info_item \<Rightarrow> (net_info_item \<rightharpoonup> u8 list) \<Rightarrow> u32 \<Rightarrow> u32 \<Rightarrow> u32 \<Rightarrow> u8 list \<Rightarrow> bool" where
  "prep_ok it M off n len buf \<longleftrightarrow> (\<exists>H h v pre post. buf = H @ enc_items pre @ h @ v @ enc_items post \<and>
     length H = 8 \<and> length h = 8 \<and> item_ok (it, v) \<and> unat off = 8 + length (enc_items pre) \<and>
     n = of_nat (length buf) \<and> len = of_nat (length buf - 8) \<and>
     (\<forall>w. item_ok (it, w) \<longrightarrow> items_ok (pre @ (it, w) # post) \<and> map_of (pre @ (it, w) # post) = M(it \<mapsto> w)))"

lemma zeros_ok: "item_ok (it, replicate (payload_len it) 0)"
  by (auto simp: item_ok_def numeral_2_eq_2)

lemma prep_append:
  assumes "items_ok its" "it \<notin> fst ` set its" "length H = 8" "unat off = 8 + length (enc_items its)"
    and "n = of_nat (length (H @ enc_items its) + 8 + payload_len it)" "len = of_nat (length (enc_items its) + 8 + payload_len it)"
  shows "prep_ok it (map_of its) off n len (H @ enc_items its @ replicate (8 + payload_len it) 0)"
proof -
  have "map_of (its @ [(it, w)]) = (map_of its)(it \<mapsto> w)" for w
  proof -
    have "map_of its it = None" using assms(2) by (simp add: map_of_eq_None_iff)
    then show ?thesis by (auto simp: map_add_def fun_eq_iff split: option.splits)
  qed
  moreover have "items_ok (its @ [(it, w)])" if "item_ok (it, w)" for w
    using assms(1,2) that by (auto simp: items_ok_def)
  ultimately show ?thesis using assms(3-6) zeros_ok [of it] unfolding prep_ok_def
    by (intro exI [of _ H] exI [of _ "replicate 8 0"] exI [of _ "replicate (payload_len it) 0"] exI [of _ its] exI [of _ "[]"])
      (simp add: replicate_add add.assoc)
qed

lemma prep_replace:
  assumes "items_ok (pre @ (it, v) # post)" "unat off = 8 + length (enc_items pre)"
    and "n = of_nat (length (enc_tbl (pre @ (it, v) # post)))" "len = of_nat (length (enc_items (pre @ (it, v) # post)))"
  shows "prep_ok it (map_of (pre @ (it, v) # post)) off n len (enc_tbl (pre @ (it, v) # post))"
proof -
  have nin: "it \<notin> fst ` set pre" using assms(1) by (auto simp: items_ok_def)
  have v: "item_ok (it, v)" using assms(1) by (simp add: items_ok_def)
  have "map_of pre it = None" using nin by (simp add: map_of_eq_None_iff)
  then have m: "map_of (pre @ (it, w) # post) = (map_of (pre @ (it, v) # post))(it \<mapsto> w)" for w
    by (auto simp: map_add_def fun_eq_iff split: option.splits)
  have ok: "items_ok (pre @ (it, w) # post)" if "item_ok (it, w)" for w
    using assms(1) that by (auto simp: items_ok_def)
  let ?H = "hdr_bytes \<lparr>it_type = INFO_TLV_HEADER, it_len = of_nat (length (enc_items (pre @ (it, v) # post)))\<rparr>"
  let ?h = "hdr_bytes \<lparr>it_type = item_code it, it_len = of_nat (length v)\<rparr>"
  have "enc_tbl (pre @ (it, v) # post) = ?H @ enc_items pre @ ?h @ v @ enc_items post"
    by (simp add: enc_tbl_def enc_item_def)
  moreover have "len = of_nat (length (enc_tbl (pre @ (it, v) # post)) - 8)" using assms(4) by simp
  moreover have "length ?H = 8" "length ?h = 8" by simp_all
  ultimately show ?thesis using m ok v assms(2,3) unfolding prep_ok_def by blast
qed

lemma save_prep_none:
  assumes C: "chip_ok C" and up: "flash_up C cfg k d" and no: "no_tbl (fcells C d)"
  shows "\<exists>off n len buf d'. save_prep u (\<lambda>_. ok) it (bk7231_partitions ! 4) d =
      Some (if ok then Some (off, n, len, buf) else None, d') \<and>
    flash_up C cfg k d' \<and> same_flash C d d' \<and> prep_ok it Map.empty off n len buf"
proof -
  let ?n = "INFO_ITEM_SIZE + info_item_len it"
  have n: "?n = of_nat (16 + payload_len it)" by (simp add: INFO_ITEM_SIZE_def info_item_len_eq(1))
  have un: "unat ?n = 8 + (8 + payload_len it)" unfolding n using payload_len_le [of it] by (subst unat_u32) simp_all
  have "prep_ok it (map_of []) INFO_ITEM_SIZE ?n (info_item_len it) (replicate 8 0 @ enc_items [] @ replicate (8 + payload_len it) 0)"
    by (rule prep_append) (simp_all add: items_ok_def n INFO_ITEM_SIZE_def info_item_len_eq(1))
  then have p: "prep_ok it Map.empty INFO_ITEM_SIZE ?n (info_item_len it) (replicate (unat ?n) 0)"
    unfolding un replicate_add by simp
  from search_tbl_none [OF C up no, of u None] show ?thesis
    using p by (fastforce simp: save_prep_def Let_def)
qed

text \<open>The second search of a save copies the table into the zeroed buffer.\<close>

lemma search_copy:
  assumes "chip_ok C" "flash_up C cfg k e" "same_flash C d e" "has_tbl (fcells C d) its" "length (enc_tbl its) \<le> m"
  shows "\<exists>d'. search_info_tbl u (Some (replicate m 0)) e =
      Some (True, of_nat (length (enc_tbl its)), Some (enc_tbl its @ replicate (m - length (enc_tbl its)) 0), d') \<and>
    flash_up C cfg k d' \<and> same_flash C d d'"
  using search_tbl_found [OF assms(1,2), of its "Some (replicate m 0)" u] assms(4,5) same_flash_trans [OF assms(3)]
  unfolding same_cells [OF assms(3)] by (auto simp del: length_enc_tbl)

lemma save_prep_missing:
  assumes C: "chip_ok C" and up: "flash_up C cfg k d" and its: "has_tbl (fcells C d) its" "it \<notin> fst ` set its"
  shows "\<exists>off n len buf d'. save_prep u (\<lambda>_. ok) it (bk7231_partitions ! 4) d =
      Some (if ok then Some (off, n, len, buf) else None, d') \<and>
    flash_up C cfg k d' \<and> same_flash C d d' \<and> prep_ok it (map_of its) off n len buf"
proof -
  let ?l = "length (enc_tbl its)" let ?n = "of_nat ?l + info_item_len it"
  let ?b = "enc_tbl its @ replicate (8 + payload_len it) 0"
  have ok: "items_ok its" using its(1) by (simp add: has_tbl_def)
  note len = length_items_le [OF ok] payload_len_le [of it]
  have n: "?n = of_nat (?l + (8 + payload_len it))" by (simp add: info_item_len_eq(1))
  have un: "unat ?n = ?l + (8 + payload_len it)" unfolding n using len by (subst unat_u32) simp_all
  have nl: "?n - INFO_ITEM_SIZE = of_nat (length (enc_items its) + 8 + payload_len it)"
    unfolding n by (simp add: INFO_ITEM_SIZE_def)
  have ul: "unat (of_nat ?l :: u32) = 8 + length (enc_items its)" using len by (subst unat_u32) simp_all
  have "prep_ok it (map_of its) (of_nat ?l) ?n (?n - INFO_ITEM_SIZE)
      (hdr_bytes \<lparr>it_type = INFO_TLV_HEADER, it_len = of_nat (length (enc_items its))\<rparr> @ enc_items its @ replicate (8 + payload_len it) 0)"
    by (rule prep_append [OF ok its(2) _ ul _ nl]) (simp, unfold n, simp)
  then have p: "prep_ok it (map_of its) (of_nat ?l) ?n (?n - INFO_ITEM_SIZE) ?b" by (simp add: enc_tbl_def)
  obtain d1 where d1: "search_info_tbl u None d = Some (True, of_nat ?l, None, d1)"
    "flash_up C cfg k d1" "same_flash C d d1" using search_tbl_found [OF C up its(1), of None u] by auto
  obtain d2 where d2: "search_info_item u (item_code it) (of_nat net_at) d1 = Some (0, d2)" "flash_up C cfg k d2" "same_flash C d1 d2"
    using search_item_missing [OF C d1(2) _ its(2), of u] its(1) unfolding same_cells [OF d1(3)] by blast
  have s2: "same_flash C d d2" by (rule same_flash_trans [OF d1(3) d2(3)])
  obtain d3 where d3: "search_info_tbl u (Some (replicate (unat ?n) 0)) d2 = Some (True, of_nat ?l, Some ?b, d3)"
    "flash_up C cfg k d3" "same_flash C d d3" using search_copy [OF C d2(2) s2 its(1), of "unat ?n" u] unfolding un by auto
  have "save_prep u (\<lambda>_. ok) it (bk7231_partitions ! 4) d =
      (if ok then Some (Some (of_nat ?l, ?n, ?n - INFO_ITEM_SIZE, ?b), d3) else Some (None, d2))"
    using d1(1) d2(1) d3(1) by (simp add: save_prep_def net_part_eq Let_def del: length_enc_tbl)
  then show ?thesis using p d2(2) s2 d3(2,3) by (cases ok) auto
qed

lemma save_prep_found:
  assumes C: "chip_ok C" and up: "flash_up C cfg k d" and its: "has_tbl (fcells C d) (pre @ (it, v) # post)"
  shows "\<exists>off n len buf d'. save_prep u (\<lambda>_. ok) it (bk7231_partitions ! 4) d =
      Some (if ok then Some (off, n, len, buf) else None, d') \<and>
    flash_up C cfg k d' \<and> same_flash C d d' \<and> prep_ok it (map_of (pre @ (it, v) # post)) off n len buf"
proof -
  define its where "its = pre @ (it, v) # post"
  let ?l = "length (enc_tbl its)" let ?a = "net_at + 8 + length (enc_items pre)"
  have ok: "items_ok its" using assms(3) by (simp add: has_tbl_def its_def)
  have len: "length (enc_items its) \<le> 1144" by (rule length_items_le [OF ok])
  have pl: "length (enc_items pre) \<le> 1144" using len by (simp add: its_def)
  have a: "(of_nat ?a :: u32) \<noteq> 0" "(of_nat ?a :: u32) - of_nat net_at = of_nat (8 + length (enc_items pre))"
    using pl of_nat_u32_eq [of ?a 0] by (simp_all add: net_at_def)
  have ul: "unat (of_nat ?l :: u32) = ?l" using len by (subst unat_u32) simp_all
  have "unat (of_nat (8 + length (enc_items pre)) :: u32) = 8 + length (enc_items pre)" using pl by (subst unat_u32) simp_all
  then have p: "prep_ok it (map_of its) (of_nat (8 + length (enc_items pre))) (of_nat ?l) (of_nat ?l - INFO_ITEM_SIZE) (enc_tbl its)"
    unfolding its_def using ok its_def by (intro prep_replace) (simp_all add: INFO_ITEM_SIZE_def)
  obtain d1 where d1: "search_info_tbl u None d = Some (True, of_nat ?l, None, d1)"
    "flash_up C cfg k d1" "same_flash C d d1" using search_tbl_found [OF C up assms(3), of None u] unfolding its_def by auto
  obtain d2 where d2: "search_info_item u (item_code it) (of_nat net_at) d1 = Some (of_nat ?a, d2)" "flash_up C cfg k d2" "same_flash C d1 d2"
    using search_item_found [OF C d1(2), of pre it v post u] assms(3) unfolding same_cells [OF d1(3)] by blast
  have s2: "same_flash C d d2" by (rule same_flash_trans [OF d1(3) d2(3)])
  obtain d3 where d3: "search_info_tbl u (Some (replicate ?l 0)) d2 = Some (True, of_nat ?l, Some (enc_tbl its), d3)"
    "flash_up C cfg k d3" "same_flash C d d3"
    using search_copy [OF C d2(2) s2 assms(3) order_refl, of u] unfolding its_def by auto
  have "save_prep u (\<lambda>_. ok) it (bk7231_partitions ! 4) d =
      (if ok then Some (Some (of_nat (8 + length (enc_items pre)), of_nat ?l, of_nat ?l - INFO_ITEM_SIZE, enc_tbl its), d3)
       else Some (None, d2))"
    using d1(1) d2(1) d3(1) by (simp add: save_prep_def net_part_eq Let_def a ul del: length_enc_tbl of_nat_add)
  then show ?thesis using p d2(2) s2 d3(2,3) unfolding its_def by (cases ok) auto
qed

lemma save_prep_ok:
  assumes C: "chip_ok C" and up: "flash_up C cfg k d" and M: "net_map (fcells C d) M"
  shows "\<exists>off n len buf d'. save_prep u (\<lambda>_. ok) it (bk7231_partitions ! 4) d =
      Some (if ok then Some (off, n, len, buf) else None, d') \<and>
    flash_up C cfg k d' \<and> same_flash C d d' \<and> prep_ok it M off n len buf"
  using M unfolding net_map_def
proof (elim disjE exE conjE)
  assume "no_tbl (fcells C d)" "M = Map.empty"
  then show ?thesis using save_prep_none [OF C up] by simp
next
  fix its assume its: "has_tbl (fcells C d) its" "map_of its = M"
  show ?thesis
  proof (cases "it \<in> fst ` set its")
    case False
    from save_prep_missing [OF C up its(1) this] show ?thesis by (simp only: its(2))
  next
    case True
    then obtain v pre post where sp: "its = pre @ (it, v) # post" by (metis imageE prod.collapse split_list)
    show ?thesis using save_prep_found [OF C up its(1) [unfolded sp]] its(2) [unfolded sp] by simp
  qed
qed

text \<open>The sector is inside the flash, and without protection the chip lets it be written.\<close>

definition net_open :: "'h chip \<Rightarrow> flash_config \<Rightarrow> bool" where
  "net_open C cfg \<longleftrightarrow> 0x1D2000 \<le> unat (flash_size cfg) \<and>
     (\<forall>sr a. prot_bits cfg sr = protect_none cfg \<longrightarrow> net_at \<le> a \<longrightarrow> a < net_at + 4096 \<longrightarrow> \<not> ch_lk C sr a)"

lemma rewrite_sector:
  assumes "\<And>i. net_at \<le> i \<Longrightarrow> i < net_at + 4096 \<Longrightarrow> \<not> lk i" "length bs \<le> 4096"
  shows "holds (nor_program lk net_at bs (nor_erase lk net_at 4096 c)) net_at bs"
    and "i < net_at \<or> net_at + 4096 \<le> i \<Longrightarrow> nor_program lk net_at bs (nor_erase lk net_at 4096 c) i = c i"
proof -
  have ff: "(0xFF :: u8) AND x = x" for x by (rule bit_word_eqI) (auto simp: bit_simps bit_numeral_rec(2) less_Suc_eq numeral_eq_Suc)
  show "holds (nor_program lk net_at bs (nor_erase lk net_at 4096 c)) net_at bs"
    unfolding holds_def using assms ff
    by (intro nth_equalityI) (auto simp: nor_program_def nor_erase_def)
  show "nor_program lk net_at bs (nor_erase lk net_at 4096 c) i = c i" if "i < net_at \<or> net_at + 4096 \<le> i"
    using that assms(2) by (auto simp: nor_program_def nor_erase_def)
qed

lemma save_write_ok:
  assumes up: "board_up C cfg k False b" and opn: "net_open C cfg" and n: "0 < length buf" "length buf \<le> 4096"
  shows "\<exists>b'. save_write (of_nat (length buf)) buf b = Some b' \<and> board_up C cfg k False b' \<and> holds (bcells C b') net_at buf \<and>
    (\<forall>i. i < net_at \<or> net_at + 4096 \<le> i \<longrightarrow> bcells C b' i = bcells C b i) \<and> prot_bits cfg (bsr C b') = protect_all cfg"
proof -
  let ?n = "length buf" and ?p = "bk7231_partitions ! 4"
  have st: "unat (partition_start_addr ?p) = net_at" by (simp add: bk7231_partitions_def net_at_def)
  have pi: "BK_PARTITION_NET_PARAM = of_nat 4" by (simp add: BK_PARTITION_NET_PARAM_def)
  have sz: "0x1D2000 \<le> unat (flash_size cfg)" using opn by (simp add: net_open_def)
  obtain b1 where b1: "hal_flash_lock b = Some (kNoErr, b1)" "board_up C cfg k True b1" "bcells C b1 = bcells C b"
    using lock_ok [OF up] by blast
  note u = board_upD [OF b1(2)]
  obtain d1 where d1: "bk_flash_enable_security FLASH_PROTECT_NONE (drvs b1) = Some (kNoErr, d1)" "flash_up C cfg k d1"
    "fcells C d1 = fcells C (drvs b1)" "fsr C d1 = sr_set cfg (protect_value cfg FLASH_PROTECT_NONE) (fsr C (drvs b1))"
    using bk_security_ok [OF u(1,3,2)] by blast
  have pr: "prot_bits cfg (fsr C d1) = protect_none cfg"
    unfolding d1(4) prot_bits_set [OF u(2)] by (simp add: protect_value_def)
  have lk: "\<not> ch_lk C (fsr C d1) i" if "net_at \<le> i" "i < net_at + 4096" for i
    using opn pr that by (simp add: net_open_def)
  have q: "(0 + ?n - 1) div 4096 = 0" using n by simp
  have lim: "unat (partition_start_addr ?p) + 4096 * ((0 + ?n - 1) div 4096 + 1) \<le> unat (flash_size cfg)"
    unfolding st q using sz by (simp add: net_at_def)
  from bk_erase_ok [OF u(1) d1(2) u(2) _ n(1) lim] obtain d2 where
    d2: "bk_flash_erase BK_PARTITION_NET_PARAM 0 (of_nat ?n) d1 = Some (kNoErr, d2)" "flash_up C cfg k d2"
    "fcells C d2 = nor_erase (ch_lk C (fsr C d1)) net_at 4096 (fcells C d1)" "fsr C d2 = fsr C d1"
    unfolding q st pi by auto
  have "unat (partition_start_addr ?p) + 0 + ?n \<le> unat (flash_size cfg)" "unat (partition_start_addr ?p) + 0 < unat (flash_size cfg)"
    unfolding st using n sz by (simp_all add: net_at_def)
  from bk_write_ok [OF u(1) d2(2) u(2) _ order_refl this] obtain d3 where
    d3: "bk_flash_write BK_PARTITION_NET_PARAM 0 (Some buf) (of_nat ?n) d2 = Some (kNoErr, d3)" "flash_up C cfg k d3"
    "fcells C d3 = nor_program (ch_lk C (fsr C d1)) net_at buf (fcells C d2)"
    unfolding st pi d2(4) by auto
  obtain d4 where d4: "bk_flash_enable_security FLASH_PROTECT_ALL d3 = Some (kNoErr, d4)" "flash_up C cfg k d4"
    "fcells C d4 = fcells C d3" "fsr C d4 = sr_set cfg (protect_value cfg FLASH_PROTECT_ALL) (fsr C d3)"
    using bk_security_ok [OF u(1) d3(2) u(2)] by blast
  obtain b' where b': "hal_flash_unlock (b1\<lparr>drvs := d4\<rparr>) = Some (kNoErr, b')" "board_up C cfg k False b'"
    "bcells C b' = bcells C (b1\<lparr>drvs := d4\<rparr>)" "bsr C b' = bsr C (b1\<lparr>drvs := d4\<rparr>)"
    using unlock_ok [OF board_up_drvs [OF b1(2) d4(2)]] by blast
  have "prot_bits cfg (fsr C d4) = protect_all cfg" unfolding d4(4) prot_bits_set [OF u(2)] by (simp add: prot_values)
  then have "prot_bits cfg (bsr C b') = protect_all cfg" using b'(4) by (simp add: bsr_def)
  moreover have c: "bcells C b' = nor_program (ch_lk C (fsr C d1)) net_at buf (nor_erase (ch_lk C (fsr C d1)) net_at 4096 (bcells C b))"
    unfolding b'(3) b1(3) [symmetric] by (simp add: bcells_def d4(3) d3(3) d2(3) d1(3))
  ultimately show ?thesis using b1(1) d1(1) d2(1) d3(1) d4(1) b'(1,2) rewrite_sector [OF lk n(2)]
    by (simp add: save_write_def)
qed

lemma save_ok:
  assumes up: "board_up C cfg k False b" and opn: "net_open C cfg" and M: "net_map (bcells C b) M" and args: "args_ok it a0 a1 a2"
  shows "\<exists>b'. save_info_item u (\<lambda>_. ok) it (Some a0) (Some a1) (Some a2) b = Some (ok, b') \<and> board_up C cfg k False b' \<and>
    net_map (bcells C b') (if ok then M(it \<mapsto> net_value it a0 a1 a2) else M) \<and>
    (\<forall>i. i < net_at \<or> net_at + 4096 \<le> i \<longrightarrow> bcells C b' i = bcells C b i) \<and>
    prot_bits cfg (bsr C b') = (if ok then protect_all cfg else prot_bits cfg (bsr C b))"
proof -
  let ?v = "net_value it a0 a1 a2"
  note u = board_upD [OF up]
  obtain off n len buf d where d: "save_prep u (\<lambda>_. ok) it (bk7231_partitions ! 4) (drvs b) =
      Some (if ok then Some (off, n, len, buf) else None, d)" "flash_up C cfg k d" "same_flash C (drvs b) d" "prep_ok it M off n len buf"
    using save_prep_ok [OF u(1,3) M [unfolded bcells_def]] by blast
  let ?b = "b\<lparr>drvs := d\<rparr>"
  have b: "board_up C cfg k False ?b" "bcells C ?b = bcells C b" "bsr C ?b = bsr C b"
    using board_up_drvs [OF up d(2)] d(3) by (simp_all add: same_flash_def bcells_def bsr_def)
  show ?thesis
  proof (cases ok)
    case False
    then have "save_info_item u (\<lambda>_. ok) it (Some a0) (Some a1) (Some a2) b = Some (False, ?b)"
      using d(1) by (simp add: save_info_item_def net_part_eq)
    then show ?thesis using b M False by auto
  next
    case True
    obtain H h v pre post where s: "buf = H @ enc_items pre @ h @ v @ enc_items post" "length H = 8" "length h = 8"
      "item_ok (it, v)" "unat off = 8 + length (enc_items pre)" "n = of_nat (length buf)" "len = of_nat (length buf - 8)"
      "\<forall>w. item_ok (it, w) \<longrightarrow> items_ok (pre @ (it, w) # post) \<and> map_of (pre @ (it, w) # post) = M(it \<mapsto> w)"
      using d(4) unfolding prep_ok_def by blast
    define its where "its = pre @ (it, ?v) # post"
    have v: "item_ok (it, ?v)" by (rule net_value_ok [OF args])
    then have its: "items_ok its" "map_of its = M(it \<mapsto> ?v)" using s(8) by (simp_all add: its_def)
    have l: "length v = length ?v" using s(4) v by (simp add: item_ok_def)
    have len: "length (enc_tbl its) = length buf" "length buf - 8 = length (enc_items its)"
      using l by (simp_all add: s(1-3) its_def)
    have "save_fill it (Some a0) (Some a1) (Some a2) off len buf = Some (enc_tbl its)"
      using save_fill_ok [OF args s(4,2,3,5), of len "enc_items post"]
      by (simp add: s(1) [symmetric] s(7) len(2)) (simp add: enc_tbl_def its_def)
    moreover have "0 < length (enc_tbl its)" "length (enc_tbl its) \<le> 4096" using length_items_le [OF its(1)] by simp_all
    from save_write_ok [OF b(1) opn this] obtain b' where
      b': "save_write n (enc_tbl its) ?b = Some b'" "board_up C cfg k False b'" "holds (bcells C b') net_at (enc_tbl its)"
      "\<forall>i. i < net_at \<or> net_at + 4096 \<le> i \<longrightarrow> bcells C b' i = bcells C b i" "prot_bits cfg (bsr C b') = protect_all cfg"
      unfolding b(2) s(6) len(1) by blast
    ultimately have "save_info_item u (\<lambda>_. ok) it (Some a0) (Some a1) (Some a2) b = Some (True, b')"
      using d(1) True by (simp add: save_info_item_def net_part_eq)
    moreover have "net_map (bcells C b') (M(it \<mapsto> ?v))"
      unfolding net_map_def has_tbl_def using its b'(3) by blast
    ultimately show ?thesis using b'(2,4,5) True by auto
  qed
qed

lemma get_ok:
  assumes up: "board_up C cfg k m b" and M: "net_map (bcells C b) M"
  shows "\<exists>r x0 x1 x2 d'. get_info_item u it p0 p1 p2 (drvs b) = Some (r, x0, x1, x2, d') \<and>
    (r, x0, x1, x2) = net_get it p0 p1 p2 M \<and> board_up C cfg k m (b\<lparr>drvs := d'\<rparr>) \<and>
    bcells C (b\<lparr>drvs := d'\<rparr>) = bcells C b \<and> bsr C (b\<lparr>drvs := d'\<rparr>) = bsr C b"
proof -
  note u = board_upD [OF up]
  have "\<exists>r x0 x1 x2 d'. get_info_item u it p0 p1 p2 (drvs b) = Some (r, x0, x1, x2, d') \<and>
    (r, x0, x1, x2) = net_get it p0 p1 p2 M \<and> flash_up C cfg k d' \<and> same_flash C (drvs b) d'"
  proof (cases "M it")
    case None
    then have "no_tbl (fcells C (drvs b)) \<or> (\<exists>its. has_tbl (fcells C (drvs b)) its \<and> it \<notin> fst ` set its)"
      using M by (auto simp: net_map_def bcells_def map_of_eq_None_iff)
    from get_missing [OF u(1,3) this, of u p0 p1 p2] show ?thesis using None by (auto simp: net_get_def)
  next
    case (Some v)
    then obtain its where its: "has_tbl (fcells C (drvs b)) its" "map_of its = M" using M by (auto simp: net_map_def bcells_def)
    then obtain pre post where "its = pre @ (it, v) # post" using Some by (metis map_of_SomeD split_list)
    moreover have "net_get it p0 p1 p2 M = net_get it p0 p1 p2 [it \<mapsto> v]" using Some by (simp add: net_get_def)
    ultimately show ?thesis using get_found [OF u(1,3), of pre it v post u p0 p1 p2] its(1) by metis
  qed
  then show ?thesis using board_up_drvs [OF up] by (fastforce simp: same_flash_def bcells_def bsr_def)
qed

section \<open>Histories\<close>

text \<open>A save gives its values and whether there is memory for the buffer; a read the pointers that are not \<^verbatim>\<open>NULL\<close>.\<close>

datatype net_cmd = NetSave net_info_item "u8 list" "u8 list" "u8 list" bool | NetGet net_info_item bool bool bool

fun net_legal :: "net_cmd \<Rightarrow> bool" where
  "net_legal (NetSave it a0 a1 a2 ok) = args_ok it a0 a1 a2"
| "net_legal (NetGet it p0 p1 p2) = True"

fun net_saves :: "net_cmd \<Rightarrow> bool" where
  "net_saves (NetSave it a0 a1 a2 ok) = ok"
| "net_saves (NetGet it p0 p1 p2) = False"

type_synonym net_out = "bool \<times> u8 list option \<times> u8 list option \<times> u8 list option"

fun net_step :: "info_item_st \<Rightarrow> net_cmd \<Rightarrow> 'w board \<Rightarrow> (net_out \<times> 'w board) option" where
  "net_step u (NetSave it a0 a1 a2 ok) b =
     do { (r, b) \<leftarrow> save_info_item u (\<lambda>_. ok) it (Some a0) (Some a1) (Some a2) b; Some ((r, None, None, None), b) }"
| "net_step u (NetGet it p0 p1 p2) b =
     do { (r, x0, x1, x2, d) \<leftarrow> get_info_item u it p0 p1 p2 (drvs b); Some ((r, x0, x1, x2), b\<lparr>drvs := d\<rparr>) }"

fun net_run :: "info_item_st \<Rightarrow> net_cmd list \<Rightarrow> 'w board \<Rightarrow> (net_out list \<times> 'w board) option" where
  "net_run u [] b = Some ([], b)"
| "net_run u (c # cs) b = do { (x, b) \<leftarrow> net_step u c b; (xs, b) \<leftarrow> net_run u cs b; Some (x # xs, b) }"

fun spec_step :: "net_cmd \<Rightarrow> (net_info_item \<rightharpoonup> u8 list) \<Rightarrow> net_out \<times> (net_info_item \<rightharpoonup> u8 list)" where
  "spec_step (NetSave it a0 a1 a2 ok) M =
     ((ok, None, None, None), if ok then M(it \<mapsto> net_value it a0 a1 a2) else M)"
| "spec_step (NetGet it p0 p1 p2) M = (net_get it p0 p1 p2 M, M)"

fun spec_run :: "net_cmd list \<Rightarrow> (net_info_item \<rightharpoonup> u8 list) \<Rightarrow> net_out list \<times> (net_info_item \<rightharpoonup> u8 list)" where
  "spec_run [] M = ([], M)"
| "spec_run (c # cs) M = (let (x, M) = spec_step c M; (xs, M) = spec_run cs M in (x # xs, M))"

lemma net_step_ok:
  assumes up: "board_up C cfg k False b" and opn: "net_open C cfg" and M: "net_map (bcells C b) M" and "net_legal c"
  shows "\<exists>b'. net_step u c b = Some (fst (spec_step c M), b') \<and> board_up C cfg k False b' \<and>
    net_map (bcells C b') (snd (spec_step c M)) \<and>
    (\<forall>i. i < net_at \<or> net_at + 4096 \<le> i \<longrightarrow> bcells C b' i = bcells C b i) \<and>
    prot_bits cfg (bsr C b') = (if net_saves c then protect_all cfg else prot_bits cfg (bsr C b))"
proof (cases c)
  case (NetSave it a0 a1 a2 ok)
  then have "args_ok it a0 a1 a2" using assms(4) by simp
  from save_ok [OF up opn M this, of u ok] show ?thesis using NetSave by fastforce
next
  case (NetGet it p0 p1 p2)
  from get_ok [OF up M, of u it p0 p1 p2] obtain r x0 x1 x2 d' where
    "get_info_item u it p0 p1 p2 (drvs b) = Some (r, x0, x1, x2, d')" "(r, x0, x1, x2) = net_get it p0 p1 p2 M"
    "board_up C cfg k False (b\<lparr>drvs := d'\<rparr>)" "bcells C (b\<lparr>drvs := d'\<rparr>) = bcells C b" "bsr C (b\<lparr>drvs := d'\<rparr>) = bsr C b" by blast
  then show ?thesis using M NetGet by auto
qed

lemma net_run_ok:
  assumes "net_open C cfg"
  shows "board_up C cfg k False b \<Longrightarrow> net_map (bcells C b) M \<Longrightarrow> list_all net_legal cs \<Longrightarrow>
    \<exists>b'. net_run u cs b = Some (fst (spec_run cs M), b') \<and> board_up C cfg k False b' \<and>
      net_map (bcells C b') (snd (spec_run cs M)) \<and>
      (\<forall>i. i < net_at \<or> net_at + 4096 \<le> i \<longrightarrow> bcells C b' i = bcells C b i) \<and>
      prot_bits cfg (bsr C b') = (if list_ex net_saves cs then protect_all cfg else prot_bits cfg (bsr C b))"
proof (induction cs arbitrary: b M)
  case (Cons c cs)
  obtain b1 where b1: "net_step u c b = Some (fst (spec_step c M), b1)" "board_up C cfg k False b1"
    "net_map (bcells C b1) (snd (spec_step c M))" "\<forall>i. i < net_at \<or> net_at + 4096 \<le> i \<longrightarrow> bcells C b1 i = bcells C b i"
    "prot_bits cfg (bsr C b1) = (if net_saves c then protect_all cfg else prot_bits cfg (bsr C b))"
    using net_step_ok [OF Cons.prems(1) assms Cons.prems(2), of c u] Cons.prems(3) by auto
  from Cons.IH [OF b1(2,3)] Cons.prems(3) b1(1,4,5) show ?case
    by (fastforce simp: case_prod_beta Let_def)
qed simp

section \<open>Properties\<close>

text \<open>
  C5. The network parameters are a map. Starting from a sector that holds a table or none, any sequence of saves and
  reads returns, with exactly the results of the abstract map: a read gives the value of the last successful save of the
  item and fails for an item that was never saved, a save fails only when its buffer cannot be allocated and then changes
  nothing, and no save disturbs another item. The flash outside the sector keeps its bytes, the lock is free again and
  after a save the protection is the one the driver has for the whole flash. (The value of the station address has 8 bytes when it is read, though only
  6 are given when it is saved; a saved charging parameter cannot be read.)
\<close>

theorem net_param_history:
  assumes "board_up C cfg k False b" "net_open C cfg" "net_map (bcells C b) M" "list_all net_legal cs"
  shows "\<exists>b'. net_run u cs b = Some (fst (spec_run cs M), b') \<and> board_up C cfg k False b' \<and>
    net_map (bcells C b') (snd (spec_run cs M)) \<and>
    (\<forall>i. i < net_at \<or> net_at + 4096 \<le> i \<longrightarrow> bcells C b' i = bcells C b i) \<and>
    prot_bits cfg (bsr C b') = (if list_ex net_saves cs then protect_all cfg else prot_bits cfg (bsr C b))"
  by (rule net_run_ok [OF assms(2,1,3,4)])

lemma sim_net: "net_open sim_chip sim_cfg" "net_map (bcells sim_chip sim_board) Map.empty"
proof -
  show "net_open sim_chip sim_cfg"
    unfolding net_open_def by (simp add: sim_cfg_simps sim_chip_def sim_lk_def)
  show "net_map (bcells sim_chip sim_board) Map.empty"
    unfolding net_map_def no_tbl_def bcells_def
    by (simp add: sim_board_def sim_dev_view(1) net_at_def hdr_of_def INFO_TLV_HEADER_def upt_rec)
qed

theorem net_param_history_witness:
  "\<exists>b'. net_run \<lparr>it_type = 0, it_len = 0\<rparr>
      [NetSave WIFI_MAC_ITEM [1, 2, 3, 4, 5, 6] [] [] True, NetSave AUTO_CONNECT_ITEM [7, 0, 0, 0] [] [] True,
       NetSave WIFI_MAC_ITEM [6, 5, 4, 3, 2, 1] [] [] True, NetGet WIFI_MAC_ITEM True False False, NetGet SSID_KEY_ITEM True True False]
      sim_board =
    Some ([(True, None, None, None), (True, None, None, None), (True, None, None, None),
       (True, Some [6, 5, 4, 3, 2, 1, 0, 0], None, None), (False, None, None, None)], b') \<and>
    prot_bits sim_cfg (bsr sim_chip b') = protect_all sim_cfg"
proof -
  let ?cs = "[NetSave WIFI_MAC_ITEM [1, 2, 3, 4, 5, 6] [] [] True, NetSave AUTO_CONNECT_ITEM [7, 0, 0, 0] [] [] True,
       NetSave WIFI_MAC_ITEM [6, 5, 4, 3, 2, 1] [] [] True, NetGet WIFI_MAC_ITEM True False False, NetGet SSID_KEY_ITEM True True False]"
  have "list_all net_legal ?cs" by (simp add: args_ok_def)
  from net_param_history [OF sim_board_up sim_net this, of "\<lparr>it_type = 0, it_len = 0\<rparr>"]
  show ?thesis by (auto simp: net_get_def net_value_def)
qed

end
