(* ===== verification/Ota.thy ===== *)
theory Ota
  imports TklFlash
begin

text \<open>
  The firmware update of \<^verbatim>\<open>tuyaos_adapter/src/tkl_ota.c\<close>: a header of 32 bytes, then the image in
  packets. The image goes to flash in units of 512 bytes, the first of which is kept in memory
  until the checksum of the whole image has been verified.

  The four flash operations it calls are a record of functions here, \<open>flash_api\<close>; \<open>tkl_flash_api\<close> is the
  one of TklFlash. An allocation is an argument: the contents of the fresh block, or \<open>None\<close> if there is no memory. The
  log is not modelled.
\<close>

section \<open>State\<close>

record 's flash_api =
  fa_set_protect :: "bool \<Rightarrow> 's \<Rightarrow> (oprt \<times> 's) option"
  fa_erase :: "u32 \<Rightarrow> u32 \<Rightarrow> 's \<Rightarrow> (oprt \<times> 's) option"
  fa_write :: "u32 \<Rightarrow> u8 list option \<Rightarrow> u32 \<Rightarrow> 's \<Rightarrow> (oprt \<times> 's) option"
  fa_read :: "u32 \<Rightarrow> bool \<Rightarrow> u32 \<Rightarrow> 's \<Rightarrow> (oprt \<times> u8 list option \<times> 's) option"

definition tkl_flash_api :: "'w board flash_api" where
  "tkl_flash_api = \<lparr>fa_set_protect = tkl_flash_set_protect, fa_erase = tkl_flash_erase,
     fa_write = tkl_flash_write, fa_read = tkl_flash_read\<rparr>"

definition UG_PKG_HEAD :: u32 where "UG_PKG_HEAD = 0x55aa55aa"
definition UG_PKG_TAIL :: u32 where "UG_PKG_TAIL = 0xaa55aa55"
definition UG_START_ADDR :: u32 where "UG_START_ADDR = 0x12A000"
definition RT_IMG_WR_UNIT :: u32 where "RT_IMG_WR_UNIT = 512"
definition BUF_SIZE :: u32 where "BUF_SIZE = 4096"
definition OTA_MAX_BIN_SIZE :: u32 where "OTA_MAX_BIN_SIZE = 664 * 1024"
definition HDR_SIZE :: u32 where "HDR_SIZE = 32"

lemmas ota_consts = UG_PKG_HEAD_def UG_PKG_TAIL_def UG_START_ADDR_def RT_IMG_WR_UNIT_def BUF_SIZE_def
  OTA_MAX_BIN_SIZE_def HDR_SIZE_def

datatype ug_stat = UGS_RECV_HEADER | UGS_RECV_IMG_DATA | UGS_FINISH

record update_file_hdr =
  header_flag :: u32
  sw_version :: "u8 list"
  bin_len :: u32
  bin_sum :: u32
  head_sum :: u32
  tail_flag :: u32

definition zero_hdr :: update_file_hdr where
  "zero_hdr = \<lparr>header_flag = 0, sw_version = replicate 12 0, bin_len = 0, bin_sum = 0, head_sum = 0, tail_flag = 0\<rparr>"

record ug_proc_s =
  file_header :: update_file_hdr
  flash_addr :: u32
  ug_start :: u32
  recv_data_cnt :: u32
  stat :: ug_stat

definition zero_proc :: ug_proc_s where
  "zero_proc = \<lparr>file_header = zero_hdr, flash_addr = 0, ug_start = 0, recv_data_cnt = 0, stat = UGS_RECV_HEADER\<rparr>"

text \<open>The static variables, the flash and the number of resets of the system.\<close>

record 's ota =
  ug_proc :: "ug_proc_s option"
  frist_block_databuf :: "u8 list option"
  first_block :: bool
  ota_flash :: 's
  resets :: nat

record ota_pack =
  pk_data :: "u8 list"
  pk_len :: u32

datatype ota_type = TUYA_OTA_FULL | TUYA_OTA_DIFF

definition tkl_ota_get_ability :: "oprt \<times> u32 \<times> ota_type" where
  "tkl_ota_get_ability = (OPRT_OK, OTA_MAX_BIN_SIZE, TUYA_OTA_FULL)"

definition tkl_ota_start_notify :: "bool \<Rightarrow> u32 \<Rightarrow> 's ota \<Rightarrow> oprt \<times> 's ota" where
  "tkl_ota_start_notify malloc_ok image_size s =
     (if image_size = 0 then (OPRT_OS_ADAPTER_INVALID_PARM, s)
      else if ug_proc s = None \<and> \<not> malloc_ok then (OPRT_MALLOC_FAILED, s)
      else (OPRT_OK, s\<lparr>ug_proc := Some zero_proc, first_block := True\<rparr>))"

section \<open>The header\<close>

definition be32 :: "u8 list \<Rightarrow> nat \<Rightarrow> u32 option" where
  "be32 data i =
     do {
       a \<leftarrow> aget data i; b \<leftarrow> aget data (i + 1); c \<leftarrow> aget data (i + 2); d \<leftarrow> aget data (i + 3);
       Some (push_bit 24 (ucast a) OR push_bit 16 (ucast b) OR push_bit 8 (ucast c) OR ucast d)
     }"

definition byte_sum :: "u8 list \<Rightarrow> u32" where
  "byte_sum bs = sum_list (map ucast bs)"

definition parse_header :: "u8 list \<Rightarrow> (update_file_hdr \<times> u32) option" where
  "parse_header data =
     do {
       tail \<leftarrow> be32 data 28; hsum \<leftarrow> be32 data 24; bsum \<leftarrow> be32 data 20; blen \<leftarrow> be32 data 16; flag \<leftarrow> be32 data 0;
       Some (\<lparr>header_flag = flag, sw_version = take 12 (drop 4 data), bin_len = blen, bin_sum = bsum,
              head_sum = hsum, tail_flag = tail\<rparr>, byte_sum (take (unat HDR_SIZE - 8) data))
     }"

text \<open>The result of a packet: the return value, the value behind \<^verbatim>\<open>remain_len\<close>, the state.\<close>

definition recv_header ::
  "'s flash_api \<Rightarrow> ota_pack \<Rightarrow> ug_proc_s \<Rightarrow> u32 \<Rightarrow> 's ota \<Rightarrow> (oprt \<times> u32 \<times> 's ota) option" where
  "recv_header F pack p remain s =
     (if pk_len pack < HDR_SIZE then Some (OPRT_OK, pk_len pack, s)
      else do {
        (hdr, sum_tmp) \<leftarrow> parse_header (pk_data pack);
        if header_flag hdr \<noteq> UG_PKG_HEAD \<or> tail_flag hdr \<noteq> UG_PKG_TAIL \<or> head_sum hdr \<noteq> sum_tmp
        then Some (OPRT_OS_ADAPTER_OTA_START_INFORM_FAILED, remain, s\<lparr>ug_proc := Some (p\<lparr>file_header := zero_hdr\<rparr>)\<rparr>)
        else if OTA_MAX_BIN_SIZE \<le> bin_len hdr
        then Some (OPRT_OS_ADAPTER_OTA_PKT_SIZE_FAILED, remain, s\<lparr>ug_proc := Some (p\<lparr>file_header := zero_hdr\<rparr>)\<rparr>)
        else do {
          let p = p\<lparr>file_header := hdr, ug_start := UG_START_ADDR, flash_addr := UG_START_ADDR,
                    stat := UGS_RECV_IMG_DATA, recv_data_cnt := 0\<rparr>;
          (_, f) \<leftarrow> fa_set_protect F False (ota_flash s);
          (_, f) \<leftarrow> fa_erase F (ug_start p) (bin_len hdr) f;
          (_, f) \<leftarrow> fa_set_protect F True f;
          Some (OPRT_OK, pk_len pack - HDR_SIZE, s\<lparr>ug_proc := Some p, ota_flash := f\<rparr>)
        }
      })"

section \<open>The image\<close>

text \<open>One write with the protection off; the flag says whether it failed.\<close>

definition guarded_write :: "'s flash_api \<Rightarrow> u32 \<Rightarrow> u8 list \<Rightarrow> u32 \<Rightarrow> 's \<Rightarrow> (bool \<times> 's) option" where
  "guarded_write F addr buf n f =
     do {
       (_, f) \<leftarrow> fa_set_protect F False f;
       (r, f) \<leftarrow> fa_write F addr (Some buf) n f;
       (_, f) \<leftarrow> fa_set_protect F True f;
       Some (r \<noteq> OPRT_OK, f)
     }"

text \<open>
  One round of the loop over the units of a packet; \<open>m_first\<close> and \<open>m_buf\<close> are the blocks that the two
  allocations return. The flag says whether the function returns with an error.
\<close>

definition ota_block ::
  "'s flash_api \<Rightarrow> u8 list option \<Rightarrow> u8 list option \<Rightarrow> ota_pack \<Rightarrow> u32 \<Rightarrow> ug_proc_s \<Rightarrow> 's ota \<Rightarrow> (bool \<times> 's ota) option" where
  "ota_block F m_first m_buf pack write_len p s =
     (let pos = unat (pk_len pack - write_len)
      in if first_block s
         then (case (case frist_block_databuf s of None \<Rightarrow> m_first | Some b \<Rightarrow> Some b) of
             None \<Rightarrow> Some (True, s)
           | Some b \<Rightarrow> do {
               b \<leftarrow> memcpy b 0 (pk_data pack) pos (unat RT_IMG_WR_UNIT);
               let s = s\<lparr>frist_block_databuf := Some b\<rparr>;
               case m_buf of
                 None \<Rightarrow> Some (True, s)
               | Some buf \<Rightarrow> do {
                   buf \<leftarrow> memcpy buf 0 (replicate (unat RT_IMG_WR_UNIT) 0xFF) 0 (unat RT_IMG_WR_UNIT);
                   (failed, f) \<leftarrow> guarded_write F (flash_addr p) buf RT_IMG_WR_UNIT (ota_flash s);
                   Some (failed, if failed then s\<lparr>ota_flash := f\<rparr> else s\<lparr>ota_flash := f, first_block := False\<rparr>)
                 }
             })
         else do {
           (failed, f) \<leftarrow> guarded_write F (flash_addr p) (drop pos (pk_data pack)) RT_IMG_WR_UNIT (ota_flash s);
           Some (failed, s\<lparr>ota_flash := f\<rparr>)
         })"

function ota_blocks ::
  "'s flash_api \<Rightarrow> u8 list option \<Rightarrow> u8 list option \<Rightarrow> ota_pack \<Rightarrow> u32 \<Rightarrow> u32 \<Rightarrow> ug_proc_s \<Rightarrow> 's ota \<Rightarrow>
    (bool \<times> u32 \<times> u32 \<times> ug_proc_s \<times> 's ota) option" where
  "ota_blocks F m_first m_buf pack write_len remain p s =
     (if write_len < RT_IMG_WR_UNIT then Some (False, write_len, remain, p, s)
      else do {
        (failed, s) \<leftarrow> ota_block F m_first m_buf pack write_len p s;
        if failed then Some (True, write_len, remain, p, s)
        else let p = p\<lparr>flash_addr := flash_addr p + RT_IMG_WR_UNIT, recv_data_cnt := recv_data_cnt p + RT_IMG_WR_UNIT\<rparr>
             in ota_blocks F m_first m_buf pack (write_len - RT_IMG_WR_UNIT) (write_len - RT_IMG_WR_UNIT) p
                  (s\<lparr>ug_proc := Some p\<rparr>)
      })"
  by pat_completeness auto

termination ota_blocks
proof (relation "measure (\<lambda>(F, m, n, pack, write_len, remain, p, s). unat write_len)")
  fix write_len :: u32
  assume w: "\<not> write_len < RT_IMG_WR_UNIT"
  have "unat (write_len - RT_IMG_WR_UNIT) < unat write_len"
    using w by (simp add: RT_IMG_WR_UNIT_def word_less_nat_alt unat_sub word_le_nat_alt)
  then show "((F, m, n, pack, write_len - RT_IMG_WR_UNIT, write_len - RT_IMG_WR_UNIT, q, t), F, m, n, pack, write_len, remain, p, s)
      \<in> measure (\<lambda>(F, m, n, pack, write_len, remain, p, s). unat write_len)" for F m n pack q t remain p s by simp
qed simp

definition recv_image ::
  "'s flash_api \<Rightarrow> u8 list option \<Rightarrow> u8 list option \<Rightarrow> ota_pack \<Rightarrow> ug_proc_s \<Rightarrow> 's ota \<Rightarrow> (oprt \<times> u32 \<times> 's ota) option" where
  "recv_image F m_first m_buf pack p s =
     (let remain = pk_len pack; bin = bin_len (file_header p)
      in if pk_len pack < RT_IMG_WR_UNIT \<and> recv_data_cnt p \<le> bin - RT_IMG_WR_UNIT then Some (OPRT_OK, remain, s)
         else do {
           (failed, write_len, remain, p, s) \<leftarrow> ota_blocks F m_first m_buf pack (pk_len pack) remain p s;
           if failed then Some (OPRT_OS_ADAPTER_OTA_PROCESS_FAILED, remain, s)
           else do {
             (failed, write_len, remain, p, s) \<leftarrow>
               (if bin - RT_IMG_WR_UNIT < recv_data_cnt p \<and> bin - recv_data_cnt p \<le> write_len
                then do {
                  (failed, f) \<leftarrow> guarded_write F (flash_addr p)
                    (drop (unat (pk_len pack - write_len)) (pk_data pack)) write_len (ota_flash s);
                  let s = s\<lparr>ota_flash := f\<rparr>;
                  if failed then Some (True, write_len, remain, p, s)
                  else let p = p\<lparr>flash_addr := flash_addr p + write_len, recv_data_cnt := recv_data_cnt p + write_len\<rparr>
                       in Some (False, 0, 0, p, s\<lparr>ug_proc := Some p\<rparr>)
                }
                else Some (False, write_len, remain, p, s));
             if failed then Some (OPRT_OS_ADAPTER_OTA_PROCESS_FAILED, remain, s)
             else if bin \<le> recv_data_cnt p
             then Some (OPRT_OK, remain, s\<lparr>ug_proc := Some (p\<lparr>stat := UGS_FINISH\<rparr>)\<rparr>)
             else Some (OPRT_OK, remain, s)
           }
         })"

definition tkl_ota_data_process ::
  "'s flash_api \<Rightarrow> u8 list option \<Rightarrow> u8 list option \<Rightarrow> ota_pack \<Rightarrow> u32 \<Rightarrow> 's ota \<Rightarrow> (oprt \<times> u32 \<times> 's ota) option" where
  "tkl_ota_data_process F m_first m_buf pack remain s =
     (case ug_proc s of
        None \<Rightarrow> Some (OPRT_COM_ERROR, remain, s)
      | Some p \<Rightarrow> (case stat p of
          UGS_RECV_HEADER \<Rightarrow> recv_header F pack p remain s
        | UGS_RECV_IMG_DATA \<Rightarrow> recv_image F m_first m_buf pack p s
        | UGS_FINISH \<Rightarrow> Some (OPRT_OK, 0, s)))"

section \<open>The end\<close>

text \<open>Copying the block kept in memory over a buffer; the pointer may be \<^verbatim>\<open>NULL\<close>.\<close>

definition put_first :: "'s ota \<Rightarrow> u8 list \<Rightarrow> u8 list option" where
  "put_first s buf = do { b \<leftarrow> frist_block_databuf s; memcpy buf 0 b 0 (unat RT_IMG_WR_UNIT) }"

definition read_into :: "'s flash_api \<Rightarrow> u32 \<Rightarrow> u8 list \<Rightarrow> u32 \<Rightarrow> 's ota \<Rightarrow> (u8 list \<times> 's ota) option" where
  "read_into F addr buf n s =
     do {
       (_, data, f) \<leftarrow> fa_read F addr False n (ota_flash s);
       buf \<leftarrow> (case data of None \<Rightarrow> Some buf | Some d \<Rightarrow> memcpy buf 0 d 0 (length d));
       Some (buf, s\<lparr>ota_flash := f\<rparr>)
     }"

text \<open>
  The loop that sums up the image in the flash. With a length above \<^verbatim>\<open>0xFFFFF000\<close> the offset would start
  again at 0 and the loop not end (\<open>None\<close>).
\<close>

function verify_sum :: "'s flash_api \<Rightarrow> ug_proc_s \<Rightarrow> u32 \<Rightarrow> u32 \<Rightarrow> u8 list \<Rightarrow> 's ota \<Rightarrow> (u32 \<times> u8 list \<times> 's ota) option" where
  "verify_sum F p i acc buf s =
     (if bin_len (file_header p) \<le> i then Some (acc, buf, s)
      else do {
        let rlen = (if BUF_SIZE \<le> bin_len (file_header p) - i then BUF_SIZE else bin_len (file_header p) - i);
        (buf, s) \<leftarrow> read_into F (ug_start p + i) buf rlen s;
        buf \<leftarrow> (if i = 0 then put_first s buf else Some buf);
        acc \<leftarrow> (if unat rlen \<le> length buf then Some (acc + byte_sum (take (unat rlen) buf)) else None);
        if i + BUF_SIZE < i then None else verify_sum F p (i + BUF_SIZE) acc buf s
      })"
  by pat_completeness auto

termination verify_sum
proof (relation "measure (\<lambda>(F, p, i, acc, buf, s). 2 ^ 32 - unat i)")
  show "((F, p, i + BUF_SIZE, acc', buf', s'), F, p, i, acc, buf, s) \<in> measure (\<lambda>(F, p, i, acc, buf, s). 2 ^ 32 - unat i)"
    if "\<not> i + BUF_SIZE < i" for F p i acc' buf' s' acc buf s
  proof -
    have i: "unat i < 2 ^ 32" using unsigned_less [of i, where ?'a = nat] by simp
    have "unat i + 4096 < 2 ^ 32"
    proof (rule ccontr)
      assume w: "\<not> unat i + 4096 < 2 ^ 32"
      then have "unat (i + BUF_SIZE) = unat i + 4096 - 2 ^ 32"
        using i le_mod_geq [of "2 ^ 32" "unat i + 4096"] by (simp add: unat_word_ariths BUF_SIZE_def)
      then show False using that i w by (simp add: word_less_nat_alt)
    qed
    then have "unat (i + BUF_SIZE) = unat i + 4096" by (simp add: unat_word_ariths BUF_SIZE_def)
    then show ?thesis using i by simp
  qed
qed simp

text \<open>\<open>tmp\<close> is the buffer that the allocation returns; a checksum that differs frees everything and writes nothing.\<close>

definition tkl_ota_end_notify :: "'s flash_api \<Rightarrow> u8 list option \<Rightarrow> bool \<Rightarrow> 's ota \<Rightarrow> (oprt \<times> 's ota) option" where
  "tkl_ota_end_notify F tmp reset s =
     (case ug_proc s of
        None \<Rightarrow> Some (OPRT_OS_ADAPTER_INVALID_PARM, s)
      | Some p \<Rightarrow> (case tmp of
          None \<Rightarrow> Some (OPRT_MALLOC_FAILED, s)
        | Some buf \<Rightarrow> do {
            (flash_checksum, buf, s) \<leftarrow> verify_sum F p 0 0 buf s;
            if flash_checksum \<noteq> bin_sum (file_header p)
            then Some (OPRT_OS_ADAPTER_OTA_END_INFORM_FAILED, s\<lparr>ug_proc := None, frist_block_databuf := None\<rparr>)
            else do {
              (buf, s) \<leftarrow> read_into F (ug_start p) buf BUF_SIZE s;
              (_, f) \<leftarrow> fa_set_protect F False (ota_flash s);
              (_, f) \<leftarrow> fa_erase F (ug_start p) BUF_SIZE f;
              (_, f) \<leftarrow> fa_set_protect F True f;
              buf \<leftarrow> put_first s buf;
              (_, f) \<leftarrow> guarded_write F (ug_start p) buf BUF_SIZE f;
              Some (OPRT_OK, s\<lparr>ota_flash := f, ug_proc := None, frist_block_databuf := None,
                resets := (if reset then resets s + 1 else resets s)\<rparr>)
            }
          }))"

definition tkl_ota_get_old_firmware_info :: oprt where
  "tkl_ota_get_old_firmware_info = OPRT_NOT_SUPPORTED"

declare ota_blocks.simps [simp del]
declare verify_sum.simps [simp del]

end
