(* ===== verification/OtaFlow.thy ===== *)
theory OtaFlow
  imports Ota
begin

text \<open>
  The update as a whole. The locale \<open>flash_service\<close> is what the update relies on: four flash operations
  that succeed on a region of erasable memory. Inside it, the packets of an image, however they
  are cut, are shown to build up the image in the flash, with the first block missing until
  the end; the interpretation on the operations of TklFlash carries this to the board.
\<close>

section \<open>The service\<close>

definition pages :: "nat \<Rightarrow> nat" where "pages n = 4096 * ((n + 4095) div 4096)"

lemma pages_ge: "n \<le> pages n"
  using div_mult_mod_eq [of "n + 4095" 4096] mod_less_divisor [of 4096 "n + 4095"] unfolding pages_def by linarith

lemma pages_mono: "m \<le> n \<Longrightarrow> pages m \<le> pages n"
  by (simp add: pages_def div_le_mono)

lemma pages_page [simp]: "pages 4096 = 4096"
  by (simp add: pages_def)

lemma pages_last: "0 < n \<Longrightarrow> 4096 dvd a \<Longrightarrow> 4096 * ((a + n - 1) div 4096 + 1) = a + pages n"
proof -
  assume n: "0 < n" and "4096 dvd a"
  then obtain q where q: "a = 4096 * q" by blast
  have "(a + n - 1) div 4096 = q + (n - 1) div 4096" using n by (simp add: q)
  moreover have "(n + 4095) div 4096 = (n - 1) div 4096 + 1"
    using n by (cases n) (simp_all add: div_add_self2 [symmetric])
  ultimately show ?thesis by (simp add: q pages_def)
qed

locale flash_service =
  fixes F :: "'s flash_api" and mem :: "'s \<Rightarrow> nat \<Rightarrow> u8" and up :: "'s \<Rightarrow> bool" and lo hi :: nat
  assumes region: "lo \<le> 0x12A000" "0x1D0000 \<le> hi" "hi \<le> 16777216"
    and set_protect: "up s \<Longrightarrow> \<exists>t. fa_set_protect F e s = Some (OPRT_OK, t) \<and> up t \<and> mem t = mem s"
    and erase: "up s \<Longrightarrow> 4096 dvd a \<Longrightarrow> lo \<le> a \<Longrightarrow> 0 < n \<Longrightarrow> a + pages n \<le> hi \<Longrightarrow>
      \<exists>t. fa_erase F (of_nat a) (of_nat n) s = Some (OPRT_OK, t) \<and> up t \<and>
        mem t = nor_erase (\<lambda>_. False) a (pages n) (mem s)"
    and program: "up s \<Longrightarrow> lo \<le> a \<Longrightarrow> a < hi \<Longrightarrow> a + n \<le> hi \<Longrightarrow> n \<le> length buf \<Longrightarrow>
      \<exists>t. fa_write F (of_nat a) (Some buf) (of_nat n) s = Some (OPRT_OK, t) \<and> up t \<and>
        mem t = nor_program (\<lambda>_. False) a (take n buf) (mem s)"
    and read_back: "up s \<Longrightarrow> a + n \<le> hi \<Longrightarrow>
      \<exists>t. fa_read F (of_nat a) False (of_nat n) s = Some (OPRT_OK, Some (map (mem s) [a..<a + n]), t) \<and> up t \<and> mem t = mem s"

section \<open>The flash during an update\<close>

definition ota_base :: nat where "ota_base = 0x12A000"

text \<open>After \<open>r\<close> bytes of the image; \<open>c\<close> is the flash before the update.\<close>

definition so_far :: "u8 list \<Rightarrow> (nat \<Rightarrow> u8) \<Rightarrow> nat \<Rightarrow> nat \<Rightarrow> u8" where
  "so_far img c r = (\<lambda>i. if ota_base \<le> i \<and> i < ota_base + pages (length img)
     then if i - ota_base < r \<and> 512 \<le> i - ota_base then img ! (i - ota_base) else 0xFF
     else c i)"

definition installed :: "u8 list \<Rightarrow> (nat \<Rightarrow> u8) \<Rightarrow> nat \<Rightarrow> u8" where
  "installed img c = (\<lambda>i. if ota_base \<le> i \<and> i < ota_base + pages (length img)
     then if i - ota_base < length img then img ! (i - ota_base) else 0xFF
     else c i)"

lemma ff_and [simp]: "(0xFF :: u8) AND x = x" "x AND (0xFF :: u8) = x"
proof -
  have "(0xFF :: u8) = - 1" by simp
  then show "(0xFF :: u8) AND x = x" "x AND (0xFF :: u8) = x" by (simp_all only: and.left_neutral and.right_neutral)
qed

lemma so_far_0: "nor_erase (\<lambda>_. False) ota_base (pages (length img)) c = so_far img c 0"
  by (rule ext) (simp add: nor_erase_def so_far_def)

text \<open>Writing a unit that is not the first, or the dummy for the first.\<close>

lemma so_far_next:
  assumes "r + m \<le> length img" "512 \<le> r"
  shows "nor_program (\<lambda>_. False) (ota_base + r) (take m (drop r img)) (so_far img c r) = so_far img c (r + m)"
proof
  fix i
  have l: "length (take m (drop r img)) = m" using assms(1) by simp
  have pg: "r + m \<le> pages (length img)" using assms(1) pages_ge [of "length img"] by linarith
  show "nor_program (\<lambda>_. False) (ota_base + r) (take m (drop r img)) (so_far img c r) i = so_far img c (r + m) i"
  proof (cases "ota_base + r \<le> i \<and> i < ota_base + r + m")
    case True
    then obtain j where j: "i = ota_base + r + j" "j < m" using le_Suc_ex by fastforce
    have 1: "so_far img c r i = 0xFF" using j pg by (simp add: so_far_def)
    have 2: "so_far img c (r + m) i = img ! (r + j)" using j pg assms(2) by (simp add: so_far_def)
    have 3: "take m (drop r img) ! (i - (ota_base + r)) = img ! (r + j)" using j assms(1) by simp
    show ?thesis using True unfolding nor_program_def l 1 2 3 by simp
  next
    case False
    then have "\<not> (ota_base + r \<le> i \<and> i < ota_base + r + length (take m (drop r img)))" using l by simp
    then have "nor_program (\<lambda>_. False) (ota_base + r) (take m (drop r img)) (so_far img c r) i = so_far img c r i"
      unfolding nor_program_def by (intro if_not_P) blast
    moreover have "so_far img c (r + m) i = so_far img c r i"
      using False unfolding so_far_def by (intro if_cong refl) linarith
    ultimately show ?thesis by simp
  qed
qed

lemma so_far_first:
  assumes "512 \<le> length img"
  shows "nor_program (\<lambda>_. False) ota_base (replicate 512 0xFF) (so_far img c 0) = so_far img c 512"
proof
  fix i
  have "512 \<le> pages (length img)" using assms pages_ge [of "length img"] by linarith
  note pg = this
  show "nor_program (\<lambda>_. False) ota_base (replicate 512 0xFF) (so_far img c 0) i = so_far img c 512 i"
  proof (cases "ota_base \<le> i \<and> i < ota_base + 512")
    case True
    then obtain j where "i = ota_base + j" "j < 512" using le_Suc_ex by fastforce
    then show ?thesis using pg by (simp add: nor_program_def so_far_def)
  next
    case False
    then have "nor_program (\<lambda>_. False) ota_base (replicate 512 0xFF) (so_far img c 0) i = so_far img c 0 i"
      unfolding nor_program_def length_replicate by (intro if_not_P) blast
    then show ?thesis using False by (auto simp: so_far_def)
  qed
qed

text \<open>The state while the image comes in.\<close>

definition ota_at :: "('s \<Rightarrow> nat \<Rightarrow> u8) \<Rightarrow> update_file_hdr \<Rightarrow> u8 list \<Rightarrow> (nat \<Rightarrow> u8) \<Rightarrow> nat \<Rightarrow> ug_stat \<Rightarrow> ug_proc_s \<Rightarrow> 's ota \<Rightarrow> bool" where
  "ota_at mem hdr img c r st p s \<longleftrightarrow> ug_proc s = Some p \<and> file_header p = hdr \<and> ug_start p = UG_START_ADDR \<and>
     flash_addr p = of_nat (ota_base + r) \<and> recv_data_cnt p = of_nat r \<and> stat p = st \<and>
     first_block s = (r = 0) \<and> (0 < r \<longrightarrow> frist_block_databuf s = Some (take 512 img)) \<and>
     (\<forall>b. frist_block_databuf s = Some b \<longrightarrow> length b = 512) \<and>
     mem (ota_flash s) = so_far img c r"

lemma ota_atD:
  assumes "ota_at mem hdr img c r st p s"
  shows "ug_proc s = Some p" "file_header p = hdr" "ug_start p = UG_START_ADDR" "flash_addr p = of_nat (ota_base + r)"
    "recv_data_cnt p = of_nat r" "stat p = st" "first_block s = (r = 0)" "0 < r \<Longrightarrow> frist_block_databuf s = Some (take 512 img)"
    "frist_block_databuf s = Some b \<Longrightarrow> length b = 512" "mem (ota_flash s) = so_far img c r"
  using assms unfolding ota_at_def by blast+

text \<open>What the image must satisfy: its length fits the header and the partition.\<close>

definition img_ok :: "update_file_hdr \<Rightarrow> u8 list \<Rightarrow> bool" where
  "img_ok hdr img \<longleftrightarrow> bin_len hdr = of_nat (length img) \<and> 512 \<le> length img \<and> length img < 664 * 1024"

lemma img_okD:
  assumes "img_ok hdr img"
  shows "bin_len hdr = of_nat (length img)" "512 \<le> length img" "length img < 679936" "pages (length img) \<le> 0xA6000"
  using assms pages_mono [of "length img" 679935] by (auto simp: img_ok_def pages_def)

section \<open>Receiving\<close>

context flash_service begin

lemma guarded_write_ok:
  assumes "up f" "lo \<le> a" "a < hi" "a + n \<le> hi" "n \<le> length buf"
  shows "\<exists>t. guarded_write F (of_nat a) buf (of_nat n) f = Some (False, t) \<and> up t \<and>
    mem t = nor_program (\<lambda>_. False) a (take n buf) (mem f)"
proof -
  obtain f1 where f1: "fa_set_protect F False f = Some (OPRT_OK, f1)" "up f1" "mem f1 = mem f"
    using set_protect [OF assms(1)] by blast
  obtain f2 where f2: "fa_write F (of_nat a) (Some buf) (of_nat n) f1 = Some (OPRT_OK, f2)" "up f2"
    "mem f2 = nor_program (\<lambda>_. False) a (take n buf) (mem f1)" using program [OF f1(2) assms(2-5)] by blast
  obtain f3 where "fa_set_protect F True f2 = Some (OPRT_OK, f3)" "up f3" "mem f3 = mem f2"
    using set_protect [OF f2(2)] by blast
  then show ?thesis using f1 f2 by (simp add: guarded_write_def)
qed

text \<open>The two blocks the allocator hands out, of 512 bytes each.\<close>

lemma ota_block_ok:
  assumes at: "ota_at mem hdr img c r UGS_RECV_IMG_DATA p s" and up: "up (ota_flash s)" and img: "img_ok hdr img"
    and m: "length m1 = 512" "length m2 = 512"
    and r: "r = 0 \<or> 512 \<le> r" "r + 512 \<le> length img"
    and d: "unat (pk_len pack - w) = pos" "pos + 512 \<le> length (pk_data pack)"
      "take 512 (drop pos (pk_data pack)) = take 512 (drop r img)"
  shows "\<exists>s'. ota_block F (Some m1) (Some m2) pack w p s = Some (False, s') \<and> up (ota_flash s') \<and>
    ota_at mem hdr img c (r + 512) UGS_RECV_IMG_DATA
      (p\<lparr>flash_addr := flash_addr p + RT_IMG_WR_UNIT, recv_data_cnt := recv_data_cnt p + RT_IMG_WR_UNIT\<rparr>)
      (s'\<lparr>ug_proc := Some (p\<lparr>flash_addr := flash_addr p + RT_IMG_WR_UNIT, recv_data_cnt := recv_data_cnt p + RT_IMG_WR_UNIT\<rparr>)\<rparr>)"
proof -
  note i = img_okD [OF img] and a = ota_atD [OF at]
  have base: "ota_base + r + 512 \<le> hi" "lo \<le> ota_base + r" "ota_base + r < hi"
    using region i(3) r(2) by (simp_all add: ota_base_def)
  show ?thesis
  proof (cases "r = 0")
    case True
    define b where "b = (case frist_block_databuf s of None \<Rightarrow> m1 | Some b \<Rightarrow> b)"
    have b: "(case frist_block_databuf s of None \<Rightarrow> Some m1 | Some b \<Rightarrow> Some b) = Some b" "length b = 512"
      using m(1) a(9) by (auto simp: b_def split: option.splits)
    have first: "take 512 (drop pos (pk_data pack)) = take 512 img" using d(3) True by simp
    have len2: "length (replicate 512 (0xFF :: u8)) = 512" by simp
    obtain f where f: "guarded_write F (of_nat ota_base) (replicate 512 0xFF) (of_nat 512) (ota_flash s) = Some (False, f)" "up f"
      "mem f = nor_program (\<lambda>_. False) ota_base (take 512 (replicate 512 0xFF)) (mem (ota_flash s))"
      using guarded_write_ok [OF up, of ota_base 512 "replicate 512 0xFF"] base True by auto
    have mem: "mem f = so_far img c 512" using f(3) a(10) True so_far_first [OF i(2)] by simp
    let ?s = "s\<lparr>frist_block_databuf := Some (take 512 img), ota_flash := f, first_block := False\<rparr>"
    have "ota_block F (Some m1) (Some m2) pack w p s = Some (False, ?s)"
      using b m(2) d(1,2) first f(1) a(4,7) True
      by (simp add: ota_block_def RT_IMG_WR_UNIT_def memcpy_def)
    moreover have "ota_at mem hdr img c (r + 512) UGS_RECV_IMG_DATA
      (p\<lparr>flash_addr := flash_addr p + RT_IMG_WR_UNIT, recv_data_cnt := recv_data_cnt p + RT_IMG_WR_UNIT\<rparr>)
      (?s\<lparr>ug_proc := Some (p\<lparr>flash_addr := flash_addr p + RT_IMG_WR_UNIT, recv_data_cnt := recv_data_cnt p + RT_IMG_WR_UNIT\<rparr>)\<rparr>)"
      using a i(2) True mem by (simp add: ota_at_def RT_IMG_WR_UNIT_def add.assoc)
    ultimately show ?thesis using f(2) by auto
  next
    case False
    then have r512: "512 \<le> r" using r(1) by simp
    have dl: "512 \<le> length (drop pos (pk_data pack))" using d(2) by simp
    obtain f where f: "guarded_write F (of_nat (ota_base + r)) (drop pos (pk_data pack)) (of_nat 512) (ota_flash s) = Some (False, f)" "up f"
      "mem f = nor_program (\<lambda>_. False) (ota_base + r) (take 512 (drop pos (pk_data pack))) (mem (ota_flash s))"
      using guarded_write_ok [OF up base(2,3) base(1) dl] by blast
    have mem: "mem f = so_far img c (r + 512)" using f(3) a(10) d(3) so_far_next [OF r(2) r512] by simp
    have "ota_block F (Some m1) (Some m2) pack w p s = Some (False, s\<lparr>ota_flash := f\<rparr>)"
      using d(1) f(1) a(4,7) False by (simp add: ota_block_def RT_IMG_WR_UNIT_def)
    moreover have "ota_at mem hdr img c (r + 512) UGS_RECV_IMG_DATA
      (p\<lparr>flash_addr := flash_addr p + RT_IMG_WR_UNIT, recv_data_cnt := recv_data_cnt p + RT_IMG_WR_UNIT\<rparr>)
      (s\<lparr>ota_flash := f, ug_proc := Some (p\<lparr>flash_addr := flash_addr p + RT_IMG_WR_UNIT, recv_data_cnt := recv_data_cnt p + RT_IMG_WR_UNIT\<rparr>)\<rparr>)"
      using a False mem by (simp add: ota_at_def RT_IMG_WR_UNIT_def add.assoc)
    ultimately show ?thesis using f(2) by auto
  qed
qed

lemma ota_blocks_ok:
  assumes at: "ota_at mem hdr img c r UGS_RECV_IMG_DATA p s" and up: "up (ota_flash s)" and img: "img_ok hdr img"
    and m: "length m1 = 512" "length m2 = 512"
    and r: "512 dvd r" "r + w \<le> length img"
    and d: "pk_len pack = of_nat L" "L < 2 ^ 32" "length (pk_data pack) = L" "w \<le> L" "drop (L - w) (pk_data pack) = take w (drop r img)"
  shows "\<exists>p' s'. ota_blocks F (Some m1) (Some m2) pack (of_nat w) rem p s =
      Some (False, of_nat (w mod 512), if w < 512 then rem else of_nat (w mod 512), p', s') \<and> up (ota_flash s') \<and>
    ota_at mem hdr img c (r + 512 * (w div 512)) UGS_RECV_IMG_DATA p' s'"
  using at up r d(4,5)
proof (induction w arbitrary: r rem p s rule: less_induct)
  case (less w)
  have wl: "w < 4294967296" using less.prems(5) d(2) by simp
  show ?case
  proof (cases "w < 512")
    case True
    then have "(of_nat w :: u32) < RT_IMG_WR_UNIT" using of_nat_u32_less [of w 512] wl by (simp add: RT_IMG_WR_UNIT_def)
    then show ?thesis using True less.prems(1,2) by (subst ota_blocks.simps) simp
  next
    case False
    then have ge: "\<not> (of_nat w :: u32) < RT_IMG_WR_UNIT" using of_nat_u32_less [of w 512] wl by (simp add: RT_IMG_WR_UNIT_def)
    have "pk_len pack - of_nat w = of_nat (L - w)" using d(1) less.prems(5) by (simp add: of_nat_diff)
    moreover have "unat (of_nat (L - w) :: u32) = L - w" using d(2) by (intro unat_u32) simp
    ultimately have pos: "unat (pk_len pack - of_nat w) = L - w" by simp
    have sub: "(of_nat w - RT_IMG_WR_UNIT :: u32) = of_nat (w - 512)" using False by (simp add: RT_IMG_WR_UNIT_def of_nat_diff)
    have r1: "r = 0 \<or> 512 \<le> r" using less.prems(3) by (auto elim: dvdE)
    have r2: "r + 512 \<le> length img" using False less.prems(4) by simp
    have d2: "L - w + 512 \<le> length (pk_data pack)" using False less.prems(5) d(3) by simp
    have d3: "take 512 (drop (L - w) (pk_data pack)) = take 512 (drop r img)"
      unfolding less.prems(6) take_take using False by simp
    obtain s1 where s1: "ota_block F (Some m1) (Some m2) pack (of_nat w) p s = Some (False, s1)" "up (ota_flash s1)"
      "ota_at mem hdr img c (r + 512) UGS_RECV_IMG_DATA
        (p\<lparr>flash_addr := flash_addr p + RT_IMG_WR_UNIT, recv_data_cnt := recv_data_cnt p + RT_IMG_WR_UNIT\<rparr>)
        (s1\<lparr>ug_proc := Some (p\<lparr>flash_addr := flash_addr p + RT_IMG_WR_UNIT, recv_data_cnt := recv_data_cnt p + RT_IMG_WR_UNIT\<rparr>)\<rparr>)"
      using ota_block_ok [OF less.prems(1,2) img m r1 r2 pos d2 d3] by blast
    define p1 where "p1 = p\<lparr>flash_addr := flash_addr p + RT_IMG_WR_UNIT, recv_data_cnt := recv_data_cnt p + RT_IMG_WR_UNIT\<rparr>"
    have at1: "ota_at mem hdr img c (r + 512) UGS_RECV_IMG_DATA p1 (s1\<lparr>ug_proc := Some p1\<rparr>)" using s1(3) by (simp add: p1_def)
    have "drop (L - (w - 512)) (pk_data pack) = drop 512 (drop (L - w) (pk_data pack))"
      using False less.prems(5) by (simp add: add.commute)
    also have "\<dots> = take (w - 512) (drop (r + 512) img)" unfolding less.prems(6) by (simp add: drop_take add.commute)
    finally have rest: "drop (L - (w - 512)) (pk_data pack) = take (w - 512) (drop (r + 512) img)" .
    have IH: "\<exists>p' s'. ota_blocks F (Some m1) (Some m2) pack (of_nat (w - 512)) (of_nat (w - 512)) p1 (s1\<lparr>ug_proc := Some p1\<rparr>) =
        Some (False, of_nat ((w - 512) mod 512), if w - 512 < 512 then of_nat (w - 512) else of_nat ((w - 512) mod 512), p', s') \<and>
      up (ota_flash s') \<and> ota_at mem hdr img c (r + 512 + 512 * ((w - 512) div 512)) UGS_RECV_IMG_DATA p' s'"
      using False less.prems(3,4,5) s1(2) by (intro less.IH at1 rest) simp_all
    have dm: "(w - 512) mod 512 = w mod 512" "512 + 512 * ((w - 512) div 512) = 512 * (w div 512)"
    proof -
      obtain v where "w = v + 512" using False by (metis le_add_diff_inverse2 not_less)
      then show "(w - 512) mod 512 = w mod 512" "512 + 512 * ((w - 512) div 512) = 512 * (w div 512)"
        using div_add_self2 [of 512 v] by simp_all
    qed
    have step: "ota_blocks F (Some m1) (Some m2) pack (of_nat w) rem p s =
        ota_blocks F (Some m1) (Some m2) pack (of_nat (w - 512)) (of_nat (w - 512)) p1 (s1\<lparr>ug_proc := Some p1\<rparr>)"
      using ge s1(1) by (subst ota_blocks.simps) (simp add: sub p1_def Let_def)
    have rem: "(if w - 512 < 512 then of_nat (w - 512) else of_nat ((w - 512) mod 512)) = (of_nat (w mod 512) :: u32)"
      using dm(1) by (cases "w - 512 < 512") simp_all
    show ?thesis unfolding step using IH [unfolded rem, unfolded dm(1) add.assoc dm(2)] False by simp
  qed
qed

end

context flash_service begin

text \<open>A packet of the image: all of it is taken once the image is complete, otherwise whole units.\<close>

lemma recv_image_ok:
  assumes at: "ota_at mem hdr img c r UGS_RECV_IMG_DATA p s" and up: "up (ota_flash s)" and img: "img_ok hdr img"
    and m: "length m1 = 512" "length m2 = 512"
    and r: "512 dvd r" "r + w \<le> length img" and d: "pk_len pack = of_nat w" "pk_data pack = take w (drop r img)"
  shows "\<exists>p' s' r' rem. recv_image F (Some m1) (Some m2) pack p s = Some (OPRT_OK, of_nat rem, s') \<and> up (ota_flash s') \<and>
    r' + rem = r + w \<and> rem \<le> w \<and>
    (if r + w = length img then r' = length img \<and> ota_at mem hdr img c r' UGS_FINISH p' s'
     else 512 dvd r' \<and> ota_at mem hdr img c r' UGS_RECV_IMG_DATA p' s')"
proof -
  note i = img_okD [OF img] and a = ota_atD [OF at]
  let ?n = "length img"
  have w32: "w < 4294967296" "r < 4294967296" using r(2) i(3) by simp_all
  have len: "length (pk_data pack) = w" using d(2) r(2) by simp
  have bin: "bin_len (file_header p) = of_nat ?n" using a(2) i(1) by simp
  have bin512: "bin_len (file_header p) - RT_IMG_WR_UNIT = of_nat (?n - 512)"
    using bin i(2) by (simp add: RT_IMG_WR_UNIT_def of_nat_diff)
  have lt512: "pk_len pack < RT_IMG_WR_UNIT \<longleftrightarrow> w < 512"
    using of_nat_u32_less [of w 512] w32 d(1) by (simp add: RT_IMG_WR_UNIT_def)
  have rle: "recv_data_cnt p \<le> bin_len (file_header p) - RT_IMG_WR_UNIT \<longleftrightarrow> r \<le> ?n - 512"
    unfolding bin512 a(5) using i(3) w32 by (intro of_nat_u32_le) simp_all
  show ?thesis
  proof (cases "w < 512 \<and> r \<le> ?n - 512")
    case True
    then have "recv_image F (Some m1) (Some m2) pack p s = Some (OPRT_OK, of_nat w, s)"
      using lt512 rle d(1) by (simp add: recv_image_def)
    moreover have "r + w \<noteq> ?n" using True i(2) by linarith
    ultimately show ?thesis using at up r(1) by auto
  next
    case False
    define r1 w1 where "r1 = r + 512 * (w div 512)" and "w1 = w mod 512"
    have sum: "r1 + w1 = r + w" "w1 < 512" "w1 \<le> w" "512 dvd r1"
      using r(1) unfolding r1_def w1_def by simp_all
    have r1n: "r1 \<le> ?n" using sum(1) r(2) by linarith
    have dd: "drop (w - w) (pk_data pack) = take w (drop r img)" using d(2) by simp
    have lw: "w < 2 ^ 32" "w \<le> w" using w32 by simp_all
    obtain p1 s1 where b: "ota_blocks F (Some m1) (Some m2) pack (pk_len pack) (pk_len pack) p s =
        Some (False, of_nat w1, if w < 512 then pk_len pack else of_nat w1, p1, s1)" "up (ota_flash s1)"
      "ota_at mem hdr img c r1 UGS_RECV_IMG_DATA p1 s1"
      using ota_blocks_ok [OF at up img m r d(1) lw(1) len lw(2) dd, of "pk_len pack"] unfolding r1_def w1_def d(1) by blast
    have rem: "(if w < 512 then pk_len pack else of_nat w1) = of_nat w1" using d(1) by (simp add: w1_def)
    note a1 = ota_atD [OF b(3)]
    have c1: "bin_len (file_header p) - RT_IMG_WR_UNIT < recv_data_cnt p1 \<longleftrightarrow> ?n - 512 < r1"
      unfolding bin512 a1(5) using i(3) r1n by (intro of_nat_u32_less) simp_all
    have "bin_len (file_header p) - recv_data_cnt p1 = of_nat (?n - r1)" using bin a1(5) r1n by (simp add: of_nat_diff)
    then have c2: "bin_len (file_header p) - recv_data_cnt p1 \<le> of_nat w1 \<longleftrightarrow> ?n - r1 \<le> w1"
      using i(3) sum(2) by (simp add: of_nat_u32_le)
    have skip: "\<not> (pk_len pack < RT_IMG_WR_UNIT \<and> recv_data_cnt p \<le> bin_len (file_header p) - RT_IMG_WR_UNIT)"
      using False lt512 rle by simp
    show ?thesis
    proof (cases "r + w = ?n")
      case True
      have last: "?n - 512 < r1" "?n - r1 \<le> w1" "r1 + w1 = ?n" using True sum(1,2) i(2) by linarith+
      have r1: "512 \<le> r1" using sum(4) last(1) i(2) by (cases "r1 = 0") (auto elim: dvdE)
      have upos: "unat (pk_len pack - of_nat w1) = w - w1"
      proof -
        have "pk_len pack - of_nat w1 = of_nat (w - w1)" using d(1) sum(3) by (simp add: of_nat_diff)
        moreover have "unat (of_nat (w - w1) :: u32) = w - w1" using w32 by (intro unat_u32) simp
        ultimately show ?thesis by simp
      qed
      have dr: "drop (w - w1) (pk_data pack) = take w1 (drop r1 img)"
      proof -
        have "w - w1 = r1 - r" "r \<le> r1" "w - (r1 - r) = w1" using sum(1) by (auto simp: r1_def)
        then show ?thesis by (simp add: d(2) drop_take)
      qed
      have base: "lo \<le> ota_base + r1" "ota_base + r1 < hi" "ota_base + r1 + w1 \<le> hi"
        using region i(3) last(3) by (simp_all add: ota_base_def)
      have lb: "w1 \<le> length (take w1 (drop r1 img))" using last(3) by simp
      obtain f where f: "guarded_write F (of_nat (ota_base + r1)) (take w1 (drop r1 img)) (of_nat w1) (ota_flash s1) = Some (False, f)"
        "up f" "mem f = nor_program (\<lambda>_. False) (ota_base + r1) (take w1 (take w1 (drop r1 img))) (mem (ota_flash s1))"
        using guarded_write_ok [OF b(2) base lb] by blast
      have le: "r1 + w1 \<le> ?n" using last(3) by simp
      have mem: "mem f = so_far img c ?n" using f(3) a1(10) so_far_next [OF le r1] last(3) by simp
      let ?p = "p1\<lparr>flash_addr := flash_addr p1 + of_nat w1, recv_data_cnt := recv_data_cnt p1 + of_nat w1, stat := UGS_FINISH\<rparr>"
      let ?s = "s1\<lparr>ota_flash := f, ug_proc := Some ?p\<rparr>"
      have "bin_len (file_header p) \<le> recv_data_cnt p1 + of_nat w1"
        using bin a1(5) last(3) by (metis of_nat_add order_refl)
      then have "recv_image F (Some m1) (Some m2) pack p s = Some (OPRT_OK, of_nat 0, ?s)"
        using b(1) c1 c2 last(1,2) f(1) unfolding recv_image_def Let_def if_not_P [OF skip] by (simp add: upos dr a1(4))
      moreover have "ota_at mem hdr img c ?n UGS_FINISH ?p ?s"
        using a1 mem r1 last(3) i(2) unfolding ota_at_def by (auto simp flip: of_nat_add simp: add.assoc)
      ultimately show ?thesis using True f(2)
        by (intro exI [of _ ?p] exI [of _ ?s] exI [of _ ?n] exI [of _ "0 :: nat"]) simp
    next
      case False
      then have less: "r1 + w1 < ?n" using r(2) sum(1) by simp
      then have "\<not> bin_len (file_header p) \<le> recv_data_cnt p1"
        unfolding bin a1(5) using of_nat_u32_le [of ?n r1] i(3) by simp
      moreover have not_last: "\<not> ?n - r1 \<le> w1" using less by linarith
      ultimately have "recv_image F (Some m1) (Some m2) pack p s = Some (OPRT_OK, of_nat w1, s1)"
        using b(1) c2 not_last unfolding recv_image_def Let_def if_not_P [OF skip] rem by simp
      then show ?thesis using False b(2,3) sum by auto
    qed
  qed
qed

end

section \<open>A package and its delivery\<close>

text \<open>The package format: the header of an image, big endian, and the image.\<close>

definition word_bytes_be :: "u32 \<Rightarrow> u8 list" where
  "word_bytes_be w = [ucast (drop_bit 24 w), ucast (drop_bit 16 w), ucast (drop_bit 8 w), ucast w]"

definition header_start :: "u8 list \<Rightarrow> u8 list \<Rightarrow> u8 list" where
  "header_start ver img = word_bytes_be UG_PKG_HEAD @ ver @ word_bytes_be (of_nat (length img)) @ word_bytes_be (byte_sum img)"

definition header_bytes :: "u8 list \<Rightarrow> u8 list \<Rightarrow> u8 list" where
  "header_bytes ver img = header_start ver img @ word_bytes_be (byte_sum (header_start ver img)) @ word_bytes_be UG_PKG_TAIL"

definition header_of :: "u8 list \<Rightarrow> u8 list \<Rightarrow> update_file_hdr" where
  "header_of ver img = \<lparr>header_flag = UG_PKG_HEAD, sw_version = ver, bin_len = of_nat (length img), bin_sum = byte_sum img,
     head_sum = byte_sum (header_start ver img), tail_flag = UG_PKG_TAIL\<rparr>"

text \<open>
  The caller hands over packets and puts what was not taken (the \<^verbatim>\<open>remain_len\<close> last bytes) in front of the
  next one. It stops at an error.
\<close>

fun ota_feed :: "'s flash_api \<Rightarrow> u8 list option \<Rightarrow> u8 list option \<Rightarrow> u8 list \<Rightarrow> u8 list list \<Rightarrow> 's ota \<Rightarrow> (oprt \<times> u8 list \<times> 's ota) option" where
  "ota_feed F m1 m2 pending [] s = Some (OPRT_OK, pending, s)"
| "ota_feed F m1 m2 pending (c # cs) s =
     do {
       (r, rem, s) \<leftarrow> tkl_ota_data_process F m1 m2 \<lparr>pk_data = pending @ c, pk_len = of_nat (length (pending @ c))\<rparr> 0 s;
       if r \<noteq> OPRT_OK then Some (r, pending @ c, s)
       else ota_feed F m1 m2 (drop (length (pending @ c) - unat rem) (pending @ c)) cs s
     }"

lemma be32_bytes:
  fixes w :: u32
  shows "be32 (xs @ word_bytes_be w @ ys) (length xs) = Some w"
proof -
  have "push_bit 24 (ucast (ucast (drop_bit 24 w) :: u8) :: u32) OR push_bit 16 (ucast (ucast (drop_bit 16 w) :: u8)) OR
      push_bit 8 (ucast (ucast (drop_bit 8 w) :: u8)) OR ucast (ucast w :: u8) = w"
  proof (rule bit_word_eqI)
    fix n assume n: "n < LENGTH(32)"
    consider "n < 8" | "8 \<le> n" "n < 16" | "16 \<le> n" "n < 24" | "24 \<le> n" "n < 32" using n by fastforce
    then show "bit (push_bit 24 (ucast (ucast (drop_bit 24 w) :: u8) :: u32) OR push_bit 16 (ucast (ucast (drop_bit 16 w) :: u8)) OR
      push_bit 8 (ucast (ucast (drop_bit 8 w) :: u8)) OR ucast (ucast w :: u8)) n \<longleftrightarrow> bit w n"
      by cases (auto simp: bit_simps)
  qed
  then show ?thesis by (simp add: be32_def aget_def word_bytes_be_def nth_append)
qed

lemma parse_header_bytes:
  assumes "length ver = 12"
  shows "parse_header (header_bytes ver img @ rest) = Some (header_of ver img, byte_sum (header_start ver img))"
proof -
  let ?n = "word_bytes_be (of_nat (length img))" and ?s = "word_bytes_be (byte_sum img)"
  let ?h = "word_bytes_be (byte_sum (header_start ver img))" and ?t = "word_bytes_be UG_PKG_TAIL" and ?f = "word_bytes_be UG_PKG_HEAD"
  let ?d = "header_bytes ver img @ rest"
  have l [simp]: "length (word_bytes_be w) = 4" for w by (simp add: word_bytes_be_def)
  have d: "?d = [] @ ?f @ (ver @ ?n @ ?s @ ?h @ ?t @ rest)" "?d = (?f @ ver) @ ?n @ (?s @ ?h @ ?t @ rest)"
    "?d = (?f @ ver @ ?n) @ ?s @ (?h @ ?t @ rest)" "?d = (?f @ ver @ ?n @ ?s) @ ?h @ (?t @ rest)"
    "?d = (?f @ ver @ ?n @ ?s @ ?h) @ ?t @ rest"
    by (simp_all add: header_bytes_def header_start_def)
  have "be32 ?d 0 = Some UG_PKG_HEAD" "be32 ?d 16 = Some (of_nat (length img))" "be32 ?d 20 = Some (byte_sum img)"
    "be32 ?d 24 = Some (byte_sum (header_start ver img))" "be32 ?d 28 = Some UG_PKG_TAIL"
    using be32_bytes [of "[]" UG_PKG_HEAD "ver @ ?n @ ?s @ ?h @ ?t @ rest", folded d(1)]
      be32_bytes [of "?f @ ver" "of_nat (length img)" "?s @ ?h @ ?t @ rest", folded d(2)]
      be32_bytes [of "?f @ ver @ ?n" "byte_sum img" "?h @ ?t @ rest", folded d(3)]
      be32_bytes [of "?f @ ver @ ?n @ ?s" "byte_sum (header_start ver img)" "?t @ rest", folded d(4)]
      be32_bytes [of "?f @ ver @ ?n @ ?s @ ?h" UG_PKG_TAIL rest, folded d(5)] assms by simp_all
  moreover have "take 12 (drop 4 ?d) = ver" "take (unat HDR_SIZE - 8) ?d = header_start ver img"
    using assms by (simp_all add: header_bytes_def header_start_def HDR_SIZE_def)
  ultimately show ?thesis by (simp add: parse_header_def header_of_def)
qed

lemma length_header: "length ver = 12 \<Longrightarrow> length (header_bytes ver img) = 32"
  by (simp add: header_bytes_def header_start_def word_bytes_be_def)

text \<open>Before the header has come.\<close>

definition ota_ready :: "('s \<Rightarrow> nat \<Rightarrow> u8) \<Rightarrow> (nat \<Rightarrow> u8) \<Rightarrow> 's ota \<Rightarrow> bool" where
  "ota_ready mem c s \<longleftrightarrow> (\<exists>p. ug_proc s = Some p \<and> stat p = UGS_RECV_HEADER) \<and> first_block s \<and>
     (\<forall>b. frist_block_databuf s = Some b \<longrightarrow> length b = 512) \<and> mem (ota_flash s) = c"

context flash_service begin

lemma recv_header_short:
  assumes "pk_len pack = of_nat L" "L < 32"
  shows "recv_header F pack p rem s = Some (OPRT_OK, of_nat L, s)"
  using assms of_nat_u32_less [of L 32] by (simp add: recv_header_def HDR_SIZE_def)

lemma recv_header_ok:
  assumes ready: "ota_ready mem c s" "ug_proc s = Some p" and up: "up (ota_flash s)" and ver: "length ver = 12"
    and img: "img_ok (header_of ver img0) img"
    and d: "pk_len pack = of_nat L" "32 \<le> L" "L < 4294967296" "pk_data pack = header_bytes ver img0 @ rest"
  shows "\<exists>p' s'. recv_header F pack p rem s = Some (OPRT_OK, of_nat (L - 32), s') \<and> up (ota_flash s') \<and>
    ota_at mem (header_of ver img0) img c 0 UGS_RECV_IMG_DATA p' s'"
proof -
  note i = img_okD [OF img]
  have big: "\<not> pk_len pack < HDR_SIZE" using of_nat_u32_less [of L 32] d(1-3) by (simp add: HDR_SIZE_def)
  have rem: "pk_len pack - HDR_SIZE = of_nat (L - 32)" using d(1,2) by (simp add: HDR_SIZE_def of_nat_diff)
  have il: "(of_nat (length img0) :: u32) = of_nat (length img)" using i(1) by (simp add: header_of_def)
  have small: "\<not> OTA_MAX_BIN_SIZE \<le> of_nat (length img)"
    using of_nat_u32_le [of 679936 "length img"] i(3) by (simp add: OTA_MAX_BIN_SIZE_def)
  obtain f1 where f1: "fa_set_protect F False (ota_flash s) = Some (OPRT_OK, f1)" "up f1" "mem f1 = mem (ota_flash s)"
    using set_protect [OF up] by blast
  have er: "4096 dvd ota_base" "lo \<le> ota_base" "0 < length img" "ota_base + pages (length img) \<le> hi"
    using region i(2,4) by (simp_all add: ota_base_def del: length_greater_0_conv)
  obtain f2 where f2: "fa_erase F (of_nat ota_base) (of_nat (length img)) f1 = Some (OPRT_OK, f2)" "up f2"
    "mem f2 = nor_erase (\<lambda>_. False) ota_base (pages (length img)) (mem f1)" using erase [OF f1(2) er] by blast
  obtain f3 where f3: "fa_set_protect F True f2 = Some (OPRT_OK, f3)" "up f3" "mem f3 = mem f2"
    using set_protect [OF f2(2)] by blast
  have mem: "mem f3 = so_far img c 0" using f1(3) f2(3) f3(3) ready(1) by (simp add: ota_ready_def so_far_0)
  let ?p = "p\<lparr>file_header := header_of ver img0, ug_start := UG_START_ADDR, flash_addr := UG_START_ADDR,
      stat := UGS_RECV_IMG_DATA, recv_data_cnt := 0\<rparr>"
  let ?s = "s\<lparr>ug_proc := Some ?p, ota_flash := f3\<rparr>"
  have base: "UG_START_ADDR = of_nat ota_base" by (simp add: UG_START_ADDR_def ota_base_def)
  have "recv_header F pack p rem s = Some (OPRT_OK, of_nat (L - 32), ?s)"
    using f1(1) f2(1) f3(1) small unfolding recv_header_def if_not_P [OF big] d(4) parse_header_bytes [OF ver] rem
    by (simp add: header_of_def base il)
  moreover have "ota_at mem (header_of ver img0) img c 0 UGS_RECV_IMG_DATA ?p ?s"
    using ready(1) mem by (simp add: ota_at_def ota_ready_def base)
  ultimately show ?thesis using f3(2) by (intro exI [of _ ?p] exI [of _ ?s]) simp
qed

end

text \<open>
  The state after \<open>K\<close> bytes of the package, \<open>pending\<close> of which the update has not taken yet. The header is
  that of an image \<open>img0\<close> of the same length: what comes in, \<open>img\<close>, may have been corrupted.
\<close>

definition fed :: "('s \<Rightarrow> bool) \<Rightarrow> ('s \<Rightarrow> nat \<Rightarrow> u8) \<Rightarrow> u8 list \<Rightarrow> u8 list \<Rightarrow> u8 list \<Rightarrow> (nat \<Rightarrow> u8) \<Rightarrow> nat \<Rightarrow> u8 list \<Rightarrow> 's ota \<Rightarrow> bool" where
  "fed up mem ver img0 img c K pending s \<longleftrightarrow> up (ota_flash s) \<and>
     (K < 32 \<and> pending = take K (header_bytes ver img0) \<and> ota_ready mem c s \<or>
      (\<exists>r p. 512 dvd r \<and> K = 32 + r + length pending \<and> r + length pending \<le> length img \<and>
         pending = take (length pending) (drop r img) \<and> ota_at mem (header_of ver img0) img c r UGS_RECV_IMG_DATA p s) \<or>
      K = 32 + length img \<and> pending = [] \<and> (\<exists>p. ota_at mem (header_of ver img0) img c (length img) UGS_FINISH p s))"

definition finished :: "('s \<Rightarrow> nat \<Rightarrow> u8) \<Rightarrow> u8 list \<Rightarrow> u8 list \<Rightarrow> u8 list \<Rightarrow> (nat \<Rightarrow> u8) \<Rightarrow> 's ota \<Rightarrow> bool" where
  "finished mem ver img0 img c s \<longleftrightarrow> (\<exists>p. ota_at mem (header_of ver img0) img c (length img) UGS_FINISH p s)"

lemma img_ok_header: "length img0 = length img \<Longrightarrow> 512 \<le> length img \<Longrightarrow> length img < 664 * 1024 \<Longrightarrow> img_ok (header_of ver img0) img"
  by (simp add: img_ok_def header_of_def)

lemma take_more:
  assumes "xs = take (length xs) (drop r zs)" "ys = take (length ys) (drop (r + length xs) zs)" "r + length xs \<le> length zs"
  shows "xs @ ys = take (length xs + length ys) (drop r zs)"
  using assms by (metis add.commute drop_drop take_add)

lemma take_split:
  assumes "xs @ ys = take (length xs + length ys) zs"
  shows "xs = take (length xs) zs" "ys = take (length ys) (drop (length xs) zs)"
  using arg_cong [OF assms, of "take (length xs)"] arg_cong [OF assms, of "drop (length xs)"]
  by (simp_all add: drop_take)

context flash_service begin

lemma feed_step:
  assumes fed: "fed up mem ver img0 img c K pending s" and ver: "length ver = 12" and il: "length img0 = length img" and img: "512 \<le> length img" "length img < 664 * 1024"
    and m: "length m1 = 512" "length m2 = 512"
    and x: "x = take (length x) (drop K (header_bytes ver img0 @ img))" "K + length x \<le> 32 + length img"
  shows "\<exists>rem s'. tkl_ota_data_process F (Some m1) (Some m2) \<lparr>pk_data = pending @ x, pk_len = of_nat (length (pending @ x))\<rparr> 0 s =
      Some (OPRT_OK, of_nat rem, s') \<and> rem < 2 ^ 32 \<and>
    fed up mem ver img0 img c (K + length x) (drop (length (pending @ x) - rem) (pending @ x)) s' \<and>
    (32 \<le> K \<longrightarrow> K + length x = 32 + length img \<longrightarrow> finished mem ver img0 img c s')"
proof -
  let ?h = "header_bytes ver img0" and ?n = "length img" and ?pk = "\<lparr>pk_data = pending @ x, pk_len = of_nat (length (pending @ x))\<rparr>"
  note lh = length_header [OF ver, of img0] and ok = img_ok_header [OF il img, of ver]
  have up: "up (ota_flash s)" using fed by (simp add: fed_def)
  consider (hd) "K < 32" "pending = take K ?h" "ota_ready mem c s"
    | (im) r p where "512 dvd r" "K = 32 + r + length pending" "r + length pending \<le> ?n"
        "pending = take (length pending) (drop r img)" "ota_at mem (header_of ver img0) img c r UGS_RECV_IMG_DATA p s"
    | (fin) p where "K = 32 + ?n" "pending = []" "ota_at mem (header_of ver img0) img c ?n UGS_FINISH p s"
    using fed unfolding fed_def by blast
  then show ?thesis
  proof cases
    case hd
    let ?L = "length (pending @ x)"
    have lp: "length pending = K" using hd(1,2) lh by simp
    have all: "pending @ x = take ?L (?h @ img)"
      using hd(1,2) x(1) lh lp take_add [of K "length x" "?h @ img"] by simp
    have L: "?L = K + length x" "?L < 4294967296" using lp x(2) img by simp_all
    obtain p where p: "ug_proc s = Some p" "stat p = UGS_RECV_HEADER" using hd(3) by (auto simp: ota_ready_def)
    show ?thesis
    proof (cases "?L < 32")
      case True
      have "tkl_ota_data_process F (Some m1) (Some m2) ?pk 0 s = Some (OPRT_OK, of_nat ?L, s)"
        using recv_header_short [of ?pk ?L p 0 s] True p by (simp add: tkl_ota_data_process_def)
      moreover have "fed up mem ver img0 img c (K + length x) (pending @ x) s"
        using up hd(3) True all lh L(1) unfolding fed_def by simp
      ultimately show ?thesis using L hd(1) by (intro exI [of _ ?L] exI [of _ s]) simp
    next
      case False
      define l where "l = ?L"
      have "32 \<le> l" using False by (simp add: l_def)
      then have "pending @ x = ?h @ take (l - 32) img" unfolding all [folded l_def] using lh by simp
      then have data: "pending @ x = ?h @ take (?L - 32) img" by (simp only: l_def)
      have pk: "pk_len ?pk = of_nat ?L" "32 \<le> ?L" "?L < 4294967296"
        using False L(2) by simp_all
      have pkd: "pk_data ?pk = ?h @ take (?L - 32) img" unfolding ota_pack.select_convs by (rule data)
      obtain p' s' where s': "recv_header F ?pk p 0 s = Some (OPRT_OK, of_nat (?L - 32), s')" "up (ota_flash s')"
        "ota_at mem (header_of ver img0) img c 0 UGS_RECV_IMG_DATA p' s'"
        using recv_header_ok [OF hd(3) p(1) up ver ok pk pkd] by blast
      have rest: "drop (?L - (?L - 32)) (pending @ x) = take (?L - 32) img"
      proof -
        define l where "l = ?L"
        have "drop 32 (pending @ x) = take (l - 32) img" unfolding data [folded l_def] using lh by simp
        then show ?thesis using False unfolding l_def by (simp only: diff_diff_cancel not_less)
      qed
      have Ln: "?L - 32 \<le> ?n" "min ?n (?L - 32) = ?L - 32" using x(2) L(1) by simp_all
      have "fed up mem ver img0 img c (K + length x) (drop (?L - (?L - 32)) (pending @ x)) s'"
        unfolding rest fed_def using s'(2,3) L(1) False Ln
        by (intro conjI disjI2 disjI1 exI [of _ "0 :: nat"] exI [of _ p']) simp_all
      then show ?thesis using s'(1) p L hd(1) by (intro exI [of _ "?L - 32"] exI [of _ s']) (simp add: tkl_ota_data_process_def)
    qed
  next
    case im
    let ?w = "length (pending @ x)"
    have dx: "drop K (?h @ img) = drop (r + length pending) img" using lh im(2) by (simp add: add.commute)
    have all: "pending @ x = take ?w (drop r img)"
      unfolding length_append by (rule take_more [OF im(4) x(1) [unfolded dx] im(3)])
    have rw: "r + ?w \<le> ?n" using x(2) im(2) by simp
    have pk: "pk_len ?pk = of_nat ?w" "pk_data ?pk = take ?w (drop r img)"
      unfolding ota_pack.select_convs by (rule refl, rule all)
    obtain p' s' r' rem where s': "recv_image F (Some m1) (Some m2) ?pk p s = Some (OPRT_OK, of_nat rem, s')" "up (ota_flash s')"
      "r' + rem = r + ?w" "rem \<le> ?w"
      "if r + ?w = ?n then r' = ?n \<and> ota_at mem (header_of ver img0) img c r' UGS_FINISH p' s'
       else 512 dvd r' \<and> ota_at mem (header_of ver img0) img c r' UGS_RECV_IMG_DATA p' s'"
      using recv_image_ok [OF im(5) up ok m im(1) rw pk] by blast
    have proc: "tkl_ota_data_process F (Some m1) (Some m2) ?pk 0 s = Some (OPRT_OK, of_nat rem, s')"
      using s'(1) ota_atD(1,6) [OF im(5)] by (simp add: tkl_ota_data_process_def)
    have "drop (?w - rem) (pending @ x) = take (?w - (?w - rem)) (drop (?w - rem + r) img)"
      using all by (metis drop_take drop_drop)
    moreover have "?w - (?w - rem) = rem" "?w - rem + r = r'" using s'(3,4) by simp_all
    ultimately have rest: "drop (?w - rem) (pending @ x) = take rem (drop r' img)" by simp
    have lrest: "length (take rem (drop r' img)) = rem" using s'(3) rw by simp
    have rem32: "rem < 2 ^ 32" using s'(4) rw img(2) by simp
    have KK: "K + length x = 32 + r' + rem" using im(2) s'(3) by simp
    have "fed up mem ver img0 img c (K + length x) (drop (?w - rem) (pending @ x)) s' \<and>
        (K + length x = 32 + ?n \<longrightarrow> finished mem ver img0 img c s')"
    proof (cases "r + ?w = ?n")
      case True
      then have "rem = 0" "finished mem ver img0 img c s'" using s'(3,5) by (auto simp: finished_def)
      then show ?thesis unfolding rest fed_def finished_def using s'(2) KK True s'(5) by simp
    next
      case False
      then have "512 dvd r'" "ota_at mem (header_of ver img0) img c r' UGS_RECV_IMG_DATA p' s'" using s'(5) by simp_all
      then show ?thesis unfolding rest fed_def lrest using s'(2,3) KK rw False
        by (intro conjI disjI2 disjI1 exI [of _ r'] exI [of _ p']) auto
    qed
    then show ?thesis using proc rem32 by blast
  next
    case fin
    have "x = []" using fin(1) x(2) by simp
    then show ?thesis using fin ota_atD(1,6) [OF fin(3)] up
      by (intro exI [of _ "0 :: nat"] exI [of _ s]) (auto simp: tkl_ota_data_process_def fed_def finished_def)
  qed
qed

lemma feed_all:
  assumes "fed up mem ver img0 img c K pending s" and ver: "length ver = 12" and il: "length img0 = length img" and img: "512 \<le> length img" "length img < 664 * 1024"
    and m: "length m1 = 512" "length m2 = 512"
    and "concat cs = take (length (concat cs)) (drop K (header_bytes ver img0 @ img))" "K + length (concat cs) \<le> 32 + length img"
  shows "\<exists>pending' s'. ota_feed F (Some m1) (Some m2) pending cs s = Some (OPRT_OK, pending', s') \<and>
    fed up mem ver img0 img c (K + length (concat cs)) pending' s' \<and>
    (cs \<noteq> [] \<longrightarrow> 32 \<le> K + length (concat (butlast cs)) \<longrightarrow> K + length (concat cs) = 32 + length img \<longrightarrow> finished mem ver img0 img c s')"
  using assms(1,8,9)
proof (induction cs arbitrary: K pending s)
  case (Cons x cs)
  let ?str = "header_bytes ver img0 @ img"
  have cat: "x @ concat cs = take (length x + length (concat cs)) (drop K ?str)" using Cons.prems(2) by simp
  have x: "x = take (length x) (drop K ?str)" and cs: "concat cs = take (length (concat cs)) (drop (K + length x) ?str)"
    using take_split [OF cat] by (simp_all only: drop_drop add.commute)
  obtain rem s1 where s1: "tkl_ota_data_process F (Some m1) (Some m2) \<lparr>pk_data = pending @ x, pk_len = of_nat (length (pending @ x))\<rparr> 0 s =
      Some (OPRT_OK, of_nat rem, s1)" "rem < 2 ^ 32"
    "fed up mem ver img0 img c (K + length x) (drop (length (pending @ x) - rem) (pending @ x)) s1"
    "32 \<le> K \<longrightarrow> K + length x = 32 + length img \<longrightarrow> finished mem ver img0 img c s1"
    using feed_step [OF Cons.prems(1) ver il img m x] Cons.prems(3) by auto
  have rem: "unat (of_nat rem :: u32) = rem" using s1(2) by (intro unat_u32) simp
  obtain pending' s' where s': "ota_feed F (Some m1) (Some m2) (drop (length (pending @ x) - rem) (pending @ x)) cs s1 = Some (OPRT_OK, pending', s')"
    "fed up mem ver img0 img c (K + length x + length (concat cs)) pending' s'"
    "cs \<noteq> [] \<longrightarrow> 32 \<le> K + length x + length (concat (butlast cs)) \<longrightarrow> K + length x + length (concat cs) = 32 + length img \<longrightarrow>
      finished mem ver img0 img c s'"
    using Cons.IH [OF s1(3) cs] Cons.prems(3) by auto
  have "ota_feed F (Some m1) (Some m2) pending (x # cs) s = Some (OPRT_OK, pending', s')"
    using s1(1) s'(1) rem by simp
  moreover have "cs = [] \<Longrightarrow> s' = s1" using s'(1) by simp
  ultimately show ?case using s'(2,3) s1(4) by (cases "cs = []") (auto simp: add.assoc simp del: ota_feed.simps)
qed simp

end

section \<open>Verifying and installing\<close>

lemma so_far_data:
  assumes "i + m \<le> length img" "512 \<le> i"
  shows "map (so_far img c (length img)) [ota_base + i..<ota_base + i + m] = take m (drop i img)"
proof (rule nth_equalityI)
  show "length (map (so_far img c (length img)) [ota_base + i..<ota_base + i + m]) = length (take m (drop i img))"
    using assms(1) by simp
  fix k assume "k < length (map (so_far img c (length img)) [ota_base + i..<ota_base + i + m])"
  then have k: "k < m" by simp
  then have "i + k < pages (length img)" using assms(1) pages_ge [of "length img"] by linarith
  then have "so_far img c (length img) (ota_base + (i + k)) = img ! (i + k)" using k assms by (simp add: so_far_def)
  then show "map (so_far img c (length img)) [ota_base + i..<ota_base + i + m] ! k = take m (drop i img) ! k"
    using k assms(1) by (simp add: add.assoc)
qed

lemma byte_sum_append: "byte_sum (xs @ ys) = byte_sum xs + byte_sum ys"
  by (simp add: byte_sum_def)

lemma byte_sum_split: "byte_sum (take m xs) + byte_sum (drop m xs) = byte_sum xs"
  by (metis append_take_drop_id byte_sum_append)

text \<open>The bytes summed in one round, given what was read.\<close>

lemma first_page:
  assumes m: "512 \<le> m" "m \<le> length img" "m \<le> 4096" "length buf = 4096"
  shows "take m (take 512 img @ drop 512 (map (so_far img c (length img)) [ota_base..<ota_base + m] @ drop m buf)) = take m img"
proof -
  have "[ota_base..<ota_base + m] = [ota_base..<ota_base + 512] @ [ota_base + 512..<ota_base + 512 + (m - 512)]"
    using upt_add_eq_append [of ota_base "ota_base + 512" "m - 512"] m(1) by (simp add: add.assoc)
  then have "drop 512 (map (so_far img c (length img)) [ota_base..<ota_base + m]) = take (m - 512) (drop 512 img)"
    using so_far_data [of 512 "m - 512" img c] m by (simp add: add.assoc)
  then have "take m (take 512 img @ drop 512 (map (so_far img c (length img)) [ota_base..<ota_base + m] @ drop m buf)) =
      take 512 img @ take (m - 512) (drop 512 img)"
    using m by (simp add: min_def)
  then show ?thesis using take_add [of 512 "m - 512" img] m(1) by simp
qed

context flash_service begin

lemma read_into_ok:
  assumes up: "up (ota_flash s)" and n: "a + m \<le> hi" "m \<le> length buf"
  shows "\<exists>f. read_into F (of_nat a) buf (of_nat m) s =
      Some (map (mem (ota_flash s)) [a..<a + m] @ drop m buf, s\<lparr>ota_flash := f\<rparr>) \<and> up f \<and> mem f = mem (ota_flash s)"
proof -
  obtain f where f: "fa_read F (of_nat a) False (of_nat m) (ota_flash s) = Some (OPRT_OK, Some (map (mem (ota_flash s)) [a..<a + m]), f)"
    "up f" "mem f = mem (ota_flash s)" using read_back [OF up n(1)] by blast
  then show ?thesis using n(2) by (intro exI [of _ f]) (simp add: read_into_def memcpy_def)
qed

lemma verify_sum_ok:
  assumes img: "img_ok hdr img" and p: "file_header p = hdr" "ug_start p = UG_START_ADDR"
    and s: "frist_block_databuf s = Some (take 512 img)" "up (ota_flash s)" "mem (ota_flash s) = so_far img c (length img)"
    and b: "length buf = 4096"
  shows "4096 dvd i \<Longrightarrow> i < length img + 4096 \<Longrightarrow>
    \<exists>buf' f. verify_sum F p (of_nat i) acc buf s = Some (acc + byte_sum (drop i img), buf', s\<lparr>ota_flash := f\<rparr>) \<and>
      length buf' = 4096 \<and> up f \<and> mem f = mem (ota_flash s)"
  using s b
proof (induction "length img + 4096 - i" arbitrary: i acc buf s rule: less_induct)
  case less
  note im = img_okD [OF img]
  let ?n = "length img" and ?m = "min 4096 (length img - i)"
  have i32: "i < 4294967296" "?n < 4294967296" using less.prems(2) im(3) by simp_all
  have bin: "bin_len (file_header p) = of_nat ?n" using p(1) im(1) by simp
  have done_iff: "bin_len (file_header p) \<le> of_nat i \<longleftrightarrow> ?n \<le> i" unfolding bin using i32 by (intro of_nat_u32_le)
  show ?case
  proof (cases "?n \<le> i")
    case True
    have "s\<lparr>ota_flash := ota_flash s\<rparr> = s" by (cases s) simp
    then have "verify_sum F p (of_nat i) acc buf s = Some (acc + byte_sum (drop i img), buf, s\<lparr>ota_flash := ota_flash s\<rparr>)"
      using True done_iff by (subst verify_sum.simps) (simp add: byte_sum_def)
    then show ?thesis using less.prems(4,6) by blast
  next
    case False
    have sub: "bin_len (file_header p) - of_nat i = of_nat (?n - i)" unfolding bin using False by (simp add: of_nat_diff)
    have ble: "BUF_SIZE \<le> of_nat (?n - i) \<longleftrightarrow> 4096 \<le> ?n - i"
      using of_nat_u32_le [of 4096 "?n - i"] i32 by (simp add: BUF_SIZE_def)
    have rlen: "(if BUF_SIZE \<le> bin_len (file_header p) - of_nat i then BUF_SIZE else bin_len (file_header p) - of_nat i) = of_nat ?m"
      unfolding sub ble by (simp add: BUF_SIZE_def min_def)
    have m: "unat (of_nat ?m :: u32) = ?m" "0 < ?m" "?m \<le> 4096" "i + ?m \<le> ?n" using False i32 by (auto intro!: unat_u32)
    have addr: "ug_start p + of_nat i = of_nat (ota_base + i)" by (simp add: p(2) UG_START_ADDR_def ota_base_def)
    have lim: "ota_base + i + ?m \<le> hi" "?m \<le> length buf" using m(3,4) im(3) region(2) less.prems(6) by (simp_all add: ota_base_def)
    define d where "d = map (so_far img c ?n) [ota_base + i..<ota_base + i + ?m] @ drop ?m buf"
    obtain f where f: "read_into F (of_nat (ota_base + i)) buf (of_nat ?m) s = Some (d, s\<lparr>ota_flash := f\<rparr>)" "up f"
      "mem f = so_far img c ?n" using read_into_ok [OF less.prems(4) lim] unfolding less.prems(5) d_def by blast
    have ld: "length d = 4096" using lim(2) less.prems(6) by (simp add: d_def)
    define b1 where "b1 = (if i = 0 then take 512 img @ drop 512 d else d)"
    have i0: "(of_nat i :: u32) = 0 \<longleftrightarrow> i = 0" using of_nat_u32_eq [of i 0] i32 by simp
    have put: "(if (of_nat i :: u32) = 0 then put_first (s\<lparr>ota_flash := f\<rparr>) d else Some d) = Some b1" "length b1 = 4096"
      using ld less.prems(3) im(2) unfolding i0 b1_def by (simp_all add: put_first_def RT_IMG_WR_UNIT_def memcpy_def)
    have tk: "take ?m b1 = take ?m (drop i img)"
    proof (cases "i = 0")
      case True
      then show ?thesis using first_page [of ?m img buf c] m(3,4) im(2) less.prems(6) unfolding b1_def d_def by simp
    next
      case False
      then have "512 \<le> i" using less.prems(1) by (auto elim!: dvdE)
      then have "map (so_far img c ?n) [ota_base + i..<ota_base + i + ?m] = take ?m (drop i img)"
        using so_far_data [of i ?m img c] m(4) by simp
      then show ?thesis using False m(4) unfolding b1_def d_def by simp
    qed
    have next_i: "of_nat i + BUF_SIZE = of_nat (i + 4096)" "\<not> of_nat i + BUF_SIZE < of_nat i"
      using of_nat_u32_less [of "i + 4096" i] less.prems(2) im(3) by (simp_all add: BUF_SIZE_def)
    let ?s = "s\<lparr>ota_flash := f\<rparr>"
    have IH: "\<exists>buf' f'. verify_sum F p (of_nat (i + 4096)) (acc + byte_sum (take ?m b1)) b1 ?s =
        Some (acc + byte_sum (take ?m b1) + byte_sum (drop (i + 4096) img), buf', ?s\<lparr>ota_flash := f'\<rparr>) \<and>
        length buf' = 4096 \<and> up f' \<and> mem f' = mem (ota_flash ?s)"
      using less.prems(1,3) False f(2,3) put(2) by (intro less.hyps) simp_all
    have total: "acc + byte_sum (take ?m b1) + byte_sum (drop (i + 4096) img) = acc + byte_sum (drop i img)"
    proof -
      have "take ?m (drop i img) = take 4096 (drop i img)" by (simp add: min_def)
      then show ?thesis using byte_sum_split [of 4096 "drop i img"] unfolding tk by (simp add: add.assoc add.commute)
    qed
    have step: "verify_sum F p (of_nat i) acc buf s = verify_sum F p (of_nat (i + 4096)) (acc + byte_sum (take ?m b1)) b1 ?s"
      using False f(1) put m(3) next_i(2)
      by (subst verify_sum.simps) (simp only: done_iff rlen addr Let_def if_False bind.simps prod.case m(1) next_i(1) if_True)
    show ?thesis unfolding step using IH unfolding total using f(3) less.prems(5) by auto
  qed
qed

end

lemma installed_end:
  assumes "512 \<le> length img"
  shows "nor_program (\<lambda>_. False) ota_base
      (take 512 img @ drop 512 (map (so_far img c (length img)) [ota_base..<ota_base + 4096]))
      (nor_erase (\<lambda>_. False) ota_base 4096 (so_far img c (length img))) = installed img c"
proof
  fix i
  let ?n = "length img" and ?d = "map (so_far img c (length img)) [ota_base..<ota_base + 4096]"
  have "pages 1 \<le> pages ?n" by (rule pages_mono) (use assms in linarith)
  then have pg: "4096 \<le> pages ?n" by (simp add: pages_def)
  have l: "length (take 512 img @ drop 512 ?d) = 4096" using assms by simp
  show "nor_program (\<lambda>_. False) ota_base (take 512 img @ drop 512 ?d) (nor_erase (\<lambda>_. False) ota_base 4096 (so_far img c ?n)) i =
    installed img c i"
  proof (cases "ota_base \<le> i \<and> i < ota_base + 4096")
    case True
    then obtain j where j: "i = ota_base + j" "j < 4096" using le_Suc_ex by fastforce
    have "(take 512 img @ drop 512 ?d) ! j = (if j < ?n then img ! j else 0xFF)"
    proof (cases "j < 512")
      case False
      then have "(take 512 img @ drop 512 ?d) ! j = ?d ! j" using assms j(2) by (simp add: nth_append)
      also have "\<dots> = so_far img c ?n (ota_base + j)" using j(2) by simp
      finally show ?thesis using False pg j(2) by (simp add: so_far_def)
    qed (use assms in \<open>simp add: nth_append\<close>)
    then show ?thesis using j pg unfolding nor_program_def nor_erase_def l installed_def by simp
  next
    case False
    then have "nor_program (\<lambda>_. False) ota_base (take 512 img @ drop 512 ?d) (nor_erase (\<lambda>_. False) ota_base 4096 (so_far img c ?n)) i =
        so_far img c ?n i"
      unfolding nor_program_def nor_erase_def l by auto
    then show ?thesis using False unfolding so_far_def installed_def by auto
  qed
qed

lemma fed_finished:
  assumes "fed up mem ver img0 img c K pending s" "ota_at mem hdr img c r UGS_FINISH p s"
  shows "pending = []"
proof -
  have "ug_proc s = Some p" "stat p = UGS_FINISH" using ota_atD(1,6) [OF assms(2)] by simp_all
  moreover have "ug_proc s = Some q \<and> stat q = st" if "ota_at mem hdr img c r st q s" for hdr r st q
    using ota_atD(1,6) [OF that] by simp
  ultimately show ?thesis using assms(1) unfolding fed_def ota_ready_def by fastforce
qed

context flash_service begin

lemma end_notify_ok:
  assumes fin: "finished mem ver img0 img c s" and up: "up (ota_flash s)" and il: "length img0 = length img" and img: "512 \<le> length img" "length img < 664 * 1024"
    and tmp: "length tmp = 4096" and eq: "byte_sum img = byte_sum img0"
  shows "\<exists>t. tkl_ota_end_notify F (Some tmp) reset s = Some (OPRT_OK, t) \<and> up (ota_flash t) \<and>
    mem (ota_flash t) = installed img c \<and> ug_proc t = None \<and> frist_block_databuf t = None \<and>
    resets t = resets s + (if reset then 1 else 0)"
proof -
  note ok = img_ok_header [OF il img, of ver]
  obtain p where at: "ota_at mem (header_of ver img0) img c (length img) UGS_FINISH p s" using fin by (auto simp: finished_def)
  note a = ota_atD [OF at]
  have pos: "0 < length img" using img(1) by linarith
  have i0: "4096 dvd (0 :: nat)" "0 < length img + 4096" by simp_all
  obtain buf1 f1 where 1: "verify_sum F p 0 0 tmp s = Some (byte_sum img, buf1, s\<lparr>ota_flash := f1\<rparr>)"
    "length buf1 = 4096" "up f1" "mem f1 = so_far img c (length img)"
    using verify_sum_ok [OF ok a(2,3) a(8) [OF pos] up a(10) tmp i0, of 0] a(10) by auto
  let ?s1 = "s\<lparr>ota_flash := f1\<rparr>"
  have bsum: "bin_sum (file_header p) = byte_sum img" using a(2) eq by (simp add: header_of_def)
  have base: "ug_start p = of_nat ota_base" "BUF_SIZE = of_nat 4096" "512 = unat RT_IMG_WR_UNIT"
    using a(3) by (simp_all add: UG_START_ADDR_def ota_base_def BUF_SIZE_def RT_IMG_WR_UNIT_def)
  have lim: "ota_base + 4096 \<le> hi" "4096 \<le> length buf1" "lo \<le> ota_base" "ota_base < hi"
    using region 1(2) by (simp_all add: ota_base_def)
  have up1: "up (ota_flash ?s1)" using 1(3) by simp
  define d where "d = map (so_far img c (length img)) [ota_base..<ota_base + 4096]"
  obtain f2 where 2: "read_into F (of_nat ota_base) buf1 (of_nat 4096) ?s1 = Some (d, s\<lparr>ota_flash := f2\<rparr>)" "up f2"
    "mem f2 = so_far img c (length img)"
    using read_into_ok [OF up1 lim(1,2)] 1(2,4) unfolding d_def by auto
  obtain f3 where 3: "fa_set_protect F False f2 = Some (OPRT_OK, f3)" "up f3" "mem f3 = mem f2" using set_protect [OF 2(2)] by blast
  have er: "4096 dvd ota_base" "(0 :: nat) < 4096" "ota_base + pages 4096 \<le> hi" using lim(1) by (simp_all add: ota_base_def)
  obtain f4 where 4: "fa_erase F (of_nat ota_base) (of_nat 4096) f3 = Some (OPRT_OK, f4)" "up f4"
    "mem f4 = nor_erase (\<lambda>_. False) ota_base (pages 4096) (mem f3)" using erase [OF 3(2) er(1) lim(3) er(2,3)] by blast
  obtain f5 where 5: "fa_set_protect F True f4 = Some (OPRT_OK, f5)" "up f5" "mem f5 = mem f4" using set_protect [OF 4(2)] by blast
  define b where "b = take 512 img @ drop 512 d"
  have ld: "length d = 4096" by (simp add: d_def)
  have put: "put_first (s\<lparr>ota_flash := f2\<rparr>) d = Some b"
    using a(8) [OF pos] img(1) ld by (simp add: put_first_def memcpy_def b_def RT_IMG_WR_UNIT_def)
  have lb: "4096 \<le> length b" "take 4096 b = b" using img(1) ld by (simp_all add: b_def)
  obtain f6 where 6: "guarded_write F (of_nat ota_base) b (of_nat 4096) f5 = Some (False, f6)" "up f6"
    "mem f6 = nor_program (\<lambda>_. False) ota_base b (mem f5)"
    using guarded_write_ok [OF 5(2) lim(3,4,1) lb(1)] unfolding lb(2) by blast
  have "mem f6 = installed img c"
    using 6(3) installed_end [OF img(1), of c] unfolding 5(3) 4(3) 3(3) 2(3) b_def d_def pages_page by simp
  then show ?thesis
    using 6(1,2) put 5(1) 4(1) 3(1) 2(1) 1(1) a(1) bsum base(1,2)
    by (simp add: tkl_ota_end_notify_def)
qed

lemma end_notify_reject:
  assumes fin: "finished mem ver img0 img c s" and up: "up (ota_flash s)" and il: "length img0 = length img"
    and img: "512 \<le> length img" "length img < 664 * 1024"
    and tmp: "length tmp = 4096" and ne: "byte_sum img \<noteq> byte_sum img0"
  shows "\<exists>t. tkl_ota_end_notify F (Some tmp) reset s = Some (OPRT_OS_ADAPTER_OTA_END_INFORM_FAILED, t) \<and> up (ota_flash t) \<and>
    mem (ota_flash t) = so_far img c (length img) \<and> ug_proc t = None \<and> frist_block_databuf t = None \<and> resets t = resets s"
proof -
  note ok = img_ok_header [OF il img, of ver]
  obtain p where at: "ota_at mem (header_of ver img0) img c (length img) UGS_FINISH p s" using fin by (auto simp: finished_def)
  note a = ota_atD [OF at]
  have pos: "0 < length img" using img(1) by linarith
  have i0: "4096 dvd (0 :: nat)" "0 < length img + 4096" by simp_all
  obtain buf1 f1 where 1: "verify_sum F p 0 0 tmp s = Some (byte_sum img, buf1, s\<lparr>ota_flash := f1\<rparr>)"
    "length buf1 = 4096" "up f1" "mem f1 = so_far img c (length img)"
    using verify_sum_ok [OF ok a(2,3) a(8) [OF pos] up a(10) tmp i0, of 0] a(10) by auto
  have "byte_sum img \<noteq> bin_sum (file_header p)" using a(2) ne by (simp add: header_of_def)
  then show ?thesis using 1 a(1) by (simp add: tkl_ota_end_notify_def)
qed

text \<open>The whole update, from the start notification to the end.\<close>

lemma session_ok:
  assumes up: "up (ota_flash s)" "\<And>b. frist_block_databuf s = Some b \<Longrightarrow> length b = 512"
    and ver: "length ver = 12" and il: "length img0 = length img" and img: "512 \<le> length img" "length img < 664 * 1024"
    and m: "length m1 = 512" "length m2 = 512" "length tmp = 4096"
    and cs: "concat cs = header_bytes ver img0 @ img" "32 \<le> length (concat (butlast cs))" and size: "size0 \<noteq> 0"
  shows "\<exists>s1 s2 t. tkl_ota_start_notify True size0 s = (OPRT_OK, s1) \<and>
    ota_feed F (Some m1) (Some m2) [] cs s1 = Some (OPRT_OK, [], s2) \<and>
    mem (ota_flash s2) = so_far img (mem (ota_flash s)) (length img) \<and>
    tkl_ota_end_notify F (Some tmp) reset s2 =
      Some (if byte_sum img = byte_sum img0 then OPRT_OK else OPRT_OS_ADAPTER_OTA_END_INFORM_FAILED, t) \<and>
    mem (ota_flash t) = (if byte_sum img = byte_sum img0 then installed img (mem (ota_flash s)) else mem (ota_flash s2)) \<and>
    up (ota_flash t) \<and> ug_proc t = None"
proof -
  let ?c = "mem (ota_flash s)" and ?s1 = "s\<lparr>ug_proc := Some zero_proc, first_block := True\<rparr>"
  note lh = length_header [OF ver, of img0]
  have "ota_ready mem ?c ?s1" using up(2) by (simp add: ota_ready_def zero_proc_def)
  then have fed: "fed up mem ver img0 img ?c 0 [] ?s1" using up(1) by (simp add: fed_def)
  have len: "length (concat cs) = 32 + length img" using cs(1) lh by simp
  have c1: "concat cs = take (length (concat cs)) (drop 0 (header_bytes ver img0 @ img))" "0 + length (concat cs) \<le> 32 + length img"
    unfolding len unfolding cs(1) using lh by simp_all
  have ne: "cs \<noteq> []" using cs(1) lh by auto
  obtain pending s2 where s2: "ota_feed F (Some m1) (Some m2) [] cs ?s1 = Some (OPRT_OK, pending, s2)"
    "fed up mem ver img0 img ?c (0 + length (concat cs)) pending s2" "finished mem ver img0 img ?c s2"
    using feed_all [OF fed ver il img m(1,2) c1] ne cs(2) len by auto
  obtain p where p: "ota_at mem (header_of ver img0) img ?c (length img) UGS_FINISH p s2" using s2(3) by (auto simp: finished_def)
  have pend: "pending = []" by (rule fed_finished [OF s2(2) p])
  have up2: "up (ota_flash s2)" using s2(2) by (simp add: fed_def)
  obtain t where t: "tkl_ota_end_notify F (Some tmp) reset s2 =
      Some (if byte_sum img = byte_sum img0 then OPRT_OK else OPRT_OS_ADAPTER_OTA_END_INFORM_FAILED, t)" "up (ota_flash t)"
    "mem (ota_flash t) = (if byte_sum img = byte_sum img0 then installed img ?c else so_far img ?c (length img))" "ug_proc t = None"
    using end_notify_ok [OF s2(3) up2 il img m(3), of reset] end_notify_reject [OF s2(3) up2 il img m(3), of reset]
    by (cases "byte_sum img = byte_sum img0") auto
  have "tkl_ota_start_notify True size0 s = (OPRT_OK, ?s1)" using size by (simp add: tkl_ota_start_notify_def)
  then show ?thesis using s2(1) ota_atD(10) [OF p] t unfolding pend by auto
qed

end

section \<open>The service on the board\<close>

text \<open>
  The half protection leaves the update partition writable, the flash reaches beyond it, and the
  protection is one of the two that the operations set.
\<close>

definition half_open :: "'h chip \<Rightarrow> flash_config \<Rightarrow> bool" where
  "half_open C cfg \<longleftrightarrow> 0x1D0000 \<le> flash_size cfg \<and>
     (\<forall>sr a. prot_bits cfg sr = protect_half cfg \<longrightarrow> 0x12A000 \<le> a \<longrightarrow> a < 0x1D0000 \<longrightarrow> \<not> ch_lk C sr a)"

definition ota_up :: "'h chip \<Rightarrow> flash_config \<Rightarrow> nat \<Rightarrow> 'h flash_drv board \<Rightarrow> bool" where
  "ota_up C cfg k b \<longleftrightarrow> board_up C cfg k False b \<and> half_open C cfg \<and>
     prot_bits cfg (bsr C b) \<in> {protect_all cfg, protect_half cfg}"

lemma half_sr_bits:
  assumes "cfg_ok cfg" "prot_bits cfg sr \<in> {protect_all cfg, protect_half cfg}"
  shows "prot_bits cfg (half_sr cfg sr) = protect_half cfg"
  using assms(2) half_sr_prot [OF assms(1)] by auto

lemma open_region:
  assumes "half_open C cfg" "prot_bits cfg sr = protect_half cfg" "0x12A000 \<le> a" "a + n \<le> 0x1D0000"
  shows "nor_erase (ch_lk C sr) a n c = nor_erase (\<lambda>_. False) a n c"
    "length bs \<le> n \<Longrightarrow> nor_program (ch_lk C sr) a bs c = nor_program (\<lambda>_. False) a bs c"
proof -
  have "\<not> ch_lk C sr i" if "a \<le> i" "i < a + n" for i
    using assms that unfolding half_open_def by (metis le_trans less_le_trans)
  then show "nor_erase (ch_lk C sr) a n c = nor_erase (\<lambda>_. False) a n c"
    "length bs \<le> n \<Longrightarrow> nor_program (ch_lk C sr) a bs c = nor_program (\<lambda>_. False) a bs c"
    unfolding nor_erase_def nor_program_def by fastforce+
qed

lemma ota_upD:
  assumes "ota_up C cfg k b"
  shows "board_up C cfg k False b" "half_open C cfg" "prot_bits cfg (bsr C b) \<in> {protect_all cfg, protect_half cfg}"
    "cfg_ok cfg" "0x1D0000 \<le> unat (flash_size cfg)" "unat (flash_size cfg) \<le> 16777216"
    "prot_bits cfg (half_sr cfg (bsr C b)) = protect_half cfg"
proof -
  show "board_up C cfg k False b" "half_open C cfg" "prot_bits cfg (bsr C b) \<in> {protect_all cfg, protect_half cfg}"
    using assms by (simp_all add: ota_up_def)
  then show c: "cfg_ok cfg" "0x1D0000 \<le> unat (flash_size cfg)"
    by (simp_all add: board_up_def half_open_def word_le_nat_alt)
  then show "unat (flash_size cfg) \<le> 16777216" by (simp add: cfg_ok_def)
  show "prot_bits cfg (half_sr cfg (bsr C b)) = protect_half cfg"
    using half_sr_bits [OF c(1)] assms by (simp add: ota_up_def)
qed

interpretation ota: flash_service tkl_flash_api "bcells C" "ota_up C cfg k" "0x12A000" "0x1D0000" for C cfg k
proof
  fix s :: "'a flash_drv board" and e
  assume up: "ota_up C cfg k s"
  note u = ota_upD [OF up]
  show "\<exists>t. fa_set_protect tkl_flash_api e s = Some (OPRT_OK, t) \<and> ota_up C cfg k t \<and> bcells C t = bcells C s"
    using tkl_set_protect_ok [OF u(1), of e] u(2) prot_bits_set [OF u(4)] unfolding ota_up_def
    by (auto simp: tkl_flash_api_def prot_values)
next
  fix s :: "'a flash_drv board" and a n :: nat
  assume up: "ota_up C cfg k s" and a: "4096 dvd a" "0x12A000 \<le> a" "0 < n" "a + pages n \<le> 0x1D0000"
  note u = ota_upD [OF up]
  let ?e = "(a + n - 1) div 4096"
  have last: "4096 * (?e + 1) = a + pages n" by (rule pages_last [OF a(3,1)])
  have lim: "a < 16777216" "a + n - 1 < 16777216" using a(4) pages_ge [of n] by linarith+
  have "(of_nat a + of_nat n - 1 :: u32) = of_nat (a + n - 1)" using a(3) by (simp add: of_nat_diff)
  then have sec: "unat (ucast ((of_nat a :: u32) div PARTITION_SIZE) :: u16) = a div 4096"
    "unat (ucast ((of_nat a + of_nat n - 1 :: u32) div PARTITION_SIZE) :: u16) = ?e"
    using sector_number [OF lim(1)] sector_number [OF lim(2)] by simp_all
  have "a div 4096 \<le> ?e" using a(3) by (intro div_le_mono) simp
  then have "a div 4096 + (?e + 1 - a div 4096) = ?e + 1" by simp
  then have lim2: "4096 * (a div 4096 + (?e + 1 - a div 4096)) \<le> unat (flash_size cfg)" using last a(4) u(5) by simp
  have rng: "4096 * (a div 4096) = a" "4096 * (?e + 1 - a div 4096) = pages n"
    using a(1) last by (simp_all add: diff_mult_distrib2)
  obtain t where t: "tkl_flash_erase (of_nat a) (of_nat n) s = Some (OPRT_OK, t)" "board_up C cfg k False t"
    "bcells C t = nor_erase (ch_lk C (half_sr cfg (bsr C s))) a (pages n) (bcells C s)"
    "bsr C t = end_sr cfg (half_sr cfg (bsr C s))"
    using tkl_erase_ok [OF u(1) sec lim2] unfolding rng by blast
  then show "\<exists>t. fa_erase tkl_flash_api (of_nat a) (of_nat n) s = Some (OPRT_OK, t) \<and> ota_up C cfg k t \<and>
      bcells C t = nor_erase (\<lambda>_. False) a (pages n) (bcells C s)"
    using open_region(1) [OF u(2,7) a(2,4)] u(2,7) end_sr_bits [OF u(4)] by (simp add: tkl_flash_api_def ota_up_def)
next
  fix s :: "'a flash_drv board" and a n :: nat and buf :: "u8 list"
  assume up: "ota_up C cfg k s" and a: "0x12A000 \<le> a" "a < 0x1D0000" "a + n \<le> 0x1D0000" "n \<le> length buf"
  note u = ota_upD [OF up]
  have lim: "a + n \<le> unat (flash_size cfg)" "a < unat (flash_size cfg)" using a(2,3) u(5) by simp_all
  have "length (take n buf) \<le> n" by simp
  from open_region(2) [OF u(2,7) a(1,3) this] show "\<exists>t. fa_write tkl_flash_api (of_nat a) (Some buf) (of_nat n) s = Some (OPRT_OK, t) \<and>
      ota_up C cfg k t \<and> bcells C t = nor_program (\<lambda>_. False) a (take n buf) (bcells C s)"
    using tkl_write_ok [OF u(1) lim a(4)] u(2,7) by (auto simp: tkl_flash_api_def ota_up_def)
next
  fix s :: "'a flash_drv board" and a n :: nat
  assume up: "ota_up C cfg k s" and a: "a + n \<le> 0x1D0000"
  note u = ota_upD [OF up]
  have "a + n \<le> 16777216" using a by simp
  from tkl_read_ok [OF u(1) this] show "\<exists>t. fa_read tkl_flash_api (of_nat a) False (of_nat n) s =
      Some (OPRT_OK, Some (map (bcells C s) [a..<a + n]), t) \<and> ota_up C cfg k t \<and> bcells C t = bcells C s"
    using u(2,3) by (auto simp: tkl_flash_api_def ota_up_def)
qed simp_all

context flash_service begin

text \<open>Ending an update of which no header has been accepted.\<close>

lemma end_without_image:
  assumes up: "up (ota_flash s)" and s: "frist_block_databuf s = None" and tmp: "length tmp = 4096"
  shows "\<exists>s1. tkl_ota_start_notify True 1 s = (OPRT_OK, s1) \<and> tkl_ota_end_notify F (Some tmp) reset s1 = None"
proof -
  let ?s1 = "s\<lparr>ug_proc := Some zero_proc, first_block := True\<rparr>"
  have v: "verify_sum F zero_proc 0 0 tmp ?s1 = Some (0, tmp, ?s1)"
    by (subst verify_sum.simps) (simp add: zero_proc_def zero_hdr_def)
  have lim: "0 + 4096 \<le> hi" "4096 \<le> length tmp" and up1: "up (ota_flash ?s1)" using region(2) tmp up by simp_all
  obtain d f where "read_into F (of_nat 0) tmp (of_nat 4096) ?s1 = Some (d, ?s1\<lparr>ota_flash := f\<rparr>)"
    using read_into_ok [OF up1 lim] by blast
  then have r: "read_into F 0 tmp BUF_SIZE ?s1 = Some (d, ?s1\<lparr>ota_flash := f\<rparr>)" by (simp add: BUF_SIZE_def)
  have "put_first (?s1\<lparr>ota_flash := f\<rparr>) d = None" using s by (simp add: put_first_def)
  then have "tkl_ota_end_notify F (Some tmp) reset ?s1 = None"
    using v r by (auto simp: tkl_ota_end_notify_def zero_proc_def zero_hdr_def split: Option.bind_splits)
  then show ?thesis by (simp add: tkl_ota_start_notify_def)
qed

end

section \<open>Properties\<close>

text \<open>
  C4. A whole firmware update on the board. Given a flash whose half protection leaves the update
  partition writable, an image of 512 bytes to just under 664 KiB with its package header, delivered in packets
  cut anywhere (only the last packet must not also complete the header), the caller putting the bytes
  not taken in front of the next packet: every packet is accepted and at the end nothing is left over.
  Until the end notification the partition holds the image except its first 512 bytes,
  which read \<^verbatim>\<open>0xFF\<close>. The notification then compares checksums. If the bytes
  received sum to what the header says, it returns \<^verbatim>\<open>OPRT_OK\<close>, and the partition holds the image, the rest of
  its last sector is blank and everything else in the flash is as before the update. If not, it returns an
  error and leaves the flash as it was, so without a first block. The header may be that of another
  image \<open>img0\<close> of the same length, so the second case does occur.
\<close>

theorem ota_session:
  assumes "ota_up C cfg k (ota_flash s)" "\<And>b. frist_block_databuf s = Some b \<Longrightarrow> length b = 512"
    and "length ver = 12" "length img0 = length img" "512 \<le> length img" "length img < 664 * 1024"
    and "length m1 = 512" "length m2 = 512" "length tmp = 4096"
    and "concat cs = header_bytes ver img0 @ img" "32 \<le> length (concat (butlast cs))" "size0 \<noteq> 0"
  shows "\<exists>s1 s2 t. tkl_ota_start_notify True size0 s = (OPRT_OK, s1) \<and>
    ota_feed tkl_flash_api (Some m1) (Some m2) [] cs s1 = Some (OPRT_OK, [], s2) \<and>
    bcells C (ota_flash s2) = so_far img (bcells C (ota_flash s)) (length img) \<and>
    tkl_ota_end_notify tkl_flash_api (Some tmp) reset s2 =
      Some (if byte_sum img = byte_sum img0 then OPRT_OK else OPRT_OS_ADAPTER_OTA_END_INFORM_FAILED, t) \<and>
    bcells C (ota_flash t) = (if byte_sum img = byte_sum img0 then installed img (bcells C (ota_flash s)) else bcells C (ota_flash s2)) \<and>
    ota_up C cfg k (ota_flash t) \<and> ug_proc t = None"
  by (rule ota.session_ok [OF assms])

definition sim_ota :: "flash_ob flash_drv board ota" where
  "sim_ota = \<lparr>ug_proc = None, frist_block_databuf = None, first_block = True, ota_flash = sim_board, resets = 0\<rparr>"

lemma sim_half_open: "half_open sim_chip sim_cfg"
  unfolding half_open_def by (simp add: sim_cfg_simps sim_chip_def sim_lk_def)

lemma sim_ota_up: "ota_up sim_chip sim_cfg 0 sim_board"
  using sim_board_up sim_half_open sim_dev_view(2) by (simp add: ota_up_def bsr_def sim_board_def)

definition sim_package :: "u8 list" where
  "sim_package = header_bytes (replicate 12 0x31) (replicate 600 7) @ replicate 600 7"

theorem ota_session_witness:
  "\<exists>s1 s2 t. tkl_ota_start_notify True 600 sim_ota = (OPRT_OK, s1) \<and>
    ota_feed tkl_flash_api (Some (replicate 512 0)) (Some (replicate 512 0)) [] [take 100 sim_package, drop 100 sim_package] s1 =
      Some (OPRT_OK, [], s2) \<and>
    bcells sim_chip (ota_flash s2) = so_far (replicate 600 7) (bcells sim_chip (ota_flash sim_ota)) (length (replicate 600 (7 :: u8))) \<and>
    tkl_ota_end_notify tkl_flash_api (Some (replicate 4096 0)) False s2 =
      Some (if byte_sum (replicate 600 7) = byte_sum (replicate 600 7) then OPRT_OK else OPRT_OS_ADAPTER_OTA_END_INFORM_FAILED, t) \<and>
    bcells sim_chip (ota_flash t) = (if byte_sum (replicate 600 7) = byte_sum (replicate 600 7)
      then installed (replicate 600 7) (bcells sim_chip (ota_flash sim_ota)) else bcells sim_chip (ota_flash s2)) \<and>
    ota_up sim_chip sim_cfg 0 (ota_flash t) \<and> ug_proc t = None"
proof (rule ota_session)
  show "concat [take 100 sim_package, drop 100 sim_package] = header_bytes (replicate 12 0x31) (replicate 600 7) @ replicate 600 7"
    unfolding concat.simps append_Nil2 append_take_drop_id by (rule sim_package_def)
  have "32 \<le> length sim_package" by (simp add: sim_package_def)
  then show "32 \<le> length (concat (butlast [take 100 sim_package, drop 100 sim_package]))" by simp
qed (use sim_ota_up in \<open>simp_all add: sim_ota_def\<close>)

text \<open>
  Ending an update right after its start, before any header has been accepted, is not refused: the
  checksum of nothing is the 0 of the empty header, so the first sector of the flash (the start address is still 0) is read, the
  erasure of the sector is started, and the first block is then copied from a \<^verbatim>\<open>NULL\<close> pointer, which the model shows as no result.
\<close>

theorem ota_end_without_image:
  assumes "ota_up C cfg k (ota_flash s)" "frist_block_databuf s = None" "length tmp = 4096"
  shows "\<exists>s1. tkl_ota_start_notify True 1 s = (OPRT_OK, s1) \<and> tkl_ota_end_notify tkl_flash_api (Some tmp) reset s1 = None"
  by (rule ota.end_without_image [OF assms])

theorem ota_end_without_image_witness:
  "\<exists>s1. tkl_ota_start_notify True 1 sim_ota = (OPRT_OK, s1) \<and>
    tkl_ota_end_notify tkl_flash_api (Some (replicate 4096 0)) True s1 = None"
  by (rule ota_end_without_image) (use sim_ota_up in \<open>simp_all add: sim_ota_def\<close>)

end
