(* ===== verification/Kfifo.thy ===== *)
theory Kfifo
  imports Fifo
begin

text \<open>
  The byte FIFO of the drivers, \<^verbatim>\<open>common/fifo.h\<close>: a buffer of a power of two bytes whose two counters run freely
  modulo \<open>2 ^ 32\<close>; the position in the buffer is a counter masked by the size. Interrupts are off during the
  operations, so they are steps.
\<close>

section \<open>Data and operations\<close>

record kfifo =
  kf_in :: u32
  kf_out :: u32
  kf_mask :: u32
  kf_size :: u32
  kf_buffer :: "u8 list"

text \<open>
  \<open>malloc_ok\<close> says whether there is memory for the structure. \<open>None\<close> is the endless loop of the failed assertion,
  \<open>Some None\<close> the null pointer.
\<close>

definition kfifo_init :: "bool \<Rightarrow> u8 list \<Rightarrow> u32 \<Rightarrow> kfifo option option" where
  "kfifo_init malloc_ok buffer sz =
     (if sz AND (sz - 1) \<noteq> 0 then None
      else if \<not> malloc_ok then Some None
      else Some (Some \<lparr>kf_in = 0, kf_out = 0, kf_mask = sz - 1, kf_size = sz, kf_buffer = buffer\<rparr>))"

text \<open>\<open>block\<close> is what allocating the buffer returns.\<close>

definition kfifo_alloc :: "u8 list option \<Rightarrow> bool \<Rightarrow> u32 \<Rightarrow> kfifo option option" where
  "kfifo_alloc block malloc_ok sz =
     (case block of None \<Rightarrow> Some None | Some buffer \<Rightarrow> kfifo_init malloc_ok buffer sz)"

definition kfifo_put :: "u8 list \<Rightarrow> u32 \<Rightarrow> kfifo \<Rightarrow> (u32 \<times> kfifo) option" where
  "kfifo_put buffer len f =
     do {
       let len = min len (kf_size f - kf_in f + kf_out f);
       let l = min len (kf_size f - (kf_in f AND (kf_size f - 1)));
       b \<leftarrow> memcpy (kf_buffer f) (unat (kf_in f AND (kf_size f - 1))) buffer 0 (unat l);
       b \<leftarrow> memcpy b 0 buffer (unat l) (unat (len - l));
       Some (len, f\<lparr>kf_in := kf_in f + len, kf_buffer := b\<rparr>)
     }"

text \<open>Reading copies into the caller's buffer.\<close>

definition kfifo_get :: "u8 list \<Rightarrow> u32 \<Rightarrow> kfifo \<Rightarrow> (u32 \<times> u8 list \<times> kfifo) option" where
  "kfifo_get buffer len f =
     do {
       let len = min len (kf_in f - kf_out f);
       let l = min len (kf_size f - (kf_out f AND (kf_size f - 1)));
       b \<leftarrow> memcpy buffer 0 (kf_buffer f) (unat (kf_out f AND (kf_size f - 1))) (unat l);
       b \<leftarrow> memcpy b (unat l) (kf_buffer f) 0 (unat (len - l));
       Some (len, b, f\<lparr>kf_out := kf_out f + len\<rparr>)
     }"

definition kfifo_data_size :: "kfifo \<Rightarrow> u32" where
  "kfifo_data_size f = kf_in f - kf_out f"

definition kfifo_unused :: "kfifo \<Rightarrow> u32" where
  "kfifo_unused f = (kf_mask f + 1) - (kf_in f - kf_out f)"

definition kfifo_copy_out :: "kfifo \<Rightarrow> u8 list \<Rightarrow> u32 \<Rightarrow> u32 \<Rightarrow> u8 list option" where
  "kfifo_copy_out f dst len off =
     do {
       let sz = kf_mask f + 1;
       let off = off AND kf_mask f;
       let l = min len (sz - off);
       d \<leftarrow> memcpy dst 0 (kf_buffer f) (unat off) (unat l);
       memcpy d (unat l) (kf_buffer f) 0 (unat (len - l))
     }"

definition kfifo_out_peek :: "kfifo \<Rightarrow> u8 list \<Rightarrow> u32 \<Rightarrow> (u32 \<times> u8 list) option" where
  "kfifo_out_peek f buffer len =
     do {
       let l = kf_in f - kf_out f;
       let len = (if len > l then l else len);
       b \<leftarrow> kfifo_copy_out f buffer len (kf_out f);
       Some (len, b)
     }"

section \<open>Well-formedness and contents\<close>

definition kf_used :: "kfifo \<Rightarrow> nat" where "kf_used f = unat (kf_in f - kf_out f)"
definition kf_cap :: "kfifo \<Rightarrow> nat" where "kf_cap f = unat (kf_size f)"

definition kfifo_ok :: "kfifo \<Rightarrow> bool" where
  "kfifo_ok f \<longleftrightarrow> (\<exists>k < 32. kf_size f = 2 ^ k) \<and> kf_mask f = kf_size f - 1 \<and> length (kf_buffer f) = kf_cap f \<and> kf_used f \<le> kf_cap f"

text \<open>The byte \<open>n\<close> places behind the reading counter.\<close>

definition kf_at :: "kfifo \<Rightarrow> nat \<Rightarrow> u8" where
  "kf_at f n = kf_buffer f ! ((unat (kf_out f) + n) mod kf_cap f)"

definition kf_contents :: "kfifo \<Rightarrow> u8 list" where
  "kf_contents f = map (kf_at f) [0..<kf_used f]"

lemma length_kf_contents [simp]: "length (kf_contents f) = kf_used f"
  by (simp add: kf_contents_def)

lemma kfifo_okD:
  assumes "kfifo_ok f"
  shows "0 < kf_cap f" "kf_mask f = kf_size f - 1" "length (kf_buffer f) = kf_cap f" "kf_used f \<le> kf_cap f"
    "kf_cap f dvd 4294967296" "unat (x AND (kf_size f - 1)) = unat x mod kf_cap f" "kf_cap f < 4294967296"
proof -
  obtain k where k: "k < 32" "kf_size f = 2 ^ k" using assms by (auto simp: kfifo_ok_def)
  have "(2 :: nat) ^ k < 4294967296" using power_strict_increasing [OF k(1), of "2 :: nat"] by simp
  moreover have "(2 :: u32) ^ k = of_nat (2 ^ k)" by simp
  ultimately have c: "kf_cap f = 2 ^ k" unfolding kf_cap_def k(2) by (simp only: unat_u32)
  show "0 < kf_cap f" "kf_cap f < 4294967296" using power_strict_increasing [OF k(1), of "2 :: nat"] by (simp_all add: c)
  have "(4294967296 :: nat) = 2 ^ k * 2 ^ (32 - k)" using k(1) by (simp add: power_add [symmetric])
  then show "kf_cap f dvd 4294967296" unfolding c by (metis dvd_triv_left)
  have "kf_size f - 1 = mask k" unfolding k(2) by (simp add: mask_eq_decr_exp)
  then have "x AND (kf_size f - 1) = take_bit k x" by (simp add: take_bit_eq_mask)
  then have "unat (x AND (kf_size f - 1)) = take_bit k (unat x)" by (simp only: unsigned_take_bit_eq)
  then show "unat (x AND (kf_size f - 1)) = unat x mod kf_cap f" by (simp only: c take_bit_eq_mod)
  show "kf_mask f = kf_size f - 1" "length (kf_buffer f) = kf_cap f" "kf_used f \<le> kf_cap f"
    using assms by (simp_all add: kfifo_ok_def)
qed

section \<open>Copying around the end of the buffer\<close>

lemma mod_next:
  assumes "i < n" "n \<le> (c :: nat)"
  shows "(w mod c + i) mod c = (if i < c - w mod c then w mod c + i else i - (c - w mod c))"
proof -
  have w: "w mod c < c" using assms by simp
  show ?thesis
  proof (cases "i < c - w mod c")
    case True
    then have "w mod c + i < c" by linarith
    then show ?thesis using True by simp
  next
    case False
    then have "c \<le> w mod c + i" "w mod c + i - c < c" "w mod c + i - c = i - (c - w mod c)" using w assms by linarith+
    then show ?thesis using False le_mod_geq [of c "w mod c + i"] by simp
  qed
qed

lemma wrap_copy_in:
  fixes b d :: "u8 list" and x c n :: nat
  assumes c: "length b = c" "0 < c" "n \<le> c" "n \<le> length d"
  defines "w \<equiv> x mod c"
  shows "\<exists>b1 b2. memcpy b w d 0 (min n (c - w)) = Some b1 \<and> memcpy b1 0 d (min n (c - w)) (n - min n (c - w)) = Some b2 \<and>
    length b2 = c \<and> (\<forall>i < n. b2 ! ((x + i) mod c) = d ! i) \<and>
    (\<forall>j < c. (\<forall>i < n. j \<noteq> (x + i) mod c) \<longrightarrow> b2 ! j = b ! j)"
proof -
  define l where "l = min n (c - w)"
  have w: "w < c" using c by (simp add: w_def)
  have l: "w + l \<le> c" "l \<le> n" "n - l \<le> w" "l \<noteq> n \<Longrightarrow> l = c - w" using c(3) w by (auto simp: l_def min_def)
  define b1 where "b1 = take w b @ take l d @ drop (w + l) b"
  define b2 where "b2 = take (n - l) (drop l d) @ drop (n - l) b1"
  have m1: "memcpy b w d 0 l = Some b1" using l(1,2) c(1,4) by (simp add: memcpy_def b1_def)
  have lb1: "length b1 = c" using l(1,2) c(1,4) by (simp add: b1_def)
  have m2: "memcpy b1 0 d l (n - l) = Some b2" using l w c(4) lb1 by (simp add: memcpy_def b2_def)
  have lb2: "length b2 = c" using length_memcpy [OF m2] lb1 by simp
  have nb1: "b1 ! j = (if w \<le> j \<and> j < w + l then d ! (j - w) else b ! j)" if "j < c" for j
    using that l(1,2) c(1,4) w unfolding b1_def by (auto simp: nth_append)
  have nb2: "b2 ! j = (if j < n - l then d ! (l + j) else b1 ! j)" if "j < c" for j
    using that l(1-3) c(4) lb1 unfolding b2_def by (auto simp: nth_append)
  have pos: "(x + i) mod c = (if i < c - w then w + i else i - (c - w))" if "i < n" for i
    using mod_next [OF that c(3), of x] unfolding w_def [symmetric] by (simp add: w_def mod_add_left_eq)
  have "b2 ! ((x + i) mod c) = d ! i" if i: "i < n" for i
  proof (cases "i < c - w")
    case True
    then have p: "(x + i) mod c = w + i" "w + i < c" "i < l" using pos [OF i] i l(4) by auto
    then have "\<not> w + i < n - l" using l(3) by linarith
    then show ?thesis using nb2 [OF p(2)] nb1 [OF p(2)] p(3) unfolding p(1) by simp
  next
    case False
    then have p: "(x + i) mod c = i - (c - w)" "l = c - w" "i - (c - w) < n - l" "i - (c - w) < c" using pos [OF i] i c(3) by (auto simp: l_def)
    then show ?thesis using nb2 [OF p(4)] False unfolding p(1) by simp
  qed
  moreover have "b2 ! j = b ! j" if j: "j < c" and o: "\<forall>i < n. j \<noteq> (x + i) mod c" for j
  proof -
    have "\<not> j < n - l"
    proof
      assume a: "j < n - l"
      then have "c - w + j < n" using l(4) by (cases "l = n") auto
      then show False using o pos [of "c - w + j"] by auto
    qed
    moreover have "\<not> (w \<le> j \<and> j < w + l)"
    proof
      assume a: "w \<le> j \<and> j < w + l"
      then have "j - w < c - w" "j - w < n" using l(1,2) by auto
      then show False using o pos [of "j - w"] a by auto
    qed
    ultimately show ?thesis using nb1 [OF j] nb2 [OF j] by auto
  qed
  ultimately show ?thesis using m1 m2 lb2 unfolding l_def by blast
qed

lemma wrap_copy_out:
  fixes b d :: "u8 list" and x c n :: nat
  assumes c: "length b = c" "0 < c" "n \<le> c" "n \<le> length d"
  defines "w \<equiv> x mod c"
  shows "\<exists>d1. memcpy d 0 b w (min n (c - w)) = Some d1 \<and>
    memcpy d1 (min n (c - w)) b 0 (n - min n (c - w)) = Some (map (\<lambda>i. b ! ((x + i) mod c)) [0..<n] @ drop n d)"
proof -
  let ?l = "min n (c - w)"
  have w: "w < c" using c by (simp add: w_def)
  have l: "w + ?l \<le> c" "?l \<le> n" "n - ?l \<le> w" using c(3) w by (auto simp: min_def)
  define d1 where "d1 = take ?l (drop w b) @ drop ?l d"
  have m1: "memcpy d 0 b w ?l = Some d1" using l(1,2) c(1,4) by (simp add: memcpy_def d1_def)
  have ld: "length d1 = length d" using l(1,2) c(1,4) by (simp add: d1_def)
  have "memcpy d1 ?l b 0 (n - ?l) = Some (take ?l (drop w b) @ take (n - ?l) b @ drop n d)"
    using l w c(1,4) ld by (simp add: memcpy_def d1_def)
  moreover have "take ?l (drop w b) @ take (n - ?l) b = map (\<lambda>i. b ! ((x + i) mod c)) [0..<n]"
  proof (rule nth_equalityI)
    show len: "length (take ?l (drop w b) @ take (n - ?l) b) = length (map (\<lambda>i. b ! ((x + i) mod c)) [0..<n])"
      using l c(1) w by simp
    fix i assume "i < length (take ?l (drop w b) @ take (n - ?l) b)"
    then have i: "i < n" using len by simp
    have "(x + i) mod c = (if i < c - w then w + i else i - (c - w))"
      using mod_next [OF i c(3), of x] unfolding w_def [symmetric] by (simp add: w_def mod_add_left_eq)
    then show "(take ?l (drop w b) @ take (n - ?l) b) ! i = map (\<lambda>i. b ! ((x + i) mod c)) [0..<n] ! i"
      using i l c(1) w by (auto simp: nth_append min_def)
  qed
  ultimately show ?thesis using m1 by simp
qed

section \<open>The operations on the contents\<close>

lemma counter_mod:
  assumes "kfifo_ok f"
  shows "(unat ((a :: u32) + of_nat n) + i) mod kf_cap f = (unat a + n + i) mod kf_cap f"
proof -
  have "unat (a + of_nat n) = (unat a + n) mod 4294967296"
    by (simp add: unat_word_ariths unat_of_nat mod_add_right_eq)
  then have "unat (a + of_nat n) mod kf_cap f = (unat a + n) mod kf_cap f"
    by (simp only: mod_mod_cancel [OF kfifo_okD(5) [OF assms]])
  then show ?thesis by (rule mod_add_cong) simp
qed

lemma mod_shift_inj:
  assumes "(a + i) mod c = (a + j) mod c" "i < c" "j < (c :: nat)"
  shows "i = j"
proof (rule ccontr)
  assume "i \<noteq> j"
  then consider "i < j" | "j < i" by linarith
  then show False
  proof cases
    case 1
    then have "c dvd j - i" using mod_eq_dvd_iff_nat [of "a + i" "a + j" c] assms(1) by simp
    then show False using 1 assms(3) by (auto dest!: dvd_imp_le)
  next
    case 2
    then have "c dvd i - j" using mod_eq_dvd_iff_nat [of "a + j" "a + i" c] assms(1) by simp
    then show False using 2 assms(2) by (auto dest!: dvd_imp_le)
  qed
qed

lemma kf_in_eq: "kf_in f = kf_out f + of_nat (kf_used f)"
  by (simp add: kf_used_def)

lemma kf_min: "unat (min a (b :: u32)) = min (unat a) (unat b)"
  by (simp add: min_def word_le_nat_alt)

lemma kf_space:
  assumes "kfifo_ok f"
  shows "unat (kf_size f - (x AND (kf_size f - 1))) = kf_cap f - unat x mod kf_cap f"
    and "unat (kf_size f - kf_in f + kf_out f) = kf_cap f - kf_used f"
proof -
  note k = kfifo_okD [OF assms]
  have "x AND (kf_size f - 1) \<le> kf_size f" using k(1,6) unfolding word_le_nat_alt kf_cap_def by simp
  then show "unat (kf_size f - (x AND (kf_size f - 1))) = kf_cap f - unat x mod kf_cap f"
    by (simp add: unat_sub k(6) kf_cap_def)
  have e: "kf_size f - kf_in f + kf_out f = kf_size f - (kf_in f - kf_out f)" by simp
  have le: "kf_in f - kf_out f \<le> kf_size f" using k(4) by (simp add: word_le_nat_alt kf_used_def kf_cap_def)
  show "unat (kf_size f - kf_in f + kf_out f) = kf_cap f - kf_used f"
    unfolding e unat_sub [OF le] kf_used_def kf_cap_def by (rule refl)
qed

lemma kfifo_put_ok:
  assumes ok: "kfifo_ok f" and d: "unat len \<le> length d"
  shows "\<exists>f'. kfifo_put d len f = Some (of_nat (min (unat len) (kf_cap f - kf_used f)), f') \<and> kfifo_ok f' \<and>
    kf_cap f' = kf_cap f \<and> kf_contents f' = kf_contents f @ take (min (unat len) (kf_cap f - kf_used f)) d"
proof -
  define n where "n = min (unat len) (kf_cap f - kf_used f)"
  let ?c = "kf_cap f" and ?i = "unat (kf_in f)"
  note k = kfifo_okD [OF ok]
  let ?len = "min len (kf_size f - kf_in f + kf_out f)"
  have un: "unat ?len = n" by (simp add: kf_min kf_space(2) [OF ok] n_def)
  have ul: "unat (min ?len (kf_size f - (kf_in f AND (kf_size f - 1)))) = min n (?c - ?i mod ?c)"
    by (simp only: kf_min [of ?len] un kf_space(1) [OF ok])
  have uf: "unat (kf_in f AND (kf_size f - 1)) = ?i mod ?c" by (rule k(6))
  have ur: "unat (?len - min ?len (kf_size f - (kf_in f AND (kf_size f - 1)))) = n - min n (?c - ?i mod ?c)"
    unfolding unat_sub [OF min.cobounded1] un ul by (rule refl)
  have n: "n \<le> ?c" "n \<le> length d" "n + kf_used f \<le> ?c" using d k(4) by (simp_all add: n_def)
  obtain b1 b2 where b: "memcpy (kf_buffer f) (?i mod ?c) d 0 (min n (?c - ?i mod ?c)) = Some b1"
    "memcpy b1 0 d (min n (?c - ?i mod ?c)) (n - min n (?c - ?i mod ?c)) = Some b2" "length b2 = ?c"
    "\<forall>i < n. b2 ! ((?i + i) mod ?c) = d ! i" "\<forall>j < ?c. (\<forall>i < n. j \<noteq> (?i + i) mod ?c) \<longrightarrow> b2 ! j = kf_buffer f ! j"
    using wrap_copy_in [OF k(3,1) n(1,2), of ?i] by blast
  define f' where "f' = f\<lparr>kf_in := kf_in f + ?len, kf_buffer := b2\<rparr>"
  have run: "kfifo_put d len f = Some (?len, f')" using b(1,2) by (simp add: kfifo_put_def Let_def ul uf ur f'_def)
  have e: "?len = of_nat n" unfolding un [symmetric] by simp
  have "kf_in f - kf_out f = of_nat (kf_used f)" by (simp add: kf_used_def)
  then have "kf_in f + ?len - kf_out f = of_nat (kf_used f + n)" unfolding e by (simp add: diff_add_eq)
  moreover have "kf_in f' - kf_out f' = kf_in f + ?len - kf_out f" by (simp add: f'_def)
  ultimately have "kf_used f' = unat (of_nat (kf_used f + n) :: u32)" unfolding kf_used_def by metis
  then have used: "kf_used f' = kf_used f + n" using n(3) k(7) by (subst (asm) unat_u32) simp_all
  have ok': "kfifo_ok f'" "kf_cap f' = kf_cap f"
    using ok b(3) used n(3) by (auto simp: kfifo_ok_def f'_def kf_cap_def)
  moreover have "kf_contents f' = kf_contents f @ take n d"
  proof (rule nth_equalityI)
    show "length (kf_contents f') = length (kf_contents f @ take n d)" using used n(2) by simp
    fix i assume "i < length (kf_contents f')"
    then have i: "i < kf_used f + n" using used by simp
    have pos: "(?i + j) mod ?c = (unat (kf_out f) + kf_used f + j) mod ?c" for j
      using counter_mod [OF ok, of "kf_out f" "kf_used f" j] kf_in_eq [of f] by simp
    have at': "kf_contents f' ! i = b2 ! ((unat (kf_out f) + i) mod ?c)"
      using i used by (simp add: kf_contents_def kf_at_def f'_def kf_cap_def)
    show "kf_contents f' ! i = (kf_contents f @ take n d) ! i"
    proof (cases "i < kf_used f")
      case True
      have "(unat (kf_out f) + i) mod ?c \<noteq> (?i + j) mod ?c" if j: "j < n" for j
      proof
        assume "(unat (kf_out f) + i) mod ?c = (?i + j) mod ?c"
        then have "(unat (kf_out f) + i) mod ?c = (unat (kf_out f) + (kf_used f + j)) mod ?c" unfolding pos by (simp only: add.assoc)
        moreover have "i < ?c" "kf_used f + j < ?c" using True j n(3) by simp_all
        ultimately have "i = kf_used f + j" by (rule mod_shift_inj)
        then show False using True by simp
      qed
      then show ?thesis using b(5) k(1) True at' by (simp add: nth_append kf_contents_def kf_at_def)
    next
      case False
      then have j: "i - kf_used f < n" using i by simp
      have "unat (kf_out f) + kf_used f + (i - kf_used f) = unat (kf_out f) + i" using False by simp
      then have "b2 ! ((unat (kf_out f) + i) mod ?c) = d ! (i - kf_used f)"
        using b(4) [rule_format, OF j] unfolding pos by simp
      then show ?thesis using j at' False by (simp add: nth_append)
    qed
  qed
  ultimately show ?thesis using run e unfolding n_def by metis
qed

text \<open>What reading and peeking share: how much is taken, how it is cut at the end of the buffer, and what it is.\<close>

lemma kf_front:
  fixes len :: u32
  assumes ok: "kfifo_ok f"
  defines "L \<equiv> min len (kf_in f - kf_out f)" and "n \<equiv> min (unat len) (kf_used f)"
  shows "L = of_nat n"
    and "unat (min L (kf_size f - (kf_out f AND (kf_size f - 1)))) = min n (kf_cap f - unat (kf_out f) mod kf_cap f)"
    and "unat (L - min L (kf_size f - (kf_out f AND (kf_size f - 1)))) = n - min n (kf_cap f - unat (kf_out f) mod kf_cap f)"
    and "map (\<lambda>i. kf_buffer f ! ((unat (kf_out f) + i) mod kf_cap f)) [0..<n] = take n (kf_contents f)"
    and "n \<le> kf_cap f" "n \<le> kf_used f"
proof -
  have un: "unat L = n" by (simp add: L_def kf_min n_def kf_used_def)
  then show "L = of_nat n" unfolding un [symmetric] by simp
  show ul: "unat (min L (kf_size f - (kf_out f AND (kf_size f - 1)))) = min n (kf_cap f - unat (kf_out f) mod kf_cap f)"
    by (simp only: kf_min [of L] un kf_space(1) [OF ok])
  show "unat (L - min L (kf_size f - (kf_out f AND (kf_size f - 1)))) = n - min n (kf_cap f - unat (kf_out f) mod kf_cap f)"
    unfolding unat_sub [OF min.cobounded1] un ul by (rule refl)
  show "map (\<lambda>i. kf_buffer f ! ((unat (kf_out f) + i) mod kf_cap f)) [0..<n] = take n (kf_contents f)"
    by (simp add: kf_contents_def kf_at_def take_map n_def min_def)
  show "n \<le> kf_cap f" "n \<le> kf_used f" using kfifo_okD(4) [OF ok] by (simp_all add: n_def)
qed

lemma kfifo_get_ok:
  assumes ok: "kfifo_ok f" and d: "unat len \<le> length d"
  shows "\<exists>f'. kfifo_get d len f = Some (of_nat (min (unat len) (kf_used f)),
      take (min (unat len) (kf_used f)) (kf_contents f) @ drop (min (unat len) (kf_used f)) d, f') \<and>
    kfifo_ok f' \<and> kf_cap f' = kf_cap f \<and> kf_contents f' = drop (min (unat len) (kf_used f)) (kf_contents f)"
proof -
  define n where "n = min (unat len) (kf_used f)"
  let ?c = "kf_cap f" and ?o = "unat (kf_out f)" and ?len = "min len (kf_in f - kf_out f)"
  note k = kfifo_okD [OF ok] and fr = kf_front [OF ok, of len, folded n_def]
  have n: "n \<le> length d" using d by (simp add: n_def)
  define f' where "f' = f\<lparr>kf_out := kf_out f + ?len\<rparr>"
  have run: "kfifo_get d len f = Some (?len, take n (kf_contents f) @ drop n d, f')"
    using wrap_copy_out [OF k(3,1) fr(5) n, of ?o] unfolding fr(4)
    by (auto simp: kfifo_get_def Let_def fr(2,3) k(6) f'_def)
  have le: "of_nat n \<le> kf_in f - kf_out f" unfolding fr(1) [symmetric] by (rule min.cobounded2)
  have "kf_in f' - kf_out f' = kf_in f - kf_out f - of_nat n" by (simp add: f'_def fr(1))
  moreover have "unat (of_nat n :: u32) = n" using fr(6) k(4,7) by (subst unat_u32) simp_all
  ultimately have used: "kf_used f' = kf_used f - n" using unat_sub [OF le] unfolding kf_used_def by simp
  have ok': "kfifo_ok f'" "kf_cap f' = ?c" using ok used by (auto simp: kfifo_ok_def f'_def kf_cap_def)
  have "kf_contents f' = drop n (kf_contents f)"
  proof (rule nth_equalityI)
    show "length (kf_contents f') = length (drop n (kf_contents f))" using used by simp
    fix i assume "i < length (kf_contents f')"
    then have i: "i < kf_used f - n" using used by simp
    have "(unat (kf_out f') + i) mod ?c = (?o + (n + i)) mod ?c"
      using counter_mod [OF ok, of "kf_out f" n i] by (simp add: f'_def fr(1) add.assoc)
    then show "kf_contents f' ! i = drop n (kf_contents f) ! i"
      using i used fr(6) ok'(2) by (simp add: kf_contents_def kf_at_def f'_def)
  qed
  then show ?thesis using run ok' unfolding n_def [symmetric] fr(1) by blast
qed

lemma kfifo_peek_ok:
  assumes ok: "kfifo_ok f" and d: "unat len \<le> length d"
  shows "kfifo_out_peek f d len = Some (of_nat (min (unat len) (kf_used f)),
      take (min (unat len) (kf_used f)) (kf_contents f) @ drop (min (unat len) (kf_used f)) d)"
proof -
  define n where "n = min (unat len) (kf_used f)"
  let ?len = "min len (kf_in f - kf_out f)"
  note k = kfifo_okD [OF ok] and fr = kf_front [OF ok, of len, folded n_def]
  have n: "n \<le> length d" using d by (simp add: n_def)
  have l: "(if len > kf_in f - kf_out f then kf_in f - kf_out f else len) = ?len" by (auto simp: min_def)
  have m: "kf_mask f + 1 = kf_size f" "kf_mask f = kf_size f - 1" using k(2) by simp_all
  have "kfifo_out_peek f d len = Some (?len, take n (kf_contents f) @ drop n d)"
    using wrap_copy_out [OF k(3,1) fr(5) n, of "unat (kf_out f)"] unfolding fr(4)
    by (auto simp: kfifo_out_peek_def kfifo_copy_out_def Let_def l m fr(2,3) k(6) simp del: min_less_iff_conj)
  then show ?thesis unfolding n_def [symmetric] fr(1) .
qed

section \<open>A FIFO\<close>

datatype kf_op = KPut "u8 list" | KGet u32 | KPeek u32

definition kf_legal :: "kf_op \<Rightarrow> bool" where
  "kf_legal x \<longleftrightarrow> (case x of KPut d \<Rightarrow> length d < 2 ^ 32 | _ \<Rightarrow> True)"

fun kf_step :: "kfifo \<Rightarrow> kf_op \<Rightarrow> (kfifo \<times> u8 list \<times> u8 list) option" where
  "kf_step f (KPut d) = do { (n, f) \<leftarrow> kfifo_put d (of_nat (length d)) f; Some (f, take (unat n) d, []) }"
| "kf_step f (KGet len) = do { (n, b, f) \<leftarrow> kfifo_get (replicate (unat len) 0) len f; Some (f, [], take (unat n) b) }"
| "kf_step f (KPeek len) = do { _ \<leftarrow> kfifo_out_peek f (replicate (unat len) 0) len; Some (f, [], []) }"

lemma kf_step_ok:
  assumes ok: "kfifo_ok f" and "kf_legal x"
  shows "\<exists>f' acc del. kf_step f x = Some (f', acc, del) \<and> kfifo_ok f' \<and> kf_contents f @ acc = del @ kf_contents f'"
proof (cases x)
  case (KPut d)
  then have l: "unat (of_nat (length d) :: u32) = length d" using assms(2) by (simp add: kf_legal_def unat_u32)
  then have "unat (of_nat (length d) :: u32) \<le> length d" by simp
  from kfifo_put_ok [OF ok this] obtain f' where f': "kfifo_put d (of_nat (length d)) f =
      Some (of_nat (min (length d) (kf_cap f - kf_used f)), f')" "kfifo_ok f'"
    "kf_contents f' = kf_contents f @ take (min (length d) (kf_cap f - kf_used f)) d" unfolding l by blast
  moreover have "unat (of_nat (min (length d) (kf_cap f - kf_used f)) :: u32) = min (length d) (kf_cap f - kf_used f)"
    using kfifo_okD(7) [OF ok] by (subst unat_u32) simp_all
  ultimately show ?thesis using KPut by simp
next
  case (KGet len)
  define n where "n = min (unat len) (kf_used f)"
  have n: "unat (of_nat n :: u32) = n" "n \<le> kf_used f"
    using kfifo_okD(4,7) [OF ok] by (subst unat_u32) (simp_all add: n_def)
  have "unat len \<le> length (replicate (unat len) (0 :: u8))" by simp
  from kfifo_get_ok [OF ok this, folded n_def] obtain f' where
    "kfifo_get (replicate (unat len) 0) len f = Some (of_nat n, take n (kf_contents f) @ drop n (replicate (unat len) 0), f')"
    "kfifo_ok f'" "kf_contents f' = drop n (kf_contents f)" by blast
  then show ?thesis using KGet n by simp
next
  case (KPeek len)
  have "unat len \<le> length (replicate (unat len) (0 :: u8))" by simp
  from kfifo_peek_ok [OF ok this] KPeek ok show ?thesis by simp
qed

interpretation kf: fifo kf_step kf_contents kfifo_ok "\<lambda>_. kf_legal"
proof
  fix f x assume a: "kfifo_ok f" "kf_legal x"
  show "\<exists>r. kf_step f x = Some r" using kf_step_ok [OF a] by blast
  fix f' acc del assume "kf_step f x = Some (f', acc, del)"
  then show "kfifo_ok f'" "kf_contents f @ acc = del @ kf_contents f'" using kf_step_ok [OF a] by auto
qed

lemma kfifo_alloc_ok:
  assumes "kfifo_alloc (Some b) True sz = Some (Some f)" "sz \<noteq> 0" "length b = unat sz"
  shows "kfifo_ok f" "kf_contents f = []" "kf_cap f = unat sz"
proof -
  have z: "sz AND (sz - 1) = 0" and f: "f = \<lparr>kf_in = 0, kf_out = 0, kf_mask = sz - 1, kf_size = sz, kf_buffer = b\<rparr>"
    using assms(1) by (simp_all add: kfifo_alloc_def kfifo_init_def split: if_splits)
  have "\<exists>k < 32. sz = 2 ^ k" by (rule power_of_two [OF z assms(2)])
  then show "kfifo_ok f" "kf_contents f = []" "kf_cap f = unat sz"
    using assms(3) by (simp_all add: kfifo_ok_def f kf_cap_def kf_used_def kf_contents_def)
qed

section \<open>Properties\<close>

text \<open>
  C31. A kfifo of the drivers is a byte queue. Take one that was allocated with any size the assertion lets through
  (a power of two, as it is not rounded up to one, whatever the comment says); then whatever puts, gets and peeks follow, none leaves the buffer, and the bytes accepted are in
  order the bytes delivered followed by the bytes still inside. The counters run freely and wrap at \<open>2 ^ 32\<close>; the
  statement is about any number of operations, so also about those after the wrap.
\<close>

theorem kfifo_fifo:
  assumes "kfifo_alloc (Some b) True sz = Some (Some f)" "sz \<noteq> 0" "length b = unat sz" "list_all kf_legal ops"
  shows "\<exists>f' acc del. fifo_run kf_step f ops = Some (f', acc, del) \<and> acc = del @ kf_contents f'"
  by (rule kf.run_from_empty [OF kfifo_alloc_ok(1,2) [OF assms(1-3)] legal_run_static [OF assms(4)]])

theorem kfifo_fifo_witness:
  "\<exists>f' acc del. fifo_run kf_step \<lparr>kf_in = 0, kf_out = 0, kf_mask = 3, kf_size = 4, kf_buffer = [9, 9, 9, 9]\<rparr>
      [KPut [1, 2, 3], KGet 2, KPut [4, 5, 6, 7], KPeek 1, KGet 9] = Some (f', acc, del) \<and> acc = del @ kf_contents f'"
proof (rule kfifo_fifo)
  show "kfifo_alloc (Some [9, 9, 9, 9]) True 4 =
      Some (Some \<lparr>kf_in = 0, kf_out = 0, kf_mask = 3, kf_size = 4, kf_buffer = [9, 9, 9, 9]\<rparr>)"
    by (simp add: kfifo_alloc_def kfifo_init_def)
qed (simp_all add: kf_legal_def)

text \<open>
  How much a put accepts, and that a get returns what was put, at any values of the two counters: a put takes as
  many bytes as there is room for and appends them; a get returns up to the asked number of the oldest bytes, which is
  what a peek shows without removing them; the two size functions always add up to the size.
\<close>

theorem kfifo_put_get:
  assumes "kfifo_ok f" "unat len \<le> length d" "unat m \<le> length e"
  shows "\<exists>f1 f2. kfifo_put d len f = Some (of_nat (min (unat len) (unat (kfifo_unused f))), f1) \<and>
    kf_contents f1 = kf_contents f @ take (min (unat len) (unat (kfifo_unused f))) d \<and>
    unat (kfifo_data_size f1) = length (kf_contents f1) \<and> kfifo_data_size f1 + kfifo_unused f1 = kf_size f \<and>
    kfifo_get e m f1 = Some (of_nat (min (unat m) (length (kf_contents f1))),
      take (unat m) (kf_contents f1) @ drop (min (unat m) (length (kf_contents f1))) e, f2) \<and>
    kfifo_out_peek f1 e m = Some (of_nat (min (unat m) (length (kf_contents f1))),
      take (unat m) (kf_contents f1) @ drop (min (unat m) (length (kf_contents f1))) e) \<and>
    kf_contents f2 = drop (unat m) (kf_contents f1) \<and> kfifo_ok f2"
proof -
  have "kfifo_unused f = kf_size f - kf_in f + kf_out f"
    using kfifo_okD(2) [OF assms(1)] by (simp add: kfifo_unused_def algebra_simps)
  then have un: "unat (kfifo_unused f) = kf_cap f - kf_used f" using kf_space(2) [OF assms(1)] by simp
  obtain f1 where f1: "kfifo_put d len f = Some (of_nat (min (unat len) (kf_cap f - kf_used f)), f1)" "kfifo_ok f1"
    "kf_cap f1 = kf_cap f" "kf_contents f1 = kf_contents f @ take (min (unat len) (kf_cap f - kf_used f)) d"
    using kfifo_put_ok [OF assms(1,2)] by blast
  have tk: "take (min (unat m) (kf_used f1)) (kf_contents f1) = take (unat m) (kf_contents f1)"
    "drop (min (unat m) (kf_used f1)) (kf_contents f1) = drop (unat m) (kf_contents f1)" by (simp_all add: min_def)
  have "kf_size f1 = kf_size f" using f1(3) by (simp add: kf_cap_def word_unat_eq_iff)
  then have "kfifo_data_size f1 + kfifo_unused f1 = kf_size f"
    using kfifo_okD(2) [OF f1(2)] by (simp add: kfifo_data_size_def kfifo_unused_def)
  then show ?thesis using f1 un kfifo_get_ok [OF f1(2) assms(3)] kfifo_peek_ok [OF f1(2) assms(3)]
    unfolding tk by (auto simp: kfifo_data_size_def kf_used_def)
qed

theorem kfifo_put_get_witness:
  "\<exists>f1 f2. kfifo_put [1, 2, 3] 3 \<lparr>kf_in = 0xFFFFFFFF, kf_out = 0xFFFFFFFE, kf_mask = 3, kf_size = 4, kf_buffer = [9, 9, 7, 9]\<rparr> =
      Some (3, f1) \<and> kf_contents f1 = [7, 1, 2, 3] \<and> kfifo_get [0, 0] 2 f1 = Some (2, [7, 1], f2) \<and> kf_contents f2 = [2, 3]"
proof -
  let ?f = "\<lparr>kf_in = 0xFFFFFFFF, kf_out = 0xFFFFFFFE, kf_mask = 3, kf_size = 4, kf_buffer = [9, 9, 7, 9]\<rparr>"
  have "(4 :: u32) = 2 ^ 2" by simp
  then have ok: "kfifo_ok ?f" unfolding kfifo_ok_def by (intro conjI exI [of _ 2]) (simp_all add: kf_cap_def kf_used_def)
  have c: "kf_contents ?f = [7]" by (simp add: kf_contents_def kf_used_def kf_at_def kf_cap_def upt_rec)
  show ?thesis
    using kfifo_put_get [OF ok, of 3 "[1, 2, 3]" 2 "[0, 0]"] by (auto simp: c kfifo_unused_def simp del: length_kf_contents)
qed

end
