(* ===== verification/UartDrv.thy ===== *)
theory UartDrv
  imports Kfifo
begin

text \<open>
  The driver of the two serial ports, \<^verbatim>\<open>driver/uart/uart_bk.c\<close>, register by register: sending, receiving into the
  byte FIFO of Kfifo, the interrupt service routines with their callbacks, and the control commands.

  The controller is hardware: a parameter \<open>hw\<close> says what reading and writing a register gives and does to its state.
  A loop that waits for it is a \<^verbatim>\<open>partial_function\<close>. Calls of the device table, the interrupt controller and the pins,
  whose results the driver ignores, are recorded in their order, and so is the freeing of a FIFO. A callback is a value,
  and the parameter \<open>run\<close> says what calling it does. \<open>None\<close> is also the use of a FIFO that is not there, and the endless
  loop of a failed assertion. The build has the debug command line on, and neither AliOS nor RT-Thread.
\<close>

section \<open>Registers\<close>

datatype uart_reg =
  REG_UART_CONFIG | REG_UART_FIFO_CONFIG | REG_UART_FIFO_STATUS | REG_UART_FIFO_PORT
  | REG_UART_INTR_ENABLE | REG_UART_INTR_STATUS | REG_UART_FLOW_CONFIG | REG_UART_WAKE_CONFIG

text \<open>The ports are told apart by \<open>True\<close> for the second one.\<close>

record 'h uart_hw =
  ur_rd :: "bool \<Rightarrow> uart_reg \<Rightarrow> 'h \<Rightarrow> u32 \<times> 'h"
  ur_wr :: "bool \<Rightarrow> uart_reg \<Rightarrow> u32 \<Rightarrow> 'h \<Rightarrow> 'h"

definition UART1_PORT :: u8 where "UART1_PORT = 0"
definition UART2_PORT :: u8 where "UART2_PORT = 1"

definition second :: "u8 \<Rightarrow> bool" where "second uport = (uport \<noteq> UART1_PORT)"

definition UART_TX_ENABLE :: u32 where "UART_TX_ENABLE = push_bit 0 1"
definition UART_RX_ENABLE :: u32 where "UART_RX_ENABLE = push_bit 1 1"
definition UART_DATA_LEN_MASK :: u32 where "UART_DATA_LEN_MASK = 0x03"
definition UART_CLK_DIVID_MASK :: u32 where "UART_CLK_DIVID_MASK = 0x1FFF"
definition RX_FIFO_COUNT_MASK :: u32 where "RX_FIFO_COUNT_MASK = 0xFF"
definition TX_FIFO_FULL :: u32 where "TX_FIFO_FULL = push_bit 16 1"
definition TX_FIFO_EMPTY :: u32 where "TX_FIFO_EMPTY = push_bit 17 1"
definition FIFO_WR_READY :: u32 where "FIFO_WR_READY = push_bit 20 1"
definition FIFO_RD_READY :: u32 where "FIFO_RD_READY = push_bit 21 1"
definition TX_FIFO_NEED_WRITE_EN :: u32 where "TX_FIFO_NEED_WRITE_EN = push_bit 0 1"
definition RX_FIFO_NEED_READ_EN :: u32 where "RX_FIFO_NEED_READ_EN = push_bit 1 1"
definition UART_TX_STOP_END_EN :: u32 where "UART_TX_STOP_END_EN = push_bit 5 1"
definition UART_RX_STOP_END_EN :: u32 where "UART_RX_STOP_END_EN = push_bit 6 1"
definition TX_FIFO_NEED_WRITE_STA :: u32 where "TX_FIFO_NEED_WRITE_STA = push_bit 0 1"
definition RX_FIFO_NEED_READ_STA :: u32 where "RX_FIFO_NEED_READ_STA = push_bit 1 1"
definition UART_RX_PARITY_ERR_STA :: u32 where "UART_RX_PARITY_ERR_STA = push_bit 3 1"
definition UART_TX_STOP_END_STA :: u32 where "UART_TX_STOP_END_STA = push_bit 5 1"
definition UART_RX_STOP_END_STA :: u32 where "UART_RX_STOP_END_STA = push_bit 6 1"
definition UART_CLOCK :: u32 where "UART_CLOCK = 26000000"
definition UART_BAUD_RATE :: u32 where "UART_BAUD_RATE = 115200"
definition TX_FIFO_THRD :: u32 where "TX_FIFO_THRD = 0x40"
definition RX_FIFO_THRD :: u32 where "RX_FIFO_THRD = 0x30"
definition DEF_DATA_LEN :: u32 where "DEF_DATA_LEN = 0x3"
definition RX_RB_LENGTH :: u32 where "RX_RB_LENGTH = 128"
definition TX_RB_LENGTH :: u32 where "TX_RB_LENGTH = 64"
definition DEBUG_PRT_MAX_CNT :: u32 where "DEBUG_PRT_MAX_CNT = 16"
definition UART_SUCCESS :: u32 where "UART_SUCCESS = 0"
definition UART_FAILURE :: u32 where "UART_FAILURE = - 1"
definition URX_PEEK_SIG :: u32 where "URX_PEEK_SIG = 0x0ee"

section \<open>State\<close>

record uart_s =
  u_status :: u16
  u_rx :: "kfifo option"
  u_tx :: "kfifo option"

text \<open>A callback with its parameter.\<close>

type_synonym 'c uart_callback_des = "'c option \<times> u32"

datatype uart_call =
  RegisterDev u8 | UnregisterDev u8 | ServiceRegister u8 | ClkPwrUp u8 | GpioEnableSecond u8
  | IcuIntEnable u8 | IcuIntDisable u8 | FreeFifo

record ('h, 'c) uart_drv =
  ud_hw :: 'h
  uart :: "uart_s list"
  uart_receive_callback :: "'c uart_callback_des list"
  uart_txfifo_needwr_callback :: "'c uart_callback_des list"
  uart_tx_end_callback :: "'c uart_callback_des list"
  pirntf_port :: u8
  peri_busy :: u32
  ud_calls :: "uart_call list"

definition add_calls :: "uart_call list \<Rightarrow> ('h, 'c) uart_drv \<Rightarrow> ('h, 'c) uart_drv" where
  "add_calls cs s = s\<lparr>ud_calls := ud_calls s @ cs\<rparr>"

definition put_uart :: "u8 \<Rightarrow> uart_s \<Rightarrow> ('h, 'c) uart_drv \<Rightarrow> ('h, 'c) uart_drv option" where
  "put_uart uport u s = do { us \<leftarrow> aset (uart s) (unat uport) u; Some (s\<lparr>uart := us\<rparr>) }"

section \<open>Sending\<close>

definition uart_is_tx_fifo_empty :: "'h uart_hw \<Rightarrow> u8 \<Rightarrow> 'h \<Rightarrow> u8 \<times> 'h" where
  "uart_is_tx_fifo_empty hw uport h =
     (let (param, h) = ur_rd hw (second uport) REG_UART_FIFO_STATUS h in (if param AND TX_FIFO_EMPTY \<noteq> 0 then 1 else 0, h))"

definition uart_is_tx_fifo_full :: "'h uart_hw \<Rightarrow> u8 \<Rightarrow> 'h \<Rightarrow> u8 \<times> 'h" where
  "uart_is_tx_fifo_full hw uport h =
     (let (param, h) = ur_rd hw (second uport) REG_UART_FIFO_STATUS h in (if param AND TX_FIFO_FULL \<noteq> 0 then 1 else 0, h))"

partial_function (option) wait_write :: "'h uart_hw \<Rightarrow> bool \<Rightarrow> 'h \<Rightarrow> 'h option" where
  "wait_write hw p h =
     (let (v, h) = ur_rd hw p REG_UART_FIFO_STATUS h in if v AND FIFO_WR_READY = 0 then wait_write hw p h else Some h)"

definition UART_WRITE_BYTE :: "'h uart_hw \<Rightarrow> u8 \<Rightarrow> u8 \<Rightarrow> 'h \<Rightarrow> 'h" where
  "UART_WRITE_BYTE hw uport v h = ur_wr hw (second uport) REG_UART_FIFO_PORT (ucast (v AND 0xFF)) h"

definition bk_send_byte :: "'h uart_hw \<Rightarrow> u8 \<Rightarrow> u8 \<Rightarrow> 'h \<Rightarrow> 'h option" where
  "bk_send_byte hw uport data h = do { h \<leftarrow> wait_write hw (second uport) h; Some (UART_WRITE_BYTE hw uport data h) }"

definition uart_write_byte :: "'h uart_hw \<Rightarrow> u8 \<Rightarrow> u8 \<Rightarrow> 'h \<Rightarrow> (int \<times> 'h) option" where
  "uart_write_byte hw uport c h =
     do { h \<leftarrow> wait_write hw (second uport) h; Some (1, UART_WRITE_BYTE hw uport c h) }"

text \<open>The characters before the terminating zero; \<open>prev\<close> is the one before, if any.\<close>

fun send_chars :: "'h uart_hw \<Rightarrow> u8 \<Rightarrow> u8 option \<Rightarrow> u8 list \<Rightarrow> 'h \<Rightarrow> 'h option" where
  "send_chars hw uport prev [] h = Some h"
| "send_chars hw uport prev (c # cs) h =
     do {
       h \<leftarrow> (if c = 10 \<and> prev \<noteq> Some 13 then bk_send_byte hw uport 13 h else Some h);
       h \<leftarrow> bk_send_byte hw uport c h;
       send_chars hw uport (Some c) cs h
     }"

definition bk_send_string :: "'h uart_hw \<Rightarrow> u8 \<Rightarrow> u8 list \<Rightarrow> 'h \<Rightarrow> 'h option" where
  "bk_send_string hw uport string h = send_chars hw uport None string h"

definition get_printf_port :: "('h, 'c) uart_drv \<Rightarrow> u8" where
  "get_printf_port s = pirntf_port s"

definition set_printf_port :: "u8 \<Rightarrow> ('h, 'c) uart_drv \<Rightarrow> ('h, 'c) uart_drv" where
  "set_printf_port port s = s\<lparr>pirntf_port := port\<rparr>"

text \<open>Sending from a FIFO, at most \<open>cnt\<close> bytes but at least one if there is any.\<close>

partial_function (option) write_frame_loop :: "'h uart_hw \<Rightarrow> u8 \<Rightarrow> u32 \<Rightarrow> u32 \<Rightarrow> kfifo \<Rightarrow> 'h \<Rightarrow> (u32 \<times> kfifo \<times> 'h) option" where
  "write_frame_loop hw uport cnt len f h =
     do {
       (ret, b, f) \<leftarrow> kfifo_get [0] 1 f;
       if ret = 0 then Some (len, f, h)
       else do {
         v \<leftarrow> aget b 0;
         h \<leftarrow> bk_send_byte hw uport v h;
         if cnt \<le> len + ret then Some (len + ret, f, h) else write_frame_loop hw uport cnt (len + ret) f h
       }
     }"

definition uart_write_fifo_frame :: "'h uart_hw \<Rightarrow> u8 \<Rightarrow> kfifo \<Rightarrow> u32 \<Rightarrow> 'h \<Rightarrow> (u32 \<times> kfifo \<times> 'h) option" where
  "uart_write_fifo_frame hw uport f cnt h = write_frame_loop hw uport cnt 0 f h"

definition uart_send_backgroud :: "'h uart_hw \<Rightarrow> ('h, 'c) uart_drv \<Rightarrow> ('h, 'c) uart_drv option" where
  "uart_send_backgroud hw s =
     do {
       u \<leftarrow> aget (uart s) (unat UART2_PORT);
       f \<leftarrow> u_tx u;
       (_, f, h) \<leftarrow> uart_write_fifo_frame hw UART2_PORT f DEBUG_PRT_MAX_CNT (ud_hw s);
       put_uart UART2_PORT (u\<lparr>u_tx := Some f\<rparr>) (s\<lparr>ud_hw := h\<rparr>)
     }"

section \<open>Receiving\<close>

definition UART_READ_BYTE :: "'h uart_hw \<Rightarrow> u8 \<Rightarrow> 'h \<Rightarrow> u32 \<times> 'h" where
  "UART_READ_BYTE hw uport h =
     (let (v, h) = ur_rd hw (second uport) REG_UART_FIFO_PORT h in (drop_bit 8 v AND 0xFF, h))"

definition uart_read_byte :: "'h uart_hw \<Rightarrow> u8 \<Rightarrow> 'h \<Rightarrow> int \<times> 'h" where
  "uart_read_byte hw uport h =
     (let (st, h) = ur_rd hw (second uport) REG_UART_FIFO_STATUS h
      in if st AND FIFO_RD_READY \<noteq> 0 then let (v, h) = UART_READ_BYTE hw uport h in (uint v, h) else (- 1, h))"

partial_function (option) read_frame_loop :: "'h uart_hw \<Rightarrow> u8 \<Rightarrow> u32 \<Rightarrow> kfifo \<Rightarrow> 'h \<Rightarrow> (u32 \<times> kfifo \<times> 'h) option" where
  "read_frame_loop hw uport rx_count f h =
     (let (st, h) = ur_rd hw (second uport) REG_UART_FIFO_STATUS h
      in if st AND FIFO_RD_READY = 0 then Some (rx_count, f, h)
         else let (v, h) = UART_READ_BYTE hw uport h
              in do { (n, f) \<leftarrow> kfifo_put [ucast v] 1 f; read_frame_loop hw uport (rx_count + n) f h })"

definition uart_read_fifo_frame :: "'h uart_hw \<Rightarrow> u8 \<Rightarrow> kfifo \<Rightarrow> 'h \<Rightarrow> (u32 \<times> kfifo \<times> 'h) option" where
  "uart_read_fifo_frame hw uport f h = read_frame_loop hw uport 0 f h"

declare wait_write.simps [code]
declare write_frame_loop.simps [code]
declare read_frame_loop.simps [code]

section \<open>Configuration\<close>

datatype uart_data_width = DATA_WIDTH_5BIT | DATA_WIDTH_6BIT | DATA_WIDTH_7BIT | DATA_WIDTH_8BIT
datatype uart_stop_bits = BK_STOP_BITS_1 | BK_STOP_BITS_2
datatype uart_parity = BK_PARITY_NO | BK_PARITY_ODD | BK_PARITY_EVEN

record uart_config =
  baud_rate :: u32
  data_width :: uart_data_width
  parity :: uart_parity
  stop_bits :: uart_stop_bits

definition width_code :: "uart_data_width \<Rightarrow> u32" where
  "width_code w = (case w of DATA_WIDTH_5BIT \<Rightarrow> 0 | DATA_WIDTH_6BIT \<Rightarrow> 1 | DATA_WIDTH_7BIT \<Rightarrow> 2 | DATA_WIDTH_8BIT \<Rightarrow> 3)"

definition stop_code :: "uart_stop_bits \<Rightarrow> u32" where
  "stop_code b = (case b of BK_STOP_BITS_1 \<Rightarrow> 0 | BK_STOP_BITS_2 \<Rightarrow> 1)"

definition fifo_thresholds :: u32 where
  "fifo_thresholds = push_bit 0 (TX_FIFO_THRD AND 0xFF) OR push_bit 8 (RX_FIFO_THRD AND 0xFF) OR push_bit 16 (0 AND 0x03)"

definition uart_hw_init :: "'h uart_hw \<Rightarrow> u8 \<Rightarrow> 'h \<Rightarrow> 'h" where
  "uart_hw_init hw uport h =
     (let p = second uport;
          baud_div = UART_CLOCK div UART_BAUD_RATE - 1;
          reg = UART_TX_ENABLE OR UART_RX_ENABLE OR push_bit 3 (DEF_DATA_LEN AND UART_DATA_LEN_MASK) OR
            push_bit 8 (baud_div AND UART_CLK_DIVID_MASK);
          h = ur_wr hw p REG_UART_CONFIG reg h;
          h = ur_wr hw p REG_UART_FIFO_CONFIG fifo_thresholds h;
          h = ur_wr hw p REG_UART_FLOW_CONFIG 0 h;
          h = ur_wr hw p REG_UART_WAKE_CONFIG 0 h
      in ur_wr hw p REG_UART_INTR_ENABLE (RX_FIFO_NEED_READ_EN OR UART_RX_STOP_END_EN) h)"

definition uart_config_word :: "uart_config \<Rightarrow> u32" where
  "uart_config_word cfg =
     (let baud_div = UART_CLOCK div baud_rate cfg - 1;
          parity_en = (if parity cfg = BK_PARITY_NO then 0 else 1);
          parity_mode = (if parity cfg = BK_PARITY_ODD then 1 else 0)
      in UART_TX_ENABLE OR UART_RX_ENABLE OR push_bit 3 (width_code (data_width cfg) AND UART_DATA_LEN_MASK) OR
         push_bit 5 parity_en OR push_bit 6 parity_mode OR push_bit 7 (stop_code (stop_bits cfg)) OR
         push_bit 8 (baud_div AND UART_CLK_DIVID_MASK))"

text \<open>A baud rate of 0 divides by zero after the interrupts are turned off.\<close>

definition uart_hw_set_change :: "'h uart_hw \<Rightarrow> u8 \<Rightarrow> uart_config \<Rightarrow> 'h \<Rightarrow> 'h option" where
  "uart_hw_set_change hw uport cfg h =
     (let p = second uport; h = ur_wr hw p REG_UART_INTR_ENABLE 0 h
      in if baud_rate cfg = 0 then None
         else let h = ur_wr hw p REG_UART_CONFIG (uart_config_word cfg) h;
                  h = ur_wr hw p REG_UART_FIFO_CONFIG fifo_thresholds h;
                  h = ur_wr hw p REG_UART_FLOW_CONFIG 0 h;
                  h = ur_wr hw p REG_UART_WAKE_CONFIG 0 h
              in Some (ur_wr hw p REG_UART_INTR_ENABLE (RX_FIFO_NEED_READ_EN OR UART_RX_STOP_END_EN) h))"

text \<open>What allocating each of the two FIFOs gives: the buffer, and whether there is memory for the structure.\<close>

type_synonym fifo_memory = "(u8 list option \<times> bool) \<times> (u8 list option \<times> bool)"

definition uart_sw_init :: "fifo_memory \<Rightarrow> u8 \<Rightarrow> ('h, 'c) uart_drv \<Rightarrow> (u32 \<times> ('h, 'c) uart_drv) option" where
  "uart_sw_init m uport s =
     do {
       u \<leftarrow> aget (uart s) (unat uport);
       rx \<leftarrow> kfifo_alloc (fst (fst m)) (snd (fst m)) RX_RB_LENGTH;
       tx \<leftarrow> kfifo_alloc (fst (snd m)) (snd (snd m)) TX_RB_LENGTH;
       s \<leftarrow> put_uart uport (u\<lparr>u_rx := rx, u_tx := tx\<rparr>) s;
       if tx = None \<or> rx = None
       then Some (UART_FAILURE, add_calls ((if tx \<noteq> None then [FreeFifo] else []) @ (if rx \<noteq> None then [FreeFifo] else [])) s)
       else Some (UART_SUCCESS, s)
     }"

definition uart_sw_uninit :: "u8 \<Rightarrow> ('h, 'c) uart_drv \<Rightarrow> (u32 \<times> ('h, 'c) uart_drv) option" where
  "uart_sw_uninit uport s =
     do {
       u \<leftarrow> aget (uart s) (unat uport);
       s \<leftarrow> put_uart uport \<lparr>u_status = 0, u_rx = None, u_tx = None\<rparr> s;
       Some (UART_SUCCESS, add_calls ((if u_tx u \<noteq> None then [FreeFifo] else []) @ (if u_rx u \<noteq> None then [FreeFifo] else [])) s)
     }"

definition uart_fifo_flush :: "'h uart_hw \<Rightarrow> u8 \<Rightarrow> 'h \<Rightarrow> 'h" where
  "uart_fifo_flush hw uport h =
     (let p = second uport;
          (v, h) = ur_rd hw p REG_UART_CONFIG h;
          h = ur_wr hw p REG_UART_CONFIG (v AND NOT (UART_TX_ENABLE OR UART_RX_ENABLE)) h
      in ur_wr hw p REG_UART_CONFIG v h)"

text \<open>Reading a register, changing its value and writing it back.\<close>

definition uart_modify :: "'h uart_hw \<Rightarrow> u8 \<Rightarrow> uart_reg \<Rightarrow> (u32 \<Rightarrow> u32) \<Rightarrow> 'h \<Rightarrow> 'h" where
  "uart_modify hw uport r f h = (let (v, h) = ur_rd hw (second uport) r h in ur_wr hw (second uport) r (f v) h)"

fun discard_bytes :: "'h uart_hw \<Rightarrow> u8 \<Rightarrow> nat \<Rightarrow> 'h \<Rightarrow> 'h" where
  "discard_bytes hw uport 0 h = h"
| "discard_bytes hw uport (Suc n) h = discard_bytes hw uport n (snd (ur_rd hw (second uport) REG_UART_FIFO_PORT h))"

definition uart_hw_uninit :: "'h uart_hw \<Rightarrow> u8 \<Rightarrow> 'h \<Rightarrow> 'h" where
  "uart_hw_uninit hw uport h =
     (let h = uart_modify hw uport REG_UART_INTR_ENABLE (\<lambda>v. v AND NOT (RX_FIFO_NEED_READ_EN OR UART_RX_STOP_END_EN)) h;
          h = uart_fifo_flush hw uport h;
          h = uart_modify hw uport REG_UART_CONFIG (\<lambda>v. v AND NOT (UART_TX_ENABLE OR UART_RX_ENABLE)) h;
          (v, h) = ur_rd hw (second uport) REG_UART_FIFO_STATUS h
      in discard_bytes hw uport (unat (drop_bit 8 v AND RX_FIFO_COUNT_MASK)) h)"

definition uart_set_tx_fifo_needwr_int :: "'h uart_hw \<Rightarrow> u8 \<Rightarrow> u8 \<Rightarrow> 'h \<Rightarrow> 'h" where
  "uart_set_tx_fifo_needwr_int hw uport onoff = uart_modify hw uport REG_UART_INTR_ENABLE
     (\<lambda>v. if onoff = 1 then v OR TX_FIFO_NEED_WRITE_EN else v AND NOT TX_FIFO_NEED_WRITE_EN)"

definition uart_set_tx_stop_end_int :: "'h uart_hw \<Rightarrow> u8 \<Rightarrow> u8 \<Rightarrow> 'h \<Rightarrow> 'h" where
  "uart_set_tx_stop_end_int hw uport onoff = uart_modify hw uport REG_UART_INTR_ENABLE
     (\<lambda>v. if onoff = 1 then v OR UART_TX_STOP_END_EN else v AND NOT UART_TX_STOP_END_EN)"

definition uart_disable_rx :: "'h uart_hw \<Rightarrow> u8 \<Rightarrow> 'h \<Rightarrow> 'h" where
  "uart_disable_rx hw uport = uart_modify hw uport REG_UART_CONFIG (\<lambda>v. v AND NOT UART_RX_ENABLE)"

section \<open>Callbacks\<close>

text \<open>The index of a port in the tables of callbacks.\<close>

definition cb_index :: "int \<Rightarrow> nat option" where
  "cb_index uport = (if uport = uint UART1_PORT then Some 0 else if uport = uint UART2_PORT then Some 1 else None)"

definition uart_rx_callback_set :: "int \<Rightarrow> 'c option \<Rightarrow> u32 \<Rightarrow> ('h, 'c) uart_drv \<Rightarrow> int \<times> ('h, 'c) uart_drv" where
  "uart_rx_callback_set uport callback param s =
     (case cb_index uport of
        Some i \<Rightarrow> (0, s\<lparr>uart_receive_callback := (uart_receive_callback s)[i := (callback, param)]\<rparr>)
      | None \<Rightarrow> (- 1, s))"

definition uart_tx_fifo_needwr_callback_set :: "int \<Rightarrow> 'c option \<Rightarrow> u32 \<Rightarrow> ('h, 'c) uart_drv \<Rightarrow> int \<times> ('h, 'c) uart_drv" where
  "uart_tx_fifo_needwr_callback_set uport callback param s =
     (case cb_index uport of
        Some i \<Rightarrow> (0, s\<lparr>uart_txfifo_needwr_callback := (uart_txfifo_needwr_callback s)[i := (callback, param)]\<rparr>)
      | None \<Rightarrow> (- 1, s))"

definition uart_tx_end_callback_set :: "int \<Rightarrow> 'c option \<Rightarrow> u32 \<Rightarrow> ('h, 'c) uart_drv \<Rightarrow> int \<times> ('h, 'c) uart_drv" where
  "uart_tx_end_callback_set uport callback param s =
     (case cb_index uport of
        Some i \<Rightarrow> (0, s\<lparr>uart_tx_end_callback := (uart_tx_end_callback s)[i := (callback, param)]\<rparr>)
      | None \<Rightarrow> (- 1, s))"

type_synonym ('h, 'c) run_callback = "'c \<Rightarrow> u8 \<Rightarrow> u32 \<Rightarrow> ('h, 'c) uart_drv \<Rightarrow> ('h, 'c) uart_drv option"

definition call_back :: "('h, 'c) run_callback \<Rightarrow> u8 \<Rightarrow> 'c uart_callback_des \<Rightarrow> ('h, 'c) uart_drv \<Rightarrow> ('h, 'c) uart_drv option" where
  "call_back run uport d s = (case fst d of None \<Rightarrow> Some s | Some c \<Rightarrow> run c uport (snd d) s)"

section \<open>Interrupts\<close>

text \<open>The causes that are enabled; all are acknowledged.\<close>

definition isr_status :: "'h uart_hw \<Rightarrow> bool \<Rightarrow> 'h \<Rightarrow> u32 \<times> 'h" where
  "isr_status hw p h =
     (let (intr_en, h) = ur_rd hw p REG_UART_INTR_ENABLE h;
          (intr_status, h) = ur_rd hw p REG_UART_INTR_STATUS h
      in (intr_status AND intr_en, ur_wr hw p REG_UART_INTR_STATUS intr_status h))"

definition isr_receive :: "'h uart_hw \<Rightarrow> ('h, 'c) run_callback \<Rightarrow> u8 \<Rightarrow> bool \<Rightarrow> ('h, 'c) uart_drv \<Rightarrow> ('h, 'c) uart_drv option" where
  "isr_receive hw run uport drain s =
     do {
       s \<leftarrow> (if drain
             then do {
               u \<leftarrow> aget (uart s) (unat uport);
               f \<leftarrow> u_rx u;
               (_, f, h) \<leftarrow> uart_read_fifo_frame hw uport f (ud_hw s);
               put_uart uport (u\<lparr>u_rx := Some f\<rparr>) (s\<lparr>ud_hw := h\<rparr>)
             }
             else Some s);
       d \<leftarrow> aget (uart_receive_callback s) (unat uport);
       if fst d \<noteq> None then call_back run uport d s
       else Some (s\<lparr>ud_hw := snd (uart_read_byte hw uport (ud_hw s))\<rparr>)
     }"

definition isr_transmit :: "'h uart_hw \<Rightarrow> ('h, 'c) run_callback \<Rightarrow> u8 \<Rightarrow> u32 \<Rightarrow> ('h, 'c) uart_drv \<Rightarrow> ('h, 'c) uart_drv option" where
  "isr_transmit hw run uport status s =
     do {
       s \<leftarrow> (if status AND TX_FIFO_NEED_WRITE_STA \<noteq> 0
             then do { d \<leftarrow> aget (uart_txfifo_needwr_callback s) (unat uport); call_back run uport d s } else Some s);
       let s = (if status AND UART_RX_PARITY_ERR_STA \<noteq> 0 then s\<lparr>ud_hw := uart_fifo_flush hw uport (ud_hw s)\<rparr> else s);
       if status AND UART_TX_STOP_END_STA \<noteq> 0
       then do { d \<leftarrow> aget (uart_tx_end_callback s) (unat uport); call_back run uport d s } else Some s
     }"

text \<open>Port 1 fills its FIFO only in the test mode of the factory (\<open>ate\<close>), port 2 always.\<close>

definition uart1_isr :: "'h uart_hw \<Rightarrow> ('h, 'c) run_callback \<Rightarrow> bool \<Rightarrow> ('h, 'c) uart_drv \<Rightarrow> ('h, 'c) uart_drv option" where
  "uart1_isr hw run ate s =
     (let (status, h) = isr_status hw (second UART1_PORT) (ud_hw s); s = s\<lparr>ud_hw := h\<rparr>
      in do {
        s \<leftarrow> (if status AND (RX_FIFO_NEED_READ_STA OR UART_RX_STOP_END_STA) \<noteq> 0 then isr_receive hw run UART1_PORT ate s else Some s);
        isr_transmit hw run UART1_PORT status s
      })"

definition uart2_isr :: "'h uart_hw \<Rightarrow> ('h, 'c) run_callback \<Rightarrow> ('h, 'c) uart_drv \<Rightarrow> ('h, 'c) uart_drv option" where
  "uart2_isr hw run s =
     (let (status, h) = isr_status hw (second UART2_PORT) (ud_hw s); s = s\<lparr>ud_hw := h\<rparr>
      in do {
        s \<leftarrow> (if status AND (RX_FIFO_NEED_READ_STA OR UART_RX_STOP_END_STA) \<noteq> 0 then isr_receive hw run UART2_PORT True s else Some s);
        isr_transmit hw run UART2_PORT status s
      })"

section \<open>The device\<close>

definition uart_port_init :: "'h uart_hw \<Rightarrow> fifo_memory \<Rightarrow> u8 \<Rightarrow> ('h, 'c) uart_drv \<Rightarrow> ('h, 'c) uart_drv option" where
  "uart_port_init hw m uport s =
     do {
       (ret, s) \<leftarrow> uart_sw_init m uport s;
       if ret \<noteq> UART_SUCCESS then None
       else do {
         let s = add_calls [RegisterDev uport, ServiceRegister uport, ClkPwrUp uport, GpioEnableSecond uport] s;
         let h = uart_hw_init hw uport (ud_hw s);
         let (intr_status, h) = ur_rd hw (second uport) REG_UART_INTR_STATUS h;
         let h = ur_wr hw (second uport) REG_UART_INTR_STATUS intr_status h;
         Some (add_calls [IcuIntEnable uport] (s\<lparr>ud_hw := h\<rparr>))
       }
     }"

definition uart_port_exit :: "'h uart_hw \<Rightarrow> u8 \<Rightarrow> ('h, 'c) uart_drv \<Rightarrow> ('h, 'c) uart_drv option" where
  "uart_port_exit hw uport s =
     do {
       let s = add_calls [IcuIntDisable uport] s;
       let s = s\<lparr>ud_hw := uart_hw_uninit hw uport (ud_hw s)\<rparr>;
       let s = add_calls [UnregisterDev uport] s;
       (_, s) \<leftarrow> uart_sw_uninit uport s;
       Some s
     }"

definition uart_reset :: "'h uart_hw \<Rightarrow> fifo_memory \<Rightarrow> u8 \<Rightarrow> ('h, 'c) uart_drv \<Rightarrow> ('h, 'c) uart_drv option" where
  "uart_reset hw m uport s =
     (let port = (if uport = UART1_PORT then UART1_PORT else UART2_PORT)
      in do { s \<leftarrow> uart_port_exit hw port s; uart_port_init hw m port s })"

definition uart_open :: "'h uart_hw \<Rightarrow> fifo_memory \<Rightarrow> u8 \<Rightarrow> ('h, 'c) uart_drv \<Rightarrow> (u32 \<times> ('h, 'c) uart_drv) option" where
  "uart_open hw m uport s = do { s \<leftarrow> uart_port_init hw m uport s; Some (UART_SUCCESS, s) }"

definition uart_close :: "'h uart_hw \<Rightarrow> u8 \<Rightarrow> ('h, 'c) uart_drv \<Rightarrow> (u32 \<times> ('h, 'c) uart_drv) option" where
  "uart_close hw uport s = do { s \<leftarrow> uart_port_exit hw uport s; Some (UART_SUCCESS, s) }"

definition uart_read :: "u8 \<Rightarrow> u8 list \<Rightarrow> u32 \<Rightarrow> ('h, 'c) uart_drv \<Rightarrow> (u32 \<times> u8 list \<times> ('h, 'c) uart_drv) option" where
  "uart_read uport user_buf cnt s =
     do {
       u \<leftarrow> aget (uart s) (unat uport);
       f \<leftarrow> u_rx u;
       (n, b, f) \<leftarrow> kfifo_get user_buf cnt f;
       s \<leftarrow> put_uart uport (u\<lparr>u_rx := Some f\<rparr>) s;
       Some (n, b, s)
     }"

definition uart_write :: "u8 \<Rightarrow> u8 list \<Rightarrow> u32 \<Rightarrow> ('h, 'c) uart_drv \<Rightarrow> (u32 \<times> ('h, 'c) uart_drv) option" where
  "uart_write uport user_buf cnt s =
     do {
       u \<leftarrow> aget (uart s) (unat uport);
       f \<leftarrow> u_tx u;
       (n, f) \<leftarrow> kfifo_put user_buf cnt f;
       s \<leftarrow> put_uart uport (u\<lparr>u_tx := Some f\<rparr>) s;
       Some (n, s)
     }"

text \<open>A command with what its parameter points to; the buffer of a peek may be \<^verbatim>\<open>NULL\<close>.\<close>

datatype 'c uart_cmd =
  CMD_SEND_BACKGROUND
  | CMD_UART_RESET
  | CMD_RX_COUNT
  | CMD_RX_PEEK u32 "u8 list option" u32
  | CMD_UART_INIT uart_config
  | CMD_UART_SET_RX_CALLBACK "'c uart_callback_des option"
  | CMD_UART_SET_TX_CALLBACK "'c uart_callback_des option"
  | CMD_SET_STOP_END u8
  | CMD_UART_SET_TX_FIFO_NEEDWR_CALLBACK "'c uart_callback_des option"
  | CMD_SET_TX_FIFO_NEEDWR_INT u8
  | CMD_DISABLE_UART_RX
  | CMD_OTHER u32

definition des :: "'c uart_callback_des option \<Rightarrow> 'c uart_callback_des" where
  "des d = (case d of Some d \<Rightarrow> d | None \<Rightarrow> (None, 0))"

text \<open>The result, the bytes of a peek and the state.\<close>

fun uart_ctrl_cmd :: "'h uart_hw \<Rightarrow> fifo_memory \<Rightarrow> u8 \<Rightarrow> 'c uart_cmd \<Rightarrow> ('h, 'c) uart_drv \<Rightarrow>
    (u32 \<times> u8 list option \<times> ('h, 'c) uart_drv) option" where
  "uart_ctrl_cmd hw m uport CMD_SEND_BACKGROUND s =
     (if uport = UART1_PORT then Some (UART_SUCCESS, None, s)
      else do { s \<leftarrow> uart_send_backgroud hw s; Some (UART_SUCCESS, None, s) })"
| "uart_ctrl_cmd hw m uport CMD_UART_RESET s = do { s \<leftarrow> uart_reset hw m uport s; Some (UART_SUCCESS, None, s) }"
| "uart_ctrl_cmd hw m uport CMD_RX_COUNT s =
     do { u \<leftarrow> aget (uart s) (unat uport); f \<leftarrow> u_rx u; Some (kfifo_data_size f, None, s) }"
| "uart_ctrl_cmd hw m uport (CMD_RX_PEEK sig ptr len) s =
     (case ptr of
        Some b \<Rightarrow> (if URX_PEEK_SIG \<noteq> sig \<or> 0 = len then Some (UART_SUCCESS, None, s)
          else do { u \<leftarrow> aget (uart s) (unat uport); f \<leftarrow> u_rx u; (n, b) \<leftarrow> kfifo_out_peek f b len; Some (n, Some b, s) })
      | None \<Rightarrow> Some (UART_SUCCESS, None, s))"
| "uart_ctrl_cmd hw m uport (CMD_UART_INIT cfg) s =
     do { h \<leftarrow> uart_hw_set_change hw uport cfg (ud_hw s); Some (UART_SUCCESS, None, s\<lparr>ud_hw := h\<rparr>) }"
| "uart_ctrl_cmd hw m uport (CMD_UART_SET_RX_CALLBACK d) s =
     Some (UART_SUCCESS, None, snd (uart_rx_callback_set (uint uport) (fst (des d)) (snd (des d)) s))"
| "uart_ctrl_cmd hw m uport (CMD_UART_SET_TX_CALLBACK d) s =
     Some (UART_SUCCESS, None, snd (uart_tx_end_callback_set (uint uport) (fst (des d)) (snd (des d)) s))"
| "uart_ctrl_cmd hw m uport (CMD_UART_SET_TX_FIFO_NEEDWR_CALLBACK d) s =
     Some (UART_SUCCESS, None, snd (uart_tx_fifo_needwr_callback_set (uint uport) (fst (des d)) (snd (des d)) s))"
| "uart_ctrl_cmd hw m uport (CMD_SET_STOP_END v) s =
     Some (UART_SUCCESS, None, s\<lparr>ud_hw := uart_set_tx_stop_end_int hw uport v (ud_hw s)\<rparr>)"
| "uart_ctrl_cmd hw m uport (CMD_SET_TX_FIFO_NEEDWR_INT v) s =
     Some (UART_SUCCESS, None, s\<lparr>ud_hw := uart_set_tx_fifo_needwr_int hw uport v (ud_hw s)\<rparr>)"
| "uart_ctrl_cmd hw m uport CMD_DISABLE_UART_RX s =
     Some (UART_SUCCESS, None, s\<lparr>ud_hw := uart_disable_rx hw uport (ud_hw s)\<rparr>)"
| "uart_ctrl_cmd hw m uport (CMD_OTHER c) s = Some (UART_SUCCESS, None, s)"

definition uart_ctrl :: "'h uart_hw \<Rightarrow> fifo_memory \<Rightarrow> u8 \<Rightarrow> 'c uart_cmd \<Rightarrow> ('h, 'c) uart_drv \<Rightarrow>
    (u32 \<times> u8 list option \<times> ('h, 'c) uart_drv) option" where
  "uart_ctrl hw m uport cmd s =
     do {
       (ret, b, s) \<leftarrow> uart_ctrl_cmd hw m uport cmd (s\<lparr>peri_busy := peri_busy s + 1\<rparr>);
       Some (ret, b, s\<lparr>peri_busy := peri_busy s - 1\<rparr>)
     }"

text \<open>The functions of the two ports.\<close>

definition uart1_init :: "'h uart_hw \<Rightarrow> fifo_memory \<Rightarrow> ('h, 'c) uart_drv \<Rightarrow> ('h, 'c) uart_drv option" where
  "uart1_init hw m s = uart_port_init hw m UART1_PORT s"

definition uart2_init :: "'h uart_hw \<Rightarrow> fifo_memory \<Rightarrow> ('h, 'c) uart_drv \<Rightarrow> ('h, 'c) uart_drv option" where
  "uart2_init hw m s = uart_port_init hw m UART2_PORT s"

definition uart1_exit :: "'h uart_hw \<Rightarrow> ('h, 'c) uart_drv \<Rightarrow> ('h, 'c) uart_drv option" where
  "uart1_exit hw s = uart_port_exit hw UART1_PORT s"

definition uart2_exit :: "'h uart_hw \<Rightarrow> ('h, 'c) uart_drv \<Rightarrow> ('h, 'c) uart_drv option" where
  "uart2_exit hw s = uart_port_exit hw UART2_PORT s"

definition uart1_ctrl :: "'h uart_hw \<Rightarrow> fifo_memory \<Rightarrow> 'c uart_cmd \<Rightarrow> ('h, 'c) uart_drv \<Rightarrow> (u32 \<times> u8 list option \<times> ('h, 'c) uart_drv) option" where
  "uart1_ctrl hw m cmd s = uart_ctrl hw m UART1_PORT cmd s"

definition uart2_ctrl :: "'h uart_hw \<Rightarrow> fifo_memory \<Rightarrow> 'c uart_cmd \<Rightarrow> ('h, 'c) uart_drv \<Rightarrow> (u32 \<times> u8 list option \<times> ('h, 'c) uart_drv) option" where
  "uart2_ctrl hw m cmd s = uart_ctrl hw m UART2_PORT cmd s"

text \<open>Waiting until both ports have sent everything, port 2 first.\<close>

partial_function (option) wait_empty :: "'h uart_hw \<Rightarrow> bool \<Rightarrow> 'h \<Rightarrow> 'h option" where
  "wait_empty hw p h =
     (let (v, h) = ur_rd hw p REG_UART_FIFO_STATUS h
      in if drop_bit 17 (v AND TX_FIFO_EMPTY) = 0 then wait_empty hw p h else Some h)"

declare wait_empty.simps [code]

definition uart_wait_tx_over :: "'h uart_hw \<Rightarrow> 'h \<Rightarrow> 'h option" where
  "uart_wait_tx_over hw h = do { h \<leftarrow> wait_empty hw (second UART2_PORT) h; wait_empty hw (second UART1_PORT) h }"

end
