(* ===== verification/TklUart.thy ===== *)
theory TklUart
  imports UartDrv
begin

text \<open>
  The serial interface of Beken's SDK, \<^verbatim>\<open>func/user_driver/BkDriverUart.c\<close>, and of TuyaOS, \<^verbatim>\<open>tuyaos_adapter/src/tkl_uart.c\<close>,
  over the driver of UartDrv.

  Every function of the SDK opens the device of its port. What the device table does then is what DrvModel proves of it:
  the first user opens the driver, every user is counted, and the last that closes it closes the driver. That opening the
  driver registers it a second time is recorded as a call of UartDrv and has no other effect here.
\<close>

section \<open>The devices\<close>

record ('h, 'c) uart_sys =
  us_drv :: "('h, 'c) uart_drv"
  us_opened :: "bool list"
  us_users :: "u32 list"

definition uart_dev_open :: "'h uart_hw \<Rightarrow> fifo_memory \<Rightarrow> u8 \<Rightarrow> ('h, 'c) uart_sys \<Rightarrow> ('h, 'c) uart_sys option" where
  "uart_dev_open hw m port s =
     do {
       opened \<leftarrow> aget (us_opened s) (unat port);
       if opened
       then do { n \<leftarrow> aget (us_users s) (unat port); Some (s\<lparr>us_users := (us_users s)[unat port := n + 1]\<rparr>) }
       else do {
         (_, d) \<leftarrow> uart_open hw m port (us_drv s);
         Some (s\<lparr>us_drv := d, us_opened := (us_opened s)[unat port := True], us_users := (us_users s)[unat port := 1]\<rparr>)
       }
     }"

definition uart_dev_close :: "'h uart_hw \<Rightarrow> u8 \<Rightarrow> ('h, 'c) uart_sys \<Rightarrow> ('h, 'c) uart_sys option" where
  "uart_dev_close hw port s =
     do {
       n \<leftarrow> aget (us_users s) (unat port);
       let s = s\<lparr>us_users := (us_users s)[unat port := n - 1]\<rparr>;
       if n - 1 = 0
       then do { (_, d) \<leftarrow> uart_close hw port (us_drv s); Some (s\<lparr>us_drv := d, us_opened := (us_opened s)[unat port := False]\<rparr>) }
       else Some s
     }"

definition uart_dev_control :: "'h uart_hw \<Rightarrow> fifo_memory \<Rightarrow> u8 \<Rightarrow> 'c uart_cmd \<Rightarrow> ('h, 'c) uart_sys \<Rightarrow>
    (u32 \<times> u8 list option \<times> ('h, 'c) uart_sys) option" where
  "uart_dev_control hw m port cmd s =
     do { (ret, b, d) \<leftarrow> uart_ctrl hw m port cmd (us_drv s); Some (ret, b, s\<lparr>us_drv := d\<rparr>) }"

section \<open>The functions of the SDK\<close>

datatype os_status = kNoErr | kGeneralErr

text \<open>A port that is not \<^verbatim>\<open>BK_UART_1\<close> is the second one.\<close>

definition bk_dev :: "u8 \<Rightarrow> u8" where "bk_dev port = (if port = UART1_PORT then UART1_PORT else UART2_PORT)"

definition bk_uart_initialize :: "'h uart_hw \<Rightarrow> fifo_memory \<Rightarrow> u8 \<Rightarrow> uart_config \<Rightarrow> ('h, 'c) uart_sys \<Rightarrow> (u32 \<times> ('h, 'c) uart_sys) option" where
  "bk_uart_initialize hw m port cfg s =
     (if 2 \<le> port then None
      else do {
        s \<leftarrow> uart_dev_open hw m (bk_dev port) s;
        (ret, _, s) \<leftarrow> uart_dev_control hw m (bk_dev port) (CMD_UART_INIT cfg) s;
        Some (ret, s)
      })"

definition bk_uart_finalize :: "'h uart_hw \<Rightarrow> fifo_memory \<Rightarrow> u8 \<Rightarrow> ('h, 'c) uart_sys \<Rightarrow> (os_status \<times> ('h, 'c) uart_sys) option" where
  "bk_uart_finalize hw m port s =
     do { s \<leftarrow> uart_dev_open hw m (bk_dev port) s; s \<leftarrow> uart_dev_close hw (bk_dev port) s; Some (kNoErr, s) }"

definition bk_uart_send :: "'h uart_hw \<Rightarrow> u8 \<Rightarrow> u8 list \<Rightarrow> u32 \<Rightarrow> ('h, 'c) uart_sys \<Rightarrow> (os_status \<times> ('h, 'c) uart_sys) option" where
  "bk_uart_send hw port data sz s =
     do { h \<leftarrow> bk_send_string hw port data (ud_hw (us_drv s)); Some (kNoErr, s\<lparr>us_drv := (us_drv s)\<lparr>ud_hw := h\<rparr>\<rparr>) }"

definition bk_uart_recv :: "'h uart_hw \<Rightarrow> fifo_memory \<Rightarrow> u8 \<Rightarrow> u8 list \<Rightarrow> u32 \<Rightarrow> ('h, 'c) uart_sys \<Rightarrow>
    (os_status \<times> u8 list \<times> ('h, 'c) uart_sys) option" where
  "bk_uart_recv hw m port data sz s =
     do {
       s \<leftarrow> uart_dev_open hw m (bk_dev port) s;
       (ret, _, s) \<leftarrow> uart_dev_control hw m (bk_dev port) CMD_RX_COUNT s;
       if ret < sz then Some (kGeneralErr, data, s)
       else do {
         (ret, data, d) \<leftarrow> uart_read (bk_dev port) data sz (us_drv s);
         if sz \<noteq> ret then None else Some (kNoErr, data, s\<lparr>us_drv := d\<rparr>)
       }
     }"

definition bk_uart_recv_prefetch :: "'h uart_hw \<Rightarrow> fifo_memory \<Rightarrow> u8 \<Rightarrow> u8 list option \<Rightarrow> u32 \<Rightarrow> ('h, 'c) uart_sys \<Rightarrow>
    (os_status \<times> u8 list option \<times> ('h, 'c) uart_sys) option" where
  "bk_uart_recv_prefetch hw m port data sz s =
     do {
       s \<leftarrow> uart_dev_open hw m (bk_dev port) s;
       (ret, b, s) \<leftarrow> uart_dev_control hw m (bk_dev port) (CMD_RX_PEEK URX_PEEK_SIG data sz) s;
       if sz \<noteq> ret then None else Some (kNoErr, (if b = None then data else b), s)
     }"

definition bk_uart_get_length_in_buffer :: "'h uart_hw \<Rightarrow> fifo_memory \<Rightarrow> u8 \<Rightarrow> ('h, 'c) uart_sys \<Rightarrow> (u32 \<times> ('h, 'c) uart_sys) option" where
  "bk_uart_get_length_in_buffer hw m port s =
     do {
       s \<leftarrow> uart_dev_open hw m (bk_dev port) s;
       (ret, _, s) \<leftarrow> uart_dev_control hw m (bk_dev port) CMD_RX_COUNT s;
       Some (ret, s)
     }"

definition bk_uart_set_rx_callback :: "'h uart_hw \<Rightarrow> fifo_memory \<Rightarrow> u8 \<Rightarrow> 'c option \<Rightarrow> u32 \<Rightarrow> ('h, 'c) uart_sys \<Rightarrow> (os_status \<times> ('h, 'c) uart_sys) option" where
  "bk_uart_set_rx_callback hw m port callback param s =
     do {
       s \<leftarrow> uart_dev_open hw m (bk_dev port) s;
       (ret, _, s) \<leftarrow> uart_dev_control hw m (bk_dev port) (CMD_UART_SET_RX_CALLBACK (Some (callback, param))) s;
       if ret \<noteq> UART_SUCCESS then None else Some (kNoErr, s)
     }"

definition bk_uart_diable_rx :: "'h uart_hw \<Rightarrow> fifo_memory \<Rightarrow> u8 \<Rightarrow> ('h, 'c) uart_sys \<Rightarrow> (os_status \<times> ('h, 'c) uart_sys) option" where
  "bk_uart_diable_rx hw m port s =
     do {
       s \<leftarrow> uart_dev_open hw m (bk_dev port) s;
       (ret, _, s) \<leftarrow> uart_dev_control hw m (bk_dev port) CMD_DISABLE_UART_RX s;
       if ret \<noteq> UART_SUCCESS then None else Some (kNoErr, s)
     }"

section \<open>The functions of TuyaOS\<close>

record tuya_uart_cfg =
  tu_baudrate :: u32
  tu_parity :: u32
  tu_databits :: u32
  tu_stopbits :: u32

definition TUYA_UART_GET_PORT_NUMBER :: "u32 \<Rightarrow> u32" where "TUYA_UART_GET_PORT_NUMBER port_id = port_id AND 0xFFFF"

definition tkl_port :: "u32 \<Rightarrow> u8 option" where
  "tkl_port port_id =
     (if TUYA_UART_GET_PORT_NUMBER port_id = 0 then Some UART1_PORT
      else if TUYA_UART_GET_PORT_NUMBER port_id = 1 then Some UART2_PORT else None)"

definition tkl_databits :: "u32 \<Rightarrow> uart_data_width option" where
  "tkl_databits d = (if d = 5 then Some DATA_WIDTH_5BIT else if d = 6 then Some DATA_WIDTH_6BIT
     else if d = 7 then Some DATA_WIDTH_7BIT else if d = 8 then Some DATA_WIDTH_8BIT else None)"

definition tkl_stopbits :: "u32 \<Rightarrow> uart_stop_bits option" where
  "tkl_stopbits b = (if b = 1 then Some BK_STOP_BITS_1 else if b = 3 then Some BK_STOP_BITS_2 else None)"

definition tkl_parity :: "u32 \<Rightarrow> uart_parity option" where
  "tkl_parity p = (if p = 0 then Some BK_PARITY_NO else if p = 2 then Some BK_PARITY_EVEN else if p = 1 then Some BK_PARITY_ODD else None)"

definition tkl_uart_config :: "tuya_uart_cfg \<Rightarrow> uart_config option" where
  "tkl_uart_config cfg =
     do {
       w \<leftarrow> tkl_databits (tu_databits cfg);
       b \<leftarrow> tkl_stopbits (tu_stopbits cfg);
       p \<leftarrow> tkl_parity (tu_parity cfg);
       Some \<lparr>baud_rate = tu_baudrate cfg, data_width = w, parity = p, stop_bits = b\<rparr>
     }"

definition tkl_uart_init :: "'h uart_hw \<Rightarrow> fifo_memory \<Rightarrow> u32 \<Rightarrow> tuya_uart_cfg \<Rightarrow> ('h, 'c) uart_sys \<Rightarrow> (oprt \<times> ('h, 'c) uart_sys) option" where
  "tkl_uart_init hw m port_id cfg s =
     (case tkl_port port_id of
        None \<Rightarrow> Some (OPRT_INVALID_PARM, s)
      | Some port \<Rightarrow> (case tkl_uart_config cfg of
          None \<Rightarrow> Some (OPRT_OS_ADAPTER_INVALID_PARM, s)
        | Some bkcfg \<Rightarrow> do { (_, s) \<leftarrow> bk_uart_initialize hw m port bkcfg s; Some (OPRT_OK, s) }))"

definition tkl_uart_deinit :: "'h uart_hw \<Rightarrow> fifo_memory \<Rightarrow> u32 \<Rightarrow> ('h, 'c) uart_sys \<Rightarrow> (oprt \<times> ('h, 'c) uart_sys) option" where
  "tkl_uart_deinit hw m port_id s =
     (case tkl_port port_id of
        None \<Rightarrow> Some (OPRT_INVALID_PARM, s)
      | Some port \<Rightarrow> do { (_, s) \<leftarrow> bk_uart_diable_rx hw m port s; (_, s) \<leftarrow> bk_uart_finalize hw m port s; Some (OPRT_OK, s) })"

text \<open>Writing and reading work on the registers, not on the FIFOs. The result is an error or a number of bytes.\<close>

fun uart_send_loop :: "'h uart_hw \<Rightarrow> u8 \<Rightarrow> u8 list \<Rightarrow> nat \<Rightarrow> nat \<Rightarrow> 'h \<Rightarrow> 'h option" where
  "uart_send_loop hw port buff i 0 h = Some h"
| "uart_send_loop hw port buff i (Suc k) h =
     do { v \<leftarrow> aget buff i; h \<leftarrow> bk_send_byte hw port v h; uart_send_loop hw port buff (Suc i) k h }"

definition tkl_uart_write :: "'h uart_hw \<Rightarrow> u32 \<Rightarrow> u8 list \<Rightarrow> u16 \<Rightarrow> 'h \<Rightarrow> ((oprt + int) \<times> 'h) option" where
  "tkl_uart_write hw port_id buff len h =
     (case tkl_port port_id of
        None \<Rightarrow> Some (Inl OPRT_INVALID_PARM, h)
      | Some port \<Rightarrow> do { h \<leftarrow> uart_send_loop hw port buff 0 (unat len) h; Some (Inr (int (unat len)), h) })"

fun uart_read_loop :: "'h uart_hw \<Rightarrow> u8 \<Rightarrow> u8 list \<Rightarrow> nat \<Rightarrow> nat \<Rightarrow> 'h \<Rightarrow> (nat \<times> u8 list \<times> 'h) option" where
  "uart_read_loop hw port buff i 0 h = Some (i, buff, h)"
| "uart_read_loop hw port buff i (Suc k) h =
     (let (result, h) = uart_read_byte hw port h
      in if - 1 \<noteq> result
         then do { buff \<leftarrow> aset buff i (word_of_int result); uart_read_loop hw port buff (Suc i) k h }
         else Some (i, buff, h))"

definition tkl_uart_read :: "'h uart_hw \<Rightarrow> u32 \<Rightarrow> u8 list \<Rightarrow> u16 \<Rightarrow> 'h \<Rightarrow> ((oprt + int) \<times> u8 list \<times> 'h) option" where
  "tkl_uart_read hw port_id buff len h =
     (case tkl_port port_id of
        None \<Rightarrow> Some (Inl OPRT_INVALID_PARM, buff, h)
      | Some port \<Rightarrow> do { (i, buff, h) \<leftarrow> uart_read_loop hw port buff 0 (unat len) h; Some (Inr (int i), buff, h) })"

text \<open>
  The callback that is registered is \<open>handler\<close>, the address of \<^verbatim>\<open>uart_dev_irq_handler\<close>, with the function of the
  application as its parameter; \<open>app\<close> says what calling that function does.
\<close>

definition uart_dev_irq_handler :: "(u32 \<Rightarrow> u32 \<Rightarrow> ('h, 'c) uart_drv \<Rightarrow> ('h, 'c) uart_drv option) \<Rightarrow> u8 \<Rightarrow> u32 \<Rightarrow> ('h, 'c) uart_drv \<Rightarrow> ('h, 'c) uart_drv option" where
  "uart_dev_irq_handler app uport param s = app param (ucast uport) s"

definition tkl_uart_rx_irq_cb_reg :: "'h uart_hw \<Rightarrow> fifo_memory \<Rightarrow> 'c \<Rightarrow> u32 \<Rightarrow> u32 \<Rightarrow> ('h, 'c) uart_sys \<Rightarrow> ('h, 'c) uart_sys option" where
  "tkl_uart_rx_irq_cb_reg hw m handler port_id rx_cb s =
     (case tkl_port port_id of
        None \<Rightarrow> Some s
      | Some port \<Rightarrow> do { (_, s) \<leftarrow> bk_uart_set_rx_callback hw m port (Some handler) rx_cb s; Some s })"

definition tkl_uart_tx_irq_cb_reg :: "u32 \<Rightarrow> u32 \<Rightarrow> ('h, 'c) uart_sys \<Rightarrow> ('h, 'c) uart_sys" where
  "tkl_uart_tx_irq_cb_reg port_id tx_cb s = s"

definition tkl_uart_set_tx_int :: "u32 \<Rightarrow> bool \<Rightarrow> ('h, 'c) uart_sys \<Rightarrow> oprt \<times> ('h, 'c) uart_sys" where
  "tkl_uart_set_tx_int port_id enable s = (OPRT_OK, s)"

definition tkl_uart_set_rx_flowctrl :: "u32 \<Rightarrow> bool \<Rightarrow> ('h, 'c) uart_sys \<Rightarrow> oprt \<times> ('h, 'c) uart_sys" where
  "tkl_uart_set_rx_flowctrl port_id enable s = (OPRT_OK, s)"

definition tkl_uart_wait_for_data :: "u32 \<Rightarrow> int \<Rightarrow> oprt" where
  "tkl_uart_wait_for_data port_id timeout_ms = OPRT_NOT_SUPPORTED"

definition tkl_uart_ioctl :: "u32 \<Rightarrow> u32 \<Rightarrow> oprt" where
  "tkl_uart_ioctl port_id cmd = OPRT_NOT_SUPPORTED"

end
