(* ===== verification/UartFlow.thy ===== *)
theory UartFlow
  imports TklUart
begin

text \<open>
  What the serial ports deliver. \<open>uart_chip\<close> states what the manual of the controller promises about its two queues of
  bytes; the lemmas say what sending, receiving and the interrupt routines do to them. No byte arrives while an operation
  runs: what arrives later is part of the next one.
\<close>

section \<open>The controller\<close>

text \<open>The bytes received and not yet read, those written, and how often the status is still to be read before it is ready.\<close>

record 'h uchip =
  uc_hw :: "'h uart_hw"
  uc_rx :: "bool \<Rightarrow> 'h \<Rightarrow> u8 list"
  uc_tx :: "bool \<Rightarrow> 'h \<Rightarrow> u8 list"
  uc_wait :: "bool \<Rightarrow> 'h \<Rightarrow> nat"

definition same_queues :: "'h uchip \<Rightarrow> 'h \<Rightarrow> 'h \<Rightarrow> bool" where
  "same_queues C h h' \<longleftrightarrow> (\<forall>q. uc_rx C q h' = uc_rx C q h \<and> uc_tx C q h' = uc_tx C q h)"

definition sent :: "'h uchip \<Rightarrow> bool \<Rightarrow> u8 list \<Rightarrow> 'h \<Rightarrow> 'h \<Rightarrow> bool" where
  "sent C p ds h h' \<longleftrightarrow> (\<forall>q. uc_rx C q h' = uc_rx C q h \<and> uc_tx C q h' = uc_tx C q h @ (if q = p then ds else []))"

definition took :: "'h uchip \<Rightarrow> bool \<Rightarrow> nat \<Rightarrow> 'h \<Rightarrow> 'h \<Rightarrow> bool" where
  "took C p n h h' \<longleftrightarrow> (\<forall>q. uc_tx C q h' = uc_tx C q h \<and> uc_rx C q h' = (if q = p then drop n (uc_rx C q h) else uc_rx C q h))"

definition uart_chip :: "'h uchip \<Rightarrow> bool" where
  "uart_chip C \<longleftrightarrow>
     (\<forall>p h. (fst (ur_rd (uc_hw C) p REG_UART_FIFO_STATUS h) AND FIFO_RD_READY \<noteq> 0 \<longleftrightarrow> uc_rx C p h \<noteq> []) \<and>
        (fst (ur_rd (uc_hw C) p REG_UART_FIFO_STATUS h) AND FIFO_WR_READY \<noteq> 0 \<longleftrightarrow> uc_wait C p h = 0) \<and>
        same_queues C h (snd (ur_rd (uc_hw C) p REG_UART_FIFO_STATUS h)) \<and>
        uc_wait C p (snd (ur_rd (uc_hw C) p REG_UART_FIFO_STATUS h)) = uc_wait C p h - 1) \<and>
     (\<forall>p h x xs. uc_rx C p h = x # xs \<longrightarrow>
        ucast (drop_bit 8 (fst (ur_rd (uc_hw C) p REG_UART_FIFO_PORT h)) AND 0xFF) = x \<and>
        took C p 1 h (snd (ur_rd (uc_hw C) p REG_UART_FIFO_PORT h))) \<and>
     (\<forall>p h v. uc_wait C p h = 0 \<longrightarrow> sent C p [ucast v] h (ur_wr (uc_hw C) p REG_UART_FIFO_PORT v h)) \<and>
     (\<forall>p r h v. r \<in> {REG_UART_INTR_ENABLE, REG_UART_INTR_STATUS} \<longrightarrow>
        same_queues C h (snd (ur_rd (uc_hw C) p r h)) \<and> same_queues C h (ur_wr (uc_hw C) p r v h))"

lemma uart_chipD:
  assumes "uart_chip C"
  shows "fst (ur_rd (uc_hw C) p REG_UART_FIFO_STATUS h) AND FIFO_RD_READY = 0 \<longleftrightarrow> uc_rx C p h = []"
    "fst (ur_rd (uc_hw C) p REG_UART_FIFO_STATUS h) AND FIFO_WR_READY = 0 \<longleftrightarrow> uc_wait C p h \<noteq> 0"
    "same_queues C h (snd (ur_rd (uc_hw C) p REG_UART_FIFO_STATUS h))"
    "uc_wait C p (snd (ur_rd (uc_hw C) p REG_UART_FIFO_STATUS h)) = uc_wait C p h - 1"
    "uc_rx C p h = x # xs \<Longrightarrow> ucast (drop_bit 8 (fst (ur_rd (uc_hw C) p REG_UART_FIFO_PORT h)) AND 0xFF) = x"
    "uc_rx C p h = x # xs \<Longrightarrow> took C p 1 h (snd (ur_rd (uc_hw C) p REG_UART_FIFO_PORT h))"
    "uc_wait C p h = 0 \<Longrightarrow> sent C p [ucast v] h (ur_wr (uc_hw C) p REG_UART_FIFO_PORT v h)"
    "r \<in> {REG_UART_INTR_ENABLE, REG_UART_INTR_STATUS} \<Longrightarrow> same_queues C h (snd (ur_rd (uc_hw C) p r h))"
    "r \<in> {REG_UART_INTR_ENABLE, REG_UART_INTR_STATUS} \<Longrightarrow> same_queues C h (ur_wr (uc_hw C) p r v h)"
proof -
  note a = assms [unfolded uart_chip_def, THEN conjunct1, rule_format, of p h]
    and b = assms [unfolded uart_chip_def, THEN conjunct2, THEN conjunct1, rule_format, of p h x xs]
    and c = assms [unfolded uart_chip_def, THEN conjunct2, THEN conjunct2, THEN conjunct1, rule_format, of p h v]
    and d = assms [unfolded uart_chip_def, THEN conjunct2, THEN conjunct2, THEN conjunct2, rule_format, of r h p v]
  show "fst (ur_rd (uc_hw C) p REG_UART_FIFO_STATUS h) AND FIFO_RD_READY = 0 \<longleftrightarrow> uc_rx C p h = []"
    "fst (ur_rd (uc_hw C) p REG_UART_FIFO_STATUS h) AND FIFO_WR_READY = 0 \<longleftrightarrow> uc_wait C p h \<noteq> 0"
    "same_queues C h (snd (ur_rd (uc_hw C) p REG_UART_FIFO_STATUS h))"
    "uc_wait C p (snd (ur_rd (uc_hw C) p REG_UART_FIFO_STATUS h)) = uc_wait C p h - 1" using a by auto
  show "uc_rx C p h = x # xs \<Longrightarrow> ucast (drop_bit 8 (fst (ur_rd (uc_hw C) p REG_UART_FIFO_PORT h)) AND 0xFF) = x"
    "uc_rx C p h = x # xs \<Longrightarrow> took C p 1 h (snd (ur_rd (uc_hw C) p REG_UART_FIFO_PORT h))" using b by blast+
  show "uc_wait C p h = 0 \<Longrightarrow> sent C p [ucast v] h (ur_wr (uc_hw C) p REG_UART_FIFO_PORT v h)" using c by blast
  show "r \<in> {REG_UART_INTR_ENABLE, REG_UART_INTR_STATUS} \<Longrightarrow> same_queues C h (snd (ur_rd (uc_hw C) p r h))"
    "r \<in> {REG_UART_INTR_ENABLE, REG_UART_INTR_STATUS} \<Longrightarrow> same_queues C h (ur_wr (uc_hw C) p r v h)" using d by blast+
qed

lemma same_queuesD: "same_queues C h h' \<Longrightarrow> uc_rx C q h' = uc_rx C q h" "same_queues C h h' \<Longrightarrow> uc_tx C q h' = uc_tx C q h"
  by (simp_all add: same_queues_def)

lemma queue_steps:
  "same_queues C h h" "sent C p [] h h" "took C p 0 h h"
  "same_queues C h h1 \<Longrightarrow> same_queues C h1 h2 \<Longrightarrow> same_queues C h h2"
  "same_queues C h h1 \<Longrightarrow> sent C p ds h1 h2 \<Longrightarrow> sent C p ds h h2"
  "same_queues C h h1 \<Longrightarrow> took C p n h1 h2 \<Longrightarrow> took C p n h h2"
  "sent C p ds h h1 \<Longrightarrow> sent C p es h1 h2 \<Longrightarrow> sent C p (ds @ es) h h2"
  "took C p m h h1 \<Longrightarrow> took C p n h1 h2 \<Longrightarrow> took C p (m + n) h h2"
  "same_queues C h h1 \<Longrightarrow> took C p 0 h h1"
  by (auto simp: same_queues_def sent_def took_def drop_drop add.commute)

section \<open>Sending\<close>

lemma wait_write_ok:
  fixes h :: 'h
  assumes "uart_chip C"
  shows "\<exists>h'. wait_write (uc_hw C) p h = Some h' \<and> same_queues C h h' \<and> uc_wait C p h' = 0"
proof (induction "uc_wait C p h" arbitrary: h)
  case 0
  note c = uart_chipD(2-4) [OF assms, where p = p and h = h]
  show ?case using c 0 by (subst wait_write.simps) (auto simp: case_prod_beta)
next
  case (Suc n)
  note c = uart_chipD(2-4) [OF assms, where p = p and h = h]
  have "n = uc_wait C p (snd (ur_rd (uc_hw C) p REG_UART_FIFO_STATUS h))" using c(3) Suc.hyps(2) by simp
  from Suc.hyps(1) [OF this] obtain h' where "wait_write (uc_hw C) p (snd (ur_rd (uc_hw C) p REG_UART_FIFO_STATUS h)) = Some h'"
    "same_queues C (snd (ur_rd (uc_hw C) p REG_UART_FIFO_STATUS h)) h'" "uc_wait C p h' = 0"
    by blast
  moreover have "wait_write (uc_hw C) p h = wait_write (uc_hw C) p (snd (ur_rd (uc_hw C) p REG_UART_FIFO_STATUS h))"
    using c(1) Suc.hyps(2) by (subst wait_write.simps) (simp add: case_prod_beta)
  ultimately show ?case using queue_steps(4) [OF c(2)] by auto
qed

lemma ucast_byte: "(ucast (ucast (v AND 0xFF :: u8) :: u32) :: u8) = v"
proof -
  have "(0xFF :: u8) = - 1" by simp
  then have "v AND 0xFF = v" by (metis and.right_neutral)
  then show ?thesis by (simp only:) (rule bit_word_eqI, simp add: bit_simps)
qed

lemma send_byte_ok:
  assumes "uart_chip C"
  shows "\<exists>h'. bk_send_byte (uc_hw C) uport v h = Some h' \<and> sent C (second uport) [v] h h'"
proof -
  obtain h1 where h1: "wait_write (uc_hw C) (second uport) h = Some h1" "same_queues C h h1" "uc_wait C (second uport) h1 = 0"
    using wait_write_ok [OF assms] by blast
  from uart_chipD(7) [OF assms h1(3), where v = "ucast (v AND 0xFF)"] h1(1,2) queue_steps(5) show ?thesis
    by (auto simp: bk_send_byte_def UART_WRITE_BYTE_def ucast_byte)
qed

lemma send_loop_ok:
  assumes "uart_chip C" "i + k \<le> length buff"
  shows "\<exists>h'. uart_send_loop (uc_hw C) uport buff i k h = Some h' \<and> sent C (second uport) (take k (drop i buff)) h h'"
  using assms(2)
proof (induction k arbitrary: i h)
  case 0
  then show ?case by (simp add: queue_steps)
next
  case (Suc k)
  obtain h1 where h1: "bk_send_byte (uc_hw C) uport (buff ! i) h = Some h1" "sent C (second uport) [buff ! i] h h1"
    using send_byte_ok [OF assms(1)] by blast
  obtain h2 where h2: "uart_send_loop (uc_hw C) uport buff (Suc i) k h1 = Some h2" "sent C (second uport) (take k (drop (Suc i) buff)) h1 h2"
    using Suc by (metis add_Suc_shift)
  have "take (Suc k) (drop i buff) = buff ! i # take k (drop (Suc i) buff)" using Suc.prems by (simp flip: Cons_nth_drop_Suc)
  then show ?case using h1 h2 queue_steps(7) [OF h1(2) h2(2)] Suc.prems by (simp add: aget_def)
qed

text \<open>C37. Writing sends just the bytes of the buffer, in their order, on the first port for port number 0 and on the
  second for port number 1, whatever the other bits of \<^verbatim>\<open>port_id\<close> are, and returns how many they are; any other
  number is refused and nothing is sent.\<close>

theorem tkl_uart_write_outcome:
  assumes "uart_chip C" "unat len \<le> length buff"
  shows "if port_id AND 0xFFFF \<in> {0, 1}
    then \<exists>h'. tkl_uart_write (uc_hw C) port_id buff len h = Some (Inr (int (unat len)), h') \<and>
      sent C (port_id AND 0xFFFF = 1) (take (unat len) buff) h h'
    else tkl_uart_write (uc_hw C) port_id buff len h = Some (Inl OPRT_INVALID_PARM, h)"
proof (cases "tkl_port port_id")
  case (Some port)
  then have "port_id AND 0xFFFF \<in> {0, 1}" "second port = (port_id AND 0xFFFF = 1)"
    by (auto simp: tkl_port_def TUYA_UART_GET_PORT_NUMBER_def second_def UART1_PORT_def UART2_PORT_def split: if_splits)
  then show ?thesis
    using send_loop_ok [OF assms(1), of 0 "unat len" buff port h] assms(2) Some by (auto simp: tkl_uart_write_def)
next
  case None
  then have "port_id AND 0xFFFF \<notin> {0, 1}" by (auto simp: tkl_port_def TUYA_UART_GET_PORT_NUMBER_def split: if_splits)
  then show ?thesis using None by (simp add: tkl_uart_write_def)
qed

section \<open>Receiving\<close>

lemma read_byte_ok:
  assumes "uart_chip C"
  shows "uc_rx C (second uport) h = [] \<Longrightarrow> \<exists>h'. uart_read_byte (uc_hw C) uport h = (- 1, h') \<and> same_queues C h h'"
    "uc_rx C (second uport) h = x # xs \<Longrightarrow> \<exists>v h'. uart_read_byte (uc_hw C) uport h = (uint v, h') \<and> (ucast (v :: u32) :: u8) = x \<and> took C (second uport) 1 h h'"
proof -
  note c = uart_chipD(1,3) [OF assms, where p = "second uport" and h = h]
  show "uc_rx C (second uport) h = [] \<Longrightarrow> \<exists>h'. uart_read_byte (uc_hw C) uport h = (- 1, h') \<and> same_queues C h h'"
    using c by (simp add: uart_read_byte_def case_prod_beta)
  assume rx: "uc_rx C (second uport) h = x # xs"
  define h1 where "h1 = snd (ur_rd (uc_hw C) (second uport) REG_UART_FIFO_STATUS h)"
  have "uc_rx C (second uport) h1 = x # xs" using same_queuesD(1) [OF c(2)] rx by (simp add: h1_def)
  note d = uart_chipD(5,6) [OF assms this]
  have "took C (second uport) 1 h (snd (ur_rd (uc_hw C) (second uport) REG_UART_FIFO_PORT h1))"
    using queue_steps(6) [OF c(2)] d(2) by (simp add: h1_def)
  then show "\<exists>v h'. uart_read_byte (uc_hw C) uport h = (uint v, h') \<and> (ucast (v :: u32) :: u8) = x \<and> took C (second uport) 1 h h'"
    using c(1) rx d(1)
    by (intro exI [of _ "drop_bit 8 (fst (ur_rd (uc_hw C) (second uport) REG_UART_FIFO_PORT h1)) AND 0xFF"])
      (simp add: uart_read_byte_def UART_READ_BYTE_def case_prod_beta h1_def)
qed

lemma uart_read_loop_ok:
  assumes "uart_chip C" "i + k \<le> length buff"
  shows "\<exists>h'. uart_read_loop (uc_hw C) uport buff i k h =
      Some (i + min k (length (uc_rx C (second uport) h)),
        take i buff @ take k (uc_rx C (second uport) h) @ drop (i + min k (length (uc_rx C (second uport) h))) buff, h') \<and>
    took C (second uport) (min k (length (uc_rx C (second uport) h))) h h'"
  using assms(2)
proof (induction k arbitrary: i h buff)
  case 0
  then show ?case by (simp add: queue_steps)
next
  case (Suc k)
  show ?case
  proof (cases "uc_rx C (second uport) h")
    case Nil
    then show ?thesis using read_byte_ok(1) [OF assms(1) Nil] queue_steps(9) by auto
  next
    case (Cons x xs)
    obtain v h1 where h1: "uart_read_byte (uc_hw C) uport h = (uint v, h1)" "(ucast (v :: u32) :: u8) = x" "took C (second uport) 1 h h1"
      using read_byte_ok(2) [OF assms(1) Cons] by blast
    have v: "(word_of_int (uint v) :: u8) = x" using h1(2) by simp
    have "0 \<le> uint v" by simp
    then have "- 1 \<noteq> uint v" by linarith
    then have run: "uart_read_loop (uc_hw C) uport buff i (Suc k) h = uart_read_loop (uc_hw C) uport (buff[i := x]) (Suc i) k h1"
      using h1(1) v Suc.prems by (simp add: aset_def)
    have rx: "uc_rx C (second uport) h1 = xs" using h1(3) Cons by (simp add: took_def)
    have i: "i < length buff" using Suc.prems by simp
    obtain h2 where h2: "uart_read_loop (uc_hw C) uport (buff[i := x]) (Suc i) k h1 =
        Some (Suc i + min k (length xs), take (Suc i) (buff[i := x]) @ take k xs @ drop (Suc i + min k (length xs)) (buff[i := x]), h2)"
      "took C (second uport) (min k (length xs)) h1 h2"
      using Suc.IH [of "Suc i" "buff[i := x]" h1] Suc.prems rx by auto
    have "take (Suc i) (buff[i := x]) = take i buff @ [x]" using i by (simp add: take_Suc_conv_app_nth)
    then show ?thesis using run h2 queue_steps(8) [OF h1(3) h2(2)] by (simp add: Cons)
  qed
qed

text \<open>Reading gives the bytes received on the port in their order, as many as there are and have room.\<close>

theorem tkl_uart_read_outcome:
  fixes h :: 'h
  assumes "uart_chip C" "unat len \<le> length buff" "tkl_port port_id = Some port"
  defines "rx \<equiv> uc_rx C (second port) h"
  shows "\<exists>h'. tkl_uart_read (uc_hw C) port_id buff len h = Some (Inr (int (min (unat len) (length rx))),
      take (unat len) rx @ drop (min (unat len) (length rx)) buff, h') \<and> took C (second port) (min (unat len) (length rx)) h h'"
  using uart_read_loop_ok [OF assms(1), of 0 "unat len" buff port h] assms(2,3) unfolding rx_def by (auto simp: tkl_uart_read_def)

section \<open>The interrupt routines\<close>

text \<open>Draining the controller into a FIFO: what has no room is lost.\<close>

lemma put_one:
  assumes "kfifo_ok f"
  shows "\<exists>f' n. kfifo_put [x] 1 f = Some (n, f') \<and> kfifo_ok f' \<and> kf_cap f' = kf_cap f \<and>
    kf_contents f' = kf_contents f @ take (kf_cap f - kf_used f) [x]"
proof -
  have "min 1 (kf_cap f - kf_used f) = (if kf_cap f - kf_used f = 0 then 0 else 1)" by simp
  then show ?thesis using kfifo_put_ok [OF assms, of 1 "[x]"] by (auto split: if_splits)
qed

lemma read_frame_ok:
  assumes "uart_chip C" "kfifo_ok f"
  shows "\<exists>n f' h'. read_frame_loop (uc_hw C) uport c f h = Some (n, f', h') \<and> kfifo_ok f' \<and> kf_cap f' = kf_cap f \<and>
    kf_contents f' = kf_contents f @ take (kf_cap f - kf_used f) (uc_rx C (second uport) h) \<and>
    took C (second uport) (length (uc_rx C (second uport) h)) h h'"
  using assms(2)
proof (induction "uc_rx C (second uport) h" arbitrary: c f h)
  case Nil
  note d = uart_chipD(1,3) [OF assms(1), where p = "second uport" and h = h]
  show ?case using d Nil by (subst read_frame_loop.simps) (auto simp: case_prod_beta intro: queue_steps(9))
next
  case (Cons x xs)
  let ?p = "second uport"
  note d = uart_chipD(1,3) [OF assms(1), where p = ?p and h = h]
  define h1 where "h1 = snd (ur_rd (uc_hw C) ?p REG_UART_FIFO_STATUS h)"
  have rx: "uc_rx C ?p h1 = x # xs" using same_queuesD(1) [OF d(2)] Cons.hyps(2) by (simp add: h1_def)
  note e = uart_chipD(5,6) [OF assms(1) rx]
  define h2 where "h2 = snd (ur_rd (uc_hw C) ?p REG_UART_FIFO_PORT h1)"
  have h2: "took C ?p 1 h h2" using queue_steps(6) [OF d(2)] e(2) by (simp add: h1_def h2_def)
  then have rx2: "xs = uc_rx C ?p h2" using Cons.hyps(2) by (simp add: took_def flip: Cons.hyps(2))
  obtain f1 n where f1: "kfifo_put [x] 1 f = Some (n, f1)" "kfifo_ok f1" "kf_cap f1 = kf_cap f"
    "kf_contents f1 = kf_contents f @ take (kf_cap f - kf_used f) [x]" using put_one [OF Cons.prems] by blast
  have "read_frame_loop (uc_hw C) uport c f h = read_frame_loop (uc_hw C) uport (c + n) f1 h2"
    using d(1) f1(1) e(1) Cons.hyps(2)
    by (subst read_frame_loop.simps) (auto simp: case_prod_beta UART_READ_BYTE_def h1_def h2_def)
  moreover obtain n' f' h' where "read_frame_loop (uc_hw C) uport (c + n) f1 h2 = Some (n', f', h')" "kfifo_ok f'"
    "kf_cap f' = kf_cap f1" "kf_contents f' = kf_contents f1 @ take (kf_cap f1 - kf_used f1) xs"
    "took C ?p (length xs) h2 h'" using Cons.hyps(1) [OF rx2 f1(2), of "c + n"] rx2 by auto
  moreover have "kf_used f1 = kf_used f + min (kf_cap f - kf_used f) 1"
    using arg_cong [OF f1(4), of length] by simp
  then have "kf_cap f1 - kf_used f1 = (kf_cap f - kf_used f) - 1" using f1(3) by linarith
  then have "take (kf_cap f - kf_used f) [x] @ take (kf_cap f1 - kf_used f1) xs = take (kf_cap f - kf_used f) (x # xs)"
    by (cases "kf_cap f - kf_used f") simp_all
  moreover have "took C ?p (length (x # xs)) h h'" using queue_steps(8) [OF h2 calculation(6)] by simp
  ultimately show ?case using f1(3,4) by (auto simp flip: Cons.hyps(2))
qed

definition rx_cause :: "'h uchip \<Rightarrow> bool \<Rightarrow> 'h \<Rightarrow> u32" where
  "rx_cause C p h = fst (isr_status (uc_hw C) p h)"

lemma isr_status_ok: "uart_chip C \<Longrightarrow> same_queues C h (snd (isr_status (uc_hw C) p h))"
  unfolding isr_status_def case_prod_beta Let_def snd_conv
  by (rule queue_steps(4) [OF queue_steps(4)]; (rule uart_chipD(8,9))?; simp)

text \<open>C35. When bytes arrive on the first port outside the factory test mode (whose flag is the argument \<open>False\<close>), the
  callback that is registered runs in a state where reading the port gives them in their order, and then the causes of
  sending are served. (In the test mode the driver empties the port into its FIFO first, as it always does on the second
  port.)\<close>

theorem uart1_isr_delivers:
  assumes "uart_chip C" "rx_cause C (second UART1_PORT) (ud_hw s) AND (RX_FIFO_NEED_READ_STA OR UART_RX_STOP_END_STA) \<noteq> 0"
    "uart_receive_callback s = (Some c, par) # ds" "unat len \<le> length buff" "TUYA_UART_GET_PORT_NUMBER port_id = 0"
  defines "rx \<equiv> uc_rx C (second UART1_PORT) (ud_hw s)"
  shows "\<exists>s1 h'. uart1_isr (uc_hw C) run False s =
      do { s2 \<leftarrow> run c UART1_PORT par s1; isr_transmit (uc_hw C) run UART1_PORT (rx_cause C (second UART1_PORT) (ud_hw s)) s2 } \<and>
    tkl_uart_read (uc_hw C) port_id buff len (ud_hw s1) =
      Some (Inr (int (min (unat len) (length rx))), take (unat len) rx @ drop (min (unat len) (length rx)) buff, h')"
proof -
  define s1 where "s1 = s\<lparr>ud_hw := snd (isr_status (uc_hw C) (second UART1_PORT) (ud_hw s))\<rparr>"
  have "uc_rx C (second UART1_PORT) (ud_hw s1) = rx"
    using same_queuesD(1) [OF isr_status_ok [OF assms(1)]] by (simp add: s1_def rx_def)
  moreover have "tkl_port port_id = Some UART1_PORT" using assms(5) by (simp add: tkl_port_def)
  ultimately obtain h' where "tkl_uart_read (uc_hw C) port_id buff len (ud_hw s1) =
      Some (Inr (int (min (unat len) (length rx))), take (unat len) rx @ drop (min (unat len) (length rx)) buff, h')"
    using tkl_uart_read_outcome [OF assms(1,4)] by blast
  moreover have "uart1_isr (uc_hw C) run False s =
      do { s2 \<leftarrow> run c UART1_PORT par s1; isr_transmit (uc_hw C) run UART1_PORT (rx_cause C (second UART1_PORT) (ud_hw s)) s2 }"
    using assms(2,3) by (simp add: uart1_isr_def case_prod_beta Let_def isr_receive_def call_back_def rx_cause_def s1_def aget_def UART1_PORT_def)
  ultimately show ?thesis by blast
qed

text \<open>C36. On the second port the interrupt routine has moved the bytes to its FIFO before the callback runs, so there reading
  the port gives nothing, whatever has arrived; the bytes are in the FIFO, as far as it has room for them.\<close>

theorem uart2_isr_starves:
  assumes "uart_chip C" "rx_cause C (second UART2_PORT) (ud_hw s) AND (RX_FIFO_NEED_READ_STA OR UART_RX_STOP_END_STA) \<noteq> 0"
    "uart_receive_callback s = [d, (Some c, par)]" "uart s = [u1, u2]" "u_rx u2 = Some f" "kfifo_ok f"
    "unat len \<le> length buff" "TUYA_UART_GET_PORT_NUMBER port_id = 1"
  shows "\<exists>s1 f1 h'. uart2_isr (uc_hw C) run s =
      do { s2 \<leftarrow> run c UART2_PORT par s1; isr_transmit (uc_hw C) run UART2_PORT (rx_cause C (second UART2_PORT) (ud_hw s)) s2 } \<and>
    tkl_uart_read (uc_hw C) port_id buff len (ud_hw s1) = Some (Inr 0, buff, h') \<and>
    uart s1 = [u1, u2\<lparr>u_rx := Some f1\<rparr>] \<and>
    kf_contents f1 = kf_contents f @ take (kf_cap f - kf_used f) (uc_rx C (second UART2_PORT) (ud_hw s))"
proof -
  define h0 where "h0 = snd (isr_status (uc_hw C) (second UART2_PORT) (ud_hw s))"
  have rx: "uc_rx C (second UART2_PORT) h0 = uc_rx C (second UART2_PORT) (ud_hw s)"
    using same_queuesD(1) [OF isr_status_ok [OF assms(1)]] by (simp add: h0_def)
  obtain n f1 h1 where f1: "read_frame_loop (uc_hw C) UART2_PORT 0 f h0 = Some (n, f1, h1)"
    "kf_contents f1 = kf_contents f @ take (kf_cap f - kf_used f) (uc_rx C (second UART2_PORT) h0)"
    "took C (second UART2_PORT) (length (uc_rx C (second UART2_PORT) h0)) h0 h1"
    using read_frame_ok [OF assms(1,6)] by blast
  define s1 where "s1 = s\<lparr>ud_hw := h1, uart := [u1, u2\<lparr>u_rx := Some f1\<rparr>]\<rparr>"
  have "uc_rx C (second UART2_PORT) (ud_hw s1) = []" using f1(3) by (simp add: took_def s1_def)
  moreover have "tkl_port port_id = Some UART2_PORT" using assms(8) by (simp add: tkl_port_def)
  ultimately obtain h' where "tkl_uart_read (uc_hw C) port_id buff len (ud_hw s1) = Some (Inr 0, buff, h')"
    using tkl_uart_read_outcome [OF assms(1,7), of port_id UART2_PORT "ud_hw s1"] by auto
  moreover have "uart2_isr (uc_hw C) run s =
      do { s2 \<leftarrow> run c UART2_PORT par s1; isr_transmit (uc_hw C) run UART2_PORT (rx_cause C (second UART2_PORT) (ud_hw s)) s2 }"
    using assms(2-5) f1(1) [unfolded h0_def]
    by (simp add: uart2_isr_def case_prod_beta Let_def isr_receive_def call_back_def rx_cause_def s1_def aget_def put_uart_def
        aset_def UART2_PORT_def uart_read_fifo_frame_def)
  moreover have "uart s1 = [u1, u2\<lparr>u_rx := Some f1\<rparr>]" by (simp add: s1_def)
  ultimately show ?thesis using f1(2) unfolding rx by blast
qed

section \<open>Configuration and users\<close>

lemma low_13: "(x :: u32) AND 0x1FFF = take_bit 13 x"
proof -
  have "(0x1FFF :: u32) = mask 13" by (simp add: mask_eq_exp_minus_1)
  then show ?thesis by (simp add: take_bit_eq_mask)
qed

lemma low_13_pred:
  assumes "0 < d" "d < 4294967296"
  shows "((of_nat d - 1 :: u32) AND 0x1FFF) = of_nat ((d - 1) mod 8192)"
proof (rule word_unat_eq_iff [THEN iffD2])
  have "of_nat d - 1 = (of_nat (d - 1) :: u32)" using assms(1) by (cases d) simp_all
  then have "unat ((of_nat d - 1 :: u32) AND 0x1FFF) = take_bit 13 (unat (of_nat (d - 1) :: u32))"
    by (simp only: low_13 unsigned_take_bit_eq)
  also have "\<dots> = (d - 1) mod 8192" using assms by (subst unat_u32) (simp_all add: take_bit_eq_mod)
  also have "\<dots> = unat (of_nat ((d - 1) mod 8192) :: u32)" by (subst unat_u32) (simp_all add: order.strict_trans [OF mod_less_divisor])
  finally show "unat ((of_nat d - 1 :: u32) AND 0x1FFF) = unat (of_nat ((d - 1) mod 8192) :: u32)" .
qed

lemma div_field: "low < 256 \<Longrightarrow> drop_bit 8 (low OR push_bit 8 (x AND 0x1FFF) :: u32) = x AND 0x1FFF"
proof -
  assume "low < 256"
  then have "drop_bit 8 low = 0" by (simp add: drop_bit_eq_div word_less_nat_alt word_arith_nat_div)
  moreover have "drop_bit 8 (push_bit 8 (x AND 0x1FFF) :: u32) = x AND 0x1FFF"
    unfolding low_13 by (rule bit_word_eqI) (auto simp: bit_simps)
  ultimately show ?thesis by (simp add: drop_bit_or)
qed

lemma config_field: "drop_bit 8 (uart_config_word cfg) = (UART_CLOCK div baud_rate cfg - 1) AND 0x1FFF"
proof -
  define low :: u32 where "low = UART_TX_ENABLE OR UART_RX_ENABLE OR push_bit 3 (width_code (data_width cfg) AND UART_DATA_LEN_MASK) OR
     push_bit 5 (if parity cfg = BK_PARITY_NO then 0 else 1) OR push_bit 6 (if parity cfg = BK_PARITY_ODD then 1 else 0) OR
     push_bit 7 (stop_code (stop_bits cfg))"
  have "low < 256"
    by (cases "data_width cfg"; cases "parity cfg"; cases "stop_bits cfg")
      (simp_all add: low_def width_code_def stop_code_def UART_TX_ENABLE_def UART_RX_ENABLE_def UART_DATA_LEN_MASK_def)
  moreover have "uart_config_word cfg = low OR push_bit 8 ((UART_CLOCK div baud_rate cfg - 1) AND 0x1FFF)"
    by (simp add: uart_config_word_def low_def UART_CLK_DIVID_MASK_def or.assoc)
  ultimately show ?thesis using div_field by simp
qed

text \<open>The divider of the baud rate that a configuration puts into the register has 13 bits. It is the one wanted just for
  rates from 3174 baud on; for 2400 baud, say, the port runs at another rate, and nothing reports it.\<close>

theorem uart_divider_exact:
  assumes "baud_rate cfg \<noteq> 0" "baud_rate cfg \<le> UART_CLOCK"
  shows "drop_bit 8 (uart_config_word cfg) + 1 = UART_CLOCK div baud_rate cfg \<longleftrightarrow> 3174 \<le> baud_rate cfg"
proof -
  define b where "b = unat (baud_rate cfg)"
  define d where "d = 26000000 div b"
  have b: "0 < b" "b \<le> 26000000" using assms by (simp_all add: b_def UART_CLOCK_def word_le_nat_alt unat_gt_0)
  then have d: "0 < d" "d \<le> 26000000" by (simp_all add: d_def div_greater_zero_iff)
  have div: "UART_CLOCK div baud_rate cfg = of_nat d"
    by (simp add: UART_CLOCK_def d_def b_def word_arith_nat_div)
  have un: "unat (of_nat d :: u32) = d" using d by (subst unat_u32) simp_all
  have field: "drop_bit 8 (uart_config_word cfg) + 1 = (of_nat ((d - 1) mod 8192 + 1) :: u32)"
    using low_13_pred [of d] d by (simp add: config_field div)
  have m: "(d - 1) mod 8192 < 8192" by simp
  have "drop_bit 8 (uart_config_word cfg) + 1 = UART_CLOCK div baud_rate cfg \<longleftrightarrow> (d - 1) mod 8192 + 1 = d"
    unfolding div field using d m by (intro of_nat_u32_eq) linarith+
  also have "\<dots> \<longleftrightarrow> d \<le> 8192" using d(1) m by (metis One_nat_def Suc_pred add.commute less_eq_Suc_le mod_less plus_1_eq_Suc)
  also have "\<dots> \<longleftrightarrow> 3174 \<le> b"
  proof
    assume "d \<le> 8192"
    then have "26000000 < b * 8193" using b(1) div_less_iff_less_mult [of b 26000000 8193] by (simp add: d_def)
    then show "3174 \<le> b" by linarith
  next
    assume "3174 \<le> b"
    then have "26000000 div b \<le> 26000000 div 3174" by (rule div_le_mono2 [rotated]) simp
    then show "d \<le> 8192" by (simp add: d_def)
  qed
  also have "\<dots> \<longleftrightarrow> 3174 \<le> baud_rate cfg" by (simp add: b_def word_le_nat_alt)
  finally show ?thesis .
qed

text \<open>Ending the use of a port leaves one more user of its device than there was before, so the device is never closed:
  reception is off, but neither the FIFOs nor the interrupts are released.\<close>

theorem tkl_uart_deinit_keeps_open:
  assumes "tkl_port port_id = Some port" "us_opened s ! unat port" "us_users s ! unat port = n" "n \<noteq> - 1" "n + 1 \<noteq> 0"
    "unat port < length (us_opened s)" "unat port < length (us_users s)"
  shows "tkl_uart_deinit hw m port_id s = Some (OPRT_OK, s\<lparr>
    us_drv := (us_drv s)\<lparr>ud_hw := uart_disable_rx hw port (ud_hw (us_drv s))\<rparr>,
    us_users := (us_users s)[unat port := n + 1]\<rparr>)"
proof -
  have "port = UART1_PORT \<or> port = UART2_PORT" using assms(1) by (auto simp: tkl_port_def split: if_splits)
  then have "bk_dev port = port" by (auto simp: bk_dev_def)
  moreover have "n + 1 + 1 - 1 \<noteq> 0" using assms(5) by (simp add: add.commute)
  ultimately show ?thesis using assms
    by (simp add: tkl_uart_deinit_def bk_uart_diable_rx_def bk_uart_finalize_def uart_dev_open_def uart_dev_close_def
        uart_dev_control_def uart_ctrl_def aget_def Let_def add.commute)
qed

section \<open>A controller\<close>

record queues =
  q_rx :: "bool \<Rightarrow> u8 list"
  q_tx :: "bool \<Rightarrow> u8 list"
  q_cause :: u32

fun queues_rd :: "bool \<Rightarrow> uart_reg \<Rightarrow> queues \<Rightarrow> u32 \<times> queues" where
  "queues_rd p REG_UART_FIFO_STATUS h = (FIFO_WR_READY OR (if q_rx h p = [] then 0 else FIFO_RD_READY), h)"
| "queues_rd p REG_UART_FIFO_PORT h =
     (case q_rx h p of [] \<Rightarrow> (0, h) | x # xs \<Rightarrow> (push_bit 8 (ucast x), h\<lparr>q_rx := (q_rx h)(p := xs)\<rparr>))"
| "queues_rd p r h = (q_cause h, h)"

fun queues_wr :: "bool \<Rightarrow> uart_reg \<Rightarrow> u32 \<Rightarrow> queues \<Rightarrow> queues" where
  "queues_wr p REG_UART_FIFO_PORT v h = h\<lparr>q_tx := (q_tx h)(p := q_tx h p @ [ucast v])\<rparr>"
| "queues_wr p r v h = h"

definition queues_chip :: "queues uchip" where
  "queues_chip = \<lparr>uc_hw = \<lparr>ur_rd = queues_rd, ur_wr = queues_wr\<rparr>, uc_rx = (\<lambda>p h. q_rx h p), uc_tx = (\<lambda>p h. q_tx h p), uc_wait = (\<lambda>_ _. 0)\<rparr>"

lemma queues_chip_ok: "uart_chip queues_chip"
proof -
  have x: "(ucast (drop_bit 8 (push_bit 8 (ucast x)) AND 0xFF :: u32) :: u8) = x" for x :: u8
  proof -
    have "(0xFF :: u32) = mask 8" by (simp add: mask_eq_exp_minus_1)
    then have "(drop_bit 8 (push_bit 8 (ucast x)) AND 0xFF :: u32) = take_bit 8 (drop_bit 8 (push_bit 8 (ucast x)))"
      by (simp add: take_bit_eq_mask)
    then show ?thesis by (simp only:) (rule bit_word_eqI, simp add: bit_simps)
  qed
  have st: "(FIFO_WR_READY OR FIFO_RD_READY) AND FIFO_RD_READY \<noteq> 0" "(FIFO_WR_READY OR FIFO_RD_READY) AND FIFO_WR_READY \<noteq> 0"
    "FIFO_WR_READY AND FIFO_RD_READY = 0" "FIFO_WR_READY \<noteq> 0" "FIFO_RD_READY \<noteq> 0"
    by (simp_all add: FIFO_WR_READY_def FIFO_RD_READY_def)
  show ?thesis unfolding uart_chip_def
  proof (intro conjI allI impI)
    fix p h r v assume "r \<in> {REG_UART_INTR_ENABLE, REG_UART_INTR_STATUS}"
    then show "same_queues queues_chip h (snd (ur_rd (uc_hw queues_chip) p r h))"
      "same_queues queues_chip h (ur_wr (uc_hw queues_chip) p r v h)"
      by (auto simp: queues_chip_def same_queues_def)
  qed (auto simp: queues_chip_def same_queues_def sent_def took_def x st)
qed

definition queues0 :: queues where
  "queues0 = \<lparr>q_rx = (\<lambda>p. if p then [7, 8, 9] else [1, 2, 3]), q_tx = (\<lambda>_. []), q_cause = 2\<rparr>"

definition fifo4 :: kfifo where
  "fifo4 = \<lparr>kf_in = 0, kf_out = 0, kf_mask = 3, kf_size = 4, kf_buffer = [0, 0, 0, 0]\<rparr>"

lemma fifo4_ok: "kfifo_ok fifo4" "kf_contents fifo4 = []" "kf_cap fifo4 = 4" "kf_used fifo4 = 0"
proof -
  have "(4 :: u32) = 2 ^ 2" by simp
  then show "kfifo_ok fifo4" unfolding kfifo_ok_def by (intro conjI exI [of _ 2]) (simp_all add: fifo4_def kf_cap_def kf_used_def)
  show "kf_contents fifo4 = []" "kf_cap fifo4 = 4" "kf_used fifo4 = 0"
    by (simp_all add: kf_contents_def kf_cap_def kf_used_def fifo4_def)
qed

definition ports0 :: "(queues, nat) uart_drv" where
  "ports0 = \<lparr>ud_hw = queues0, uart = [\<lparr>u_status = 0, u_rx = Some fifo4, u_tx = Some fifo4\<rparr>, \<lparr>u_status = 0, u_rx = Some fifo4, u_tx = Some fifo4\<rparr>],
     uart_receive_callback = [(Some 5, 0), (Some 5, 0)], uart_txfifo_needwr_callback = [(None, 0), (None, 0)],
     uart_tx_end_callback = [(None, 0), (None, 0)], pirntf_port = 2, peri_busy = 0, ud_calls = []\<rparr>"

lemma ports0_simps:
  "ud_hw ports0 = queues0" "uart_receive_callback ports0 = [(Some 5, 0), (Some 5, 0)]"
  "uart ports0 = [\<lparr>u_status = 0, u_rx = Some fifo4, u_tx = Some fifo4\<rparr>, \<lparr>u_status = 0, u_rx = Some fifo4, u_tx = Some fifo4\<rparr>]"
  "rx_cause queues_chip p queues0 AND (RX_FIFO_NEED_READ_STA OR UART_RX_STOP_END_STA) \<noteq> 0"
  "TUYA_UART_GET_PORT_NUMBER 0 = 0" "TUYA_UART_GET_PORT_NUMBER 1 = 1"
  "uc_rx queues_chip (second UART1_PORT) queues0 = [1, 2, 3]" "uc_rx queues_chip (second UART2_PORT) queues0 = [7, 8, 9]"
  by (simp_all add: ports0_def rx_cause_def isr_status_def queues_chip_def queues0_def RX_FIFO_NEED_READ_STA_def
      UART_RX_STOP_END_STA_def TUYA_UART_GET_PORT_NUMBER_def second_def UART1_PORT_def UART2_PORT_def)

theorem tkl_uart_write_outcome_witness:
  "\<exists>h'. tkl_uart_write (uc_hw queues_chip) 1 [65, 66, 67] 2 queues0 = Some (Inr 2, h') \<and> q_tx h' True = [65, 66]"
  using tkl_uart_write_outcome [OF queues_chip_ok, of 2 "[65, 66, 67]" 1 queues0]
  by (auto simp: tkl_port_def ports0_simps sent_def queues_chip_def second_def UART1_PORT_def UART2_PORT_def queues0_def)

theorem tkl_uart_read_outcome_witness:
  "\<exists>h'. tkl_uart_read (uc_hw queues_chip) 0 [0, 0, 0, 0] 4 queues0 = Some (Inr 3, [1, 2, 3, 0], h')"
proof -
  have "tkl_port 0 = Some UART1_PORT" by (simp add: tkl_port_def ports0_simps)
  from tkl_uart_read_outcome [OF queues_chip_ok _ this, of 4 "[0, 0, 0, 0]" queues0] show ?thesis by (auto simp: ports0_simps)
qed

theorem uart1_isr_delivers_witness:
  "\<exists>s1 h'. uart1_isr (uc_hw queues_chip) (\<lambda>_ _ _ s. Some s) False ports0 =
      do { s2 \<leftarrow> Some s1; isr_transmit (uc_hw queues_chip) (\<lambda>_ _ _ s. Some s) UART1_PORT (rx_cause queues_chip (second UART1_PORT) queues0) s2 } \<and>
    tkl_uart_read (uc_hw queues_chip) 0 [0, 0] 2 (ud_hw s1) = Some (Inr 2, [1, 2], h')"
  using uart1_isr_delivers [OF queues_chip_ok, of ports0 5 0 "[(Some 5, 0)]" 2 "[0, 0]" 0 "\<lambda>_ _ _ s. Some s"]
  by (simp add: ports0_simps)

theorem uart2_isr_starves_witness:
  "\<exists>s1 f1 h'. uart2_isr (uc_hw queues_chip) (\<lambda>_ _ _ s. Some s) ports0 =
      do { s2 \<leftarrow> Some s1; isr_transmit (uc_hw queues_chip) (\<lambda>_ _ _ s. Some s) UART2_PORT (rx_cause queues_chip (second UART2_PORT) queues0) s2 } \<and>
    tkl_uart_read (uc_hw queues_chip) 1 [0, 0] 2 (ud_hw s1) = Some (Inr 0, [0, 0], h') \<and>
    uart s1 = [\<lparr>u_status = 0, u_rx = Some fifo4, u_tx = Some fifo4\<rparr>, \<lparr>u_status = 0, u_rx = Some f1, u_tx = Some fifo4\<rparr>] \<and>
    kf_contents f1 = [7, 8, 9]"
  using uart2_isr_starves [OF queues_chip_ok, of ports0 "(Some 5, 0)" 5 0 "\<lparr>u_status = 0, u_rx = Some fifo4, u_tx = Some fifo4\<rparr>"
      "\<lparr>u_status = 0, u_rx = Some fifo4, u_tx = Some fifo4\<rparr>" fifo4 2 "[0, 0]" 1 "\<lambda>_ _ _ s. Some s"]
  by (simp add: ports0_simps fifo4_ok)

theorem uart_divider_exact_witness:
  "drop_bit 8 (uart_config_word \<lparr>baud_rate = 9600, data_width = DATA_WIDTH_8BIT, parity = BK_PARITY_NO, stop_bits = BK_STOP_BITS_1\<rparr>) + 1 = UART_CLOCK div 9600"
  using uart_divider_exact [of "\<lparr>baud_rate = 9600, data_width = DATA_WIDTH_8BIT, parity = BK_PARITY_NO, stop_bits = BK_STOP_BITS_1\<rparr>"]
  by (simp add: UART_CLOCK_def)

theorem tkl_uart_deinit_keeps_open_witness:
  "\<exists>s'. tkl_uart_deinit (uc_hw queues_chip) ((None, True), (None, True)) 0 \<lparr>us_drv = ports0, us_opened = [True, True], us_users = [1, 1]\<rparr> = Some (OPRT_OK, s') \<and>
    us_opened s' = [True, True] \<and> us_users s' = [2, 1]"
proof -
  have "tkl_port 0 = Some UART1_PORT" by (simp add: tkl_port_def ports0_simps)
  from tkl_uart_deinit_keeps_open [OF this, of "\<lparr>us_drv = ports0, us_opened = [True, True], us_users = [1, 1]\<rparr>" 1] show ?thesis
    by (simp add: UART1_PORT_def)
qed

end
