(* ===== verification/MultiButton.thy ===== *)
theory MultiButton
  imports Prelude "HOL-Library.Numeral_Type"
begin

text \<open>
  The push buttons of \<^verbatim>\<open>func/key/multi_button.c\<close>: a state machine per button that is called every 5 ms with the level of
  its pin, debounces it and reports presses, releases, clicks and long presses, and the list of the started buttons.

  The bit fields keep their widths. Calling an attached callback is recorded as an event; callbacks do not call back
  into this module. A button is the address of its structure.
\<close>

section \<open>A button\<close>

datatype press_evt =
  PRESS_DOWN | PRESS_UP | PRESS_REPEAT | SINGLE_CLICK | DOUBLE_CLICK | LONG_RRESS_START | LONG_PRESS_HOLD | NONE_PRESS

definition evt_code :: "press_evt \<Rightarrow> 4 word" where
  "evt_code ev = (case ev of PRESS_DOWN \<Rightarrow> 0 | PRESS_UP \<Rightarrow> 1 | PRESS_REPEAT \<Rightarrow> 2 | SINGLE_CLICK \<Rightarrow> 3 | DOUBLE_CLICK \<Rightarrow> 4
     | LONG_RRESS_START \<Rightarrow> 5 | LONG_PRESS_HOLD \<Rightarrow> 6 | NONE_PRESS \<Rightarrow> 8)"

definition DEBOUNCE_TICKS :: u32 where "DEBOUNCE_TICKS = 3"
definition SHORT_TICKS :: u16 where "SHORT_TICKS = 300 div 5"
definition LONG_TICKS :: u16 where "LONG_TICKS = 1000 div 5"

lemmas btn_ticks = DEBOUNCE_TICKS_def SHORT_TICKS_def LONG_TICKS_def

record 'c button =
  ticks :: u16
  repeat :: "4 word"
  event :: "4 word"
  bstate :: "3 word"
  debounce_cnt :: "3 word"
  active_level :: "1 word"
  button_level :: "1 word"
  cb :: "press_evt \<Rightarrow> 'c option"

text \<open>
  \<^verbatim>\<open>memset\<close> is called with its last two arguments exchanged, so it sets no byte: all that is not set afterwards stays.
  \<open>level\<close> is what reading the pin gives.
\<close>

definition button_init :: "u8 \<Rightarrow> u8 \<Rightarrow> 'c button \<Rightarrow> 'c button" where
  "button_init level active b =
     b\<lparr>event := evt_code NONE_PRESS, button_level := ucast level, active_level := ucast active\<rparr>"

definition button_attach :: "press_evt \<Rightarrow> 'c option \<Rightarrow> 'c button \<Rightarrow> 'c button" where
  "button_attach ev c b = b\<lparr>cb := (cb b)(ev := c)\<rparr>"

definition button_get_event :: "'c button \<Rightarrow> 4 word" where
  "button_get_event b = event b"

text \<open>\<^verbatim>\<open>EVENT_CB\<close>: the call that is made, if a function is attached.\<close>

definition event_cb :: "'c button \<Rightarrow> press_evt \<Rightarrow> (press_evt \<times> 'c) list" where
  "event_cb b ev = (case cb b ev of None \<Rightarrow> [] | Some c \<Rightarrow> [(ev, c)])"

definition button_debounce :: "u8 \<Rightarrow> 'c button \<Rightarrow> 'c button" where
  "button_debounce level b =
     (if level \<noteq> ucast (button_level b)
      then let b = b\<lparr>debounce_cnt := debounce_cnt b + 1\<rparr>
           in if DEBOUNCE_TICKS \<le> ucast (debounce_cnt b) then b\<lparr>debounce_cnt := 0, button_level := ucast level\<rparr> else b
      else b\<lparr>debounce_cnt := 0\<rparr>)"

text \<open>The events that the switch raises, in their order, and the button after it.\<close>

definition button_switch :: "'c button \<Rightarrow> press_evt list \<times> 'c button" where
  "button_switch b =
     (let active = (button_level b = active_level b)
      in if bstate b = 0
         then if active
              then ([PRESS_DOWN], b\<lparr>event := evt_code PRESS_DOWN, ticks := 0, repeat := 1, bstate := 1\<rparr>)
              else ([], b\<lparr>event := evt_code NONE_PRESS\<rparr>)
         else if bstate b = 1
         then if \<not> active then ([PRESS_UP], b\<lparr>event := evt_code PRESS_UP, ticks := 0, bstate := 2\<rparr>)
              else if LONG_TICKS < ticks b then ([LONG_RRESS_START], b\<lparr>event := evt_code LONG_RRESS_START, bstate := 5\<rparr>)
              else ([], b)
         else if bstate b = 2
         then if active
              then let b = b\<lparr>event := evt_code PRESS_DOWN, repeat := repeat b + 1\<rparr>
                   in (PRESS_DOWN # (if repeat b = 2 then [DOUBLE_CLICK] else []) @ [PRESS_REPEAT], b\<lparr>ticks := 0, bstate := 3\<rparr>)
              else if SHORT_TICKS < ticks b
              then if repeat b = 1 then ([SINGLE_CLICK], b\<lparr>event := evt_code SINGLE_CLICK, bstate := 0\<rparr>)
                   else if repeat b = 2 then ([], b\<lparr>event := evt_code DOUBLE_CLICK, bstate := 0\<rparr>)
                   else ([], b\<lparr>bstate := 0\<rparr>)
              else ([], b)
         else if bstate b = 3
         then if \<not> active
              then let b = b\<lparr>event := evt_code PRESS_UP\<rparr>
                   in ([PRESS_UP], if ticks b < SHORT_TICKS then b\<lparr>ticks := 0, bstate := 2\<rparr> else b\<lparr>bstate := 0\<rparr>)
              else ([], b)
         else if bstate b = 5
         then if active then ([LONG_PRESS_HOLD], b\<lparr>event := evt_code LONG_PRESS_HOLD\<rparr>)
              else ([PRESS_UP], b\<lparr>event := evt_code PRESS_UP, bstate := 0\<rparr>)
         else ([], b))"

definition button_step :: "u8 \<Rightarrow> 'c button \<Rightarrow> press_evt list \<times> 'c button" where
  "button_step level b =
     button_switch (button_debounce level (if bstate b > 0 then b\<lparr>ticks := ticks b + 1\<rparr> else b))"

definition button_handler :: "u8 \<Rightarrow> 'c button \<Rightarrow> (press_evt \<times> 'c) list \<times> 'c button" where
  "button_handler level b = (let (evs, b') = button_step level b in (concat (map (event_cb b) evs), b'))"

section \<open>The started buttons\<close>

text \<open>The structures by address, the links between them (0 is \<^verbatim>\<open>NULL\<close>) and the head of the list.\<close>

record 'c buttons =
  btn :: "nat \<Rightarrow> 'c button"
  bnext :: "nat \<Rightarrow> nat"
  head_handle :: nat

text \<open>The search ends at the handle (\<open>Some True\<close>) or at the end of the list; on a list that is a circle it may not end.\<close>

partial_function (option) start_scan :: "(nat \<Rightarrow> nat) \<Rightarrow> nat \<Rightarrow> nat \<Rightarrow> bool option" where
  "start_scan nxt handle target =
     (if target = 0 then Some False else if target = handle then Some True else start_scan nxt handle (nxt target))"

definition button_start :: "nat \<Rightarrow> 'c buttons \<Rightarrow> (int \<times> 'c buttons) option" where
  "button_start handle s =
     do {
       found \<leftarrow> start_scan (bnext s) handle (head_handle s);
       if found then Some (- 1, s)
       else Some (0, s\<lparr>bnext := (bnext s)(handle := head_handle s), head_handle := handle\<rparr>)
     }"

text \<open>The pointer to a link: that of the head or that in a structure.\<close>

datatype link = Head | Next nat

fun get_link :: "link \<Rightarrow> 'c buttons \<Rightarrow> nat" where
  "get_link Head s = head_handle s"
| "get_link (Next p) s = bnext s p"

fun set_link :: "link \<Rightarrow> nat \<Rightarrow> 'c buttons \<Rightarrow> 'c buttons" where
  "set_link Head x s = s\<lparr>head_handle := x\<rparr>"
| "set_link (Next p) x s = s\<lparr>bnext := (bnext s)(p := x)\<rparr>"

partial_function (option) stop_loop :: "nat \<Rightarrow> link \<Rightarrow> 'c buttons \<Rightarrow> 'c buttons option" where
  "stop_loop handle cur s =
     (let entry = get_link cur s
      in if entry = 0 then Some s
         else if entry = handle then stop_loop handle cur (set_link cur (bnext s entry) s)
         else stop_loop handle (Next entry) s)"

definition button_stop :: "nat \<Rightarrow> 'c buttons \<Rightarrow> 'c buttons option" where
  "button_stop handle s = stop_loop handle Head s"

text \<open>\<open>levels\<close> gives the levels of the pins. The calls are recorded with the button.\<close>

partial_function (option) ticks_loop ::
  "(nat \<Rightarrow> u8) \<Rightarrow> nat \<Rightarrow> (nat \<times> press_evt \<times> 'c) list \<Rightarrow> 'c buttons \<Rightarrow> ((nat \<times> press_evt \<times> 'c) list \<times> 'c buttons) option" where
  "ticks_loop levels target calls s =
     (if target = 0 then Some (calls, s)
      else let (cs, b) = button_handler (levels target) (btn s target)
           in ticks_loop levels (bnext s target) (calls @ map (Pair target) cs) (s\<lparr>btn := (btn s)(target := b)\<rparr>))"

definition button_ticks :: "(nat \<Rightarrow> u8) \<Rightarrow> 'c buttons \<Rightarrow> ((nat \<times> press_evt \<times> 'c) list \<times> 'c buttons) option" where
  "button_ticks levels s = ticks_loop levels (head_handle s) [] s"

declare start_scan.simps [code]
declare stop_loop.simps [code]
declare ticks_loop.simps [code]

end
