(* ===== verification/ButtonFlow.thy ===== *)
theory ButtonFlow
  imports MultiButton
begin

text \<open>
  What the buttons of MultiButton report. The machine of a button is refined to one over phases and natural numbers
  (\<open>sm\<close>), on which the words of events, the timing of clicks and the way back to idle are proved; the list of the
  started buttons is refined to a list of addresses.
\<close>

section \<open>The machine of a button\<close>

datatype phase = Idle | Pressed | Released | Again | Held

definition phase_code :: "phase \<Rightarrow> 3 word" where
  "phase_code ph = (case ph of Idle \<Rightarrow> 0 | Pressed \<Rightarrow> 1 | Released \<Rightarrow> 2 | Again \<Rightarrow> 3 | Held \<Rightarrow> 5)"

text \<open>The level of the pin for a sample that is active or not.\<close>

definition lvl :: "1 word \<Rightarrow> bool \<Rightarrow> u8" where
  "lvl a p = ucast (if p then a else NOT a)"

definition bstep :: "bool \<Rightarrow> 'c button \<Rightarrow> press_evt list \<times> 'c button" where
  "bstep p b = button_step (lvl (active_level b) p) b"

fun brun :: "bool list \<Rightarrow> 'c button \<Rightarrow> press_evt list \<times> 'c button" where
  "brun [] b = ([], b)"
| "brun (p # ps) b = (let (e, b) = bstep p b; (es, b) = brun ps b in (e @ es, b))"

text \<open>The phase, whether the debounced level is active, the samples that differ from it, the ticks and the presses.\<close>

type_synonym gest = "phase \<times> bool \<times> nat \<times> nat \<times> nat"

fun sm :: "bool \<Rightarrow> gest \<Rightarrow> press_evt list \<times> gest" where
  "sm p (ph, sb, c, t, r) =
     (let t = (if ph \<noteq> Idle then (t + 1) mod 65536 else t);
          (sb, c) = (if p \<noteq> sb then if 3 \<le> c + 1 then (p, 0) else (sb, c + 1) else (sb, 0))
      in case ph of
           Idle \<Rightarrow> if sb then ([PRESS_DOWN], Pressed, sb, c, 0, 1) else ([], Idle, sb, c, t, r)
         | Pressed \<Rightarrow> if \<not> sb then ([PRESS_UP], Released, sb, c, 0, r)
             else if 200 < t then ([LONG_RRESS_START], Held, sb, c, t, r) else ([], Pressed, sb, c, t, r)
         | Released \<Rightarrow> if sb
             then let r = (r + 1) mod 16
                  in (PRESS_DOWN # (if r = 2 then [DOUBLE_CLICK] else []) @ [PRESS_REPEAT], Again, sb, c, 0, r)
             else if 60 < t then (if r = 1 then [SINGLE_CLICK] else [], Idle, sb, c, t, r)
             else ([], Released, sb, c, t, r)
         | Again \<Rightarrow> if \<not> sb then ([PRESS_UP], if t < 60 then (Released, sb, c, 0, r) else (Idle, sb, c, t, r))
             else ([], Again, sb, c, t, r)
         | Held \<Rightarrow> if sb then ([LONG_PRESS_HOLD], Held, sb, c, t, r) else ([PRESS_UP], Idle, sb, c, t, r))"

fun sm_run :: "bool list \<Rightarrow> gest \<Rightarrow> press_evt list \<times> gest" where
  "sm_run [] g = ([], g)"
| "sm_run (p # ps) g = (let (e, g) = sm p g; (es, g) = sm_run ps g in (e @ es, g))"

definition bat :: "'c button \<Rightarrow> gest \<Rightarrow> bool" where
  "bat b g = (case g of (ph, sb, c, t, r) \<Rightarrow> bstate b = phase_code ph \<and> (button_level b = active_level b) = sb \<and>
     debounce_cnt b = of_nat c \<and> c < 3 \<and> ticks b = of_nat t \<and> t < 65536 \<and> repeat b = of_nat r \<and> r < 16)"

lemma bit1_cases: "(x :: 1 word) = 0 \<or> x = 1"
proof -
  have "unat x < 2" using unsigned_less [of x, where ?'a = nat] by simp
  then have "unat x = 0 \<or> unat x = 1" by linarith
  then show ?thesis by (metis unat_0 unat_1 word_unat_eq_iff)
qed

lemma bit1_simps: "(- 1 :: 1 word) = 1" "NOT (1 :: 1 word) = 0" "NOT (0 :: 1 word) = 1" "(1 :: 1 word) \<noteq> 0"
  by (rule bit_word_eqI; simp)+ simp

lemma lvl_simps:
  "lvl a p \<noteq> ucast l \<longleftrightarrow> p \<noteq> (l = a)" "(ucast (lvl a p) = a) = p"
  using bit1_cases [of a] bit1_cases [of l] by (elim disjE; cases p; simp add: lvl_def bit1_simps)+

lemma of_nat_u16: "t < 65536 \<Longrightarrow> unat (of_nat t :: u16) = t"
  by (simp add: unat_of_nat)

lemma of_nat_4: "r < 16 \<Longrightarrow> unat (of_nat r :: 4 word) = r"
  by (simp add: unat_of_nat)

lemma ticks_bounds:
  assumes "t < 65536"
  shows "LONG_TICKS < of_nat t \<longleftrightarrow> 200 < t" "SHORT_TICKS < of_nat t \<longleftrightarrow> 60 < t" "of_nat t < SHORT_TICKS \<longleftrightarrow> t < 60"
  using assms by (simp_all add: word_less_nat_alt of_nat_u16 btn_ticks)

lemma ticks_next: "(of_nat t + 1 :: u16) = of_nat ((t + 1) mod 65536)"
  by (rule word_unat_eq_iff [THEN iffD2]) (simp add: unat_word_ariths unat_of_nat mod_simps)

lemma repeat_next: "(of_nat r + 1 :: 4 word) = of_nat ((r + 1) mod 16)"
  by (rule word_unat_eq_iff [THEN iffD2]) (simp add: unat_word_ariths unat_of_nat mod_simps)

lemma repeat_eq: "r < 16 \<Longrightarrow> (of_nat r :: 4 word) = 1 \<longleftrightarrow> r = 1" "r < 16 \<Longrightarrow> (of_nat r :: 4 word) = 2 \<longleftrightarrow> r = 2"
  by (simp_all add: word_unat_eq_iff of_nat_4)

lemma debounce_bound: "c < 3 \<Longrightarrow> DEBOUNCE_TICKS \<le> ucast (of_nat c + 1 :: 3 word) \<longleftrightarrow> c = 2"
proof -
  assume "c < 3"
  then have "c = 0 \<or> c = 1 \<or> c = 2" by linarith
  then show ?thesis by (elim disjE) (simp_all add: btn_ticks word_le_nat_alt)
qed

lemma phase_codes [simp]:
  "phase_code Idle = 0" "phase_code Pressed = 1" "phase_code Released = 2" "phase_code Again = 3" "phase_code Held = 5"
  by (simp_all add: phase_code_def)

lemma bat_debounce:
  fixes p :: bool
  assumes "bat b (ph, sb, c, t, r)"
  defines "b' \<equiv> button_debounce (lvl (active_level b) p) b"
  shows "bat b' (ph, if p \<noteq> sb \<and> c = 2 then p else sb, if p \<noteq> sb \<and> c < 2 then c + 1 else 0, t, r)"
    and "active_level b' = active_level b" "cb b' = cb b"
proof -
  have b: "bstate b = phase_code ph" "(button_level b = active_level b) = sb" "debounce_cnt b = of_nat c" "c < 3"
    "ticks b = of_nat t" "t < 65536" "repeat b = of_nat r" "r < 16" using assms(1) by (simp_all add: bat_def)
  note l = lvl_simps(1) [of "active_level b" p "button_level b"] lvl_simps(2) [of "active_level b" p]
  have d: "DEBOUNCE_TICKS \<le> ucast (debounce_cnt b + 1) \<longleftrightarrow> c = 2" unfolding b(3) by (rule debounce_bound [OF b(4)])
  show "active_level b' = active_level b" "cb b' = cb b" by (simp_all add: b'_def button_debounce_def Let_def)
  consider "p = sb" | "p \<noteq> sb" "c = 2" | "p \<noteq> sb" "c < 2" using b(4) by linarith
  then show "bat b' (ph, if p \<noteq> sb \<and> c = 2 then p else sb, if p \<noteq> sb \<and> c < 2 then c + 1 else 0, t, r)"
  proof cases
    case 1
    then have "b' = b\<lparr>debounce_cnt := 0\<rparr>" using l b(2) by (simp add: b'_def button_debounce_def)
    then show ?thesis using b 1 by (simp add: bat_def)
  next
    case 2
    then have "b' = b\<lparr>debounce_cnt := 0, button_level := ucast (lvl (active_level b) p)\<rparr>"
      using l b(2) d by (simp add: b'_def button_debounce_def Let_def)
    then show ?thesis using b 2 l by (simp add: bat_def)
  next
    case 3
    then have "b' = b\<lparr>debounce_cnt := of_nat (c + 1)\<rparr>"
      using l b(2,3) d by (simp add: b'_def button_debounce_def Let_def)
    then show ?thesis using b 3 by (auto simp: bat_def)
  qed
qed

lemma bat_step:
  assumes "bat b g"
  shows "\<exists>b'. bstep p b = (fst (sm p g), b') \<and> bat b' (snd (sm p g)) \<and> active_level b' = active_level b \<and> cb b' = cb b"
proof -
  obtain ph sb c t r where g: "g = (ph, sb, c, t, r)" by (metis prod_cases5)
  define t1 where "t1 = (if ph = Idle then t else (t + 1) mod 65536)"
  define b1 where "b1 = (if bstate b > 0 then b\<lparr>ticks := ticks b + 1\<rparr> else b)"
  have ph: "bstate b > 0 \<longleftrightarrow> ph \<noteq> Idle" using assms g by (cases ph) (simp_all add: bat_def)
  have b1: "bat b1 (ph, sb, c, t1, r)" "active_level b1 = active_level b" "cb b1 = cb b"
    using assms g ph by (auto simp: bat_def b1_def t1_def ticks_next)
  define b2 where "b2 = button_debounce (lvl (active_level b) p) b1"
  define sb2 where "sb2 = (if p \<noteq> sb \<and> c = 2 then p else sb)"
  define c2 where "c2 = (if p \<noteq> sb \<and> c < 2 then c + 1 else 0)"
  have b2: "bat b2 (ph, sb2, c2, t1, r)" "active_level b2 = active_level b" "cb b2 = cb b"
    using bat_debounce [OF b1(1), of p] b1(2,3) unfolding b2_def sb2_def c2_def by simp_all
  have c: "c < 3" "r < 16" "t1 < 65536" using assms g b1(1) by (simp_all add: bat_def)
  have "bstep p b = button_switch b2" by (simp add: bstep_def button_step_def b2_def b1_def)
  moreover have "sm p g = sm p (ph, sb, c, t, r)" by (simp add: g)
  moreover have "(if p \<noteq> sb then if 3 \<le> c + 1 then (p, 0) else (sb, c + 1) else (sb, 0)) = (sb2, c2)"
    using c by (auto simp: sb2_def c2_def)
  ultimately show ?thesis using b2 c
    by (cases ph)
      (auto simp: button_switch_def bat_def Let_def t1_def ticks_bounds repeat_next repeat_eq split: if_splits)
qed

lemma bat_run:
  "bat b g \<Longrightarrow> \<exists>b'. brun ps b = (fst (sm_run ps g), b') \<and> bat b' (snd (sm_run ps g)) \<and> active_level b' = active_level b"
proof (induction ps arbitrary: b g)
  case (Cons p ps)
  obtain b1 where b1: "bstep p b = (fst (sm p g), b1)" "bat b1 (snd (sm p g))" "active_level b1 = active_level b"
    using bat_step [OF Cons.prems] by blast
  from Cons.IH [OF b1(2)] b1(1,3) show ?case by (auto simp: case_prod_beta Let_def)
qed simp

lemma sm_run_append:
  "sm_run (ps @ qs) g = (fst (sm_run ps g) @ fst (sm_run qs (snd (sm_run ps g))), snd (sm_run qs (snd (sm_run ps g))))"
  by (induction ps arbitrary: g) (simp_all add: case_prod_beta Let_def)

section \<open>The words of events\<close>

text \<open>Which events a button may raise in one sample, from phase to phase.\<close>

inductive gesture :: "phase \<Rightarrow> press_evt list \<Rightarrow> phase \<Rightarrow> bool" where
  quiet: "gesture ph [] ph"
| press: "gesture Idle [PRESS_DOWN] Pressed"
| release: "gesture Pressed [PRESS_UP] Released"
| long: "gesture Pressed [LONG_RRESS_START] Held"
| hold: "gesture Held [LONG_PRESS_HOLD] Held"
| unhold: "gesture Held [PRESS_UP] Idle"
| click: "gesture Released [SINGLE_CLICK] Idle"
| timeout: "gesture Released [] Idle"
| again: "gesture Released [PRESS_DOWN, PRESS_REPEAT] Again"
| double: "gesture Released [PRESS_DOWN, DOUBLE_CLICK, PRESS_REPEAT] Again"
| release_again: "gesture Again [PRESS_UP] Released"
| give_up: "gesture Again [PRESS_UP] Idle"

inductive gestures :: "phase \<Rightarrow> press_evt list \<Rightarrow> phase \<Rightarrow> bool" where
  start: "gestures ph [] ph"
| step: "gestures ph es ph' \<Longrightarrow> gesture ph' e ph'' \<Longrightarrow> gestures ph (es @ e) ph''"

definition down :: "phase \<Rightarrow> bool" where "down ph \<longleftrightarrow> ph \<in> {Pressed, Again, Held}"

lemma gesture_count:
  "gesture ph e ph' \<Longrightarrow> count_list e PRESS_DOWN + of_bool (down ph) = count_list e PRESS_UP + of_bool (down ph')"
  by (induction rule: gesture.induct) (simp_all add: down_def)

lemma gestures_count:
  "gestures ph es ph' \<Longrightarrow> count_list es PRESS_DOWN + of_bool (down ph) = count_list es PRESS_UP + of_bool (down ph')"
proof (induction rule: gestures.induct)
  case (step ph es ph' e ph'')
  then show ?case using gesture_count [OF step.hyps(2)] by simp
qed simp

lemma gestures_trans: "gestures ph' fs ph'' \<Longrightarrow> gestures ph es ph' \<Longrightarrow> gestures ph (es @ fs) ph''"
  by (induction rule: gestures.induct) (simp, metis append.assoc gestures.step)

text \<open>The invariant of the machine.\<close>

definition gok :: "gest \<Rightarrow> bool" where
  "gok g = (case g of (ph, sb, c, t, r) \<Rightarrow> sb = down ph \<and> c < 3 \<and> (ph = Pressed \<longrightarrow> t \<le> 200) \<and> (ph = Released \<longrightarrow> t \<le> 60))"

lemma sm_ok:
  assumes "gok (ph, sb, c, t, r)"
  shows "gok (snd (sm p (ph, sb, c, t, r)))" "gesture ph (fst (sm p (ph, sb, c, t, r))) (fst (snd (sm p (ph, sb, c, t, r))))"
proof -
  show "gok (snd (sm p (ph, sb, c, t, r)))"
    using assms by (cases ph; cases p; cases sb) (auto simp: gok_def down_def Let_def)
  show "gesture ph (fst (sm p (ph, sb, c, t, r))) (fst (snd (sm p (ph, sb, c, t, r))))"
    using assms by (cases ph; cases p; cases sb) (auto simp: gok_def down_def Let_def intro: gesture.intros)
qed

lemma sm_run_ok: "gok g \<Longrightarrow> gok (snd (sm_run ps g)) \<and> gestures (fst g) (fst (sm_run ps g)) (fst (snd (sm_run ps g)))"
proof (induction ps arbitrary: g)
  case Nil
  then show ?case by (simp add: gestures.start)
next
  case (Cons p ps)
  obtain ph sb c t r where g: "g = (ph, sb, c, t, r)" by (metis prod_cases5)
  note s = sm_ok [OF Cons.prems [unfolded g], of p]
  have "gestures ph ([] @ fst (sm p g)) (fst (snd (sm p g)))" by (rule gestures.step [OF gestures.start]) (use s(2) in \<open>simp add: g del: sm.simps\<close>)
  note e = this
  have "gok (snd (sm p g))" using s(1) by (simp only: g)
  from Cons.IH [OF this] show ?case using gestures_trans [OF _ e] by (simp add: case_prod_beta Let_def g del: sm.simps)
qed

declare sm.simps [simp del]

section \<open>Timing\<close>

text \<open>One sample in each situation that the timing is made of.\<close>

lemma sm_idle:
  "sm False (Idle, False, c, t, r) = ([], Idle, False, 0, t, r)"
  "sm True (Idle, False, 0, t, r) = ([], Idle, False, 1, t, r)"
  "sm True (Idle, False, 1, t, r) = ([], Idle, False, 2, t, r)"
  "sm True (Idle, False, 2, t, r) = ([PRESS_DOWN], Pressed, True, 0, 0, 1)"
  by (simp_all add: sm.simps)

lemma sm_pressed:
  "t < 200 \<Longrightarrow> sm True (Pressed, True, c, t, r) = ([], Pressed, True, 0, t + 1, r)"
  "sm True (Pressed, True, c, 200, r) = ([LONG_RRESS_START], Held, True, 0, 201, r)"
  "t < 200 \<Longrightarrow> c < 2 \<Longrightarrow> sm False (Pressed, True, c, t, r) = ([], Pressed, True, c + 1, t + 1, r)"
  "c < 2 \<Longrightarrow> sm False (Pressed, True, c, 200, r) = ([LONG_RRESS_START], Held, True, c + 1, 201, r)"
  "sm False (Pressed, True, 2, t, r) = ([PRESS_UP], Released, False, 0, 0, r)"
  by (simp_all add: sm.simps)

lemma sm_released:
  "t < 60 \<Longrightarrow> sm False (Released, False, c, t, r) = ([], Released, False, 0, t + 1, r)"
  "sm False (Released, False, c, 60, r) = (if r = 1 then [SINGLE_CLICK] else [], Idle, False, 0, 61, r)"
  "t < 60 \<Longrightarrow> c < 2 \<Longrightarrow> sm True (Released, False, c, t, r) = ([], Released, False, c + 1, t + 1, r)"
  "sm True (Released, False, 2, t, r) =
     (PRESS_DOWN # (if (r + 1) mod 16 = 2 then [DOUBLE_CLICK] else []) @ [PRESS_REPEAT], Again, True, 0, 0, (r + 1) mod 16)"
  by (simp_all add: sm.simps)

lemma sm_again:
  "t < 65535 \<Longrightarrow> sm True (Again, True, c, t, r) = ([], Again, True, 0, t + 1, r)"
  "t < 65535 \<Longrightarrow> c < 2 \<Longrightarrow> sm False (Again, True, c, t, r) = ([], Again, True, c + 1, t + 1, r)"
  "t < 59 \<Longrightarrow> sm False (Again, True, 2, t, r) = ([PRESS_UP], Released, False, 0, 0, r)"
  by (simp_all add: sm.simps)

lemma replicate_3: "replicate 3 x = [x, x, x]"
  by (simp add: numeral_3_eq_3)

lemma run_idle: "0 < n \<Longrightarrow> sm_run (replicate n False) (Idle, False, c, t, r) = ([], Idle, False, 0, t, r)"
  by (induction n arbitrary: c) (case_tac n; simp add: sm_idle)+

lemma run_press: "sm_run (replicate 3 True) (Idle, False, 0, t, r) = ([PRESS_DOWN], Pressed, True, 0, 0, 1)"
  by (simp add: replicate_3 sm_idle del: One_nat_def)

lemma run_pressed: "t + n \<le> 200 \<Longrightarrow> sm_run (replicate n True) (Pressed, True, 0, t, r) = ([], Pressed, True, 0, t + n, r)"
  by (induction n arbitrary: t) (simp_all add: sm_pressed)

lemma run_release: "t + 2 \<le> 200 \<Longrightarrow> sm_run (replicate 3 False) (Pressed, True, 0, t, r) = ([PRESS_UP], Released, False, 0, 0, r)"
  by (simp add: replicate_3 sm_pressed del: One_nat_def)

lemma run_released: "t + n \<le> 60 \<Longrightarrow> sm_run (replicate n False) (Released, False, 0, t, r) = ([], Released, False, 0, t + n, r)"
  by (induction n arbitrary: t) (simp_all add: sm_released)

lemma run_timeout:
  "sm_run (replicate 61 False) (Released, False, 0, 0, r) = (if r = 1 then [SINGLE_CLICK] else [], Idle, False, 0, 61, r)"
proof -
  have "replicate (60 + 1) False = replicate 60 False @ replicate 1 False" by (rule replicate_add)
  then show ?thesis using run_released [of 0 60 r] by (simp add: sm_run_append sm_released)
qed

lemma run_press_again:
  "t + 2 \<le> 60 \<Longrightarrow> sm_run (replicate 3 True) (Released, False, 0, t, r) =
    (PRESS_DOWN # (if (r + 1) mod 16 = 2 then [DOUBLE_CLICK] else []) @ [PRESS_REPEAT], Again, True, 0, 0, (r + 1) mod 16)"
  by (simp add: replicate_3 sm_released del: One_nat_def)

lemma run_again: "t + n < 65536 \<Longrightarrow> sm_run (replicate n True) (Again, True, 0, t, r) = ([], Again, True, 0, t + n, r)"
  by (induction n arbitrary: t) (simp_all add: sm_again)

lemma run_release_again:
  "t + 2 < 59 \<Longrightarrow> sm_run (replicate 3 False) (Again, True, 0, t, r) = ([PRESS_UP], Released, False, 0, 0, r)"
  by (simp add: replicate_3 sm_again del: One_nat_def)

lemma run_held: "t < 65536 \<Longrightarrow> sm_run (replicate n True) (Held, True, 0, t, r) = (replicate n LONG_PRESS_HOLD, Held, True, 0, (t + n) mod 65536, r)"
proof (induction n arbitrary: t)
  case (Suc n)
  have "sm True (Held, True, 0, t, r) = ([LONG_PRESS_HOLD], Held, True, 0, (t + 1) mod 65536, r)" by (simp add: sm.simps)
  then show ?case using Suc.IH [of "(t + 1) mod 65536"] by (simp add: mod_simps)
qed simp

lemma sm_held:
  "c < 2 \<Longrightarrow> sm False (Held, True, c, t, r) = ([LONG_PRESS_HOLD], Held, True, c + 1, (t + 1) mod 65536, r)"
  "sm False (Held, True, 2, t, r) = ([PRESS_UP], Idle, False, 0, (t + 1) mod 65536, r)"
  by (simp_all add: sm.simps)

text \<open>Idle and debounced, with any ticks and presses.\<close>

definition rests :: "gest \<Rightarrow> bool" where
  "rests g \<longleftrightarrow> (\<exists>t r. g = (Idle, False, 0, t, r))"

lemma run_rest [simp]: "sm_run (replicate n False) (Idle, False, 0, t, r) = ([], Idle, False, 0, t, r)"
  using run_idle [of n 0 t r] by (cases n) (simp_all del: replicate_Suc)

lemma rests_simp [simp]: "rests (Idle, False, 0, t, r)"
  by (simp add: rests_def)

lemma run_click_end:
  assumes "64 \<le> n" "t + 2 \<le> 200"
  shows "sm_run (replicate n False) (Pressed, True, 0, t, r) = (PRESS_UP # (if r = 1 then [SINGLE_CLICK] else []), Idle, False, 0, 61, r)"
proof -
  have "replicate n False = replicate 3 False @ replicate 61 False @ replicate (n - 64) False"
    using assms(1) by (simp flip: replicate_add)
  then show ?thesis using run_release [OF assms(2), of r] run_timeout [of r] by (simp add: sm_run_append)
qed

lemma run_one_press:
  assumes "3 \<le> m" "m \<le> 203"
  shows "sm_run (replicate m True) (Idle, False, 0, t, r) = ([PRESS_DOWN], Pressed, True, 0, m - 3, 1)"
proof -
  have "replicate m True = replicate 3 True @ replicate (m - 3) True" using assms by (simp flip: replicate_add)
  then show ?thesis using run_pressed [of 0 "m - 3" 1] assms by (simp add: sm_run_append run_press)
qed

lemma run_short:
  assumes "m < 3" "0 < n"
  shows "\<exists>g. sm_run (replicate m True @ replicate n False) (Idle, False, 0, t, r) = ([], g) \<and> rests g"
proof -
  have "m = 0 \<or> m = 1 \<or> m = 2" using assms(1) by linarith
  then have "\<exists>c. sm_run (replicate m True) (Idle, False, 0, t, r) = ([], Idle, False, c, t, r)"
    by (elim disjE) (simp_all add: sm_idle numeral_2_eq_2 [unfolded One_nat_def] sm_idle [unfolded One_nat_def])
  then show ?thesis using run_idle [OF assms(2)] by (auto simp: sm_run_append rests_def)
qed

lemma run_long:
  assumes "202 \<le> m" "3 \<le> n"
  shows "\<exists>g. sm_run (replicate m True @ replicate n False) (Idle, False, 0, t, r) =
    (PRESS_DOWN # LONG_RRESS_START # replicate (m - 202) LONG_PRESS_HOLD @ [PRESS_UP], g) \<and> rests g"
proof -
  have n: "replicate n False = [False, False, False] @ replicate (n - 3) False"
    using assms(2) by (simp flip: replicate_3 replicate_add)
  consider "m = 202" | "m = 203" | "204 \<le> m" using assms(1) by linarith
  then show ?thesis
  proof cases
    case 1
    then show ?thesis using run_one_press [of m t r] unfolding n
      by (auto simp: sm_run_append sm_pressed sm_held simp del: One_nat_def)
  next
    case 2
    then show ?thesis using run_one_press [of m t r] unfolding n
      by (auto simp: sm_run_append sm_pressed sm_held simp del: One_nat_def)
  next
    case 3
    then have "m = 203 + (1 + (m - 204))" by simp
    then have "replicate m True = replicate 203 True @ replicate 1 True @ replicate (m - 204) True" by (metis replicate_add)
    then have "replicate m True = replicate 203 True @ [True] @ replicate (m - 204) True" by simp
    moreover have "replicate (m - 202) LONG_PRESS_HOLD = replicate (m - 204) LONG_PRESS_HOLD @ [LONG_PRESS_HOLD, LONG_PRESS_HOLD]"
    proof -
      have "m - 202 = (m - 204) + 2" using 3 by simp
      then have "replicate (m - 202) LONG_PRESS_HOLD = replicate (m - 204) LONG_PRESS_HOLD @ replicate 2 LONG_PRESS_HOLD"
        by (metis replicate_add)
      then show ?thesis by (simp add: numeral_2_eq_2)
    qed
    ultimately show ?thesis using run_one_press [of 203 t r] run_held [of 201 "m - 204" 1] unfolding n
      by (auto simp: sm_run_append sm_pressed sm_held simp del: One_nat_def)
  qed
qed

text \<open>A press of \<open>m\<close> samples after a gap of \<open>k\<close>, and a run of them.\<close>

definition again :: "nat \<Rightarrow> press_evt list" where
  "again i = PRESS_DOWN # (if i mod 16 = 2 then [DOUBLE_CLICK] else []) @ [PRESS_REPEAT, PRESS_UP]"

lemma run_click_again:
  assumes "3 \<le> k" "k \<le> 61" "3 \<le> m" "m \<le> 59" "i mod 16 < 16"
  shows "sm_run (replicate (k - 3) False @ replicate m True @ replicate 3 False) (Released, False, 0, 0, i mod 16) =
    (again (i + 1), Released, False, 0, 0, (i + 1) mod 16)"
proof -
  have "replicate m True = replicate 3 True @ replicate (m - 3) True" using assms by (simp flip: replicate_add)
  moreover have "(i mod 16 + 1) mod 16 = (i + 1) mod 16" by (simp add: mod_simps)
  ultimately show ?thesis
    using run_released [of 0 "k - 3" "i mod 16"] run_press_again [of "k - 3" "i mod 16"] run_again [of 0 "m - 3" "(i + 1) mod 16"]
      run_release_again [of "m - 3" "(i + 1) mod 16"] assms
    by (simp add: sm_run_append again_def)
qed


lemma run_clicks:
  assumes "\<forall>(k, m) \<in> set cs. 3 \<le> k \<and> k \<le> 61 \<and> 3 \<le> m \<and> m \<le> 59"
  shows "sm_run (concat (map (\<lambda>(k, m). replicate (k - 3) False @ replicate m True @ replicate 3 False) cs)) (Released, False, 0, 0, i mod 16) =
    (concat (map again [i + 1..<i + 1 + length cs]), Released, False, 0, 0, (i + length cs) mod 16)"
  using assms
proof (induction cs arbitrary: i)
  case (Cons c cs)
  obtain k m where c: "c = (k, m)" by fastforce
  have "[i + 1..<i + 1 + length (c # cs)] = (i + 1) # [i + 1 + 1..<i + 1 + 1 + length cs]" by (subst upt_conv_Cons) auto
  then show ?case using run_click_again [of k m i] Cons.IH [of "i + 1"] Cons.prems
    by (simp add: c sm_run_append del: replicate_Suc)
qed simp

lemma clicks_regroup:
  "\<forall>(k, m) \<in> set cs. 3 \<le> k \<Longrightarrow>
   concat (map (\<lambda>(k, m). replicate k False @ replicate (m :: nat) True) cs) @ replicate 3 False =
   replicate 3 False @ concat (map (\<lambda>(k, m). replicate (k - 3) False @ replicate m True @ replicate 3 False) cs)"
proof (induction cs)
  case (Cons c cs)
  obtain k m where c: "c = (k, m)" by fastforce
  have "replicate k False = replicate 3 False @ replicate (k - 3) False" using Cons.prems c by (simp flip: replicate_add)
  then show ?case using Cons by (simp add: c)
qed simp

lemma run_all_clicks:
  assumes "\<forall>(k, m) \<in> set cs. 3 \<le> k \<and> k \<le> 61 \<and> 3 \<le> m \<and> m \<le> 59" "3 \<le> m" "m \<le> 201" "64 \<le> n"
  shows "sm_run (replicate m True @ concat (map (\<lambda>(k, m). replicate k False @ replicate m True) cs) @ replicate n False) (Idle, False, 0, t, r) =
    ([PRESS_DOWN, PRESS_UP] @ concat (map again [2..<2 + length cs]) @ (if (1 + length cs) mod 16 = 1 then [SINGLE_CLICK] else []),
     Idle, False, 0, 61, (1 + length cs) mod 16)"
proof -
  have n: "replicate n False = replicate 3 False @ replicate 61 False @ replicate (n - 64) False"
    using assms(4) by (simp flip: replicate_add)
  have "\<forall>(k, m) \<in> set cs. 3 \<le> k" using assms(1) by auto
  note g = clicks_regroup [OF this]
  have eq: "replicate m True @ concat (map (\<lambda>(k, m). replicate k False @ replicate m True) cs) @ replicate n False =
    replicate m True @ replicate 3 False @ concat (map (\<lambda>(k, m). replicate (k - 3) False @ replicate m True @ replicate 3 False) cs) @
      replicate 61 False @ replicate (n - 64) False"
    unfolding n using g by simp
  have two: "(1 :: nat) + 1 = 2" "(1 :: nat) mod 16 = 1" by simp_all
  note press = run_one_press [of m t r, OF assms(2)] run_release [of "m - 3" 1] run_clicks [OF assms(1), of 1, unfolded two]
  show ?thesis unfolding eq sm_run_append using press run_timeout [of "(1 + length cs) mod 16"] assms(3)
    by (simp only: fst_conv snd_conv run_rest) simp
qed

section \<open>Back to idle\<close>

lemma run_undown:
  assumes "gok (ph, False, c, t, r)" "61 \<le> n"
  shows "rests (snd (sm_run (replicate n False) (ph, False, c, t, r)))"
proof -
  have n: "replicate n False = False # replicate (n - 1) False" using assms(2) by (cases n) simp_all
  consider "ph = Idle" | "ph = Released" "t < 60" | "ph = Released" "t = 60"
    using assms(1) by (cases ph) (auto simp: gok_def down_def order_le_less)
  then show ?thesis
  proof cases
    case 2
    have "n - 1 = (59 - t) + (1 + (n - 61 + t))" using assms(2) 2 by simp
    then have "replicate (n - 1) False = replicate (59 - t) False @ replicate 1 False @ replicate (n - 61 + t) False"
      by (metis replicate_add)
    then show ?thesis using run_released [of "t + 1" "59 - t" r] 2 unfolding n by (simp add: sm_run_append sm_released case_prod_beta)
  qed (simp_all add: n sm_idle sm_released)
qed

lemma sm_undown:
  "gok (ph, True, c, t, r) \<Longrightarrow> \<exists>ph' c' t' r'. snd (sm False (ph, True, c, t, r)) = (ph', c < 2, c', t', r') \<and> (c < 2 \<longrightarrow> c' = c + 1)"
  by (cases ph) (auto simp: gok_def down_def sm.simps Let_def)

lemma run_back:
  assumes "gok (ph, sb, c, t, r)" "(if sb then 64 - c else 61) \<le> n"
  shows "rests (snd (sm_run (replicate n False) (ph, sb, c, t, r)))"
  using assms
proof (induction "3 - c" arbitrary: ph sb c t r n rule: less_induct)
  case less
  show ?case
  proof (cases sb)
    case False
    then show ?thesis using less.prems run_undown by simp
  next
    case True
    have c: "c < 3" using less.prems by (simp add: gok_def)
    then obtain n' where n: "n = Suc n'" using less.prems True by (cases n) auto
    obtain ph' c' t' r' where s: "snd (sm False (ph, sb, c, t, r)) = (ph', c < 2, c', t', r')" "c < 2 \<longrightarrow> c' = c + 1"
      using sm_undown [of ph c t r] less.prems(1) True by auto
    have ok: "gok (ph', c < 2, c', t', r')" using sm_ok(1) [OF less.prems(1), of False] s(1) by simp
    have "rests (snd (sm_run (replicate n' False) (ph', c < 2, c', t', r')))"
    proof (cases "c < 2")
      case True
      then show ?thesis using less.hyps [OF _ ok, of n'] s(2) less.prems(2) \<open>sb\<close> n by simp
    next
      case False
      then show ?thesis using run_undown [of ph' c' t' r' n'] ok less.prems(2) \<open>sb\<close> n c by simp
    qed
    then show ?thesis using s(1) by (simp add: n case_prod_beta)
  qed
qed

section \<open>The button\<close>

definition at_rest :: "'c button \<Rightarrow> bool" where
  "at_rest b \<longleftrightarrow> bstate b = 0 \<and> button_level b \<noteq> active_level b \<and> debounce_cnt b = 0"

lemma rest_bat: "at_rest b \<Longrightarrow> bat b (Idle, False, 0, unat (ticks b), unat (repeat b))"
  using unsigned_less [of "ticks b", where ?'a = nat] unsigned_less [of "repeat b", where ?'a = nat]
  by (simp add: bat_def at_rest_def)

lemma bat_rest: "bat b g \<Longrightarrow> rests g \<Longrightarrow> at_rest b"
  by (auto simp: bat_def at_rest_def rests_def)

lemma rest_run:
  assumes "at_rest b"
  shows "\<exists>b'. brun ps b = (fst (sm_run ps (Idle, False, 0, unat (ticks b), unat (repeat b))), b') \<and>
    bat b' (snd (sm_run ps (Idle, False, 0, unat (ticks b), unat (repeat b)))) \<and> active_level b' = active_level b"
  by (rule bat_run [OF rest_bat [OF assms]])

text \<open>Whatever the levels of its pin, the events of a button that starts at rest form the words that the states allow,
  and every press it reports is followed by one release, but for the one that is still held.\<close>

theorem button_words:
  assumes "at_rest b"
  shows "\<exists>ph. gestures Idle (fst (brun ps b)) ph \<and> bstate (snd (brun ps b)) = phase_code ph \<and>
    count_list (fst (brun ps b)) PRESS_DOWN = count_list (fst (brun ps b)) PRESS_UP + of_bool (down ph)"
proof -
  define g where "g = sm_run ps (Idle, False, 0, unat (ticks b), unat (repeat b))"
  have g: "gestures Idle (fst g) (fst (snd g))"
    using sm_run_ok [of "(Idle, False, 0, unat (ticks b), unat (repeat b))" ps] by (simp add: g_def gok_def down_def)
  obtain b' where b': "brun ps b = (fst g, b')" "bat b' (snd g)" using rest_run [OF assms, of ps] g_def by blast
  have "bstate b' = phase_code (fst (snd g))" using b'(2) by (simp add: bat_def case_prod_beta)
  moreover have "\<not> down Idle" by (simp add: down_def)
  ultimately show ?thesis using g gestures_count [OF g] b'(1) by auto
qed

definition fresh_button :: "nat button" where
  "fresh_button = \<lparr>ticks = 0, repeat = 0, event = 8, bstate = 0, debounce_cnt = 0, active_level = 0, button_level = 1, cb = Some \<circ> unat \<circ> evt_code\<rparr>"

lemma fresh_rest [simp]: "at_rest fresh_button"
  by (simp add: at_rest_def fresh_button_def)

theorem button_words_witness:
  "\<exists>ph. gestures Idle (fst (brun [True, True, True, True] fresh_button)) ph \<and> bstate (snd (brun [True, True, True, True] fresh_button)) = phase_code ph \<and>
    count_list (fst (brun [True, True, True, True] fresh_button)) PRESS_DOWN = count_list (fst (brun [True, True, True, True] fresh_button)) PRESS_UP + of_bool (down ph)"
  by (rule button_words [OF fresh_rest])

text \<open>C32. One press of \<open>m\<close> samples (5 ms each) and its release: a glitch of up to two samples is not seen, up to 201 samples
  are a click, and from 202 on it is a long press, reported again for every sample it is held; the button is at rest after it.\<close>

theorem button_one_press:
  assumes "at_rest b" "64 \<le> n" "brun (replicate m True @ replicate n False) b = (evs, b')"
  shows "evs = (if m < 3 then []
     else if m \<le> 201 then [PRESS_DOWN, PRESS_UP, SINGLE_CLICK]
     else PRESS_DOWN # LONG_RRESS_START # replicate (m - 202) LONG_PRESS_HOLD @ [PRESS_UP]) \<and> at_rest b'"
proof -
  define g where "g = (Idle, False, 0 :: nat, unat (ticks b), unat (repeat b))"
  have run: "evs = fst (sm_run (replicate m True @ replicate n False) g)" "bat b' (snd (sm_run (replicate m True @ replicate n False) g))"
    using rest_run [OF assms(1), of "replicate m True @ replicate n False"] assms(3) by (simp_all add: g_def)
  consider "m < 3" | "3 \<le> m" "m \<le> 201" | "202 \<le> m" by linarith
  then have "(\<exists>g'. sm_run (replicate m True @ replicate n False) g = ((if m < 3 then []
     else if m \<le> 201 then [PRESS_DOWN, PRESS_UP, SINGLE_CLICK]
     else PRESS_DOWN # LONG_RRESS_START # replicate (m - 202) LONG_PRESS_HOLD @ [PRESS_UP]), g') \<and> rests g')"
  proof cases
    case 1
    then show ?thesis using run_short [of m n] assms(2) by (simp add: g_def)
  next
    case 2
    then show ?thesis using run_all_clicks [of "[]" m n] assms(2) by (simp add: g_def)
  next
    case 3
    then show ?thesis using run_long [of m n] assms(2) by (simp add: g_def)
  qed
  then show "evs = (if m < 3 then []
     else if m \<le> 201 then [PRESS_DOWN, PRESS_UP, SINGLE_CLICK]
     else PRESS_DOWN # LONG_RRESS_START # replicate (m - 202) LONG_PRESS_HOLD @ [PRESS_UP]) \<and> at_rest b'"
    using run bat_rest by auto
qed

theorem button_one_press_witness:
  "fst (brun (replicate 30 True @ replicate 64 False) fresh_button) = [PRESS_DOWN, PRESS_UP, SINGLE_CLICK] \<and>
   at_rest (snd (brun (replicate 30 True @ replicate 64 False) fresh_button))"
  using button_one_press [OF fresh_rest, of 64 30] by (auto simp: prod_eq_iff)

text \<open>C29. A first click and then quick ones, each after a gap of 3 to 61 samples and at most 59 samples long: every further
  press is reported as a repeat, the second also as a double click. The counter of presses has four bits, so after 17 quick
  clicks (33, ...) a single click is reported at the end.\<close>

theorem button_clicks:
  assumes "at_rest b" "3 \<le> m" "m \<le> 201" "64 \<le> n"
    and "\<forall>(k, m) \<in> set cs. 3 \<le> k \<and> k \<le> 61 \<and> 3 \<le> m \<and> m \<le> 59"
  shows "fst (brun (replicate m True @ concat (map (\<lambda>(k, m). replicate k False @ replicate m True) cs) @ replicate n False) b) =
    [PRESS_DOWN, PRESS_UP] @ concat (map again [2..<2 + length cs]) @ (if length cs mod 16 = 0 then [SINGLE_CLICK] else [])"
proof -
  have "(1 + length cs) mod 16 = 1 \<longleftrightarrow> length cs mod 16 = 0" by presburger
  moreover note run_all_clicks [OF assms(5,2,3,4), of "unat (ticks b)" "unat (repeat b)"]
  moreover obtain b' where "brun (replicate m True @ concat (map (\<lambda>(k, m). replicate k False @ replicate m True) cs) @ replicate n False) b =
    (fst (sm_run (replicate m True @ concat (map (\<lambda>(k, m). replicate k False @ replicate m True) cs) @ replicate n False)
      (Idle, False, 0, unat (ticks b), unat (repeat b))), b')"
    using rest_run [OF assms(1)] by blast
  ultimately show ?thesis by simp
qed

theorem button_clicks_witness:
  "fst (brun (replicate 10 True @ concat (map (\<lambda>(k, m). replicate k False @ replicate m True) [(20, 10)]) @ replicate 64 False) fresh_button) =
    [PRESS_DOWN, PRESS_UP] @ concat (map again [2..<2 + length [(20 :: nat, 10 :: nat)]]) @ (if length [(20 :: nat, 10 :: nat)] mod 16 = 0 then [SINGLE_CLICK] else [])"
  by (rule button_clicks [OF fresh_rest]) simp_all

text \<open>C33. A button that was at rest once, and then went through any samples whatever, is at rest again when it is left
  alone for 64 samples (320 ms). (A button whose memory was never at rest may hold a state that it cannot leave, see
  \<open>button_init_garbage\<close>.)\<close>

theorem button_returns_idle:
  assumes "at_rest b" "64 \<le> n"
  shows "at_rest (snd (brun (ps @ replicate n False) b))"
proof -
  define g where "g = (Idle, False, 0 :: nat, unat (ticks b), unat (repeat b))"
  obtain ph sb c t r where run: "snd (sm_run ps g) = (ph, sb, c, t, r)" by (metis prod_cases5)
  have "gok g" by (simp add: g_def gok_def down_def)
  then have "gok (ph, sb, c, t, r)" using sm_run_ok [of g ps] run by simp
  then have "rests (snd (sm_run (ps @ replicate n False) g))"
    using run_back [of ph sb c t r n] assms(2) run by (cases sb) (simp_all add: sm_run_append)
  moreover obtain b' where "brun (ps @ replicate n False) b = (fst (sm_run (ps @ replicate n False) g), b')"
    "bat b' (snd (sm_run (ps @ replicate n False) g))" using rest_run [OF assms(1)] g_def by blast
  ultimately show ?thesis using bat_rest by simp
qed

theorem button_returns_idle_witness:
  "at_rest (snd (brun (replicate 500 True @ replicate 64 False) fresh_button))"
  by (rule button_returns_idle [OF fresh_rest]) simp

lemma dead_step:
  assumes "bstate b \<in> {4, 6, 7}"
  shows "fst (button_step l b) = [] \<and> bstate (snd (button_step l b)) = bstate b"
proof -
  have "bstate (button_debounce l (if bstate b > 0 then b\<lparr>ticks := ticks b + 1\<rparr> else b)) = bstate b"
    by (simp add: button_debounce_def Let_def)
  then show ?thesis using assms by (auto simp: button_step_def button_switch_def Let_def)
qed

lemma dead_run: "bstate b \<in> {4, 6, 7} \<Longrightarrow> fst (brun ps b) = []"
proof (induction ps arbitrary: b)
  case (Cons p ps)
  have "fst (bstep p b) = []" "bstate (snd (bstep p b)) = bstate b"
    using dead_step [OF Cons.prems, of "lvl (active_level b) p"] by (simp_all add: bstep_def)
  then show ?case using Cons.IH [of "snd (bstep p b)"] Cons.prems by (simp add: case_prod_beta)
qed simp

text \<open>\<^verbatim>\<open>button_init\<close> leaves the state as it finds it, because \<^verbatim>\<open>memset\<close> clears no byte: a structure whose state happens
  to be 4, 6 or 7 never reports an event, whatever is done with the button.\<close>

theorem button_init_garbage:
  assumes "bstate b \<in> {4, 6, 7}"
  shows "fst (brun ps (button_attach ev c (button_init level active b))) = []"
  by (rule dead_run) (use assms in \<open>simp add: button_attach_def button_init_def\<close>)

theorem button_init_garbage_witness:
  "fst (brun (replicate 30 True) (button_attach PRESS_DOWN (Some 7) (button_init 1 0 (fresh_button\<lparr>bstate := 6\<rparr>)))) = []"
  by (rule button_init_garbage) simp

text \<open>C34. What the fields of a button that starts at rest hold after any samples: one of the five states, the debounced level that belongs to it,
  fewer than three samples that differ, and ticks within the limits of the states that wait for them. (The event and
  the number of repetitions are those of the events reported, above.)\<close>

theorem button_typed:
  fixes ps :: "bool list"
  assumes "at_rest b"
  defines "b' \<equiv> snd (brun ps b)"
  shows "bstate b' \<in> {0, 1, 2, 3, 5} \<and> (button_level b' = active_level b' \<longleftrightarrow> bstate b' \<in> {1, 3, 5}) \<and>
    debounce_cnt b' < 3 \<and> (bstate b' = 1 \<longrightarrow> ticks b' \<le> LONG_TICKS) \<and> (bstate b' = 2 \<longrightarrow> ticks b' \<le> SHORT_TICKS)"
proof -
  define g where "g = sm_run ps (Idle, False, 0, unat (ticks b), unat (repeat b))"
  have "gok (snd g)" using sm_run_ok [of "(Idle, False, 0, unat (ticks b), unat (repeat b))" ps] by (simp add: g_def gok_def down_def)
  moreover obtain ph sb c t r where s: "snd g = (ph, sb, c, t, r)" by (metis prod_cases5)
  moreover have "bat b' (snd g)" using rest_run [OF assms(1), of ps] by (auto simp: g_def b'_def)
  moreover have "c < 3 \<Longrightarrow> (of_nat c :: 3 word) < 3" by (simp add: word_less_nat_alt unat_of_nat)
  moreover have "t \<le> 200 \<Longrightarrow> of_nat t \<le> LONG_TICKS" "t \<le> 60 \<Longrightarrow> of_nat t \<le> SHORT_TICKS"
    by (simp_all add: word_le_nat_alt unat_of_nat btn_ticks)
  ultimately show ?thesis by (cases ph) (simp_all add: gok_def bat_def down_def)
qed

theorem button_typed_witness:
  "debounce_cnt (snd (brun (replicate 77 True) fresh_button)) < 3"
  using button_typed [OF fresh_rest] by blast

end
