(* ===== verification/ButtonList.thy ===== *)
theory ButtonList
  imports MultiButton
begin

text \<open>
  The list of the started buttons of MultiButton: starting, stopping and the tick, against a list of addresses. That the
  three loops end is proved here, for every list that the operations themselves can make.
\<close>

primrec blist :: "(nat \<Rightarrow> nat) \<Rightarrow> nat \<Rightarrow> nat list \<Rightarrow> bool" where
  "blist nxt p [] \<longleftrightarrow> p = 0"
| "blist nxt p (x # xs) \<longleftrightarrow> p = x \<and> x \<noteq> 0 \<and> blist nxt (nxt x) xs"

definition started :: "'c buttons \<Rightarrow> nat list \<Rightarrow> bool" where
  "started s xs \<longleftrightarrow> blist (bnext s) (head_handle s) xs \<and> distinct xs"

lemma blist_cong: "(\<And>x. x \<in> set xs \<Longrightarrow> nxt' x = nxt x) \<Longrightarrow> blist nxt' p xs = blist nxt p xs"
  by (induction xs arbitrary: p) simp_all

lemma blist_upd [simp]: "q \<notin> set xs \<Longrightarrow> blist (nxt(q := r)) p xs = blist nxt p xs"
  by (rule blist_cong) auto

lemma blist_no_null: "blist nxt p xs \<Longrightarrow> 0 \<notin> set xs"
  by (induction xs arbitrary: p) auto

section \<open>Starting\<close>

lemma scan_blist: "blist nxt p xs \<Longrightarrow> start_scan nxt h p = Some (h \<in> set xs)"
  by (induction xs arbitrary: p) (simp add: start_scan.simps, subst start_scan.simps, auto)

lemma start_started:
  assumes "started s xs" "h \<noteq> 0"
  shows "button_start h s = (if h \<in> set xs then Some (- 1, s) else Some (0, s\<lparr>bnext := (bnext s)(h := head_handle s), head_handle := h\<rparr>))"
    and "h \<notin> set xs \<Longrightarrow> started (s\<lparr>bnext := (bnext s)(h := head_handle s), head_handle := h\<rparr>) (h # xs)"
proof -
  have "start_scan (bnext s) h (head_handle s) = Some (h \<in> set xs)" using assms(1) scan_blist by (auto simp: started_def)
  then show "button_start h s = (if h \<in> set xs then Some (- 1, s) else Some (0, s\<lparr>bnext := (bnext s)(h := head_handle s), head_handle := h\<rparr>))"
    by (simp add: button_start_def)
  show "h \<notin> set xs \<Longrightarrow> started (s\<lparr>bnext := (bnext s)(h := head_handle s), head_handle := h\<rparr>) (h # xs)"
    using assms by (simp add: started_def)
qed

section \<open>Stopping\<close>

text \<open>The link that the loop stands at is not one of the buttons that are still to come.\<close>

fun beyond :: "link \<Rightarrow> nat list \<Rightarrow> bool" where
  "beyond Head xs = True"
| "beyond (Next q) xs \<longleftrightarrow> q \<notin> set xs"

lemma link_simps:
  "get_link l (set_link l x s) = x" "btn (set_link l x s) = btn s"
  "beyond l xs \<Longrightarrow> blist (bnext (set_link l x s)) p xs = blist (bnext s) p xs"
  "q \<noteq> l \<Longrightarrow> get_link q (set_link l x s) = get_link q s"
  by (cases l; cases q; simp)+

lemma beyond_tl: "beyond l (x # xs) \<Longrightarrow> beyond l xs \<and> l \<noteq> Next x"
  by (cases l) auto

lemma blist_links: "(\<And>q. q \<in> set xs \<Longrightarrow> get_link (Next q) s' = get_link (Next q) s) \<Longrightarrow> blist (bnext s') p xs = blist (bnext s) p xs"
  by (rule blist_cong) simp

lemma stop_blist:
  assumes "blist (bnext s) (get_link l s) xs" "distinct xs" "beyond l xs"
  shows "\<exists>s'. stop_loop h l s = Some s' \<and> blist (bnext s') (get_link l s') (filter (\<lambda>x. x \<noteq> h) xs) \<and> btn s' = btn s \<and>
    (\<forall>q. q \<noteq> l \<longrightarrow> q \<notin> Next ` set xs \<longrightarrow> get_link q s' = get_link q s)"
  using assms
proof (induction xs arbitrary: l s)
  case Nil
  then show ?case by (simp add: stop_loop.simps)
next
  case (Cons x xs)
  have l: "beyond l xs" "l \<noteq> Next x" and x: "get_link l s = x" "x \<noteq> 0" "blist (bnext s) (bnext s x) xs" "x \<notin> set xs" "distinct xs"
    using Cons.prems beyond_tl by auto
  show ?case
  proof (cases "x = h")
    case True
    define s1 where "s1 = set_link l (bnext s x) s"
    have "stop_loop h l s = stop_loop h l s1" using x True by (subst stop_loop.simps) (simp add: s1_def)
    moreover have "blist (bnext s1) (get_link l s1) xs" using x(3) l(1) by (simp add: s1_def link_simps)
    moreover have "btn s1 = btn s" "\<forall>q. q \<noteq> l \<longrightarrow> get_link q s1 = get_link q s" by (simp_all add: s1_def link_simps)
    ultimately show ?thesis using Cons.IH [of s1 l] x(5) l(1) True by auto
  next
    case False
    have "stop_loop h l s = stop_loop h (Next x) s" using x(1,2) False by (subst stop_loop.simps) simp
    moreover obtain s' where s': "stop_loop h (Next x) s = Some s'" "blist (bnext s') (bnext s' x) (filter (\<lambda>x. x \<noteq> h) xs)" "btn s' = btn s"
      "\<forall>q. q \<noteq> Next x \<longrightarrow> q \<notin> Next ` set xs \<longrightarrow> get_link q s' = get_link q s"
      using Cons.IH [of s "Next x"] x by auto
    moreover have "l \<notin> Next ` set xs" using l(1) by (cases l) auto
    then have "get_link l s' = x" using s'(4) l(2) x(1) by simp
    ultimately show ?thesis using False x(2) by auto
  qed
qed

lemma stop_started:
  "started s xs \<Longrightarrow> \<exists>s'. button_stop h s = Some s' \<and> started s' (filter (\<lambda>x. x \<noteq> h) xs) \<and> btn s' = btn s"
  using stop_blist [of s Head xs h] by (auto simp: button_stop_def started_def)

section \<open>The tick\<close>

definition handled :: "(nat \<Rightarrow> u8) \<Rightarrow> (nat \<Rightarrow> 'c button) \<Rightarrow> nat \<Rightarrow> (press_evt \<times> 'c) list \<times> 'c button" where
  "handled levels bs x = button_handler (levels x) (bs x)"

lemma ticks_blist:
  "blist (bnext s) p xs \<Longrightarrow> distinct xs \<Longrightarrow>
   ticks_loop levels p calls s = Some (calls @ concat (map (\<lambda>x. map (Pair x) (fst (handled levels (btn s) x))) xs),
     s\<lparr>btn := \<lambda>x. if x \<in> set xs then snd (handled levels (btn s) x) else btn s x\<rparr>)"
proof (induction xs arbitrary: p calls s)
  case Nil
  then show ?case by (simp add: ticks_loop.simps)
next
  case (Cons x xs)
  define s1 where "s1 = s\<lparr>btn := (btn s)(x := snd (handled levels (btn s) x))\<rparr>"
  have same: "y \<in> set xs \<Longrightarrow> handled levels (btn s1) y = handled levels (btn s) y" for y
    using Cons.prems by (auto simp: s1_def handled_def)
  have "ticks_loop levels p calls s = ticks_loop levels (bnext s x) (calls @ map (Pair x) (fst (handled levels (btn s) x))) s1"
    using Cons.prems by (subst ticks_loop.simps) (simp add: s1_def handled_def case_prod_beta)
  moreover have "blist (bnext s1) (bnext s x) xs" using Cons.prems by (simp add: s1_def)
  moreover have "s1\<lparr>btn := \<lambda>y. if y \<in> set xs then snd (handled levels (btn s1) y) else btn s1 y\<rparr> =
    s\<lparr>btn := \<lambda>y. if y \<in> set (x # xs) then snd (handled levels (btn s) y) else btn s y\<rparr>"
    using same Cons.prems by (auto simp: s1_def fun_eq_iff)
  moreover have "map (\<lambda>y. map (Pair y) (fst (handled levels (btn s1) y))) xs = map (\<lambda>y. map (Pair y) (fst (handled levels (btn s) y))) xs"
    using same by simp
  then have "concat (map (\<lambda>y. map (Pair y) (fst (handled levels (btn s1) y))) xs) = concat (map (\<lambda>y. map (Pair y) (fst (handled levels (btn s) y))) xs)"
    by (rule arg_cong)
  ultimately show ?case using Cons.IH [of s1 "bnext s x"] Cons.prems by simp
qed

text \<open>A tick runs the handler of every started button once, in the order of the list, on the button as it is before
  the tick; it changes no other button and not the list, and makes just the calls of those handlers.\<close>

theorem button_ticks_once:
  assumes "started s xs"
  shows "button_ticks levels s = Some (concat (map (\<lambda>x. map (Pair x) (fst (button_handler (levels x) (btn s x)))) xs),
    s\<lparr>btn := \<lambda>x. if x \<in> set xs then snd (button_handler (levels x) (btn s x)) else btn s x\<rparr>)"
  using assms ticks_blist [of s "head_handle s" xs levels "[]", unfolded handled_def] by (simp add: button_ticks_def started_def)

section \<open>Histories\<close>

datatype bop = Start nat | Stop nat | Tick "nat \<Rightarrow> u8"

fun bop_run :: "bop list \<Rightarrow> 'c buttons \<Rightarrow> 'c buttons option" where
  "bop_run [] s = Some s"
| "bop_run (Start h # ops) s = do { (_, s) \<leftarrow> button_start h s; bop_run ops s }"
| "bop_run (Stop h # ops) s = do { s \<leftarrow> button_stop h s; bop_run ops s }"
| "bop_run (Tick levels # ops) s = do { (_, s) \<leftarrow> button_ticks levels s; bop_run ops s }"

fun abs_run :: "bop list \<Rightarrow> nat list \<Rightarrow> nat list" where
  "abs_run [] xs = xs"
| "abs_run (Start h # ops) xs = abs_run ops (if h \<in> set xs then xs else h # xs)"
| "abs_run (Stop h # ops) xs = abs_run ops (filter (\<lambda>x. x \<noteq> h) xs)"
| "abs_run (Tick _ # ops) xs = abs_run ops xs"

lemma started_btn [simp]: "started (s\<lparr>btn := f\<rparr>) xs = started s xs"
  by (simp add: started_def)

lemma run_started: "started s xs \<Longrightarrow> Start 0 \<notin> set ops \<Longrightarrow> \<exists>s'. bop_run ops s = Some s' \<and> started s' (abs_run ops xs)"
proof (induction ops arbitrary: s xs)
  case (Cons op ops)
  show ?case
  proof (cases op)
    case (Start h)
    then show ?thesis using start_started [OF Cons.prems(1), of h] Cons.IH Cons.prems by auto
  next
    case (Stop h)
    then show ?thesis using stop_started [OF Cons.prems(1), of h] Cons.IH Cons.prems by auto
  next
    case (Tick levels)
    have "button_ticks levels s = Some (concat (map (\<lambda>x. map (Pair x) (fst (handled levels (btn s) x))) xs),
      s\<lparr>btn := \<lambda>x. if x \<in> set xs then snd (handled levels (btn s) x) else btn s x\<rparr>)"
      using Cons.prems(1) ticks_blist by (fastforce simp: button_ticks_def started_def)
    then show ?thesis using Cons.IH [of _ xs] Cons.prems Tick by simp
  qed
qed simp

text \<open>C30. In whatever order buttons are started, stopped and ticked, every operation returns and the list holds just the
  buttons that are started and not stopped since, each once and the last started first.\<close>

theorem button_list_history:
  assumes "head_handle s = 0" "Start 0 \<notin> set ops"
  shows "\<exists>s'. bop_run ops s = Some s' \<and> started s' (abs_run ops [])"
  by (rule run_started) (use assms in \<open>simp_all add: started_def\<close>)

definition no_buttons :: "nat buttons" where
  "no_buttons = \<lparr>btn = (\<lambda>_. \<lparr>ticks = 0, repeat = 0, event = 8, bstate = 0, debounce_cnt = 0, active_level = 0, button_level = 1, cb = Some \<circ> unat \<circ> evt_code\<rparr>),
     bnext = (\<lambda>_. 0), head_handle = 0\<rparr>"

theorem button_list_history_witness:
  "\<exists>s'. bop_run [Start 8, Start 24, Start 8, Tick (\<lambda>_. 0), Start 40, Stop 24] no_buttons = Some s' \<and> started s' [40, 8]"
  using button_list_history [of no_buttons "[Start 8, Start 24, Start 8, Tick (\<lambda>_. 0), Start 40, Stop 24]"]
  by (simp add: no_buttons_def)

theorem button_ticks_once_witness:
  "\<exists>calls s'. button_ticks (\<lambda>_. 0) (no_buttons\<lparr>bnext := (\<lambda>_. 0)(24 := 8), head_handle := 24\<rparr>) = Some (calls, s') \<and>
    btn s' 8 = snd (button_handler 0 (btn no_buttons 8)) \<and> btn s' 9 = btn no_buttons 9"
  using button_ticks_once [of "no_buttons\<lparr>bnext := (\<lambda>_. 0)(24 := 8), head_handle := 24\<rparr>" "[24, 8]" "\<lambda>_. 0"]
  by (simp add: started_def no_buttons_def)

end
