(* ===== verification/Intc.thy ===== *)
theory Intc
  imports DList
begin

text \<open>
  The interrupt dispatcher of \<^verbatim>\<open>driver/intc/intc.c\<close> with the interrupt controller unit of
  \<^verbatim>\<open>driver/icu/icu.c\<close> and the lists of \<^verbatim>\<open>common/doubly_list.h\<close>. A driver registers the
  routine of an interrupt with a priority; the routines stand in a list by priority, and the
  entry points \<^verbatim>\<open>intc_irq\<close> and \<^verbatim>\<open>intc_fiq\<close> run those whose interrupt is pending. Routines are
  numbers (0 is \<^verbatim>\<open>NULL\<close>); what running one does, the registers of the controller, the infrared
  check and the power-saving hook are an environment on a world \<open>'h\<close>.

  Not modelled: the vector table and the interrupts that \<^verbatim>\<open>intc_init\<close> enables through the
  driver model, and the dump of the processor registers on a trap.
\<close>

section \<open>The interrupt controller unit\<close>

datatype icu_reg = ICU_PERI_CLK_MUX | ICU_PWM_CLK_MUX | ICU_PERI_CLK_PWD | ICU_PERI_CLK_GATING
  | ICU_TL410_CLK_PWD | ICU_JTAG_SELECT | ICU_INTERRUPT_ENABLE | ICU_GLOBAL_INT_EN
  | ICU_INT_RAW_STATUS | ICU_INT_STATUS | ICU_ARM_WAKEUP_EN

datatype icu_cmd = CMD_ICU_CLKGATING_DISABLE | CMD_ICU_CLKGATING_ENABLE | CMD_ICU_INT_DISABLE
  | CMD_ICU_INT_ENABLE | CMD_ICU_GLOBAL_INT_DISABLE | CMD_ICU_GLOBAL_INT_ENABLE
  | CMD_GET_INTR_STATUS | CMD_CLR_INTR_STATUS | CMD_GET_INTR_RAW_STATUS | CMD_CLR_INTR_RAW_STATUS
  | CMD_CLK_PWR_DOWN | CMD_CLK_PWR_UP | CMD_CONF_PWM_PCLK | CMD_CONF_PWM_LPOCLK
  | CMD_TL410_CLK_PWR_DOWN | CMD_TL410_CLK_PWR_UP | CMD_CONF_PCLK_26M | CMD_CONF_PCLK_DCO
  | CMD_SET_JTAG_MODE | CMD_GET_JTAG_MODE | CMD_ARM_WAKEUP

text \<open>The environment: reading and writing a register, running a routine, asking the infrared
  check, and the hook \<^verbatim>\<open>power_save_dtim_wake\<close>.\<close>

record 'h intc_env =
  ie_rd :: "icu_reg \<Rightarrow> 'h \<Rightarrow> u32 \<times> 'h"
  ie_wr :: "icu_reg \<Rightarrow> u32 \<Rightarrow> 'h \<Rightarrow> 'h"
  ie_run :: "nat \<Rightarrow> 'h \<Rightarrow> 'h"
  ie_irda :: "nat \<Rightarrow> 'h \<Rightarrow> u8 \<times> 'h"
  ie_wake :: "u32 \<Rightarrow> 'h \<Rightarrow> 'h"

definition JTAG_SEL_WR_ARM :: u32 where "JTAG_SEL_WR_ARM = 0x7111E968"
definition JTAG_SEL_WR_TL4 :: u32 where "JTAG_SEL_WR_TL4 = 0x7111E410"
definition JTAG_ARM_MODE :: u32 where "JTAG_ARM_MODE = 0"
definition JTAG_TL410_MODE :: u32 where "JTAG_TL410_MODE = 1"

definition icu_modify :: "'h intc_env \<Rightarrow> icu_reg \<Rightarrow> (u32 \<Rightarrow> u32) \<Rightarrow> 'h \<Rightarrow> u32 \<times> 'h" where
  "icu_modify e r f h = (let (reg, h) = ie_rd e r h in (0, ie_wr e r (f reg) h))"

text \<open>\<open>1 << n\<close>, undefined from 32 on.\<close>

definition shl_one :: "u32 \<Rightarrow> u32 option" where
  "shl_one n = (if n < 32 then Some (push_bit (unat n) 1) else None)"

text \<open>\<open>param\<close> is the word the pointer leads to, \<open>None\<close> for \<^verbatim>\<open>NULL\<close>; the result \<open>None\<close> is a failed
  assertion, reading through \<^verbatim>\<open>NULL\<close> or a shift out of range.\<close>

definition icu_ctrl :: "'h intc_env \<Rightarrow> icu_cmd \<Rightarrow> u32 option \<Rightarrow> 'h \<Rightarrow> (u32 \<times> 'h) option" where
  "icu_ctrl e cmd param h =
     (case cmd of
        CMD_CONF_PCLK_26M \<Rightarrow> do { p \<leftarrow> param; Some (icu_modify e ICU_PERI_CLK_MUX (\<lambda>r. r OR p) h) }
      | CMD_CONF_PWM_LPOCLK \<Rightarrow> do { p \<leftarrow> param; b \<leftarrow> shl_one p; Some (icu_modify e ICU_PWM_CLK_MUX (\<lambda>r. r OR b) h) }
      | CMD_CONF_PCLK_DCO \<Rightarrow> do { p \<leftarrow> param; Some (icu_modify e ICU_PERI_CLK_MUX (\<lambda>r. r AND NOT p) h) }
      | CMD_CONF_PWM_PCLK \<Rightarrow> do { p \<leftarrow> param; b \<leftarrow> shl_one p; Some (icu_modify e ICU_PWM_CLK_MUX (\<lambda>r. r AND NOT b) h) }
      | CMD_CLK_PWR_UP \<Rightarrow> do { p \<leftarrow> param; Some (icu_modify e ICU_PERI_CLK_PWD (\<lambda>r. r AND NOT p) h) }
      | CMD_CLK_PWR_DOWN \<Rightarrow> do { p \<leftarrow> param; Some (icu_modify e ICU_PERI_CLK_PWD (\<lambda>r. r OR p) h) }
      | CMD_TL410_CLK_PWR_UP \<Rightarrow> do { p \<leftarrow> param; Some (icu_modify e ICU_TL410_CLK_PWD (\<lambda>r. r AND NOT p) h) }
      | CMD_TL410_CLK_PWR_DOWN \<Rightarrow> do { p \<leftarrow> param; Some (icu_modify e ICU_TL410_CLK_PWD (\<lambda>r. r OR p) h) }
      | CMD_ICU_CLKGATING_DISABLE \<Rightarrow> do { p \<leftarrow> param; Some (icu_modify e ICU_PERI_CLK_GATING (\<lambda>r. r OR p) h) }
      | CMD_ICU_CLKGATING_ENABLE \<Rightarrow> do { p \<leftarrow> param; Some (icu_modify e ICU_PERI_CLK_GATING (\<lambda>r. r AND NOT p) h) }
      | CMD_ICU_INT_DISABLE \<Rightarrow> do { p \<leftarrow> param; Some (icu_modify e ICU_INTERRUPT_ENABLE (\<lambda>r. r AND NOT p) h) }
      | CMD_ICU_INT_ENABLE \<Rightarrow> do { p \<leftarrow> param; Some (icu_modify e ICU_INTERRUPT_ENABLE (\<lambda>r. r OR p) h) }
      | CMD_ICU_GLOBAL_INT_DISABLE \<Rightarrow> do { p \<leftarrow> param; Some (icu_modify e ICU_GLOBAL_INT_EN (\<lambda>r. r AND NOT p) h) }
      | CMD_ICU_GLOBAL_INT_ENABLE \<Rightarrow> do { p \<leftarrow> param; Some (icu_modify e ICU_GLOBAL_INT_EN (\<lambda>r. r OR p) h) }
      | CMD_GET_INTR_STATUS \<Rightarrow> Some (ie_rd e ICU_INT_STATUS h)
      | CMD_CLR_INTR_STATUS \<Rightarrow> do { p \<leftarrow> param; Some (icu_modify e ICU_INT_STATUS (\<lambda>r. r OR p) h) }
      | CMD_GET_INTR_RAW_STATUS \<Rightarrow> Some (ie_rd e ICU_INT_RAW_STATUS h)
      | CMD_CLR_INTR_RAW_STATUS \<Rightarrow> do { p \<leftarrow> param; Some (icu_modify e ICU_INT_RAW_STATUS (\<lambda>r. r OR p) h) }
      | CMD_SET_JTAG_MODE \<Rightarrow>
          do {
            p \<leftarrow> param;
            Some (0, if p = JTAG_ARM_MODE then ie_wr e ICU_JTAG_SELECT JTAG_SEL_WR_ARM h
                     else if p = JTAG_TL410_MODE then ie_wr e ICU_JTAG_SELECT JTAG_SEL_WR_TL4 h else h)
          }
      | CMD_GET_JTAG_MODE \<Rightarrow> Some (ie_rd e ICU_JTAG_SELECT h)
      | CMD_ARM_WAKEUP \<Rightarrow> do { p \<leftarrow> param; Some (0, ie_wr e ICU_ARM_WAKEUP_EN p h) })"

section \<open>The lists of the drivers\<close>

definition bk_list_add :: "nat \<Rightarrow> nat \<Rightarrow> nat \<Rightarrow> dstore \<Rightarrow> dstore" where
  "bk_list_add new_node prev next s =
     (let s = set_prv next new_node s;
          s = set_nxt new_node next s;
          s = set_prv new_node prev s
      in set_nxt prev new_node s)"

definition list_add_head :: "nat \<Rightarrow> nat \<Rightarrow> dstore \<Rightarrow> dstore" where
  "list_add_head new_node head s = bk_list_add new_node head (nxt s head) s"

definition list_add_tail :: "nat \<Rightarrow> nat \<Rightarrow> dstore \<Rightarrow> dstore" where
  "list_add_tail new_node head s = bk_list_add new_node (prv s head) head s"

definition list_empty :: "nat \<Rightarrow> dstore \<Rightarrow> bool" where
  "list_empty head s \<longleftrightarrow> nxt s head = head"

lemma list_add_tuya:
  "list_add_head = tuya_list_add" "list_add_tail = tuya_list_add_tail" "list_empty = tuya_list_empty"
  by (simp_all add: fun_eq_iff list_add_head_def list_add_tail_def list_empty_def bk_list_add_def
      tuya_list_add_def tuya_list_add_tail_def tuya_list_empty_def list_add_between_def)

text \<open>Adding before a node in the middle of a ring.\<close>

lemma dlist_insert_before:
  assumes "dlist s h (xs @ y # ys)" and "n \<notin> set (h # xs @ y # ys)" and "n \<noteq> 0"
  shows "dlist (list_add_tail n y s) h (xs @ n # y # ys)"
proof -
  let ?t = "list_add_tail n y s" let ?p = "last (h # xs)"
  have p: "dpath s h xs y" "dpath s y ys h" and d: "distinct (h # n # y # xs @ ys)"
    and z: "0 \<notin> set (h # n # y # xs @ ys)"
    using assms by (auto simp: dlist_append)
  have pr: "prv s y = ?p" using dpath_ends(2) [OF p(1)] .
  have "dpath ?t y ys h = dpath s y ys h"
    using d by (intro dpath_cong)
      (auto simp: list_add_tail_def bk_list_add_def store_defs pr split: if_splits dest: last_in_set)
  moreover have "dpath ?t h xs n"
  proof (cases xs rule: rev_cases)
    case Nil
    then show ?thesis using d by (simp add: list_add_tail_def bk_list_add_def store_defs pr)
  next
    case (snoc zs z)
    have q: "dpath s h zs z" using p(1) snoc by (simp add: dpath_append)
    have "dpath ?t h zs z = dpath s h zs z"
      using d snoc by (intro dpath_cong) (auto simp: list_add_tail_def bk_list_add_def store_defs pr)
    then show ?thesis using q d snoc
      by (simp add: dpath_append) (auto simp: list_add_tail_def bk_list_add_def store_defs pr)
  qed
  moreover have "nxt ?t n = y" "prv ?t y = n"
    using d by (auto simp: list_add_tail_def bk_list_add_def store_defs pr)
  ultimately show ?thesis using p d z by (auto simp: dlist_append)
qed

section \<open>The dispatcher\<close>

record isr =
  isr_func :: nat
  pri :: u8
  int_num :: u8
  resv :: u16

text \<open>\<open>isr_mem\<close> are the \<^verbatim>\<open>ISR_T\<close> objects by address; their list nodes are in \<open>links\<close>, at the
  same addresses, since the node is the first field.\<close>

record intc =
  links :: dstore
  isr_mem :: "nat \<Rightarrow> isr"
  isrs_mask :: u32
  func_irda_check :: nat

definition INTC_MAX_COUNT :: u8 where "INTC_MAX_COUNT = 32"

text \<open>Where the linker puts \<^verbatim>\<open>isr_hdr\<close> and the elements, of 16 bytes, of \<^verbatim>\<open>_isrs\<close>.\<close>

definition isr_hdr :: nat where "isr_hdr = 4"

definition isr_ptr :: "u8 \<Rightarrow> nat" where "isr_ptr i = 32 + 16 * unat i"

definition intc_reset :: intc where
  "intc_reset = \<lparr>links = INIT_LIST_HEAD isr_hdr \<lparr>nxt = \<lambda>_. 0, prv = \<lambda>_. 0\<rparr>,
     isr_mem = \<lambda>_. \<lparr>isr_func = 0, pri = 0, int_num = 0, resv = 0\<rparr>, isrs_mask = 0, func_irda_check = 0\<rparr>"

definition BIT :: "u8 \<Rightarrow> u32" where "BIT i = push_bit (unat i) 1"

definition intc_register_irda_check_func :: "nat \<Rightarrow> intc \<Rightarrow> intc" where
  "intc_register_irda_check_func func c = c\<lparr>func_irda_check := func\<rparr>"

definition intc_unregister_irda_check_func :: "intc \<Rightarrow> intc" where
  "intc_unregister_irda_check_func c = c\<lparr>func_irda_check := 0\<rparr>"

text \<open>The walk of \<^verbatim>\<open>intc_hdl_entry\<close>; \<open>None\<close> if it never ends.\<close>

partial_function (option) hdl_loop :: "'h intc_env \<Rightarrow> intc \<Rightarrow> nat \<Rightarrow> u32 \<Rightarrow> 'h \<Rightarrow> 'h option" where
  "hdl_loop e c pos status h =
     (if pos = isr_hdr then Some h
      else let f = isr_mem c pos; i = int_num f; n = nxt (links c) pos;
               fire = BIT i AND status \<noteq> 0;
               h = (if fire then ie_run e (isr_func f) h else h);
               status = (if fire then status AND NOT (BIT i) else status)
           in if status = 0 then Some h else hdl_loop e c n status h)"

declare hdl_loop.simps [code]

definition intc_hdl_entry :: "'h intc_env \<Rightarrow> intc \<Rightarrow> u32 \<Rightarrow> 'h \<Rightarrow> 'h option" where
  "intc_hdl_entry e c int_status h =
     (let status = int_status AND isrs_mask c;
          h = ie_wake e status h
      in hdl_loop e c (nxt (links c) isr_hdr) status h)"

text \<open>The walk of the registration: \<open>Some (Some p)\<close> is the node to insert before, \<open>Some None\<close>
  the jump to \<^verbatim>\<open>error\<close>.\<close>

partial_function (option) register_place :: "intc \<Rightarrow> u8 \<Rightarrow> nat \<Rightarrow> nat option option" where
  "register_place c int_pri pos =
     (if pos = isr_hdr then Some (Some isr_hdr)
      else let n = nxt (links c) pos; p = pri (isr_mem c pos)
           in if int_pri < p then Some (Some pos)
              else if int_pri = p then Some None
              else register_place c int_pri n)"

declare register_place.simps [code]

text \<open>Writing a saved \<^verbatim>\<open>ISR_T\<close>, its list node included, back to its place.\<close>

definition put_isr :: "nat \<Rightarrow> isr \<Rightarrow> nat \<Rightarrow> nat \<Rightarrow> intc \<Rightarrow> intc" where
  "put_isr p f next prev c =
     c\<lparr>isr_mem := (isr_mem c)(p := f), links := set_prv p prev (set_nxt p next (links c))\<rparr>"

text \<open>\<open>None\<close> is an index outside \<^verbatim>\<open>_isrs\<close>, which the code does not check, or an endless walk.\<close>

definition intc_service_register :: "u8 \<Rightarrow> u8 \<Rightarrow> nat \<Rightarrow> intc \<Rightarrow> intc option" where
  "intc_service_register int_num' int_pri isr c =
     (if INTC_MAX_COUNT \<le> int_num' then None
      else let p = isr_ptr int_num';
               buf = isr_mem c p; buf_nxt = nxt (links c) p; buf_prv = prv (links c) p;
               c = c\<lparr>isr_mem := (isr_mem c)(p := buf\<lparr>isr_func := isr, int_num := int_num', pri := int_pri\<rparr>)\<rparr>
           in if list_empty isr_hdr (links c)
              then Some (c\<lparr>links := list_add_head p isr_hdr (links c), isrs_mask := isrs_mask c OR BIT int_num'\<rparr>)
              else do {
                place \<leftarrow> register_place c int_pri (nxt (links c) isr_hdr);
                case place of
                  Some pos \<Rightarrow> Some (c\<lparr>links := list_add_tail p pos (links c), isrs_mask := isrs_mask c OR BIT int_num'\<rparr>)
                | None \<Rightarrow> Some (put_isr p buf buf_nxt buf_prv c)
              })"

text \<open>Is there an entry of that priority?\<close>

partial_function (option) pri_listed :: "intc \<Rightarrow> u8 \<Rightarrow> nat \<Rightarrow> bool option" where
  "pri_listed c int_pri pos =
     (if pos = isr_hdr then Some False
      else if int_pri = pri (isr_mem c pos) then Some True
      else pri_listed c int_pri (nxt (links c) pos))"

declare pri_listed.simps [code]

definition intc_service_change_handler :: "u8 \<Rightarrow> nat \<Rightarrow> intc \<Rightarrow> intc option" where
  "intc_service_change_handler int_num' isr c =
     (if INTC_MAX_COUNT \<le> int_num' then None
      else let p = isr_ptr int_num';
               buf = isr_mem c p; buf_nxt = nxt (links c) p; buf_prv = prv (links c) p;
               int_pri = pri buf
           in if isr_func buf = 0 then Some c
              else if list_empty isr_hdr (links c) then Some (put_isr p buf buf_nxt buf_prv c)
              else do {
                found \<leftarrow> pri_listed c int_pri (nxt (links c) isr_hdr);
                Some (put_isr p (if found then buf\<lparr>isr_func := isr\<rparr> else buf) buf_nxt buf_prv c)
              })"

definition intc_irq :: "'h intc_env \<Rightarrow> intc \<Rightarrow> 'h \<Rightarrow> 'h option" where
  "intc_irq e c h =
     do {
       (irq_status, h) \<leftarrow> icu_ctrl e CMD_GET_INTR_STATUS None h;
       let irq_status = irq_status AND 0xFFFF;
       (_, h) \<leftarrow> icu_ctrl e CMD_CLR_INTR_STATUS (Some irq_status) h;
       intc_hdl_entry e c irq_status h
     }"

definition intc_fiq :: "'h intc_env \<Rightarrow> intc \<Rightarrow> 'h \<Rightarrow> 'h option" where
  "intc_fiq e c h =
     (let (r, h) = (if func_irda_check c \<noteq> 0 then ie_irda e (func_irda_check c) h else (1, h))
      in if func_irda_check c \<noteq> 0 \<and> r = 0 then Some h
         else do {
           (fiq_status, h) \<leftarrow> icu_ctrl e CMD_GET_INTR_STATUS None h;
           let fiq_status = fiq_status AND 0xFFFF0000;
           (_, h) \<leftarrow> icu_ctrl e CMD_CLR_INTR_STATUS (Some fiq_status) h;
           intc_hdl_entry e c fiq_status h
         })"

section \<open>What the dispatcher promises\<close>

text \<open>One slot per priority, holding an interrupt and its routine; the first to take a slot keeps
  it. Pending interrupts are served by increasing priority number.\<close>

type_synonym slots = "u8 \<Rightarrow> (u8 \<times> nat) option"

definition priorities :: "u8 list" where "priorities = map of_nat [0..<256]"

definition spec_register :: "u8 \<Rightarrow> u8 \<Rightarrow> nat \<Rightarrow> slots \<Rightarrow> slots" where
  "spec_register i p f R = (case R p of None \<Rightarrow> R(p := Some (i, f)) | Some _ \<Rightarrow> R)"

definition spec_change :: "u8 \<Rightarrow> nat \<Rightarrow> slots \<Rightarrow> slots" where
  "spec_change i f R =
     (\<lambda>p. case R p of Some (j, g) \<Rightarrow> Some (j, if j = i \<and> g \<noteq> 0 then f else g) | None \<Rightarrow> None)"

definition slot_list :: "slots \<Rightarrow> (u8 \<times> nat) list" where
  "slot_list R = List.map_filter R priorities"

definition spec_mask :: "slots \<Rightarrow> u32" where
  "spec_mask R = fold (\<lambda>(i, f) m. m OR BIT i) (slot_list R) 0"

definition spec_serve :: "'h intc_env \<Rightarrow> slots \<Rightarrow> u32 \<Rightarrow> 'h \<Rightarrow> 'h" where
  "spec_serve e R status h =
     fold (\<lambda>(i, f). if bit status (unat i) then ie_run e f else id) (slot_list R)
       (ie_wake e (status AND spec_mask R) h)"

datatype intc_op = Register u8 u8 nat | Change u8 nat | SetIrda nat | ClearIrda | Irq | Fiq

fun intc_step :: "'h intc_env \<Rightarrow> intc_op \<Rightarrow> intc \<times> 'h \<Rightarrow> (intc \<times> 'h) option" where
  "intc_step e (Register i p f) (c, h) = map_option (\<lambda>c. (c, h)) (intc_service_register i p f c)"
| "intc_step e (Change i f) (c, h) = map_option (\<lambda>c. (c, h)) (intc_service_change_handler i f c)"
| "intc_step e (SetIrda f) (c, h) = Some (intc_register_irda_check_func f c, h)"
| "intc_step e ClearIrda (c, h) = Some (intc_unregister_irda_check_func c, h)"
| "intc_step e Irq (c, h) = map_option (\<lambda>h. (c, h)) (intc_irq e c h)"
| "intc_step e Fiq (c, h) = map_option (\<lambda>h. (c, h)) (intc_fiq e c h)"

primrec intc_run :: "'h intc_env \<Rightarrow> intc_op list \<Rightarrow> intc \<times> 'h \<Rightarrow> (intc \<times> 'h) option" where
  "intc_run e [] s = Some s"
| "intc_run e (x # xs) s = do { s \<leftarrow> intc_step e x s; intc_run e xs s }"

text \<open>Reading the pending interrupts, acknowledging them, and serving those of \<open>m\<close>.\<close>

definition spec_interrupt :: "'h intc_env \<Rightarrow> u32 \<Rightarrow> slots \<Rightarrow> 'h \<Rightarrow> 'h" where
  "spec_interrupt e m R h =
     (let (v, h) = ie_rd e ICU_INT_STATUS h; (w, h) = ie_rd e ICU_INT_STATUS h
      in spec_serve e R (v AND m) (ie_wr e ICU_INT_STATUS (w OR v AND m) h))"

fun spec_step :: "'h intc_env \<Rightarrow> intc_op \<Rightarrow> slots \<times> nat \<times> 'h \<Rightarrow> slots \<times> nat \<times> 'h" where
  "spec_step e (Register i p f) (R, k, h) = (spec_register i p f R, k, h)"
| "spec_step e (Change i f) (R, k, h) = (spec_change i f R, k, h)"
| "spec_step e (SetIrda f) (R, k, h) = (R, f, h)"
| "spec_step e ClearIrda (R, k, h) = (R, 0, h)"
| "spec_step e Irq (R, k, h) = (R, k, spec_interrupt e 0xFFFF R h)"
| "spec_step e Fiq (R, k, h) =
     (let (r, h) = (if k \<noteq> 0 then ie_irda e k h else (1, h))
      in (R, k, if r = 0 then h else spec_interrupt e 0xFFFF0000 R h))"

definition spec_run :: "'h intc_env \<Rightarrow> intc_op list \<Rightarrow> slots \<times> nat \<times> 'h \<Rightarrow> slots \<times> nat \<times> 'h" where
  "spec_run e xs s = fold (spec_step e) xs s"

section \<open>Well-formed dispatchers\<close>

abbreviation ent :: "intc \<Rightarrow> u8 \<Rightarrow> isr" where
  "ent c i \<equiv> isr_mem c (isr_ptr i)"

text \<open>\<open>intc_ok prio c is\<close>: the list holds the interrupts \<open>is\<close>, each with its priority of \<open>prio\<close>,
  strictly by priority; the mask has just their bits; the elements outside the list are unused.\<close>

definition intc_ok :: "(u8 \<Rightarrow> u8) \<Rightarrow> intc \<Rightarrow> u8 list \<Rightarrow> bool" where
  "intc_ok prio c is \<longleftrightarrow>
     dlist (links c) isr_hdr (map isr_ptr is) \<and>
     (\<forall>i \<in> set is. i < INTC_MAX_COUNT \<and> int_num (ent c i) = i \<and> pri (ent c i) = prio i) \<and>
     sorted_wrt (<) (map prio is) \<and>
     (\<forall>k. bit (isrs_mask c) k \<longleftrightarrow> (\<exists>i \<in> set is. unat i = k)) \<and>
     (\<forall>i. i \<notin> set is \<longrightarrow> isr_func (ent c i) = 0)"

definition slots_of :: "intc \<Rightarrow> u8 list \<Rightarrow> slots" where
  "slots_of c is = map_of (map (\<lambda>i. (pri (ent c i), i, isr_func (ent c i))) is)"

lemma isr_ptr_eq [simp]: "isr_ptr i = isr_ptr j \<longleftrightarrow> i = j"
  by (simp add: isr_ptr_def word_unat_eq_iff)

lemma isr_ptr_image [simp]: "isr_ptr i \<in> isr_ptr ` A \<longleftrightarrow> i \<in> A"
  by auto

lemma isr_hdr_image [simp]: "isr_hdr \<notin> isr_ptr ` A"
  by (auto simp: isr_ptr_def isr_hdr_def)

lemma isr_ptr_noteq [simp]: "isr_ptr i \<noteq> isr_hdr" "isr_hdr \<noteq> isr_ptr i" "isr_ptr i \<noteq> 0" "isr_hdr \<noteq> 0"
  by (simp_all add: isr_ptr_def isr_hdr_def)

lemma intc_ok_distinct: "intc_ok prio c is \<Longrightarrow> distinct is"
  by (auto simp: intc_ok_def dlist_def distinct_map)

lemma bit_BIT: "i < INTC_MAX_COUNT \<Longrightarrow> bit (BIT i) k \<longleftrightarrow> k = unat i"
  by (auto simp: BIT_def bit_simps INTC_MAX_COUNT_def word_less_nat_alt)

lemma BIT_and: "i < INTC_MAX_COUNT \<Longrightarrow> BIT i AND s \<noteq> 0 \<longleftrightarrow> bit s (unat i)"
proof -
  assume i: "i < INTC_MAX_COUNT"
  have "BIT i AND s = 0 \<longleftrightarrow> (\<forall>k. \<not> bit (BIT i AND s) k)" by (auto intro: bit_eqI)
  then show ?thesis using bit_BIT [OF i] by (auto simp: bit_and_iff)
qed

lemma reset_ok: "intc_ok prio intc_reset []"
  by (simp add: intc_ok_def intc_reset_def dlist_init)

lemma hd_map_isr: "hd (map isr_ptr is @ [isr_hdr]) = isr_hdr \<longleftrightarrow> is = []"
  by (cases "is") auto

text \<open>The ordered slots of a strictly sorted registry.\<close>

lemma priorities_sorted: "sorted priorities" "distinct priorities" "set priorities = UNIV"
proof -
  have u: "unat (of_nat k :: u8) = k" if "k < 256" for k using that by (simp add: unat_of_nat)
  show "sorted priorities"
    unfolding priorities_def by (auto simp: sorted_iff_nth_mono word_le_nat_alt u)
  show "distinct priorities"
    unfolding priorities_def distinct_map by (auto intro!: inj_onI) (metis u)
  have "x \<in> set priorities" for x :: u8
  proof -
    have "unat x < 256" using unsigned_less [of x, where ?'a = nat] by simp
    then have "of_nat (unat x) \<in> (of_nat :: nat \<Rightarrow> u8) ` {0..<256}" by (intro imageI) simp
    then show ?thesis by (simp add: priorities_def)
  qed
  then show "set priorities = UNIV" by auto
qed

lemma slot_list_map_of:
  assumes "sorted_wrt (<) (map fst es)"
  shows "slot_list (map_of es) = map snd es"
proof -
  have d: "sorted (map fst es)" "distinct (map fst es)" using assms by (auto simp: strict_sorted_iff)
  have "filter (\<lambda>p. map_of es p \<noteq> None) priorities = map fst es"
    using priorities_sorted d
    by (intro sorted_distinct_set_unique) (auto simp: sorted_wrt_filter map_of_eq_None_iff)
  then show ?thesis using d(2) by (auto simp: slot_list_def List.map_filter_def)
qed

lemma slot_list_ok:
  assumes "intc_ok prio c is"
  shows "slot_list (slots_of c is) = map (\<lambda>i. (i, isr_func (ent c i))) is"
proof -
  have k: "map fst (map (\<lambda>i. (pri (ent c i), i, isr_func (ent c i))) is) = map prio is"
    using assms by (simp add: intc_ok_def)
  have "sorted_wrt (<) (map fst (map (\<lambda>i. (pri (ent c i), i, isr_func (ent c i))) is))"
    unfolding k using assms by (simp add: intc_ok_def)
  from slot_list_map_of [OF this] show ?thesis by (simp add: slots_of_def comp_def)
qed

lemma spec_mask_ok:
  assumes "intc_ok prio c is"
  shows "spec_mask (slots_of c is) = isrs_mask c"
proof (rule bit_eqI)
  fix k
  have b: "bit (fold (\<lambda>(i, f) m. m OR BIT i) (map (\<lambda>i. (i, g i)) js) m) k \<longleftrightarrow>
      bit m k \<or> (\<exists>i \<in> set js. unat i = k)" if "\<forall>i \<in> set js. i < INTC_MAX_COUNT" for js g m
    using that by (induction js arbitrary: m) (auto simp: bit_or_iff bit_BIT)
  have "bit (spec_mask (slots_of c is)) k \<longleftrightarrow> (\<exists>i \<in> set is. unat i = k)"
    unfolding spec_mask_def slot_list_ok [OF assms] by (subst b) (use assms in \<open>auto simp: intc_ok_def\<close>)
  then show "bit (spec_mask (slots_of c is)) k \<longleftrightarrow> bit (isrs_mask c) k"
    using assms by (simp add: intc_ok_def)
qed

section \<open>Serving\<close>

lemma hdl_loop_list:
  assumes "dpath (links c) a (map isr_ptr is) isr_hdr" and "distinct is"
    and "\<forall>i \<in> set is. i < INTC_MAX_COUNT \<and> int_num (ent c i) = i"
  shows "hdl_loop e c (nxt (links c) a) status h =
    Some (fold (\<lambda>i. if bit status (unat i) then ie_run e (isr_func (ent c i)) else id) is h)"
  using assms
proof (induction "is" arbitrary: a status h)
  case Nil
  then show ?case by (simp add: hdl_loop.simps)
next
  case (Cons i js)
  let ?s = "if bit status (unat i) then status AND NOT (BIT i) else status"
  let ?h = "if bit status (unat i) then ie_run e (isr_func (ent c i)) h else h"
  have i: "i < INTC_MAX_COUNT" "int_num (ent c i) = i" using Cons.prems(3) by auto
  have b: "bit ?s (unat j) = bit status (unat j)" if "j \<in> set js" for j
  proof -
    have "unat i \<noteq> unat j" using that Cons.prems(2) by (auto dest!: word_unat_eq_iff [THEN iffD2])
    then show ?thesis using i by (auto simp: bit_and_iff bit_not_iff bit_BIT dest: bit_imp_le_length)
  qed
  have f: "fold (\<lambda>i. if bit ?s (unat i) then ie_run e (isr_func (ent c i)) else id) js ?h =
      fold (\<lambda>i. if bit status (unat i) then ie_run e (isr_func (ent c i)) else id) js ?h"
    by (rule fold_cong) (simp_all only: b refl)
  have z: "fold (\<lambda>i. if bit (0 :: u32) (unat i) then ie_run e (isr_func (ent c i)) else id) js x = x" for x
    by (induction js) simp_all
  have "hdl_loop e c (nxt (links c) a) status h =
      (if ?s = 0 then Some ?h else hdl_loop e c (nxt (links c) (isr_ptr i)) ?s ?h)"
    using Cons.prems(1) i by (subst hdl_loop.simps) (simp add: Let_def BIT_and)
  also have "\<dots> = Some (fold (\<lambda>i. if bit ?s (unat i) then ie_run e (isr_func (ent c i)) else id) js ?h)"
    using Cons.IH [of "isr_ptr i" ?s ?h] Cons.prems z by simp
  finally show ?case unfolding f by simp
qed

lemma hdl_entry_ok:
  assumes "intc_ok prio c is"
  shows "intc_hdl_entry e c status h = Some (spec_serve e (slots_of c is) status h)"
proof -
  have b: "bit (status AND isrs_mask c) (unat i) = bit status (unat i)" if "i \<in> set is" for i
    using assms that by (auto simp: intc_ok_def bit_and_iff)
  have "fold (\<lambda>i. if bit (status AND isrs_mask c) (unat i) then ie_run e (isr_func (ent c i)) else id) is x =
      fold (\<lambda>i. if bit status (unat i) then ie_run e (isr_func (ent c i)) else id) is x" for x
    by (rule fold_cong) (simp_all add: b)
  moreover have "hdl_loop e c (nxt (links c) isr_hdr) s x =
      Some (fold (\<lambda>i. if bit s (unat i) then ie_run e (isr_func (ent c i)) else id) is x)" for s x
    using assms intc_ok_distinct [OF assms] by (intro hdl_loop_list) (auto simp: intc_ok_def dlist_def)
  ultimately show ?thesis
    by (simp add: intc_hdl_entry_def spec_serve_def slot_list_ok [OF assms] spec_mask_ok [OF assms]
        fold_map comp_def)
qed

lemma irq_ok:
  assumes "intc_ok prio c is"
  shows "intc_irq e c h = Some (spec_interrupt e 0xFFFF (slots_of c is) h)"
  by (simp add: intc_irq_def icu_ctrl_def icu_modify_def spec_interrupt_def hdl_entry_ok [OF assms] Let_def
      split: prod.split)

lemma fiq_ok:
  assumes "intc_ok prio c is"
  shows "intc_fiq e c h = Some (snd (snd (spec_step e Fiq (slots_of c is, func_irda_check c, h))))"
  by (simp add: intc_fiq_def icu_ctrl_def icu_modify_def spec_interrupt_def hdl_entry_ok [OF assms] Let_def
      split: prod.split)

section \<open>Registering\<close>

lemma register_place_list:
  assumes "dpath (links c) a (map isr_ptr is) isr_hdr" and "sorted_wrt (<) (map (\<lambda>i. pri (ent c i)) is)"
  shows "register_place c p (nxt (links c) a) =
    Some (if \<exists>i \<in> set is. pri (ent c i) = p then None
          else Some (hd (map isr_ptr (dropWhile (\<lambda>i. pri (ent c i) < p) is) @ [isr_hdr])))"
  using assms
proof (induction "is" arbitrary: a)
  case Nil
  then show ?case by (simp add: register_place.simps)
next
  case (Cons i js)
  consider "p < pri (ent c i)" | "p = pri (ent c i)" | "pri (ent c i) < p" by force
  then show ?case
  proof cases
    case 3
    then show ?thesis using Cons by (subst register_place.simps) (auto simp: Let_def)
  qed (use Cons.prems in \<open>subst register_place.simps; auto simp: Let_def\<close>)+
qed

lemma pri_listed_list:
  assumes "dpath (links c) a (map isr_ptr is) isr_hdr"
  shows "pri_listed c p (nxt (links c) a) = Some (\<exists>i \<in> set is. pri (ent c i) = p)"
  using assms
proof (induction "is" arbitrary: a)
  case Nil
  then show ?case by (simp add: pri_listed.simps)
next
  case (Cons i js)
  then show ?case by (subst pri_listed.simps) auto
qed

lemma put_isr_same: "put_isr p f (nxt (links c) p) (prv (links c) p) c = c\<lparr>isr_mem := (isr_mem c)(p := f)\<rparr>"
  by (simp add: put_isr_def set_nxt_def set_prv_def)

text \<open>The walk stops at the first entry that is not before the new one.\<close>

lemma register_place_prefix:
  assumes "dpath (links c) a (map isr_ptr xs) (isr_ptr x)"
    and "\<forall>j \<in> set xs. pri (ent c j) < p" and "isr_hdr \<noteq> isr_ptr x"
  shows "register_place c p (nxt (links c) a) = register_place c p (isr_ptr x)"
  using assms
proof (induction xs arbitrary: a)
  case (Cons i js)
  then show ?case by (subst register_place.simps) (auto simp: Let_def)
qed simp

text \<open>Putting a free interrupt into its place of the list.\<close>

lemma insert_ok:
  assumes ok: "intc_ok prio c (xs @ ys)" and i: "i < INTC_MAX_COUNT" "i \<notin> set (xs @ ys)"
    and s: "\<forall>x \<in> set xs. prio x < prio i" "\<forall>y \<in> set ys. prio i < prio y"
    and d: "dlist l isr_hdr (map isr_ptr (xs @ i # ys))"
    and f: "isr_func x = f" "int_num x = i" "pri x = prio i"
  shows "intc_ok prio (c\<lparr>isr_mem := (isr_mem c)(isr_ptr i := x), links := l, isrs_mask := isrs_mask c OR BIT i\<rparr>)
           (xs @ i # ys)"
  using assms unfolding intc_ok_def
  by (auto simp: sorted_wrt_append bit_or_iff bit_BIT)

lemma slots_insert:
  assumes "i \<notin> set (xs @ ys)" and "\<forall>x \<in> set (xs @ ys). pri (ent c x) \<noteq> pri y"
    and "\<And>a. isr_mem d a = (if a = isr_ptr i then y else isr_mem c a)"
  shows "slots_of d (xs @ i # ys) = (slots_of c (xs @ ys))(pri y := Some (i, isr_func y))"
proof -
  have m: "map (\<lambda>j. (pri (ent d j), j, isr_func (ent d j))) zs = map (\<lambda>j. (pri (ent c j), j, isr_func (ent c j))) zs"
    if "i \<notin> set zs" for zs
    using that by (auto simp: assms(3))
  have n: "map_of (map (\<lambda>j. (pri (ent c j), j, isr_func (ent c j))) xs) (pri y) = None"
    using assms(2) by (auto simp: map_of_eq_None_iff)
  have e: "map (\<lambda>j. (pri (ent d j), j, isr_func (ent d j))) (xs @ i # ys) =
      map (\<lambda>j. (pri (ent c j), j, isr_func (ent c j))) xs @
      (pri y, i, isr_func y) # map (\<lambda>j. (pri (ent c j), j, isr_func (ent c j))) ys"
    using assms(1) m [of xs] m [of ys] by (simp add: assms(3))
  show ?thesis
    unfolding slots_of_def e using n by (auto simp: fun_eq_iff map_add_def split: option.splits)
qed

lemma slots_of_None:
  assumes "intc_ok prio c is"
  shows "slots_of c is p = None \<longleftrightarrow> (\<forall>i \<in> set is. pri (ent c i) \<noteq> p)"
  by (auto simp: slots_of_def map_of_eq_None_iff image_image)

text \<open>Where the walk stops in the list, and the list with the new node there.\<close>

lemma dropWhile_sorted:
  assumes "sorted_wrt (<) (map prio is)" and "\<forall>j \<in> set is. prio j \<noteq> (p :: u8)"
    and "y \<in> set (dropWhile (\<lambda>j. prio j < p) is)"
  shows "p < prio y"
proof -
  obtain z zs where z: "dropWhile (\<lambda>j. prio j < p) is = z # zs" using assms(3) by (cases "dropWhile (\<lambda>j. prio j < p) is") auto
  have "\<not> prio z < p" using z by (metis hd_dropWhile list.distinct(1) list.sel(1))
  moreover have "z \<in> set is" using z by (metis list.set_intros(1) set_dropWhileD)
  ultimately have "p < prio z" using assms(2) by force
  moreover have "sorted_wrt (<) (map prio (z # zs))"
    using assms(1) unfolding z [symmetric]
    by (metis map_append sorted_wrt_append takeWhile_dropWhile_id)
  ultimately show ?thesis using assms(3) unfolding z by force
qed

lemma dlist_place:
  assumes "dlist l isr_hdr (map isr_ptr (xs @ ys))" and "i \<notin> set (xs @ ys)"
  shows "dlist (if ys = [] \<and> xs = [] then list_add_head (isr_ptr i) isr_hdr l
                else list_add_tail (isr_ptr i) (hd (map isr_ptr ys @ [isr_hdr])) l)
           isr_hdr (map isr_ptr (xs @ i # ys))"
proof (cases ys)
  case Nil
  have "isr_ptr i \<notin> set (isr_hdr # map isr_ptr xs)" using assms(2) by auto
  then show ?thesis using Nil assms dlist_add [of l isr_hdr "[]" "isr_ptr i"]
      dlist_add_tail [of l isr_hdr "map isr_ptr xs" "isr_ptr i"]
    by (auto simp: list_add_tuya)
next
  case (Cons y zs)
  then show ?thesis
    using assms dlist_insert_before [of l isr_hdr "map isr_ptr xs" "isr_ptr y" "map isr_ptr zs" "isr_ptr i"]
    by auto
qed

lemma register_ok:
  assumes ok: "intc_ok prio c is" and i: "i < INTC_MAX_COUNT"
  shows "\<exists>d js. intc_service_register i (prio i) f c = Some d \<and> intc_ok prio d js \<and>
           slots_of d js = spec_register i (prio i) f (slots_of c is) \<and>
           func_irda_check d = func_irda_check c"
proof -
  let ?x = "(ent c i)\<lparr>isr_func := f, int_num := i, pri := prio i\<rparr>"
  let ?c = "c\<lparr>isr_mem := (isr_mem c)(isr_ptr i := ?x)\<rparr>"
  let ?P = "\<lambda>j. prio j < prio i"
  define xs where "xs = takeWhile ?P is"
  define ys where "ys = dropWhile ?P is"
  have l: "dpath (links c) isr_hdr (map isr_ptr is) isr_hdr" "dlist (links c) isr_hdr (map isr_ptr is)"
    and pr: "\<forall>j \<in> set is. pri (ent c j) = prio j" and sr: "sorted_wrt (<) (map prio is)"
    using ok by (auto simp: intc_ok_def dlist_def)
  have pc: "\<forall>j \<in> set is. pri (ent ?c j) = prio j" using pr by auto
  have mc: "map (\<lambda>j. pri (ent ?c j)) is = map prio is" using pc by simp
  have sc: "sorted_wrt (<) (map (\<lambda>j. pri (ent ?c j)) is)" unfolding mc by (rule sr)
  have place: "register_place ?c (prio i) (nxt (links ?c) isr_hdr) =
      Some (if \<exists>j \<in> set is. prio j = prio i then None else Some (hd (map isr_ptr ys @ [isr_hdr])))"
  proof -
    have "dropWhile (\<lambda>j. pri (ent ?c j) < prio i) is = ys"
      unfolding ys_def by (rule dropWhile_cong [OF refl]) (simp only: pc)
    then show ?thesis
      using register_place_list [of ?c isr_hdr "is" "prio i"] l(1) sc pc by simp
  qed
  have iso: "is = xs @ ys" by (simp add: xs_def ys_def)
  show ?thesis
  proof (cases "\<exists>j \<in> set is. prio j = prio i")
    case True
    then have "is \<noteq> []" by auto
    then have "intc_service_register i (prio i) f c = Some c"
      using i True place l(2)
      by (simp add: intc_service_register_def list_add_tuya dlist_empty_iff Let_def put_isr_def
          set_nxt_def set_prv_def not_le)
    moreover have "spec_register i (prio i) f (slots_of c is) = slots_of c is"
      using True slots_of_None [OF ok, of "prio i"] pr by (auto simp: spec_register_def split: option.splits)
    ultimately show ?thesis using ok by auto
  next
    case False
    let ?l = "if ys = [] \<and> xs = [] then list_add_head (isr_ptr i) isr_hdr (links c)
              else list_add_tail (isr_ptr i) (hd (map isr_ptr ys @ [isr_hdr])) (links c)"
    let ?d = "c\<lparr>isr_mem := (isr_mem c)(isr_ptr i := ?x), links := ?l, isrs_mask := isrs_mask c OR BIT i\<rparr>"
    have ni: "i \<notin> set is" using False by auto
    have "\<forall>x \<in> set xs. prio x < prio i"
      unfolding xs_def by (auto dest: set_takeWhileD)
    moreover have "\<forall>y \<in> set ys. prio i < prio y"
      using dropWhile_sorted [OF sr, of "prio i"] False unfolding ys_def by blast
    moreover have "dlist ?l isr_hdr (map isr_ptr (xs @ i # ys))"
      using dlist_place [of "links c" xs ys i] l(2) ni unfolding iso by blast
    ultimately have "intc_ok prio ?d (xs @ i # ys)"
      using ok i ni unfolding iso by (intro insert_ok) simp_all
    moreover have "intc_service_register i (prio i) f c = Some ?d"
    proof (cases "is = []")
      case True
      then have "list_empty isr_hdr (links c)" "xs = []" "ys = []"
        using l(2) iso by (auto simp: list_add_tuya dlist_empty_iff)
      then show ?thesis using i by (simp add: intc_service_register_def not_le Let_def)
    next
      case False
      then have "\<not> list_empty isr_hdr (links c)" and n: "(ys = [] \<and> xs = []) = False"
        using l(2) iso by (auto simp: list_add_tuya dlist_empty_iff)
      then show ?thesis using i \<open>\<not> (\<exists>j \<in> set is. prio j = prio i)\<close> place
        by (simp add: intc_service_register_def not_le Let_def n del: de_Morgan_conj)
    qed
    moreover have "slots_of ?d (xs @ i # ys) = spec_register i (prio i) f (slots_of c is)"
    proof -
      have "slots_of c is (prio i) = None" using False pr slots_of_None [OF ok] by auto
      moreover have "slots_of ?d (xs @ i # ys) = (slots_of c (xs @ ys))(pri ?x := Some (i, isr_func ?x))"
        using False pr ni unfolding iso by (intro slots_insert) auto
      ultimately show ?thesis by (simp add: spec_register_def iso [symmetric])
    qed
    ultimately show ?thesis by (intro exI [of _ ?d] exI [of _ "xs @ i # ys"]) simp
  qed
qed

section \<open>Changing a routine\<close>

lemma spec_change_slots:
  assumes "\<And>j. j \<in> set is \<Longrightarrow> pri (ent d j) = pri (ent c j) \<and>
    isr_func (ent d j) = (if j = i \<and> isr_func (ent c j) \<noteq> 0 then f else isr_func (ent c j))"
  shows "slots_of d is = spec_change i f (slots_of c is)"
proof -
  let ?h = "\<lambda>(j, g). (j, if j = i \<and> g \<noteq> 0 then f else g)"
  have m: "map (\<lambda>j. (pri (ent d j), j, isr_func (ent d j))) is =
      map (\<lambda>(k, v). (k, ?h v)) (map (\<lambda>j. (pri (ent c j), j, isr_func (ent c j))) is)"
    using assms by auto
  show ?thesis
    unfolding slots_of_def m map_of_map by (auto simp: fun_eq_iff spec_change_def split: option.splits)
qed

lemma change_ok:
  assumes ok: "intc_ok prio c is" and i: "i < INTC_MAX_COUNT"
  shows "\<exists>d. intc_service_change_handler i f c = Some d \<and> intc_ok prio d is \<and>
           slots_of d is = spec_change i f (slots_of c is) \<and> func_irda_check d = func_irda_check c"
proof (cases "isr_func (ent c i) = 0")
  case True
  have "slots_of c is = spec_change i f (slots_of c is)"
    using True by (intro spec_change_slots) auto
  then show ?thesis using True i ok by (auto simp: intc_service_change_handler_def not_le Let_def)
next
  case False
  let ?d = "c\<lparr>isr_mem := (isr_mem c)(isr_ptr i := (ent c i)\<lparr>isr_func := f\<rparr>)\<rparr>"
  have m: "i \<in> set is" using False ok by (auto simp: intc_ok_def)
  have l: "dlist (links c) isr_hdr (map isr_ptr is)" using ok by (simp add: intc_ok_def)
  have "\<not> list_empty isr_hdr (links c)" using l m by (auto simp: list_add_tuya dlist_empty_iff)
  moreover have "pri_listed c (pri (ent c i)) (nxt (links c) isr_hdr) = Some True"
    using pri_listed_list [of c isr_hdr "is"] l m by (auto simp: dlist_def)
  ultimately have "intc_service_change_handler i f c = Some ?d"
    using False i by (simp add: intc_service_change_handler_def not_le Let_def put_isr_same)
  moreover have "intc_ok prio ?d is" using ok m unfolding intc_ok_def by auto
  moreover have "slots_of ?d is = spec_change i f (slots_of c is)"
    using False by (intro spec_change_slots) auto
  ultimately show ?thesis by simp
qed

section \<open>Histories\<close>

fun good_op :: "(u8 \<Rightarrow> u8) \<Rightarrow> intc_op \<Rightarrow> bool" where
  "good_op prio (Register i p f) \<longleftrightarrow> i < INTC_MAX_COUNT \<and> p = prio i"
| "good_op prio (Change i f) \<longleftrightarrow> i < INTC_MAX_COUNT"
| "good_op prio _ \<longleftrightarrow> True"

lemma intc_ok_irda [simp]:
  "intc_ok prio (c\<lparr>func_irda_check := f\<rparr>) is = intc_ok prio c is"
  "slots_of (c\<lparr>func_irda_check := f\<rparr>) is = slots_of c is"
  by (simp_all add: intc_ok_def slots_of_def)

lemma intc_step_ok:
  assumes "intc_ok prio c is" and "good_op prio x"
  shows "\<exists>d js h'. intc_step e x (c, h) = Some (d, h') \<and> intc_ok prio d js \<and>
    (slots_of d js, func_irda_check d, h') = spec_step e x (slots_of c is, func_irda_check c, h)"
proof (cases x)
  case (Register i p f)
  then show ?thesis using register_ok [of prio c "is" i f] assms by fastforce
next
  case (Change i f)
  then show ?thesis using change_ok [of prio c "is" i f] assms by fastforce
next
  case Irq
  then show ?thesis using irq_ok [OF assms(1)] assms by auto
next
  case Fiq
  then show ?thesis
    using fiq_ok [OF assms(1), of e h] assms by (auto split: prod.splits)
next
  case (SetIrda f)
  then show ?thesis using assms(1)
    by (intro exI [of _ "c\<lparr>func_irda_check := f\<rparr>"] exI [of _ "is"]) (simp add: intc_register_irda_check_func_def)
next
  case ClearIrda
  then show ?thesis using assms(1)
    by (intro exI [of _ "c\<lparr>func_irda_check := 0\<rparr>"] exI [of _ "is"]) (simp add: intc_unregister_irda_check_func_def)
qed

lemma intc_run_ok:
  assumes "intc_ok prio c is" and "list_all (good_op prio) xs"
  shows "\<exists>d js h'. intc_run e xs (c, h) = Some (d, h') \<and> intc_ok prio d js \<and>
    (slots_of d js, func_irda_check d, h') = spec_run e xs (slots_of c is, func_irda_check c, h)"
  using assms
proof (induction xs arbitrary: c "is" h)
  case (Cons x xs)
  obtain d js h' where d: "intc_step e x (c, h) = Some (d, h')" "intc_ok prio d js"
      "(slots_of d js, func_irda_check d, h') = spec_step e x (slots_of c is, func_irda_check c, h)"
    using intc_step_ok [OF Cons.prems(1), of x e h] Cons.prems(2) by auto
  then show ?case using Cons.IH [OF d(2), of h'] Cons.prems(2) by (simp add: spec_run_def)
qed (simp add: spec_run_def, blast)

text \<open>C7. Whatever the order in which drivers register routines (each interrupt always with the
  same priority), change them and interrupts arrive, every operation returns; each interrupt
  serves, once each and by priority, the routines of the pending interrupts that hold a slot, with
  the current routine of each, and the refused registrations leave no trace.\<close>

theorem intc_history:
  assumes "list_all (good_op prio) xs"
  shows "\<exists>c. intc_run e xs (intc_reset, h) = Some (c, snd (snd (spec_run e xs (\<lambda>_. None, 0, h)))) \<and>
    isrs_mask c = spec_mask (fst (spec_run e xs (\<lambda>_. None, 0, h)))"
proof -
  have s: "slots_of intc_reset [] = (\<lambda>_. None)" "func_irda_check intc_reset = 0"
    by (simp_all add: slots_of_def intc_reset_def)
  obtain d js h' where d: "intc_run e xs (intc_reset, h) = Some (d, h')" "intc_ok prio d js"
      "(slots_of d js, func_irda_check d, h') = spec_run e xs (\<lambda>_. None, 0, h)"
    using intc_run_ok [OF reset_ok assms, of e h] unfolding s by blast
  then show ?thesis using spec_mask_ok [OF d(2)] by (metis fst_conv snd_conv)
qed

section \<open>Registering again with another priority\<close>

lemma hdl_loop_stuck:
  assumes "\<And>a. a \<in> S \<Longrightarrow> nxt (links c) a \<in> S \<and> int_num (isr_mem c a) < INTC_MAX_COUNT \<and>
      unat (int_num (isr_mem c a)) \<noteq> k" and "isr_hdr \<notin> S"
    and "pos \<in> S" and "bit status k"
  shows "hdl_loop e c pos status h = None"
proof -
  have stuck: "hdl_loop e' c' pos' status' h' = Some y \<Longrightarrow> c' = c \<Longrightarrow> pos' \<in> S \<Longrightarrow> bit status' k \<Longrightarrow> False"
    for e' c' pos' status' h' y
  proof (induction e' c' pos' status' h' y rule: hdl_loop.raw_induct [rotated, consumes 1, case_names step])
    case (step loop e' c' pos' status' h' y)
    note ih = step(1) and body = step(2) and c = step(3) and pos = step(4) and st = step(5)
    let ?i = "int_num (isr_mem c pos')"
    have i: "?i < INTC_MAX_COUNT" "unat ?i \<noteq> k" "nxt (links c) pos' \<in> S" and p: "pos' \<noteq> isr_hdr"
      using assms(1) [OF pos] assms(2) pos by auto
    have b: "bit (status' AND NOT (BIT ?i)) k"
      using st i by (auto simp: bit_and_iff bit_not_iff bit_BIT dest: bit_imp_le_length)
    then have z: "status' AND NOT (BIT ?i) \<noteq> 0" "status' \<noteq> 0" using st by auto
    show False
      using ih [OF _ c i(3) b] ih [OF _ c i(3) st] body p z
      by (auto simp: Let_def c split: if_splits)
  qed
  show ?thesis
  proof (cases "hdl_loop e c pos status h")
    case (Some y)
    then show ?thesis using stuck [OF Some refl assms(3,4)] by simp
  qed
qed

lemma dpath_nxt: "dpath s a xs b \<Longrightarrow> y \<in> set (a # xs) \<Longrightarrow> nxt s y \<in> set (xs @ [b])"
  by (induction xs arbitrary: a) auto

text \<open>Moving a node of the ring before an earlier one cuts the rest of the ring off.\<close>

lemma reinsert_cycle:
  assumes d: "dlist s h (xs @ x # zs @ b # ws)" and y: "y \<in> set (h # xs @ x # zs @ [b])"
  shows "nxt (list_add_tail b x s) y \<in> set (xs @ x # zs @ [b])"
proof -
  let ?p = "last (h # xs)"
  have p: "dpath s h xs x" "dpath s x zs b" and "distinct (h # xs @ x # zs @ b # ws)"
    using d by (auto simp: dlist_append dpath_append)
  then have ne: "?p \<noteq> b" by (cases xs rule: rev_cases) auto
  have pr: "prv s x = ?p" using dpath_ends(2) [OF p(1)] .
  have n: "nxt (list_add_tail b x s) y = (if y = ?p then b else if y = b then x else nxt s y)"
    using ne by (simp add: list_add_tail_def bk_list_add_def store_defs pr)
  show ?thesis
    using y dpath_nxt [OF p(1), of y] dpath_nxt [OF p(2), of y] unfolding n by auto
qed

lemma reregister_hangs:
  assumes ok: "intc_ok prio c (us @ b # ws)" and a: "a \<in> set us" "p < prio a"
    and new: "\<forall>i \<in> set (us @ b # ws). prio i \<noteq> p" and k: "k \<in> set ws"
  shows "\<exists>d. intc_service_register b p f c = Some d \<and>
    (\<forall>status h. bit status (unat k) \<longrightarrow> intc_hdl_entry e d status h = None)"
proof -
  let ?x = "(ent c b)\<lparr>isr_func := f, int_num := b, pri := p\<rparr>"
  let ?c = "c\<lparr>isr_mem := (isr_mem c)(isr_ptr b := ?x)\<rparr>"
  define xs where "xs = takeWhile (\<lambda>j. prio j < p) us"
  have dist: "distinct (us @ b # ws)" by (rule intc_ok_distinct [OF ok])
  obtain x zs where x: "us = xs @ x # zs" "\<not> prio x < p"
    using a takeWhile_dropWhile_id [of "\<lambda>j. prio j < p" us] hd_dropWhile [of "\<lambda>j. prio j < p" us]
    unfolding xs_def by (metis dropWhile_eq_Nil_conv list.exhaust_sel not_less_iff_gr_or_eq)
  have l: "dlist (links c) isr_hdr (map isr_ptr xs @ isr_ptr x # map isr_ptr zs @ isr_ptr b # map isr_ptr ws)"
    using ok x(1) by (simp add: intc_ok_def)
  have b: "b < INTC_MAX_COUNT" "k < INTC_MAX_COUNT" "k \<noteq> b" using ok k dist by (auto simp: intc_ok_def)
  have place: "register_place ?c p (nxt (links ?c) isr_hdr) = Some (Some (isr_ptr x))"
  proof -
    have q: "pri (ent ?c j) = prio j" if "j \<in> set us" for j
      using that ok dist by (auto simp: intc_ok_def)
    have "\<forall>j \<in> set xs. pri (ent ?c j) < p"
    proof
      fix j assume "j \<in> set xs"
      then have "j \<in> set us" "prio j < p" unfolding xs_def by (auto dest: set_takeWhileD)
      then show "pri (ent ?c j) < p" by (simp only: q)
    qed
    moreover have "dpath (links ?c) isr_hdr (map isr_ptr xs) (isr_ptr x)"
      using l by (simp add: dlist_append)
    moreover have "p < pri (ent ?c x)" using q [of x] x new by force
    ultimately show ?thesis
      using register_place_prefix [of ?c isr_hdr xs x p] by (simp add: register_place.simps [of _ _ "isr_ptr x"])
  qed
  let ?l = "list_add_tail (isr_ptr b) (isr_ptr x) (links c)"
  let ?d = "c\<lparr>isr_mem := (isr_mem c)(isr_ptr b := ?x), links := ?l, isrs_mask := isrs_mask c OR BIT b\<rparr>"
  have "\<not> list_empty isr_hdr (links c)" using l by (auto simp: list_add_tuya dlist_empty_iff)
  then have "intc_service_register b p f c = Some ?d"
    using b place by (simp add: intc_service_register_def not_le Let_def)
  moreover have "intc_hdl_entry e ?d status h = None" if "bit status (unat k)" for status h
  proof -
    have m: "bit (status AND isrs_mask ?d) (unat k)"
      using that ok k by (auto simp: intc_ok_def bit_and_iff bit_or_iff)
    let ?S = "set (map isr_ptr xs @ isr_ptr x # map isr_ptr zs @ [isr_ptr b])"
    have n: "nxt (links ?d) a \<in> ?S" if "a \<in> insert isr_hdr ?S" for a
      using reinsert_cycle [OF l, of a] that by auto
    have i: "int_num (isr_mem ?d a) < INTC_MAX_COUNT \<and> unat (int_num (isr_mem ?d a)) \<noteq> unat k" if "a \<in> ?S" for a
      using that ok x(1) b k dist by (auto simp: intc_ok_def dest!: word_unat_eq_iff [THEN iffD2])
    show ?thesis
      unfolding intc_hdl_entry_def Let_def using n i m by (intro hdl_loop_stuck [of ?S]) auto
  qed
  ultimately show ?thesis by blast
qed


text \<open>A controller whose status register is cleared by writing ones, with a trace of the routines
  run.\<close>

definition eg_env :: "(u32 \<times> nat list) intc_env" where
  "eg_env = \<lparr>ie_rd = \<lambda>r (v, tr). (if r = ICU_INT_STATUS then v else 0, (v, tr)),
     ie_wr = \<lambda>r x (v, tr). (if r = ICU_INT_STATUS then v AND NOT x else v, tr),
     ie_run = \<lambda>f (v, tr). (v, tr @ [f]), ie_irda = \<lambda>f s. (1, s), ie_wake = \<lambda>st s. s\<rparr>"

definition eg_prio :: "u8 \<Rightarrow> u8" where
  "eg_prio i = (if i = 9 then 17 else if i = 7 then 19 else if i = 6 then 19 else 26)"

definition eg_drivers :: "intc_op list" where
  "eg_drivers = [Register 0 26 102, Register 9 17 101, Register 6 19 103, Register 7 19 104, Change 0 105]"

lemma eg_slots:
  "spec_run eg_env eg_drivers (\<lambda>_. None, 0, h) = (map_of [(17, 9, 101), (19, 6, 103), (26, 0, 105)], 0, h)"
  by (auto simp: spec_run_def eg_drivers_def spec_register_def spec_change_def fun_eq_iff)

lemma eg_slot_list: "slot_list (map_of [(17, 9, 101), (19, 6, 103), (26, 0, 105)]) = [(9, 101), (6, 103), (0, 105)]"
  by (subst slot_list_map_of) simp_all

theorem intc_history_witness:
  "\<exists>c. intc_run eg_env (eg_drivers @ [Irq]) (intc_reset, 0x4002C1, []) = Some (c, 0, [101, 103, 105]) \<and>
     isrs_mask c = 0x241"
proof -
  have g: "list_all (good_op eg_prio) (eg_drivers @ [Irq])" by code_simp
  have r: "spec_run eg_env (eg_drivers @ [Irq]) (\<lambda>_. None, 0, s) =
      (let R = map_of [(17, 9, 101), (19, 6, 103), (26, 0, 105)] in (R, 0, spec_interrupt eg_env 0xFFFF R s))" for s
    using eg_slots [of s] by (simp add: spec_run_def Let_def)
  have m: "spec_mask (map_of [(17, 9, 101), (19, 6, 103), (26, 0, 105)]) = 0x241"
    unfolding spec_mask_def eg_slot_list by code_simp
  have i: "spec_interrupt eg_env 0xFFFF (map_of [(17, 9, 101), (19, 6, 103), (26, 0, 105)]) (0x4002C1, []) =
      (0, [101, 103, 105])"
    unfolding spec_interrupt_def spec_serve_def eg_slot_list by (simp add: eg_env_def bit_iff_odd)
  show ?thesis
    using intc_history [OF g, of eg_env "(0x4002C1, [])"] unfolding r Let_def fst_conv snd_conv m i .
qed

text \<open>C38. Registering the routine of a listed interrupt again with a new priority before that of an
  earlier entry is accepted, but the list loses every entry after it: an interrupt that is pending
  for one of those never returns.\<close>

theorem intc_reregister_hangs:
  assumes "list_all (good_op prio) xs" and "intc_run e xs (intc_reset, h) = Some (c, h')"
    and "R = fst (spec_run e xs (\<lambda>_. None, 0, h))"
    and "R p1 = Some (a, fa)" "R p2 = Some (b, fb)" "R p3 = Some (d, fd)" "p1 < p2" "p2 < p3"
    and "p < p1" "R p = None"
  shows "\<exists>c'. intc_service_register b p f c = Some c' \<and>
    (\<forall>status h. bit status (unat d) \<longrightarrow> intc_hdl_entry e c' status h = None)"
proof -
  have s: "slots_of intc_reset [] = (\<lambda>_. None)" "func_irda_check intc_reset = 0"
    by (simp_all add: slots_of_def intc_reset_def)
  obtain js where ok: "intc_ok prio c js" and R: "R = slots_of c js"
    using intc_run_ok [OF reset_ok assms(1), of e h] assms(2,3) unfolding s by (metis fst_conv old.prod.inject option.inject)
  have el: "i \<in> set js \<and> prio i = q" if "R q = Some (i, g)" for q i g
    using that ok unfolding R slots_of_def by (auto simp: intc_ok_def dest!: map_of_SomeD)
  obtain us ws where js: "js = us @ b # ws" using el [OF assms(5)] by (meson split_list)
  have srt: "sorted_wrt (<) (map prio (us @ b # ws))" using ok unfolding js intc_ok_def by blast
  have "a \<in> set us" using el [OF assms(4)] el [OF assms(5)] assms(7) srt unfolding js
    by (auto simp: sorted_wrt_append)
  moreover have "d \<in> set ws" using el [OF assms(6)] el [OF assms(5)] assms(8) srt unfolding js
    by (auto simp: sorted_wrt_append)
  moreover have "\<forall>i \<in> set (us @ b # ws). prio i \<noteq> p"
    using slots_of_None [OF ok, of p] assms(10) ok unfolding R js intc_ok_def by auto
  ultimately show ?thesis
    using reregister_hangs [of prio c us b ws a p d f e] ok el [OF assms(4)] assms(9) unfolding js by auto
qed

theorem intc_reregister_hangs_witness:
  "\<exists>c c'. intc_run eg_env eg_drivers (intc_reset, 0, []) = Some (c, 0, []) \<and>
     intc_service_register 6 3 104 c = Some c' \<and> intc_hdl_entry eg_env c' 1 (0, []) = None"
proof -
  let ?R = "map_of [(17, 9, 101), (19, 6, 103), (26, 0, 105)] :: slots"
  have g: "list_all (good_op eg_prio) eg_drivers" by code_simp
  have s: "slots_of intc_reset [] = (\<lambda>_. None)" "func_irda_check intc_reset = 0"
    by (simp_all add: slots_of_def intc_reset_def)
  obtain c where c: "intc_run eg_env eg_drivers (intc_reset, 0, []) = Some (c, 0, [])"
    using intc_run_ok [OF reset_ok g, of eg_env "(0, [])"] unfolding s eg_slots by auto
  have R: "?R = fst (spec_run eg_env eg_drivers (\<lambda>_. None, 0, (0, [])))" by (simp only: eg_slots fst_conv)
  have "\<exists>c'. intc_service_register 6 3 104 c = Some c' \<and>
      (\<forall>status h. bit status (unat (0 :: u8)) \<longrightarrow> intc_hdl_entry eg_env c' status h = None)"
    by (rule intc_reregister_hangs [OF g c R, where ?p1.0 = 17 and ?p2.0 = 19 and ?p3.0 = 26]) simp_all
  then show ?thesis using c by (metis bit_1_0 unsigned_0)
qed

text \<open>On such a controller the acknowledgement of some pending interrupts, which writes the status
  it reads back with their bits added, acknowledges all of them.\<close>

lemma icu_clear_acknowledges_all:
  assumes "icu_ctrl eg_env CMD_CLR_INTR_STATUS (Some p) (v, tr) = Some (r, s)"
  shows "fst s = 0"
  using assms by (auto simp: icu_ctrl_def icu_modify_def eg_env_def bit_eq_iff bit_simps)

end
