(* ===== verification/FakeClock.thy ===== *)
theory FakeClock
  imports Prelude
begin

text \<open>
  The system clock of \<^verbatim>\<open>func/misc/fake_clock.c\<close> with the corrections that
  \<^verbatim>\<open>func/power_save/mcu_ps.c\<close> makes to it. A timer interrupt counts ticks of 2 ms and the seconds;
  three references say how far the clock is behind or ahead: the calibration timer, the time
  counter of the radio and the beacons of the access point. A clock that is behind is stepped
  forward; one that is ahead drops ticks later (\<^verbatim>\<open>increase_tick\<close>). The kernel is told of each
  tick counted; \<open>os_ticks\<close> is the number of ticks it was told of.

  Not modelled: the sleep of \<^verbatim>\<open>mcu_power_save\<close>, which is all hardware, the set-up of the timers,
  and the switch of the task after a tick.
\<close>

section \<open>State\<close>

type_synonym u64 = "64 word"

record fclk =
  current_clock :: u32
  current_seconds :: u32
  second_countdown :: u32
  cal_fclk_tick :: u32
  cal_tmp1 :: u32
  use_cal_net :: u32
  increase_tick :: u32
  need_pass :: u32
  mcu_ps_on :: u32
  first_tick :: u32
  first_tsf :: u64
  machw_fclk_tick :: u32
  machw_tm :: u32
  bssid :: "u8 list"
  last_tsf :: u64
  hw_reads :: nat
  os_ticks :: nat

definition FCLK_DURATION_MS :: u32 where "FCLK_DURATION_MS = 2"
definition FCLK_SECOND :: u32 where "FCLK_SECOND = 500"
definition ONE_CAL_TIME :: u32 where "ONE_CAL_TIME = 15000"

definition fclk_boot :: fclk where
  "fclk_boot = \<lparr>current_clock = 0, current_seconds = 0, second_countdown = FCLK_SECOND,
     cal_fclk_tick = 0, cal_tmp1 = 0, use_cal_net = 0, increase_tick = 0, need_pass = 0, mcu_ps_on = 0,
     first_tick = 0, first_tsf = 0, machw_fclk_tick = 0, machw_tm = 0, bssid = replicate 6 0,
     last_tsf = 0, hw_reads = 0, os_ticks = 0\<rparr>"

section \<open>Counting\<close>

text \<open>\<^verbatim>\<open>xTaskIncrementTick\<close> and \<^verbatim>\<open>vTaskStepTick\<close>.\<close>

definition os_tick :: "nat \<Rightarrow> fclk \<Rightarrow> fclk" where
  "os_tick n s = s\<lparr>os_ticks := os_ticks s + n\<rparr>"

function second_loop :: "u32 \<Rightarrow> u32 \<Rightarrow> u32 \<times> u32" where
  "second_loop secs tick =
     (if FCLK_SECOND \<le> tick then second_loop (secs + 1) (tick - FCLK_SECOND) else (secs, tick))"
  by auto
termination
proof (relation "measure (\<lambda>(secs, tick). unat tick)")
  fix secs tick :: u32
  assume "FCLK_SECOND \<le> tick"
  then have "unat (tick - FCLK_SECOND) = unat tick - unat FCLK_SECOND" "unat FCLK_SECOND \<le> unat tick"
    by (simp_all add: unat_sub word_le_nat_alt)
  then show "((secs + 1, tick - FCLK_SECOND), secs, tick) \<in> measure (\<lambda>(secs, tick). unat tick)"
    by (simp add: FCLK_SECOND_def)
qed simp

declare second_loop.simps [simp del]

definition fclk_freertos_update_tick :: "u32 \<Rightarrow> fclk \<Rightarrow> fclk" where
  "fclk_freertos_update_tick tick s =
     (let s = s\<lparr>current_clock := current_clock s + tick\<rparr>;
          (secs, tick) = second_loop (current_seconds s) tick;
          s = s\<lparr>current_seconds := secs\<rparr>
      in if second_countdown s \<le> tick
         then s\<lparr>current_seconds := current_seconds s + 1,
                second_countdown := FCLK_SECOND - (tick - second_countdown s)\<rparr>
         else s\<lparr>second_countdown := second_countdown s - tick\<rparr>)"

definition mcu_ps_increase_clr :: "fclk \<Rightarrow> fclk" where
  "mcu_ps_increase_clr s = s\<lparr>increase_tick := 0\<rparr>"

definition fclk_update_tick :: "u32 \<Rightarrow> fclk \<Rightarrow> fclk" where
  "fclk_update_tick tick s =
     (if tick = 0 then s
      else os_tick (unat tick) (fclk_freertos_update_tick tick (mcu_ps_increase_clr s)))"

definition fclk_freertos_get_tick :: "fclk \<Rightarrow> u32" where
  "fclk_freertos_get_tick s = current_clock s"

definition fclk_get_tick :: "fclk \<Rightarrow> u64" where
  "fclk_get_tick s = ucast (fclk_freertos_get_tick s)"

definition fclk_get_second :: "fclk \<Rightarrow> u32" where
  "fclk_get_second s = current_clock s div FCLK_SECOND"

definition fclk_from_sec_to_tick :: "u32 \<Rightarrow> u32" where
  "fclk_from_sec_to_tick sec = sec * FCLK_SECOND"

definition fclk_reset_count :: "fclk \<Rightarrow> fclk" where
  "fclk_reset_count s = s\<lparr>current_clock := 0, current_seconds := 0\<rparr>"

text \<open>\<^verbatim>\<open>BK_TICKS_TO_MS(fclk_get_tick())\<close> in 32 bits, and \<^verbatim>\<open>BK_MS_TO_TICKS\<close> of a positive \<^verbatim>\<open>int\<close>.\<close>

definition fclk_ms :: "fclk \<Rightarrow> u32" where
  "fclk_ms s = ucast (fclk_get_tick s * 2)"

definition BK_MS_TO_TICKS :: "u32 \<Rightarrow> u32" where
  "BK_MS_TO_TICKS ms = ms div FCLK_DURATION_MS"

text \<open>The debt is taken off \<open>lost\<close>, a signed number; the result is the new value of \<^verbatim>\<open>*lost_p\<close>.\<close>

definition mcu_ps_cal_increase_tick :: "u32 \<Rightarrow> fclk \<Rightarrow> u32 \<times> fclk" where
  "mcu_ps_cal_increase_tick lost s =
     (if sint lost \<le> 0 \<or> increase_tick s = 0 then (lost, s)
      else let lost = lost + increase_tick s
           in if sint lost < 0 then (0, s\<lparr>increase_tick := lost\<rparr>)
              else (lost, s\<lparr>increase_tick := 0\<rparr>))"

definition mcu_ps_need_pstick :: "fclk \<Rightarrow> u32 \<times> fclk" where
  "mcu_ps_need_pstick s =
     (let n = need_pass s; s = s\<lparr>need_pass := n + 1\<rparr>
      in if n mod 5 = 0 then mcu_ps_cal_increase_tick FCLK_DURATION_MS s else (FCLK_DURATION_MS, s))"

text \<open>\<open>pwm\<close>: the PWM interrupt is used for power saving (\<^verbatim>\<open>power_save_use_pwm_isr\<close>).\<close>

definition fclk_hdl :: "bool \<Rightarrow> fclk \<Rightarrow> fclk" where
  "fclk_hdl pwm s =
     (if pwm then s
      else let (need, s) = mcu_ps_need_pstick s
           in if need = 0 then s
              else let s = s\<lparr>current_clock := current_clock s + 1\<rparr>;
                       s = s\<lparr>second_countdown := second_countdown s - 1\<rparr>;
                       s = (if second_countdown s = 0
                            then s\<lparr>current_seconds := current_seconds s + 1, second_countdown := FCLK_SECOND\<rparr> else s)
                   in os_tick 1 s)"

section \<open>The time counter of the radio\<close>

text \<open>\<open>hw n\<close> is what the \<open>n\<close>-th call of \<^verbatim>\<open>hal_machw_time\<close> gives.\<close>

definition hal_machw_time :: "(nat \<Rightarrow> u32) \<Rightarrow> fclk \<Rightarrow> u32 \<times> fclk" where
  "hal_machw_time hw s = (hw (hw_reads s), s\<lparr>hw_reads := hw_reads s + 1\<rparr>)"

definition mcu_ps_machw_reset :: "fclk \<Rightarrow> fclk" where
  "mcu_ps_machw_reset s = s\<lparr>machw_fclk_tick := 0, machw_tm := 0\<rparr>"

definition mcu_ps_machw_init :: "(nat \<Rightarrow> u32) \<Rightarrow> fclk \<Rightarrow> fclk" where
  "mcu_ps_machw_init hw s =
     (let s = s\<lparr>machw_fclk_tick := fclk_ms s\<rparr>;
          (t, s) = hal_machw_time hw s
      in s\<lparr>machw_tm := t\<rparr>)"

text \<open>\<open>dtim\<close> is \<^verbatim>\<open>power_save_if_ps_rf_dtim_enabled\<close>.\<close>

definition mcu_ps_machw_cal :: "(nat \<Rightarrow> u32) \<Rightarrow> bool \<Rightarrow> fclk \<Rightarrow> fclk" where
  "mcu_ps_machw_cal hw dtim s =
     (if \<not> (mcu_ps_on s = 1 \<and> dtim) then s
      else if machw_tm s = 0 \<or> machw_tm s = 0xdead5555 then mcu_ps_machw_init hw s
      else let (t, s) = hal_machw_time hw s
           in if t = 0xdead5555 then mcu_ps_machw_init hw s
              else let ms = fclk_ms s;
                       (machw, s) = hal_machw_time hw s;
                       tmp1 = machw - machw_tm s;
                       tmp2 = ms - machw_fclk_tick s;
                       lost = tmp1 div 1000 - tmp2
                   in if lost < 0x7FFFFFFF \<and> 0 < lost
                      then if 50000 < lost then mcu_ps_machw_init hw s
                           else let (lost, s) = mcu_ps_cal_increase_tick lost s
                                in mcu_ps_machw_init hw (fclk_update_tick (BK_MS_TO_TICKS lost) s)
                      else s)"

text \<open>Power saving on and off. What the system controller and the count of busy peripherals do is left out.\<close>

definition mcu_ps_enable :: "fclk \<Rightarrow> fclk" where
  "mcu_ps_enable s = s\<lparr>mcu_ps_on := 1\<rparr>"

definition mcu_ps_disable :: "fclk \<Rightarrow> fclk" where
  "mcu_ps_disable s = s\<lparr>mcu_ps_on := 0\<rparr>"

definition mcu_ps_init :: "(nat \<Rightarrow> u32) \<Rightarrow> fclk \<Rightarrow> fclk" where
  "mcu_ps_init hw s = mcu_ps_machw_init hw (if mcu_ps_on s = 0 then s\<lparr>mcu_ps_on := 1\<rparr> else s)"

definition mcu_ps_exit :: "fclk \<Rightarrow> fclk" where
  "mcu_ps_exit s = mcu_ps_machw_reset (if mcu_ps_on s = 1 then s\<lparr>mcu_ps_on := 0\<rparr> else s)"

section \<open>The calibration timer\<close>

definition timer_cal_init :: "fclk \<Rightarrow> fclk" where
  "timer_cal_init s = s\<lparr>cal_fclk_tick := fclk_ms s, cal_tmp1 := 0\<rparr>"

definition timer_cal_tick :: "(nat \<Rightarrow> u32) \<Rightarrow> fclk \<Rightarrow> fclk" where
  "timer_cal_tick hw s =
     (let ms = fclk_ms s;
          s = s\<lparr>cal_tmp1 := cal_tmp1 s + ONE_CAL_TIME\<rparr>;
          lost = cal_tmp1 s - ms;
          s = (if 4 \<le> sint lost
               then (fclk_update_tick (BK_MS_TO_TICKS (lost - FCLK_DURATION_MS)) s)\<lparr>increase_tick := 0\<rparr>
               else if sint lost \<le> - 4 then s\<lparr>increase_tick := lost + FCLK_DURATION_MS\<rparr>
               else s)
      in mcu_ps_machw_init hw s)"

section \<open>The beacons\<close>

definition tsf_reset :: "u64 \<Rightarrow> fclk \<Rightarrow> fclk" where
  "tsf_reset tsf s = s\<lparr>first_tsf := tsf, first_tick := fclk_ms s\<rparr>"

definition mcu_ps_tsf_cal :: "(nat \<Rightarrow> u32) \<Rightarrow> u64 \<Rightarrow> fclk \<Rightarrow> fclk" where
  "mcu_ps_tsf_cal hw tsf s =
     (if tsf = 0 \<or> first_tsf s = 0 \<or> tsf < first_tsf s then tsf_reset tsf s
      else let tmp1 = tsf - first_tsf s;
               tmp2 = fclk_ms s - first_tick s;
               loss = ucast (tmp1 div 1000 - ucast tmp2) :: u32
           in if 0 < sint loss
              then if 50000 < sint loss then tsf_reset tsf s
                   else (mcu_ps_machw_init hw (fclk_update_tick (BK_MS_TO_TICKS loss) s))\<lparr>increase_tick := 0\<rparr>
              else if sint loss < 0
              then if sint loss < - 50000 then tsf_reset tsf s else s\<lparr>increase_tick := loss\<rparr>
              else s)"

definition mcu_ps_bcn_callback :: "(nat \<Rightarrow> u32) \<Rightarrow> u8 list \<Rightarrow> u64 \<Rightarrow> fclk \<Rightarrow> fclk" where
  "mcu_ps_bcn_callback hw addr3 tsf s =
     (if use_cal_net s = 0 then s\<lparr>last_tsf := tsf\<rparr>
      else let s = (if addr3 \<noteq> bssid s \<or> tsf \<le> last_tsf s
                    then (mcu_ps_tsf_cal hw 0 s)\<lparr>bssid := addr3\<rparr>
                    else mcu_ps_tsf_cal hw tsf s)
           in s\<lparr>last_tsf := tsf\<rparr>)"

text \<open>Changing between the calibration timer and the beacons; the timers themselves are left out.\<close>

definition bk_cal_init :: "(nat \<Rightarrow> u32) \<Rightarrow> bool \<Rightarrow> u32 \<Rightarrow> fclk \<Rightarrow> fclk" where
  "bk_cal_init hw dtim setting s =
     (if setting = 1 then mcu_ps_machw_init hw ((timer_cal_init s)\<lparr>use_cal_net := 1\<rparr>)
      else mcu_ps_machw_reset ((timer_cal_init (mcu_ps_machw_cal hw dtim s))\<lparr>use_cal_net := 0\<rparr>))"

section \<open>The clock counts what the kernel is told\<close>

datatype fclk_op = Hdl bool | Update u32 | CalTimer | MachwCal bool | Beacon "u8 list" u64 | CalInit bool u32
  | PsInit | PsExit | PsEnable | PsDisable | ResetCount

fun fclk_step :: "(nat \<Rightarrow> u32) \<Rightarrow> fclk_op \<Rightarrow> fclk \<Rightarrow> fclk" where
  "fclk_step hw (Hdl pwm) = fclk_hdl pwm"
| "fclk_step hw (Update n) = fclk_update_tick n"
| "fclk_step hw CalTimer = timer_cal_tick hw"
| "fclk_step hw (MachwCal dtim) = mcu_ps_machw_cal hw dtim"
| "fclk_step hw (Beacon addr tsf) = mcu_ps_bcn_callback hw addr tsf"
| "fclk_step hw (CalInit dtim setting) = bk_cal_init hw dtim setting"
| "fclk_step hw PsInit = mcu_ps_init hw"
| "fclk_step hw PsExit = mcu_ps_exit"
| "fclk_step hw PsEnable = mcu_ps_enable"
| "fclk_step hw PsDisable = mcu_ps_disable"
| "fclk_step hw ResetCount = fclk_reset_count"

text \<open>The state after some operations, and the number of ticks at the last reset of the counters.\<close>

definition fclk_run :: "(nat \<Rightarrow> u32) \<Rightarrow> fclk_op list \<Rightarrow> fclk \<times> nat" where
  "fclk_run hw ops =
     fold (\<lambda>x (s, r). (fclk_step hw x s, if x = ResetCount then os_ticks s else r)) ops (fclk_boot, 0)"

definition clock_at :: "nat \<Rightarrow> nat \<Rightarrow> fclk \<Rightarrow> bool" where
  "clock_at r n s \<longleftrightarrow> os_ticks s = n \<and> current_clock s = of_nat n - of_nat r \<and>
     current_seconds s = of_nat (n div 500) - of_nat (r div 500) \<and> second_countdown s = of_nat (500 - n mod 500)"

definition clock_ok :: "nat \<Rightarrow> fclk \<Rightarrow> bool" where
  "clock_ok r s \<longleftrightarrow> clock_at r (os_ticks s) s \<and> r \<le> os_ticks s \<and> sint (increase_tick s) \<le> 0"

lemma fclk_ms_eq: "fclk_ms s = current_clock s * 2"
proof -
  have "ucast (ucast c * 2 :: u64) = (c * 2 :: u32)" for c :: u32
  proof -
    have "m < 18446744073709551616 \<Longrightarrow> unat (of_nat m :: u64) = m" for m by (simp add: unat_of_nat)
    moreover have "unat c * 2 < 18446744073709551616" using unsigned_less [of c, where ?'a = nat] by simp
    ultimately have "unat (of_nat (unat c * 2) :: u64) = unat c * 2" by blast
    moreover have "ucast c * (2 :: u64) = of_nat (unat c * 2)" by simp
    moreover have "(of_nat (unat c * 2) :: u32) = c * 2" by simp
    ultimately show ?thesis by (metis of_nat_unat)
  qed
  then show ?thesis by (simp add: fclk_ms_def fclk_get_tick_def fclk_freertos_get_tick_def del: mult.commute mult.left_commute)
qed

lemma sint_of_int_u32: "- 2147483648 \<le> i \<Longrightarrow> i < 2147483648 \<Longrightarrow> sint (of_int i :: u32) = i"
  by (simp add: signed_of_int signed_take_bit_int_eq_self)

lemma pos_word:
  fixes w :: u32
  assumes "sint w = int d" shows "unat w = d" and "w = of_nat d"
proof -
  have "of_int (sint w) = w" by simp
  then show w: "w = of_nat d" unfolding assms by simp
  have "sint w < 2147483648" using sint_lt [of w] by simp
  then have "d < 4294967296" unfolding assms by simp
  then show "unat w = d" unfolding w by (rule unat_u32)
qed

lemma second_loop_eq:
  "second_loop secs tick = (secs + of_nat (unat tick div 500), of_nat (unat tick mod 500))"
proof (induction secs tick rule: second_loop.induct)
  case (1 secs tick)
  show ?case
  proof (cases "FCLK_SECOND \<le> tick")
    case True
    then have u: "unat (tick - FCLK_SECOND) = unat tick - 500" "500 \<le> unat tick"
      by (simp_all add: unat_sub FCLK_SECOND_def word_le_nat_alt)
    then have "unat tick div 500 = Suc ((unat tick - 500) div 500)" "unat tick mod 500 = (unat tick - 500) mod 500"
      by (simp_all add: le_div_geq le_mod_geq)
    then show ?thesis using 1 [OF True] True u by (simp add: second_loop.simps [of secs tick])
  next
    case False
    then have "unat tick < 500" by (simp add: FCLK_SECOND_def word_le_nat_alt)
    then show ?thesis using False by (simp add: second_loop.simps [of secs tick])
  qed
qed

lemma div_mod_add:
  fixes n m :: nat
  shows "500 \<le> n mod 500 + m mod 500 \<Longrightarrow> (n + m) div 500 = n div 500 + m div 500 + 1 \<and> (n + m) mod 500 = n mod 500 + m mod 500 - 500"
    and "n mod 500 + m mod 500 < 500 \<Longrightarrow> (n + m) div 500 = n div 500 + m div 500 \<and> (n + m) mod 500 = n mod 500 + m mod 500"
proof -
  let ?s = "n mod 500 + m mod 500"
  have d: "(n + m) div 500 = n div 500 + m div 500 + ?s div 500" by (rule div_add1_eq)
  have e: "(n + m) mod 500 = ?s mod 500" by (rule mod_add_eq [symmetric])
  have "?s < 1000" by (rule add_less_le_mono [of _ 500 _ 500, simplified]) simp_all
  then show "500 \<le> ?s \<Longrightarrow> (n + m) div 500 = n div 500 + m div 500 + 1 \<and> (n + m) mod 500 = ?s - 500"
    unfolding d e by (simp add: le_div_geq le_mod_geq)
  show "?s < 500 \<Longrightarrow> (n + m) div 500 = n div 500 + m div 500 \<and> (n + m) mod 500 = ?s"
    unfolding d e by simp
qed

lemma update_clock:
  assumes "clock_at r n s"
  shows "clock_at r (n + unat tick) (fclk_update_tick tick s)"
proof (cases "tick = 0")
  case False
  let ?r = "n mod 500" let ?t = "unat tick mod 500"
  have b: "?r < 500" "?t < 500" by simp_all
  have c: "(of_nat (500 - ?r) :: u32) \<le> of_nat ?t \<longleftrightarrow> 500 - ?r \<le> ?t"
    using b by (intro of_nat_u32_le) simp_all
  have e: "clock_at r n (mcu_ps_increase_clr s)" using assms by (simp add: clock_at_def mcu_ps_increase_clr_def)
  show ?thesis
  proof (cases "500 - ?r \<le> ?t")
    case True
    then have m: "(n + unat tick) div 500 = n div 500 + unat tick div 500 + 1"
        "500 - (n + unat tick) mod 500 = 1000 - (?t + ?r)"
      using div_mod_add(1) [of n "unat tick"] b by simp_all
    have "(500 :: u32) - (of_nat ?t - of_nat (500 - ?r)) = of_nat (1000 - (?t + ?r))"
      using True b by (simp add: of_nat_diff)
    then show ?thesis
      using False True c e m unfolding clock_at_def
      by (simp add: fclk_update_tick_def fclk_freertos_update_tick_def second_loop_eq Let_def os_tick_def FCLK_SECOND_def)
  next
    case F: False
    then have m: "(n + unat tick) div 500 = n div 500 + unat tick div 500"
        "500 - (n + unat tick) mod 500 = 500 - ?r - ?t"
      using div_mod_add(2) [of n "unat tick"] b by simp_all
    have "(of_nat (500 - ?r) :: u32) - of_nat ?t = of_nat (500 - ?r - ?t)"
      using F b by (simp add: of_nat_diff)
    then show ?thesis
      using False F c e m unfolding clock_at_def
      by (simp add: fclk_update_tick_def fclk_freertos_update_tick_def second_loop_eq Let_def os_tick_def)
  qed
qed (use assms in \<open>simp add: fclk_update_tick_def\<close>)

lemma need_frames [simp]:
  "current_clock (snd (mcu_ps_need_pstick s)) = current_clock s"
  "current_seconds (snd (mcu_ps_need_pstick s)) = current_seconds s"
  "second_countdown (snd (mcu_ps_need_pstick s)) = second_countdown s"
  "os_ticks (snd (mcu_ps_need_pstick s)) = os_ticks s"
  by (simp_all add: mcu_ps_need_pstick_def mcu_ps_cal_increase_tick_def Let_def)

lemma count_tick:
  fixes s :: fclk
  assumes "clock_at r n s"
  defines "t \<equiv> s\<lparr>current_clock := current_clock s + 1, second_countdown := second_countdown s - 1\<rparr>"
  shows "clock_at r (Suc n) (os_tick 1 (if second_countdown t = 0
    then t\<lparr>current_seconds := current_seconds t + 1, second_countdown := FCLK_SECOND\<rparr> else t))"
proof -
  let ?r = "n mod 500"
  have b: "?r < 500" by simp
  have "second_countdown t = of_nat (499 - ?r)"
    using assms b by (simp add: clock_at_def of_nat_diff)
  moreover have "(of_nat (499 - ?r) :: u32) = of_nat 0 \<longleftrightarrow> 499 - ?r = 0" by (intro of_nat_u32_eq) simp_all
  moreover have "Suc n mod 500 = (if ?r = 499 then 0 else Suc ?r)" by (rule mod_Suc [of n 500, simplified])
  moreover have "Suc n div 500 = (if ?r = 499 then Suc (n div 500) else n div 500)"
    using div_Suc [of n 500] calculation(3) by (simp split: if_splits)
  ultimately show ?thesis
    using assms b by (auto simp: clock_at_def os_tick_def FCLK_SECOND_def)
qed

lemma hdl_clock:
  assumes "clock_at r n s"
  shows "clock_at r n (fclk_hdl pwm s) \<or> clock_at r (Suc n) (fclk_hdl pwm s)"
proof -
  obtain need t where n: "mcu_ps_need_pstick s = (need, t)" by fastforce
  have t: "clock_at r n t" using assms need_frames [of s] unfolding n by (simp add: clock_at_def)
  show ?thesis
    using assms t count_tick [OF t] by (auto simp: fclk_hdl_def n Let_def)
qed

lemma increase_neg:
  assumes "sint (increase_tick s) \<le> 0"
  shows "sint (increase_tick (snd (mcu_ps_cal_increase_tick lost s))) \<le> 0"
  using assms by (simp add: mcu_ps_cal_increase_tick_def Let_def)

text \<open>A state with the same clock.\<close>

lemma clock_ok_frame:
  "clock_ok r s \<Longrightarrow> current_clock t = current_clock s \<Longrightarrow> current_seconds t = current_seconds s \<Longrightarrow>
   second_countdown t = second_countdown s \<Longrightarrow> os_ticks t = os_ticks s \<Longrightarrow> sint (increase_tick t) \<le> 0 \<Longrightarrow>
   clock_ok r t"
  by (simp add: clock_ok_def clock_at_def)

lemma clock_at_ok: "clock_at r n s \<Longrightarrow> r \<le> n \<Longrightarrow> sint (increase_tick s) \<le> 0 \<Longrightarrow> clock_ok r s"
  by (simp add: clock_ok_def clock_at_def)

lemma update_ok: "clock_ok r s \<Longrightarrow> clock_ok r (fclk_update_tick tick s)"
proof -
  assume ok: "clock_ok r s"
  have "sint (increase_tick (fclk_update_tick tick s)) \<le> 0"
    using ok by (simp add: clock_ok_def fclk_update_tick_def fclk_freertos_update_tick_def second_loop_eq
        Let_def os_tick_def mcu_ps_increase_clr_def)
  then show ?thesis using ok by (intro clock_at_ok [OF update_clock]) (auto simp: clock_ok_def)
qed

lemma fclk_frames [simp]:
  "current_clock (mcu_ps_machw_init hw s) = current_clock s"
  "current_seconds (mcu_ps_machw_init hw s) = current_seconds s"
  "second_countdown (mcu_ps_machw_init hw s) = second_countdown s"
  "os_ticks (mcu_ps_machw_init hw s) = os_ticks s"
  "increase_tick (mcu_ps_machw_init hw s) = increase_tick s"
  "cal_tmp1 (mcu_ps_machw_init hw s) = cal_tmp1 s"
  by (simp_all add: mcu_ps_machw_init_def hal_machw_time_def)

lemma clock_ok_init [simp]: "clock_ok r (mcu_ps_machw_init hw s) = clock_ok r s"
  by (simp add: clock_ok_def clock_at_def)

lemma clock_ok_cal:
  assumes "clock_ok r s" shows "clock_ok r (snd (mcu_ps_cal_increase_tick lost s))"
  using assms increase_neg [of s lost]
  by (intro clock_ok_frame [OF assms]) (simp_all add: mcu_ps_cal_increase_tick_def clock_ok_def Let_def)

lemma machw_cal_ok:
  assumes ok: "clock_ok r s" shows "clock_ok r (mcu_ps_machw_cal hw dtim s)"
proof -
  have f: "clock_ok r (t\<lparr>hw_reads := n\<rparr>) = clock_ok r t" for t n by (simp add: clock_ok_def clock_at_def)
  show ?thesis
    using ok clock_ok_cal f
    by (auto simp: mcu_ps_machw_cal_def hal_machw_time_def Let_def split: prod.split intro!: update_ok)
       (metis f snd_conv)
qed

lemma hdl_ok:
  assumes ok: "clock_ok r s" shows "clock_ok r (fclk_hdl pwm s)"
proof -
  obtain need t where n: "mcu_ps_need_pstick s = (need, t)" by fastforce
  have "sint (increase_tick t) \<le> 0"
    using ok increase_neg [of "s\<lparr>need_pass := need_pass s + 1\<rparr>" FCLK_DURATION_MS] n
    by (auto simp: mcu_ps_need_pstick_def clock_ok_def Let_def split: if_splits)
  then have "sint (increase_tick (fclk_hdl pwm s)) \<le> 0"
    using ok by (simp add: fclk_hdl_def n Let_def os_tick_def clock_ok_def)
  then show ?thesis using ok hdl_clock [of r "os_ticks s" s pwm] by (auto simp: clock_ok_def clock_at_def)
qed

lemma cal_tick_ok:
  assumes ok: "clock_ok r s" shows "clock_ok r (timer_cal_tick hw s)"
proof -
  let ?s = "s\<lparr>cal_tmp1 := cal_tmp1 s + ONE_CAL_TIME\<rparr>"
  let ?lost = "cal_tmp1 s + ONE_CAL_TIME - fclk_ms s"
  have s: "clock_ok r ?s" using ok by (simp add: clock_ok_def clock_at_def)
  have z: "clock_ok r (t\<lparr>increase_tick := 0\<rparr>)" if "clock_ok r t" for t
    using that by (simp add: clock_ok_def clock_at_def)
  have "clock_ok r (?s\<lparr>increase_tick := ?lost + FCLK_DURATION_MS\<rparr>)" if l: "sint ?lost \<le> - 4"
  proof -
    have "- 2147483648 \<le> sint ?lost" using sint_ge [of ?lost] by simp
    then have "sint (of_int (sint ?lost + 2) :: u32) = sint ?lost + 2" using l by (intro sint_of_int_u32) simp_all
    then have "sint (?lost + FCLK_DURATION_MS) \<le> 0" using l by (simp add: FCLK_DURATION_MS_def)
    then show ?thesis using s by (simp add: clock_ok_def clock_at_def)
  qed
  then show ?thesis using s z [OF update_ok [OF s]] unfolding timer_cal_tick_def Let_def by simp
qed

lemma tsf_cal_ok:
  assumes ok: "clock_ok r s" shows "clock_ok r (mcu_ps_tsf_cal hw tsf s)"
proof -
  have r: "clock_ok r (tsf_reset tsf s)" using ok by (simp add: tsf_reset_def clock_ok_def clock_at_def)
  have z: "clock_ok r (t\<lparr>increase_tick := i\<rparr>)" if "clock_ok r t" "sint i \<le> 0" for t i
    using that by (simp add: clock_ok_def clock_at_def)
  show ?thesis using ok r unfolding mcu_ps_tsf_cal_def Let_def by (auto intro!: z update_ok)
qed

lemma power_ok:
  assumes "clock_ok r s"
  shows "clock_ok r (mcu_ps_init hw s)" "clock_ok r (mcu_ps_exit s)" "clock_ok r (mcu_ps_enable s)"
    "clock_ok r (mcu_ps_disable s)" "clock_ok (os_ticks s) (fclk_reset_count s)"
  using assms by (simp_all add: mcu_ps_init_def mcu_ps_exit_def mcu_ps_enable_def mcu_ps_disable_def
      mcu_ps_machw_reset_def fclk_reset_count_def clock_ok_def clock_at_def)

lemma fclk_step_ok:
  assumes ok: "clock_ok r s"
  shows "clock_ok (if x = ResetCount then os_ticks s else r) (fclk_step hw x s)"
proof (cases x)
  case (Beacon a t)
  have "clock_ok r (u\<lparr>last_tsf := v\<rparr>) = clock_ok r u" "clock_ok r (u\<lparr>bssid := w\<rparr>) = clock_ok r u" for u v w
    by (simp_all add: clock_ok_def clock_at_def)
  then show ?thesis using ok Beacon tsf_cal_ok [OF ok] by (simp add: mcu_ps_bcn_callback_def Let_def)
next
  case (CalInit d n)
  have f: "clock_ok r (timer_cal_init u) = clock_ok r u" "clock_ok r (u\<lparr>use_cal_net := k\<rparr>) = clock_ok r u"
      "clock_ok r (mcu_ps_machw_reset u) = clock_ok r u" for u k
    by (simp_all add: clock_ok_def clock_at_def timer_cal_init_def mcu_ps_machw_reset_def)
  show ?thesis using ok CalInit machw_cal_ok [OF ok] by (simp add: bk_cal_init_def f)
qed (use ok in \<open>simp_all add: hdl_ok update_ok cal_tick_ok machw_cal_ok power_ok\<close>)

lemma fclk_run_ok:
  "clock_ok (snd (fclk_run hw ops)) (fst (fclk_run hw ops))"
proof -
  have "clock_ok 0 fclk_boot" by (simp add: clock_ok_def clock_at_def fclk_boot_def FCLK_SECOND_def)
  moreover have "let f = fold (\<lambda>x (s, r). (fclk_step hw x s, if x = ResetCount then os_ticks s else r)) ops (s, r)
      in clock_ok (snd f) (fst f)" if "clock_ok r s" for s r
    using that by (induction ops arbitrary: s r) (simp_all add: fclk_step_ok)
  ultimately show ?thesis by (auto simp: fclk_run_def Let_def)
qed

text \<open>What the time counter of the radio corrects.\<close>

lemma machw_cal_amount:
  assumes "0 < d" "d \<le> 50000" and "sint (increase_tick s) \<le> 0"
  shows "let (lost, t) = mcu_ps_cal_increase_tick (of_nat d) s; u = fclk_update_tick (BK_MS_TO_TICKS lost) t
    in int (os_ticks u) = int (os_ticks s) + max 0 (int d + sint (increase_tick s)) div 2 \<and>
       sint (increase_tick u) = min 0 (int d + sint (increase_tick s))"
proof -
  have sd: "sint (of_nat d :: u32) = int d" using assms(1,2) sint_of_int_u32 [of "int d"] by simp
  have i: "- 2147483648 \<le> sint (increase_tick s)" using sint_ge [of "increase_tick s"] by simp
  let ?l = "of_nat d + increase_tick s"
  have "?l = of_int (int d + sint (increase_tick s))" by simp
  then have l: "sint ?l = int d + sint (increase_tick s)"
    using i assms sint_of_int_u32 [of "int d + sint (increase_tick s)"] by simp
  have m: "unat (BK_MS_TO_TICKS x) = unat x div 2" for x
    by (simp add: BK_MS_TO_TICKS_def FCLK_DURATION_MS_def unat_div)
  have up: "os_ticks (fclk_update_tick x v) = os_ticks v + unat x"
      "increase_tick v = 0 \<Longrightarrow> increase_tick (fclk_update_tick x v) = 0" for x v
    by (simp_all add: fclk_update_tick_def fclk_freertos_update_tick_def second_loop_eq Let_def os_tick_def mcu_ps_increase_clr_def)
  have un: "int (unat x) = sint x" if "0 \<le> sint x" for x :: u32
    using that pos_word(1) [of x "nat (sint x)"] by simp
  consider "increase_tick s = 0" | "increase_tick s \<noteq> 0" "sint ?l < 0" | "increase_tick s \<noteq> 0" "0 \<le> sint ?l" by linarith
  then show ?thesis
  proof cases
    case 1
    then show ?thesis using sd un [of "of_nat d"] assms(1,2)
      by (simp add: mcu_ps_cal_increase_tick_def up m zdiv_int)
  next
    case 2
    then show ?thesis using sd l assms(1)
      by (simp add: mcu_ps_cal_increase_tick_def Let_def BK_MS_TO_TICKS_def fclk_update_tick_def)
  next
    case 3
    then show ?thesis using sd l un [of ?l] assms(1)
      by (simp add: mcu_ps_cal_increase_tick_def Let_def up m zdiv_int)
  qed
qed

lemma machw_cal_outcome:
  assumes "sint (increase_tick s) \<le> 0"
  shows "let t = mcu_ps_machw_cal hw dtim s; i = sint (increase_tick s);
      d = unat ((hw (hw_reads s + 1) - machw_tm s) div 1000 - (fclk_ms s - machw_fclk_tick s))
    in if mcu_ps_on s = 1 \<and> dtim \<and> machw_tm s \<notin> {0, 0xdead5555} \<and> hw (hw_reads s) \<noteq> 0xdead5555 \<and> 0 < d \<and> d \<le> 50000
       then int (os_ticks t) = int (os_ticks s) + max 0 (int d + i) div 2 \<and> sint (increase_tick t) = min 0 (int d + i)
       else os_ticks t = os_ticks s \<and> increase_tick t = increase_tick s"
proof -
  let ?d = "(hw (hw_reads s + 1) - machw_tm s) div 1000 - (fclk_ms s - machw_fclk_tick s)"
  have c: "?d < 0x7FFFFFFF \<and> 0 < ?d \<and> \<not> 50000 < ?d \<longleftrightarrow> 0 < unat ?d \<and> unat ?d \<le> 50000"
    by (auto simp: word_less_nat_alt)
  have f: "fclk_ms (s\<lparr>hw_reads := k\<rparr>) = fclk_ms s" for k by (simp add: fclk_ms_eq)
  note a = machw_cal_amount [of "unat ?d" "s\<lparr>hw_reads := Suc (Suc (hw_reads s))\<rparr>"]
  show ?thesis
  proof (cases "0 < unat ?d \<and> unat ?d \<le> 50000")
    case True
    then show ?thesis using a c assms
      by (auto simp: mcu_ps_machw_cal_def hal_machw_time_def Let_def f case_prod_beta)
  next
    case False
    then show ?thesis using c
      by (auto simp: mcu_ps_machw_cal_def hal_machw_time_def Let_def f case_prod_beta)
  qed
qed

text \<open>C11. After any sequence of timer interrupts, corrections from the three references, changes
  between them, power saving switched on and off, and resets of the counters, the tick counter, the seconds
  and the countdown to the next second are those of the number \<open>n\<close> of ticks the kernel was told of, the
  first two counted from the last reset (at \<open>r\<close> ticks; the countdown goes on), and no correction leaves a debt
  of the wrong sign. \<^verbatim>\<open>fclk_get_second\<close>, which divides the 32-bit tick counter, starts again from 0 each
  time the counter wraps, unlike \<^verbatim>\<open>current_seconds\<close>. Calibrating there against the radio, with power saving on
  and both times known, adds the ticks of the \<open>d\<close> ms that the clock is behind (up to 50 s), less what it owes;
  a debt that is not used up stays. Otherwise no tick is added.\<close>

theorem fclk_time:
  "let (s, r) = fclk_run hw ops; n = os_ticks s; i = sint (increase_tick s); t = mcu_ps_machw_cal hw dtim s;
       d = unat ((hw (hw_reads s + 1) - machw_tm s) div 1000 - (fclk_ms s - machw_fclk_tick s))
   in r \<le> n \<and> current_clock s = of_nat (n - r) \<and> current_seconds s = of_nat (n div 500 - r div 500) \<and>
      unat (second_countdown s) = 500 - n mod 500 \<and> i \<le> 0 \<and> unat (fclk_get_second s) = (n - r) mod 2 ^ 32 div 500 \<and>
      (if mcu_ps_on s = 1 \<and> dtim \<and> machw_tm s \<notin> {0, 0xdead5555} \<and> hw (hw_reads s) \<noteq> 0xdead5555 \<and> 0 < d \<and> d \<le> 50000
       then int (os_ticks t) = int n + max 0 (int d + i) div 2 \<and> sint (increase_tick t) = min 0 (int d + i)
       else os_ticks t = n \<and> increase_tick t = increase_tick s)"
proof -
  obtain s r where s: "fclk_run hw ops = (s, r)" by fastforce
  have ok: "clock_ok r s" using fclk_run_ok [of hw ops] unfolding s by simp
  have r: "r \<le> os_ticks s" and i: "sint (increase_tick s) \<le> 0" using ok by (simp_all add: clock_ok_def)
  have "second_countdown s = of_nat (500 - os_ticks s mod 500)" using ok by (simp only: clock_ok_def clock_at_def)
  then have c: "unat (second_countdown s) = 500 - os_ticks s mod 500" by (simp only: unat_u32)
  have q: "current_clock s = of_nat (os_ticks s - r)" "current_seconds s = of_nat (os_ticks s div 500 - r div 500)"
    using ok r div_le_mono [OF r, of 500] by (simp_all add: clock_ok_def clock_at_def of_nat_diff)
  then have "unat (fclk_get_second s) = (os_ticks s - r) mod 2 ^ 32 div 500"
    unfolding fclk_get_second_def q(1) by (simp only: FCLK_SECOND_def unat_div unat_of_nat) simp
  then show ?thesis using r i c q machw_cal_outcome [OF i, of hw dtim] unfolding s Let_def prod.case by blast
qed

section \<open>The corrections\<close>

text \<open>How far the clock is behind the calibration timer, in milliseconds.\<close>

definition clock_lag :: "fclk \<Rightarrow> int" where
  "clock_lag s = sint (cal_tmp1 s - fclk_ms s)"

lemma update_now:
  assumes "tick \<noteq> 0"
  shows "current_clock (fclk_update_tick tick s) = current_clock s + tick"
    and "os_ticks (fclk_update_tick tick s) = os_ticks s + unat tick"
    and "cal_tmp1 (fclk_update_tick tick s) = cal_tmp1 s"
    and "increase_tick (fclk_update_tick tick s) = 0"
  using assms by (simp_all add: fclk_update_tick_def fclk_freertos_update_tick_def second_loop_eq Let_def
      os_tick_def mcu_ps_increase_clr_def)

text \<open>C39. When the calibration timer fires, a clock that is 4 ms or more behind is stepped to 2 or 3 ms
  behind, and the ticks it skipped are reported to the kernel; a clock that is 4 ms or more ahead
  is left, with all but 2 ms of its lead noted as ticks to drop; otherwise nothing changes.\<close>

theorem timer_cal_tick_outcome:
  "let d = sint (cal_tmp1 s + ONE_CAL_TIME - fclk_ms s); t = timer_cal_tick hw s
   in if 4 \<le> d
      then clock_lag t = 2 + d mod 2 \<and> increase_tick t = 0 \<and> int (os_ticks t) = int (os_ticks s) + (d - 2) div 2
      else clock_lag t = d \<and> current_clock t = current_clock s \<and> os_ticks t = os_ticks s \<and>
           (if d \<le> - 4 then sint (increase_tick t) = d + 2 else increase_tick t = increase_tick s)"
proof -
  let ?lost = "cal_tmp1 s + ONE_CAL_TIME - fclk_ms s"
  let ?s = "s\<lparr>cal_tmp1 := cal_tmp1 s + ONE_CAL_TIME\<rparr>"
  let ?t = "timer_cal_tick hw s"
  have m: "fclk_ms ?s = fclk_ms s" by (simp add: fclk_ms_eq)
  show ?thesis
  proof (cases "4 \<le> sint ?lost")
    case True
    define D where "D = nat (sint ?lost)"
    define k where "k = (D - 2) div 2"
    have D: "sint ?lost = int D" "4 \<le> D" using True by (simp_all add: D_def)
    have lost: "?lost = of_nat D" "D < 2147483648" using pos_word(2) [OF D(1)] sint_lt [of ?lost] D(1) by simp_all
    have "?lost - FCLK_DURATION_MS = of_nat (D - 2)"
      using D(2) unfolding lost(1) by (simp add: FCLK_DURATION_MS_def of_nat_diff)
    then have k: "BK_MS_TO_TICKS (?lost - FCLK_DURATION_MS) = of_nat k" 
      using lost(2) by (simp add: BK_MS_TO_TICKS_def FCLK_DURATION_MS_def word_unat_eq_iff unat_div unat_u32 k_def)
    have kb: "k < 4294967296" "0 < k" using lost(2) D(2) by (simp_all add: k_def)
    then have nz: "(of_nat k :: u32) \<noteq> 0" using of_nat_u32_eq [of k 0] by simp
    have t: "?t = mcu_ps_machw_init hw ((fclk_update_tick (of_nat k) ?s)\<lparr>increase_tick := 0\<rparr>)"
      unfolding timer_cal_tick_def Let_def using True k by simp
    have "cal_tmp1 ?t - fclk_ms ?t = ?lost - of_nat (2 * k)"
      unfolding t by (simp add: fclk_ms_eq update_now [OF nz] algebra_simps)
    also have "\<dots> = of_int (int (2 + D mod 2))"
    proof -
      have "D = 2 * k + (2 + D mod 2)" using D(2) unfolding k_def by presburger
      then have "(of_nat D :: u32) = of_nat (2 * k) + of_nat (2 + D mod 2)" by (metis of_nat_add)
      then show ?thesis unfolding lost(1) by simp
    qed
    finally have "clock_lag ?t = int (2 + D mod 2)"
      unfolding clock_lag_def by (simp only: sint_of_int_u32)
    moreover have "os_ticks ?t = os_ticks s + k" unfolding t using kb by (simp add: update_now [OF nz] unat_u32)
    moreover have "increase_tick ?t = 0" unfolding t by simp
    ultimately show ?thesis
      using True D by (simp add: Let_def k_def zmod_int zdiv_int of_nat_diff)
  next
    case False
    have l: "clock_lag (mcu_ps_machw_init hw u) = sint ?lost" if "cal_tmp1 u = cal_tmp1 ?s" "current_clock u = current_clock s" for u
      using that by (simp add: clock_lag_def fclk_ms_eq)
    have "sint (?lost + FCLK_DURATION_MS) = sint ?lost + 2" if "sint ?lost \<le> - 4"
    proof -
      have "- 2147483648 \<le> sint ?lost" using sint_ge [of ?lost] by simp
      then have "sint (of_int (sint ?lost + 2) :: u32) = sint ?lost + 2" using that by (intro sint_of_int_u32) simp_all
      then show ?thesis by (simp add: FCLK_DURATION_MS_def)
    qed
    then show ?thesis using False unfolding timer_cal_tick_def Let_def by (simp add: l)
  qed
qed

section \<open>Dropping ticks\<close>

text \<open>Calls of \<^verbatim>\<open>mcu_ps_need_pstick\<close> before the next that looks at the debt.\<close>

definition wait_calls :: "u32 \<Rightarrow> nat" where
  "wait_calls n = 4 * unat n mod 5"

lemma mod5_wait:
  fixes m :: nat
  shows "m mod 5 = 0 \<longleftrightarrow> 4 * m mod 5 = 0" and "4 * m mod 5 \<noteq> 0 \<Longrightarrow> 4 * (m + 1) mod 5 = 4 * m mod 5 - 1"
proof -
  define q r where "q = m div 5" and "r = m mod 5"
  then have m: "m = 5 * q + r" "r < 5" by simp_all
  have "4 * (5 * q + r) = 4 * r + 5 * (4 * q)" "4 * (5 * q + r + 1) = 4 * r + 4 + 5 * (4 * q)" by simp_all
  then have e: "4 * m mod 5 = 4 * r mod 5" "4 * (m + 1) mod 5 = (4 * r + 4) mod 5" "m mod 5 = r"
    unfolding m(1) using m(2) by (simp_all only: mod_mult_self2 mod_mult_self4 mod_less)
  have "r = 0 \<or> r = 1 \<or> r = 2 \<or> r = 3 \<or> r = 4" using m(2) by arith
  then show "m mod 5 = 0 \<longleftrightarrow> 4 * m mod 5 = 0" and "4 * m mod 5 \<noteq> 0 \<Longrightarrow> 4 * (m + 1) mod 5 = 4 * m mod 5 - 1"
    unfolding e by auto
qed

lemma wait_calls_step:
  "n mod 5 = 0 \<longleftrightarrow> wait_calls n = 0" "wait_calls n \<le> 4"
  "wait_calls n \<noteq> 0 \<Longrightarrow> wait_calls (n + 1) = wait_calls n - 1"
proof -
  show z: "n mod 5 = 0 \<longleftrightarrow> wait_calls n = 0"
  proof -
    have "unat (n mod 5) = unat n mod 5" by (simp add: unat_mod)
    then have "n mod 5 = 0 \<longleftrightarrow> unat n mod 5 = 0" using word_unat_eq_iff [of "n mod 5" 0] by simp
    then show ?thesis unfolding wait_calls_def using mod5_wait(1) [of "unat n"] by metis
  qed
  have "m mod 5 \<le> 4" for m :: nat using mod_less_divisor [of 5 m] by simp
  then show "wait_calls n \<le> 4" unfolding wait_calls_def by blast
  assume w: "wait_calls n \<noteq> 0"
  have "unat n \<noteq> 4294967295" using w unfolding wait_calls_def by auto
  then have "unat (n + 1) = unat n + 1"
    using unsigned_less [of n, where ?'a = nat] by (simp add: unat_word_ariths)
  then show "wait_calls (n + 1) = wait_calls n - 1"
    using w mod5_wait(2) [of "unat n"] unfolding wait_calls_def by simp
qed

lemma debt_consult:
  assumes "increase_tick s = - of_nat k" and "k < 2147483648"
  shows "mcu_ps_cal_increase_tick FCLK_DURATION_MS s =
    (if k = 0 then (2, s) else if k = 1 then (1, s\<lparr>increase_tick := 0\<rparr>) else (0, s\<lparr>increase_tick := - of_nat (k - 2)\<rparr>))"
proof -
  have two: "sint (2 :: u32) = 2" by simp
  have e: "increase_tick s = 0 \<longleftrightarrow> k = 0" using of_nat_u32_eq [of k 0] assms by simp
  have "sint (of_int (2 - int k) :: u32) = 2 - int k" using assms(2) by (intro sint_of_int_u32) simp_all
  then have d: "sint (2 - of_nat k :: u32) = 2 - int k" by simp
  have "(2 :: u32) - of_nat k = - of_nat (k - 2)" if "2 \<le> k" using that by (simp add: of_nat_diff)
  then show ?thesis
    using e d assms(1) by (cases "k = 2") (auto simp: mcu_ps_cal_increase_tick_def FCLK_DURATION_MS_def Let_def)
qed

text \<open>One tick interrupt while the clock owes \<open>k\<close> milliseconds.\<close>

lemma hdl_debt:
  assumes k: "increase_tick s = - of_nat k" "k < 2147483648"
    and t: "t = fclk_hdl False s" and w: "w = wait_calls (need_pass s)"
  shows "need_pass t = need_pass s + 1"
    and "increase_tick t = - of_nat (if w = 0 then k - 2 else k)"
    and "os_ticks t = os_ticks s + (if w = 0 \<and> 2 \<le> k then 0 else 1)"
    and "current_clock t = current_clock s + (if w = 0 \<and> 2 \<le> k then 0 else 1)"
proof -
  let ?s = "s\<lparr>need_pass := need_pass s + 1\<rparr>"
  have k': "increase_tick ?s = - of_nat k" using k by simp
  have n: "mcu_ps_need_pstick s = (if w = 0 then mcu_ps_cal_increase_tick FCLK_DURATION_MS ?s else (2, ?s))"
    using wait_calls_step(1) [of "need_pass s"] w by (simp add: mcu_ps_need_pstick_def Let_def FCLK_DURATION_MS_def)
  note m = n [unfolded debt_consult [OF k' k(2)]]
  show "need_pass t = need_pass s + 1" "increase_tick t = - of_nat (if w = 0 then k - 2 else k)"
    "os_ticks t = os_ticks s + (if w = 0 \<and> 2 \<le> k then 0 else 1)"
    "current_clock t = current_clock s + (if w = 0 \<and> 2 \<le> k then 0 else 1)"
    unfolding t fclk_hdl_def m using k by (auto simp: os_tick_def Let_def)
qed

lemma debt_steps:
  assumes "k = 0 \<or> w + 5 * ((k + 1) div 2 - 1) < Suc n" and "j = (if w = 0 then k - 2 else k)"
    and "v \<le> 4 \<and> (w \<noteq> 0 \<longrightarrow> v = w - 1)"
  shows "j = 0 \<or> v + 5 * ((j + 1) div 2 - 1) < n"
proof (cases "w = 0")
  case True
  show ?thesis
  proof (cases "k \<le> 2")
    case False
    then obtain m where k: "k = m + 3" by (metis add.commute le_Suc_ex not_less_eq_eq numeral_3_eq_3 numeral_2_eq_2)
    have "(m + 3 + 1) div 2 = (m + 1 + 1) div 2 + 1" "1 \<le> (m + 1 + 1) div 2" by simp_all
    then show ?thesis using assms True k by auto
  qed (use assms True in simp)
qed (use assms in auto)

lemma repay_run:
  assumes "increase_tick s = - of_nat k" "k < 2147483648"
    and "k = 0 \<or> wait_calls (need_pass s) + 5 * ((k + 1) div 2 - 1) < n"
  shows "increase_tick ((fclk_hdl False ^^ n) s) = 0 \<and>
    os_ticks ((fclk_hdl False ^^ n) s) + k div 2 = os_ticks s + n \<and>
    current_clock ((fclk_hdl False ^^ n) s) + of_nat (k div 2) = current_clock s + of_nat n"
  using assms
proof (induction n arbitrary: s k)
  case (Suc n)
  define t where "t = fclk_hdl False s"
  define w where "w = wait_calls (need_pass s)"
  define j where "j = (if w = 0 then k - 2 else k)"
  note d = hdl_debt [OF Suc.prems(1,2) t_def w_def]
  have "increase_tick t = - of_nat j" "j < 2147483648" using d(2) Suc.prems(2) by (auto simp: j_def)
  moreover have "j = 0 \<or> wait_calls (need_pass t) + 5 * ((j + 1) div 2 - 1) < n"
    by (rule debt_steps [OF Suc.prems(3) [folded w_def]]) (simp_all add: j_def d(1) w_def wait_calls_step)
  ultimately have ih: "increase_tick ((fclk_hdl False ^^ n) t) = 0 \<and>
      os_ticks ((fclk_hdl False ^^ n) t) + j div 2 = os_ticks t + n \<and>
      current_clock ((fclk_hdl False ^^ n) t) + of_nat (j div 2) = current_clock t + of_nat n"
    by (rule Suc.IH)
  have s: "(fclk_hdl False ^^ Suc n) s = (fclk_hdl False ^^ n) t" by (simp add: funpow_swap1 t_def)
  show ?case
  proof (cases "w = 0 \<and> 2 \<le> k")
    case True
    then have "k div 2 = Suc (j div 2)" by (simp add: j_def le_div_geq)
    then show ?thesis using ih True d(3,4) unfolding s by (simp add: algebra_simps)
  next
    case False
    then have "k div 2 = j div 2" by (auto simp: j_def)
    then show ?thesis using ih False d(3,4) unfolding s by (simp add: algebra_simps)
  qed
qed simp

text \<open>C40. A clock that is \<open>k\<close> ms ahead drops just \<open>k div 2\<close> ticks, and has dropped them all after
  five tick interrupts for each two milliseconds; then the debt is gone and every tick counts.\<close>

theorem fclk_repays:
  assumes "increase_tick s = - of_nat k" and "k < 2147483648" and "5 * ((k + 1) div 2) \<le> n"
  shows "increase_tick ((fclk_hdl False ^^ n) s) = 0 \<and>
    os_ticks ((fclk_hdl False ^^ n) s) = os_ticks s + (n - k div 2) \<and>
    current_clock ((fclk_hdl False ^^ n) s) = current_clock s + of_nat (n - k div 2)"
proof -
  have "k = 0 \<or> wait_calls (need_pass s) + 5 * ((k + 1) div 2 - 1) < n"
    using assms(3) wait_calls_step(2) [of "need_pass s"] by (cases "(k + 1) div 2") auto
  moreover have "k div 2 \<le> n" using assms(3) by presburger
  ultimately show ?thesis
    using repay_run [OF assms(1,2), of n] by (auto simp: of_nat_diff algebra_simps)
qed

theorem fclk_repays_witness:
  "os_ticks ((fclk_hdl False ^^ 20) (fclk_boot\<lparr>increase_tick := - 6, need_pass := 3\<rparr>)) = 17"
  using fclk_repays [of "fclk_boot\<lparr>increase_tick := - 6, need_pass := 3\<rparr>" 6 20] by (simp add: fclk_boot_def)

end
