(* ===== verification/Timers.thy ===== *)
theory Timers
  imports Prelude
begin

text \<open>
  The hardware timers: the driver \<^verbatim>\<open>driver/pwm/bk_timer.c\<close>, the interface of the SDK
  \<^verbatim>\<open>func/user_driver/BkDriverTimer.c\<close> and the interface of TuyaOS \<^verbatim>\<open>tkl_timer.c\<close>. Channels 0 to 2
  count a clock of 26 MHz and share a control register, channels 3 to 5 one of 32 kHz and share
  another; each control register holds the enable bits, a divider and the pending bits of its three
  channels. TuyaOS has four timers, on channels 0, 1, 4 and 5: channels 2 and 3 are those of the
  system clock.

  The device table of the drivers is not repeated here: \<^verbatim>\<open>sddev_control\<close> on the timers is
  \<^verbatim>\<open>bk_timer_ctrl\<close>, which \<^verbatim>\<open>bk_timer_init\<close> registers. A callback is a number (0 is \<^verbatim>\<open>NULL\<close>); calling one
  is recorded, and it does not call back into the timers.
\<close>

section \<open>Registers and state\<close>

datatype timer_reg =
    TIMER_CNT nat
  | TIMER_CTL bool
  | TIMER_READ_CTL bool
  | TIMER_READ_VALUE bool

record 'h timer_hw =
  tm_rd :: "timer_reg \<Rightarrow> 'h \<Rightarrow> u32 \<times> 'h"
  tm_wr :: "timer_reg \<Rightarrow> u32 \<Rightarrow> 'h \<Rightarrow> 'h"

text \<open>What a function pointer of the driver leads to: \<^verbatim>\<open>__tkl_hw_timer_cb\<close> or another function.\<close>

datatype tfunc = TklCb | TFunc nat

record timer_param =
  tp_channel :: u8
  tp_div :: u8
  tp_period :: u32
  t_Int_Handler :: "tfunc option"

datatype timer_mode = TUYA_TIMER_MODE_ONCE | TUYA_TIMER_MODE_PERIOD

record timer_cfg =
  tc_mode :: timer_mode
  tc_cb :: nat
  tc_args :: nat

datatype timer_event =
    PowerUp u32
  | IntcEnable u8
  | RegisterIsr
  | RegisterDev
  | Called nat u8
  | TklCalled nat nat

record 'h timers =
  tm_hw :: 'h
  p_TIMER_Int_Handler :: "tfunc option list"
  timer_map :: "timer_cfg list"
  tm_log :: "timer_event list"

definition TIMER_CHANNEL_NO :: nat where "TIMER_CHANNEL_NO = 6"
definition TIMERCTLA_CLKDIV_POSI :: nat where "TIMERCTLA_CLKDIV_POSI = 3"
definition TIMERCTLA_CLKDIV_MASK :: u32 where "TIMERCTLA_CLKDIV_MASK = 0x07"
definition TIMERCTLA_INT_POSI :: nat where "TIMERCTLA_INT_POSI = 7"
definition BK_TIMER_FAILURE :: u32 where "BK_TIMER_FAILURE = 1"
definition BK_TIMER_SUCCESS :: u32 where "BK_TIMER_SUCCESS = 0"
definition PWD_TIMER_32K_CLK_BIT :: u32 where "PWD_TIMER_32K_CLK_BIT = push_bit 21 1"
definition PWD_TIMER_26M_CLK_BIT :: u32 where "PWD_TIMER_26M_CLK_BIT = push_bit 20 1"
definition IRQ_TIMER :: u8 where "IRQ_TIMER = 8"
definition TIMER_DEV_NUM :: u32 where "TIMER_DEV_NUM = 4"

definition log_timer :: "timer_event list \<Rightarrow> 'h timers \<Rightarrow> 'h timers" where
  "log_timer es s = s\<lparr>tm_log := tm_log s @ es\<rparr>"

text \<open>The bank of a channel and its place there.\<close>

definition bank :: "nat \<Rightarrow> bool" where "bank c \<longleftrightarrow> 3 \<le> c"
definition slot :: "nat \<Rightarrow> nat" where "slot c = (if c < 3 then c else c - 3)"

text \<open>Reading a control register, changing the value and writing it.\<close>

definition ctl_modify :: "'h timer_hw \<Rightarrow> bool \<Rightarrow> (u32 \<Rightarrow> u32) \<Rightarrow> 'h \<Rightarrow> 'h" where
  "ctl_modify hw b f h = (let (v, h) = tm_rd hw (TIMER_CTL b) h in tm_wr hw (TIMER_CTL b) (f v) h)"

section \<open>The driver\<close>

definition bk_timer_cal_endvalue :: "nat \<Rightarrow> u32 \<Rightarrow> u32 \<Rightarrow> u32" where
  "bk_timer_cal_endvalue ch time_ms d =
     (let d = (if d = 0 then 1 else d);
          value = (if ch < 3 then ucast (time_ms * 26000 div d) else ucast (time_ms * 32 div d)) :: 64 word;
          value = (if 0xffffffff < value then 0xffffffff else value)
      in ucast value)"

definition bk_timer_cal_endvalue_us :: "nat \<Rightarrow> u32 \<Rightarrow> u32 \<Rightarrow> u32" where
  "bk_timer_cal_endvalue_us ch time_us d =
     (let d = (if d = 0 then 1 else d);
          value = ucast (time_us * 26 div d) :: 64 word;
          value = (if 0xffffffff < value then 0xffffffff else value)
      in ucast value)"

text \<open>The new value of the control register; a divider of 0 shifts a negative number (\<open>None\<close>).\<close>

definition ctl_start :: "u8 \<Rightarrow> nat \<Rightarrow> u32 \<Rightarrow> u32 option" where
  "ctl_start d ch value =
     (if d = 0 then None
      else let value = value AND NOT (push_bit TIMERCTLA_CLKDIV_POSI TIMERCTLA_CLKDIV_MASK);
               value = value OR push_bit TIMERCTLA_CLKDIV_POSI (ucast d - 1)
           in Some (value OR push_bit (slot ch) 1))"

definition start_channel :: "'h timer_hw \<Rightarrow> timer_param \<Rightarrow> u32 \<Rightarrow> 'h timers \<Rightarrow> (u32 \<times> 'h timers) option" where
  "start_channel hw p cnt s =
     (let ch = unat (tp_channel p);
          s = s\<lparr>p_TIMER_Int_Handler := (p_TIMER_Int_Handler s)[ch := t_Int_Handler p]\<rparr>;
          s = log_timer [PowerUp (if ch < 3 then PWD_TIMER_26M_CLK_BIT else PWD_TIMER_32K_CLK_BIT)] s;
          h = tm_wr hw (TIMER_CNT ch) cnt (tm_hw s);
          (value, h) = tm_rd hw (TIMER_CTL (bank ch)) h
      in do {
           value \<leftarrow> ctl_start (tp_div p) ch value;
           let h = tm_wr hw (TIMER_CTL (bank ch)) value h;
           Some (BK_TIMER_SUCCESS, log_timer [IntcEnable IRQ_TIMER] (s\<lparr>tm_hw := h\<rparr>))
         })"

definition init_timer_param :: "'h timer_hw \<Rightarrow> timer_param \<Rightarrow> 'h timers \<Rightarrow> (u32 \<times> 'h timers) option" where
  "init_timer_param hw p s =
     (if 5 < tp_channel p then Some (BK_TIMER_FAILURE, s)
      else start_channel hw p (bk_timer_cal_endvalue (unat (tp_channel p)) (tp_period p) (ucast (tp_div p))) s)"

definition init_timer_param_us :: "'h timer_hw \<Rightarrow> timer_param \<Rightarrow> 'h timers \<Rightarrow> (u32 \<times> 'h timers) option" where
  "init_timer_param_us hw p s =
     (if 2 < tp_channel p then Some (BK_TIMER_FAILURE, s)
      else start_channel hw p (bk_timer_cal_endvalue_us (unat (tp_channel p)) (tp_period p) (ucast (tp_div p))) s)"

definition unit_enable :: "'h timer_hw \<Rightarrow> u32 \<Rightarrow> 'h timers \<Rightarrow> u32 \<times> 'h timers" where
  "unit_enable hw c s =
     (if 5 < c then (BK_TIMER_FAILURE, s)
      else let ch = unat c
           in (BK_TIMER_SUCCESS,
               s\<lparr>tm_hw := ctl_modify hw (bank ch)
                  (\<lambda>v. let v = v OR push_bit (slot ch) 1;
                           v = v AND NOT (push_bit TIMERCTLA_INT_POSI 0x7)
                       in v OR push_bit (TIMERCTLA_INT_POSI + slot ch) 1) (tm_hw s)\<rparr>))"

definition unit_disable :: "'h timer_hw \<Rightarrow> u32 \<Rightarrow> 'h timers \<Rightarrow> u32 \<times> 'h timers" where
  "unit_disable hw c s =
     (if 5 < c then (BK_TIMER_FAILURE, s)
      else let ch = unat c
           in (BK_TIMER_SUCCESS,
               s\<lparr>tm_hw := ctl_modify hw (bank ch)
                  (\<lambda>v. let v = v AND NOT (push_bit TIMERCTLA_INT_POSI 0x7);
                           v = v AND NOT (push_bit (slot ch) 1)
                       in v OR push_bit (TIMERCTLA_INT_POSI + slot ch) 1) (tm_hw s)\<rparr>))"

text \<open>Waiting for the value of a counter: \<open>n\<close> more polls before giving up.\<close>

fun read_wait :: "'h timer_hw \<Rightarrow> bool \<Rightarrow> nat \<Rightarrow> 'h \<Rightarrow> bool \<times> 'h" where
  "read_wait hw b n h =
     (let (v, h) = tm_rd hw (TIMER_READ_CTL b) h
      in if v AND 1 = 0 then (True, h) else if n = 0 then (False, h) else read_wait hw b (n - 1) h)"

declare read_wait.simps [simp del]

definition read_cnt :: "'h timer_hw \<Rightarrow> timer_param \<Rightarrow> 'h timers \<Rightarrow> u32 \<times> u32 \<times> 'h timers" where
  "read_cnt hw p s =
     (let ch = unat (tp_channel p); b = bank ch
      in if 6 \<le> ch then (BK_TIMER_SUCCESS, tp_period p, s)
         else let h = tm_wr hw (TIMER_READ_CTL b) (push_bit 2 (ucast (tp_channel p)) OR 1) (tm_hw s);
                  (ready, h) = read_wait hw b 120000 h
              in if ready
                 then let (v, h) = tm_rd hw (TIMER_READ_VALUE b) h in (BK_TIMER_SUCCESS, v, s\<lparr>tm_hw := h\<rparr>)
                 else (BK_TIMER_FAILURE, tp_period p, s\<lparr>tm_hw := h\<rparr>))"

datatype timer_cmd =
    CMD_TIMER_UNIT_ENABLE u32
  | CMD_TIMER_UNIT_DISABLE u32
  | CMD_TIMER_INIT_PARAM timer_param
  | CMD_TIMER_INIT_PARAM_US timer_param
  | CMD_TIMER_READ_CNT timer_param

text \<open>The commands with what their parameter leads to; the second result is the period in it
  afterwards.\<close>

definition bk_timer_ctrl :: "'h timer_hw \<Rightarrow> timer_cmd \<Rightarrow> 'h timers \<Rightarrow> (u32 \<times> u32 \<times> 'h timers) option" where
  "bk_timer_ctrl hw cmd s =
     (case cmd of
        CMD_TIMER_UNIT_ENABLE c \<Rightarrow> let (ret, s) = unit_enable hw c s in Some (ret, 0, s)
      | CMD_TIMER_UNIT_DISABLE c \<Rightarrow> let (ret, s) = unit_disable hw c s in Some (ret, 0, s)
      | CMD_TIMER_INIT_PARAM p \<Rightarrow> do { (ret, s) \<leftarrow> init_timer_param hw p s; Some (ret, tp_period p, s) }
      | CMD_TIMER_INIT_PARAM_US p \<Rightarrow> do { (ret, s) \<leftarrow> init_timer_param_us hw p s; Some (ret, tp_period p, s) }
      | CMD_TIMER_READ_CNT p \<Rightarrow> Some (read_cnt hw p s))"

text \<open>The shifts are by the mask of the divider, not by its position.\<close>

definition bk_timer_init :: "'h timer_hw \<Rightarrow> 'h timers \<Rightarrow> 'h timers" where
  "bk_timer_init hw s =
     (let h = tm_wr hw (TIMER_CTL False) (push_bit (unat TIMERCTLA_CLKDIV_MASK) 7) (tm_hw s);
          h = fold (\<lambda>c. tm_wr hw (TIMER_CNT c) 0) [0, 1, 2] h;
          h = tm_wr hw (TIMER_CTL True) (push_bit (unat TIMERCTLA_CLKDIV_MASK) 7) h;
          h = fold (\<lambda>c. tm_wr hw (TIMER_CNT c) 0) [3, 4, 5] h
      in log_timer [RegisterIsr, RegisterDev] (s\<lparr>tm_hw := h\<rparr>))"

section \<open>Interrupts\<close>

definition tkl_hw_timer_cb :: "nat \<Rightarrow> 'h timers \<Rightarrow> 'h timers option" where
  "tkl_hw_timer_cb timer_id s =
     do {
       m \<leftarrow> aget (timer_map s) timer_id;
       Some (if tc_cb m \<noteq> 0 then log_timer [TklCalled (tc_cb m) (tc_args m)] s else s)
     }"

definition call_handler :: "nat \<Rightarrow> 'h timers \<Rightarrow> 'h timers option" where
  "call_handler c s =
     do {
       f \<leftarrow> aget (p_TIMER_Int_Handler s) c;
       case f of
         None \<Rightarrow> Some s
       | Some TklCb \<Rightarrow> tkl_hw_timer_cb c s
       | Some (TFunc g) \<Rightarrow> Some (log_timer [Called g (of_nat c)] s)
     }"

definition int_bits :: u32 where
  "int_bits = push_bit TIMERCTLA_INT_POSI 0x7"

partial_function (option) ack_loop :: "'h timer_hw \<Rightarrow> bool \<Rightarrow> u32 \<Rightarrow> 'h \<Rightarrow> 'h option" where
  "ack_loop hw b status h =
     (let h = ctl_modify hw b (\<lambda>v. v AND NOT int_bits OR status) h;
          (v, h) = tm_rd hw (TIMER_CTL b) h
      in if v AND status AND int_bits \<noteq> 0 then ack_loop hw b status h else Some h)"

declare ack_loop.simps [code]

definition isr_bank :: "'h timer_hw \<Rightarrow> bool \<Rightarrow> 'h timers \<Rightarrow> 'h timers option" where
  "isr_bank hw b s =
     do {
       let (v, h) = tm_rd hw (TIMER_CTL b) (tm_hw s);
       let status = v AND int_bits;
       s \<leftarrow> for_range 0 3 (\<lambda>i s.
              if status AND push_bit (i + TIMERCTLA_INT_POSI) 1 \<noteq> 0
              then call_handler (if b then i + 3 else i) s else Some s) (s\<lparr>tm_hw := h\<rparr>);
       h \<leftarrow> ack_loop hw b status (tm_hw s);
       Some (s\<lparr>tm_hw := h\<rparr>)
     }"

definition bk_timer_isr :: "'h timer_hw \<Rightarrow> 'h timers \<Rightarrow> 'h timers option" where
  "bk_timer_isr hw s = do { s \<leftarrow> isr_bank hw False s; isr_bank hw True s }"

section \<open>The interface of the SDK\<close>

text \<open>Every operation asserts that the command succeeded; it returns \<^verbatim>\<open>kNoErr\<close>.\<close>

definition timer_control :: "'h timer_hw \<Rightarrow> timer_cmd \<Rightarrow> 'h timers \<Rightarrow> (u32 \<times> 'h timers) option" where
  "timer_control hw cmd s =
     do {
       (ret, period, s) \<leftarrow> bk_timer_ctrl hw cmd s;
       if ret = BK_TIMER_SUCCESS then Some (period, s) else None
     }"

definition bk_timer_initialize :: "'h timer_hw \<Rightarrow> u8 \<Rightarrow> u32 \<Rightarrow> tfunc option \<Rightarrow> 'h timers \<Rightarrow> 'h timers option" where
  "bk_timer_initialize hw timer_id time_ms callback s =
     map_option snd (timer_control hw (CMD_TIMER_INIT_PARAM
       \<lparr>tp_channel = timer_id, tp_div = 1, tp_period = time_ms, t_Int_Handler = callback\<rparr>) s)"

definition bk_timer_initialize_us :: "'h timer_hw \<Rightarrow> u8 \<Rightarrow> u32 \<Rightarrow> tfunc option \<Rightarrow> 'h timers \<Rightarrow> 'h timers option" where
  "bk_timer_initialize_us hw timer_id time_us callback s =
     map_option snd (timer_control hw (CMD_TIMER_INIT_PARAM_US
       \<lparr>tp_channel = timer_id, tp_div = 1, tp_period = time_us, t_Int_Handler = callback\<rparr>) s)"

definition bk_timer_read_cnt :: "'h timer_hw \<Rightarrow> u8 \<Rightarrow> 'h timers \<Rightarrow> (u32 \<times> 'h timers) option" where
  "bk_timer_read_cnt hw timer_id s =
     timer_control hw (CMD_TIMER_READ_CNT
       \<lparr>tp_channel = timer_id, tp_div = 1, tp_period = 0, t_Int_Handler = None\<rparr>) s"

definition bk_timer_stop :: "'h timer_hw \<Rightarrow> u8 \<Rightarrow> 'h timers \<Rightarrow> 'h timers option" where
  "bk_timer_stop hw timer_id s =
     map_option snd (timer_control hw (CMD_TIMER_UNIT_DISABLE (ucast timer_id)) s)"

section \<open>The interface of TuyaOS\<close>

definition timers_boot :: "'h \<Rightarrow> 'h timers" where
  "timers_boot h = \<lparr>tm_hw = h, p_TIMER_Int_Handler = replicate TIMER_CHANNEL_NO None,
     timer_map = replicate 6 \<lparr>tc_mode = TUYA_TIMER_MODE_ONCE, tc_cb = 0, tc_args = 0\<rparr>, tm_log = []\<rparr>"

definition tkl_timer_init :: "u32 \<Rightarrow> timer_cfg option \<Rightarrow> 'h timers \<Rightarrow> (oprt \<times> 'h timers) option" where
  "tkl_timer_init timer_id cfg s =
     (if TIMER_DEV_NUM \<le> timer_id then Some (OPRT_NOT_SUPPORTED, s)
      else case cfg of
        None \<Rightarrow> Some (OPRT_INVALID_PARM, s)
      | Some c \<Rightarrow>
          let timer_id = (if timer_id = 2 \<or> timer_id = 3 then timer_id + 2 else timer_id)
          in do {
               m \<leftarrow> aset (timer_map s) (unat timer_id) c;
               Some (OPRT_OK, s\<lparr>timer_map := m\<rparr>)
             })"

definition tkl_timer_start :: "'h timer_hw \<Rightarrow> u32 \<Rightarrow> u32 \<Rightarrow> 'h timers \<Rightarrow> (oprt \<times> 'h timers) option" where
  "tkl_timer_start hw timer_id us s =
     (if TIMER_DEV_NUM \<le> timer_id then Some (OPRT_NOT_SUPPORTED, s)
      else if timer_id = 0 \<or> timer_id = 1
      then do { s \<leftarrow> bk_timer_initialize_us hw (ucast timer_id) us (Some TklCb) s; Some (OPRT_OK, s) }
      else if us < 1000 then Some (OPRT_INVALID_PARM, s)
      else do {
        s \<leftarrow> bk_timer_initialize hw (ucast (timer_id + 2)) (us div 1000) (Some TklCb) s;
        Some (OPRT_OK, s)
      })"

definition tkl_timer_stop :: "'h timer_hw \<Rightarrow> u32 \<Rightarrow> 'h timers \<Rightarrow> (oprt \<times> 'h timers) option" where
  "tkl_timer_stop hw timer_id s =
     (if TIMER_DEV_NUM \<le> timer_id then Some (OPRT_NOT_SUPPORTED, s)
      else if timer_id = 0 \<or> timer_id = 1
      then do { s \<leftarrow> bk_timer_stop hw (ucast timer_id) s; Some (OPRT_OK, s) }
      else do { s \<leftarrow> bk_timer_stop hw (ucast (timer_id + 2)) s; Some (OPRT_OK, s) })"

definition tkl_timer_deinit :: "u32 \<Rightarrow> 'h timers \<Rightarrow> (oprt \<times> 'h timers) option" where
  "tkl_timer_deinit timer_id s = Some (OPRT_OK, s)"

definition tkl_timer_get_current_value :: "u32 \<Rightarrow> 'h timers \<Rightarrow> (oprt \<times> 'h timers) option" where
  "tkl_timer_get_current_value timer_id s = Some (OPRT_NOT_SUPPORTED, s)"

definition tkl_timer_get :: "'h timer_hw \<Rightarrow> u32 \<Rightarrow> 'h timers \<Rightarrow> (oprt \<times> u32 option \<times> 'h timers) option" where
  "tkl_timer_get hw timer_id s =
     (if timer_id = 0 \<or> timer_id = 1
      then do { (count, s) \<leftarrow> bk_timer_read_cnt hw (ucast timer_id) s; Some (OPRT_OK, Some (count div 26), s) }
      else Some (OPRT_NOT_SUPPORTED, None, s))"

end
