(* ===== verification/TimerFlow.thy ===== *)
theory TimerFlow
  imports Timers
begin

text \<open>
  What the timers of TuyaOS do. \<open>timer_chip\<close> states what the driver relies on in the two control
  registers: the enable bits and the divider are stored, and a pending bit is cleared by writing a
  one to it. Below, the stack implements six channels that are on or off, pending or not.
\<close>

section \<open>The controller\<close>

text \<open>The stored bits and the pending bits of each bank, and the periods.\<close>

record tview =
  v_conf :: "bool \<Rightarrow> u32"
  v_pend :: "bool \<Rightarrow> u32"
  v_cnt :: "nat \<Rightarrow> u32"

definition ctl_word :: "tview \<Rightarrow> bool \<Rightarrow> u32" where
  "ctl_word v b = (v_conf v b AND 0x7F) OR (v_pend v b AND int_bits)"

definition write_ctl :: "bool \<Rightarrow> u32 \<Rightarrow> tview \<Rightarrow> tview" where
  "write_ctl b x v = v\<lparr>v_conf := (v_conf v)(b := x AND 0x7F), v_pend := (v_pend v)(b := v_pend v b AND NOT x)\<rparr>"

definition timer_chip :: "'h timer_hw \<Rightarrow> ('h \<Rightarrow> tview) \<Rightarrow> bool" where
  "timer_chip hw view \<longleftrightarrow>
     (\<forall>b h. fst (tm_rd hw (TIMER_CTL b) h) = ctl_word (view h) b \<and> view (snd (tm_rd hw (TIMER_CTL b) h)) = view h) \<and>
     (\<forall>b h x. view (tm_wr hw (TIMER_CTL b) x h) = write_ctl b x (view h)) \<and>
     (\<forall>c h x. view (tm_wr hw (TIMER_CNT c) x h) = (view h)\<lparr>v_cnt := (v_cnt (view h))(c := x)\<rparr>)"

lemma timer_chipD:
  assumes "timer_chip hw view"
  shows "fst (tm_rd hw (TIMER_CTL b) h) = ctl_word (view h) b"
    and "view (snd (tm_rd hw (TIMER_CTL b) h)) = view h"
    and "view (tm_wr hw (TIMER_CTL b) x h) = write_ctl b x (view h)"
    and "view (tm_wr hw (TIMER_CNT c) x h) = (view h)\<lparr>v_cnt := (v_cnt (view h))(c := x)\<rparr>"
  using assms unfolding timer_chip_def by blast+

section \<open>Six channels\<close>

record channel =
  c_on :: bool
  c_pending :: bool
  c_period :: u32
  c_handler :: "tfunc option"
  c_cb :: nat
  c_args :: nat

definition channel_of :: "('h \<Rightarrow> tview) \<Rightarrow> 'h timers \<Rightarrow> nat \<Rightarrow> channel" where
  "channel_of view s c =
     \<lparr>c_on = bit (v_conf (view (tm_hw s)) (bank c)) (slot c),
      c_pending = bit (v_pend (view (tm_hw s)) (bank c)) (7 + slot c),
      c_period = v_cnt (view (tm_hw s)) c,
      c_handler = p_TIMER_Int_Handler s ! c,
      c_cb = tc_cb (timer_map s ! c), c_args = tc_args (timer_map s ! c)\<rparr>"

definition channels :: "('h \<Rightarrow> tview) \<Rightarrow> 'h timers \<Rightarrow> channel list" where
  "channels view s = map (channel_of view s) [0, 1, 2, 3, 4, 5]"

definition timers_ok :: "'h timers \<Rightarrow> bool" where
  "timers_ok s \<longleftrightarrow> length (p_TIMER_Int_Handler s) = 6 \<and> length (timer_map s) = 6"

text \<open>The calls of a served channel.\<close>

definition served :: "nat \<Rightarrow> channel \<Rightarrow> timer_event list" where
  "served c x =
     (if c_pending x
      then case c_handler x of
             None \<Rightarrow> []
           | Some TklCb \<Rightarrow> if c_cb x = 0 then [] else [TklCalled (c_cb x) (c_args x)]
           | Some (TFunc f) \<Rightarrow> [Called f (of_nat c)]
      else [])"

definition in_bank :: "nat \<Rightarrow> nat \<Rightarrow> bool" where
  "in_bank c d \<longleftrightarrow> bank c = bank d"

text \<open>Starting channel \<open>c\<close>: it gets its handler and period and is on, and every pending interrupt of
  its bank is lost.\<close>

definition spec_start :: "nat \<Rightarrow> u32 \<Rightarrow> tfunc option \<Rightarrow> channel list \<Rightarrow> channel list" where
  "spec_start c period f xs =
     map (\<lambda>d. let x = xs ! d; x = (if in_bank c d then x\<lparr>c_pending := False\<rparr> else x)
              in if d = c then x\<lparr>c_on := True, c_period := period, c_handler := f\<rparr> else x) [0, 1, 2, 3, 4, 5]"

definition spec_stop :: "nat \<Rightarrow> channel list \<Rightarrow> channel list" where
  "spec_stop c xs = xs[c := (xs ! c)\<lparr>c_on := False, c_pending := False\<rparr>]"

definition spec_enable :: "nat \<Rightarrow> channel list \<Rightarrow> channel list" where
  "spec_enable c xs = xs[c := (xs ! c)\<lparr>c_on := True, c_pending := False\<rparr>]"

definition spec_serve_timers :: "channel list \<Rightarrow> channel list" where
  "spec_serve_timers xs = map (\<lambda>x. x\<lparr>c_pending := False\<rparr>) xs"

lemma bit_ctl_word:
  "bit (ctl_word v b) k \<longleftrightarrow> k < 7 \<and> bit (v_conf v b) k \<or> 7 \<le> k \<and> k < 10 \<and> bit (v_pend v b) k"
proof -
  have m: "(0x7F :: u32) = mask 7" "int_bits = push_bit 7 (mask 3)"
    by (simp_all add: int_bits_def TIMERCTLA_INT_POSI_def mask_eq_exp_minus_1)
  show ?thesis
    unfolding ctl_word_def m by (auto simp: bit_simps dest: bit_imp_le_length)
qed

section \<open>One channel\<close>

lemma slot_less: "d < 6 \<Longrightarrow> slot d < 3"
  by (auto simp: slot_def)

lemma slot_inj: "c < 6 \<Longrightarrow> d < 6 \<Longrightarrow> bank c = bank d \<Longrightarrow> slot c = slot d \<longleftrightarrow> c = d"
  by (auto simp: slot_def bank_def split: if_splits)

lemma bit_7F: "bit (x AND 0x7F :: u32) k \<longleftrightarrow> k < 7 \<and> bit x k"
proof -
  have m: "(0x7F :: u32) = mask 7" by (simp add: mask_eq_exp_minus_1)
  show ?thesis unfolding m by (auto simp: bit_simps dest: bit_imp_le_length)
qed

lemma bit_127: "bit (127 :: u32) k \<longleftrightarrow> k < 7"
  using bit_7F [of "- 1" k] by (auto dest: bit_imp_le_length)

lemma log_timer_append: "log_timer fs (log_timer es s) = log_timer (es @ fs) s"
  by (simp add: log_timer_def)

lemma bit_int_bits: "bit int_bits k \<longleftrightarrow> 7 \<le> k \<and> k < 10"
proof -
  have m: "int_bits = push_bit 7 (mask 3)" by (simp add: int_bits_def TIMERCTLA_INT_POSI_def mask_eq_exp_minus_1)
  show ?thesis unfolding m by (auto simp: bit_simps)
qed

text \<open>Writing the control register, as the channels see it.\<close>

definition ctl_effect :: "bool \<Rightarrow> u32 \<Rightarrow> nat \<Rightarrow> channel \<Rightarrow> channel" where
  "ctl_effect b w d x =
     (if bank d = b then x\<lparr>c_on := bit w (slot d), c_pending := c_pending x \<and> \<not> bit w (7 + slot d)\<rparr> else x)"

lemma write_ctl_channel:
  assumes "timer_chip hw view" and "d < 6"
  shows "channel_of view (s\<lparr>tm_hw := tm_wr hw (TIMER_CTL b) w h\<rparr>) d =
    ctl_effect b w d (channel_of view (s\<lparr>tm_hw := h\<rparr>) d)"
  using slot_less [OF assms(2)]
  by (simp add: channel_of_def ctl_effect_def timer_chipD [OF assms(1)] write_ctl_def bit_7F)
     (auto simp: bit_simps dest: bit_imp_le_length)

lemma read_ctl_channel:
  assumes "timer_chip hw view"
  shows "channel_of view (s\<lparr>tm_hw := snd (tm_rd hw (TIMER_CTL b) h)\<rparr>) d = channel_of view (s\<lparr>tm_hw := h\<rparr>) d"
  by (simp add: channel_of_def timer_chipD [OF assms])

lemma write_cnt_channel:
  assumes "timer_chip hw view"
  shows "channel_of view (s\<lparr>tm_hw := tm_wr hw (TIMER_CNT c) x h\<rparr>) d =
    (let y = channel_of view (s\<lparr>tm_hw := h\<rparr>) d in if d = c then y\<lparr>c_period := x\<rparr> else y)"
  by (simp add: channel_of_def timer_chipD [OF assms] Let_def)

lemma modify_channel:
  assumes "timer_chip hw view" and "d < 6"
  shows "channel_of view (s\<lparr>tm_hw := ctl_modify hw b f h\<rparr>) d =
    ctl_effect b (f (ctl_word (view h) b)) d (channel_of view (s\<lparr>tm_hw := h\<rparr>) d)"
  using write_ctl_channel [OF assms] read_ctl_channel [OF assms(1)]
  by (simp add: ctl_modify_def timer_chipD [OF assms(1)] split: prod.split) (metis fst_conv snd_conv timer_chipD(1) [OF assms(1)])

lemma channels_eqI:
  assumes "\<And>d. d < 6 \<Longrightarrow> channel_of view t d = g d"
  shows "channels view t = map g [0, 1, 2, 3, 4, 5]"
  by (simp add: channels_def assms)

lemma channels_nth: "d < 6 \<Longrightarrow> channels view s ! d = channel_of view s d"
  by (auto simp: channels_def numeral_eq_Suc less_Suc_eq)

lemma channel_log [simp]:
  "channel_of view (log_timer es s) d = channel_of view s d" "timers_ok (log_timer es s) = timers_ok s"
  "tm_hw (log_timer es s) = tm_hw s"
  by (simp_all add: channel_of_def log_timer_def timers_ok_def)

section \<open>Starting and stopping\<close>

lemma bit_of_view:
  assumes "d < 6"
  shows "bit (v_conf (view (tm_hw s)) (bank d)) (slot d) = c_on (channel_of view s d)"
    and "bit (v_pend (view (tm_hw s)) (bank d)) (7 + slot d) = c_pending (channel_of view s d)"
  by (simp_all add: channel_of_def)

lemma ctl_start_bits:
  assumes "c < 6"
  shows "\<exists>w. ctl_start 1 c v = Some w \<and> (\<forall>k<3. bit w k \<longleftrightarrow> bit v k \<or> k = slot c) \<and>
    (\<forall>k<3. bit w (7 + k) \<longleftrightarrow> bit v (7 + k))"
proof -
  have s: "slot c < 3" by (rule slot_less [OF assms])
  have m: "(7 :: u32) = mask 3" by (simp add: mask_eq_exp_minus_1)
  have "bit (push_bit (slot c) 1 :: u32) k \<longleftrightarrow> k = slot c" for k
    using s by (auto simp: bit_simps)
  then show ?thesis
    using s by (auto simp: ctl_start_def TIMERCTLA_CLKDIV_POSI_def TIMERCTLA_CLKDIV_MASK_def m bit_or_iff bit_and_iff
        bit_not_iff bit_push_bit_iff bit_mask_iff dest: bit_imp_le_length)
qed

lemma start_channel_ok:
  assumes chip: "timer_chip hw view" and ok: "timers_ok s" and c: "unat (tp_channel p) < 6" and dv: "tp_div p = 1"
  shows "\<exists>t. start_channel hw p n s = Some (BK_TIMER_SUCCESS, t) \<and> timers_ok t \<and> timer_map t = timer_map s \<and>
    channels view t = spec_start (unat (tp_channel p)) n (t_Int_Handler p) (channels view s) \<and>
    tm_log t = tm_log s @ [PowerUp (if tp_channel p < 3 then PWD_TIMER_26M_CLK_BIT else PWD_TIMER_32K_CLK_BIT), IntcEnable IRQ_TIMER]"
proof -
  let ?c = "unat (tp_channel p)" let ?b = "bank ?c"
  let ?H = "(p_TIMER_Int_Handler s)[?c := t_Int_Handler p]"
  let ?s = "log_timer [PowerUp (if ?c < 3 then PWD_TIMER_26M_CLK_BIT else PWD_TIMER_32K_CLK_BIT)] (s\<lparr>p_TIMER_Int_Handler := ?H\<rparr>)"
  let ?h = "tm_wr hw (TIMER_CNT ?c) n (tm_hw s)"
  let ?v = "ctl_word (view ?h) ?b"
  obtain w where w: "ctl_start 1 ?c ?v = Some w" "\<And>k. k < 3 \<Longrightarrow> bit w k \<longleftrightarrow> bit ?v k \<or> k = slot ?c"
      "\<And>k. k < 3 \<Longrightarrow> bit w (7 + k) \<longleftrightarrow> bit ?v (7 + k)"
    using ctl_start_bits [OF c, of ?v] by blast
  obtain h2 where rd: "tm_rd hw (TIMER_CTL ?b) ?h = (?v, h2)"
    using timer_chipD(1) [OF chip, of ?b ?h] by (metis prod.collapse)
  let ?t = "log_timer [IntcEnable IRQ_TIMER] (?s\<lparr>tm_hw := tm_wr hw (TIMER_CTL ?b) w h2\<rparr>)"
  have run: "start_channel hw p n s = Some (BK_TIMER_SUCCESS, ?t)"
    using w(1) rd by (simp add: start_channel_def dv Let_def log_timer_def)
  have ch: "channel_of view ?t d =
      (let x = channel_of view s d; x = (if in_bank ?c d then x\<lparr>c_pending := False\<rparr> else x)
       in if d = ?c then x\<lparr>c_on := True, c_period := n, c_handler := t_Int_Handler p\<rparr> else x)" if d: "d < 6" for d
  proof -
    have s: "channel_of view (?s\<lparr>tm_hw := tm_hw s\<rparr>) d = (channel_of view s d)\<lparr>c_handler := ?H ! d\<rparr>"
      by (simp add: channel_of_def log_timer_def)
    have u: "channel_of view ?t d = ctl_effect ?b w d (let y = channel_of view (?s\<lparr>tm_hw := tm_hw s\<rparr>) d in if d = ?c then y\<lparr>c_period := n\<rparr> else y)"
      using read_ctl_channel [OF chip, where s = ?s and b = ?b and h = ?h and d = d] rd
      by (simp only: channel_log write_ctl_channel [OF chip d] snd_conv write_cnt_channel [OF chip])
    have v: "bit ?v (slot d) = c_on (channel_of view s d)" "bit ?v (7 + slot d) = c_pending (channel_of view s d)" if "bank d = ?b"
      using slot_less [OF d] that by (simp_all add: bit_ctl_word channel_of_def timer_chipD [OF chip])
    have "?H ! d = (if d = ?c then t_Int_Handler p else c_handler (channel_of view s d))"
      using ok c d by (simp add: timers_ok_def channel_of_def)
    then show ?thesis
      unfolding u s using w(2,3) [OF slot_less [OF d]] v slot_inj [OF d c]
      by (cases "bank d = ?b") (auto simp: ctl_effect_def in_bank_def Let_def)
  qed
  have "channels view ?t = spec_start ?c n (t_Int_Handler p) (channels view s)"
    unfolding spec_start_def by (rule channels_eqI) (simp only: ch channels_nth)
  then show ?thesis
    using run ok by (intro exI [of _ ?t]) (auto simp: timers_ok_def log_timer_def word_less_nat_alt)
qed

lemma stop_bits:
  fixes v :: u32
  assumes "c < 6" and "k < 3"
  defines "w \<equiv> (v AND NOT (push_bit TIMERCTLA_INT_POSI 0x7)) AND NOT (push_bit (slot c) 1) OR push_bit (TIMERCTLA_INT_POSI + slot c) 1"
  shows "bit w k \<longleftrightarrow> bit v k \<and> k \<noteq> slot c" and "bit w (7 + k) \<longleftrightarrow> k = slot c"
proof -
  have s: "slot c < 3" by (rule slot_less [OF assms(1)])
  have m: "(7 :: u32) = mask 3" by (simp add: mask_eq_exp_minus_1)
  show "bit w k \<longleftrightarrow> bit v k \<and> k \<noteq> slot c" "bit w (7 + k) \<longleftrightarrow> k = slot c"
    using s assms(2) by (auto simp: w_def TIMERCTLA_INT_POSI_def m bit_simps dest: bit_imp_le_length)
qed

lemma enable_bits:
  fixes v :: u32
  assumes "c < 6" and "k < 3"
  defines "w \<equiv> ((v OR push_bit (slot c) 1) AND NOT (push_bit TIMERCTLA_INT_POSI 0x7)) OR push_bit (TIMERCTLA_INT_POSI + slot c) 1"
  shows "bit w k \<longleftrightarrow> bit v k \<or> k = slot c" and "bit w (7 + k) \<longleftrightarrow> k = slot c"
proof -
  have s: "slot c < 3" by (rule slot_less [OF assms(1)])
  have m: "(7 :: u32) = mask 3" by (simp add: mask_eq_exp_minus_1)
  show "bit w k \<longleftrightarrow> bit v k \<or> k = slot c" "bit w (7 + k) \<longleftrightarrow> k = slot c"
    using s assms(2) by (auto simp: w_def TIMERCTLA_INT_POSI_def m bit_simps dest: bit_imp_le_length)
qed

text \<open>A command that changes the control register of a channel, seen on all channels.\<close>

lemma modify_channels:
  assumes chip: "timer_chip hw view" and c: "c < 6"
    and w: "\<And>k. k < 3 \<Longrightarrow> bit (f (ctl_word (view (tm_hw s)) (bank c))) k \<longleftrightarrow>
        (if k = slot c then on else bit (ctl_word (view (tm_hw s)) (bank c)) k)"
      "\<And>k. k < 3 \<Longrightarrow> bit (f (ctl_word (view (tm_hw s)) (bank c))) (7 + k) \<longleftrightarrow> k = slot c"
  shows "channels view (s\<lparr>tm_hw := ctl_modify hw (bank c) f (tm_hw s)\<rparr>) =
    (channels view s)[c := (channels view s ! c)\<lparr>c_on := on, c_pending := False\<rparr>]"
proof -
  let ?g = "\<lambda>d. if d = c then (channel_of view s c)\<lparr>c_on := on, c_pending := False\<rparr> else channel_of view s d"
  have "channel_of view (s\<lparr>tm_hw := ctl_modify hw (bank c) f (tm_hw s)\<rparr>) d = ?g d" if d: "d < 6" for d
  proof -
    have "channel_of view (s\<lparr>tm_hw := ctl_modify hw (bank c) f (tm_hw s)\<rparr>) d =
        ctl_effect (bank c) (f (ctl_word (view (tm_hw s)) (bank c))) d (channel_of view s d)"
      using modify_channel [OF chip d, where s = s and b = "bank c" and f = f and h = "tm_hw s"] by simp
    moreover have "bit (ctl_word (view (tm_hw s)) (bank c)) (slot d) = c_on (channel_of view s d)" if "bank d = bank c"
      using that slot_less [OF d] by (simp add: bit_ctl_word channel_of_def)
    ultimately show ?thesis
      using w [OF slot_less [OF d]] slot_inj [OF d c]
      by (cases "bank d = bank c") (auto simp: ctl_effect_def)
  qed
  then have "channels view (s\<lparr>tm_hw := ctl_modify hw (bank c) f (tm_hw s)\<rparr>) = map ?g [0, 1, 2, 3, 4, 5]"
    by (rule channels_eqI)
  also have "\<dots> = (channels view s)[c := (channels view s ! c)\<lparr>c_on := on, c_pending := False\<rparr>]"
  proof -
    have "c = 0 \<or> c = 1 \<or> c = 2 \<or> c = 3 \<or> c = 4 \<or> c = 5" using c by auto
    then show ?thesis unfolding channels_def by (elim disjE) simp_all
  qed
  finally show ?thesis .
qed

section \<open>Serving\<close>

lemma call_handler_ok:
  assumes "timers_ok s" and "c < 6" and "c_pending (channel_of view s c)"
  shows "call_handler c s = Some (log_timer (served c (channel_of view s c)) s)"
  using assms
  by (auto simp: call_handler_def tkl_hw_timer_cb_def timers_ok_def aget_def served_def channel_of_def log_timer_def
      split: option.splits tfunc.splits)

lemma ack_loop_ok:
  assumes chip: "timer_chip hw view" and st: "status = ctl_word (view h) b AND int_bits"
  shows "\<exists>h'. ack_loop hw b status h = Some h' \<and>
    (\<forall>s d. d < 6 \<longrightarrow> channel_of view (s\<lparr>tm_hw := h'\<rparr>) d =
      (let x = channel_of view (s\<lparr>tm_hw := h\<rparr>) d in if bank d = b then x\<lparr>c_pending := False\<rparr> else x))"
proof -
  let ?w = "ctl_word (view h) b AND NOT int_bits OR status"
  let ?h = "ctl_modify hw b (\<lambda>v. v AND NOT int_bits OR status) h"
  have w: "bit ?w k \<longleftrightarrow> bit (ctl_word (view h) b) k" for k
    unfolding st by (auto simp: bit_simps dest: bit_imp_le_length)
  then have w': "?w = ctl_word (view h) b" by (intro bit_eqI) simp
  have p: "view ?h = write_ctl b (ctl_word (view h) b) (view h)"
    using w' timer_chipD [OF chip] by (simp add: ctl_modify_def split: prod.split) (metis fst_conv snd_conv)
  obtain v h' where rd: "tm_rd hw (TIMER_CTL b) ?h = (v, h')" by fastforce
  then have v: "v = ctl_word (view ?h) b" "view h' = view ?h" using timer_chipD(1,2) [OF chip, of b ?h] by simp_all
  have z: "v AND status AND int_bits = 0"
    unfolding v(1) p unfolding st by (rule bit_eqI) (auto simp: bit_and_iff bit_int_bits bit_ctl_word write_ctl_def bit_not_iff bit_7F
        dest: bit_imp_le_length)
  have run: "ack_loop hw b status h = Some h'" by (subst ack_loop.simps) (simp add: Let_def rd z)
  have "channel_of view (s\<lparr>tm_hw := h'\<rparr>) d =
      (let x = channel_of view (s\<lparr>tm_hw := h\<rparr>) d in if bank d = b then x\<lparr>c_pending := False\<rparr> else x)" if d: "d < 6" for s d
    using slot_less [OF d] bit_127 [of "slot d"] by (auto simp: channel_of_def v(2) p write_ctl_def bit_and_iff bit_not_iff bit_ctl_word Let_def)
  then show ?thesis using run by blast
qed

lemma for_range_3: "for_range 0 3 f s = do { s \<leftarrow> f 0 s; s \<leftarrow> f 1 s; f 2 s }"
  by (simp add: numeral_3_eq_3 numeral_2_eq_2)

lemma isr_bank_ok:
  fixes s :: "'h timers"
  assumes chip: "timer_chip hw view" and ok: "timers_ok s"
  shows "\<exists>t. isr_bank hw b s = Some t \<and> timers_ok t \<and> timer_map t = timer_map s \<and>
    tm_log t = tm_log s @ concat (map (\<lambda>d. served d (channel_of view s d)) (if b then [3, 4, 5] else [0, 1, 2])) \<and>
    (\<forall>d < 6. channel_of view t d =
      (if bank d = b then (channel_of view s d)\<lparr>c_pending := False\<rparr> else channel_of view s d))"
proof -
  obtain v h where rd: "tm_rd hw (TIMER_CTL b) (tm_hw s) = (v, h)" by fastforce
  then have v: "v = ctl_word (view (tm_hw s)) b" "view h = view (tm_hw s)"
    using timer_chipD(1,2) [OF chip, of b "tm_hw s"] by simp_all
  let ?st = "v AND int_bits"
  let ?c = "\<lambda>i. if b then i + 3 else i"
  have c: "?c i < 6 \<and> bank (?c i) = b \<and> slot (?c i) = i" if "i < 3" for i
    using that by (auto simp: bank_def slot_def)
  have pend: "?st AND push_bit (i + TIMERCTLA_INT_POSI) 1 \<noteq> 0 \<longleftrightarrow> c_pending (channel_of view s (?c i))" if "i < 3" for i
  proof -
    have "?st AND push_bit (i + TIMERCTLA_INT_POSI) 1 \<noteq> 0 \<longleftrightarrow> bit ?st (i + 7)"
      using that by (auto simp: and_exp_eq_0_iff_not_bit TIMERCTLA_INT_POSI_def push_bit_eq_mult)
    then show ?thesis
      using that c [OF that] by (simp add: v bit_and_iff bit_int_bits bit_ctl_word channel_of_def add.commute)
  qed
  define step where "step i s = (if ?st AND push_bit (i + TIMERCTLA_INT_POSI) 1 \<noteq> 0 then call_handler (?c i) s else Some s)"
    for i and s :: "'h timers"
  have step: "step i (log_timer es (s\<lparr>tm_hw := h\<rparr>)) = Some (log_timer (es @ served (?c i) (channel_of view s (?c i))) (s\<lparr>tm_hw := h\<rparr>))"
    if "i < 3" for i es
  proof -
    have e: "channel_of view (log_timer es (s\<lparr>tm_hw := h\<rparr>)) d = channel_of view s d" for d
      by (simp add: channel_of_def log_timer_def v(2))
    have "timers_ok (log_timer es (s\<lparr>tm_hw := h\<rparr>))" using ok by (simp add: timers_ok_def log_timer_def)
    note k = call_handler_ok [OF this, of "?c i" view, unfolded e log_timer_append]
    show ?thesis
    proof (cases "c_pending (channel_of view s (?c i))")
      case True
      then show ?thesis using k c [OF that] pend [OF that] by (simp only: step_def if_True)
    next
      case False
      then show ?thesis using pend [OF that] by (simp add: step_def served_def)
    qed
  qed
  let ?es = "concat (map (\<lambda>d. served d (channel_of view s d)) (if b then [3, 4, 5] else [0, 1, 2]))"
  let ?t = "log_timer ?es (s\<lparr>tm_hw := h\<rparr>)"
  have "for_range 0 3 step (s\<lparr>tm_hw := h\<rparr>) = Some ?t"
    using step [of 0 "[]"] step [of 1 "served (?c 0) (channel_of view s (?c 0))"]
      step [of 2 "served (?c 0) (channel_of view s (?c 0)) @ served (?c 1) (channel_of view s (?c 1))"]
    unfolding for_range_3 by (simp add: log_timer_def)
  moreover obtain h' where h': "ack_loop hw b ?st h = Some h'"
    "\<And>s d. d < 6 \<Longrightarrow> channel_of view (s\<lparr>tm_hw := h'\<rparr>) d =
      (let x = channel_of view (s\<lparr>tm_hw := h\<rparr>) d in if bank d = b then x\<lparr>c_pending := False\<rparr> else x)"
    using ack_loop_ok [OF chip, of ?st h b] v by auto
  ultimately have "isr_bank hw b s = Some (?t\<lparr>tm_hw := h'\<rparr>)"
    unfolding step_def by (simp add: isr_bank_def rd Let_def log_timer_def)
  moreover have "channel_of view (?t\<lparr>tm_hw := h'\<rparr>) d =
      (if bank d = b then (channel_of view s d)\<lparr>c_pending := False\<rparr> else channel_of view s d)" if "d < 6" for d
    unfolding h'(2) [OF that] by (simp add: Let_def channel_of_def log_timer_def v(2))
  ultimately show ?thesis using ok by (auto simp: timers_ok_def log_timer_def)
qed

lemma isr_ok:
  assumes chip: "timer_chip hw view" and ok: "timers_ok s"
  shows "\<exists>t. bk_timer_isr hw s = Some t \<and> timers_ok t \<and> timer_map t = timer_map s \<and>
    tm_log t = tm_log s @ concat (map (\<lambda>d. served d (channel_of view s d)) [0, 1, 2, 3, 4, 5]) \<and>
    channels view t = spec_serve_timers (channels view s)"
proof -
  obtain u where u: "isr_bank hw False s = Some u" "timers_ok u" "timer_map u = timer_map s"
      "tm_log u = tm_log s @ concat (map (\<lambda>d. served d (channel_of view s d)) [0, 1, 2])"
      "\<forall>d < 6. channel_of view u d = (if bank d = False then (channel_of view s d)\<lparr>c_pending := False\<rparr> else channel_of view s d)"
    using isr_bank_ok [OF chip ok, of False] by auto
  obtain t where t: "isr_bank hw True u = Some t" "timers_ok t" "timer_map t = timer_map u"
      "tm_log t = tm_log u @ concat (map (\<lambda>d. served d (channel_of view u d)) [3, 4, 5])"
      "\<forall>d < 6. channel_of view t d = (if bank d = True then (channel_of view u d)\<lparr>c_pending := False\<rparr> else channel_of view u d)"
    using isr_bank_ok [OF chip u(2), of True] by auto
  have "channel_of view t d = (channel_of view s d)\<lparr>c_pending := False\<rparr>" if "d < 6" for d
    using u(5) t(5) that by auto
  then have "channels view t = spec_serve_timers (channels view s)" by (simp add: channels_def spec_serve_timers_def)
  moreover have "channel_of view u d = channel_of view s d" if "d \<in> {3, 4, 5}" for d
    using u(5) that by (auto simp: bank_def)
  ultimately show ?thesis using u t by (simp add: bk_timer_isr_def)
qed

section \<open>The interface of TuyaOS\<close>

text \<open>What happens to the timers: calls of the interface, a start of a channel by the system, the end
  of a period (\<open>ex c\<close> is what the hardware does then) and the interrupt.\<close>

datatype timer_op =
    TInit u32 "timer_cfg option"
  | TStart u32 u32
  | TStop u32
  | TDeinit u32
  | SysStart u8 u32 nat
  | Expire nat
  | TimerIsr

definition timer_expires :: "(nat \<Rightarrow> 'h \<Rightarrow> 'h) \<Rightarrow> ('h \<Rightarrow> tview) \<Rightarrow> bool" where
  "timer_expires ex view \<longleftrightarrow>
     (\<forall>c h. view (ex c h) =
       (if bit (v_conf (view h) (bank c)) (slot c)
        then (view h)\<lparr>v_pend := (v_pend (view h))(bank c := v_pend (view h) (bank c) OR push_bit (7 + slot c) 1)\<rparr>
        else view h))"

fun timer_step :: "'h timer_hw \<Rightarrow> (nat \<Rightarrow> 'h \<Rightarrow> 'h) \<Rightarrow> timer_op \<Rightarrow> 'h timers \<Rightarrow> (oprt \<times> 'h timers) option" where
  "timer_step hw ex (TInit i cfg) s = tkl_timer_init i cfg s"
| "timer_step hw ex (TStart i us) s = tkl_timer_start hw i us s"
| "timer_step hw ex (TStop i) s = tkl_timer_stop hw i s"
| "timer_step hw ex (TDeinit i) s = tkl_timer_deinit i s"
| "timer_step hw ex (SysStart c ms f) s = map_option (\<lambda>s. (OPRT_OK, s)) (bk_timer_initialize hw c ms (Some (TFunc f)) s)"
| "timer_step hw ex (Expire c) s = Some (OPRT_OK, s\<lparr>tm_hw := ex c (tm_hw s)\<rparr>)"
| "timer_step hw ex TimerIsr s = map_option (\<lambda>s. (OPRT_OK, s)) (bk_timer_isr hw s)"

primrec timer_run :: "'h timer_hw \<Rightarrow> (nat \<Rightarrow> 'h \<Rightarrow> 'h) \<Rightarrow> timer_op list \<Rightarrow> 'h timers \<Rightarrow> (oprt list \<times> 'h timers) option" where
  "timer_run hw ex [] s = Some ([], s)"
| "timer_run hw ex (x # xs) s =
     do { (r, s) \<leftarrow> timer_step hw ex x s; (rs, s) \<leftarrow> timer_run hw ex xs s; Some (r # rs, s) }"

fun is_call :: "timer_event \<Rightarrow> bool" where
  "is_call (Called f c) \<longleftrightarrow> True"
| "is_call (TklCalled f a) \<longleftrightarrow> True"
| "is_call _ \<longleftrightarrow> False"

definition calls :: "'h timers \<Rightarrow> timer_event list" where
  "calls s = filter is_call (tm_log s)"

definition tkl_channel :: "u32 \<Rightarrow> nat" where
  "tkl_channel i = (if i < 2 then unat i else unat i + 2)"

text \<open>The mode of a timer does not occur: a timer that is to run once runs until it is stopped.\<close>

fun spec_timer :: "timer_op \<Rightarrow> channel list \<times> timer_event list \<Rightarrow> oprt \<times> channel list \<times> timer_event list" where
  "spec_timer (TInit i cfg) (xs, es) =
     (if 4 \<le> i then (OPRT_NOT_SUPPORTED, xs, es)
      else case cfg of
        None \<Rightarrow> (OPRT_INVALID_PARM, xs, es)
      | Some m \<Rightarrow> let c = tkl_channel i in (OPRT_OK, xs[c := (xs ! c)\<lparr>c_cb := tc_cb m, c_args := tc_args m\<rparr>], es))"
| "spec_timer (TStart i us) (xs, es) =
     (if 4 \<le> i then (OPRT_NOT_SUPPORTED, xs, es)
      else if i < 2 then (OPRT_OK, spec_start (tkl_channel i) (us * 26) (Some TklCb) xs, es)
      else if us < 1000 then (OPRT_INVALID_PARM, xs, es)
      else (OPRT_OK, spec_start (tkl_channel i) (us div 1000 * 32) (Some TklCb) xs, es))"
| "spec_timer (TStop i) (xs, es) =
     (if 4 \<le> i then (OPRT_NOT_SUPPORTED, xs, es) else (OPRT_OK, spec_stop (tkl_channel i) xs, es))"
| "spec_timer (TDeinit i) (xs, es) = (OPRT_OK, xs, es)"
| "spec_timer (SysStart c ms f) (xs, es) =
     (OPRT_OK, spec_start (unat c) (ms * (if c < 3 then 26000 else 32)) (Some (TFunc f)) xs, es)"
| "spec_timer (Expire c) (xs, es) =
     (OPRT_OK, if c_on (xs ! c) then xs[c := (xs ! c)\<lparr>c_pending := True\<rparr>] else xs, es)"
| "spec_timer TimerIsr (xs, es) =
     (OPRT_OK, spec_serve_timers xs, es @ concat (map (\<lambda>d. served d (xs ! d)) [0, 1, 2, 3, 4, 5]))"

primrec spec_timers :: "timer_op list \<Rightarrow> channel list \<times> timer_event list \<Rightarrow> oprt list \<times> channel list \<times> timer_event list" where
  "spec_timers [] s = ([], s)"
| "spec_timers (x # xs) s = (let (r, s) = spec_timer x s; (rs, s) = spec_timers xs s in (r # rs, s))"

fun good_timer_op :: "timer_op \<Rightarrow> bool" where
  "good_timer_op (SysStart c ms f) \<longleftrightarrow> c < 6"
| "good_timer_op (Expire c) \<longleftrightarrow> c < 6"
| "good_timer_op _ \<longleftrightarrow> True"

lemma u64_of_u32:
  fixes x :: u32
  shows "\<not> 0xffffffff < (ucast x :: 64 word)" and "ucast (ucast x :: 64 word) = x"
proof -
  have "unat (ucast x :: 64 word) = unat x"
    using unsigned_less [of x, where ?'a = nat] by (simp add: unsigned_ucast_eq take_bit_eq_mod)
  then show "\<not> 0xffffffff < (ucast x :: 64 word)"
    using unsigned_less [of x, where ?'a = nat] by (simp add: word_less_nat_alt)
  show "ucast (ucast x :: 64 word) = x" by (intro bit_word_eqI) (auto simp: bit_simps)
qed

lemma endvalues:
  "bk_timer_cal_endvalue c ms 1 = ms * (if c < 3 then 26000 else 32)"
  "bk_timer_cal_endvalue_us c us 1 = us * 26"
  by (simp_all add: bk_timer_cal_endvalue_def bk_timer_cal_endvalue_us_def Let_def u64_of_u32)

lemma calls_log: "calls (log_timer es s) = calls s @ filter is_call es"
  by (simp add: calls_def log_timer_def)

text \<open>The simulation: the channels of the state and the calls made are those of the specification.\<close>

definition timers_sim :: "('h \<Rightarrow> tview) \<Rightarrow> 'h timers \<Rightarrow> channel list \<times> timer_event list" where
  "timers_sim view s = (channels view s, calls s)"

lemma initialize_ok:
  assumes "timer_chip hw view" and "timers_ok s" and "c < 6"
  shows "\<exists>t. bk_timer_initialize hw c ms f s = Some t \<and> timers_ok t \<and>
    timers_sim view t = (spec_start (unat c) (ms * (if c < 3 then 26000 else 32)) f (channels view s), calls s)"
proof -
  let ?p = "\<lparr>tp_channel = c, tp_div = 1, tp_period = ms, t_Int_Handler = f\<rparr>"
  have c: "unat c < 6" "\<not> 5 < c" using assms(3) by (simp_all add: word_less_nat_alt)
  obtain t where "start_channel hw ?p (bk_timer_cal_endvalue (unat c) ms 1) s = Some (BK_TIMER_SUCCESS, t)" "timers_ok t"
      "channels view t = spec_start (unat c) (bk_timer_cal_endvalue (unat c) ms 1) f (channels view s)"
      "tm_log t = tm_log s @ [PowerUp (if c < 3 then PWD_TIMER_26M_CLK_BIT else PWD_TIMER_32K_CLK_BIT), IntcEnable IRQ_TIMER]"
    using start_channel_ok [OF assms(1,2), of ?p] c by fastforce
  then show ?thesis
    using c by (simp add: bk_timer_initialize_def timer_control_def bk_timer_ctrl_def init_timer_param_def
        timers_sim_def calls_def endvalues word_less_nat_alt)
qed

lemma initialize_us_ok:
  assumes "timer_chip hw view" and "timers_ok s" and "c < 3"
  shows "\<exists>t. bk_timer_initialize_us hw c us f s = Some t \<and> timers_ok t \<and>
    timers_sim view t = (spec_start (unat c) (us * 26) f (channels view s), calls s)"
proof -
  let ?p = "\<lparr>tp_channel = c, tp_div = 1, tp_period = us, t_Int_Handler = f\<rparr>"
  have c: "unat c < 6" "\<not> 2 < c" using assms(3) by (simp_all add: word_less_nat_alt)
  obtain t where "start_channel hw ?p (bk_timer_cal_endvalue_us (unat c) us 1) s = Some (BK_TIMER_SUCCESS, t)" "timers_ok t"
      "channels view t = spec_start (unat c) (bk_timer_cal_endvalue_us (unat c) us 1) f (channels view s)"
      "tm_log t = tm_log s @ [PowerUp (if c < 3 then PWD_TIMER_26M_CLK_BIT else PWD_TIMER_32K_CLK_BIT), IntcEnable IRQ_TIMER]"
    using start_channel_ok [OF assms(1,2), of ?p] c by fastforce
  then show ?thesis
    using c by (simp add: bk_timer_initialize_us_def timer_control_def bk_timer_ctrl_def init_timer_param_us_def
        timers_sim_def calls_def endvalues)
qed

lemma stop_ok:
  assumes chip: "timer_chip hw view" and "timers_ok s" and c: "c < 6"
  shows "\<exists>t. bk_timer_stop hw c s = Some t \<and> timers_ok t \<and>
    timers_sim view t = (spec_stop (unat c) (channels view s), calls s)"
proof -
  have c': "unat c < 6" "\<not> 5 < (ucast c :: u32)" using c by (simp_all add: word_less_nat_alt unat_ucast_u8)
  let ?f = "\<lambda>v :: u32. (v AND NOT (push_bit TIMERCTLA_INT_POSI 0x7)) AND NOT (push_bit (slot (unat c)) 1) OR
      push_bit (TIMERCTLA_INT_POSI + slot (unat c)) 1"
  have "channels view (s\<lparr>tm_hw := ctl_modify hw (bank (unat c)) ?f (tm_hw s)\<rparr>) = spec_stop (unat c) (channels view s)"
    unfolding spec_stop_def by (rule modify_channels [OF chip c'(1)]) (use stop_bits [OF c'(1)] in auto)
  then show ?thesis
    using c' assms(2) by (simp add: bk_timer_stop_def timer_control_def bk_timer_ctrl_def unit_disable_def Let_def
        unat_ucast_u8 timers_sim_def calls_def timers_ok_def)
qed

section \<open>Histories\<close>

lemma length_channels [simp]: "length (channels view s) = 6"
  by (simp add: channels_def)

lemma six_cases: "(c :: nat) < 6 \<Longrightarrow> c = 0 \<or> c = 1 \<or> c = 2 \<or> c = 3 \<or> c = 4 \<or> c = 5"
  by auto

lemma channels_update:
  assumes "c < 6" and "\<And>d. d < 6 \<Longrightarrow> channel_of view t d = (if d = c then x else channel_of view s d)"
  shows "channels view t = (channels view s)[c := x]"
  using six_cases [OF assms(1)] by (elim disjE) (simp_all add: channels_def assms(2))

lemma expire_ok:
  assumes ex: "timer_expires ex view" and ok: "timers_ok s" and c: "c < 6"
  shows "channels view (s\<lparr>tm_hw := ex c (tm_hw s)\<rparr>) =
    (let xs = channels view s in if c_on (xs ! c) then xs[c := (xs ! c)\<lparr>c_pending := True\<rparr>] else xs)"
proof -
  let ?on = "c_on (channel_of view s c)"
  note e = ex [unfolded timer_expires_def, rule_format, of c "tm_hw s"]
  have on: "bit (v_conf (view (tm_hw s)) (bank c)) (slot c) = ?on" by (simp add: channel_of_def)
  have ch: "channel_of view (s\<lparr>tm_hw := ex c (tm_hw s)\<rparr>) d =
      (if d = c \<and> ?on then (channel_of view s c)\<lparr>c_pending := True\<rparr> else channel_of view s d)" if d: "d < 6" for d
  proof -
    have p: "bit (2 ^ (7 + slot c) :: u32) (7 + slot d) \<longleftrightarrow> slot d = slot c"
      using slot_less [OF c] slot_less [OF d] by (auto simp: bit_simps)
    show ?thesis
    proof (cases ?on)
      case True
      then have v: "view (ex c (tm_hw s)) = (view (tm_hw s))\<lparr>v_pend := (v_pend (view (tm_hw s)))
          (bank c := v_pend (view (tm_hw s)) (bank c) OR push_bit (7 + slot c) 1)\<rparr>"
        using e on by (simp only: if_True)
      show ?thesis
      proof (cases "bank d = bank c")
        case True
        then show ?thesis using \<open>?on\<close> slot_inj [OF d c] by (simp add: channel_of_def v bit_or_iff p)
      next
        case False
        then show ?thesis by (auto simp: channel_of_def v)
      qed
    next
      case False
      then have "view (ex c (tm_hw s)) = view (tm_hw s)" using e on by (simp only: if_False)
      then show ?thesis using False by (simp add: channel_of_def)
    qed
  qed
  have n: "channels view s ! c = channel_of view s c" by (rule channels_nth [OF c])
  show ?thesis
  proof (cases ?on)
    case True
    then have "channels view (s\<lparr>tm_hw := ex c (tm_hw s)\<rparr>) = (channels view s)[c := (channel_of view s c)\<lparr>c_pending := True\<rparr>]"
      using ch by (intro channels_update [OF c]) simp
    then show ?thesis using True n by (simp add: Let_def)
  next
    case False
    then have "channels view (s\<lparr>tm_hw := ex c (tm_hw s)\<rparr>) = channels view s"
      using ch channels_eqI [of view "s\<lparr>tm_hw := ex c (tm_hw s)\<rparr>" "channel_of view s"] by (simp add: channels_def)
    then show ?thesis using False n by (simp add: Let_def)
  qed
qed

lemma u32_below_4:
  assumes "\<not> 4 \<le> (i :: u32)"
  shows "i = 0 \<or> i = 1 \<or> i = 2 \<or> i = 3"
proof -
  have "unat i < 4" using assms by (simp add: word_le_nat_alt)
  then have "unat i = 0 \<or> unat i = 1 \<or> unat i = 2 \<or> unat i = 3" by arith
  then show ?thesis by (simp add: word_unat_eq_iff)
qed

lemma tkl_init_ok:
  assumes ok: "timers_ok s"
  shows "\<exists>r t. tkl_timer_init i cfg s = Some (r, t) \<and> timers_ok t \<and>
    (r, timers_sim view t) = spec_timer (TInit i cfg) (timers_sim view s)"
proof (cases "4 \<le> i")
  case True
  then show ?thesis using ok by (simp add: tkl_timer_init_def TIMER_DEV_NUM_def timers_sim_def)
next
  case False
  let ?j = "if i = 2 \<or> i = 3 then i + 2 else i"
  have c: "unat ?j = tkl_channel i" "tkl_channel i < 6" using u32_below_4 [OF False] by (auto simp: tkl_channel_def)
  show ?thesis
  proof (cases cfg)
    case None
    then show ?thesis using ok False by (simp add: tkl_timer_init_def TIMER_DEV_NUM_def timers_sim_def)
  next
    case (Some m)
    let ?t = "s\<lparr>timer_map := (timer_map s)[tkl_channel i := m]\<rparr>"
    have "channels view ?t = (channels view s)[tkl_channel i := (channels view s ! tkl_channel i)\<lparr>c_cb := tc_cb m, c_args := tc_args m\<rparr>]"
      using ok c(2) by (intro channels_update) (auto simp: channels_nth channel_of_def timers_ok_def)
    moreover have "tkl_timer_init i cfg s = Some (OPRT_OK, ?t)"
      using False ok c by (simp add: tkl_timer_init_def TIMER_DEV_NUM_def Some aset_def timers_ok_def Let_def)
    ultimately show ?thesis
      using False ok by (simp add: Some timers_sim_def timers_ok_def calls_def Let_def)
  qed
qed

lemma tkl_ids:
  assumes "\<not> 4 \<le> (i :: u32)"
  shows "if i < 2 then (i = 0 \<or> i = 1) \<and> (ucast i :: u8) < 3 \<and> unat (ucast i :: u8) = tkl_channel i
    else i \<noteq> 0 \<and> i \<noteq> 1 \<and> (ucast (i + 2) :: u8) < 6 \<and> \<not> (ucast (i + 2) :: u8) < 3 \<and> unat (ucast (i + 2) :: u8) = tkl_channel i"
  using u32_below_4 [OF assms] by (elim disjE) (simp_all add: tkl_channel_def)

lemma filter_served: "filter is_call (served d y) = served d y"
proof (cases "c_handler y")
  case (Some g)
  show ?thesis
  proof (cases g)
    case TklCb
    then show ?thesis unfolding served_def Some by (cases "c_pending y"; cases "c_cb y = 0"; simp)
  next
    case (TFunc k)
    then show ?thesis unfolding served_def Some by (cases "c_pending y"; simp)
  qed
next
  case None
  show ?thesis unfolding served_def None by (cases "c_pending y"; simp)
qed

lemma timer_step_ok:
  assumes chip: "timer_chip hw view" "timer_expires ex view" and ok: "timers_ok s" and good: "good_timer_op x"
  shows "\<exists>r t. timer_step hw ex x s = Some (r, t) \<and> timers_ok t \<and> (r, timers_sim view t) = spec_timer x (timers_sim view s)"
proof (cases x)
  case (TInit i cfg)
  then show ?thesis using tkl_init_ok [OF ok] by simp
next
  case (TStart i us)
  show ?thesis
  proof (cases "4 \<le> i")
    case True
    then show ?thesis using ok TStart by (simp add: tkl_timer_start_def TIMER_DEV_NUM_def timers_sim_def)
  next
    case False
    show ?thesis
    proof (cases "i < 2")
      case True
      then show ?thesis
        using tkl_ids [OF False] False TStart initialize_us_ok [OF chip(1) ok, of "ucast i" us "Some TklCb"]
        by (auto simp: tkl_timer_start_def TIMER_DEV_NUM_def timers_sim_def)
    next
      case F: False
      then show ?thesis
        using tkl_ids [OF False] False TStart ok initialize_ok [OF chip(1) ok, of "ucast (i + 2)" "us div 1000" "Some TklCb"]
        by (auto simp: tkl_timer_start_def TIMER_DEV_NUM_def timers_sim_def)
    qed
  qed
next
  case (TStop i)
  show ?thesis
  proof (cases "4 \<le> i")
    case True
    then show ?thesis using ok TStop by (simp add: tkl_timer_stop_def TIMER_DEV_NUM_def timers_sim_def)
  next
    case False
    let ?c = "if i < 2 then ucast i else ucast (i + 2) :: u8"
    have c: "?c < 6" "unat ?c = tkl_channel i" "i = 0 \<or> i = 1 \<longleftrightarrow> i < 2"
      using u32_below_4 [OF False] by (auto simp: tkl_channel_def)
    then show ?thesis
      using stop_ok [OF chip(1) ok c(1)] False TStop
      by (auto simp: tkl_timer_stop_def TIMER_DEV_NUM_def timers_sim_def split: if_splits)
  qed
next
  case (SysStart c ms f)
  then show ?thesis
    using initialize_ok [OF chip(1) ok, of c ms "Some (TFunc f)"] good by (auto simp: timers_sim_def)
next
  case (Expire c)
  then show ?thesis using expire_ok [OF chip(2) ok] good ok
    by (auto simp: timers_sim_def timers_ok_def calls_def Let_def)
next
  case TimerIsr
  obtain t where t: "bk_timer_isr hw s = Some t" "timers_ok t" "channels view t = spec_serve_timers (channels view s)"
      "tm_log t = tm_log s @ concat (map (\<lambda>d. served d (channel_of view s d)) [0, 1, 2, 3, 4, 5])"
    using isr_ok [OF chip(1) ok] by auto
  have "calls t = calls s @ concat (map (\<lambda>d. served d (channels view s ! d)) [0, 1, 2, 3, 4, 5])"
    using t(4) by (simp add: calls_def filter_served channels_nth)
  then show ?thesis using t TimerIsr by (simp add: timers_sim_def)
qed (use ok in \<open>simp add: tkl_timer_deinit_def timers_sim_def\<close>)

lemma timer_run_ok:
  assumes chip: "timer_chip hw view" "timer_expires ex view" and "timers_ok s" and "list_all good_timer_op xs"
  shows "\<exists>rs t. timer_run hw ex xs s = Some (rs, t) \<and> (rs, timers_sim view t) = spec_timers xs (timers_sim view s)"
  using assms(3,4)
proof (induction xs arbitrary: s)
  case (Cons x xs)
  obtain r u where u: "timer_step hw ex x s = Some (r, u)" "timers_ok u" "(r, timers_sim view u) = spec_timer x (timers_sim view s)"
    using timer_step_ok [OF chip Cons.prems(1), of x] Cons.prems(2) by auto
  obtain rs t where t: "timer_run hw ex xs u = Some (rs, t)" "(rs, timers_sim view t) = spec_timers xs (timers_sim view u)"
    using Cons.IH [OF u(2)] Cons.prems(2) by auto
  show ?case using u(1) u(3) [symmetric] t(1) t(2) [symmetric] by simp
qed simp

definition off_channel :: channel where
  "off_channel = \<lparr>c_on = False, c_pending = False, c_period = 0, c_handler = None, c_cb = 0, c_args = 0\<rparr>"

lemma boot_channels:
  assumes chip: "timer_chip hw view"
  shows "timers_sim view (bk_timer_init hw (timers_boot h)) = (replicate 6 off_channel, [])"
    and "timers_ok (bk_timer_init hw (timers_boot h))"
proof -
  have m: "push_bit (unat TIMERCTLA_CLKDIV_MASK) 7 = int_bits"
    by (simp add: TIMERCTLA_CLKDIV_MASK_def int_bits_def TIMERCTLA_INT_POSI_def)
  have c: "int_bits AND 0x7F = 0"
    by (simp add: int_bits_def TIMERCTLA_INT_POSI_def)
  let ?h = "tm_hw (bk_timer_init hw (timers_boot h))"
  have v: "v_conf (view ?h) b = 0" "bit (v_pend (view ?h) b) (7 + k) \<longleftrightarrow> bit (v_pend (view h) b) (7 + k) \<and> \<not> bit int_bits (7 + k)"
    "d < 6 \<Longrightarrow> v_cnt (view ?h) d = 0" for b k d
    using six_cases [of d]
    by (auto simp: bk_timer_init_def log_timer_def timers_boot_def Let_def m timer_chipD [OF chip] write_ctl_def c
        bit_and_iff bit_not_iff dest: bit_imp_le_length)
  have f: "p_TIMER_Int_Handler (bk_timer_init hw (timers_boot h)) ! d = None"
    "timer_map (bk_timer_init hw (timers_boot h)) ! d = \<lparr>tc_mode = TUYA_TIMER_MODE_ONCE, tc_cb = 0, tc_args = 0\<rparr>" if "d < 6" for d
    using that by (simp_all add: bk_timer_init_def log_timer_def timers_boot_def TIMER_CHANNEL_NO_def Let_def)
  have "channel_of view (bk_timer_init hw (timers_boot h)) d = off_channel" if d: "d < 6" for d
  proof -
    have "\<not> bit (v_pend (view ?h) (bank d)) (7 + slot d)" using v(2) slot_less [OF d] by (simp add: bit_int_bits)
    then show ?thesis by (simp add: channel_of_def off_channel_def v(1) v(3) [OF d] f [OF d])
  qed
  then show "timers_sim view (bk_timer_init hw (timers_boot h)) = (replicate 6 off_channel, [])"
    by (simp add: timers_sim_def channels_def numeral_eq_Suc)
       (simp add: calls_def bk_timer_init_def log_timer_def timers_boot_def Let_def)
  show "timers_ok (bk_timer_init hw (timers_boot h))"
    by (simp add: timers_ok_def bk_timer_init_def log_timer_def timers_boot_def TIMER_CHANNEL_NO_def Let_def)
qed

text \<open>C8. From the start of the driver on, the timers of TuyaOS and the channels of the system behave
  as six channels: whatever the order of setting up, starting and stopping timers, of periods
  ending and of interrupts, every operation returns with the result of the specification, an
  interrupt calls the current callback of each pending channel once, in the order of the channels,
  and the callbacks called are those of the specification. Starting a channel loses what is
  pending on its bank, and a timer set up to run once runs on like any other.\<close>

theorem tkl_timer_history:
  assumes "timer_chip hw view" and "timer_expires ex view" and "list_all good_timer_op xs"
  shows "\<exists>rs t. timer_run hw ex xs (bk_timer_init hw (timers_boot h)) = Some (rs, t) \<and>
    (rs, channels view t, calls t) = spec_timers xs (replicate 6 off_channel, [])"
  using timer_run_ok [OF assms(1,2) boot_channels(2) [OF assms(1), of h] assms(3)] boot_channels(1) [OF assms(1), of h]
  by (simp add: timers_sim_def)

text \<open>The product of microseconds and 26 is computed in 32 bits, before it is put into 64 and
  checked: the first two timers get the period asked for just up to 165 seconds.\<close>

lemma tkl_timer_period:
  assumes "timer_chip hw view" and "timers_ok s" and "i < 2"
  shows "\<exists>t. tkl_timer_start hw i us s = Some (OPRT_OK, t) \<and>
    (unat (c_period (channel_of view t (unat i))) = unat us * 26 \<longleftrightarrow> unat us \<le> 165191049)"
proof -
  have i: "\<not> 4 \<le> i" "i = 0 \<or> i = 1" "(ucast i :: u8) < 3" "unat (ucast i :: u8) = unat i" "unat i < 6" "tkl_channel i = unat i"
    using assms(3) tkl_ids [of i] by (auto simp: tkl_channel_def word_less_nat_alt word_le_nat_alt)
  obtain t where t: "bk_timer_initialize_us hw (ucast i) us (Some TklCb) s = Some t"
      "channels view t = spec_start (unat i) (us * 26) (Some TklCb) (channels view s)"
    using initialize_us_ok [OF assms(1,2) i(3), of us "Some TklCb"] i(4) by (auto simp: timers_sim_def)
  have "channel_of view t (unat i) = spec_start (unat i) (us * 26) (Some TklCb) (channels view s) ! unat i"
    using t(2) channels_nth [OF i(5), of view t] by simp
  also have "c_period \<dots> = us * 26" using i(2) by (auto simp: spec_start_def Let_def)
  finally have "c_period (channel_of view t (unat i)) = us * 26" .
  moreover have "unat (us * 26) = unat us * 26 mod 4294967296" by (simp add: unat_word_ariths)
  moreover have "unat us * 26 mod 4294967296 = unat us * 26 \<longleftrightarrow> unat us * 26 < 4294967296"
    using mod_less_divisor [of 4294967296 "unat us * 26"] by (auto simp del: mod_less_divisor)
  ultimately show ?thesis using t(1) i(1,2) by (auto simp: tkl_timer_start_def TIMER_DEV_NUM_def)
qed

text \<open>A controller whose state is its registers.\<close>

definition eg_timers :: "tview timer_hw" where
  "eg_timers = \<lparr>tm_rd = \<lambda>r v. (case r of TIMER_CTL b \<Rightarrow> (ctl_word v b, v) | TIMER_CNT c \<Rightarrow> (v_cnt v c, v) | _ \<Rightarrow> (0, v)),
     tm_wr = \<lambda>r x v. (case r of TIMER_CTL b \<Rightarrow> write_ctl b x v | TIMER_CNT c \<Rightarrow> v\<lparr>v_cnt := (v_cnt v)(c := x)\<rparr> | _ \<Rightarrow> v)\<rparr>"

definition eg_expire :: "nat \<Rightarrow> tview \<Rightarrow> tview" where
  "eg_expire c v = (if bit (v_conf v (bank c)) (slot c)
     then v\<lparr>v_pend := (v_pend v)(bank c := v_pend v (bank c) OR push_bit (7 + slot c) 1)\<rparr> else v)"

lemma eg_timer_chip: "timer_chip eg_timers id" "timer_expires eg_expire id"
  by (simp_all add: timer_chip_def timer_expires_def eg_timers_def eg_expire_def)

definition eg_ops :: "timer_op list" where
  "eg_ops = [SysStart 3 2 77, TInit 2 (Some \<lparr>tc_mode = TUYA_TIMER_MODE_ONCE, tc_cb = 5, tc_args = 9\<rparr>), TStart 2 2000,
     Expire 4, Expire 3, TimerIsr, Expire 3, TStart 3 500, TStart 3 4000, TimerIsr, Expire 4, TimerIsr]"

definition eg_quiet :: tview where
  "eg_quiet = \<lparr>v_conf = \<lambda>_. 0, v_pend = \<lambda>_. 0, v_cnt = \<lambda>_. 0\<rparr>"

theorem tkl_timer_history_witness:
  "\<exists>rs t. timer_run eg_timers eg_expire eg_ops (bk_timer_init eg_timers (timers_boot eg_quiet)) = Some (rs, t) \<and>
    calls t = [Called 77 3, TklCalled 5 9, TklCalled 5 9] \<and> rs ! 7 = OPRT_INVALID_PARM"
proof -
  have s: "spec_timers eg_ops (replicate 6 off_channel, []) = (fst (spec_timers eg_ops (replicate 6 off_channel, [])),
      fst (snd (spec_timers eg_ops (replicate 6 off_channel, []))), [Called 77 3, TklCalled 5 9, TklCalled 5 9])"
    by code_simp
  have r: "fst (spec_timers eg_ops (replicate 6 off_channel, [])) ! 7 = OPRT_INVALID_PARM" by code_simp
  have "list_all good_timer_op eg_ops" by code_simp
  from tkl_timer_history [OF eg_timer_chip this, of eg_quiet] show ?thesis using s r by (metis prod.inject)
qed

end
