(* ===== verification/Gpio.thy ===== *)
theory Gpio
  imports Prelude
begin

text \<open>
  The pins: the driver \<^verbatim>\<open>driver/gpio/gpio.c\<close>, the interface of the SDK
  \<^verbatim>\<open>func/user_driver/BkDriverGpio.c\<close> with the inline functions of \<^verbatim>\<open>gpio_pub.h\<close>, and the
  interfaces of TuyaOS \<^verbatim>\<open>tkl_gpio.c\<close> and \<^verbatim>\<open>tkl_pinmux.c\<close>, as they are built for the BK7231N
  without debugging over JTAG. A register is known by its address. A pin has a register for its
  configuration, two bits for the function it serves, and, below pin 32, a bit each to enable its
  interrupt and to say that it is pending.

  The driver shifts a one by the number of a pin up to 39, and C leaves a shift by 32 or more to the
  machine: \<open>gp_shl\<close> is what the machine does. A callback is a number (0 is \<^verbatim>\<open>NULL\<close>); calling one is
  recorded, and it does not call back into the pins.
\<close>

section \<open>Registers and state\<close>

record 'h gpio_hw =
  gp_rd :: "u32 \<Rightarrow> 'h \<Rightarrow> u32 \<times> 'h"
  gp_wr :: "u32 \<Rightarrow> u32 \<Rightarrow> 'h \<Rightarrow> 'h"
  gp_shl :: "u32 \<Rightarrow> nat \<Rightarrow> u32"

definition GPIO_BASE_ADDR :: u32 where "GPIO_BASE_ADDR = 0x0802800"
definition REG_GPIO_CFG_BASE_ADDR :: u32 where "REG_GPIO_CFG_BASE_ADDR = GPIO_BASE_ADDR + 0 * 4"
definition REG_GPIO_FUNC_CFG :: u32 where "REG_GPIO_FUNC_CFG = GPIO_BASE_ADDR + 32 * 4"
definition REG_GPIO_INTEN :: u32 where "REG_GPIO_INTEN = GPIO_BASE_ADDR + 33 * 4"
definition REG_GPIO_INTLV0 :: u32 where "REG_GPIO_INTLV0 = GPIO_BASE_ADDR + 34 * 4"
definition REG_GPIO_INTLV1 :: u32 where "REG_GPIO_INTLV1 = GPIO_BASE_ADDR + 35 * 4"
definition REG_GPIO_INTSTA :: u32 where "REG_GPIO_INTSTA = GPIO_BASE_ADDR + 36 * 4"
definition REG_GPIO_DPLL_UNLOCK :: u32 where "REG_GPIO_DPLL_UNLOCK = GPIO_BASE_ADDR + 38 * 4"
definition REG_GPIO_MODULE_SELECT :: u32 where "REG_GPIO_MODULE_SELECT = GPIO_BASE_ADDR + 45 * 4"
definition REG_GPIO_FUNC_CFG_2 :: u32 where "REG_GPIO_FUNC_CFG_2 = GPIO_BASE_ADDR + 46 * 4"
definition REG_GPIO_FUNC_CFG_3 :: u32 where "REG_GPIO_FUNC_CFG_3 = GPIO_BASE_ADDR + 47 * 4"

definition GPIO_FAILURE :: u32 where "GPIO_FAILURE = 1"
definition GPIO_SUCCESS :: u32 where "GPIO_SUCCESS = 0"
definition GPIONUM :: nat where "GPIONUM = 40"
definition GPIO32 :: u32 where "GPIO32 = 32"
definition GCFG_INPUT_BIT :: u32 where "GCFG_INPUT_BIT = push_bit 0 1"
definition GCFG_OUTPUT_POS :: nat where "GCFG_OUTPUT_POS = 1"
definition GCFG_OUTPUT_BIT :: u32 where "GCFG_OUTPUT_BIT = push_bit 1 1"
definition DPLL_UNLOCK_INT_EN :: u32 where "DPLL_UNLOCK_INT_EN = push_bit 0 1"
definition DPLL_UNLOCK_INT :: u32 where "DPLL_UNLOCK_INT = push_bit 2 1"
definition AUDIO_DPLL_UNLOCK_INT :: u32 where "AUDIO_DPLL_UNLOCK_INT = push_bit 3 1"
definition GPIO_EXTRAL_INT_MASK :: u32 where "GPIO_EXTRAL_INT_MASK = DPLL_UNLOCK_INT OR AUDIO_DPLL_UNLOCK_INT"
definition IRQ_GPIO_BIT :: u32 where "IRQ_GPIO_BIT = push_bit 7 1"

definition GMODE_INPUT_PULLDOWN :: u32 where "GMODE_INPUT_PULLDOWN = 0"
definition GMODE_OUTPUT :: u32 where "GMODE_OUTPUT = 1"
definition GMODE_SECOND_FUNC :: u32 where "GMODE_SECOND_FUNC = 2"
definition GMODE_INPUT_PULLUP :: u32 where "GMODE_INPUT_PULLUP = 3"
definition GMODE_INPUT :: u32 where "GMODE_INPUT = 4"
definition GMODE_SECOND_FUNC_PULL_UP :: u32 where "GMODE_SECOND_FUNC_PULL_UP = 5"
definition GMODE_SET_HIGH_IMPENDANCE :: u32 where "GMODE_SET_HIGH_IMPENDANCE = 7"
definition GMODE_DEEP_PS :: u32 where "GMODE_DEEP_PS = 8"

text \<open>What a handler of the driver leads to: \<^verbatim>\<open>__tkl_gpio_irq_cb\<close> or another function.\<close>

datatype gfunc = TklGpioCb | GFunc nat

record pin_dev_map =
  pd_gpio :: u32
  pd_cb :: nat
  pd_args :: nat

datatype gpio_event =
    GpioRegisterIsr
  | GpioIcuEnable u32
  | GpioRegisterDev
  | GpioUnregisterDev
  | GpioCalled nat u8
  | TklGpioCalled nat nat

record 'h gpios =
  gp_hw :: 'h
  p_gpio_intr_handler :: "gfunc option list"
  pinmap :: "pin_dev_map list"
  gp_log :: "gpio_event list"

definition log_gpio :: "gpio_event list \<Rightarrow> 'h gpios \<Rightarrow> 'h gpios" where
  "log_gpio es s = s\<lparr>gp_log := gp_log s @ es\<rparr>"

text \<open>Reading a register, changing the value and writing it.\<close>

definition gpio_modify :: "'h gpio_hw \<Rightarrow> u32 \<Rightarrow> (u32 \<Rightarrow> u32) \<Rightarrow> 'h \<Rightarrow> 'h" where
  "gpio_modify hw a f h = (let (v, h) = gp_rd hw a h in gp_wr hw a (f v) h)"

section \<open>Configuration, input and output\<close>

text \<open>The filter is only built in for JTAG.\<close>

definition gpio_ops_filter :: "u32 \<Rightarrow> u32" where
  "gpio_ops_filter index = GPIO_FAILURE"

definition gpio_cfg_addr :: "u32 \<Rightarrow> u32" where
  "gpio_cfg_addr index =
     (let index = (if GPIO32 \<le> index then index + 16 else index) in REG_GPIO_CFG_BASE_ADDR + index * 4)"

definition gpio_mode_value :: "u32 \<Rightarrow> u32 option" where
  "gpio_mode_value mode =
     (if mode = GMODE_INPUT_PULLDOWN then Some 0x2C
      else if mode = GMODE_OUTPUT then Some 0x00
      else if mode = GMODE_SECOND_FUNC then Some 0x48
      else if mode = GMODE_INPUT_PULLUP then Some 0x3C
      else if mode = GMODE_INPUT then Some 0x0C
      else if mode = GMODE_SECOND_FUNC_PULL_UP then Some 0x78
      else if mode = GMODE_DEEP_PS \<or> mode = GMODE_SET_HIGH_IMPENDANCE then Some 0x08
      else None)"

definition gpio_config :: "'h gpio_hw \<Rightarrow> u32 \<Rightarrow> u32 \<Rightarrow> 'h \<Rightarrow> 'h" where
  "gpio_config hw index mode h =
     (if gpio_ops_filter index = GPIO_SUCCESS then h
      else if GPIONUM \<le> unat index then h
      else case gpio_mode_value mode of
             None \<Rightarrow> h
           | Some val \<Rightarrow> gp_wr hw (gpio_cfg_addr index) val h)"

definition gpio_input :: "'h gpio_hw \<Rightarrow> u32 \<Rightarrow> 'h \<Rightarrow> u32 \<times> 'h" where
  "gpio_input hw i h =
     (if gpio_ops_filter i = GPIO_SUCCESS then (0, h)
      else let (val, h) = gp_rd hw (gpio_cfg_addr i) h in (val AND GCFG_INPUT_BIT, h))"

definition gpio_output :: "'h gpio_hw \<Rightarrow> u32 \<Rightarrow> u32 \<Rightarrow> 'h \<Rightarrow> 'h" where
  "gpio_output hw i val h =
     (if gpio_ops_filter i = GPIO_SUCCESS then h
      else gpio_modify hw (gpio_cfg_addr i)
             (\<lambda>v. v AND NOT GCFG_OUTPUT_BIT OR push_bit GCFG_OUTPUT_POS (val AND 0x01)) h)"

definition gpio_output_reverse :: "'h gpio_hw \<Rightarrow> u32 \<Rightarrow> 'h \<Rightarrow> 'h" where
  "gpio_output_reverse hw i h =
     (if gpio_ops_filter i = GPIO_SUCCESS then h
      else gpio_modify hw (gpio_cfg_addr i) (\<lambda>v. v XOR GCFG_OUTPUT_BIT) h)"

section \<open>Functions of the pins\<close>

datatype gfunc_mode =
    GFUNC_MODE_UART2 | GFUNC_MODE_I2C2 | GFUNC_MODE_I2S | GFUNC_MODE_ADC1 | GFUNC_MODE_ADC2
  | GFUNC_MODE_CLK13M | GFUNC_MODE_PWM0 | GFUNC_MODE_PWM1 | GFUNC_MODE_PWM2 | GFUNC_MODE_PWM3
  | GFUNC_MODE_WIFI_ACTIVE | GFUNC_MODE_BT_ACTIVE | GFUNC_MODE_BT_PRIORITY | GFUNC_MODE_UART1
  | GFUNC_MODE_SD_DMA | GFUNC_MODE_SD_HOST | GFUNC_MODE_SPI_DMA | GFUNC_MODE_SPI
  | GFUNC_MODE_SPI_USE_GPIO_14 | GFUNC_MODE_SPI_USE_GPIO_16_17 | GFUNC_MODE_PWM4 | GFUNC_MODE_PWM5
  | GFUNC_MODE_I2C1 | GFUNC_MODE_JTAG | GFUNC_MODE_CLK26M | GFUNC_MODE_ADC3 | GFUNC_MODE_DCMI
  | GFUNC_MODE_ADC4 | GFUNC_MODE_ADC5 | GFUNC_MODE_ADC6 | GFUNC_MODE_ADC7 | GFUNC_MODE_SD1_HOST
  | GFUNC_MODE_SPI1 | GFUNC_MODE_SPI_DMA1

definition gfunc_modes :: "gfunc_mode list" where
  "gfunc_modes =
     [GFUNC_MODE_UART2, GFUNC_MODE_I2C2, GFUNC_MODE_I2S, GFUNC_MODE_ADC1, GFUNC_MODE_ADC2,
      GFUNC_MODE_CLK13M, GFUNC_MODE_PWM0, GFUNC_MODE_PWM1, GFUNC_MODE_PWM2, GFUNC_MODE_PWM3,
      GFUNC_MODE_WIFI_ACTIVE, GFUNC_MODE_BT_ACTIVE, GFUNC_MODE_BT_PRIORITY, GFUNC_MODE_UART1,
      GFUNC_MODE_SD_DMA, GFUNC_MODE_SD_HOST, GFUNC_MODE_SPI_DMA, GFUNC_MODE_SPI,
      GFUNC_MODE_SPI_USE_GPIO_14, GFUNC_MODE_SPI_USE_GPIO_16_17, GFUNC_MODE_PWM4, GFUNC_MODE_PWM5,
      GFUNC_MODE_I2C1, GFUNC_MODE_JTAG, GFUNC_MODE_CLK26M, GFUNC_MODE_ADC3, GFUNC_MODE_DCMI,
      GFUNC_MODE_ADC4, GFUNC_MODE_ADC5, GFUNC_MODE_ADC6, GFUNC_MODE_ADC7, GFUNC_MODE_SD1_HOST,
      GFUNC_MODE_SPI1, GFUNC_MODE_SPI_DMA1]"

text \<open>The enumerator that a number stands for; \<open>None\<close> takes the default of the switch.\<close>

definition gfunc_of :: "u32 \<Rightarrow> gfunc_mode option" where
  "gfunc_of c = aget gfunc_modes (unat c)"

definition PERIAL_MODE_1 :: u32 where "PERIAL_MODE_1 = 0"
definition PERIAL_MODE_2 :: u32 where "PERIAL_MODE_2 = 1"
definition PERIAL_MODE_3 :: u32 where "PERIAL_MODE_3 = 2"
definition GPIO_MODUL_NONE :: u32 where "GPIO_MODUL_NONE = 0xff"
definition GPIO_SD_MODULE_MASK :: u32 where "GPIO_SD_MODULE_MASK = push_bit 2 3"
definition GPIO_SPI_MODULE_MASK :: u32 where "GPIO_SPI_MODULE_MASK = push_bit 0 3"
definition GPIO_SD_DMA_MODULE :: u32 where "GPIO_SD_DMA_MODULE = push_bit 2 0"
definition GPIO_SD_HOST_MODULE :: u32 where "GPIO_SD_HOST_MODULE = push_bit 2 1"
definition GPIO_SD1_HOST_MODULE :: u32 where "GPIO_SD1_HOST_MODULE = push_bit 2 3"
definition GPIO_SPI_DMA_MODULE :: u32 where "GPIO_SPI_DMA_MODULE = push_bit 0 0"
definition GPIO_SPI_MODULE :: u32 where "GPIO_SPI_MODULE = push_bit 0 1"
definition GPIO_SPI1_DMA_MODULE :: u32 where "GPIO_SPI1_DMA_MODULE = push_bit 0 2"
definition GPIO_SPI1_MODULE :: u32 where "GPIO_SPI1_MODULE = push_bit 0 3"

text \<open>The local variables that the switch sets.\<close>

record func_vars =
  start_index :: nat
  end_index :: nat
  pmode :: u32
  config_mode :: u32
  modul_select :: u32
  pmask :: u32

definition func_vars0 :: func_vars where
  "func_vars0 = \<lparr>start_index = 0, end_index = 0, pmode = PERIAL_MODE_1, config_mode = GMODE_SECOND_FUNC,
     modul_select = GPIO_MODUL_NONE, pmask = 0\<rparr>"

definition pins_row :: "nat \<Rightarrow> nat \<Rightarrow> u32 \<Rightarrow> func_vars" where
  "pins_row a b m = func_vars0\<lparr>start_index := a, end_index := b, pmode := m\<rparr>"

definition sd_row :: "u32 \<Rightarrow> func_vars \<Rightarrow> func_vars" where
  "sd_row m r = r\<lparr>modul_select := m, pmask := GPIO_SD_MODULE_MASK\<rparr>"

definition spi_row :: "u32 \<Rightarrow> func_vars \<Rightarrow> func_vars" where
  "spi_row m r = r\<lparr>modul_select := m, pmask := GPIO_SPI_MODULE_MASK\<rparr>"

definition func_switch :: "gfunc_mode option \<Rightarrow> func_vars" where
  "func_switch m =
     (case m of
        None \<Rightarrow> func_vars0
      | Some f \<Rightarrow> (case f of
          GFUNC_MODE_UART2 \<Rightarrow> (pins_row 0 1 PERIAL_MODE_1)\<lparr>config_mode := GMODE_SECOND_FUNC_PULL_UP\<rparr>
        | GFUNC_MODE_I2C2 \<Rightarrow> pins_row 0 1 PERIAL_MODE_2
        | GFUNC_MODE_I2S \<Rightarrow> pins_row 2 5 PERIAL_MODE_1
        | GFUNC_MODE_ADC1 \<Rightarrow> (pins_row 26 26 PERIAL_MODE_1)\<lparr>config_mode := GMODE_SET_HIGH_IMPENDANCE\<rparr>
        | GFUNC_MODE_ADC2 \<Rightarrow> (pins_row 24 24 PERIAL_MODE_3)\<lparr>config_mode := GMODE_SET_HIGH_IMPENDANCE\<rparr>
        | GFUNC_MODE_CLK13M \<Rightarrow> pins_row 6 6 PERIAL_MODE_1
        | GFUNC_MODE_PWM0 \<Rightarrow> pins_row 6 6 PERIAL_MODE_2
        | GFUNC_MODE_PWM1 \<Rightarrow> pins_row 7 7 PERIAL_MODE_2
        | GFUNC_MODE_PWM2 \<Rightarrow> pins_row 8 8 PERIAL_MODE_2
        | GFUNC_MODE_PWM3 \<Rightarrow> pins_row 9 9 PERIAL_MODE_2
        | GFUNC_MODE_BT_PRIORITY \<Rightarrow> pins_row 9 9 PERIAL_MODE_1
        | GFUNC_MODE_WIFI_ACTIVE \<Rightarrow> pins_row 7 7 PERIAL_MODE_1
        | GFUNC_MODE_BT_ACTIVE \<Rightarrow> pins_row 8 8 PERIAL_MODE_1
        | GFUNC_MODE_UART1 \<Rightarrow> (pins_row 10 13 PERIAL_MODE_1)\<lparr>config_mode := GMODE_SECOND_FUNC_PULL_UP\<rparr>
        | GFUNC_MODE_SD_DMA \<Rightarrow> sd_row GPIO_SD_DMA_MODULE (pins_row 14 19 PERIAL_MODE_1)
        | GFUNC_MODE_SD_HOST \<Rightarrow>
            sd_row GPIO_SD_HOST_MODULE ((pins_row 14 19 PERIAL_MODE_1)\<lparr>config_mode := GMODE_SECOND_FUNC_PULL_UP\<rparr>)
        | GFUNC_MODE_SPI_DMA \<Rightarrow> spi_row GPIO_SPI_DMA_MODULE (pins_row 14 17 PERIAL_MODE_2)
        | GFUNC_MODE_SPI \<Rightarrow> spi_row GPIO_SPI_MODULE (pins_row 14 17 PERIAL_MODE_2)
        | GFUNC_MODE_SPI_USE_GPIO_14 \<Rightarrow> spi_row GPIO_SPI_DMA_MODULE (pins_row 14 14 PERIAL_MODE_2)
        | GFUNC_MODE_SPI_USE_GPIO_16_17 \<Rightarrow> spi_row GPIO_SPI_MODULE (pins_row 16 17 PERIAL_MODE_2)
        | GFUNC_MODE_PWM4 \<Rightarrow> pins_row 24 24 PERIAL_MODE_2
        | GFUNC_MODE_PWM5 \<Rightarrow> pins_row 26 26 PERIAL_MODE_2
        | GFUNC_MODE_I2C1 \<Rightarrow> pins_row 20 21 PERIAL_MODE_1
        | GFUNC_MODE_JTAG \<Rightarrow> pins_row 20 23 PERIAL_MODE_2
        | GFUNC_MODE_CLK26M \<Rightarrow> pins_row 22 22 PERIAL_MODE_1
        | GFUNC_MODE_ADC3 \<Rightarrow> pins_row 23 23 PERIAL_MODE_1
        | GFUNC_MODE_DCMI \<Rightarrow> pins_row 27 39 PERIAL_MODE_1
        | GFUNC_MODE_ADC4 \<Rightarrow> (pins_row 28 28 PERIAL_MODE_2)\<lparr>config_mode := GMODE_SET_HIGH_IMPENDANCE\<rparr>
        | GFUNC_MODE_ADC5 \<Rightarrow> (pins_row 22 22 PERIAL_MODE_1)\<lparr>config_mode := GMODE_SET_HIGH_IMPENDANCE\<rparr>
        | GFUNC_MODE_ADC6 \<Rightarrow> (pins_row 21 21 PERIAL_MODE_1)\<lparr>config_mode := GMODE_SET_HIGH_IMPENDANCE\<rparr>
        | GFUNC_MODE_ADC7 \<Rightarrow> pins_row 13 13 PERIAL_MODE_2
        | GFUNC_MODE_SD1_HOST \<Rightarrow>
            sd_row GPIO_SD1_HOST_MODULE ((pins_row 34 39 PERIAL_MODE_2)\<lparr>config_mode := GMODE_SECOND_FUNC_PULL_UP\<rparr>)
        | GFUNC_MODE_SPI1 \<Rightarrow> spi_row GPIO_SPI1_MODULE (pins_row 30 33 PERIAL_MODE_2)
        | GFUNC_MODE_SPI_DMA1 \<Rightarrow> spi_row GPIO_SPI1_DMA_MODULE (pins_row 30 33 PERIAL_MODE_2)))"

text \<open>The register and the place in it of the function of pin \<open>i\<close>; no row goes past pin 39.\<close>

definition func_field :: "nat \<Rightarrow> u32 \<times> nat" where
  "func_field i =
     (if i < 16 then (REG_GPIO_FUNC_CFG, i * 2)
      else if i < 32 then (REG_GPIO_FUNC_CFG_2, (i - 16) * 2)
      else (REG_GPIO_FUNC_CFG_3, (i - 32) * 2))"

definition func_pin :: "'h gpio_hw \<Rightarrow> gfunc_mode option \<Rightarrow> func_vars \<Rightarrow> nat \<Rightarrow> 'h \<Rightarrow> 'h" where
  "func_pin hw m r i h =
     (if m = Some GFUNC_MODE_DCMI \<and> i = 28 then h
      else let (regist, shift) = func_field i;
               h = gpio_modify hw regist
                     (\<lambda>reg. reg AND NOT (gp_shl hw 0x3 shift) OR gp_shl hw (pmode r AND 0x3) shift) h
           in gpio_config hw (of_nat i) (config_mode r) h)"

definition gpio_enable_second_function :: "'h gpio_hw \<Rightarrow> u32 \<Rightarrow> 'h \<Rightarrow> 'h" where
  "gpio_enable_second_function hw func_mode h =
     (let m = gfunc_of func_mode;
          r = func_switch m;
          h = fold (func_pin hw m r) [start_index r..<end_index r + 1] h
      in if modul_select r \<noteq> GPIO_MODUL_NONE
         then gpio_modify hw REG_GPIO_MODULE_SELECT (\<lambda>reg. reg AND NOT (pmask r) OR modul_select r) h
         else h)"

section \<open>Interrupts\<close>

definition tkl_gpio_irq_cb :: "u32 \<Rightarrow> 'h gpios \<Rightarrow> 'h gpios option" where
  "tkl_gpio_irq_cb pin_id s =
     do {
       m \<leftarrow> aget (pinmap s) (unat pin_id);
       Some (if pd_cb m \<noteq> 0 then log_gpio [TklGpioCalled (pd_cb m) (pd_args m)] s else s)
     }"

definition call_gpio_handler :: "nat \<Rightarrow> 'h gpios \<Rightarrow> 'h gpios option" where
  "call_gpio_handler i s =
     do {
       f \<leftarrow> aget (p_gpio_intr_handler s) i;
       case f of
         None \<Rightarrow> Some s
       | Some TklGpioCb \<Rightarrow> tkl_gpio_irq_cb (of_nat i) s
       | Some (GFunc g) \<Rightarrow> Some (log_gpio [GpioCalled g (of_nat i)] s)
     }"

definition gpio_isr :: "'h gpio_hw \<Rightarrow> 'h gpios \<Rightarrow> 'h gpios option" where
  "gpio_isr hw s =
     do {
       let (ulIntStatus, h) = gp_rd hw REG_GPIO_INTSTA (gp_hw s);
       s \<leftarrow> for_range 0 GPIONUM
              (\<lambda>i s. if ulIntStatus AND gp_shl hw 0x01 i \<noteq> 0 then call_gpio_handler i s else Some s)
              (s\<lparr>gp_hw := h\<rparr>);
       Some (s\<lparr>gp_hw := gp_wr hw REG_GPIO_INTSTA ulIntStatus (gp_hw s)\<rparr>)
     }"

definition gpio_int_disable :: "'h gpio_hw \<Rightarrow> u32 \<Rightarrow> 'h \<Rightarrow> 'h" where
  "gpio_int_disable hw index h =
     gpio_modify hw REG_GPIO_INTEN (\<lambda>v. v AND NOT (gp_shl hw 0x01 (unat index))) h"

text \<open>The trigger of a pin: two bits in one of two registers.\<close>

definition set_trigger :: "'h gpio_hw \<Rightarrow> u32 \<Rightarrow> u32 \<Rightarrow> 'h \<Rightarrow> 'h" where
  "set_trigger hw index mode h =
     (if index < 16
      then gpio_modify hw REG_GPIO_INTLV0
             (\<lambda>v. v AND NOT (gp_shl hw 0x03 (unat (push_bit 1 index))) OR gp_shl hw mode (unat (push_bit 1 index))) h
      else gpio_modify hw REG_GPIO_INTLV1
             (\<lambda>v. v AND NOT (gp_shl hw 0x03 (unat (push_bit 1 (index - 16)))) OR
                  gp_shl hw mode (unat (push_bit 1 (index - 16)))) h)"

text \<open>Old interrupts of the pin are cleared, in \<open>n\<close> polls.\<close>

primrec clear_status :: "'h gpio_hw \<Rightarrow> u32 \<Rightarrow> nat \<Rightarrow> 'h \<Rightarrow> 'h" where
  "clear_status hw index 0 h = h"
| "clear_status hw index (Suc n) h =
     (let (ulIntStatus, h) = gp_rd hw REG_GPIO_INTSTA h;
          h = (if ulIntStatus AND gp_shl hw 0x1 (unat index) \<noteq> 0
               then gpio_modify hw REG_GPIO_INTSTA (\<lambda>v. v OR gp_shl hw 0x1 (unat index)) h else h)
      in clear_status hw index n h)"

definition gpio_int_enable :: "'h gpio_hw \<Rightarrow> u32 \<Rightarrow> u32 \<Rightarrow> gfunc option \<Rightarrow> 'h gpios \<Rightarrow> 'h gpios option" where
  "gpio_int_enable hw index mode p_Int_Handler s =
     (let s = log_gpio [GpioRegisterIsr, GpioIcuEnable IRQ_GPIO_BIT] s
      in if GPIONUM \<le> unat index then Some s
         else do {
           let mode = mode AND 0x03;
           let h = gpio_config hw index
                     (if mode = 0 \<or> mode = 3 then GMODE_INPUT_PULLUP else GMODE_INPUT_PULLDOWN) (gp_hw s);
           let h = set_trigger hw index mode h;
           let h = gpio_modify hw REG_GPIO_INTEN (\<lambda>v. v OR gp_shl hw 0x01 (unat index)) h;
           let h = clear_status hw index 250 h;
           fs \<leftarrow> aset (p_gpio_intr_handler s) (unat index) p_Int_Handler;
           Some (s\<lparr>gp_hw := h, p_gpio_intr_handler := fs\<rparr>)
         })"

definition gpio_int_config :: "'h gpio_hw \<Rightarrow> u32 \<Rightarrow> u32 \<Rightarrow> gfunc option \<Rightarrow> 'h gpios \<Rightarrow> 'h gpios option" where
  "gpio_int_config hw index mode p_Int_Handler s =
     (let s = log_gpio [GpioRegisterIsr, GpioIcuEnable IRQ_GPIO_BIT] s
      in if GPIONUM \<le> unat index then Some s
         else do {
           let h = set_trigger hw index mode (gp_hw s);
           fs \<leftarrow> aset (p_gpio_intr_handler s) (unat index) p_Int_Handler;
           let h = gpio_modify hw REG_GPIO_INTEN (\<lambda>v. v OR gp_shl hw 0x01 (unat index)) h;
           Some (s\<lparr>gp_hw := h, p_gpio_intr_handler := fs\<rparr>)
         })"

section \<open>The commands of the driver\<close>

definition GPIO_CFG_PARAM :: "u32 \<Rightarrow> u32 \<Rightarrow> u32" where
  "GPIO_CFG_PARAM i mode = i + push_bit 8 (mode AND 0xff)"

definition GPIO_CFG_PARAM_DEMUX_ID :: "u32 \<Rightarrow> u32" where
  "GPIO_CFG_PARAM_DEMUX_ID param = param AND 0xff"

definition GPIO_CFG_PARAM_DEMUX_MODE :: "u32 \<Rightarrow> u32" where
  "GPIO_CFG_PARAM_DEMUX_MODE param = drop_bit 8 param AND 0xff"

definition GPIO_OUTPUT_PARAM :: "u32 \<Rightarrow> u32 \<Rightarrow> u32" where
  "GPIO_OUTPUT_PARAM i val = i + push_bit 8 (val AND 0xff)"

definition GPIO_OUTPUT_DEMUX_ID :: "u32 \<Rightarrow> u32" where
  "GPIO_OUTPUT_DEMUX_ID param = param AND 0xff"

definition GPIO_OUTPUT_DEMUX_VAL :: "u32 \<Rightarrow> u32" where
  "GPIO_OUTPUT_DEMUX_VAL param = drop_bit 8 param AND 0xff"

record gpio_int_st =
  gi_id :: u32
  gi_mode :: u32
  gi_phandler :: "gfunc option"

text \<open>The commands with what their parameter points to.\<close>

datatype gpio_cmd =
    CMD_GPIO_CFG u32
  | CMD_GPIO_OUTPUT_REVERSE u32
  | CMD_GPIO_ENABLE_SECOND u32
  | CMD_GPIO_INPUT u32
  | CMD_GPIO_OUTPUT u32
  | CMD_GPIO_CLR_DPLL_UNLOOK_INT
  | CMD_GPIO_EN_DPLL_UNLOOK_INT u32
  | CMD_GPIO_INT_ENABLE gpio_int_st
  | CMD_GPIO_INT_DISABLE u32
  | CMD_GPIO_INT_CONFIG gpio_int_st
  | CMD_GPIO_INT_CLEAR

definition dpll_int :: "'h gpio_hw \<Rightarrow> u32 \<Rightarrow> 'h \<Rightarrow> 'h" where
  "dpll_int hw enable h =
     gpio_modify hw REG_GPIO_DPLL_UNLOCK
       (\<lambda>reg. let reg = reg AND NOT GPIO_EXTRAL_INT_MASK
              in if enable \<noteq> 0 then reg OR DPLL_UNLOCK_INT_EN else reg AND NOT DPLL_UNLOCK_INT_EN) h"

definition gpio_ctrl :: "'h gpio_hw \<Rightarrow> gpio_cmd \<Rightarrow> 'h gpios \<Rightarrow> (u32 \<times> 'h gpios) option" where
  "gpio_ctrl hw cmd s =
     (let run = \<lambda>f. Some (GPIO_SUCCESS, s\<lparr>gp_hw := f (gp_hw s)\<rparr>)
      in case cmd of
           CMD_GPIO_CFG p \<Rightarrow> run (gpio_config hw (GPIO_CFG_PARAM_DEMUX_ID p) (GPIO_CFG_PARAM_DEMUX_MODE p))
         | CMD_GPIO_OUTPUT_REVERSE p \<Rightarrow> run (gpio_output_reverse hw p)
         | CMD_GPIO_OUTPUT p \<Rightarrow> run (gpio_output hw (GPIO_OUTPUT_DEMUX_ID p) (GPIO_OUTPUT_DEMUX_VAL p))
         | CMD_GPIO_INPUT p \<Rightarrow> (let (val, h) = gpio_input hw p (gp_hw s) in Some (val, s\<lparr>gp_hw := h\<rparr>))
         | CMD_GPIO_ENABLE_SECOND p \<Rightarrow> run (gpio_enable_second_function hw p)
         | CMD_GPIO_CLR_DPLL_UNLOOK_INT \<Rightarrow> run (gp_wr hw REG_GPIO_DPLL_UNLOCK 0x1)
         | CMD_GPIO_EN_DPLL_UNLOOK_INT p \<Rightarrow> run (dpll_int hw p)
         | CMD_GPIO_INT_ENABLE p \<Rightarrow>
             map_option (Pair GPIO_SUCCESS) (gpio_int_enable hw (gi_id p) (gi_mode p) (gi_phandler p) s)
         | CMD_GPIO_INT_DISABLE p \<Rightarrow> run (gpio_int_disable hw p)
         | CMD_GPIO_INT_CONFIG p \<Rightarrow>
             map_option (Pair GPIO_SUCCESS) (gpio_int_config hw (gi_id p) (gi_mode p) (gi_phandler p) s)
         | CMD_GPIO_INT_CLEAR \<Rightarrow> Some (GPIO_SUCCESS, s))"

definition gpio_init :: "'h gpios \<Rightarrow> 'h gpios" where
  "gpio_init s = log_gpio [GpioRegisterDev] s"

definition gpio_exit :: "'h gpios \<Rightarrow> 'h gpios" where
  "gpio_exit s = log_gpio [GpioUnregisterDev] s"

text \<open>The inline functions assert that the command succeeded, but for the input.\<close>

definition gpio_asserted :: "'h gpio_hw \<Rightarrow> gpio_cmd \<Rightarrow> 'h gpios \<Rightarrow> 'h gpios option" where
  "gpio_asserted hw cmd s = do { (ret, s) \<leftarrow> gpio_ctrl hw cmd s; if ret = GPIO_SUCCESS then Some s else None }"

definition bk_gpio_config_input :: "'h gpio_hw \<Rightarrow> u32 \<Rightarrow> 'h gpios \<Rightarrow> 'h gpios option" where
  "bk_gpio_config_input hw i s = gpio_asserted hw (CMD_GPIO_CFG (GPIO_CFG_PARAM i GMODE_INPUT)) s"

definition bk_gpio_config_input_pup :: "'h gpio_hw \<Rightarrow> u32 \<Rightarrow> 'h gpios \<Rightarrow> 'h gpios option" where
  "bk_gpio_config_input_pup hw i s = gpio_asserted hw (CMD_GPIO_CFG (GPIO_CFG_PARAM i GMODE_INPUT_PULLUP)) s"

definition bk_gpio_config_input_pdwn :: "'h gpio_hw \<Rightarrow> u32 \<Rightarrow> 'h gpios \<Rightarrow> 'h gpios option" where
  "bk_gpio_config_input_pdwn hw i s = gpio_asserted hw (CMD_GPIO_CFG (GPIO_CFG_PARAM i GMODE_INPUT_PULLDOWN)) s"

definition bk_gpio_config_output :: "'h gpio_hw \<Rightarrow> u32 \<Rightarrow> 'h gpios \<Rightarrow> 'h gpios option" where
  "bk_gpio_config_output hw i s = gpio_asserted hw (CMD_GPIO_CFG (GPIO_CFG_PARAM i GMODE_OUTPUT)) s"

definition bk_gpio_input :: "'h gpio_hw \<Rightarrow> u32 \<Rightarrow> 'h gpios \<Rightarrow> (u32 \<times> 'h gpios) option" where
  "bk_gpio_input hw i s = gpio_ctrl hw (CMD_GPIO_INPUT i) s"

definition bk_gpio_output :: "'h gpio_hw \<Rightarrow> u32 \<Rightarrow> u32 \<Rightarrow> 'h gpios \<Rightarrow> 'h gpios option" where
  "bk_gpio_output hw i val s = gpio_asserted hw (CMD_GPIO_OUTPUT (GPIO_OUTPUT_PARAM i val)) s"

definition bk_gpio_output_reverse :: "'h gpio_hw \<Rightarrow> u32 \<Rightarrow> 'h gpios \<Rightarrow> 'h gpios option" where
  "bk_gpio_output_reverse hw i s = gpio_asserted hw (CMD_GPIO_OUTPUT_REVERSE i) s"

section \<open>The interface of the SDK\<close>

datatype pin_config = INPUT_PULL_UP | INPUT_PULL_DOWN | INPUT_NORMAL | OUTPUT_NORMAL | GPIO_SECOND_FNNC

definition pin_config_mode :: "pin_config \<Rightarrow> u32" where
  "pin_config_mode c =
     (case c of INPUT_PULL_UP \<Rightarrow> GMODE_INPUT_PULLUP | INPUT_PULL_DOWN \<Rightarrow> GMODE_INPUT_PULLDOWN
      | INPUT_NORMAL \<Rightarrow> GMODE_INPUT | OUTPUT_NORMAL \<Rightarrow> GMODE_OUTPUT | GPIO_SECOND_FNNC \<Rightarrow> GMODE_SECOND_FUNC)"

definition BkGpioInitialize :: "'h gpio_hw \<Rightarrow> u32 \<Rightarrow> pin_config \<Rightarrow> 'h gpios \<Rightarrow> 'h gpios option" where
  "BkGpioInitialize hw gpio configuration s =
     gpio_asserted hw (CMD_GPIO_CFG (GPIO_CFG_PARAM gpio (pin_config_mode configuration))) s"

definition BkGpioFinalize :: "'h gpio_hw \<Rightarrow> u32 \<Rightarrow> 'h gpios \<Rightarrow> 'h gpios option" where
  "BkGpioFinalize hw gpio s = BkGpioInitialize hw gpio INPUT_NORMAL s"

definition BkGpioOutputHigh :: "'h gpio_hw \<Rightarrow> u32 \<Rightarrow> 'h gpios \<Rightarrow> 'h gpios option" where
  "BkGpioOutputHigh hw gpio s = bk_gpio_output hw gpio 1 s"

definition BkGpioOutputLow :: "'h gpio_hw \<Rightarrow> u32 \<Rightarrow> 'h gpios \<Rightarrow> 'h gpios option" where
  "BkGpioOutputLow hw gpio s = bk_gpio_output hw gpio 0 s"

definition BkGpioOutputTrigger :: "u32 \<Rightarrow> 'h gpios \<Rightarrow> 'h gpios" where
  "BkGpioOutputTrigger gpio s = s"

definition BkGpioInputGet :: "'h gpio_hw \<Rightarrow> u32 \<Rightarrow> 'h gpios \<Rightarrow> (bool \<times> 'h gpios) option" where
  "BkGpioInputGet hw gpio s = map_option (apfst (\<lambda>v. v \<noteq> 0)) (bk_gpio_input hw gpio s)"

datatype irq_trigger =
  IRQ_TRIGGER_LOW_LEVEL | IRQ_TRIGGER_HGIH_LEVEL | IRQ_TRIGGER_RISING_EDGE | IRQ_TRIGGER_FALLING_EDGE

definition trigger_code :: "irq_trigger \<Rightarrow> u32" where
  "trigger_code t =
     (case t of IRQ_TRIGGER_LOW_LEVEL \<Rightarrow> 0 | IRQ_TRIGGER_HGIH_LEVEL \<Rightarrow> 1
      | IRQ_TRIGGER_RISING_EDGE \<Rightarrow> 2 | IRQ_TRIGGER_FALLING_EDGE \<Rightarrow> 3)"

definition BkGpioEnableIRQ ::
  "'h gpio_hw \<Rightarrow> u32 \<Rightarrow> irq_trigger \<Rightarrow> gfunc option \<Rightarrow> 'h gpios \<Rightarrow> (u32 \<times> 'h gpios) option" where
  "BkGpioEnableIRQ hw gpio trigger handler s =
     gpio_ctrl hw (CMD_GPIO_INT_ENABLE \<lparr>gi_id = gpio, gi_mode = trigger_code trigger, gi_phandler = handler\<rparr>) s"

definition BkGpioIntConfig ::
  "'h gpio_hw \<Rightarrow> u32 \<Rightarrow> irq_trigger \<Rightarrow> gfunc option \<Rightarrow> 'h gpios \<Rightarrow> (u32 \<times> 'h gpios) option" where
  "BkGpioIntConfig hw gpio trigger handler s =
     gpio_ctrl hw (CMD_GPIO_INT_CONFIG \<lparr>gi_id = gpio, gi_mode = trigger_code trigger, gi_phandler = handler\<rparr>) s"

definition BkGpioDisableIRQ :: "'h gpio_hw \<Rightarrow> u32 \<Rightarrow> 'h gpios \<Rightarrow> (u32 \<times> 'h gpios) option" where
  "BkGpioDisableIRQ hw gpio s = gpio_ctrl hw (CMD_GPIO_INT_DISABLE gpio) s"

text \<open>The mode is shifted into the parameter whatever the command.\<close>

definition BKGpioOp :: "'h gpio_hw \<Rightarrow> char \<Rightarrow> u32 \<Rightarrow> char \<Rightarrow> 'h gpios \<Rightarrow> (u32 \<times> 'h gpios) option" where
  "BKGpioOp hw cmd i mode s =
     (let mode_set = (if mode = CHR ''0'' then GMODE_INPUT_PULLDOWN
                      else if mode = CHR ''1'' then GMODE_OUTPUT
                      else if mode = CHR ''2'' then GMODE_INPUT_PULLUP
                      else GMODE_INPUT);
          mode_set = push_bit 8 mode_set OR i
      in gpio_ctrl hw
           (if cmd = CHR ''0'' then CMD_GPIO_CFG mode_set
            else if cmd = CHR ''1'' then CMD_GPIO_INPUT mode_set
            else if cmd = CHR ''2'' then CMD_GPIO_OUTPUT mode_set
            else CMD_GPIO_OUTPUT_REVERSE mode_set) s)"

definition BKGpioIntcEn ::
  "'h gpio_hw \<Rightarrow> u8 \<Rightarrow> u8 \<Rightarrow> irq_trigger \<Rightarrow> gfunc option \<Rightarrow> 'h gpios \<Rightarrow> 'h gpios option" where
  "BKGpioIntcEn hw cmd i mode p_handle s =
     map_option snd
       (if cmd = 1 then BkGpioEnableIRQ hw (ucast i) mode p_handle s else BkGpioDisableIRQ hw (ucast i) s)"

section \<open>The interface of TuyaOS\<close>

definition gpios_boot :: "'h \<Rightarrow> 'h gpios" where
  "gpios_boot h = \<lparr>gp_hw = h, p_gpio_intr_handler = replicate GPIONUM None,
     pinmap = map (\<lambda>i. \<lparr>pd_gpio = of_nat i, pd_cb = 0, pd_args = 0\<rparr>) [0..<40], gp_log = []\<rparr>"

datatype gpio_level = TUYA_GPIO_LEVEL_LOW | TUYA_GPIO_LEVEL_HIGH

text \<open>\<open>TUYA_GPIO_DRCT_OTHER\<close> stands for the values that the enumeration does not name.\<close>

datatype gpio_drct = TUYA_GPIO_INPUT | TUYA_GPIO_OUTPUT | TUYA_GPIO_DRCT_OTHER

datatype gpio_mode =
    TUYA_GPIO_PULLUP | TUYA_GPIO_PULLDOWN | TUYA_GPIO_HIGH_IMPEDANCE | TUYA_GPIO_FLOATING
  | TUYA_GPIO_PUSH_PULL | TUYA_GPIO_OPENDRAIN | TUYA_GPIO_OPENDRAIN_PULLUP

record gpio_base_cfg =
  gc_mode :: gpio_mode
  gc_direct :: gpio_drct
  gc_level :: gpio_level

datatype gpio_irq = TUYA_GPIO_IRQ_RISE | TUYA_GPIO_IRQ_FALL | TUYA_GPIO_IRQ_RISE_FALL | TUYA_GPIO_IRQ_LOW | TUYA_GPIO_IRQ_HIGH

record gpio_irq_cfg =
  gq_mode :: gpio_irq
  gq_cb :: nat
  gq_arg :: nat

definition tkl_gpio_init :: "'h gpio_hw \<Rightarrow> u32 \<Rightarrow> gpio_base_cfg \<Rightarrow> 'h gpios \<Rightarrow> (oprt \<times> 'h gpios) option" where
  "tkl_gpio_init hw pin_id cfg s =
     (let run = \<lambda>bk_gpio_cfg. do {
            m \<leftarrow> aget (pinmap s) (unat pin_id);
            s \<leftarrow> BkGpioInitialize hw (pd_gpio m) bk_gpio_cfg s;
            s \<leftarrow> (if gc_direct cfg = TUYA_GPIO_OUTPUT
                  then if gc_level cfg = TUYA_GPIO_LEVEL_LOW then BkGpioOutputLow hw (pd_gpio m) s
                       else BkGpioOutputHigh hw (pd_gpio m) s
                  else Some s);
            Some (OPRT_OK, s)
          }
      in case gc_direct cfg of
           TUYA_GPIO_INPUT \<Rightarrow>
             run (if gc_mode cfg = TUYA_GPIO_PULLUP then INPUT_PULL_UP
                  else if gc_mode cfg = TUYA_GPIO_PULLDOWN then INPUT_PULL_DOWN
                  else INPUT_NORMAL)
         | TUYA_GPIO_OUTPUT \<Rightarrow> run OUTPUT_NORMAL
         | TUYA_GPIO_DRCT_OTHER \<Rightarrow> Some (OPRT_NOT_SUPPORTED, s))"

definition tkl_gpio_deinit :: "u32 \<Rightarrow> 'h gpios \<Rightarrow> (oprt \<times> 'h gpios) option" where
  "tkl_gpio_deinit pin_id s = Some (OPRT_OK, s)"

text \<open>\<^verbatim>\<open>PIN_DEV_CHECK_ERROR_RETURN\<close> compares with the number of entries of the table.\<close>

definition tkl_gpio_write :: "'h gpio_hw \<Rightarrow> u32 \<Rightarrow> gpio_level \<Rightarrow> 'h gpios \<Rightarrow> (oprt \<times> 'h gpios) option" where
  "tkl_gpio_write hw pin_id level s =
     (if length (pinmap s) \<le> unat pin_id then Some (OPRT_INVALID_PARM, s)
      else do {
        m \<leftarrow> aget (pinmap s) (unat pin_id);
        s \<leftarrow> (if level = TUYA_GPIO_LEVEL_HIGH then BkGpioOutputHigh hw (pd_gpio m) s
              else BkGpioOutputLow hw (pd_gpio m) s);
        Some (OPRT_OK, s)
      })"

definition tkl_gpio_read :: "'h gpio_hw \<Rightarrow> u32 \<Rightarrow> 'h gpios \<Rightarrow> (oprt \<times> gpio_level option \<times> 'h gpios) option" where
  "tkl_gpio_read hw pin_id s =
     (if length (pinmap s) \<le> unat pin_id then Some (OPRT_INVALID_PARM, None, s)
      else do {
        m \<leftarrow> aget (pinmap s) (unat pin_id);
        (high, s) \<leftarrow> BkGpioInputGet hw (pd_gpio m) s;
        Some (OPRT_OK, Some (if high then TUYA_GPIO_LEVEL_HIGH else TUYA_GPIO_LEVEL_LOW), s)
      })"

definition irq_trigger_of :: "gpio_irq \<Rightarrow> irq_trigger option" where
  "irq_trigger_of m =
     (case m of TUYA_GPIO_IRQ_RISE \<Rightarrow> Some IRQ_TRIGGER_RISING_EDGE
      | TUYA_GPIO_IRQ_FALL \<Rightarrow> Some IRQ_TRIGGER_FALLING_EDGE
      | TUYA_GPIO_IRQ_LOW \<Rightarrow> Some IRQ_TRIGGER_LOW_LEVEL
      | TUYA_GPIO_IRQ_HIGH \<Rightarrow> Some IRQ_TRIGGER_HGIH_LEVEL
      | TUYA_GPIO_IRQ_RISE_FALL \<Rightarrow> None)"

definition tkl_gpio_irq_init :: "'h gpio_hw \<Rightarrow> u32 \<Rightarrow> gpio_irq_cfg option \<Rightarrow> 'h gpios \<Rightarrow> (oprt \<times> 'h gpios) option" where
  "tkl_gpio_irq_init hw pin_id cfg s =
     (if 40 \<le> pin_id then Some (OPRT_NOT_SUPPORTED, s)
      else case cfg of
        None \<Rightarrow> Some (OPRT_INVALID_PARM, s)
      | Some c \<Rightarrow> (case irq_trigger_of (gq_mode c) of
          None \<Rightarrow> Some (OPRT_NOT_SUPPORTED, s)
        | Some trigger \<Rightarrow> do {
            m \<leftarrow> aget (pinmap s) (unat pin_id);
            ms \<leftarrow> aset (pinmap s) (unat pin_id) (m\<lparr>pd_cb := gq_cb c, pd_args := gq_arg c\<rparr>);
            (ret, s) \<leftarrow> BkGpioEnableIRQ hw (pd_gpio m) trigger (Some TklGpioCb) (s\<lparr>pinmap := ms\<rparr>);
            Some (OPRT_OK, s)
          }))"

definition tkl_gpio_irq_enable :: "u32 \<Rightarrow> 'h gpios \<Rightarrow> (oprt \<times> 'h gpios) option" where
  "tkl_gpio_irq_enable pin_id s =
     (if length (pinmap s) \<le> unat pin_id then Some (OPRT_INVALID_PARM, s) else Some (OPRT_OK, s))"

definition tkl_gpio_irq_disable :: "'h gpio_hw \<Rightarrow> u32 \<Rightarrow> 'h gpios \<Rightarrow> (oprt \<times> 'h gpios) option" where
  "tkl_gpio_irq_disable hw pin_id s =
     (if length (pinmap s) \<le> unat pin_id then Some (OPRT_INVALID_PARM, s)
      else do {
        m \<leftarrow> aget (pinmap s) (unat pin_id);
        (ret, s) \<leftarrow> BkGpioDisableIRQ hw (pd_gpio m) s;
        Some (OPRT_OK, s)
      })"

section \<open>Ports and channels of the pins\<close>

datatype pin_type =
    TUYA_IO_TYPE_PWM | TUYA_IO_TYPE_ADC | TUYA_IO_TYPE_DAC | TUYA_IO_TYPE_UART
  | TUYA_IO_TYPE_SPI | TUYA_IO_TYPE_I2C | TUYA_IO_TYPE_I2S | TUYA_IO_TYPE_GPIO

text \<open>\<open>Inl\<close> is \<^verbatim>\<open>OPRT_NOT_SUPPORTED\<close> in place of a port and a channel.\<close>

definition tkl_io_pin_to_func :: "u32 \<Rightarrow> pin_type \<Rightarrow> oprt + nat" where
  "tkl_io_pin_to_func pin ty =
     (case ty of
        TUYA_IO_TYPE_PWM \<Rightarrow>
          if pin = 6 then Inr 0 else if pin = 7 then Inr 1 else if pin = 8 then Inr 2
          else if pin = 9 then Inr 3 else if pin = 24 then Inr 4 else if pin = 26 then Inr 5
          else Inl OPRT_NOT_SUPPORTED
      | TUYA_IO_TYPE_ADC \<Rightarrow>
          if pin = 26 then Inr 0 else if pin = 24 then Inr 1 else if pin = 23 then Inr 2
          else if pin = 28 then Inr 3 else if pin = 22 then Inr 4 else if pin = 21 then Inr 5
          else Inl OPRT_NOT_SUPPORTED
      | TUYA_IO_TYPE_SPI \<Rightarrow> if 11 \<le> pin \<or> pin \<le> 14 then Inr 0 else Inl OPRT_NOT_SUPPORTED
      | TUYA_IO_TYPE_I2C \<Rightarrow>
          if pin = 19 \<or> pin = 20 then Inr 0 else if pin = 28 \<or> pin = 29 then Inr 1
          else Inl OPRT_NOT_SUPPORTED
      | _ \<Rightarrow> Inl OPRT_NOT_SUPPORTED)"

definition tkl_multi_io_pinmux_config :: "'c list \<Rightarrow> oprt" where
  "tkl_multi_io_pinmux_config cfg = OPRT_NOT_SUPPORTED"

end
