(* ===== verification/GpioFlow.thy ===== *)
theory GpioFlow
  imports Gpio
begin

text \<open>
  What the pins of TuyaOS do. \<open>gpio_chip\<close> states what the driver relies on: the registers store what
  is written, the lowest bit of the configuration of a pin is the level at it, and a pending bit is
  cleared by writing a one to it. Below, the stack implements forty pins with a configuration, an
  output level, a function and an interrupt.
\<close>

section \<open>The controller\<close>

text \<open>The stored registers by their number, the levels at the pins and the pending bits.\<close>

record gview =
  g_reg :: "nat \<Rightarrow> u32"
  g_level :: "nat \<Rightarrow> bool"
  g_sta :: u32

definition gpio_reg :: "nat \<Rightarrow> u32" where
  "gpio_reg n = GPIO_BASE_ADDR + of_nat n * 4"

text \<open>The register of a pin, and the pin of a register.\<close>

definition pin_reg :: "nat \<Rightarrow> nat" where "pin_reg p = (if p < 32 then p else p + 16)"
definition reg_pin :: "nat \<Rightarrow> nat" where "reg_pin n = (if n < 32 then n else n - 16)"
definition is_pin_reg :: "nat \<Rightarrow> bool" where "is_pin_reg n \<longleftrightarrow> n < 32 \<or> 48 \<le> n"

definition reg_word :: "gview \<Rightarrow> nat \<Rightarrow> u32" where
  "reg_word v n =
     (if n = 36 then g_sta v
      else if is_pin_reg n then g_reg v n AND NOT 1 OR of_bool (g_level v (reg_pin n))
      else g_reg v n)"

definition reg_write :: "nat \<Rightarrow> u32 \<Rightarrow> gview \<Rightarrow> gview" where
  "reg_write n x v =
     (if n = 36 then v\<lparr>g_sta := g_sta v AND NOT x\<rparr> else v\<lparr>g_reg := (g_reg v)(n := x)\<rparr>)"

text \<open>A shift by 32 or more gives 0, as the shifts of the ARM by a register do (up to 255).\<close>

definition gpio_chip :: "'h gpio_hw \<Rightarrow> ('h \<Rightarrow> gview) \<Rightarrow> bool" where
  "gpio_chip hw view \<longleftrightarrow>
     (\<forall>n < 56. \<forall>h. fst (gp_rd hw (gpio_reg n) h) = reg_word (view h) n \<and> view (snd (gp_rd hw (gpio_reg n) h)) = view h) \<and>
     (\<forall>n < 56. \<forall>h x. view (gp_wr hw (gpio_reg n) x h) = reg_write n x (view h)) \<and>
     (\<forall>x. \<forall>k < 256. gp_shl hw x k = (if k < 32 then push_bit k x else 0))"

lemma gpio_chipD:
  assumes "gpio_chip hw view"
  shows "n < 56 \<Longrightarrow> fst (gp_rd hw (gpio_reg n) h) = reg_word (view h) n"
    and "n < 56 \<Longrightarrow> view (snd (gp_rd hw (gpio_reg n) h)) = view h"
    and "n < 56 \<Longrightarrow> view (gp_wr hw (gpio_reg n) x h) = reg_write n x (view h)"
    and "k < 256 \<Longrightarrow> gp_shl hw x k = (if k < 32 then push_bit k x else 0)"
  using assms unfolding gpio_chip_def by blast+

lemma gpio_regs:
  "REG_GPIO_FUNC_CFG = gpio_reg 32" "REG_GPIO_INTEN = gpio_reg 33" "REG_GPIO_INTLV0 = gpio_reg 34"
  "REG_GPIO_INTLV1 = gpio_reg 35" "REG_GPIO_INTSTA = gpio_reg 36" "REG_GPIO_MODULE_SELECT = gpio_reg 45"
  "REG_GPIO_FUNC_CFG_2 = gpio_reg 46" "REG_GPIO_FUNC_CFG_3 = gpio_reg 47"
  by (simp_all add: gpio_reg_def REG_GPIO_FUNC_CFG_def REG_GPIO_INTEN_def REG_GPIO_INTLV0_def REG_GPIO_INTLV1_def
      REG_GPIO_INTSTA_def REG_GPIO_MODULE_SELECT_def REG_GPIO_FUNC_CFG_2_def REG_GPIO_FUNC_CFG_3_def)

lemma gpio_cfg_addr_reg:
  assumes "unat i < 40"
  shows "gpio_cfg_addr i = gpio_reg (pin_reg (unat i))"
  using assms
  by (simp add: gpio_cfg_addr_def gpio_reg_def pin_reg_def REG_GPIO_CFG_BASE_ADDR_def GPIO32_def Let_def word_le_nat_alt)

lemma pin_reg_simps:
  "p < 40 \<Longrightarrow> pin_reg p < 56" "p < 40 \<Longrightarrow> reg_pin (pin_reg p) = p" "p < 40 \<Longrightarrow> is_pin_reg (pin_reg p)"
  "p < 40 \<Longrightarrow> pin_reg p \<noteq> 36"
  "p < 40 \<Longrightarrow> q < 40 \<Longrightarrow> pin_reg p = pin_reg q \<longleftrightarrow> p = q"
  by (auto simp: pin_reg_def reg_pin_def is_pin_reg_def)

text \<open>A register that is read, changed and written.\<close>

lemma modify_view:
  assumes "gpio_chip hw view" and "n < 56"
  shows "view (gpio_modify hw (gpio_reg n) f h) = reg_write n (f (reg_word (view h) n)) (view h)"
proof -
  obtain v k where r: "gp_rd hw (gpio_reg n) h = (v, k)" by fastforce
  then have "v = reg_word (view h) n" "view k = view h" using gpio_chipD(1,2) [OF assms, of h] by simp_all
  then show ?thesis using gpio_chipD(3) [OF assms, of "f v" k] by (simp add: gpio_modify_def r)
qed

section \<open>Forty pins\<close>

record pin =
  pn_config :: u32
  pn_out :: bool
  pn_level :: bool
  pn_func :: u32
  pn_irq :: bool
  pn_trigger :: u32
  pn_pending :: bool
  pn_handler :: "gfunc option"
  pn_cb :: nat
  pn_args :: nat

text \<open>The two bits of a pin in three or two registers of sixteen pins each; the interrupts of the
  pins from 32 on have no bits.\<close>

definition field2 :: "u32 \<Rightarrow> nat \<Rightarrow> u32" where
  "field2 w k = drop_bit (2 * k) w AND 3"

definition func_at :: "gview \<Rightarrow> nat \<Rightarrow> u32" where
  "func_at v p =
     (if p < 16 then field2 (g_reg v 32) p else if p < 32 then field2 (g_reg v 46) (p - 16)
      else field2 (g_reg v 47) (p - 32))"

definition trigger_at :: "gview \<Rightarrow> nat \<Rightarrow> u32" where
  "trigger_at v p =
     (if p < 16 then field2 (g_reg v 34) p else if p < 32 then field2 (g_reg v 35) (p - 16) else 0)"

definition pin_of :: "('h \<Rightarrow> gview) \<Rightarrow> 'h gpios \<Rightarrow> nat \<Rightarrow> pin" where
  "pin_of view s p =
     (let v = view (gp_hw s)
      in \<lparr>pn_config = g_reg v (pin_reg p) AND NOT 3, pn_out = bit (g_reg v (pin_reg p)) 1, pn_level = g_level v p,
          pn_func = func_at v p, pn_irq = bit (g_reg v 33) p, pn_trigger = trigger_at v p, pn_pending = bit (g_sta v) p,
          pn_handler = p_gpio_intr_handler s ! p, pn_cb = pd_cb (pinmap s ! p), pn_args = pd_args (pinmap s ! p)\<rparr>)"

definition pins :: "('h \<Rightarrow> gview) \<Rightarrow> 'h gpios \<Rightarrow> pin list" where
  "pins view s = map (pin_of view s) [0..<40]"

definition gpios_ok :: "'h gpios \<Rightarrow> bool" where
  "gpios_ok s \<longleftrightarrow> length (p_gpio_intr_handler s) = 40 \<and> length (pinmap s) = 40 \<and>
     (\<forall>p < 40. pd_gpio (pinmap s ! p) = of_nat p)"

lemma length_pins [simp]: "length (pins view s) = 40"
  by (simp add: pins_def)

lemma nth_pins: "p < 40 \<Longrightarrow> pins view s ! p = pin_of view s p"
  by (simp add: pins_def)

lemma pins_eqI:
  assumes "length xs = 40" and "\<And>p. p < 40 \<Longrightarrow> pin_of view s p = xs ! p"
  shows "pins view s = xs"
  using assms by (intro nth_equalityI) (auto simp: nth_pins)

lemma pins_update:
  assumes "\<And>q. q < 40 \<Longrightarrow> pin_of view t q = (if q = p then x else pin_of view s q)"
  shows "pins view t = (pins view s)[p := x]"
  using assms by (intro pins_eqI) (auto simp: nth_pins nth_list_update)

section \<open>Configuration and output\<close>

lemma low_bits: "bit (3 :: u32) k \<longleftrightarrow> k < 2" "bit (1 :: u32) k \<longleftrightarrow> k = 0" "bit (2 :: u32) k \<longleftrightarrow> k = 1"
proof -
  have m: "(3 :: u32) = mask 2" by (simp add: mask_eq_exp_minus_1)
  show "bit (3 :: u32) k \<longleftrightarrow> k < 2" unfolding m by (auto simp: bit_mask_iff)
  show "bit (1 :: u32) k \<longleftrightarrow> k = 0" by (simp add: bit_1_iff)
  show "bit (2 :: u32) k \<longleftrightarrow> k = 1" using bit_exp_iff [of 1 k, where ?'a = u32] by auto
qed

lemma low_bits_int: "bit (3 :: int) k \<longleftrightarrow> k < 2" "bit (2 :: int) k \<longleftrightarrow> k = 1"
proof -
  have m: "(3 :: int) = mask 2" by (simp add: mask_eq_exp_minus_1)
  show "bit (3 :: int) k \<longleftrightarrow> k < 2" unfolding m by (auto simp: bit_mask_iff)
  show "bit (2 :: int) k \<longleftrightarrow> k = 1" using bit_exp_iff [of 1 k, where ?'a = int] by auto
qed

definition mode_config :: "u32 \<Rightarrow> nat \<Rightarrow> pin list \<Rightarrow> pin list" where
  "mode_config mode p xs =
     (case gpio_mode_value mode of
        None \<Rightarrow> xs
      | Some val \<Rightarrow> xs[p := (xs ! p)\<lparr>pn_config := val, pn_out := False\<rparr>])"

definition spec_output :: "bool \<Rightarrow> nat \<Rightarrow> pin list \<Rightarrow> pin list" where
  "spec_output b p xs = xs[p := (xs ! p)\<lparr>pn_out := b\<rparr>]"

lemma mode_value_bits:
  assumes "gpio_mode_value mode = Some val"
  shows "val AND NOT 3 = val" and "\<not> bit val 1"
  using assms by (auto simp: gpio_mode_value_def bit_iff_and_push_bit_not_eq_0 split: if_splits)

lemma view_cfg_write:
  assumes "gpio_chip hw view" and "unat i < 40"
  shows "view (gp_wr hw (gpio_cfg_addr i) x h) = (view h)\<lparr>g_reg := (g_reg (view h))(pin_reg (unat i) := x)\<rparr>"
  using gpio_chipD(3) [OF assms(1) pin_reg_simps(1) [OF assms(2)], of x h] pin_reg_simps(4) [OF assms(2)]
  by (simp add: gpio_cfg_addr_reg [OF assms(2)] reg_write_def)

text \<open>Writing the configuration of one pin leaves the others and the rest of this one alone.\<close>

lemma pin_reg_apart:
  assumes "p < 40"
  shows "pin_reg p \<noteq> 32" "pin_reg p \<noteq> 33" "pin_reg p \<noteq> 34" "pin_reg p \<noteq> 35" "pin_reg p \<noteq> 45" "pin_reg p \<noteq> 46" "pin_reg p \<noteq> 47"
  using assms by (auto simp: pin_reg_def)

lemma pins_cfg_write:
  assumes p: "p < 40" and v: "view h' = (view (gp_hw s))\<lparr>g_reg := (g_reg (view (gp_hw s)))(pin_reg p := x)\<rparr>"
  shows "pins view (s\<lparr>gp_hw := h'\<rparr>) = (pins view s)[p := (pins view s ! p)\<lparr>pn_config := x AND NOT 3, pn_out := bit x 1\<rparr>]"
  using pin_reg_apart [OF p] pin_reg_simps(5) [OF _ p]
  by (intro pins_update) (auto simp: pin_of_def v nth_pins [OF p] func_at_def trigger_at_def Let_def)

lemma config_ok:
  assumes chip: "gpio_chip hw view" and i: "unat i < 40"
  shows "pins view (s\<lparr>gp_hw := gpio_config hw i mode (gp_hw s)\<rparr>) = mode_config mode (unat i) (pins view s)"
    and "g_reg (view (gpio_config hw i mode h)) 45 = g_reg (view h) 45"
proof -
  have e: "gpio_config hw i mode h = (case gpio_mode_value mode of None \<Rightarrow> h | Some val \<Rightarrow> gp_wr hw (gpio_cfg_addr i) val h)" for h
    using i by (simp add: gpio_config_def gpio_ops_filter_def GPIO_FAILURE_def GPIO_SUCCESS_def GPIONUM_def)
  show "pins view (s\<lparr>gp_hw := gpio_config hw i mode (gp_hw s)\<rparr>) = mode_config mode (unat i) (pins view s)"
  proof (cases "gpio_mode_value mode")
    case None
    then show ?thesis by (simp add: e mode_config_def)
  next
    case (Some val)
    then show ?thesis
      using pins_cfg_write [OF i view_cfg_write [OF chip i, of val "gp_hw s"]] mode_value_bits [OF Some]
      by (simp add: e mode_config_def)
  qed
  show "g_reg (view (gpio_config hw i mode h)) 45 = g_reg (view h) 45"
    using pin_reg_apart(5) [OF i] by (cases "gpio_mode_value mode") (simp_all add: e view_cfg_write [OF chip i])
qed

text \<open>The level that is read back is stored under the bit of the level, which has no meaning there.\<close>

lemma output_ok:
  assumes chip: "gpio_chip hw view" and i: "unat i < 40"
  shows "pins view (s\<lparr>gp_hw := gpio_output hw i val (gp_hw s)\<rparr>) = spec_output (bit val 0) (unat i) (pins view s)"
    and "g_reg (view (gpio_output hw i val h)) 45 = g_reg (view h) 45"
proof -
  let ?p = "unat i"
  let ?f = "\<lambda>v :: u32. v AND NOT GCFG_OUTPUT_BIT OR push_bit GCFG_OUTPUT_POS (val AND 0x01)"
  have v: "view (gpio_output hw i val h) = (view h)\<lparr>g_reg := (g_reg (view h))(pin_reg ?p := ?f (reg_word (view h) (pin_reg ?p)))\<rparr>" for h
    using modify_view [OF chip pin_reg_simps(1) [OF i], of ?f h] pin_reg_simps(4) [OF i]
    by (simp add: gpio_output_def gpio_cfg_addr_reg [OF i] gpio_ops_filter_def GPIO_FAILURE_def GPIO_SUCCESS_def reg_write_def)
  have o: "bit (push_bit GCFG_OUTPUT_POS (val AND 0x01)) k \<longleftrightarrow> k = 1 \<and> bit val 0" for k
    unfolding GCFG_OUTPUT_POS_def by (auto simp only: bit_push_bit_iff bit_and_iff low_bits) auto
  have b: "bit GCFG_OUTPUT_BIT k \<longleftrightarrow> k = 1" for k
    unfolding GCFG_OUTPUT_BIT_def by (auto simp only: bit_push_bit_iff low_bits) auto
  have f: "bit (?f w) 1 \<longleftrightarrow> bit val 0" "(?f w) AND NOT 3 = w AND NOT 3" for w :: u32
    by (simp only: bit_and_iff bit_or_iff bit_not_iff o b, simp,
        rule bit_word_eqI, simp only: bit_and_iff bit_or_iff bit_not_iff o b low_bits, auto)
  have w: "reg_word u (pin_reg ?p) AND NOT 3 = g_reg u (pin_reg ?p) AND NOT 3" for u
  proof (rule bit_word_eqI)
    show "bit (reg_word u (pin_reg ?p) AND NOT 3) k \<longleftrightarrow> bit (g_reg u (pin_reg ?p) AND NOT 3) k" for k
      using pin_reg_simps(3,4) [OF i]
      by (simp only: reg_word_def if_True if_False bit_and_iff bit_or_iff bit_not_iff low_bits bit_of_bool_iff) auto
  qed
  show "pins view (s\<lparr>gp_hw := gpio_output hw i val (gp_hw s)\<rparr>) = spec_output (bit val 0) (unat i) (pins view s)"
    using pins_cfg_write [OF i v [of "gp_hw s"]]
    unfolding f w spec_output_def nth_pins [OF i] by (simp add: pin_of_def Let_def)
  show "g_reg (view (gpio_output hw i val h)) 45 = g_reg (view h) 45"
    using pin_reg_apart(5) [OF i] by (simp add: v)
qed

section \<open>Functions\<close>

lemma bit_field2: "bit (field2 w j) n \<longleftrightarrow> n < 2 \<and> bit w (2 * j + n)"
  by (auto simp: field2_def bit_and_iff bit_drop_bit_eq low_bits low_bits_int)

lemma field2_put:
  assumes "k < 16" and "j < 16"
  shows "field2 (w AND NOT (push_bit (2 * k) 3) OR push_bit (2 * k) (m AND 3)) j = (if j = k then m AND 3 else field2 w j)"
proof (rule bit_word_eqI)
  fix n
  show "bit (field2 (w AND NOT (push_bit (2 * k) 3) OR push_bit (2 * k) (m AND 3)) j) n \<longleftrightarrow>
      bit (if j = k then m AND 3 else field2 w j) n"
  proof (cases "n < 2")
    case True
    have "2 * j + n < 32" using assms(2) True by linarith
    moreover have "2 * k \<le> 2 * j + n \<and> 2 * j + n - 2 * k < 2 \<longleftrightarrow> j = k" using True by arith
    ultimately show ?thesis
      using True by (auto simp: bit_field2 bit_and_iff bit_or_iff bit_not_iff bit_push_bit_iff low_bits low_bits_int)
  next
    case False
    then show ?thesis by (simp add: bit_field2 bit_and_iff low_bits low_bits_int)
  qed
qed

text \<open>What the row of a function does to a pin, and the pins it does it to.\<close>

definition pin_function :: "func_vars \<Rightarrow> pin \<Rightarrow> pin" where
  "pin_function r x =
     (let x = x\<lparr>pn_func := pmode r AND 3\<rparr>
      in case gpio_mode_value (config_mode r) of None \<Rightarrow> x | Some val \<Rightarrow> x\<lparr>pn_config := val, pn_out := False\<rparr>)"

definition function_pins :: "gfunc_mode option \<Rightarrow> nat list" where
  "function_pins m =
     (let r = func_switch m
      in filter (\<lambda>i. \<not> (m = Some GFUNC_MODE_DCMI \<and> i = 28)) [start_index r..<end_index r + 1])"

definition row_second :: "u32 \<Rightarrow> pin list \<Rightarrow> pin list" where
  "row_second c xs =
     (let m = gfunc_of c
      in map (\<lambda>p. if p \<in> set (function_pins m) then pin_function (func_switch m) (xs ! p) else xs ! p) [0..<40])"

definition row_module :: "u32 \<Rightarrow> u32 \<Rightarrow> u32" where
  "row_module c w =
     (let r = func_switch (gfunc_of c)
      in if modul_select r \<noteq> GPIO_MODUL_NONE then w AND NOT (pmask r) OR modul_select r else w)"

lemma func_switch_bounds: "end_index (func_switch m) < 40"
  by (simp add: func_switch_def func_vars0_def pins_row_def sd_row_def spi_row_def split: option.split gfunc_mode.split)

lemma func_write_ok:
  assumes chip: "gpio_chip hw view" and p: "p < 40"
  shows "pins view (s\<lparr>gp_hw := (case func_field p of (regist, shift) \<Rightarrow> gpio_modify hw regist
      (\<lambda>reg. reg AND NOT (gp_shl hw 0x3 shift) OR gp_shl hw (m AND 0x3) shift) (gp_hw s))\<rparr>) =
      (pins view s)[p := (pins view s ! p)\<lparr>pn_func := m AND 3\<rparr>]" (is ?A)
    and "g_reg (view (case func_field p of (regist, shift) \<Rightarrow> gpio_modify hw regist
      (\<lambda>reg. reg AND NOT (gp_shl hw 0x3 shift) OR gp_shl hw (m AND 0x3) shift) h)) 45 = g_reg (view h) 45" (is ?B)
proof -
  define n where "n = (if p < 16 then 32 else if p < 32 then 46 else 47 :: nat)"
  define k where "k = (if p < 16 then p else if p < 32 then p - 16 else p - 32)"
  have k: "k < 16" using p by (auto simp: k_def)
  have n: "n < 56" "n \<noteq> 36" "n \<noteq> 33" "n \<noteq> 34" "n \<noteq> 35" "n \<noteq> 45" "\<not> is_pin_reg n" by (auto simp: n_def is_pin_reg_def)
  have apart: "q < 40 \<Longrightarrow> pin_reg q \<noteq> n" for q using pin_reg_simps(3) n(7) by metis
  have f: "func_field p = (gpio_reg n, 2 * k)" by (simp add: func_field_def n_def k_def gpio_regs mult.commute)
  have shl: "gp_shl hw x (2 * k) = push_bit (2 * k) x" for x using gpio_chipD(4) [OF chip, of "2 * k" x] k by simp
  let ?f = "\<lambda>reg. reg AND NOT (push_bit (2 * k) 3) OR push_bit (2 * k) (m AND 3) :: u32"
  have v: "view (gpio_modify hw (gpio_reg n) ?f h) = (view h)\<lparr>g_reg := (g_reg (view h))(n := ?f (g_reg (view h) n))\<rparr>" for h
    using modify_view [OF chip n(1), of ?f h] n by (simp add: reg_write_def reg_word_def)
  have func: "func_at (u\<lparr>g_reg := (g_reg u)(n := ?f (g_reg u n))\<rparr>) q = (if q = p then m AND 3 else func_at u q)"
    if q: "q < 40" for q and u :: gview
  proof -
    have "func_at u q = field2 (g_reg u (if q < 16 then 32 else if q < 32 then 46 else 47)) (if q < 16 then q else if q < 32 then q - 16 else q - 32)"
      for u by (simp add: func_at_def)
    moreover have "(if q < 16 then q else if q < 32 then q - 16 else q - 32) < 16" using q by auto
    moreover have "(if q < 16 then 32 else if q < 32 then 46 else 47) = n \<and>
        (if q < 16 then q else if q < 32 then q - 16 else q - 32) = k \<longleftrightarrow> q = p"
      using p q by (auto simp: n_def k_def split: if_splits)
    ultimately show ?thesis using field2_put [OF k, of _ "g_reg u n" m] by auto
  qed
  let ?t = "s\<lparr>gp_hw := gpio_modify hw (gpio_reg n) ?f (gp_hw s)\<rparr>"
  let ?v = "view (gp_hw s)"
  have "pin_of view ?t q = (if q = p then (pins view s ! p)\<lparr>pn_func := m AND 3\<rparr> else pin_of view s q)"
    if q: "q < 40" for q
  proof -
    have w: "view (gp_hw ?t) = ?v\<lparr>g_reg := (g_reg ?v)(n := ?f (g_reg ?v n))\<rparr>" using v by simp
    have "pin_of view ?t q = (pin_of view s q)\<lparr>pn_func := func_at (view (gp_hw ?t)) q\<rparr>"
      using apart [OF q] n unfolding pin_of_def Let_def w trigger_at_def by (simp del: One_nat_def)
    also have "func_at (view (gp_hw ?t)) q = (if q = p then m AND 3 else func_at ?v q)"
      unfolding w by (rule func [OF q])
    finally show ?thesis by (simp add: nth_pins [OF p] pin_of_def Let_def)
  qed
  then show ?A by (simp only: f prod.case shl) (rule pins_update, simp)
  show ?B unfolding f prod.case shl v using n(6) by simp
qed

lemma func_pin_ok:
  assumes chip: "gpio_chip hw view" and p: "p < 40"
  shows "pins view (s\<lparr>gp_hw := func_pin hw m r p (gp_hw s)\<rparr>) =
      (if m = Some GFUNC_MODE_DCMI \<and> p = 28 then pins view s
       else (pins view s)[p := pin_function r (pins view s ! p)])"
    and "g_reg (view (func_pin hw m r p h)) 45 = g_reg (view h) 45"
proof -
  have u: "unat (of_nat p :: u32) = p" using p by (simp add: unat_of_nat)
  then have u': "unat (of_nat p :: u32) < 40" using p by simp
  let ?h = "\<lambda>h. case func_field p of (regist, shift) \<Rightarrow> gpio_modify hw regist
      (\<lambda>reg. reg AND NOT (gp_shl hw 0x3 shift) OR gp_shl hw (pmode r AND 0x3) shift) h"
  have e: "func_pin hw m r p h = (if m = Some GFUNC_MODE_DCMI \<and> p = 28 then h
      else gpio_config hw (of_nat p) (config_mode r) (?h h))" for h
    by (simp add: func_pin_def Let_def split: prod.split)
  have "pins view (s\<lparr>gp_hw := gpio_config hw (of_nat p) (config_mode r) (?h (gp_hw s))\<rparr>) =
      mode_config (config_mode r) p ((pins view s)[p := (pins view s ! p)\<lparr>pn_func := pmode r AND 3\<rparr>])"
    using config_ok(1) [OF chip u', where s = "s\<lparr>gp_hw := ?h (gp_hw s)\<rparr>" and mode = "config_mode r"]
    by (simp add: func_write_ok(1) [OF chip p] u)
  also have "\<dots> = (pins view s)[p := pin_function r (pins view s ! p)]"
    using p by (simp add: mode_config_def pin_function_def split: option.split)
  finally show "pins view (s\<lparr>gp_hw := func_pin hw m r p (gp_hw s)\<rparr>) =
      (if m = Some GFUNC_MODE_DCMI \<and> p = 28 then pins view s
       else (pins view s)[p := pin_function r (pins view s ! p)])"
    by (simp only: e) simp
  show "g_reg (view (func_pin hw m r p h)) 45 = g_reg (view h) 45"
    using config_ok(2) [OF chip u'] func_write_ok(2) [OF chip p] by (simp add: e)
qed

text \<open>The loop over the pins of a function.\<close>

lemma func_pins_ok:
  assumes chip: "gpio_chip hw view" and "distinct ps" and "\<forall>p \<in> set ps. p < 40"
  shows "pins view (s\<lparr>gp_hw := fold (func_pin hw m r) ps (gp_hw s)\<rparr>) =
      map (\<lambda>p. if p \<in> set ps \<and> \<not> (m = Some GFUNC_MODE_DCMI \<and> p = 28) then pin_function r (pins view s ! p) else pins view s ! p) [0..<40] \<and>
    g_reg (view (fold (func_pin hw m r) ps (gp_hw s))) 45 = g_reg (view (gp_hw s)) 45"
  using assms(2,3)
proof (induction ps arbitrary: s)
  case Nil
  have "pins view s = map ((!) (pins view s)) [0..<40]" using map_nth [of "pins view s"] by simp
  then show ?case by simp
next
  case (Cons p ps)
  have p: "p < 40" using Cons.prems by simp
  let ?s = "s\<lparr>gp_hw := func_pin hw m r p (gp_hw s)\<rparr>"
  have IH: "pins view (?s\<lparr>gp_hw := fold (func_pin hw m r) ps (gp_hw ?s)\<rparr>) =
      map (\<lambda>p. if p \<in> set ps \<and> \<not> (m = Some GFUNC_MODE_DCMI \<and> p = 28) then pin_function r (pins view ?s ! p) else pins view ?s ! p) [0..<40] \<and>
    g_reg (view (fold (func_pin hw m r) ps (gp_hw ?s))) 45 = g_reg (view (gp_hw ?s)) 45"
    using Cons.prems by (intro Cons.IH) auto
  have "p \<notin> set ps" using Cons.prems by simp
  then show ?case
    using IH func_pin_ok [OF chip p] p
    by (auto simp: nth_list_update simp del: upt_Suc)
qed

lemma second_ok:
  assumes chip: "gpio_chip hw view"
  shows "pins view (s\<lparr>gp_hw := gpio_enable_second_function hw c (gp_hw s)\<rparr>) = row_second c (pins view s)"
    and "g_reg (view (gpio_enable_second_function hw c (gp_hw s))) 45 = row_module c (g_reg (view (gp_hw s)) 45)"
proof -
  let ?m = "gfunc_of c"
  let ?r = "func_switch ?m"
  let ?h = "fold (func_pin hw ?m ?r) [start_index ?r..<end_index ?r + 1] (gp_hw s)"
  let ?f = "\<lambda>reg. reg AND NOT (pmask ?r) OR modul_select ?r"
  have ps: "pins view (s\<lparr>gp_hw := ?h\<rparr>) = row_second c (pins view s)" "g_reg (view ?h) 45 = g_reg (view (gp_hw s)) 45"
    using func_pins_ok [OF chip, where ps = "[start_index ?r..<end_index ?r + 1]" and s = s and m = ?m and r = ?r] func_switch_bounds [of ?m]
    by (auto simp: row_second_def function_pins_def Let_def simp del: upt_Suc)
  have m: "view (gpio_modify hw (gpio_reg 45) ?f h) = (view h)\<lparr>g_reg := (g_reg (view h))(45 := ?f (g_reg (view h) 45))\<rparr>" for h
    using modify_view [OF chip, of 45 ?f h] by (simp add: reg_write_def reg_word_def is_pin_reg_def)
  have "pins view (s\<lparr>gp_hw := gpio_modify hw (gpio_reg 45) ?f ?h\<rparr>) = pins view (s\<lparr>gp_hw := ?h\<rparr>)"
    using pin_reg_apart(5) by (intro pins_eqI) (auto simp: nth_pins pin_of_def m func_at_def trigger_at_def Let_def)
  then show "pins view (s\<lparr>gp_hw := gpio_enable_second_function hw c (gp_hw s)\<rparr>) = row_second c (pins view s)"
    using ps(1) by (simp add: gpio_enable_second_function_def Let_def gpio_regs)
  show "g_reg (view (gpio_enable_second_function hw c (gp_hw s))) 45 = row_module c (g_reg (view (gp_hw s)) 45)"
    using ps(2) m by (simp add: gpio_enable_second_function_def row_module_def Let_def gpio_regs)
qed

section \<open>Setting up an interrupt\<close>

text \<open>A pin below 32 gets its trigger and is enabled, and if it was pending every pending interrupt is
  lost. The pins from 32 on get a pull-up or a pull-down and a handler that is never called.\<close>

definition mode_irq_on :: "u32 \<Rightarrow> gfunc option \<Rightarrow> nat \<Rightarrow> pin list \<Rightarrow> pin list" where
  "mode_irq_on mode f p xs =
     (let xs = mode_config (if mode = 0 \<or> mode = 3 then GMODE_INPUT_PULLUP else GMODE_INPUT_PULLDOWN) p xs;
          xs = (if p < 32 then xs[p := (xs ! p)\<lparr>pn_trigger := mode, pn_irq := True\<rparr>] else xs);
          xs = (if pn_pending (xs ! p) then map (\<lambda>x. x\<lparr>pn_pending := False\<rparr>) xs else xs)
      in xs[p := (xs ! p)\<lparr>pn_handler := f\<rparr>])"

definition spec_irq_off :: "nat \<Rightarrow> pin list \<Rightarrow> pin list" where
  "spec_irq_off p xs = xs[p := (xs ! p)\<lparr>pn_irq := False\<rparr>]"

lemma trigger_ok:
  assumes chip: "gpio_chip hw view" and i: "unat i < 40" and mode: "mode AND 3 = mode"
  shows "pins view (s\<lparr>gp_hw := set_trigger hw i mode (gp_hw s)\<rparr>) =
      (if unat i < 32 then (pins view s)[unat i := (pins view s ! unat i)\<lparr>pn_trigger := mode\<rparr>] else pins view s)" (is ?A)
    and "g_reg (view (set_trigger hw i mode h)) 45 = g_reg (view h) 45" (is ?B)
proof -
  let ?p = "unat i"
  define n where "n = (if ?p < 16 then 34 else 35 :: nat)"
  define k where "k = (if ?p < 16 then ?p else ?p - 16)"
  have n: "n < 56" "n \<noteq> 36" "n \<noteq> 33" "n \<noteq> 32" "n \<noteq> 46" "n \<noteq> 47" "n \<noteq> 45" "\<not> is_pin_reg n" by (auto simp: n_def is_pin_reg_def)
  have apart: "q < 40 \<Longrightarrow> pin_reg q \<noteq> n" for q using pin_reg_simps(3) n(8) by metis
  have d: "i < 16 \<longleftrightarrow> ?p < 16" by (simp add: word_less_nat_alt)
  have k2: "unat (push_bit 1 (if i < 16 then i else i - 16)) = 2 * k"
  proof -
    have "unat (if i < 16 then i else i - 16) = k" using d by (auto simp: k_def unat_sub word_le_nat_alt)
    then show ?thesis using i by (simp add: unat_word_ariths k_def split: if_splits)
  qed
  let ?f = "\<lambda>v. v AND NOT (gp_shl hw 3 (2 * k)) OR gp_shl hw mode (2 * k)"
  have e: "set_trigger hw i mode h = gpio_modify hw (gpio_reg n) ?f h" for h
    using k2 d by (simp only: set_trigger_def n_def gpio_regs split: if_splits) (simp_all del: push_bit_of_1)
  have v: "view (set_trigger hw i mode h) = (view h)\<lparr>g_reg := (g_reg (view h))(n := ?f (g_reg (view h) n))\<rparr>" for h
    using modify_view [OF chip n(1), of ?f h] n by (simp add: e reg_write_def reg_word_def)
  let ?t = "s\<lparr>gp_hw := set_trigger hw i mode (gp_hw s)\<rparr>"
  let ?v = "view (gp_hw s)"
  have w: "view (gp_hw ?t) = ?v\<lparr>g_reg := (g_reg ?v)(n := ?f (g_reg ?v n))\<rparr>" using v by simp
  have pin: "pin_of view ?t q = (pin_of view s q)\<lparr>pn_trigger := trigger_at (view (gp_hw ?t)) q\<rparr>" if q: "q < 40" for q
    using apart [OF q] n unfolding pin_of_def Let_def w func_at_def by (simp del: One_nat_def)
  show ?A
  proof (cases "?p < 32")
    case True
    then have k: "k < 16" by (auto simp: k_def)
    have f: "?f x = x AND NOT (push_bit (2 * k) 3) OR push_bit (2 * k) (mode AND 3)" for x
      using gpio_chipD(4) [OF chip, of "2 * k"] k mode by simp
    have "trigger_at (view (gp_hw ?t)) q = (if q = ?p then mode else trigger_at ?v q)" if q: "q < 40" for q
    proof -
      let ?n = "if q < 16 then 34 else 35 :: nat" and ?k = "if q < 16 then q else q - 16"
      have "trigger_at u q = (if q < 32 then field2 (g_reg u ?n) ?k else 0)" for u by (simp add: trigger_at_def)
      moreover have "q < 32 \<Longrightarrow> ?k < 16" by auto
      moreover have "q < 32 \<Longrightarrow> ?n = n \<and> ?k = k \<longleftrightarrow> q = ?p"
        using True by (auto simp: n_def k_def split: if_splits)
      ultimately show ?thesis
        unfolding w f using field2_put [OF k, of ?k "g_reg ?v n" mode] True mode by auto
    qed
    then have "pin_of view ?t q = (if q = ?p then (pins view s ! ?p)\<lparr>pn_trigger := mode\<rparr> else pin_of view s q)" if "q < 40" for q
      using pin [OF that] that by (simp add: nth_pins [OF i] pin_of_def Let_def)
    then show ?thesis using True by (simp add: pins_update)
  next
    case False
    then have "\<not> k < 16" "k < 128" using i by (auto simp: k_def)
    then have "gp_shl hw x (2 * k) = 0" for x using gpio_chipD(4) [OF chip, of "2 * k" x] by simp
    then have "view (gp_hw ?t) = ?v" unfolding w by simp
    then have "pin_of view ?t q = pin_of view s q" for q by (simp add: pin_of_def)
    then show ?thesis using False by (simp add: pins_def)
  qed
  show ?B unfolding v using n(7) by simp
qed

lemma one_bit: "x AND push_bit p 1 \<noteq> 0 \<longleftrightarrow> bit (x :: u32) p"
  by (metis bit_iff_and_push_bit_not_eq_0)

lemma inten_ok:
  assumes chip: "gpio_chip hw view" and p: "p < 40"
    and f: "\<And>v q. q < 32 \<Longrightarrow> bit (f v) q \<longleftrightarrow> (if q = p then b else bit v q)"
  shows "pins view (s\<lparr>gp_hw := gpio_modify hw REG_GPIO_INTEN f (gp_hw s)\<rparr>) =
      (if p < 32 then (pins view s)[p := (pins view s ! p)\<lparr>pn_irq := b\<rparr>] else pins view s)"
    and "g_reg (view (gpio_modify hw REG_GPIO_INTEN f h)) 45 = g_reg (view h) 45"
proof -
  have apart: "q < 40 \<Longrightarrow> pin_reg q \<noteq> 33" for q by (rule pin_reg_apart)
  have v: "view (gpio_modify hw REG_GPIO_INTEN f h) = (view h)\<lparr>g_reg := (g_reg (view h))(33 := f (g_reg (view h) 33))\<rparr>" for h
    using modify_view [OF chip, of 33 f h] by (simp add: gpio_regs reg_write_def reg_word_def is_pin_reg_def)
  let ?t = "s\<lparr>gp_hw := gpio_modify hw REG_GPIO_INTEN f (gp_hw s)\<rparr>"
  have high: "\<not> q < 32 \<Longrightarrow> \<not> bit (x :: u32) q" for x q by (auto dest: bit_imp_le_length)
  have "pin_of view ?t q = (pin_of view s q)\<lparr>pn_irq := bit (f (g_reg (view (gp_hw s)) 33)) q\<rparr>" if "q < 40" for q
    using apart [OF that] by (simp add: pin_of_def Let_def v func_at_def trigger_at_def)
  moreover have "bit (f (g_reg (view (gp_hw s)) 33)) q \<longleftrightarrow> (if q = p \<and> q < 32 then b else bit (g_reg (view (gp_hw s)) 33) q)" for q
    using f [of q] high [of q] by (cases "q < 32") auto
  ultimately have pin: "pin_of view ?t q = (if q = p \<and> q < 32 then (pin_of view s q)\<lparr>pn_irq := b\<rparr> else pin_of view s q)" if "q < 40" for q
    using that by (simp add: pin_of_def Let_def)
  show "pins view ?t = (if p < 32 then (pins view s)[p := (pins view s ! p)\<lparr>pn_irq := b\<rparr>] else pins view s)"
  proof (cases "p < 32")
    case True
    then show ?thesis using pin by (simp add: pins_update nth_pins [OF p])
  next
    case False
    then have "pin_of view ?t q = pin_of view s q" if "q < 40" for q using pin [OF that] by auto
    then show ?thesis using False by (simp add: pins_def)
  qed
  show "g_reg (view (gpio_modify hw REG_GPIO_INTEN f h)) 45 = g_reg (view h) 45" by (simp add: v)
qed

text \<open>The status is written with the bit of the pin added to what is pending, which clears it all.\<close>

lemma clear_status_ok:
  assumes chip: "gpio_chip hw view" and i: "unat i < 40"
  shows "view (clear_status hw i n h) =
    (if 0 < n \<and> bit (g_sta (view h)) (unat i) then (view h)\<lparr>g_sta := 0\<rparr> else view h)"
proof (induction n arbitrary: h)
  case (Suc n)
  let ?p = "unat i"
  let ?m = "gp_shl hw 1 ?p"
  obtain st h' where r: "gp_rd hw REG_GPIO_INTSTA h = (st, h')" by fastforce
  have st: "st = g_sta (view h)" "view h' = view h"
    using gpio_chipD(1,2) [OF chip, of 36 h] r by (simp_all add: gpio_regs reg_word_def)
  have t: "st AND ?m \<noteq> 0 \<longleftrightarrow> bit st ?p"
  proof (cases "?p < 32")
    case True
    then have "?m = push_bit ?p 1" using gpio_chipD(4) [OF chip, of ?p 1] by simp
    then show ?thesis by (simp only: one_bit)
  next
    case False
    then show ?thesis using gpio_chipD(4) [OF chip, of ?p 1] i by (auto dest: bit_imp_le_length)
  qed
  have c: "view (gpio_modify hw REG_GPIO_INTSTA (\<lambda>v. v OR ?m) h') = (view h)\<lparr>g_sta := 0\<rparr>"
  proof -
    have "g_sta (view h) AND NOT (g_sta (view h) OR ?m) = 0" by (simp add: bit.conj_disj_distrib) (metis bit.conj_cancel_right bit.conj_zero_left and.assoc)
    then show ?thesis using modify_view [OF chip, of 36 "\<lambda>v. v OR ?m" h'] by (simp add: gpio_regs reg_write_def reg_word_def st(2))
  qed
  have "clear_status hw i (Suc n) h =
      clear_status hw i n (if bit st ?p then gpio_modify hw REG_GPIO_INTSTA (\<lambda>v. v OR ?m) h' else h')"
    using t by (simp add: r)
  then show ?case using Suc.IH c st by (simp split: if_splits)
qed simp

lemma pin_handler_same: "pn_handler x = f \<Longrightarrow> x\<lparr>pn_handler := f\<rparr> = (x :: pin)"
  by (cases x) simp

lemma enable_ok:
  assumes chip: "gpio_chip hw view" and ok: "gpios_ok s" and i: "unat i < 40" and mode: "mode AND 3 = mode"
  shows "\<exists>t. gpio_int_enable hw i mode f s = Some t \<and> gpios_ok t \<and> pinmap t = pinmap s \<and>
    gp_log t = gp_log s @ [GpioRegisterIsr, GpioIcuEnable IRQ_GPIO_BIT] \<and>
    pins view t = mode_irq_on mode f (unat i) (pins view s) \<and> g_reg (view (gp_hw t)) 45 = g_reg (view (gp_hw s)) 45"
proof -
  let ?p = "unat i"
  let ?pull = "if mode = 0 \<or> mode = 3 then GMODE_INPUT_PULLUP else GMODE_INPUT_PULLDOWN"
  let ?e = "\<lambda>v. v OR gp_shl hw 0x01 ?p"
  define h1 where "h1 = gpio_config hw i ?pull (gp_hw s)"
  define h2 where "h2 = set_trigger hw i mode h1"
  define h3 where "h3 = gpio_modify hw REG_GPIO_INTEN ?e h2"
  define h4 where "h4 = clear_status hw i 250 h3"
  let ?t = "s\<lparr>gp_hw := h4, p_gpio_intr_handler := (p_gpio_intr_handler s)[?p := f], gp_log := gp_log s @ [GpioRegisterIsr, GpioIcuEnable IRQ_GPIO_BIT]\<rparr>"
  have run: "gpio_int_enable hw i mode f s = Some ?t"
    using ok i mode
    by (simp add: gpio_int_enable_def GPIONUM_def log_gpio_def Let_def gpios_ok_def aset_in_bounds h1_def h2_def h3_def h4_def)
  define x1 where "x1 = mode_config ?pull ?p (pins view s)"
  define x2 where "x2 = (if ?p < 32 then x1[?p := (x1 ! ?p)\<lparr>pn_trigger := mode, pn_irq := True\<rparr>] else x1)"
  have l1: "length x1 = 40" by (simp add: x1_def mode_config_def split: option.split)
  have p1: "pins view (s\<lparr>gp_hw := h1\<rparr>) = x1" using config_ok(1) [OF chip i] by (simp add: h1_def x1_def)
  have p2: "pins view (s\<lparr>gp_hw := h2\<rparr>) = (if ?p < 32 then x1[?p := (x1 ! ?p)\<lparr>pn_trigger := mode\<rparr>] else x1)"
    using trigger_ok(1) [OF chip i mode, of "s\<lparr>gp_hw := h1\<rparr>"] p1 by (simp add: h2_def)
  have e: "bit (?e v) q \<longleftrightarrow> (if q = ?p then True else bit v q)" if "q < 32" for v q
  proof (cases "?p < 32")
    case True
    then have "gp_shl hw 1 ?p = push_bit ?p 1" using gpio_chipD(4) [OF chip, of ?p 1] by simp
    then have "bit (gp_shl hw 1 ?p) q \<longleftrightarrow> q = ?p" using that True by (simp only: bit_push_bit_iff low_bits) auto
    then show ?thesis by (simp add: bit_or_iff)
  next
    case False
    then have "gp_shl hw 1 ?p = 0" using gpio_chipD(4) [OF chip, of ?p 1] i by simp
    then show ?thesis using that False by auto
  qed
  have p3: "pins view (s\<lparr>gp_hw := h3\<rparr>) = x2"
    using inten_ok(1) [OF chip i, of ?e True "s\<lparr>gp_hw := h2\<rparr>"] e p2 l1 i by (simp add: h3_def x2_def)
  have l2: "length x2 = 40" using l1 by (simp add: x2_def)
  have b: "bit (g_sta (view h3)) ?p = pn_pending (x2 ! ?p)"
    using p3 nth_pins [OF i, of view "s\<lparr>gp_hw := h3\<rparr>"] by (simp add: pin_of_def Let_def)
  have v4: "view h4 = (if bit (g_sta (view h3)) ?p then (view h3)\<lparr>g_sta := 0\<rparr> else view h3)"
    using clear_status_ok [OF chip i, of 250 h3] by (simp add: h4_def)
  define x3 where "x3 = (if pn_pending (x2 ! ?p) then map (\<lambda>x. x\<lparr>pn_pending := False\<rparr>) x2 else x2)"
  have p4: "pin_of view (s\<lparr>gp_hw := h4\<rparr>) q = x3 ! q" if "q < 40" for q
  proof -
    have "pin_of view (s\<lparr>gp_hw := h3\<rparr>) q = x2 ! q" using p3 nth_pins [OF that, of view "s\<lparr>gp_hw := h3\<rparr>"] by simp
    moreover have "pin_of view (s\<lparr>gp_hw := h4\<rparr>) q =
        (if pn_pending (x2 ! ?p) then (pin_of view (s\<lparr>gp_hw := h3\<rparr>) q)\<lparr>pn_pending := False\<rparr> else pin_of view (s\<lparr>gp_hw := h3\<rparr>) q)"
      using v4 b by (simp add: pin_of_def Let_def func_at_def trigger_at_def)
    ultimately show ?thesis using l2 that by (simp add: x3_def)
  qed
  have "pin_of view ?t q = (x3[?p := (x3 ! ?p)\<lparr>pn_handler := f\<rparr>]) ! q" if q: "q < 40" for q
  proof -
    have "pin_of view ?t q = (pin_of view (s\<lparr>gp_hw := h4\<rparr>) q)\<lparr>pn_handler := (p_gpio_intr_handler s)[?p := f] ! q\<rparr>"
      by (simp add: pin_of_def Let_def)
    moreover have "(x3 ! q)\<lparr>pn_handler := p_gpio_intr_handler s ! q\<rparr> = x3 ! q"
      using p4 [OF q, symmetric] by (intro pin_handler_same) (simp add: pin_of_def Let_def)
    ultimately show ?thesis
      using p4 [OF q] ok i q l2 by (auto simp: nth_list_update gpios_ok_def x3_def)
  qed
  then have "pins view ?t = x3[?p := (x3 ! ?p)\<lparr>pn_handler := f\<rparr>]"
    using l2 by (intro pins_eqI) (simp_all add: x3_def)
  moreover have "mode_irq_on mode f ?p (pins view s) = x3[?p := (x3 ! ?p)\<lparr>pn_handler := f\<rparr>]"
    by (simp only: mode_irq_on_def Let_def x1_def x2_def x3_def)
  moreover have "g_reg (view h4) 45 = g_reg (view (gp_hw s)) 45"
    using v4 config_ok(2) [OF chip i] trigger_ok(2) [OF chip i mode] inten_ok(2) [OF chip i, of ?e True h2] e
    by (simp add: h3_def h2_def h1_def)
  moreover have "gpios_ok ?t" using ok by (simp add: gpios_ok_def)
  ultimately show ?thesis using run by auto
qed

section \<open>Serving\<close>

definition pin_served :: "nat \<Rightarrow> pin \<Rightarrow> gpio_event list" where
  "pin_served p x =
     (if pn_pending x
      then case pn_handler x of
             None \<Rightarrow> []
           | Some TklGpioCb \<Rightarrow> if pn_cb x = 0 then [] else [TklGpioCalled (pn_cb x) (pn_args x)]
           | Some (GFunc f) \<Rightarrow> [GpioCalled f (of_nat p)]
      else [])"

definition spec_serve_pins :: "pin list \<Rightarrow> pin list" where
  "spec_serve_pins xs = map (\<lambda>x. x\<lparr>pn_pending := False\<rparr>) xs"

lemma call_handler_pin:
  assumes "gpios_ok s" and "p < 40" and "pn_pending (pin_of view s p)"
  shows "call_gpio_handler p s = Some (log_gpio (pin_served p (pin_of view s p)) s)"
proof -
  have "unat (of_nat p :: u32) = p" using assms(2) by (simp add: unat_of_nat)
  then show ?thesis
    using assms
    by (auto simp: call_gpio_handler_def tkl_gpio_irq_cb_def gpios_ok_def aget_def pin_served_def pin_of_def Let_def log_gpio_def
        split: option.splits gfunc.splits)
qed

lemma gpio_isr_ok:
  assumes chip: "gpio_chip hw view" and ok: "gpios_ok s"
  shows "\<exists>t. gpio_isr hw s = Some t \<and> gpios_ok t \<and> pinmap t = pinmap s \<and>
    gp_log t = gp_log s @ concat (map (\<lambda>p. pin_served p (pin_of view s p)) [0..<40]) \<and>
    pins view t = spec_serve_pins (pins view s) \<and> g_reg (view (gp_hw t)) 45 = g_reg (view (gp_hw s)) 45"
proof -
  let ?v = "view (gp_hw s)"
  let ?ev = "\<lambda>p. pin_served p (pin_of view s p)"
  obtain st h where r: "gp_rd hw REG_GPIO_INTSTA (gp_hw s) = (st, h)" by fastforce
  have st: "st = g_sta ?v" "view h = ?v"
    using gpio_chipD(1,2) [OF chip, of 36 "gp_hw s"] r by (simp_all add: gpio_regs reg_word_def)
  have pend: "st AND gp_shl hw 1 p \<noteq> 0 \<longleftrightarrow> pn_pending (pin_of view s p)" if p: "p < 40" for p
  proof (cases "p < 32")
    case True
    then have m: "gp_shl hw 1 p = push_bit p 1" using gpio_chipD(4) [OF chip, of p 1] by simp
    show ?thesis unfolding m one_bit by (simp add: pin_of_def Let_def st(1))
  next
    case False
    then show ?thesis using gpio_chipD(4) [OF chip, of p 1] p
      by (auto simp: pin_of_def Let_def dest: bit_imp_le_length)
  qed
  define g where "g = (\<lambda>p s. log_gpio (?ev p) (s :: 'a gpios))"
  define f where "f = (\<lambda>p s. if st AND gp_shl hw 0x01 p \<noteq> 0 then call_gpio_handler p s else Some (s :: 'a gpios))"
  have step: "f p (log_gpio es (s\<lparr>gp_hw := h\<rparr>)) = Some (log_gpio (es @ ?ev p) (s\<lparr>gp_hw := h\<rparr>))" if p: "p < 40" for p es
  proof -
    let ?s = "log_gpio es (s\<lparr>gp_hw := h\<rparr>)"
    have same: "pin_of view ?s p = pin_of view s p" by (simp add: pin_of_def log_gpio_def st(2))
    have "gpios_ok ?s" using ok by (simp add: gpios_ok_def log_gpio_def)
    then have call: "pn_pending (pin_of view s p) \<Longrightarrow> call_gpio_handler p ?s = Some (log_gpio (?ev p) ?s)"
      using call_handler_pin [of ?s p view] p by (simp only: same)
    show ?thesis
    proof (cases "pn_pending (pin_of view s p)")
      case True
      then show ?thesis using pend [OF p] call unfolding f_def by (simp add: log_gpio_def)
    next
      case False
      then show ?thesis using pend [OF p] unfolding f_def by (simp add: log_gpio_def pin_served_def)
    qed
  qed
  have "\<exists>t. for_range 0 GPIONUM f (s\<lparr>gp_hw := h\<rparr>) = Some t \<and>
      t = log_gpio (concat (map ?ev [0..<0 + GPIONUM])) (s\<lparr>gp_hw := h\<rparr>)"
  proof (rule for_range_inv)
    show "s\<lparr>gp_hw := h\<rparr> = log_gpio (concat (map ?ev [0..<0])) (s\<lparr>gp_hw := h\<rparr>)" by (simp add: log_gpio_def)
    show "\<exists>t. f k u = Some t \<and> t = log_gpio (concat (map ?ev [0..<Suc k])) (s\<lparr>gp_hw := h\<rparr>)"
      if "0 \<le> k" "k < 0 + GPIONUM" "u = log_gpio (concat (map ?ev [0..<k])) (s\<lparr>gp_hw := h\<rparr>)" for k u
      using step [of k "concat (map ?ev [0..<k])"] that by (simp add: GPIONUM_def)
  qed
  then have loop: "for_range 0 GPIONUM f (s\<lparr>gp_hw := h\<rparr>) = Some (log_gpio (concat (map ?ev [0..<40])) (s\<lparr>gp_hw := h\<rparr>))"
    by (simp add: GPIONUM_def del: upt_Suc)
  let ?t = "(log_gpio (concat (map ?ev [0..<40])) s)\<lparr>gp_hw := gp_wr hw REG_GPIO_INTSTA st h\<rparr>"
  have run: "gpio_isr hw s = Some ?t"
    using loop unfolding f_def by (simp add: gpio_isr_def r log_gpio_def del: upt_Suc)
  have v: "view (gp_hw ?t) = ?v\<lparr>g_sta := 0\<rparr>"
    using gpio_chipD(3) [OF chip, of 36 st h] by (simp add: gpio_regs reg_write_def st)
  have "pin_of view ?t p = (pin_of view s p)\<lparr>pn_pending := False\<rparr>" for p
    using v by (simp add: pin_of_def Let_def func_at_def trigger_at_def log_gpio_def)
  then have "pins view ?t = spec_serve_pins (pins view s)" by (simp add: pins_def spec_serve_pins_def del: upt_Suc)
  moreover have "g_reg (view (gp_hw ?t)) 45 = g_reg ?v 45" using v by simp
  ultimately show ?thesis using run ok by (auto simp: gpios_ok_def log_gpio_def simp del: upt_Suc)
qed

section \<open>The parameters of the commands\<close>

lemma byte_bits:
  assumes "unat (i :: u32) < 256" and "bit i n"
  shows "n < 8"
proof (rule ccontr)
  assume "\<not> n < 8"
  then have "(2 :: nat) ^ 8 \<le> 2 ^ n" by (intro power_increasing) auto
  then have "unat i div 2 ^ n = 0" using assms(1) by simp
  moreover have "bit (unat i) n" using assms(2) by (simp add: bit_unsigned_iff bit_imp_le_length)
  ultimately show False by (simp add: bit_iff_odd)
qed

lemma byte_mask: "bit (0xff :: u32) n \<longleftrightarrow> n < 8"
proof -
  have m: "(0xff :: u32) = mask 8" by (simp add: mask_eq_exp_minus_1)
  show ?thesis unfolding m by (auto simp: bit_mask_iff)
qed

lemma packed:
  assumes "unat (i :: u32) < 256" and "unat (m :: u32) < 256"
  shows "(i + push_bit 8 (m AND 0xff)) AND 0xff = i" and "drop_bit 8 (i + push_bit 8 (m AND 0xff)) AND 0xff = m"
proof -
  note b = byte_bits [OF assms(1)] byte_bits [OF assms(2)]
  have s: "i + push_bit 8 (m AND 0xff) = i OR push_bit 8 (m AND 0xff)"
  proof (rule disjunctive_add)
    show "\<not> bit i n \<or> \<not> bit (push_bit 8 (m AND 0xff)) n" for n
      by (simp only: bit_push_bit_iff) (use b(1) [of n] in auto)
  qed
  show "(i + push_bit 8 (m AND 0xff)) AND 0xff = i"
  proof (rule bit_word_eqI)
    show "bit ((i + push_bit 8 (m AND 0xff)) AND 0xff) n \<longleftrightarrow> bit i n" for n
      unfolding s by (simp only: bit_and_iff bit_or_iff bit_push_bit_iff byte_mask) (use b(1) in auto)
  qed
  show "drop_bit 8 (i + push_bit 8 (m AND 0xff)) AND 0xff = m"
  proof (rule bit_word_eqI)
    show "bit (drop_bit 8 (i + push_bit 8 (m AND 0xff)) AND 0xff) n \<longleftrightarrow> bit m n" for n
      unfolding s by (simp only: bit_and_iff bit_or_iff bit_push_bit_iff bit_drop_bit_eq o_apply byte_mask)
        (use b(1) [of "8 + n"] b(2) [of n] in auto)
  qed
qed

lemma cfg_command:
  assumes "unat i < 40" and "unat mode < 256"
  shows "gpio_asserted hw (CMD_GPIO_CFG (GPIO_CFG_PARAM i mode)) s = Some (s\<lparr>gp_hw := gpio_config hw i mode (gp_hw s)\<rparr>)"
  using packed [of i mode] assms
  by (simp add: gpio_asserted_def gpio_ctrl_def GPIO_CFG_PARAM_def GPIO_CFG_PARAM_DEMUX_ID_def GPIO_CFG_PARAM_DEMUX_MODE_def Let_def)

lemma output_command:
  assumes "unat i < 40" and "unat val < 256"
  shows "bk_gpio_output hw i val s = Some (s\<lparr>gp_hw := gpio_output hw i val (gp_hw s)\<rparr>)"
  using packed [of i val] assms
  by (simp add: bk_gpio_output_def gpio_asserted_def gpio_ctrl_def GPIO_OUTPUT_PARAM_def GPIO_OUTPUT_DEMUX_ID_def
      GPIO_OUTPUT_DEMUX_VAL_def Let_def)

text \<open>The modes of the SDK, as they arrive in the register.\<close>

lemma initialize_pin:
  assumes "unat i < 40"
  shows "BkGpioInitialize hw i c s = Some (s\<lparr>gp_hw := gpio_config hw i (pin_config_mode c) (gp_hw s)\<rparr>)"
proof -
  have "unat (pin_config_mode c) < 256"
    by (cases c) (simp_all add: pin_config_mode_def GMODE_INPUT_PULLUP_def GMODE_INPUT_PULLDOWN_def GMODE_INPUT_def
        GMODE_OUTPUT_def GMODE_SECOND_FUNC_def)
  then show ?thesis using cfg_command [OF assms] by (simp add: BkGpioInitialize_def)
qed

lemma input_ok:
  assumes chip: "gpio_chip hw view" and i: "unat i < 40"
  shows "\<exists>h. BkGpioInputGet hw i s = Some (g_level (view (gp_hw s)) (unat i), s\<lparr>gp_hw := h\<rparr>) \<and> view h = view (gp_hw s)"
proof -
  let ?n = "pin_reg (unat i)"
  obtain val h where r: "gp_rd hw (gpio_reg ?n) (gp_hw s) = (val, h)" by fastforce
  have v: "val = reg_word (view (gp_hw s)) ?n" "view h = view (gp_hw s)"
    using gpio_chipD(1,2) [OF chip pin_reg_simps(1) [OF i], of "gp_hw s"] r by simp_all
  have "val AND 1 = of_bool (g_level (view (gp_hw s)) (unat i))"
    using pin_reg_simps(2-4) [OF i]
    by (intro bit_word_eqI) (simp only: v reg_word_def if_True if_False bit_and_iff bit_or_iff bit_not_iff low_bits bit_of_bool_iff, auto)
  then have "BkGpioInputGet hw i s = Some (g_level (view (gp_hw s)) (unat i), s\<lparr>gp_hw := h\<rparr>)"
    by (simp add: BkGpioInputGet_def bk_gpio_input_def gpio_ctrl_def gpio_input_def gpio_ops_filter_def GPIO_FAILURE_def
        GPIO_SUCCESS_def gpio_cfg_addr_reg [OF i] r GCFG_INPUT_BIT_def)
  then show ?thesis using v(2) by blast
qed

section \<open>The interface of TuyaOS\<close>

text \<open>What happens to the pins: calls of the interface, the command that gives pins a function, a change
  of the level at a pin and its trigger (\<open>lv\<close> and \<open>ed\<close> are what the hardware does then), and the
  interrupt.\<close>

datatype gpio_op =
    PInit u32 gpio_base_cfg
  | PDeinit u32
  | PWrite u32 gpio_level
  | PRead u32
  | PIrqInit u32 "gpio_irq_cfg option"
  | PIrqEnable u32
  | PIrqDisable u32
  | PSecond u32
  | PLevel nat bool
  | PEdge nat
  | PIsr

definition gpio_triggers :: "(nat \<Rightarrow> bool \<Rightarrow> 'h \<Rightarrow> 'h) \<Rightarrow> (nat \<Rightarrow> 'h \<Rightarrow> 'h) \<Rightarrow> ('h \<Rightarrow> gview) \<Rightarrow> bool" where
  "gpio_triggers lv ed view \<longleftrightarrow>
     (\<forall>p b h. view (lv p b h) = (view h)\<lparr>g_level := (g_level (view h))(p := b)\<rparr>) \<and>
     (\<forall>p h. view (ed p h) =
       (if bit (g_reg (view h) 33) p then (view h)\<lparr>g_sta := g_sta (view h) OR push_bit p 1\<rparr> else view h))"

fun gpio_step ::
  "'h gpio_hw \<Rightarrow> (nat \<Rightarrow> bool \<Rightarrow> 'h \<Rightarrow> 'h) \<Rightarrow> (nat \<Rightarrow> 'h \<Rightarrow> 'h) \<Rightarrow> gpio_op \<Rightarrow> 'h gpios \<Rightarrow>
   ((oprt \<times> gpio_level option) \<times> 'h gpios) option" where
  "gpio_step hw lv ed (PInit i cfg) s = map_option (apfst (\<lambda>r. (r, None))) (tkl_gpio_init hw i cfg s)"
| "gpio_step hw lv ed (PDeinit i) s = map_option (apfst (\<lambda>r. (r, None))) (tkl_gpio_deinit i s)"
| "gpio_step hw lv ed (PWrite i l) s = map_option (apfst (\<lambda>r. (r, None))) (tkl_gpio_write hw i l s)"
| "gpio_step hw lv ed (PRead i) s = map_option (\<lambda>(r, l, s). ((r, l), s)) (tkl_gpio_read hw i s)"
| "gpio_step hw lv ed (PIrqInit i cfg) s = map_option (apfst (\<lambda>r. (r, None))) (tkl_gpio_irq_init hw i cfg s)"
| "gpio_step hw lv ed (PIrqEnable i) s = map_option (apfst (\<lambda>r. (r, None))) (tkl_gpio_irq_enable i s)"
| "gpio_step hw lv ed (PIrqDisable i) s = map_option (apfst (\<lambda>r. (r, None))) (tkl_gpio_irq_disable hw i s)"
| "gpio_step hw lv ed (PSecond c) s =
     map_option (\<lambda>(r, s). ((OPRT_OK, None), s)) (gpio_ctrl hw (CMD_GPIO_ENABLE_SECOND c) s)"
| "gpio_step hw lv ed (PLevel p b) s = Some ((OPRT_OK, None), s\<lparr>gp_hw := lv p b (gp_hw s)\<rparr>)"
| "gpio_step hw lv ed (PEdge p) s = Some ((OPRT_OK, None), s\<lparr>gp_hw := ed p (gp_hw s)\<rparr>)"
| "gpio_step hw lv ed PIsr s = map_option (\<lambda>s. ((OPRT_OK, None), s)) (gpio_isr hw s)"

primrec gpio_run ::
  "'h gpio_hw \<Rightarrow> (nat \<Rightarrow> bool \<Rightarrow> 'h \<Rightarrow> 'h) \<Rightarrow> (nat \<Rightarrow> 'h \<Rightarrow> 'h) \<Rightarrow> gpio_op list \<Rightarrow> 'h gpios \<Rightarrow>
   ((oprt \<times> gpio_level option) list \<times> 'h gpios) option" where
  "gpio_run hw lv ed [] s = Some ([], s)"
| "gpio_run hw lv ed (x # xs) s =
     do { (r, s) \<leftarrow> gpio_step hw lv ed x s; (rs, s) \<leftarrow> gpio_run hw lv ed xs s; Some (r # rs, s) }"

fun is_gpio_call :: "gpio_event \<Rightarrow> bool" where
  "is_gpio_call (GpioCalled f p) \<longleftrightarrow> True"
| "is_gpio_call (TklGpioCalled f a) \<longleftrightarrow> True"
| "is_gpio_call _ \<longleftrightarrow> False"

definition gpio_calls :: "'h gpios \<Rightarrow> gpio_event list" where
  "gpio_calls s = filter is_gpio_call (gp_log s)"

section \<open>The specification\<close>

text \<open>Forty pins, the selection of the modules and the calls made. What a pin is used for, as the word of its
  configuration: bit 2 is the input, bit 3 turns the output off, bits 4 and 5 are the pull (up, and on) and bit
  6 is the second function.\<close>

type_synonym pin_state = "pin list \<times> u32 \<times> gpio_event list"

datatype pin_use = AsInput | AsInputUp | AsInputDown | AsOutput | AsFunction | AsFunctionUp | AsFloating

primrec use_word :: "pin_use \<Rightarrow> u32" where
  "use_word AsInput = 0x0C"
| "use_word AsInputUp = 0x3C"
| "use_word AsInputDown = 0x2C"
| "use_word AsOutput = 0"
| "use_word AsFunction = 0x48"
| "use_word AsFunctionUp = 0x78"
| "use_word AsFloating = 0x08"

definition pin_as :: "pin_use \<Rightarrow> nat \<Rightarrow> pin list \<Rightarrow> pin list" where
  "pin_as u p xs = xs[p := (xs ! p)\<lparr>pn_config := use_word u, pn_out := False\<rparr>]"

text \<open>The pins of a function by its number, the function's code in the pins, their use, and the field of the
  module selection (mask and value) if it has one. Any other number takes pin 0.\<close>

definition function_rows :: "(nat list \<times> u32 \<times> pin_use \<times> (u32 \<times> u32) option) list" where
  "function_rows =
     [([0, 1], 0, AsFunctionUp, None), ([0, 1], 1, AsFunction, None), ([2, 3, 4, 5], 0, AsFunction, None),
      ([26], 0, AsFloating, None), ([24], 2, AsFloating, None), ([6], 0, AsFunction, None),
      ([6], 1, AsFunction, None), ([7], 1, AsFunction, None), ([8], 1, AsFunction, None), ([9], 1, AsFunction, None),
      ([7], 0, AsFunction, None), ([8], 0, AsFunction, None), ([9], 0, AsFunction, None),
      ([10, 11, 12, 13], 0, AsFunctionUp, None),
      ([14, 15, 16, 17, 18, 19], 0, AsFunction, Some (12, 0)), ([14, 15, 16, 17, 18, 19], 0, AsFunctionUp, Some (12, 4)),
      ([14, 15, 16, 17], 1, AsFunction, Some (3, 0)), ([14, 15, 16, 17], 1, AsFunction, Some (3, 1)),
      ([14], 1, AsFunction, Some (3, 0)), ([16, 17], 1, AsFunction, Some (3, 1)),
      ([24], 1, AsFunction, None), ([26], 1, AsFunction, None), ([20, 21], 0, AsFunction, None),
      ([20, 21, 22, 23], 1, AsFunction, None), ([22], 0, AsFunction, None), ([23], 0, AsFunction, None),
      ([27, 29, 30, 31, 32, 33, 34, 35, 36, 37, 38, 39], 0, AsFunction, None), ([28], 1, AsFloating, None),
      ([22], 0, AsFloating, None), ([21], 0, AsFloating, None), ([13], 1, AsFunction, None),
      ([34, 35, 36, 37, 38, 39], 1, AsFunctionUp, Some (12, 12)),
      ([30, 31, 32, 33], 1, AsFunction, Some (3, 3)), ([30, 31, 32, 33], 1, AsFunction, Some (3, 2))]"

definition function_row :: "u32 \<Rightarrow> nat list \<times> u32 \<times> pin_use \<times> (u32 \<times> u32) option" where
  "function_row c = (if unat c < 34 then function_rows ! unat c else ([0], 0, AsFunction, None))"

definition spec_second :: "u32 \<Rightarrow> pin list \<Rightarrow> pin list" where
  "spec_second c xs =
     (let (ps, f, u, m) = function_row c
      in map (\<lambda>p. if p \<in> set ps then (xs ! p)\<lparr>pn_func := f, pn_config := use_word u, pn_out := False\<rparr> else xs ! p) [0..<40])"

definition spec_module :: "u32 \<Rightarrow> u32 \<Rightarrow> u32" where
  "spec_module c w = (let (ps, f, u, m) = function_row c in case m of None \<Rightarrow> w | Some (k, v) \<Rightarrow> w AND NOT k OR v)"

text \<open>The code of a trigger and the pull of the pin that waits for it; both edges at once are refused.\<close>

definition wanted_trigger :: "gpio_irq \<Rightarrow> (u32 \<times> pin_use) option" where
  "wanted_trigger m =
     (case m of
        TUYA_GPIO_IRQ_LOW \<Rightarrow> Some (0, AsInputUp)
      | TUYA_GPIO_IRQ_HIGH \<Rightarrow> Some (1, AsInputDown)
      | TUYA_GPIO_IRQ_RISE \<Rightarrow> Some (2, AsInputDown)
      | TUYA_GPIO_IRQ_FALL \<Rightarrow> Some (3, AsInputUp)
      | TUYA_GPIO_IRQ_RISE_FALL \<Rightarrow> None)"

definition spec_irq_on :: "u32 \<times> pin_use \<Rightarrow> nat \<Rightarrow> pin list \<Rightarrow> pin list" where
  "spec_irq_on t p xs =
     (let xs = pin_as (snd t) p xs;
          xs = (if p < 32 then xs[p := (xs ! p)\<lparr>pn_trigger := fst t, pn_irq := True\<rparr>] else xs);
          xs = (if pn_pending (xs ! p) then map (\<lambda>x. x\<lparr>pn_pending := False\<rparr>) xs else xs)
      in xs[p := (xs ! p)\<lparr>pn_handler := Some TklGpioCb\<rparr>])"

definition input_use :: "gpio_mode \<Rightarrow> pin_use" where
  "input_use m = (case m of TUYA_GPIO_PULLUP \<Rightarrow> AsInputUp | TUYA_GPIO_PULLDOWN \<Rightarrow> AsInputDown | _ \<Rightarrow> AsInput)"

text \<open>Setting up an interrupt enables it; the operations that enable and set pins free do nothing.\<close>

fun spec_gpio :: "gpio_op \<Rightarrow> pin_state \<Rightarrow> (oprt \<times> gpio_level option) \<times> pin_state" where
  "spec_gpio (PInit i cfg) (xs, w, es) =
     (case gc_direct cfg of
        TUYA_GPIO_INPUT \<Rightarrow> ((OPRT_OK, None), pin_as (input_use (gc_mode cfg)) (unat i) xs, w, es)
      | TUYA_GPIO_OUTPUT \<Rightarrow>
          ((OPRT_OK, None), spec_output (gc_level cfg = TUYA_GPIO_LEVEL_HIGH) (unat i) (pin_as AsOutput (unat i) xs), w, es)
      | TUYA_GPIO_DRCT_OTHER \<Rightarrow> ((OPRT_NOT_SUPPORTED, None), xs, w, es))"
| "spec_gpio (PDeinit i) s = ((OPRT_OK, None), s)"
| "spec_gpio (PWrite i l) (xs, w, es) =
     (if unat i < 40 then ((OPRT_OK, None), spec_output (l = TUYA_GPIO_LEVEL_HIGH) (unat i) xs, w, es)
      else ((OPRT_INVALID_PARM, None), xs, w, es))"
| "spec_gpio (PRead i) (xs, w, es) =
     (if unat i < 40
      then ((OPRT_OK, Some (if pn_level (xs ! unat i) then TUYA_GPIO_LEVEL_HIGH else TUYA_GPIO_LEVEL_LOW)), xs, w, es)
      else ((OPRT_INVALID_PARM, None), xs, w, es))"
| "spec_gpio (PIrqInit i cfg) (xs, w, es) =
     (if \<not> unat i < 40 then ((OPRT_NOT_SUPPORTED, None), xs, w, es)
      else case cfg of
        None \<Rightarrow> ((OPRT_INVALID_PARM, None), xs, w, es)
      | Some c \<Rightarrow> (case wanted_trigger (gq_mode c) of
          None \<Rightarrow> ((OPRT_NOT_SUPPORTED, None), xs, w, es)
        | Some t \<Rightarrow> ((OPRT_OK, None),
            spec_irq_on t (unat i)
              (xs[unat i := (xs ! unat i)\<lparr>pn_cb := gq_cb c, pn_args := gq_arg c\<rparr>]), w, es)))"
| "spec_gpio (PIrqEnable i) s = ((if unat i < 40 then OPRT_OK else OPRT_INVALID_PARM, None), s)"
| "spec_gpio (PIrqDisable i) (xs, w, es) =
     (if unat i < 40 then ((OPRT_OK, None), spec_irq_off (unat i) xs, w, es) else ((OPRT_INVALID_PARM, None), xs, w, es))"
| "spec_gpio (PSecond c) (xs, w, es) = ((OPRT_OK, None), spec_second c xs, spec_module c w, es)"
| "spec_gpio (PLevel p b) (xs, w, es) = ((OPRT_OK, None), xs[p := (xs ! p)\<lparr>pn_level := b\<rparr>], w, es)"
| "spec_gpio (PEdge p) (xs, w, es) =
     ((OPRT_OK, None), if pn_irq (xs ! p) then xs[p := (xs ! p)\<lparr>pn_pending := True\<rparr>] else xs, w, es)"
| "spec_gpio PIsr (xs, w, es) =
     ((OPRT_OK, None), spec_serve_pins xs, w, es @ concat (map (\<lambda>p. pin_served p (xs ! p)) [0..<40]))"

primrec spec_gpios :: "gpio_op list \<Rightarrow> pin_state \<Rightarrow> (oprt \<times> gpio_level option) list \<times> pin_state" where
  "spec_gpios [] s = ([], s)"
| "spec_gpios (x # xs) s = (let (r, s) = spec_gpio x s; (rs, s) = spec_gpios xs s in (r # rs, s))"

text \<open>Setting up a pin does not check its number.\<close>

fun good_gpio_op :: "gpio_op \<Rightarrow> bool" where
  "good_gpio_op (PInit i cfg) \<longleftrightarrow> i < 40"
| "good_gpio_op (PLevel p b) \<longleftrightarrow> p < 40"
| "good_gpio_op (PEdge p) \<longleftrightarrow> p < 32"
| "good_gpio_op _ \<longleftrightarrow> True"

definition gpios_sim :: "('h \<Rightarrow> gview) \<Rightarrow> 'h gpios \<Rightarrow> pin_state" where
  "gpios_sim view s = (pins view s, g_reg (view (gp_hw s)) 45, gpio_calls s)"

definition gpio_follows :: "('h \<Rightarrow> gview) \<Rightarrow> ((oprt \<times> gpio_level option) \<times> 'h gpios) option \<Rightarrow> (oprt \<times> gpio_level option) \<times> pin_state \<Rightarrow> bool" where
  "gpio_follows view r x \<longleftrightarrow> (\<exists>v t. r = Some (v, t) \<and> gpios_ok t \<and> (v, gpios_sim view t) = x)"

text \<open>The tables of the code say the same.\<close>

lemma config_as:
  "mode_config GMODE_INPUT_PULLUP = pin_as AsInputUp" "mode_config GMODE_INPUT_PULLDOWN = pin_as AsInputDown"
  "mode_config GMODE_INPUT = pin_as AsInput" "mode_config GMODE_OUTPUT = pin_as AsOutput"
  by (simp_all add: fun_eq_iff mode_config_def pin_as_def gpio_mode_value_def GMODE_INPUT_PULLUP_def GMODE_INPUT_PULLDOWN_def
      GMODE_INPUT_def GMODE_OUTPUT_def GMODE_SECOND_FUNC_def)

lemma irq_as:
  "mode_irq_on mode (Some TklGpioCb) p xs = spec_irq_on (mode, if mode = 0 \<or> mode = 3 then AsInputUp else AsInputDown) p xs"
  unfolding mode_irq_on_def spec_irq_on_def fst_conv snd_conv
  by (cases "mode = 0 \<or> mode = 3") (simp_all only: if_True if_False config_as)

lemma trigger_as:
  "wanted_trigger m =
    (case irq_trigger_of m of None \<Rightarrow> None
     | Some t \<Rightarrow> Some (trigger_code t, if trigger_code t = 0 \<or> trigger_code t = 3 then AsInputUp else AsInputDown))"
  by (cases m) (simp_all add: irq_trigger_of_def wanted_trigger_def trigger_code_def)

lemma table_rows:
  "list_all (\<lambda>(m, ps, f, u, md). let r = func_switch (Some m)
     in function_pins (Some m) = ps \<and> pmode r AND 3 = f \<and> gpio_mode_value (config_mode r) = Some (use_word u) \<and>
        md = (if modul_select r \<noteq> GPIO_MODUL_NONE then Some (pmask r, modul_select r) else None))
    (zip gfunc_modes function_rows)"
  by code_simp

lemma row_as:
  assumes "function_row c = (ps, f, u, md)"
  shows "let r = func_switch (gfunc_of c)
    in function_pins (gfunc_of c) = ps \<and> pmode r AND 3 = f \<and> gpio_mode_value (config_mode r) = Some (use_word u) \<and>
       md = (if modul_select r \<noteq> GPIO_MODUL_NONE then Some (pmask r, modul_select r) else None)"
proof (cases "unat c < 34")
  case True
  have l: "length gfunc_modes = 34" "length function_rows = 34" by (simp_all add: gfunc_modes_def function_rows_def)
  then have "(gfunc_modes ! unat c, function_rows ! unat c) \<in> set (zip gfunc_modes function_rows)"
    using True by (auto simp: set_zip)
  then show ?thesis
    using table_rows True assms l unfolding list_all_iff by (fastforce simp: function_row_def gfunc_of_def aget_def)
next
  case False
  then have "gfunc_of c = None" by (simp add: gfunc_of_def aget_def gfunc_modes_def)
  moreover have "function_row c = ([0], 0, AsFunction, None)" using False by (simp add: function_row_def)
  ultimately show ?thesis using assms
    by (auto simp: function_pins_def func_switch_def func_vars0_def PERIAL_MODE_1_def gpio_mode_value_def
        GMODE_SECOND_FUNC_def GMODE_OUTPUT_def GMODE_INPUT_PULLDOWN_def)
qed

lemma second_as: "row_second c xs = spec_second c xs" "row_module c w = spec_module c w"
proof -
  obtain ps f u md where r: "function_row c = (ps, f, u, md)" by (metis prod_cases4)
  note s = row_as [OF r, unfolded Let_def]
  show "row_second c xs = spec_second c xs"
    using s by (simp add: row_second_def spec_second_def r pin_function_def Let_def del: upt_Suc)
  show "row_module c w = spec_module c w" using s by (auto simp: row_module_def spec_module_def r Let_def)
qed

lemma pin_entry:
  assumes "gpios_ok s" and "unat i < 40"
  shows "aget (pinmap s) (unat i) = Some (pinmap s ! unat i)" and "pd_gpio (pinmap s ! unat i) = i"
  using assms by (simp_all add: gpios_ok_def aget_def)

lemma hw_step_sim:
  "gpios_ok s \<Longrightarrow> gpios_ok (s\<lparr>gp_hw := h\<rparr>)"
  "gpio_calls (s\<lparr>gp_hw := h\<rparr>) = gpio_calls s"
  by (simp_all add: gpios_ok_def gpio_calls_def)

lemma output_level:
  assumes chip: "gpio_chip hw view" and i: "unat i < 40"
  shows "\<exists>h. (if b then BkGpioOutputHigh hw i s else BkGpioOutputLow hw i s) = Some (s\<lparr>gp_hw := h\<rparr>) \<and>
    pins view (s\<lparr>gp_hw := h\<rparr>) = spec_output b (unat i) (pins view s) \<and> g_reg (view h) 45 = g_reg (view (gp_hw s)) 45"
  using output_ok(1) [OF chip i, where s = s and val = "if b then 1 else 0"] output_ok(2) [OF chip i, of "if b then 1 else 0" "gp_hw s"]
    output_command [OF i, of "if b then 1 else 0" hw s]
  by (cases b) (auto simp: BkGpioOutputHigh_def BkGpioOutputLow_def)

lemma init_sim:
  assumes chip: "gpio_chip hw view" and ok: "gpios_ok s" and i: "unat i < 40"
  shows "gpio_follows view (gpio_step hw lv ed (PInit i cfg) s) (spec_gpio (PInit i cfg) (gpios_sim view s))"
proof (cases "gc_direct cfg")
  case TUYA_GPIO_INPUT
  have "mode_config (pin_config_mode (if gc_mode cfg = TUYA_GPIO_PULLUP then INPUT_PULL_UP
      else if gc_mode cfg = TUYA_GPIO_PULLDOWN then INPUT_PULL_DOWN else INPUT_NORMAL)) = pin_as (input_use (gc_mode cfg))"
    by (cases "gc_mode cfg") (simp_all add: pin_config_mode_def input_use_def config_as)
  then show ?thesis
    using TUYA_GPIO_INPUT pin_entry [OF ok i] config_ok [OF chip i] ok
    by (simp add: gpio_follows_def tkl_gpio_init_def initialize_pin [OF i] gpios_sim_def hw_step_sim Let_def del: pin_config.case)
next
  case TUYA_GPIO_OUTPUT
  let ?s = "s\<lparr>gp_hw := gpio_config hw i GMODE_OUTPUT (gp_hw s)\<rparr>"
  let ?b = "gc_level cfg = TUYA_GPIO_LEVEL_HIGH"
  obtain h where h: "(if ?b then BkGpioOutputHigh hw i ?s else BkGpioOutputLow hw i ?s) = Some (?s\<lparr>gp_hw := h\<rparr>)"
      "pins view (?s\<lparr>gp_hw := h\<rparr>) = spec_output ?b (unat i) (pins view ?s)" "g_reg (view h) 45 = g_reg (view (gp_hw ?s)) 45"
    using output_level [OF chip i, where b = ?b and s = ?s] by blast
  have l: "(if gc_level cfg = TUYA_GPIO_LEVEL_LOW then BkGpioOutputLow hw i ?s else BkGpioOutputHigh hw i ?s) = Some (s\<lparr>gp_hw := h\<rparr>)"
    using h(1) by (cases "gc_level cfg") simp_all
  have "BkGpioInitialize hw i OUTPUT_NORMAL s = Some ?s" by (simp add: initialize_pin [OF i] pin_config_mode_def)
  then have "gpio_step hw lv ed (PInit i cfg) s = Some ((OPRT_OK, None), s\<lparr>gp_hw := h\<rparr>)"
    using TUYA_GPIO_OUTPUT pin_entry [OF ok i] l by (cases "gc_level cfg") (simp_all add: tkl_gpio_init_def Let_def)
  then show ?thesis
    using TUYA_GPIO_OUTPUT h(2,3) config_ok [OF chip i] ok
    by (simp add: gpio_follows_def gpios_sim_def hw_step_sim config_as)
qed (use ok in \<open>simp add: gpio_follows_def tkl_gpio_init_def gpios_sim_def\<close>)

lemma write_sim:
  assumes chip: "gpio_chip hw view" and ok: "gpios_ok s"
  shows "gpio_follows view (gpio_step hw lv ed (PWrite i l) s) (spec_gpio (PWrite i l) (gpios_sim view s))"
proof (cases "unat i < 40")
  case True
  obtain h where "(if l = TUYA_GPIO_LEVEL_HIGH then BkGpioOutputHigh hw i s else BkGpioOutputLow hw i s) = Some (s\<lparr>gp_hw := h\<rparr>)"
      "pins view (s\<lparr>gp_hw := h\<rparr>) = spec_output (l = TUYA_GPIO_LEVEL_HIGH) (unat i) (pins view s)"
      "g_reg (view h) 45 = g_reg (view (gp_hw s)) 45"
    using output_level [OF chip True, where s = s and b = "l = TUYA_GPIO_LEVEL_HIGH"] by blast
  then show ?thesis
    using pin_entry [OF ok True] ok True
    by (cases l) (simp_all add: gpio_follows_def tkl_gpio_write_def gpios_sim_def hw_step_sim, simp_all add: gpios_ok_def)
next
  case False
  then show ?thesis using ok by (simp add: gpio_follows_def tkl_gpio_write_def gpios_sim_def gpios_ok_def)
qed

lemma read_sim:
  assumes chip: "gpio_chip hw view" and ok: "gpios_ok s"
  shows "gpio_follows view (gpio_step hw lv ed (PRead i) s) (spec_gpio (PRead i) (gpios_sim view s))"
proof (cases "unat i < 40")
  case True
  obtain h where h: "BkGpioInputGet hw i s = Some (g_level (view (gp_hw s)) (unat i), s\<lparr>gp_hw := h\<rparr>)" "view h = view (gp_hw s)"
    using input_ok [OF chip True] by blast
  have n: "length (pinmap s) = 40" using ok by (simp add: gpios_ok_def)
  have "pins view (s\<lparr>gp_hw := h\<rparr>) = pins view s" using h(2) by (simp add: pins_def pin_of_def)
  then show ?thesis
    using pin_entry [OF ok True] h ok True n nth_pins [OF True, of view s]
    by (simp add: gpio_follows_def tkl_gpio_read_def gpios_sim_def hw_step_sim pin_of_def Let_def)
next
  case False
  then show ?thesis using ok by (simp add: gpio_follows_def tkl_gpio_read_def gpios_sim_def gpios_ok_def)
qed

lemma trigger_codes: "trigger_code t AND 3 = trigger_code t"
  by (cases t) (simp_all add: trigger_code_def)

lemma irq_init_sim:
  assumes chip: "gpio_chip hw view" and ok: "gpios_ok s"
  shows "gpio_follows view (gpio_step hw lv ed (PIrqInit i cfg) s) (spec_gpio (PIrqInit i cfg) (gpios_sim view s))"
proof (cases "unat i < 40")
  case True
  then have i: "\<not> 40 \<le> i" by (simp add: word_le_nat_alt)
  show ?thesis
  proof (cases cfg)
    case None
    then show ?thesis using ok True i by (simp add: gpio_follows_def tkl_gpio_irq_init_def gpios_sim_def)
  next
    case (Some c)
    show ?thesis
    proof (cases "irq_trigger_of (gq_mode c)")
      case None
      then show ?thesis using ok True i Some trigger_as [of "gq_mode c"]
        by (simp add: gpio_follows_def tkl_gpio_irq_init_def gpios_sim_def)
    next
      case trig: (Some t)
      let ?m = "(pinmap s ! unat i)\<lparr>pd_cb := gq_cb c, pd_args := gq_arg c\<rparr>"
      let ?s = "s\<lparr>pinmap := (pinmap s)[unat i := ?m]\<rparr>"
      have oks: "gpios_ok ?s" using ok True pin_entry(2) [OF ok True] by (auto simp: gpios_ok_def nth_list_update)
      have ps: "pins view ?s = (pins view s)[unat i := (pins view s ! unat i)\<lparr>pn_cb := gq_cb c, pn_args := gq_arg c\<rparr>]"
        using ok True by (intro pins_update) (auto simp: pin_of_def Let_def nth_pins gpios_ok_def nth_list_update)
      obtain u where u: "gpio_int_enable hw i (trigger_code t) (Some TklGpioCb) ?s = Some u" "gpios_ok u"
          "gp_log u = gp_log ?s @ [GpioRegisterIsr, GpioIcuEnable IRQ_GPIO_BIT]"
          "pins view u = mode_irq_on (trigger_code t) (Some TklGpioCb) (unat i) (pins view ?s)"
          "g_reg (view (gp_hw u)) 45 = g_reg (view (gp_hw ?s)) 45"
        using enable_ok [OF chip oks True trigger_codes] by blast
      have "tkl_gpio_irq_init hw i cfg s = Some (OPRT_OK, u)"
        using Some trig i True ok u(1) pin_entry [OF ok True]
        by (simp add: tkl_gpio_irq_init_def aset_def BkGpioEnableIRQ_def gpio_ctrl_def Let_def) (simp add: gpios_ok_def)
      moreover obtain w where "wanted_trigger (gq_mode c) = Some w" "pins view u = spec_irq_on w (unat i) (pins view ?s)"
        using trigger_as [of "gq_mode c"] trig u(4) [unfolded irq_as] by simp
      ultimately show ?thesis
        using Some True u(2,3,5) ps by (simp add: gpio_follows_def gpios_sim_def gpio_calls_def)
    qed
  qed
next
  case False
  then have "40 \<le> i" by (simp add: word_le_nat_alt)
  then show ?thesis using ok False by (simp add: gpio_follows_def tkl_gpio_irq_init_def gpios_sim_def)
qed

lemma irq_disable_sim:
  assumes chip: "gpio_chip hw view" and ok: "gpios_ok s"
  shows "gpio_follows view (gpio_step hw lv ed (PIrqDisable i) s) (spec_gpio (PIrqDisable i) (gpios_sim view s))"
proof (cases "unat i < 40")
  case True
  let ?p = "unat i"
  let ?f = "\<lambda>v. v AND NOT (gp_shl hw 0x01 ?p)"
  let ?s = "s\<lparr>gp_hw := gpio_int_disable hw i (gp_hw s)\<rparr>"
  have f: "bit (?f v) q \<longleftrightarrow> (if q = ?p then False else bit v q)" if "q < 32" for v q
  proof (cases "?p < 32")
    case True
    then have "gp_shl hw 1 ?p = push_bit ?p 1" using gpio_chipD(4) [OF chip, of ?p 1] by simp
    then have "bit (gp_shl hw 1 ?p) q \<longleftrightarrow> q = ?p" using that True by (simp only: bit_push_bit_iff low_bits) auto
    then show ?thesis using that by (auto simp: bit_and_iff bit_not_iff)
  next
    case False
    then have "gp_shl hw 1 ?p = 0" using gpio_chipD(4) [OF chip, of ?p 1] \<open>unat i < 40\<close> by simp
    then show ?thesis using that False by auto
  qed
  have high: "\<not> ?p < 32 \<Longrightarrow> (pins view s)[?p := (pins view s ! ?p)\<lparr>pn_irq := False\<rparr>] = pins view s"
  proof -
    assume "\<not> ?p < 32"
    then have "\<not> bit (x :: u32) ?p" for x by (auto dest: bit_imp_le_length)
    then have "(pins view s ! ?p)\<lparr>pn_irq := False\<rparr> = pins view s ! ?p" using nth_pins [OF True, of view s] by (simp add: pin_of_def Let_def)
    then show ?thesis by (simp only: list_update_id)
  qed
  have e: "pins view ?s = spec_irq_off ?p (pins view s)" "g_reg (view (gp_hw ?s)) 45 = g_reg (view (gp_hw s)) 45"
    using inten_ok(1) [OF chip True f, of s] inten_ok(2) [OF chip True f, of "gp_hw s"] high
    by (auto simp: gpio_int_disable_def spec_irq_off_def split: if_splits)
  have "tkl_gpio_irq_disable hw i s = Some (OPRT_OK, ?s)"
    using ok True pin_entry [OF ok True]
    by (simp add: tkl_gpio_irq_disable_def BkGpioDisableIRQ_def gpio_ctrl_def Let_def) (simp add: gpios_ok_def)
  then show ?thesis using True e ok by (simp add: gpio_follows_def gpios_sim_def hw_step_sim)
next
  case False
  then show ?thesis using ok by (simp add: gpio_follows_def tkl_gpio_irq_disable_def gpios_sim_def gpios_ok_def)
qed

section \<open>Histories\<close>

lemma level_sim:
  assumes tr: "gpio_triggers lv ed view" and ok: "gpios_ok s" and p: "p < 40"
  shows "gpio_follows view (gpio_step hw lv ed (PLevel p b) s) (spec_gpio (PLevel p b) (gpios_sim view s))"
proof -
  have v: "view (lv p b (gp_hw s)) = (view (gp_hw s))\<lparr>g_level := (g_level (view (gp_hw s)))(p := b)\<rparr>"
    using tr unfolding gpio_triggers_def by blast
  have "pins view (s\<lparr>gp_hw := lv p b (gp_hw s)\<rparr>) = (pins view s)[p := (pins view s ! p)\<lparr>pn_level := b\<rparr>]"
    by (intro pins_update) (auto simp: pin_of_def Let_def v nth_pins [OF p] func_at_def trigger_at_def)
  then show ?thesis using ok v by (simp add: gpio_follows_def gpios_sim_def hw_step_sim)
qed

lemma edge_sim:
  assumes tr: "gpio_triggers lv ed view" and ok: "gpios_ok s" and p: "p < 32"
  shows "gpio_follows view (gpio_step hw lv ed (PEdge p) s) (spec_gpio (PEdge p) (gpios_sim view s))"
proof (cases "bit (g_reg (view (gp_hw s)) 33) p")
  case True
  have p40: "p < 40" using p by simp
  have v: "view (ed p (gp_hw s)) = (view (gp_hw s))\<lparr>g_sta := g_sta (view (gp_hw s)) OR push_bit p 1\<rparr>"
    using tr True unfolding gpio_triggers_def by metis
  have b: "bit (g_sta (view (gp_hw s)) OR push_bit p 1) q \<longleftrightarrow> q = p \<or> bit (g_sta (view (gp_hw s))) q" for q
    using p by (auto simp only: bit_or_iff bit_push_bit_iff low_bits) auto
  have "pins view (s\<lparr>gp_hw := ed p (gp_hw s)\<rparr>) = (pins view s)[p := (pins view s ! p)\<lparr>pn_pending := True\<rparr>]"
  proof (rule pins_update)
    show "pin_of view (s\<lparr>gp_hw := ed p (gp_hw s)\<rparr>) q = (if q = p then (pins view s ! p)\<lparr>pn_pending := True\<rparr> else pin_of view s q)" for q
      unfolding nth_pins [OF p40] using b [of q]
      by (simp add: pin_of_def Let_def v func_at_def trigger_at_def)
  qed
  moreover have "pn_irq (pins view s ! p)" using True nth_pins [OF p40, of view s] by (simp add: pin_of_def Let_def)
  ultimately show ?thesis using ok v by (simp add: gpio_follows_def gpios_sim_def hw_step_sim)
next
  case False
  have p40: "p < 40" using p by simp
  have "view (ed p (gp_hw s)) = view (gp_hw s)" using tr False unfolding gpio_triggers_def by metis
  moreover have "\<not> pn_irq (pins view s ! p)" using False nth_pins [OF p40, of view s] by (simp add: pin_of_def Let_def)
  ultimately show ?thesis using ok
    by (simp add: gpio_follows_def gpios_sim_def hw_step_sim) (simp add: pins_def pin_of_def)
qed

lemma isr_sim:
  assumes chip: "gpio_chip hw view" and ok: "gpios_ok s"
  shows "gpio_follows view (gpio_step hw lv ed PIsr s) (spec_gpio PIsr (gpios_sim view s))"
proof -
  obtain t where t: "gpio_isr hw s = Some t" "gpios_ok t"
      "gp_log t = gp_log s @ concat (map (\<lambda>p. pin_served p (pin_of view s p)) [0..<40])"
      "pins view t = spec_serve_pins (pins view s)" "g_reg (view (gp_hw t)) 45 = g_reg (view (gp_hw s)) 45"
    using gpio_isr_ok [OF chip ok] by blast
  have "filter is_gpio_call (pin_served p x) = pin_served p x" for p x
  proof (cases "pn_handler x")
    case None
    then show ?thesis unfolding pin_served_def None by (cases "pn_pending x"; simp)
  next
    case (Some f)
    show ?thesis
    proof (cases f)
      case TklGpioCb
      then show ?thesis unfolding pin_served_def Some by (cases "pn_pending x"; cases "pn_cb x = 0"; simp)
    next
      case (GFunc k)
      then show ?thesis unfolding pin_served_def Some by (cases "pn_pending x"; simp)
    qed
  qed
  then have c: "filter is_gpio_call (concat (map (\<lambda>p. pin_served p (f p)) ps)) = concat (map (\<lambda>p. pin_served p (f p)) ps)"
    for f ps by (induction ps) simp_all
  have m: "map (\<lambda>p. pin_served p (pins view s ! p)) [0..<40] = map (\<lambda>p. pin_served p (pin_of view s p)) [0..<40]"
    by (rule map_cong) (simp_all only: set_upt atLeastLessThan_iff nth_pins)
  have "gpio_calls t = gpio_calls s @ concat (map (\<lambda>p. pin_served p (pins view s ! p)) [0..<40])"
    unfolding gpio_calls_def t(3) m by (simp only: filter_append c)
  then show ?thesis using t by (simp add: gpio_follows_def gpios_sim_def del: upt_Suc)
qed

lemma gpio_step_ok:
  assumes chip: "gpio_chip hw view" "gpio_triggers lv ed view" and ok: "gpios_ok s" and good: "good_gpio_op x"
  shows "gpio_follows view (gpio_step hw lv ed x s) (spec_gpio x (gpios_sim view s))"
proof (cases x)
  case (PInit i cfg)
  then show ?thesis using init_sim [OF chip(1) ok] good by (simp add: word_less_nat_alt del: gpio_step.simps spec_gpio.simps)
next
  case (PSecond c)
  then show ?thesis
    using second_ok [OF chip(1), where s = s and c = c, unfolded second_as] ok
    by (simp add: gpio_follows_def gpio_ctrl_def Let_def gpios_sim_def hw_step_sim)
next
  case (PIrqEnable i)
  then show ?thesis using ok by (simp add: gpio_follows_def tkl_gpio_irq_enable_def gpios_sim_def gpios_ok_def)
next
  case (PDeinit i)
  then show ?thesis using ok by (simp add: gpio_follows_def tkl_gpio_deinit_def)
qed (use write_sim [OF chip(1) ok] read_sim [OF chip(1) ok] irq_init_sim [OF chip(1) ok] irq_disable_sim [OF chip(1) ok]
    level_sim [OF chip(2) ok] edge_sim [OF chip(2) ok] isr_sim [OF chip(1) ok] good
    in \<open>simp_all del: gpio_step.simps spec_gpio.simps\<close>)

lemma gpio_run_ok:
  assumes chip: "gpio_chip hw view" "gpio_triggers lv ed view" and "gpios_ok s" and "list_all good_gpio_op xs"
  shows "\<exists>rs t. gpio_run hw lv ed xs s = Some (rs, t) \<and> (rs, gpios_sim view t) = spec_gpios xs (gpios_sim view s)"
  using assms(3,4)
proof (induction xs arbitrary: s)
  case (Cons x xs)
  obtain r u where u: "gpio_step hw lv ed x s = Some (r, u)" "gpios_ok u" "(r, gpios_sim view u) = spec_gpio x (gpios_sim view s)"
    using gpio_step_ok [OF chip Cons.prems(1), of x] Cons.prems(2) by (auto simp: gpio_follows_def)
  obtain rs t where t: "gpio_run hw lv ed xs u = Some (rs, t)" "(rs, gpios_sim view t) = spec_gpios xs (gpios_sim view u)"
    using Cons.IH [OF u(2)] Cons.prems(2) by auto
  show ?case using u(1) u(3) [symmetric] t(1) t(2) [symmetric] by simp
qed simp

definition quiet_pin :: pin where
  "quiet_pin = \<lparr>pn_config = 0, pn_out = False, pn_level = False, pn_func = 0, pn_irq = False, pn_trigger = 0,
     pn_pending = False, pn_handler = None, pn_cb = 0, pn_args = 0\<rparr>"

lemma boot_gpios:
  "gpios_ok (gpio_init (gpios_boot h))" "gpio_calls (gpio_init (gpios_boot h)) = []" "gp_hw (gpio_init (gpios_boot h)) = h"
  by (simp_all add: gpios_ok_def gpio_init_def gpios_boot_def log_gpio_def GPIONUM_def gpio_calls_def del: upt_Suc)

text \<open>C9. From the start of the driver on, in whatever state the controller is, the pins of TuyaOS behave as
  forty pins: whatever the order of setting pins up, writing and reading them, setting up and
  disabling interrupts, giving pins a function, changes at the pins and interrupts, every operation
  returns with the result of the specification and touches its own pins only; an interrupt calls the
  current callback of each pending pin once, in the order of the pins, and the callbacks called are
  those of the specification. Setting up an interrupt gives the pin its trigger and pull and, although its
  comment says otherwise, enables the interrupt (enabling it is then without effect, also after disabling
  it); for a pending pin it loses every pending interrupt; the pins from 32 on report success but never
  interrupt; a disabled interrupt that is pending is still served.\<close>

theorem tkl_gpio_history:
  assumes "gpio_chip hw view" and "gpio_triggers lv ed view" and "list_all good_gpio_op xs"
  shows "\<exists>rs t. gpio_run hw lv ed xs (gpio_init (gpios_boot h)) = Some (rs, t) \<and>
    (rs, pins view t, g_reg (view (gp_hw t)) 45, gpio_calls t) =
      spec_gpios xs (pins view (gpio_init (gpios_boot h)), g_reg (view h) 45, [])"
  using gpio_run_ok [OF assms(1,2) boot_gpios(1) assms(3), of h] boot_gpios(2,3) [of h]
  by (simp add: gpios_sim_def)

text \<open>A function that the switch does not name makes pin 0 one of function 0.\<close>

lemma unknown_function_takes_pin_0:
  assumes "34 \<le> unat c"
  shows "function_pins (gfunc_of c) = [0]"
  using assms by (simp add: gfunc_of_def aget_def gfunc_modes_def function_pins_def func_switch_def func_vars0_def)

text \<open>The pins that \<^verbatim>\<open>tkl_pinmux.c\<close> gives for the channels of the pulse-width modulation and of the
  converter are those that the driver gives these functions; every pin is one of the serial bus.\<close>

definition pwm_function :: "nat \<Rightarrow> gfunc_mode" where
  "pwm_function k = [GFUNC_MODE_PWM0, GFUNC_MODE_PWM1, GFUNC_MODE_PWM2, GFUNC_MODE_PWM3, GFUNC_MODE_PWM4, GFUNC_MODE_PWM5] ! k"

definition adc_function :: "nat \<Rightarrow> gfunc_mode" where
  "adc_function k = [GFUNC_MODE_ADC1, GFUNC_MODE_ADC2, GFUNC_MODE_ADC3, GFUNC_MODE_ADC4, GFUNC_MODE_ADC5, GFUNC_MODE_ADC6] ! k"

lemma function_pin_table:
  assumes "k < 6"
  shows "function_pins (Some (pwm_function k)) = [[6, 7, 8, 9, 24, 26] ! k]"
    and "function_pins (Some (adc_function k)) = [[26, 24, 23, 28, 22, 21] ! k]"
proof -
  have "k = 0 \<or> k = 1 \<or> k = 2 \<or> k = 3 \<or> k = 4 \<or> k = 5" using assms by auto
  then show "function_pins (Some (pwm_function k)) = [[6, 7, 8, 9, 24, 26] ! k]"
    and "function_pins (Some (adc_function k)) = [[26, 24, 23, 28, 22, 21] ! k]"
    by (elim disjE; simp add: pwm_function_def adc_function_def function_pins_def func_switch_def pins_row_def func_vars0_def)+
qed

lemma pin_functions_agree:
  "tkl_io_pin_to_func pin TUYA_IO_TYPE_PWM = Inr k \<longleftrightarrow> k < 6 \<and> function_pins (Some (pwm_function k)) = [unat pin]" (is ?P)
  "tkl_io_pin_to_func pin TUYA_IO_TYPE_ADC = Inr k \<longleftrightarrow> k < 6 \<and> function_pins (Some (adc_function k)) = [unat pin]" (is ?A)
  "tkl_io_pin_to_func pin TUYA_IO_TYPE_SPI = Inr 0" (is ?S)
proof -
  have p: "pin = n \<longleftrightarrow> unat pin = unat n" for n by (rule word_unat_eq_iff)
  have "?P \<and> ?A"
  proof (cases "k < 6")
    case True
    then have "k = 0 \<or> k = 1 \<or> k = 2 \<or> k = 3 \<or> k = 4 \<or> k = 5" by auto
    then show ?thesis
      using function_pin_table [OF True] by (elim disjE) (simp_all add: p tkl_io_pin_to_func_def)
  next
    case False
    then show ?thesis by (auto simp: tkl_io_pin_to_func_def)
  qed
  then show ?P and ?A by blast+
  show ?S by (auto simp: tkl_io_pin_to_func_def word_le_nat_alt)
qed

text \<open>A controller whose state is its registers.\<close>

definition reg_number :: "u32 \<Rightarrow> nat" where
  "reg_number a = unat (a - GPIO_BASE_ADDR) div 4"

definition eg_gpio :: "gview gpio_hw" where
  "eg_gpio = \<lparr>gp_rd = \<lambda>a v. (reg_word v (reg_number a), v), gp_wr = \<lambda>a x v. reg_write (reg_number a) x v,
     gp_shl = \<lambda>x k. if k < 32 then push_bit k x else 0\<rparr>"

definition eg_level :: "nat \<Rightarrow> bool \<Rightarrow> gview \<Rightarrow> gview" where
  "eg_level p b v = v\<lparr>g_level := (g_level v)(p := b)\<rparr>"

definition eg_edge :: "nat \<Rightarrow> gview \<Rightarrow> gview" where
  "eg_edge p v = (if bit (g_reg v 33) p then v\<lparr>g_sta := g_sta v OR push_bit p 1\<rparr> else v)"

lemma eg_gpio_chip: "gpio_chip eg_gpio id" "gpio_triggers eg_level eg_edge id"
proof -
  have "reg_number (gpio_reg n) = n" if "n < 56" for n
    using that by (simp add: reg_number_def gpio_reg_def unat_word_ariths unat_of_nat)
  then show "gpio_chip eg_gpio id" by (simp add: gpio_chip_def eg_gpio_def)
  show "gpio_triggers eg_level eg_edge id" by (simp add: gpio_triggers_def eg_level_def eg_edge_def)
qed

definition eg_gpio0 :: gview where
  "eg_gpio0 = \<lparr>g_reg = \<lambda>_. 0, g_level = \<lambda>_. False, g_sta = 0\<rparr>"

definition eg_gpio_ops :: "gpio_op list" where
  "eg_gpio_ops =
     [PInit 14 \<lparr>gc_mode = TUYA_GPIO_PUSH_PULL, gc_direct = TUYA_GPIO_OUTPUT, gc_level = TUYA_GPIO_LEVEL_HIGH\<rparr>,
      PIrqInit 16 (Some \<lparr>gq_mode = TUYA_GPIO_IRQ_RISE, gq_cb = 7, gq_arg = 4567\<rparr>),
      PIrqInit 35 (Some \<lparr>gq_mode = TUYA_GPIO_IRQ_RISE, gq_cb = 8, gq_arg = 1\<rparr>),
      PLevel 16 True, PEdge 16, PRead 16, PIrqDisable 16, PIsr, PEdge 16, PIsr, PWrite 40 TUYA_GPIO_LEVEL_LOW]"

lemma eg_gpio0_pins: "pins id (gpio_init (gpios_boot eg_gpio0)) = replicate 40 quiet_pin"
  by (intro pins_eqI) (simp_all add: pin_of_def Let_def quiet_pin_def gpio_init_def gpios_boot_def log_gpio_def eg_gpio0_def
      func_at_def trigger_at_def field2_def GPIONUM_def del: upt_Suc)

definition eg_outcome :: "(oprt \<times> gpio_level option) list \<times> pin_state \<Rightarrow> bool" where
  "eg_outcome r =
     (case r of (rs, xs, w, es) \<Rightarrow>
        es = [TklGpioCalled 7 4567] \<and> rs ! 5 = (OPRT_OK, Some TUYA_GPIO_LEVEL_HIGH) \<and>
        rs ! 10 = (OPRT_INVALID_PARM, None) \<and> pn_out (xs ! 14))"

lemma forty: "[0..<40 :: nat] =
  [0, 1, 2, 3, 4, 5, 6, 7, 8, 9, 10, 11, 12, 13, 14, 15, 16, 17, 18, 19,
   20, 21, 22, 23, 24, 25, 26, 27, 28, 29, 30, 31, 32, 33, 34, 35, 36, 37, 38, 39]"
  by (simp add: upt_rec)

lemma eg_gpio_spec: "eg_outcome (spec_gpios eg_gpio_ops (replicate 40 quiet_pin, 0, []))"
  by (simp add: eg_outcome_def eg_gpio_ops_def pin_as_def spec_output_def spec_irq_on_def spec_irq_off_def spec_serve_pins_def
      wanted_trigger_def input_use_def quiet_pin_def nth_list_update pin_served_def forty Let_def)

theorem tkl_gpio_history_witness:
  "\<exists>rs t. gpio_run eg_gpio eg_level eg_edge eg_gpio_ops (gpio_init (gpios_boot eg_gpio0)) = Some (rs, t) \<and>
    gpio_calls t = [TklGpioCalled 7 4567] \<and> rs ! 5 = (OPRT_OK, Some TUYA_GPIO_LEVEL_HIGH) \<and>
    rs ! 10 = (OPRT_INVALID_PARM, None) \<and> pn_out (pins id t ! 14)"
proof -
  have w: "g_reg (id eg_gpio0) 45 = 0" by (simp add: eg_gpio0_def)
  have "list_all good_gpio_op eg_gpio_ops" by code_simp
  from tkl_gpio_history [OF eg_gpio_chip this, of eg_gpio0] obtain rs t where
    r: "gpio_run eg_gpio eg_level eg_edge eg_gpio_ops (gpio_init (gpios_boot eg_gpio0)) = Some (rs, t)"
      "(rs, pins id t, g_reg (id (gp_hw t)) 45, gpio_calls t) = spec_gpios eg_gpio_ops (replicate 40 quiet_pin, 0, [])"
    unfolding eg_gpio0_pins w by blast
  have "eg_outcome (rs, pins id t, g_reg (id (gp_hw t)) 45, gpio_calls t)" unfolding r(2) by (rule eg_gpio_spec)
  then show ?thesis using r(1) by (simp add: eg_outcome_def)
qed

end
