(* ===== verification/Restart.thy ===== *)
theory Restart
  imports Intc
begin

text \<open>
  The watchdog and the reasons of a restart: \<^verbatim>\<open>driver/wdt/wdt.c\<close>, \<^verbatim>\<open>func/user_driver/BkDriverWdg.c\<close>,
  \<^verbatim>\<open>tkl_watchdog.c\<close>, \<^verbatim>\<open>func/misc/start_type.c\<close> as built for the BK7231N, the traps of \<^verbatim>\<open>intc.c\<close>,
  \<^verbatim>\<open>bk_reboot\<close> of \<^verbatim>\<open>wlan_ui.c\<close>, the start of \<^verbatim>\<open>entry_main\<close> and what \<^verbatim>\<open>tkl_system.c\<close> reports. Software
  notes why it restarts in the low half of a register that survives a reset, and lets the watchdog
  expire; the start code reads the note.

  Busy waiting has no effect on the state. A function that ends in an endless loop has the state in
  which it spins as its result. The command table of the drivers is not repeated here:
  \<^verbatim>\<open>sddev_control\<close> on the watchdog and on the interrupt controller is \<^verbatim>\<open>wdt_ctrl\<close> and \<^verbatim>\<open>icu_ctrl\<close>.
\<close>

section \<open>Registers and state\<close>

datatype boot_reg =
    SCTRL_SW_RETENTION
  | SCTRL_ROSC_TIMER
  | SCTRL_GPIO_WAKEUP_INT_STATUS
  | START_TYPE_ADDR
  | START_TYPE_DMEMORY_ADDR
  | WDT_CTRL_REG

record 'h boot_hw =
  bt_rd :: "boot_reg \<Rightarrow> 'h \<Rightarrow> u32 \<times> 'h"
  bt_wr :: "boot_reg \<Rightarrow> u32 \<Rightarrow> 'h \<Rightarrow> 'h"

datatype reset_source =
    RESET_SOURCE_POWERON | RESET_SOURCE_REBOOT | RESET_SOURCE_WATCHDOG | RESET_SOURCE_DEEPPS_GPIO
  | RESET_SOURCE_DEEPPS_RTC | RESET_SOURCE_CRASH_XAT0 | RESET_SOURCE_CRASH_UNDEFINED
  | RESET_SOURCE_CRASH_PREFETCH_ABORT | RESET_SOURCE_CRASH_DATA_ABORT | RESET_SOURCE_CRASH_UNUSED
  | RESET_SOURCE_CRASH_PER_XAT0 | RESET_SOURCE_UNKNOWN

definition source_code :: "reset_source \<Rightarrow> u32" where
  "source_code t =
     (case t of RESET_SOURCE_POWERON \<Rightarrow> 0 | RESET_SOURCE_REBOOT \<Rightarrow> 1 | RESET_SOURCE_WATCHDOG \<Rightarrow> 2
      | RESET_SOURCE_DEEPPS_GPIO \<Rightarrow> 3 | RESET_SOURCE_DEEPPS_RTC \<Rightarrow> 4 | RESET_SOURCE_CRASH_XAT0 \<Rightarrow> 5
      | RESET_SOURCE_CRASH_UNDEFINED \<Rightarrow> 6 | RESET_SOURCE_CRASH_PREFETCH_ABORT \<Rightarrow> 7
      | RESET_SOURCE_CRASH_DATA_ABORT \<Rightarrow> 8 | RESET_SOURCE_CRASH_UNUSED \<Rightarrow> 9
      | RESET_SOURCE_CRASH_PER_XAT0 \<Rightarrow> 10 | RESET_SOURCE_UNKNOWN \<Rightarrow> 0xb)"

record 'h restart =
  rs_hw :: 'h
  g_wdt_period :: u32
  start_type :: reset_source

definition CRASH_XAT0_VALUE :: u32 where "CRASH_XAT0_VALUE = 0xbedead00"
definition CRASH_UNDEFINED_VALUE :: u32 where "CRASH_UNDEFINED_VALUE = 0xbedead01"
definition CRASH_PREFETCH_ABORT_VALUE :: u32 where "CRASH_PREFETCH_ABORT_VALUE = 0xbedead02"
definition CRASH_DATA_ABORT_VALUE :: u32 where "CRASH_DATA_ABORT_VALUE = 0xbedead03"
definition CRASH_UNUSED_VALUE :: u32 where "CRASH_UNUSED_VALUE = 0xbedead04"
definition CRASH_2ND_XAT0_VALUE :: u32 where "CRASH_2ND_XAT0_VALUE = 0xbedead05"
definition SW_RETENTION_WDT_FLAG :: u32 where "SW_RETENTION_WDT_FLAG = push_bit 16 1"
definition SW_RETENTION_VAL_MASK :: u32 where "SW_RETENTION_VAL_MASK = 0xFFFF"
definition ROSC_TIMER_INT_STATUS_BIT :: u32 where "ROSC_TIMER_INT_STATUS_BIT = push_bit 8 1"
definition PWD_ARM_WATCHDOG_CLK_BIT :: u32 where "PWD_ARM_WATCHDOG_CLK_BIT = push_bit 8 1"
definition WDT_KEY_POSI :: nat where "WDT_KEY_POSI = 16"
definition WDT_1ST_KEY :: u32 where "WDT_1ST_KEY = 0x5A"
definition WDT_2ND_KEY :: u32 where "WDT_2ND_KEY = 0xA5"
definition WDT_PERIOD_POSI :: nat where "WDT_PERIOD_POSI = 0"
definition WDT_PERIOD_MASK :: u32 where "WDT_PERIOD_MASK = 0xFFFF"
definition WDT_SUCCESS :: u32 where "WDT_SUCCESS = 0"

section \<open>Notes that survive a reset\<close>

definition bk_misc_update_set_type :: "'h boot_hw \<Rightarrow> reset_source \<Rightarrow> 'h \<Rightarrow> 'h" where
  "bk_misc_update_set_type hw type h = bt_wr hw SCTRL_SW_RETENTION (source_code type AND SW_RETENTION_VAL_MASK) h"

definition sctrl_get_deep_sleep_wake_soure :: "'h boot_hw \<Rightarrow> 'h \<Rightarrow> reset_source \<times> 'h" where
  "sctrl_get_deep_sleep_wake_soure hw h =
     (let (v, h) = bt_rd hw SCTRL_ROSC_TIMER h
      in if v AND ROSC_TIMER_INT_STATUS_BIT \<noteq> 0 then (RESET_SOURCE_DEEPPS_RTC, h)
         else let (v, h) = bt_rd hw SCTRL_GPIO_WAKEUP_INT_STATUS h
              in if v \<noteq> 0 then (RESET_SOURCE_DEEPPS_GPIO, h) else (RESET_SOURCE_POWERON, h))"

definition noted_source :: "u32 \<Rightarrow> reset_source" where
  "noted_source v =
     (if v = source_code RESET_SOURCE_REBOOT AND SW_RETENTION_VAL_MASK then RESET_SOURCE_REBOOT
      else if v = CRASH_UNDEFINED_VALUE AND SW_RETENTION_VAL_MASK then RESET_SOURCE_CRASH_UNDEFINED
      else if v = CRASH_PREFETCH_ABORT_VALUE AND SW_RETENTION_VAL_MASK then RESET_SOURCE_CRASH_PREFETCH_ABORT
      else if v = CRASH_DATA_ABORT_VALUE AND SW_RETENTION_VAL_MASK then RESET_SOURCE_CRASH_DATA_ABORT
      else if v = CRASH_UNUSED_VALUE AND SW_RETENTION_VAL_MASK then RESET_SOURCE_CRASH_UNUSED
      else if v = CRASH_2ND_XAT0_VALUE AND SW_RETENTION_VAL_MASK then RESET_SOURCE_CRASH_XAT0
      else if v = source_code RESET_SOURCE_WATCHDOG AND SW_RETENTION_VAL_MASK then RESET_SOURCE_WATCHDOG
      else RESET_SOURCE_UNKNOWN)"

definition bk_misc_init_start_type :: "'h boot_hw \<Rightarrow> 'h restart \<Rightarrow> 'h restart" where
  "bk_misc_init_start_type hw s =
     (let (misc_value, h) = bt_rd hw SCTRL_SW_RETENTION (rs_hw s);
          (t, h) = sctrl_get_deep_sleep_wake_soure hw h;
          (t, h) =
            (if t \<noteq> RESET_SOURCE_POWERON then (t, h)
             else if misc_value AND SW_RETENTION_WDT_FLAG = 0
             then let (m, h) = bt_rd hw START_TYPE_DMEMORY_ADDR h
                  in (if m = CRASH_XAT0_VALUE then RESET_SOURCE_CRASH_PER_XAT0 else RESET_SOURCE_POWERON, h)
             else (noted_source (misc_value AND SW_RETENTION_VAL_MASK), h));
          h = bt_wr hw SCTRL_SW_RETENTION misc_value h;
          h = bt_wr hw START_TYPE_DMEMORY_ADDR CRASH_XAT0_VALUE h
      in s\<lparr>rs_hw := h, start_type := t\<rparr>)"

section \<open>The watchdog\<close>

datatype wdt_cmd = WCMD_POWER_UP | WCMD_SET_PERIOD "u32 option" | WCMD_RELOAD_PERIOD | WCMD_POWER_DOWN

definition wdt_keys :: "'h boot_hw \<Rightarrow> u32 \<Rightarrow> 'h \<Rightarrow> 'h" where
  "wdt_keys hw period h =
     (let reg = push_bit WDT_KEY_POSI WDT_1ST_KEY;
          reg = reg OR push_bit WDT_PERIOD_POSI (period AND WDT_PERIOD_MASK);
          h = bt_wr hw WDT_CTRL_REG reg h;
          reg = push_bit WDT_KEY_POSI WDT_2ND_KEY;
          reg = reg OR push_bit WDT_PERIOD_POSI (period AND WDT_PERIOD_MASK)
      in bt_wr hw WDT_CTRL_REG reg h)"

definition wdt_clock :: "'h intc_env \<Rightarrow> icu_cmd \<Rightarrow> 'h restart \<Rightarrow> (u32 \<times> 'h restart) option" where
  "wdt_clock e cmd s =
     do {
       (ret, h) \<leftarrow> icu_ctrl e cmd (Some PWD_ARM_WATCHDOG_CLK_BIT) (rs_hw s);
       if ret = 0 then Some (ret, s\<lparr>rs_hw := h\<rparr>) else None
     }"

definition wdt_ctrl :: "'h intc_env \<Rightarrow> 'h boot_hw \<Rightarrow> wdt_cmd \<Rightarrow> 'h restart \<Rightarrow> (u32 \<times> 'h restart) option" where
  "wdt_ctrl e hw cmd s =
     (case cmd of
        WCMD_POWER_DOWN \<Rightarrow> wdt_clock e CMD_CLK_PWR_DOWN (s\<lparr>g_wdt_period := 0\<rparr>)
      | WCMD_POWER_UP \<Rightarrow> wdt_clock e CMD_CLK_PWR_UP s
      | WCMD_RELOAD_PERIOD \<Rightarrow>
          (let h = wdt_keys hw (g_wdt_period s) (rs_hw s)
           in Some (WDT_SUCCESS, s\<lparr>rs_hw := bk_misc_update_set_type hw RESET_SOURCE_WATCHDOG h\<rparr>))
      | WCMD_SET_PERIOD param \<Rightarrow>
          do { p \<leftarrow> param; Some (WDT_SUCCESS, s\<lparr>g_wdt_period := p, rs_hw := wdt_keys hw p (rs_hw s)\<rparr>) })"

definition wdt_asserted :: "'h intc_env \<Rightarrow> 'h boot_hw \<Rightarrow> wdt_cmd \<Rightarrow> 'h restart \<Rightarrow> 'h restart option" where
  "wdt_asserted e hw cmd s = do { (ret, s) \<leftarrow> wdt_ctrl e hw cmd s; if ret = WDT_SUCCESS then Some s else None }"

definition bk_wdg_initialize :: "'h intc_env \<Rightarrow> 'h boot_hw \<Rightarrow> u32 \<Rightarrow> 'h restart \<Rightarrow> 'h restart option" where
  "bk_wdg_initialize e hw timeout s =
     do { s \<leftarrow> wdt_asserted e hw WCMD_POWER_UP s; wdt_asserted e hw (WCMD_SET_PERIOD (Some timeout)) s }"

definition bk_wdg_reload :: "'h intc_env \<Rightarrow> 'h boot_hw \<Rightarrow> 'h restart \<Rightarrow> 'h restart option" where
  "bk_wdg_reload e hw s = wdt_asserted e hw WCMD_RELOAD_PERIOD s"

definition bk_wdg_finalize :: "'h intc_env \<Rightarrow> 'h boot_hw \<Rightarrow> 'h restart \<Rightarrow> 'h restart option" where
  "bk_wdg_finalize e hw s = wdt_asserted e hw WCMD_POWER_DOWN s"

text \<open>The result is the interval, which is also stored into the configuration.\<close>

definition tkl_watchdog_init :: "'h intc_env \<Rightarrow> 'h boot_hw \<Rightarrow> u32 \<Rightarrow> 'h restart \<Rightarrow> (u32 \<times> 'h restart) option" where
  "tkl_watchdog_init e hw interval_ms s =
     (let interval_ms = (if 60000 < interval_ms then 60000 else interval_ms)
      in do { s \<leftarrow> bk_wdg_initialize e hw interval_ms s; Some (interval_ms, s) })"

definition tkl_watchdog_deinit :: "'h intc_env \<Rightarrow> 'h boot_hw \<Rightarrow> 'h restart \<Rightarrow> (oprt \<times> 'h restart) option" where
  "tkl_watchdog_deinit e hw s = do { s \<leftarrow> bk_wdg_finalize e hw s; Some (OPRT_OK, s) }"

definition tkl_watchdog_refresh :: "'h intc_env \<Rightarrow> 'h boot_hw \<Rightarrow> 'h restart \<Rightarrow> (oprt \<times> 'h restart) option" where
  "tkl_watchdog_refresh e hw s = do { s \<leftarrow> bk_wdg_reload e hw s; Some (OPRT_OK, s) }"

section \<open>Ways to restart\<close>

definition bk_reboot :: "'h intc_env \<Rightarrow> 'h boot_hw \<Rightarrow> 'h restart \<Rightarrow> 'h restart option" where
  "bk_reboot e hw s =
     do {
       let s = s\<lparr>rs_hw := bk_misc_update_set_type hw RESET_SOURCE_REBOOT (rs_hw s)\<rparr>;
       (_, s) \<leftarrow> wdt_ctrl e hw WCMD_POWER_DOWN s;
       (_, s) \<leftarrow> wdt_ctrl e hw (WCMD_SET_PERIOD (Some 5)) s;
       (_, s) \<leftarrow> wdt_ctrl e hw WCMD_POWER_UP s;
       Some s
     }"

definition tkl_system_reset :: "'h intc_env \<Rightarrow> 'h boot_hw \<Rightarrow> 'h restart \<Rightarrow> 'h restart option" where
  "tkl_system_reset e hw s = bk_reboot e hw s"

definition bk_misc_crash_xat0_reboot :: "'h intc_env \<Rightarrow> 'h boot_hw \<Rightarrow> 'h restart \<Rightarrow> 'h restart option" where
  "bk_misc_crash_xat0_reboot e hw s =
     do {
       (_, h) \<leftarrow> icu_ctrl e CMD_CLK_PWR_DOWN (Some PWD_ARM_WATCHDOG_CLK_BIT) (rs_hw s);
       (_, s) \<leftarrow> wdt_ctrl e hw (WCMD_SET_PERIOD (Some 5)) (s\<lparr>rs_hw := h\<rparr>);
       (_, h) \<leftarrow> icu_ctrl e CMD_CLK_PWR_UP (Some PWD_ARM_WATCHDOG_CLK_BIT) (rs_hw s);
       Some (s\<lparr>rs_hw := h\<rparr>)
     }"

text \<open>The traps: the noted value, then the processor spins.\<close>

datatype trap = Udef | Pabt | Dabt | Resv

definition bk_trap :: "'h boot_hw \<Rightarrow> trap \<Rightarrow> 'h restart \<Rightarrow> 'h restart" where
  "bk_trap hw t s =
     s\<lparr>rs_hw := bt_wr hw START_TYPE_ADDR
        ((case t of Udef \<Rightarrow> CRASH_UNDEFINED_VALUE | Pabt \<Rightarrow> CRASH_PREFETCH_ABORT_VALUE
          | Dabt \<Rightarrow> CRASH_DATA_ABORT_VALUE | Resv \<Rightarrow> CRASH_UNUSED_VALUE) AND 0xffff) (rs_hw s)\<rparr>"

section \<open>Starting\<close>

text \<open>The first result says whether the start goes on; otherwise it spins until the watchdog expires.\<close>

definition bk_misc_check_start_type :: "'h intc_env \<Rightarrow> 'h boot_hw \<Rightarrow> 'h restart \<Rightarrow> (bool \<times> 'h restart) option" where
  "bk_misc_check_start_type e hw s =
     (if start_type s = RESET_SOURCE_CRASH_PER_XAT0
      then do {
        let s = s\<lparr>rs_hw := bt_wr hw SCTRL_SW_RETENTION (CRASH_2ND_XAT0_VALUE AND SW_RETENTION_VAL_MASK) (rs_hw s)\<rparr>;
        s \<leftarrow> bk_misc_crash_xat0_reboot e hw s;
        Some (False, s)
      }
      else Some (True, s))"

text \<open>Up to the call of the application, when the pin that selects the factory test is not set; between
  the two periods the drivers are initialised, which leaves the registers of this model alone.\<close>

definition entry_main :: "'h intc_env \<Rightarrow> 'h boot_hw \<Rightarrow> 'h restart \<Rightarrow> (bool \<times> 'h restart) option" where
  "entry_main e hw s =
     do {
       let s = bk_misc_init_start_type hw s;
       (goes_on, s) \<leftarrow> bk_misc_check_start_type e hw s;
       if \<not> goes_on then Some (False, s)
       else do {
         (_, h) \<leftarrow> icu_ctrl e CMD_CLK_PWR_UP (Some PWD_ARM_WATCHDOG_CLK_BIT) (rs_hw s);
         (_, s) \<leftarrow> wdt_ctrl e hw (WCMD_SET_PERIOD (Some 2000)) (s\<lparr>rs_hw := h\<rparr>);
         (_, s) \<leftarrow> wdt_ctrl e hw (WCMD_SET_PERIOD (Some 60000)) s;
         s \<leftarrow> bk_wdg_finalize e hw s;
         Some (True, s)
       }
     }"

datatype reset_reason =
    TUYA_RESET_REASON_POWERON | TUYA_RESET_REASON_HW_WDOG | TUYA_RESET_REASON_FAULT
  | TUYA_RESET_REASON_SOFTWARE | TUYA_RESET_REASON_DEEPSLEEP | TUYA_RESET_REASON_UNKNOWN

definition tkl_system_get_reset_reason :: "'h restart \<Rightarrow> reset_reason" where
  "tkl_system_get_reset_reason s =
     (case start_type s of
        RESET_SOURCE_POWERON \<Rightarrow> TUYA_RESET_REASON_POWERON
      | RESET_SOURCE_REBOOT \<Rightarrow> TUYA_RESET_REASON_SOFTWARE
      | RESET_SOURCE_WATCHDOG \<Rightarrow> TUYA_RESET_REASON_HW_WDOG
      | RESET_SOURCE_DEEPPS_GPIO \<Rightarrow> TUYA_RESET_REASON_DEEPSLEEP
      | RESET_SOURCE_DEEPPS_RTC \<Rightarrow> TUYA_RESET_REASON_DEEPSLEEP
      | RESET_SOURCE_UNKNOWN \<Rightarrow> TUYA_RESET_REASON_UNKNOWN
      | _ \<Rightarrow> TUYA_RESET_REASON_FAULT)"

section \<open>The chip\<close>

text \<open>What is behind the registers: the retention register, the word in memory, the reason of a
  wake-up, the register that powers clocks down, the period that the first key announced and the
  period in force.\<close>

record bview =
  b_ret :: u32
  b_ram :: u32
  b_wake :: reset_source
  b_pwd :: u32
  b_armed :: "u32 option"
  b_period :: u32

text \<open>The flag of the watchdog in the retention register: \<open>fl old new\<close> is what it is after a write. The
  low half is stored. \<open>alias\<close> says whether the register that the traps write is the same one.\<close>

definition ret_write :: "(bool \<Rightarrow> bool \<Rightarrow> bool) \<Rightarrow> u32 \<Rightarrow> u32 \<Rightarrow> u32" where
  "ret_write fl old x = (x AND 0xFFFF) OR (if fl (bit old 16) (bit x 16) then 0x10000 else 0)"

definition wdt_write :: "u32 \<Rightarrow> bview \<Rightarrow> bview" where
  "wdt_write x v =
     (let key = drop_bit 16 x AND 0xFF; p = x AND 0xFFFF
      in if key = 0x5A then v\<lparr>b_armed := Some p\<rparr>
         else if key = 0xA5 \<and> b_armed v = Some p then v\<lparr>b_armed := None, b_period := p\<rparr>
         else v\<lparr>b_armed := None\<rparr>)"

definition boot_chip ::
  "'h intc_env \<Rightarrow> 'h boot_hw \<Rightarrow> (bool \<Rightarrow> bool \<Rightarrow> bool) \<Rightarrow> bool \<Rightarrow> ('h \<Rightarrow> bview) \<Rightarrow> bool" where
  "boot_chip e hw fl alias view \<longleftrightarrow>
     (\<forall>h. let v = view h; r = bt_rd hw SCTRL_SW_RETENTION h in fst r = b_ret v \<and> view (snd r) = v) \<and>
     (\<forall>h. let v = view h; r = bt_rd hw START_TYPE_DMEMORY_ADDR h in fst r = b_ram v \<and> view (snd r) = v) \<and>
     (\<forall>h. let v = view h; r = bt_rd hw SCTRL_ROSC_TIMER h
          in (fst r AND ROSC_TIMER_INT_STATUS_BIT \<noteq> 0 \<longleftrightarrow> b_wake v = RESET_SOURCE_DEEPPS_RTC) \<and> view (snd r) = v) \<and>
     (\<forall>h. let v = view h; r = bt_rd hw SCTRL_GPIO_WAKEUP_INT_STATUS h
          in (fst r \<noteq> 0 \<longleftrightarrow> b_wake v = RESET_SOURCE_DEEPPS_GPIO) \<and> view (snd r) = v) \<and>
     (\<forall>h x. view (bt_wr hw SCTRL_SW_RETENTION x h) = (view h)\<lparr>b_ret := ret_write fl (b_ret (view h)) x\<rparr>) \<and>
     (\<forall>h x. view (bt_wr hw START_TYPE_DMEMORY_ADDR x h) = (view h)\<lparr>b_ram := x\<rparr>) \<and>
     (\<forall>h x. view (bt_wr hw START_TYPE_ADDR x h) =
        (if alias then (view h)\<lparr>b_ret := ret_write fl (b_ret (view h)) x\<rparr> else view h)) \<and>
     (\<forall>h x. view (bt_wr hw WDT_CTRL_REG x h) = wdt_write x (view h)) \<and>
     (\<forall>h. let v = view h; r = ie_rd e ICU_PERI_CLK_PWD h in fst r = b_pwd v \<and> view (snd r) = v) \<and>
     (\<forall>h x. view (ie_wr e ICU_PERI_CLK_PWD x h) = (view h)\<lparr>b_pwd := x\<rparr>)"

definition dog_on :: "bview \<Rightarrow> bool" where
  "dog_on v \<longleftrightarrow> \<not> bit (b_pwd v) 8"

end
