(* ===== verification/RestartFlow.thy ===== *)
theory RestartFlow
  imports Restart
begin

text \<open>
  What a device reports about its restarts. A life of the device is a sequence of events: power, the
  operations on the watchdog, a reboot asked for, a program that hangs, a trap, a jump to address 0 and
  a wake-up from deep sleep. The flow of the code through two starts, the retention register and the
  watchdog gives just the reasons of the specification below.
\<close>

section \<open>Bits\<close>

lemma mask16: "(0xFFFF :: u32) = mask 16"
  by (simp add: mask_eq_exp_minus_1)

lemma low_half_same:
  assumes "unat (p :: u32) < 65536"
  shows "p AND 0xFFFF = p"
  using assms unfolding mask16 take_bit_eq_mask [symmetric]
  by (simp add: word_unat_eq_iff unsigned_take_bit_eq take_bit_nat_eq_self)

lemma bit_half: "bit (x AND 0xFFFF :: u32) k \<longleftrightarrow> k < 16 \<and> bit x k"
  unfolding mask16 by (auto simp: bit_and_iff bit_mask_iff dest: bit_imp_le_length)

lemma flag_bit: "bit (0x10000 :: u32) k \<longleftrightarrow> k = 16"
  using bit_exp_iff [of 16 k, where ?'a = u32] by auto

lemma ret_write_parts:
  "ret_write fl old x AND 0xFFFF = x AND 0xFFFF"
  "bit (ret_write fl old x) 16 \<longleftrightarrow> fl (bit old 16) (bit x 16)"
proof -
  show "ret_write fl old x AND 0xFFFF = x AND 0xFFFF"
    by (rule bit_word_eqI) (simp only: ret_write_def bit_half bit_or_iff if_distrib flag_bit bit_0_eq split: if_split, auto)
  show "bit (ret_write fl old x) 16 \<longleftrightarrow> fl (bit old 16) (bit x 16)"
    by (simp only: ret_write_def bit_half bit_or_iff flag_bit split: if_split) auto
qed

lemma flag_parts: "(x OR 0x10000) AND 0xFFFF = (x AND 0xFFFF :: u32)" "bit (x OR 0x10000 :: u32) 16"
proof -
  show "(x OR 0x10000) AND 0xFFFF = (x AND 0xFFFF :: u32)"
    by (rule bit_word_eqI) (simp only: bit_half bit_or_iff flag_bit, auto)
  show "bit (x OR 0x10000 :: u32) 16" by (simp only: bit_or_iff flag_bit) auto
qed

lemma flag_test: "misc AND SW_RETENTION_WDT_FLAG = 0 \<longleftrightarrow> \<not> bit misc 16"
  unfolding SW_RETENTION_WDT_FLAG_def by (metis bit_iff_and_push_bit_not_eq_0)

lemma low_word_no_flag: "unat (x :: u32) < 65536 \<Longrightarrow> \<not> bit x 16"
  using bit_half [of x 16] low_half_same [of x] by simp

section \<open>The registers\<close>

lemma boot_chipD:
  assumes "boot_chip e hw fl alias view"
  shows "fst (bt_rd hw SCTRL_SW_RETENTION h) = b_ret (view h)" "view (snd (bt_rd hw SCTRL_SW_RETENTION h)) = view h"
    and "fst (bt_rd hw START_TYPE_DMEMORY_ADDR h) = b_ram (view h)" "view (snd (bt_rd hw START_TYPE_DMEMORY_ADDR h)) = view h"
    and "fst (bt_rd hw SCTRL_ROSC_TIMER h) AND ROSC_TIMER_INT_STATUS_BIT \<noteq> 0 \<longleftrightarrow> b_wake (view h) = RESET_SOURCE_DEEPPS_RTC"
    and "view (snd (bt_rd hw SCTRL_ROSC_TIMER h)) = view h"
    and "fst (bt_rd hw SCTRL_GPIO_WAKEUP_INT_STATUS h) \<noteq> 0 \<longleftrightarrow> b_wake (view h) = RESET_SOURCE_DEEPPS_GPIO"
    and "view (snd (bt_rd hw SCTRL_GPIO_WAKEUP_INT_STATUS h)) = view h"
    and "view (bt_wr hw SCTRL_SW_RETENTION x h) = (view h)\<lparr>b_ret := ret_write fl (b_ret (view h)) x\<rparr>"
    and "view (bt_wr hw START_TYPE_DMEMORY_ADDR x h) = (view h)\<lparr>b_ram := x\<rparr>"
    and "view (bt_wr hw START_TYPE_ADDR x h) = (if alias then (view h)\<lparr>b_ret := ret_write fl (b_ret (view h)) x\<rparr> else view h)"
    and "view (bt_wr hw WDT_CTRL_REG x h) = wdt_write x (view h)"
    and "fst (ie_rd e ICU_PERI_CLK_PWD h) = b_pwd (view h)" "view (snd (ie_rd e ICU_PERI_CLK_PWD h)) = view h"
    and "view (ie_wr e ICU_PERI_CLK_PWD x h) = (view h)\<lparr>b_pwd := x\<rparr>"
  using assms unfolding boot_chip_def Let_def by blast+

text \<open>The two keys put the period in force.\<close>

lemma keyed:
  assumes "k \<in> {0x5A, 0xA5}"
  shows "drop_bit 16 (push_bit 16 k OR (p AND 0xFFFF)) AND 0xFF = (k :: u32)" and "(push_bit 16 k OR (p AND 0xFFFF)) AND 0xFFFF = (p AND 0xFFFF :: u32)"
proof -
  have z: "drop_bit 16 (p AND 0xFFFF) = (0 :: u32)"
    by (rule bit_word_eqI) (simp add: bit_drop_bit_eq bit_half)
  have "drop_bit 16 (push_bit 16 k OR (p AND 0xFFFF)) AND 0xFF = drop_bit 16 (push_bit 16 k) AND 0xFF"
    by (simp only: drop_bit_or z or.right_neutral)
  also have "\<dots> = k" using assms by auto
  finally show "drop_bit 16 (push_bit 16 k OR (p AND 0xFFFF)) AND 0xFF = k" .
  show "(push_bit 16 k OR (p AND 0xFFFF)) AND 0xFFFF = (p AND 0xFFFF :: u32)"
    by (rule bit_word_eqI) (simp only: bit_half bit_or_iff bit_push_bit_iff, auto)
qed

lemma keys_view:
  assumes "boot_chip e hw fl alias view"
  shows "view (wdt_keys hw p h) = (view h)\<lparr>b_armed := None, b_period := p AND 0xFFFF\<rparr>"
  using keyed [where k = "0x5A" and p = p] keyed [where k = "0xA5" and p = p]
  by (simp add: wdt_keys_def Let_def boot_chipD(12) [OF assms] wdt_write_def WDT_KEY_POSI_def WDT_1ST_KEY_def WDT_2ND_KEY_def
      WDT_PERIOD_POSI_def WDT_PERIOD_MASK_def)

lemma clock_view:
  assumes "boot_chip e hw fl alias view"
  shows "\<exists>h'. icu_ctrl e CMD_CLK_PWR_UP (Some PWD_ARM_WATCHDOG_CLK_BIT) h = Some (0, h') \<and>
      view h' = (view h)\<lparr>b_pwd := b_pwd (view h) AND NOT (push_bit 8 1)\<rparr>"
    and "\<exists>h'. icu_ctrl e CMD_CLK_PWR_DOWN (Some PWD_ARM_WATCHDOG_CLK_BIT) h = Some (0, h') \<and>
      view h' = (view h)\<lparr>b_pwd := b_pwd (view h) OR push_bit 8 1\<rparr>"
proof -
  obtain r k where r: "ie_rd e ICU_PERI_CLK_PWD h = (r, k)" by fastforce
  then have v: "r = b_pwd (view h)" "view k = view h" using boot_chipD(13,14) [OF assms, of h] by simp_all
  show "\<exists>h'. icu_ctrl e CMD_CLK_PWR_UP (Some PWD_ARM_WATCHDOG_CLK_BIT) h = Some (0, h') \<and>
      view h' = (view h)\<lparr>b_pwd := b_pwd (view h) AND NOT (push_bit 8 1)\<rparr>"
    by (simp add: icu_ctrl_def icu_modify_def r PWD_ARM_WATCHDOG_CLK_BIT_def boot_chipD(15) [OF assms] v)
  show "\<exists>h'. icu_ctrl e CMD_CLK_PWR_DOWN (Some PWD_ARM_WATCHDOG_CLK_BIT) h = Some (0, h') \<and>
      view h' = (view h)\<lparr>b_pwd := b_pwd (view h) OR push_bit 8 1\<rparr>"
    by (simp add: icu_ctrl_def icu_modify_def r PWD_ARM_WATCHDOG_CLK_BIT_def boot_chipD(15) [OF assms] v)
qed

lemma clock_bit: "\<not> bit (x AND NOT (push_bit 8 1) :: u32) 8" "bit (x OR push_bit 8 1 :: u32) 8"
  by (simp_all only: bit_and_iff bit_or_iff bit_not_iff bit_push_bit_iff) auto

section \<open>The specification\<close>

text \<open>What is noted in the retention register and its flag, whether memory holds the word that a start
  leaves there, the source of a wake-up, the watchdog, and the reason reported.\<close>

record life =
  lf_note :: u32
  lf_flag :: bool
  lf_magic :: bool
  lf_wake :: reset_source
  lf_on :: bool
  lf_period :: u32
  lf_saved :: u32
  lf_reason :: reset_reason

definition life_of :: "('h \<Rightarrow> bview) \<Rightarrow> 'h restart \<Rightarrow> life" where
  "life_of view s =
     (let v = view (rs_hw s)
      in \<lparr>lf_note = b_ret v AND 0xFFFF, lf_flag = bit (b_ret v) 16, lf_magic = (b_ram v = CRASH_XAT0_VALUE), lf_wake = b_wake v,
          lf_on = dog_on v, lf_period = b_period v, lf_saved = g_wdt_period s, lf_reason = tkl_system_get_reset_reason s\<rparr>)"

text \<open>The reason that a note stands for, and the life that the program runs in after a start.\<close>

definition note_reason :: "u32 \<Rightarrow> reset_reason" where
  "note_reason v =
     (if v = 1 then TUYA_RESET_REASON_SOFTWARE else if v = 2 then TUYA_RESET_REASON_HW_WDOG
      else if v \<in> {0xad01, 0xad02, 0xad03, 0xad04, 0xad05} then TUYA_RESET_REASON_FAULT else TUYA_RESET_REASON_UNKNOWN)"

definition running :: "(bool \<Rightarrow> bool \<Rightarrow> bool) \<Rightarrow> reset_reason \<Rightarrow> life \<Rightarrow> life" where
  "running fl r l =
     l\<lparr>lf_flag := fl (lf_flag l) (lf_flag l), lf_magic := True, lf_on := False, lf_period := 60000, lf_saved := 0,
       lf_reason := r\<rparr>"

text \<open>A wake-up comes first, then the note if the watchdog's flag is set. A jump to address 0 is found with
  the flag clear and the word in memory; the code notes it and starts a second time.\<close>

definition life_start :: "(bool \<Rightarrow> bool \<Rightarrow> bool) \<Rightarrow> life \<Rightarrow> life" where
  "life_start fl l =
     (if lf_wake l \<noteq> RESET_SOURCE_POWERON then running fl TUYA_RESET_REASON_DEEPSLEEP l
      else if lf_flag l then running fl (note_reason (lf_note l)) l
      else if lf_magic l then running fl TUYA_RESET_REASON_FAULT (l\<lparr>lf_note := 0xad05, lf_flag := True\<rparr>)
      else running fl TUYA_RESET_REASON_POWERON l)"

datatype life_event =
    PowerCycle
  | Reboot
  | DogStart u32
  | DogRefresh
  | DogStop
  | Hang
  | Trap trap
  | JumpZero
  | WakeUp bool

definition trap_note :: "trap \<Rightarrow> u32" where
  "trap_note t = (case t of Udef \<Rightarrow> 0xad01 | Pabt \<Rightarrow> 0xad02 | Dabt \<Rightarrow> 0xad03 | Resv \<Rightarrow> 0xad04)"

definition spec_hang :: "(bool \<Rightarrow> bool \<Rightarrow> bool) \<Rightarrow> life \<Rightarrow> life option" where
  "spec_hang fl l =
     (if lf_on l then Some (running fl (note_reason (lf_note l)) (l\<lparr>lf_flag := True, lf_wake := RESET_SOURCE_POWERON\<rparr>))
      else None)"

text \<open>\<open>None\<close>: the device hangs for good.\<close>

fun spec_life :: "(bool \<Rightarrow> bool \<Rightarrow> bool) \<Rightarrow> bool \<Rightarrow> life_event \<Rightarrow> life \<Rightarrow> life option" where
  "spec_life fl alias PowerCycle l =
     Some (running fl TUYA_RESET_REASON_POWERON (l\<lparr>lf_note := 0, lf_flag := False, lf_wake := RESET_SOURCE_POWERON\<rparr>))"
| "spec_life fl alias Reboot l =
     Some (running fl TUYA_RESET_REASON_SOFTWARE (l\<lparr>lf_note := 1, lf_flag := True, lf_wake := RESET_SOURCE_POWERON\<rparr>))"
| "spec_life fl alias (DogStart ms) l =
     (let p = (if 60000 < ms then 60000 else ms) in Some (l\<lparr>lf_on := True, lf_period := p, lf_saved := p\<rparr>))"
| "spec_life fl alias DogRefresh l =
     Some (l\<lparr>lf_note := 2, lf_flag := fl (lf_flag l) False, lf_period := lf_saved l AND 0xFFFF\<rparr>)"
| "spec_life fl alias DogStop l = Some (l\<lparr>lf_on := False, lf_saved := 0\<rparr>)"
| "spec_life fl alias Hang l = spec_hang fl l"
| "spec_life fl alias (Trap t) l =
     spec_hang fl (if alias then l\<lparr>lf_note := trap_note t, lf_flag := fl (lf_flag l) False\<rparr> else l)"
| "spec_life fl alias JumpZero l = Some (life_start fl l)"
| "spec_life fl alias (WakeUp g) l =
     (let w = (if g then RESET_SOURCE_DEEPPS_GPIO else RESET_SOURCE_DEEPPS_RTC) in Some (running fl TUYA_RESET_REASON_DEEPSLEEP (l\<lparr>lf_wake := w\<rparr>)))"

primrec spec_lives :: "(bool \<Rightarrow> bool \<Rightarrow> bool) \<Rightarrow> bool \<Rightarrow> life_event list \<Rightarrow> life \<Rightarrow> life option" where
  "spec_lives fl alias [] l = Some l"
| "spec_lives fl alias (x # xs) l = do { l \<leftarrow> spec_life fl alias x l; spec_lives fl alias xs l }"

section \<open>What the start code finds\<close>

definition spec_source :: "life \<Rightarrow> reset_source" where
  "spec_source l =
     (if lf_wake l \<noteq> RESET_SOURCE_POWERON then lf_wake l
      else if lf_flag l then noted_source (lf_note l)
      else if lf_magic l then RESET_SOURCE_CRASH_PER_XAT0 else RESET_SOURCE_POWERON)"

definition reason_of :: "reset_source \<Rightarrow> reset_reason" where
  "reason_of t = tkl_system_get_reset_reason \<lparr>rs_hw = (), g_wdt_period = 0, start_type = t\<rparr>"

lemma reason_of_start: "tkl_system_get_reset_reason s = reason_of (start_type s)"
  by (simp add: reason_of_def tkl_system_get_reset_reason_def)

lemma noted_source_vals:
  "noted_source v =
     (if v = 1 then RESET_SOURCE_REBOOT else if v = 0xad01 then RESET_SOURCE_CRASH_UNDEFINED
      else if v = 0xad02 then RESET_SOURCE_CRASH_PREFETCH_ABORT else if v = 0xad03 then RESET_SOURCE_CRASH_DATA_ABORT
      else if v = 0xad04 then RESET_SOURCE_CRASH_UNUSED else if v = 0xad05 then RESET_SOURCE_CRASH_XAT0
      else if v = 2 then RESET_SOURCE_WATCHDOG else RESET_SOURCE_UNKNOWN)"
  by (simp add: noted_source_def source_code_def SW_RETENTION_VAL_MASK_def CRASH_UNDEFINED_VALUE_def CRASH_PREFETCH_ABORT_VALUE_def
      CRASH_DATA_ABORT_VALUE_def CRASH_UNUSED_VALUE_def CRASH_2ND_XAT0_VALUE_def)

lemma reason_of_note: "reason_of (noted_source v) = note_reason v"
  by (simp add: noted_source_vals note_reason_def reason_of_def tkl_system_get_reset_reason_def)

lemma reason_of_vals [simp]:
  "reason_of RESET_SOURCE_POWERON = TUYA_RESET_REASON_POWERON" "reason_of RESET_SOURCE_CRASH_XAT0 = TUYA_RESET_REASON_FAULT"
  "reason_of RESET_SOURCE_DEEPPS_GPIO = TUYA_RESET_REASON_DEEPSLEEP" "reason_of RESET_SOURCE_DEEPPS_RTC = TUYA_RESET_REASON_DEEPSLEEP"
  by (simp_all add: reason_of_def tkl_system_get_reset_reason_def)

lemma noted_not_first: "noted_source v \<noteq> RESET_SOURCE_CRASH_PER_XAT0"
  by (simp add: noted_source_vals)

lemma life_start_source:
  assumes "lf_wake l \<in> {RESET_SOURCE_POWERON, RESET_SOURCE_DEEPPS_GPIO, RESET_SOURCE_DEEPPS_RTC}"
  shows "life_start fl l =
    (let t = spec_source l
     in if t = RESET_SOURCE_CRASH_PER_XAT0
        then running fl TUYA_RESET_REASON_FAULT (l\<lparr>lf_note := 0xad05, lf_flag := True\<rparr>)
        else running fl (reason_of t) l)"
  using assms by (auto simp: life_start_def spec_source_def Let_def reason_of_note noted_not_first)

section \<open>Operations\<close>

lemma dog_parts: "dog_on (v\<lparr>b_pwd := b_pwd v AND NOT (push_bit 8 1)\<rparr>)" "\<not> dog_on (v\<lparr>b_pwd := b_pwd v OR push_bit 8 1\<rparr>)"
  using clock_bit [of "b_pwd v"] by (simp_all add: dog_on_def)

lemma dog_same: "dog_on (v\<lparr>b_ret := x\<rparr>) = dog_on v" "dog_on (v\<lparr>b_ram := x\<rparr>) = dog_on v"
  "dog_on (v\<lparr>b_armed := a, b_period := x\<rparr>) = dog_on v"
  by (simp_all add: dog_on_def)

lemma up_life:
  assumes chip: "boot_chip e hw fl alias view"
  shows "\<exists>h. icu_ctrl e CMD_CLK_PWR_UP (Some PWD_ARM_WATCHDOG_CLK_BIT) (rs_hw s) = Some (0, h) \<and>
      life_of view (s\<lparr>rs_hw := h\<rparr>) = (life_of view s)\<lparr>lf_on := True\<rparr>"
  using clock_view(1) [OF chip, of "rs_hw s"] dog_parts(1) by (auto simp: life_of_def Let_def reason_of_start)

lemma down_life:
  assumes chip: "boot_chip e hw fl alias view"
  shows "\<exists>h. icu_ctrl e CMD_CLK_PWR_DOWN (Some PWD_ARM_WATCHDOG_CLK_BIT) (rs_hw s) = Some (0, h) \<and>
      life_of view (s\<lparr>rs_hw := h\<rparr>) = (life_of view s)\<lparr>lf_on := False\<rparr>"
  using clock_view(2) [OF chip, of "rs_hw s"] dog_parts(2) by (auto simp: life_of_def Let_def reason_of_start)

lemma wdt_up:
  assumes chip: "boot_chip e hw fl alias view"
  shows "\<exists>t. wdt_ctrl e hw WCMD_POWER_UP s = Some (WDT_SUCCESS, t) \<and> life_of view t = (life_of view s)\<lparr>lf_on := True\<rparr>"
  using up_life [OF chip, of s] by (auto simp: wdt_ctrl_def wdt_clock_def WDT_SUCCESS_def)

lemma wdt_down:
  assumes chip: "boot_chip e hw fl alias view"
  shows "\<exists>t. wdt_ctrl e hw WCMD_POWER_DOWN s = Some (WDT_SUCCESS, t) \<and>
    life_of view t = (life_of view s)\<lparr>lf_on := False, lf_saved := 0\<rparr>"
  using down_life [OF chip, of "s\<lparr>g_wdt_period := 0\<rparr>"]
  by (auto simp: wdt_ctrl_def wdt_clock_def WDT_SUCCESS_def) (simp add: life_of_def Let_def reason_of_start)

lemma wdt_period:
  assumes chip: "boot_chip e hw fl alias view"
  shows "\<exists>t. wdt_ctrl e hw (WCMD_SET_PERIOD (Some p)) s = Some (WDT_SUCCESS, t) \<and>
    life_of view t = (life_of view s)\<lparr>lf_period := p AND 0xFFFF, lf_saved := p\<rparr>"
  by (simp add: wdt_ctrl_def life_of_def Let_def reason_of_start keys_view [OF chip] dog_same)

lemma note_life:
  assumes chip: "boot_chip e hw fl alias view"
  shows "life_of view (s\<lparr>rs_hw := bt_wr hw SCTRL_SW_RETENTION x h\<rparr>) =
    (life_of view (s\<lparr>rs_hw := h\<rparr>))\<lparr>lf_note := x AND 0xFFFF, lf_flag := fl (lf_flag (life_of view (s\<lparr>rs_hw := h\<rparr>))) (bit x 16)\<rparr>"
  by (simp add: life_of_def Let_def reason_of_start boot_chipD(9) [OF chip] ret_write_parts dog_same)

lemma wdt_reload:
  assumes chip: "boot_chip e hw fl alias view"
  shows "\<exists>t. wdt_ctrl e hw WCMD_RELOAD_PERIOD s = Some (WDT_SUCCESS, t) \<and>
    life_of view t = (life_of view s)\<lparr>lf_period := g_wdt_period s AND 0xFFFF, lf_note := 2, lf_flag := fl (lf_flag (life_of view s)) False\<rparr>"
proof -
  have "life_of view (s\<lparr>rs_hw := wdt_keys hw (g_wdt_period s) (rs_hw s)\<rparr>) = (life_of view s)\<lparr>lf_period := g_wdt_period s AND 0xFFFF\<rparr>"
    by (simp add: life_of_def Let_def reason_of_start keys_view [OF chip] dog_same)
  moreover have "source_code RESET_SOURCE_WATCHDOG AND SW_RETENTION_VAL_MASK = 2"
    by (simp add: source_code_def SW_RETENTION_VAL_MASK_def)
  ultimately show ?thesis
    by (simp add: wdt_ctrl_def Let_def bk_misc_update_set_type_def note_life [OF chip] low_word_no_flag)
qed

lemma reboot_life:
  assumes chip: "boot_chip e hw fl alias view"
  shows "\<exists>t. tkl_system_reset e hw s = Some t \<and>
    life_of view t = (life_of view s)\<lparr>lf_note := 1, lf_flag := fl (lf_flag (life_of view s)) False, lf_on := True, lf_period := 5, lf_saved := 5\<rparr>"
proof -
  let ?s = "s\<lparr>rs_hw := bk_misc_update_set_type hw RESET_SOURCE_REBOOT (rs_hw s)\<rparr>"
  have "source_code RESET_SOURCE_REBOOT AND SW_RETENTION_VAL_MASK = 1"
    by (simp add: source_code_def SW_RETENTION_VAL_MASK_def)
  then have n: "life_of view ?s = (life_of view s)\<lparr>lf_note := 1, lf_flag := fl (lf_flag (life_of view s)) False\<rparr>"
    by (simp add: bk_misc_update_set_type_def note_life [OF chip] low_word_no_flag)
  obtain t1 where t1: "wdt_ctrl e hw WCMD_POWER_DOWN ?s = Some (WDT_SUCCESS, t1)" "life_of view t1 = (life_of view ?s)\<lparr>lf_on := False, lf_saved := 0\<rparr>"
    using wdt_down [OF chip, of ?s] by blast
  obtain t2 where t2: "wdt_ctrl e hw (WCMD_SET_PERIOD (Some 5)) t1 = Some (WDT_SUCCESS, t2)"
      "life_of view t2 = (life_of view t1)\<lparr>lf_period := 5 AND 0xFFFF, lf_saved := 5\<rparr>"
    using wdt_period [OF chip, of 5 t1] by blast
  obtain t3 where t3: "wdt_ctrl e hw WCMD_POWER_UP t2 = Some (WDT_SUCCESS, t3)" "life_of view t3 = (life_of view t2)\<lparr>lf_on := True\<rparr>"
    using wdt_up [OF chip, of t2] by blast
  show ?thesis using t1 t2 t3 n by (simp add: tkl_system_reset_def bk_reboot_def)
qed

lemma trap_life:
  assumes chip: "boot_chip e hw fl alias view"
  shows "life_of view (bk_trap hw t s) =
    (if alias then (life_of view s)\<lparr>lf_note := trap_note t, lf_flag := fl (lf_flag (life_of view s)) False\<rparr> else life_of view s)"
proof -
  have v: "(case t of Udef \<Rightarrow> CRASH_UNDEFINED_VALUE | Pabt \<Rightarrow> CRASH_PREFETCH_ABORT_VALUE | Dabt \<Rightarrow> CRASH_DATA_ABORT_VALUE
      | Resv \<Rightarrow> CRASH_UNUSED_VALUE) AND 0xffff = trap_note t"
    by (cases t) (simp_all add: trap_note_def CRASH_UNDEFINED_VALUE_def CRASH_PREFETCH_ABORT_VALUE_def CRASH_DATA_ABORT_VALUE_def CRASH_UNUSED_VALUE_def)
  have "unat (trap_note t) < 65536" by (cases t) (simp_all add: trap_note_def)
  then show ?thesis
    unfolding bk_trap_def v
    by (simp add: life_of_def Let_def reason_of_start boot_chipD(11) [OF chip] ret_write_parts dog_same low_word_no_flag low_half_same)
qed

section \<open>Starting\<close>

definition life_ok :: "life \<Rightarrow> bool" where
  "life_ok l \<longleftrightarrow> lf_wake l \<in> {RESET_SOURCE_POWERON, RESET_SOURCE_DEEPPS_GPIO, RESET_SOURCE_DEEPPS_RTC}"

lemma wake_source:
  assumes chip: "boot_chip e hw fl alias view"
    and ok: "b_wake (view h) \<in> {RESET_SOURCE_POWERON, RESET_SOURCE_DEEPPS_GPIO, RESET_SOURCE_DEEPPS_RTC}"
  shows "\<exists>h'. sctrl_get_deep_sleep_wake_soure hw h = (b_wake (view h), h') \<and> view h' = view h"
proof -
  obtain v k where r: "bt_rd hw SCTRL_ROSC_TIMER h = (v, k)" by fastforce
  have v: "v AND ROSC_TIMER_INT_STATUS_BIT \<noteq> 0 \<longleftrightarrow> b_wake (view h) = RESET_SOURCE_DEEPPS_RTC" "view k = view h"
    using boot_chipD(5,6) [OF chip, of h] r by simp_all
  obtain w j where q: "bt_rd hw SCTRL_GPIO_WAKEUP_INT_STATUS k = (w, j)" by fastforce
  have w: "w \<noteq> 0 \<longleftrightarrow> b_wake (view h) = RESET_SOURCE_DEEPPS_GPIO" "view j = view h"
    using boot_chipD(7,8) [OF chip, of k] q v(2) by simp_all
  show ?thesis using ok v w by (auto simp: sctrl_get_deep_sleep_wake_soure_def r q Let_def)
qed

lemma init_life:
  assumes chip: "boot_chip e hw fl alias view" and ok: "life_ok (life_of view s)"
  shows "start_type (bk_misc_init_start_type hw s) = spec_source (life_of view s)"
    and "life_of view (bk_misc_init_start_type hw s) = (life_of view s)\<lparr>lf_flag := fl (lf_flag (life_of view s)) (lf_flag (life_of view s)),
      lf_magic := True, lf_reason := reason_of (spec_source (life_of view s))\<rparr>"
proof -
  let ?v = "view (rs_hw s)"
  obtain misc h1 where r1: "bt_rd hw SCTRL_SW_RETENTION (rs_hw s) = (misc, h1)" by fastforce
  have v1: "misc = b_ret ?v" "view h1 = ?v" using boot_chipD(1,2) [OF chip, of "rs_hw s"] r1 by simp_all
  have "b_wake (view h1) \<in> {RESET_SOURCE_POWERON, RESET_SOURCE_DEEPPS_GPIO, RESET_SOURCE_DEEPPS_RTC}"
    using ok v1(2) by (simp add: life_ok_def life_of_def Let_def)
  then obtain h2 where h2: "sctrl_get_deep_sleep_wake_soure hw h1 = (b_wake ?v, h2)" "view h2 = ?v"
    using wake_source [OF chip, of h1] v1(2) by auto
  obtain m h3 where r3: "bt_rd hw START_TYPE_DMEMORY_ADDR h2 = (m, h3)" by fastforce
  have v3: "m = b_ram ?v" "view h3 = ?v" using boot_chipD(3,4) [OF chip, of h2] r3 h2(2) by simp_all
  define h4 where "h4 = (if b_wake ?v = RESET_SOURCE_POWERON \<and> \<not> bit misc 16 then h3 else h2)"
  have v4: "view h4 = ?v" using h2(2) v3(2) by (simp add: h4_def)
  have e: "bk_misc_init_start_type hw s = s\<lparr>rs_hw := bt_wr hw START_TYPE_DMEMORY_ADDR CRASH_XAT0_VALUE (bt_wr hw SCTRL_SW_RETENTION misc h4),
      start_type := spec_source (life_of view s)\<rparr>"
    by (simp add: bk_misc_init_start_type_def r1 h2(1) r3 Let_def flag_test h4_def v1(1) v3(1) spec_source_def life_of_def SW_RETENTION_VAL_MASK_def)
  then show "start_type (bk_misc_init_start_type hw s) = spec_source (life_of view s)" by simp
  show "life_of view (bk_misc_init_start_type hw s) = (life_of view s)\<lparr>lf_flag := fl (lf_flag (life_of view s)) (lf_flag (life_of view s)),
      lf_magic := True, lf_reason := reason_of (spec_source (life_of view s))\<rparr>"
    unfolding e by (simp add: life_of_def Let_def reason_of_start boot_chipD(9,10) [OF chip] ret_write_parts dog_same v4 v1(1))
qed

text \<open>One start: it goes on to the application, or it spins with the watchdog on.\<close>

definition spec_entry :: "(bool \<Rightarrow> bool \<Rightarrow> bool) \<Rightarrow> life \<Rightarrow> bool \<times> life" where
  "spec_entry fl l =
     (let t = spec_source l
      in if t = RESET_SOURCE_CRASH_PER_XAT0
         then (False, l\<lparr>lf_note := 0xad05, lf_flag := fl (fl (lf_flag l) (lf_flag l)) False, lf_magic := True, lf_on := True,
                lf_period := 5, lf_saved := 5, lf_reason := reason_of t\<rparr>)
         else (True, running fl (reason_of t) l))"

lemma entry_life:
  assumes chip: "boot_chip e hw fl alias view" and ok: "life_ok (life_of view s)"
  shows "\<exists>b t. entry_main e hw s = Some (b, t) \<and> (b, life_of view t) = spec_entry fl (life_of view s)"
proof (cases "spec_source (life_of view s) = RESET_SOURCE_CRASH_PER_XAT0")
  case True
  let ?s = "bk_misc_init_start_type hw s"
  let ?x = "CRASH_2ND_XAT0_VALUE AND SW_RETENTION_VAL_MASK"
  let ?n = "?s\<lparr>rs_hw := bt_wr hw SCTRL_SW_RETENTION ?x (rs_hw ?s)\<rparr>"
  have x: "?x = 0xad05" by (simp add: CRASH_2ND_XAT0_VALUE_def SW_RETENTION_VAL_MASK_def)
  have n: "life_of view ?n = (life_of view ?s)\<lparr>lf_note := 0xad05, lf_flag := fl (lf_flag (life_of view ?s)) False\<rparr>"
    using note_life [OF chip, where s = ?s and x = ?x and h = "rs_hw ?s"] by (simp add: x low_word_no_flag)
  obtain h1 where h1: "icu_ctrl e CMD_CLK_PWR_DOWN (Some PWD_ARM_WATCHDOG_CLK_BIT) (rs_hw ?n) = Some (0, h1)"
      "life_of view (?n\<lparr>rs_hw := h1\<rparr>) = (life_of view ?n)\<lparr>lf_on := False\<rparr>"
    using down_life [OF chip, of ?n] by blast
  obtain t2 where t2: "wdt_ctrl e hw (WCMD_SET_PERIOD (Some 5)) (?n\<lparr>rs_hw := h1\<rparr>) = Some (WDT_SUCCESS, t2)"
      "life_of view t2 = (life_of view (?n\<lparr>rs_hw := h1\<rparr>))\<lparr>lf_period := 5 AND 0xFFFF, lf_saved := 5\<rparr>"
    using wdt_period [OF chip, of 5 "?n\<lparr>rs_hw := h1\<rparr>"] by blast
  obtain h3 where h3: "icu_ctrl e CMD_CLK_PWR_UP (Some PWD_ARM_WATCHDOG_CLK_BIT) (rs_hw t2) = Some (0, h3)"
      "life_of view (t2\<lparr>rs_hw := h3\<rparr>) = (life_of view t2)\<lparr>lf_on := True\<rparr>"
    using up_life [OF chip, of t2] by blast
  have "entry_main e hw s = Some (False, t2\<lparr>rs_hw := h3\<rparr>)"
    using True init_life(1) [OF chip ok] h1(1) t2(1) h3(1)
    by (simp add: entry_main_def bk_misc_check_start_type_def bk_misc_crash_xat0_reboot_def Let_def)
  moreover have "(False, life_of view (t2\<lparr>rs_hw := h3\<rparr>)) = spec_entry fl (life_of view s)"
    using True h3(2) t2(2) h1(2) n init_life(2) [OF chip ok] by (simp add: spec_entry_def Let_def)
  ultimately show ?thesis by blast
next
  case False
  let ?s = "bk_misc_init_start_type hw s"
  obtain h1 where h1: "icu_ctrl e CMD_CLK_PWR_UP (Some PWD_ARM_WATCHDOG_CLK_BIT) (rs_hw ?s) = Some (0, h1)"
      "life_of view (?s\<lparr>rs_hw := h1\<rparr>) = (life_of view ?s)\<lparr>lf_on := True\<rparr>"
    using up_life [OF chip, of ?s] by blast
  obtain t2 where t2: "wdt_ctrl e hw (WCMD_SET_PERIOD (Some 2000)) (?s\<lparr>rs_hw := h1\<rparr>) = Some (WDT_SUCCESS, t2)"
      "life_of view t2 = (life_of view (?s\<lparr>rs_hw := h1\<rparr>))\<lparr>lf_period := 2000 AND 0xFFFF, lf_saved := 2000\<rparr>"
    using wdt_period [OF chip, of 2000 "?s\<lparr>rs_hw := h1\<rparr>"] by blast
  obtain t3 where t3: "wdt_ctrl e hw (WCMD_SET_PERIOD (Some 60000)) t2 = Some (WDT_SUCCESS, t3)"
      "life_of view t3 = (life_of view t2)\<lparr>lf_period := 60000 AND 0xFFFF, lf_saved := 60000\<rparr>"
    using wdt_period [OF chip, of 60000 t2] by blast
  obtain t4 where t4: "wdt_ctrl e hw WCMD_POWER_DOWN t3 = Some (WDT_SUCCESS, t4)"
      "life_of view t4 = (life_of view t3)\<lparr>lf_on := False, lf_saved := 0\<rparr>"
    using wdt_down [OF chip, of t3] by blast
  have "entry_main e hw s = Some (True, t4)"
    using False init_life(1) [OF chip ok] h1(1) t2(1) t3(1) t4(1)
    by (simp add: entry_main_def bk_misc_check_start_type_def bk_wdg_finalize_def wdt_asserted_def Let_def)
  moreover have "(True, life_of view t4) = spec_entry fl (life_of view s)"
    using False t4(2) t3(2) t2(2) h1(2) init_life(2) [OF chip ok] by (simp add: spec_entry_def running_def Let_def)
  ultimately show ?thesis by blast
qed

section \<open>Lives\<close>

text \<open>What the hardware does to the registers: power (the word in memory is not the magic one), the
  watchdog and a wake-up; \<open>fires\<close> says whether the watchdog runs.\<close>

datatype reset_kind = RPower | RWdt | RWake bool

definition reset_laws :: "(reset_kind \<Rightarrow> 'h \<Rightarrow> 'h) \<Rightarrow> ('h \<Rightarrow> bool) \<Rightarrow> ('h \<Rightarrow> bview) \<Rightarrow> bool" where
  "reset_laws rst fires view \<longleftrightarrow>
     (\<forall>h. let v = view (rst RPower h)
          in b_ret v = 0 \<and> b_ram v \<noteq> CRASH_XAT0_VALUE \<and> b_wake v = RESET_SOURCE_POWERON) \<and>
     (\<forall>h. let v = view (rst RWdt h)
          in b_ret v = b_ret (view h) OR 0x10000 \<and> b_ram v = b_ram (view h) \<and> b_wake v = RESET_SOURCE_POWERON) \<and>
     (\<forall>g h. let v = view (rst (RWake g) h)
          in b_ret v = b_ret (view h) \<and> b_ram v = b_ram (view h) \<and>
             b_wake v = (if g then RESET_SOURCE_DEEPPS_GPIO else RESET_SOURCE_DEEPPS_RTC)) \<and>
     (\<forall>h. fires h \<longleftrightarrow> dog_on (view h))"

text \<open>A start, and the second one that the watchdog brings about when the first spins.\<close>

definition boot :: "'h intc_env \<Rightarrow> 'h boot_hw \<Rightarrow> 'h \<Rightarrow> (bool \<times> 'h restart) option" where
  "boot e hw h = entry_main e hw \<lparr>rs_hw = h, g_wdt_period = 0, start_type = RESET_SOURCE_POWERON\<rparr>"

definition starts ::
  "'h intc_env \<Rightarrow> 'h boot_hw \<Rightarrow> (reset_kind \<Rightarrow> 'h \<Rightarrow> 'h) \<Rightarrow> ('h \<Rightarrow> bool) \<Rightarrow> 'h \<Rightarrow> 'h restart option" where
  "starts e hw rst fires h =
     do {
       (goes_on, s) \<leftarrow> boot e hw h;
       if goes_on then Some s
       else if fires (rs_hw s)
       then do { (goes_on, s) \<leftarrow> boot e hw (rst RWdt (rs_hw s)); if goes_on then Some s else None }
       else None
     }"

definition hangs ::
  "'h intc_env \<Rightarrow> 'h boot_hw \<Rightarrow> (reset_kind \<Rightarrow> 'h \<Rightarrow> 'h) \<Rightarrow> ('h \<Rightarrow> bool) \<Rightarrow> 'h restart \<Rightarrow> 'h restart option" where
  "hangs e hw rst fires s = (if fires (rs_hw s) then starts e hw rst fires (rst RWdt (rs_hw s)) else None)"

fun life_step ::
  "'h intc_env \<Rightarrow> 'h boot_hw \<Rightarrow> (reset_kind \<Rightarrow> 'h \<Rightarrow> 'h) \<Rightarrow> ('h \<Rightarrow> bool) \<Rightarrow> life_event \<Rightarrow> 'h restart \<Rightarrow> 'h restart option" where
  "life_step e hw rst fires PowerCycle s = starts e hw rst fires (rst RPower (rs_hw s))"
| "life_step e hw rst fires Reboot s = do { s \<leftarrow> tkl_system_reset e hw s; hangs e hw rst fires s }"
| "life_step e hw rst fires (DogStart ms) s = map_option snd (tkl_watchdog_init e hw ms s)"
| "life_step e hw rst fires DogRefresh s = map_option snd (tkl_watchdog_refresh e hw s)"
| "life_step e hw rst fires DogStop s = map_option snd (tkl_watchdog_deinit e hw s)"
| "life_step e hw rst fires Hang s = hangs e hw rst fires s"
| "life_step e hw rst fires (Trap t) s = hangs e hw rst fires (bk_trap hw t s)"
| "life_step e hw rst fires JumpZero s = starts e hw rst fires (rs_hw s)"
| "life_step e hw rst fires (WakeUp g) s = starts e hw rst fires (rst (RWake g) (rs_hw s))"

primrec life_run ::
  "'h intc_env \<Rightarrow> 'h boot_hw \<Rightarrow> (reset_kind \<Rightarrow> 'h \<Rightarrow> 'h) \<Rightarrow> ('h \<Rightarrow> bool) \<Rightarrow> life_event list \<Rightarrow> 'h restart \<Rightarrow> 'h restart option" where
  "life_run e hw rst fires [] s = Some s"
| "life_run e hw rst fires (x # xs) s = do { s \<leftarrow> life_step e hw rst fires x s; life_run e hw rst fires xs s }"

text \<open>A start depends on what survives a reset only.\<close>

definition same_core :: "life \<Rightarrow> life \<Rightarrow> bool" where
  "same_core l m \<longleftrightarrow> lf_note l = lf_note m \<and> lf_flag l = lf_flag m \<and> lf_magic l = lf_magic m \<and> lf_wake l = lf_wake m"

lemma running_core: "lf_note l = lf_note m \<Longrightarrow> lf_flag l = lf_flag m \<Longrightarrow> lf_wake l = lf_wake m \<Longrightarrow> running fl t l = running fl t m"
  by (cases l; cases m) (simp add: running_def)

lemma spec_core:
  assumes "same_core l m"
  shows "spec_source l = spec_source m" and "spec_entry fl l = spec_entry fl m" and "life_start fl l = life_start fl m"
proof -
  show s: "spec_source l = spec_source m" using assms by (simp add: spec_source_def same_core_def)
  show "spec_entry fl l = spec_entry fl m"
    using assms s running_core [of l m] by (cases l; cases m) (simp add: spec_entry_def same_core_def Let_def)
  show "life_start fl l = life_start fl m"
    using assms s running_core [of l m] running_core [of "l\<lparr>lf_note := 0xad05, lf_flag := True\<rparr>" "m\<lparr>lf_note := 0xad05, lf_flag := True\<rparr>"]
    by (simp add: life_start_def same_core_def Let_def)
qed

lemma reset_lawsD:
  assumes "reset_laws rst fires view"
  shows "same_core (life_of view \<lparr>rs_hw = rst RPower h, g_wdt_period = p, start_type = q\<rparr>)
      ((life_of view s)\<lparr>lf_note := 0, lf_flag := False, lf_magic := False, lf_wake := RESET_SOURCE_POWERON\<rparr>)"
    and "same_core (life_of view \<lparr>rs_hw = rst RWdt (rs_hw s), g_wdt_period = p, start_type = q\<rparr>)
      ((life_of view s)\<lparr>lf_flag := True, lf_wake := RESET_SOURCE_POWERON\<rparr>)"
    and "same_core (life_of view \<lparr>rs_hw = rst (RWake g) (rs_hw s), g_wdt_period = p, start_type = q\<rparr>)
      ((life_of view s)\<lparr>lf_wake := (if g then RESET_SOURCE_DEEPPS_GPIO else RESET_SOURCE_DEEPPS_RTC)\<rparr>)"
    and "fires (rs_hw s) \<longleftrightarrow> lf_on (life_of view s)"
proof -
  note r = assms [unfolded reset_laws_def Let_def]
  have p: "b_ret (view (rst RPower h)) = 0" "b_ram (view (rst RPower h)) \<noteq> CRASH_XAT0_VALUE" "b_wake (view (rst RPower h)) = RESET_SOURCE_POWERON" for h
    using r by blast+
  have w: "b_ret (view (rst RWdt h)) = b_ret (view h) OR 0x10000" "b_ram (view (rst RWdt h)) = b_ram (view h)"
      "b_wake (view (rst RWdt h)) = RESET_SOURCE_POWERON" for h
    using r by blast+
  have k: "b_ret (view (rst (RWake g) h)) = b_ret (view h)" "b_ram (view (rst (RWake g) h)) = b_ram (view h)"
      "b_wake (view (rst (RWake g) h)) = (if g then RESET_SOURCE_DEEPPS_GPIO else RESET_SOURCE_DEEPPS_RTC)" for h
    using r by blast+
  show "same_core (life_of view \<lparr>rs_hw = rst RPower h, g_wdt_period = p, start_type = q\<rparr>)
      ((life_of view s)\<lparr>lf_note := 0, lf_flag := False, lf_magic := False, lf_wake := RESET_SOURCE_POWERON\<rparr>)"
    by (simp add: same_core_def life_of_def Let_def p)
  show "same_core (life_of view \<lparr>rs_hw = rst RWdt (rs_hw s), g_wdt_period = p, start_type = q\<rparr>)
      ((life_of view s)\<lparr>lf_flag := True, lf_wake := RESET_SOURCE_POWERON\<rparr>)"
    using flag_parts [of "b_ret (view (rs_hw s))"] by (simp add: same_core_def life_of_def Let_def w)
  show "same_core (life_of view \<lparr>rs_hw = rst (RWake g) (rs_hw s), g_wdt_period = p, start_type = q\<rparr>)
      ((life_of view s)\<lparr>lf_wake := (if g then RESET_SOURCE_DEEPPS_GPIO else RESET_SOURCE_DEEPPS_RTC)\<rparr>)"
    by (simp add: same_core_def life_of_def Let_def k)
  show "fires (rs_hw s) \<longleftrightarrow> lf_on (life_of view s)" using r by (simp add: life_of_def Let_def reason_of_start)
qed

lemma second_start: "noted_source 0xad05 = RESET_SOURCE_CRASH_XAT0"
  by (simp add: noted_source_vals)

lemma starts_life:
  assumes chip: "boot_chip e hw fl alias view" and laws: "reset_laws rst fires view"
    and core: "same_core (life_of view \<lparr>rs_hw = h, g_wdt_period = 0, start_type = RESET_SOURCE_POWERON\<rparr>) l" and ok: "life_ok l"
  shows "\<exists>t. starts e hw rst fires h = Some t \<and> life_of view t = life_start fl l"
proof -
  let ?i = "\<lambda>h. \<lparr>rs_hw = h, g_wdt_period = 0, start_type = RESET_SOURCE_POWERON\<rparr>"
  have "life_ok (life_of view (?i h))" using core ok by (simp add: same_core_def life_ok_def)
  then obtain b t where t: "boot e hw h = Some (b, t)" "(b, life_of view t) = spec_entry fl l"
    using entry_life [OF chip, of "?i h"] spec_core(2) [OF core, of fl] by (auto simp: boot_def)
  show ?thesis
  proof (cases "spec_source l = RESET_SOURCE_CRASH_PER_XAT0")
    case True
    let ?m = "(life_of view t)\<lparr>lf_flag := True, lf_wake := RESET_SOURCE_POWERON\<rparr>"
    have b: "\<not> b" "lf_on (life_of view t)" "lf_note (life_of view t) = 0xad05" "lf_wake l = RESET_SOURCE_POWERON"
      using t(2) True ok by (auto simp: spec_entry_def Let_def spec_source_def life_ok_def split: if_splits)
    have core2: "same_core (life_of view (?i (rst RWdt (rs_hw t)))) ?m" by (rule reset_lawsD(2) [OF laws])
    then have "life_ok (life_of view (?i (rst RWdt (rs_hw t))))" by (simp add: same_core_def life_ok_def)
    then obtain b' u where u: "boot e hw (rst RWdt (rs_hw t)) = Some (b', u)" "(b', life_of view u) = spec_entry fl ?m"
      using entry_life [OF chip, of "?i (rst RWdt (rs_hw t))"] spec_core(2) [OF core2, of fl] by (auto simp: boot_def)
    have src: "spec_source ?m = RESET_SOURCE_CRASH_XAT0" using b(3) second_start by (simp add: spec_source_def)
    then have "b'" "life_of view u = running fl TUYA_RESET_REASON_FAULT ?m"
      using u(2) by (simp_all add: spec_entry_def Let_def)
    moreover have "running fl TUYA_RESET_REASON_FAULT ?m = life_start fl l"
      using True b(3,4) ok by (simp add: life_start_source life_ok_def Let_def) (rule running_core, simp_all)
    ultimately show ?thesis
      using t(1) u(1) b(1,2) reset_lawsD(4) [OF laws, of t] by (simp add: starts_def)
  next
    case False
    then show ?thesis using t ok by (auto simp: starts_def spec_entry_def life_start_source life_ok_def Let_def)
  qed
qed

lemma hangs_life:
  assumes chip: "boot_chip e hw fl alias view" and laws: "reset_laws rst fires view"
  shows "case spec_hang fl (life_of view s) of None \<Rightarrow> hangs e hw rst fires s = None
    | Some l \<Rightarrow> \<exists>t. hangs e hw rst fires s = Some t \<and> life_of view t = l"
proof (cases "lf_on (life_of view s)")
  case True
  let ?m = "(life_of view s)\<lparr>lf_flag := True, lf_wake := RESET_SOURCE_POWERON\<rparr>"
  obtain t where t: "starts e hw rst fires (rst RWdt (rs_hw s)) = Some t" "life_of view t = life_start fl ?m"
    using starts_life [OF chip laws reset_lawsD(2) [OF laws, of s 0 RESET_SOURCE_POWERON]] by (auto simp: life_ok_def)
  have "life_start fl ?m = running fl (note_reason (lf_note (life_of view s))) ?m" by (simp add: life_start_def)
  then show ?thesis using True t reset_lawsD(4) [OF laws, of s] by (simp add: spec_hang_def hangs_def)
next
  case False
  then show ?thesis using reset_lawsD(4) [OF laws, of s] by (simp add: spec_hang_def hangs_def)
qed

lemma life_ok_running: "life_ok (running fl t l) = life_ok l"
  by (simp add: life_ok_def running_def)

text \<open>What a step does, and that wake-ups have one of two sources.\<close>

definition life_follows :: "('h \<Rightarrow> bview) \<Rightarrow> 'h restart option \<Rightarrow> life option \<Rightarrow> bool" where
  "life_follows view r x \<longleftrightarrow> (case x of None \<Rightarrow> r = None | Some l \<Rightarrow> \<exists>t. r = Some t \<and> life_of view t = l \<and> life_ok l)"


lemma follows_start:
  assumes chip: "boot_chip e hw fl alias view" and laws: "reset_laws rst fires view"
    and core: "same_core (life_of view \<lparr>rs_hw = h, g_wdt_period = 0, start_type = RESET_SOURCE_POWERON\<rparr>) l" and ok: "life_ok l"
  shows "life_follows view (starts e hw rst fires h) (Some (life_start fl l))"
proof -
  have "life_ok (life_start fl l)" using ok by (simp add: life_start_def Let_def life_ok_running) (simp add: life_ok_def)
  then show ?thesis using starts_life [OF chip laws core ok] by (auto simp: life_follows_def)
qed

lemma follows_hang:
  assumes chip: "boot_chip e hw fl alias view" and laws: "reset_laws rst fires view"
  shows "life_follows view (hangs e hw rst fires s) (spec_hang fl (life_of view s))"
proof -
  have "life_ok l" if "spec_hang fl m = Some l" for l m
    using that by (auto simp: spec_hang_def life_ok_running split: if_splits) (simp add: life_ok_def)
  then show ?thesis
    using hangs_life [OF chip laws, of s] unfolding life_follows_def by (auto split: option.splits)
qed

lemma follows_power:
  assumes chip: "boot_chip e hw fl alias view" and laws: "reset_laws rst fires view"
  shows "life_follows view (life_step e hw rst fires PowerCycle s) (spec_life fl alias PowerCycle (life_of view s))"
proof -
  let ?l = "(life_of view s)\<lparr>lf_note := 0, lf_flag := False, lf_magic := False, lf_wake := RESET_SOURCE_POWERON\<rparr>"
  have "life_start fl ?l = running fl TUYA_RESET_REASON_POWERON ?l" by (simp add: life_start_def)
  also have "\<dots> = running fl TUYA_RESET_REASON_POWERON ((life_of view s)\<lparr>lf_note := 0, lf_flag := False, lf_wake := RESET_SOURCE_POWERON\<rparr>)"
    by (rule running_core) simp_all
  finally show ?thesis
    using follows_start [OF chip laws reset_lawsD(1) [OF laws, of "rs_hw s" 0 RESET_SOURCE_POWERON s]] by (simp add: life_ok_def)
qed

lemma follows_reboot:
  assumes chip: "boot_chip e hw fl alias view" and laws: "reset_laws rst fires view"
  shows "life_follows view (life_step e hw rst fires Reboot s) (spec_life fl alias Reboot (life_of view s))"
proof -
  obtain t where t: "tkl_system_reset e hw s = Some t" "life_of view t = (life_of view s)\<lparr>lf_note := 1,
      lf_flag := fl (lf_flag (life_of view s)) False, lf_on := True, lf_period := 5, lf_saved := 5\<rparr>"
    using reboot_life [OF chip, of s] by blast
  have "note_reason 1 = TUYA_RESET_REASON_SOFTWARE" by (simp add: note_reason_def)
  then have "spec_hang fl (life_of view t) = spec_life fl alias Reboot (life_of view s)"
    by (simp add: t(2) spec_hang_def) (rule running_core, simp_all)
  then show ?thesis using follows_hang [OF chip laws, of t] t(1) by simp
qed

lemma follows_dog:
  assumes chip: "boot_chip e hw fl alias view" and ok: "life_ok (life_of view s)" and x: "x \<in> {DogStart ms, DogRefresh, DogStop}"
  shows "life_follows view (life_step e hw rst fires x s) (spec_life fl alias x (life_of view s))"
proof -
  consider "x = DogStart ms" | "x = DogRefresh" | "x = DogStop" using x by blast
  then show ?thesis
  proof cases
    case 1
    let ?p = "if 60000 < ms then 60000 else ms"
    have p: "?p AND 0xFFFF = ?p" by (rule low_half_same) (auto simp: word_less_nat_alt)
    obtain t1 where t1: "wdt_ctrl e hw WCMD_POWER_UP s = Some (WDT_SUCCESS, t1)" "life_of view t1 = (life_of view s)\<lparr>lf_on := True\<rparr>"
      using wdt_up [OF chip, of s] by blast
    obtain t2 where t2: "wdt_ctrl e hw (WCMD_SET_PERIOD (Some ?p)) t1 = Some (WDT_SUCCESS, t2)"
        "life_of view t2 = (life_of view t1)\<lparr>lf_period := ?p AND 0xFFFF, lf_saved := ?p\<rparr>"
      using wdt_period [OF chip, of ?p t1] by blast
    have "tkl_watchdog_init e hw ms s = Some (?p, t2)"
      using t1(1) t2(1) by (simp add: tkl_watchdog_init_def bk_wdg_initialize_def wdt_asserted_def Let_def)
    moreover have "life_of view t2 = (life_of view s)\<lparr>lf_on := True, lf_period := ?p, lf_saved := ?p\<rparr>"
      unfolding t2(2) t1(2) p by simp
    ultimately show ?thesis using ok by (simp add: 1 life_follows_def Let_def life_ok_def)
  next
    case 2
    have "lf_saved (life_of view s) = g_wdt_period s" by (simp add: life_of_def Let_def reason_of_start)
    then show ?thesis
      using wdt_reload [OF chip, of s] ok
      by (auto simp: 2 tkl_watchdog_refresh_def bk_wdg_reload_def wdt_asserted_def life_follows_def life_ok_def)
  next
    case 3
    show ?thesis
      using wdt_down [OF chip, of s] ok
      by (auto simp: 3 tkl_watchdog_deinit_def bk_wdg_finalize_def wdt_asserted_def life_follows_def life_ok_def)
  qed
qed

lemma follows_wake:
  assumes chip: "boot_chip e hw fl alias view" and laws: "reset_laws rst fires view"
  shows "life_follows view (life_step e hw rst fires (WakeUp g) s) (spec_life fl alias (WakeUp g) (life_of view s))"
proof -
  let ?w = "if g then RESET_SOURCE_DEEPPS_GPIO else RESET_SOURCE_DEEPPS_RTC"
  let ?l = "(life_of view s)\<lparr>lf_wake := ?w\<rparr>"
  have "life_start fl ?l = running fl TUYA_RESET_REASON_DEEPSLEEP ?l" by (simp add: life_start_def)
  moreover have "life_ok ?l" by (simp add: life_ok_def)
  ultimately show ?thesis
    using follows_start [OF chip laws reset_lawsD(3) [OF laws, of g s 0 RESET_SOURCE_POWERON]] by (simp add: Let_def)
qed

lemma life_step_ok:
  assumes chip: "boot_chip e hw fl alias view" and laws: "reset_laws rst fires view"
    and ok: "x \<noteq> PowerCycle \<Longrightarrow> life_ok (life_of view s)"
  shows "life_follows view (life_step e hw rst fires x s) (spec_life fl alias x (life_of view s))"
proof (cases x)
  case PowerCycle
  then show ?thesis using follows_power [OF chip laws] by simp
next
  case Reboot
  then show ?thesis using follows_reboot [OF chip laws] by simp
next
  case (DogStart ms)
  then show ?thesis using follows_dog [OF chip ok, of x ms] by simp
next
  case DogRefresh
  then show ?thesis using follows_dog [OF chip ok, of x] by simp
next
  case DogStop
  then show ?thesis using follows_dog [OF chip ok, of x] by simp
next
  case Hang
  then show ?thesis using follows_hang [OF chip laws] by simp
next
  case (Trap t)
  then show ?thesis using follows_hang [OF chip laws, of "bk_trap hw t s"] by (simp add: trap_life [OF chip])
next
  case JumpZero
  have "same_core (life_of view \<lparr>rs_hw = rs_hw s, g_wdt_period = 0, start_type = RESET_SOURCE_POWERON\<rparr>) (life_of view s)"
    by (simp add: same_core_def life_of_def Let_def)
  then show ?thesis using follows_start [OF chip laws _ ok] JumpZero by simp
next
  case (WakeUp g)
  then show ?thesis using follows_wake [OF chip laws] by simp
qed

lemma life_run_ok:
  assumes chip: "boot_chip e hw fl alias view" and laws: "reset_laws rst fires view"
  shows "life_ok (life_of view s) \<Longrightarrow>
    life_follows view (life_run e hw rst fires xs s) (spec_lives fl alias xs (life_of view s))"
proof (induction xs arbitrary: s)
  case Nil
  then show ?case by (simp add: life_follows_def)
next
  case (Cons x xs)
  have f: "life_follows view (life_step e hw rst fires x s) (spec_life fl alias x (life_of view s))"
    by (rule life_step_ok [OF chip laws]) (rule Cons.prems)
  show ?case
  proof (cases "spec_life fl alias x (life_of view s)")
    case None
    then show ?thesis using f by (simp add: life_follows_def)
  next
    case (Some l)
    then obtain t where t: "life_step e hw rst fires x s = Some t" "life_of view t = l" "life_ok l"
      using f by (auto simp: life_follows_def)
    show ?thesis using Cons.IH [of t] t Some by simp
  qed
qed

text \<open>C10. From power on, the device lives through any sequence of events just as the specification
  says: the reason it reports, the watchdog and its period after each of them are those of the
  specification, and it hangs for good exactly where the specification has no next life. So a reboot is
  reported as one, a hang of a program that refreshed the watchdog as the watchdog, a jump to address 0
  as a fault after a second start, a trap as the last note unless the traps' register is the retention
  register, and a hang or trap without the watchdog never ends.\<close>

theorem restart_history:
  assumes "boot_chip e hw fl alias view" and "reset_laws rst fires view"
  shows "map_option (life_of view) (life_run e hw rst fires (PowerCycle # xs) s) = spec_lives fl alias (PowerCycle # xs) (life_of view s)"
proof -
  let ?l = "running fl TUYA_RESET_REASON_POWERON ((life_of view s)\<lparr>lf_note := 0, lf_flag := False, lf_wake := RESET_SOURCE_POWERON\<rparr>)"
  obtain t where t: "life_step e hw rst fires PowerCycle s = Some t" "life_of view t = ?l" "life_ok ?l"
    using life_step_ok [OF assms, of PowerCycle s] by (auto simp: life_follows_def)
  have "life_follows view (life_run e hw rst fires xs t) (spec_lives fl alias xs ?l)"
    using life_run_ok [OF assms, of t xs] t(2,3) by simp
  then show ?thesis using t(1) by (auto simp: life_follows_def split: option.splits)
qed

text \<open>A chip whose registers are the view itself; the flag of the watchdog is stored by a write, and the
  traps write to another register.\<close>

definition boot_eg :: "bview boot_hw" where
  "boot_eg =
     \<lparr>bt_rd = \<lambda>r v. (case r of SCTRL_SW_RETENTION \<Rightarrow> (b_ret v, v) | START_TYPE_DMEMORY_ADDR \<Rightarrow> (b_ram v, v)
        | SCTRL_ROSC_TIMER \<Rightarrow> (if b_wake v = RESET_SOURCE_DEEPPS_RTC then ROSC_TIMER_INT_STATUS_BIT else 0, v)
        | SCTRL_GPIO_WAKEUP_INT_STATUS \<Rightarrow> (if b_wake v = RESET_SOURCE_DEEPPS_GPIO then 1 else 0, v) | _ \<Rightarrow> (0, v)),
      bt_wr = \<lambda>r x v. (case r of SCTRL_SW_RETENTION \<Rightarrow> v\<lparr>b_ret := ret_write (\<lambda>a b. b) (b_ret v) x\<rparr>
        | START_TYPE_DMEMORY_ADDR \<Rightarrow> v\<lparr>b_ram := x\<rparr> | WDT_CTRL_REG \<Rightarrow> wdt_write x v | _ \<Rightarrow> v)\<rparr>"

definition icu_eg :: "bview intc_env" where
  "icu_eg = \<lparr>ie_rd = \<lambda>r v. (if r = ICU_PERI_CLK_PWD then b_pwd v else 0, v),
     ie_wr = \<lambda>r x v. (if r = ICU_PERI_CLK_PWD then v\<lparr>b_pwd := x\<rparr> else v),
     ie_run = \<lambda>_ v. v, ie_irda = \<lambda>_ v. (0, v), ie_wake = \<lambda>_ v. v\<rparr>"

definition reset_eg :: "reset_kind \<Rightarrow> bview \<Rightarrow> bview" where
  "reset_eg k v =
     (case k of
        RPower \<Rightarrow> \<lparr>b_ret = 0, b_ram = 0, b_wake = RESET_SOURCE_POWERON, b_pwd = 0xFFFFFFFF, b_armed = None, b_period = 0\<rparr>
      | RWdt \<Rightarrow> v\<lparr>b_ret := b_ret v OR 0x10000, b_wake := RESET_SOURCE_POWERON\<rparr>
      | RWake g \<Rightarrow> v\<lparr>b_wake := (if g then RESET_SOURCE_DEEPPS_GPIO else RESET_SOURCE_DEEPPS_RTC)\<rparr>)"

lemma boot_eg_chip: "boot_chip icu_eg boot_eg (\<lambda>a b. b) False id" "reset_laws reset_eg dog_on id"
  by (simp_all add: boot_chip_def boot_eg_def icu_eg_def Let_def ROSC_TIMER_INT_STATUS_BIT_def)
    (auto simp: reset_laws_def reset_eg_def Let_def CRASH_XAT0_VALUE_def)

definition life_eg :: "bview restart" where
  "life_eg = \<lparr>rs_hw = reset_eg RPower \<lparr>b_ret = 9, b_ram = 7, b_wake = RESET_SOURCE_UNKNOWN, b_pwd = 0, b_armed = None, b_period = 0\<rparr>,
     g_wdt_period = 0, start_type = RESET_SOURCE_UNKNOWN\<rparr>"

definition told :: "life_event list \<Rightarrow> reset_reason option" where
  "told xs = map_option (\<lambda>s. lf_reason (life_of id s)) (life_run icu_eg boot_eg reset_eg dog_on (PowerCycle # xs) life_eg)"

lemma restart_history_witness:
  "told [] = Some TUYA_RESET_REASON_POWERON \<and> told [Reboot] = Some TUYA_RESET_REASON_SOFTWARE \<and>
   told [DogStart 90000, DogRefresh, Hang] = Some TUYA_RESET_REASON_HW_WDOG \<and>
   told [Reboot, DogStart 1000, Hang] = Some TUYA_RESET_REASON_SOFTWARE \<and>
   told [JumpZero] = Some TUYA_RESET_REASON_FAULT \<and> told [WakeUp True] = Some TUYA_RESET_REASON_DEEPSLEEP \<and>
   told [Trap Dabt] = None \<and> told [Reboot, Hang] = None"
proof -
  have t: "told xs = map_option lf_reason (spec_lives (\<lambda>a b. b) False (PowerCycle # xs) (life_of id life_eg))" for xs
    using restart_history [OF boot_eg_chip, of xs life_eg]
    unfolding told_def by (metis (no_types) option.map_comp comp_apply map_option_cong)
  show ?thesis unfolding t
    by (simp add: spec_hang_def life_start_def running_def note_reason_def Let_def)
qed

end
