(* ===== verification/Spec2Isabelle.thy ===== *)
theory Spec2Isabelle
  imports Ringbuf Queue HashMap Tools SmartPtr MemHeapClient NetParamFlow OtaFlow UartFlow ButtonFlow ButtonList Intc FakeClock TimerFlow GpioFlow RestartFlow
begin

text \<open>
  A verification library for the TuyaOS board support of the BK7231N: the utilities that the adapter brings along, and
  the stacks from the flash chip, the serial ports, the timers, the pins, the watchdog and the interrupt controller up to
  the interfaces of TuyaOS. Paths are relative to \<^verbatim>\<open>src/\<close>;
  \<^verbatim>\<open>utilities/\<close> is \<^verbatim>\<open>tuyaos/tuyaos_adapter/include/utilities/\<close>, \<^verbatim>\<open>beken378/\<close> is \<^verbatim>\<open>beken_os/beken378/\<close>.


  Parts and how they interact

  The utilities are independent of the hardware. \<^verbatim>\<open>tuya_queue.c\<close> is built on \<^verbatim>\<open>tuya_list.c\<close> and \<^verbatim>\<open>tuya_hashmap.c\<close> on
  \<^verbatim>\<open>tuya_hlist.h\<close>; \<^verbatim>\<open>tuya_ringbuf.c\<close>, \<^verbatim>\<open>tuya_mem_heap.c\<close>, \<^verbatim>\<open>tuya_smartpointer.c\<close> and \<^verbatim>\<open>tuya_tools.c\<close> stand alone.

  The flash stack goes from the registers up: the driver \<^verbatim>\<open>flash.c\<close> registers itself with the device model
  \<^verbatim>\<open>drv_model.c\<close>; the partitions of \<^verbatim>\<open>BkDriverFlash.c\<close> and the interface \<^verbatim>\<open>tkl_flash.c\<close> open, control, read and write that
  device; the network parameters \<^verbatim>\<open>net_param.c\<close> use the partitions and the device, the firmware update \<^verbatim>\<open>tkl_ota.c\<close> uses
  \<^verbatim>\<open>tkl_flash.c\<close>. In the serial stack \<^verbatim>\<open>uart_bk.c\<close> keeps its bytes in the FIFO of \<^verbatim>\<open>fifo.h\<close>, and its interrupt routines call
  back into what was registered through \<^verbatim>\<open>BkDriverUart.c\<close> and \<^verbatim>\<open>tkl_uart.c\<close>. The buttons of \<^verbatim>\<open>multi_button.c\<close> are ticked by
  a timer. The routines of the drivers hang on the dispatcher \<^verbatim>\<open>intc.c\<close>, which asks the interrupt controller \<^verbatim>\<open>icu.c\<close> what is
  pending. \<^verbatim>\<open>tkl_timer.c\<close> keeps the callbacks of six timers that \<^verbatim>\<open>BkDriverTimer.c\<close> sets up in the driver \<^verbatim>\<open>bk_timer.c\<close>. The pins of
  \<^verbatim>\<open>tkl_gpio.c\<close> are those of \<^verbatim>\<open>BkDriverGpio.c\<close> over the driver \<^verbatim>\<open>gpio.c\<close>, whose interrupt routine calls back the same way. The
  system clock \<^verbatim>\<open>fake_clock.c\<close> counts the ticks of such a timer; \<^verbatim>\<open>mcu_ps.c\<close> makes up for the ticks that sleeping costs.
  A restart is brought about by the watchdog \<^verbatim>\<open>wdt.c\<close>: \<^verbatim>\<open>bk_reboot\<close>, the traps and the refreshing of the watchdog leave notes in
  registers that survive it, from which \<^verbatim>\<open>start_type.c\<close> tells the next start, and \<^verbatim>\<open>tkl_system.c\<close> the application, the reason.


  Theories

  \<^item> Prelude: widths, result codes, checked copies and array accesses, 32-bit arithmetic, loops over a range.
  \<^item> Fifo: the locale \<open>fifo\<close>, the contract of a first-in first-out buffer. It is interpreted by Ringbuf, Queue and Kfifo,
    which prove with it that any history of operations delivers what was accepted, in order.
  \<^item> Ringbuf (\<^verbatim>\<open>utilities/src/tuya_ringbuf.c\<close>): the record \<open>ringbuff\<close> is \<^verbatim>\<open>TUYA_RINGBUFF_T\<close> with its 16-bit indices; both
    overflow policies, the copies around the end of the array, the bytes a write accepts.
  \<^item> DList (\<^verbatim>\<open>utilities/src/tuya_list.c\<close>): circular lists in a store of pointers, locale \<open>linked_seq\<close>; Queue
    (\<^verbatim>\<open>utilities/src/tuya_queue.c\<close>): the items in those lists, with the balance of the lock.
  \<^item> HList (\<^verbatim>\<open>utilities/include/tuya_hlist.h\<close>), HashMap (\<^verbatim>\<open>utilities/src/tuya_hashmap.c\<close>): chained buckets over a store, the locale
    \<open>multimap\<close>, and the table-driven CRC against the serial one.
  \<^item> Tools (\<^verbatim>\<open>utilities/src/tuya_tools.c\<close>): hex strings, byte order, comparisons, sorting, checks of strings.
  \<^item> SmartPtr (\<^verbatim>\<open>utilities/src/tuya_smartpointer.c\<close>): reference counts over a heap of blocks.
  \<^item> MemHeap, MemHeapInv, MemHeapOps, MemHeapClient (\<^verbatim>\<open>utilities/src/tuya_mem_heap.c\<close>): the code over byte-addressed 32-bit memory;
    the layout of a heap and its invariant; what each operation does to it; the heap as its callers see it (locale
    \<open>heap_allocator\<close>: live blocks are apart and keep their bytes).
  \<^item> DrvModel (\<^verbatim>\<open>beken378/driver/common/drv_model.c\<close>): the tables of devices, use counts, handles. Drivers are functions on
    the state of all drivers (\<open>world\<close>).
  \<^item> FlashDrv (\<^verbatim>\<open>beken378/driver/flash/flash.c\<close>): the driver, register by register; FlashSpec: what the controller and the chip
    promise, and what each driver operation then does; FlashDev: the driver behind the device model.
  \<^item> BkFlash (\<^verbatim>\<open>beken378/func/user_driver/BkDriverFlash.c\<close>), TklFlash (\<^verbatim>\<open>tuyaos/tuyaos_adapter/src/tkl_flash.c\<close>).
  \<^item> NetParam, NetParamFlow (\<^verbatim>\<open>beken378/func/net_param_intf/net_param.c\<close>): the table of items in its sector, and the map it
    implements through any history of saves.
  \<^item> Ota, OtaFlow (\<^verbatim>\<open>tuyaos/tuyaos_adapter/src/tkl_ota.c\<close>): the update, packet by packet; the locale \<open>flash_service\<close> is what it
    needs of the flash, interpreted by TklFlash.
  \<^item> Kfifo (\<^verbatim>\<open>beken378/common/fifo.h\<close>): counters that run freely modulo \<open>2 ^ 32\<close>.
  \<^item> UartDrv (\<^verbatim>\<open>beken378/driver/uart/uart_bk.c\<close>), TklUart (\<^verbatim>\<open>beken378/func/user_driver/BkDriverUart.c\<close>,
    \<^verbatim>\<open>tuyaos/tuyaos_adapter/src/tkl_uart.c\<close>), UartFlow: what sending, receiving and the interrupt routines deliver.
  \<^item> MultiButton (\<^verbatim>\<open>beken378/func/key/multi_button.c\<close>): the machine of a button with its bit fields; ButtonFlow: its events,
    timing and way back to idle; ButtonList: the list of the started buttons.
  \<^item> Intc (\<^verbatim>\<open>beken378/driver/intc/intc.c\<close>, \<^verbatim>\<open>beken378/driver/icu/icu.c\<close>, \<^verbatim>\<open>beken378/common/doubly_list.h\<close>): the commands of the
    interrupt controller, the list of handlers ordered by priority, the dispatch of an interrupt.
  \<^item> FakeClock (\<^verbatim>\<open>beken378/func/misc/fake_clock.c\<close>, \<^verbatim>\<open>beken378/func/power_save/mcu_ps.c\<close>): the tick counter, the seconds, the
    calibration against the hardware clock, the ticks that are added or dropped.
  \<^item> Timers, TimerFlow (\<^verbatim>\<open>beken378/driver/pwm/bk_timer.c\<close>, \<^verbatim>\<open>beken378/func/user_driver/BkDriverTimer.c\<close>,
    \<^verbatim>\<open>tuyaos/tuyaos_adapter/src/tkl_timer.c\<close>): the three layers of the timers; the six independent channels they implement.
  \<^item> Gpio, GpioFlow (\<^verbatim>\<open>beken378/driver/gpio/gpio.c\<close>, \<^verbatim>\<open>beken378/driver/include/gpio_pub.h\<close>,
    \<^verbatim>\<open>beken378/func/user_driver/BkDriverGpio.c\<close>, \<^verbatim>\<open>tuyaos/tuyaos_adapter/src/tkl_gpio.c\<close> and \<^verbatim>\<open>tkl_pinmux.c\<close>): the layers of the
    pins, the second functions, the interrupts; the forty pins they implement.
  \<^item> Restart, RestartFlow (\<^verbatim>\<open>beken378/driver/wdt/wdt.c\<close>, \<^verbatim>\<open>beken378/func/user_driver/BkDriverWdg.c\<close>,
    \<^verbatim>\<open>beken378/func/misc/start_type.c\<close>, \<^verbatim>\<open>tuyaos/tuyaos_adapter/src/tkl_watchdog.c\<close> and \<^verbatim>\<open>tkl_system.c\<close>; \<^verbatim>\<open>bk_reboot\<close> of
    \<^verbatim>\<open>wlan_ui.c\<close>, the traps of \<^verbatim>\<open>intc.c\<close>, \<^verbatim>\<open>entry_main\<close> of \<^verbatim>\<open>arch_main.c\<close>): the watchdog and the notes; the lives of a device, one
    event after the other.


  Conventions

  A C structure is a record, an enumeration a datatype (with a function to its codes where the code computes with them), an
  integer a word of its width; the heap manager uses natural numbers with the wrap-around written out. A definition has the
  name of the function it models. Its result is in \<open>option\<close> where the C code may access memory out of bounds, use a null
  pointer, fail an assertion or wait for ever: that a theorem has \<open>Some\<close> there says that none of it happens. Loops over data
  are structurally recursive; loops that wait for hardware or follow pointers are partial functions of the option monad
  without fuel, and the theorems prove that they return.

  Hardware is a parameter: functions that say what reading and writing a register does. What the manuals promise of it is a
  predicate (\<open>flash_chip\<close>, \<open>uart_chip\<close>, \<open>timer_chip\<close> with \<open>timer_expires\<close>, \<open>gpio_chip\<close> with \<open>gpio_triggers\<close>, \<open>boot_chip\<close> with \<open>reset_laws\<close>)
  that the theorems assume, and each has a witness with a concrete, executable chip.
  The routines behind the interrupts are the parameter
  \<open>intc_env\<close>, the shift by 32 or more, which C leaves open, is the parameter \<open>gp_shl\<close>. A start that ends in an endless loop has the
  state in which it spins as its result, and the watchdog, if it runs, ends it. Allocation is a parameter or a model of its own. Interrupts are off in the modelled sections, so operations are steps, and
  histories are lists of operations.


  What the theorems show

  \<^item> Histories against an abstract specification: the ring buffer, the queue and the byte FIFO (lists), the hash
    map (a table of lists; a multimap as long as every removal finds something), the heap (a set of live blocks), the
    use counts of devices (a number of users), the network parameters (a map), the update of the firmware (an image in
    the flash if and only if its checksum is right, however the stream is cut into packets), the started buttons (a
    list without repetition), the interrupt handlers (one slot per priority, the pending ones served in their order),
    the timers (six channels, each expiry calling the current callback), the pins (forty, of which the first 32 can
    interrupt, against tables of their own for modes, functions and triggers), the restarts (which reason is reported
    after reboots, hangs, traps, jumps to 0 and wake-ups, and when a device hangs for good).
  \<^item> The outcome of single operations on every branch: queue, hash map, heap, flash driver,
    \<^verbatim>\<open>tkl_flash.c\<close>, serial ports.
  \<^item> Timing of the buttons: the events of a press of any length and of any number of clicks, what the fields can
    hold, and that a button left alone comes to rest.
  \<^item> Time: ticks, seconds and countdown of the system clock stay consistent whatever is added, whether power
    saving is on or off and after resets; a calibration corrects by what the hardware clock says within its limits; a
    debt of ticks is repaid. Periods of the timers, in milliseconds and microseconds.
  \<^item> Round trips (ring buffer, hex strings, flash protection), the equivalence of the CRC routines, bounds.
  \<^item> Where the code does not do what it means to, the theorem states what it does: removing a missing key,
    unregistering a simple device, lowered flash protection, an update without a header, a starved reader on the
    second serial port, baud rates below 3174, four bits for the number of clicks, a handler registered twice that
    makes the dispatcher walk in a circle, an unknown flash chip that is left unprotected, a copied buffer released
    through an interior pointer, an interrupt of a pin that is enabled by its set-up and by nothing else,
    pending interrupts lost by clearing one, periods that wrap around, pins whose interrupts never come or come though
    disabled, an unknown function that takes pin 0, restarts reported with an old reason.


  Not modelled

  The vendored libraries (wolfSSL, wpa_supplicant, hostapd, lwIP, FatFs, FreeRTOS and the media codecs) and the wireless
  stacks, of which the repository has mostly headers and archives; the drivers of single peripherals without state beyond
  their registers; the adapters that pass a call on to the kernel or to a driver; formatted printing. Of the modelled files: the installation of the vector table and the power-on of the interrupt
  controller, the code that sets up the timer behind the system clock, the start-up timing test of \<^verbatim>\<open>gpio.c\<close> and the test thread in
  \<^verbatim>\<open>tkl_gpio.c\<close>, the factory test that a pin selects at the start, and the sleeping itself in \<^verbatim>\<open>mcu_ps.c\<close>, which is a
  sequence of calls into the wireless stack. Concurrency is modelled
  as the order of whole operations, not inside them. The device model cannot express that opening a serial port registers
  the port a second time while the table is being searched, since a driver function changes the state of the drivers but
  not the table itself: UartDrv records that call.
\<close>

end
